(* ===== verification/Prelude.thy ===== *)
theory Prelude
  imports Main "HOL-Library.List_Lexorder" "HOL-Library.Char_ord"
begin

section \<open>Shared notions\<close>

text \<open>
  What every component uses: identifiers, tables of rows keyed by an identifier,
  dictionaries built from a list of pairs, the early exit of a loop that may raise, and the
  few operations of Python's \<open>str\<close> the code calls. Strings are lists of
  characters; \<open>str.lower\<close> and \<open>str.strip\<close> are given for the
  ASCII range, which is the alphabet of every literal of the source.
\<close>

type_synonym uuid = nat

named_theorems frame "what an operation leaves alone"
named_theorems keys "the identifiers of a table after an operation"

subsection \<open>Loops that may raise\<close>

text \<open>A \<open>for\<close> loop over a list whose body may raise: the first error ends it.\<close>

fun foldres :: "('a \<Rightarrow> 's \<Rightarrow> 'e + 's) \<Rightarrow> 'a list \<Rightarrow> 's \<Rightarrow> 'e + 's" where
  "foldres f [] s = Inr s"
| "foldres f (x # xs) s = (case f x s of Inl e \<Rightarrow> Inl e | Inr s' \<Rightarrow> foldres f xs s')"

lemma foldres_append:
  "foldres f (xs @ ys) s = (case foldres f xs s of Inl e \<Rightarrow> Inl e | Inr s' \<Rightarrow> foldres f ys s')"
  by (induction xs arbitrary: s) (auto split: sum.splits)

lemma foldres_inv:
  assumes "foldres f xs s = Inr s'" and "P s"
    and "\<And>x s s'. x \<in> set xs \<Longrightarrow> P s \<Longrightarrow> f x s = Inr s' \<Longrightarrow> P s'"
  shows "P s'"
  using assms
proof (induction xs arbitrary: s)
  case Nil
  then show ?case by simp
next
  case (Cons x xs)
  from Cons.prems(1) obtain s1 where s1: "f x s = Inr s1" "foldres f xs s1 = Inr s'"
    by (auto split: sum.splits)
  have "P s1" using Cons.prems(2,3) s1(1) by (meson list.set_intros(1))
  then show ?case using Cons.IH[OF s1(2)] Cons.prems(3) by (meson list.set_intros(2))
qed

lemma foldl_inv:
  assumes "P s" and "\<And>x s. x \<in> set xs \<Longrightarrow> P s \<Longrightarrow> P (f s x)"
  shows "P (foldl f s xs)"
  using assms by (induction xs arbitrary: s) auto

subsection \<open>Tables\<close>

text \<open>
  A table is the list of its rows in the order they were inserted; \<open>tget\<close> is
  \<open>session.get\<close> by primary key and \<open>tupd\<close> the assignment to
  attributes of the row with that key.
\<close>

definition tget :: "('r \<Rightarrow> uuid) \<Rightarrow> uuid \<Rightarrow> 'r list \<Rightarrow> 'r option" where
  "tget key i rows = find (\<lambda>r. key r = i) rows"

definition tupd :: "('r \<Rightarrow> uuid) \<Rightarrow> uuid \<Rightarrow> ('r \<Rightarrow> 'r) \<Rightarrow> 'r list \<Rightarrow> 'r list" where
  "tupd key i f rows = map (\<lambda>r. if key r = i then f r else r) rows"

lemma tget_simps [simp]:
  "tget key i [] = None"
  "tget key i (r # rows) = (if key r = i then Some r else tget key i rows)"
  by (simp_all add: tget_def)

lemma tget_SomeD: "tget key i rows = Some r \<Longrightarrow> r \<in> set rows \<and> key r = i"
  by (induction rows) (auto split: if_splits)

lemma tget_None_iff: "tget key i rows = None \<longleftrightarrow> i \<notin> key ` set rows"
  by (induction rows) auto

lemma tget_distinct:
  "distinct (map key rows) \<Longrightarrow> r \<in> set rows \<Longrightarrow> tget key (key r) rows = Some r"
  by (induction rows) (auto simp: image_iff)

lemma tget_append:
  "tget key i (xs @ ys) = (case tget key i xs of None \<Rightarrow> tget key i ys | Some r \<Rightarrow> Some r)"
  by (induction xs) auto

lemma tupd_Nil [simp]: "tupd key i f [] = []"
  by (simp add: tupd_def)

lemma tupd_absent: "i \<notin> key ` set rows \<Longrightarrow> tupd key i f rows = rows"
  unfolding tupd_def by (rule map_idI) auto

lemma length_tupd [simp]: "length (tupd key i f rows) = length rows"
  by (simp add: tupd_def)

lemma set_tupd: "set (tupd key i f rows) = (\<lambda>r. if key r = i then f r else r) ` set rows"
  by (simp add: tupd_def)

text \<open>
  An update that keeps the primary key. Every assignment of the code is one: no operation
  assigns to an \<open>id\<close> column.
\<close>

locale keyed_update =
  fixes key :: "'r \<Rightarrow> uuid" and f :: "'r \<Rightarrow> 'r"
  assumes key_kept: "key (f r) = key r"
begin

lemma keys_tupd: "map key (tupd key i f rows) = map key rows"
  by (simp add: tupd_def key_kept)

lemma tget_tupd:
  "tget key j (tupd key i f rows) = (if j = i then map_option f (tget key i rows) else tget key j rows)"
  by (induction rows) (auto simp: tupd_def key_kept)

lemma map_tupd_other:
  assumes "\<And>r. g (f r) = g r"
  shows "map g (tupd key i f rows) = map g rows"
  by (simp add: tupd_def assms)

end

subsection \<open>Primary keys\<close>

text \<open>
  The primary keys of a table are distinct and below the next identifier to be given; rows
  inserted together get consecutive ones.
\<close>

definition pk_ok :: "('r \<Rightarrow> uuid) \<Rightarrow> uuid \<Rightarrow> 'r list \<Rightarrow> bool" where
  "pk_ok key n rows \<longleftrightarrow> distinct (map key rows) \<and> (\<forall>r \<in> set rows. key r < n)"

definition insert_rows :: "(uuid \<Rightarrow> 'x \<Rightarrow> 'r) \<Rightarrow> uuid \<Rightarrow> 'x list \<Rightarrow> 'r list" where
  "insert_rows mk n xs = map2 mk [n..<n + length xs] xs"

lemma insert_rows_Nil [simp]: "insert_rows mk n [] = []"
  by (simp add: insert_rows_def)

lemma insert_rows_Cons [simp]: "insert_rows mk n (x # xs) = mk n x # insert_rows mk (Suc n) xs"
  by (simp add: insert_rows_def upt_conv_Cons del: upt_Suc)

lemma length_insert_rows [simp]: "length (insert_rows mk n xs) = length xs"
  by (simp add: insert_rows_def)

lemma map_insert_rows:
  assumes "\<And>i x. f (mk i x) = g x"
  shows "map f (insert_rows mk n xs) = map g xs"
  using assms by (induction xs arbitrary: n) auto

lemma set_insert_rows:
  "r \<in> set (insert_rows mk n xs) \<Longrightarrow> \<exists>i x. n \<le> i \<and> i < n + length xs \<and> x \<in> set xs \<and> r = mk i x"
proof (induction xs arbitrary: n)
  case (Cons x xs)
  show ?case
  proof (cases "r = mk n x")
    case True
    then show ?thesis by force
  next
    case False
    then have "r \<in> set (insert_rows mk (Suc n) xs)" using Cons.prems by simp
    from Cons.IH[OF this] obtain i y where
      "Suc n \<le> i" "i < Suc n + length xs" "y \<in> set xs" "r = mk i y" by blast
    then show ?thesis by (intro exI[of _ i] exI[of _ y]) simp
  qed
qed simp

lemma keys_insert_rows:
  assumes "\<And>i x. key (mk i x) = i"
  shows "map key (insert_rows mk n xs) = [n..<n + length xs]"
  using assms by (induction xs arbitrary: n) (auto simp: upt_conv_Cons simp del: upt_Suc)

lemma pk_ok_Nil [simp]: "pk_ok key n []"
  by (simp add: pk_ok_def)

lemma pk_ok_distinct: "pk_ok key n rows \<Longrightarrow> distinct (map key rows)"
  by (simp add: pk_ok_def)

lemma pk_ok_mono: "pk_ok key n rows \<Longrightarrow> n \<le> m \<Longrightarrow> pk_ok key m rows"
  by (fastforce simp: pk_ok_def)

lemma pk_ok_snoc: "pk_ok key n rows \<Longrightarrow> key r = n \<Longrightarrow> pk_ok key (Suc n) (rows @ [r])"
  by (fastforce simp: pk_ok_def)

lemma pk_ok_filter: "pk_ok key n rows \<Longrightarrow> pk_ok key n (filter P rows)"
  by (auto simp: pk_ok_def distinct_map_filter)

lemma pk_ok_tget: "pk_ok key n rows \<Longrightarrow> r \<in> set rows \<Longrightarrow> tget key (key r) rows = Some r"
  by (simp add: pk_ok_def tget_distinct)

lemma pk_ok_inj:
  assumes "pk_ok key n rows" "x \<in> set rows" "y \<in> set rows" "key x = key y"
  shows "x = y"
proof -
  have "inj_on key (set rows)" using assms(1) by (simp add: pk_ok_def distinct_map)
  from inj_onD[OF this assms(4,2,3)] show ?thesis .
qed

lemma pk_ok_keys: "map key rows' = map key rows \<Longrightarrow> pk_ok key n rows \<Longrightarrow> pk_ok key n rows'"
  unfolding pk_ok_def by (metis (mono_tags, lifting) imageE imageI set_map)

lemma pk_ok_insert_rows:
  assumes "pk_ok key n rows" and mk: "\<And>i x. key (mk i x) = i"
  shows "pk_ok key (n + length xs) (rows @ insert_rows mk n xs)"
proof -
  have keys: "key ` set (insert_rows mk n xs) = {n..<n + length xs}"
    using keys_insert_rows[of key mk n xs, OF mk] by (metis set_map set_upt)
  have "\<forall>r \<in> set (insert_rows mk n xs). n \<le> key r \<and> key r < n + length xs"
    using keys by (metis atLeastLessThan_iff imageI)
  moreover have "distinct (map key (insert_rows mk n xs))"
    using keys_insert_rows[of key mk n xs, OF mk] by simp
  moreover have "key ` set rows \<inter> key ` set (insert_rows mk n xs) = {}"
    using assms(1) unfolding keys pk_ok_def by fastforce
  ultimately show ?thesis using assms(1) by (fastforce simp: pk_ok_def)
qed

subsection \<open>Dictionaries and joins\<close>

text \<open>\<open>{k: v for ...}\<close>: a later pair overwrites an earlier one with its key.\<close>

definition dict_of :: "('k \<times> 'v) list \<Rightarrow> 'k \<Rightarrow> 'v option" where
  "dict_of ps = map_of (rev ps)"

lemma dict_of_Nil [simp]: "dict_of [] = Map.empty"
  by (simp add: dict_of_def)

lemma dict_of_SomeD: "dict_of ps k = Some v \<Longrightarrow> (k, v) \<in> set ps"
  by (metis dict_of_def map_of_SomeD set_rev)

lemma dict_of_None_iff: "dict_of ps k = None \<longleftrightarrow> k \<notin> fst ` set ps"
  by (simp add: dict_of_def map_of_eq_None_iff)

lemma dict_of_distinct:
  "distinct (map fst ps) \<Longrightarrow> dict_of ps k = Some v \<longleftrightarrow> (k, v) \<in> set ps"
  by (simp add: dict_of_def distinct_map rev_map[symmetric])

text \<open>\<open>d[k] = v\<close> on a dictionary that is iterated: the key keeps its place.\<close>

fun dput :: "'k \<Rightarrow> 'v \<Rightarrow> ('k \<times> 'v) list \<Rightarrow> ('k \<times> 'v) list" where
  "dput k v [] = [(k, v)]"
| "dput k v ((k', v') # d) = (if k' = k then (k, v) # d else (k', v') # dput k v d)"

lemma map_of_dput [simp]: "map_of (dput k v d) = (map_of d)(k \<mapsto> v)"
  by (induction d) (auto simp: fun_eq_iff)

lemma keys_dput: "fst ` set (dput k v d) = insert k (fst ` set d)"
  by (simp flip: dom_map_of_conv_image_fst)

lemma distinct_dput: "distinct (map fst d) \<Longrightarrow> distinct (map fst (dput k v d))"
proof (induction d)
  case (Cons x d)
  then show ?case
    using keys_dput[of k v d] by (cases x) (auto simp flip: set_map)
qed simp

text \<open>A loop of assignments to a dictionary, and one that appends to a dictionary of lists
  (\<open>setdefault(k, []).append(v)\<close>).\<close>

definition dput_all :: "('a \<Rightarrow> 'k) \<Rightarrow> ('a \<Rightarrow> 'v) \<Rightarrow> ('k \<times> 'v) list \<Rightarrow> 'a list \<Rightarrow> ('k \<times> 'v) list" where
  "dput_all k v d xs = foldl (\<lambda>d x. dput (k x) (v x) d) d xs"

definition dappend :: "'k \<Rightarrow> 'v \<Rightarrow> ('k \<times> 'v list) list \<Rightarrow> ('k \<times> 'v list) list" where
  "dappend k v d = dput k ((case map_of d k of None \<Rightarrow> [] | Some vs \<Rightarrow> vs) @ [v]) d"

definition dappend_all ::
  "('a \<Rightarrow> 'k) \<Rightarrow> ('a \<Rightarrow> 'v) \<Rightarrow> ('k \<times> 'v list) list \<Rightarrow> 'a list \<Rightarrow> ('k \<times> 'v list) list" where
  "dappend_all k v d xs = foldl (\<lambda>d x. dappend (k x) (v x) d) d xs"

lemma map_of_dput_all:
  "map_of (dput_all k v d xs) = map_of d ++ map_of (rev (map (\<lambda>x. (k x, v x)) xs))"
  by (induction xs arbitrary: d)
    (auto simp: dput_all_def map_add_def fun_eq_iff split: option.splits)

lemma distinct_dput_all: "distinct (map fst d) \<Longrightarrow> distinct (map fst (dput_all k v d xs))"
  unfolding dput_all_def by (rule foldl_inv) (auto intro: distinct_dput)

lemma map_of_dappend_all:
  "map_of (dappend_all k v d xs) c =
     (let vs = map v (filter (\<lambda>x. k x = c) xs)
      in if vs = [] then map_of d c
         else Some ((case map_of d c of None \<Rightarrow> [] | Some ws \<Rightarrow> ws) @ vs))"
proof (induction xs arbitrary: d)
  case (Cons x xs)
  have "dappend_all k v d (x # xs) = dappend_all k v (dappend (k x) (v x) d) xs"
    by (simp add: dappend_all_def)
  then show ?case
    by (simp only: Cons.IH) (simp add: Let_def dappend_def split: option.split)
qed (simp add: dappend_all_def)

lemma distinct_dappend_all: "distinct (map fst d) \<Longrightarrow> distinct (map fst (dappend_all k v d xs))"
  unfolding dappend_all_def by (rule foldl_inv) (auto simp: dappend_def intro: distinct_dput)

text \<open>An inner join on a foreign key: each row with the one row it refers to, if any.\<close>

definition join_on :: "('a \<Rightarrow> 'b option) \<Rightarrow> 'a list \<Rightarrow> ('a \<times> 'b) list" where
  "join_on get rows = List.map_filter (\<lambda>r. map_option (Pair r) (get r)) rows"

lemma join_on_simps [simp]:
  "join_on get [] = []"
  "join_on get (r # rows) =
     (case get r of None \<Rightarrow> join_on get rows | Some s \<Rightarrow> (r, s) # join_on get rows)"
  by (simp_all add: join_on_def List.map_filter_simps split: option.split)

lemma in_join_on: "(r, s) \<in> set (join_on get rows) \<longleftrightarrow> r \<in> set rows \<and> get r = Some s"
  by (induction rows) (auto split: option.split)

lemma join_on_append: "join_on get (xs @ ys) = join_on get xs @ join_on get ys"
  by (induction xs) (auto split: option.split)

lemma join_on_cong:
  "(\<And>r. r \<in> set rows \<Longrightarrow> get r = get' r) \<Longrightarrow> join_on get rows = join_on get' rows"
  by (induction rows) (auto split: option.split)

subsection \<open>Python strings\<close>

definition py_lower_char :: "char \<Rightarrow> char" where
  "py_lower_char c =
     (let n = (of_char c :: nat)
      in if 65 \<le> n \<and> n \<le> 90 \<or> 192 \<le> n \<and> n \<le> 222 \<and> n \<noteq> 215 then char_of (n + 32) else c)"

definition py_lower :: "string \<Rightarrow> string" where
  "py_lower s = map py_lower_char s"

definition py_space :: "char \<Rightarrow> bool" where
  "py_space c = (let n = (of_char c :: nat) in n \<in> {32, 133, 160} \<or> (9 \<le> n \<and> n \<le> 13) \<or> (28 \<le> n \<and> n \<le> 31))"

definition py_strip :: "string \<Rightarrow> string" where
  "py_strip s = rev (dropWhile py_space (rev (dropWhile py_space s)))"

fun py_join :: "string \<Rightarrow> string list \<Rightarrow> string" where
  "py_join sep [] = []"
| "py_join sep [s] = s"
| "py_join sep (s # t # ts) = s @ sep @ py_join sep (t # ts)"

fun str_nat :: "nat \<Rightarrow> string" where
  "str_nat n =
     (if n < 10 then [char_of (48 + n)] else str_nat (n div 10) @ [char_of (48 + n mod 10)])"

declare str_nat.simps [simp del]

definition str_int :: "int \<Rightarrow> string" where
  "str_int n = (if n < 0 then ''-'' @ str_nat (nat (- n)) else str_nat (nat n))"

lemma py_lower_append: "py_lower (s @ t) = py_lower s @ py_lower t"
  by (simp add: py_lower_def)

lemma py_lower_char_idem: "py_lower_char (py_lower_char c) = py_lower_char c"
proof (cases "65 \<le> (of_char c :: nat) \<and> (of_char c :: nat) \<le> 90 \<or>
    192 \<le> (of_char c :: nat) \<and> (of_char c :: nat) \<le> 222 \<and> (of_char c :: nat) \<noteq> 215")
  case True
  then have "(of_char c :: nat) + 32 < 256" by auto
  then have "of_char (char_of ((of_char c :: nat) + 32) :: char) = (of_char c :: nat) + 32"
    by (simp add: of_char_of take_bit_eq_mod)
  then show ?thesis using True by (auto simp add: py_lower_char_def Let_def)
next
  case False
  then show ?thesis by (auto simp add: py_lower_char_def Let_def)
qed

lemma py_lower_idem [simp]: "py_lower (py_lower s) = py_lower s"
  by (simp add: py_lower_def py_lower_char_idem)

lemma hd_rev_dropWhile_rev: "s \<noteq> [] \<Longrightarrow> \<not> P (hd s) \<Longrightarrow> hd (rev (dropWhile P (rev s))) = hd s"
  by (cases s) (simp_all add: dropWhile_append)

lemma py_strip_idem [simp]: "py_strip (py_strip s) = py_strip s"
proof -
  define t where "t = dropWhile py_space s"
  define u where "u = rev (dropWhile py_space (rev t))"
  have u: "py_strip s = u" by (simp add: py_strip_def t_def u_def)
  have t: "t = [] \<or> \<not> py_space (hd t)"
    unfolding t_def by (metis hd_dropWhile)
  have "dropWhile py_space u = u"
  proof (cases "t = []")
    case True
    then show ?thesis by (simp add: u_def)
  next
    case False
    then have "hd u = hd t" using t by (simp add: u_def hd_rev_dropWhile_rev)
    then show ?thesis using t False by (simp add: dropWhile_eq_self_iff)
  qed
  moreover have "dropWhile py_space (rev u) = rev u"
    by (simp add: u_def)
  ultimately show ?thesis unfolding u by (simp add: py_strip_def u_def)
qed

end
