(* ===== verification/Assessment_Rules.thy ===== *)
theory Assessment_Rules
  imports Prelude "HOL-Library.Multiset"
begin

section \<open>The assessment rules\<close>

text \<open>
  \<open>backend/app/assessment.py\<close>: the vocabularies of the assessment layer and its
  pure functions. The dictionaries that are iterated are association lists, the ones that are
  only looked up are functions into \<open>option\<close>; an objective identifier is the
  \<open>uuid\<close> whose \<open>str\<close> the code passes around.
\<close>

subsection \<open>Vocabularies\<close>

datatype control_status =
  NotMet | PendingEvidence | Partial | Met | NotApplicable | Inherited | NeedsReview

datatype responsibility = ProviderSatisfies | Shared | CustomerOwns | ExternalSystem

datatype assessment_status = InProgress | Submitted | Closed

datatype org_product_status = Candidate | Active | Decommissioned

text \<open>\<open>baseline.Classification\<close> and the \<open>coverage_basis\<close> vocabulary of
  \<open>baseline_control\<close>.\<close>

datatype classification = ClsProvider | ClsShared | ClsCustomer

datatype coverage_basis = CustomerSystem | PlatformOnly | Assists

text \<open>The values of the \<open>StrEnum\<close> members, as stored and as printed.\<close>

fun status_value :: "control_status \<Rightarrow> string" where
  "status_value NotMet = ''not_met''"
| "status_value PendingEvidence = ''pending_evidence''"
| "status_value Partial = ''partial''"
| "status_value Met = ''met''"
| "status_value NotApplicable = ''not_applicable''"
| "status_value Inherited = ''inherited''"
| "status_value NeedsReview = ''needs_review''"

fun responsibility_value :: "responsibility \<Rightarrow> string" where
  "responsibility_value ProviderSatisfies = ''provider_satisfies''"
| "responsibility_value Shared = ''shared''"
| "responsibility_value CustomerOwns = ''customer_owns''"
| "responsibility_value ExternalSystem = ''external_system''"

fun org_product_status_value :: "org_product_status \<Rightarrow> string" where
  "org_product_status_value Candidate = ''candidate''"
| "org_product_status_value Active = ''active''"
| "org_product_status_value Decommissioned = ''decommissioned''"

lemma status_value_inj [simp]: "status_value s = status_value t \<longleftrightarrow> s = t"
  by (cases s; cases t) simp_all

subsection \<open>The SPRS score\<close>

definition SPRS_MAX :: int where "SPRS_MAX = 110"

definition satisfied :: "control_status \<Rightarrow> bool" where
  "satisfied s \<longleftrightarrow> s \<in> {Met, Inherited}"

text \<open>The returned set is the list of its members, one per key of the dictionary.\<close>

definition deducting_controls ::
  "(string \<times> uuid list) list \<Rightarrow> (uuid \<Rightarrow> control_status option) \<Rightarrow> string list" where
  "deducting_controls objectives_by_control objective_statuses =
     map fst (filter (\<lambda>(control_id, objectives).
         objectives \<noteq> [] \<and>
         \<not> list_all (\<lambda>obj. satisfied (case objective_statuses obj of None \<Rightarrow> NotMet | Some s \<Rightarrow> s))
             objectives)
       objectives_by_control)"

definition compute_sprs ::
  "(string \<times> int) list \<Rightarrow> (string \<times> uuid list) list \<Rightarrow> (uuid \<Rightarrow> control_status option) \<Rightarrow> int" where
  "compute_sprs control_weights objectives_by_control objective_statuses =
     (let deducting = deducting_controls objectives_by_control objective_statuses
      in SPRS_MAX - sum_list (map snd (filter (\<lambda>(c, w). c \<in> set deducting) control_weights)))"

subsection \<open>The magic loop's updates\<close>

record baseline_entry =
  be_control_id :: string
  be_objectives :: "string list"
  be_classification :: classification

record state_update =
  su_objective_id :: uuid
  su_status :: control_status
  su_responsibility :: responsibility

definition entry_updates ::
  "(string \<times> string \<Rightarrow> uuid option) \<Rightarrow> baseline_entry \<Rightarrow> state_update list" where
  "entry_updates objective_lookup entry =
     (if be_classification entry = ClsCustomer then []
      else
        let responsibility =
              (if be_classification entry = ClsProvider then ProviderSatisfies else Shared)
        in List.map_filter
             (\<lambda>obj_key. map_option
                (\<lambda>obj_id. \<lparr>su_objective_id = obj_id, su_status = PendingEvidence,
                          su_responsibility = responsibility\<rparr>)
                (objective_lookup (be_control_id entry, obj_key)))
             (be_objectives entry))"

definition magic_loop_updates ::
  "baseline_entry list \<Rightarrow> (string \<times> string \<Rightarrow> uuid option) \<Rightarrow> state_update list" where
  "magic_loop_updates baseline_entries objective_lookup =
     concat (map (entry_updates objective_lookup) baseline_entries)"

subsection \<open>Contributors\<close>

definition resolve_contributor_responsibility :: "classification list \<Rightarrow> responsibility" where
  "resolve_contributor_responsibility classifications =
     (if ClsShared \<in> set classifications then Shared else ProviderSatisfies)"

text \<open>A person's answer arrives as a string; only these two are \<open>ActivationChoice\<close>s.\<close>

definition KEEP :: string where "KEEP = ''keep''"
definition CHOICE_NEEDS_REVIEW :: string where "CHOICE_NEEDS_REVIEW = ''needs_review''"

definition activation_choices :: "string list" where
  "activation_choices = [KEEP, CHOICE_NEEDS_REVIEW]"

definition JUDGED_STATUSES :: "control_status list" where
  "JUDGED_STATUSES = [Met, Partial, NotApplicable, Inherited]"

definition ACTIVATION_DEFAULTS :: "control_status \<Rightarrow> string option" where
  "ACTIVATION_DEFAULTS s =
     (case s of Met \<Rightarrow> Some CHOICE_NEEDS_REVIEW
      | Partial \<Rightarrow> Some CHOICE_NEEDS_REVIEW
      | NotApplicable \<Rightarrow> Some KEEP
      | Inherited \<Rightarrow> Some KEEP
      | _ \<Rightarrow> None)"

definition is_judgement_in_question :: "control_status \<Rightarrow> bool \<Rightarrow> bool" where
  "is_judgement_in_question current_status is_first_contributor \<longleftrightarrow>
     is_first_contributor \<and> current_status \<in> set JUDGED_STATUSES"

definition contributor_added_status ::
  "control_status \<Rightarrow> bool \<Rightarrow> string option \<Rightarrow> control_status" where
  "contributor_added_status current_status is_first_contributor choice =
     (if \<not> is_first_contributor then current_status
      else if current_status = NeedsReview then NeedsReview
      else if current_status \<in> set JUDGED_STATUSES then
        (if choice = Some KEEP then current_status else NeedsReview)
      else PendingEvidence)"

subsection \<open>Facts about the score\<close>

lemma in_deducting_controls:
  "c \<in> set (deducting_controls obc st) \<longleftrightarrow>
     (\<exists>os. (c, os) \<in> set obc \<and> (\<exists>obj \<in> set os. \<not> satisfied (case st obj of None \<Rightarrow> NotMet | Some s \<Rightarrow> s)))"
proof
  assume "c \<in> set (deducting_controls obc st)"
  then show "\<exists>os. (c, os) \<in> set obc \<and>
      (\<exists>obj \<in> set os. \<not> satisfied (case st obj of None \<Rightarrow> NotMet | Some s \<Rightarrow> s))"
    by (auto simp: deducting_controls_def list_all_iff)
next
  assume "\<exists>os. (c, os) \<in> set obc \<and>
      (\<exists>obj \<in> set os. \<not> satisfied (case st obj of None \<Rightarrow> NotMet | Some s \<Rightarrow> s))"
  then obtain os where os: "(c, os) \<in> set obc"
    "\<exists>obj \<in> set os. \<not> satisfied (case st obj of None \<Rightarrow> NotMet | Some s \<Rightarrow> s)" by blast
  then have "os \<noteq> []" by auto
  then have "(c, os) \<in> set (filter (\<lambda>(c, objs). objs \<noteq> [] \<and>
      \<not> list_all (\<lambda>obj. satisfied (case st obj of None \<Rightarrow> NotMet | Some s \<Rightarrow> s)) objs) obc)"
    using os by (auto simp: list_all_iff)
  then show "c \<in> set (deducting_controls obc st)"
    unfolding deducting_controls_def set_map by (metis (no_types, lifting) fst_conv imageI)
qed

text \<open>The deduction is the weights of the deducting controls.\<close>

lemma sum_filter_mono:
  assumes "\<And>x. x \<in> set xs \<Longrightarrow> 0 \<le> snd x" and "\<And>x. x \<in> set xs \<Longrightarrow> P x \<Longrightarrow> Q x"
  shows "sum_list (map snd (filter P xs)) \<le> (sum_list (map snd (filter Q xs)) :: int)"
  using assms by (induction xs) (auto intro: add_mono simp: add_increasing)

lemma compute_sprs_antimono:
  assumes "\<And>c w. (c, w) \<in> set ws \<Longrightarrow> 0 \<le> w"
    and "set (deducting_controls obc st) \<subseteq> set (deducting_controls obc' st')"
  shows "compute_sprs ws obc' st' \<le> compute_sprs ws obc st"
proof -
  have "sum_list (map snd (filter (\<lambda>(c, w). c \<in> set (deducting_controls obc st)) ws))
      \<le> sum_list (map snd (filter (\<lambda>(c, w). c \<in> set (deducting_controls obc' st')) ws))"
    using assms by (intro sum_filter_mono) auto
  then show ?thesis by (simp add: compute_sprs_def Let_def)
qed

lemma compute_sprs_le_max:
  assumes "\<And>c w. (c, w) \<in> set ws \<Longrightarrow> 0 \<le> w"
  shows "compute_sprs ws obc st \<le> SPRS_MAX"
proof -
  have "0 \<le> sum_list (map snd (filter (\<lambda>(c, w). c \<in> set (deducting_controls obc st)) ws))"
    using assms by (intro sum_list_nonneg) auto
  then show ?thesis by (simp add: compute_sprs_def Let_def)
qed

lemma compute_sprs_ge:
  assumes "\<And>c w. (c, w) \<in> set ws \<Longrightarrow> 0 \<le> w"
  shows "SPRS_MAX - sum_list (map snd ws) \<le> compute_sprs ws obc st"
proof -
  have "sum_list (map snd (filter (\<lambda>(c, w). c \<in> set (deducting_controls obc st)) ws))
      \<le> sum_list (map snd (filter (\<lambda>_. True) ws))"
    using assms by (intro sum_filter_mono) auto
  then show ?thesis by (simp add: compute_sprs_def Let_def)
qed

lemma sum_list_replicate_weights:
  assumes "mset (map snd ws) =
      mset (replicate 44 5 @ replicate 14 3 @ replicate 52 (1::int))"
  shows "sum_list (map snd ws) = 314"
proof -
  have "sum_list (map snd ws) = sum_list (replicate 44 5 @ replicate 14 3 @ replicate 52 (1::int))"
    using assms by (metis sum_mset_sum_list)
  also have "\<dots> = 314" by (simp add: sum_list_replicate)
  finally show ?thesis .
qed

end
