(* ===== verification/Date_Time.thy ===== *)
theory Date_Time
  imports Prelude
begin

section \<open>Dates and times\<close>

text \<open>
  The part of Python's \<open>datetime\<close> and \<open>calendar\<close> the code uses. Every
  datetime of the program is in UTC; it is its year, month, day and microsecond of the day, and
  two are compared field by field, as Python compares datetimes of one time zone. A
  \<open>timedelta\<close> is its number of microseconds.
\<close>

datatype datetime = DT (dt_year: int) (dt_month: int) (dt_day: int) (dt_micro: int)

definition micros_per_day :: int where "micros_per_day = 86400000000"

definition is_leap :: "int \<Rightarrow> bool" where
  "is_leap y \<longleftrightarrow> y mod 4 = 0 \<and> (y mod 100 \<noteq> 0 \<or> y mod 400 = 0)"

text \<open>\<open>calendar.monthrange(year, month)[1]\<close>.\<close>

definition days_in_month :: "int \<Rightarrow> int \<Rightarrow> int" where
  "days_in_month y m =
     (if m = 2 then (if is_leap y then 29 else 28)
      else if m \<in> {4, 6, 9, 11} then 30 else 31)"

fun valid_datetime :: "datetime \<Rightarrow> bool" where
  "valid_datetime (DT y m d us) \<longleftrightarrow>
     1 \<le> y \<and> y \<le> 9999 \<and> 1 \<le> m \<and> m \<le> 12 \<and> 1 \<le> d \<and> d \<le> days_in_month y m \<and>
     0 \<le> us \<and> us < micros_per_day"

definition days_before_year :: "int \<Rightarrow> int" where
  "days_before_year y = (y - 1) * 365 + (y - 1) div 4 - (y - 1) div 100 + (y - 1) div 400"

definition days_before_month :: "int \<Rightarrow> int \<Rightarrow> int" where
  "days_before_month y m = (\<Sum>k \<leftarrow> [1..m - 1]. days_in_month y k)"

text \<open>\<open>date.toordinal\<close>, and the instant in microseconds that subtraction of two
  datetimes compares.\<close>

fun ordinal :: "datetime \<Rightarrow> int" where
  "ordinal (DT y m d us) = days_before_year y + days_before_month y m + d"

definition instant :: "datetime \<Rightarrow> int" where
  "instant t = ordinal t * micros_per_day + dt_micro t"

text \<open>\<open>(a - b).days\<close>: Python rounds towards minus infinity, as \<open>div\<close> does.\<close>

definition days_between :: "datetime \<Rightarrow> datetime \<Rightarrow> int" where
  "days_between a b = (instant a - instant b) div micros_per_day"

instantiation datetime :: linorder
begin

definition less_eq_datetime :: "datetime \<Rightarrow> datetime \<Rightarrow> bool" where
  "less_eq_datetime a b \<longleftrightarrow>
     dt_year a < dt_year b \<or> dt_year a = dt_year b \<and>
     (dt_month a < dt_month b \<or> dt_month a = dt_month b \<and>
      (dt_day a < dt_day b \<or> dt_day a = dt_day b \<and> dt_micro a \<le> dt_micro b))"

definition less_datetime :: "datetime \<Rightarrow> datetime \<Rightarrow> bool" where
  "less_datetime a b \<longleftrightarrow> a \<le> b \<and> \<not> b \<le> a"

instance
proof
  fix x y z :: datetime
  show "x < y \<longleftrightarrow> x \<le> y \<and> \<not> y \<le> x" by (rule less_datetime_def)
  show "x \<le> x" by (simp add: less_eq_datetime_def)
  show "x \<le> z" if "x \<le> y" "y \<le> z"
    using that unfolding less_eq_datetime_def by linarith
  show "x = y" if "x \<le> y" "y \<le> x"
    using that unfolding less_eq_datetime_def by (intro datetime.expand) auto
  show "x \<le> y \<or> y \<le> x" unfolding less_eq_datetime_def by linarith
qed

end

subsection \<open>The day after\<close>

text \<open>\<open>moment + timedelta(days=n)\<close> for \<open>n \<ge> 0\<close>; Python raises
  \<open>OverflowError\<close> past the year 9999, which no deadline of the program reaches.\<close>

fun next_day :: "datetime \<Rightarrow> datetime" where
  "next_day (DT y m d us) =
     (if d < days_in_month y m then DT y m (d + 1) us
      else if m < 12 then DT y (m + 1) 1 us
      else DT (y + 1) 1 1 us)"

definition plus_days :: "datetime \<Rightarrow> nat \<Rightarrow> datetime" where
  "plus_days t n = (next_day ^^ n) t"

subsection \<open>The order of datetimes is the order of instants\<close>

lemma days_in_month_bounds: "28 \<le> days_in_month y m \<and> days_in_month y m \<le> 31"
  by (simp add: days_in_month_def)

lemma days_before_month_Suc:
  "1 \<le> m \<Longrightarrow> days_before_month y (m + 1) = days_before_month y m + days_in_month y m"
  by (simp add: days_before_month_def upto_rec2[of 1 m])

lemma days_before_month_mono:
  assumes "1 \<le> m" "m \<le> n"
  shows "days_before_month y m \<le> days_before_month y n"
  using assms(2)
proof (induction n rule: int_ge_induct)
  case base
  then show ?case by simp
next
  case (step n)
  then show ?case
    using days_before_month_Suc[of n y] days_in_month_bounds[of y n] assms(1) by linarith
qed

lemma days_before_month_13: "days_before_month y 13 = (if is_leap y then 366 else 365)"
  by (simp add: days_before_month_def days_in_month_def upto_rec1)

lemma div_pred:
  assumes "0 < (k::int)"
  shows "y div k = (y - 1) div k + (if y mod k = 0 then 1 else 0)"
proof (cases "y mod k = 0")
  case True
  then obtain q where "y = k * q" by auto
  then have "(y - 1) div k = q - 1"
    using assms by (intro int_div_pos_eq[of _ _ _ "k - 1"]) (auto simp: algebra_simps)
  then show ?thesis using True \<open>y = k * q\<close> assms by simp
next
  case False
  then have "1 \<le> y mod k" using assms by (smt (verit) pos_mod_sign)
  moreover have "y mod k < k" using assms by simp
  moreover have "y = k * (y div k) + y mod k" by simp
  ultimately have "(y - 1) div k = y div k"
    by (intro int_div_pos_eq[of _ _ _ "y mod k - 1"]; linarith)
  then show ?thesis using False by simp
qed

lemma leap_rule:
  "(if is_leap y then 1 else 0 :: int) =
     (if y mod 4 = 0 then 1 else 0) - (if y mod 100 = 0 then 1 else 0) + (if y mod 400 = 0 then 1 else 0)"
proof -
  have 1: "y mod 100 = 0" if "y mod 400 = 0"
    using that mod_mod_cancel[of 100 400 y] by simp
  have 2: "y mod 4 = 0" if "y mod 100 = 0"
    using that mod_mod_cancel[of 4 100 y] by simp
  have 3: "(if P \<and> (\<not> Q \<or> R) then 1 else 0 :: int) =
      (if P then 1 else 0) - (if Q then 1 else 0) + (if R then 1 else 0)"
    if "R \<longrightarrow> Q" "Q \<longrightarrow> P" for P Q R using that by (cases P; cases Q; cases R) simp_all
  show ?thesis unfolding is_leap_def by (rule 3) (use 1 2 in blast)+
qed

lemma days_before_year_Suc:
  "days_before_year (y + 1) = days_before_year y + days_before_month y 13"
proof -
  define a b c l :: int where "a = (if y mod 4 = 0 then 1 else 0)"
    and "b = (if y mod 100 = 0 then 1 else 0)" and "c = (if y mod 400 = 0 then 1 else 0)"
    and "l = (if is_leap y then 1 else 0)"
  have "y div 4 = (y - 1) div 4 + a" "y div 100 = (y - 1) div 100 + b"
    "y div 400 = (y - 1) div 400 + c" "l = a - b + c"
    unfolding a_def b_def c_def l_def by (rule div_pred leap_rule, simp?)+
  moreover have "days_before_month y 13 = 365 + l"
    by (simp add: days_before_month_13 l_def)
  ultimately show ?thesis unfolding days_before_year_def add_diff_cancel_right'
    by (simp only: left_diff_distrib distrib_right)
qed

lemma days_before_year_mono:
  assumes "y \<le> z"
  shows "days_before_year y \<le> days_before_year z"
  using assms
proof (induction z rule: int_ge_induct)
  case base
  then show ?case by simp
next
  case (step z)
  then show ?case
    using days_before_year_Suc[of z] by (simp add: days_before_month_13 split: if_splits)
qed

lemma day_within_year:
  assumes "valid_datetime (DT y m d us)"
  shows "days_before_month y m + d \<le> days_before_month y 13" "0 < days_before_month y m + d"
proof -
  have m: "1 \<le> m" "m \<le> 12" "1 \<le> d" "d \<le> days_in_month y m" using assms by auto
  have "days_before_month y m + d \<le> days_before_month y (m + 1)"
    using days_before_month_Suc[of m y] m by linarith
  also have "\<dots> \<le> days_before_month y 13" using m by (intro days_before_month_mono) auto
  finally show "days_before_month y m + d \<le> days_before_month y 13" .
  have "days_before_month y 1 \<le> days_before_month y m" using m by (intro days_before_month_mono) auto
  then show "0 < days_before_month y m + d" using m by (simp add: days_before_month_def)
qed

lemma ordinal_less:
  assumes "valid_datetime (DT y m d us)" "valid_datetime (DT y' m' d' us')"
    and "y < y' \<or> y = y' \<and> (m < m' \<or> m = m' \<and> d < d')"
  shows "ordinal (DT y m d us) < ordinal (DT y' m' d' us')"
proof -
  consider "y < y'" | "y = y'" "m < m'" | "y = y'" "m = m'" "d < d'" using assms(3) by blast
  then show ?thesis
  proof cases
    case 1
    have "ordinal (DT y m d us) \<le> days_before_year (y + 1)"
      using day_within_year(1)[OF assms(1)] by (simp add: days_before_year_Suc)
    also have "\<dots> \<le> days_before_year y'" using 1 by (intro days_before_year_mono) simp
    also have "\<dots> < ordinal (DT y' m' d' us')" using day_within_year(2)[OF assms(2)] by simp
    finally show ?thesis .
  next
    case 2
    have "days_before_month y m + d \<le> days_before_month y (m + 1)"
      using assms(1) days_before_month_Suc[of m y] by simp
    also have "\<dots> \<le> days_before_month y m'"
      using 2 assms(1) by (intro days_before_month_mono) auto
    finally show ?thesis using 2 assms(2) by simp
  next
    case 3
    then show ?thesis by simp
  qed
qed

lemma instant_strict_mono:
  assumes "valid_datetime a" "valid_datetime b" "a < b"
  shows "instant a < instant b"
proof -
  obtain y m d us y' m' d' us' where ab: "a = DT y m d us" "b = DT y' m' d' us'"
    by (metis datetime.exhaust)
  have us: "0 \<le> us" "us < micros_per_day" "0 \<le> us'" "us' < micros_per_day"
    using assms(1,2) ab by auto
  have "\<not> b \<le> a" using assms(3) by simp
  then have "(y < y' \<or> y = y' \<and> (m < m' \<or> m = m' \<and> d < d')) \<or> (y = y' \<and> m = m' \<and> d = d' \<and> us < us')"
    unfolding less_eq_datetime_def ab datetime.sel
    using linorder_less_linear[of y y'] linorder_less_linear[of m m']
      linorder_less_linear[of d d'] linorder_le_less_linear[of us' us] by blast
  then consider "y < y' \<or> y = y' \<and> (m < m' \<or> m = m' \<and> d < d')"
    | "y = y'" "m = m'" "d = d'" "us < us'" by blast
  then show ?thesis
  proof cases
    case 1
    then have "ordinal a + 1 \<le> ordinal b" 
      using ordinal_less[of y m d us y' m' d' us'] assms(1,2) unfolding ab by linarith
    then have "(ordinal a + 1) * micros_per_day \<le> ordinal b * micros_per_day"
      by (intro mult_right_mono) (auto simp: micros_per_day_def)
    then have "ordinal a * micros_per_day + micros_per_day \<le> ordinal b * micros_per_day"
      by (simp only: distrib_right mult_1)
    then show ?thesis using us unfolding instant_def ab datetime.sel by linarith
  next
    case 2
    then show ?thesis using ab by (simp add: instant_def)
  qed
qed

lemma instant_le_iff:
  assumes "valid_datetime a" "valid_datetime b"
  shows "instant a \<le> instant b \<longleftrightarrow> a \<le> b"
  using assms by (metis instant_strict_mono linorder_not_le order.order_iff_strict)

lemma valid_next_day:
  assumes "valid_datetime t" "dt_year t < 9999"
  shows "valid_datetime (next_day t)"
proof (cases t)
  case (DT y m d us)
  have "1 \<le> days_in_month y' m'" for y' m' using days_in_month_bounds[of y' m'] by linarith
  then show ?thesis using assms DT by auto
qed

lemma instant_next_day:
  assumes "valid_datetime t"
  shows "instant (next_day t) = instant t + micros_per_day"
proof (cases t)
  case (DT y m d us)
  then have m: "1 \<le> m" "m \<le> 12" "d \<le> days_in_month y m" using assms by auto
  have "ordinal (next_day t) = ordinal t + 1"
  proof (cases "d < days_in_month y m")
    case True
    then show ?thesis using DT by simp
  next
    case False
    then have d: "d = days_in_month y m" using m by simp
    show ?thesis
    proof (cases "m < 12")
      case True
      then show ?thesis using DT d days_before_month_Suc[of m y] m by simp
    next
      case False
      then have "m = 12" using m by simp
      then show ?thesis
        using DT d days_before_year_Suc[of y] days_before_month_Suc[of 12 y]
        by (simp add: days_before_month_def[of _ 1])
    qed
  qed
  moreover have "dt_micro (next_day t) = dt_micro t" using DT by simp
  ultimately show ?thesis by (simp add: instant_def algebra_simps)
qed

lemma plus_days_0 [simp]: "plus_days t 0 = t"
  by (simp add: plus_days_def)

lemma plus_days_Suc: "plus_days t (Suc n) = next_day (plus_days t n)"
  by (simp add: plus_days_def)

lemma next_day_year: "dt_year (next_day t) \<le> dt_year t + 1"
  by (cases t) simp

lemma plus_days_year: "dt_year (plus_days t n) \<le> dt_year t + int n"
  by (induction n) (auto simp: plus_days_Suc intro: order_trans[OF next_day_year])

lemma plus_days_valid_instant:
  assumes "valid_datetime t" "dt_year t + int n \<le> 9999"
  shows "valid_datetime (plus_days t n) \<and> instant (plus_days t n) = instant t + int n * micros_per_day"
  using assms(2)
proof (induction n)
  case 0
  then show ?case using assms(1) by simp
next
  case (Suc n)
  then have IH: "valid_datetime (plus_days t n)"
    "instant (plus_days t n) = instant t + int n * micros_per_day" by auto
  have "dt_year (plus_days t n) < 9999" using plus_days_year[of t n] Suc.prems by simp
  then show ?case
    using IH valid_next_day instant_next_day by (simp add: plus_days_Suc algebra_simps)
qed

lemma next_day_later: "valid_datetime t \<Longrightarrow> t < next_day t"
  by (cases t) (auto simp: less_datetime_def less_eq_datetime_def)

lemma plus_days_ge:
  assumes "valid_datetime t" "dt_year t + int n \<le> 9999"
  shows "t \<le> plus_days t n"
  using plus_days_valid_instant[OF assms] assms(1) instant_le_iff[of t "plus_days t n"]
  by (simp add: micros_per_day_def)

subsection \<open>Months later\<close>

text \<open>\<open>document_reviews.add_months\<close>, with the day clamped to the month it falls in
  (Python's \<open>//\<close> and \<open>%\<close> are \<open>div\<close> and \<open>mod\<close>). The
  \<open>interval\<close> of months of PostgreSQL clamps the same way.\<close>

fun add_months :: "datetime \<Rightarrow> int \<Rightarrow> datetime" where
  "add_months (DT y m d us) months =
     (if months = 0 then DT y m d us
      else let zero_based = m - 1 + months;
               year = y + zero_based div 12;
               month = zero_based mod 12 + 1;
               day = min d (days_in_month year month)
           in DT year month day us)"

text \<open>The month counted from year 0: what \<open>add_months\<close> adds to.\<close>

definition month_index :: "datetime \<Rightarrow> int" where
  "month_index t = dt_year t * 12 + dt_month t - 1"

lemma add_months_0 [simp]: "add_months t 0 = t"
  by (cases t) simp

lemma add_months_index: "month_index (add_months t k) = month_index t + k"
  by (cases t) (auto simp: month_index_def Let_def)

lemma add_months_day:
  "k \<noteq> 0 \<Longrightarrow> dt_day (add_months t k) =
     min (dt_day t) (days_in_month (dt_year (add_months t k)) (dt_month (add_months t k)))"
  by (cases t) (simp add: Let_def)

lemma add_months_micro [simp]: "dt_micro (add_months t k) = dt_micro t"
  by (cases t) (simp add: Let_def)

lemma add_months_month: "1 \<le> dt_month t \<Longrightarrow> dt_month t \<le> 12 \<Longrightarrow>
    1 \<le> dt_month (add_months t k) \<and> dt_month (add_months t k) \<le> 12"
  by (cases t) (auto simp: Let_def intro: order_trans[OF less_imp_le[OF pos_mod_bound]])

lemma valid_datetime_sel:
  "valid_datetime t \<longleftrightarrow> 1 \<le> dt_year t \<and> dt_year t \<le> 9999 \<and> 1 \<le> dt_month t \<and> dt_month t \<le> 12 \<and>
     1 \<le> dt_day t \<and> dt_day t \<le> days_in_month (dt_year t) (dt_month t) \<and>
     0 \<le> dt_micro t \<and> dt_micro t < micros_per_day"
  by (cases t) simp

lemma add_months_valid:
  assumes "valid_datetime t" "1 \<le> dt_year (add_months t k)" "dt_year (add_months t k) \<le> 9999"
  shows "valid_datetime (add_months t k)"
proof (cases "k = 0")
  case False
  have "1 \<le> days_in_month y m" for y m using days_in_month_bounds[of y m] by linarith
  then show ?thesis
    using assms add_months_month[of t k] add_months_day[OF False, of t] by (simp add: valid_datetime_sel)
qed (use assms in simp)

text \<open>Datetimes are ordered first by month.\<close>

lemma less_by_month:
  assumes "month_index a < month_index b" "1 \<le> dt_month a" "dt_month a \<le> 12" "1 \<le> dt_month b" "dt_month b \<le> 12"
  shows "a < b"
  using assms by (auto simp: month_index_def less_datetime_def less_eq_datetime_def)

lemma month_index_inj:
  assumes "month_index a = month_index b" "1 \<le> dt_month a" "dt_month a \<le> 12" "1 \<le> dt_month b" "dt_month b \<le> 12"
  shows "dt_year a = dt_year b \<and> dt_month a = dt_month b"
  using assms unfolding month_index_def by presburger

lemma add_months_later:
  assumes "valid_datetime t" "0 < k"
  shows "t < add_months t k"
  using assms add_months_month[of t k]
  by (intro less_by_month) (simp_all add: add_months_index valid_datetime_sel)

lemma add_months_strict:
  assumes "valid_datetime t" "j < k"
  shows "add_months t j < add_months t k"
  using assms add_months_month[of t j] add_months_month[of t k]
  by (intro less_by_month) (simp_all add: add_months_index valid_datetime_sel)

lemma add_months_keeps_day:
  "dt_day t \<le> 28 \<Longrightarrow> dt_day (add_months t k) = dt_day t"
  using days_in_month_bounds[of "dt_year (add_months t k)" "dt_month (add_months t k)"]
  by (cases "k = 0") (simp_all add: add_months_day)

end
