(* ===== verification/Schema.thy ===== *)
theory Schema
  imports Assessment_Rules Date_Time
begin

section \<open>The database\<close>

text \<open>
  \<open>backend/app/models.py\<close>: one record per table, with the columns some modelled
  operation reads or writes (texts that are only displayed, and the
  \<open>created_at\<close>/\<open>updated_at\<close> the server fills, are left out).
  \<open>db\<close> is the session: the tables, the identifier the next inserted row gets
  (\<open>uuid4\<close> never repeats one), the instant \<open>datetime.now(UTC)\<close> returns in
  this request, and the request's actor and address that \<open>audit.py\<close> keeps in context
  variables. A query without \<open>ORDER BY\<close> returns rows in insertion order; a column
  with a \<open>CHECK\<close> on a vocabulary has a datatype.
\<close>

datatype jval =
  JNull | JBool bool | JInt int | JStr string | JUuid uuid
  | JList "jval list" | JObj "(string \<times> jval) list"

type_synonym jdict = "(string \<times> jval) list"

subsection \<open>The catalog and the baseline library\<close>

record organization =
  og_id :: uuid
  og_name :: string
  og_review_cadence_months :: int

record control =
  c_id :: uuid
  c_framework_id :: uuid
  c_control_id :: string
  c_sprs_weight :: int

record objective =
  ob_id :: uuid
  ob_control_id :: uuid
  ob_key :: string
  ob_text :: string

record product =
  p_id :: uuid
  p_key :: string
  p_name :: string
  p_is_published :: bool
  p_current_version_id :: "uuid option"

record baseline_version =
  bv_id :: uuid
  bv_product_id :: uuid
  bv_number :: int

record baseline_control =
  bc_id :: uuid
  bc_product_id :: uuid
  bc_version_id :: uuid
  bc_control_id :: uuid
  bc_objectives :: "string list"
  bc_classification :: classification
  bc_coverage_basis :: coverage_basis

record evidence_spec =
  es_id :: uuid
  es_bcontrol_id :: uuid
  es_artifact :: string
  es_type :: string
  es_kb_reference :: "string option"

subsection \<open>Assessments\<close>

record org_product =
  op_id :: uuid
  op_org_id :: uuid
  op_product_id :: uuid
  op_version_id :: "uuid option"
  op_status :: org_product_status
  op_configured :: bool
  op_notes :: "string option"
  op_activated_at :: "datetime option"
  op_deactivated_at :: "datetime option"
  op_deactivated_by :: "string option"
  op_replaced_by :: "uuid option"

record assessment =
  a_id :: uuid
  a_org_id :: uuid
  a_framework_id :: uuid
  a_name :: string
  a_type :: string
  a_status :: assessment_status
  a_started_at :: datetime
  a_submitted_at :: "datetime option"
  a_sprs_score :: "int option"
  a_locked_at :: "datetime option"

record control_state =
  cs_id :: uuid
  cs_assessment_id :: uuid
  cs_org_id :: uuid
  cs_objective_id :: uuid
  cs_status :: control_status
  cs_responsibility :: responsibility

record contributor =
  ct_id :: uuid
  ct_state_id :: uuid
  ct_product_id :: uuid
  ct_bcontrol_id :: uuid

record history =
  h_id :: uuid
  h_state_id :: uuid
  h_prev_status :: control_status
  h_new_status :: control_status
  h_prev_resp :: responsibility
  h_new_resp :: responsibility
  h_reason :: string

record sprs_snapshot =
  sn_id :: uuid
  sn_assessment_id :: uuid
  sn_org_id :: uuid
  sn_score :: int

subsection \<open>Evidence\<close>

record evidence =
  ev_id :: uuid
  ev_org_id :: uuid
  ev_title :: string
  ev_description :: "string option"
  ev_kind :: string
  ev_artifact_type :: string
  ev_storage_key :: "string option"
  ev_mime_type :: "string option"
  ev_file_size :: "int option"
  ev_collected_at :: datetime
  ev_source_document_version :: "uuid option"
  ev_source_list_version :: "uuid option"
  ev_source_review_cycle :: "uuid option"

record state_link =
  ln_id :: uuid
  ln_evidence_id :: uuid
  ln_state_id :: uuid
  ln_is_archived :: bool
  ln_archived_at :: "datetime option"
  ln_archived_by_product :: "uuid option"
  ln_archive_cause :: "string option"
  ln_detached_by :: "string option"
  ln_detached_at :: "datetime option"

datatype task_status = TaskOpen | TaskCollected | TaskNA

fun task_status_value :: "task_status \<Rightarrow> string" where
  "task_status_value TaskOpen = ''open''"
| "task_status_value TaskCollected = ''collected''"
| "task_status_value TaskNA = ''na''"

record evidence_task =
  tk_id :: uuid
  tk_org_id :: uuid
  tk_assessment_id :: "uuid option"
  tk_spec_id :: "uuid option"
  tk_title :: string
  tk_artifact_type :: string
  tk_status :: task_status
  tk_session :: "string option"
  tk_completed_evidence_id :: "uuid option"
  tk_is_archived :: bool
  tk_archived_at :: "datetime option"

record task_link =
  tl_id :: uuid
  tl_task_id :: uuid
  tl_state_id :: uuid

subsection \<open>People\<close>

record contact =
  co_id :: uuid
  co_org_id :: uuid
  co_name :: string
  co_email :: string

record raci_assignment =
  ra_id :: uuid
  ra_state_id :: uuid
  ra_contact_id :: uuid
  ra_letter :: char

subsection \<open>The audit log and the session\<close>

record audit_log =
  al_id :: uuid
  al_org_id :: "uuid option"
  al_actor :: string
  al_actor_type :: string
  al_action :: string
  al_entity_type :: string
  al_entity_id :: uuid
  al_before :: "jdict option"
  al_after :: "jdict option"
  al_context :: "jdict option"
  al_ip :: "string option"
  al_created_at :: datetime

record db =
  next_id :: uuid
  clock :: datetime
  cur_actor :: "string option"
  cur_actor_type :: "string option"
  cur_ip :: "string option"
  t_org :: "organization list"
  t_control :: "control list"
  t_objective :: "objective list"
  t_product :: "product list"
  t_version :: "baseline_version list"
  t_bcontrol :: "baseline_control list"
  t_spec :: "evidence_spec list"
  t_orgproduct :: "org_product list"
  t_assessment :: "assessment list"
  t_cstate :: "control_state list"
  t_contrib :: "contributor list"
  t_history :: "history list"
  t_snapshot :: "sprs_snapshot list"
  t_evidence :: "evidence list"
  t_link :: "state_link list"
  t_task :: "evidence_task list"
  t_tasklink :: "task_link list"
  t_contact :: "contact list"
  t_raci :: "raci_assignment list"
  t_audit :: "audit_log list"

subsection \<open>\<open>audit.log_event\<close>\<close>

definition MAX_BODY_LEN :: nat where "MAX_BODY_LEN = 4000"

definition TEXT_KEYS :: "string list" where
  "TEXT_KEYS = [''body'', ''description'', ''requirement_text'', ''change_reason'',
     ''practitioner_notes'']"

definition sanitise_key :: "jdict \<Rightarrow> string \<Rightarrow> jdict" where
  "sanitise_key out key =
     (case map_of out key of
        Some (JStr s) \<Rightarrow>
          if MAX_BODY_LEN < length s
          then dput ''body_truncated'' (JBool True) (dput key (JStr (take MAX_BODY_LEN s)) out)
          else out
      | _ \<Rightarrow> out)"

definition sanitise :: "jdict option \<Rightarrow> jdict option" where
  "sanitise value = map_option (\<lambda>d. foldl sanitise_key d TEXT_KEYS) value"

definition or_system :: "string option \<Rightarrow> string" where
  "or_system v = (case v of None \<Rightarrow> ''system'' | Some s \<Rightarrow> if s = '''' then ''system'' else s)"

definition log_event_as ::
  "string option \<Rightarrow> string option \<Rightarrow> uuid option \<Rightarrow> string \<Rightarrow> string \<Rightarrow> uuid
     \<Rightarrow> jdict option \<Rightarrow> jdict option \<Rightarrow> jdict option \<Rightarrow> db \<Rightarrow> db" where
  "log_event_as actor actor_type org action entity_type entity before after ctx s =
     s\<lparr>next_id := Suc (next_id s),
       t_audit := t_audit s @
         [\<lparr>al_id = next_id s, al_org_id = org,
           al_actor = (case actor of Some a \<Rightarrow> a | None \<Rightarrow> or_system (cur_actor s)),
           al_actor_type = (case actor_type of Some a \<Rightarrow> a | None \<Rightarrow> or_system (cur_actor_type s)),
           al_action = action, al_entity_type = entity_type, al_entity_id = entity,
           al_before = sanitise before, al_after = sanitise after, al_context = ctx,
           al_ip = cur_ip s, al_created_at = clock s\<rparr>]\<rparr>"

abbreviation log_event ::
  "uuid \<Rightarrow> string \<Rightarrow> string \<Rightarrow> uuid \<Rightarrow> jdict \<Rightarrow> jdict \<Rightarrow> jdict \<Rightarrow> db \<Rightarrow> db" where
  "log_event org action entity_type entity before after ctx \<equiv>
     log_event_as None None (Some org) action entity_type entity (Some before) (Some after) (Some ctx)"

end
