(* ===== verification/Tables.thy ===== *)
theory Tables
  imports Schema
begin

section \<open>Rows and their invariants\<close>

text \<open>
  Lookups by primary key, the row updates the operations make, and \<open>schema_ok\<close>: the
  keys, uniqueness and check constraints of \<open>models.py\<close>, table by table. It is the
  invariant every operation of the engine preserves, so no constraint but the ones modelled as
  an \<open>IntegrityError\<close> can fail.
\<close>

abbreviation get_control :: "uuid \<Rightarrow> db \<Rightarrow> control option" where
  "get_control i s \<equiv> tget c_id i (t_control s)"
abbreviation get_objective :: "uuid \<Rightarrow> db \<Rightarrow> objective option" where
  "get_objective i s \<equiv> tget ob_id i (t_objective s)"
abbreviation get_product :: "uuid \<Rightarrow> db \<Rightarrow> product option" where
  "get_product i s \<equiv> tget p_id i (t_product s)"
abbreviation get_version :: "uuid \<Rightarrow> db \<Rightarrow> baseline_version option" where
  "get_version i s \<equiv> tget bv_id i (t_version s)"
abbreviation get_bcontrol :: "uuid \<Rightarrow> db \<Rightarrow> baseline_control option" where
  "get_bcontrol i s \<equiv> tget bc_id i (t_bcontrol s)"
abbreviation get_spec :: "uuid \<Rightarrow> db \<Rightarrow> evidence_spec option" where
  "get_spec i s \<equiv> tget es_id i (t_spec s)"
abbreviation get_assessment :: "uuid \<Rightarrow> db \<Rightarrow> assessment option" where
  "get_assessment i s \<equiv> tget a_id i (t_assessment s)"
abbreviation get_state :: "uuid \<Rightarrow> db \<Rightarrow> control_state option" where
  "get_state i s \<equiv> tget cs_id i (t_cstate s)"
abbreviation get_evidence :: "uuid \<Rightarrow> db \<Rightarrow> evidence option" where
  "get_evidence i s \<equiv> tget ev_id i (t_evidence s)"

subsection \<open>Updates of one row\<close>

definition set_state :: "uuid \<Rightarrow> control_status \<Rightarrow> responsibility \<Rightarrow> db \<Rightarrow> db" where
  "set_state i st resp s = s\<lparr>t_cstate :=
     tupd cs_id i (\<lambda>r. r\<lparr>cs_status := st, cs_responsibility := resp\<rparr>) (t_cstate s)\<rparr>"

definition update_link :: "uuid \<Rightarrow> (state_link \<Rightarrow> state_link) \<Rightarrow> db \<Rightarrow> db" where
  "update_link i f s = s\<lparr>t_link := tupd ln_id i f (t_link s)\<rparr>"

definition update_task :: "uuid \<Rightarrow> (evidence_task \<Rightarrow> evidence_task) \<Rightarrow> db \<Rightarrow> db" where
  "update_task i f s = s\<lparr>t_task := tupd tk_id i f (t_task s)\<rparr>"

definition update_assessment :: "uuid \<Rightarrow> (assessment \<Rightarrow> assessment) \<Rightarrow> db \<Rightarrow> db" where
  "update_assessment i f s = s\<lparr>t_assessment := tupd a_id i f (t_assessment s)\<rparr>"

definition update_org_product :: "uuid \<Rightarrow> (org_product \<Rightarrow> org_product) \<Rightarrow> db \<Rightarrow> db" where
  "update_org_product i f s = s\<lparr>t_orgproduct := tupd op_id i f (t_orgproduct s)\<rparr>"

interpretation state_upd:
  keyed_update cs_id "\<lambda>r. r\<lparr>cs_status := st, cs_responsibility := resp\<rparr>" for st resp
  by unfold_locales simp

lemma get_set_state:
  "get_state j (set_state i st resp s) =
     (if j = i then map_option (\<lambda>r. r\<lparr>cs_status := st, cs_responsibility := resp\<rparr>) (get_state i s)
      else get_state j s)"
  by (simp add: set_state_def state_upd.tget_tupd)

lemma map_set_state:
  assumes "\<And>r st resp. g (r\<lparr>cs_status := st, cs_responsibility := resp\<rparr>) = g r"
  shows "map g (t_cstate (set_state i st resp s)) = map g (t_cstate s)"
  by (simp add: set_state_def state_upd.map_tupd_other assms)

subsection \<open>The constraints\<close>

text \<open>The check constraints of \<open>evidence_state_link\<close>: the cause's vocabulary,
  \<open>is_archived = (archive_cause IS NOT NULL)\<close>, and a product only on a deactivation.\<close>

definition DEACTIVATION :: string where "DEACTIVATION = ''deactivation''"
definition DETACHED :: string where "DETACHED = ''detached''"
definition MOVED_FORWARD :: string where "MOVED_FORWARD = ''moved_forward''"
definition ATTESTATION_DETACH :: string where "ATTESTATION_DETACH = ''attestation_detach''"

definition CAUSES :: "string list" where
  "CAUSES = [DEACTIVATION, DETACHED, MOVED_FORWARD, ATTESTATION_DETACH]"

definition link_ok :: "state_link \<Rightarrow> bool" where
  "link_ok l \<longleftrightarrow>
     (case ln_archive_cause l of None \<Rightarrow> \<not> ln_is_archived l
      | Some c \<Rightarrow> ln_is_archived l \<and> c \<in> set CAUSES) \<and>
     (ln_archived_by_product l = None \<or> ln_archive_cause l = Some DEACTIVATION)"

definition states_ok :: "uuid \<Rightarrow> control_state list \<Rightarrow> bool" where
  "states_ok n rows \<longleftrightarrow>
     pk_ok cs_id n rows \<and> distinct (map (\<lambda>r. (cs_assessment_id r, cs_objective_id r)) rows)"

definition contribs_ok :: "uuid \<Rightarrow> contributor list \<Rightarrow> bool" where
  "contribs_ok n rows \<longleftrightarrow>
     pk_ok ct_id n rows \<and> distinct (map (\<lambda>r. (ct_state_id r, ct_product_id r)) rows)"

definition org_products_ok :: "uuid \<Rightarrow> org_product list \<Rightarrow> bool" where
  "org_products_ok n rows \<longleftrightarrow>
     pk_ok op_id n rows \<and> distinct (map (\<lambda>r. (op_org_id r, op_product_id r)) rows)"

definition links_ok :: "uuid \<Rightarrow> state_link list \<Rightarrow> bool" where
  "links_ok n rows \<longleftrightarrow>
     pk_ok ln_id n rows \<and> distinct (map (\<lambda>r. (ln_evidence_id r, ln_state_id r)) rows) \<and>
     (\<forall>r \<in> set rows. link_ok r)"

definition task_links_ok :: "uuid \<Rightarrow> evidence_task list \<Rightarrow> task_link list \<Rightarrow> bool" where
  "task_links_ok n tasks rows \<longleftrightarrow>
     pk_ok tl_id n rows \<and> distinct (map (\<lambda>r. (tl_task_id r, tl_state_id r)) rows) \<and>
     tl_task_id ` set rows \<subseteq> tk_id ` set tasks"

definition catalog_ok :: "db \<Rightarrow> bool" where
  "catalog_ok s \<longleftrightarrow>
     pk_ok c_id (next_id s) (t_control s) \<and> pk_ok ob_id (next_id s) (t_objective s) \<and>
     pk_ok p_id (next_id s) (t_product s) \<and> pk_ok bv_id (next_id s) (t_version s) \<and>
     pk_ok bc_id (next_id s) (t_bcontrol s) \<and> pk_ok es_id (next_id s) (t_spec s)"

definition schema_ok :: "db \<Rightarrow> bool" where
  "schema_ok s \<longleftrightarrow>
     catalog_ok s \<and>
     states_ok (next_id s) (t_cstate s) \<and>
     contribs_ok (next_id s) (t_contrib s) \<and>
     org_products_ok (next_id s) (t_orgproduct s) \<and>
     links_ok (next_id s) (t_link s) \<and>
     pk_ok a_id (next_id s) (t_assessment s) \<and>
     pk_ok tk_id (next_id s) (t_task s) \<and>
     task_links_ok (next_id s) (t_task s) (t_tasklink s)"

lemma states_ok_mono: "states_ok n rows \<Longrightarrow> n \<le> m \<Longrightarrow> states_ok m rows"
  by (auto simp: states_ok_def intro: pk_ok_mono)
lemma contribs_ok_mono: "contribs_ok n rows \<Longrightarrow> n \<le> m \<Longrightarrow> contribs_ok m rows"
  by (auto simp: contribs_ok_def intro: pk_ok_mono)
lemma org_products_ok_mono: "org_products_ok n rows \<Longrightarrow> n \<le> m \<Longrightarrow> org_products_ok m rows"
  by (auto simp: org_products_ok_def intro: pk_ok_mono)
lemma links_ok_mono: "links_ok n rows \<Longrightarrow> n \<le> m \<Longrightarrow> links_ok m rows"
  by (auto simp: links_ok_def intro: pk_ok_mono)
lemma task_links_ok_mono:
  "task_links_ok n tasks rows \<Longrightarrow> n \<le> m \<Longrightarrow> task_links_ok m tasks rows"
  by (auto simp: task_links_ok_def intro: pk_ok_mono)

text \<open>The catalog and the library are written by no operation of the engine.\<close>

definition catalog_eq :: "db \<Rightarrow> db \<Rightarrow> bool" where
  "catalog_eq s s' \<longleftrightarrow>
     t_org s' = t_org s \<and> t_control s' = t_control s \<and> t_objective s' = t_objective s \<and>
     t_product s' = t_product s \<and> t_version s' = t_version s \<and>
     t_bcontrol s' = t_bcontrol s \<and> t_spec s' = t_spec s \<and> t_contact s' = t_contact s \<and>
     t_evidence s' = t_evidence s \<and>
     clock s' = clock s \<and> cur_actor s' = cur_actor s \<and>
     cur_actor_type s' = cur_actor_type s \<and> cur_ip s' = cur_ip s"

lemma catalog_eq_refl [simp]: "catalog_eq s s"
  by (simp add: catalog_eq_def)

lemma catalog_eq_trans: "catalog_eq s t \<Longrightarrow> catalog_eq t u \<Longrightarrow> catalog_eq s u"
  by (simp add: catalog_eq_def)

lemma catalog_ok_mono:
  "catalog_ok s \<Longrightarrow> catalog_eq s s' \<Longrightarrow> next_id s \<le> next_id s' \<Longrightarrow> catalog_ok s'"
  by (auto simp: catalog_ok_def catalog_eq_def intro: pk_ok_mono)

text \<open>The fields an audit entry, or the update of one row, leaves alone.\<close>

lemma log_event_frame [simp]:
  "t_org (log_event_as ac at og a e i b af c s) = t_org s"
  "t_control (log_event_as ac at og a e i b af c s) = t_control s"
  "t_objective (log_event_as ac at og a e i b af c s) = t_objective s"
  "t_product (log_event_as ac at og a e i b af c s) = t_product s"
  "t_version (log_event_as ac at og a e i b af c s) = t_version s"
  "t_bcontrol (log_event_as ac at og a e i b af c s) = t_bcontrol s"
  "t_spec (log_event_as ac at og a e i b af c s) = t_spec s"
  "t_orgproduct (log_event_as ac at og a e i b af c s) = t_orgproduct s"
  "t_assessment (log_event_as ac at og a e i b af c s) = t_assessment s"
  "t_cstate (log_event_as ac at og a e i b af c s) = t_cstate s"
  "t_contrib (log_event_as ac at og a e i b af c s) = t_contrib s"
  "t_history (log_event_as ac at og a e i b af c s) = t_history s"
  "t_snapshot (log_event_as ac at og a e i b af c s) = t_snapshot s"
  "t_evidence (log_event_as ac at og a e i b af c s) = t_evidence s"
  "t_link (log_event_as ac at og a e i b af c s) = t_link s"
  "t_task (log_event_as ac at og a e i b af c s) = t_task s"
  "t_tasklink (log_event_as ac at og a e i b af c s) = t_tasklink s"
  "t_contact (log_event_as ac at og a e i b af c s) = t_contact s"
  "t_raci (log_event_as ac at og a e i b af c s) = t_raci s"
  "clock (log_event_as ac at og a e i b af c s) = clock s"
  "cur_actor (log_event_as ac at og a e i b af c s) = cur_actor s"
  "cur_actor_type (log_event_as ac at og a e i b af c s) = cur_actor_type s"
  "cur_ip (log_event_as ac at og a e i b af c s) = cur_ip s"
  "next_id (log_event_as ac at og a e i b af c s) = Suc (next_id s)"
  by (simp_all add: log_event_as_def)

lemma update_frames [simp]:
  "t_org (set_state i st r s) = t_org s" "t_control (set_state i st r s) = t_control s"
  "t_objective (set_state i st r s) = t_objective s" "t_product (set_state i st r s) = t_product s"
  "t_version (set_state i st r s) = t_version s" "t_bcontrol (set_state i st r s) = t_bcontrol s"
  "t_spec (set_state i st r s) = t_spec s" "t_orgproduct (set_state i st r s) = t_orgproduct s"
  "t_assessment (set_state i st r s) = t_assessment s" "t_contrib (set_state i st r s) = t_contrib s"
  "t_history (set_state i st r s) = t_history s" "t_snapshot (set_state i st r s) = t_snapshot s"
  "t_evidence (set_state i st r s) = t_evidence s" "t_link (set_state i st r s) = t_link s"
  "t_task (set_state i st r s) = t_task s" "t_tasklink (set_state i st r s) = t_tasklink s"
  "t_contact (set_state i st r s) = t_contact s" "t_raci (set_state i st r s) = t_raci s"
  "t_audit (set_state i st r s) = t_audit s" "clock (set_state i st r s) = clock s"
  "cur_actor (set_state i st r s) = cur_actor s"
  "cur_actor_type (set_state i st r s) = cur_actor_type s"
  "cur_ip (set_state i st r s) = cur_ip s" "next_id (set_state i st r s) = next_id s"
  by (simp_all add: set_state_def)

lemma catalog_eq_log_event [simp]: "catalog_eq s (log_event_as ac at og a e i b af c s)"
  by (simp add: catalog_eq_def)

lemma catalog_eq_set_state [simp]: "catalog_eq s (set_state i st r s)"
  by (simp add: catalog_eq_def)

subsection \<open>The constraints after an update\<close>

lemma schema_ok_log_event:
  "schema_ok s \<Longrightarrow> schema_ok (log_event_as ac at og a e i b af c s)"
  by (auto simp: schema_ok_def intro: catalog_ok_mono[of s] states_ok_mono contribs_ok_mono
      org_products_ok_mono links_ok_mono task_links_ok_mono pk_ok_mono)

lemma states_ok_set_state:
  "states_ok n (t_cstate s) \<Longrightarrow> states_ok n (t_cstate (set_state i st r s))"
proof -
  assume ok: "states_ok n (t_cstate s)"
  have "map cs_id (t_cstate (set_state i st r s)) = map cs_id (t_cstate s)"
    by (rule map_set_state) simp
  moreover have "map (\<lambda>r. (cs_assessment_id r, cs_objective_id r)) (t_cstate (set_state i st r s)) =
      map (\<lambda>r. (cs_assessment_id r, cs_objective_id r)) (t_cstate s)"
    by (rule map_set_state) simp
  ultimately show ?thesis using ok pk_ok_keys unfolding states_ok_def by metis
qed

lemma schema_ok_set_state: "schema_ok s \<Longrightarrow> schema_ok (set_state i st r s)"
  unfolding schema_ok_def update_frames
  by (auto intro: states_ok_set_state catalog_ok_mono[of s])

end
