(* ===== verification/Scoring.thy ===== *)
theory Scoring
  imports Tables
begin

section \<open>The stored score\<close>

text \<open>
  \<open>_scoring_inputs\<close>, \<open>_deducting\<close> and \<open>recompute_sprs\<close> of
  \<open>backend/app/engine.py\<close>. The row lock of the assessment serialises concurrent
  recomputes and is the atomicity of one call here; \<open>flush\<close> makes pending writes visible
  to the query, and the model has no unflushed writes.
\<close>

type_synonym scoring_row = "control_state \<times> objective \<times> control"

definition scoring_rows :: "uuid \<Rightarrow> db \<Rightarrow> scoring_row list" where
  "scoring_rows assessment_id s =
     join_on (\<lambda>cs. case get_objective (cs_objective_id cs) s of None \<Rightarrow> None | Some ob \<Rightarrow>
                     map_option (Pair ob) (get_control (ob_control_id ob) s))
       (filter (\<lambda>cs. cs_assessment_id cs = assessment_id) (t_cstate s))"

fun row_control :: "scoring_row \<Rightarrow> string" where "row_control (cs, ob, c) = c_control_id c"
fun row_weight :: "scoring_row \<Rightarrow> int" where "row_weight (cs, ob, c) = c_sprs_weight c"
fun row_objective :: "scoring_row \<Rightarrow> uuid" where "row_objective (cs, ob, c) = cs_objective_id cs"
fun row_status :: "scoring_row \<Rightarrow> control_status" where "row_status (cs, ob, c) = cs_status cs"

type_synonym scoring_inputs =
  "(string \<times> int) list \<times> (string \<times> uuid list) list \<times> (uuid \<times> control_status) list"

fun add_scoring_row :: "scoring_inputs \<Rightarrow> scoring_row \<Rightarrow> scoring_inputs" where
  "add_scoring_row (control_weights, objectives_by_control, objective_statuses) row =
     (let ctrl_id = row_control row; obj_id = row_objective row in
      (dput ctrl_id (row_weight row) control_weights,
       dappend ctrl_id obj_id objectives_by_control,
       dput obj_id (row_status row) objective_statuses))"

definition scoring_inputs :: "uuid \<Rightarrow> db \<Rightarrow> scoring_inputs" where
  "scoring_inputs assessment_id s = foldl add_scoring_row ([], [], []) (scoring_rows assessment_id s)"

definition sprs_of :: "uuid \<Rightarrow> db \<Rightarrow> int" where
  "sprs_of assessment_id s =
     (let (control_weights, objectives_by_control, objective_statuses) = scoring_inputs assessment_id s
      in compute_sprs control_weights objectives_by_control (map_of objective_statuses))"

definition deducting :: "uuid \<Rightarrow> db \<Rightarrow> string list" where
  "deducting assessment_id s =
     (let (_, objectives_by_control, objective_statuses) = scoring_inputs assessment_id s
      in deducting_controls objectives_by_control (map_of objective_statuses))"

definition recompute_sprs :: "uuid \<Rightarrow> db \<Rightarrow> int \<times> db" where
  "recompute_sprs assessment_id s =
     (let score = sprs_of assessment_id s in
      case get_assessment assessment_id s of
        None \<Rightarrow> (score, s)
      | Some a \<Rightarrow>
          (score,
           s\<lparr>next_id := Suc (next_id s),
             t_assessment := tupd a_id assessment_id (\<lambda>r. r\<lparr>a_sprs_score := Some score\<rparr>) (t_assessment s),
             t_snapshot := t_snapshot s @
               [\<lparr>sn_id = next_id s, sn_assessment_id = assessment_id, sn_org_id = a_org_id a,
                 sn_score = score\<rparr>]\<rparr>))"

subsection \<open>What the score is\<close>

text \<open>
  The specification: a control deducts when one of its objectives, in this assessment, is at a
  status that does not satisfy it, and the score is the maximum less the weights of those.
\<close>

definition control_unmet :: "uuid \<Rightarrow> db \<Rightarrow> string \<Rightarrow> bool" where
  "control_unmet assessment_id s c \<longleftrightarrow>
     (\<exists>row \<in> set (scoring_rows assessment_id s).
        row_control row = c \<and> \<not> satisfied (row_status row))"

definition score_current :: "uuid \<Rightarrow> db \<Rightarrow> bool" where
  "score_current assessment_id s \<longleftrightarrow>
     (\<forall>a. get_assessment assessment_id s = Some a \<longrightarrow> a_sprs_score a = Some (sprs_of assessment_id s))"

lemma in_scoring_rows:
  "(cs, ob, c) \<in> set (scoring_rows aid s) \<longleftrightarrow>
     cs \<in> set (t_cstate s) \<and> cs_assessment_id cs = aid \<and>
     get_objective (cs_objective_id cs) s = Some ob \<and> get_control (ob_control_id ob) s = Some c"
  by (auto simp: scoring_rows_def in_join_on split: option.splits)

lemma scoring_rows_cong:
  assumes "t_cstate s' = t_cstate s" "t_objective s' = t_objective s" "t_control s' = t_control s"
  shows "scoring_rows aid s' = scoring_rows aid s"
  unfolding scoring_rows_def assms by (rule refl)

lemma sprs_of_cong:
  assumes "t_cstate s' = t_cstate s" "t_objective s' = t_objective s" "t_control s' = t_control s"
  shows "sprs_of aid s' = sprs_of aid s"
  unfolding sprs_of_def scoring_inputs_def scoring_rows_cong[OF assms] by (rule refl)

text \<open>The three dictionaries are built independently of each other.\<close>

lemma scoring_inputs_eq:
  "scoring_inputs aid s =
     (dput_all row_control row_weight [] (scoring_rows aid s),
      dappend_all row_control row_objective [] (scoring_rows aid s),
      dput_all row_objective row_status [] (scoring_rows aid s))"
proof -
  have "foldl add_scoring_row (w, obc, st) rows =
      (dput_all row_control row_weight w rows, dappend_all row_control row_objective obc rows,
       dput_all row_objective row_status st rows)" for rows w obc st
    by (induction rows arbitrary: w obc st) (auto simp: dput_all_def dappend_all_def Let_def)
  then show ?thesis by (simp add: scoring_inputs_def)
qed

text \<open>Within one assessment an objective has one state, so its status is looked up right.\<close>

lemma scoring_status:
  assumes "states_ok n (t_cstate s)" "row \<in> set (scoring_rows aid s)"
  shows "map_of (dput_all row_objective row_status [] (scoring_rows aid s)) (row_objective row) =
    Some (row_status row)"
proof -
  let ?ps = "rev (map (\<lambda>x. (row_objective x, row_status x)) (scoring_rows aid s))"
  have same: "row_status r2 = row_status row"
    if r2: "r2 \<in> set (scoring_rows aid s)" "row_objective r2 = row_objective row" for r2
  proof -
    obtain cs ob k c2 o2 k2 where rr: "row = (cs, ob, k)" "r2 = (c2, o2, k2)"
      by (metis prod_cases3)
    have "c2 \<in> set (t_cstate s)" "cs \<in> set (t_cstate s)"
      "(cs_assessment_id c2, cs_objective_id c2) = (cs_assessment_id cs, cs_objective_id cs)"
      using r2 assms(2) unfolding rr in_scoring_rows by simp_all
    moreover have "inj_on (\<lambda>r. (cs_assessment_id r, cs_objective_id r)) (set (t_cstate s))"
      using assms(1) unfolding states_ok_def distinct_map by simp
    ultimately have "c2 = cs" by (meson inj_onD)
    then show ?thesis by (simp add: rr)
  qed
  have "row_objective row \<in> fst ` set ?ps" using assms(2) by (force simp: image_iff)
  then obtain v where v: "map_of ?ps (row_objective row) = Some v"
    by (metis map_of_eq_None_iff not_Some_eq)
  then have "(row_objective row, v) \<in> set ?ps" by (rule map_of_SomeD)
  then have "v = row_status row" using same by auto
  then show ?thesis using v by (simp add: map_of_dput_all)
qed

lemma deducting_iff:
  assumes "states_ok n (t_cstate s)"
  shows "c \<in> set (deducting aid s) \<longleftrightarrow> control_unmet aid s c"
proof -
  let ?rows = "scoring_rows aid s"
  let ?obc = "dappend_all row_control row_objective [] ?rows"
  let ?st = "map_of (dput_all row_objective row_status [] ?rows)"
  have dist: "distinct (map fst ?obc)" by (rule distinct_dappend_all) simp
  have obc: "(c, os) \<in> set ?obc \<longleftrightarrow>
      os \<noteq> [] \<and> os = map row_objective (filter (\<lambda>x. row_control x = c) ?rows)" for os
  proof -
    have "(c, os) \<in> set ?obc \<longleftrightarrow> map_of ?obc c = Some os" using dist by simp
    also have "\<dots> \<longleftrightarrow> os \<noteq> [] \<and> os = map row_objective (filter (\<lambda>x. row_control x = c) ?rows)"
      unfolding map_of_dappend_all by (auto simp: Let_def)
    finally show ?thesis .
  qed
  have gen: "(\<exists>os. (os \<noteq> [] \<and> os = A) \<and> (\<exists>x \<in> set os. P x)) \<longleftrightarrow> (\<exists>x \<in> set A. P x)"
    for A :: "uuid list" and P by auto
  have gen2: "(\<exists>x \<in> set (map f (filter P xs)). Q x) \<longleftrightarrow> (\<exists>x \<in> set xs. P x \<and> Q (f x))"
    for f :: "scoring_row \<Rightarrow> uuid" and P Q xs by auto
  have "c \<in> set (deducting aid s) \<longleftrightarrow>
      (\<exists>os. (c, os) \<in> set ?obc \<and>
        (\<exists>obj \<in> set os. \<not> satisfied (case ?st obj of None \<Rightarrow> NotMet | Some t \<Rightarrow> t)))"
    unfolding deducting_def scoring_inputs_eq by (simp only: Let_def case_prod_conv in_deducting_controls)
  also have "\<dots> \<longleftrightarrow> (\<exists>obj \<in> set (map row_objective (filter (\<lambda>x. row_control x = c) ?rows)).
        \<not> satisfied (case ?st obj of None \<Rightarrow> NotMet | Some t \<Rightarrow> t))"
    unfolding obc by (rule gen)
  also have "\<dots> \<longleftrightarrow> (\<exists>row \<in> set ?rows. row_control row = c \<and>
        \<not> satisfied (case ?st (row_objective row) of None \<Rightarrow> NotMet | Some t \<Rightarrow> t))"
    by (rule gen2)
  also have "\<dots> \<longleftrightarrow> control_unmet aid s c"
    unfolding control_unmet_def
    by (rule bex_cong[OF refl]) (simp only: scoring_status[OF assms] option.case)
  finally show ?thesis .
qed

lemma sprs_of_eq: "sprs_of aid s = compute_sprs (fst (scoring_inputs aid s)) (fst (snd (scoring_inputs aid s)))
    (map_of (snd (snd (scoring_inputs aid s))))"
  by (simp add: sprs_of_def case_prod_unfold Let_def)

lemma sprs_of_deducting:
  "sprs_of aid s = SPRS_MAX - sum_list (map snd (filter (\<lambda>(c, w). c \<in> set (deducting aid s))
     (fst (scoring_inputs aid s))))"
  by (simp add: sprs_of_def deducting_def compute_sprs_def case_prod_unfold Let_def)

subsection \<open>Recomputing it\<close>

lemma recompute_frame [simp]:
  "t_control (snd (recompute_sprs aid s)) = t_control s"
  "t_objective (snd (recompute_sprs aid s)) = t_objective s"
  "t_product (snd (recompute_sprs aid s)) = t_product s"
  "t_version (snd (recompute_sprs aid s)) = t_version s"
  "t_bcontrol (snd (recompute_sprs aid s)) = t_bcontrol s"
  "t_spec (snd (recompute_sprs aid s)) = t_spec s"
  "t_orgproduct (snd (recompute_sprs aid s)) = t_orgproduct s"
  "t_cstate (snd (recompute_sprs aid s)) = t_cstate s"
  "t_contrib (snd (recompute_sprs aid s)) = t_contrib s"
  "t_history (snd (recompute_sprs aid s)) = t_history s"
  "t_link (snd (recompute_sprs aid s)) = t_link s"
  "t_task (snd (recompute_sprs aid s)) = t_task s"
  "t_tasklink (snd (recompute_sprs aid s)) = t_tasklink s"
  "t_raci (snd (recompute_sprs aid s)) = t_raci s"
  "t_audit (snd (recompute_sprs aid s)) = t_audit s"
  "t_contact (snd (recompute_sprs aid s)) = t_contact s"
  "t_evidence (snd (recompute_sprs aid s)) = t_evidence s"
  "clock (snd (recompute_sprs aid s)) = clock s"
  "catalog_eq s (snd (recompute_sprs aid s))"
  "next_id s \<le> next_id (snd (recompute_sprs aid s))"
  by (auto simp: recompute_sprs_def Let_def catalog_eq_def split: option.splits)

interpretation score_upd: keyed_update a_id "\<lambda>r. r\<lparr>a_sprs_score := Some n\<rparr>" for n
  by unfold_locales simp

lemma recompute_assessments:
  "t_assessment (snd (recompute_sprs aid s)) =
     tupd a_id aid (\<lambda>r. r\<lparr>a_sprs_score := Some (sprs_of aid s)\<rparr>) (t_assessment s)"
  by (auto simp: recompute_sprs_def Let_def tget_None_iff intro: tupd_absent[symmetric]
      split: option.splits)

lemma get_assessment_recompute:
  "get_assessment i (snd (recompute_sprs aid s)) =
     (if i = aid then map_option (\<lambda>r. r\<lparr>a_sprs_score := Some (sprs_of aid s)\<rparr>) (get_assessment aid s)
      else get_assessment i s)"
  by (simp add: recompute_assessments score_upd.tget_tupd)

lemma fst_recompute [simp]: "fst (recompute_sprs aid s) = sprs_of aid s"
  by (simp add: recompute_sprs_def Let_def split: option.split)

lemma sprs_of_recompute [simp]: "sprs_of aid' (snd (recompute_sprs aid s)) = sprs_of aid' s"
  by (rule sprs_of_cong) simp_all

lemma score_current_recompute: "score_current aid (snd (recompute_sprs aid s))"
  by (auto simp: score_current_def get_assessment_recompute)

lemma score_current_cong:
  assumes "t_cstate s' = t_cstate s" "t_objective s' = t_objective s" "t_control s' = t_control s"
    "t_assessment s' = t_assessment s"
  shows "score_current aid s' = score_current aid s"
  unfolding score_current_def sprs_of_cong[OF assms(1-3)] assms(4) by (rule refl)

lemma schema_ok_recompute: "schema_ok s \<Longrightarrow> schema_ok (snd (recompute_sprs aid s))"
proof -
  assume ok: "schema_ok s"
  have "pk_ok a_id (next_id s) (t_assessment (snd (recompute_sprs aid s)))"
    using ok unfolding recompute_assessments schema_ok_def
    by (auto intro: pk_ok_keys[OF score_upd.keys_tupd])
  moreover have "next_id s \<le> next_id (snd (recompute_sprs aid s))" by simp
  ultimately show ?thesis using ok
    by (auto simp: schema_ok_def intro: catalog_ok_mono[of s] states_ok_mono contribs_ok_mono
        org_products_ok_mono links_ok_mono task_links_ok_mono pk_ok_mono)
qed

end
