(* ===== verification/Evidence_Links.thy ===== *)
theory Evidence_Links
  imports Tables
begin

section \<open>Evidence links\<close>

text \<open>
  \<open>backend/app/evidence_links.py\<close>: archiving, restoring and detaching the link from
  an objective to an artifact. The events that reach a link anywhere in the program are a step
  relation, each with the guard of the query or the check in front of the call: a product's
  deactivation and reactivation (\<open>engine.py\<close>), a person's detach
  (\<open>routers/evidence.py\<close>), the detach of an unattested record
  (\<open>review_cycles.py\<close>), a list or document link moved to a newer version, and the
  same version attached again (\<open>list_evidence.live_link_row\<close>).
\<close>

datatype link_error =
  UnknownCause string | OnlyDeactivationNamesProduct | AlreadyDetached | NoResultFound

text \<open>The assignments of \<open>archive\<close>, after its two checks.\<close>

definition archive_row ::
  "string \<Rightarrow> datetime \<Rightarrow> uuid option \<Rightarrow> string option \<Rightarrow> state_link \<Rightarrow> state_link" where
  "archive_row cause now product_id who link =
     (let link1 = (if \<not> ln_is_archived link
                   then link\<lparr>ln_is_archived := True, ln_archived_at := Some now\<rparr> else link);
          link2 = link1\<lparr>ln_archive_cause := Some cause, ln_archived_by_product := product_id\<rparr>
      in if cause \<in> {DETACHED, ATTESTATION_DETACH}
         then link2\<lparr>ln_detached_by := who, ln_detached_at := Some now\<rparr> else link2)"

definition archive ::
  "string \<Rightarrow> datetime \<Rightarrow> uuid option \<Rightarrow> string option \<Rightarrow> state_link \<Rightarrow> link_error + state_link" where
  "archive cause now product_id who link =
     (if cause \<notin> set CAUSES then Inl (UnknownCause cause)
      else if (product_id \<noteq> None) \<noteq> (cause = DEACTIVATION) then Inl OnlyDeactivationNamesProduct
      else Inr (archive_row cause now product_id who link))"

definition restore :: "state_link \<Rightarrow> state_link" where
  "restore link = link\<lparr>ln_is_archived := False, ln_archived_at := None, ln_archive_cause := None,
     ln_archived_by_product := None, ln_detached_by := None, ln_detached_at := None\<rparr>"

text \<open>A link as it is inserted: the columns' defaults.\<close>

definition new_link :: "uuid \<Rightarrow> uuid \<Rightarrow> uuid \<Rightarrow> state_link" where
  "new_link i evidence_id state_id =
     \<lparr>ln_id = i, ln_evidence_id = evidence_id, ln_state_id = state_id, ln_is_archived = False,
      ln_archived_at = None, ln_archived_by_product = None, ln_archive_cause = None,
      ln_detached_by = None, ln_detached_at = None\<rparr>"

subsection \<open>\<open>detach\<close>\<close>

text \<open>The query of the objective and the assessment a link's control state belongs to.\<close>

definition link_where :: "uuid \<Rightarrow> db \<Rightarrow> (string \<times> string \<times> uuid \<times> string) option" where
  "link_where cs_i s =
     (case get_state cs_i s of None \<Rightarrow> None | Some cs \<Rightarrow>
      case get_objective (cs_objective_id cs) s of None \<Rightarrow> None | Some ob \<Rightarrow>
      case get_control (ob_control_id ob) s of None \<Rightarrow> None | Some c \<Rightarrow>
      case get_assessment (cs_assessment_id cs) s of None \<Rightarrow> None | Some a \<Rightarrow>
        Some (c_control_id c, ob_key ob, a_id a, a_name a))"

definition jopt_uuid :: "uuid option \<Rightarrow> jval" where
  "jopt_uuid v = (case v of None \<Rightarrow> JNull | Some i \<Rightarrow> JUuid i)"

definition jopt_str :: "string option \<Rightarrow> jval" where
  "jopt_str v = (case v of None \<Rightarrow> JNull | Some t \<Rightarrow> JStr t)"

definition detach ::
  "uuid \<Rightarrow> state_link \<Rightarrow> string option \<Rightarrow> string \<Rightarrow> string \<Rightarrow> jdict \<Rightarrow> string option \<Rightarrow> string option
     \<Rightarrow> db \<Rightarrow> link_error + db" where
  "detach org link who cause action ctx actor actor_type s =
     (if ln_is_archived link \<and> ln_archived_by_product link = None then Inl AlreadyDetached
      else
        case (get_evidence (ln_evidence_id link) s, link_where (ln_state_id link) s) of
          (Some ev, Some (control_id, objective_key, assessment_id, assessment_name)) \<Rightarrow>
            let s1 = log_event_as actor actor_type (Some org) action ''evidence'' (ev_id ev)
                  (Some [(''link_id'', JUuid (ln_id link)),
                    (''control_state_id'', JUuid (ln_state_id link)),
                    (''objective_key'', JStr (control_id @ ''['' @ objective_key @ '']'')),
                    (''assessment_id'', JUuid assessment_id),
                    (''assessment_name'', JStr assessment_name),
                    (''was_archived'', JBool (ln_is_archived link)),
                    (''archived_by_product'', jopt_uuid (ln_archived_by_product link))])
                  (Some [(''is_archived'', JBool True), (''archived_by_product'', JNull),
                    (''archive_cause'', JStr cause)])
                  (Some ([(''evidence_title'', JStr (ev_title ev)), (''detached_by'', jopt_str who)]
                    @ ctx)) s
            in (case archive cause (clock s1) None who link of
                  Inl e \<Rightarrow> Inl e
                | Inr _ \<Rightarrow> Inr (update_link (ln_id link) (archive_row cause (clock s1) None who) s1))
        | _ \<Rightarrow> Inl NoResultFound)"

subsection \<open>The life of a link\<close>

datatype link_event =
  Deactivated uuid | Reactivated uuid | DetachedBy "string option"
  | AttestationDetached "string option" | MovedOn | Reattached

inductive link_step :: "datetime \<Rightarrow> link_event \<Rightarrow> state_link \<Rightarrow> state_link \<Rightarrow> bool" where
  deactivated: "\<not> ln_is_archived l \<Longrightarrow> archive DEACTIVATION now (Some p) None l = Inr l' \<Longrightarrow>
     link_step now (Deactivated p) l l'"
| reactivated: "ln_is_archived l \<Longrightarrow> ln_archived_by_product l = Some p \<Longrightarrow>
     link_step now (Reactivated p) l (restore l)"
| detached: "\<not> (ln_is_archived l \<and> ln_archived_by_product l = None) \<Longrightarrow>
     archive DETACHED now None who l = Inr l' \<Longrightarrow> link_step now (DetachedBy who) l l'"
| attestation_detached: "\<not> (ln_is_archived l \<and> ln_archived_by_product l = None) \<Longrightarrow>
     archive ATTESTATION_DETACH now None who l = Inr l' \<Longrightarrow>
     link_step now (AttestationDetached who) l l'"
| moved_on: "\<not> ln_is_archived l \<Longrightarrow> archive MOVED_FORWARD now None None l = Inr l' \<Longrightarrow>
     link_step now MovedOn l l'"
| reattached: "link_step now Reattached l (restore l)"

inductive link_run :: "(datetime \<times> link_event) list \<Rightarrow> state_link \<Rightarrow> state_link \<Rightarrow> bool" where
  run_nil: "link_run [] l l"
| run_cons: "link_step now e l l' \<Longrightarrow> link_run es l' l'' \<Longrightarrow> link_run ((now, e) # es) l l''"

inductive_cases link_stepE: "link_step now e l l'"

inductive_simps link_run_Nil: "link_run [] l l'"
inductive_simps link_run_Cons: "link_run (x # es) l l'"

subsection \<open>Facts\<close>

lemmas cause_defs = CAUSES_def DEACTIVATION_def DETACHED_def MOVED_FORWARD_def
  ATTESTATION_DETACH_def

lemma archive_row_id [simp]:
  "ln_id (archive_row c now p b l) = ln_id l"
  "ln_evidence_id (archive_row c now p b l) = ln_evidence_id l"
  "ln_state_id (archive_row c now p b l) = ln_state_id l"
  by (simp_all add: archive_row_def Let_def)

lemma new_link_fields [simp]:
  "ln_id (new_link i e c) = i" "ln_evidence_id (new_link i e c) = e" "ln_state_id (new_link i e c) = c"
  "\<not> ln_is_archived (new_link i e c)" "ln_archived_by_product (new_link i e c) = None"
  "ln_archive_cause (new_link i e c) = None" "link_ok (new_link i e c)"
  by (simp_all add: new_link_def link_ok_def)

lemma restore_id [simp]:
  "ln_id (restore l) = ln_id l" "ln_evidence_id (restore l) = ln_evidence_id l"
  "ln_state_id (restore l) = ln_state_id l"
  by (simp_all add: restore_def)

lemma archive_row_fields [simp]:
  "ln_is_archived (archive_row c now p b l)"
  "ln_archive_cause (archive_row c now p b l) = Some c"
  "ln_archived_by_product (archive_row c now p b l) = p"
  by (simp_all add: archive_row_def Let_def)

lemma archived_at_first:
  "ln_archived_at (archive_row c now p b l) =
     (if ln_is_archived l then ln_archived_at l else Some now)"
  by (simp add: archive_row_def Let_def)

lemma restore_fields [simp]:
  "\<not> ln_is_archived (restore l)" "ln_archived_by_product (restore l) = None"
  "ln_archive_cause (restore l) = None"
  by (simp_all add: restore_def)

lemma archive_InrD:
  "archive c now p b l = Inr l' \<Longrightarrow>
     c \<in> set CAUSES \<and> ((p \<noteq> None) = (c = DEACTIVATION)) \<and> l' = archive_row c now p b l"
  by (auto simp: archive_def split: if_splits)

lemma archive_deactivation [simp]:
  "archive DEACTIVATION now (Some p) b l = Inr (archive_row DEACTIVATION now (Some p) b l)"
  by (simp add: archive_def cause_defs)

lemma link_ok_archive_row:
  assumes "c \<in> set CAUSES" "(p \<noteq> None) = (c = DEACTIVATION)"
  shows "link_ok (archive_row c now p b l)"
  using assms by (auto simp: link_ok_def)

lemma link_ok_deactivation [simp]: "link_ok (archive_row DEACTIVATION now (Some p) b l)"
  by (rule link_ok_archive_row) (simp_all add: CAUSES_def)

lemma link_ok_restore: "link_ok (restore l)"
  by (simp add: link_ok_def)

lemma link_step_ok: "link_step now e l l' \<Longrightarrow> link_ok l \<Longrightarrow> link_ok l'"
  by (erule link_stepE) (auto dest!: archive_InrD simp: link_ok_archive_row link_ok_restore)

lemma link_run_ok: "link_run es l l' \<Longrightarrow> link_ok l \<Longrightarrow> link_ok l'"
  by (induction rule: link_run.induct) (auto dest: link_step_ok)

text \<open>The row identity never changes.\<close>

lemma link_step_id: "link_step now e l l' \<Longrightarrow> ln_id l' = ln_id l"
  by (erule link_stepE) (auto dest!: archive_InrD)

text \<open>A link taken off by a person is stuck there until it is attached again.\<close>

lemma stays_detached_step:
  assumes "link_step now e l l'" "ln_is_archived l" "ln_archived_by_product l = None"
    and "e \<noteq> Reattached"
  shows False
  using assms by (auto elim: link_stepE)

subsection \<open>Rows of the table\<close>

interpretation archive_upd: keyed_update ln_id "archive_row c now p b" for c now p b
  by unfold_locales simp

interpretation restore_upd: keyed_update ln_id restore
  by unfold_locales simp

lemma links_ok_update:
  assumes ok: "links_ok n rows"
    and f: "\<And>l. ln_id (f l) = ln_id l" "\<And>l. ln_evidence_id (f l) = ln_evidence_id l"
      "\<And>l. ln_state_id (f l) = ln_state_id l"
    and good: "\<And>l. l \<in> set rows \<Longrightarrow> ln_id l = i \<Longrightarrow> link_ok (f l)"
  shows "links_ok n (tupd ln_id i f rows)"
proof -
  have ku: "keyed_update ln_id f" by unfold_locales (rule f(1))
  have "map ln_id (tupd ln_id i f rows) = map ln_id rows" by (rule keyed_update.keys_tupd[OF ku])
  moreover have "map (\<lambda>r. (ln_evidence_id r, ln_state_id r)) (tupd ln_id i f rows) =
      map (\<lambda>r. (ln_evidence_id r, ln_state_id r)) rows"
    by (rule keyed_update.map_tupd_other[OF ku]) (simp add: f)
  moreover have "\<forall>r \<in> set (tupd ln_id i f rows). link_ok r"
    using ok good by (auto simp: links_ok_def set_tupd)
  ultimately show ?thesis using ok pk_ok_keys unfolding links_ok_def by metis
qed

lemma update_link_frame [simp]:
  "t_org (update_link i f s) = t_org s" "t_control (update_link i f s) = t_control s"
  "t_objective (update_link i f s) = t_objective s" "t_product (update_link i f s) = t_product s"
  "t_version (update_link i f s) = t_version s" "t_bcontrol (update_link i f s) = t_bcontrol s"
  "t_spec (update_link i f s) = t_spec s" "t_orgproduct (update_link i f s) = t_orgproduct s"
  "t_assessment (update_link i f s) = t_assessment s" "t_contrib (update_link i f s) = t_contrib s"
  "t_cstate (update_link i f s) = t_cstate s"
  "t_history (update_link i f s) = t_history s" "t_snapshot (update_link i f s) = t_snapshot s"
  "t_evidence (update_link i f s) = t_evidence s" "t_task (update_link i f s) = t_task s"
  "t_tasklink (update_link i f s) = t_tasklink s" "t_contact (update_link i f s) = t_contact s"
  "t_raci (update_link i f s) = t_raci s" "t_audit (update_link i f s) = t_audit s"
  "clock (update_link i f s) = clock s" "next_id (update_link i f s) = next_id s"
  "cur_actor (update_link i f s) = cur_actor s"
  "cur_actor_type (update_link i f s) = cur_actor_type s" "cur_ip (update_link i f s) = cur_ip s"
  "t_link (update_link i f s) = tupd ln_id i f (t_link s)"
  by (simp_all add: update_link_def)

lemma catalog_eq_update_link [simp]: "catalog_eq s (update_link i f s)"
  by (simp add: catalog_eq_def)

lemma schema_ok_update_link:
  assumes "schema_ok s" "\<And>l. ln_id (f l) = ln_id l" "\<And>l. ln_evidence_id (f l) = ln_evidence_id l"
      "\<And>l. ln_state_id (f l) = ln_state_id l" "\<And>l. l \<in> set (t_link s) \<Longrightarrow> ln_id l = i \<Longrightarrow> link_ok (f l)"
  shows "schema_ok (update_link i f s)"
  using assms links_ok_update[of "next_id s" "t_link s" f i]
  by (auto simp: schema_ok_def intro: catalog_ok_mono[of s])

end
