(* ===== verification/Effects.thy ===== *)
theory Effects
  imports Scoring Evidence_Links "HOL-Library.Sublist"
begin

section \<open>What an operation may touch\<close>

text \<open>
  The frame every operation of the engine works in. It is called for one assessment:
  \<open>touches aid s s'\<close> says that the catalog and the library are as before, that every
  constraint that held still holds, that the assessments' own rows and the identity of every
  control state are as before, and that no control state of another assessment changed. Each
  helper of the engine is shown to stay in this frame, once; that the score of every other
  assessment stays current follows for all of them.
\<close>

definition state_key :: "control_state \<Rightarrow> uuid \<times> uuid \<times> uuid \<times> uuid" where
  "state_key r = (cs_id r, cs_assessment_id r, cs_org_id r, cs_objective_id r)"

definition same_but :: "uuid \<Rightarrow> control_state list \<Rightarrow> control_state list \<Rightarrow> bool" where
  "same_but aid rows rows' \<longleftrightarrow>
     list_all2 (\<lambda>r r'. state_key r' = state_key r \<and> (cs_assessment_id r \<noteq> aid \<longrightarrow> r' = r)) rows rows'"

text \<open>The tables nothing is ever removed from or changed in.\<close>

definition append_only :: "db \<Rightarrow> db \<Rightarrow> bool" where
  "append_only s s' \<longleftrightarrow>
     prefix (t_audit s) (t_audit s') \<and> prefix (t_history s) (t_history s') \<and>
     prefix (t_snapshot s) (t_snapshot s')"

definition touches :: "uuid \<Rightarrow> db \<Rightarrow> db \<Rightarrow> bool" where
  "touches aid s s' \<longleftrightarrow>
     catalog_eq s s' \<and> append_only s s' \<and> next_id s \<le> next_id s' \<and> (schema_ok s \<longrightarrow> schema_ok s') \<and>
     t_assessment s' = t_assessment s \<and> same_but aid (t_cstate s) (t_cstate s')"

lemma append_only_refl [simp]: "append_only s s"
  by (simp add: append_only_def)

lemma append_only_trans: "append_only s t \<Longrightarrow> append_only t u \<Longrightarrow> append_only s u"
  unfolding append_only_def by (elim conjE, intro conjI; erule (1) prefix_order.trans)

lemma append_only_log_event [simp]: "append_only s (log_event_as ac at og a e i b af c s)"
  by (simp add: append_only_def log_event_as_def)

lemma append_only_set_state [simp]: "append_only s (set_state i st r s)"
  by (simp add: append_only_def)

lemma append_only_update_link [simp]: "append_only s (update_link i f s)"
  by (simp add: append_only_def)

lemma same_but_refl [simp]: "same_but aid rows rows"
  by (auto simp: same_but_def intro: list_all2_refl)

lemma same_but_trans: "same_but aid r1 r2 \<Longrightarrow> same_but aid r2 r3 \<Longrightarrow> same_but aid r1 r3"
  unfolding same_but_def
  by (erule (1) list_all2_trans[rotated]) (auto simp: state_key_def)

lemma touches_refl [simp]: "touches aid s s"
  by (simp add: touches_def)

lemma touches_trans: "touches aid s t \<Longrightarrow> touches aid t u \<Longrightarrow> touches aid s u"
proof -
  assume t: "touches aid s t" and u: "touches aid t u"
  have "catalog_eq s u" using t u catalog_eq_trans unfolding touches_def by blast
  moreover have "append_only s u" using t u append_only_trans unfolding touches_def by blast
  moreover have "same_but aid (t_cstate s) (t_cstate u)"
    using t u same_but_trans unfolding touches_def by blast
  ultimately show ?thesis using t u unfolding touches_def by simp
qed

lemma touches_schema_ok: "touches aid s s' \<Longrightarrow> schema_ok s \<Longrightarrow> schema_ok s'"
  by (simp add: touches_def)

lemma same_but_keys: "same_but aid rows rows' \<Longrightarrow> map state_key rows' = map state_key rows"
  unfolding same_but_def by (induction rule: list_all2_induct) auto

lemma tget_keys:
  assumes "map state_key rows' = map state_key rows"
  shows "map_option state_key (tget cs_id i rows') = map_option state_key (tget cs_id i rows)"
proof -
  have eq: "map_option state_key (tget cs_id i rs) = find (\<lambda>k. fst k = i) (map state_key rs)" for rs
    by (induction rs) (auto simp: state_key_def)
  show ?thesis unfolding eq assms by (rule refl)
qed

lemma same_but_tget:
  "same_but aid rows rows' \<Longrightarrow> map_option state_key (tget cs_id i rows') = map_option state_key (tget cs_id i rows)"
  unfolding same_but_def by (induction rule: list_all2_induct) (auto simp: state_key_def)

lemma same_but_other:
  assumes "same_but aid rows rows'" "aid' \<noteq> aid"
  shows "filter (\<lambda>r. cs_assessment_id r = aid') rows' = filter (\<lambda>r. cs_assessment_id r = aid') rows"
  using assms(1) unfolding same_but_def
  by (induction rule: list_all2_induct) (use assms(2) in \<open>auto simp: state_key_def\<close>)

lemma touches_get_state:
  "touches aid s s' \<Longrightarrow> map_option state_key (get_state i s') = map_option state_key (get_state i s)"
  unfolding touches_def by (blast intro: same_but_tget)

lemma touches_state_assessment:
  assumes "touches aid s s'" "get_state i s' = Some cs'"
  obtains cs where "get_state i s = Some cs" "state_key cs' = state_key cs"
  using touches_get_state[OF assms(1), of i] assms(2) by (metis (no_types, lifting) map_option_eq_Some option.simps(9))

lemma touches_sprs_other:
  assumes "touches aid s s'" "aid' \<noteq> aid"
  shows "sprs_of aid' s' = sprs_of aid' s"
proof -
  have states: "filter (\<lambda>r. cs_assessment_id r = aid') (t_cstate s') =
      filter (\<lambda>r. cs_assessment_id r = aid') (t_cstate s)"
    using assms unfolding touches_def by (blast intro: same_but_other)
  have catalog: "t_objective s' = t_objective s" "t_control s' = t_control s"
    using assms(1) by (simp_all add: touches_def catalog_eq_def)
  have "scoring_rows aid' s' = scoring_rows aid' s"
    unfolding scoring_rows_def states catalog by (rule refl)
  then show ?thesis by (simp add: sprs_of_def scoring_inputs_def)
qed

subsection \<open>The elementary effects\<close>

lemma touches_log_event [simp]: "touches aid s (log_event_as ac at og a e i b af c s)"
  by (simp add: touches_def schema_ok_log_event)

lemma touches_set_state:
  assumes "get_state i s = Some cs" "cs_assessment_id cs = aid" "schema_ok s"
  shows "touches aid s (set_state i st r s)"
proof -
  have uniq: "x = cs" if "x \<in> set (t_cstate s)" "cs_id x = i" for x
    using tget_distinct[of cs_id "t_cstate s" x] that assms
    by (simp add: schema_ok_def states_ok_def pk_ok_def)
  have "same_but aid (t_cstate s) (t_cstate (set_state i st r s))"
    unfolding same_but_def set_state_def tupd_def
    using uniq assms(2) by (auto simp: list_all2_conv_all_nth state_key_def dest: nth_mem)
  then show ?thesis by (simp add: touches_def schema_ok_set_state)
qed

lemma touchesI:
  assumes "catalog_eq s s'" "append_only s s'" "next_id s \<le> next_id s'" "t_assessment s' = t_assessment s"
    "t_cstate s' = t_cstate s" "schema_ok s \<Longrightarrow> schema_ok s'"
  shows "touches aid s s'"
  using assms by (simp add: touches_def)

lemma touches_update_link:
  assumes "\<And>l. ln_id (f l) = ln_id l" "\<And>l. ln_evidence_id (f l) = ln_evidence_id l"
    "\<And>l. ln_state_id (f l) = ln_state_id l" "\<And>l. link_ok (f l)"
  shows "touches aid s (update_link i f s)"
  by (rule touchesI) (simp_all add: schema_ok_update_link assms)

lemma touches_update_task:
  assumes "\<And>t. tk_id (f t) = tk_id t"
  shows "touches aid s (update_task i f s)"
proof (rule touchesI)
  assume ok: "schema_ok s"
  have ku: "keyed_update tk_id f" by unfold_locales (rule assms)
  have keys: "map tk_id (tupd tk_id i f (t_task s)) = map tk_id (t_task s)"
    by (rule keyed_update.keys_tupd[OF ku])
  then have "pk_ok tk_id (next_id s) (tupd tk_id i f (t_task s))"
    using ok by (intro pk_ok_keys[OF keys]) (simp add: schema_ok_def)
  moreover have "tk_id ` set (tupd tk_id i f (t_task s)) = tk_id ` set (t_task s)"
    using keys by (metis set_map)
  ultimately show "schema_ok (update_task i f s)"
    using ok by (auto simp: schema_ok_def update_task_def task_links_ok_def catalog_ok_def)
qed (simp_all add: update_task_def catalog_eq_def append_only_def)

lemma touches_update_org_product:
  assumes "\<And>t. op_id (f t) = op_id t" "\<And>t. op_org_id (f t) = op_org_id t"
    "\<And>t. op_product_id (f t) = op_product_id t"
  shows "touches aid s (update_org_product i f s)"
proof (rule touchesI)
  assume ok: "schema_ok s"
  have ku: "keyed_update op_id f" by unfold_locales (rule assms)
  have "pk_ok op_id (next_id s) (tupd op_id i f (t_orgproduct s))"
    using ok by (intro pk_ok_keys[OF keyed_update.keys_tupd[OF ku]])
      (simp add: schema_ok_def org_products_ok_def)
  moreover have "map (\<lambda>r. (op_org_id r, op_product_id r)) (tupd op_id i f (t_orgproduct s)) =
      map (\<lambda>r. (op_org_id r, op_product_id r)) (t_orgproduct s)"
    by (rule keyed_update.map_tupd_other[OF ku]) (simp add: assms)
  ultimately have "org_products_ok (next_id s) (tupd op_id i f (t_orgproduct s))"
    using ok by (simp add: schema_ok_def org_products_ok_def)
  then show "schema_ok (update_org_product i f s)"
    using ok by (auto simp: schema_ok_def update_org_product_def catalog_ok_def)
qed (simp_all add: update_org_product_def catalog_eq_def append_only_def)

lemma touches_foldl:
  assumes "\<And>x s'. x \<in> set xs \<Longrightarrow> touches aid s s' \<Longrightarrow> touches aid s' (f s' x)"
  shows "touches aid s (foldl f s xs)"
  by (rule foldl_inv[where P = "touches aid s"]) (auto intro: touches_trans assms)

subsection \<open>Setting several states\<close>

text \<open>A loop that assigns to each control state of a list, once. \<open>f\<close> is its body and
  \<open>g\<close> what it makes of the row.\<close>

lemma distinct_map_ConsD: "distinct (map f (x # xs)) \<Longrightarrow> y \<in> set xs \<Longrightarrow> f y \<noteq> f x"
  by (metis distinct.simps(2) imageI list.simps(9) set_map)

lemma foldl_states:
  assumes step: "\<And>s cs j. get_state j (f s cs) =
      (if j = cs_id cs then map_option (g cs) (get_state j s) else get_state j s)"
    and "distinct (map cs_id css)" and "\<And>cs. cs \<in> set css \<Longrightarrow> get_state (cs_id cs) s = Some cs"
  shows "get_state j (foldl f s css) =
    (case find (\<lambda>c. cs_id c = j) css of None \<Rightarrow> get_state j s | Some c \<Rightarrow> Some (g c c))"
  using assms(2,3)
proof (induction css arbitrary: s)
  case (Cons cs css)
  have "get_state (cs_id c) (f s cs) = Some c" if c: "c \<in> set css" for c
  proof -
    have "cs_id c \<noteq> cs_id cs" by (rule distinct_map_ConsD[OF Cons.prems(1) c])
    then show ?thesis using Cons.prems(2) c by (simp add: step)
  qed
  then have ih: "get_state j (foldl f (f s cs) css) =
      (case find (\<lambda>c. cs_id c = j) css of None \<Rightarrow> get_state j (f s cs) | Some c \<Rightarrow> Some (g c c))"
    using Cons.IH Cons.prems(1) by simp
  show ?case
  proof (cases "cs_id cs = j")
    case True
    then have "find (\<lambda>c. cs_id c = j) css = None"
      using distinct_map_ConsD[OF Cons.prems(1)] by (auto simp: find_None_iff)
    moreover have "get_state j s = Some cs" using Cons.prems(2)[of cs] True by simp
    ultimately show ?thesis using ih True by (simp add: step)
  next
    case False
    then have "get_state j (f s cs) = get_state j s" using step[of j s cs] by simp
    then show ?thesis using ih False by (simp split: option.split)
  qed
qed simp

lemma touches_states:
  assumes step: "\<And>s cs j. get_state j (f s cs) =
      (if j = cs_id cs then map_option (g cs) (get_state j s) else get_state j s)"
    and one: "\<And>s cs. get_state (cs_id cs) s = Some cs \<Longrightarrow> cs_assessment_id cs = aid \<Longrightarrow> schema_ok s \<Longrightarrow>
      touches aid s (f s cs)"
    and "schema_ok s" "distinct (map cs_id css)"
    and "\<And>cs. cs \<in> set css \<Longrightarrow> get_state (cs_id cs) s = Some cs \<and> cs_assessment_id cs = aid"
  shows "touches aid s (foldl f s css)"
  using assms(3-5)
proof (induction css arbitrary: s)
  case (Cons cs css)
  have hd: "get_state (cs_id cs) s = Some cs" "cs_assessment_id cs = aid" using Cons.prems(3) by simp_all
  have t: "touches aid s (f s cs)" by (rule one[OF hd Cons.prems(1)])
  have "touches aid (f s cs) (foldl f (f s cs) css)"
  proof (rule Cons.IH[OF touches_schema_ok[OF t Cons.prems(1)]])
    show "distinct (map cs_id css)" using Cons.prems(2) by simp
    show "get_state (cs_id c) (f s cs) = Some c \<and> cs_assessment_id c = aid" if "c \<in> set css" for c
    proof -
      have "cs_id c \<noteq> cs_id cs" by (rule distinct_map_ConsD[OF Cons.prems(2) that])
      then show ?thesis using Cons.prems(3)[of c] that by (simp add: step)
    qed
  qed
  then show ?case using touches_trans[OF t] by simp
qed simp

lemma find_key_distinct:
  fixes key :: "'a \<Rightarrow> uuid"
  assumes "distinct (map key xs)" "x \<in> set xs"
  shows "find (\<lambda>y. key y = key x) xs = Some x"
  using tget_distinct[OF assms] by (simp add: tget_def)

subsection \<open>Judgements\<close>

text \<open>A status of \<open>JUDGED_STATUSES\<close> is a person's verdict: an operation is
  \<open>modest\<close> when every such status it leaves was there before.\<close>

definition modest :: "db \<Rightarrow> db \<Rightarrow> bool" where
  "modest s s' \<longleftrightarrow> (\<forall>i cs'. get_state i s' = Some cs' \<longrightarrow> cs_status cs' \<in> set JUDGED_STATUSES \<longrightarrow>
     (\<exists>cs. get_state i s = Some cs \<and> cs_status cs = cs_status cs'))"

lemma modest_same: "t_cstate s' = t_cstate s \<Longrightarrow> modest s s'"
  by (simp add: modest_def)

lemma modest_trans: "modest s t \<Longrightarrow> modest t u \<Longrightarrow> modest s u"
  unfolding modest_def by metis

lemma modestI:
  assumes "\<And>i cs'. get_state i s' = Some cs' \<Longrightarrow> cs_status cs' \<in> set JUDGED_STATUSES \<Longrightarrow>
     \<exists>cs. get_state i s = Some cs \<and> cs_status cs = cs_status cs'"
  shows "modest s s'"
  using assms by (simp add: modest_def)

lemma not_judged [simp]:
  "NeedsReview \<notin> set JUDGED_STATUSES" "NotMet \<notin> set JUDGED_STATUSES" "PendingEvidence \<notin> set JUDGED_STATUSES"
  by (simp_all add: JUDGED_STATUSES_def)

lemma contributor_added_modest:
  "contributor_added_status st b ch \<in> set JUDGED_STATUSES \<Longrightarrow> contributor_added_status st b ch = st"
  by (auto simp: contributor_added_status_def split: if_splits)

end
