(* ===== verification/Magic_Loop.thy ===== *)
theory Magic_Loop
  imports Effects
begin

section \<open>The magic loop\<close>

text \<open>
  \<open>_run_loop\<close>, \<open>_judged_reason\<close>, \<open>_record_judged\<close> and
  \<open>_fanout_evidence_tasks\<close> of \<open>backend/app/engine.py\<close>: what one version of
  a product's baseline does to an assessment's control states and evidence tasks. Every
  exception is a value of \<open>engine_error\<close>; raising one leaves the request to roll back,
  so the result has no database then.
\<close>

datatype engine_error =
  ProductNotFound uuid | AssessmentNotFoundId uuid | UnknownChoice string
  | ActivationJudgementsChanged | IntegrityError string
  | ProductNotPublished uuid | ProductHasNoVersion uuid
  | OrgProductNotFound | OwnReplacement | ReplacementNotFound uuid
  | ActiveOrgProductNotFound | AlreadyOnVersion | VersionNotOfProduct uuid uuid
  | AssessmentNotFound | CannotComplete assessment_status | CannotReopen assessment_status

subsection \<open>What a version claims\<close>

definition claims_of :: "uuid \<Rightarrow> db \<Rightarrow> baseline_control list" where
  "claims_of version_id s =
     filter (\<lambda>bc. bc_version_id bc = version_id \<and> bc_classification bc \<noteq> ClsCustomer \<and>
         bc_coverage_basis bc \<noteq> PlatformOnly) (t_bcontrol s)"

definition ctrl_uuid_to_str :: "uuid list \<Rightarrow> db \<Rightarrow> uuid \<Rightarrow> string option" where
  "ctrl_uuid_to_str control_ids s =
     dict_of (map (\<lambda>c. (c_id c, c_control_id c))
       (filter (\<lambda>c. c_id c \<in> set control_ids) (t_control s)))"

definition objectives_of :: "uuid list \<Rightarrow> db \<Rightarrow> objective list" where
  "objectives_of control_ids s = filter (\<lambda>ob. ob_control_id ob \<in> set control_ids) (t_objective s)"

definition objective_lookup :: "uuid list \<Rightarrow> db \<Rightarrow> string \<times> string \<Rightarrow> uuid option" where
  "objective_lookup control_ids s =
     dict_of (map (\<lambda>(ob, name). ((name, ob_key ob), ob_id ob))
       (join_on (\<lambda>ob. ctrl_uuid_to_str control_ids s (ob_control_id ob)) (objectives_of control_ids s)))"

definition entries_of :: "baseline_control list \<Rightarrow> (uuid \<Rightarrow> string option) \<Rightarrow> baseline_entry list" where
  "entries_of baseline_controls names =
     map (\<lambda>(bc, name). \<lparr>be_control_id = name, be_objectives = bc_objectives bc,
            be_classification = bc_classification bc\<rparr>)
       (join_on (\<lambda>bc. names (bc_control_id bc)) baseline_controls)"

definition bc_by_control_str ::
  "baseline_control list \<Rightarrow> (uuid \<Rightarrow> string option) \<Rightarrow> string \<Rightarrow> baseline_control option" where
  "bc_by_control_str baseline_controls names =
     dict_of (map (\<lambda>(bc, name). (name, bc)) (join_on (\<lambda>bc. names (bc_control_id bc)) baseline_controls))"

definition obj_id_to_control_str :: "uuid list \<Rightarrow> db \<Rightarrow> uuid \<Rightarrow> string option" where
  "obj_id_to_control_str control_ids s =
     dict_of (map (\<lambda>(ob, name). (ob_id ob, name))
       (join_on (\<lambda>ob. ctrl_uuid_to_str control_ids s (ob_control_id ob)) (objectives_of control_ids s)))"

text \<open>The control states of the wanted objectives, by objective: the identifier of the row,
  which is the object the loop reads and assigns.\<close>

definition states_by_objective :: "uuid \<Rightarrow> uuid list \<Rightarrow> db \<Rightarrow> uuid \<Rightarrow> uuid option" where
  "states_by_objective assessment_id wanted s =
     dict_of (map (\<lambda>cs. (cs_objective_id cs, cs_id cs))
       (filter (\<lambda>cs. cs_assessment_id cs = assessment_id \<and> cs_objective_id cs \<in> set wanted)
         (t_cstate s)))"

definition contributors_of :: "uuid \<Rightarrow> db \<Rightarrow> (uuid \<times> classification) list" where
  "contributors_of state_id s =
     map (\<lambda>(ct, bc). (ct_product_id ct, bc_classification bc))
       (join_on (\<lambda>ct. get_bcontrol (ct_bcontrol_id ct) s)
         (filter (\<lambda>ct. ct_state_id ct = state_id) (t_contrib s)))"

subsection \<open>Judged objectives\<close>

definition path_label :: "string \<Rightarrow> string" where
  "path_label path =
     (if path = ''activation'' then ''an activation with no one asked''
      else if path = ''start_assessment'' then ''a new assessment''@ [CHR 0x27] @ ''s activations''
      else if path = ''baseline_version_move'' then ''a baseline version move''
      else path)"

definition judged_reason ::
  "string \<Rightarrow> control_status \<Rightarrow> control_status \<Rightarrow> string option \<Rightarrow> string \<Rightarrow> string" where
  "judged_reason product_name prev new choice path =
     (case choice of
        Some _ \<Rightarrow>
          let outcome = (if new = prev then ''kept '' @ status_value prev
                         else ''set '' @ status_value new @ '' over '' @ status_value prev)
          in ''Asked at '' @ product_name @ [CHR 0x27] @ ''s activation: '' @ outcome @ '', chosen by a person''
      | None \<Rightarrow>
          product_name @ '' now covers this, in '' @ path_label path @ '': '' @ status_value new @
            '' over '' @ status_value prev @ '', the default when nobody is asked'')"

record judged_outcome =
  jo_state_id :: uuid
  jo_from :: control_status
  jo_to :: control_status
  jo_decided_by :: string

definition decided_by :: "string option \<Rightarrow> string" where
  "decided_by choice = (case choice of None \<Rightarrow> ''default'' | Some _ \<Rightarrow> ''person'')"

definition record_judged ::
  "uuid \<Rightarrow> uuid \<Rightarrow> product \<Rightarrow> uuid \<Rightarrow> control_status \<Rightarrow> control_status \<Rightarrow> string option \<Rightarrow> string
     \<Rightarrow> db \<Rightarrow> judged_outcome \<times> db" where
  "record_judged org_id assessment_id product state_id prev_status new_status choice path s =
     (\<lparr>jo_state_id = state_id, jo_from = prev_status, jo_to = new_status,
       jo_decided_by = decided_by choice\<rparr>,
      log_event org_id ''control_state.update'' ''control_state'' state_id
        [(''status'', JStr (status_value prev_status))]
        [(''status'', JStr (status_value new_status))]
        [(''via'', JStr ''product_activation_judgement''),
         (''decided_by'', JStr (decided_by choice)),
         (''decided_at'', JStr (case choice of None \<Rightarrow> path | Some _ \<Rightarrow> ''activation'')),
         (''choice'', jopt_str choice),
         (''product_name'', JStr (p_name product)),
         (''assessment_id'', JUuid assessment_id)] s)"

subsection \<open>One update\<close>

type_synonym history_entry =
  "uuid \<times> control_status \<times> control_status \<times> responsibility \<times> responsibility \<times> string"

fun mk_history :: "uuid \<Rightarrow> history_entry \<Rightarrow> history" where
  "mk_history i (state, prev, new, prev_resp, new_resp, reason) =
     \<lparr>h_id = i, h_state_id = state, h_prev_status = prev, h_new_status = new,
      h_prev_resp = prev_resp, h_new_resp = new_resp, h_reason = reason\<rparr>"

record loop_env =
  le_org :: uuid
  le_assessment :: uuid
  le_product :: product
  le_decisions :: "(uuid \<Rightarrow> string option) option"
  le_path :: string
  le_expected :: "(uuid \<times> string) list option"
  le_existing :: "uuid \<Rightarrow> uuid option"
  le_bc :: "uuid \<Rightarrow> baseline_control option"
  le_contributors :: "uuid \<Rightarrow> (uuid \<times> classification) list"

record loop_acc =
  la_db :: db
  la_contribs :: "(uuid \<times> uuid) list"
  la_history :: "history_entry list"
  la_judged :: "judged_outcome list"
  la_seen :: "uuid list"
  la_updated :: nat

definition expected_differs ::
  "(uuid \<times> string) list option \<Rightarrow> uuid \<Rightarrow> control_status \<Rightarrow> bool" where
  "expected_differs expected state_id status =
     (case expected of None \<Rightarrow> False | Some e \<Rightarrow> map_of e state_id \<noteq> Some (status_value status))"

definition choice_of ::
  "(uuid \<Rightarrow> string option) option \<Rightarrow> bool \<Rightarrow> uuid \<Rightarrow> string option" where
  "choice_of decisions judged state_id =
     (if judged then (case decisions of None \<Rightarrow> None | Some d \<Rightarrow> d state_id) else None)"

definition update_state ::
  "loop_env \<Rightarrow> control_state \<Rightarrow> baseline_control \<Rightarrow> loop_acc \<Rightarrow> engine_error + loop_acc" where
  "update_state env state bc acc =
     (let product = le_product env;
          current_contributors = le_contributors env (cs_id state);
          had_prior_contributors = (current_contributors \<noteq> []);
          prev_status = cs_status state; prev_resp = cs_responsibility state;
          all_classifications = map snd current_contributors @ [bc_classification bc];
          judged = is_judgement_in_question prev_status (\<not> had_prior_contributors);
          choice = choice_of (le_decisions env) judged (cs_id state)
      in if judged \<and> expected_differs (le_expected env) (cs_id state) prev_status
         then Inl ActivationJudgementsChanged
         else if choice \<noteq> None \<and> the choice \<notin> set activation_choices
         then Inl (UnknownChoice (the choice))
         else
           let new_status = contributor_added_status prev_status (\<not> had_prior_contributors) choice;
               new_resp = resolve_contributor_responsibility all_classifications;
               s1 = set_state (cs_id state) new_status new_resp (la_db acc);
               (outcome, s2) = record_judged (le_org env) (le_assessment env) product (cs_id state)
                                 prev_status new_status choice (le_path env) s1;
               reason = (if judged then
                           judged_reason (p_name product) prev_status new_status choice (le_path env)
                         else if had_prior_contributors then
                           ''Contributor added: '' @ p_name product @ '' (also covers this control)''
                         else ''Magic loop: '' @ p_name product @ '' activated'')
           in Inr \<lparr>la_db = (if judged then s2 else s1),
                   la_contribs = la_contribs acc @ [(cs_id state, bc_id bc)],
                   la_history = la_history acc @
                     [(cs_id state, prev_status, new_status, prev_resp, new_resp, reason)],
                   la_judged = la_judged acc @ (if judged then [outcome] else []),
                   la_seen = (if judged then cs_id state # la_seen acc else la_seen acc),
                   la_updated = Suc (la_updated acc)\<rparr>)"

definition loop_step :: "loop_env \<Rightarrow> state_update \<Rightarrow> loop_acc \<Rightarrow> engine_error + loop_acc" where
  "loop_step env upd acc =
     (case le_existing env (su_objective_id upd) of None \<Rightarrow> Inr acc | Some state_id \<Rightarrow>
      case get_state state_id (la_db acc) of None \<Rightarrow> Inr acc | Some state \<Rightarrow>
      case le_bc env (su_objective_id upd) of None \<Rightarrow> Inr acc | Some bc \<Rightarrow>
        if list_ex (\<lambda>(pid, _). pid = p_id (le_product env)) (le_contributors env state_id)
        then Inr acc
        else update_state env state bc acc)"

text \<open>Adding the rows: the one constraint the code leaves to the database is one contributor
  row per state and product.\<close>

definition mk_contributor :: "uuid \<Rightarrow> uuid \<Rightarrow> uuid \<times> uuid \<Rightarrow> contributor" where
  "mk_contributor product_id i r =
     \<lparr>ct_id = i, ct_state_id = fst r, ct_product_id = product_id, ct_bcontrol_id = snd r\<rparr>"

definition add_contributors :: "uuid \<Rightarrow> (uuid \<times> uuid) list \<Rightarrow> db \<Rightarrow> engine_error + db" where
  "add_contributors product_id rows s =
     (let new = insert_rows (mk_contributor product_id) (next_id s) rows;
          table = t_contrib s @ new
      in if distinct (map (\<lambda>ct. (ct_state_id ct, ct_product_id ct)) table)
         then Inr (s\<lparr>next_id := next_id s + length rows, t_contrib := table\<rparr>)
         else Inl (IntegrityError ''uq_control_state_contributor_identity''))"

definition add_history :: "history_entry list \<Rightarrow> db \<Rightarrow> db" where
  "add_history rows s =
     s\<lparr>next_id := next_id s + length rows,
       t_history := t_history s @ insert_rows mk_history (next_id s) rows\<rparr>"

end
