(* ===== verification/Fanout.thy ===== *)
theory Fanout
  imports Magic_Loop
begin

section \<open>Evidence tasks\<close>

text \<open>
  \<open>_fanout_evidence_tasks\<close> of \<open>backend/app/engine.py\<close>. The dictionaries of
  tasks hold the task's identifier, which is all the code uses of a task it finds.
\<close>

definition artifact_key :: "string \<Rightarrow> string \<Rightarrow> string \<times> string" where
  "artifact_key title artifact_type = (py_lower (py_strip title), artifact_type)"

definition task_key :: "evidence_task \<Rightarrow> string \<times> string" where
  "task_key t = artifact_key (tk_title t) (tk_artifact_type t)"

definition spec_key :: "evidence_spec \<Rightarrow> string \<times> string" where
  "spec_key spec = artifact_key (es_artifact spec) (es_type spec)"

definition tasks_of :: "uuid \<Rightarrow> uuid \<Rightarrow> db \<Rightarrow> evidence_task list" where
  "tasks_of org_id assessment_id s =
     filter (\<lambda>t. tk_assessment_id t = Some assessment_id \<and> tk_org_id t = org_id) (t_task s)"

record fan_env =
  fe_org :: uuid
  fe_assessment :: uuid
  fe_product_name :: string
  fe_names :: "uuid \<Rightarrow> string option"
  fe_lookup :: "string \<times> string \<Rightarrow> uuid option"
  fe_states :: "uuid \<Rightarrow> uuid option"
  fe_by_spec :: "uuid \<Rightarrow> uuid option"
  fe_by_key :: "string \<times> string \<Rightarrow> uuid option"

record fan_acc =
  fa_db :: db
  fa_new :: "((string \<times> string) \<times> uuid) list"
  fa_links :: "(uuid \<times> uuid) list"
  fa_created :: nat

text \<open>\<open>a or b or c\<close> on values that are \<open>None\<close> or an object.\<close>

fun first_some :: "'a option list \<Rightarrow> 'a option" where
  "first_some [] = None"
| "first_some (Some x # _) = Some x"
| "first_some (None # xs) = first_some xs"

text \<open>The em dash of the label, in UTF-8.\<close>

definition initial_collection :: "string \<Rightarrow> string" where
  "initial_collection product_name =
     product_name @ [CHR '' '', CHR 0xE2, CHR 0x80, CHR 0x94] @ '' initial collection''"

definition session_label :: "string \<Rightarrow> evidence_spec \<Rightarrow> string" where
  "session_label product_name spec =
     (case es_kb_reference spec of
        Some kb \<Rightarrow> if kb = '''' then initial_collection product_name else kb
      | None \<Rightarrow> initial_collection product_name)"

definition mk_task :: "fan_env \<Rightarrow> evidence_spec \<Rightarrow> uuid \<Rightarrow> evidence_task" where
  "mk_task env spec i =
     \<lparr>tk_id = i, tk_org_id = fe_org env, tk_assessment_id = Some (fe_assessment env),
      tk_spec_id = Some (es_id spec), tk_title = es_artifact spec, tk_artifact_type = es_type spec,
      tk_status = TaskOpen, tk_session = Some (session_label (fe_product_name env) spec),
      tk_completed_evidence_id = None, tk_is_archived = False, tk_archived_at = None\<rparr>"

definition fan_link :: "fan_env \<Rightarrow> string \<Rightarrow> uuid \<Rightarrow> fan_acc \<Rightarrow> string \<Rightarrow> fan_acc" where
  "fan_link env ctrl_str task_id acc obj_key =
     (case fe_lookup env (ctrl_str, obj_key) of None \<Rightarrow> acc | Some obj_id \<Rightarrow>
      case fe_states env obj_id of None \<Rightarrow> acc | Some state_id \<Rightarrow>
        if (task_id, state_id) \<in> set (fa_links acc) then acc
        else
          let s = fa_db acc in
          acc\<lparr>fa_db := s\<lparr>next_id := Suc (next_id s),
                         t_tasklink := t_tasklink s @
                           [\<lparr>tl_id = next_id s, tl_task_id = task_id, tl_state_id = state_id\<rparr>]\<rparr>,
              fa_links := (task_id, state_id) # fa_links acc\<rparr>)"

definition find_task :: "fan_env \<Rightarrow> fan_acc \<Rightarrow> evidence_spec \<Rightarrow> uuid option" where
  "find_task env acc spec =
     first_some [fe_by_spec env (es_id spec), fe_by_key env (spec_key spec),
       map_of (fa_new acc) (spec_key spec)]"

definition create_task :: "fan_env \<Rightarrow> fan_acc \<Rightarrow> evidence_spec \<Rightarrow> fan_acc" where
  "create_task env acc spec =
     (let s = fa_db acc in
      acc\<lparr>fa_db := s\<lparr>next_id := Suc (next_id s), t_task := t_task s @ [mk_task env spec (next_id s)]\<rparr>,
          fa_new := dput (spec_key spec) (next_id s) (fa_new acc),
          fa_created := Suc (fa_created acc)\<rparr>)"

definition fan_spec ::
  "fan_env \<Rightarrow> string \<Rightarrow> string list \<Rightarrow> fan_acc \<Rightarrow> evidence_spec \<Rightarrow> fan_acc" where
  "fan_spec env ctrl_str objectives acc spec =
     (case find_task env acc spec of
        Some task_id \<Rightarrow> foldl (fan_link env ctrl_str task_id) acc objectives
      | None \<Rightarrow>
          foldl (fan_link env ctrl_str (next_id (fa_db acc))) (create_task env acc spec) objectives)"

definition specs_of :: "uuid \<Rightarrow> db \<Rightarrow> evidence_spec list" where
  "specs_of bcontrol_id s = filter (\<lambda>e. es_bcontrol_id e = bcontrol_id) (t_spec s)"

definition fan_control :: "fan_env \<Rightarrow> fan_acc \<Rightarrow> baseline_control \<Rightarrow> fan_acc" where
  "fan_control env acc bc =
     (case fe_names env (bc_control_id bc) of
        None \<Rightarrow> acc
      | Some ctrl_str \<Rightarrow>
          if ctrl_str = '''' then acc
          else foldl (fan_spec env ctrl_str (bc_objectives bc)) acc (specs_of (bc_id bc) (fa_db acc)))"

definition fan_env_of ::
  "uuid \<Rightarrow> uuid \<Rightarrow> product \<Rightarrow> (uuid \<Rightarrow> string option) \<Rightarrow> (string \<times> string \<Rightarrow> uuid option)
     \<Rightarrow> (uuid \<Rightarrow> uuid option) \<Rightarrow> db \<Rightarrow> fan_env" where
  "fan_env_of org_id assessment_id product names lookup states s =
     (let existing_tasks = tasks_of org_id assessment_id s in
      \<lparr>fe_org = org_id, fe_assessment = assessment_id, fe_product_name = p_name product,
       fe_names = names, fe_lookup = lookup, fe_states = states,
       fe_by_spec = dict_of (List.map_filter (\<lambda>t. map_option (\<lambda>i. (i, tk_id t)) (tk_spec_id t))
                       existing_tasks),
       fe_by_key = dict_of (map (\<lambda>t. (task_key t, tk_id t)) existing_tasks)\<rparr>)"

definition existing_link_keys :: "evidence_task list \<Rightarrow> db \<Rightarrow> (uuid \<times> uuid) list" where
  "existing_link_keys existing_tasks s =
     map (\<lambda>l. (tl_task_id l, tl_state_id l))
       (filter (\<lambda>l. tl_task_id l \<in> tk_id ` set existing_tasks) (t_tasklink s))"

definition fanout_evidence_tasks ::
  "uuid \<Rightarrow> uuid \<Rightarrow> product \<Rightarrow> baseline_control list \<Rightarrow> (uuid \<Rightarrow> string option)
     \<Rightarrow> (string \<times> string \<Rightarrow> uuid option) \<Rightarrow> (uuid \<Rightarrow> uuid option) \<Rightarrow> db \<Rightarrow> nat \<times> db" where
  "fanout_evidence_tasks org_id assessment_id product baseline_controls names lookup states s =
     (let env = fan_env_of org_id assessment_id product names lookup states s;
          acc0 = \<lparr>fa_db = s, fa_new = [],
                  fa_links = existing_link_keys (tasks_of org_id assessment_id s) s, fa_created = 0\<rparr>;
          acc = foldl (fan_control env) acc0 baseline_controls
      in (fa_created acc, fa_db acc))"

section \<open>The loop\<close>

record loop_result =
  lr_updated :: nat
  lr_tasks :: nat
  lr_judged :: "judged_outcome list"

definition empty_result :: loop_result where
  "empty_result = \<lparr>lr_updated = 0, lr_tasks = 0, lr_judged = []\<rparr>"

text \<open>The dictionaries the loop works on, read before anything is written.\<close>

definition loop_env_of ::
  "uuid \<Rightarrow> uuid \<Rightarrow> product \<Rightarrow> baseline_control list \<Rightarrow> (uuid \<Rightarrow> string option) option \<Rightarrow> string
     \<Rightarrow> (uuid \<times> string) list option \<Rightarrow> state_update list \<Rightarrow> db \<Rightarrow> loop_env" where
  "loop_env_of org_id assessment_id product baseline_controls decisions path expected updates s =
     (let control_ids = map bc_control_id baseline_controls;
          names = ctrl_uuid_to_str control_ids s;
          control_of = obj_id_to_control_str control_ids s;
          bc_of = bc_by_control_str baseline_controls names
      in \<lparr>le_org = org_id, le_assessment = assessment_id, le_product = product,
          le_decisions = decisions, le_path = path, le_expected = expected,
          le_existing = states_by_objective assessment_id (map su_objective_id updates) s,
          le_bc = (\<lambda>obj_id. bc_of (case control_of obj_id of None \<Rightarrow> '''' | Some c \<Rightarrow> c)),
          le_contributors = (\<lambda>state_id. contributors_of state_id s)\<rparr>)"

definition updates_of :: "baseline_control list \<Rightarrow> db \<Rightarrow> state_update list" where
  "updates_of baseline_controls s =
     (let control_ids = map bc_control_id baseline_controls;
          names = ctrl_uuid_to_str control_ids s
      in magic_loop_updates (entries_of baseline_controls names) (objective_lookup control_ids s))"

definition acc0_of :: "db \<Rightarrow> loop_acc" where
  "acc0_of s = \<lparr>la_db = s, la_contribs = [], la_history = [], la_judged = [], la_seen = [],
     la_updated = 0\<rparr>"

definition loop_states ::
  "uuid \<Rightarrow> uuid \<Rightarrow> product \<Rightarrow> baseline_control list \<Rightarrow> (uuid \<Rightarrow> string option) option \<Rightarrow> string
     \<Rightarrow> (uuid \<times> string) list option \<Rightarrow> db \<Rightarrow> engine_error + loop_acc" where
  "loop_states org_id assessment_id product baseline_controls decisions path expected s =
     (let updates = updates_of baseline_controls s;
          env = loop_env_of org_id assessment_id product baseline_controls decisions path expected updates s
      in case foldres (loop_step env) updates (acc0_of s) of
           Inl e \<Rightarrow> Inl e
         | Inr acc \<Rightarrow>
             if (case expected of None \<Rightarrow> False | Some e \<Rightarrow> fst ` set e \<noteq> set (la_seen acc))
             then Inl ActivationJudgementsChanged
             else Inr acc)"

definition run_loop ::
  "uuid \<Rightarrow> uuid \<Rightarrow> uuid \<Rightarrow> uuid \<Rightarrow> (uuid \<Rightarrow> string option) option \<Rightarrow> string
     \<Rightarrow> (uuid \<times> string) list option \<Rightarrow> db \<Rightarrow> engine_error + loop_result \<times> db" where
  "run_loop org_id product_id version_id assessment_id decisions path expected s =
     (case get_product product_id s of
        None \<Rightarrow> Inl (ProductNotFound product_id)
      | Some product \<Rightarrow>
        let baseline_controls = claims_of version_id s in
        if baseline_controls = [] then Inr (empty_result, s)
        else case get_assessment assessment_id s of
          None \<Rightarrow> Inl (AssessmentNotFoundId assessment_id)
        | Some _ \<Rightarrow>
          if updates_of baseline_controls s = [] then Inr (empty_result, s)
          else case loop_states org_id assessment_id product baseline_controls decisions path expected s of
            Inl e \<Rightarrow> Inl e
          | Inr acc \<Rightarrow>
            (case add_contributors product_id (la_contribs acc) (la_db acc) of
               Inl e \<Rightarrow> Inl e
             | Inr s1 \<Rightarrow>
                 let s2 = add_history (la_history acc) s1;
                     control_ids = map bc_control_id baseline_controls;
                     (tasks_created, s3) =
                       fanout_evidence_tasks org_id assessment_id product baseline_controls
                         (ctrl_uuid_to_str control_ids s) (objective_lookup control_ids s)
                         (states_by_objective assessment_id
                            (map su_objective_id (updates_of baseline_controls s)) s) s2
                 in Inr (\<lparr>lr_updated = la_updated acc, lr_tasks = tasks_created,
                          lr_judged = la_judged acc\<rparr>, s3)))"

end
