(* ===== verification/Activation.thy ===== *)
theory Activation
  imports Fanout "HOL-Library.Product_Lexorder"
begin

section \<open>Activating a product\<close>

text \<open>
  \<open>activate_org_product\<close> and \<open>activation_preview\<close> of
  \<open>backend/app/engine.py\<close>, in the order of the code: the checks, the
  \<open>OrgProduct\<close> row, the archived tasks and links of a former activation, the magic
  loop, the states that regained evidence, the score, the audit entry. The two savepoints of the
  preview are the two runs on the same database whose results are thrown away.
\<close>

definition find_org_product :: "uuid \<Rightarrow> uuid \<Rightarrow> db \<Rightarrow> org_product option" where
  "find_org_product org_id product_id s =
     find (\<lambda>op. op_org_id op = org_id \<and> op_product_id op = product_id) (t_orgproduct s)"

definition is_first_activation :: "org_product option \<Rightarrow> bool" where
  "is_first_activation op = (case op of None \<Rightarrow> True | Some r \<Rightarrow> op_version_id r = None)"

definition activation_target :: "product \<Rightarrow> org_product option \<Rightarrow> engine_error + uuid" where
  "activation_target product op =
     (if is_first_activation op then
        (if \<not> p_is_published product then Inl (ProductNotPublished (p_id product))
         else case p_current_version_id product of
                None \<Rightarrow> Inl (ProductHasNoVersion (p_id product))
              | Some v \<Rightarrow> Inr v)
      else Inr (the (op_version_id (the op))))"

definition activate_row ::
  "datetime \<Rightarrow> uuid \<Rightarrow> string option \<Rightarrow> org_product \<Rightarrow> org_product" where
  "activate_row now version_id notes op =
     op\<lparr>op_status := Active, op_configured := True, op_activated_at := Some now,
        op_version_id := Some version_id,
        op_notes := (case notes of None \<Rightarrow> op_notes op | Some n \<Rightarrow> Some n)\<rparr>"

definition new_org_product :: "uuid \<Rightarrow> uuid \<Rightarrow> uuid \<Rightarrow> org_product" where
  "new_org_product i org_id product_id =
     \<lparr>op_id = i, op_org_id = org_id, op_product_id = product_id, op_version_id = None,
      op_status = Candidate, op_configured = False, op_notes = None, op_activated_at = None,
      op_deactivated_at = None, op_deactivated_by = None, op_replaced_by = None\<rparr>"

text \<open>The row's identifier and the database with it active.\<close>

definition put_org_product ::
  "uuid \<Rightarrow> uuid \<Rightarrow> uuid \<Rightarrow> string option \<Rightarrow> db \<Rightarrow> uuid \<times> db" where
  "put_org_product org_id product_id version_id notes s =
     (case find_org_product org_id product_id s of
        Some op \<Rightarrow> (op_id op, update_org_product (op_id op) (activate_row (clock s) version_id notes) s)
      | None \<Rightarrow>
          (next_id s,
           s\<lparr>next_id := Suc (next_id s),
             t_orgproduct := t_orgproduct s @
               [activate_row (clock s) version_id notes (new_org_product (next_id s) org_id product_id)]\<rparr>))"

subsection \<open>What an earlier deactivation archived\<close>

definition task_bcontrol :: "db \<Rightarrow> evidence_task \<Rightarrow> baseline_control option" where
  "task_bcontrol s t =
     (case tk_spec_id t of None \<Rightarrow> None | Some i \<Rightarrow>
      case get_spec i s of None \<Rightarrow> None | Some spec \<Rightarrow> get_bcontrol (es_bcontrol_id spec) s)"

definition archived_tasks :: "uuid \<Rightarrow> uuid \<Rightarrow> uuid \<Rightarrow> db \<Rightarrow> evidence_task list" where
  "archived_tasks org_id assessment_id version_id s =
     filter (\<lambda>t. tk_assessment_id t = Some assessment_id \<and> tk_org_id t = org_id \<and>
         tk_is_archived t \<and> map_option bc_version_id (task_bcontrol s t) = Some version_id) (t_task s)"

definition restore_task :: "evidence_task \<Rightarrow> evidence_task" where
  "restore_task t = t\<lparr>tk_is_archived := False, tk_archived_at := None,
     tk_status := (if tk_status t = TaskNA then TaskOpen else tk_status t)\<rparr>"

definition restore_one_task :: "uuid \<Rightarrow> jdict \<Rightarrow> db \<Rightarrow> evidence_task \<Rightarrow> db" where
  "restore_one_task org_id ctx s t =
     log_event org_id ''evidence_task.restore'' ''evidence_task'' (tk_id t)
       [(''is_archived'', JBool True), (''status'', JStr (task_status_value (tk_status t)))]
       [(''is_archived'', JBool False),
        (''status'', JStr (task_status_value (tk_status (restore_task t))))]
       (ctx @ [(''collection_session'', jopt_str (tk_session t))])
       (update_task (tk_id t) restore_task s)"

definition state_assessment :: "db \<Rightarrow> uuid \<Rightarrow> uuid option" where
  "state_assessment s state_id = map_option cs_assessment_id (get_state state_id s)"

definition archived_links :: "uuid \<Rightarrow> uuid \<Rightarrow> db \<Rightarrow> state_link list" where
  "archived_links product_id assessment_id s =
     filter (\<lambda>l. state_assessment s (ln_state_id l) = Some assessment_id \<and> ln_is_archived l \<and>
         ln_archived_by_product l = Some product_id) (t_link s)"

definition restore_one_link :: "uuid \<Rightarrow> jdict \<Rightarrow> db \<Rightarrow> state_link \<Rightarrow> db" where
  "restore_one_link org_id ctx s l =
     log_event org_id ''evidence_state_link.restore'' ''evidence_state_link'' (ln_id l)
       [(''is_archived'', JBool True)] [(''is_archived'', JBool False)]
       (ctx @ [(''control_state_id'', JUuid (ln_state_id l))])
       (update_link (ln_id l) restore s)"

subsection \<open>States that regained evidence\<close>

definition regained_states :: "uuid list \<Rightarrow> db \<Rightarrow> control_state list" where
  "regained_states restored s =
     filter (\<lambda>cs. cs_id cs \<in> set restored \<and> cs_status cs = PendingEvidence) (t_cstate s)"

definition review_one :: "uuid \<Rightarrow> jdict \<Rightarrow> db \<Rightarrow> control_state \<Rightarrow> db" where
  "review_one org_id ctx s cs =
     set_state (cs_id cs) NeedsReview (cs_responsibility cs)
       (log_event org_id ''control_state.update'' ''control_state'' (cs_id cs)
          [(''status'', JStr (status_value PendingEvidence))]
          [(''status'', JStr (status_value NeedsReview))]
          (dput ''via'' (JStr ''product_reactivation_with_prior_evidence'') ctx) s)"

definition review_history :: "string \<Rightarrow> control_state \<Rightarrow> history_entry" where
  "review_history product_name cs =
     (cs_id cs, PendingEvidence, NeedsReview, cs_responsibility cs, cs_responsibility cs,
      ''Reactivation: prior evidence restored from '' @ product_name)"

definition review_regained :: "uuid \<Rightarrow> jdict \<Rightarrow> string \<Rightarrow> uuid list \<Rightarrow> db \<Rightarrow> db" where
  "review_regained org_id ctx product_name restored s =
     (let regained = regained_states restored s
      in add_history (map (review_history product_name) regained)
           (foldl (review_one org_id ctx) s regained))"

subsection \<open>\<open>activate_org_product\<close>\<close>

type_synonym decisions = "(uuid \<times> string \<times> string) list"

definition decided_choices :: "decisions \<Rightarrow> uuid \<Rightarrow> string option" where
  "decided_choices ds = map_of (map (\<lambda>(i, shown, choice). (i, choice)) ds)"

definition decided_shown :: "decisions \<Rightarrow> (uuid \<times> string) list" where
  "decided_shown ds = map (\<lambda>(i, shown, choice). (i, shown)) ds"

definition jopt_int :: "int option \<Rightarrow> jval" where
  "jopt_int v = (case v of None \<Rightarrow> JNull | Some n \<Rightarrow> JInt n)"

definition judged_json :: "judged_outcome \<Rightarrow> jval" where
  "judged_json j = JObj [(''control_state_id'', JUuid (jo_state_id j)),
     (''from'', JStr (status_value (jo_from j))), (''to'', JStr (status_value (jo_to j))),
     (''decided_by'', JStr (jo_decided_by j))]"

definition reactivation_ctx :: "product \<Rightarrow> uuid \<Rightarrow> jdict" where
  "reactivation_ctx product assessment_id =
     [(''via'', JStr ''product_reactivation''), (''product_name'', JStr (p_name product)),
      (''assessment_id'', JUuid assessment_id)]"

text \<open>Everything the activation restores, before the loop runs.\<close>

definition restore_prior ::
  "uuid \<Rightarrow> product \<Rightarrow> uuid \<Rightarrow> uuid \<Rightarrow> db \<Rightarrow> uuid list \<times> db" where
  "restore_prior org_id product version_id assessment_id s =
     (let ctx = reactivation_ctx product assessment_id;
          s1 = foldl (restore_one_task org_id ctx) s (archived_tasks org_id assessment_id version_id s);
          links = archived_links (p_id product) assessment_id s1
      in (map ln_state_id links, foldl (restore_one_link org_id ctx) s1 links))"

definition log_activation ::
  "uuid \<Rightarrow> product \<Rightarrow> uuid \<Rightarrow> uuid \<Rightarrow> uuid \<Rightarrow> org_product option \<Rightarrow> int option \<Rightarrow> int
     \<Rightarrow> judged_outcome list \<Rightarrow> bool \<Rightarrow> db \<Rightarrow> db" where
  "log_activation org_id product version_id assessment_id op_i op sprs_before sprs_after judged asked =
     log_event org_id ''org_product.activate'' ''org_product'' op_i
       [(''status'', case op of None \<Rightarrow> JNull | Some r \<Rightarrow> JStr (org_product_status_value (op_status r))),
        (''sprs_score'', jopt_int sprs_before)]
       [(''status'', JStr (org_product_status_value Active)),
        (''baseline_version_id'', JUuid version_id), (''sprs_score'', JInt sprs_after),
        (''judged'', JList (map judged_json judged))]
       [(''via'', JStr ''product_activation''), (''reactivation'', JBool (\<not> is_first_activation op)),
        (''asked'', JBool asked), (''product_key'', JStr (p_key product)),
        (''product_name'', JStr (p_name product)), (''assessment_id'', JUuid assessment_id)]"

definition activate_org_product ::
  "uuid \<Rightarrow> uuid \<Rightarrow> uuid \<Rightarrow> string option \<Rightarrow> decisions option \<Rightarrow> db
     \<Rightarrow> engine_error + loop_result \<times> db" where
  "activate_org_product org_id product_id assessment_id notes decisions s =
     (case get_product product_id s of
        None \<Rightarrow> Inl (ProductNotFound product_id)
      | Some product \<Rightarrow>
        let op = find_org_product org_id product_id s in
        case activation_target product op of
          Inl e \<Rightarrow> Inl e
        | Inr version_id \<Rightarrow>
          let (op_i, s1) = put_org_product org_id product_id version_id notes s;
              sprs_before = (case get_assessment assessment_id s1 of None \<Rightarrow> None
                             | Some a \<Rightarrow> a_sprs_score a);
              (restored, s2) = restore_prior org_id product version_id assessment_id s1
          in case run_loop org_id product_id version_id assessment_id
                    (map_option decided_choices decisions) ''activation''
                    (map_option decided_shown decisions) s2 of
               Inl e \<Rightarrow> Inl e
             | Inr (result, s3) \<Rightarrow>
                 let s4 = review_regained org_id (reactivation_ctx product assessment_id)
                            (p_name product) restored s3;
                     (sprs_after, s5) = recompute_sprs assessment_id s4;
                     s6 = log_activation org_id product version_id assessment_id op_i op sprs_before
                            sprs_after (lr_judged result) (decisions \<noteq> None) s5
                 in Inr (result, s6))"

subsection \<open>\<open>activation_preview\<close>\<close>

record preview_objective =
  po_state_id :: uuid
  po_control_id :: string
  po_objective_key :: string
  po_text :: string
  po_status :: control_status
  po_default :: string
  po_choice :: string
  po_becomes :: control_status
  po_practice_deducts_now :: bool

record preview =
  pv_sprs_now :: "int option"
  pv_sprs_after :: "int option"
  pv_objectives :: "preview_objective list"
  pv_practices_starting :: "string list"

definition assessment_score :: "uuid \<Rightarrow> db \<Rightarrow> int option" where
  "assessment_score assessment_id s =
     (case get_assessment assessment_id s of None \<Rightarrow> None | Some a \<Rightarrow> a_sprs_score a)"

text \<open>\<open>given.get(cs_id) or ACTIVATION_DEFAULTS[shown]\<close> for each judged objective;
  a judged status always has a default.\<close>

definition resolve_choice :: "(uuid \<Rightarrow> string option) \<Rightarrow> judged_outcome \<Rightarrow> uuid \<times> string \<times> string" where
  "resolve_choice given j =
     (jo_state_id j, status_value (jo_from j),
      case given (jo_state_id j) of
        Some c \<Rightarrow> if c = '''' then the (ACTIVATION_DEFAULTS (jo_from j)) else c
      | None \<Rightarrow> the (ACTIVATION_DEFAULTS (jo_from j)))"

definition describe_objective ::
  "db \<Rightarrow> string list \<Rightarrow> (uuid \<times> string \<times> string) \<Rightarrow> judged_outcome \<Rightarrow> preview_objective option" where
  "describe_objective s deducting_now d j =
     (case d of (state_id, _, choice) \<Rightarrow>
      case link_where state_id s of None \<Rightarrow> None | Some (control_key, objective_key, _, _) \<Rightarrow>
        Some \<lparr>po_state_id = state_id, po_control_id = control_key, po_objective_key = objective_key,
          po_text = (case get_state state_id s of None \<Rightarrow> ''''
             | Some cs \<Rightarrow> case get_objective (cs_objective_id cs) s of None \<Rightarrow> '''' | Some ob \<Rightarrow> ob_text ob),
          po_status = jo_from j, po_default = the (ACTIVATION_DEFAULTS (jo_from j)),
          po_choice = choice, po_becomes = contributor_added_status (jo_from j) True (Some choice),
          po_practice_deducts_now = (control_key \<in> set deducting_now)\<rparr>)"

definition activation_preview ::
  "uuid \<Rightarrow> uuid \<Rightarrow> uuid \<Rightarrow> (uuid \<Rightarrow> string option) \<Rightarrow> db \<Rightarrow> engine_error + preview" where
  "activation_preview org_id product_id assessment_id given s =
     (case get_assessment assessment_id s of
        None \<Rightarrow> Inl (AssessmentNotFoundId assessment_id)
      | Some a \<Rightarrow>
        let sprs_now = a_sprs_score a; deducting_now = deducting assessment_id s in
        case activate_org_product org_id product_id assessment_id None None s of
          Inl e \<Rightarrow> Inl e
        | Inr (found, f1) \<Rightarrow>
          if lr_judged found = [] then
            Inr \<lparr>pv_sprs_now = sprs_now, pv_sprs_after = assessment_score assessment_id f1,
                 pv_objectives = [], pv_practices_starting = []\<rparr>
          else
            let resolved = map (resolve_choice given) (lr_judged found) in
            case activate_org_product org_id product_id assessment_id None (Some resolved) s of
              Inl e \<Rightarrow> Inl e
            | Inr (_, f2) \<Rightarrow>
              let deducting_after = deducting assessment_id f2;
                  objectives = List.map_filter (\<lambda>(d, j). describe_objective s deducting_now d j)
                                 (zip resolved (lr_judged found))
              in Inr \<lparr>pv_sprs_now = sprs_now, pv_sprs_after = assessment_score assessment_id f2,
                   pv_objectives = sort_key (\<lambda>p. (po_control_id p, po_objective_key p, po_state_id p)) objectives,
                   pv_practices_starting =
                     sort (remdups (filter (\<lambda>c. c \<notin> set deducting_now) deducting_after))\<rparr>)"

end
