(* ===== verification/Deactivation.thy ===== *)
theory Deactivation
  imports Activation
begin

section \<open>Deactivating a product\<close>

text \<open>
  \<open>deactivate_org_product\<close> of \<open>backend/app/engine.py\<close>, in its five steps:
  the \<open>OrgProduct\<close> row, the control states the product contributes to, their evidence
  links, the product's evidence tasks, the score.
\<close>

record deactivation_result =
  dr_controls_flagged :: nat
  dr_tasks_archived :: nat
  dr_links_archived :: nat

definition deactivation_ctx :: "product \<Rightarrow> uuid \<Rightarrow> jdict" where
  "deactivation_ctx product assessment_id =
     [(''via'', JStr ''product_deactivation''), (''product_name'', JStr (p_name product)),
      (''product_key'', JStr (p_key product)), (''assessment_id'', JUuid assessment_id)]"

text \<open>Step 1.\<close>

definition check_replacement :: "uuid \<Rightarrow> uuid option \<Rightarrow> db \<Rightarrow> engine_error + product option" where
  "check_replacement product_id replaced_by s =
     (case replaced_by of
        None \<Rightarrow> Inr None
      | Some r \<Rightarrow>
          if r = product_id then Inl OwnReplacement
          else case get_product r s of None \<Rightarrow> Inl (ReplacementNotFound r) | Some p \<Rightarrow> Inr (Some p))"

definition decommission_row ::
  "datetime \<Rightarrow> string option \<Rightarrow> uuid option \<Rightarrow> org_product \<Rightarrow> org_product" where
  "decommission_row now deactivated_by replaced_by op =
     op\<lparr>op_status := Decommissioned, op_deactivated_at := Some now,
        op_deactivated_by := deactivated_by, op_replaced_by := replaced_by\<rparr>"

definition decommission ::
  "uuid \<Rightarrow> org_product \<Rightarrow> product option \<Rightarrow> string option \<Rightarrow> uuid option \<Rightarrow> jdict \<Rightarrow> db \<Rightarrow> db" where
  "decommission org_id op replacement deactivated_by replaced_by ctx s =
     log_event org_id ''org_product.deactivate'' ''org_product'' (op_id op)
       [(''status'', JStr ''active'')]
       [(''status'', JStr ''decommissioned''),
        (''replaced_by_product_id'', jopt_uuid (map_option p_id replacement)),
        (''replaced_by_product_name'', jopt_str (map_option p_name replacement))]
       ctx
       (update_org_product (op_id op) (decommission_row (clock s) deactivated_by replaced_by) s)"

text \<open>Step 2.\<close>

definition sourced_contributors :: "uuid \<Rightarrow> uuid \<Rightarrow> db \<Rightarrow> (contributor \<times> control_state) list" where
  "sourced_contributors product_id assessment_id s =
     filter (\<lambda>(ct, cs). cs_assessment_id cs = assessment_id \<and> ct_product_id ct = product_id)
       (join_on (\<lambda>ct. get_state (ct_state_id ct) s) (t_contrib s))"

definition delete_contributors :: "uuid list \<Rightarrow> db \<Rightarrow> db" where
  "delete_contributors ids s = s\<lparr>t_contrib := filter (\<lambda>ct. ct_id ct \<notin> set ids) (t_contrib s)\<rparr>"

definition remaining_contributors :: "uuid \<Rightarrow> db \<Rightarrow> (classification \<times> string) list" where
  "remaining_contributors state_id s =
     map (\<lambda>(ct, bc, p). (bc_classification bc, p_name p))
       (join_on (\<lambda>ct. case get_bcontrol (ct_bcontrol_id ct) s of None \<Rightarrow> None | Some bc \<Rightarrow>
                        map_option (Pair bc) (get_product (ct_product_id ct) s))
         (filter (\<lambda>ct. ct_state_id ct = state_id) (t_contrib s)))"

definition flagged_responsibility ::
  "control_state \<Rightarrow> (classification \<times> string) list \<Rightarrow> responsibility" where
  "flagged_responsibility cs remaining =
     (if remaining \<noteq> [] then resolve_contributor_responsibility (map fst remaining)
      else cs_responsibility cs)"

definition flagged_reason :: "string \<Rightarrow> (classification \<times> string) list \<Rightarrow> string" where
  "flagged_reason product_name remaining =
     (if remaining \<noteq> [] then
        ''Contributor removed: '' @ product_name @ '' (still covered by '' @
          py_join '', '' (sort (remdups (map snd remaining))) @ '')''
      else ''Satisfying tool deactivated: '' @ product_name)"

text \<open>\<open>remaining_by_cs\<close> is read once, after the deletion: the dictionary is the
  argument \<open>remaining_of\<close>.\<close>

definition flag_state ::
  "uuid \<Rightarrow> jdict \<Rightarrow> (uuid \<Rightarrow> (classification \<times> string) list) \<Rightarrow> db \<Rightarrow> control_state \<Rightarrow> db" where
  "flag_state org_id ctx remaining_of s cs =
     (let remaining = remaining_of (cs_id cs); resp = flagged_responsibility cs remaining
      in log_event org_id ''control_state.update'' ''control_state'' (cs_id cs)
           [(''status'', JStr (status_value (cs_status cs))),
            (''responsibility'', JStr (responsibility_value (cs_responsibility cs)))]
           [(''status'', JStr (status_value NeedsReview)),
            (''responsibility'', JStr (responsibility_value resp)),
            (''remaining_contributors'', JInt (int (length remaining)))]
           ctx (set_state (cs_id cs) NeedsReview resp s))"

definition flag_history ::
  "string \<Rightarrow> (uuid \<Rightarrow> (classification \<times> string) list) \<Rightarrow> control_state \<Rightarrow> history_entry" where
  "flag_history product_name remaining_of cs =
     (let remaining = remaining_of (cs_id cs)
      in (cs_id cs, cs_status cs, NeedsReview, cs_responsibility cs,
          flagged_responsibility cs remaining, flagged_reason product_name remaining))"

definition flag_states ::
  "uuid \<Rightarrow> product \<Rightarrow> uuid \<Rightarrow> db \<Rightarrow> control_state list \<times> db" where
  "flag_states org_id product assessment_id s =
     (let rows = sourced_contributors (p_id product) assessment_id s;
          sourced_states = map snd rows;
          s1 = delete_contributors (map (\<lambda>(ct, _). ct_id ct) rows) s;
          remaining_of = (\<lambda>state_id. remaining_contributors state_id s1);
          s2 = foldl (flag_state org_id (deactivation_ctx product assessment_id) remaining_of) s1 sourced_states
      in (sourced_states, add_history (map (flag_history (p_name product) remaining_of) sourced_states) s2))"

text \<open>Step 3.\<close>

definition archivable_links :: "uuid list \<Rightarrow> db \<Rightarrow> state_link list" where
  "archivable_links state_ids s =
     filter (\<lambda>l. ln_state_id l \<in> set state_ids \<and> \<not> ln_is_archived l \<and>
         (case get_evidence (ln_evidence_id l) s of None \<Rightarrow> False
          | Some ev \<Rightarrow> ev_source_list_version ev = None \<and> ev_source_document_version ev = None))
       (t_link s)"

definition archive_one_link :: "uuid \<Rightarrow> uuid \<Rightarrow> jdict \<Rightarrow> db \<Rightarrow> state_link \<Rightarrow> db" where
  "archive_one_link org_id product_id ctx s l =
     log_event org_id ''evidence_state_link.archive'' ''evidence_state_link'' (ln_id l)
       [(''is_archived'', JBool False)]
       [(''is_archived'', JBool True), (''archived_by_product'', JUuid product_id)]
       (ctx @ [(''control_state_id'', JUuid (ln_state_id l))])
       (update_link (ln_id l) (archive_row DEACTIVATION (clock s) (Some product_id) None) s)"

text \<open>Step 4.\<close>

definition product_tasks :: "uuid \<Rightarrow> uuid \<Rightarrow> uuid \<Rightarrow> db \<Rightarrow> evidence_task list" where
  "product_tasks org_id assessment_id product_id s =
     filter (\<lambda>t. tk_assessment_id t = Some assessment_id \<and> tk_org_id t = org_id \<and>
         map_option bc_product_id (task_bcontrol s t) = Some product_id \<and> \<not> tk_is_archived t)
       (t_task s)"

definition archive_task :: "datetime \<Rightarrow> evidence_task \<Rightarrow> evidence_task" where
  "archive_task now t = t\<lparr>tk_is_archived := True, tk_archived_at := Some now,
     tk_status := (if tk_status t = TaskOpen then TaskNA else tk_status t)\<rparr>"

definition archive_one_task :: "uuid \<Rightarrow> jdict \<Rightarrow> db \<Rightarrow> evidence_task \<Rightarrow> db" where
  "archive_one_task org_id ctx s t =
     log_event org_id ''evidence_task.archive'' ''evidence_task'' (tk_id t)
       [(''status'', JStr (task_status_value (tk_status t))), (''is_archived'', JBool False)]
       [(''status'', JStr (task_status_value (tk_status (archive_task (clock s) t)))),
        (''is_archived'', JBool True)]
       (ctx @ [(''collection_session'', jopt_str (tk_session t))])
       (update_task (tk_id t) (archive_task (clock s)) s)"

definition deactivate_org_product ::
  "uuid \<Rightarrow> uuid \<Rightarrow> uuid \<Rightarrow> uuid option \<Rightarrow> string option \<Rightarrow> db
     \<Rightarrow> engine_error + deactivation_result \<times> db" where
  "deactivate_org_product org_id product_id assessment_id replaced_by deactivated_by s =
     (case get_product product_id s of None \<Rightarrow> Inl (ProductNotFound product_id) | Some product \<Rightarrow>
      case find_org_product org_id product_id s of None \<Rightarrow> Inl OrgProductNotFound | Some op \<Rightarrow>
      case check_replacement product_id replaced_by s of Inl e \<Rightarrow> Inl e | Inr replacement \<Rightarrow>
        let ctx = deactivation_ctx product assessment_id;
            s1 = decommission org_id op replacement deactivated_by replaced_by ctx s;
            (sourced, s2) = flag_states org_id product assessment_id s1;
            links = archivable_links (map cs_id sourced) s2;
            s3 = foldl (archive_one_link org_id product_id ctx) s2 links;
            tasks = product_tasks org_id assessment_id product_id s3;
            s4 = foldl (archive_one_task org_id ctx) s3 tasks;
            (_, s5) = recompute_sprs assessment_id s4
        in Inr (\<lparr>dr_controls_flagged = length sourced, dr_tasks_archived = length tasks,
                 dr_links_archived = length links\<rparr>, s5))"

end
