(* ===== verification/Version_Move.thy ===== *)
theory Version_Move
  imports Deactivation
begin

section \<open>Moving a tenant to another baseline version\<close>

text \<open>
  \<open>move_org_product_version\<close> of \<open>backend/app/engine.py\<close>. Python iterates
  \<open>set(old) | set(new)\<close> in no fixed order; the model takes the old version's controls
  and keys first, then the new ones.
\<close>

record move_ctx =
  mc_org :: uuid
  mc_product :: product
  mc_assessment :: uuid
  mc_from :: "int option"
  mc_to :: int

definition jopt_number :: "int option \<Rightarrow> jval" where
  "jopt_number v = (case v of None \<Rightarrow> JNull | Some n \<Rightarrow> JInt n)"

definition move_ctx_json :: "move_ctx \<Rightarrow> jdict" where
  "move_ctx_json c =
     [(''via'', JStr ''baseline_version_move''), (''product_name'', JStr (p_name (mc_product c))),
      (''product_key'', JStr (p_key (mc_product c))), (''assessment_id'', JUuid (mc_assessment c)),
      (''from_version'', jopt_number (mc_from c)), (''to_version'', JInt (mc_to c))]"

definition move_prefix :: "move_ctx \<Rightarrow> string" where
  "move_prefix c =
     ''Version move ('' @ (case mc_from c of None \<Rightarrow> ''None'' | Some n \<Rightarrow> str_int n) @ ''->'' @
       str_int (mc_to c) @ ''): '' @ p_name (mc_product c)"

subsection \<open>What the two versions claim\<close>

definition claimed :: "uuid option \<Rightarrow> db \<Rightarrow> (uuid \<times> baseline_control) list" where
  "claimed version_id s =
     (case version_id of None \<Rightarrow> []
      | Some v \<Rightarrow> dput_all bc_control_id (\<lambda>bc. bc) [] (claims_of v s))"

definition lookup_values :: "uuid list \<Rightarrow> db \<Rightarrow> uuid list" where
  "lookup_values control_ids s =
     List.map_filter (\<lambda>(ob, name). objective_lookup control_ids s (name, ob_key ob))
       (join_on (\<lambda>ob. ctrl_uuid_to_str control_ids s (ob_control_id ob)) (objectives_of control_ids s))"

definition contributor_rows :: "uuid \<Rightarrow> db \<Rightarrow> (uuid \<times> uuid \<times> classification) list" where
  "contributor_rows state_id s =
     map (\<lambda>(ct, bc). (ct_product_id ct, ct_id ct, bc_classification bc))
       (join_on (\<lambda>ct. get_bcontrol (ct_bcontrol_id ct) s)
         (filter (\<lambda>ct. ct_state_id ct = state_id) (t_contrib s)))"

subsection \<open>One objective\<close>

text \<open>\<open>MOVE_REVIEW_REASONS\<close>.\<close>

datatype move_review_reason = NoLongerCovered | MappingChanged | JudgedNewlyCovered

record reviewed_row =
  rw_state_id :: uuid
  rw_objective_id :: uuid
  rw_status_before :: control_status
  rw_why :: move_review_reason
  rw_still_covered :: bool

record move_acc =
  mv_db :: db
  mv_history :: "history_entry list"
  mv_new :: "(uuid \<times> uuid) list"
  mv_delete :: "uuid list"
  mv_fanout :: "(uuid \<times> baseline_control) list"
  mv_gained :: nat
  mv_lost :: nat
  mv_changed :: nat
  mv_reviewed :: "reviewed_row list"

definition reviewed_of ::
  "control_state \<Rightarrow> move_review_reason \<Rightarrow> bool \<Rightarrow> reviewed_row" where
  "reviewed_of cs why still =
     \<lparr>rw_state_id = cs_id cs, rw_objective_id = cs_objective_id cs,
      rw_status_before = cs_status cs, rw_why = why, rw_still_covered = still\<rparr>"

definition move_lost ::
  "move_ctx \<Rightarrow> (uuid \<times> uuid \<times> classification) list \<Rightarrow> uuid \<Rightarrow> control_state \<Rightarrow> move_acc \<Rightarrow> move_acc" where
  "move_lost c current contrib_row_id cs acc =
     (let remaining = filter (\<lambda>(pid, _, _). pid \<noteq> p_id (mc_product c)) current;
          new_resp = (if remaining \<noteq> []
                      then resolve_contributor_responsibility (map (\<lambda>(_, _, cls). cls) remaining)
                      else cs_responsibility cs);
          reason = move_prefix c @ '' no longer covers this'' @
                     (if remaining \<noteq> [] then '' (still covered by other tool(s))'' else '''')
      in acc\<lparr>mv_db := set_state (cs_id cs) NeedsReview new_resp (mv_db acc),
             mv_delete := mv_delete acc @ [contrib_row_id],
             mv_history := mv_history acc @
               [(cs_id cs, cs_status cs, NeedsReview, cs_responsibility cs, new_resp, reason)],
             mv_reviewed := mv_reviewed acc @ [reviewed_of cs NoLongerCovered (remaining \<noteq> [])],
             mv_lost := Suc (mv_lost acc)\<rparr>)"

definition move_gained ::
  "move_ctx \<Rightarrow> (uuid \<times> uuid \<times> classification) list \<Rightarrow> uuid \<Rightarrow> baseline_control \<Rightarrow> control_state
     \<Rightarrow> move_acc \<Rightarrow> move_acc" where
  "move_gained c current ctrl_id new_bc cs acc =
     (let had_prior = (current \<noteq> []);
          all_classes = map (\<lambda>(_, _, cls). cls) current @ [bc_classification new_bc];
          new_status = contributor_added_status (cs_status cs) (\<not> had_prior) None;
          new_resp = resolve_contributor_responsibility all_classes;
          judged = is_judgement_in_question (cs_status cs) (\<not> had_prior);
          reason = (if judged then
                      judged_reason (p_name (mc_product c)) (cs_status cs) new_status None
                        ''baseline_version_move''
                    else move_prefix c @ '' now covers this'');
          s1 = set_state (cs_id cs) new_status new_resp (mv_db acc);
          s2 = (if judged then
                  snd (record_judged (mc_org c) (mc_assessment c) (mc_product c) (cs_id cs)
                         (cs_status cs) new_status None ''baseline_version_move'' s1)
                else s1)
      in acc\<lparr>mv_db := s2,
             mv_new := mv_new acc @ [(cs_id cs, bc_id new_bc)],
             mv_history := mv_history acc @
               [(cs_id cs, cs_status cs, new_status, cs_responsibility cs, new_resp, reason)],
             mv_reviewed := mv_reviewed acc @
               (if judged then [reviewed_of cs JudgedNewlyCovered had_prior] else []),
             mv_fanout := dput ctrl_id new_bc (mv_fanout acc),
             mv_gained := Suc (mv_gained acc)\<rparr>)"

definition repoint_contributor :: "uuid \<Rightarrow> uuid \<Rightarrow> db \<Rightarrow> db" where
  "repoint_contributor contrib_row_id bcontrol_id s =
     s\<lparr>t_contrib := tupd ct_id contrib_row_id (\<lambda>ct. ct\<lparr>ct_bcontrol_id := bcontrol_id\<rparr>) (t_contrib s)\<rparr>"

definition move_changed ::
  "move_ctx \<Rightarrow> (uuid \<times> uuid \<times> classification) list \<Rightarrow> uuid \<Rightarrow> uuid \<Rightarrow> baseline_control
     \<Rightarrow> control_state \<Rightarrow> move_acc \<Rightarrow> move_acc" where
  "move_changed c current contrib_row_id ctrl_id new_bc cs acc =
     (let new_classes = map (\<lambda>(pid, _, cls). if pid = p_id (mc_product c)
                                             then bc_classification new_bc else cls) current;
          new_resp = resolve_contributor_responsibility new_classes;
          reason = move_prefix c @ [CHR 0x27] @ ''s mapping changed for this control''
      in acc\<lparr>mv_db := set_state (cs_id cs) NeedsReview new_resp
                        (repoint_contributor contrib_row_id (bc_id new_bc) (mv_db acc)),
             mv_history := mv_history acc @
               [(cs_id cs, cs_status cs, NeedsReview, cs_responsibility cs, new_resp, reason)],
             mv_reviewed := mv_reviewed acc @ [reviewed_of cs MappingChanged (1 < length current)],
             mv_fanout := dput ctrl_id new_bc (mv_fanout acc),
             mv_changed := Suc (mv_changed acc)\<rparr>)"

record move_env =
  me_ctx :: move_ctx
  me_old :: "uuid \<Rightarrow> baseline_control option"
  me_new :: "uuid \<Rightarrow> baseline_control option"
  me_names :: "uuid \<Rightarrow> string option"
  me_lookup :: "string \<times> string \<Rightarrow> uuid option"
  me_states :: "uuid \<Rightarrow> uuid option"
  me_contributors :: "uuid \<Rightarrow> (uuid \<times> uuid \<times> classification) list"

definition move_state ::
  "move_env \<Rightarrow> uuid \<Rightarrow> string \<Rightarrow> control_state \<Rightarrow> move_acc \<Rightarrow> move_acc" where
  "move_state env ctrl_id obj_key cs acc =
     (let current = me_contributors env (cs_id cs);
          this_contributor = find (\<lambda>(pid, _, _). pid = p_id (mc_product (me_ctx env))) current;
          in_old = (\<exists>bc \<in> set_option (me_old env ctrl_id). obj_key \<in> set (bc_objectives bc));
          in_new = (\<exists>bc \<in> set_option (me_new env ctrl_id). obj_key \<in> set (bc_objectives bc))
      in if in_old \<and> \<not> in_new then
           (case this_contributor of None \<Rightarrow> acc
            | Some (_, row, _) \<Rightarrow> move_lost (me_ctx env) current row cs acc)
         else if \<not> in_old \<and> in_new then
           (case this_contributor of Some _ \<Rightarrow> acc
            | None \<Rightarrow> move_gained (me_ctx env) current ctrl_id (the (me_new env ctrl_id)) cs acc)
         else
           (case (this_contributor, me_old env ctrl_id, me_new env ctrl_id) of
              (Some (_, row, _), Some old_bc, Some new_bc) \<Rightarrow>
                if bc_classification old_bc \<noteq> bc_classification new_bc
                then move_changed (me_ctx env) current row ctrl_id new_bc cs acc else acc
            | _ \<Rightarrow> acc))"

definition move_objective :: "move_env \<Rightarrow> uuid \<Rightarrow> string \<Rightarrow> move_acc \<Rightarrow> string \<Rightarrow> move_acc" where
  "move_objective env ctrl_id ctrl_str acc obj_key =
     (case me_lookup env (ctrl_str, obj_key) of None \<Rightarrow> acc | Some obj_id \<Rightarrow>
      case me_states env obj_id of None \<Rightarrow> acc | Some state_id \<Rightarrow>
      case get_state state_id (mv_db acc) of None \<Rightarrow> acc | Some cs \<Rightarrow>
        move_state env ctrl_id obj_key cs acc)"

definition objs_of :: "baseline_control option \<Rightarrow> string list" where
  "objs_of bc = (case bc of None \<Rightarrow> [] | Some b \<Rightarrow> bc_objectives b)"

definition move_control :: "move_env \<Rightarrow> move_acc \<Rightarrow> uuid \<Rightarrow> move_acc" where
  "move_control env acc ctrl_id =
     (case me_names env ctrl_id of None \<Rightarrow> acc | Some ctrl_str \<Rightarrow>
        foldl (move_objective env ctrl_id ctrl_str) acc
          (remdups (objs_of (me_old env ctrl_id) @ objs_of (me_new env ctrl_id))))"

subsection \<open>The move\<close>

definition move_env_of ::
  "move_ctx \<Rightarrow> (uuid \<times> baseline_control) list \<Rightarrow> (uuid \<times> baseline_control) list \<Rightarrow> uuid list \<Rightarrow> db
     \<Rightarrow> move_env" where
  "move_env_of c old_claims new_claims control_ids s =
     \<lparr>me_ctx = c, me_old = map_of old_claims, me_new = map_of new_claims,
      me_names = ctrl_uuid_to_str control_ids s, me_lookup = objective_lookup control_ids s,
      me_states = states_by_objective (mc_assessment c) (lookup_values control_ids s) s,
      me_contributors = (\<lambda>state_id. contributor_rows state_id s)\<rparr>"

definition move_acc0 :: "db \<Rightarrow> move_acc" where
  "move_acc0 s = \<lparr>mv_db = s, mv_history = [], mv_new = [], mv_delete = [], mv_fanout = [],
     mv_gained = 0, mv_lost = 0, mv_changed = 0, mv_reviewed = []\<rparr>"

definition move_states :: "move_env \<Rightarrow> uuid list \<Rightarrow> db \<Rightarrow> move_acc" where
  "move_states env control_ids s = foldl (move_control env) (move_acc0 s) control_ids"

definition log_move_state :: "move_ctx \<Rightarrow> db \<Rightarrow> history_entry \<Rightarrow> db" where
  "log_move_state c s h =
     (case h of (state_id, prev, new, prev_resp, new_resp, reason) \<Rightarrow>
        log_event (mc_org c) ''control_state.update'' ''control_state'' state_id
          [(''status'', JStr (status_value prev)), (''responsibility'', JStr (responsibility_value prev_resp))]
          [(''status'', JStr (status_value new)), (''responsibility'', JStr (responsibility_value new_resp))]
          (move_ctx_json c @ [(''change_reason'', JStr reason)]) s)"

definition repin :: "uuid \<Rightarrow> org_product \<Rightarrow> org_product" where
  "repin version_id op = op\<lparr>op_version_id := Some version_id\<rparr>"

definition log_move :: "move_ctx \<Rightarrow> uuid \<Rightarrow> uuid option \<Rightarrow> uuid \<Rightarrow> db \<Rightarrow> db" where
  "log_move c op_i from_version_id target_version_id =
     log_event (mc_org c) ''org_product.baseline_version_move'' ''org_product'' op_i
       [(''baseline_version_id'', jopt_uuid from_version_id), (''version_number'', jopt_number (mc_from c))]
       [(''baseline_version_id'', JUuid target_version_id), (''version_number'', JInt (mc_to c))]
       (move_ctx_json c)"

record needs_review_row =
  nr_state_id :: uuid
  nr_control_id :: string
  nr_objective_key :: string
  nr_objective_text :: string
  nr_status_before :: control_status
  nr_why :: move_review_reason
  nr_still_covered :: bool

record move_result =
  mr_gained :: nat
  mr_lost :: nat
  mr_changed :: nat
  mr_tasks :: nat
  mr_from :: "int option"
  mr_to :: int
  mr_needs_review :: "needs_review_row list"

definition describe_reviewed ::
  "(uuid \<Rightarrow> string option) \<Rightarrow> objective list \<Rightarrow> reviewed_row \<Rightarrow> needs_review_row option" where
  "describe_reviewed names objectives r =
     (case tget ob_id (rw_objective_id r) objectives of None \<Rightarrow> None | Some ob \<Rightarrow>
      case names (ob_control_id ob) of None \<Rightarrow> None | Some name \<Rightarrow>
        Some \<lparr>nr_state_id = rw_state_id r, nr_control_id = name, nr_objective_key = ob_key ob,
          nr_objective_text = ob_text ob, nr_status_before = rw_status_before r, nr_why = rw_why r,
          nr_still_covered = rw_still_covered r\<rparr>)"

definition apply_move ::
  "move_ctx \<Rightarrow> org_product \<Rightarrow> uuid \<Rightarrow> db \<Rightarrow> engine_error + move_result \<times> db" where
  "apply_move c op target_version_id s =
     (let old_claims = claimed (op_version_id op) s;
          new_claims = claimed (Some target_version_id) s;
          control_ids = remdups (map fst old_claims @ map fst new_claims);
          env = move_env_of c old_claims new_claims control_ids s;
          acc = move_states env control_ids s
      in case add_contributors (p_id (mc_product c)) (mv_new acc)
                (delete_contributors (mv_delete acc) (mv_db acc)) of
           Inl e \<Rightarrow> Inl e
         | Inr s1 \<Rightarrow>
             let s2 = foldl (log_move_state c) (add_history (mv_history acc) s1) (mv_history acc);
                 s3 = log_move c (op_id op) (op_version_id op) target_version_id
                        (update_org_product (op_id op) (repin target_version_id) s2);
                 (tasks_created, s4) =
                   (if mv_fanout acc = [] then (0, s3)
                    else fanout_evidence_tasks (mc_org c) (mc_assessment c) (mc_product c)
                           (map snd (mv_fanout acc)) (me_names env) (me_lookup env) (me_states env) s3);
                 (_, s5) = recompute_sprs (mc_assessment c) s4;
                 set_to_needs_review =
                   List.map_filter (describe_reviewed (me_names env) (objectives_of control_ids s))
                     (mv_reviewed acc)
             in Inr (\<lparr>mr_gained = mv_gained acc, mr_lost = mv_lost acc, mr_changed = mv_changed acc,
                      mr_tasks = tasks_created, mr_from = mc_from c, mr_to = mc_to c,
                      mr_needs_review =
                        sort_key (\<lambda>r. (nr_control_id r, nr_objective_key r)) set_to_needs_review\<rparr>, s5))"

definition move_org_product_version ::
  "uuid \<Rightarrow> uuid \<Rightarrow> uuid \<Rightarrow> uuid \<Rightarrow> db \<Rightarrow> engine_error + move_result \<times> db" where
  "move_org_product_version org_id product_id assessment_id target_version_id s =
     (case find_org_product org_id product_id s of None \<Rightarrow> Inl ActiveOrgProductNotFound | Some op \<Rightarrow>
      if op_status op \<noteq> Active then Inl ActiveOrgProductNotFound
      else if op_version_id op = Some target_version_id then Inl AlreadyOnVersion
      else case get_version target_version_id s of
        None \<Rightarrow> Inl (VersionNotOfProduct target_version_id product_id)
      | Some target_version \<Rightarrow>
        if bv_product_id target_version \<noteq> product_id
        then Inl (VersionNotOfProduct target_version_id product_id)
        else case get_product product_id s of None \<Rightarrow> Inl (ProductNotFound product_id) | Some product \<Rightarrow>
          let from_number = (case op_version_id op of None \<Rightarrow> None
                             | Some v \<Rightarrow> map_option bv_number (get_version v s))
          in apply_move \<lparr>mc_org = org_id, mc_product = product, mc_assessment = assessment_id,
                 mc_from = from_number, mc_to = bv_number target_version\<rparr> op target_version_id s)"

end
