(* ===== verification/Lifecycle.thy ===== *)
theory Lifecycle
  imports Version_Move
begin

section \<open>The life of an assessment\<close>

text \<open>
  \<open>start_assessment\<close>, \<open>_seed_control_states\<close>,
  \<open>copy_forward_raci\<close>, \<open>complete_assessment\<close>,
  \<open>reopen_assessment\<close> and \<open>backfill_missing_control_states\<close> of
  \<open>backend/app/engine.py\<close>.
\<close>

subsection \<open>Starting\<close>

definition framework_objectives :: "uuid \<Rightarrow> db \<Rightarrow> (objective \<times> control) list" where
  "framework_objectives framework_id s =
     filter (\<lambda>(ob, c). c_framework_id c = framework_id)
       (join_on (\<lambda>ob. get_control (ob_control_id ob) s) (t_objective s))"

definition mk_state :: "uuid \<Rightarrow> uuid \<Rightarrow> uuid \<Rightarrow> objective \<Rightarrow> control_state" where
  "mk_state org_id assessment_id i ob =
     \<lparr>cs_id = i, cs_assessment_id = assessment_id, cs_org_id = org_id, cs_objective_id = ob_id ob,
      cs_status = NotMet, cs_responsibility = CustomerOwns\<rparr>"

definition add_states :: "uuid \<Rightarrow> uuid \<Rightarrow> objective list \<Rightarrow> db \<Rightarrow> db" where
  "add_states org_id assessment_id objectives s =
     s\<lparr>next_id := next_id s + length objectives,
       t_cstate := t_cstate s @ insert_rows (mk_state org_id assessment_id) (next_id s) objectives\<rparr>"

definition seed_control_states :: "uuid \<Rightarrow> uuid \<Rightarrow> uuid \<Rightarrow> db \<Rightarrow> db" where
  "seed_control_states org_id framework_id assessment_id s =
     add_states org_id assessment_id (map fst (framework_objectives framework_id s)) s"

definition new_assessment :: "uuid \<Rightarrow> uuid \<Rightarrow> uuid \<Rightarrow> string \<Rightarrow> string \<Rightarrow> datetime \<Rightarrow> assessment" where
  "new_assessment i org_id framework_id name assessment_type now =
     \<lparr>a_id = i, a_org_id = org_id, a_framework_id = framework_id, a_name = name,
      a_type = assessment_type, a_status = InProgress, a_started_at = now, a_submitted_at = None,
      a_sprs_score = None, a_locked_at = None\<rparr>"

definition start_product ::
  "uuid \<Rightarrow> uuid \<Rightarrow> org_product \<Rightarrow> db \<Rightarrow> engine_error + db" where
  "start_product org_id assessment_id op s =
     (case op_version_id op of
        None \<Rightarrow> Inr s
      | Some v \<Rightarrow>
          (case run_loop org_id (op_product_id op) v assessment_id None ''start_assessment'' None s of
             Inl e \<Rightarrow> Inl e
           | Inr (_, s') \<Rightarrow> Inr s'))"

definition start_assessment ::
  "uuid \<Rightarrow> uuid \<Rightarrow> string \<Rightarrow> string \<Rightarrow> db \<Rightarrow> engine_error + uuid \<times> db" where
  "start_assessment org_id framework_id name assessment_type s =
     (let i = next_id s;
          s1 = s\<lparr>next_id := Suc (next_id s),
                 t_assessment := t_assessment s @
                   [new_assessment i org_id framework_id name assessment_type (clock s)]\<rparr>;
          s2 = seed_control_states org_id framework_id i s1;
          active_products = filter (\<lambda>op. op_org_id op = org_id \<and> op_status op = Active \<and> op_configured op)
                              (t_orgproduct s2)
      in case foldres (start_product org_id i) active_products s2 of
           Inl e \<Rightarrow> Inl e
         | Inr s3 \<Rightarrow> Inr (i, snd (recompute_sprs i s3)))"

subsection \<open>Completing and reopening\<close>

definition complete_assessment :: "uuid \<Rightarrow> uuid \<Rightarrow> db \<Rightarrow> engine_error + db" where
  "complete_assessment org_id assessment_id s =
     (case get_assessment assessment_id s of
        None \<Rightarrow> Inl AssessmentNotFound
      | Some a \<Rightarrow>
          if a_org_id a \<noteq> org_id then Inl AssessmentNotFound
          else if a_status a \<noteq> InProgress then Inl (CannotComplete (a_status a))
          else Inr (update_assessment assessment_id
                 (\<lambda>r. r\<lparr>a_status := Submitted, a_submitted_at := Some (clock s)\<rparr>) s))"

definition reopen_assessment :: "uuid \<Rightarrow> uuid \<Rightarrow> db \<Rightarrow> engine_error + db" where
  "reopen_assessment org_id assessment_id s =
     (case get_assessment assessment_id s of
        None \<Rightarrow> Inl AssessmentNotFound
      | Some a \<Rightarrow>
          if a_org_id a \<noteq> org_id then Inl AssessmentNotFound
          else if a_status a \<noteq> Submitted then Inl (CannotReopen (a_status a))
          else Inr (update_assessment assessment_id
                 (\<lambda>r. r\<lparr>a_status := InProgress, a_submitted_at := None\<rparr>) s))"

subsection \<open>Carrying RACI forward\<close>

text \<open>\<open>ORDER BY CASE WHEN status IN ('submitted', 'closed') THEN 0 ELSE 1 END, started_at DESC
  LIMIT 1\<close>.\<close>

definition completed :: "assessment \<Rightarrow> bool" where
  "completed a \<longleftrightarrow> a_status a \<in> {Submitted, Closed}"

definition better_source :: "assessment \<Rightarrow> assessment \<Rightarrow> bool" where
  "better_source a b \<longleftrightarrow>
     (completed a \<and> \<not> completed b) \<or> (completed a = completed b \<and> a_started_at b < a_started_at a)"

fun first_source :: "assessment list \<Rightarrow> assessment option" where
  "first_source [] = None"
| "first_source (a # as) =
     (case first_source as of None \<Rightarrow> Some a | Some b \<Rightarrow> if better_source b a then Some b else Some a)"

definition raci_source :: "uuid \<Rightarrow> uuid \<Rightarrow> uuid \<Rightarrow> db \<Rightarrow> assessment option" where
  "raci_source org_id framework_id new_assessment_id s =
     first_source (filter (\<lambda>a. a_org_id a = org_id \<and> a_framework_id a = framework_id \<and>
       a_id a \<noteq> new_assessment_id) (t_assessment s))"

record raci_summary =
  rs_source :: "uuid option"
  rs_carried :: nat
  rs_skipped_no_match :: nat
  rs_skipped_inactive :: nat
  rs_total :: nat
  rs_unassigned :: nat
  rs_note :: string

definition source_rows :: "uuid \<Rightarrow> db \<Rightarrow> (raci_assignment \<times> uuid) list" where
  "source_rows assessment_id s =
     map (\<lambda>(ra, cs). (ra, cs_objective_id cs))
       (filter (\<lambda>(ra, cs). cs_assessment_id cs = assessment_id)
         (join_on (\<lambda>ra. get_state (ra_state_id ra) s) (t_raci s)))"

definition new_cs_by_objective :: "uuid \<Rightarrow> db \<Rightarrow> uuid \<Rightarrow> uuid option" where
  "new_cs_by_objective assessment_id s =
     dict_of (map (\<lambda>cs. (cs_objective_id cs, cs_id cs))
       (filter (\<lambda>cs. cs_assessment_id cs = assessment_id) (t_cstate s)))"

record raci_acc =
  rc_new :: "(uuid \<times> uuid \<times> char) list"
  rc_no_match :: nat
  rc_inactive :: nat
  rc_assigned :: "uuid list"

definition carry_one ::
  "(uuid \<Rightarrow> uuid option) \<Rightarrow> uuid list \<Rightarrow> raci_acc \<Rightarrow> raci_assignment \<times> uuid \<Rightarrow> raci_acc" where
  "carry_one by_objective contacts acc row =
     (case row of (assignment, objective_id) \<Rightarrow>
      case by_objective objective_id of
        None \<Rightarrow> acc\<lparr>rc_no_match := Suc (rc_no_match acc)\<rparr>
      | Some new_cs_id \<Rightarrow>
          if ra_contact_id assignment \<notin> set contacts then acc\<lparr>rc_inactive := Suc (rc_inactive acc)\<rparr>
          else acc\<lparr>rc_new := rc_new acc @ [(new_cs_id, ra_contact_id assignment, ra_letter assignment)],
                   rc_assigned := objective_id # rc_assigned acc\<rparr>)"

definition carry_all :: "uuid \<Rightarrow> uuid \<Rightarrow> db \<Rightarrow> raci_acc" where
  "carry_all source_id new_assessment_id s =
     foldl (carry_one (new_cs_by_objective new_assessment_id s) (map co_id (t_contact s)))
       \<lparr>rc_new = [], rc_no_match = 0, rc_inactive = 0, rc_assigned = []\<rparr>
       (source_rows source_id s)"

definition mk_raci :: "uuid \<Rightarrow> uuid \<times> uuid \<times> char \<Rightarrow> raci_assignment" where
  "mk_raci i r = (case r of (state, contact, letter) \<Rightarrow>
     \<lparr>ra_id = i, ra_state_id = state, ra_contact_id = contact, ra_letter = letter\<rparr>)"

definition raci_note :: "nat \<Rightarrow> string \<Rightarrow> string" where
  "raci_note carried source_name =
     (if carried \<noteq> 0 then
        ''Carried '' @ str_nat carried @ '' RACI assignment(s) from the prior assessment ('' @
          source_name @ ''). Review before relying on them.''
      else ''No matching RACI assignments to carry from the prior assessment ('' @ source_name @ '').'')"

definition copy_forward_raci ::
  "uuid \<Rightarrow> uuid \<Rightarrow> uuid \<Rightarrow> db \<Rightarrow> engine_error + raci_summary \<times> db" where
  "copy_forward_raci org_id framework_id new_assessment_id s =
     (let total = length (filter (\<lambda>cs. cs_assessment_id cs = new_assessment_id) (t_cstate s)) in
      case raci_source org_id framework_id new_assessment_id s of
        None \<Rightarrow>
          Inr (\<lparr>rs_source = None, rs_carried = 0, rs_skipped_no_match = 0, rs_skipped_inactive = 0,
                rs_total = total, rs_unassigned = total,
                rs_note = ''No prior assessment on this framework to carry RACI from.''\<rparr>, s)
      | Some source \<Rightarrow>
          let acc = carry_all (a_id source) new_assessment_id s;
              table = t_raci s @ insert_rows mk_raci (next_id s) (rc_new acc)
          in if distinct (map (\<lambda>r. (ra_state_id r, ra_contact_id r, ra_letter r)) table)
             then Inr (\<lparr>rs_source = Some (a_id source), rs_carried = length (rc_new acc),
                  rs_skipped_no_match = rc_no_match acc, rs_skipped_inactive = rc_inactive acc,
                  rs_total = total, rs_unassigned = total - card (set (rc_assigned acc)),
                  rs_note = raci_note (length (rc_new acc)) (a_name source)\<rparr>,
                s\<lparr>next_id := next_id s + length (rc_new acc), t_raci := table\<rparr>)
             else Inl (IntegrityError ''uq_raci_assignment''))"

subsection \<open>Backfilling\<close>

record backfill_result =
  bf_assessment_id :: uuid
  bf_org_id :: uuid
  bf_org_name :: string
  bf_assessment_name :: string
  bf_added :: nat
  bf_added_keys :: "string list"
  bf_sprs_before :: "int option"
  bf_sprs_after :: int

definition missing_objectives :: "assessment \<Rightarrow> db \<Rightarrow> (objective \<times> control) list" where
  "missing_objectives a s =
     (let existing = map cs_objective_id (filter (\<lambda>cs. cs_assessment_id cs = a_id a) (t_cstate s))
      in filter (\<lambda>(ob, c). ob_id ob \<notin> set existing) (framework_objectives (a_framework_id a) s))"

text \<open>\<open>str(assessment.org_id)\<close> for an organization that is gone: its identifier.\<close>

definition org_name_of :: "uuid \<Rightarrow> db \<Rightarrow> string" where
  "org_name_of org_id s =
     (case tget og_id org_id (t_org s) of Some og \<Rightarrow> og_name og | None \<Rightarrow> str_nat org_id)"

definition backfill_one ::
  "string \<Rightarrow> backfill_result list \<times> db \<Rightarrow> assessment \<Rightarrow> backfill_result list \<times> db" where
  "backfill_one reason acc a =
     (case acc of (results, s) \<Rightarrow>
      let missing = missing_objectives a s in
      if missing = [] then acc
      else
        let existing_count = length (filter (\<lambda>cs. cs_assessment_id cs = a_id a) (t_cstate s));
            sprs_before = assessment_score (a_id a) s;
            s1 = add_states (a_org_id a) (a_id a) (map fst missing) s;
            (sprs_after, s2) = recompute_sprs (a_id a) s1;
            added_keys = map (\<lambda>(ob, c). c_control_id c @ ''['' @ ob_key ob @ '']'') missing;
            s3 = log_event_as (Some ''system'') (Some ''system'') (Some (a_org_id a))
                   ''control_state.backfill'' ''assessment'' (a_id a)
                   (Some [(''sprs_score'', jopt_int sprs_before),
                     (''objective_count'', JInt (int existing_count))])
                   (Some [(''sprs_score'', JInt sprs_after),
                     (''objective_count'', JInt (int (existing_count + length missing))),
                     (''added_objective_ids'', JList (map (\<lambda>(ob, c). JUuid (ob_id ob)) missing)),
                     (''added_objective_keys'', JList (map JStr added_keys))])
                   (Some [(''via'', JStr ''cli''), (''reason'', JStr reason)]) s2
        in (results @ [\<lparr>bf_assessment_id = a_id a, bf_org_id = a_org_id a,
               bf_org_name = org_name_of (a_org_id a) s, bf_assessment_name = a_name a,
               bf_added = length missing, bf_added_keys = added_keys,
               bf_sprs_before = sprs_before, bf_sprs_after = sprs_after\<rparr>], s3))"

definition backfill_missing_control_states ::
  "string \<Rightarrow> bool \<Rightarrow> db \<Rightarrow> backfill_result list \<times> db" where
  "backfill_missing_control_states reason dry_run s =
     (let (results, s') = foldl (backfill_one reason) ([], s) (t_assessment s)
      in (results, if dry_run then s else s'))"

end
