(* ===== verification/Loop_Facts.thy ===== *)
theory Loop_Facts
  imports Fanout
begin

section \<open>What the magic loop does\<close>

text \<open>
  Facts about \<open>_run_loop\<close>, in the vocabulary of what one update does to one state:
  \<open>covered\<close> is the control state after the product was added to its contributors.
\<close>

definition first_on :: "loop_env \<Rightarrow> uuid \<Rightarrow> bool" where
  "first_on env i \<longleftrightarrow> le_contributors env i = []"

definition in_question :: "loop_env \<Rightarrow> control_state \<Rightarrow> bool" where
  "in_question env cs \<longleftrightarrow> is_judgement_in_question (cs_status cs) (first_on env (cs_id cs))"

definition answer :: "loop_env \<Rightarrow> control_state \<Rightarrow> string option" where
  "answer env cs = choice_of (le_decisions env) (in_question env cs) (cs_id cs)"

definition covered :: "loop_env \<Rightarrow> baseline_control \<Rightarrow> control_state \<Rightarrow> control_state" where
  "covered env bc cs =
     cs\<lparr>cs_status := contributor_added_status (cs_status cs) (first_on env (cs_id cs)) (answer env cs),
        cs_responsibility := resolve_contributor_responsibility
          (map snd (le_contributors env (cs_id cs)) @ [bc_classification bc])\<rparr>"

definition outcome_of :: "loop_env \<Rightarrow> baseline_control \<Rightarrow> control_state \<Rightarrow> judged_outcome" where
  "outcome_of env bc cs =
     \<lparr>jo_state_id = cs_id cs, jo_from = cs_status cs, jo_to = cs_status (covered env bc cs),
      jo_decided_by = decided_by (answer env cs)\<rparr>"

definition update_db :: "loop_env \<Rightarrow> baseline_control \<Rightarrow> control_state \<Rightarrow> db \<Rightarrow> db" where
  "update_db env bc cs s =
     (let s1 = set_state (cs_id cs) (cs_status (covered env bc cs))
                 (cs_responsibility (covered env bc cs)) s
      in if in_question env cs
         then snd (record_judged (le_org env) (le_assessment env) (le_product env) (cs_id cs)
                (cs_status cs) (cs_status (covered env bc cs)) (answer env cs) (le_path env) s1)
         else s1)"

definition update_history :: "loop_env \<Rightarrow> baseline_control \<Rightarrow> control_state \<Rightarrow> history_entry" where
  "update_history env bc cs =
     (cs_id cs, cs_status cs, cs_status (covered env bc cs), cs_responsibility cs,
      cs_responsibility (covered env bc cs),
      if in_question env cs then
        judged_reason (p_name (le_product env)) (cs_status cs) (cs_status (covered env bc cs))
          (answer env cs) (le_path env)
      else if \<not> first_on env (cs_id cs) then
        ''Contributor added: '' @ p_name (le_product env) @ '' (also covers this control)''
      else ''Magic loop: '' @ p_name (le_product env) @ '' activated'')"

definition refused :: "loop_env \<Rightarrow> control_state \<Rightarrow> engine_error option" where
  "refused env cs =
     (if in_question env cs \<and> expected_differs (le_expected env) (cs_id cs) (cs_status cs)
      then Some ActivationJudgementsChanged
      else case answer env cs of None \<Rightarrow> None
           | Some c \<Rightarrow> if c \<in> set activation_choices then None else Some (UnknownChoice c))"

lemma update_state_eq:
  "update_state env cs bc acc =
     (case refused env cs of Some e \<Rightarrow> Inl e
      | None \<Rightarrow> Inr \<lparr>la_db = update_db env bc cs (la_db acc),
          la_contribs = la_contribs acc @ [(cs_id cs, bc_id bc)],
          la_history = la_history acc @ [update_history env bc cs],
          la_judged = la_judged acc @ (if in_question env cs then [outcome_of env bc cs] else []),
          la_seen = (if in_question env cs then cs_id cs # la_seen acc else la_seen acc),
          la_updated = Suc (la_updated acc)\<rparr>)"
proof -
  let ?first = "le_contributors env (cs_id cs) = []"
  have q: "in_question env cs = is_judgement_in_question (cs_status cs) (\<not> \<not> ?first)"
    by (simp add: in_question_def first_on_def)
  show ?thesis
    unfolding update_state_def Let_def q[symmetric] answer_def[symmetric] refused_def update_db_def covered_def
      update_history_def outcome_of_def record_judged_def first_on_def
    by (cases "in_question env cs"; cases "answer env cs") simp_all
qed

lemma covered_fields [simp]:
  "cs_id (covered env bc cs) = cs_id cs" "cs_assessment_id (covered env bc cs) = cs_assessment_id cs"
  "cs_org_id (covered env bc cs) = cs_org_id cs" "cs_objective_id (covered env bc cs) = cs_objective_id cs"
  by (simp_all add: covered_def)

lemma update_db_cstate:
  "t_cstate (update_db env bc cs s) =
     t_cstate (set_state (cs_id cs) (cs_status (covered env bc cs)) (cs_responsibility (covered env bc cs)) s)"
  by (simp add: update_db_def Let_def record_judged_def)

lemma update_db_frame [simp]:
  "t_contrib (update_db env bc cs s) = t_contrib s" "t_history (update_db env bc cs s) = t_history s"
  "t_link (update_db env bc cs s) = t_link s" "t_task (update_db env bc cs s) = t_task s"
  "t_tasklink (update_db env bc cs s) = t_tasklink s" "t_orgproduct (update_db env bc cs s) = t_orgproduct s"
  "t_assessment (update_db env bc cs s) = t_assessment s" "t_raci (update_db env bc cs s) = t_raci s"
  "t_snapshot (update_db env bc cs s) = t_snapshot s"
  by (simp_all add: update_db_def Let_def record_judged_def)

lemma get_state_update_db:
  assumes "get_state (cs_id cs) s = Some cs"
  shows "get_state i (update_db env bc cs s) =
    (if i = cs_id cs then Some (covered env bc cs) else get_state i s)"
  unfolding update_db_cstate get_set_state using assms by (simp add: covered_def)

lemma touches_update_db:
  assumes "get_state (cs_id cs) s = Some cs" "cs_assessment_id cs = aid" "schema_ok s"
  shows "touches aid s (update_db env bc cs s)"
  using touches_set_state[OF assms] touches_trans[OF touches_set_state[OF assms] touches_log_event]
  by (simp add: update_db_def Let_def record_judged_def)

subsection \<open>One update of the loop\<close>

text \<open>An update that reaches a state: its objective has one, a claim of this version is behind
  it, and the product is not among its contributors yet.\<close>

definition reaches :: "loop_env \<Rightarrow> state_update \<Rightarrow> (uuid \<times> baseline_control) option" where
  "reaches env upd =
     (case (le_existing env (su_objective_id upd), le_bc env (su_objective_id upd)) of
        (Some i, Some bc) \<Rightarrow>
          if p_id (le_product env) \<in> fst ` set (le_contributors env i) then None else Some (i, bc)
      | _ \<Rightarrow> None)"

definition env_ok :: "loop_env \<Rightarrow> db \<Rightarrow> bool" where
  "env_ok env s \<longleftrightarrow> (\<forall>obj i. le_existing env obj = Some i \<longrightarrow>
     (\<exists>cs. get_state i s = Some cs \<and> cs_assessment_id cs = le_assessment env \<and> cs_objective_id cs = obj))"

lemma list_ex_fst: "list_ex (\<lambda>(p, _). p = x) ps \<longleftrightarrow> x \<in> fst ` set ps"
  by (induction ps) auto

lemma loop_step_eq:
  assumes "\<And>i. le_existing env (su_objective_id upd) = Some i \<Longrightarrow> get_state i (la_db acc) \<noteq> None"
  shows "loop_step env upd acc =
    (case reaches env upd of None \<Rightarrow> Inr acc
     | Some (i, bc) \<Rightarrow> update_state env (the (get_state i (la_db acc))) bc acc)"
  using assms
  by (auto simp: loop_step_def reaches_def list_ex_fst split: option.split)

lemma env_ok_touches: "env_ok env s \<Longrightarrow> touches aid s s' \<Longrightarrow> env_ok env s'"
  unfolding env_ok_def
proof (intro allI impI)
  fix obj i
  assume ok: "\<forall>obj i. le_existing env obj = Some i \<longrightarrow>
     (\<exists>cs. get_state i s = Some cs \<and> cs_assessment_id cs = le_assessment env \<and> cs_objective_id cs = obj)"
    and t: "touches aid s s'" and e: "le_existing env obj = Some i"
  obtain cs where cs: "get_state i s = Some cs" "cs_assessment_id cs = le_assessment env"
    "cs_objective_id cs = obj" using ok e by blast
  have "map_option state_key (get_state i s') = Some (state_key cs)"
    using touches_get_state[OF t, of i] cs(1) by simp
  then show "\<exists>cs. get_state i s' = Some cs \<and> cs_assessment_id cs = le_assessment env \<and> cs_objective_id cs = obj"
    using cs by (auto simp: state_key_def)
qed

lemma get_state_id: "get_state i s = Some cs \<Longrightarrow> cs_id cs = i"
  by (auto dest: tget_SomeD)

lemma loop_step_cases:
  assumes "loop_step env upd acc = Inr acc'" and "env_ok env (la_db acc)"
  obtains (skip) "acc' = acc" "reaches env upd = None"
  | (update) i bc cs where "reaches env upd = Some (i, bc)" "get_state i (la_db acc) = Some cs"
      "cs_id cs = i" "cs_assessment_id cs = le_assessment env" "cs_objective_id cs = su_objective_id upd"
      "refused env cs = None" "update_state env cs bc acc = Inr acc'"
proof -
  have ex: "get_state i (la_db acc) \<noteq> None" if "le_existing env (su_objective_id upd) = Some i" for i
    using assms(2) that by (auto simp: env_ok_def)
  show ?thesis
  proof (cases "reaches env upd")
    case None
    then show ?thesis using skip assms(1) by (simp add: loop_step_eq[OF ex])
  next
    case (Some r)
    obtain i bc where r: "r = (i, bc)" by (cases r)
    have e: "le_existing env (su_objective_id upd) = Some i"
      using Some r by (auto simp: reaches_def split: option.splits if_splits)
    obtain cs where cs: "get_state i (la_db acc) = Some cs" "cs_assessment_id cs = le_assessment env"
      "cs_objective_id cs = su_objective_id upd" using assms(2) e unfolding env_ok_def by blast
    have u: "update_state env cs bc acc = Inr acc'"
      using assms(1) cs(1) Some r by (simp add: loop_step_eq[OF ex])
    then have "refused env cs = None" by (auto simp: update_state_eq split: option.splits)
    then show ?thesis using update[of i bc cs] Some r cs u get_state_id[OF cs(1)] by simp
  qed
qed

subsection \<open>The whole loop\<close>

definition hits :: "loop_env \<Rightarrow> state_update list \<Rightarrow> (uuid \<times> baseline_control) list" where
  "hits env upds = List.map_filter (reaches env) upds"

definition state_at :: "uuid \<Rightarrow> db \<Rightarrow> control_state" where
  "state_at i s = the (get_state i s)"

definition covered_by :: "loop_env \<Rightarrow> (uuid \<times> baseline_control) list \<Rightarrow> db \<Rightarrow> uuid \<Rightarrow> control_state option" where
  "covered_by env hs s i =
     (case map_of hs i of None \<Rightarrow> get_state i s | Some bc \<Rightarrow> map_option (covered env bc) (get_state i s))"

definition judged_hits :: "loop_env \<Rightarrow> (uuid \<times> baseline_control) list \<Rightarrow> db \<Rightarrow> (uuid \<times> baseline_control) list" where
  "judged_hits env hs s = filter (\<lambda>h. in_question env (state_at (fst h) s)) hs"

definition loop_result_ok :: "loop_env \<Rightarrow> (uuid \<times> baseline_control) list \<Rightarrow> loop_acc \<Rightarrow> loop_acc \<Rightarrow> bool" where
  "loop_result_ok env hs acc acc' \<longleftrightarrow>
     (\<forall>i. get_state i (la_db acc') = covered_by env hs (la_db acc) i) \<and>
     (\<forall>h \<in> set hs. refused env (state_at (fst h) (la_db acc)) = None) \<and>
     la_history acc' = la_history acc @
       map (\<lambda>h. update_history env (snd h) (state_at (fst h) (la_db acc))) hs \<and>
     la_judged acc' = la_judged acc @
       map (\<lambda>h. outcome_of env (snd h) (state_at (fst h) (la_db acc))) (judged_hits env hs (la_db acc)) \<and>
     set (la_seen acc') = set (la_seen acc) \<union> fst ` set (judged_hits env hs (la_db acc)) \<and>
     la_updated acc' = la_updated acc + length hs"

lemma hits_simps [simp]:
  "hits env [] = []"
  "reaches env u = None \<Longrightarrow> hits env (u # us) = hits env us"
  "reaches env u = Some h \<Longrightarrow> hits env (u # us) = h # hits env us"
  by (simp_all add: hits_def List.map_filter_simps)

text \<open>What the loop adds to the contributor rows, on every run that ends.\<close>

lemma loop_contribs:
  assumes "foldres (loop_step env) upds acc = Inr acc'" "env_ok env (la_db acc)" "schema_ok (la_db acc)"
  shows "la_contribs acc' = la_contribs acc @ map (\<lambda>h. (fst h, bc_id (snd h))) (hits env upds)
     \<and> touches (le_assessment env) (la_db acc) (la_db acc') \<and> env_ok env (la_db acc')
     \<and> schema_ok (la_db acc')"
  using assms
proof (induction upds arbitrary: acc)
  case Nil
  then show ?case by simp
next
  case (Cons u us)
  from Cons.prems(1) obtain acc1 where a1: "loop_step env u acc = Inr acc1"
    "foldres (loop_step env) us acc1 = Inr acc'" by (auto split: sum.splits)
  from a1(1) Cons.prems(2) show ?case
  proof (cases rule: loop_step_cases)
    case skip
    then show ?thesis using Cons.IH[of acc] a1(2) Cons.prems(2,3) by simp
  next
    case (update i bc cs)
    have acc1: "la_db acc1 = update_db env bc cs (la_db acc)"
      "la_contribs acc1 = la_contribs acc @ [(i, bc_id bc)]"
      using update(7) update(3,6) by (auto simp: update_state_eq)
    have t: "touches (le_assessment env) (la_db acc) (la_db acc1)"
      unfolding acc1 using update(2-4) Cons.prems(3) by (intro touches_update_db) simp_all
    note ih = Cons.IH[OF a1(2) env_ok_touches[OF Cons.prems(2) t] touches_schema_ok[OF t Cons.prems(3)]]
    show ?thesis using ih update(1) acc1(2) touches_trans[OF t] by auto
  qed
qed

lemma covered_by_Cons:
  assumes "i \<notin> fst ` set hs" "get_state i s = Some cs" "cs_id cs = i"
  shows "covered_by env hs (update_db env bc cs s) j = covered_by env ((i, bc) # hs) s j"
proof (cases "j = i")
  case True
  then have "map_of hs j = None" using assms(1) by (simp add: map_of_eq_None_iff)
  then show ?thesis using True assms(2,3) by (simp add: covered_by_def get_state_update_db)
next
  case False
  then show ?thesis
    using get_state_update_db[of cs s j env bc] assms(2,3)
    by (simp add: covered_by_def split: option.split)
qed

lemma loop_result:
  assumes "foldres (loop_step env) upds acc = Inr acc'" "env_ok env (la_db acc)" "schema_ok (la_db acc)"
    and "distinct (map fst (hits env upds))"
  shows "loop_result_ok env (hits env upds) acc acc'"
  using assms
proof (induction upds arbitrary: acc)
  case Nil
  then show ?case by (simp add: loop_result_ok_def covered_by_def judged_hits_def)
next
  case (Cons u us)
  from Cons.prems(1) obtain acc1 where a1: "loop_step env u acc = Inr acc1"
    "foldres (loop_step env) us acc1 = Inr acc'" by (auto split: sum.splits)
  from a1(1) Cons.prems(2) show ?case
  proof (cases rule: loop_step_cases)
    case skip
    then show ?thesis using Cons.IH[of acc] a1(2) Cons.prems(2-4) by simp
  next
    case (update i bc cs)
    have acc1: "acc1 = \<lparr>la_db = update_db env bc cs (la_db acc),
          la_contribs = la_contribs acc @ [(cs_id cs, bc_id bc)],
          la_history = la_history acc @ [update_history env bc cs],
          la_judged = la_judged acc @ (if in_question env cs then [outcome_of env bc cs] else []),
          la_seen = (if in_question env cs then cs_id cs # la_seen acc else la_seen acc),
          la_updated = Suc (la_updated acc)\<rparr>"
      using update(7) update(6) by (simp add: update_state_eq)
    have t: "touches (le_assessment env) (la_db acc) (la_db acc1)"
      unfolding acc1 using update(2-4) Cons.prems(3) by (simp, intro touches_update_db) simp_all
    have hs: "hits env (u # us) = (i, bc) # hits env us" using update(1) by simp
    have d: "i \<notin> fst ` set (hits env us)" "distinct (map fst (hits env us))"
      using Cons.prems(4) unfolding hs by simp_all
    have ih: "loop_result_ok env (hits env us) acc1 acc'"
      by (rule Cons.IH[OF a1(2) env_ok_touches[OF Cons.prems(2) t] touches_schema_ok[OF t Cons.prems(3)] d(2)])
    have same: "state_at (fst h) (la_db acc1) = state_at (fst h) (la_db acc)"
      if "h \<in> set (hits env us)" for h
    proof -
      have "fst h \<noteq> i" using that d(1) by force
      then show ?thesis
        using get_state_update_db[of cs "la_db acc" "fst h" env bc] update(2,3)
        by (simp add: state_at_def acc1)
    qed
    have at: "state_at i (la_db acc) = cs" by (simp add: state_at_def update(2))
    have jh: "judged_hits env (hits env us) (la_db acc1) = judged_hits env (hits env us) (la_db acc)"
      unfolding judged_hits_def by (rule filter_cong[OF refl]) (simp add: same)
    have jsub: "set (judged_hits env (hits env us) (la_db acc)) \<subseteq> set (hits env us)"
      by (auto simp: judged_hits_def)
    have m: "map (\<lambda>h. update_history env (snd h) (state_at (fst h) (la_db acc1))) (hits env us) =
        map (\<lambda>h. update_history env (snd h) (state_at (fst h) (la_db acc))) (hits env us)"
      by (rule map_cong[OF refl]) (simp add: same)
    have mj: "map (\<lambda>h. outcome_of env (snd h) (state_at (fst h) (la_db acc1)))
          (judged_hits env (hits env us) (la_db acc)) =
        map (\<lambda>h. outcome_of env (snd h) (state_at (fst h) (la_db acc)))
          (judged_hits env (hits env us) (la_db acc))"
      by (rule map_cong[OF refl]) (use same jsub in auto)
    have g: "get_state j (la_db acc') = covered_by env ((i, bc) # hits env us) (la_db acc) j" for j
      using ih covered_by_Cons[OF d(1) update(2,3), of env bc j]
      unfolding loop_result_ok_def by (simp add: acc1)
    show ?thesis
      unfolding loop_result_ok_def hs
    proof (intro conjI allI)
      show "\<forall>h \<in> set ((i, bc) # hits env us). refused env (state_at (fst h) (la_db acc)) = None"
        using ih same update(6) at unfolding loop_result_ok_def by simp
      show "la_history acc' = la_history acc @
          map (\<lambda>h. update_history env (snd h) (state_at (fst h) (la_db acc))) ((i, bc) # hits env us)"
        using ih unfolding loop_result_ok_def m by (simp add: at acc1)
      show "la_judged acc' = la_judged acc @
          map (\<lambda>h. outcome_of env (snd h) (state_at (fst h) (la_db acc)))
            (judged_hits env ((i, bc) # hits env us) (la_db acc))"
        using ih unfolding loop_result_ok_def jh mj
        by (simp add: acc1 judged_hits_def at)
      show "set (la_seen acc') = set (la_seen acc) \<union>
          fst ` set (judged_hits env ((i, bc) # hits env us) (la_db acc))"
        using ih update(3) unfolding loop_result_ok_def jh
        by (simp add: acc1 judged_hits_def at)
      show "la_updated acc' = la_updated acc + length ((i, bc) # hits env us)"
        using ih unfolding loop_result_ok_def by (simp add: acc1)
    qed (rule g)
  qed
qed

text \<open>When no state is refused, the loop ends.\<close>

lemma loop_ends:
  assumes "env_ok env (la_db acc)" "schema_ok (la_db acc)" "distinct (map fst (hits env upds))"
    and "\<forall>h \<in> set (hits env upds). refused env (state_at (fst h) (la_db acc)) = None"
  shows "\<exists>acc'. foldres (loop_step env) upds acc = Inr acc'"
  using assms
proof (induction upds arbitrary: acc)
  case (Cons u us)
  have ex: "get_state i (la_db acc) \<noteq> None" if "le_existing env (su_objective_id u) = Some i" for i
    using Cons.prems(1) that by (auto simp: env_ok_def)
  show ?case
  proof (cases "reaches env u")
    case None
    then show ?thesis using Cons.IH[OF Cons.prems(1,2)] Cons.prems(3,4) by (simp add: loop_step_eq[OF ex])
  next
    case (Some r)
    obtain i bc where r: "r = (i, bc)" by (cases r)
    have e: "le_existing env (su_objective_id u) = Some i"
      using Some r by (auto simp: reaches_def split: option.splits if_splits)
    obtain cs where cs: "get_state i (la_db acc) = Some cs" "cs_assessment_id cs = le_assessment env"
      using Cons.prems(1) e unfolding env_ok_def by blast
    have id: "cs_id cs = i" by (rule get_state_id[OF cs(1)])
    have hs: "hits env (u # us) = (i, bc) # hits env us" using Some r by simp
    have "refused env cs = None" using Cons.prems(4) cs(1) unfolding hs by (simp add: state_at_def)
    then obtain acc1 where a1: "loop_step env u acc = Inr acc1" "la_db acc1 = update_db env bc cs (la_db acc)"
      using cs(1) Some r by (simp add: loop_step_eq[OF ex] update_state_eq)
    have t: "touches (le_assessment env) (la_db acc) (la_db acc1)"
      unfolding a1 using cs id Cons.prems(2) by (intro touches_update_db) simp_all
    have "state_at (fst h) (la_db acc1) = state_at (fst h) (la_db acc)"
      if "h \<in> set (hits env us)" for h
    proof -
      have "fst h \<noteq> i" using that Cons.prems(3) unfolding hs by force
      then show ?thesis
        using get_state_update_db[of cs "la_db acc" "fst h" env bc] cs(1) id
        by (simp add: state_at_def a1)
    qed
    then have "\<exists>acc'. foldres (loop_step env) us acc1 = Inr acc'"
      using Cons.prems(3,4) unfolding hs
      by (intro Cons.IH env_ok_touches[OF Cons.prems(1) t] touches_schema_ok[OF t Cons.prems(2)]) simp_all
    then show ?thesis using a1(1) by simp
  qed
qed simp

end
