(* ===== verification/Fanout_Facts.thy ===== *)
theory Fanout_Facts
  imports Fanout
begin

section \<open>What the fan-out does\<close>

text \<open>
  Facts about \<open>_fanout_evidence_tasks\<close>: the invariant of its loop, that it stays in
  the frame of the assessment, and that a second run finds everything the first one made.
\<close>

lemma dict_of_append: "dict_of (xs @ ys) k = (case dict_of ys k of None \<Rightarrow> dict_of xs k | Some v \<Rightarrow> Some v)"
  unfolding dict_of_def by (simp add: map_add_def)

lemma touches_contrib_new:
  assumes "add_contributors p rows s = Inr s'"
  shows "touches aid s s'"
proof -
  let ?table = "t_contrib s @ insert_rows (mk_contributor p) (next_id s) rows"
  have d: "distinct (map (\<lambda>ct. (ct_state_id ct, ct_product_id ct)) ?table)"
    and s': "s' = s\<lparr>next_id := next_id s + length rows, t_contrib := ?table\<rparr>"
    using assms by (simp_all add: add_contributors_def Let_def split: if_splits)
  show ?thesis
  proof (rule touchesI)
    assume ok: "schema_ok s"
    have "pk_ok ct_id (next_id s + length rows) ?table"
      using ok by (intro pk_ok_insert_rows) (simp_all add: schema_ok_def contribs_ok_def mk_contributor_def)
    then have "contribs_ok (next_id s') (t_contrib s')"
      using d unfolding s' by (simp add: contribs_ok_def)
    then show "schema_ok s'"
      using ok unfolding schema_ok_def s'
      by (auto intro: catalog_ok_mono[of s] states_ok_mono org_products_ok_mono links_ok_mono
          task_links_ok_mono pk_ok_mono simp: catalog_eq_def)
  qed (simp_all add: s' catalog_eq_def append_only_def)
qed

lemma touches_add_history: "touches aid s (add_history rows s)"
proof (rule touchesI)
  assume ok: "schema_ok s"
  then show "schema_ok (add_history rows s)"
    unfolding schema_ok_def add_history_def
    by (auto intro: catalog_ok_mono[of s] states_ok_mono org_products_ok_mono links_ok_mono
        contribs_ok_mono task_links_ok_mono pk_ok_mono simp: catalog_eq_def)
qed (simp_all add: add_history_def catalog_eq_def append_only_def)

subsection \<open>The invariant of the loop\<close>

definition known_tasks :: "fan_env \<Rightarrow> db \<Rightarrow> uuid set" where
  "known_tasks env s = tk_id ` set (tasks_of (fe_org env) (fe_assessment env) s)"

text \<open>The tasks the call has made: appended, open, for this assessment, one per artifact key that
  no task had, each with the identifier the run keeps for its key.\<close>

definition made_ok :: "fan_env \<Rightarrow> db \<Rightarrow> fan_acc \<Rightarrow> evidence_task list \<Rightarrow> bool" where
  "made_ok env s acc new \<longleftrightarrow>
     t_task (fa_db acc) = t_task s @ new \<and> length new = fa_created acc \<and>
     distinct (map task_key new) \<and>
     (\<forall>k i. map_of (fa_new acc) k = Some i \<longleftrightarrow> (\<exists>t \<in> set new. task_key t = k \<and> tk_id t = i)) \<and>
     (\<forall>t \<in> set new. tk_org_id t = fe_org env \<and> tk_assessment_id t = Some (fe_assessment env) \<and>
        tk_status t = TaskOpen \<and> \<not> tk_is_archived t \<and> next_id s \<le> tk_id t \<and>
        fe_by_key env (task_key t) = None \<and>
        (\<exists>spec \<in> set (t_spec s). tk_spec_id t = Some (es_id spec) \<and> task_key t = spec_key spec \<and>
           fe_by_spec env (es_id spec) = None))"

text \<open>The links it has added: appended, between a task of this assessment and a state of it.\<close>

definition linked_ok :: "fan_env \<Rightarrow> db \<Rightarrow> fan_acc \<Rightarrow> task_link list \<Rightarrow> bool" where
  "linked_ok env s acc new \<longleftrightarrow>
     t_tasklink (fa_db acc) = t_tasklink s @ new \<and>
     (\<forall>l \<in> set new. tl_task_id l \<in> known_tasks env (fa_db acc) \<and> tl_state_id l \<in> ran (fe_states env)) \<and>
     (\<forall>l \<in> set (t_tasklink (fa_db acc)). tl_task_id l \<in> known_tasks env (fa_db acc) \<longrightarrow>
        (tl_task_id l, tl_state_id l) \<in> set (fa_links acc)) \<and>
     (\<forall>p \<in> set (fa_links acc). p \<in> (\<lambda>l. (tl_task_id l, tl_state_id l)) ` set (t_tasklink (fa_db acc)))"

definition fan_rest :: "db \<Rightarrow> db \<Rightarrow> bool" where
  "fan_rest s s' \<longleftrightarrow>
     s' = s\<lparr>next_id := next_id s', t_task := t_task s', t_tasklink := t_tasklink s'\<rparr> \<and>
     next_id s \<le> next_id s'"

definition fan_inv :: "fan_env \<Rightarrow> db \<Rightarrow> fan_acc \<Rightarrow> bool" where
  "fan_inv env s acc \<longleftrightarrow>
     fan_rest s (fa_db acc) \<and> (\<exists>new. made_ok env s acc new) \<and> (\<exists>new. linked_ok env s acc new) \<and>
     pk_ok tk_id (next_id (fa_db acc)) (t_task (fa_db acc)) \<and>
     task_links_ok (next_id (fa_db acc)) (t_task (fa_db acc)) (t_tasklink (fa_db acc))"

text \<open>What the dictionaries of the environment must be, read from the database before the run.\<close>

definition fan_env_ok :: "fan_env \<Rightarrow> db \<Rightarrow> bool" where
  "fan_env_ok env s \<longleftrightarrow> ran (fe_by_spec env) \<subseteq> known_tasks env s \<and> ran (fe_by_key env) \<subseteq> known_tasks env s"

lemma fan_rest_refl [simp]: "fan_rest s s"
  by (simp add: fan_rest_def)

lemma fan_rest_frame:
  assumes "fan_rest s s'"
  shows "t_org s' = t_org s" "t_control s' = t_control s" "t_objective s' = t_objective s"
    "t_product s' = t_product s" "t_version s' = t_version s" "t_bcontrol s' = t_bcontrol s"
    "t_spec s' = t_spec s" "t_orgproduct s' = t_orgproduct s" "t_assessment s' = t_assessment s"
    "t_cstate s' = t_cstate s" "t_contrib s' = t_contrib s" "t_history s' = t_history s"
    "t_snapshot s' = t_snapshot s" "t_evidence s' = t_evidence s" "t_link s' = t_link s"
    "t_contact s' = t_contact s" "t_raci s' = t_raci s" "t_audit s' = t_audit s" "clock s' = clock s"
    "cur_actor s' = cur_actor s" "cur_actor_type s' = cur_actor_type s" "cur_ip s' = cur_ip s"
proof -
  obtain n t l where s': "s' = s\<lparr>next_id := n, t_task := t, t_tasklink := l\<rparr>"
    using assms unfolding fan_rest_def by blast
  show "t_org s' = t_org s" "t_control s' = t_control s" "t_objective s' = t_objective s"
    "t_product s' = t_product s" "t_version s' = t_version s" "t_bcontrol s' = t_bcontrol s"
    "t_spec s' = t_spec s" "t_orgproduct s' = t_orgproduct s" "t_assessment s' = t_assessment s"
    "t_cstate s' = t_cstate s" "t_contrib s' = t_contrib s" "t_history s' = t_history s"
    "t_snapshot s' = t_snapshot s" "t_evidence s' = t_evidence s" "t_link s' = t_link s"
    "t_contact s' = t_contact s" "t_raci s' = t_raci s" "t_audit s' = t_audit s" "clock s' = clock s"
    "cur_actor s' = cur_actor s" "cur_actor_type s' = cur_actor_type s" "cur_ip s' = cur_ip s"
    unfolding s' by simp_all
qed

lemma known_tasks_mono: "set (t_task s) \<subseteq> set (t_task s') \<Longrightarrow> known_tasks env s \<subseteq> known_tasks env s'"
  by (auto simp: known_tasks_def tasks_of_def)

lemma fan_link_cases:
  obtains (skip) "fan_link env c t acc k = acc"
  | (add) obj i where "fe_lookup env (c, k) = Some obj" "fe_states env obj = Some i"
      "(t, i) \<notin> set (fa_links acc)"
      "fan_link env c t acc k =
         acc\<lparr>fa_db := (fa_db acc)\<lparr>next_id := Suc (next_id (fa_db acc)),
               t_tasklink := t_tasklink (fa_db acc) @
                 [\<lparr>tl_id = next_id (fa_db acc), tl_task_id = t, tl_state_id = i\<rparr>]\<rparr>,
             fa_links := (t, i) # fa_links acc\<rparr>"
proof (cases "fe_lookup env (c, k)")
  case None
  then show ?thesis using skip by (simp add: fan_link_def)
next
  case (Some obj)
  note obj = this
  show ?thesis
  proof (cases "fe_states env obj")
    case None
    then show ?thesis using skip obj by (simp add: fan_link_def)
  next
    case (Some i)
    show ?thesis
    proof (cases "(t, i) \<in> set (fa_links acc)")
      case True
      then show ?thesis using skip obj Some by (simp add: fan_link_def)
    next
      case False
      then show ?thesis using add[OF obj Some] obj Some by (simp add: fan_link_def Let_def)
    qed
  qed
qed

lemma fan_inv_link:
  assumes inv: "fan_inv env s acc" and t: "t \<in> known_tasks env (fa_db acc)"
  shows "fan_inv env s (fan_link env c t acc k)"
proof (cases rule: fan_link_cases[of env c t acc k])
  case skip
  then show ?thesis using inv by simp
next
  case (add obj i)
  let ?d = "fa_db acc" and ?l = "\<lparr>tl_id = next_id (fa_db acc), tl_task_id = t, tl_state_id = i\<rparr>"
  let ?acc' = "fan_link env c t acc k"
  have db': "next_id (fa_db ?acc') = Suc (next_id ?d)" "t_task (fa_db ?acc') = t_task ?d"
    "t_tasklink (fa_db ?acc') = t_tasklink ?d @ [?l]" "fa_new ?acc' = fa_new acc"
    "fa_created ?acc' = fa_created acc" "fa_links ?acc' = (t, i) # fa_links acc"
    unfolding add(4) by simp_all
  have known: "known_tasks env (fa_db ?acc') = known_tasks env ?d"
    by (simp add: known_tasks_def tasks_of_def db')
  from inv obtain tnew lnew where tn: "made_ok env s acc tnew" and ln: "linked_ok env s acc lnew"
    unfolding fan_inv_def by blast
  have "fan_rest s (fa_db ?acc')"
    using inv unfolding fan_inv_def fan_rest_def add(4) by (cases "fa_db acc") (cases s, auto)
  moreover have "made_ok env s ?acc' tnew"
    using tn unfolding made_ok_def db' .
  moreover have "linked_ok env s ?acc' (lnew @ [?l])"
    using ln t add(2) unfolding linked_ok_def db' known by (auto intro: ranI)
  moreover have "pk_ok tk_id (next_id (fa_db ?acc')) (t_task (fa_db ?acc'))"
    using inv unfolding fan_inv_def db' by (auto intro: pk_ok_mono)
  moreover have "task_links_ok (next_id (fa_db ?acc')) (t_task (fa_db ?acc')) (t_tasklink (fa_db ?acc'))"
  proof -
    have ok: "task_links_ok (next_id ?d) (t_task ?d) (t_tasklink ?d)" using inv by (simp add: fan_inv_def)
    have "(t, i) \<notin> (\<lambda>r. (tl_task_id r, tl_state_id r)) ` set (t_tasklink ?d)"
      using ln t add(3) unfolding linked_ok_def by fastforce
    moreover have "t \<in> tk_id ` set (t_task ?d)" using t by (auto simp: known_tasks_def tasks_of_def)
    ultimately show ?thesis
      using ok unfolding task_links_ok_def db' by (auto intro: pk_ok_snoc)
  qed
  ultimately show ?thesis unfolding fan_inv_def by blast
qed

lemma fan_links_inv:
  assumes "fan_inv env s acc" "t \<in> known_tasks env (fa_db acc)"
  shows "fan_inv env s (foldl (fan_link env c t) acc ks) \<and>
    t_task (fa_db (foldl (fan_link env c t) acc ks)) = t_task (fa_db acc) \<and>
    fa_new (foldl (fan_link env c t) acc ks) = fa_new acc \<and>
    set (fa_links acc) \<subseteq> set (fa_links (foldl (fan_link env c t) acc ks)) \<and>
    (\<forall>k \<in> set ks. \<forall>obj i. fe_lookup env (c, k) = Some obj \<longrightarrow> fe_states env obj = Some i \<longrightarrow>
       (t, i) \<in> set (fa_links (foldl (fan_link env c t) acc ks)))"
  using assms
proof (induction ks arbitrary: acc)
  case (Cons k ks)
  let ?acc1 = "fan_link env c t acc k"
  have one: "t_task (fa_db ?acc1) = t_task (fa_db acc)" "fa_new ?acc1 = fa_new acc"
    "set (fa_links acc) \<subseteq> set (fa_links ?acc1)"
    "\<forall>obj i. fe_lookup env (c, k) = Some obj \<longrightarrow> fe_states env obj = Some i \<longrightarrow> (t, i) \<in> set (fa_links ?acc1)"
    by (auto simp: fan_link_def Let_def split: option.splits)
  have "known_tasks env (fa_db ?acc1) = known_tasks env (fa_db acc)"
    by (simp add: known_tasks_def tasks_of_def one)
  then show ?case
    using Cons.IH[OF fan_inv_link[OF Cons.prems]] Cons.prems(2) one by (simp, blast)
qed simp

subsection \<open>A new task\<close>

lemma find_task_None:
  "find_task env acc spec = None \<longleftrightarrow>
     fe_by_spec env (es_id spec) = None \<and> fe_by_key env (spec_key spec) = None \<and>
     map_of (fa_new acc) (spec_key spec) = None"
  by (cases "fe_by_spec env (es_id spec)"; cases "fe_by_key env (spec_key spec)";
      cases "map_of (fa_new acc) (spec_key spec)") (simp_all add: find_task_def)

lemma find_task_Some:
  "find_task env acc spec = Some t \<longleftrightarrow>
     fe_by_spec env (es_id spec) = Some t \<or>
     (fe_by_spec env (es_id spec) = None \<and> fe_by_key env (spec_key spec) = Some t) \<or>
     (fe_by_spec env (es_id spec) = None \<and> fe_by_key env (spec_key spec) = None \<and>
      map_of (fa_new acc) (spec_key spec) = Some t)"
  by (cases "fe_by_spec env (es_id spec)"; cases "fe_by_key env (spec_key spec)";
      cases "map_of (fa_new acc) (spec_key spec)") (auto simp: find_task_def)

lemma find_task_known:
  assumes "fan_inv env s acc" "fan_env_ok env s" "find_task env acc spec = Some t"
  shows "t \<in> known_tasks env (fa_db acc)"
proof -
  obtain new where new: "made_ok env s acc new" using assms(1) by (auto simp: fan_inv_def)
  have sub: "known_tasks env s \<subseteq> known_tasks env (fa_db acc)"
    using new by (intro known_tasks_mono) (simp add: made_ok_def)
  have "t \<in> known_tasks env (fa_db acc)" if n: "map_of (fa_new acc) (spec_key spec) = Some t"
  proof -
    obtain x where "x \<in> set new" "tk_id x = t" using new n unfolding made_ok_def by blast
    then show ?thesis using new unfolding made_ok_def known_tasks_def tasks_of_def by force
  qed
  then show ?thesis
    using assms(2,3) sub unfolding find_task_Some fan_env_ok_def by (blast intro: ranI)
qed

lemma fan_inv_create:
  assumes inv: "fan_inv env s acc" and none: "find_task env acc spec = None"
    and spec: "spec \<in> set (t_spec s)"
  shows "fan_inv env s (create_task env acc spec) \<and>
    next_id (fa_db acc) \<in> known_tasks env (fa_db (create_task env acc spec)) \<and>
    map_of (fa_new (create_task env acc spec)) = (map_of (fa_new acc))(spec_key spec \<mapsto> next_id (fa_db acc)) \<and>
    fa_links (create_task env acc spec) = fa_links acc"
proof -
  let ?d = "fa_db acc" and ?acc' = "create_task env acc spec" and ?t = "mk_task env spec (next_id (fa_db acc))"
  from inv obtain tnew lnew where tn: "made_ok env s acc tnew" and ln: "linked_ok env s acc lnew"
    unfolding fan_inv_def by blast
  have db': "next_id (fa_db ?acc') = Suc (next_id ?d)" "t_task (fa_db ?acc') = t_task ?d @ [?t]"
    "t_tasklink (fa_db ?acc') = t_tasklink ?d" "fa_new ?acc' = dput (spec_key spec) (next_id ?d) (fa_new acc)"
    "fa_created ?acc' = Suc (fa_created acc)" "fa_links ?acc' = fa_links acc"
    by (simp_all add: create_task_def Let_def)
  have new: "tk_id ?t = next_id ?d" "task_key ?t = spec_key spec" "tk_org_id ?t = fe_org env"
    "tk_assessment_id ?t = Some (fe_assessment env)" "tk_status ?t = TaskOpen" "\<not> tk_is_archived ?t"
    "tk_spec_id ?t = Some (es_id spec)"
    by (simp_all add: mk_task_def task_key_def spec_key_def)
  have n: "fe_by_spec env (es_id spec) = None" "fe_by_key env (spec_key spec) = None"
    "map_of (fa_new acc) (spec_key spec) = None"
    using none unfolding find_task_None by simp_all
  have known: "known_tasks env (fa_db ?acc') = insert (next_id ?d) (known_tasks env ?d)"
    using new by (auto simp: known_tasks_def tasks_of_def db')
  have ge: "next_id s \<le> next_id ?d" using inv by (simp add: fan_inv_def fan_rest_def)
  have nokey: "spec_key spec \<notin> task_key ` set tnew"
    using tn n(3) unfolding made_ok_def by (metis imageE option.distinct(1))
  have fresh: "next_id ?d \<notin> tl_task_id ` set (t_tasklink ?d)" "next_id ?d \<notin> tk_id ` set (t_task ?d)"
    using inv unfolding fan_inv_def task_links_ok_def pk_ok_def by fastforce+
  have "fan_rest s (fa_db ?acc')"
    using inv unfolding fan_inv_def fan_rest_def create_task_def Let_def
    by (cases "fa_db acc") (cases s, auto)
  moreover have "made_ok env s ?acc' (tnew @ [?t])"
    unfolding made_ok_def db'
  proof (intro conjI allI ballI)
    show "t_task ?d @ [?t] = t_task s @ tnew @ [?t]" "length (tnew @ [?t]) = Suc (fa_created acc)"
      using tn by (simp_all add: made_ok_def)
    show "distinct (map task_key (tnew @ [?t]))" using tn nokey new(2) by (simp add: made_ok_def)
    show "(map_of (dput (spec_key spec) (next_id ?d) (fa_new acc)) k = Some i) =
        (\<exists>t \<in> set (tnew @ [?t]). task_key t = k \<and> tk_id t = i)" for k i
    proof (cases "k = spec_key spec")
      case True
      have "\<not> (\<exists>t \<in> set tnew. task_key t = k \<and> tk_id t = i)" using nokey True by (metis imageI)
      then show ?thesis using new(1,2) True by auto
    next
      case False
      have "(map_of (fa_new acc) k = Some i) = (\<exists>t \<in> set tnew. task_key t = k \<and> tk_id t = i)"
        using tn unfolding made_ok_def by blast
      then show ?thesis using new(2) False by simp
    qed
  qed (use tn new n ge spec in \<open>auto simp: made_ok_def\<close>)
  moreover have "linked_ok env s ?acc' lnew"
  proof -
    have "tl_task_id l \<noteq> next_id ?d" if "l \<in> set (t_tasklink ?d)" for l
      using fresh(1) that by (metis imageI)
    then show ?thesis using ln unfolding linked_ok_def db' known by blast
  qed
  moreover have "pk_ok tk_id (next_id (fa_db ?acc')) (t_task (fa_db ?acc'))"
    using inv new(1) unfolding fan_inv_def db' by (auto intro: pk_ok_snoc)
  moreover have "task_links_ok (next_id (fa_db ?acc')) (t_task (fa_db ?acc')) (t_tasklink (fa_db ?acc'))"
    using inv unfolding fan_inv_def db' task_links_ok_def by (auto intro: pk_ok_mono)
  ultimately have "fan_inv env s ?acc'" unfolding fan_inv_def by blast
  then show ?thesis using known by (simp add: db')
qed

subsection \<open>One spec, one control, the whole call\<close>

text \<open>A spec is served when it has a task and that task is linked to every state of the claimed
  objectives.\<close>

definition served :: "fan_env \<Rightarrow> fan_acc \<Rightarrow> string \<Rightarrow> string list \<Rightarrow> evidence_spec \<Rightarrow> bool" where
  "served env acc c ks spec \<longleftrightarrow>
     (\<exists>t. find_task env acc spec = Some t \<and>
        (\<forall>k \<in> set ks. \<forall>obj i. fe_lookup env (c, k) = Some obj \<longrightarrow> fe_states env obj = Some i \<longrightarrow>
           (t, i) \<in> set (fa_links acc)))"

definition fan_grows :: "fan_acc \<Rightarrow> fan_acc \<Rightarrow> bool" where
  "fan_grows acc acc' \<longleftrightarrow>
     set (fa_links acc) \<subseteq> set (fa_links acc') \<and> map_of (fa_new acc) \<subseteq>\<^sub>m map_of (fa_new acc')"

lemma fan_grows_refl [simp]: "fan_grows acc acc"
  by (simp add: fan_grows_def)

lemma fan_grows_trans: "fan_grows a b \<Longrightarrow> fan_grows b c \<Longrightarrow> fan_grows a c"
  unfolding fan_grows_def using map_le_trans by blast

lemma served_grows: "served env acc c ks spec \<Longrightarrow> fan_grows acc acc' \<Longrightarrow> served env acc' c ks spec"
proof -
  assume sv: "served env acc c ks spec" and g: "fan_grows acc acc'"
  then obtain t where t: "find_task env acc spec = Some t"
    "\<forall>k \<in> set ks. \<forall>obj i. fe_lookup env (c, k) = Some obj \<longrightarrow> fe_states env obj = Some i \<longrightarrow>
           (t, i) \<in> set (fa_links acc)" unfolding served_def by blast
  have "find_task env acc' spec = Some t"
    using t(1) g unfolding find_task_Some fan_grows_def map_le_def by (metis domI)
  then show ?thesis using t(2) g unfolding served_def fan_grows_def by blast
qed

lemma fan_spec_ok:
  assumes inv: "fan_inv env s acc" and env: "fan_env_ok env s" and spec: "spec \<in> set (t_spec s)"
  shows "fan_inv env s (fan_spec env c ks acc spec) \<and> fan_grows acc (fan_spec env c ks acc spec) \<and>
    served env (fan_spec env c ks acc spec) c ks spec"
proof (cases "find_task env acc spec")
  case (Some t)
  let ?acc' = "foldl (fan_link env c t) acc ks"
  have t: "t \<in> known_tasks env (fa_db acc)" by (rule find_task_known[OF inv env Some])
  note l = fan_links_inv[OF inv t, of c ks]
  have "fan_grows acc ?acc'" using l by (simp add: fan_grows_def)
  moreover have "find_task env ?acc' spec = Some t" using Some l by (simp add: find_task_Some)
  ultimately show ?thesis using l Some by (auto simp: fan_spec_def served_def)
next
  case None
  let ?acc1 = "create_task env acc spec" and ?t = "next_id (fa_db acc)"
  let ?acc' = "foldl (fan_link env c ?t) ?acc1 ks"
  note cr = fan_inv_create[OF inv None spec]
  note l = fan_links_inv[OF cr[THEN conjunct1] cr[THEN conjunct2, THEN conjunct1], of c ks]
  have n: "map_of (fa_new acc) (spec_key spec) = None" "fe_by_spec env (es_id spec) = None"
    "fe_by_key env (spec_key spec) = None" using None by (simp_all add: find_task_None)
  have "fan_grows acc ?acc'" using l cr n(1) by (auto simp: fan_grows_def map_le_def)
  moreover have "find_task env ?acc' spec = Some ?t" using n l cr by (simp add: find_task_Some)
  ultimately show ?thesis using l None by (auto simp: fan_spec_def served_def)
qed

lemma fan_specs_ok:
  assumes "fan_inv env s acc" "fan_env_ok env s" "set specs \<subseteq> set (t_spec s)"
  shows "fan_inv env s (foldl (fan_spec env c ks) acc specs) \<and>
    fan_grows acc (foldl (fan_spec env c ks) acc specs) \<and>
    (\<forall>spec \<in> set specs. served env (foldl (fan_spec env c ks) acc specs) c ks spec)"
  using assms(1,3)
proof (induction specs arbitrary: acc)
  case (Cons spec specs)
  have sp: "spec \<in> set (t_spec s)" "set specs \<subseteq> set (t_spec s)" using Cons.prems(2) by simp_all
  note one = fan_spec_ok[OF Cons.prems(1) assms(2) sp(1), of c ks]
  note rest = Cons.IH[OF one[THEN conjunct1] sp(2)]
  show ?case using one rest fan_grows_trans served_grows by (simp, blast)
qed simp

definition control_served :: "fan_env \<Rightarrow> db \<Rightarrow> fan_acc \<Rightarrow> baseline_control \<Rightarrow> bool" where
  "control_served env s acc bc \<longleftrightarrow>
     (\<forall>c spec. fe_names env (bc_control_id bc) = Some c \<longrightarrow> c \<noteq> '''' \<longrightarrow> spec \<in> set (specs_of (bc_id bc) s) \<longrightarrow>
        served env acc c (bc_objectives bc) spec)"

lemma specs_of_rest: "fan_rest s s' \<Longrightarrow> specs_of i s' = specs_of i s"
  by (simp add: specs_of_def fan_rest_frame)

lemma fan_control_ok:
  assumes inv: "fan_inv env s acc" and env: "fan_env_ok env s"
  shows "fan_inv env s (fan_control env acc bc) \<and> fan_grows acc (fan_control env acc bc) \<and>
    control_served env s (fan_control env acc bc) bc"
proof (cases "fe_names env (bc_control_id bc)")
  case None
  then show ?thesis using inv by (simp add: fan_control_def control_served_def)
next
  case (Some c)
  have sp: "specs_of (bc_id bc) (fa_db acc) = specs_of (bc_id bc) s"
    using inv by (intro specs_of_rest) (simp add: fan_inv_def)
  have sub: "set (specs_of (bc_id bc) s) \<subseteq> set (t_spec s)" by (auto simp: specs_of_def)
  show ?thesis
    using fan_specs_ok[OF inv env sub, of c "bc_objectives bc"] Some inv
    by (simp add: fan_control_def control_served_def sp)
qed

lemma fan_controls_ok:
  assumes "fan_inv env s acc" "fan_env_ok env s"
  shows "fan_inv env s (foldl (fan_control env) acc bcs) \<and> fan_grows acc (foldl (fan_control env) acc bcs) \<and>
    (\<forall>bc \<in> set bcs. control_served env s (foldl (fan_control env) acc bcs) bc)"
  using assms(1)
proof (induction bcs arbitrary: acc)
  case (Cons bc bcs)
  note one = fan_control_ok[OF Cons.prems assms(2), of bc]
  note rest = Cons.IH[OF one[THEN conjunct1]]
  have "control_served env s (foldl (fan_control env) (fan_control env acc bc) bcs) bc"
    using one rest served_grows unfolding control_served_def by blast
  then show ?case using one rest fan_grows_trans by (simp, blast)
qed simp

subsection \<open>The call\<close>

definition fan_acc0 :: "uuid \<Rightarrow> uuid \<Rightarrow> db \<Rightarrow> fan_acc" where
  "fan_acc0 org_id aid s = \<lparr>fa_db = s, fa_new = [],
     fa_links = existing_link_keys (tasks_of org_id aid s) s, fa_created = 0\<rparr>"

lemma fanout_eq:
  "fanout_evidence_tasks org_id aid product bcs names lookup states s =
     (let acc = foldl (fan_control (fan_env_of org_id aid product names lookup states s))
                  (fan_acc0 org_id aid s) bcs
      in (fa_created acc, fa_db acc))"
  by (simp add: fanout_evidence_tasks_def fan_acc0_def Let_def)

lemma fan_env_fields [simp]:
  "fe_org (fan_env_of org_id aid product names lookup states s) = org_id"
  "fe_assessment (fan_env_of org_id aid product names lookup states s) = aid"
  "fe_names (fan_env_of org_id aid product names lookup states s) = names"
  "fe_lookup (fan_env_of org_id aid product names lookup states s) = lookup"
  "fe_states (fan_env_of org_id aid product names lookup states s) = states"
  by (simp_all add: fan_env_of_def Let_def)

lemma fe_by_key_eq:
  "fe_by_key (fan_env_of org_id aid product names lookup states s) =
     dict_of (map (\<lambda>t. (task_key t, tk_id t)) (tasks_of org_id aid s))"
  by (simp add: fan_env_of_def Let_def)

lemma fe_by_spec_eq:
  "fe_by_spec (fan_env_of org_id aid product names lookup states s) =
     dict_of (List.map_filter (\<lambda>t. map_option (\<lambda>i. (i, tk_id t)) (tk_spec_id t)) (tasks_of org_id aid s))"
  by (simp add: fan_env_of_def Let_def)

lemma set_map_filter: "y \<in> set (List.map_filter f xs) \<longleftrightarrow> (\<exists>x \<in> set xs. f x = Some y)"
  by (force simp: List.map_filter_def)

lemma fan_env_ok_of: "fan_env_ok (fan_env_of org_id aid product names lookup states s) s"
proof -
  have "i \<in> tk_id ` set (tasks_of org_id aid s)"
    if "dict_of (map (\<lambda>t. (task_key t, tk_id t)) (tasks_of org_id aid s)) k = Some i" for k i
    using dict_of_SomeD[OF that] by auto
  moreover have "i \<in> tk_id ` set (tasks_of org_id aid s)"
    if "dict_of (List.map_filter (\<lambda>t. map_option (\<lambda>i. (i, tk_id t)) (tk_spec_id t))
          (tasks_of org_id aid s)) k = Some i" for k i
    using dict_of_SomeD[OF that] by (auto simp: set_map_filter)
  ultimately show ?thesis
    unfolding fan_env_ok_def fe_by_key_eq fe_by_spec_eq known_tasks_def fan_env_fields
    by (auto simp: ran_def)
qed

lemma fan_inv_start:
  assumes "schema_ok s"
  shows "fan_inv (fan_env_of org_id aid product names lookup states s) s (fan_acc0 org_id aid s)"
proof -
  let ?env = "fan_env_of org_id aid product names lookup states s" and ?acc = "fan_acc0 org_id aid s"
  have "made_ok ?env s ?acc []" by (simp add: made_ok_def fan_acc0_def)
  moreover have "linked_ok ?env s ?acc []"
    by (auto simp: linked_ok_def fan_acc0_def existing_link_keys_def known_tasks_def)
  moreover have "pk_ok tk_id (next_id s) (t_task s)" "task_links_ok (next_id s) (t_task s) (t_tasklink s)"
    using assms by (simp_all add: schema_ok_def)
  ultimately show ?thesis unfolding fan_inv_def by (auto simp: fan_acc0_def)
qed

lemma fanout_inv:
  assumes "schema_ok s" "fanout_evidence_tasks org_id aid product bcs names lookup states s = (n, s')"
  defines "env \<equiv> fan_env_of org_id aid product names lookup states s"
  obtains acc where "fan_inv env s acc" "fa_db acc = s'" "fa_created acc = n"
    "\<forall>bc \<in> set bcs. control_served env s acc bc"
proof -
  let ?acc = "foldl (fan_control env) (fan_acc0 org_id aid s) bcs"
  have "n = fa_created ?acc" "s' = fa_db ?acc"
    using assms(2) unfolding fanout_eq env_def by (simp_all add: Let_def)
  then show ?thesis
    using that[of ?acc] fan_controls_ok[OF fan_inv_start[OF assms(1)] fan_env_ok_of]
    unfolding env_def by blast
qed

lemma touches_fanout:
  assumes "schema_ok s" "fanout_evidence_tasks org_id aid product bcs names lookup states s = (n, s')"
  shows "touches x s s' \<and> fan_rest s s'"
proof -
  from fanout_inv[OF assms] obtain acc where
    inv: "fan_inv (fan_env_of org_id aid product names lookup states s) s acc" "fa_db acc = s'" by metis
  have rest: "fan_rest s s'" using inv by (simp add: fan_inv_def)
  have tables: "pk_ok tk_id (next_id s') (t_task s')" "task_links_ok (next_id s') (t_task s') (t_tasklink s')"
    using inv by (simp_all add: fan_inv_def)
  have ge: "next_id s \<le> next_id s'" using rest by (simp add: fan_rest_def)
  have cat: "catalog_eq s s'" by (simp add: catalog_eq_def fan_rest_frame[OF rest])
  have "schema_ok s'"
    using assms(1) tables ge catalog_ok_mono[OF _ cat ge] unfolding schema_ok_def fan_rest_frame[OF rest]
    by (blast intro: states_ok_mono org_products_ok_mono links_ok_mono contribs_ok_mono pk_ok_mono)
  then have "touches x s s'"
    by (intro touchesI) (use cat ge in \<open>simp_all add: fan_rest_frame[OF rest] append_only_def\<close>)
  then show ?thesis using rest by blast
qed

text \<open>What the call adds.\<close>

lemma fanout_adds:
  assumes "schema_ok s" "fanout_evidence_tasks org_id aid product bcs names lookup states s = (n, s')"
  shows "\<exists>tasks links. t_task s' = t_task s @ tasks \<and> t_tasklink s' = t_tasklink s @ links \<and>
    length tasks = n \<and> distinct (map task_key tasks) \<and>
    (\<forall>t \<in> set tasks. tk_org_id t = org_id \<and> tk_assessment_id t = Some aid \<and> tk_status t = TaskOpen \<and>
       \<not> tk_is_archived t \<and> task_key t \<notin> task_key ` set (tasks_of org_id aid s)) \<and>
    (\<forall>l \<in> set links. tl_task_id l \<in> tk_id ` set (tasks_of org_id aid s') \<and> tl_state_id l \<in> ran states)"
proof -
  from fanout_inv[OF assms] obtain acc where
    inv: "fan_inv (fan_env_of org_id aid product names lookup states s) s acc" "fa_db acc = s'"
      "fa_created acc = n" by metis
  then obtain tasks links where
    t: "made_ok (fan_env_of org_id aid product names lookup states s) s acc tasks" and
    l: "linked_ok (fan_env_of org_id aid product names lookup states s) s acc links"
    unfolding fan_inv_def by blast
  have key: "task_key t \<notin> task_key ` set (tasks_of org_id aid s)" if "t \<in> set tasks" for t
  proof -
    have "fe_by_key (fan_env_of org_id aid product names lookup states s) (task_key t) = None"
      using t that by (simp add: made_ok_def)
    then have "task_key t \<notin> fst ` set (map (\<lambda>t. (task_key t, tk_id t)) (tasks_of org_id aid s))"
      unfolding fe_by_key_eq by (simp only: dict_of_None_iff not_False_eq_True)
    then show ?thesis by (simp add: image_image)
  qed
  show ?thesis
    using t l key inv(2,3) unfolding made_ok_def linked_ok_def known_tasks_def fan_env_fields by blast
qed

subsection \<open>A second call\<close>

lemma fe_by_key_new:
  assumes "tasks_of org_id aid s' = tasks_of org_id aid s @ new"
  shows "fe_by_key (fan_env_of org_id aid p n l st s') k =
    (case dict_of (map (\<lambda>t. (task_key t, tk_id t)) new) k of
       None \<Rightarrow> fe_by_key (fan_env_of org_id aid p n l st s) k | Some v \<Rightarrow> Some v)"
  unfolding fe_by_key_eq assms map_append dict_of_append by (rule refl)

lemma fe_by_spec_new:
  assumes "tasks_of org_id aid s' = tasks_of org_id aid s @ new"
  shows "fe_by_spec (fan_env_of org_id aid p n l st s') k =
    (case dict_of (List.map_filter (\<lambda>t. map_option (\<lambda>i. (i, tk_id t)) (tk_spec_id t)) new) k of
       None \<Rightarrow> fe_by_spec (fan_env_of org_id aid p n l st s) k | Some v \<Rightarrow> Some v)"
proof -
  have app: "List.map_filter f (xs @ ys) = List.map_filter f xs @ List.map_filter f ys"
    for f :: "evidence_task \<Rightarrow> (uuid \<times> uuid) option" and xs ys by (simp add: List.map_filter_def)
  show ?thesis unfolding fe_by_spec_eq assms app dict_of_append by (rule refl)
qed

lemma find_task_again:
  fixes org_id aid p n l st s s'
  defines "env \<equiv> fan_env_of org_id aid p n l st s" and "env' \<equiv> fan_env_of org_id aid p n l st s'"
  assumes made: "made_ok env s acc new" and s': "fa_db acc = s'" and pk: "distinct (map es_id (t_spec s))"
    and spec: "spec \<in> set (t_spec s)" and t: "find_task env acc spec = Some t"
  shows "find_task env' acc' spec = Some t"
proof -
  let ?k = "spec_key spec" and ?j = "es_id spec"
  have tasks: "tasks_of org_id aid s' = tasks_of org_id aid s @ new"
    using made s' unfolding made_ok_def env_def fan_env_fields tasks_of_def by (auto intro: filter_True)
  note key' = fe_by_key_new[OF tasks, of p n l st ?k, folded env_def env'_def]
  note spec' = fe_by_spec_new[OF tasks, of p n l st ?j, folded env_def env'_def]
  let ?mk = "map (\<lambda>t. (task_key t, tk_id t)) new"
  let ?ms = "List.map_filter (\<lambda>t. map_option (\<lambda>i. (i, tk_id t)) (tk_spec_id t)) new"
  have by_spec_new: "\<exists>x \<in> set new. task_key x = ?k \<and> tk_id x = v \<and> fe_by_spec env ?j = None \<and> fe_by_key env ?k = None"
    if d: "dict_of ?ms ?j = Some v" for v
  proof -
    obtain x where x: "x \<in> set new" "tk_spec_id x = Some ?j" "tk_id x = v"
      using dict_of_SomeD[OF d] by (auto simp: set_map_filter)
    obtain spec2 where s2: "spec2 \<in> set (t_spec s)" "tk_spec_id x = Some (es_id spec2)"
      "task_key x = spec_key spec2" "fe_by_spec env (es_id spec2) = None" "fe_by_key env (task_key x) = None"
      using made x(1) unfolding made_ok_def by blast
    have "spec2 = spec" using pk spec s2(1,2) x(2) by (auto simp: distinct_map dest: inj_onD)
    then show ?thesis using x s2 by auto
  qed
  have by_key_new: "\<exists>x \<in> set new. task_key x = ?k \<and> tk_id x = v \<and> fe_by_key env ?k = None"
    if d: "dict_of ?mk ?k = Some v" for v
  proof -
    obtain x where x: "x \<in> set new" "task_key x = ?k" "tk_id x = v"
      using dict_of_SomeD[OF d] by auto
    moreover have "fe_by_key env (task_key x) = None" using made x(1) by (simp add: made_ok_def)
    ultimately show ?thesis by auto
  qed
  have uniq: "tk_id x = tk_id y" if "x \<in> set new" "y \<in> set new" "task_key x = ?k" "task_key y = ?k" for x y
    using made that unfolding made_ok_def by (metis (no_types, lifting) distinct_map inj_onD)
  from t consider
      (spec) "fe_by_spec env ?j = Some t"
    | (key) "fe_by_spec env ?j = None" "fe_by_key env ?k = Some t"
    | (new) "fe_by_spec env ?j = None" "fe_by_key env ?k = None" "map_of (fa_new acc) ?k = Some t"
    unfolding find_task_Some by metis
  then show ?thesis
  proof cases
    case spec
    then have "dict_of ?ms ?j = None" using by_spec_new by fastforce
    then show ?thesis using spec spec' by (simp add: find_task_Some)
  next
    case key
    have "dict_of ?ms ?j = None" using by_spec_new key by fastforce
    moreover have "dict_of ?mk ?k = None" using by_key_new key by fastforce
    ultimately show ?thesis using key spec' key' by (simp add: find_task_Some)
  next
    case new
    then obtain x where x: "x \<in> set new" "task_key x = ?k" "tk_id x = t"
      using made unfolding made_ok_def by blast
    show ?thesis
    proof (cases "dict_of ?ms ?j")
      case None
      have "?k \<in> fst ` set ?mk" using x by (force simp: image_iff)
      then obtain v where v: "dict_of ?mk ?k = Some v" using dict_of_None_iff by (metis not_Some_eq)
      then have "v = t" using by_key_new[OF v] uniq x by metis
      then show ?thesis using None v new spec' key' by (simp add: find_task_Some)
    next
      case (Some v)
      then have "v = t" using by_spec_new[OF Some] uniq x by metis
      then show ?thesis using Some spec' by (simp add: find_task_Some)
    qed
  qed
qed

lemma fan_link_present:
  assumes "\<And>obj i. fe_lookup env (c, k) = Some obj \<Longrightarrow> fe_states env obj = Some i \<Longrightarrow> (t, i) \<in> set (fa_links acc)"
  shows "fan_link env c t acc k = acc"
  using assms by (cases rule: fan_link_cases[of env c t acc k]) auto

lemma fan_links_present:
  assumes "\<forall>k \<in> set ks. \<forall>obj i. fe_lookup env (c, k) = Some obj \<longrightarrow> fe_states env obj = Some i \<longrightarrow>
    (t, i) \<in> set (fa_links acc)"
  shows "foldl (fan_link env c t) acc ks = acc"
  using assms
proof (induction ks)
  case (Cons k ks)
  have "fan_link env c t acc k = acc" by (rule fan_link_present) (use Cons.prems in auto)
  then show ?case using Cons by simp
qed simp

lemma fan_spec_served: "served env acc c ks spec \<Longrightarrow> fan_spec env c ks acc spec = acc"
  unfolding served_def fan_spec_def by (auto simp: fan_links_present)

lemma fan_specs_served: "(\<forall>spec \<in> set specs. served env acc c ks spec) \<Longrightarrow> foldl (fan_spec env c ks) acc specs = acc"
  by (induction specs) (auto simp: fan_spec_served)

lemma fan_control_served:
  assumes "control_served env (fa_db acc) acc bc"
  shows "fan_control env acc bc = acc"
proof (cases "fe_names env (bc_control_id bc)")
  case None
  then show ?thesis by (simp add: fan_control_def)
next
  case (Some c)
  then show ?thesis
    using assms fan_specs_served[of "specs_of (bc_id bc) (fa_db acc)" env acc c "bc_objectives bc"]
    by (simp add: fan_control_def control_served_def)
qed

lemma fanout_again:
  assumes ok: "schema_ok s" and run: "fanout_evidence_tasks org_id aid p bcs n l st s = (m, s')"
  shows "fanout_evidence_tasks org_id aid p bcs n l st s' = (0, s')"
proof -
  let ?env = "fan_env_of org_id aid p n l st s" and ?env' = "fan_env_of org_id aid p n l st s'"
  let ?acc0 = "fan_acc0 org_id aid s'"
  from fanout_inv[OF ok run] obtain acc where
    inv: "fan_inv ?env s acc" and s': "fa_db acc = s'" and m: "fa_created acc = m" and
    sv: "\<forall>bc \<in> set bcs. control_served ?env s acc bc" by metis
  from inv obtain new links where made: "made_ok ?env s acc new" and linked: "linked_ok ?env s acc links"
    unfolding fan_inv_def by blast
  have rest: "fan_rest s s'" using inv s' by (simp add: fan_inv_def)
  have pk: "distinct (map es_id (t_spec s))" using ok by (simp add: schema_ok_def catalog_ok_def pk_ok_def)
  have links: "(t, i) \<in> set (fa_links ?acc0)" if "(t, i) \<in> set (fa_links acc)" "t \<in> known_tasks ?env s'" for t i
  proof -
    have "(t, i) \<in> (\<lambda>l. (tl_task_id l, tl_state_id l)) ` set (t_tasklink s')"
      using linked that(1) unfolding linked_ok_def s' by blast
    then obtain x where x: "x \<in> set (t_tasklink s')" "(t, i) = (tl_task_id x, tl_state_id x)" by (rule imageE)
    then have "x \<in> set (filter (\<lambda>l. tl_task_id l \<in> tk_id ` set (tasks_of org_id aid s')) (t_tasklink s'))"
      using that(2) unfolding known_tasks_def fan_env_fields by simp
    then show ?thesis unfolding x(2) fan_acc0_def existing_link_keys_def by simp
  qed
  have "served ?env' ?acc0 c ks spec" if s: "served ?env acc c ks spec" "spec \<in> set (t_spec s)" for c ks spec
  proof -
    from s(1) obtain t where t: "find_task ?env acc spec = Some t"
      "\<forall>k \<in> set ks. \<forall>obj i. l (c, k) = Some obj \<longrightarrow> st obj = Some i \<longrightarrow> (t, i) \<in> set (fa_links acc)"
      unfolding served_def fan_env_fields by blast
    have "find_task ?env' ?acc0 spec = Some t" by (rule find_task_again[OF made s' pk s(2) t(1)])
    moreover have "t \<in> known_tasks ?env s'" using find_task_known[OF inv fan_env_ok_of t(1)] s' by simp
    ultimately show ?thesis using t(2) links unfolding served_def fan_env_fields by blast
  qed
  note again = this
  have "control_served ?env' s' ?acc0 bc" if bc: "bc \<in> set bcs" for bc
    unfolding control_served_def fan_env_fields specs_of_rest[OF rest]
  proof (intro allI impI)
    fix c spec assume c: "n (bc_control_id bc) = Some c" "c \<noteq> ''''" "spec \<in> set (specs_of (bc_id bc) s)"
    have "control_served ?env s acc bc" using sv bc by blast
    then have "served ?env acc c (bc_objectives bc) spec"
      using c unfolding control_served_def fan_env_fields by blast
    then show "served ?env' ?acc0 c (bc_objectives bc) spec"
      by (rule again) (use c(3) in \<open>simp add: specs_of_def\<close>)
  qed
  then have "\<forall>bc \<in> set bcs. fan_control ?env' ?acc0 bc = ?acc0"
    by (auto intro!: fan_control_served simp: fan_acc0_def)
  then have "foldl (fan_control ?env') ?acc0 bcs = ?acc0" by (induction bcs) auto
  then show ?thesis unfolding fanout_eq by (simp add: fan_acc0_def)
qed

end
