(* ===== verification/Run_Loop.thy ===== *)
theory Run_Loop
  imports Loop_Facts Fanout_Facts
begin

section \<open>What one run of the loop does\<close>

text \<open>
  \<open>_run_loop\<close> as a whole: the states it reaches and what each becomes, the rows it
  adds, when it ends in an exception, and that it stays in the frame of its assessment.
\<close>

definition env_at ::
  "uuid \<Rightarrow> uuid \<Rightarrow> uuid \<Rightarrow> uuid \<Rightarrow> (uuid \<Rightarrow> string option) option \<Rightarrow> string
     \<Rightarrow> (uuid \<times> string) list option \<Rightarrow> db \<Rightarrow> loop_env" where
  "env_at org_id product_id version_id aid decisions path expected s =
     loop_env_of org_id aid (the (get_product product_id s)) (claims_of version_id s) decisions path
       expected (updates_of (claims_of version_id s) s) s"

definition hits_at :: "loop_env \<Rightarrow> uuid \<Rightarrow> db \<Rightarrow> (uuid \<times> baseline_control) list" where
  "hits_at env version_id s = hits env (updates_of (claims_of version_id s) s)"

lemma env_at_fields [simp]:
  "le_org (env_at org_id pid vid aid ds path ex s) = org_id"
  "le_assessment (env_at org_id pid vid aid ds path ex s) = aid"
  "le_decisions (env_at org_id pid vid aid ds path ex s) = ds"
  "le_path (env_at org_id pid vid aid ds path ex s) = path"
  "le_expected (env_at org_id pid vid aid ds path ex s) = ex"
  "le_product (env_at org_id pid vid aid ds path ex s) = the (get_product pid s)"
  "le_contributors (env_at org_id pid vid aid ds path ex s) = (\<lambda>i. contributors_of i s)"
  by (simp_all add: env_at_def loop_env_of_def Let_def)

lemma states_by_objective_Some:
  assumes "states_by_objective aid wanted s obj = Some i" "schema_ok s"
  obtains cs where "get_state i s = Some cs" "cs_assessment_id cs = aid" "cs_objective_id cs = obj"
    "obj \<in> set wanted"
proof -
  obtain cs where cs: "cs \<in> set (t_cstate s)" "cs_assessment_id cs = aid" "cs_objective_id cs = obj"
    "cs_id cs = i" "obj \<in> set wanted"
    using dict_of_SomeD[OF assms(1)[unfolded states_by_objective_def]] by auto
  have "get_state i s = Some cs"
    using assms(2) cs(1,4) pk_ok_tget[of cs_id "next_id s" "t_cstate s" cs]
    by (simp add: schema_ok_def states_ok_def)
  then show ?thesis using that cs by blast
qed

lemma env_ok_at: "schema_ok s \<Longrightarrow> env_ok (env_at org_id pid vid aid ds path ex s) s"
  unfolding env_ok_def env_at_def loop_env_of_def Let_def
  by (auto elim!: states_by_objective_Some)

lemma add_contributors_InrD:
  assumes "add_contributors p rows s = Inr s'"
  shows "s' = s\<lparr>next_id := next_id s + length rows,
      t_contrib := t_contrib s @ insert_rows (mk_contributor p) (next_id s) rows\<rparr> \<and>
    distinct (map fst rows)"
proof -
  let ?new = "insert_rows (mk_contributor p) (next_id s) rows"
  have d: "distinct (map (\<lambda>ct. (ct_state_id ct, ct_product_id ct)) (t_contrib s @ ?new))"
    and s': "s' = s\<lparr>next_id := next_id s + length rows, t_contrib := t_contrib s @ ?new\<rparr>"
    using assms by (simp_all add: add_contributors_def Let_def split: if_splits)
  have "map (\<lambda>ct. (ct_state_id ct, ct_product_id ct)) ?new = map (\<lambda>r. (fst r, p)) rows"
    by (rule map_insert_rows) (simp add: mk_contributor_def)
  then have "distinct (map (\<lambda>r. (fst r, p)) rows)" using d by (metis distinct_append map_append)
  then have "distinct (map (\<lambda>x. (x, p)) (map fst rows))" by (simp add: comp_def)
  then have "distinct (map fst rows)" using distinct_map by blast
  then show ?thesis using s' by blast
qed

lemma updates_of_Nil: "updates_of [] s = []"
  by (simp add: updates_of_def entries_of_def magic_loop_updates_def Let_def)

definition loop_outcome ::
  "loop_env \<Rightarrow> uuid \<Rightarrow> (uuid \<times> baseline_control) list \<Rightarrow> db \<Rightarrow> loop_result \<Rightarrow> db \<Rightarrow> bool" where
  "loop_outcome env pid hs s res s' \<longleftrightarrow>
     touches (le_assessment env) s s' \<and>
     distinct (map fst hs) \<and>
     (\<forall>i. get_state i s' = covered_by env hs s i) \<and>
     (\<forall>h \<in> set hs. refused env (state_at (fst h) s) = None) \<and>
     (\<exists>n. t_contrib s' = t_contrib s @
        insert_rows (mk_contributor pid) n (map (\<lambda>h. (fst h, bc_id (snd h))) hs)) \<and>
     (\<exists>n. t_history s' = t_history s @
        insert_rows mk_history n (map (\<lambda>h. update_history env (snd h) (state_at (fst h) s)) hs)) \<and>
     lr_updated res = length hs \<and>
     lr_judged res = map (\<lambda>h. outcome_of env (snd h) (state_at (fst h) s)) (judged_hits env hs s) \<and>
     (\<exists>tasks links. t_task s' = t_task s @ tasks \<and> t_tasklink s' = t_tasklink s @ links \<and>
        length tasks = lr_tasks res) \<and>
     t_link s' = t_link s \<and> t_orgproduct s' = t_orgproduct s \<and> t_raci s' = t_raci s \<and>
     t_snapshot s' = t_snapshot s"

lemma loop_outcome_none:
  "hs = [] \<Longrightarrow> loop_outcome env pid hs s empty_result s"
  by (simp add: loop_outcome_def covered_by_def empty_result_def judged_hits_def)

lemma update_contribs_frame:
  assumes "foldres (loop_step env) upds acc = Inr acc'" "env_ok env (la_db acc)" "schema_ok (la_db acc)"
  shows "t_contrib (la_db acc') = t_contrib (la_db acc) \<and> t_history (la_db acc') = t_history (la_db acc) \<and>
    t_link (la_db acc') = t_link (la_db acc) \<and> t_task (la_db acc') = t_task (la_db acc) \<and>
    t_tasklink (la_db acc') = t_tasklink (la_db acc) \<and> t_orgproduct (la_db acc') = t_orgproduct (la_db acc) \<and>
    t_raci (la_db acc') = t_raci (la_db acc) \<and> t_snapshot (la_db acc') = t_snapshot (la_db acc)"
  using assms
proof (induction upds arbitrary: acc)
  case (Cons u us)
  from Cons.prems(1) obtain acc1 where a1: "loop_step env u acc = Inr acc1"
    "foldres (loop_step env) us acc1 = Inr acc'" by (auto split: sum.splits)
  from a1(1) Cons.prems(2) show ?case
  proof (cases rule: loop_step_cases)
    case skip
    then show ?thesis using Cons.IH[of acc] a1(2) Cons.prems(2,3) by simp
  next
    case (update i bc cs)
    have acc1: "la_db acc1 = update_db env bc cs (la_db acc)"
      using update(7) update(6) by (auto simp: update_state_eq)
    have t: "touches (le_assessment env) (la_db acc) (la_db acc1)"
      unfolding acc1 using update(2-4) Cons.prems(3) by (intro touches_update_db) simp_all
    note ih = Cons.IH[OF a1(2) env_ok_touches[OF Cons.prems(2) t] touches_schema_ok[OF t Cons.prems(3)]]
    show ?thesis using ih unfolding acc1 by simp
  qed
qed simp

text \<open>Every run that ends normally.\<close>

lemma run_loop_outcome:
  assumes ok: "schema_ok s"
    and run: "run_loop org_id pid vid aid ds path ex s = Inr (res, s')"
  defines "env \<equiv> env_at org_id pid vid aid ds path ex s"
  defines "hs \<equiv> hits_at env vid s"
  shows "loop_outcome env pid hs s res s'" and "get_product pid s \<noteq> None"
    and "updates_of (claims_of vid s) s \<noteq> [] \<Longrightarrow> ex = Some e \<Longrightarrow> fst ` set e = fst ` set (judged_hits env hs s)"
proof -
  let ?bcs = "claims_of vid s"
  obtain product where p: "get_product pid s = Some product"
    using run by (auto simp: run_loop_def split: option.splits)
  then show "get_product pid s \<noteq> None" by simp
  have env: "env = loop_env_of org_id aid product ?bcs ds path ex (updates_of ?bcs s) s"
    using p by (simp add: env_def env_at_def)
  have nil: "hs = []" if "updates_of ?bcs s = []" using that by (simp add: hs_def hits_at_def)
  have main: "loop_outcome env pid hs s res s' \<and>
      (updates_of ?bcs s \<noteq> [] \<longrightarrow> ex = Some e \<longrightarrow> fst ` set e = fst ` set (judged_hits env hs s))"
  proof (cases "updates_of ?bcs s = []")
    case True
    then have "res = empty_result" "s' = s"
      using run p by (auto simp: run_loop_def Let_def updates_of_Nil split: option.splits if_splits)
    then show ?thesis using loop_outcome_none[of hs env pid s] nil True by simp
  next
    case False
    then have bcs: "?bcs \<noteq> []" by (metis updates_of_Nil)
    obtain acc s1 n s3 where
      acc: "loop_states org_id aid product ?bcs ds path ex s = Inr acc" and
      s1: "add_contributors pid (la_contribs acc) (la_db acc) = Inr s1" and
      fan: "fanout_evidence_tasks org_id aid product ?bcs (ctrl_uuid_to_str (map bc_control_id ?bcs) s)
          (objective_lookup (map bc_control_id ?bcs) s)
          (states_by_objective aid (map su_objective_id (updates_of ?bcs s)) s)
          (add_history (la_history acc) s1) = (n, s3)" and
      res: "res = \<lparr>lr_updated = la_updated acc, lr_tasks = n, lr_judged = la_judged acc\<rparr>" "s' = s3"
      using run p bcs False
      by (auto simp: run_loop_def Let_def split: option.splits sum.splits prod.splits)
    have fold: "foldres (loop_step env) (updates_of ?bcs s) (acc0_of s) = Inr acc"
      and exp: "ex = Some e \<Longrightarrow> fst ` set e = set (la_seen acc)"
      using acc unfolding loop_states_def Let_def env[symmetric]
      by (auto split: sum.splits if_splits option.splits)
    have db0: "la_db (acc0_of s) = s" by (simp add: acc0_of_def)
    have eok: "env_ok env (la_db (acc0_of s))" unfolding db0 env_def by (rule env_ok_at[OF ok])
    have ok0: "schema_ok (la_db (acc0_of s))" by (simp add: db0 ok)
    note contribs = loop_contribs[OF fold eok ok0]
    have c: "la_contribs acc = map (\<lambda>h. (fst h, bc_id (snd h))) hs"
      using contribs by (simp add: acc0_of_def hs_def hits_at_def)
    have t1: "touches (le_assessment env) s (la_db acc)" using contribs by (simp add: db0)
    have ok1: "schema_ok (la_db acc)" using contribs by simp
    note sd = add_contributors_InrD[OF s1]
    have dist: "distinct (map fst hs)"
      using sd unfolding c by (simp add: comp_def)
    have lr: "loop_result_ok env hs (acc0_of s) acc"
      unfolding hs_def hits_at_def
      by (rule loop_result[OF fold eok ok0]) (use dist in \<open>simp add: hs_def hits_at_def\<close>)
    note fr = update_contribs_frame[OF fold eok ok0, unfolded db0]
    let ?s2 = "add_history (la_history acc) s1"
    have t2: "touches x (la_db acc) ?s2" for x
      by (rule touches_trans[OF touches_contrib_new[OF s1] touches_add_history])
    have ok2: "schema_ok ?s2" using t2 ok1 by (rule touches_schema_ok)
    note t3 = touches_fanout[OF ok2 fan]
    have rest: "fan_rest ?s2 s3" using t3 by blast
    have s2: "t_cstate ?s2 = t_cstate (la_db acc)"
      "t_contrib ?s2 = t_contrib s @ insert_rows (mk_contributor pid) (next_id (la_db acc)) (la_contribs acc)"
      "t_history ?s2 = t_history s @ insert_rows mk_history (next_id s1) (la_history acc)"
      "t_link ?s2 = t_link s" "t_task ?s2 = t_task s" "t_tasklink ?s2 = t_tasklink s"
      "t_orgproduct ?s2 = t_orgproduct s" "t_raci ?s2 = t_raci s" "t_snapshot ?s2 = t_snapshot s"
      using sd fr by (simp_all add: add_history_def)
    obtain tasks links where tl: "t_task s3 = t_task s @ tasks" "t_tasklink s3 = t_tasklink s @ links"
      "length tasks = n" using fanout_adds[OF ok2 fan] s2(5,6) by metis
    have "touches (le_assessment env) s s3"
      by (rule touches_trans[OF t1 touches_trans[OF t2]]) (use t3 in blast)
    moreover have "get_state i s3 = covered_by env hs s i" for i
      using lr unfolding loop_result_ok_def db0 fan_rest_frame[OF rest] s2 by blast
    moreover have "\<forall>h \<in> set hs. refused env (state_at (fst h) s) = None"
      using lr unfolding loop_result_ok_def db0 by blast
    moreover have "la_history acc = map (\<lambda>h. update_history env (snd h) (state_at (fst h) s)) hs"
      "la_judged acc = map (\<lambda>h. outcome_of env (snd h) (state_at (fst h) s)) (judged_hits env hs s)"
      "la_updated acc = length hs" "set (la_seen acc) = fst ` set (judged_hits env hs s)"
      using lr unfolding loop_result_ok_def db0 by (simp_all add: acc0_of_def)
    ultimately show ?thesis
      using dist tl c exp s2 unfolding loop_outcome_def res fan_rest_frame[OF rest] by auto
  qed
  show "loop_outcome env pid hs s res s'" using main by blast
  show "fst ` set e = fst ` set (judged_hits env hs s)" if "updates_of ?bcs s \<noteq> []" "ex = Some e"
    using main that by blast
qed

end
