(* ===== verification/Engine_Invariant.thy ===== *)
theory Engine_Invariant
  imports Run_Loop
begin

section \<open>The invariant of the engine\<close>

text \<open>
  What holds of the database between requests: the constraints of the schema; the stored score
  of every assessment is the score of its control states; and the history accounts for every
  control state, whose status and responsibility are those of its last history row, or the
  seeded ones when it has none. \<open>db_step\<close> is the contract every operation of the
  engine is shown to satisfy, and what a sequence of requests then keeps is proved once.
\<close>

definition all_scores_current :: "db \<Rightarrow> bool" where
  "all_scores_current s \<longleftrightarrow> (\<forall>a \<in> set (t_assessment s). a_sprs_score a = Some (sprs_of (a_id a) s))"

definition last_row :: "uuid \<Rightarrow> history list \<Rightarrow> history option" where
  "last_row i rows = find (\<lambda>h. h_state_id h = i) (rev rows)"

definition verdict :: "control_state \<Rightarrow> control_status \<times> responsibility" where
  "verdict cs = (cs_status cs, cs_responsibility cs)"

definition explained :: "db \<Rightarrow> bool" where
  "explained s \<longleftrightarrow>
     h_state_id ` set (t_history s) \<subseteq> cs_id ` set (t_cstate s) \<and>
     (\<forall>cs \<in> set (t_cstate s).
        verdict cs = (case last_row (cs_id cs) (t_history s) of
            None \<Rightarrow> (NotMet, CustomerOwns) | Some h \<Rightarrow> (h_new_status h, h_new_resp h)))"

definition states_fk :: "db \<Rightarrow> bool" where
  "states_fk s \<longleftrightarrow> cs_assessment_id ` set (t_cstate s) \<subseteq> a_id ` set (t_assessment s)"

definition engine_ok :: "db \<Rightarrow> bool" where
  "engine_ok s \<longleftrightarrow> schema_ok s \<and> states_fk s \<and> all_scores_current s \<and> explained s"

text \<open>The same, but for the score of one assessment: what holds inside an operation that has
  changed its control states and not yet recomputed its score.\<close>

definition engine_ok_but :: "uuid \<Rightarrow> db \<Rightarrow> bool" where
  "engine_ok_but aid s \<longleftrightarrow> schema_ok s \<and> states_fk s \<and> explained s \<and>
     (\<forall>a \<in> set (t_assessment s). a_id a \<noteq> aid \<longrightarrow> a_sprs_score a = Some (sprs_of (a_id a) s))"

subsection \<open>Changes and their history rows\<close>

text \<open>\<open>logs s s'\<close>: every state whose status or responsibility is not what it was has
  a new history row saying what it is now, and a state that is new is as it is seeded.\<close>

definition logs :: "db \<Rightarrow> db \<Rightarrow> bool" where
  "logs s s' \<longleftrightarrow>
     (\<exists>new. t_history s' = t_history s @ new \<and>
        h_state_id ` set new \<subseteq> cs_id ` set (t_cstate s') \<and>
        cs_id ` set (t_cstate s) \<subseteq> cs_id ` set (t_cstate s') \<and>
        (\<forall>i cs'. get_state i s' = Some cs' \<longrightarrow>
           verdict cs' = (case last_row i new of
              Some h \<Rightarrow> (h_new_status h, h_new_resp h)
            | None \<Rightarrow> (case get_state i s of None \<Rightarrow> (NotMet, CustomerOwns) | Some cs \<Rightarrow> verdict cs))))"

lemma last_row_Nil [simp]: "last_row i [] = None"
  by (simp add: last_row_def)

lemma find_append: "find P (xs @ ys) = (case find P xs of None \<Rightarrow> find P ys | Some x \<Rightarrow> Some x)"
  by (induction xs) auto

lemma last_row_append:
  "last_row i (xs @ ys) = (case last_row i ys of None \<Rightarrow> last_row i xs | Some h \<Rightarrow> Some h)"
  unfolding last_row_def by (simp add: find_append)

lemma last_row_None: "last_row i rows = None \<longleftrightarrow> i \<notin> h_state_id ` set rows"
  unfolding last_row_def by (auto simp: find_None_iff)

lemma last_row_Some: "last_row i rows = Some h \<Longrightarrow> h \<in> set rows \<and> h_state_id h = i"
  unfolding last_row_def find_Some_iff by (metis nth_mem set_rev)

lemma logs_states:
  assumes "t_history s' = t_history s" "t_cstate s' = t_cstate s"
  shows "logs s s'"
  unfolding logs_def using assms by (intro exI[of _ "[]"]) simp

lemma logs_trans:
  assumes "logs s t" "logs t u"
  shows "logs s u"
proof -
  from assms(1) obtain n1 where n1: "t_history t = t_history s @ n1"
    "h_state_id ` set n1 \<subseteq> cs_id ` set (t_cstate t)" "cs_id ` set (t_cstate s) \<subseteq> cs_id ` set (t_cstate t)"
    and v1: "\<And>i cs'. get_state i t = Some cs' \<Longrightarrow> verdict cs' = (case last_row i n1 of
       Some h \<Rightarrow> (h_new_status h, h_new_resp h)
     | None \<Rightarrow> (case get_state i s of None \<Rightarrow> (NotMet, CustomerOwns) | Some cs \<Rightarrow> verdict cs))"
    unfolding logs_def by blast
  from assms(2) obtain n2 where n2: "t_history u = t_history t @ n2"
    "h_state_id ` set n2 \<subseteq> cs_id ` set (t_cstate u)" "cs_id ` set (t_cstate t) \<subseteq> cs_id ` set (t_cstate u)"
    and v2: "\<And>i cs'. get_state i u = Some cs' \<Longrightarrow> verdict cs' = (case last_row i n2 of
       Some h \<Rightarrow> (h_new_status h, h_new_resp h)
     | None \<Rightarrow> (case get_state i t of None \<Rightarrow> (NotMet, CustomerOwns) | Some cs \<Rightarrow> verdict cs))"
    unfolding logs_def by blast
  have "verdict cs' = (case last_row i (n1 @ n2) of
       Some h \<Rightarrow> (h_new_status h, h_new_resp h)
     | None \<Rightarrow> (case get_state i s of None \<Rightarrow> (NotMet, CustomerOwns) | Some cs \<Rightarrow> verdict cs))"
    if c: "get_state i u = Some cs'" for i cs'
  proof (cases "last_row i n2")
    case (Some h)
    then show ?thesis using v2[OF c] by (simp add: last_row_append)
  next
    case None
    note none = this
    show ?thesis
    proof (cases "get_state i t")
      case (Some cs)
      then show ?thesis using v2[OF c] v1[OF Some] none by (simp add: last_row_append)
    next
      case None
      then have i: "i \<notin> cs_id ` set (t_cstate t)" by (simp add: tget_None_iff)
      then have "get_state i s = None" using n1(3) by (auto simp: tget_None_iff)
      moreover have "last_row i n1 = None" using i n1(2) by (auto simp: last_row_None)
      ultimately show ?thesis using v2[OF c] none None by (simp add: last_row_append)
    qed
  qed
  moreover have "t_history u = t_history s @ n1 @ n2" using n1(1) n2(1) by simp
  moreover have "h_state_id ` set (n1 @ n2) \<subseteq> cs_id ` set (t_cstate u)"
    unfolding set_append image_Un by (rule Un_least[OF order_trans[OF n1(2) n2(3)] n2(2)])
  moreover have "cs_id ` set (t_cstate s) \<subseteq> cs_id ` set (t_cstate u)" using n1(3) n2(3) by auto
  ultimately show ?thesis unfolding logs_def by blast
qed

lemma logs_explained:
  assumes "logs s s'" "explained s" "schema_ok s" "schema_ok s'"
  shows "explained s'"
proof -
  from assms(1) obtain n where n: "t_history s' = t_history s @ n"
    "h_state_id ` set n \<subseteq> cs_id ` set (t_cstate s')" "cs_id ` set (t_cstate s) \<subseteq> cs_id ` set (t_cstate s')"
    and v: "\<And>i cs'. get_state i s' = Some cs' \<Longrightarrow> verdict cs' = (case last_row i n of
       Some h \<Rightarrow> (h_new_status h, h_new_resp h)
     | None \<Rightarrow> (case get_state i s of None \<Rightarrow> (NotMet, CustomerOwns) | Some cs \<Rightarrow> verdict cs))"
    unfolding logs_def by blast
  have fk: "h_state_id ` set (t_history s) \<subseteq> cs_id ` set (t_cstate s)"
    using assms(2) by (simp add: explained_def)
  have "verdict cs' = (case last_row (cs_id cs') (t_history s') of
      None \<Rightarrow> (NotMet, CustomerOwns) | Some h \<Rightarrow> (h_new_status h, h_new_resp h))"
    if c: "cs' \<in> set (t_cstate s')" for cs'
  proof -
    let ?i = "cs_id cs'"
    have g: "get_state ?i s' = Some cs'"
      using assms(4) c unfolding schema_ok_def states_ok_def by (blast intro: pk_ok_tget)
    show ?thesis
    proof (cases "last_row ?i n")
      case (Some h)
      then show ?thesis using v[OF g] by (simp add: n(1) last_row_append)
    next
      case None
      note none = this
      show ?thesis
      proof (cases "get_state ?i s")
        case (Some cs)
        then have "cs \<in> set (t_cstate s)" "cs_id cs = ?i" using tget_SomeD[OF Some] by simp_all
        then have "verdict cs = (case last_row ?i (t_history s) of
            None \<Rightarrow> (NotMet, CustomerOwns) | Some h \<Rightarrow> (h_new_status h, h_new_resp h))"
          using assms(2) unfolding explained_def by metis
        then show ?thesis using v[OF g] none Some by (simp add: n(1) last_row_append)
      next
        case None
        then have "last_row ?i (t_history s) = None" using fk by (auto simp: last_row_None tget_None_iff)
        then show ?thesis using v[OF g] none None by (simp add: n(1) last_row_append)
      qed
    qed
  qed
  moreover have "h_state_id ` set (t_history s') \<subseteq> cs_id ` set (t_cstate s')"
    unfolding n(1) set_append image_Un by (rule Un_least[OF order_trans[OF fk n(3)] n(2)])
  ultimately show ?thesis unfolding explained_def by blast
qed

text \<open>The shape the engine's own writes have: each state that changes, once, with its row.\<close>

lemma logs_rows:
  fixes rows :: "history_entry list"
  assumes h: "t_history s' = t_history s @ insert_rows mk_history n rows"
    and fk: "fst ` set rows \<subseteq> cs_id ` set (t_cstate s')"
    and keys: "\<And>i. get_state i s' = None \<longleftrightarrow> get_state i s = None"
    and dist: "distinct (map fst rows)"
    and same: "\<And>i. i \<notin> fst ` set rows \<Longrightarrow> map_option verdict (get_state i s') = map_option verdict (get_state i s)"
    and new: "\<And>i ps ns pr nr r cs'. (i, ps, ns, pr, nr, r) \<in> set rows \<Longrightarrow> get_state i s' = Some cs' \<Longrightarrow>
      verdict cs' = (ns, nr)"
  shows "logs s s'"
proof -
  let ?new = "insert_rows mk_history n rows"
  have ids: "map h_state_id ?new = map fst rows"
    by (rule map_insert_rows) auto
  have ids': "h_state_id ` set ?new = fst ` set rows" using ids by (metis set_map)
  have "verdict cs' = (case last_row i ?new of Some h \<Rightarrow> (h_new_status h, h_new_resp h)
     | None \<Rightarrow> (case get_state i s of None \<Rightarrow> (NotMet, CustomerOwns) | Some cs \<Rightarrow> verdict cs))"
    if c: "get_state i s' = Some cs'" for i cs'
  proof (cases "last_row i ?new")
    case None
    then have "i \<notin> fst ` set rows" by (simp add: last_row_None ids')
    then have "map_option verdict (get_state i s) = Some (verdict cs')" using same[of i] c by simp
    then show ?thesis using None by (auto split: option.splits)
  next
    case (Some hr)
    then have "hr \<in> set ?new" "h_state_id hr = i" by (auto dest: last_row_Some)
    then obtain k e where e: "e \<in> set rows" "hr = mk_history k e" by (auto dest: set_insert_rows)
    obtain j ps ns pr nr r where ee: "e = (j, ps, ns, pr, nr, r)" by (cases e) auto
    have "j = i" using e(2) \<open>h_state_id hr = i\<close> by (simp add: ee)
    then have "verdict cs' = (ns, nr)" using new[of i ps ns pr nr r cs'] e(1) c by (simp add: ee)
    then show ?thesis using Some e(2) by (simp add: ee)
  qed
  moreover have "cs_id ` set (t_cstate s) \<subseteq> cs_id ` set (t_cstate s')"
  proof
    fix i assume "i \<in> cs_id ` set (t_cstate s)"
    then have "get_state i s \<noteq> None" by (simp add: tget_None_iff)
    then have "get_state i s' \<noteq> None" by (simp add: keys)
    then show "i \<in> cs_id ` set (t_cstate s')" by (simp add: tget_None_iff)
  qed
  moreover have "h_state_id ` set ?new \<subseteq> cs_id ` set (t_cstate s')" unfolding ids' by (rule fk)
  ultimately show ?thesis unfolding logs_def using h by blast
qed

subsection \<open>The scores\<close>

lemma engine_ok_but: "engine_ok s \<Longrightarrow> engine_ok_but aid s"
  by (simp add: engine_ok_def engine_ok_but_def all_scores_current_def)

lemma touches_states_fk:
  assumes "touches aid s u" "states_fk s"
  shows "states_fk u"
proof -
  have "map state_key (t_cstate u) = map state_key (t_cstate s)"
    using assms(1) unfolding touches_def by (blast dest: same_but_keys)
  then have "map (fst \<circ> snd \<circ> state_key) (t_cstate u) = map (fst \<circ> snd \<circ> state_key) (t_cstate s)"
    by (metis map_map)
  moreover have "fst \<circ> snd \<circ> state_key = cs_assessment_id" by (auto simp: state_key_def)
  ultimately have "cs_assessment_id ` set (t_cstate u) = cs_assessment_id ` set (t_cstate s)"
    by (metis set_map)
  then show ?thesis using assms by (simp add: states_fk_def touches_def)
qed

lemma engine_ok_but_touches:
  assumes ok: "engine_ok_but aid s" and t: "touches aid s u" and l: "logs s u"
  shows "engine_ok_but aid u"
proof -
  have sok: "schema_ok s" "schema_ok u"
    using ok touches_schema_ok[OF t] by (simp_all add: engine_ok_but_def)
  have same: "t_assessment u = t_assessment s" using t by (simp add: touches_def)
  have "a_sprs_score a = Some (sprs_of (a_id a) u)" if "a \<in> set (t_assessment u)" "a_id a \<noteq> aid" for a
    using ok that touches_sprs_other[OF t that(2)] unfolding same engine_ok_but_def by simp
  then show ?thesis
    using ok sok logs_explained[OF l _ sok] touches_states_fk[OF t] by (simp add: engine_ok_but_def)
qed

lemma engine_ok_recompute:
  assumes ok: "engine_ok_but aid u"
  shows "engine_ok (snd (recompute_sprs aid u))"
proof -
  let ?s = "snd (recompute_sprs aid u)"
  have sok: "schema_ok u" "schema_ok ?s" using ok schema_ok_recompute by (simp_all add: engine_ok_but_def)
  have "a_sprs_score a = Some (sprs_of (a_id a) u)" if a: "a \<in> set (t_assessment ?s)" for a
  proof -
    from a obtain b where b: "b \<in> set (t_assessment u)"
      "a = (if a_id b = aid then b\<lparr>a_sprs_score := Some (sprs_of aid u)\<rparr> else b)"
      unfolding recompute_assessments set_tupd by blast
    then show ?thesis using ok by (cases "a_id b = aid") (simp_all add: engine_ok_but_def)
  qed
  then have "all_scores_current ?s" by (simp add: all_scores_current_def)
  moreover have "explained ?s"
    using ok by (simp add: engine_ok_but_def explained_def)
  moreover have "states_fk ?s"
  proof -
    have "map a_id (t_assessment ?s) = map a_id (t_assessment u)"
      unfolding recompute_assessments by (rule score_upd.keys_tupd)
    then have "a_id ` set (t_assessment ?s) = a_id ` set (t_assessment u)" by (metis set_map)
    then show ?thesis using ok by (simp add: engine_ok_but_def states_fk_def)
  qed
  ultimately show ?thesis using sok by (simp add: engine_ok_def)
qed

lemma append_only_recompute: "append_only s (snd (recompute_sprs aid s))"
  by (auto simp: append_only_def recompute_sprs_def Let_def split: option.split)

text \<open>An operation that works on one assessment, recomputes its score, and then only logs.\<close>

lemma engine_ok_after:
  assumes ok: "engine_ok s" and t: "touches aid s u" and l: "logs s u"
  shows "engine_ok (snd (recompute_sprs aid u))"
  by (rule engine_ok_recompute[OF engine_ok_but_touches[OF engine_ok_but[OF ok] t l]])

lemma engine_ok_states:
  assumes ok: "engine_ok s" and s': "schema_ok s'" "t_cstate s' = t_cstate s" "t_history s' = t_history s"
    "t_objective s' = t_objective s" "t_control s' = t_control s"
    "map (\<lambda>a. (a_id a, a_sprs_score a)) (t_assessment s') = map (\<lambda>a. (a_id a, a_sprs_score a)) (t_assessment s)"
  shows "engine_ok s'"
proof -
  have sp: "sprs_of i s' = sprs_of i s" for i by (rule sprs_of_cong) (use s' in simp_all)
  have all: "all_scores_current x \<longleftrightarrow>
      (\<forall>p \<in> set (map (\<lambda>a. (a_id a, a_sprs_score a)) (t_assessment x)). snd p = Some (sprs_of (fst p) x))" for x
    by (simp add: all_scores_current_def)
  have "all_scores_current s'"
    using ok unfolding all s'(6) sp engine_ok_def by blast
  moreover have "explained s'" using ok s'(2,3) by (simp add: engine_ok_def explained_def)
  moreover have "states_fk s'"
  proof -
    have ids: "a_id ` set rows = fst ` set (map (\<lambda>a. (a_id a, a_sprs_score a)) rows)" for rows by force
    have "a_id ` set (t_assessment s') = a_id ` set (t_assessment s)" unfolding ids s'(6) by (rule refl)
    then show ?thesis using ok s'(2) by (simp add: engine_ok_def states_fk_def)
  qed
  ultimately show ?thesis using s'(1) by (simp add: engine_ok_def)
qed

lemma engine_ok_log_event: "engine_ok s \<Longrightarrow> engine_ok (log_event_as ac at og a e i b af c s)"
  by (rule engine_ok_states) (simp_all add: schema_ok_log_event engine_ok_def)

subsection \<open>The contract of an operation\<close>

locale db_step =
  fixes step :: "'a \<Rightarrow> db \<Rightarrow> engine_error + db"
  assumes step_ok: "engine_ok s \<Longrightarrow> step x s = Inr s' \<Longrightarrow> engine_ok s'"
    and step_append: "engine_ok s \<Longrightarrow> step x s = Inr s' \<Longrightarrow> append_only s s'"
    and step_catalog: "engine_ok s \<Longrightarrow> step x s = Inr s' \<Longrightarrow> catalog_eq s s'"
begin

lemma step_all: "engine_ok s \<Longrightarrow> step x s = Inr s' \<Longrightarrow> engine_ok s' \<and> append_only s s' \<and> catalog_eq s s'"
  using step_ok step_append step_catalog by blast

lemma run_all:
  assumes "foldres step xs s = Inr s'" "engine_ok s"
  shows "engine_ok s' \<and> append_only s s' \<and> catalog_eq s s'"
  using assms
proof (induction xs arbitrary: s)
  case (Cons x xs)
  then obtain s1 where s1: "step x s = Inr s1" "foldres step xs s1 = Inr s'" by (auto split: sum.splits)
  have st: "engine_ok s1 \<and> append_only s s1 \<and> catalog_eq s s1" by (rule step_all[OF Cons.prems(2) s1(1)])
  have "engine_ok s' \<and> append_only s1 s' \<and> catalog_eq s1 s'" using Cons.IH[OF s1(2)] st by blast
  then show ?case using st append_only_trans catalog_eq_trans by blast
qed simp

text \<open>A request that raises leaves the database as it was.\<close>

lemma rollback_all:
  assumes "engine_ok s"
  shows "engine_ok (foldl (\<lambda>s x. case step x s of Inl e \<Rightarrow> s | Inr s' \<Rightarrow> s') s xs) \<and>
    append_only s (foldl (\<lambda>s x. case step x s of Inl e \<Rightarrow> s | Inr s' \<Rightarrow> s') s xs) \<and>
    catalog_eq s (foldl (\<lambda>s x. case step x s of Inl e \<Rightarrow> s | Inr s' \<Rightarrow> s') s xs)"
  using assms
proof (induction xs arbitrary: s)
  case (Cons x xs)
  show ?case
  proof (cases "step x s")
    case (Inl e)
    then show ?thesis using Cons by simp
  next
    case (Inr v)
    have v: "engine_ok v" "append_only s v" "catalog_eq s v" using step_all[OF Cons.prems Inr] by simp_all
    show ?thesis
      using Cons.IH[OF v(1)] append_only_trans[OF v(2)] catalog_eq_trans[OF v(3)] Inr by simp
  qed
qed simp

end

end
