(* ===== verification/Activation_Facts.thy ===== *)
theory Activation_Facts
  imports Activation Engine_Invariant
begin

section \<open>What an activation does\<close>

lemma hits_state:
  assumes "env_ok env s" "h \<in> set (hits env upds)"
  obtains cs where "get_state (fst h) s = Some cs" "cs_id cs = fst h"
    "cs_assessment_id cs = le_assessment env" "le_bc env (cs_objective_id cs) = Some (snd h)"
    "p_id (le_product env) \<notin> fst ` set (le_contributors env (fst h))"
    "cs_objective_id cs \<in> su_objective_id ` set upds"
proof -
  obtain u where u: "u \<in> set upds" "reaches env u = Some h"
    using assms(2) by (auto simp: hits_def set_map_filter)
  then have r: "le_existing env (su_objective_id u) = Some (fst h)" "le_bc env (su_objective_id u) = Some (snd h)"
    "p_id (le_product env) \<notin> fst ` set (le_contributors env (fst h))"
    by (auto simp: reaches_def split: option.splits if_splits)
  obtain cs where "get_state (fst h) s = Some cs" "cs_assessment_id cs = le_assessment env"
    "cs_objective_id cs = su_objective_id u"
    using assms(1) r(1) unfolding env_ok_def by blast
  then show ?thesis using that[of cs] get_state_id r(2,3) u(1) by simp
qed

lemma covered_by_same: "i \<notin> fst ` set hs \<Longrightarrow> covered_by env hs s i = get_state i s"
  by (simp add: covered_by_def map_of_eq_None_iff[symmetric])

lemma covered_by_hit:
  assumes "distinct (map fst hs)" "h \<in> set hs"
  shows "covered_by env hs s (fst h) = map_option (covered env (snd h)) (get_state (fst h) s)"
proof -
  have "map_of hs (fst h) = Some (snd h)" using assms by (metis map_of_is_SomeI prod.collapse)
  then show ?thesis by (simp add: covered_by_def)
qed

lemma loop_outcome_logs:
  assumes out: "loop_outcome env pid (hits env upds) s res s'" and env: "env_ok env s"
  shows "logs s s'"
proof -
  let ?hs = "hits env upds"
  let ?rows = "map (\<lambda>h. update_history env (snd h) (state_at (fst h) s)) ?hs"
  from out obtain n where n: "t_history s' = t_history s @ insert_rows mk_history n ?rows"
    unfolding loop_outcome_def by blast
  have g: "get_state i s' = covered_by env ?hs s i" for i using out by (simp add: loop_outcome_def)
  have dist: "distinct (map fst ?hs)" using out by (simp add: loop_outcome_def)
  have at: "\<exists>cs. get_state (fst h) s = Some cs \<and> state_at (fst h) s = cs \<and> cs_id cs = fst h"
    if "h \<in> set ?hs" for h
    using hits_state[OF env that] by (metis option.sel state_at_def)
  have ids: "map fst ?rows = map fst ?hs"
    using at by (auto simp: update_history_def)
  have ids': "fst ` set ?rows = fst ` set ?hs" using ids by (metis set_map)
  show ?thesis
  proof (rule logs_rows[OF n])
    show "distinct (map fst ?rows)" unfolding ids by (rule dist)
    show "fst ` set ?rows \<subseteq> cs_id ` set (t_cstate s')"
    proof
      fix i assume "i \<in> fst ` set ?rows"
      then obtain h where h: "h \<in> set ?hs" "i = fst h" unfolding ids' by blast
      then have "get_state i s' \<noteq> None" using at[OF h(1)] covered_by_hit[OF dist h(1)] g by auto
      then show "i \<in> cs_id ` set (t_cstate s')" by (simp add: tget_None_iff)
    qed
    show "get_state i s' = None \<longleftrightarrow> get_state i s = None" for i
      unfolding g by (simp add: covered_by_def split: option.split)
    show "map_option verdict (get_state i s') = map_option verdict (get_state i s)"
      if "i \<notin> fst ` set ?rows" for i
      using that unfolding ids' g by (simp add: covered_by_same)
    show "verdict cs' = (ns, nr)"
      if row: "(i, ps, ns, pr, nr, r) \<in> set ?rows" and c: "get_state i s' = Some cs'" for i ps ns pr nr r cs'
    proof -
      obtain h where h: "h \<in> set ?hs" "(i, ps, ns, pr, nr, r) = update_history env (snd h) (state_at (fst h) s)"
        using row by auto
      obtain cs where cs: "get_state (fst h) s = Some cs" "state_at (fst h) s = cs" "cs_id cs = fst h"
        using at[OF h(1)] by blast
      have i: "i = fst h" "ns = cs_status (covered env (snd h) cs)" "nr = cs_responsibility (covered env (snd h) cs)"
        using h(2) cs by (simp_all add: update_history_def)
      have "cs' = covered env (snd h) cs"
        using c cs(1) covered_by_hit[OF dist h(1), of env s] unfolding g i(1) by simp
      then show ?thesis by (simp add: verdict_def i)
    qed
  qed
qed

lemma run_loop_logs:
  assumes "schema_ok s" "run_loop org_id pid vid aid ds path ex s = Inr (res, s')"
  shows "touches aid s s'" "logs s s'"
proof -
  note out = run_loop_outcome(1)[OF assms]
  show "touches aid s s'" using out by (simp add: loop_outcome_def)
  show "logs s s'"
    by (rule loop_outcome_logs[OF out[unfolded hits_at_def] env_ok_at[OF assms(1)]])
qed

subsection \<open>The row and what is restored\<close>

lemma new_pk_snoc: "pk_ok key n rows \<Longrightarrow> key r = n \<Longrightarrow> pk_ok key (Suc n) (rows @ [r])"
  by (rule pk_ok_snoc)

lemma activate_row_fields [simp]:
  "op_id (activate_row now v notes op) = op_id op"
  "op_org_id (activate_row now v notes op) = op_org_id op"
  "op_product_id (activate_row now v notes op) = op_product_id op"
  "op_status (activate_row now v notes op) = Active"
  "op_version_id (activate_row now v notes op) = Some v"
  "op_configured (activate_row now v notes op)"
  by (simp_all add: activate_row_def)

lemma find_org_product_None:
  "find_org_product o' p s = None \<longleftrightarrow> (o', p) \<notin> (\<lambda>r. (op_org_id r, op_product_id r)) ` set (t_orgproduct s)"
  by (auto simp: find_org_product_def find_None_iff)

lemma touches_put_org_product:
  assumes "put_org_product o' p v notes s = (i, s')"
  shows "touches aid s s'" "t_cstate s' = t_cstate s" "t_history s' = t_history s" "t_contrib s' = t_contrib s"
    "t_link s' = t_link s" "t_task s' = t_task s" "t_tasklink s' = t_tasklink s"
proof -
  have "touches aid s s' \<and> t_cstate s' = t_cstate s \<and> t_history s' = t_history s \<and> t_contrib s' = t_contrib s \<and>
    t_link s' = t_link s \<and> t_task s' = t_task s \<and> t_tasklink s' = t_tasklink s"
  proof (cases "find_org_product o' p s")
    case (Some op)
    then have s': "s' = update_org_product (op_id op) (activate_row (clock s) v notes) s"
      using assms by (auto simp: put_org_product_def)
    have "touches aid s s'" unfolding s' by (rule touches_update_org_product) simp_all
    then show ?thesis by (simp add: s' update_org_product_def)
  next
    case None
    let ?row = "activate_row (clock s) v notes (new_org_product (next_id s) o' p)"
    have s': "s' = s\<lparr>next_id := Suc (next_id s), t_orgproduct := t_orgproduct s @ [?row]\<rparr>"
      using assms None by (auto simp: put_org_product_def)
    have row: "op_id ?row = next_id s" "op_org_id ?row = o'" "op_product_id ?row = p"
      by (simp_all add: new_org_product_def)
    have "touches aid s s'"
    proof (rule touchesI)
      assume ok: "schema_ok s"
      have "org_products_ok (Suc (next_id s)) (t_orgproduct s @ [?row])"
        using ok row None pk_ok_snoc[of op_id "next_id s" "t_orgproduct s" ?row]
        by (simp add: schema_ok_def org_products_ok_def find_org_product_None)
      then show "schema_ok s'"
        using ok unfolding schema_ok_def s'
        by (auto intro: catalog_ok_mono[of s] states_ok_mono links_ok_mono contribs_ok_mono
            task_links_ok_mono pk_ok_mono simp: catalog_eq_def)
    qed (simp_all add: s' catalog_eq_def append_only_def)
    then show ?thesis by (simp add: s')
  qed
  then show "touches aid s s'" "t_cstate s' = t_cstate s" "t_history s' = t_history s" "t_contrib s' = t_contrib s"
    "t_link s' = t_link s" "t_task s' = t_task s" "t_tasklink s' = t_tasklink s" by simp_all
qed

lemma restore_task_id [simp]: "tk_id (restore_task t) = tk_id t"
  by (simp add: restore_task_def)

lemma touches_restore_one_task: "touches aid s (restore_one_task org_id ctx s t)"
  unfolding restore_one_task_def by (rule touches_trans[OF touches_update_task touches_log_event]) simp

lemma touches_restore_one_link: "touches aid s (restore_one_link org_id ctx s l)"
  unfolding restore_one_link_def
  by (rule touches_trans[OF touches_update_link touches_log_event]) (simp_all add: link_ok_restore)

lemma restore_one_frame [simp]:
  "t_cstate (restore_one_task org_id ctx s t) = t_cstate s"
  "t_history (restore_one_task org_id ctx s t) = t_history s"
  "t_contrib (restore_one_task org_id ctx s t) = t_contrib s"
  "t_link (restore_one_task org_id ctx s t) = t_link s"
  "t_cstate (restore_one_link org_id ctx s l) = t_cstate s"
  "t_history (restore_one_link org_id ctx s l) = t_history s"
  "t_contrib (restore_one_link org_id ctx s l) = t_contrib s"
  "t_task (restore_one_link org_id ctx s l) = t_task s"
  "t_link (restore_one_link org_id ctx s l) = tupd ln_id (ln_id l) restore (t_link s)"
  by (simp_all add: restore_one_task_def restore_one_link_def update_task_def)

lemma foldl_same:
  assumes "\<And>x s. g (f s x) = g s"
  shows "g (foldl f s xs) = g s"
  using assms by (induction xs arbitrary: s) auto

lemma restore_prior_frame:
  assumes "restore_prior org_id product v aid s = (restored, s')"
  shows "touches aid s s'" "t_cstate s' = t_cstate s" "t_history s' = t_history s" "t_contrib s' = t_contrib s"
proof -
  let ?ctx = "reactivation_ctx product aid"
  let ?s1 = "foldl (restore_one_task org_id ?ctx) s (archived_tasks org_id aid v s)"
  have s': "s' = foldl (restore_one_link org_id ?ctx) ?s1 (archived_links (p_id product) aid ?s1)"
    using assms by (simp add: restore_prior_def Let_def)
  show "touches aid s s'"
    unfolding s' by (rule touches_trans[OF touches_foldl touches_foldl])
      (rule touches_restore_one_task touches_restore_one_link)+
  show "t_cstate s' = t_cstate s" "t_history s' = t_history s" "t_contrib s' = t_contrib s"
    unfolding s' by (simp_all add: foldl_same[where g = t_cstate] foldl_same[where g = t_history]
        foldl_same[where g = t_contrib])
qed

subsection \<open>States that regained evidence\<close>

lemma review_one_frame [simp]:
  "t_history (review_one org_id ctx s cs) = t_history s" "t_contrib (review_one org_id ctx s cs) = t_contrib s"
  "t_link (review_one org_id ctx s cs) = t_link s" "t_task (review_one org_id ctx s cs) = t_task s"
  by (simp_all add: review_one_def)

lemma get_review_one:
  "get_state j (review_one org_id ctx s cs) =
    (if j = cs_id cs then map_option (\<lambda>r. r\<lparr>cs_status := NeedsReview, cs_responsibility := cs_responsibility cs\<rparr>)
       (get_state j s) else get_state j s)"
proof -
  have "get_state j (review_one org_id ctx s cs) =
      get_state j (set_state (cs_id cs) NeedsReview (cs_responsibility cs) s)"
    by (simp add: review_one_def set_state_def)
  then show ?thesis by (simp add: get_set_state)
qed

lemma touches_review_one:
  assumes "get_state (cs_id cs) s = Some cs" "cs_assessment_id cs = aid" "schema_ok s"
  shows "touches aid s (review_one org_id ctx s cs)"
  unfolding review_one_def
  by (rule touches_trans[OF touches_log_event touches_set_state])
    (use assms in \<open>simp_all add: schema_ok_log_event\<close>)

lemmas touches_review = touches_states[OF get_review_one touches_review_one]

lemma foldl_review:
  assumes "distinct (map cs_id css)" "\<And>cs. cs \<in> set css \<Longrightarrow> get_state (cs_id cs) s = Some cs"
  shows "get_state j (foldl (review_one org_id ctx) s css) =
    (if j \<in> cs_id ` set css then map_option (\<lambda>r. r\<lparr>cs_status := NeedsReview\<rparr>) (get_state j s) else get_state j s)"
proof (cases "j \<in> cs_id ` set css")
  case True
  then obtain c where c: "c \<in> set css" "j = cs_id c" by blast
  then show ?thesis
    using foldl_states[where f = "review_one org_id ctx", OF get_review_one assms, of j] find_key_distinct[OF assms(1) c(1)] assms(2)[OF c(1)]
    by simp
next
  case False
  then have "find (\<lambda>c. cs_id c = j) css = None" by (auto simp: find_None_iff)
  then show ?thesis using foldl_states[where f = "review_one org_id ctx", OF get_review_one assms, of j] False by simp
qed

lemma add_history_frame [simp]:
  "t_cstate (add_history rows s) = t_cstate s" "t_contrib (add_history rows s) = t_contrib s"
  "t_link (add_history rows s) = t_link s" "t_task (add_history rows s) = t_task s"
  "t_tasklink (add_history rows s) = t_tasklink s" "t_orgproduct (add_history rows s) = t_orgproduct s"
  "t_audit (add_history rows s) = t_audit s" "t_assessment (add_history rows s) = t_assessment s"
  "t_history (add_history rows s) = t_history s @ insert_rows mk_history (next_id s) rows"
  by (simp_all add: add_history_def)

lemma regained_states_ok:
  assumes "schema_ok s"
  shows "distinct (map cs_id (regained_states restored s))"
    "cs \<in> set (regained_states restored s) \<Longrightarrow> get_state (cs_id cs) s = Some cs"
proof -
  have pk: "pk_ok cs_id (next_id s) (t_cstate s)" using assms by (simp add: schema_ok_def states_ok_def)
  show "distinct (map cs_id (regained_states restored s))"
    using pk_ok_distinct[OF pk] by (simp add: regained_states_def distinct_map_filter)
  show "get_state (cs_id cs) s = Some cs" if "cs \<in> set (regained_states restored s)"
    using pk_ok_tget[OF pk, of cs] that by (simp add: regained_states_def)
qed

lemma review_regained_eq:
  "review_regained org_id ctx name restored s =
     add_history (map (review_history name) (regained_states restored s))
       (foldl (review_one org_id ctx) s (regained_states restored s))"
  by (simp add: review_regained_def Let_def)

lemma get_review_regained:
  assumes "schema_ok s"
  shows "get_state j (review_regained org_id ctx name restored s) =
    map_option (\<lambda>r. if j \<in> set restored \<and> cs_status r = PendingEvidence
                    then r\<lparr>cs_status := NeedsReview\<rparr> else r) (get_state j s)"
proof -
  have "get_state j (review_regained org_id ctx name restored s) =
    (if j \<in> cs_id ` set (regained_states restored s)
     then map_option (\<lambda>r. r\<lparr>cs_status := NeedsReview\<rparr>) (get_state j s) else get_state j s)"
    unfolding review_regained_eq add_history_frame
    by (rule foldl_review) (use regained_states_ok[OF assms] in auto)
  also have "\<dots> = map_option (\<lambda>r. if j \<in> set restored \<and> cs_status r = PendingEvidence
                    then r\<lparr>cs_status := NeedsReview\<rparr> else r) (get_state j s)"
  proof (cases "get_state j s")
    case None
    then show ?thesis by simp
  next
    case (Some cs)
    note cs = tget_SomeD[OF Some]
    have "j \<in> cs_id ` set (regained_states restored s) \<longleftrightarrow> j \<in> set restored \<and> cs_status cs = PendingEvidence"
    proof
      assume "j \<in> cs_id ` set (regained_states restored s)"
      then obtain c where c: "c \<in> set (regained_states restored s)" "cs_id c = j" by blast
      then have "c = cs" using regained_states_ok(2)[OF assms c(1)] Some by simp
      then show "j \<in> set restored \<and> cs_status cs = PendingEvidence"
        using c by (auto simp: regained_states_def)
    next
      assume "j \<in> set restored \<and> cs_status cs = PendingEvidence"
      then show "j \<in> cs_id ` set (regained_states restored s)"
        using cs by (auto simp: regained_states_def intro!: image_eqI[of _ _ cs])
    qed
    then show ?thesis using Some by simp
  qed
  finally show ?thesis .
qed

lemma review_regained_ok:
  assumes ok: "schema_ok s"
    and "\<And>i cs. i \<in> set restored \<Longrightarrow> get_state i s = Some cs \<Longrightarrow> cs_assessment_id cs = aid"
  shows "touches aid s (review_regained org_id ctx name restored s)"
    "logs s (review_regained org_id ctx name restored s)"
proof -
  let ?css = "regained_states restored s" and ?s' = "review_regained org_id ctx name restored s"
  have "cs_assessment_id cs = aid" if "cs \<in> set ?css" for cs
    using assms(2)[of "cs_id cs" cs] regained_states_ok(2)[OF ok that] that by (simp add: regained_states_def)
  then show "touches aid s ?s'"
    unfolding review_regained_eq
    by (intro touches_trans[OF touches_review touches_add_history]) (use regained_states_ok[OF ok] ok in auto)
  have rows: "fst ` set (map (review_history name) ?css) = cs_id ` set ?css"
    by (force simp: review_history_def)
  have hist: "t_history ?s' = t_history s @ insert_rows mk_history
      (next_id (foldl (review_one org_id ctx) s ?css)) (map (review_history name) ?css)"
    unfolding review_regained_eq add_history_frame
    by (simp add: foldl_same[where g = t_history])
  show "logs s ?s'"
  proof (rule logs_rows[OF hist])
    show "distinct (map fst (map (review_history name) ?css))"
      using regained_states_ok(1)[OF ok, of restored] by (simp add: comp_def review_history_def)
    show "get_state i ?s' = None \<longleftrightarrow> get_state i s = None" for i
      by (simp add: get_review_regained[OF ok])
    show "fst ` set (map (review_history name) ?css) \<subseteq> cs_id ` set (t_cstate ?s')"
    proof
      fix i assume "i \<in> fst ` set (map (review_history name) ?css)"
      then obtain cs where "cs \<in> set ?css" "i = cs_id cs" unfolding rows by blast
      then have "get_state i s \<noteq> None" using regained_states_ok(2)[OF ok] by auto
      then have "get_state i ?s' \<noteq> None" by (simp add: get_review_regained[OF ok])
      then show "i \<in> cs_id ` set (t_cstate ?s')" by (simp add: tget_None_iff)
    qed
    show "map_option verdict (get_state i ?s') = map_option verdict (get_state i s)"
      if i: "i \<notin> fst ` set (map (review_history name) ?css)" for i
    proof (cases "get_state i s")
      case (Some cs)
      then have "\<not> (i \<in> set restored \<and> cs_status cs = PendingEvidence)"
        using i tget_SomeD[OF Some] unfolding rows by (auto simp: regained_states_def)
      then show ?thesis unfolding get_review_regained[OF ok] Some option.map by (simp only: if_False)
    qed (simp add: get_review_regained[OF ok])
    show "verdict cs' = (ns, nr)"
      if row: "(i, ps, ns, pr, nr, r) \<in> set (map (review_history name) ?css)" and c: "get_state i ?s' = Some cs'"
      for i ps ns pr nr r cs'
    proof -
      obtain cs where cs: "cs \<in> set ?css" "(i, ps, ns, pr, nr, r) = review_history name cs"
        using row by auto
      then have i: "i = cs_id cs" "ns = NeedsReview" "nr = cs_responsibility cs"
        by (simp_all add: review_history_def)
      have "get_state i s = Some cs" using regained_states_ok(2)[OF ok cs(1)] i by simp
      moreover have "i \<in> set restored" "cs_status cs = PendingEvidence"
        using cs(1) i(1) by (simp_all add: regained_states_def)
      ultimately show ?thesis using c i by (auto simp: get_review_regained[OF ok] verdict_def)
    qed
  qed
qed

subsection \<open>The operation\<close>

lemma archived_links_assessment:
  "l \<in> set (archived_links pid aid s) \<Longrightarrow> state_assessment s (ln_state_id l) = Some aid"
  by (simp add: archived_links_def)

lemma restore_prior_states:
  assumes "restore_prior org_id product v aid s = (restored, s')" "i \<in> set restored"
  shows "\<exists>cs. get_state i s' = Some cs \<and> cs_assessment_id cs = aid"
proof -
  let ?s1 = "foldl (restore_one_task org_id (reactivation_ctx product aid)) s (archived_tasks org_id aid v s)"
  have "restored = map ln_state_id (archived_links (p_id product) aid ?s1)"
    using assms(1) by (simp add: restore_prior_def Let_def)
  then obtain l where l: "l \<in> set (archived_links (p_id product) aid ?s1)" "i = ln_state_id l"
    using assms(2) by auto
  have "state_assessment ?s1 i = Some aid" unfolding l(2) by (rule archived_links_assessment[OF l(1)])
  moreover have "t_cstate ?s1 = t_cstate s'"
    using restore_prior_frame(2)[OF assms(1)] by (simp add: foldl_same[where g = t_cstate])
  ultimately show ?thesis by (auto simp: state_assessment_def)
qed

text \<open>The intermediate databases of an activation that succeeds.\<close>

lemma activate_InrD:
  assumes "activate_org_product org_id pid aid notes ds s = Inr (res, s6)"
  obtains product v i s1 restored s2 s3 where
    "get_product pid s = Some product" "p_id product = pid"
    "activation_target product (find_org_product org_id pid s) = Inr v"
    "put_org_product org_id pid v notes s = (i, s1)"
    "restore_prior org_id product v aid s1 = (restored, s2)"
    "run_loop org_id pid v aid (map_option decided_choices ds) ''activation''
        (map_option decided_shown ds) s2 = Inr (res, s3)"
    "s6 = log_activation org_id product v aid i (find_org_product org_id pid s)
        (assessment_score aid s1)
        (sprs_of aid (review_regained org_id (reactivation_ctx product aid) (p_name product) restored s3))
        (lr_judged res) (ds \<noteq> None)
        (snd (recompute_sprs aid (review_regained org_id (reactivation_ctx product aid) (p_name product) restored s3)))"
proof -
  obtain product where p: "get_product pid s = Some product"
    using assms by (auto simp: activate_org_product_def split: option.splits)
  obtain v where v: "activation_target product (find_org_product org_id pid s) = Inr v"
    using assms p by (auto simp: activate_org_product_def Let_def split: sum.splits)
  obtain i s1 where s1: "put_org_product org_id pid v notes s = (i, s1)" by (cases "put_org_product org_id pid v notes s")
  obtain restored s2 where s2: "restore_prior org_id product v aid s1 = (restored, s2)"
    by (cases "restore_prior org_id product v aid s1")
  obtain r where r: "run_loop org_id pid v aid (map_option decided_choices ds) ''activation''
        (map_option decided_shown ds) s2 = Inr r"
    using assms p v s1 s2
    by (auto simp: activate_org_product_def Let_def split: sum.splits)
  obtain res' s3 where rr: "r = (res', s3)" by (cases r)
  obtain sc s5 where s5: "recompute_sprs aid
      (review_regained org_id (reactivation_ctx product aid) (p_name product) restored s3) = (sc, s5)"
    by (cases "recompute_sprs aid
      (review_regained org_id (reactivation_ctx product aid) (p_name product) restored s3)")
  have sc: "sc = sprs_of aid (review_regained org_id (reactivation_ctx product aid) (p_name product) restored s3)"
    using fst_recompute[of aid "review_regained org_id (reactivation_ctx product aid) (p_name product) restored s3"] s5
    by simp
  have "Inr (res, s6) = (Inr (res', log_activation org_id product v aid i (find_org_product org_id pid s)
        (assessment_score aid s1) sc (lr_judged res') (ds \<noteq> None) s5) :: engine_error + loop_result \<times> db)"
    using assms unfolding activate_org_product_def p option.case Let_def v sum.case s1 case_prod_conv s2 r rr s5
      assessment_score_def[symmetric]
    by (rule sym)
  then have "res' = res" "s6 = log_activation org_id product v aid i (find_org_product org_id pid s)
        (assessment_score aid s1) sc (lr_judged res') (ds \<noteq> None) s5" by simp_all
  moreover have "p_id product = pid" using tget_SomeD[OF p] by simp
  ultimately show ?thesis
    using that[OF p _ v s1 s2] r rr s5 sc by simp
qed

text \<open>An activation is a step within the assessment's frame, then the score and the audit
  entry.\<close>

lemma activate_touches:
  assumes sok: "schema_ok s" and run: "activate_org_product org_id pid aid nts ds s = Inr (res, s')"
  obtains u where "touches aid s u" "logs s u"
    "\<exists>ctx1 ctx2 i ctx3. s' = log_event org_id ''org_product.activate'' ''org_product'' i ctx1 ctx2 ctx3
       (snd (recompute_sprs aid u))"
proof -
  from run obtain product v i s1 restored s2 s3 where
    s1: "put_org_product org_id pid v nts s = (i, s1)" and
    s2: "restore_prior org_id product v aid s1 = (restored, s2)" and
    s3: "run_loop org_id pid v aid (map_option decided_choices ds) ''activation''
        (map_option decided_shown ds) s2 = Inr (res, s3)" and
    s': "s' = log_activation org_id product v aid i (find_org_product org_id pid s)
        (assessment_score aid s1)
        (sprs_of aid (review_regained org_id (reactivation_ctx product aid) (p_name product) restored s3))
        (lr_judged res) (ds \<noteq> None)
        (snd (recompute_sprs aid (review_regained org_id (reactivation_ctx product aid) (p_name product) restored s3)))"
    by (rule activate_InrD)
  let ?s4 = "review_regained org_id (reactivation_ctx product aid) (p_name product) restored s3"
  have t2: "touches aid s s2" by (rule touches_trans[OF touches_put_org_product(1)[OF s1] restore_prior_frame(1)[OF s2]])
  have l2: "logs s s2"
    by (rule logs_states) (simp_all add: restore_prior_frame[OF s2] touches_put_org_product[OF s1])
  have ok2: "schema_ok s2" by (rule touches_schema_ok[OF t2 sok])
  note r = run_loop_logs[OF ok2 s3]
  have ok3: "schema_ok s3" by (rule touches_schema_ok[OF r(1) ok2])
  have mine: "cs_assessment_id cs = aid" if m: "j \<in> set restored" "get_state j s3 = Some cs" for j cs
  proof -
    obtain c where c: "get_state j s2 = Some c" "cs_assessment_id c = aid"
      using restore_prior_states[OF s2 m(1)] by blast
    have "map_option state_key (get_state j s3) = map_option state_key (get_state j s2)"
      by (rule touches_get_state[OF r(1)])
    then show ?thesis using c m(2) by (simp add: state_key_def)
  qed
  note rv = review_regained_ok[OF ok3 mine, of restored _ org_id "reactivation_ctx product aid" "p_name product"]
  have t4: "touches aid s ?s4" by (rule touches_trans[OF t2 touches_trans[OF r(1)]]) (rule rv; assumption)
  have l4: "logs s ?s4" by (rule logs_trans[OF l2 logs_trans[OF r(2)]]) (rule rv; assumption)
  show ?thesis
    by (rule that[OF t4 l4]) (unfold s' log_activation_def, intro exI, rule refl)
qed

lemma activate_engine_ok:
  assumes ok: "engine_ok s" and run: "activate_org_product org_id pid aid nts ds s = Inr (res, s')"
  shows "engine_ok s' \<and> append_only s s' \<and> catalog_eq s s'"
proof -
  have sok: "schema_ok s" using ok by (simp add: engine_ok_def)
  obtain u c1 c2 i c3 where t: "touches aid s u" and l: "logs s u" and
    s': "s' = log_event org_id ''org_product.activate'' ''org_product'' i c1 c2 c3 (snd (recompute_sprs aid u))"
    by (rule activate_touches[OF sok run]) blast
  have "engine_ok s'" unfolding s' by (rule engine_ok_log_event[OF engine_ok_after[OF ok t l]])
  moreover have "append_only s s'"
  proof -
    have "append_only s u" using t by (simp add: touches_def)
    then show ?thesis unfolding s'
      by (rule append_only_trans[OF append_only_trans[OF _ append_only_recompute] append_only_log_event])
  qed
  moreover have "catalog_eq s s'"
  proof -
    have "catalog_eq s u" using t by (simp add: touches_def)
    then show ?thesis unfolding s'
      by (rule catalog_eq_trans[OF catalog_eq_trans[OF _ recompute_frame(19)] catalog_eq_log_event])
  qed
  ultimately show ?thesis by blast
qed

lemma activate_keys:
  assumes "schema_ok s" "activate_org_product org_id pid aid nts ds s = Inr (res, s')"
  shows "map state_key (t_cstate s') = map state_key (t_cstate s)" "catalog_eq s s'" "schema_ok s'"
    "a_id ` set (t_assessment s') = a_id ` set (t_assessment s)"
proof -
  obtain u c1 c2 i c3 where t: "touches aid s u" and
    s': "s' = log_event org_id ''org_product.activate'' ''org_product'' i c1 c2 c3 (snd (recompute_sprs aid u))"
    by (rule activate_touches[OF assms]) blast
  have same: "same_but aid (t_cstate s) (t_cstate u)" and c: "catalog_eq s u" and a: "t_assessment u = t_assessment s"
    using t by (simp_all add: touches_def)
  show "map state_key (t_cstate s') = map state_key (t_cstate s)" unfolding s' by (simp add: same_but_keys[OF same])
  show "catalog_eq s s'" unfolding s'
    by (rule catalog_eq_trans[OF catalog_eq_trans[OF c recompute_frame(19)] catalog_eq_log_event])
  show "schema_ok s'" unfolding s'
    by (rule schema_ok_log_event[OF schema_ok_recompute[OF touches_schema_ok[OF t assms(1)]]])
  have "map a_id (t_assessment s') = map a_id (t_assessment s)"
    unfolding s' by (simp add: recompute_assessments score_upd.keys_tupd a)
  then show "a_id ` set (t_assessment s') = a_id ` set (t_assessment s)" by (metis set_map)
qed

subsection \<open>The product's row\<close>

lemma find_tupd:
  assumes "find P rows = Some r" "\<And>x. P (f x) = P x"
  shows "find P (tupd key (key r) f rows) = Some (f r)"
  using assms(1) by (induction rows) (auto simp: tupd_def assms(2) split: if_splits)

lemma find_put_org_product:
  assumes "put_org_product org_id pid v nts s = (i, s')"
  shows "\<exists>op. find_org_product org_id pid s' = Some op \<and> op_status op = Active \<and> op_version_id op = Some v"
proof (cases "find_org_product org_id pid s")
  case None
  then have "find_org_product org_id pid s' =
      Some (activate_row (clock s) v nts (new_org_product (next_id s) org_id pid))"
    using assms by (auto simp: put_org_product_def find_org_product_def find_append new_org_product_def)
  then show ?thesis by simp
next
  case (Some op)
  have "s' = update_org_product (op_id op) (activate_row (clock s) v nts) s"
    using assms Some by (auto simp: put_org_product_def)
  then have "find_org_product org_id pid s' = Some (activate_row (clock s) v nts op)"
    using find_tupd[of _ "t_orgproduct s" op "activate_row (clock s) v nts" op_id] Some
    by (simp add: find_org_product_def update_org_product_def)
  then show ?thesis by simp
qed

lemma activate_pins:
  assumes "schema_ok s" "activate_org_product org_id pid aid nts ds s = Inr (res, s')"
    and "activation_target (the (get_product pid s)) (find_org_product org_id pid s) = Inr v"
  shows "\<exists>op. find_org_product org_id pid s' = Some op \<and> op_status op = Active \<and> op_version_id op = Some v"
proof -
  from assms(2) obtain product w i s1 restored s2 s3 where
    p: "get_product pid s = Some product" and
    w: "activation_target product (find_org_product org_id pid s) = Inr w" and
    s1: "put_org_product org_id pid w nts s = (i, s1)" and
    s2: "restore_prior org_id product w aid s1 = (restored, s2)" and
    s3: "run_loop org_id pid w aid (map_option decided_choices ds) ''activation''
        (map_option decided_shown ds) s2 = Inr (res, s3)" and
    s': "s' = log_activation org_id product w aid i (find_org_product org_id pid s) (assessment_score aid s1)
        (sprs_of aid (review_regained org_id (reactivation_ctx product aid) (p_name product) restored s3))
        (lr_judged res) (ds \<noteq> None)
        (snd (recompute_sprs aid (review_regained org_id (reactivation_ctx product aid) (p_name product) restored s3)))"
    by (rule activate_InrD)
  have wv: "w = v" using p w assms(3) by simp
  have t1: "touches aid s s1" by (rule touches_put_org_product(1)[OF s1])
  have ok2: "schema_ok s2"
    by (rule touches_schema_ok[OF restore_prior_frame(1)[OF s2] touches_schema_ok[OF t1 assms(1)]])
  have "t_orgproduct s2 = t_orgproduct s1"
    using s2 by (auto simp: restore_prior_def Let_def foldl_same restore_one_task_def restore_one_link_def update_task_def)
  moreover have "t_orgproduct s3 = t_orgproduct s2"
    using run_loop_outcome(1)[OF ok2 s3] by (simp add: loop_outcome_def)
  moreover have "t_orgproduct s' = t_orgproduct s3"
    unfolding s' log_activation_def by (simp add: review_regained_eq foldl_same review_one_def)
  ultimately show ?thesis using find_put_org_product[OF s1] by (simp add: find_org_product_def wv)
qed

end
