(* ===== verification/Deactivation_Facts.thy ===== *)
theory Deactivation_Facts
  imports Deactivation Activation_Facts
begin

section \<open>What a deactivation does\<close>

subsection \<open>The flagged states\<close>

definition flagged ::
  "(uuid \<Rightarrow> (classification \<times> string) list) \<Rightarrow> control_state \<Rightarrow> control_state" where
  "flagged remaining_of cs =
     cs\<lparr>cs_status := NeedsReview, cs_responsibility := flagged_responsibility cs (remaining_of (cs_id cs))\<rparr>"

definition set_flagged ::
  "(uuid \<Rightarrow> (classification \<times> string) list) \<Rightarrow> control_state \<Rightarrow> control_state \<Rightarrow> control_state" where
  "set_flagged remaining_of cs r =
     r\<lparr>cs_status := NeedsReview, cs_responsibility := flagged_responsibility cs (remaining_of (cs_id cs))\<rparr>"

lemma get_flag_state:
  "get_state j (flag_state org_id ctx remaining_of s cs) =
    (if j = cs_id cs then map_option (set_flagged remaining_of cs) (get_state j s) else get_state j s)"
proof -
  have "get_state j (flag_state org_id ctx remaining_of s cs) =
    get_state j (set_state (cs_id cs) NeedsReview (flagged_responsibility cs (remaining_of (cs_id cs))) s)"
    by (simp add: flag_state_def Let_def)
  then show ?thesis
    unfolding get_set_state by (cases "get_state j s") (auto simp: set_flagged_def)
qed

lemma flag_state_frame [simp]:
  "t_history (flag_state org_id ctx rem s cs) = t_history s"
  "t_contrib (flag_state org_id ctx rem s cs) = t_contrib s"
  "t_link (flag_state org_id ctx rem s cs) = t_link s" "t_task (flag_state org_id ctx rem s cs) = t_task s"
  "t_tasklink (flag_state org_id ctx rem s cs) = t_tasklink s"
  "t_orgproduct (flag_state org_id ctx rem s cs) = t_orgproduct s"
  "t_evidence (flag_state org_id ctx rem s cs) = t_evidence s"
  "t_spec (flag_state org_id ctx rem s cs) = t_spec s"
  "t_bcontrol (flag_state org_id ctx rem s cs) = t_bcontrol s"
  by (simp_all add: flag_state_def Let_def)

lemma touches_flag_state:
  assumes "get_state (cs_id cs) s = Some cs" "cs_assessment_id cs = aid" "schema_ok s"
  shows "touches aid s (flag_state org_id ctx rem s cs)"
  unfolding flag_state_def Let_def
  by (rule touches_trans[OF touches_set_state[OF assms] touches_log_event])

lemma touches_flag_states:
  assumes "schema_ok s" "distinct (map cs_id css)"
    "\<And>cs. cs \<in> set css \<Longrightarrow> get_state (cs_id cs) s = Some cs \<and> cs_assessment_id cs = aid"
  shows "touches aid s (foldl (flag_state org_id ctx remaining_of) s css)"
  by (rule touches_states[OF get_flag_state _ assms]) (rule touches_flag_state)

lemma touches_delete_contributors: "touches aid s (delete_contributors ids s)"
proof (rule touchesI)
  assume ok: "schema_ok s"
  have "contribs_ok (next_id s) (filter (\<lambda>ct. ct_id ct \<notin> set ids) (t_contrib s))"
    using ok by (auto simp: schema_ok_def contribs_ok_def pk_ok_filter distinct_map_filter)
  then show "schema_ok (delete_contributors ids s)"
    using ok unfolding schema_ok_def delete_contributors_def
    by (auto intro: catalog_ok_mono[of s] simp: catalog_eq_def)
qed (simp_all add: delete_contributors_def catalog_eq_def append_only_def)

lemma in_sourced_contributors:
  "(ct, cs) \<in> set (sourced_contributors pid aid s) \<longleftrightarrow>
     ct \<in> set (t_contrib s) \<and> ct_product_id ct = pid \<and> get_state (ct_state_id ct) s = Some cs \<and>
     cs_assessment_id cs = aid"
  by (auto simp: sourced_contributors_def in_join_on)

lemma join_on_keys:
  "map f (map fst (join_on get rows)) = map f (filter (\<lambda>r. get r \<noteq> None) rows)"
  by (induction rows) (auto split: option.split)

lemma sourced_states_ok:
  assumes "schema_ok s"
  shows "distinct (map cs_id (map snd (sourced_contributors pid aid s)))"
    "cs \<in> snd ` set (sourced_contributors pid aid s) \<Longrightarrow> get_state (cs_id cs) s = Some cs \<and> cs_assessment_id cs = aid"
proof -
  let ?j = "join_on (\<lambda>ct. get_state (ct_state_id ct) s) (t_contrib s)"
  have ids: "cs_id cs = ct_state_id ct" if "(ct, cs) \<in> set ?j" for ct cs
    using that by (auto simp: in_join_on dest: get_state_id)
  have "distinct (map (\<lambda>r. (ct_state_id r, ct_product_id r)) (t_contrib s))"
    using assms by (simp add: schema_ok_def contribs_ok_def)
  then have d: "distinct (map (\<lambda>r. (ct_state_id r, ct_product_id r)) (map fst ?j))"
    unfolding join_on_keys by (rule distinct_map_filter)
  have inj: "inj_on (\<lambda>r. ct_state_id (fst r)) (set (sourced_contributors pid aid s))"
  proof (rule inj_onI)
    fix x y assume x: "x \<in> set (sourced_contributors pid aid s)" and y: "y \<in> set (sourced_contributors pid aid s)"
      and e: "ct_state_id (fst x) = ct_state_id (fst y)"
    obtain a b c d' where xy: "x = (a, b)" "y = (c, d')" by (cases x, cases y)
    have xs: "a \<in> set (t_contrib s)" "ct_product_id a = pid" "get_state (ct_state_id a) s = Some b"
      using x unfolding xy in_sourced_contributors by simp_all
    have ys: "c \<in> set (t_contrib s)" "ct_product_id c = pid" "get_state (ct_state_id c) s = Some d'"
      using y unfolding xy in_sourced_contributors by simp_all
    have "inj_on (\<lambda>r. (ct_state_id r, ct_product_id r)) (set (t_contrib s))"
      using assms unfolding schema_ok_def contribs_ok_def distinct_map by blast
    then have "a = c" using xs ys e xy by (auto dest: inj_onD)
    then show "x = y" using xs ys xy by simp
  qed
  have dj: "distinct ?j"
  proof -
    have "distinct (map fst ?j)" using d distinct_map by blast
    then show ?thesis using distinct_map by blast
  qed
  have "map cs_id (map snd (sourced_contributors pid aid s)) =
      map (\<lambda>r. ct_state_id (fst r)) (sourced_contributors pid aid s)"
    using ids by (auto simp: sourced_contributors_def)
  moreover have "distinct (map (\<lambda>r. ct_state_id (fst r)) (sourced_contributors pid aid s))"
    unfolding distinct_map using inj dj by (simp add: sourced_contributors_def)
  ultimately show "distinct (map cs_id (map snd (sourced_contributors pid aid s)))" by metis
  show "get_state (cs_id cs) s = Some cs \<and> cs_assessment_id cs = aid"
    if m: "cs \<in> snd ` set (sourced_contributors pid aid s)"
  proof -
    obtain ct where "(ct, cs) \<in> set (sourced_contributors pid aid s)" using m by force
    then have "get_state (ct_state_id ct) s = Some cs" "cs_assessment_id cs = aid"
      by (simp_all add: in_sourced_contributors)
    then show ?thesis using get_state_id[of "ct_state_id ct" s cs] by simp
  qed
qed

definition remaining_after :: "uuid \<Rightarrow> uuid \<Rightarrow> db \<Rightarrow> uuid \<Rightarrow> (classification \<times> string) list" where
  "remaining_after pid aid s i =
     remaining_contributors i
       (delete_contributors (map (\<lambda>(ct, _). ct_id ct) (sourced_contributors pid aid s)) s)"

lemma flag_states_eq:
  "flag_states org_id product aid s =
     (let pid = p_id product; sourced = map snd (sourced_contributors pid aid s);
          s1 = delete_contributors (map (\<lambda>(ct, _). ct_id ct) (sourced_contributors pid aid s)) s
      in (sourced,
          add_history (map (flag_history (p_name product) (remaining_after pid aid s)) sourced)
            (foldl (flag_state org_id (deactivation_ctx product aid) (remaining_after pid aid s)) s1 sourced)))"
  by (simp add: flag_states_def Let_def remaining_after_def[abs_def])

lemma flag_states_ok:
  assumes ok: "schema_ok s" and run: "flag_states org_id product aid s = (sourced, s')"
  defines "pid \<equiv> p_id product"
  shows "sourced = map snd (sourced_contributors pid aid s)"
    and "touches aid s s'" and "logs s s'"
    and "get_state j s' = (if j \<in> cs_id ` set sourced
           then map_option (flagged (remaining_after pid aid s)) (get_state j s) else get_state j s)"
    and "t_contrib s' = filter (\<lambda>ct. ct_id ct \<notin> (\<lambda>r. ct_id (fst r)) ` set (sourced_contributors pid aid s)) (t_contrib s)"
    and "t_link s' = t_link s" and "t_task s' = t_task s" and "t_tasklink s' = t_tasklink s"
    and "t_orgproduct s' = t_orgproduct s"
proof -
  let ?ids = "map (\<lambda>(ct, _). ct_id ct) (sourced_contributors pid aid s)"
  let ?s1 = "delete_contributors ?ids s" and ?rem = "remaining_after pid aid s"
  let ?f = "flag_state org_id (deactivation_ctx product aid) ?rem"
  let ?s2 = "foldl ?f ?s1 sourced"
  let ?rows = "map (flag_history (p_name product) ?rem) sourced"
  show src: "sourced = map snd (sourced_contributors pid aid s)"
    using run unfolding flag_states_eq Let_def pid_def[symmetric] by simp
  have s': "s' = add_history ?rows ?s2"
    using run unfolding flag_states_eq Let_def pid_def[symmetric] src by simp
  have t1: "touches aid s ?s1" by (rule touches_delete_contributors)
  have ok1: "schema_ok ?s1" by (rule touches_schema_ok[OF t1 ok])
  have c1: "t_cstate ?s1 = t_cstate s" by (simp add: delete_contributors_def)
  have dist: "distinct (map cs_id sourced)" unfolding src by (rule sourced_states_ok(1)[OF ok])
  have at: "get_state (cs_id cs) s = Some cs \<and> cs_assessment_id cs = aid" if "cs \<in> set sourced" for cs
    using sourced_states_ok(2)[OF ok, of cs pid aid] that unfolding src by simp
  have at1: "get_state (cs_id cs) ?s1 = Some cs \<and> cs_assessment_id cs = aid" if "cs \<in> set sourced" for cs
    unfolding c1 by (rule at[OF that])
  have t2: "touches aid ?s1 ?s2" by (rule touches_flag_states[OF ok1 dist at1])
  show t: "touches aid s s'" unfolding s' by (rule touches_trans[OF t1 touches_trans[OF t2 touches_add_history]])
  have g: "get_state j s' = (if j \<in> cs_id ` set sourced
           then map_option (flagged ?rem) (get_state j s) else get_state j s)" for j
  proof -
    have fs: "get_state j s' = (case find (\<lambda>c. cs_id c = j) sourced of None \<Rightarrow> get_state j ?s1
        | Some c \<Rightarrow> Some (set_flagged ?rem c c))"
      unfolding s' add_history_frame
      by (rule foldl_states[OF get_flag_state dist]) (use at1 in blast)
    show ?thesis
    proof (cases "j \<in> cs_id ` set sourced")
      case True
      then obtain c where c: "c \<in> set sourced" "j = cs_id c" by blast
      then show ?thesis using fs find_key_distinct[OF dist c(1)] at[OF c(1)]
        by (simp add: set_flagged_def flagged_def)
    next
      case False
      then have "find (\<lambda>c. cs_id c = j) sourced = None" by (auto simp: find_None_iff)
      then show ?thesis using fs False by (simp add: c1)
    qed
  qed
  then show "get_state j s' = (if j \<in> cs_id ` set sourced
           then map_option (flagged ?rem) (get_state j s) else get_state j s)" .
  have hist: "t_history s' = t_history s @ insert_rows mk_history (next_id ?s2) ?rows"
    unfolding s' add_history_frame by (simp add: foldl_same[where g = t_history] delete_contributors_def)
  have ids: "map fst ?rows = map cs_id sourced" by (simp add: flag_history_def Let_def)
  have ids': "fst ` set ?rows = cs_id ` set sourced" using ids by (metis set_map)
  show "logs s s'"
  proof (rule logs_rows[OF hist])
    show "distinct (map fst ?rows)" unfolding ids by (rule dist)
    show "get_state i s' = None \<longleftrightarrow> get_state i s = None" for i by (simp add: g)
    show "fst ` set ?rows \<subseteq> cs_id ` set (t_cstate s')"
    proof
      fix i assume "i \<in> fst ` set ?rows"
      then obtain cs where "cs \<in> set sourced" "i = cs_id cs" unfolding ids' by blast
      then have "get_state i s' \<noteq> None" using at[of cs] by (simp add: g)
      then show "i \<in> cs_id ` set (t_cstate s')" by (simp add: tget_None_iff)
    qed
    show "map_option verdict (get_state i s') = map_option verdict (get_state i s)"
      if "i \<notin> fst ` set ?rows" for i
      using that unfolding ids' by (simp add: g)
    show "verdict cs' = (ns, nr)"
      if row: "(i, ps, ns, pr, nr, r) \<in> set ?rows" and c: "get_state i s' = Some cs'" for i ps ns pr nr r cs'
    proof -
      obtain cs where cs: "cs \<in> set sourced" "(i, ps, ns, pr, nr, r) = flag_history (p_name product) ?rem cs"
        using row by auto
      then have i: "i = cs_id cs" "ns = NeedsReview" "nr = flagged_responsibility cs (?rem (cs_id cs))"
        by (simp_all add: flag_history_def Let_def)
      then show ?thesis using c at[OF cs(1)] cs(1) by (auto simp: g flagged_def verdict_def)
    qed
  qed
  have setids: "set ?ids = (\<lambda>r. ct_id (fst r)) ` set (sourced_contributors pid aid s)"
    by (auto simp: case_prod_unfold)
  show "t_contrib s' = filter (\<lambda>ct. ct_id ct \<notin> (\<lambda>r. ct_id (fst r)) ` set (sourced_contributors pid aid s)) (t_contrib s)"
    unfolding s' add_history_frame foldl_same[where g = t_contrib and f = ?f, OF flag_state_frame(2)]
    by (simp add: delete_contributors_def setids del: set_map)
  show "t_link s' = t_link s" "t_task s' = t_task s" "t_tasklink s' = t_tasklink s" "t_orgproduct s' = t_orgproduct s"
    unfolding s' add_history_frame foldl_same[where g = t_link and f = ?f, OF flag_state_frame(3)]
      foldl_same[where g = t_task and f = ?f, OF flag_state_frame(4)]
      foldl_same[where g = t_tasklink and f = ?f, OF flag_state_frame(5)]
      foldl_same[where g = t_orgproduct and f = ?f, OF flag_state_frame(6)]
    by (simp_all add: delete_contributors_def)
qed

subsection \<open>The archived links and tasks\<close>

lemma foldl_tupd:
  fixes key :: "'r \<Rightarrow> uuid"
  assumes key: "\<And>r. key (f r) = key r" and "distinct (map key xs)"
  shows "foldl (\<lambda>rs x. tupd key (key x) f rs) rows xs =
    map (\<lambda>r. if key r \<in> key ` set xs then f r else r) rows"
  using assms(2)
proof (induction xs arbitrary: rows)
  case (Cons x xs)
  have "key x \<notin> key ` set xs" using Cons.prems by simp
  then show ?case using Cons by (simp add: tupd_def key)
qed simp

lemma foldl_table:
  assumes "\<And>s x. tab (f s x) = tupd key (key x) (g s) (tab s)" and "\<And>s x. g (f s x) = g s"
  shows "tab (foldl f s xs) = foldl (\<lambda>rs x. tupd key (key x) (g s) rs) (tab s) xs"
  using assms by (induction xs arbitrary: s) auto

lemma foldl_filter_table:
  fixes key :: "'r \<Rightarrow> uuid"
  assumes "\<And>s x. tab (f s x) = tupd key (key x) (g s) (tab s)" and "\<And>s x. g (f s x) = g s"
    and "\<And>s r. key (g s r) = key r" and "pk_ok key n (tab s)"
  shows "tab (foldl f s (filter P (tab s))) = map (\<lambda>r. if P r then g s r else r) (tab s)"
proof -
  have d: "distinct (map key (tab s))" using assms(4) by (rule pk_ok_distinct)
  have "tab (foldl f s (filter P (tab s))) =
      map (\<lambda>r. if key r \<in> key ` set (filter P (tab s)) then g s r else r) (tab s)"
    unfolding foldl_table[where tab = tab and f = f and g = g, OF assms(1,2)]
    by (rule foldl_tupd[OF assms(3) distinct_map_filter[OF d]])
  also have "\<dots> = map (\<lambda>r. if P r then g s r else r) (tab s)"
  proof (rule map_cong[OF refl])
    fix r assume r: "r \<in> set (tab s)"
    have "key r \<in> key ` set (filter P (tab s)) \<longleftrightarrow> P r"
      using d r by (auto simp: distinct_map dest: inj_onD)
    then show "(if key r \<in> key ` set (filter P (tab s)) then g s r else r) = (if P r then g s r else r)"
      by simp
  qed
  finally show ?thesis .
qed

lemma touches_archive_one_link: "touches aid s (archive_one_link org_id pid ctx s l)"
  unfolding archive_one_link_def
  by (rule touches_trans[OF touches_update_link touches_log_event]) simp_all

lemma archive_task_id [simp]: "tk_id (archive_task now t) = tk_id t"
  by (simp add: archive_task_def)

lemma touches_archive_one_task: "touches aid s (archive_one_task org_id ctx s t)"
  unfolding archive_one_task_def by (rule touches_trans[OF touches_update_task touches_log_event]) simp

lemma archive_one_frame [simp]:
  "t_cstate (archive_one_link org_id pid ctx s l) = t_cstate s"
  "t_history (archive_one_link org_id pid ctx s l) = t_history s"
  "t_contrib (archive_one_link org_id pid ctx s l) = t_contrib s"
  "t_task (archive_one_link org_id pid ctx s l) = t_task s"
  "t_tasklink (archive_one_link org_id pid ctx s l) = t_tasklink s"
  "t_orgproduct (archive_one_link org_id pid ctx s l) = t_orgproduct s"
  "t_spec (archive_one_link org_id pid ctx s l) = t_spec s"
  "t_bcontrol (archive_one_link org_id pid ctx s l) = t_bcontrol s"
  "clock (archive_one_link org_id pid ctx s l) = clock s"
  "t_link (archive_one_link org_id pid ctx s l) =
     tupd ln_id (ln_id l) (archive_row DEACTIVATION (clock s) (Some pid) None) (t_link s)"
  "t_cstate (archive_one_task org_id ctx s t) = t_cstate s"
  "t_history (archive_one_task org_id ctx s t) = t_history s"
  "t_contrib (archive_one_task org_id ctx s t) = t_contrib s"
  "t_link (archive_one_task org_id ctx s t) = t_link s"
  "t_tasklink (archive_one_task org_id ctx s t) = t_tasklink s"
  "t_orgproduct (archive_one_task org_id ctx s t) = t_orgproduct s"
  "clock (archive_one_task org_id ctx s t) = clock s"
  "t_task (archive_one_task org_id ctx s t) = tupd tk_id (tk_id t) (archive_task (clock s)) (t_task s)"
  by (simp_all add: archive_one_link_def archive_one_task_def update_task_def)

subsection \<open>The operation\<close>

definition archivable :: "uuid list \<Rightarrow> db \<Rightarrow> state_link \<Rightarrow> bool" where
  "archivable ids s l \<longleftrightarrow> ln_state_id l \<in> set ids \<and> \<not> ln_is_archived l \<and>
     (case get_evidence (ln_evidence_id l) s of None \<Rightarrow> False
      | Some ev \<Rightarrow> ev_source_list_version ev = None \<and> ev_source_document_version ev = None)"

definition product_task :: "uuid \<Rightarrow> uuid \<Rightarrow> uuid \<Rightarrow> db \<Rightarrow> evidence_task \<Rightarrow> bool" where
  "product_task org_id aid pid s t \<longleftrightarrow> tk_assessment_id t = Some aid \<and> tk_org_id t = org_id \<and>
     map_option bc_product_id (task_bcontrol s t) = Some pid \<and> \<not> tk_is_archived t"

definition sourced_ids :: "uuid \<Rightarrow> uuid \<Rightarrow> db \<Rightarrow> uuid list" where
  "sourced_ids pid aid s = map cs_id (map snd (sourced_contributors pid aid s))"

definition decommission_db ::
  "uuid \<Rightarrow> product \<Rightarrow> org_product \<Rightarrow> product option \<Rightarrow> string option \<Rightarrow> uuid option \<Rightarrow> uuid \<Rightarrow> db \<Rightarrow> db" where
  "decommission_db org_id product op replacement who replaced_by aid s =
     decommission org_id op replacement who replaced_by (deactivation_ctx product aid) s"

lemma deactivate_InrD:
  assumes "deactivate_org_product org_id pid aid replaced_by who s = Inr (res, s')"
  obtains product op replacement s1 sourced s2 s3 s4 where
    "get_product pid s = Some product" "p_id product = pid" "find_org_product org_id pid s = Some op"
    "s1 = decommission_db org_id product op replacement who replaced_by aid s"
    "flag_states org_id product aid s1 = (sourced, s2)"
    "s3 = foldl (archive_one_link org_id pid (deactivation_ctx product aid)) s2
            (archivable_links (map cs_id sourced) s2)"
    "s4 = foldl (archive_one_task org_id (deactivation_ctx product aid)) s3 (product_tasks org_id aid pid s3)"
    "s' = snd (recompute_sprs aid s4)"
    "res = \<lparr>dr_controls_flagged = length sourced, dr_tasks_archived = length (product_tasks org_id aid pid s3),
            dr_links_archived = length (archivable_links (map cs_id sourced) s2)\<rparr>"
proof -
  obtain product where p: "get_product pid s = Some product"
    using assms by (auto simp: deactivate_org_product_def split: option.splits)
  obtain op where op: "find_org_product org_id pid s = Some op"
    using assms p by (auto simp: deactivate_org_product_def split: option.splits)
  obtain rp where rp: "check_replacement pid replaced_by s = Inr rp"
    using assms p op by (auto simp: deactivate_org_product_def split: sum.splits)
  obtain sourced s2 where f: "flag_states org_id product aid
      (decommission_db org_id product op rp who replaced_by aid s) = (sourced, s2)"
    by (cases "flag_states org_id product aid (decommission_db org_id product op rp who replaced_by aid s)")
  have "(Inr (res, s') :: engine_error + deactivation_result \<times> db) =
      (let ctx = deactivation_ctx product aid;
            links = archivable_links (map cs_id sourced) s2;
            s3 = foldl (archive_one_link org_id pid ctx) s2 links;
            tasks = product_tasks org_id aid pid s3;
            s4 = foldl (archive_one_task org_id ctx) s3 tasks;
            (_, s5) = recompute_sprs aid s4
        in Inr (\<lparr>dr_controls_flagged = length sourced, dr_tasks_archived = length tasks,
                 dr_links_archived = length links\<rparr>, s5))"
    using assms unfolding deactivate_org_product_def p op option.case rp sum.case Let_def f[unfolded decommission_db_def]
      case_prod_conv by (rule sym)
  then show ?thesis
    using that[OF p _ op refl f refl refl] tget_SomeD[OF p] by (simp add: Let_def case_prod_unfold)
qed

lemma decommission_row_id [simp]:
  "op_id (decommission_row now who r op) = op_id op" "op_org_id (decommission_row now who r op) = op_org_id op"
  "op_product_id (decommission_row now who r op) = op_product_id op"
  by (simp_all add: decommission_row_def)

lemma touches_decommission: "touches aid s (decommission_db org_id product op rp who r a s)"
  unfolding decommission_db_def decommission_def
  by (rule touches_trans[OF touches_update_org_product touches_log_event]) simp_all

lemma decommission_frame [simp]:
  "t_cstate (decommission_db org_id product op rp who r a s) = t_cstate s"
  "t_history (decommission_db org_id product op rp who r a s) = t_history s"
  "t_contrib (decommission_db org_id product op rp who r a s) = t_contrib s"
  "t_link (decommission_db org_id product op rp who r a s) = t_link s"
  "t_task (decommission_db org_id product op rp who r a s) = t_task s"
  "t_bcontrol (decommission_db org_id product op rp who r a s) = t_bcontrol s"
  "t_product (decommission_db org_id product op rp who r a s) = t_product s"
  "t_evidence (decommission_db org_id product op rp who r a s) = t_evidence s"
  "t_spec (decommission_db org_id product op rp who r a s) = t_spec s"
  "clock (decommission_db org_id product op rp who r a s) = clock s"
  by (simp_all add: decommission_db_def decommission_def update_org_product_def)

lemma sourced_cong:
  assumes "t_contrib s' = t_contrib s" "t_cstate s' = t_cstate s"
  shows "sourced_contributors pid aid s' = sourced_contributors pid aid s"
  unfolding sourced_contributors_def assms by (rule refl)

lemma remaining_cong:
  assumes "t_contrib s' = t_contrib s" "t_cstate s' = t_cstate s" "t_bcontrol s' = t_bcontrol s"
    "t_product s' = t_product s"
  shows "remaining_after pid aid s' i = remaining_after pid aid s i"
proof -
  have d: "t_contrib (delete_contributors ids x) = filter (\<lambda>ct. ct_id ct \<notin> set ids) (t_contrib x)"
    "t_bcontrol (delete_contributors ids x) = t_bcontrol x" "t_product (delete_contributors ids x) = t_product x"
    for ids x by (simp_all add: delete_contributors_def)
  show ?thesis
    unfolding remaining_after_def remaining_contributors_def d sourced_cong[OF assms(1,2)] assms by (rule refl)
qed

text \<open>What a deactivation that succeeds leaves.\<close>

lemma sourced_filter:
  assumes ok: "schema_ok s"
  shows "filter (\<lambda>ct. ct_id ct \<notin> (\<lambda>r. ct_id (fst r)) ` set (sourced_contributors pid aid s)) (t_contrib s) =
    filter (\<lambda>ct. \<not> (ct_product_id ct = pid \<and> state_assessment s (ct_state_id ct) = Some aid)) (t_contrib s)"
proof (rule filter_cong[OF refl])
  fix ct assume ct: "ct \<in> set (t_contrib s)"
  have pk: "pk_ok ct_id (next_id s) (t_contrib s)" using ok by (simp add: schema_ok_def contribs_ok_def)
  have "ct_id ct \<in> (\<lambda>r. ct_id (fst r)) ` set (sourced_contributors pid aid s) \<longleftrightarrow>
      (\<exists>c2 cs. (c2, cs) \<in> set (sourced_contributors pid aid s) \<and> ct_id c2 = ct_id ct)" by force
  also have "\<dots> \<longleftrightarrow> (\<exists>cs. (ct, cs) \<in> set (sourced_contributors pid aid s))"
    using pk_ok_tget[OF pk] ct unfolding in_sourced_contributors by (metis option.inject)
  also have "\<dots> \<longleftrightarrow> ct_product_id ct = pid \<and> state_assessment s (ct_state_id ct) = Some aid"
    using ct by (auto simp: in_sourced_contributors state_assessment_def)
  finally show "(ct_id ct \<notin> (\<lambda>r. ct_id (fst r)) ` set (sourced_contributors pid aid s)) =
      (\<not> (ct_product_id ct = pid \<and> state_assessment s (ct_state_id ct) = Some aid))" by simp
qed

lemma remaining_after_eq:
  assumes "schema_ok s" and c: "t_contrib s' =
      filter (\<lambda>ct. \<not> (ct_product_id ct = pid \<and> state_assessment s (ct_state_id ct) = Some aid)) (t_contrib s)"
    and "catalog_eq s s'"
  shows "remaining_after pid aid s i = remaining_contributors i s'"
proof -
  let ?d = "delete_contributors (map (\<lambda>(ct, _). ct_id ct) (sourced_contributors pid aid s)) s"
  have "t_contrib ?d = t_contrib s'"
    unfolding c sourced_filter[OF assms(1), symmetric] by (simp add: delete_contributors_def case_prod_unfold)
  moreover have "t_bcontrol ?d = t_bcontrol s'" "t_product ?d = t_product s'"
    using assms(3) by (simp_all add: catalog_eq_def delete_contributors_def)
  ultimately have eqs: "t_contrib ?d = t_contrib s'" "t_bcontrol ?d = t_bcontrol s'" "t_product ?d = t_product s'"
    by blast+
  show ?thesis unfolding remaining_after_def remaining_contributors_def eqs by (rule refl)
qed

definition deactivated :: "uuid \<Rightarrow> uuid \<Rightarrow> uuid \<Rightarrow> db \<Rightarrow> deactivation_result \<Rightarrow> db \<Rightarrow> bool" where
  "deactivated org_id pid aid s res s' \<longleftrightarrow>
     (\<forall>j. get_state j s' = (if j \<in> set (sourced_ids pid aid s)
        then map_option (flagged (remaining_after pid aid s)) (get_state j s) else get_state j s)) \<and>
     t_contrib s' = filter (\<lambda>ct. \<not> (ct_product_id ct = pid \<and> state_assessment s (ct_state_id ct) = Some aid))
        (t_contrib s) \<and>
     t_link s' = map (\<lambda>l. if archivable (sourced_ids pid aid s) s l
        then archive_row DEACTIVATION (clock s) (Some pid) None l else l) (t_link s) \<and>
     t_task s' = map (\<lambda>t. if product_task org_id aid pid s t then archive_task (clock s) t else t) (t_task s) \<and>
     res = \<lparr>dr_controls_flagged = length (sourced_ids pid aid s),
            dr_tasks_archived = length (filter (product_task org_id aid pid s) (t_task s)),
            dr_links_archived = length (filter (archivable (sourced_ids pid aid s) s) (t_link s))\<rparr>"

lemma deactivate_facts:
  assumes ok: "schema_ok s" and run: "deactivate_org_product org_id pid aid replaced_by who s = Inr (res, s')"
  obtains u where "touches aid s u" "logs s u" "s' = snd (recompute_sprs aid u)"
    "deactivated org_id pid aid s res s'"
proof -
  from run obtain product op rp s1 sourced s2 s3 s4 where
    p: "p_id product = pid" and
    s1: "s1 = decommission_db org_id product op rp who replaced_by aid s" and
    s2: "flag_states org_id product aid s1 = (sourced, s2)" and
    s3: "s3 = foldl (archive_one_link org_id pid (deactivation_ctx product aid)) s2
            (archivable_links (map cs_id sourced) s2)" and
    s4: "s4 = foldl (archive_one_task org_id (deactivation_ctx product aid)) s3 (product_tasks org_id aid pid s3)" and
    s': "s' = snd (recompute_sprs aid s4)" and
    res: "res = \<lparr>dr_controls_flagged = length sourced, dr_tasks_archived = length (product_tasks org_id aid pid s3),
            dr_links_archived = length (archivable_links (map cs_id sourced) s2)\<rparr>"
    by (rule deactivate_InrD)
  let ?al = "archive_one_link org_id pid (deactivation_ctx product aid)"
  let ?at = "archive_one_task org_id (deactivation_ctx product aid)"
  have fr1: "t_cstate s1 = t_cstate s" "t_history s1 = t_history s" "t_contrib s1 = t_contrib s"
    "t_link s1 = t_link s" "t_task s1 = t_task s" "t_bcontrol s1 = t_bcontrol s" "t_product s1 = t_product s"
    unfolding s1 by simp_all
  have t1: "touches aid s s1" unfolding s1 by (rule touches_decommission)
  have ok1: "schema_ok s1" by (rule touches_schema_ok[OF t1 ok])
  note f = flag_states_ok[OF ok1 s2, unfolded p]
  have src: "map cs_id sourced = sourced_ids pid aid s"
    unfolding f(1) sourced_ids_def sourced_cong[OF fr1(3,1)] by (rule refl)
  have t2: "touches aid s s2" by (rule touches_trans[OF t1 f(2)])
  have ok2: "schema_ok s2" by (rule touches_schema_ok[OF t2 ok])
  have t3: "touches aid s2 s3" unfolding s3 by (rule touches_foldl) (rule touches_archive_one_link)
  have ok3: "schema_ok s3" by (rule touches_schema_ok[OF t3 ok2])
  have t4: "touches aid s3 s4" unfolding s4 by (rule touches_foldl) (rule touches_archive_one_task)
  have cat2: "catalog_eq s s2" and cat3: "catalog_eq s s3"
    using t2 touches_trans[OF t2 t3] by (simp_all add: touches_def)
  have fr3: "t_cstate s3 = t_cstate s2" "t_history s3 = t_history s2" "t_contrib s3 = t_contrib s2"
    "t_task s3 = t_task s2"
    unfolding s3 by (simp_all add: foldl_same[where f = ?al])
  have fr4: "t_cstate s4 = t_cstate s2" "t_history s4 = t_history s2" "t_contrib s4 = t_contrib s2"
    "t_link s4 = t_link s3"
    unfolding s4 by (simp_all add: foldl_same[where f = ?at] fr3)
  have al: "archivable_links (map cs_id sourced) s2 = filter (archivable (sourced_ids pid aid s) s) (t_link s2)"
    using cat2 unfolding archivable_links_def src by (simp add: archivable_def[abs_def] catalog_eq_def)
  have pt: "product_tasks org_id aid pid s3 = filter (product_task org_id aid pid s) (t_task s3)"
  proof -
    have c: "t_spec s3 = t_spec s" "t_bcontrol s3 = t_bcontrol s" using cat3 by (simp_all add: catalog_eq_def)
    have tb: "task_bcontrol s3 = task_bcontrol s" unfolding task_bcontrol_def[abs_def] c by (rule refl)
    show ?thesis unfolding product_tasks_def product_task_def[abs_def] tb by (rule refl)
  qed
  have cl: "clock s2 = clock s" "clock s3 = clock s" using cat2 cat3 by (simp_all add: catalog_eq_def)
  have links: "t_link s3 = map (\<lambda>l. if archivable (sourced_ids pid aid s) s l
        then archive_row DEACTIVATION (clock s) (Some pid) None l else l) (t_link s)"
  proof -
    have "pk_ok ln_id (next_id s2) (t_link s2)" using ok2 by (simp add: schema_ok_def links_ok_def)
    then show ?thesis
      unfolding s3 al using foldl_filter_table[where tab = t_link and f = ?al and key = ln_id and
          g = "\<lambda>s. archive_row DEACTIVATION (clock s) (Some pid) None" and s = s2]
      by (simp add: cl f(6) fr1)
  qed
  have tasks: "t_task s4 = map (\<lambda>t. if product_task org_id aid pid s t then archive_task (clock s) t else t) (t_task s)"
  proof -
    have "pk_ok tk_id (next_id s3) (t_task s3)" using ok3 by (simp add: schema_ok_def)
    then show ?thesis
      unfolding s4 pt using foldl_filter_table[where tab = t_task and f = ?at and key = tk_id and
          g = "\<lambda>s. archive_task (clock s)" and s = s3]
      by (simp add: cl f(7) fr1 fr3)
  qed
  have contribs: "t_contrib s4 = filter (\<lambda>ct. \<not> (ct_product_id ct = pid \<and>
      state_assessment s (ct_state_id ct) = Some aid)) (t_contrib s)"
    unfolding fr4(3) f(5) fr1(3) sourced_cong[OF fr1(3,1)] by (rule sourced_filter[OF ok])
  have states: "get_state j s4 = (if j \<in> set (sourced_ids pid aid s)
        then map_option (flagged (remaining_after pid aid s)) (get_state j s) else get_state j s)" for j
  proof -
    have "remaining_after pid aid s1 = remaining_after pid aid s"
      by (rule ext) (rule remaining_cong[OF fr1(3,1,6,7)])
    then show ?thesis unfolding fr4(1) f(4) fr1(1) src[symmetric] set_map by simp
  qed
  have len: "length sourced = length (sourced_ids pid aid s)" unfolding src[symmetric] by simp
  have tl: "t_task s3 = t_task s" "t_link s2 = t_link s" by (simp_all add: fr3 f(6,7) fr1)
  have d: "deactivated org_id pid aid s res s'"
    unfolding deactivated_def s' recompute_frame res pt al len tl
    using states contribs links tasks fr4(4) by simp
  have "logs s1 s4"
  proof -
    have "logs s2 s4" by (rule logs_states) (simp_all add: fr4)
    then show ?thesis by (rule logs_trans[OF f(3)])
  qed
  moreover have "logs s s1" by (rule logs_states) (simp_all add: fr1)
  ultimately have "logs s s4" using logs_trans by blast
  then show ?thesis using that[of s4] touches_trans[OF t2 touches_trans[OF t3 t4]] s' d by blast
qed

lemma deactivate_engine_ok:
  assumes ok: "engine_ok s" and run: "deactivate_org_product org_id pid aid replaced_by who s = Inr (res, s')"
  shows "engine_ok s' \<and> append_only s s' \<and> catalog_eq s s'"
proof -
  have sok: "schema_ok s" using ok by (simp add: engine_ok_def)
  from deactivate_facts[OF sok run] obtain u where
    u: "touches aid s u" "logs s u" "s' = snd (recompute_sprs aid u)" by metis
  have "append_only s u" "catalog_eq s u" using u(1) by (simp_all add: touches_def)
  then show ?thesis
    using engine_ok_after[OF ok u(1,2)] append_only_trans[OF _ append_only_recompute]
      catalog_eq_trans[OF _ recompute_frame(19)] unfolding u(3) by blast
qed

end
