(* ===== verification/Move_Facts.thy ===== *)
theory Move_Facts
  imports Version_Move Deactivation_Facts
begin

section \<open>What a version move does\<close>

subsection \<open>History entries\<close>

definition last_entry :: "uuid \<Rightarrow> history_entry list \<Rightarrow> history_entry option" where
  "last_entry i rows = find (\<lambda>e. fst e = i) (rev rows)"

fun entry_verdict :: "history_entry \<Rightarrow> control_status \<times> responsibility" where
  "entry_verdict (i, ps, ns, pr, nr, r) = (ns, nr)"

lemma last_entry_snoc:
  "last_entry i (rows @ [e]) = (if fst e = i then Some e else last_entry i rows)"
  by (simp add: last_entry_def)

lemma last_row_insert_rows:
  "map_option (\<lambda>h. (h_new_status h, h_new_resp h)) (last_row i (insert_rows mk_history n rows)) =
     map_option entry_verdict (last_entry i rows)"
proof (induction rows rule: rev_induct)
  case Nil
  then show ?case by (simp add: last_entry_def)
next
  case (snoc e rows)
  obtain j ps ns pr nr r where e: "e = (j, ps, ns, pr, nr, r)" by (cases e) auto
  have "insert_rows mk_history n (rows @ [e]) = insert_rows mk_history n rows @ [mk_history (n + length rows) e]"
    by (simp add: insert_rows_def)
  then show ?case
    using snoc by (simp add: last_row_append last_entry_snoc e last_row_def)
qed

definition accounted :: "db \<Rightarrow> db \<Rightarrow> history_entry list \<Rightarrow> bool" where
  "accounted s s' rows \<longleftrightarrow>
     (\<forall>i cs'. get_state i s' = Some cs' \<longrightarrow> (\<exists>cs. get_state i s = Some cs \<and>
        verdict cs' = (case last_entry i rows of Some e \<Rightarrow> entry_verdict e | None \<Rightarrow> verdict cs)))"

lemma accounted_logs:
  assumes a: "accounted s s' rows" and fk: "fst ` set rows \<subseteq> cs_id ` set (t_cstate s')"
    and keys: "cs_id ` set (t_cstate s) \<subseteq> cs_id ` set (t_cstate s')"
    and h: "t_history s' = t_history s @ insert_rows mk_history n rows"
  shows "logs s s'"
proof -
  let ?new = "insert_rows mk_history n rows"
  have "map h_state_id ?new = map fst rows" by (rule map_insert_rows) auto
  then have ids: "h_state_id ` set ?new \<subseteq> cs_id ` set (t_cstate s')" using fk by (metis set_map)
  have "verdict cs' = (case last_row i ?new of Some h \<Rightarrow> (h_new_status h, h_new_resp h)
     | None \<Rightarrow> (case get_state i s of None \<Rightarrow> (NotMet, CustomerOwns) | Some cs \<Rightarrow> verdict cs))"
    if c: "get_state i s' = Some cs'" for i cs'
  proof -
    obtain cs where cs: "get_state i s = Some cs"
      "verdict cs' = (case last_entry i rows of Some e \<Rightarrow> entry_verdict e | None \<Rightarrow> verdict cs)"
      using a c unfolding accounted_def by blast
    show ?thesis
      using last_row_insert_rows[of i n rows] cs by (auto split: option.splits)
  qed
  then show ?thesis unfolding logs_def using h ids keys by blast
qed

subsection \<open>One objective\<close>

definition move_env_ok :: "move_env \<Rightarrow> db \<Rightarrow> bool" where
  "move_env_ok env s \<longleftrightarrow> (\<forall>obj i. me_states env obj = Some i \<longrightarrow>
     (\<exists>cs. get_state i s = Some cs \<and> cs_assessment_id cs = mc_assessment (me_ctx env) \<and> cs_objective_id cs = obj))"

text \<open>What one step of the loop appends to the accumulator.\<close>

definition move_writes :: "control_state \<Rightarrow> control_status \<Rightarrow> responsibility \<Rightarrow> move_acc \<Rightarrow> move_acc \<Rightarrow> bool" where
  "move_writes cs st resp acc acc' \<longleftrightarrow>
     t_cstate (mv_db acc') = t_cstate (set_state (cs_id cs) st resp (mv_db acc)) \<and>
     (\<exists>r. mv_history acc' = mv_history acc @ [(cs_id cs, cs_status cs, st, cs_responsibility cs, resp, r)]) \<and>
     t_link (mv_db acc') = t_link (mv_db acc) \<and> t_task (mv_db acc') = t_task (mv_db acc) \<and>
     t_tasklink (mv_db acc') = t_tasklink (mv_db acc) \<and> t_history (mv_db acc') = t_history (mv_db acc) \<and>
     (st = NeedsReview \<and> mv_reviewed acc' \<noteq> mv_reviewed acc \<or>
      st = contributor_added_status (cs_status cs) False None \<and> mv_reviewed acc' = mv_reviewed acc \<or>
      st = contributor_added_status (cs_status cs) True None \<and> mv_reviewed acc' = mv_reviewed acc \<and>
      \<not> is_judgement_in_question (cs_status cs) True) \<and>
     (mv_reviewed acc' = mv_reviewed acc \<or>
      (\<exists>why still. mv_reviewed acc' = mv_reviewed acc @ [reviewed_of cs why still] \<and> st = NeedsReview))"

lemma touches_repoint: "touches aid s (repoint_contributor i b s)"
proof (rule touchesI)
  assume ok: "schema_ok s"
  let ?f = "\<lambda>ct :: contributor. ct\<lparr>ct_bcontrol_id := b\<rparr>"
  have ku: "keyed_update ct_id ?f" by unfold_locales simp
  have "pk_ok ct_id (next_id s) (tupd ct_id i ?f (t_contrib s))"
    using ok by (intro pk_ok_keys[OF keyed_update.keys_tupd[OF ku]]) (simp add: schema_ok_def contribs_ok_def)
  moreover have "map (\<lambda>r. (ct_state_id r, ct_product_id r)) (tupd ct_id i ?f (t_contrib s)) =
      map (\<lambda>r. (ct_state_id r, ct_product_id r)) (t_contrib s)"
    by (rule keyed_update.map_tupd_other[OF ku]) simp
  ultimately have "contribs_ok (next_id s) (tupd ct_id i ?f (t_contrib s))"
    using ok by (simp add: schema_ok_def contribs_ok_def)
  then show "schema_ok (repoint_contributor i b s)"
    using ok unfolding schema_ok_def repoint_contributor_def
    by (auto intro: catalog_ok_mono[of s] simp: catalog_eq_def)
qed (simp_all add: repoint_contributor_def catalog_eq_def append_only_def)

lemma move_lost_writes:
  assumes "get_state (cs_id cs) (mv_db acc) = Some cs" "cs_assessment_id cs = aid" "schema_ok (mv_db acc)"
  shows "\<exists>resp. move_writes cs NeedsReview resp acc (move_lost c current row cs acc) \<and>
    touches aid (mv_db acc) (mv_db (move_lost c current row cs acc))"
  using touches_set_state[OF assms]
  by (auto simp: move_lost_def Let_def move_writes_def)

lemma contributor_added_judged:
  "is_judgement_in_question st b \<Longrightarrow> contributor_added_status st b None = NeedsReview"
  by (auto simp: is_judgement_in_question_def contributor_added_status_def)

lemma move_gained_writes:
  assumes "get_state (cs_id cs) (mv_db acc) = Some cs" "cs_assessment_id cs = aid" "schema_ok (mv_db acc)"
  shows "\<exists>resp. move_writes cs (contributor_added_status (cs_status cs) (current = []) None) resp acc
      (move_gained c current ctrl bc cs acc) \<and>
    touches aid (mv_db acc) (mv_db (move_gained c current ctrl bc cs acc))"
proof -
  let ?st = "contributor_added_status (cs_status cs) (current = []) None"
  let ?resp = "resolve_contributor_responsibility (map (\<lambda>(_, _, cls). cls) current @ [bc_classification bc])"
  have t: "touches aid (mv_db acc) (set_state (cs_id cs) ?st ?resp (mv_db acc))"
    by (rule touches_set_state[OF assms])
  show ?thesis
  proof (cases "is_judgement_in_question (cs_status cs) (current = [])")
    case True
    have "?st = NeedsReview" by (rule contributor_added_judged[OF True])
    then show ?thesis using touches_trans[OF t touches_log_event] True
      by (intro exI[of _ ?resp])
        (auto simp: move_gained_def Let_def move_writes_def record_judged_def)
  next
    case False
    then show ?thesis using t
      by (intro exI[of _ ?resp])
        (cases "current = []"; simp add: move_gained_def Let_def move_writes_def)
  qed
qed

lemma move_changed_writes:
  assumes "get_state (cs_id cs) (mv_db acc) = Some cs" "cs_assessment_id cs = aid" "schema_ok (mv_db acc)"
  shows "\<exists>resp. move_writes cs NeedsReview resp acc (move_changed c current row ctrl bc cs acc) \<and>
    touches aid (mv_db acc) (mv_db (move_changed c current row ctrl bc cs acc))"
proof -
  let ?s1 = "repoint_contributor row (bc_id bc) (mv_db acc)"
  let ?resp = "resolve_contributor_responsibility
    (map (\<lambda>(pid, _, cls). if pid = p_id (mc_product c) then bc_classification bc else cls) current)"
  have t1: "touches aid (mv_db acc) ?s1" by (rule touches_repoint)
  have c1: "t_cstate ?s1 = t_cstate (mv_db acc)" by (simp add: repoint_contributor_def)
  have "touches aid ?s1 (set_state (cs_id cs) NeedsReview ?resp ?s1)"
    by (rule touches_set_state) (use assms c1 touches_schema_ok[OF t1] in simp_all)
  then show ?thesis
    using touches_trans[OF t1] c1
    by (intro exI[of _ ?resp])
      (auto simp: move_changed_def Let_def move_writes_def set_state_def repoint_contributor_def)
qed

definition in_claim :: "baseline_control option \<Rightarrow> string \<Rightarrow> bool" where
  "in_claim bc key \<longleftrightarrow> (\<exists>b. bc = Some b \<and> key \<in> set (bc_objectives b))"

text \<open>The two versions say different things about an objective: only one of them claims it, or
  they classify its control differently.\<close>

definition claim_differs :: "move_env \<Rightarrow> uuid \<Rightarrow> string \<Rightarrow> bool" where
  "claim_differs env ctrl key \<longleftrightarrow>
     in_claim (me_old env ctrl) key \<noteq> in_claim (me_new env ctrl) key \<or>
     (\<exists>b1 b2. me_old env ctrl = Some b1 \<and> me_new env ctrl = Some b2 \<and> bc_classification b1 \<noteq> bc_classification b2)"

lemma set_option_in_claim: "(\<exists>bc \<in> set_option o'. key \<in> set (bc_objectives bc)) \<longleftrightarrow> in_claim o' key"
  by (cases o') (auto simp: in_claim_def)

lemma move_state_eq:
  "move_state env ctrl key cs acc =
     (let current = me_contributors env (cs_id cs);
          this = find (\<lambda>(pid, _, _). pid = p_id (mc_product (me_ctx env))) current
      in if in_claim (me_old env ctrl) key \<and> \<not> in_claim (me_new env ctrl) key then
           (case this of None \<Rightarrow> acc | Some (_, row, _) \<Rightarrow> move_lost (me_ctx env) current row cs acc)
         else if \<not> in_claim (me_old env ctrl) key \<and> in_claim (me_new env ctrl) key then
           (case this of Some _ \<Rightarrow> acc
            | None \<Rightarrow> move_gained (me_ctx env) current ctrl (the (me_new env ctrl)) cs acc)
         else
           (case (this, me_old env ctrl, me_new env ctrl) of
              (Some (_, row, _), Some old_bc, Some new_bc) \<Rightarrow>
                if bc_classification old_bc \<noteq> bc_classification new_bc
                then move_changed (me_ctx env) current row ctrl new_bc cs acc else acc
            | _ \<Rightarrow> acc))"
  unfolding move_state_def set_option_in_claim Let_def by (rule refl)

lemma move_state_cases:
  assumes cs: "get_state (cs_id cs) (mv_db acc) = Some cs" "cs_assessment_id cs = aid" "schema_ok (mv_db acc)"
  shows "move_state env ctrl key cs acc = acc \<or>
    (claim_differs env ctrl key \<and> (\<exists>st resp. move_writes cs st resp acc (move_state env ctrl key cs acc) \<and>
       touches aid (mv_db acc) (mv_db (move_state env ctrl key cs acc))))"
proof -
  let ?current = "me_contributors env (cs_id cs)"
  let ?mine = "find (\<lambda>(pid, _, _). pid = p_id (mc_product (me_ctx env))) ?current"
  consider (lost) "in_claim (me_old env ctrl) key" "\<not> in_claim (me_new env ctrl) key"
    | (gained) "\<not> in_claim (me_old env ctrl) key" "in_claim (me_new env ctrl) key"
    | (both) "in_claim (me_old env ctrl) key = in_claim (me_new env ctrl) key" by blast
  then show ?thesis
  proof cases
    case lost
    show ?thesis
    proof (cases ?mine)
      case None
      then show ?thesis using lost by (simp add: move_state_eq Let_def)
    next
      case (Some t)
      obtain a row b where t: "t = (a, row, b)" by (cases t) auto
      have "move_state env ctrl key cs acc = move_lost (me_ctx env) ?current row cs acc"
        using lost Some t by (simp add: move_state_eq Let_def)
      then show ?thesis using move_lost_writes[OF cs] lost by (metis claim_differs_def)
    qed
  next
    case gained
    show ?thesis
    proof (cases ?mine)
      case (Some t)
      then show ?thesis using gained by (simp add: move_state_eq Let_def)
    next
      case None
      have "move_state env ctrl key cs acc = move_gained (me_ctx env) ?current ctrl (the (me_new env ctrl)) cs acc"
        using gained None by (simp add: move_state_eq Let_def)
      then show ?thesis using move_gained_writes[OF cs] gained by (metis claim_differs_def)
    qed
  next
    case both
    show ?thesis
    proof (cases "\<exists>a row b b1 b2. ?mine = Some (a, row, b) \<and> me_old env ctrl = Some b1 \<and> me_new env ctrl = Some b2 \<and>
        bc_classification b1 \<noteq> bc_classification b2")
      case True
      then obtain a row b b1 b2 where d: "?mine = Some (a, row, b)" "me_old env ctrl = Some b1"
        "me_new env ctrl = Some b2" "bc_classification b1 \<noteq> bc_classification b2" by blast
      have "move_state env ctrl key cs acc = move_changed (me_ctx env) ?current row ctrl b2 cs acc"
        using both d by (simp add: move_state_eq Let_def)
      moreover have "claim_differs env ctrl key" using d by (simp add: claim_differs_def)
      ultimately show ?thesis using move_changed_writes[OF cs] by metis
    next
      case False
      then have "move_state env ctrl key cs acc = acc"
        using both by (auto simp: move_state_eq Let_def split: option.split)
      then show ?thesis by blast
    qed
  qed
qed

subsection \<open>The loop\<close>

definition move_inv :: "move_env \<Rightarrow> db \<Rightarrow> move_acc \<Rightarrow> bool" where
  "move_inv env s acc \<longleftrightarrow>
     touches (mc_assessment (me_ctx env)) s (mv_db acc) \<and>
     accounted s (mv_db acc) (mv_history acc) \<and>
     fst ` set (mv_history acc) \<subseteq> cs_id ` set (t_cstate (mv_db acc)) \<and>
     t_link (mv_db acc) = t_link s \<and> t_task (mv_db acc) = t_task s \<and>
     t_tasklink (mv_db acc) = t_tasklink s \<and> t_history (mv_db acc) = t_history s \<and>
     modest s (mv_db acc) \<and>
     (\<forall>r \<in> set (mv_reviewed acc). \<exists>cs'. get_state (rw_state_id r) (mv_db acc) = Some cs' \<and>
        cs_status cs' = NeedsReview) \<and>
     (\<forall>r \<in> set (mv_reviewed acc). \<exists>name key. me_lookup env (name, key) = Some (rw_objective_id r)) \<and>
     (\<forall>i cs cs'. get_state i s = Some cs \<longrightarrow> get_state i (mv_db acc) = Some cs' \<longrightarrow>
        cs_status cs' = NeedsReview \<longrightarrow> cs_status cs \<noteq> NeedsReview \<longrightarrow> i \<in> rw_state_id ` set (mv_reviewed acc)) \<and>
     (\<forall>e \<in> set (mv_history acc). \<exists>ctrl name key obj. me_names env ctrl = Some name \<and>
        me_lookup env (name, key) = Some obj \<and> me_states env obj = Some (fst e) \<and> claim_differs env ctrl key)"

lemma contributor_added_review:
  "contributor_added_status st False None = st"
  "contributor_added_status NeedsReview b None = NeedsReview"
  "\<not> is_judgement_in_question st True \<Longrightarrow> contributor_added_status st True None = NeedsReview \<Longrightarrow> st = NeedsReview"
  by (auto simp: contributor_added_status_def is_judgement_in_question_def split: if_splits)

lemma move_inv_writes:
  assumes inv: "move_inv env s acc" and cs: "get_state (cs_id cs) (mv_db acc) = Some cs"
    and w: "move_writes cs st resp acc acc'" and t: "touches (mc_assessment (me_ctx env)) (mv_db acc) (mv_db acc')"
    and why: "me_names env ctrl = Some name" "me_lookup env (name, key) = Some obj"
      "me_states env obj = Some (cs_id cs)" "claim_differs env ctrl key" "cs_objective_id cs = obj"
  shows "move_inv env s acc'"
proof -
  have g: "get_state i (mv_db acc') =
      (if i = cs_id cs then Some (cs\<lparr>cs_status := st, cs_responsibility := resp\<rparr>) else get_state i (mv_db acc))" for i
    using w cs unfolding move_writes_def by (simp add: get_set_state)
  obtain r where h: "mv_history acc' = mv_history acc @ [(cs_id cs, cs_status cs, st, cs_responsibility cs, resp, r)]"
    using w unfolding move_writes_def by blast
  have tt: "touches (mc_assessment (me_ctx env)) s (mv_db acc')"
    using inv t touches_trans unfolding move_inv_def by blast
  have acc: "accounted s (mv_db acc) (mv_history acc)" using inv by (simp add: move_inv_def)
  have "accounted s (mv_db acc') (mv_history acc')"
    unfolding accounted_def
  proof (intro allI impI)
    fix i cs' assume c: "get_state i (mv_db acc') = Some cs'"
    show "\<exists>c0. get_state i s = Some c0 \<and>
        verdict cs' = (case last_entry i (mv_history acc') of Some e \<Rightarrow> entry_verdict e | None \<Rightarrow> verdict c0)"
    proof (cases "i = cs_id cs")
      case True
      obtain c0 where "get_state i s = Some c0" using acc cs True unfolding accounted_def by blast
      then show ?thesis using c True by (simp add: h last_entry_snoc g verdict_def[abs_def] split: if_splits) (auto simp: verdict_def)
    next
      case False
      then have "get_state i (mv_db acc) = Some cs'" using c by (simp add: g)
      then show ?thesis using acc False unfolding accounted_def h by (simp add: last_entry_snoc)
    qed
  qed
  moreover have "fst ` set (mv_history acc') \<subseteq> cs_id ` set (t_cstate (mv_db acc'))"
  proof -
    have same: "cs_id ` set (t_cstate (mv_db acc')) = cs_id ` set (t_cstate (mv_db acc))"
    proof -
      have "map cs_id (t_cstate (mv_db acc')) = map cs_id (t_cstate (mv_db acc))"
        using w map_set_state[of cs_id] unfolding move_writes_def by simp
      then show ?thesis by (metis set_map)
    qed
    have "cs_id cs \<in> cs_id ` set (t_cstate (mv_db acc))" using tget_SomeD[OF cs] by blast
    then show ?thesis using inv unfolding h same move_inv_def by simp
  qed
  moreover have "\<forall>r \<in> set (mv_reviewed acc'). \<exists>cs'. get_state (rw_state_id r) (mv_db acc') = Some cs' \<and>
        cs_status cs' = NeedsReview"
  proof
    fix r assume r: "r \<in> set (mv_reviewed acc')"
    show "\<exists>cs'. get_state (rw_state_id r) (mv_db acc') = Some cs' \<and> cs_status cs' = NeedsReview"
    proof (cases "r \<in> set (mv_reviewed acc)")
      case True
      then obtain c where c: "get_state (rw_state_id r) (mv_db acc) = Some c" "cs_status c = NeedsReview"
        using inv unfolding move_inv_def by blast
      show ?thesis
      proof (cases "rw_state_id r = cs_id cs")
        case True
        then have "cs_status cs = NeedsReview" using c cs by simp
        then have "st = NeedsReview" using w contributor_added_review(2) unfolding move_writes_def by metis
        then show ?thesis using True by (simp add: g)
      next
        case False
        then show ?thesis using c by (simp add: g)
      qed
    next
      case False
      then obtain why still where "mv_reviewed acc' = mv_reviewed acc @ [reviewed_of cs why still]" "st = NeedsReview"
        using w r unfolding move_writes_def by metis
      then show ?thesis using r False by (auto simp: g reviewed_of_def)
    qed
  qed
  moreover have "i \<in> rw_state_id ` set (mv_reviewed acc')"
    if i: "get_state i s = Some c0" "get_state i (mv_db acc') = Some cs'"
      "cs_status cs' = NeedsReview" "cs_status c0 \<noteq> NeedsReview" for i c0 cs'
  proof -
    have old: "j \<in> rw_state_id ` set (mv_reviewed acc)"
      if "get_state j s = Some c0" "get_state j (mv_db acc) = Some c1" "cs_status c1 = NeedsReview" for j c1
      using inv that i(4) unfolding move_inv_def by blast
    have sub: "set (mv_reviewed acc) \<subseteq> set (mv_reviewed acc')" using w unfolding move_writes_def by auto
    show ?thesis
    proof (cases "i = cs_id cs")
      case False
      then have "get_state i (mv_db acc) = Some cs'" using i(2) by (simp add: g)
      then have "i \<in> rw_state_id ` set (mv_reviewed acc)" by (rule old[OF i(1) _ i(3)])
      then show ?thesis by (rule subsetD[OF image_mono[OF sub]])
    next
      case True
      then have st: "st = NeedsReview" using i(2,3) by (auto simp: g)
      show ?thesis
      proof (cases "mv_reviewed acc' = mv_reviewed acc")
        case same: True
        then have "cs_status cs = NeedsReview"
          using w st contributor_added_review unfolding move_writes_def by metis
        then show ?thesis using old[of i cs] i(1) cs True same by simp
      next
        case False
        then obtain why still where "mv_reviewed acc' = mv_reviewed acc @ [reviewed_of cs why still]"
          using w unfolding move_writes_def by blast
        then show ?thesis using True by (simp add: reviewed_of_def)
      qed
    qed
  qed
  moreover have "\<forall>e \<in> set (mv_history acc'). \<exists>ctrl name key obj. me_names env ctrl = Some name \<and>
        me_lookup env (name, key) = Some obj \<and> me_states env obj = Some (fst e) \<and> claim_differs env ctrl key"
    using inv why unfolding h move_inv_def by auto
  moreover have "\<forall>r \<in> set (mv_reviewed acc'). \<exists>name key. me_lookup env (name, key) = Some (rw_objective_id r)"
  proof
    fix r assume "r \<in> set (mv_reviewed acc')"
    then consider "r \<in> set (mv_reviewed acc)" | "rw_objective_id r = cs_objective_id cs"
      using w unfolding move_writes_def by (auto simp: reviewed_of_def)
    then show "\<exists>name key. me_lookup env (name, key) = Some (rw_objective_id r)"
      using inv why unfolding move_inv_def by cases auto
  qed
  moreover have "modest s (mv_db acc')"
  proof -
    have "st = NeedsReview \<or> (\<exists>b. st = contributor_added_status (cs_status cs) b None)"
      using w unfolding move_writes_def by blast
    then have keep: "cs_status cs = st" if "st \<in> set JUDGED_STATUSES"
      using contributor_added_modest that not_judged(1) by metis
    have "modest (mv_db acc) (mv_db acc')"
    proof (rule modestI)
      fix i cs' assume "get_state i (mv_db acc') = Some cs'" "cs_status cs' \<in> set JUDGED_STATUSES"
      then show "\<exists>c0. get_state i (mv_db acc) = Some c0 \<and> cs_status c0 = cs_status cs'"
        using cs keep by (cases "i = cs_id cs") (auto simp: g)
    qed
    then show ?thesis using inv modest_trans unfolding move_inv_def by blast
  qed
  ultimately show ?thesis
    using inv w tt unfolding move_inv_def move_writes_def by auto
qed

lemma move_env_ok_touches: "move_env_ok env s \<Longrightarrow> touches aid s s' \<Longrightarrow> move_env_ok env s'"
  unfolding move_env_ok_def
proof (intro allI impI)
  fix obj i
  assume ok: "\<forall>obj i. me_states env obj = Some i \<longrightarrow>
     (\<exists>cs. get_state i s = Some cs \<and> cs_assessment_id cs = mc_assessment (me_ctx env) \<and> cs_objective_id cs = obj)"
    and t: "touches aid s s'" and e: "me_states env obj = Some i"
  obtain cs where cs: "get_state i s = Some cs" "cs_assessment_id cs = mc_assessment (me_ctx env)"
    "cs_objective_id cs = obj" using ok e by blast
  have "map_option state_key (get_state i s') = Some (state_key cs)"
    using touches_get_state[OF t, of i] cs(1) by simp
  then show "\<exists>cs. get_state i s' = Some cs \<and> cs_assessment_id cs = mc_assessment (me_ctx env) \<and> cs_objective_id cs = obj"
    using cs by (auto simp: state_key_def)
qed

lemma move_inv_objective:
  assumes inv: "move_inv env s acc" and env: "move_env_ok env s" and ok: "schema_ok s"
    and name: "me_names env ctrl = Some name"
  shows "move_inv env s (move_objective env ctrl name acc key)"
proof -
  have t: "touches (mc_assessment (me_ctx env)) s (mv_db acc)" using inv by (simp add: move_inv_def)
  have ok': "schema_ok (mv_db acc)" by (rule touches_schema_ok[OF t ok])
  have env': "move_env_ok env (mv_db acc)" by (rule move_env_ok_touches[OF env t])
  show ?thesis
  proof (cases "me_lookup env (name, key)")
    case None
    then show ?thesis using inv by (simp add: move_objective_def)
  next
    case (Some obj)
    note obj = this
    show ?thesis
    proof (cases "me_states env obj")
      case None
      then show ?thesis using inv obj by (simp add: move_objective_def)
    next
      case (Some i)
      obtain cs where cs: "get_state i (mv_db acc) = Some cs" "cs_assessment_id cs = mc_assessment (me_ctx env)"
        "cs_objective_id cs = obj"
        using env' Some unfolding move_env_ok_def by blast
      have id: "cs_id cs = i" by (rule get_state_id[OF cs(1)])
      have eq: "move_objective env ctrl name acc key = move_state env ctrl key cs acc"
        using obj Some cs(1) by (simp add: move_objective_def)
      have hd: "get_state (cs_id cs) (mv_db acc) = Some cs" using cs(1) id by simp
      from move_state_cases[OF hd cs(2) ok', of env ctrl key] consider "move_state env ctrl key cs acc = acc"
        | st resp where "claim_differs env ctrl key" "move_writes cs st resp acc (move_state env ctrl key cs acc)"
          "touches (mc_assessment (me_ctx env)) (mv_db acc) (mv_db (move_state env ctrl key cs acc))" by blast
      then show ?thesis
      proof cases
        case 1
        show ?thesis unfolding eq 1 by (rule inv)
      next
        case 2
        show ?thesis unfolding eq
          by (rule move_inv_writes[OF inv hd 2(2,3) name obj _ 2(1) cs(3)]) (simp add: id Some)
      qed
    qed
  qed
qed

lemma move_inv_states:
  assumes env: "move_env_ok env s" and ok: "schema_ok s"
  shows "move_inv env s (move_states env ctrls s)"
proof -
  have start: "move_inv env s (move_acc0 s)"
    by (simp add: move_inv_def move_acc0_def accounted_def last_entry_def modest_same)
  have ctrl: "move_inv env s (move_control env acc ctrl)" if inv: "move_inv env s acc" for acc ctrl
  proof (cases "me_names env ctrl")
    case None
    then show ?thesis using inv by (simp add: move_control_def)
  next
    case (Some name)
    show ?thesis
      unfolding move_control_def option.case Some
      by (rule foldl_inv[where P = "move_inv env s", OF inv]) (rule move_inv_objective[OF _ env ok Some])
  qed
  show ?thesis unfolding move_states_def
    by (rule foldl_inv[where P = "move_inv env s", OF start]) (rule ctrl)
qed

subsection \<open>The operation\<close>

definition move_claims :: "org_product \<Rightarrow> uuid \<Rightarrow> db \<Rightarrow> uuid list" where
  "move_claims op target s =
     remdups (map fst (claimed (op_version_id op) s) @ map fst (claimed (Some target) s))"

definition move_env_at :: "move_ctx \<Rightarrow> org_product \<Rightarrow> uuid \<Rightarrow> db \<Rightarrow> move_env" where
  "move_env_at c op target s =
     move_env_of c (claimed (op_version_id op) s) (claimed (Some target) s) (move_claims op target s) s"

lemma move_env_at_ok: "schema_ok s \<Longrightarrow> move_env_ok (move_env_at c op target s) s"
  unfolding move_env_ok_def move_env_at_def move_env_of_def
  by (auto elim!: states_by_objective_Some)

lemma move_env_at_ctx [simp]: "me_ctx (move_env_at c op target s) = c"
  by (simp add: move_env_at_def move_env_of_def)

lemma log_move_state_frame [simp]:
  "t_cstate (log_move_state c s h) = t_cstate s" "t_history (log_move_state c s h) = t_history s"
  "t_link (log_move_state c s h) = t_link s" "t_task (log_move_state c s h) = t_task s"
  "t_tasklink (log_move_state c s h) = t_tasklink s" "t_contrib (log_move_state c s h) = t_contrib s"
  "t_orgproduct (log_move_state c s h) = t_orgproduct s"
  by (cases h; simp add: log_move_state_def)+

lemma touches_log_move_state: "touches aid s (log_move_state c s h)"
  by (cases h) (simp add: log_move_state_def)

lemma repin_id [simp]:
  "op_id (repin v op) = op_id op" "op_org_id (repin v op) = op_org_id op"
  "op_product_id (repin v op) = op_product_id op"
  by (simp_all add: repin_def)

lemma add_contributors_frame:
  assumes "add_contributors p rows s = Inr s'"
  shows "t_cstate s' = t_cstate s" "t_history s' = t_history s" "t_link s' = t_link s" "t_task s' = t_task s"
    "t_tasklink s' = t_tasklink s" "t_orgproduct s' = t_orgproduct s"
  using add_contributors_InrD[OF assms] by simp_all

text \<open>What \<open>apply_move\<close> leaves: \<open>acc\<close> is the loop's result.\<close>

definition moved :: "uuid \<Rightarrow> db \<Rightarrow> move_acc \<Rightarrow> move_result \<Rightarrow> db \<Rightarrow> bool" where
  "moved aid s acc res s' \<longleftrightarrow>
     t_cstate s' = t_cstate (mv_db acc) \<and> t_link s' = t_link s \<and>
     (\<exists>tasks links. t_task s' = t_task s @ tasks \<and> t_tasklink s' = t_tasklink s @ links \<and>
        length tasks = mr_tasks res) \<and>
     mr_gained res = mv_gained acc \<and> mr_lost res = mv_lost acc \<and> mr_changed res = mv_changed acc"

lemma apply_move_facts:
  assumes ok: "schema_ok s" and run: "apply_move c op target s = Inr (res, s')"
  defines "acc \<equiv> move_states (move_env_at c op target s) (move_claims op target s) s"
  obtains u where "touches (mc_assessment c) s u" "logs s u" "s' = snd (recompute_sprs (mc_assessment c) u)"
    "moved (mc_assessment c) s acc res s'"
    "mr_needs_review res = sort_key (\<lambda>r. (nr_control_id r, nr_objective_key r))
       (List.map_filter (describe_reviewed (me_names (move_env_at c op target s))
          (objectives_of (move_claims op target s) s)) (mv_reviewed acc))"
proof -
  let ?env = "move_env_at c op target s" and ?aid = "mc_assessment c"
  have inv: "move_inv ?env s acc" unfolding acc_def by (rule move_inv_states[OF move_env_at_ok[OF ok] ok])
  let ?del = "delete_contributors (mv_delete acc) (mv_db acc)"
  have eqn: "(Inr (res, s') :: engine_error + move_result \<times> db) =
      (case add_contributors (p_id (mc_product c)) (mv_new acc) ?del of
           Inl e \<Rightarrow> Inl e
         | Inr s1 \<Rightarrow>
             let s2 = foldl (log_move_state c) (add_history (mv_history acc) s1) (mv_history acc);
                 s3 = log_move c (op_id op) (op_version_id op) target
                        (update_org_product (op_id op) (repin target) s2);
                 (tasks_created, s4) =
                   (if mv_fanout acc = [] then (0, s3)
                    else fanout_evidence_tasks (mc_org c) (mc_assessment c) (mc_product c)
                           (map snd (mv_fanout acc)) (me_names ?env) (me_lookup ?env) (me_states ?env) s3);
                 (_, s5) = recompute_sprs (mc_assessment c) s4;
                 set_to_needs_review =
                   List.map_filter (describe_reviewed (me_names ?env) (objectives_of (move_claims op target s) s))
                     (mv_reviewed acc)
             in Inr (\<lparr>mr_gained = mv_gained acc, mr_lost = mv_lost acc, mr_changed = mv_changed acc,
                      mr_tasks = tasks_created, mr_from = mc_from c, mr_to = mc_to c,
                      mr_needs_review =
                        sort_key (\<lambda>r. (nr_control_id r, nr_objective_key r)) set_to_needs_review\<rparr>, s5))"
    using run unfolding apply_move_def acc_def move_env_at_def move_claims_def Let_def by (rule sym)
  obtain s1 where s1: "add_contributors (p_id (mc_product c)) (mv_new acc) ?del = Inr s1"
    using eqn by (cases "add_contributors (p_id (mc_product c)) (mv_new acc) ?del") auto
  let ?s2 = "foldl (log_move_state c) (add_history (mv_history acc) s1) (mv_history acc)"
  let ?s3 = "log_move c (op_id op) (op_version_id op) target (update_org_product (op_id op) (repin target) ?s2)"
  obtain n s4 where s4: "(if mv_fanout acc = [] then (0, ?s3)
      else fanout_evidence_tasks (mc_org c) (mc_assessment c) (mc_product c)
             (map snd (mv_fanout acc)) (me_names ?env) (me_lookup ?env) (me_states ?env) ?s3) = (n, s4)"
    by (metis surj_pair)
  have res: "res = \<lparr>mr_gained = mv_gained acc, mr_lost = mv_lost acc, mr_changed = mv_changed acc,
        mr_tasks = n, mr_from = mc_from c, mr_to = mc_to c,
        mr_needs_review = sort_key (\<lambda>r. (nr_control_id r, nr_objective_key r))
          (List.map_filter (describe_reviewed (me_names ?env) (objectives_of (move_claims op target s) s))
             (mv_reviewed acc))\<rparr>"
    and s': "s' = snd (recompute_sprs ?aid s4)"
    using eqn unfolding s1 sum.case Let_def s4 case_prod_conv by (simp_all add: case_prod_unfold)
  have t0: "touches ?aid s (mv_db acc)" using inv by (simp add: move_inv_def)
  have t1: "touches ?aid (mv_db acc) s1"
    by (rule touches_trans[OF touches_delete_contributors touches_contrib_new[OF s1]])
  have t2: "touches ?aid s1 ?s2"
    by (rule touches_trans[OF touches_add_history touches_foldl]) (rule touches_log_move_state)
  have t3: "touches ?aid ?s2 ?s3" unfolding log_move_def
    by (rule touches_trans[OF touches_update_org_product touches_log_event]) simp_all
  have t03: "touches ?aid s ?s3" by (rule touches_trans[OF t0 touches_trans[OF t1 touches_trans[OF t2 t3]]])
  have ok3: "schema_ok ?s3" by (rule touches_schema_ok[OF t03 ok])
  have fr: "t_cstate ?s3 = t_cstate (mv_db acc)" "t_link ?s3 = t_link s" "t_task ?s3 = t_task s"
    "t_tasklink ?s3 = t_tasklink s"
    "t_history ?s3 = t_history s @ insert_rows mk_history (next_id s1) (mv_history acc)"
    using inv unfolding log_move_def log_event_frame
    by (simp_all add: update_org_product_def add_contributors_frame[OF s1] delete_contributors_def
        foldl_same[where f = "log_move_state c"] move_inv_def)
  have s4t: "touches ?aid ?s3 s4 \<and> fan_rest ?s3 s4"
  proof (cases "mv_fanout acc = []")
    case True
    then show ?thesis using s4 by simp
  next
    case False
    then show ?thesis using s4 touches_fanout[OF ok3] by simp
  qed
  have rest: "fan_rest ?s3 s4" using s4t by blast
  obtain tasks links where tl: "t_task s4 = t_task s @ tasks" "t_tasklink s4 = t_tasklink s @ links" "length tasks = n"
  proof (cases "mv_fanout acc = []")
    case True
    then show ?thesis using that[of "[]" "[]"] s4 fr by simp
  next
    case False
    then show ?thesis using that s4 fr fanout_adds[OF ok3] by fastforce
  qed
  have m: "moved ?aid s acc res s'"
    unfolding moved_def s' recompute_frame fan_rest_frame[OF rest] fr res
    using tl by simp
  have t04: "touches ?aid s s4" using touches_trans[OF t03] s4t by blast
  have ids: "cs_id ` set (t_cstate s4) = cs_id ` set (t_cstate s)"
  proof -
    have "map state_key (t_cstate s4) = map state_key (t_cstate s)"
      using t04 unfolding touches_def by (blast dest: same_but_keys)
    then have "map (fst \<circ> state_key) (t_cstate s4) = map (fst \<circ> state_key) (t_cstate s)" by (metis map_map)
    moreover have "fst \<circ> state_key = cs_id" by (auto simp: state_key_def)
    ultimately show ?thesis by (metis set_map)
  qed
  have "logs s s4"
  proof (rule accounted_logs[of s s4 "mv_history acc"])
    show "accounted s s4 (mv_history acc)"
      using inv unfolding accounted_def fan_rest_frame[OF rest] fr move_inv_def by simp
    show "fst ` set (mv_history acc) \<subseteq> cs_id ` set (t_cstate s4)"
      using inv unfolding fan_rest_frame[OF rest] fr move_inv_def by simp
    show "cs_id ` set (t_cstate s) \<subseteq> cs_id ` set (t_cstate s4)" by (simp add: ids)
    show "t_history s4 = t_history s @ insert_rows mk_history (next_id s1) (mv_history acc)"
      unfolding fan_rest_frame[OF rest] fr by (rule refl)
  qed
  then show ?thesis using that[OF t04 _ s' m] by (simp add: res)
qed

lemma move_InrD:
  assumes "move_org_product_version org_id pid aid target s = Inr (res, s')"
  obtains op product c where "find_org_product org_id pid s = Some op" "op_status op = Active"
    "get_product pid s = Some product" "mc_org c = org_id" "mc_product c = product" "mc_assessment c = aid"
    "apply_move c op target s = Inr (res, s')"
proof -
  obtain op where op: "find_org_product org_id pid s = Some op"
    using assms by (auto simp: move_org_product_version_def split: option.splits)
  have act: "op_status op = Active" "op_version_id op \<noteq> Some target"
    using assms op by (auto simp: move_org_product_version_def split: if_splits)
  obtain v where v: "get_version target s = Some v" "bv_product_id v = pid"
    using assms op act by (auto simp: move_org_product_version_def split: option.splits if_splits)
  obtain product where p: "get_product pid s = Some product"
    using assms op act v by (auto simp: move_org_product_version_def split: option.splits)
  let ?c = "\<lparr>mc_org = org_id, mc_product = product, mc_assessment = aid,
    mc_from = (case op_version_id op of None \<Rightarrow> None | Some v \<Rightarrow> map_option bv_number (get_version v s)),
    mc_to = bv_number v\<rparr>"
  have "apply_move ?c op target s = Inr (res, s')"
    using assms op act v p by (simp add: move_org_product_version_def Let_def)
  then show ?thesis using that[OF op act(1) p, of ?c] by simp
qed

lemma move_engine_ok:
  assumes ok: "engine_ok s" and run: "move_org_product_version org_id pid aid target s = Inr (res, s')"
  shows "engine_ok s' \<and> append_only s s' \<and> catalog_eq s s'"
proof -
  have sok: "schema_ok s" using ok by (simp add: engine_ok_def)
  from move_InrD[OF run] obtain op c where a: "apply_move c op target s = Inr (res, s')" by metis
  from apply_move_facts[OF sok a] obtain u where
    u: "touches (mc_assessment c) s u" "logs s u" "s' = snd (recompute_sprs (mc_assessment c) u)" by metis
  have "append_only s u" "catalog_eq s u" using u(1) by (simp_all add: touches_def)
  then show ?thesis
    using engine_ok_after[OF ok u(1,2)] append_only_trans[OF _ append_only_recompute]
      catalog_eq_trans[OF _ recompute_frame(19)] unfolding u(3) by blast
qed

end
