(* ===== verification/Lifecycle_Facts.thy ===== *)
theory Lifecycle_Facts
  imports Lifecycle Move_Facts
begin

section \<open>What the life-cycle operations do\<close>

subsection \<open>Seeding states\<close>

definition obj_at :: "uuid \<Rightarrow> db \<Rightarrow> uuid set" where
  "obj_at aid s = cs_objective_id ` {cs \<in> set (t_cstate s). cs_assessment_id cs = aid}"

lemma add_states_frame [simp]:
  "t_assessment (add_states o' aid obs s) = t_assessment s" "t_objective (add_states o' aid obs s) = t_objective s"
  "t_control (add_states o' aid obs s) = t_control s" "t_history (add_states o' aid obs s) = t_history s"
  "t_orgproduct (add_states o' aid obs s) = t_orgproduct s"
  "t_cstate (add_states o' aid obs s) =
     t_cstate s @ insert_rows (mk_state o' aid) (next_id s) obs"
  "next_id (add_states o' aid obs s) = next_id s + length obs"
  "catalog_eq s (add_states o' aid obs s)" "append_only s (add_states o' aid obs s)"
  by (simp_all add: add_states_def catalog_eq_def append_only_def)

lemma insert_states:
  "cs \<in> set (insert_rows (mk_state o' aid) n obs) \<Longrightarrow>
     cs_assessment_id cs = aid \<and> verdict cs = (NotMet, CustomerOwns) \<and> n \<le> cs_id cs \<and>
     cs_org_id cs = o' \<and> cs_objective_id cs \<in> ob_id ` set obs"
  by (drule set_insert_rows) (auto simp: mk_state_def verdict_def)

lemma states_ok_add:
  assumes ok: "states_ok (next_id s) (t_cstate s)" and d: "distinct (map ob_id obs)"
    and new: "ob_id ` set obs \<inter> obj_at aid s = {}"
  shows "states_ok (next_id s + length obs) (t_cstate s @ insert_rows (mk_state o' aid) (next_id s) obs)"
proof -
  let ?new = "insert_rows (mk_state o' aid) (next_id s) obs"
  have pk: "pk_ok cs_id (next_id s + length obs) (t_cstate s @ ?new)"
    using ok by (intro pk_ok_insert_rows) (simp_all add: states_ok_def mk_state_def)
  have keys: "map (\<lambda>r. (cs_assessment_id r, cs_objective_id r)) ?new = map (\<lambda>ob. (aid, ob_id ob)) obs"
    by (rule map_insert_rows) (simp add: mk_state_def)
  have "distinct (map (\<lambda>ob. (aid, ob_id ob)) obs)"
    using d by (auto simp: distinct_map inj_on_def)
  moreover have "(\<lambda>r. (cs_assessment_id r, cs_objective_id r)) ` set (t_cstate s) \<inter>
      (\<lambda>ob. (aid, ob_id ob)) ` set obs = {}"
    using new by (auto simp: obj_at_def)
  ultimately have "distinct (map (\<lambda>r. (cs_assessment_id r, cs_objective_id r)) (t_cstate s @ ?new))"
    using ok unfolding map_append distinct_append keys states_ok_def by (simp add: image_image)
  then show ?thesis using pk by (simp add: states_ok_def)
qed

lemma schema_ok_add_states:
  assumes "schema_ok s" "distinct (map ob_id obs)" "ob_id ` set obs \<inter> obj_at aid s = {}"
  shows "schema_ok (add_states o' aid obs s)"
proof -
  have "states_ok (next_id s + length obs) (t_cstate s @ insert_rows (mk_state o' aid) (next_id s) obs)"
    using assms by (intro states_ok_add) (simp_all add: schema_ok_def)
  then show ?thesis
    using assms(1) unfolding schema_ok_def add_states_def
    by (auto intro: catalog_ok_mono[of s] contribs_ok_mono org_products_ok_mono links_ok_mono
        task_links_ok_mono pk_ok_mono simp: catalog_eq_def)
qed

lemma logs_add_states:
  assumes "schema_ok s" "schema_ok (add_states o' aid obs s)"
  shows "logs s (add_states o' aid obs s)"
proof -
  let ?s' = "add_states o' aid obs s" and ?new = "insert_rows (mk_state o' aid) (next_id s) obs"
  have "verdict cs' = (case get_state i s of None \<Rightarrow> (NotMet, CustomerOwns) | Some cs \<Rightarrow> verdict cs)"
    if c: "get_state i ?s' = Some cs'" for i cs'
  proof (cases "get_state i s")
    case (Some cs)
    then have "get_state i ?s' = Some cs" by (simp add: tget_append)
    then show ?thesis using c Some by simp
  next
    case None
    then have "tget cs_id i ?new = Some cs'" using c by (simp add: tget_append)
    then have "cs' \<in> set ?new" by (auto dest: tget_SomeD)
    then show ?thesis using None insert_states by simp
  qed
  then show ?thesis unfolding logs_def by (intro exI[of _ "[]"]) auto
qed

lemma sprs_of_add_states:
  assumes "aid' \<noteq> aid"
  shows "sprs_of aid' (add_states o' aid obs s) = sprs_of aid' s"
proof -
  have no: "filter (\<lambda>cs. cs_assessment_id cs = aid') (insert_rows (mk_state o' aid) (next_id s) obs) = []"
    using assms by (auto simp: filter_empty_conv dest!: insert_states)
  have "scoring_rows aid' (add_states o' aid obs s) = scoring_rows aid' s"
    unfolding scoring_rows_def add_states_frame filter_append no append_Nil2 by (rule refl)
  then show ?thesis by (simp add: sprs_of_def scoring_inputs_def)
qed

lemma engine_ok_but_add_states:
  assumes ok: "engine_ok_but aid s" and d: "distinct (map ob_id obs)"
    and new: "ob_id ` set obs \<inter> obj_at aid s = {}" and a: "aid \<in> a_id ` set (t_assessment s)"
  shows "engine_ok_but aid (add_states o' aid obs s)"
proof -
  let ?s' = "add_states o' aid obs s"
  have sok: "schema_ok s" using ok by (simp add: engine_ok_but_def)
  have sok': "schema_ok ?s'" by (rule schema_ok_add_states[OF sok d new])
  have "explained ?s'"
    using logs_explained[OF logs_add_states[OF sok sok'] _ sok sok'] ok by (simp add: engine_ok_but_def)
  moreover have "states_fk ?s'"
    using ok a by (auto simp: engine_ok_but_def states_fk_def dest!: insert_states)
  moreover have "\<forall>x \<in> set (t_assessment ?s'). a_id x \<noteq> aid \<longrightarrow> a_sprs_score x = Some (sprs_of (a_id x) ?s')"
    using ok sprs_of_add_states by (simp add: engine_ok_but_def)
  ultimately show ?thesis using sok' by (simp add: engine_ok_but_def)
qed

lemma framework_objectives_distinct:
  assumes "schema_ok s"
  shows "distinct (map ob_id (map fst (framework_objectives fw s)))"
proof -
  have "distinct (map ob_id (t_objective s))"
    using assms by (simp add: schema_ok_def catalog_ok_def pk_ok_def)
  then have "distinct (map ob_id (map fst (join_on (\<lambda>ob. get_control (ob_control_id ob) s) (t_objective s))))"
    unfolding join_on_keys by (rule distinct_map_filter)
  then show ?thesis
    unfolding framework_objectives_def map_map by (rule distinct_map_filter)
qed

subsection \<open>Starting\<close>

lemma start_product_ok:
  assumes "schema_ok s" "start_product org_id aid op s = Inr s'"
  shows "touches aid s s' \<and> logs s s'"
proof (cases "op_version_id op")
  case None
  then show ?thesis using assms(2) by (simp add: start_product_def logs_states)
next
  case (Some v)
  then obtain r s1 where "run_loop org_id (op_product_id op) v aid None ''start_assessment'' None s = Inr (r, s1)" "s' = s1"
    using assms(2) by (auto simp: start_product_def split: sum.splits)
  then show ?thesis using run_loop_logs[OF assms(1)] by blast
qed

lemma start_products_ok:
  assumes "schema_ok s" "foldres (start_product org_id aid) ops s = Inr s'"
  shows "touches aid s s' \<and> logs s s'"
proof -
  have "schema_ok s' \<and> touches aid s s' \<and> logs s s'"
  proof (rule foldres_inv[OF assms(2)])
    show "schema_ok s \<and> touches aid s s \<and> logs s s" using assms(1) by (simp add: logs_states)
    show "schema_ok u' \<and> touches aid s u' \<and> logs s u'"
      if "schema_ok u \<and> touches aid s u \<and> logs s u" "start_product org_id aid x u = Inr u'" for x u u'
    proof -
      have st: "touches aid u u' \<and> logs u u'" using start_product_ok that by blast
      then have "schema_ok u'" using that touches_schema_ok by blast
      then show ?thesis using st that touches_trans logs_trans by blast
    qed
  qed
  then show ?thesis by blast
qed

definition start_seeded :: "uuid \<Rightarrow> uuid \<Rightarrow> string \<Rightarrow> string \<Rightarrow> db \<Rightarrow> db" where
  "start_seeded org_id fw name ty s =
     seed_control_states org_id fw (next_id s)
       (s\<lparr>next_id := Suc (next_id s),
          t_assessment := t_assessment s @ [new_assessment (next_id s) org_id fw name ty (clock s)]\<rparr>)"

lemma start_InrD:
  assumes "start_assessment org_id fw name ty s = Inr (i, s')"
  obtains s3 ops where "i = next_id s" "foldres (start_product org_id i) ops (start_seeded org_id fw name ty s) = Inr s3"
    "s' = snd (recompute_sprs i s3)"
    "ops = filter (\<lambda>op. op_org_id op = org_id \<and> op_status op = Active \<and> op_configured op)
       (t_orgproduct (start_seeded org_id fw name ty s))"
  using assms unfolding start_assessment_def Let_def start_seeded_def[symmetric]
  by (auto split: sum.splits)

lemma engine_ok_start_seeded:
  assumes ok: "engine_ok s"
  shows "engine_ok_but (next_id s) (start_seeded org_id fw name ty s)"
    "append_only s (start_seeded org_id fw name ty s)" "catalog_eq s (start_seeded org_id fw name ty s)"
proof -
  let ?i = "next_id s" and ?new = "new_assessment (next_id s) org_id fw name ty (clock s)"
  let ?s1 = "s\<lparr>next_id := Suc (next_id s), t_assessment := t_assessment s @ [?new]\<rparr>"
  have sok: "schema_ok s" using ok by (simp add: engine_ok_def)
  have cat: "catalog_eq s ?s1" and app: "append_only s ?s1" by (simp_all add: catalog_eq_def append_only_def)
  have pk: "pk_ok a_id (Suc ?i) (t_assessment s @ [?new])"
    using sok by (intro pk_ok_snoc) (simp_all add: schema_ok_def new_assessment_def)
  have ok1: "schema_ok ?s1"
    using sok pk unfolding schema_ok_def
    by (auto intro: catalog_ok_mono[OF _ cat] states_ok_mono contribs_ok_mono org_products_ok_mono
        links_ok_mono task_links_ok_mono pk_ok_mono)
  have fk: "cs_assessment_id ` set (t_cstate s) \<subseteq> a_id ` set (t_assessment s)"
    using ok by (simp add: engine_ok_def states_fk_def)
  have fresh: "?i \<notin> a_id ` set (t_assessment s)" using sok by (auto simp: schema_ok_def pk_ok_def)
  have "cs_assessment_id cs \<noteq> ?i" if "cs \<in> set (t_cstate s)" for cs
    using subsetD[OF fk imageI[OF that]] fresh by metis
  then have none: "obj_at ?i ?s1 = {}" by (auto simp: obj_at_def)
  have sp: "sprs_of x ?s1 = sprs_of x s" for x by (rule sprs_of_cong) simp_all
  have b1: "engine_ok_but ?i ?s1"
    unfolding engine_ok_but_def
  proof (intro conjI ballI impI)
    show "states_fk ?s1" using fk by (auto simp: states_fk_def)
    show "explained ?s1" using ok by (simp add: engine_ok_def explained_def)
    show "a_sprs_score a = Some (sprs_of (a_id a) ?s1)" if "a \<in> set (t_assessment ?s1)" "a_id a \<noteq> ?i" for a
      using ok that unfolding sp by (auto simp: engine_ok_def all_scores_current_def new_assessment_def)
  qed (rule ok1)
  show "engine_ok_but ?i (start_seeded org_id fw name ty s)"
    unfolding start_seeded_def seed_control_states_def
  proof (rule engine_ok_but_add_states[OF b1 framework_objectives_distinct[OF ok1]])
    show "ob_id ` set (map fst (framework_objectives fw ?s1)) \<inter> obj_at ?i ?s1 = {}"
      unfolding none by (rule Int_empty_right)
    show "?i \<in> a_id ` set (t_assessment ?s1)" by (simp add: new_assessment_def)
  qed
  show "append_only s (start_seeded org_id fw name ty s)" "catalog_eq s (start_seeded org_id fw name ty s)"
    unfolding start_seeded_def seed_control_states_def
    using append_only_trans[OF app] catalog_eq_trans[OF cat] by simp_all
qed

lemma start_engine_ok:
  assumes ok: "engine_ok s" and run: "start_assessment org_id fw name ty s = Inr (i, s')"
  shows "engine_ok s' \<and> append_only s s' \<and> catalog_eq s s'"
proof -
  from run obtain s3 ops where i: "i = next_id s"
    and f: "foldres (start_product org_id i) ops (start_seeded org_id fw name ty s) = Inr s3"
    and s': "s' = snd (recompute_sprs i s3)" by (rule start_InrD)
  note s2 = engine_ok_start_seeded[OF ok, of org_id fw name ty, folded i]
  have t: "touches i (start_seeded org_id fw name ty s) s3 \<and> logs (start_seeded org_id fw name ty s) s3"
    by (rule start_products_ok[OF _ f]) (use s2(1) in \<open>simp add: engine_ok_but_def\<close>)
  have "engine_ok s'" unfolding s'
    by (rule engine_ok_recompute[OF engine_ok_but_touches[OF s2(1)]]) (use t in blast)+
  moreover have "append_only (start_seeded org_id fw name ty s) s3" "catalog_eq (start_seeded org_id fw name ty s) s3"
    using t by (simp_all add: touches_def)
  ultimately show ?thesis unfolding s'
    using s2(2,3) append_only_trans append_only_recompute catalog_eq_trans recompute_frame(19) by metis
qed

subsection \<open>Completing, reopening, carrying RACI\<close>

lemma update_assessment_engine_ok:
  assumes ok: "engine_ok s" and f: "\<And>a. a_id (f a) = a_id a" "\<And>a. a_sprs_score (f a) = a_sprs_score a"
  shows "engine_ok (update_assessment i f s) \<and> append_only s (update_assessment i f s) \<and>
    catalog_eq s (update_assessment i f s)"
proof -
  let ?s' = "update_assessment i f s"
  have ku: "keyed_update a_id f" by unfold_locales (rule f(1))
  have cat: "catalog_eq s ?s'" by (simp add: update_assessment_def catalog_eq_def)
  have sok: "schema_ok s" using ok by (simp add: engine_ok_def)
  have "pk_ok a_id (next_id s) (tupd a_id i f (t_assessment s))"
    using sok by (intro pk_ok_keys[OF keyed_update.keys_tupd[OF ku]]) (simp add: schema_ok_def)
  then have "schema_ok ?s'"
    using sok unfolding schema_ok_def update_assessment_def
    by (auto intro: catalog_ok_mono[of s] simp: catalog_eq_def)
  moreover have "map (\<lambda>a. (a_id a, a_sprs_score a)) (tupd a_id i f (t_assessment s)) =
      map (\<lambda>a. (a_id a, a_sprs_score a)) (t_assessment s)"
    by (rule keyed_update.map_tupd_other[OF ku]) (simp add: f)
  ultimately have "engine_ok ?s'"
    by (intro engine_ok_states[OF ok]) (simp_all add: update_assessment_def)
  then show ?thesis using cat by (simp add: append_only_def update_assessment_def)
qed

lemma complete_InrD:
  assumes "complete_assessment org_id aid s = Inr s'"
  obtains a where "get_assessment aid s = Some a" "a_org_id a = org_id" "a_status a = InProgress"
    "s' = update_assessment aid (\<lambda>r. r\<lparr>a_status := Submitted, a_submitted_at := Some (clock s)\<rparr>) s"
  using assms by (auto simp: complete_assessment_def split: option.splits if_splits)

lemma reopen_InrD:
  assumes "reopen_assessment org_id aid s = Inr s'"
  obtains a where "get_assessment aid s = Some a" "a_org_id a = org_id" "a_status a = Submitted"
    "s' = update_assessment aid (\<lambda>r. r\<lparr>a_status := InProgress, a_submitted_at := None\<rparr>) s"
  using assms by (auto simp: reopen_assessment_def split: option.splits if_splits)

lemma complete_engine_ok:
  assumes "engine_ok s" "complete_assessment org_id aid s = Inr s'"
  shows "engine_ok s' \<and> append_only s s' \<and> catalog_eq s s'"
  using assms(2) by (rule complete_InrD) (simp add: update_assessment_engine_ok[OF assms(1)])

lemma reopen_engine_ok:
  assumes "engine_ok s" "reopen_assessment org_id aid s = Inr s'"
  shows "engine_ok s' \<and> append_only s s' \<and> catalog_eq s s'"
  using assms(2) by (rule reopen_InrD) (simp add: update_assessment_engine_ok[OF assms(1)])

lemma copy_forward_db:
  assumes "copy_forward_raci org_id fw aid s = Inr (summ, s')"
  shows "\<exists>n rows. s' = s\<lparr>next_id := next_id s + n, t_raci := rows\<rparr>"
proof (cases "raci_source org_id fw aid s")
  case None
  then have "s' = s" using assms by (simp add: copy_forward_raci_def Let_def)
  then have "s' = s\<lparr>next_id := next_id s + 0, t_raci := t_raci s\<rparr>" by simp
  then show ?thesis by blast
next
  case (Some source)
  then show ?thesis using assms by (auto simp: copy_forward_raci_def Let_def split: if_splits)
qed

lemma copy_forward_engine_ok:
  assumes ok: "engine_ok s" and run: "copy_forward_raci org_id fw aid s = Inr (summ, s')"
  shows "engine_ok s' \<and> append_only s s' \<and> catalog_eq s s'"
proof -
  obtain n rows where s': "s' = s\<lparr>next_id := next_id s + n, t_raci := rows\<rparr>"
    using copy_forward_db[OF run] by blast
  have cat: "catalog_eq s s'" by (simp add: s' catalog_eq_def)
  have "schema_ok s'"
    using ok unfolding engine_ok_def schema_ok_def s'
    by (auto intro: catalog_ok_mono[of s] states_ok_mono contribs_ok_mono org_products_ok_mono
        links_ok_mono task_links_ok_mono pk_ok_mono simp: catalog_eq_def)
  then have "engine_ok s'" by (intro engine_ok_states[OF ok]) (simp_all add: s')
  then show ?thesis using cat by (simp add: append_only_def s')
qed

subsection \<open>Backfilling\<close>

lemma missing_objectives_ok:
  assumes "schema_ok s"
  shows "distinct (map ob_id (map fst (missing_objectives a s)))"
    "ob_id ` set (map fst (missing_objectives a s)) \<inter> obj_at (a_id a) s = {}"
proof -
  show "distinct (map ob_id (map fst (missing_objectives a s)))"
    using framework_objectives_distinct[OF assms, of "a_framework_id a"]
    unfolding missing_objectives_def Let_def map_map by (rule distinct_map_filter)
  show "ob_id ` set (map fst (missing_objectives a s)) \<inter> obj_at (a_id a) s = {}"
    by (auto simp: missing_objectives_def obj_at_def Let_def)
qed

lemma backfill_one_engine_ok:
  assumes ok: "engine_ok s" and a: "a_id a \<in> a_id ` set (t_assessment s)"
    and run: "backfill_one reason (results, s) a = (results', s')"
  shows "engine_ok s' \<and> append_only s s' \<and> catalog_eq s s' \<and>
    a_id ` set (t_assessment s') = a_id ` set (t_assessment s)"
proof (cases "missing_objectives a s = []")
  case True
  then show ?thesis using run ok by (simp add: backfill_one_def)
next
  case False
  let ?s1 = "add_states (a_org_id a) (a_id a) (map fst (missing_objectives a s)) s"
  let ?s2 = "snd (recompute_sprs (a_id a) ?s1)"
  obtain ac at og ac2 e i b af c where s': "s' = log_event_as ac at og ac2 e i b af c ?s2"
    using run False by (auto simp: backfill_one_def Let_def case_prod_unfold)
  have sok: "schema_ok s" using ok by (simp add: engine_ok_def)
  have b1: "engine_ok_but (a_id a) ?s1"
    by (rule engine_ok_but_add_states[OF engine_ok_but[OF ok] missing_objectives_ok[OF sok] a])
  have "engine_ok s'" unfolding s' by (rule engine_ok_log_event[OF engine_ok_recompute[OF b1]])
  moreover have "append_only s s'" unfolding s'
    by (rule append_only_trans[OF append_only_trans[OF add_states_frame(9) append_only_recompute] append_only_log_event])
  moreover have "catalog_eq s s'" unfolding s'
    by (rule catalog_eq_trans[OF catalog_eq_trans[OF add_states_frame(8) recompute_frame(19)] catalog_eq_log_event])
  moreover have "a_id ` set (t_assessment s') = a_id ` set (t_assessment s)"
  proof -
    have "map a_id (t_assessment s') = map a_id (t_assessment s)"
      unfolding s' log_event_frame recompute_assessments add_states_frame by (rule score_upd.keys_tupd)
    then show ?thesis by (metis set_map)
  qed
  ultimately show ?thesis by blast
qed

lemma backfill_engine_ok:
  assumes ok: "engine_ok s" and run: "backfill_missing_control_states reason dry s = (results, s')"
  shows "engine_ok s' \<and> append_only s s' \<and> catalog_eq s s'"
proof -
  obtain res u where f: "foldl (backfill_one reason) ([], s) (t_assessment s) = (res, u)"
    by (cases "foldl (backfill_one reason) ([], s) (t_assessment s)")
  let ?P = "\<lambda>acc. engine_ok (snd acc) \<and> append_only s (snd acc) \<and> catalog_eq s (snd acc) \<and>
    a_id ` set (t_assessment (snd acc)) = a_id ` set (t_assessment s)"
  have "?P (foldl (backfill_one reason) ([], s) (t_assessment s))"
  proof (rule foldl_inv)
    show "?P ([], s)" using ok by simp
    show "?P (backfill_one reason acc a)" if a: "a \<in> set (t_assessment s)" and P: "?P acc" for a acc
    proof -
      obtain r v where acc: "acc = (r, v)" by (cases acc)
      obtain r' v' where r': "backfill_one reason (r, v) a = (r', v')" by (cases "backfill_one reason (r, v) a")
      have aid: "a_id a \<in> a_id ` set (t_assessment v)" using a P acc by simp
      have vok: "engine_ok v" using P acc by simp
      note st = backfill_one_engine_ok[OF vok aid r']
      have v: "append_only s v" "catalog_eq s v" using P unfolding acc snd_conv by simp_all
      have "append_only v v'" "catalog_eq v v'" using st by simp_all
      then have "append_only s v'" "catalog_eq s v'"
        using append_only_trans[OF v(1)] catalog_eq_trans[OF v(2)] by simp_all
      then show ?thesis using st P unfolding acc r' snd_conv by simp
    qed
  qed
  then have "engine_ok u \<and> append_only s u \<and> catalog_eq s u" unfolding f snd_conv by blast
  moreover have "s' = (if dry then s else u)"
    using run f by (simp add: backfill_missing_control_states_def)
  ultimately show ?thesis using ok by simp
qed

end
