(* ===== verification/Requests.thy ===== *)
theory Requests
  imports Lifecycle_Facts
begin

section \<open>The engine as a machine\<close>

text \<open>
  The operations the routers call, as the steps of one machine on the database. Each request
  runs in a transaction of its own: one that raises is rolled back, so only the steps that
  return change the database.
\<close>

datatype request =
    StartAssessment uuid uuid string string
  | Activate uuid uuid uuid "string option" "decisions option"
  | Deactivate uuid uuid uuid "uuid option" "string option"
  | MoveVersion uuid uuid uuid uuid
  | Complete uuid uuid
  | Reopen uuid uuid
  | CarryRaci uuid uuid uuid
  | Backfill string bool

fun serve :: "request \<Rightarrow> db \<Rightarrow> engine_error + db" where
  "serve (StartAssessment org_id fw name ty) s = map_sum id snd (start_assessment org_id fw name ty s)"
| "serve (Activate org_id pid aid notes ds) s = map_sum id snd (activate_org_product org_id pid aid notes ds s)"
| "serve (Deactivate org_id pid aid replaced_by who) s =
     map_sum id snd (deactivate_org_product org_id pid aid replaced_by who s)"
| "serve (MoveVersion org_id pid aid target) s = map_sum id snd (move_org_product_version org_id pid aid target s)"
| "serve (Complete org_id aid) s = complete_assessment org_id aid s"
| "serve (Reopen org_id aid) s = reopen_assessment org_id aid s"
| "serve (CarryRaci org_id fw aid) s = map_sum id snd (copy_forward_raci org_id fw aid s)"
| "serve (Backfill reason dry) s = Inr (snd (backfill_missing_control_states reason dry s))"

definition serve_or_rollback :: "db \<Rightarrow> request \<Rightarrow> db" where
  "serve_or_rollback s r = (case serve r s of Inl _ \<Rightarrow> s | Inr s' \<Rightarrow> s')"

lemma map_sum_Inr: "map_sum id snd x = Inr s' \<Longrightarrow> \<exists>res. x = Inr (res, s')"
  by (cases x) auto

lemma serve_ok:
  assumes ok: "engine_ok s" and run: "serve r s = Inr s'"
  shows "engine_ok s' \<and> append_only s s' \<and> catalog_eq s s'"
proof (cases r)
  case (StartAssessment a b c d)
  then show ?thesis using run start_engine_ok[OF ok] by (auto dest!: map_sum_Inr)
next
  case (Activate a b c d e)
  then show ?thesis using run activate_engine_ok[OF ok] by (auto dest!: map_sum_Inr)
next
  case (Deactivate a b c d e)
  then show ?thesis using run deactivate_engine_ok[OF ok] by (auto dest!: map_sum_Inr)
next
  case (MoveVersion a b c d)
  then show ?thesis using run move_engine_ok[OF ok] by (auto dest!: map_sum_Inr)
next
  case (Complete a b)
  then show ?thesis using run complete_engine_ok[OF ok] by simp
next
  case (Reopen a b)
  then show ?thesis using run reopen_engine_ok[OF ok] by simp
next
  case (CarryRaci a b c)
  then show ?thesis using run copy_forward_engine_ok[OF ok] by (auto dest!: map_sum_Inr)
next
  case (Backfill reason dry)
  obtain results u where "backfill_missing_control_states reason dry s = (results, u)"
    by (cases "backfill_missing_control_states reason dry s")
  then show ?thesis using run Backfill backfill_engine_ok[OF ok] by simp
qed

interpretation engine: db_step serve
  by unfold_locales (simp_all add: serve_ok)

lemma serve_or_rollback_eq:
  "serve_or_rollback = (\<lambda>s r. case serve r s of Inl e \<Rightarrow> s | Inr s' \<Rightarrow> s')"
  by (simp add: serve_or_rollback_def[abs_def])

lemmas rollback_run = engine.rollback_all[folded serve_or_rollback_eq]

end
