(* ===== verification/Success.thy ===== *)
theory Success
  imports Requests
begin

section \<open>When a request succeeds\<close>

text \<open>
  The converse of the decompositions: conditions under which activation and deactivation
  return a result. For the loop they are that the version claims no objective twice, that every
  contributor row's baseline control exists, and that the decisions, if any, are about exactly the
  judged objectives, with the statuses they have and one of the two choices.
\<close>

definition claims_once :: "uuid \<Rightarrow> db \<Rightarrow> bool" where
  "claims_once version_id s \<longleftrightarrow>
     distinct (map su_objective_id (updates_of (claims_of version_id s) s))"

definition contribs_fk :: "db \<Rightarrow> bool" where
  "contribs_fk s \<longleftrightarrow> ct_bcontrol_id ` set (t_contrib s) \<subseteq> bc_id ` set (t_bcontrol s)"

lemma contributors_of_fk:
  assumes "contribs_fk s" "ct \<in> set (t_contrib s)" "ct_state_id ct = i"
  shows "ct_product_id ct \<in> fst ` set (contributors_of i s)"
proof -
  have "ct_bcontrol_id ct \<in> bc_id ` set (t_bcontrol s)" using assms by (auto simp: contribs_fk_def)
  then obtain bc where "get_bcontrol (ct_bcontrol_id ct) s = Some bc"
    using tget_None_iff by (metis not_Some_eq)
  then have "(ct, bc) \<in> set (join_on (\<lambda>ct. get_bcontrol (ct_bcontrol_id ct) s)
      (filter (\<lambda>ct. ct_state_id ct = i) (t_contrib s)))"
    using assms by (simp add: in_join_on)
  then show ?thesis unfolding contributors_of_def by force
qed

lemma distinct_hits:
  assumes env: "env_ok env s" and d: "distinct (map su_objective_id upds)"
  shows "distinct (map fst (hits env upds))"
  using d
proof (induction upds)
  case (Cons u us)
  show ?case
  proof (cases "reaches env u")
    case None
    then show ?thesis using Cons by simp
  next
    case (Some h)
    have "fst h \<notin> fst ` set (hits env us)"
    proof
      assume "fst h \<in> fst ` set (hits env us)"
      then obtain h2 where h2: "h2 \<in> set (hits env us)" "fst h2 = fst h" by auto
      obtain cs where cs: "get_state (fst h2) s = Some cs" "cs_objective_id cs \<in> su_objective_id ` set us"
        by (rule hits_state[OF env h2(1)])
      have "h \<in> set (hits env [u])" using Some by simp
      then obtain cs1 where cs1: "get_state (fst h) s = Some cs1" "cs_objective_id cs1 \<in> su_objective_id ` set [u]"
        by (rule hits_state[OF env])
      then have "cs_objective_id cs = su_objective_id u" using cs(1) h2(2) by simp
      then show False using cs(2) Cons.prems by simp
    qed
    then show ?thesis using Cons Some by simp
  qed
qed simp

lemma add_contributors_returns:
  assumes "contribs_ok n (t_contrib s)" "contribs_fk s" "distinct (map fst rows)"
    and "\<And>r. r \<in> set rows \<Longrightarrow> p \<notin> fst ` set (contributors_of (fst r) s)"
    and "t_contrib u = t_contrib s"
  shows "\<exists>u'. add_contributors p rows u = Inr u'"
proof -
  let ?key = "\<lambda>ct. (ct_state_id ct, ct_product_id ct)"
  let ?new = "insert_rows (mk_contributor p) (next_id u) rows"
  have new: "map ?key ?new = map (\<lambda>r. (fst r, p)) rows"
    by (rule map_insert_rows) (simp add: mk_contributor_def)
  have "distinct (map ?key ?new)"
    unfolding new using assms(3) by (simp add: distinct_map inj_on_def)
  moreover have "distinct (map ?key (t_contrib u))" using assms(1,5) by (simp add: contribs_ok_def)
  moreover have "set (map ?key (t_contrib u)) \<inter> set (map ?key ?new) = {}"
  proof (rule ccontr)
    assume "set (map ?key (t_contrib u)) \<inter> set (map ?key ?new) \<noteq> {}"
    then obtain ct r where "ct \<in> set (t_contrib s)" "r \<in> set rows" "ct_state_id ct = fst r" "ct_product_id ct = p"
      unfolding new assms(5) by auto
    then show False using contributors_of_fk[OF assms(2)] assms(4) by fastforce
  qed
  ultimately have "distinct (map ?key (t_contrib u @ ?new))" unfolding map_append distinct_append by blast
  then show ?thesis by (simp add: add_contributors_def Let_def)
qed

lemma run_loop_returns:
  fixes org_id pid vid aid ds path ex s
  defines "env \<equiv> env_at org_id pid vid aid ds path ex s" and "hs \<equiv> hits_at (env_at org_id pid vid aid ds path ex s) vid s"
  assumes ok: "schema_ok s" and p: "get_product pid s = Some product" and a: "get_assessment aid s = Some a"
    and fk: "contribs_fk s" and once: "claims_once vid s"
    and fine: "\<And>h. h \<in> set hs \<Longrightarrow> refused env (state_at (fst h) s) = None"
    and shown: "\<And>e. ex = Some e \<Longrightarrow> fst ` set e = fst ` set (judged_hits env hs s)"
  shows "\<exists>res s'. run_loop org_id pid vid aid ds path ex s = Inr (res, s')"
proof -
  let ?bcs = "claims_of vid s"
  let ?upds = "updates_of ?bcs s"
  have env_eq: "env = loop_env_of org_id aid product ?bcs ds path ex ?upds s"
    by (simp add: env_def env_at_def p)
  have hs_eq: "hs = hits env ?upds" by (simp add: hs_def hits_at_def env_def)
  have eok: "env_ok env s" unfolding env_def by (rule env_ok_at[OF ok])
  have acc0: "la_db (acc0_of s) = s" by (simp add: acc0_of_def)
  have d: "distinct (map fst hs)"
    unfolding hs_eq by (rule distinct_hits[OF eok]) (use once in \<open>simp add: claims_once_def\<close>)
  obtain acc where acc: "foldres (loop_step env) ?upds (acc0_of s) = Inr acc"
    using loop_ends[of env "acc0_of s" ?upds] eok ok d fine unfolding acc0 hs_eq by blast
  have res: "loop_result_ok env hs (acc0_of s) acc"
    unfolding hs_eq using loop_result[OF acc] eok ok d unfolding acc0 hs_eq by blast
  have contribs: "la_contribs acc = map (\<lambda>h. (fst h, bc_id (snd h))) hs"
    using loop_contribs[OF acc] eok ok unfolding acc0 hs_eq by (simp add: acc0_of_def)
  have seen: "set (la_seen acc) = fst ` set (judged_hits env hs s)"
    using res unfolding loop_result_ok_def acc0 by (simp add: acc0_of_def)
  have "\<not> (case ex of None \<Rightarrow> False | Some e \<Rightarrow> fst ` set e \<noteq> set (la_seen acc))"
    using shown seen by (cases ex) simp_all
  then have ls: "loop_states org_id aid product ?bcs ds path ex s = Inr acc"
    using acc unfolding loop_states_def Let_def env_eq[symmetric] by simp
  have pid: "p_id (the (get_product pid s)) = pid" using p tget_SomeD[OF p] by simp
  have "\<exists>u. add_contributors pid (la_contribs acc) (la_db acc) = Inr u"
  proof (rule add_contributors_returns[OF _ fk])
    show "contribs_ok (next_id s) (t_contrib s)" using ok by (simp add: schema_ok_def)
    show "distinct (map fst (la_contribs acc))" using d by (simp add: contribs o_def)
    show "pid \<notin> fst ` set (contributors_of (fst r) s)" if r: "r \<in> set (la_contribs acc)" for r
    proof -
      obtain h where h: "h \<in> set hs" "fst r = fst h" using r by (auto simp: contribs)
      have "p_id (le_product env) \<notin> fst ` set (le_contributors env (fst h))"
        using h(1) unfolding hs_eq by (rule hits_state[OF eok])
      then show ?thesis using h(2) pid by (simp add: env_def)
    qed
    show "t_contrib (la_db acc) = t_contrib s"
      using update_contribs_frame[OF acc] eok ok unfolding acc0 by blast
  qed
  then obtain u where u: "add_contributors pid (la_contribs acc) (la_db acc) = Inr u" by blast
  show ?thesis
    unfolding run_loop_def p option.case a Let_def ls sum.case u by (simp add: case_prod_unfold)
qed

lemma hits_at_Nil: "updates_of (claims_of vid s) s = [] \<Longrightarrow> hits_at env vid s = []"
  by (simp add: hits_at_def)

subsection \<open>Activation\<close>

text \<open>The loop runs after the restoring, which it cannot see.\<close>

definition same_catalog :: "db \<Rightarrow> db \<Rightarrow> bool" where
  "same_catalog s u \<longleftrightarrow> t_control u = t_control s \<and> t_objective u = t_objective s \<and>
     t_product u = t_product s \<and> t_bcontrol u = t_bcontrol s \<and> t_cstate u = t_cstate s \<and> t_contrib u = t_contrib s"

lemma loop_inputs_cong:
  assumes "same_catalog s u"
  shows "claims_of v u = claims_of v s" "updates_of bcs u = updates_of bcs s"
    "env_at org_id pid v aid ds path ex u = env_at org_id pid v aid ds path ex s"
    "hits_at env v u = hits_at env v s" "judged_hits env hs u = judged_hits env hs s"
    "state_at i u = state_at i s" "claims_once v u = claims_once v s" "contribs_fk u = contribs_fk s"
proof -
  note c = assms[unfolded same_catalog_def]
  show 1: "claims_of v u = claims_of v s" using c by (simp add: claims_of_def)
  have n: "ctrl_uuid_to_str ids u = ctrl_uuid_to_str ids s" "objectives_of ids u = objectives_of ids s" for ids
    using c by (simp_all add: ctrl_uuid_to_str_def objectives_of_def)
  have l: "objective_lookup ids u = objective_lookup ids s" "obj_id_to_control_str ids u = obj_id_to_control_str ids s" for ids
    by (simp_all add: objective_lookup_def obj_id_to_control_str_def n fun_eq_iff)
  show 2: "updates_of bcs u = updates_of bcs s" for bcs by (simp add: updates_of_def n l Let_def)
  have k: "states_by_objective aid ids u = states_by_objective aid ids s" for ids
    using c by (simp add: states_by_objective_def)
  have ct: "contributors_of i u = contributors_of i s" for i using c by (simp add: contributors_of_def)
  show 3: "env_at org_id pid v aid ds path ex u = env_at org_id pid v aid ds path ex s"
    using c unfolding env_at_def loop_env_of_def 1 2 n l k ct Let_def by simp
  show "hits_at env v u = hits_at env v s" by (simp add: hits_at_def 1 2)
  show st: "state_at i u = state_at i s" for i using c by (simp add: state_at_def)
  show "judged_hits env hs u = judged_hits env hs s" by (simp add: judged_hits_def st)
  show "claims_once v u = claims_once v s" by (simp add: claims_once_def 1 2)
  show "contribs_fk u = contribs_fk s" using c by (simp add: contribs_fk_def)
qed

lemma restored_same_catalog:
  assumes "put_org_product org_id pid v notes s = (i, s1)" "restore_prior org_id product v' aid s1 = (restored, s2)"
  shows "same_catalog s s2" and "touches aid s s2"
proof -
  have t1: "touches aid s s1" by (rule touches_put_org_product(1)[OF assms(1)])
  note f = restore_prior_frame[OF assms(2)] touches_put_org_product(2-4)[OF assms(1)]
  show t2: "touches aid s s2" by (rule touches_trans[OF t1 f(1)])
  show "same_catalog s s2" using t2 f unfolding same_catalog_def touches_def catalog_eq_def by simp
qed

lemma fst_decided_shown: "fst ` set (decided_shown d) = fst ` set d"
  by (force simp: decided_shown_def)

lemma activate_returns:
  fixes org_id pid v aid nts ds s
  defines "env \<equiv> env_at org_id pid v aid (map_option decided_choices ds) ''activation'' (map_option decided_shown ds) s"
  defines "hs \<equiv> hits_at env v s"
  assumes ok: "schema_ok s" and p: "get_product pid s = Some product" and a: "get_assessment aid s = Some a"
    and v: "activation_target product (find_org_product org_id pid s) = Inr v"
    and fk: "contribs_fk s" and once: "claims_once v s"
    and fine: "\<And>h. h \<in> set hs \<Longrightarrow> refused env (state_at (fst h) s) = None"
    and shown: "\<And>d. ds = Some d \<Longrightarrow> fst ` set d = fst ` set (judged_hits env hs s)"
  shows "\<exists>res s'. activate_org_product org_id pid aid nts ds s = Inr (res, s')"
proof -
  obtain i s1 where s1: "put_org_product org_id pid v nts s = (i, s1)" by (metis surj_pair)
  obtain restored s2 where s2: "restore_prior org_id product v aid s1 = (restored, s2)" by (metis surj_pair)
  note same = restored_same_catalog[OF s1 s2]
  note cong = loop_inputs_cong[OF same(1)]
  have ok2: "schema_ok s2" by (rule touches_schema_ok[OF same(2) ok])
  have "t_assessment s2 = t_assessment s" "t_product s2 = t_product s"
    using same(2) by (simp_all add: touches_def catalog_eq_def)
  then have p2: "get_product pid s2 = Some product" and a2: "get_assessment aid s2 = Some a" using p a by simp_all
  have "\<exists>res s3. run_loop org_id pid v aid (map_option decided_choices ds) ''activation''
      (map_option decided_shown ds) s2 = Inr (res, s3)"
  proof (rule run_loop_returns[OF ok2 p2 a2])
    show "contribs_fk s2" "claims_once v s2" using fk once by (simp_all add: cong)
    show "refused (env_at org_id pid v aid (map_option decided_choices ds) ''activation''
        (map_option decided_shown ds) s2) (state_at (fst h) s2) = None"
      if "h \<in> set (hits_at (env_at org_id pid v aid (map_option decided_choices ds) ''activation''
        (map_option decided_shown ds) s2) v s2)" for h
      using fine[unfolded hs_def env_def, of h] that unfolding cong by blast
    show "fst ` set e = fst ` set (judged_hits (env_at org_id pid v aid (map_option decided_choices ds) ''activation''
        (map_option decided_shown ds) s2) (hits_at (env_at org_id pid v aid (map_option decided_choices ds) ''activation''
        (map_option decided_shown ds) s2) v s2) s2)"
      if e: "map_option decided_shown ds = Some e" for e
    proof -
      obtain d where d: "ds = Some d" "e = decided_shown d" using e by auto
      show ?thesis using shown[unfolded hs_def env_def, OF d(1)] unfolding cong d(2) fst_decided_shown by simp
    qed
  qed
  then obtain res s3 where s3: "run_loop org_id pid v aid (map_option decided_choices ds) ''activation''
      (map_option decided_shown ds) s2 = Inr (res, s3)" by blast
  show ?thesis
    using s1 s2 s3 p v by (simp add: activate_org_product_def Let_def case_prod_beta)
qed

text \<open>With nobody asked, nothing is refused.\<close>

lemma unasked_never_refused:
  "refused (env_at org_id pid v aid None path None s) cs = None"
  by (simp add: refused_def expected_differs_def answer_def choice_of_def)

lemma activate_unasked_returns:
  assumes "schema_ok s" "get_product pid s = Some product" "get_assessment aid s = Some a"
    "activation_target product (find_org_product org_id pid s) = Inr v" "contribs_fk s" "claims_once v s"
  shows "\<exists>res s'. activate_org_product org_id pid aid notes None s = Inr (res, s')"
  by (rule activate_returns[OF assms]) (simp_all add: unasked_never_refused)

subsection \<open>Deactivation\<close>

lemma deactivate_returns:
  assumes "get_product pid s = Some product" "find_org_product org_id pid s = Some op"
    "check_replacement pid replaced_by s = Inr rp"
  shows "\<exists>res s'. deactivate_org_product org_id pid aid replaced_by who s = Inr (res, s')"
  using assms by (simp add: deactivate_org_product_def Let_def case_prod_unfold)

end
