(* ===== verification/Example.thy ===== *)
theory Example
  imports Success
begin

section \<open>A small tenant\<close>

text \<open>
  A database to evaluate the definitions on: one organization, a catalog of two practices with
  three objectives, one published product with two baseline versions, and one assessment. The
  second version drops an objective of the first and claims another one.
\<close>

definition t0 :: datetime where "t0 = DT 2026 3 1 0"

definition tenant :: db where
  "tenant = \<lparr>next_id = 100, clock = t0, cur_actor = Some ''n'', cur_actor_type = Some ''u'',
     cur_ip = None,
     t_org = [\<lparr>og_id = 1, og_name = ''O'', og_review_cadence_months = 12\<rparr>],
     t_control = [\<lparr>c_id = 10, c_framework_id = 2, c_control_id = ''A'', c_sprs_weight = 5\<rparr>,
                  \<lparr>c_id = 11, c_framework_id = 2, c_control_id = ''B'', c_sprs_weight = 3\<rparr>],
     t_objective = [\<lparr>ob_id = 20, ob_control_id = 10, ob_key = ''a'', ob_text = ''x''\<rparr>,
                    \<lparr>ob_id = 21, ob_control_id = 10, ob_key = ''b'', ob_text = ''y''\<rparr>,
                    \<lparr>ob_id = 22, ob_control_id = 11, ob_key = ''a'', ob_text = ''z''\<rparr>],
     t_product = [\<lparr>p_id = 30, p_key = ''e'', p_name = ''E'', p_is_published = True,
                    p_current_version_id = Some 40\<rparr>],
     t_version = [\<lparr>bv_id = 40, bv_product_id = 30, bv_number = 1\<rparr>,
                  \<lparr>bv_id = 41, bv_product_id = 30, bv_number = 2\<rparr>],
     t_bcontrol = [\<lparr>bc_id = 50, bc_product_id = 30, bc_version_id = 40, bc_control_id = 10,
                     bc_objectives = [''a''], bc_classification = ClsProvider,
                     bc_coverage_basis = CustomerSystem\<rparr>,
                   \<lparr>bc_id = 51, bc_product_id = 30, bc_version_id = 41, bc_control_id = 10,
                     bc_objectives = [''b''], bc_classification = ClsShared,
                     bc_coverage_basis = CustomerSystem\<rparr>],
     t_spec = [\<lparr>es_id = 60, es_bcontrol_id = 50, es_artifact = ''P'', es_type = ''d'',
                 es_kb_reference = Some ''k''\<rparr>],
     t_orgproduct = [],
     t_assessment = [\<lparr>a_id = 70, a_org_id = 1, a_framework_id = 2, a_name = ''Q1'', a_type = ''self'',
                       a_status = InProgress, a_started_at = t0, a_submitted_at = None,
                       a_sprs_score = Some 102, a_locked_at = None\<rparr>],
     t_cstate = [\<lparr>cs_id = 80, cs_assessment_id = 70, cs_org_id = 1, cs_objective_id = 20,
                   cs_status = NotMet, cs_responsibility = CustomerOwns\<rparr>,
                 \<lparr>cs_id = 81, cs_assessment_id = 70, cs_org_id = 1, cs_objective_id = 21,
                   cs_status = NotMet, cs_responsibility = CustomerOwns\<rparr>,
                 \<lparr>cs_id = 82, cs_assessment_id = 70, cs_org_id = 1, cs_objective_id = 22,
                   cs_status = NotMet, cs_responsibility = CustomerOwns\<rparr>],
     t_contrib = [], t_history = [], t_snapshot = [], t_evidence = [], t_link = [], t_task = [],
     t_tasklink = [], t_contact = [], t_raci = [], t_audit = []\<rparr>"

lemma tenant_ok: "engine_ok tenant"
  by code_simp

text \<open>The same tenant later: the product is active on its first version and covers one
  objective, with a task, an artifact a person linked and one they took off again.\<close>

definition active_tenant :: db where
  "active_tenant = tenant\<lparr>
     t_orgproduct := [\<lparr>op_id = 90, op_org_id = 1, op_product_id = 30, op_version_id = Some 40,
        op_status = Active, op_configured = True, op_notes = None, op_activated_at = Some t0,
        op_deactivated_at = None, op_deactivated_by = None, op_replaced_by = None\<rparr>],
     t_cstate := [\<lparr>cs_id = 80, cs_assessment_id = 70, cs_org_id = 1, cs_objective_id = 20,
        cs_status = PendingEvidence, cs_responsibility = ProviderSatisfies\<rparr>,
       \<lparr>cs_id = 81, cs_assessment_id = 70, cs_org_id = 1, cs_objective_id = 21,
        cs_status = NotMet, cs_responsibility = CustomerOwns\<rparr>,
       \<lparr>cs_id = 82, cs_assessment_id = 70, cs_org_id = 1, cs_objective_id = 22,
        cs_status = NotMet, cs_responsibility = CustomerOwns\<rparr>],
     t_contrib := [\<lparr>ct_id = 91, ct_state_id = 80, ct_product_id = 30, ct_bcontrol_id = 50\<rparr>],
     t_history := [\<lparr>h_id = 92, h_state_id = 80, h_prev_status = NotMet, h_new_status = PendingEvidence,
        h_prev_resp = CustomerOwns, h_new_resp = ProviderSatisfies, h_reason = ''r''\<rparr>],
     t_evidence := [\<lparr>ev_id = 95, ev_org_id = 1, ev_title = ''S'', ev_description = None,
        ev_kind = ''file'', ev_artifact_type = ''d'', ev_storage_key = None, ev_mime_type = None,
        ev_file_size = None, ev_collected_at = t0, ev_source_document_version = None,
        ev_source_list_version = None, ev_source_review_cycle = None\<rparr>],
     t_link := [\<lparr>ln_id = 96, ln_evidence_id = 95, ln_state_id = 80, ln_is_archived = False,
        ln_archived_at = None, ln_archived_by_product = None, ln_archive_cause = None,
        ln_detached_by = None, ln_detached_at = None\<rparr>,
       \<lparr>ln_id = 97, ln_evidence_id = 95, ln_state_id = 81, ln_is_archived = True,
        ln_archived_at = Some t0, ln_archived_by_product = None, ln_archive_cause = Some DETACHED,
        ln_detached_by = Some ''n'', ln_detached_at = Some t0\<rparr>],
     t_task := [\<lparr>tk_id = 93, tk_org_id = 1, tk_assessment_id = Some 70, tk_spec_id = Some 60,
        tk_title = ''P'', tk_artifact_type = ''d'', tk_status = TaskOpen, tk_session = None,
        tk_completed_evidence_id = None, tk_is_archived = False, tk_archived_at = None\<rparr>],
     t_tasklink := [\<lparr>tl_id = 94, tl_task_id = 93, tl_state_id = 80\<rparr>]\<rparr>"

lemma active_tenant_ok: "engine_ok active_tenant"
  by code_simp

text \<open>The tenant with the first practice judged met by a person, before any product is active.\<close>

definition judged_tenant :: db where
  "judged_tenant = tenant\<lparr>
     t_assessment := [\<lparr>a_id = 70, a_org_id = 1, a_framework_id = 2, a_name = ''Q1'', a_type = ''self'',
        a_status = InProgress, a_started_at = t0, a_submitted_at = None,
        a_sprs_score = Some 107, a_locked_at = None\<rparr>],
     t_cstate := [\<lparr>cs_id = 80, cs_assessment_id = 70, cs_org_id = 1, cs_objective_id = 20,
        cs_status = Met, cs_responsibility = CustomerOwns\<rparr>,
       \<lparr>cs_id = 81, cs_assessment_id = 70, cs_org_id = 1, cs_objective_id = 21,
        cs_status = Met, cs_responsibility = CustomerOwns\<rparr>,
       \<lparr>cs_id = 82, cs_assessment_id = 70, cs_org_id = 1, cs_objective_id = 22,
        cs_status = NotMet, cs_responsibility = CustomerOwns\<rparr>],
     t_history := [\<lparr>h_id = 92, h_state_id = 80, h_prev_status = NotMet, h_new_status = Met,
        h_prev_resp = CustomerOwns, h_new_resp = CustomerOwns, h_reason = ''r''\<rparr>,
       \<lparr>h_id = 93, h_state_id = 81, h_prev_status = NotMet, h_new_status = Met,
        h_prev_resp = CustomerOwns, h_new_resp = CustomerOwns, h_reason = ''r''\<rparr>]\<rparr>"

lemma judged_tenant_ok: "engine_ok judged_tenant"
  by code_simp

definition tenant_weights :: "string \<Rightarrow> int" where
  "tenant_weights c = (if c = ''A'' then 5 else 3)"

lemma active_tenant_weighs: "\<forall>c \<in> set (t_control active_tenant). c_sprs_weight c = tenant_weights (c_control_id c)"
  by code_simp

subsection \<open>Requests they accept\<close>

lemmas example_ok = tenant_ok active_tenant_ok judged_tenant_ok

lemma example_schema:
  "schema_ok tenant" "schema_ok active_tenant" "schema_ok judged_tenant"
  using example_ok by (simp_all add: engine_ok_def)

lemma active_tenant_deactivates:
  "\<exists>res s'. deactivate_org_product 1 30 70 None None active_tenant = Inr (res, s')"
proof -
  have "get_product 30 active_tenant \<noteq> None" "find_org_product 1 30 active_tenant \<noteq> None"
    "check_replacement 30 None active_tenant = Inr None" by code_simp+
  then show ?thesis using deactivate_returns by blast
qed

lemma tenant_activation_ready:
  "get_product 30 tenant \<noteq> None" "get_assessment 70 tenant \<noteq> None" "contribs_fk tenant" "claims_once 40 tenant"
  "activation_target (the (get_product 30 tenant)) (find_org_product 1 30 tenant) = Inr 40"
  by code_simp+

lemma tenant_activates:
  "\<exists>res s'. activate_org_product 1 30 70 None None tenant = Inr (res, s')"
proof -
  obtain p a where "get_product 30 tenant = Some p" "get_assessment 70 tenant = Some a"
    using tenant_activation_ready(1,2) by blast
  then show ?thesis using activate_unasked_returns[OF example_schema(1)] tenant_activation_ready(3-5)
    by (metis option.sel)
qed

end

