(* ===== verification/Judgement_Facts.thy ===== *)
theory Judgement_Facts
  imports Requests
begin

section \<open>No judgement of the engine's own\<close>

text \<open>
  Each operation is \<open>modest\<close>: it never produces one of the statuses that count as a
  person's verdict, it only keeps or withdraws them. With it, no operation can turn an
  unmet control into a met one.
\<close>

lemma modest_loop_outcome:
  assumes "loop_outcome env pid hs s res s'"
  shows "modest s s'"
proof (rule modestI)
  fix i cs' assume c: "get_state i s' = Some cs'" and j: "cs_status cs' \<in> set JUDGED_STATUSES"
  have "covered_by env hs s i = Some cs'" using assms c by (simp add: loop_outcome_def)
  then show "\<exists>cs. get_state i s = Some cs \<and> cs_status cs = cs_status cs'"
    using j by (auto simp: covered_by_def covered_def intro: contributor_added_modest[symmetric] split: option.splits)
qed

lemma modest_run_loop:
  assumes "schema_ok s" "run_loop org_id pid vid aid ds path ex s = Inr (res, s')"
  shows "modest s s'"
  by (rule modest_loop_outcome[OF run_loop_outcome(1)[OF assms]])

lemma modest_review_regained:
  assumes "schema_ok s"
  shows "modest s (review_regained org_id ctx name restored s)"
  by (rule modestI) (auto simp: get_review_regained[OF assms] split: if_splits)

lemma activate_modest:
  assumes ok: "schema_ok s" and run: "activate_org_product org_id pid aid notes ds s = Inr (res, s')"
  shows "modest s s'"
proof -
  from run obtain product v i s1 restored s2 s3 where
    s1: "put_org_product org_id pid v notes s = (i, s1)" and
    s2: "restore_prior org_id product v aid s1 = (restored, s2)" and
    s3: "run_loop org_id pid v aid (map_option decided_choices ds) ''activation''
        (map_option decided_shown ds) s2 = Inr (res, s3)" and
    s': "s' = log_activation org_id product v aid i (find_org_product org_id pid s) (assessment_score aid s1)
        (sprs_of aid (review_regained org_id (reactivation_ctx product aid) (p_name product) restored s3))
        (lr_judged res) (ds \<noteq> None)
        (snd (recompute_sprs aid (review_regained org_id (reactivation_ctx product aid) (p_name product) restored s3)))"
    by (rule activate_InrD)
  let ?r = "review_regained org_id (reactivation_ctx product aid) (p_name product) restored s3"
  have "t_cstate s' = t_cstate ?r" unfolding s' log_activation_def by simp
  then have last: "modest ?r s'" by (rule modest_same)
  have t2: "touches aid s s2"
    by (rule touches_trans[OF touches_put_org_product(1)[OF s1] restore_prior_frame(1)[OF s2]])
  have ok2: "schema_ok s2" by (rule touches_schema_ok[OF t2 ok])
  have ok3: "schema_ok s3" by (rule touches_schema_ok[OF run_loop_logs(1)[OF ok2 s3] ok2])
  have "modest s s2"
    by (rule modest_same) (simp add: restore_prior_frame(2)[OF s2] touches_put_org_product(2)[OF s1])
  from modest_trans[OF modest_trans[OF this modest_run_loop[OF ok2 s3]] modest_review_regained[OF ok3]]
  show ?thesis by (rule modest_trans[OF _ last])
qed

lemma deactivated_modest: "deactivated org_id pid aid s res s' \<Longrightarrow> modest s s'"
  by (rule modestI) (auto simp: deactivated_def flagged_def split: if_splits)

lemma move_modest:
  assumes ok: "schema_ok s" and run: "move_org_product_version org_id pid aid target s = Inr (res, s')"
  shows "modest s s'"
proof -
  from move_InrD[OF run] obtain op c where a: "apply_move c op target s = Inr (res, s')" by metis
  let ?acc = "move_states (move_env_at c op target s) (move_claims op target s) s"
  have "modest s (mv_db ?acc)"
    using move_inv_states[OF move_env_at_ok[OF ok] ok] unfolding move_inv_def by blast
  moreover have "t_cstate s' = t_cstate (mv_db ?acc)"
    using apply_move_facts[OF ok a] unfolding moved_def by metis
  ultimately show ?thesis using modest_trans[OF _ modest_same] by blast
qed

lemma modest_add_states:
  assumes "schema_ok (add_states o' aid obs s)"
  shows "modest s (add_states o' aid obs s)"
proof (rule modestI)
  fix i cs' assume c: "get_state i (add_states o' aid obs s) = Some cs'" and j: "cs_status cs' \<in> set JUDGED_STATUSES"
  show "\<exists>cs. get_state i s = Some cs \<and> cs_status cs = cs_status cs'"
  proof (cases "get_state i s")
    case None
    then have "cs' \<in> set (insert_rows (mk_state o' aid) (next_id s) obs)"
      using c tget_SomeD by (fastforce simp: tget_append)
    then have "cs_status cs' = NotMet" using insert_states by (fastforce simp: verdict_def)
    then show ?thesis using j by simp
  next
    case (Some cs)
    then show ?thesis using c by (simp add: tget_append)
  qed
qed

lemma start_products_modest:
  assumes "schema_ok s" "foldres (start_product org_id aid) ops s = Inr s'"
  shows "modest s s'"
  using assms
proof (induction ops arbitrary: s)
  case (Cons op ops)
  obtain t where t: "start_product org_id aid op s = Inr t" "foldres (start_product org_id aid) ops t = Inr s'"
    using Cons.prems(2) by (cases "start_product org_id aid op s") simp_all
  have "modest s t"
    using t(1) modest_run_loop[OF Cons.prems(1)] modest_same[of s s]
    by (auto simp: start_product_def split: option.splits sum.splits)
  moreover have "modest t s'"
    by (rule Cons.IH[OF _ t(2)]) (use start_product_ok[OF Cons.prems(1) t(1)] touches_schema_ok Cons.prems(1) in blast)
  ultimately show ?case by (rule modest_trans)
qed (simp add: modest_same)

lemma start_modest:
  assumes ok: "engine_ok s" and run: "start_assessment org_id fw name ty s = Inr (i, s')"
  shows "modest s s'"
proof -
  from start_InrD[OF run] obtain s3 ops where
    s3: "foldres (start_product org_id i) ops (start_seeded org_id fw name ty s) = Inr s3" and
    s': "s' = snd (recompute_sprs i s3)" by metis
  have ok1: "schema_ok (start_seeded org_id fw name ty s)"
    using engine_ok_start_seeded(1)[OF ok] by (simp add: engine_ok_but_def)
  have "modest s (start_seeded org_id fw name ty s)"
    using modest_trans[OF modest_same modest_add_states] ok1
    by (simp add: start_seeded_def seed_control_states_def)
  from modest_trans[OF this start_products_modest[OF ok1 s3]]
  show ?thesis unfolding s' using modest_trans[OF _ modest_same] by (metis recompute_frame(8))
qed

lemma backfill_one_modest:
  assumes ok: "schema_ok s" and run: "backfill_one reason (results, s) a = (results', s')"
  shows "modest s s'"
proof (cases "missing_objectives a s = []")
  case True
  then show ?thesis using run by (simp add: backfill_one_def modest_same)
next
  case False
  let ?s1 = "add_states (a_org_id a) (a_id a) (map fst (missing_objectives a s)) s"
  have "schema_ok ?s1"
    by (rule schema_ok_add_states[OF ok missing_objectives_ok[OF ok]])
  then have m: "modest s ?s1" by (rule modest_add_states)
  have "t_cstate s' = t_cstate ?s1"
    using run False by (auto simp: backfill_one_def Let_def case_prod_unfold)
  from modest_trans[OF m modest_same[OF this]] show ?thesis .
qed

lemma backfill_modest:
  assumes ok: "engine_ok s" and run: "backfill_missing_control_states reason dry s = (results, s')"
  shows "modest s s'"
proof -
  have "modest s (snd (foldl (backfill_one reason) (rs, s0) as))"
    if "engine_ok s0" "a_id ` set as \<subseteq> a_id ` set (t_assessment s0)" "modest s s0" for rs s0 as
    using that
  proof (induction as arbitrary: rs s0)
    case (Cons a as)
    obtain rs1 s1 where b: "backfill_one reason (rs, s0) a = (rs1, s1)" by (metis surj_pair)
    have "engine_ok s1 \<and> a_id ` set (t_assessment s1) = a_id ` set (t_assessment s0)"
      using backfill_one_engine_ok[OF Cons.prems(1) _ b] Cons.prems(2) by simp
    moreover have "modest s s1"
      using modest_trans[OF Cons.prems(3) backfill_one_modest[OF _ b]] Cons.prems(1) by (simp add: engine_ok_def)
    ultimately show ?case using Cons.IH[of s1 rs1] Cons.prems(2) by (simp add: b)
  qed simp
  from this[OF ok subset_refl modest_same[OF refl], of "[]"]
  show ?thesis using run modest_same[of s s]
    by (auto simp: backfill_missing_control_states_def case_prod_unfold Let_def split: if_splits)
qed

lemma serve_modest:
  assumes ok: "engine_ok s" and run: "serve r s = Inr s'"
  shows "modest s s'"
proof -
  have sok: "schema_ok s" using ok by (simp add: engine_ok_def)
  show ?thesis
  proof (cases r)
    case (StartAssessment a b c d)
    then show ?thesis using run start_modest[OF ok] by (auto dest!: map_sum_Inr)
  next
    case (Activate a b c d e)
    then show ?thesis using run activate_modest[OF sok] by (auto dest!: map_sum_Inr)
  next
    case (Deactivate a b c d e)
    then show ?thesis
      using run deactivate_facts[OF sok] deactivated_modest by (auto dest!: map_sum_Inr) metis
  next
    case (MoveVersion a b c d)
    then show ?thesis using run move_modest[OF sok] by (auto dest!: map_sum_Inr)
  next
    case (Complete a b)
    then show ?thesis using run by (auto elim!: complete_InrD intro: modest_same simp: update_assessment_def)
  next
    case (Reopen a b)
    then show ?thesis using run by (auto elim!: reopen_InrD intro: modest_same simp: update_assessment_def)
  next
    case (CarryRaci a b c)
    then show ?thesis using run copy_forward_db by (fastforce dest!: map_sum_Inr intro: modest_same)
  next
    case (Backfill reason dry)
    obtain results u where "backfill_missing_control_states reason dry s = (results, u)"
      by (cases "backfill_missing_control_states reason dry s")
    then show ?thesis using run Backfill backfill_modest[OF ok] by simp
  qed
qed

end
