(* ===== verification/Score_Facts.thy ===== *)
theory Score_Facts
  imports Judgement_Facts
begin

section \<open>The score of an assessment\<close>

text \<open>
  The score as a sum over controls. \<open>weighs w s\<close> says that a control's identifier
  determines its weight, as it does within one framework: \<open>w\<close> gives it.
\<close>

definition weighs :: "(string \<Rightarrow> int) \<Rightarrow> db \<Rightarrow> bool" where
  "weighs w s \<longleftrightarrow> (\<forall>c \<in> set (t_control s). c_sprs_weight c = w (c_control_id c))"

definition unmet :: "uuid \<Rightarrow> db \<Rightarrow> string set" where
  "unmet aid s = {c. control_unmet aid s c}"

lemma weighs_catalog: "weighs w s \<Longrightarrow> catalog_eq s s' \<Longrightarrow> weighs w s'"
  by (simp add: weighs_def catalog_eq_def)

lemma scoring_row_control:
  assumes "row \<in> set (scoring_rows aid s)"
  shows "row_control row \<in> c_control_id ` set (t_control s)"
    and "weighs w s \<Longrightarrow> row_weight row = w (row_control row)"
proof -
  obtain cs ob c where row: "row = (cs, ob, c)" by (metis prod_cases3)
  have "get_control (ob_control_id ob) s = Some c" using assms unfolding row in_scoring_rows by simp
  then have "c \<in> set (t_control s)" by (simp add: tget_SomeD)
  then show "row_control row \<in> c_control_id ` set (t_control s)"
    and "weighs w s \<Longrightarrow> row_weight row = w (row_control row)"
    unfolding row by (auto simp: weighs_def)
qed

lemma unmet_controls: "unmet aid s \<subseteq> c_control_id ` set (t_control s)"
  using scoring_row_control(1) unfolding unmet_def control_unmet_def by blast

lemma finite_unmet [simp]: "finite (unmet aid s)"
  by (rule finite_subset[OF unmet_controls]) simp

lemma weights_of_rows:
  assumes "weighs w s"
  shows "distinct (map fst (fst (scoring_inputs aid s)))"
    and "(c, v) \<in> set (fst (scoring_inputs aid s)) \<Longrightarrow> v = w c"
    and "fst ` set (fst (scoring_inputs aid s)) = row_control ` set (scoring_rows aid s)"
proof -
  let ?rows = "scoring_rows aid s"
  let ?ws = "dput_all row_control row_weight [] ?rows"
  have ws: "fst (scoring_inputs aid s) = ?ws" by (simp add: scoring_inputs_eq)
  have d: "distinct (map fst ?ws)" by (rule distinct_dput_all) simp
  show "distinct (map fst (fst (scoring_inputs aid s)))" unfolding ws by (rule d)
  have m: "map_of ?ws = map_of (rev (map (\<lambda>x. (row_control x, row_weight x)) ?rows))"
    by (simp add: map_of_dput_all)
  show "v = w c" if "(c, v) \<in> set (fst (scoring_inputs aid s))"
  proof -
    have "map_of ?ws c = Some v" using that d unfolding ws by simp
    then have "(c, v) \<in> set (map (\<lambda>x. (row_control x, row_weight x)) ?rows)"
      unfolding m using map_of_SomeD by fastforce
    then show ?thesis using scoring_row_control(2)[OF _ assms] by auto
  qed
  have "dom (map_of ?ws) = row_control ` set ?rows" unfolding m dom_map_of_conv_image_fst by force
  then show "fst ` set (fst (scoring_inputs aid s)) = row_control ` set ?rows"
    unfolding ws dom_map_of_conv_image_fst .
qed

lemma sprs_of_unmet:
  assumes ok: "schema_ok s" and w: "weighs w s"
  shows "sprs_of aid s = SPRS_MAX - (\<Sum>c \<in> unmet aid s. w c)"
proof -
  let ?ws = "fst (scoring_inputs aid s)" and ?D = "set (deducting aid s)"
  let ?f = "filter (\<lambda>(c, _). c \<in> ?D) ?ws"
  note W = weights_of_rows[OF w, where aid = aid]
  have D: "?D = unmet aid s"
    using ok deducting_iff unfolding schema_ok_def unmet_def by blast
  have val: "map snd ?f = map w (map fst ?f)" using W(2) by (auto simp: case_prod_unfold)
  have "distinct (map fst ?f)" by (rule distinct_map_filter[OF W(1)])
  then have "sum_list (map w (map fst ?f)) = (\<Sum>c \<in> set (map fst ?f). w c)"
    by (rule sum_list_distinct_conv_sum_set)
  moreover have "set (map fst ?f) = unmet aid s"
  proof -
    have "set (map fst ?f) = fst ` set ?ws \<inter> ?D" by (auto simp: image_iff)
    also have "\<dots> = unmet aid s"
      unfolding W(3) D by (auto simp: unmet_def control_unmet_def)
    finally show ?thesis .
  qed
  ultimately show ?thesis unfolding sprs_of_deducting val by simp
qed

lemma score_bounds:
  assumes ok: "schema_ok s" and w: "weighs w s" "\<And>c. 0 \<le> w c"
  shows "sprs_of aid s \<le> SPRS_MAX"
    and "SPRS_MAX - (\<Sum>c \<in> c_control_id ` set (t_control s). w c) \<le> sprs_of aid s"
proof -
  have "0 \<le> (\<Sum>c \<in> unmet aid s. w c)" by (rule sum_nonneg) (rule w(2))
  then show "sprs_of aid s \<le> SPRS_MAX" by (simp add: sprs_of_unmet[OF ok w(1)])
  have "(\<Sum>c \<in> unmet aid s. w c) \<le> (\<Sum>c \<in> c_control_id ` set (t_control s). w c)"
    by (rule sum_mono2[OF _ unmet_controls]) (simp_all add: w(2))
  then show "SPRS_MAX - (\<Sum>c \<in> c_control_id ` set (t_control s). w c) \<le> sprs_of aid s"
    by (simp add: sprs_of_unmet[OF ok w(1)])
qed

subsection \<open>Nothing automatic raises it\<close>

text \<open>Every control state stays, with its assessment and objective.\<close>

definition keeps_states :: "db \<Rightarrow> db \<Rightarrow> bool" where
  "keeps_states s s' \<longleftrightarrow> (\<forall>i cs. get_state i s = Some cs \<longrightarrow>
     (\<exists>cs'. get_state i s' = Some cs' \<and> state_key cs' = state_key cs))"

lemma keeps_states_same: "t_cstate s' = t_cstate s \<Longrightarrow> keeps_states s s'"
  by (simp add: keeps_states_def)

lemma keeps_states_trans: "keeps_states s t \<Longrightarrow> keeps_states t u \<Longrightarrow> keeps_states s u"
  unfolding keeps_states_def by metis

lemma touches_keeps: "touches aid s s' \<Longrightarrow> keeps_states s s'"
  unfolding keeps_states_def
proof (intro allI impI)
  fix i cs assume t: "touches aid s s'" and c: "get_state i s = Some cs"
  then have "map_option state_key (get_state i s') = Some (state_key cs)"
    using touches_get_state[OF t, of i] by simp
  then show "\<exists>cs'. get_state i s' = Some cs' \<and> state_key cs' = state_key cs" by auto
qed

lemma keeps_add_states: "keeps_states s (add_states o' aid obs s)"
  by (simp add: keeps_states_def tget_append)

lemma satisfied_judged: "satisfied st \<Longrightarrow> st \<in> set JUDGED_STATUSES"
  by (auto simp: satisfied_def JUDGED_STATUSES_def)

lemma unmet_mono:
  assumes keep: "keeps_states s s'" and c: "catalog_eq s s'" and ok0: "schema_ok s"
    and m: "\<And>i cs cs'. get_state i s = Some cs \<Longrightarrow> get_state i s' = Some cs' \<Longrightarrow> satisfied (cs_status cs') \<Longrightarrow>
      satisfied (cs_status cs)"
  shows "unmet aid s \<subseteq> unmet aid s'"
proof
  fix k assume "k \<in> unmet aid s"
  then obtain cs ob ct where r: "(cs, ob, ct) \<in> set (scoring_rows aid s)" "c_control_id ct = k"
    "\<not> satisfied (cs_status cs)" unfolding unmet_def control_unmet_def by auto
  have "cs \<in> set (t_cstate s)" using r(1) by (simp add: in_scoring_rows)
  moreover have "pk_ok cs_id (next_id s) (t_cstate s)" using ok0 by (simp add: schema_ok_def states_ok_def)
  ultimately have cs: "get_state (cs_id cs) s = Some cs" by (metis pk_ok_tget)
  obtain cs' where cs': "get_state (cs_id cs) s' = Some cs'" "state_key cs' = state_key cs"
    using keep cs unfolding keeps_states_def by blast
  have "\<not> satisfied (cs_status cs')" using m[OF cs cs'(1)] r(3) by blast
  moreover have "(cs', ob, ct) \<in> set (scoring_rows aid s')"
    using r(1) cs' tget_SomeD[OF cs'(1)] c by (simp add: in_scoring_rows state_key_def catalog_eq_def)
  ultimately show "k \<in> unmet aid s'" using r(2) unfolding unmet_def control_unmet_def by force
qed

lemma modest_satisfied:
  "modest s s' \<Longrightarrow> get_state i s = Some cs \<Longrightarrow> get_state i s' = Some cs' \<Longrightarrow> satisfied (cs_status cs') \<Longrightarrow>
     satisfied (cs_status cs)"
  using satisfied_judged unfolding modest_def by fastforce

lemma unmet_grows:
  assumes "keeps_states s s'" "modest s s'" "catalog_eq s s'" "schema_ok s"
  shows "unmet aid s \<subseteq> unmet aid s'"
  by (rule unmet_mono[OF assms(1,3,4) modest_satisfied[OF assms(2)]])

text \<open>Stored scores, compared through the controls that deduct.\<close>

lemma stored_score:
  assumes "engine_ok s" "get_assessment aid s = Some a"
  shows "a_sprs_score a = Some (sprs_of aid s)"
  using assms tget_SomeD[OF assms(2)] unfolding engine_ok_def all_scores_current_def by blast

lemma stored_score_antimono:
  assumes "engine_ok s" "engine_ok s'" "catalog_eq s s'" "weighs w s" "\<And>c. 0 \<le> w c"
    and "get_assessment aid s = Some a" "get_assessment aid s' = Some a'" "unmet aid s \<subseteq> unmet aid s'"
  shows "the (a_sprs_score a') \<le> the (a_sprs_score a)"
proof -
  have "(\<Sum>c \<in> unmet aid s. w c) \<le> (\<Sum>c \<in> unmet aid s'. w c)"
    using assms(8) by (intro sum_mono2) (simp_all add: assms(5))
  moreover have "schema_ok s" "schema_ok s'" using assms(1,2) by (simp_all add: engine_ok_def)
  ultimately show ?thesis
    using stored_score[OF assms(1,6)] stored_score[OF assms(2,7)]
      sprs_of_unmet[OF _ assms(4)] sprs_of_unmet[OF _ weighs_catalog[OF assms(4,3)]] by simp
qed

lemma activate_keeps:
  assumes "schema_ok s" "activate_org_product org_id pid aid nts ds s = Inr (res, s')"
  shows "keeps_states s s'"
proof -
  have "\<exists>u. touches aid s u \<and> t_cstate s' = t_cstate u"
    using activate_touches[OF assms] by (metis log_event_frame(10) recompute_frame(8))
  then show ?thesis using keeps_states_trans[OF touches_keeps keeps_states_same] by blast
qed

lemma backfill_keeps: "keeps_states s (snd (backfill_missing_control_states reason dry s))"
proof -
  have one: "keeps_states u (snd (backfill_one reason (rs, u) a))" for u rs a
  proof -
    have "t_cstate (snd (backfill_one reason (rs, u) a)) =
        t_cstate (if missing_objectives a u = [] then u
          else add_states (a_org_id a) (a_id a) (map fst (missing_objectives a u)) u)"
      by (simp add: backfill_one_def Let_def case_prod_unfold)
    then show ?thesis using keeps_add_states keeps_states_same by (simp add: keeps_states_def)
  qed
  have "keeps_states s (snd (foldl (backfill_one reason) (rs, s) as))" for rs as
  proof (rule foldl_inv[where P = "\<lambda>p. keeps_states s (snd p)"])
    show "keeps_states s (snd (rs, s))" by (simp add: keeps_states_same)
    show "keeps_states s (snd (backfill_one reason p a))" if "keeps_states s (snd p)" for p a
      using keeps_states_trans[OF that one[of "snd p" "fst p" a]] by simp
  qed
  then show ?thesis using keeps_states_same[of s s]
    by (simp add: backfill_missing_control_states_def case_prod_unfold Let_def)
qed

lemma serve_keeps:
  assumes ok: "engine_ok s" and run: "serve r s = Inr s'"
  shows "keeps_states s s'"
proof -
  have sok: "schema_ok s" using ok by (simp add: engine_ok_def)
  show ?thesis
  proof (cases r)
    case (StartAssessment a b c d)
    then obtain i where r: "start_assessment a b c d s = Inr (i, s')" using run by (auto dest!: map_sum_Inr)
    from start_InrD[OF r] obtain s3 ops where
      s3: "foldres (start_product a i) ops (start_seeded a b c d s) = Inr s3" and
      s': "s' = snd (recompute_sprs i s3)" by metis
    have ok1: "schema_ok (start_seeded a b c d s)"
      using engine_ok_start_seeded(1)[OF ok] by (simp add: engine_ok_but_def)
    have "keeps_states s (start_seeded a b c d s)"
      using keeps_states_trans[OF keeps_states_same keeps_add_states]
      by (simp add: start_seeded_def seed_control_states_def)
    from keeps_states_trans[OF this touches_keeps] start_products_ok[OF ok1 s3]
    have "keeps_states s s3" by blast
    then show ?thesis unfolding s' using keeps_states_trans[OF _ keeps_states_same] by (metis recompute_frame(8))
  next
    case (Activate a b c d e)
    then obtain res where r: "activate_org_product a b c d e s = Inr (res, s')" using run by (auto dest!: map_sum_Inr)
    show ?thesis by (rule activate_keeps[OF sok r])
  next
    case (Deactivate a b c d e)
    then obtain res where r: "deactivate_org_product a b c d e s = Inr (res, s')" using run by (auto dest!: map_sum_Inr)
    from deactivate_facts[OF sok r] obtain u where "touches c s u" "s' = snd (recompute_sprs c u)" by metis
    then show ?thesis using keeps_states_trans[OF touches_keeps keeps_states_same] by (metis recompute_frame(8))
  next
    case (MoveVersion a b c d)
    then obtain res where r: "move_org_product_version a b c d s = Inr (res, s')" using run by (auto dest!: map_sum_Inr)
    from move_InrD[OF r] obtain op k where a: "apply_move k op d s = Inr (res, s')" by metis
    from apply_move_facts[OF sok a] obtain u where "touches (mc_assessment k) s u"
      "s' = snd (recompute_sprs (mc_assessment k) u)" by metis
    then show ?thesis using keeps_states_trans[OF touches_keeps keeps_states_same] by (metis recompute_frame(8))
  next
    case (Complete a b)
    then show ?thesis using run by (auto elim!: complete_InrD intro: keeps_states_same simp: update_assessment_def)
  next
    case (Reopen a b)
    then show ?thesis using run by (auto elim!: reopen_InrD intro: keeps_states_same simp: update_assessment_def)
  next
    case (CarryRaci a b c)
    then show ?thesis using run copy_forward_db by (fastforce dest!: map_sum_Inr intro: keeps_states_same)
  next
    case (Backfill reason dry)
    then show ?thesis using run backfill_keeps[of s reason dry] by simp
  qed
qed

end
