(* ===== verification/Engine_Properties.thy ===== *)
theory Engine_Properties
  imports Example Score_Facts
begin

section \<open>Properties of the engine as a whole\<close>

text \<open>
  What holds of any sequence of requests: the invariant, the ledgers, the score, and that the
  engine never passes a judgement of its own. A request here is one handler's call, committed as a
  whole or rolled back.
\<close>

text \<open>After any sequence of requests to the engine, each committed or rolled back as a
  whole, every constraint of the schema holds, every control state belongs to an assessment of the
  database, the stored SPRS score of every assessment is the score of its control states, and the
  status and responsibility of every control state are the ones its last history row states, or
  the seeded ones when it has no history.\<close>

theorem requests_keep_invariant:
  assumes "engine_ok s"
  shows "engine_ok (foldl serve_or_rollback s rs)"
  using rollback_run[OF assms] by blast

text \<open>C5. Whenever a request changes the status or the responsibility of a control state, it
  has added a history row for that state that says what they became, and it is the last one.\<close>

theorem every_change_has_its_history_row:
  assumes "engine_ok s" "serve r s = Inr s'" "get_state i s = Some cs" "get_state i s' = Some cs'"
    and "verdict cs' \<noteq> verdict cs"
  shows "\<exists>h \<in> set (drop (length (t_history s)) (t_history s')).
    last_row i (t_history s') = Some h \<and> h_state_id h = i \<and> verdict cs' = (h_new_status h, h_new_resp h)"
proof -
  have ok': "engine_ok s'" and pre: "append_only s s'" using serve_ok[OF assms(1,2)] by simp_all
  obtain new where new: "t_history s' = t_history s @ new"
    using pre unfolding append_only_def prefix_def by blast
  have v: "verdict c = (case last_row (cs_id c) (t_history u) of None \<Rightarrow> (NotMet, CustomerOwns)
      | Some h \<Rightarrow> (h_new_status h, h_new_resp h))" if "engine_ok u" "c \<in> set (t_cstate u)" for u c
    using that unfolding engine_ok_def explained_def by blast
  have cs: "cs \<in> set (t_cstate s)" "cs_id cs = i" and cs': "cs' \<in> set (t_cstate s')" "cs_id cs' = i"
    using tget_SomeD[OF assms(3)] tget_SomeD[OF assms(4)] by simp_all
  note v1 = v[OF assms(1) cs(1)] and v2 = v[OF ok' cs'(1)]
  show ?thesis
  proof (cases "last_row i new")
    case None
    then show ?thesis using v1 v2 assms(5) by (simp add: new last_row_append cs(2) cs'(2))
  next
    case (Some h)
    then have l: "last_row i (t_history s') = Some h" by (simp add: new last_row_append)
    then have "verdict cs' = (h_new_status h, h_new_resp h)" using v2 by (simp add: cs'(2))
    then show ?thesis using l last_row_Some[OF Some] by (auto simp: new)
  qed
qed

lemma deactivation_changes:
  "\<exists>s' cs cs'. serve (Deactivate 1 30 70 None None) active_tenant = Inr s' \<and>
     get_state 80 active_tenant = Some cs \<and> get_state 80 s' = Some cs' \<and> verdict cs' \<noteq> verdict cs"
proof -
  obtain res s' where run: "deactivate_org_product 1 30 70 None None active_tenant = Inr (res, s')"
    using active_tenant_deactivates by blast
  obtain u where "deactivated 1 30 70 active_tenant res s'"
    using deactivate_facts[OF example_schema(2) run] by metis
  moreover have "80 \<in> set (sourced_ids 30 70 active_tenant)" by code_simp
  ultimately have "get_state 80 s' = map_option (flagged (remaining_after 30 70 active_tenant)) (get_state 80 active_tenant)"
    by (simp add: deactivated_def)
  moreover have "map_option cs_status (get_state 80 active_tenant) = Some PendingEvidence" by code_simp
  ultimately show ?thesis using run
    by (auto simp: verdict_def flagged_def)
qed

theorem every_change_has_its_history_row_witness:
  "\<exists>s' h. serve (Deactivate 1 30 70 None None) active_tenant = Inr s' \<and> h \<in> set (t_history s') \<and>
     last_row 80 (t_history s') = Some h"
proof -
  obtain s' cs cs' where c: "serve (Deactivate 1 30 70 None None) active_tenant = Inr s'"
    "get_state 80 active_tenant = Some cs" "get_state 80 s' = Some cs'" "verdict cs' \<noteq> verdict cs"
    using deactivation_changes by blast
  from every_change_has_its_history_row[OF active_tenant_ok c] obtain h where
    h: "h \<in> set (drop (length (t_history active_tenant)) (t_history s'))" "last_row 80 (t_history s') = Some h"
    by (elim bexE conjE)
  have "h \<in> set (t_history s')" by (rule in_set_dropD[OF h(1)])
  then show ?thesis using c(1) h(2) by (intro exI conjI)
qed

text \<open>The audit log, the history of the control states and the score snapshots only
  grow, and no request of the engine writes the catalog, the baseline library, the evidence or the
  contacts.\<close>

theorem ledgers_only_grow:
  assumes "engine_ok s"
  shows "prefix (t_audit s) (t_audit (foldl serve_or_rollback s rs)) \<and>
    prefix (t_history s) (t_history (foldl serve_or_rollback s rs)) \<and>
    prefix (t_snapshot s) (t_snapshot (foldl serve_or_rollback s rs)) \<and>
    catalog_eq s (foldl serve_or_rollback s rs)"
  using rollback_run[OF assms] by (simp add: append_only_def)

text \<open>C4. After any sequence of requests, the stored score of an assessment is 110 less the
  weights of the controls that have an objective, in that assessment, at a status other than met
  or inherited. (A control's identifier determines its weight.)\<close>

theorem stored_score_is_deductions:
  assumes "engine_ok s" "weighs w s" "get_assessment aid (foldl serve_or_rollback s rs) = Some a"
  shows "a_sprs_score a = Some (110 - (\<Sum>c \<in> unmet aid (foldl serve_or_rollback s rs). w c))"
proof -
  let ?u = "foldl serve_or_rollback s rs"
  have ok: "engine_ok ?u" and cat: "catalog_eq s ?u" using rollback_run[OF assms(1)] by simp_all
  have "a \<in> set (t_assessment ?u)" "a_id a = aid" using tget_SomeD[OF assms(3)] by simp_all
  then have "a_sprs_score a = Some (sprs_of aid ?u)"
    using ok unfolding engine_ok_def all_scores_current_def by blast
  moreover have "schema_ok ?u" using ok by (simp add: engine_ok_def)
  ultimately show ?thesis
    using sprs_of_unmet[OF _ weighs_catalog[OF assms(2) cat]] by (simp add: SPRS_MAX_def)
qed

theorem stored_score_is_deductions_witness:
  "\<exists>a. get_assessment 70 (foldl serve_or_rollback active_tenant []) = Some a \<and>
     a_sprs_score a = Some (110 - (\<Sum>c \<in> unmet 70 active_tenant. tenant_weights c))"
proof -
  have w: "weighs tenant_weights active_tenant" unfolding weighs_def by (rule active_tenant_weighs)
  have "get_assessment 70 active_tenant \<noteq> None" by code_simp
  then obtain a where a: "get_assessment 70 (foldl serve_or_rollback active_tenant []) = Some a" by auto
  from stored_score_is_deductions[OF active_tenant_ok w a] a show ?thesis by simp
qed

text \<open>C16. Over a catalog of 44 controls of weight 5, 14 of weight 3 and 52 of weight 1, with
  distinct identifiers, every score is between -204 and 110.\<close>

theorem score_between:
  assumes "schema_ok s" "distinct (map c_control_id (t_control s))"
    and "mset (map c_sprs_weight (t_control s)) = mset (replicate 44 5 @ replicate 14 3 @ replicate 52 1)"
  shows "-204 \<le> sprs_of aid s \<and> sprs_of aid s \<le> 110"
proof -
  let ?names = "map c_control_id (t_control s)"
  define w where "w c = (case map_of (map (\<lambda>r. (c_control_id r, c_sprs_weight r)) (t_control s)) c of
      None \<Rightarrow> 0 | Some v \<Rightarrow> v)" for c
  have d: "distinct (map fst (map (\<lambda>r. (c_control_id r, c_sprs_weight r)) (t_control s)))"
    using assms(2) by (simp add: o_def)
  have eq: "c_sprs_weight r = w (c_control_id r)" if "r \<in> set (t_control s)" for r
    using that map_of_is_SomeI[OF d, of "c_control_id r" "c_sprs_weight r"] by (simp add: w_def)
  then have ws: "weighs w s" by (simp add: weighs_def)
  have "set_mset (mset (map c_sprs_weight (t_control s))) \<subseteq> {1, 3, 5}" unfolding assms(3) by auto
  then have pos: "v \<in> {1, 3, 5}" if "v \<in> c_sprs_weight ` set (t_control s)" for v using that by auto
  have nn: "0 \<le> w c" for c
  proof (cases "map_of (map (\<lambda>r. (c_control_id r, c_sprs_weight r)) (t_control s)) c")
    case (Some v)
    then have "v \<in> c_sprs_weight ` set (t_control s)" using map_of_SomeD[OF Some] by auto
    then show ?thesis using pos[of v] Some by (auto simp: w_def)
  qed (simp add: w_def)
  have "(\<Sum>c \<in> c_control_id ` set (t_control s). w c) = sum_list (map w ?names)"
    using sum_list_distinct_conv_sum_set[OF assms(2), of w] by simp
  also have "\<dots> = sum_list (map c_sprs_weight (t_control s))"
    by (rule arg_cong[where f = sum_list]) (simp add: eq)
  also have "\<dots> = sum_mset (mset (map c_sprs_weight (t_control s)))" by (rule sum_mset_sum_list[symmetric])
  also have "\<dots> = 314" unfolding assms(3) by (simp add: sum_mset_sum_list sum_list_replicate)
  finally show ?thesis using score_bounds[OF assms(1) ws nn] by (simp add: SPRS_MAX_def)
qed

definition full_catalog :: db where
  "full_catalog = tenant\<lparr>next_id := 1000,
     t_control := map (\<lambda>i. \<lparr>c_id = i, c_framework_id = 2, c_control_id = replicate i (CHR ''x''),
       c_sprs_weight = (if i < 44 then 5 else if i < 58 then 3 else 1)\<rparr>) [0..<110]\<rparr>"

lemma full_catalog_ok: "schema_ok full_catalog"
proof -
  have "pk_ok c_id 1000 (t_control full_catalog)"
    by (simp add: full_catalog_def pk_ok_def o_def)
  moreover have "t_control tenant \<noteq> []" by (simp add: tenant_def)
  ultimately show ?thesis using example_schema(1)
    unfolding schema_ok_def catalog_ok_def
    by (auto simp: full_catalog_def tenant_def intro: pk_ok_mono states_ok_mono contribs_ok_mono
        org_products_ok_mono links_ok_mono task_links_ok_mono)
qed

theorem score_between_witness: "-204 \<le> sprs_of 70 full_catalog \<and> sprs_of 70 full_catalog \<le> 110"
proof (rule score_between[OF full_catalog_ok])
  have "map length (map c_control_id (t_control full_catalog)) = [0..<110]"
    by (simp add: full_catalog_def o_def)
  then show "distinct (map c_control_id (t_control full_catalog))"
    by (metis distinct_map distinct_upt)
  have "mset (map c_sprs_weight (t_control full_catalog)) = mset (map (\<lambda>i. if i < 44 then 5 else if i < 58 then 3 else 1) [0..<110])"
    by (simp add: full_catalog_def o_def)
  also have "\<dots> = mset (replicate 44 5 @ replicate 14 3 @ replicate 52 (1 :: int))" by code_simp
  finally show "mset (map c_sprs_weight (t_control full_catalog)) =
      mset (replicate 44 5 @ replicate 14 3 @ replicate 52 1)" .
qed

text \<open>No request of the engine produces a person's verdict: a control state at met, partial,
  not applicable or inherited after a request was at that status before it.\<close>

theorem no_request_judges:
  assumes "engine_ok s" "serve r s = Inr s'" "get_state i s' = Some cs'" "cs_status cs' \<in> set JUDGED_STATUSES"
  shows "\<exists>cs. get_state i s = Some cs \<and> cs_status cs = cs_status cs'"
  using serve_modest[OF assms(1,2)] assms(3,4) by (simp add: modest_def)

text \<open>No request of the engine raises the stored score of an assessment, when no weight is
  negative: activating and deactivating tools, moving versions and backfilling can only lower it.\<close>

theorem no_request_raises_score:
  assumes "engine_ok s" "serve r s = Inr s'" "weighs w s" "\<And>c. 0 \<le> w c"
    and "get_assessment aid s = Some a" "get_assessment aid s' = Some a'"
  shows "the (a_sprs_score a') \<le> the (a_sprs_score a)"
proof -
  have after: "engine_ok s'" "catalog_eq s s'" using serve_ok[OF assms(1,2)] by simp_all
  have "unmet aid s \<subseteq> unmet aid s'"
    by (rule unmet_grows[OF serve_keeps[OF assms(1,2)] serve_modest[OF assms(1,2)] after(2)])
      (use assms(1) in \<open>simp add: engine_ok_def\<close>)
  then show ?thesis by (rule stored_score_antimono[OF assms(1) after assms(3-6)])
qed

end
