(* ===== verification/Text_Format.thy ===== *)
theory Text_Format
  imports Date_Time
begin

section \<open>Texts\<close>

text \<open>
  The formatting of the standard library that ends up in stored texts: \<open>date.isoformat\<close>
  and \<open>datetime.isoformat\<close> (every datetime is in UTC), \<open>html.escape\<close>,
  \<open>str(uuid)\<close> and the length of \<open>str.encode()\<close>. A character is a code
  point below 256.
\<close>

definition pad_left :: "nat \<Rightarrow> string \<Rightarrow> string" where
  "pad_left n s = replicate (n - length s) CHR ''0'' @ s"

fun iso_date :: "datetime \<Rightarrow> string" where
  "iso_date (DT y m d us) =
     pad_left 4 (str_int y) @ ''-'' @ pad_left 2 (str_int m) @ ''-'' @ pad_left 2 (str_int d)"

fun iso_time :: "datetime \<Rightarrow> string" where
  "iso_time (DT y m d us) =
     (let secs = us div 1000000; micros = us mod 1000000
      in pad_left 2 (str_int (secs div 3600)) @ '':'' @
         pad_left 2 (str_int (secs div 60 mod 60)) @ '':'' @
         pad_left 2 (str_int (secs mod 60)) @
         (if micros = 0 then '''' else ''.'' @ pad_left 6 (str_int micros)))"

definition isoformat :: "datetime \<Rightarrow> string" where
  "isoformat t = iso_date t @ ''T'' @ iso_time t @ ''+00:00''"

definition escape_char :: "char \<Rightarrow> string" where
  "escape_char c =
     (if c = CHR ''&'' then ''&amp;''
      else if c = CHR ''<'' then ''&lt;''
      else if c = CHR ''>'' then ''&gt;''
      else if c = CHR 0x22 then ''&quot;''
      else if c = CHR 0x27 then ''&#x27;''
      else [c])"

definition html_escape :: "string \<Rightarrow> string" where
  "html_escape s = concat (map escape_char s)"

definition hex_digit :: "nat \<Rightarrow> char" where
  "hex_digit d = (if d < 10 then char_of (48 + d) else char_of (87 + d))"

definition uuid_text :: "uuid \<Rightarrow> string" where
  "uuid_text i =
     (let h = map (\<lambda>k. hex_digit (i div 16 ^ (31 - k) mod 16)) [0..<32]
      in take 8 h @ ''-'' @ take 4 (drop 8 h) @ ''-'' @ take 4 (drop 12 h) @ ''-'' @
         take 4 (drop 16 h) @ ''-'' @ drop 20 h)"

definition encoded_length :: "string \<Rightarrow> int" where
  "encoded_length s = int (length s) + int (length (filter (\<lambda>c. (128::nat) \<le> of_char c) s))"

subsection \<open>Escaped text is no markup\<close>

definition markup :: "char set" where
  "markup = {CHR ''<'', CHR ''>'', CHR 0x22, CHR 0x27}"

lemma escape_char_no_markup: "set (escape_char c) \<inter> markup = {}"
  by (auto simp: escape_char_def markup_def)

lemma html_escape_no_markup: "set (html_escape s) \<inter> markup = {}"
  using escape_char_no_markup by (auto simp: html_escape_def)

lemma html_escape_append: "html_escape (s @ t) = html_escape s @ html_escape t"
  by (simp add: html_escape_def)

text \<open>Escaping loses nothing: the escapes of two different characters are not prefixes of one
  another.\<close>

lemma escape_char_eq:
  assumes "escape_char c @ s = escape_char d @ t"
  shows "c = d \<and> s = t"
proof -
  have "escape_char c \<noteq> []" "escape_char d \<noteq> []" by (simp_all add: escape_char_def)
  then show ?thesis using assms by (auto simp: escape_char_def split: if_splits)
qed

lemma html_escape_inj: "html_escape s = html_escape t \<Longrightarrow> s = t"
proof (induction s arbitrary: t)
  case Nil
  have "escape_char c \<noteq> []" for c by (simp add: escape_char_def)
  then show ?case using Nil by (cases t) (auto simp: html_escape_def)
next
  case (Cons c s)
  have ne: "escape_char c \<noteq> []" by (simp add: escape_char_def)
  then obtain d t' where t: "t = d # t'"
    using Cons.prems by (cases t) (auto simp: html_escape_def)
  then have "escape_char c @ html_escape s = escape_char d @ html_escape t'"
    using Cons.prems by (simp add: html_escape_def)
  then show ?case using escape_char_eq Cons.IH t by metis
qed

end
