(* ===== verification/Scope_Domain.thy ===== *)
theory Scope_Domain
  imports Schema Text_Format
begin

section \<open>The scope graph's vocabulary\<close>

text \<open>
  \<open>backend/app/domain.py\<close> and \<open>natural_key.py\<close>: the kinds of authorized
  entity, where a record comes from, which attributes a connector may supply and which only a
  person writes, and what identifies an entity. Attributes are the JSON dictionary of the column;
  a constant set of names is the list of its members.
\<close>

subsection \<open>Vocabularies\<close>

datatype entity_type = Person | Process | Device | ExternalService | Software | Facility | DataStore

fun entity_type_value :: "entity_type \<Rightarrow> string" where
  "entity_type_value Person = ''person''"
| "entity_type_value Process = ''process''"
| "entity_type_value Device = ''device''"
| "entity_type_value ExternalService = ''external_service''"
| "entity_type_value Software = ''software''"
| "entity_type_value Facility = ''facility''"
| "entity_type_value DataStore = ''data_store''"

datatype scope_category =
  CuiAsset | Spa | Crma | SpecializedAsset | Esp | Csp | OutOfScope | Unclassified

fun scope_category_value :: "scope_category \<Rightarrow> string" where
  "scope_category_value CuiAsset = ''CUI Asset''"
| "scope_category_value Spa = ''SPA''"
| "scope_category_value Crma = ''CRMA''"
| "scope_category_value SpecializedAsset = ''Specialized Asset''"
| "scope_category_value Esp = ''ESP''"
| "scope_category_value Csp = ''CSP''"
| "scope_category_value OutOfScope = ''Out of Scope''"
| "scope_category_value Unclassified = ''Unclassified''"

datatype entity_status = EntityActive | EntityDecommissioned | PendingApproval

fun entity_status_value :: "entity_status \<Rightarrow> string" where
  "entity_status_value EntityActive = ''active''"
| "entity_status_value EntityDecommissioned = ''decommissioned''"
| "entity_status_value PendingApproval = ''pending_approval''"

datatype scope_source = Manual | Workbook | Csv | Liongard | DattoRmm | Entra

fun source_value :: "scope_source \<Rightarrow> string" where
  "source_value Manual = ''manual''"
| "source_value Workbook = ''workbook''"
| "source_value Csv = ''csv''"
| "source_value Liongard = ''liongard''"
| "source_value DattoRmm = ''datto_rmm''"
| "source_value Entra = ''entra''"

text \<open>\<open>EntityType(v)\<close> and its like: the member with that value, or a
  \<open>ValueError\<close>.\<close>

definition of_value :: "('a \<Rightarrow> string) \<Rightarrow> 'a list \<Rightarrow> string \<Rightarrow> 'a option" where
  "of_value value members v = find (\<lambda>m. value m = v) members"

definition entity_type_of :: "string \<Rightarrow> entity_type option" where
  "entity_type_of = of_value entity_type_value
     [Person, Process, Device, ExternalService, Software, Facility, DataStore]"

definition scope_category_of :: "string \<Rightarrow> scope_category option" where
  "scope_category_of = of_value scope_category_value
     [CuiAsset, Spa, Crma, SpecializedAsset, Esp, Csp, OutOfScope, Unclassified]"

definition entity_status_of :: "string \<Rightarrow> entity_status option" where
  "entity_status_of = of_value entity_status_value [EntityActive, EntityDecommissioned, PendingApproval]"

definition source_of :: "string \<Rightarrow> scope_source option" where
  "source_of = of_value source_value [Manual, Workbook, Csv, Liongard, DattoRmm, Entra]"

lemma of_value_values [simp]:
  "entity_type_of (entity_type_value t) = Some t" "scope_category_of (scope_category_value c) = Some c"
  "entity_status_of (entity_status_value st) = Some st" "source_of (source_value src) = Some src"
  subgoal by (cases t) (simp_all add: entity_type_of_def of_value_def)
  subgoal by (cases c) (simp_all add: scope_category_of_def of_value_def)
  subgoal by (cases st) (simp_all add: entity_status_of_def of_value_def)
  subgoal by (cases src) (simp_all add: source_of_def of_value_def)
  done

subsection \<open>Attributes\<close>

definition DEVICE_SOFTWARE_CANONICAL_ATTRIBUTES :: "string list" where
  "DEVICE_SOFTWARE_CANONICAL_ATTRIBUTES =
     [''make_oem'', ''model'', ''version'', ''responsible_contact_id'', ''device_subtype'',
      ''device_subtype_other'', ''asset_tag'', ''mac_addresses'', ''display_name'',
      ''last_login_user'', ''hostname'']"

definition DEVICE_SOFTWARE_COMPARABLE_ATTRIBUTES :: "string list" where
  "DEVICE_SOFTWARE_COMPARABLE_ATTRIBUTES =
     filter (\<lambda>k. k \<noteq> ''last_login_user'') DEVICE_SOFTWARE_CANONICAL_ATTRIBUTES"

definition PERSON_CANONICAL_ATTRIBUTES :: "string list" where
  "PERSON_CANONICAL_ATTRIBUTES = [''email'', ''display_name'', ''username'', ''enabled'']"

definition PERSON_COMPARABLE_ATTRIBUTES :: "string list" where
  "PERSON_COMPARABLE_ATTRIBUTES = PERSON_CANONICAL_ATTRIBUTES"

definition OPERATOR_OVERLAY_ATTRIBUTES :: "string list" where
  "OPERATOR_OVERLAY_ATTRIBUTES = [''location'', ''in_service_date'', ''decommissioned_date'', ''requested_by'']"

definition CONNECTOR_SOURCES :: "scope_source list" where
  "CONNECTOR_SOURCES = [Liongard, DattoRmm, Entra]"

fun CONNECTOR_FIELDS :: "entity_type \<Rightarrow> string list" where
  "CONNECTOR_FIELDS Device =
     filter (\<lambda>k. k \<noteq> ''responsible_contact_id'') DEVICE_SOFTWARE_CANONICAL_ATTRIBUTES"
| "CONNECTOR_FIELDS Software =
     filter (\<lambda>k. k \<noteq> ''responsible_contact_id'') DEVICE_SOFTWARE_CANONICAL_ATTRIBUTES"
| "CONNECTOR_FIELDS Person = PERSON_CANONICAL_ATTRIBUTES"
| "CONNECTOR_FIELDS _ = []"

text \<open>\<open>attributes.get(k)\<close>, and the values that say nothing.\<close>

definition dget :: "string \<Rightarrow> jdict \<Rightarrow> jval" where
  "dget k d = (case map_of d k of None \<Rightarrow> JNull | Some v \<Rightarrow> v)"

definition silent :: "jval \<Rightarrow> bool" where
  "silent v \<longleftrightarrow> v \<in> {JNull, JStr '''', JList []}"

definition connector_supplied_fields :: "entity_type \<Rightarrow> jdict \<Rightarrow> string list" where
  "connector_supplied_fields t attributes = filter (\<lambda>k. \<not> silent (dget k attributes)) (CONNECTOR_FIELDS t)"

subsection \<open>An entity\<close>

record canonical_entity =
  ce_entity_type :: entity_type
  ce_natural_key :: string
  ce_attributes :: jdict
  ce_scope_category :: "scope_category option"
  ce_status :: entity_status
  ce_in_boundary :: bool
  ce_source :: scope_source
  ce_source_ref :: "string option"

text \<open>The table \<open>scope_entity\<close>: its columns as rows hold them, the vocabularies
  being the only values \<open>repo.upsert\<close>, its one writer, writes.\<close>

record scope_entity =
  se_id :: uuid
  se_org_id :: uuid
  se_entity_type :: entity_type
  se_natural_key :: string
  se_scope_category :: "scope_category option"
  se_status :: entity_status
  se_in_boundary :: bool
  se_source :: scope_source
  se_source_ref :: "string option"
  se_last_verified_at :: "datetime option"
  se_attributes :: jdict

text \<open>\<open>CanonicalEntity.key\<close>, what the reconciler matches by.\<close>

definition match_key :: "entity_type \<Rightarrow> string \<Rightarrow> entity_type \<times> string" where
  "match_key t natural_key = (t, py_lower (py_strip natural_key))"

definition ce_key :: "canonical_entity \<Rightarrow> entity_type \<times> string" where
  "ce_key e = match_key (ce_entity_type e) (ce_natural_key e)"

datatype change_type = New | Changed | Missing | Unchanged

fun change_type_value :: "change_type \<Rightarrow> string" where
  "change_type_value New = ''new''"
| "change_type_value Changed = ''changed''"
| "change_type_value Missing = ''missing''"
| "change_type_value Unchanged = ''unchanged''"

record entity_change =
  ch_change_type :: change_type
  ch_entity_type :: entity_type
  ch_natural_key :: string
  ch_incoming :: "canonical_entity option"
  ch_current :: "canonical_entity option"
  ch_field_diffs :: "(string \<times> jval \<times> jval) list"

text \<open>\<open>ReconcileResult.summary\<close>.\<close>

definition summary :: "entity_change list \<Rightarrow> change_type \<Rightarrow> nat" where
  "summary changes t = length (filter (\<lambda>c. ch_change_type c = t) changes)"

subsection \<open>Stated gaps\<close>

text \<open>\<open>placeholder_reason\<close>: the reason of a \<open>[PLACEHOLDER - reason]\<close> cell.
  The regular expression is anchored at both ends and its reason is lazy, so the closing bracket
  is the last character that is no white space and the reason is what is left, stripped.\<close>

definition strip_prefix :: "string \<Rightarrow> string \<Rightarrow> string option" where
  "strip_prefix p s = (if py_lower (take (length p) s) = p then Some (drop (length p) s) else None)"

definition lstrip :: "string \<Rightarrow> string" where
  "lstrip s = dropWhile py_space s"

definition rstrip :: "string \<Rightarrow> string" where
  "rstrip s = rev (dropWhile py_space (rev s))"

definition placeholder_reason :: "string \<Rightarrow> string option" where
  "placeholder_reason value =
     (case strip_prefix ''['' (py_strip value) of None \<Rightarrow> None | Some inner \<Rightarrow>
      if inner = '''' \<or> last inner \<noteq> CHR '']'' then None
      else case strip_prefix ''placeholder'' (lstrip (butlast inner)) of None \<Rightarrow> None | Some rest \<Rightarrow>
        case strip_prefix ''-'' (lstrip rest) of None \<Rightarrow> None | Some reason \<Rightarrow>
          if py_strip reason = '''' then None else Some (py_strip reason))"

subsection \<open>The natural key\<close>

definition PLACEHOLDER_SERIALS :: "string list" where
  "PLACEHOLDER_SERIALS = [''system serial number'', ''to be filled by o.e.m.'', ''default string'',
     ''none'', ''0123456789'', ''not applicable'']"

text \<open>\<open>_TRAILING_NOTE.sub("", s)\<close>: the leftmost match of white space, a parenthesis,
  any text of one line, a closing parenthesis and white space to the end.\<close>

definition trailing_note :: "string \<Rightarrow> bool" where
  "trailing_note s \<longleftrightarrow>
     (case lstrip s of [] \<Rightarrow> False | c # rest \<Rightarrow>
        c = CHR ''('' \<and> rstrip rest \<noteq> '''' \<and> last (rstrip rest) = CHR '')'' \<and>
        CHR 0x0A \<notin> set (rstrip rest))"

fun drop_note :: "string \<Rightarrow> string" where
  "drop_note [] = []"
| "drop_note (c # s) = (if trailing_note (c # s) then [] else c # drop_note s)"

definition is_placeholder_serial :: "string option \<Rightarrow> bool" where
  "is_placeholder_serial value =
     (case value of None \<Rightarrow> False
      | Some s \<Rightarrow> py_lower (py_strip (drop_note s)) \<in> set PLACEHOLDER_SERIALS)"

definition identifying_value :: "string option \<Rightarrow> string option" where
  "identifying_value value =
     (case value of None \<Rightarrow> None | Some s \<Rightarrow>
        let t = py_strip s
        in if t = '''' \<or> placeholder_reason t \<noteq> None \<or> py_lower t = ''[placeholder]'' then None else Some t)"

definition or_blank :: "string option \<Rightarrow> string" where
  "or_blank v = (case v of None \<Rightarrow> '''' | Some t \<Rightarrow> t)"

definition device_natural_key :: "string option \<Rightarrow> string option \<Rightarrow> string" where
  "device_natural_key serial hostname =
     (case identifying_value serial of
        Some s \<Rightarrow> if \<not> is_placeholder_serial (Some s) then s else or_blank (identifying_value hostname)
      | None \<Rightarrow> or_blank (identifying_value hostname))"

fun first_value :: "string option list \<Rightarrow> string" where
  "first_value [] = ''''"
| "first_value (v # vs) = (case identifying_value v of Some t \<Rightarrow> t | None \<Rightarrow> first_value vs)"

definition person_natural_key :: "string option \<Rightarrow> string option \<Rightarrow> string option \<Rightarrow> string" where
  "person_natural_key email username display_name = first_value [email, username, display_name]"

end
