(* ===== verification/Assessment_Api.thy ===== *)
theory Assessment_Api
  imports Judgement_Facts Score_Facts Text_Format Scope_Domain
begin

section \<open>The assessment endpoints\<close>

text \<open>
  The handlers of \<open>backend/app/routers/assessments.py\<close> that write: each checks that what it
  is asked about belongs to the organization of its path, calls the engine, records who did it and
  commits. \<open>assessment_db\<close> is the engine's database and the implementation statements.
  A refusal is the status code and detail of the \<open>HTTPException\<close>, or the exception the
  handler does not catch; either way the session's writes are rolled back. \<open>str\<close> of an
  identifier is \<open>JUuid\<close>.
\<close>

datatype stmt_status = StmtDraft | StmtReviewed | StmtApproved

fun stmt_status_value :: "stmt_status \<Rightarrow> string" where
  "stmt_status_value StmtDraft = ''draft''"
| "stmt_status_value StmtReviewed = ''reviewed''"
| "stmt_status_value StmtApproved = ''approved''"

record statement =
  im_id :: uuid
  im_org_id :: uuid
  im_objective_id :: uuid
  im_assessment_id :: "uuid option"
  im_body :: string
  im_status :: stmt_status

record assessment_db =
  ad_db :: db
  t_statement :: "statement list"

datatype detail = Text string | StrOf engine_error

datatype api_error = HTTPException nat detail | Uncaught engine_error

definition not_found :: "string \<Rightarrow> api_error" where
  "not_found what = HTTPException 404 (Text (what @ '' not found''))"

text \<open>\<open>except ValueError\<close>: every error of the engine but the ones with a class of their
  own.\<close>

fun value_error :: "nat \<Rightarrow> engine_error \<Rightarrow> api_error" where
  "value_error code (IntegrityError c) = Uncaught (IntegrityError c)"
| "value_error code ActivationJudgementsChanged = Uncaught ActivationJudgementsChanged"
| "value_error code e = HTTPException code (StrOf e)"

definition own_assessment :: "uuid \<Rightarrow> uuid \<Rightarrow> db \<Rightarrow> api_error + assessment" where
  "own_assessment org_id assessment_id s =
     (case get_assessment assessment_id s of
        None \<Rightarrow> Inl (not_found ''Assessment'')
      | Some a \<Rightarrow> if a_org_id a \<noteq> org_id then Inl (not_found ''Assessment'') else Inr a)"

subsection \<open>The life of an assessment\<close>

definition log_created :: "uuid \<Rightarrow> uuid \<Rightarrow> db \<Rightarrow> db" where
  "log_created org_id assessment_id s =
     (case get_assessment assessment_id s of None \<Rightarrow> s | Some a \<Rightarrow>
        log_event_as None None (Some org_id) ''assessment.create'' ''assessment'' assessment_id None
          (Some [(''name'', JStr (a_name a)), (''assessment_type'', JStr (a_type a)),
             (''framework_id'', JUuid (a_framework_id a)), (''sprs_score'', jopt_int (a_sprs_score a))])
          (Some [(''via'', JStr ''api'')]) s)"

definition log_carried :: "uuid \<Rightarrow> uuid \<Rightarrow> raci_summary \<Rightarrow> db \<Rightarrow> db" where
  "log_carried org_id assessment_id summ =
     log_event_as None None (Some org_id) ''raci.copy_forward'' ''assessment'' assessment_id None
       (Some [(''source_assessment_id'', case rs_source summ of None \<Rightarrow> JNull | Some i \<Rightarrow> JUuid i),
          (''carried'', JInt (int (rs_carried summ))),
          (''skipped_no_match'', JInt (int (rs_skipped_no_match summ))),
          (''skipped_inactive_contact'', JInt (int (rs_skipped_inactive summ))),
          (''unassigned_objectives'', JInt (int (rs_unassigned summ)))])
       (Some [(''via'', JStr ''api'')])"

definition create_assessment :: "uuid \<Rightarrow> uuid \<Rightarrow> string \<Rightarrow> string \<Rightarrow> db \<Rightarrow> api_error + db" where
  "create_assessment org_id framework_id name assessment_type s =
     (case start_assessment org_id framework_id name assessment_type s of
        Inl e \<Rightarrow> Inl (Uncaught e)
      | Inr (assessment_id, s1) \<Rightarrow>
          (case copy_forward_raci org_id framework_id assessment_id (log_created org_id assessment_id s1) of
             Inl e \<Rightarrow> Inl (Uncaught e)
           | Inr (summ, s2) \<Rightarrow> Inr (log_carried org_id assessment_id summ s2)))"

definition jopt_time :: "datetime option \<Rightarrow> jval" where
  "jopt_time v = (case v of None \<Rightarrow> JNull | Some t \<Rightarrow> JStr (isoformat t))"

definition complete_assessment_endpoint :: "uuid \<Rightarrow> uuid \<Rightarrow> db \<Rightarrow> api_error + db" where
  "complete_assessment_endpoint org_id assessment_id s =
     (case own_assessment org_id assessment_id s of Inl e \<Rightarrow> Inl e | Inr _ \<Rightarrow>
      case complete_assessment org_id assessment_id s of
        Inl e \<Rightarrow> Inl (value_error 409 e)
      | Inr s' \<Rightarrow>
          Inr (log_event_as None None (Some org_id) ''assessment.completed'' ''assessment'' assessment_id None
            (Some [(''status'', JStr ''submitted''), (''submitted_at'', JStr (isoformat (clock s)))])
            (Some [(''via'', JStr ''api'')]) s'))"

definition reopen_assessment_endpoint :: "uuid \<Rightarrow> uuid \<Rightarrow> db \<Rightarrow> api_error + db" where
  "reopen_assessment_endpoint org_id assessment_id s =
     (case own_assessment org_id assessment_id s of Inl e \<Rightarrow> Inl e | Inr existing \<Rightarrow>
      case reopen_assessment org_id assessment_id s of
        Inl e \<Rightarrow> Inl (value_error 409 e)
      | Inr s' \<Rightarrow>
          Inr (log_event org_id ''assessment.reopened'' ''assessment'' assessment_id
            [(''status'', JStr ''submitted''), (''submitted_at'', jopt_time (a_submitted_at existing))]
            [(''status'', JStr ''in_progress'')] [(''via'', JStr ''api'')] s'))"

subsection \<open>Products\<close>

text \<open>The dictionary of the decisions: a state named twice keeps its place and the last
  answer.\<close>

definition decision_dict :: "decisions \<Rightarrow> decisions" where
  "decision_dict ds = dput_all fst snd [] ds"

definition activate_product ::
  "uuid \<Rightarrow> uuid \<Rightarrow> uuid \<Rightarrow> string option \<Rightarrow> decisions option \<Rightarrow> db \<Rightarrow> api_error + db" where
  "activate_product org_id assessment_id product_id notes ds s =
     (case own_assessment org_id assessment_id s of Inl e \<Rightarrow> Inl e | Inr _ \<Rightarrow>
      case activate_org_product org_id product_id assessment_id notes (map_option decision_dict ds) s of
        Inl e \<Rightarrow> Inl (if e = ActivationJudgementsChanged then HTTPException 409 (StrOf e) else value_error 404 e)
      | Inr (_, s') \<Rightarrow> Inr s')"

definition preview_activation ::
  "uuid \<Rightarrow> uuid \<Rightarrow> uuid \<Rightarrow> (uuid \<times> string) list \<Rightarrow> db \<Rightarrow> api_error + preview" where
  "preview_activation org_id assessment_id product_id choices s =
     (case own_assessment org_id assessment_id s of Inl e \<Rightarrow> Inl e | Inr _ \<Rightarrow>
      map_sum (value_error 404) id
        (activation_preview org_id product_id assessment_id (dict_of choices) s))"

text \<open>\<open>current_user.display_name or current_user.email\<close>.\<close>

definition user_label :: "string option \<Rightarrow> string \<Rightarrow> string" where
  "user_label display_name email =
     (case display_name of None \<Rightarrow> email | Some n \<Rightarrow> if n = '''' then email else n)"

definition deactivate_product ::
  "uuid \<Rightarrow> uuid \<Rightarrow> uuid \<Rightarrow> uuid option \<Rightarrow> string option \<Rightarrow> string \<Rightarrow> db \<Rightarrow> api_error + db" where
  "deactivate_product org_id assessment_id product_id replaced_by display_name email s =
     (case own_assessment org_id assessment_id s of Inl e \<Rightarrow> Inl e | Inr _ \<Rightarrow>
      case find_org_product org_id product_id s of
        None \<Rightarrow> Inl (not_found ''Active product'')
      | Some op \<Rightarrow>
          if op_status op \<noteq> Active then Inl (not_found ''Active product'')
          else (case deactivate_org_product org_id product_id assessment_id replaced_by
                       (Some (user_label display_name email)) s of
                  Inl e \<Rightarrow> Inl (value_error 422 e)
                | Inr (_, s') \<Rightarrow> Inr s'))"

definition move_product_version :: "uuid \<Rightarrow> uuid \<Rightarrow> uuid \<Rightarrow> uuid \<Rightarrow> db \<Rightarrow> api_error + db" where
  "move_product_version org_id assessment_id product_id target_version_id s =
     (case own_assessment org_id assessment_id s of Inl e \<Rightarrow> Inl e | Inr _ \<Rightarrow>
      case move_org_product_version org_id product_id assessment_id target_version_id s of
        Inl e \<Rightarrow> Inl (value_error 404 e)
      | Inr (_, s') \<Rightarrow> Inr s')"

subsection \<open>A person's verdict\<close>

text \<open>\<open>_VALID_STATUSES\<close>: the values of every member of \<open>ControlStatus\<close>.\<close>

definition control_status_of :: "string \<Rightarrow> control_status option" where
  "control_status_of = of_value status_value
     [Met, NotMet, Partial, PendingEvidence, NotApplicable, Inherited, NeedsReview]"

definition assertion_history :: "control_state \<Rightarrow> control_status \<Rightarrow> history_entry" where
  "assertion_history cs status =
     (cs_id cs, cs_status cs, status, cs_responsibility cs, cs_responsibility cs, '''')"

definition log_assertion ::
  "uuid \<Rightarrow> uuid \<Rightarrow> control_state \<Rightarrow> control_status \<Rightarrow> int option \<Rightarrow> int \<Rightarrow> db \<Rightarrow> db" where
  "log_assertion org_id assessment_id cs status previous_score score s =
     log_event org_id ''control_state.update'' ''control_state'' (cs_id cs)
       [(''status'', JStr (status_value (cs_status cs))), (''sprs_score'', jopt_int previous_score)]
       [(''status'', JStr (status_value status)), (''sprs_score'', JInt score)]
       [(''via'', JStr ''api''), (''assessment_id'', JUuid assessment_id),
        (''objective_key'', case get_objective (cs_objective_id cs) s of
           None \<Rightarrow> JNull | Some ob \<Rightarrow> JStr (ob_key ob))] s"

definition assert_status :: "control_state \<Rightarrow> control_status \<Rightarrow> db \<Rightarrow> db" where
  "assert_status cs status s =
     set_state (cs_id cs) status (cs_responsibility cs) (add_history [assertion_history cs status] s)"

definition patch_control_state :: "uuid \<Rightarrow> uuid \<Rightarrow> uuid \<Rightarrow> string \<Rightarrow> db \<Rightarrow> api_error + db" where
  "patch_control_state org_id assessment_id control_state_id body_status s =
     (case control_status_of body_status of
        None \<Rightarrow> Inl (HTTPException 422 (Text (''Invalid status '' @ body_status)))
      | Some status \<Rightarrow>
        case own_assessment org_id assessment_id s of Inl e \<Rightarrow> Inl e | Inr a \<Rightarrow>
        case get_state control_state_id s of
          None \<Rightarrow> Inl (not_found ''Control state'')
        | Some cs \<Rightarrow>
            if cs_assessment_id cs \<noteq> assessment_id then Inl (not_found ''Control state'')
            else (let (score, s1) = recompute_sprs assessment_id (assert_status cs status s)
                  in Inr (log_assertion org_id assessment_id cs status (a_sprs_score a) score s1)))"

subsection \<open>Evidence tasks\<close>

definition task_status_of :: "string \<Rightarrow> task_status option" where
  "task_status_of = of_value task_status_value [TaskOpen, TaskCollected, TaskNA]"

definition log_task_update :: "uuid \<Rightarrow> uuid \<Rightarrow> evidence_task \<Rightarrow> task_status \<Rightarrow> db \<Rightarrow> db" where
  "log_task_update org_id assessment_id t status =
     log_event org_id ''evidence_task.update'' ''evidence_task'' (tk_id t)
       [(''status'', JStr (task_status_value (tk_status t)))]
       [(''status'', JStr (task_status_value status))]
       [(''via'', JStr ''api''), (''assessment_id'', JUuid assessment_id), (''title'', JStr (tk_title t))]"

definition patch_evidence_task :: "uuid \<Rightarrow> uuid \<Rightarrow> uuid \<Rightarrow> string \<Rightarrow> db \<Rightarrow> api_error + db" where
  "patch_evidence_task org_id assessment_id task_id body_status s =
     (case task_status_of body_status of
        None \<Rightarrow> Inl (HTTPException 422 (Text (''Invalid status '' @ body_status)))
      | Some status \<Rightarrow>
        case own_assessment org_id assessment_id s of Inl e \<Rightarrow> Inl e | Inr _ \<Rightarrow>
        case tget tk_id task_id (t_task s) of
          None \<Rightarrow> Inl (not_found ''Evidence task'')
        | Some t \<Rightarrow>
            if tk_assessment_id t \<noteq> Some assessment_id \<or> tk_org_id t \<noteq> org_id
            then Inl (not_found ''Evidence task'')
            else if tk_is_archived t
            then Inl (HTTPException 422 (Text ''Cannot update an archived evidence task''))
            else Inr (update_task task_id (\<lambda>r. r\<lparr>tk_status := status\<rparr>)
                   (if status \<noteq> tk_status t then log_task_update org_id assessment_id t status s else s)))"

subsection \<open>Implementation statements\<close>

type_synonym statement_item = "uuid \<times> string \<times> string"

definition stmt_status_of :: "string \<Rightarrow> stmt_status option" where
  "stmt_status_of = of_value stmt_status_value [StmtDraft, StmtReviewed, StmtApproved]"

text \<open>A change to be recorded: the statement, the values before (none for a new one) and
  after.\<close>

type_synonym statement_change = "uuid \<times> uuid \<times> jdict option \<times> jdict"

definition save_statement ::
  "uuid \<Rightarrow> uuid \<Rightarrow> (uuid \<Rightarrow> uuid option) \<Rightarrow> assessment_db \<times> statement_change list \<Rightarrow> uuid \<times> string \<times> stmt_status
     \<Rightarrow> assessment_db \<times> statement_change list" where
  "save_statement org_id assessment_id existing acc item =
     (case (acc, item) of ((s, changes), (objective_id, body, status)) \<Rightarrow>
      case (case existing objective_id of None \<Rightarrow> None | Some i \<Rightarrow> tget im_id i (t_statement s)) of
        Some st \<Rightarrow>
          (s\<lparr>t_statement := tupd im_id (im_id st) (\<lambda>r. r\<lparr>im_body := body, im_status := status\<rparr>) (t_statement s)\<rparr>,
           if im_body st \<noteq> body \<or> im_status st \<noteq> status
           then changes @ [(im_id st, objective_id, Some [(''status'', JStr (stmt_status_value (im_status st)))],
             [(''status'', JStr (stmt_status_value status)), (''body_changed'', JBool (im_body st \<noteq> body))])]
           else changes)
      | None \<Rightarrow>
          let i = next_id (ad_db s)
          in (s\<lparr>ad_db := (ad_db s)\<lparr>next_id := Suc i\<rparr>,
                t_statement := t_statement s @
                  [\<lparr>im_id = i, im_org_id = org_id, im_objective_id = objective_id,
                    im_assessment_id = Some assessment_id, im_body = body, im_status = status\<rparr>]\<rparr>,
              changes @ [(i, objective_id, None, [(''status'', JStr (stmt_status_value status))])]))"

definition log_statement :: "uuid \<Rightarrow> uuid \<Rightarrow> (uuid \<Rightarrow> objective option) \<Rightarrow> db \<Rightarrow> statement_change \<Rightarrow> db" where
  "log_statement org_id assessment_id objectives s change =
     (case change of (i, objective_id, before, after) \<Rightarrow>
      log_event_as None None (Some org_id)
        (if before = None then ''implementation_statement.create'' else ''implementation_statement.update'')
        ''implementation_statement'' i before (Some after)
        (Some [(''via'', JStr ''api''), (''assessment_id'', JUuid assessment_id),
           (''objective_key'', case objectives objective_id of None \<Rightarrow> JNull | Some ob \<Rightarrow> JStr (ob_key ob))]) s)"

definition statement_key :: "statement \<Rightarrow> (uuid \<times> uuid) option" where
  "statement_key st = map_option (\<lambda>a. (a, im_objective_id st)) (im_assessment_id st)"

text \<open>\<open>uq_implementation_statement_identity\<close>, where a null assessment is unlike any
  other.\<close>

definition statements_unique :: "statement list \<Rightarrow> bool" where
  "statements_unique rows \<longleftrightarrow> distinct (List.map_filter statement_key rows)"

definition upsert_statements ::
  "uuid \<Rightarrow> uuid \<Rightarrow> uuid \<Rightarrow> statement_item list \<Rightarrow> assessment_db \<Rightarrow> api_error + assessment_db" where
  "upsert_statements org_id assessment_id control_db_id items s =
     (case find (\<lambda>(_, _, status). stmt_status_of status = None) items of
        Some (_, _, status) \<Rightarrow> Inl (HTTPException 422 (Text (''Invalid status '' @ status)))
      | None \<Rightarrow>
        case own_assessment org_id assessment_id (ad_db s) of Inl e \<Rightarrow> Inl e | Inr a \<Rightarrow>
        case get_control control_db_id (ad_db s) of None \<Rightarrow> Inl (not_found ''Control'') | Some ctrl \<Rightarrow>
        if c_framework_id ctrl \<noteq> a_framework_id a then Inl (not_found ''Control'')
        else
          let obj_ids = map fst items;
              objectives = dict_of (map (\<lambda>ob. (ob_id ob, ob))
                (filter (\<lambda>ob. ob_control_id ob = control_db_id \<and> ob_id ob \<in> set obj_ids) (t_objective (ad_db s))));
              existing = dict_of (map (\<lambda>st. (im_objective_id st, im_id st))
                (filter (\<lambda>st. im_assessment_id st = Some assessment_id \<and> im_objective_id st \<in> set obj_ids)
                  (t_statement s)))
          in case find (\<lambda>i. objectives i = None) obj_ids of
               Some i \<Rightarrow> Inl (not_found (''Objective '' @ uuid_text i))
             | None \<Rightarrow>
               let (s1, changes) = foldl (save_statement org_id assessment_id existing) (s, [])
                     (map (\<lambda>(i, body, status). (i, body, the (stmt_status_of status))) items)
               in if \<not> statements_unique (t_statement s1)
                  then Inl (Uncaught (IntegrityError ''uq_implementation_statement_identity''))
                  else Inr (s1\<lparr>ad_db := foldl (log_statement org_id assessment_id objectives) (ad_db s1) changes\<rparr>))"

subsection \<open>The endpoints as a machine\<close>

text \<open>Every write that reaches an assessment: the endpoints, and the command line's backfill.\<close>

datatype api_request =
    CreateAssessment uuid uuid string string
  | CompleteAssessment uuid uuid
  | ReopenAssessment uuid uuid
  | ActivateProduct uuid uuid uuid "string option" "decisions option"
  | DeactivateProduct uuid uuid uuid "uuid option" "string option" string
  | MoveProductVersion uuid uuid uuid uuid
  | PatchControlState uuid uuid uuid string
  | PatchEvidenceTask uuid uuid uuid string
  | UpsertStatements uuid uuid uuid "statement_item list"
  | BackfillStates string bool

definition on_db :: "(db \<Rightarrow> api_error + db) \<Rightarrow> assessment_db \<Rightarrow> api_error + assessment_db" where
  "on_db f s = map_sum id (\<lambda>u. s\<lparr>ad_db := u\<rparr>) (f (ad_db s))"

fun serve_api :: "api_request \<Rightarrow> assessment_db \<Rightarrow> api_error + assessment_db" where
  "serve_api (CreateAssessment org_id fw name ty) = on_db (create_assessment org_id fw name ty)"
| "serve_api (CompleteAssessment org_id aid) = on_db (complete_assessment_endpoint org_id aid)"
| "serve_api (ReopenAssessment org_id aid) = on_db (reopen_assessment_endpoint org_id aid)"
| "serve_api (ActivateProduct org_id aid pid notes ds) = on_db (activate_product org_id aid pid notes ds)"
| "serve_api (DeactivateProduct org_id aid pid replaced_by display_name email) =
     on_db (deactivate_product org_id aid pid replaced_by display_name email)"
| "serve_api (MoveProductVersion org_id aid pid target) = on_db (move_product_version org_id aid pid target)"
| "serve_api (PatchControlState org_id aid i status) = on_db (patch_control_state org_id aid i status)"
| "serve_api (PatchEvidenceTask org_id aid i status) = on_db (patch_evidence_task org_id aid i status)"
| "serve_api (UpsertStatements org_id aid control items) = upsert_statements org_id aid control items"
| "serve_api (BackfillStates reason dry) =
     on_db (\<lambda>u. Inr (snd (backfill_missing_control_states reason dry u)))"

definition run_api :: "api_request list \<Rightarrow> assessment_db \<Rightarrow> assessment_db" where
  "run_api rs s = foldl (\<lambda>s r. case serve_api r s of Inl e \<Rightarrow> s | Inr s' \<Rightarrow> s') s rs"

end
