(* ===== verification/Transactions.thy ===== *)
theory Transactions
  imports Prelude
begin

section \<open>Runs of transactions\<close>

text \<open>
  A sequence of requests, each a transaction that commits or leaves everything as it was. What
  one keeps (an invariant) and what one changes (a preorder between states), a run keeps and
  changes; \<open>allowed\<close> are the requests the promise is made for.
\<close>

locale transactions =
  fixes step :: "'a \<Rightarrow> 's \<Rightarrow> 'e + 's" and allowed :: "'a \<Rightarrow> bool"
    and inv :: "'s \<Rightarrow> bool" and rel :: "'s \<Rightarrow> 's \<Rightarrow> bool"
  assumes step_inv: "inv s \<Longrightarrow> allowed x \<Longrightarrow> step x s = Inr s' \<Longrightarrow> inv s'"
    and step_rel: "inv s \<Longrightarrow> allowed x \<Longrightarrow> step x s = Inr s' \<Longrightarrow> rel s s'"
    and rel_refl: "rel s s"
    and rel_trans: "rel s t \<Longrightarrow> rel t u \<Longrightarrow> rel s u"
begin

lemma run:
  assumes "inv s" "list_all allowed xs"
  shows "inv (foldl (\<lambda>s x. case step x s of Inl e \<Rightarrow> s | Inr s' \<Rightarrow> s') s xs) \<and>
    rel s (foldl (\<lambda>s x. case step x s of Inl e \<Rightarrow> s | Inr s' \<Rightarrow> s') s xs)"
  using assms
proof (induction xs arbitrary: s)
  case Nil
  then show ?case using rel_refl by simp
next
  case (Cons x xs)
  have x: "allowed x" "list_all allowed xs" using Cons.prems(2) by simp_all
  show ?case
  proof (cases "step x s")
    case (Inl e)
    then show ?thesis using Cons.IH[OF Cons.prems(1) x(2)] by simp
  next
    case (Inr v)
    have "inv v" "rel s v" using step_inv step_rel Cons.prems(1) x(1) Inr by blast+
    then show ?thesis using Cons.IH[OF _ x(2), of v] rel_trans Inr by auto
  qed
qed

end

end
