(* ===== verification/Assessment_Api_Facts.thy ===== *)
theory Assessment_Api_Facts
  imports Assessment_Api Transactions
begin

section \<open>What the endpoints do to the database\<close>

text \<open>
  Every endpoint but one is \<open>quiet\<close>: it keeps the engine's invariant, only adds to the
  ledgers, leaves the catalog alone, keeps every control state and passes no judgement. The one
  that is not is a person's verdict, and what it changes is exactly what it was asked to.
\<close>

definition quiet :: "db \<Rightarrow> db \<Rightarrow> bool" where
  "quiet s s' \<longleftrightarrow> engine_ok s' \<and> append_only s s' \<and> catalog_eq s s' \<and> modest s s' \<and> keeps_states s s'"

lemma quiet_refl: "engine_ok s \<Longrightarrow> quiet s s"
  by (simp add: quiet_def modest_same keeps_states_same)

lemma quiet_trans: "quiet s t \<Longrightarrow> quiet t u \<Longrightarrow> quiet s u"
  unfolding quiet_def
  by (elim conjE, intro conjI) (assumption | erule (1) append_only_trans catalog_eq_trans modest_trans keeps_states_trans)+

lemma quiet_ok: "quiet s s' \<Longrightarrow> engine_ok s'"
  by (simp add: quiet_def)

lemma quiet_serve: "engine_ok s \<Longrightarrow> serve r s = Inr s' \<Longrightarrow> quiet s s'"
  using serve_ok serve_modest serve_keeps unfolding quiet_def by simp

lemma quiet_log: "engine_ok s \<Longrightarrow> quiet s (log_event_as ac at og a e i b af c s)"
  by (simp add: quiet_def engine_ok_log_event modest_same keeps_states_same)

lemma quiet_logs: "engine_ok s \<Longrightarrow> quiet s (foldl (log_statement org_id aid objectives) s changes)"
proof (induction changes arbitrary: s)
  case (Cons c changes)
  have "quiet s (log_statement org_id aid objectives s c)"
    using quiet_log[OF Cons.prems] by (simp add: log_statement_def split: prod.split)
  then show ?case using quiet_trans[OF _ Cons.IH[OF quiet_ok]] by simp
qed (simp add: quiet_refl)

lemma quiet_next_id: "engine_ok s \<Longrightarrow> quiet s (s\<lparr>next_id := Suc (next_id s)\<rparr>)"
proof -
  assume ok: "engine_ok s"
  have cat: "catalog_eq s (s\<lparr>next_id := Suc (next_id s)\<rparr>)" by (simp add: catalog_eq_def)
  have "schema_ok (s\<lparr>next_id := Suc (next_id s)\<rparr>)"
    using ok unfolding engine_ok_def schema_ok_def
    by (auto intro: catalog_ok_mono[OF _ cat] states_ok_mono contribs_ok_mono org_products_ok_mono
        links_ok_mono task_links_ok_mono pk_ok_mono)
  then have "engine_ok (s\<lparr>next_id := Suc (next_id s)\<rparr>)" by (rule engine_ok_states[OF ok]) simp_all
  then show ?thesis using cat by (simp add: quiet_def append_only_def modest_same keeps_states_same)
qed

lemma quiet_update_task:
  assumes ok: "engine_ok s" and f: "\<And>t. tk_id (f t) = tk_id t"
  shows "quiet s (update_task i f s)"
proof -
  have t: "touches 0 s (update_task i f s)" by (rule touches_update_task) (rule f)
  have "schema_ok (update_task i f s)" using touches_schema_ok[OF t] ok by (simp add: engine_ok_def)
  then have "engine_ok (update_task i f s)" by (rule engine_ok_states[OF ok]) (simp_all add: update_task_def)
  then show ?thesis using t
    by (simp add: quiet_def touches_def modest_same keeps_states_same update_task_def)
qed

subsection \<open>The handlers that call the engine\<close>

lemma own_assessment_InrD:
  "own_assessment org_id aid s = Inr a \<Longrightarrow> get_assessment aid s = Some a \<and> a_org_id a = org_id"
  by (simp add: own_assessment_def split: option.splits if_splits)

lemma create_quiet:
  assumes ok: "engine_ok s" and run: "create_assessment org_id fw name ty s = Inr s'"
  shows "quiet s s'"
proof -
  obtain aid s1 where s1: "start_assessment org_id fw name ty s = Inr (aid, s1)"
    using run by (auto simp: create_assessment_def split: sum.splits)
  obtain summ s2 where s2: "copy_forward_raci org_id fw aid (log_created org_id aid s1) = Inr (summ, s2)"
    and s': "s' = log_carried org_id aid summ s2"
    using run by (auto simp: create_assessment_def s1 split: sum.splits)
  have q1: "quiet s s1" by (rule quiet_serve[OF ok, of "StartAssessment org_id fw name ty"]) (simp add: s1)
  have ok1: "engine_ok s1" by (rule quiet_ok[OF q1])
  have q2: "quiet s1 (log_created org_id aid s1)"
    using quiet_log[OF ok1] quiet_refl[OF ok1] by (simp add: log_created_def split: option.split)
  have q3: "quiet (log_created org_id aid s1) s2"
    by (rule quiet_serve[OF quiet_ok[OF q2], of "CarryRaci org_id fw aid"]) (simp add: s2)
  have "quiet s2 s'" unfolding s' log_carried_def by (rule quiet_log[OF quiet_ok[OF q3]])
  then show ?thesis by (rule quiet_trans[OF quiet_trans[OF quiet_trans[OF q1 q2] q3]])
qed

lemma complete_quiet:
  assumes ok: "engine_ok s" and run: "complete_assessment_endpoint org_id aid s = Inr s'"
  shows "quiet s s'"
proof -
  obtain s1 where s1: "serve (Complete org_id aid) s = Inr s1"
    using run by (auto simp: complete_assessment_endpoint_def split: sum.splits)
  have q: "quiet s s1" by (rule quiet_serve[OF ok s1])
  show ?thesis
    using run s1 quiet_trans[OF q quiet_log[OF quiet_ok[OF q]]]
    by (auto simp: complete_assessment_endpoint_def split: sum.splits)
qed

lemma reopen_quiet:
  assumes ok: "engine_ok s" and run: "reopen_assessment_endpoint org_id aid s = Inr s'"
  shows "quiet s s'"
proof -
  obtain s1 where s1: "serve (Reopen org_id aid) s = Inr s1"
    using run by (auto simp: reopen_assessment_endpoint_def split: sum.splits)
  have q: "quiet s s1" by (rule quiet_serve[OF ok s1])
  show ?thesis
    using run s1 quiet_trans[OF q quiet_log[OF quiet_ok[OF q]]]
    by (auto simp: reopen_assessment_endpoint_def split: sum.splits)
qed

lemma activate_request_quiet:
  assumes ok: "engine_ok s" and run: "activate_product org_id aid pid notes ds s = Inr s'"
  shows "quiet s s'"
  by (rule quiet_serve[OF ok, of "Activate org_id pid aid notes (map_option decision_dict ds)"])
    (use run in \<open>simp add: activate_product_def split: sum.splits prod.splits\<close>)

lemma deactivate_request_quiet:
  assumes ok: "engine_ok s" and run: "deactivate_product org_id aid pid replaced_by dn email s = Inr s'"
  shows "quiet s s'"
  by (rule quiet_serve[OF ok, of "Deactivate org_id pid aid replaced_by (Some (user_label dn email))"])
    (use run in \<open>simp add: deactivate_product_def split: sum.splits prod.splits option.splits if_splits\<close>)

lemma move_request_quiet:
  assumes ok: "engine_ok s" and run: "move_product_version org_id aid pid target s = Inr s'"
  shows "quiet s s'"
  by (rule quiet_serve[OF ok, of "MoveVersion org_id pid aid target"])
    (use run in \<open>simp add: move_product_version_def split: sum.splits prod.splits\<close>)

lemma patch_task_InrD:
  assumes "patch_evidence_task org_id aid i v s = Inr s'"
  obtains t status where "tget tk_id i (t_task s) = Some t" "task_status_of v = Some status"
    "tk_assessment_id t = Some aid" "tk_org_id t = org_id" "\<not> tk_is_archived t"
    "s' = update_task i (\<lambda>r. r\<lparr>tk_status := status\<rparr>)
       (if status \<noteq> tk_status t then log_task_update org_id aid t status s else s)"
  using assms unfolding patch_evidence_task_def
  by (auto split: option.splits sum.splits if_splits)

lemma patch_task_quiet:
  assumes ok: "engine_ok s" and run: "patch_evidence_task org_id aid i v s = Inr s'"
  shows "quiet s s'"
proof -
  from run obtain t status where s': "s' = update_task i (\<lambda>r. r\<lparr>tk_status := status\<rparr>)
       (if status \<noteq> tk_status t then log_task_update org_id aid t status s else s)"
    by (rule patch_task_InrD)
  have q: "quiet s (if status \<noteq> tk_status t then log_task_update org_id aid t status s else s)"
    using quiet_log[OF ok] quiet_refl[OF ok] by (simp add: log_task_update_def)
  show ?thesis unfolding s' by (rule quiet_trans[OF q quiet_update_task[OF quiet_ok[OF q]]]) simp
qed

subsection \<open>Statements\<close>

text \<open>Saving the items of one request: the other tables, and which row an objective has.\<close>

lemma save_statement_quiet:
  assumes "engine_ok (ad_db s)" "save_statement org_id aid existing (s, changes) item = (s', changes')"
  shows "quiet (ad_db s) (ad_db s')"
  using assms quiet_refl[OF assms(1)] quiet_next_id[OF assms(1)]
  by (cases item) (auto simp: save_statement_def Let_def split: option.splits)

lemma save_statements_quiet:
  "engine_ok (ad_db s) \<Longrightarrow> foldl (save_statement org_id aid existing) (s, changes) items = (s', changes') \<Longrightarrow>
     quiet (ad_db s) (ad_db s')"
proof (induction items arbitrary: s changes)
  case (Cons item items)
  obtain s1 c1 where s1: "save_statement org_id aid existing (s, changes) item = (s1, c1)" by (metis surj_pair)
  have q: "quiet (ad_db s) (ad_db s1)" by (rule save_statement_quiet[OF Cons.prems(1) s1])
  show ?case using Cons.prems(2) quiet_trans[OF q Cons.IH[OF quiet_ok[OF q]]] by (simp add: s1)
qed (simp add: quiet_refl)

lemma upsert_statements_InrD:
  assumes "upsert_statements org_id aid control items s = Inr s'"
  obtains existing objectives new s1 changes where
    "foldl (save_statement org_id aid existing) (s, []) new = (s1, changes)"
    "statements_unique (t_statement s1)"
    "s' = s1\<lparr>ad_db := foldl (log_statement org_id aid objectives) (ad_db s1) changes\<rparr>"
  using assms unfolding upsert_statements_def Let_def
  by (auto split: option.splits sum.splits if_splits prod.splits)

lemma upsert_statements_quiet:
  assumes ok: "engine_ok (ad_db s)" and run: "upsert_statements org_id aid control items s = Inr s'"
  shows "quiet (ad_db s) (ad_db s') \<and> statements_unique (t_statement s')"
proof -
  from run obtain existing objectives new s1 changes where
    f: "foldl (save_statement org_id aid existing) (s, []) new = (s1, changes)"
    "statements_unique (t_statement s1)" and
    s': "s' = s1\<lparr>ad_db := foldl (log_statement org_id aid objectives) (ad_db s1) changes\<rparr>"
    by (rule upsert_statements_InrD)
  have q: "quiet (ad_db s) (ad_db s1)" by (rule save_statements_quiet[OF ok f(1)])
  show ?thesis using quiet_trans[OF q quiet_logs[OF quiet_ok[OF q]]] f(2) by (simp add: s')
qed

subsection \<open>The verdict\<close>

lemma patch_state_InrD:
  assumes "patch_control_state org_id aid i v s = Inr s'"
  obtains status a cs where "control_status_of v = Some status" "get_assessment aid s = Some a" "a_org_id a = org_id"
    "get_state i s = Some cs" "cs_assessment_id cs = aid"
    "s' = log_assertion org_id aid cs status (a_sprs_score a) (sprs_of aid (assert_status cs status s))
       (snd (recompute_sprs aid (assert_status cs status s)))"
  using assms unfolding patch_control_state_def
  by (auto simp: case_prod_unfold dest!: own_assessment_InrD split: option.splits sum.splits if_splits)

lemma assert_status_frame:
  assumes ok: "schema_ok s" and cs: "get_state i s = Some cs"
  shows "touches (cs_assessment_id cs) s (assert_status cs status s)"
    and "get_state j (assert_status cs status s) = (if j = i then Some (cs\<lparr>cs_status := status\<rparr>) else get_state j s)"
    and "t_history (assert_status cs status s) = t_history s @ [mk_history (next_id s) (assertion_history cs status)]"
    and "logs s (assert_status cs status s)"
proof -
  let ?h = "add_history [assertion_history cs status] s" and ?u = "assert_status cs status s"
  have i: "cs_id cs = i" using tget_SomeD[OF cs] by simp
  have t1: "touches (cs_assessment_id cs) s ?h" by (rule touches_add_history)
  have "touches (cs_assessment_id cs) ?h ?u"
    unfolding assert_status_def by (rule touches_set_state) (use cs i touches_schema_ok[OF t1 ok] in simp_all)
  then show "touches (cs_assessment_id cs) s ?u" by (rule touches_trans[OF t1])
  show g: "get_state j ?u = (if j = i then Some (cs\<lparr>cs_status := status\<rparr>) else get_state j s)" for j
    using cs by (simp add: assert_status_def get_set_state i)
  show hist: "t_history ?u = t_history s @ [mk_history (next_id s) (assertion_history cs status)]"
    by (simp add: assert_status_def)
  show "logs s ?u"
  proof (rule logs_rows[where rows = "[assertion_history cs status]" and n = "next_id s"])
    show "t_history ?u = t_history s @ insert_rows mk_history (next_id s) [assertion_history cs status]"
      using hist by simp
    have "i \<in> cs_id ` set (t_cstate ?u)" using g[of i] tget_None_iff[of cs_id i "t_cstate ?u"] by auto
    then show "fst ` set [assertion_history cs status] \<subseteq> cs_id ` set (t_cstate ?u)"
      by (simp add: assertion_history_def i)
    show "get_state k ?u = None \<longleftrightarrow> get_state k s = None" for k using cs by (simp add: g)
    show "map_option verdict (get_state k ?u) = map_option verdict (get_state k s)"
      if "k \<notin> fst ` set [assertion_history cs status]" for k
      using that by (simp add: g assertion_history_def i)
  qed (auto simp: assertion_history_def g i verdict_def)
qed

text \<open>What an accepted verdict changes.\<close>

definition asserted :: "uuid \<Rightarrow> uuid \<Rightarrow> control_status \<Rightarrow> db \<Rightarrow> db \<Rightarrow> bool" where
  "asserted aid i status s s' \<longleftrightarrow>
     (\<exists>cs a. get_state i s = Some cs \<and> get_assessment aid s = Some a \<and>
       (\<forall>j. get_state j s' = (if j = i then Some (cs\<lparr>cs_status := status\<rparr>) else get_state j s)) \<and>
       t_history s' = t_history s @ [mk_history (next_id s) (assertion_history cs status)] \<and>
       (\<forall>k. get_assessment k s' =
          (if k = aid then Some (a\<lparr>a_sprs_score := Some (sprs_of aid s')\<rparr>) else get_assessment k s)) \<and>
       (\<exists>l. t_audit s' = t_audit s @ [l] \<and> al_entity_id l = i \<and> al_action l = ''control_state.update'' \<and>
          al_actor l = or_system (cur_actor s) \<and>
          al_before l = Some [(''status'', JStr (status_value (cs_status cs))), (''sprs_score'', jopt_int (a_sprs_score a))] \<and>
          al_after l = Some [(''status'', JStr (status_value status)), (''sprs_score'', JInt (sprs_of aid s'))]))"

lemma asserted_states:
  assumes "asserted aid i status s s'"
  shows "\<exists>cs. get_state i s = Some cs \<and>
    (\<forall>j. get_state j s' = (if j = i then Some (cs\<lparr>cs_status := status\<rparr>) else get_state j s))"
  using assms unfolding asserted_def by blast

lemma sanitise_status: "sanitise (Some [(''status'', x), (''sprs_score'', y)]) = Some [(''status'', x), (''sprs_score'', y)]"
  by (simp add: sanitise_def sanitise_key_def TEXT_KEYS_def)

lemma patch_state_effect:
  assumes ok: "engine_ok s" and run: "patch_control_state org_id aid i v s = Inr s'"
  shows "engine_ok s' \<and> append_only s s' \<and> catalog_eq s s' \<and> keeps_states s s' \<and>
    (\<exists>status. control_status_of v = Some status \<and> asserted aid i status s s')"
proof -
  have sok: "schema_ok s" using ok by (simp add: engine_ok_def)
  from run obtain status a cs where v: "control_status_of v = Some status" and a: "get_assessment aid s = Some a"
    and cs: "get_state i s = Some cs" "cs_assessment_id cs = aid" and
    s': "s' = log_assertion org_id aid cs status (a_sprs_score a) (sprs_of aid (assert_status cs status s))
       (snd (recompute_sprs aid (assert_status cs status s)))"
    by (rule patch_state_InrD)
  let ?u = "assert_status cs status s"
  let ?w = "snd (recompute_sprs aid ?u)"
  note f = assert_status_frame[OF sok cs(1), unfolded cs(2)]
  have log: "t_cstate s' = t_cstate ?w" "t_history s' = t_history ?w" "t_assessment s' = t_assessment ?w"
    "t_objective s' = t_objective ?w" "t_control s' = t_control ?w"
    unfolding s' log_assertion_def by simp_all
  have i: "cs_id cs = i" using tget_SomeD[OF cs(1)] by simp
  have score: "sprs_of aid s' = sprs_of aid ?u" using sprs_of_cong[OF log(1,4,5)] by simp
  have ok': "engine_ok s'"
    unfolding s' log_assertion_def by (rule engine_ok_log_event[OF engine_ok_after[OF ok f(1,4)]])
  have ao: "append_only s s'"
    unfolding s' log_assertion_def
    by (rule append_only_trans[OF append_only_trans[OF _ append_only_recompute] append_only_log_event])
      (use f(1) in \<open>simp add: touches_def\<close>)
  have cat: "catalog_eq s s'"
  proof (rule catalog_eq_trans)
    show "catalog_eq s ?u" using f(1) by (simp add: touches_def)
    show "catalog_eq ?u s'" unfolding s' log_assertion_def
      by (simp add: catalog_eq_def) (simp add: recompute_sprs_def Let_def split: option.split)
  qed
  have keep: "keeps_states s s'"
    using keeps_states_trans[OF touches_keeps[OF f(1)] keeps_states_same, of s'] log(1) by simp
  have ass: "t_assessment ?u = t_assessment s" using f(1) by (simp add: touches_def)
  have "t_audit ?w = t_audit s" "cur_actor ?w = cur_actor s"
    by (simp_all add: assert_status_def set_state_def add_history_def recompute_sprs_def Let_def split: option.split)
  then have audit: "t_audit s' = t_audit s @ [last (t_audit s')]" "al_entity_id (last (t_audit s')) = i"
    "al_action (last (t_audit s')) = ''control_state.update''" "al_actor (last (t_audit s')) = or_system (cur_actor s)"
    "al_before (last (t_audit s')) =
       Some [(''status'', JStr (status_value (cs_status cs))), (''sprs_score'', jopt_int (a_sprs_score a))]"
    "al_after (last (t_audit s')) = Some [(''status'', JStr (status_value status)), (''sprs_score'', JInt (sprs_of aid s'))]"
    by (simp_all add: score) (simp_all add: s' log_assertion_def log_event_as_def sanitise_status i)
  have "asserted aid i status s s'"
    unfolding asserted_def
  proof (intro exI conjI allI)
    show "get_state i s = Some cs" by (rule cs(1))
    show "get_assessment aid s = Some a" by (rule a)
    show "get_state j s' = (if j = i then Some (cs\<lparr>cs_status := status\<rparr>) else get_state j s)" for j
      using f(2) by (simp add: log(1))
    show "t_history s' = t_history s @ [mk_history (next_id s) (assertion_history cs status)]"
      using f(3) by (simp add: log(2))
    show "get_assessment k s' =
        (if k = aid then Some (a\<lparr>a_sprs_score := Some (sprs_of aid s')\<rparr>) else get_assessment k s)" for k
      using a by (simp add: log(3) get_assessment_recompute ass score)
  qed (rule audit)+
  then show ?thesis using ok' ao cat keep v by blast
qed

subsection \<open>The contract of an endpoint\<close>

definition api_ok :: "assessment_db \<Rightarrow> bool" where
  "api_ok s \<longleftrightarrow> engine_ok (ad_db s) \<and> statements_unique (t_statement s)"

definition api_grows :: "assessment_db \<Rightarrow> assessment_db \<Rightarrow> bool" where
  "api_grows s s' \<longleftrightarrow> append_only (ad_db s) (ad_db s') \<and> catalog_eq (ad_db s) (ad_db s') \<and>
     keeps_states (ad_db s) (ad_db s')"

fun is_patch :: "api_request \<Rightarrow> bool" where
  "is_patch (PatchControlState _ _ _ _) = True"
| "is_patch _ = False"

lemma on_db_InrD:
  "on_db f s = Inr s' \<Longrightarrow> f (ad_db s) = Inr (ad_db s') \<and> t_statement s' = t_statement s"
  by (cases "f (ad_db s)") (auto simp: on_db_def)

lemma api_quiet:
  assumes ok: "api_ok s" and run: "serve_api r s = Inr s'" and p: "\<not> is_patch r"
  shows "quiet (ad_db s) (ad_db s') \<and> statements_unique (t_statement s')"
proof -
  have eok: "engine_ok (ad_db s)" and st: "statements_unique (t_statement s)" using ok by (simp_all add: api_ok_def)
  show ?thesis
  proof (cases r)
    case (UpsertStatements a b c d)
    then show ?thesis using upsert_statements_quiet[OF eok] run by simp
  next
    case (BackfillStates reason dry)
    then show ?thesis using quiet_serve[OF eok, of "Backfill reason dry"] run st by (auto dest!: on_db_InrD)
  qed (use run st p eok in \<open>auto dest!: on_db_InrD intro: create_quiet complete_quiet reopen_quiet activate_request_quiet
      deactivate_request_quiet move_request_quiet patch_task_quiet\<close>)
qed

lemma api_patch:
  assumes ok: "api_ok s" and run: "serve_api (PatchControlState org_id aid i v) s = Inr s'"
  shows "api_ok s' \<and> api_grows s s' \<and>
    (\<exists>status. control_status_of v = Some status \<and> asserted aid i status (ad_db s) (ad_db s'))"
  using patch_state_effect[of "ad_db s" org_id aid i v "ad_db s'"] run ok
  by (auto simp: api_ok_def api_grows_def dest!: on_db_InrD)

lemma api_step:
  assumes ok: "api_ok s" and run: "serve_api r s = Inr s'"
  shows "api_ok s' \<and> api_grows s s'"
proof (cases "is_patch r")
  case True
  then show ?thesis using api_patch[OF ok] run by (cases r) auto
next
  case False
  then show ?thesis using api_quiet[OF ok run] by (simp add: api_ok_def api_grows_def quiet_def)
qed

text \<open>One request: who judged, and whose doing a higher score is.\<close>

lemma control_status_of_value: "control_status_of v = Some st \<longleftrightarrow> v = status_value st"
  by (cases st) (auto simp: control_status_of_def of_value_def find_Some_iff split: if_splits)

lemma judged_by:
  assumes ok: "api_ok s" and run: "serve_api r s = Inr s'"
    and cs': "get_state i (ad_db s') = Some cs'" "cs_status cs' \<in> set JUDGED_STATUSES"
  shows "(\<exists>cs. get_state i (ad_db s) = Some cs \<and> cs_status cs = cs_status cs') \<or>
    (\<exists>org_id aid. r = PatchControlState org_id aid i (status_value (cs_status cs')))"
proof (cases "is_patch r")
  case True
  then obtain org_id aid j v where r: "r = PatchControlState org_id aid j v" by (cases r) auto
  obtain status where v: "v = status_value status" and a: "asserted aid j status (ad_db s) (ad_db s')"
    using api_patch[OF ok] run unfolding r control_status_of_value by blast
  obtain cs where
    "\<forall>k. get_state k (ad_db s') = (if k = j then Some (cs\<lparr>cs_status := status\<rparr>) else get_state k (ad_db s))"
    using asserted_states[OF a] by blast
  then show ?thesis using cs'(1) by (auto simp: r v split: if_splits)
next
  case False
  then show ?thesis using api_quiet[OF ok run] cs' by (simp add: quiet_def modest_def)
qed

lemma asserted_unmet:
  assumes ok: "engine_ok s" "catalog_eq s s'" "keeps_states s s'" and a: "asserted aid i status s s'"
    and n: "\<not> satisfied status"
  shows "unmet k s \<subseteq> unmet k s'"
proof (rule unmet_mono[OF ok(3,2)])
  show "schema_ok s" using ok(1) by (simp add: engine_ok_def)
  obtain cs where g: "get_state i s = Some cs"
    "\<forall>j. get_state j s' = (if j = i then Some (cs\<lparr>cs_status := status\<rparr>) else get_state j s)"
    using asserted_states[OF a] by blast
  show "satisfied (cs_status c)" if "get_state j s = Some c" "get_state j s' = Some c'" "satisfied (cs_status c')" for j c c'
    using that g n by (auto split: if_splits)
qed

lemma raised_by:
  assumes ok: "api_ok s" and run: "serve_api r s = Inr s'" and w: "weighs w (ad_db s)" "\<And>c. 0 \<le> w c"
    and a: "get_assessment aid (ad_db s) = Some a" "get_assessment aid (ad_db s') = Some a'"
    and up: "the (a_sprs_score a) < the (a_sprs_score a')"
  shows "\<exists>org_id i st. r = PatchControlState org_id aid i (status_value st) \<and> satisfied st"
proof -
  have eok: "engine_ok (ad_db s)" "engine_ok (ad_db s')" and cat: "catalog_eq (ad_db s) (ad_db s')"
    and keep: "keeps_states (ad_db s) (ad_db s')"
    using api_step[OF ok run] ok by (simp_all add: api_ok_def api_grows_def)
  have less: "\<not> unmet aid (ad_db s) \<subseteq> unmet aid (ad_db s')"
    using stored_score_antimono[OF eok cat w a] up by linarith
  have sok: "schema_ok (ad_db s)" using eok(1) by (simp add: engine_ok_def)
  have "is_patch r"
    using less unmet_grows[OF keep _ cat sok] api_quiet[OF ok run] by (auto simp: quiet_def)
  then obtain org_id k j v where r: "r = PatchControlState org_id k j v" by (cases r) auto
  obtain status where v: "v = status_value status" and p: "asserted k j status (ad_db s) (ad_db s')"
    using api_patch[OF ok] run unfolding r control_status_of_value by blast
  have "satisfied status" using asserted_unmet[OF eok(1) cat keep p] less by blast
  moreover have "k = aid"
  proof (rule ccontr)
    assume "k \<noteq> aid"
    then have "get_assessment aid (ad_db s') = get_assessment aid (ad_db s)" using p unfolding asserted_def by metis
    then show False using a up by simp
  qed
  ultimately show ?thesis by (simp add: r v)
qed

interpretation api: transactions serve_api "\<lambda>_. True" api_ok api_grows
proof unfold_locales
  show "api_grows s s" for s by (simp add: api_grows_def keeps_states_same)
  show "api_grows s u" if "api_grows s t" "api_grows t u" for s t u
    using that append_only_trans catalog_eq_trans keeps_states_trans unfolding api_grows_def by blast
qed (simp_all add: api_step)

lemma run_api_ok: "api_ok s \<Longrightarrow> api_ok (run_api rs s) \<and> api_grows s (run_api rs s)"
  using api.run[of s rs] by (simp add: run_api_def list_all_iff)

end
