(* ===== verification/Assessment_Api_Properties.thy ===== *)
theory Assessment_Api_Properties
  imports Assessment_Api_Facts Example
begin

section \<open>Properties of the assessment endpoints\<close>

text \<open>
  What holds of every sequence of requests to the assessment endpoints: the invariant and the
  ledgers, and who can move the score. The engine only ever withdraws a verdict; a verdict, and
  with it a higher score, is a person's patch of one control state, on record.
\<close>

text \<open>C1. After any sequence of requests to the assessment endpoints, each committed or rolled
  back as a whole, the engine's invariant holds (constraints, stored scores, every status accounted
  for by the history), no assessment has two statements for one objective, the audit log, the
  history and the score snapshots have only grown, no control state is gone, and the catalog is as
  it was.\<close>

theorem api_requests_keep_invariant:
  assumes "api_ok s"
  shows "api_ok (run_api rs s) \<and> append_only (ad_db s) (ad_db (run_api rs s)) \<and>
    keeps_states (ad_db s) (ad_db (run_api rs s)) \<and> catalog_eq (ad_db s) (ad_db (run_api rs s))"
  using run_api_ok[OF assms] by (simp add: api_grows_def)

definition api_tenant :: assessment_db where
  "api_tenant = \<lparr>ad_db = active_tenant, t_statement = []\<rparr>"

lemma api_tenant_ok: "api_ok api_tenant"
  by (simp add: api_tenant_def api_ok_def active_tenant_ok statements_unique_def)

theorem api_requests_keep_invariant_witness:
  "api_ok (run_api [PatchControlState 1 70 80 ''met'', CompleteAssessment 1 70, PatchControlState 1 70 81 ''partial'']
     api_tenant)"
  using api_requests_keep_invariant[OF api_tenant_ok] by blast

text \<open>Only a person judges: a control state that is at met, partial, not applicable or
  inherited after a sequence of requests was at that status before it, or the sequence has a
  request of a person to set this very state to this very status.\<close>

theorem only_people_judge:
  assumes "api_ok s" "get_state i (ad_db (run_api rs s)) = Some cs'" "cs_status cs' \<in> set JUDGED_STATUSES"
  shows "(\<exists>cs. get_state i (ad_db s) = Some cs \<and> cs_status cs = cs_status cs') \<or>
    (\<exists>org_id aid. PatchControlState org_id aid i (status_value (cs_status cs')) \<in> set rs)"
  using assms
proof (induction rs arbitrary: s)
  case Nil
  then show ?case by (simp add: run_api_def)
next
  case (Cons r rs)
  show ?case
  proof (cases "serve_api r s")
    case (Inl e)
    then have "run_api (r # rs) s = run_api rs s" by (simp add: run_api_def)
    then show ?thesis using Cons.IH[OF Cons.prems(1)] Cons.prems(2,3) by auto
  next
    case (Inr t)
    have "run_api (r # rs) s = run_api rs t" using Inr by (simp add: run_api_def)
    then consider (before) cs where "get_state i (ad_db t) = Some cs" "cs_status cs = cs_status cs'"
      | (later) org_id aid where "PatchControlState org_id aid i (status_value (cs_status cs')) \<in> set rs"
      using Cons.IH[OF conjunct1[OF api_step[OF Cons.prems(1) Inr]]] Cons.prems(2,3) by auto
    then show ?thesis
    proof cases
      case before
      then show ?thesis using judged_by[OF Cons.prems(1) Inr before(1)] Cons.prems(3) by auto
    qed auto
  qed
qed

theorem only_people_judge_witness:
  "map_option cs_status (get_state 80 (ad_db (run_api [PatchControlState 1 70 81 ''nonsense'', PatchControlState 1 70 80 ''met'']
       api_tenant))) = Some Met \<and>
   (\<exists>org_id aid. PatchControlState org_id aid 80 ''met'' \<in>
      set [PatchControlState 1 70 81 ''nonsense'', PatchControlState 1 70 80 ''met''])"
proof -
  let ?rs = "[PatchControlState 1 70 81 ''nonsense'', PatchControlState 1 70 80 ''met'']"
  have m: "map_option cs_status (get_state 80 (ad_db (run_api ?rs api_tenant))) = Some Met"
    "map_option cs_status (get_state 80 (ad_db api_tenant)) = Some PendingEvidence" by code_simp+
  from m(1) obtain cs where cs: "get_state 80 (ad_db (run_api ?rs api_tenant)) = Some cs" "cs_status cs = Met" by auto
  from only_people_judge[OF api_tenant_ok cs(1)] cs(2) m show ?thesis by (auto simp: JUDGED_STATUSES_def)
qed

text \<open>C3. Only a person raises a score: when a request to the endpoints raises the stored score of
  an assessment, and no weight is negative, it is a person's patch of one control state of that
  organization to met or inherited.\<close>

theorem only_people_raise_scores:
  assumes "api_ok s" "serve_api r s = Inr s'" "weighs w (ad_db s)" "\<And>c. 0 \<le> w c"
    and "get_assessment aid (ad_db s) = Some a" "get_assessment aid (ad_db s') = Some a'"
    and "the (a_sprs_score a) < the (a_sprs_score a')"
  shows "\<exists>org_id i v. r = PatchControlState org_id aid i v \<and> v \<in> {''met'', ''inherited''}"
  using raised_by[OF assms] by (auto simp: satisfied_def)

definition raisable :: assessment_db where
  "raisable = \<lparr>ad_db = judged_tenant, t_statement = []\<rparr>"

lemma raisable_ok: "api_ok raisable" "weighs tenant_weights (ad_db raisable)"
  using judged_tenant_ok active_tenant_weighs
  by (simp_all add: raisable_def api_ok_def statements_unique_def weighs_def judged_tenant_def active_tenant_def)

theorem only_people_raise_scores_witness:
  "\<exists>s' org_id i v. serve_api (PatchControlState 1 70 82 ''met'') raisable = Inr s' \<and>
     PatchControlState 1 70 82 ''met'' = PatchControlState org_id 70 i v \<and> v \<in> {''met'', ''inherited''} \<and>
     map_option a_sprs_score (get_assessment 70 (ad_db s')) = Some (Some 110)"
proof -
  let ?r = "PatchControlState 1 70 82 ''met''"
  let ?score = "\<lambda>s. map_option a_sprs_score (get_assessment 70 (ad_db s))"
  have "case serve_api ?r raisable of Inl _ \<Rightarrow> False | Inr s' \<Rightarrow> ?score s' = Some (Some 110)" by code_simp
  then obtain s' where s': "serve_api ?r raisable = Inr s'" "?score s' = Some (Some 110)" by (auto split: sum.splits)
  have "?score raisable = Some (Some 107)" by code_simp
  then obtain a a' where a: "get_assessment 70 (ad_db raisable) = Some a" "get_assessment 70 (ad_db s') = Some a'"
    "a_sprs_score a = Some 107" "a_sprs_score a' = Some 110" using s'(2) by auto
  have "\<exists>org_id i v. ?r = PatchControlState org_id 70 i v \<and> v \<in> {''met'', ''inherited''}"
    by (rule only_people_raise_scores[OF raisable_ok(1) s'(1) raisable_ok(2) _ a(1,2)])
      (simp_all add: a tenant_weights_def)
  then show ?thesis using s' by blast
qed

text \<open>C23. What a verdict does: a request to set the status of a control state is accepted exactly
  when the status is one of the seven, the assessment is the organization's and the state is of that
  assessment. Then that state alone has changed, to that status; the stored score of that
  assessment alone has, to the score of its states; one history row says from what to what, and one
  audit entry names the actor, the state and both statuses and scores.\<close>

theorem verdict_outcome:
  assumes "engine_ok s"
  shows "((\<exists>s'. patch_control_state org_id aid i v s = Inr s') \<longleftrightarrow>
      (control_status_of v \<noteq> None \<and> map_option a_org_id (get_assessment aid s) = Some org_id \<and>
       map_option cs_assessment_id (get_state i s) = Some aid)) \<and>
    (\<forall>s'. patch_control_state org_id aid i v s = Inr s' \<longrightarrow>
      (\<exists>status. v = status_value status \<and> asserted aid i status s s'))" (is "?iff \<and> ?effect")
proof
  show ?iff
    by (auto simp: patch_control_state_def own_assessment_def case_prod_unfold Let_def split: option.splits if_splits)
  show ?effect
  proof (intro allI impI)
    fix s' assume "patch_control_state org_id aid i v s = Inr s'"
    from patch_state_effect[OF assms this] show "\<exists>status. v = status_value status \<and> asserted aid i status s s'"
      by (simp add: control_status_of_value)
  qed
qed

theorem verdict_outcome_witness:
  "\<exists>s' status. patch_control_state 1 70 82 ''met'' judged_tenant = Inr s' \<and> ''met'' = status_value status \<and>
     asserted 70 82 status judged_tenant s'"
proof -
  have c: "control_status_of ''met'' \<noteq> None" "map_option a_org_id (get_assessment 70 judged_tenant) = Some 1"
    "map_option cs_assessment_id (get_state 82 judged_tenant) = Some 70" by code_simp+
  from verdict_outcome[OF judged_tenant_ok, of 1 70 82 "''met''"] c
  obtain s' where "patch_control_state 1 70 82 ''met'' judged_tenant = Inr s'" by (metis (no_types, lifting))
  then show ?thesis using verdict_outcome[OF judged_tenant_ok, of 1 70 82 "''met''"] by blast
qed

end
