(* ===== verification/Activation_Outcome.thy ===== *)
theory Activation_Outcome
  imports Success
begin

section \<open>What an activation leaves\<close>

text \<open>
  \<open>activated\<close> is the specification of a successful activation, over the database
  before it: the control states the version reaches, what becomes of them, the links that come
  back, the row of the product. \<open>activate_outcome\<close> shows that the code implements it.
\<close>

definition asked :: "uuid \<Rightarrow> uuid \<Rightarrow> uuid \<Rightarrow> uuid \<Rightarrow> decisions option \<Rightarrow> db \<Rightarrow> loop_env" where
  "asked org_id pid v aid ds s =
     env_at org_id pid v aid (map_option decided_choices ds) ''activation'' (map_option decided_shown ds) s"

text \<open>The control states the version covers and the product does not contribute to yet, with
  the claim that covers each.\<close>

definition reached :: "uuid \<Rightarrow> uuid \<Rightarrow> uuid \<Rightarrow> uuid \<Rightarrow> decisions option \<Rightarrow> db \<Rightarrow> (uuid \<times> baseline_control) list" where
  "reached org_id pid v aid ds s = hits_at (asked org_id pid v aid ds s) v s"

definition comes_back :: "uuid \<Rightarrow> uuid \<Rightarrow> db \<Rightarrow> state_link \<Rightarrow> bool" where
  "comes_back pid aid s l \<longleftrightarrow> state_assessment s (ln_state_id l) = Some aid \<and> ln_is_archived l \<and>
     ln_archived_by_product l = Some pid"

definition regains :: "uuid \<Rightarrow> uuid \<Rightarrow> db \<Rightarrow> uuid \<Rightarrow> bool" where
  "regains pid aid s i \<longleftrightarrow> (\<exists>l \<in> set (t_link s). comes_back pid aid s l \<and> ln_state_id l = i)"

definition settle :: "bool \<Rightarrow> control_state \<Rightarrow> control_state" where
  "settle regained cs =
     (if regained \<and> cs_status cs = PendingEvidence then cs\<lparr>cs_status := NeedsReview\<rparr> else cs)"

definition task_comes_back :: "uuid \<Rightarrow> uuid \<Rightarrow> uuid \<Rightarrow> db \<Rightarrow> evidence_task \<Rightarrow> bool" where
  "task_comes_back org_id aid v s t \<longleftrightarrow> tk_assessment_id t = Some aid \<and> tk_org_id t = org_id \<and>
     tk_is_archived t \<and> map_option bc_version_id (task_bcontrol s t) = Some v"

definition activated ::
  "uuid \<Rightarrow> uuid \<Rightarrow> uuid \<Rightarrow> uuid \<Rightarrow> decisions option \<Rightarrow> db \<Rightarrow> loop_result \<Rightarrow> db \<Rightarrow> bool" where
  "activated org_id pid v aid ds s res s' \<longleftrightarrow>
     (let env = asked org_id pid v aid ds s; hs = reached org_id pid v aid ds s in
      distinct (map fst hs) \<and>
      (\<forall>h \<in> set hs. refused env (state_at (fst h) s) = None) \<and>
      (\<forall>i. get_state i s' = map_option (settle (regains pid aid s i)) (covered_by env hs s i)) \<and>
      (\<exists>n. t_contrib s' = t_contrib s @
         insert_rows (mk_contributor pid) n (map (\<lambda>h. (fst h, bc_id (snd h))) hs)) \<and>
      t_link s' = map (\<lambda>l. if comes_back pid aid s l then restore l else l) (t_link s) \<and>
      (\<exists>new. t_task s' =
         map (\<lambda>t. if task_comes_back org_id aid v s t then restore_task t else t) (t_task s) @ new \<and>
         length new = lr_tasks res) \<and>
      lr_updated res = length hs \<and>
      lr_judged res = map (\<lambda>h. outcome_of env (snd h) (state_at (fst h) s)) (judged_hits env hs s) \<and>
      (\<forall>d. ds = Some d \<longrightarrow> updates_of (claims_of v s) s \<noteq> [] \<longrightarrow> fst ` set d = fst ` set (judged_hits env hs s)))"

lemma archived_links_comes_back:
  "archived_links pid aid s = filter (comes_back pid aid s) (t_link s)"
  by (simp add: archived_links_def comes_back_def[abs_def])

lemma restore_prior_links:
  assumes ok: "schema_ok s" and run: "restore_prior org_id product v aid s = (restored, s')"
  shows "restored = map ln_state_id (filter (comes_back (p_id product) aid s) (t_link s))"
    and "t_link s' = map (\<lambda>l. if comes_back (p_id product) aid s l then restore l else l) (t_link s)"
proof -
  let ?t = "foldl (restore_one_task org_id (reactivation_ctx product aid)) s (archived_tasks org_id aid v s)"
  let ?f = "restore_one_link org_id (reactivation_ctx product aid)"
  have fr: "t_link ?t = t_link s" "t_cstate ?t = t_cstate s" by (simp_all add: foldl_same)
  have cb: "comes_back (p_id product) aid ?t = comes_back (p_id product) aid s"
    unfolding comes_back_def[abs_def] state_assessment_def fr by (rule refl)
  have al: "archived_links (p_id product) aid ?t = filter (comes_back (p_id product) aid s) (t_link ?t)"
    unfolding archived_links_comes_back cb by (rule refl)
  have r: "restored = map ln_state_id (archived_links (p_id product) aid ?t)"
    and s': "s' = foldl ?f ?t (archived_links (p_id product) aid ?t)"
    using run by (simp_all add: restore_prior_def Let_def)
  show "restored = map ln_state_id (filter (comes_back (p_id product) aid s) (t_link s))"
    unfolding r al fr by (rule refl)
  have pk: "pk_ok ln_id (next_id s) (t_link ?t)" unfolding fr using ok by (simp add: schema_ok_def links_ok_def)
  have "t_link s' = map (\<lambda>l. if comes_back (p_id product) aid s l then restore l else l) (t_link ?t)"
    unfolding s' al
    by (rule foldl_filter_table[where tab = t_link and g = "\<lambda>_. restore" and key = ln_id and f = ?f and s = ?t, OF _ _ _ pk])
      simp_all
  then show "t_link s' = map (\<lambda>l. if comes_back (p_id product) aid s l then restore l else l) (t_link s)"
    unfolding fr .
qed

lemma restore_one_task_table [simp]:
  "t_task (restore_one_task org_id ctx s t) = tupd tk_id (tk_id t) restore_task (t_task s)"
  by (simp add: restore_one_task_def update_task_def)

lemma restore_prior_tasks:
  assumes ok: "schema_ok s" and run: "restore_prior org_id product v aid s = (restored, s')"
  shows "t_task s' = map (\<lambda>t. if task_comes_back org_id aid v s t then restore_task t else t) (t_task s)"
proof -
  let ?f = "restore_one_task org_id (reactivation_ctx product aid)"
  let ?t = "foldl ?f s (archived_tasks org_id aid v s)"
  have pk: "pk_ok tk_id (next_id s) (t_task s)" using ok by (simp add: schema_ok_def)
  have at: "archived_tasks org_id aid v s = filter (task_comes_back org_id aid v s) (t_task s)"
    by (simp add: archived_tasks_def task_comes_back_def[abs_def])
  have "t_task ?t = map (\<lambda>t. if task_comes_back org_id aid v s t then restore_task t else t) (t_task s)"
    unfolding at
    by (rule foldl_filter_table[where tab = t_task and g = "\<lambda>_. restore_task" and key = tk_id and f = ?f and s = s, OF _ _ _ pk])
      simp_all
  moreover have "t_task s' = t_task ?t" using run by (auto simp: restore_prior_def Let_def foldl_same)
  ultimately show ?thesis by simp
qed

lemma task_comes_back_cong:
  "t_spec u = t_spec s \<Longrightarrow> t_bcontrol u = t_bcontrol s \<Longrightarrow> task_comes_back org_id aid v u = task_comes_back org_id aid v s"
proof -
  assume eqs: "t_spec u = t_spec s" "t_bcontrol u = t_bcontrol s"
  have b: "task_bcontrol u = task_bcontrol s" unfolding task_bcontrol_def[abs_def] eqs by (rule refl)
  show ?thesis unfolding task_comes_back_def[abs_def] b by (rule refl)
qed

lemma review_regained_frame:
  "t_task (review_regained org_id ctx name restored s) = t_task s"
  "t_contrib (review_regained org_id ctx name restored s) = t_contrib s"
  "t_link (review_regained org_id ctx name restored s) = t_link s"
  by (simp_all add: review_regained_eq foldl_same)

lemma put_org_product_cong:
  "put_org_product org_id pid v nts s = (i, s1) \<Longrightarrow> same_catalog s s1 \<and> t_link s1 = t_link s"
  using touches_put_org_product[of org_id pid v nts s i s1]
  by (auto simp: same_catalog_def touches_def catalog_eq_def)

lemma activate_outcome:
  assumes ok: "schema_ok s" and run: "activate_org_product org_id pid aid nts ds s = Inr (res, s')"
  obtains product v where "get_product pid s = Some product" "p_id product = pid"
    "activation_target product (find_org_product org_id pid s) = Inr v"
    "activated org_id pid v aid ds s res s'"
proof -
  from run obtain product v i s1 restored s2 s3 where
    p: "get_product pid s = Some product" "p_id product = pid" and
    v: "activation_target product (find_org_product org_id pid s) = Inr v" and
    s1: "put_org_product org_id pid v nts s = (i, s1)" and
    s2: "restore_prior org_id product v aid s1 = (restored, s2)" and
    s3: "run_loop org_id pid v aid (map_option decided_choices ds) ''activation''
        (map_option decided_shown ds) s2 = Inr (res, s3)" and
    s': "s' = log_activation org_id product v aid i (find_org_product org_id pid s) (assessment_score aid s1)
        (sprs_of aid (review_regained org_id (reactivation_ctx product aid) (p_name product) restored s3))
        (lr_judged res) (ds \<noteq> None)
        (snd (recompute_sprs aid (review_regained org_id (reactivation_ctx product aid) (p_name product) restored s3)))"
    by (rule activate_InrD)
  let ?r = "review_regained org_id (reactivation_ctx product aid) (p_name product) restored s3"
  let ?env = "asked org_id pid v aid ds s" and ?hs = "reached org_id pid v aid ds s"
  note same = restored_same_catalog[OF s1 s2]
  note cong = loop_inputs_cong[OF same(1)]
  have same1: "same_catalog s s1" "t_link s1 = t_link s" using put_org_product_cong[OF s1] by simp_all
  have ok1: "schema_ok s1" by (rule touches_schema_ok[OF touches_put_org_product(1)[OF s1, of aid] ok])
  have ok2: "schema_ok s2" by (rule touches_schema_ok[OF same(2) ok])
  have ok3: "schema_ok s3" by (rule touches_schema_ok[OF run_loop_logs(1)[OF ok2 s3] ok2])
  have cb: "comes_back pid aid s1 = comes_back pid aid s"
    using same1 unfolding comes_back_def[abs_def] state_assessment_def same_catalog_def by simp
  note links = restore_prior_links[OF ok1 s2, unfolded p(2) cb same1(2)]
  have out: "loop_outcome ?env pid ?hs s2 res s3"
    using run_loop_outcome(1)[OF ok2 s3] unfolding cong asked_def reached_def .
  have cov: "covered_by ?env ?hs s2 j = covered_by ?env ?hs s j" for j
    using same(1) unfolding covered_by_def same_catalog_def by (simp split: option.split)
  have jh: "judged_hits ?env hs s2 = judged_hits ?env hs s" for hs by (rule cong(5))
  have cat1: "catalog_eq s s1" using touches_put_org_product(1)[OF s1, of aid] by (simp add: touches_def)
  have tcb: "task_comes_back org_id aid v s1 = task_comes_back org_id aid v s"
    by (rule task_comes_back_cong) (use cat1 in \<open>simp_all add: catalog_eq_def\<close>)
  note tasks = restore_prior_tasks[OF ok1 s2, unfolded tcb touches_put_org_product(6)[OF s1]]
  have fin: "t_cstate s' = t_cstate ?r" "t_contrib s' = t_contrib ?r" "t_link s' = t_link ?r" "t_task s' = t_task ?r"
    unfolding s' log_activation_def by simp_all
  have reg: "j \<in> set restored \<longleftrightarrow> regains pid aid s j" for j unfolding links(1) regains_def by auto
  have "activated org_id pid v aid ds s res s'"
    unfolding activated_def Let_def
  proof (intro conjI)
    show "distinct (map fst ?hs)" using out by (simp add: loop_outcome_def)
    show "\<forall>h \<in> set ?hs. refused ?env (state_at (fst h) s) = None"
      using out unfolding loop_outcome_def cong(6) by blast
    show "\<forall>j. get_state j s' = map_option (settle (regains pid aid s j)) (covered_by ?env ?hs s j)"
    proof
      fix j
      have "get_state j s3 = covered_by ?env ?hs s j" using out unfolding loop_outcome_def cov by blast
      then show "get_state j s' = map_option (settle (regains pid aid s j)) (covered_by ?env ?hs s j)"
        unfolding fin(1) get_review_regained[OF ok3] reg settle_def[abs_def] by simp
    qed
    have "t_contrib s2 = t_contrib s" using same(1) by (simp add: same_catalog_def)
    then show "\<exists>n. t_contrib s' = t_contrib s @ insert_rows (mk_contributor pid) n (map (\<lambda>h. (fst h, bc_id (snd h))) ?hs)"
      using out unfolding loop_outcome_def fin(2) review_regained_frame by simp
    show "t_link s' = map (\<lambda>l. if comes_back pid aid s l then restore l else l) (t_link s)"
      using out links(2) unfolding loop_outcome_def fin(3) review_regained_frame by simp
    show "\<exists>new. t_task s' =
         map (\<lambda>t. if task_comes_back org_id aid v s t then restore_task t else t) (t_task s) @ new \<and>
         length new = lr_tasks res"
      using out tasks unfolding loop_outcome_def fin(4) review_regained_frame by auto
    show "lr_updated res = length ?hs" using out by (simp add: loop_outcome_def)
    show "lr_judged res = map (\<lambda>h. outcome_of ?env (snd h) (state_at (fst h) s)) (judged_hits ?env ?hs s)"
      using out unfolding loop_outcome_def jh cong(6) by blast
    show "\<forall>d. ds = Some d \<longrightarrow> updates_of (claims_of v s) s \<noteq> [] \<longrightarrow>
        fst ` set d = fst ` set (judged_hits ?env ?hs s)"
    proof (intro allI impI)
      fix d assume d: "ds = Some d" and u: "updates_of (claims_of v s) s \<noteq> []"
      have "fst ` set (decided_shown d) = fst ` set (judged_hits ?env ?hs s)"
        using run_loop_outcome(3)[OF ok2 s3] u d unfolding cong asked_def reached_def by simp
      then show "fst ` set d = fst ` set (judged_hits ?env ?hs s)" by (simp only: fst_decided_shown)
    qed
  qed
  then show ?thesis using that p v by blast
qed

end
