(* ===== verification/Activation_Properties.thy ===== *)
theory Activation_Properties
  imports Example Activation_Outcome
begin

section \<open>Properties of activation\<close>

text \<open>
  What becomes of a control state, which decisions are accepted, that a second activation changes
  nothing, and that the preview tells the truth.
\<close>

lemma reached_env_ok: "schema_ok s \<Longrightarrow> env_ok (asked org_id pid v aid ds s) s"
  unfolding asked_def by (rule env_ok_at)

lemma reached_state:
  assumes "schema_ok s" "h \<in> set (reached org_id pid v aid ds s)"
  obtains cs where "get_state (fst h) s = Some cs" "cs_id cs = fst h" "cs_assessment_id cs = aid"
    "p_id (the (get_product pid s)) \<notin> fst ` set (contributors_of (fst h) s)"
  using hits_state[OF reached_env_ok[OF assms(1)] assms(2)[unfolded reached_def hits_at_def]]
  by (auto simp: asked_def)

lemma asked_fields [simp]:
  "le_contributors (asked org_id pid v aid ds s) = (\<lambda>i. contributors_of i s)"
  "le_decisions (asked org_id pid v aid ds s) = map_option decided_choices ds"
  "le_expected (asked org_id pid v aid ds s) = map_option decided_shown ds"
  by (simp_all add: asked_def)

text \<open>Which states are covered does not depend on the decisions.\<close>

lemma reaches_decisions: "reaches (asked org_id pid v aid ds s) = reaches (asked org_id pid v aid ds' s)"
proof -
  have e: "le_existing (asked org_id pid v aid ds s) = le_existing (asked org_id pid v aid ds' s)"
    "le_bc (asked org_id pid v aid ds s) = le_bc (asked org_id pid v aid ds' s)"
    "le_product (asked org_id pid v aid ds s) = le_product (asked org_id pid v aid ds' s)"
    by (simp_all add: asked_def env_at_def loop_env_of_def Let_def)
  show ?thesis unfolding reaches_def[abs_def] e asked_fields(1) by (rule refl)
qed

lemma reached_decisions: "reached org_id pid v aid ds s = reached org_id pid v aid ds' s"
  unfolding reached_def hits_at_def hits_def reaches_decisions[of org_id pid v aid ds s ds'] by (rule refl)

lemma in_question_asked:
  "in_question (asked org_id pid v aid ds s) cs \<longleftrightarrow>
     contributors_of (cs_id cs) s = [] \<and> cs_status cs \<in> set JUDGED_STATUSES"
  by (simp add: in_question_def first_on_def is_judgement_in_question_def)

definition decision_for :: "decisions option \<Rightarrow> uuid \<Rightarrow> string option" where
  "decision_for ds i = (case ds of None \<Rightarrow> None | Some d \<Rightarrow> decided_choices d i)"

lemma answer_asked:
  "answer (asked org_id pid v aid ds s) cs =
     (if contributors_of (cs_id cs) s = [] \<and> cs_status cs \<in> set JUDGED_STATUSES then decision_for ds (cs_id cs) else None)"
  unfolding answer_def choice_of_def in_question_asked asked_fields decision_for_def
  by (simp split: option.split)

text \<open>C6. When an activation succeeds, every control state its version covers anew (it is not
  yet a contributor of) ends with the responsibility of its contributors and: at its old status if
  another tool already covered it (at needs review if that was pending evidence and it regained
  an archived artifact); else at pending evidence from an unjudged status (needs review if
  it regained one); else at its judged status exactly when a person chose to keep it, and at needs
  review otherwise.\<close>

theorem activation_of_a_covered_state:
  assumes "schema_ok s" "activate_org_product org_id pid aid nts ds s = Inr (res, s')"
    and "activation_target (the (get_product pid s)) (find_org_product org_id pid s) = Inr v"
    and "(i, bc) \<in> set (reached org_id pid v aid ds s)" "get_state i s = Some cs"
  shows "\<exists>cs'. get_state i s' = Some cs' \<and>
    cs_responsibility cs' =
      resolve_contributor_responsibility (map snd (contributors_of i s) @ [bc_classification bc]) \<and>
    cs_status cs' =
      (if contributors_of i s \<noteq> [] then
         (if regains pid aid s i \<and> cs_status cs = PendingEvidence then NeedsReview else cs_status cs)
       else if cs_status cs \<in> {NotMet, PendingEvidence} then
         (if regains pid aid s i then NeedsReview else PendingEvidence)
       else if cs_status cs \<noteq> NeedsReview \<and> decision_for ds i = Some KEEP then cs_status cs
       else NeedsReview)"
proof -
  obtain product w where "get_product pid s = Some product"
    "activation_target product (find_org_product org_id pid s) = Inr w"
    and act: "activated org_id pid w aid ds s res s'"
    by (rule activate_outcome[OF assms(1,2)])
  then have w: "w = v" using assms(3) by simp
  have id: "cs_id cs = i" by (rule get_state_id[OF assms(5)])
  let ?env = "asked org_id pid v aid ds s" and ?hs = "reached org_id pid v aid ds s"
  have d: "distinct (map fst ?hs)"
    and g: "get_state i s' = map_option (settle (regains pid aid s i)) (covered_by ?env ?hs s i)"
    using act unfolding w activated_def Let_def by blast+
  have "covered_by ?env ?hs s i = Some (covered ?env bc cs)"
    using covered_by_hit[OF d assms(4)] assms(5) by simp
  then have "get_state i s' = Some (settle (regains pid aid s i) (covered ?env bc cs))" using g by simp
  then show ?thesis
    by (cases "cs_status cs")
      (auto simp: settle_def covered_def first_on_def answer_asked id contributor_added_status_def JUDGED_STATUSES_def)
qed

theorem activation_of_a_covered_state_witness:
  "\<exists>res s' cs'. activate_org_product 1 30 70 None None tenant = Inr (res, s') \<and>
     get_state 80 s' = Some cs' \<and> cs_status cs' = PendingEvidence \<and> cs_responsibility cs' = ProviderSatisfies"
proof -
  obtain res s' where run: "activate_org_product 1 30 70 None None tenant = Inr (res, s')"
    using tenant_activates by blast
  have "map_option (\<lambda>bc. bc_classification bc = ClsProvider) (map_of (reached 1 30 40 70 None tenant) 80) = Some True"
    by code_simp
  then obtain bc where bc: "map_of (reached 1 30 40 70 None tenant) 80 = Some bc" "bc_classification bc = ClsProvider"
    by auto
  have "map_option cs_status (get_state 80 tenant) = Some NotMet" by code_simp
  then obtain cs where cs: "get_state 80 tenant = Some cs" "cs_status cs = NotMet" by auto
  have k: "contributors_of 80 tenant = []" "\<not> regains 30 70 tenant 80" by code_simp+
  from activation_of_a_covered_state[OF example_schema(1) run tenant_activation_ready(5) map_of_SomeD[OF bc(1)] cs(1)]
  show ?thesis using run k cs(2) bc(2) by (auto simp: resolve_contributor_responsibility_def)
qed

subsection \<open>Decisions\<close>

definition judged_ids :: "uuid \<Rightarrow> uuid \<Rightarrow> uuid \<Rightarrow> uuid \<Rightarrow> db \<Rightarrow> uuid set" where
  "judged_ids org_id pid v aid s =
     {i \<in> fst ` set (reached org_id pid v aid None s).
        contributors_of i s = [] \<and> cs_status (state_at i s) \<in> set JUDGED_STATUSES}"

definition exact :: "uuid set \<Rightarrow> db \<Rightarrow> decisions \<Rightarrow> bool" where
  "exact ids s d \<longleftrightarrow> fst ` set d = ids \<and>
     (\<forall>i \<in> ids. \<exists>choice \<in> set activation_choices. map_of d i = Some (status_value (cs_status (state_at i s)), choice))"

lemma decided_maps:
  "map_of (decided_shown d) i = map_option fst (map_of d i)"
  "decided_choices d i = map_option snd (map_of d i)"
  by (induction d) (auto simp: decided_shown_def decided_choices_def)

lemma state_at_reached:
  assumes "schema_ok s" "h \<in> set (reached org_id pid v aid ds s)"
  shows "cs_id (state_at (fst h) s) = fst h"
  by (rule reached_state[OF assms]) (simp add: state_at_def)

lemma fst_judged_hits:
  assumes "schema_ok s"
  shows "fst ` set (judged_hits (asked org_id pid v aid ds s) (reached org_id pid v aid ds s) s) =
    judged_ids org_id pid v aid s"
  unfolding judged_hits_def judged_ids_def reached_decisions[of org_id pid v aid None s ds]
  using state_at_reached[OF assms] by (force simp: in_question_asked)

lemma not_refused_iff:
  assumes "cs_id cs = i"
  shows "refused (asked org_id pid v aid (Some d) s) cs = None \<longleftrightarrow>
    (contributors_of i s = [] \<and> cs_status cs \<in> set JUDGED_STATUSES \<longrightarrow>
      (\<exists>choice \<in> set activation_choices. map_of d i = Some (status_value (cs_status cs), choice)))"
proof (cases "contributors_of i s = [] \<and> cs_status cs \<in> set JUDGED_STATUSES")
  case True
  then show ?thesis
    by (cases "map_of d i")
      (auto simp: refused_def in_question_asked answer_asked expected_differs_def decided_maps decision_for_def assms)
next
  case False
  then show ?thesis by (auto simp: refused_def in_question_asked answer_asked assms)
qed

lemma fine_iff:
  assumes "schema_ok s"
  shows "(\<forall>h \<in> set (reached org_id pid v aid (Some d) s).
      refused (asked org_id pid v aid (Some d) s) (state_at (fst h) s) = None) \<longleftrightarrow>
    (\<forall>i \<in> judged_ids org_id pid v aid s. \<exists>choice \<in> set activation_choices.
      map_of d i = Some (status_value (cs_status (state_at i s)), choice))"
  using not_refused_iff[OF state_at_reached[OF assms]]
  unfolding judged_ids_def reached_decisions[of org_id pid v aid None s "Some d"] by auto

lemma accepted_when_exact:
  assumes "schema_ok s" "get_product pid s = Some product" "get_assessment aid s = Some a"
    "activation_target product (find_org_product org_id pid s) = Inr v" "contribs_fk s" "claims_once v s"
    and e: "exact (judged_ids org_id pid v aid s) s d"
  shows "\<exists>res s'. activate_org_product org_id pid aid nts (Some d) s = Inr (res, s')"
proof (rule activate_returns[OF assms(1-6)])
  have ok: "\<forall>h \<in> set (reached org_id pid v aid (Some d) s).
      refused (asked org_id pid v aid (Some d) s) (state_at (fst h) s) = None"
    unfolding fine_iff[OF assms(1)] using e by (simp add: exact_def)
  show "refused (env_at org_id pid v aid (map_option decided_choices (Some d)) ''activation''
      (map_option decided_shown (Some d)) s) (state_at (fst h) s) = None"
    if "h \<in> set (hits_at (env_at org_id pid v aid (map_option decided_choices (Some d)) ''activation''
      (map_option decided_shown (Some d)) s) v s)" for h
    using ok that unfolding reached_def asked_def by blast
  show "fst ` set d' = fst ` set (judged_hits (env_at org_id pid v aid (map_option decided_choices (Some d)) ''activation''
      (map_option decided_shown (Some d)) s) (hits_at (env_at org_id pid v aid (map_option decided_choices (Some d)) ''activation''
      (map_option decided_shown (Some d)) s) v s) s)" if "Some d = Some d'" for d'
    using e that fst_judged_hits[OF assms(1), of org_id pid v aid "Some d"]
    unfolding exact_def reached_def asked_def by simp
qed

text \<open>C7. An activation that comes with a person's decisions is carried out exactly when they
  are about the judged objectives the version would newly cover, all of them and no other, with
  the statuses these have now, each with one of the two choices. (For a version with at least one
  claimed objective, claiming none twice.)\<close>

theorem decisions_accepted_iff:
  assumes "schema_ok s" "get_product pid s = Some product" "get_assessment aid s = Some a"
    "activation_target product (find_org_product org_id pid s) = Inr v" "contribs_fk s" "claims_once v s"
    and "updates_of (claims_of v s) s \<noteq> []"
  shows "(\<exists>res s'. activate_org_product org_id pid aid nts (Some d) s = Inr (res, s')) \<longleftrightarrow>
    exact (judged_ids org_id pid v aid s) s d"
proof
  let ?env = "asked org_id pid v aid (Some d) s" and ?hs = "reached org_id pid v aid (Some d) s"
  assume "\<exists>res s'. activate_org_product org_id pid aid nts (Some d) s = Inr (res, s')"
  then obtain res s' where run: "activate_org_product org_id pid aid nts (Some d) s = Inr (res, s')" by blast
  obtain p' w where "get_product pid s = Some p'" "activation_target p' (find_org_product org_id pid s) = Inr w"
    and act: "activated org_id pid w aid (Some d) s res s'" by (rule activate_outcome[OF assms(1) run])
  then have w: "w = v" using assms(2,4) by simp
  have "fst ` set d = judged_ids org_id pid v aid s"
    using act assms(7) unfolding w activated_def Let_def fst_judged_hits[OF assms(1)] by blast
  moreover have "\<forall>h \<in> set ?hs. refused ?env (state_at (fst h) s) = None"
    using act unfolding w activated_def Let_def by blast
  ultimately show "exact (judged_ids org_id pid v aid s) s d" unfolding exact_def fine_iff[OF assms(1)] by blast
next
  assume "exact (judged_ids org_id pid v aid s) s d"
  then show "\<exists>res s'. activate_org_product org_id pid aid nts (Some d) s = Inr (res, s')"
    by (rule accepted_when_exact[OF assms(1-6)])
qed

lemma judged_tenant_ready:
  "get_product 30 judged_tenant \<noteq> None" "get_assessment 70 judged_tenant \<noteq> None" "contribs_fk judged_tenant"
  "claims_once 40 judged_tenant" "updates_of (claims_of 40 judged_tenant) judged_tenant \<noteq> []"
  "activation_target (the (get_product 30 judged_tenant)) (find_org_product 1 30 judged_tenant) = Inr 40"
  by code_simp+

lemma judged_tenant_decisions:
  "fst ` set (reached 1 30 40 70 None judged_tenant) = {80}" "contributors_of 80 judged_tenant = []"
  "cs_status (state_at 80 judged_tenant) = Met"
  by code_simp+

lemma judged_tenant_ids: "judged_ids 1 30 40 70 judged_tenant = {80}"
  unfolding judged_ids_def judged_tenant_decisions(1)
  using judged_tenant_decisions(2,3) by (auto simp: JUDGED_STATUSES_def)

theorem decisions_accepted_iff_witness:
  "\<exists>res s'. activate_org_product 1 30 70 None (Some [(80, ''met'', ''keep'')]) judged_tenant = Inr (res, s')"
proof -
  obtain p a where p: "get_product 30 judged_tenant = Some p" "get_assessment 70 judged_tenant = Some a"
    using judged_tenant_ready(1,2) by blast
  have t: "activation_target p (find_org_product 1 30 judged_tenant) = Inr 40"
    using judged_tenant_ready(6) p(1) by simp
  have "exact (judged_ids 1 30 40 70 judged_tenant) judged_tenant [(80, ''met'', ''keep'')]"
    unfolding judged_tenant_ids exact_def using judged_tenant_decisions(3)
    by (simp add: activation_choices_def KEEP_def)
  then show ?thesis
    using decisions_accepted_iff[OF example_schema(3) p t judged_tenant_ready(3-5), of None] by blast
qed

subsection \<open>Activating again\<close>

lemma states_by_objective_keys:
  assumes "map state_key (t_cstate u) = map state_key (t_cstate s)"
  shows "states_by_objective aid ids u = states_by_objective aid ids s"
proof -
  have eq: "map (\<lambda>cs. (cs_objective_id cs, cs_id cs))
      (filter (\<lambda>cs. cs_assessment_id cs = aid \<and> cs_objective_id cs \<in> set ids) rows) =
    map (\<lambda>(i, a, g, ob). (ob, i)) (filter (\<lambda>(i, a, g, ob). a = aid \<and> ob \<in> set ids) (map state_key rows))" for rows
    by (induction rows) (auto simp: state_key_def)
  show ?thesis unfolding states_by_objective_def eq assms by (rule refl)
qed

lemma loop_env_keys:
  assumes "catalog_eq s u" "map state_key (t_cstate u) = map state_key (t_cstate s)"
  shows "updates_of (claims_of v u) u = updates_of (claims_of v s) s"
    and "le_existing (asked org_id pid v aid ds u) = le_existing (asked org_id pid v aid ds s)"
    and "le_bc (asked org_id pid v aid ds u) = le_bc (asked org_id pid v aid ds s)"
    and "le_product (asked org_id pid v aid ds u) = le_product (asked org_id pid v aid ds s)"
    and "claims_once v u = claims_once v s"
proof -
  note c = assms(1)[unfolded catalog_eq_def]
  have 1: "claims_of v u = claims_of v s" using c by (simp add: claims_of_def)
  have n: "ctrl_uuid_to_str ids u = ctrl_uuid_to_str ids s" "objectives_of ids u = objectives_of ids s" for ids
    using c by (simp_all add: ctrl_uuid_to_str_def objectives_of_def)
  have l: "objective_lookup ids u = objective_lookup ids s" "obj_id_to_control_str ids u = obj_id_to_control_str ids s" for ids
    by (simp_all add: objective_lookup_def obj_id_to_control_str_def n fun_eq_iff)
  have 2: "updates_of bcs u = updates_of bcs s" for bcs by (simp add: updates_of_def n l Let_def)
  show "updates_of (claims_of v u) u = updates_of (claims_of v s) s" by (simp add: 1 2)
  show "claims_once v u = claims_once v s" by (simp add: claims_once_def 1 2)
  show "le_existing (asked org_id pid v aid ds u) = le_existing (asked org_id pid v aid ds s)"
    "le_bc (asked org_id pid v aid ds u) = le_bc (asked org_id pid v aid ds s)"
    "le_product (asked org_id pid v aid ds u) = le_product (asked org_id pid v aid ds s)"
    using c unfolding asked_def env_at_def loop_env_of_def 1 2 n l states_by_objective_keys[OF assms(2)] Let_def
    by simp_all
qed

lemma contributors_of_grows:
  assumes "t_contrib u = t_contrib s @ new" "t_bcontrol u = t_bcontrol s"
  shows "set (contributors_of i s) \<subseteq> set (contributors_of i u)"
  unfolding contributors_of_def assms by (simp add: join_on_append)

lemma reached_bc:
  assumes "h \<in> set (reached org_id pid v aid ds s)"
  shows "snd h \<in> set (t_bcontrol s)"
proof -
  obtain upd where "reaches (asked org_id pid v aid ds s) upd = Some h"
    using assms unfolding reached_def hits_at_def hits_def set_map_filter by blast
  then obtain obj where "le_bc (asked org_id pid v aid ds s) obj = Some (snd h)"
    by (auto simp: reaches_def split: option.splits if_splits)
  then obtain name where "bc_by_control_str (claims_of v s) (ctrl_uuid_to_str (map bc_control_id (claims_of v s)) s) name = Some (snd h)"
    by (auto simp: asked_def env_at_def loop_env_of_def Let_def)
  then have "snd h \<in> set (claims_of v s)"
    unfolding bc_by_control_str_def using dict_of_SomeD by (fastforce simp: in_join_on)
  then show ?thesis by (simp add: claims_of_def)
qed

lemma contributor_rows:
  "(\<lambda>ct. (ct_state_id ct, ct_product_id ct)) ` set (insert_rows (mk_contributor p) n rows) = (\<lambda>r. (fst r, p)) ` set rows"
  "ct_bcontrol_id ` set (insert_rows (mk_contributor p) n rows) = snd ` set rows"
  by (induction rows arbitrary: n) (simp_all add: mk_contributor_def)

lemma contribs_fk_activated:
  assumes "contribs_fk s" "activated org_id pid v aid ds s res s'" "catalog_eq s s'"
  shows "contribs_fk s'"
proof -
  obtain n where c: "t_contrib s' = t_contrib s @
      insert_rows (mk_contributor pid) n (map (\<lambda>h. (fst h, bc_id (snd h))) (reached org_id pid v aid ds s))"
    using assms(2) unfolding activated_def Let_def by blast
  have "ct_bcontrol_id ` set (insert_rows (mk_contributor pid) n (map (\<lambda>h. (fst h, bc_id (snd h))) (reached org_id pid v aid ds s)))
      \<subseteq> bc_id ` set (t_bcontrol s)"
    unfolding contributor_rows using reached_bc by fastforce
  then show ?thesis using assms(1,3) unfolding contribs_fk_def c catalog_eq_def by auto
qed

lemma reached_again:
  assumes ok: "schema_ok s" and fk: "contribs_fk s'" and act: "activated org_id pid v aid ds s res s'"
    and cat: "catalog_eq s s'" and keys: "map state_key (t_cstate s') = map state_key (t_cstate s)"
    and pid: "p_id (the (get_product pid s)) = pid"
  shows "reached org_id pid v aid ds' s' = []"
proof (rule ccontr)
  let ?env = "asked org_id pid v aid ds s" and ?env' = "asked org_id pid v aid ds s'"
  assume "reached org_id pid v aid ds' s' \<noteq> []"
  then obtain h where "h \<in> set (reached org_id pid v aid ds s')"
    unfolding reached_decisions[of org_id pid v aid ds' s' ds]
    by (cases "reached org_id pid v aid ds s'") auto
  then obtain upd where upd: "upd \<in> set (updates_of (claims_of v s') s')" "reaches ?env' upd = Some h"
    unfolding reached_def hits_at_def hits_def set_map_filter by blast
  note k = loop_env_keys[OF cat keys]
  obtain n where c: "t_contrib s' = t_contrib s @
      insert_rows (mk_contributor pid) n (map (\<lambda>h. (fst h, bc_id (snd h))) (reached org_id pid v aid ds s))"
    using act unfolding activated_def Let_def by blast
  have bcs: "t_bcontrol s' = t_bcontrol s" using cat by (simp add: catalog_eq_def)
  have p: "p_id (le_product ?env) = pid" by (simp add: asked_def pid)
  have h: "le_existing ?env (su_objective_id upd) = Some (fst h)" "le_bc ?env (su_objective_id upd) = Some (snd h)"
    "pid \<notin> fst ` set (contributors_of (fst h) s')"
    using upd(2) unfolding reaches_def k p asked_fields(1) by (auto split: option.splits if_splits)
  moreover have "pid \<notin> fst ` set (contributors_of (fst h) s)"
    using h(3) contributors_of_grows[OF c bcs, of "fst h"] by blast
  ultimately have "reaches ?env upd = Some h"
    unfolding reaches_def p asked_fields(1) by (cases h) simp
  then have "h \<in> set (reached org_id pid v aid ds s)"
    using upd(1) unfolding reached_def hits_at_def hits_def set_map_filter k by blast
  then have "(fst h, pid) \<in> (\<lambda>ct. (ct_state_id ct, ct_product_id ct)) `
      set (insert_rows (mk_contributor pid) n (map (\<lambda>h. (fst h, bc_id (snd h))) (reached org_id pid v aid ds s)))"
    unfolding contributor_rows by force
  then obtain ct where "ct \<in> set (insert_rows (mk_contributor pid) n
      (map (\<lambda>h. (fst h, bc_id (snd h))) (reached org_id pid v aid ds s)))"
    "ct_state_id ct = fst h" "ct_product_id ct = pid"
    by (elim imageE) simp
  then have "ct \<in> set (t_contrib s')" "ct_state_id ct = fst h" "ct_product_id ct = pid"
    unfolding c by simp_all
  then have "pid \<in> fst ` set (contributors_of (fst h) s')" using contributors_of_fk[OF fk] by blast
  then show False using h(3) by blast
qed

lemma settle_settled:
  "l \<in> set (t_link s') \<Longrightarrow> t_link s' = map (\<lambda>l. if comes_back pid aid s l then restore l else l) (t_link s) \<Longrightarrow>
     (\<And>j. state_assessment s' j = state_assessment s j) \<Longrightarrow> \<not> comes_back pid aid s' l"
  by (auto simp: comes_back_def)

text \<open>Activation is idempotent: once a product has been activated for an assessment,
  activating it there again succeeds, covers no further state, asks about none, and leaves the
  control states, the contributors and the evidence links as they are.\<close>

theorem activation_again_changes_nothing:
  assumes "schema_ok s" "contribs_fk s" "claims_once v s"
    and "activation_target (the (get_product pid s)) (find_org_product org_id pid s) = Inr v"
    and "get_assessment aid s \<noteq> None"
    and "activate_org_product org_id pid aid nts ds s = Inr (res, s')"
  shows "\<exists>res2 s2. activate_org_product org_id pid aid nts2 None s' = Inr (res2, s2) \<and>
    lr_updated res2 = 0 \<and> lr_judged res2 = [] \<and> (\<forall>i. get_state i s2 = get_state i s') \<and>
    t_contrib s2 = t_contrib s' \<and> t_link s2 = t_link s'"
proof -
  note k = activate_keys[OF assms(1,6)]
  obtain product w where p: "get_product pid s = Some product" "p_id product = pid" and
    w: "activation_target product (find_org_product org_id pid s) = Inr w" and
    act: "activated org_id pid w aid ds s res s'"
    by (rule activate_outcome[OF assms(1,6)])
  have wv: "w = v" using w p assms(4) by simp
  have p': "get_product pid s' = Some product" using p k(2) by (simp add: catalog_eq_def)
  have "get_assessment aid s' \<noteq> None" using assms(5) unfolding tget_None_iff k(4) .
  then obtain a where a: "get_assessment aid s' = Some a" by blast
  obtain op where op: "find_org_product org_id pid s' = Some op" "op_version_id op = Some v"
    using activate_pins[OF assms(1,6,4)] by blast
  then have t: "activation_target product (find_org_product org_id pid s') = Inr v"
    by (simp add: activation_target_def is_first_activation_def)
  note act = act[unfolded wv]
  have fk: "contribs_fk s'" by (rule contribs_fk_activated[OF assms(2) act k(2)])
  have once: "claims_once v s'" using loop_env_keys(5)[OF k(2,1)] assms(3) by simp
  obtain res2 s2 where run2: "activate_org_product org_id pid aid nts2 None s' = Inr (res2, s2)"
    using activate_unasked_returns[OF k(3) p' a t fk once] by blast
  obtain p2 v2 where "get_product pid s' = Some p2" "activation_target p2 (find_org_product org_id pid s') = Inr v2"
    and "activated org_id pid v2 aid None s' res2 s2" by (rule activate_outcome[OF k(3) run2])
  then have act2: "activated org_id pid v aid None s' res2 s2" using p' t by simp
  have none: "reached org_id pid v aid None s' = []"
    by (rule reached_again[OF assms(1) fk act k(2,1)]) (simp add: p)
  have sa: "state_assessment s' j = state_assessment s j" for j
  proof -
    have "map_option state_key (get_state j s') = map_option state_key (get_state j s)"
      by (rule tget_keys[OF k(1)])
    then show ?thesis by (cases "get_state j s"; cases "get_state j s'") (auto simp: state_assessment_def state_key_def)
  qed
  have links: "t_link s' = map (\<lambda>l. if comes_back pid aid s l then restore l else l) (t_link s)"
    using act unfolding activated_def Let_def by blast
  have cb: "\<not> comes_back pid aid s' l" if "l \<in> set (t_link s')" for l
    by (rule settle_settled[OF that links sa])
  then have nr: "\<not> regains pid aid s' i" for i unfolding regains_def by blast
  have "t_link s2 = t_link s'"
    using act2 cb unfolding activated_def Let_def by (simp cong: map_cong)
  moreover have "get_state i s2 = get_state i s'" for i
    using act2 nr unfolding activated_def Let_def none
    by (simp add: covered_by_def settle_def[abs_def] option.map_ident)
  ultimately show ?thesis
    using run2 act2 unfolding activated_def Let_def none by (auto simp: judged_hits_def)
qed

theorem activation_again_changes_nothing_witness:
  "\<exists>res s' res2 s2. activate_org_product 1 30 70 None None tenant = Inr (res, s') \<and>
     activate_org_product 1 30 70 None None s' = Inr (res2, s2) \<and> lr_updated res2 = 0"
proof -
  obtain res s' where run: "activate_org_product 1 30 70 None None tenant = Inr (res, s')"
    using tenant_activates by blast
  from activation_again_changes_nothing[OF example_schema(1) tenant_activation_ready(3-5,2) run, of None]
  show ?thesis using run by blast
qed

end
