(* ===== verification/Preview_Properties.thy ===== *)
theory Preview_Properties
  imports Activation_Properties Score_Facts
begin

section \<open>Properties of the activation preview\<close>

text \<open>The preview runs the activation and throws its writes away; what it promises is what
  the activation with those decisions then does.\<close>

lemma judged_outcome_state:
  assumes "schema_ok s" "activated org_id pid v aid None s res s'" "j \<in> set (lr_judged res)"
  obtains i bc cs where "(i, bc) \<in> set (reached org_id pid v aid None s)" "get_state i s = Some cs"
    "jo_state_id j = i" "jo_from j = cs_status cs" "contributors_of i s = []" "cs_status cs \<in> set JUDGED_STATUSES"
proof -
  let ?env = "asked org_id pid v aid None s" and ?hs = "reached org_id pid v aid None s"
  have "j \<in> (\<lambda>h. outcome_of ?env (snd h) (state_at (fst h) s)) ` set (judged_hits ?env ?hs s)"
    using assms(2,3) unfolding activated_def Let_def by (metis list.set_map)
  then obtain h where h: "h \<in> set ?hs" "in_question ?env (state_at (fst h) s)"
    "j = outcome_of ?env (snd h) (state_at (fst h) s)" by (auto simp: judged_hits_def)
  obtain cs where cs: "get_state (fst h) s = Some cs" "cs_id cs = fst h" by (rule reached_state[OF assms(1) h(1)])
  then have st: "state_at (fst h) s = cs" by (simp add: state_at_def)
  show ?thesis
    by (rule that[of "fst h" "snd h" cs])
      (use h cs st in \<open>simp_all add: outcome_of_def in_question_asked\<close>)
qed

lemma distinct_judged:
  assumes "schema_ok s" "activated org_id pid v aid None s res s'"
  shows "distinct (map jo_state_id (lr_judged res))"
proof -
  let ?env = "asked org_id pid v aid None s" and ?hs = "reached org_id pid v aid None s"
  have j: "lr_judged res = map (\<lambda>h. outcome_of ?env (snd h) (state_at (fst h) s)) (judged_hits ?env ?hs s)"
    and d: "distinct (map fst ?hs)" using assms(2) unfolding activated_def Let_def by blast+
  have "map jo_state_id (lr_judged res) = map fst (judged_hits ?env ?hs s)"
    unfolding j using state_at_reached[OF assms(1)] by (auto simp: judged_hits_def outcome_of_def)
  then show ?thesis using d unfolding judged_hits_def by (simp add: distinct_map_filter)
qed

lemma settle_judged:
  assumes "st \<in> set JUDGED_STATUSES" "cs_status cs = contributor_added_status st True ch"
  shows "settle b cs = cs"
  using assms by (auto simp: settle_def contributor_added_status_def split: if_splits)

text \<open>With no judged objective in question, no satisfied status is lost.\<close>

lemma unasked_unmet:
  assumes ok: "schema_ok s" and act: "activated org_id pid v aid None s res s'" and none: "lr_judged res = []"
    and cat: "catalog_eq s s'" and ok': "schema_ok s'" and keys: "map state_key (t_cstate s') = map state_key (t_cstate s)"
  shows "unmet aid' s' \<subseteq> unmet aid' s"
proof
  fix k assume "k \<in> unmet aid' s'"
  then obtain cs' ob ct where r: "(cs', ob, ct) \<in> set (scoring_rows aid' s')" "c_control_id ct = k"
    "\<not> satisfied (cs_status cs')" unfolding unmet_def control_unmet_def by auto
  have "cs' \<in> set (t_cstate s')" using r(1) by (simp add: in_scoring_rows)
  moreover have "pk_ok cs_id (next_id s') (t_cstate s')" using ok' by (simp add: schema_ok_def states_ok_def)
  ultimately have cs': "get_state (cs_id cs') s' = Some cs'" by (metis pk_ok_tget)
  let ?i = "cs_id cs'"
  have "map_option state_key (get_state ?i s') = map_option state_key (get_state ?i s)" by (rule tget_keys[OF keys])
  then obtain cs where cs: "get_state ?i s = Some cs" "state_key cs = state_key cs'"
    using cs' by (cases "get_state ?i s") auto
  have id: "cs_id cs = ?i" by (rule get_state_id[OF cs(1)])
  let ?env = "asked org_id pid v aid None s" and ?hs = "reached org_id pid v aid None s"
  have g: "get_state ?i s' = map_option (settle (regains pid aid s ?i)) (covered_by ?env ?hs s ?i)"
    and j: "lr_judged res = map (\<lambda>h. outcome_of ?env (snd h) (state_at (fst h) s)) (judged_hits ?env ?hs s)"
    using act unfolding activated_def Let_def by blast+
  have quiet: "\<not> in_question ?env cs" if "map_of ?hs ?i = Some bc" for bc
  proof
    assume "in_question ?env cs"
    then have "(?i, bc) \<in> set (judged_hits ?env ?hs s)"
      using map_of_SomeD[OF that] cs(1) by (simp add: judged_hits_def state_at_def)
    then show False using none j by auto
  qed
  have "\<not> satisfied (cs_status cs)"
  proof
    assume sat: "satisfied (cs_status cs)"
    have "cs_status cs' = cs_status cs"
    proof (cases "map_of ?hs ?i")
      case None
      then show ?thesis using g cs(1) cs' sat by (auto simp: covered_by_def settle_def satisfied_def)
    next
      case (Some bc)
      then have "contributors_of ?i s \<noteq> []"
        using quiet[OF Some] satisfied_judged[OF sat] by (simp add: in_question_asked id)
      then have keep: "cs_status (covered ?env bc cs) = cs_status cs"
        by (simp add: covered_def first_on_def id contributor_added_status_def)
      have "cs' = settle (regains pid aid s ?i) (covered ?env bc cs)"
        using g cs(1) cs' Some by (simp add: covered_by_def)
      then have "cs_status cs' = cs_status (settle (regains pid aid s ?i) (covered ?env bc cs))" by (rule arg_cong)
      then show ?thesis using keep sat by (auto simp: settle_def satisfied_def)
    qed
    then show False using r(3) sat by simp
  qed
  moreover have "(cs, ob, ct) \<in> set (scoring_rows aid' s)"
    using r(1) cs tget_SomeD[OF cs(1)] cat by (simp add: in_scoring_rows state_key_def catalog_eq_def)
  ultimately show "k \<in> unmet aid' s" using r(2) unfolding unmet_def control_unmet_def by force
qed

lemma set_deducting: "schema_ok s \<Longrightarrow> set (deducting aid s) = unmet aid s"
  using deducting_iff unfolding schema_ok_def unmet_def by blast

definition preview_decisions :: "(uuid \<Rightarrow> string option) \<Rightarrow> loop_result \<Rightarrow> decisions option" where
  "preview_decisions given found =
     (if lr_judged found = [] then None else Some (map (resolve_choice given) (lr_judged found)))"

lemma resolved_choice:
  assumes "distinct (map jo_state_id js)" "j \<in> set js"
  shows "decision_for (Some (map (resolve_choice given) js)) (jo_state_id j) = Some (snd (snd (resolve_choice given j)))"
proof -
  have k: "map fst (map (resolve_choice given) js) = map jo_state_id js" by (simp add: resolve_choice_def)
  have "map_of (map (resolve_choice given) js) (jo_state_id j) = Some (snd (resolve_choice given j))"
  proof (rule map_of_is_SomeI)
    show "distinct (map fst (map (resolve_choice given) js))" unfolding k by (rule assms(1))
    show "(jo_state_id j, snd (resolve_choice given j)) \<in> set (map (resolve_choice given) js)"
      using assms(2) by (force simp: resolve_choice_def)
  qed
  then show ?thesis by (simp add: decision_for_def decided_maps)
qed

text \<open>C8. What the preview promises is what happens: activating with the decisions it resolved
  (the given ones, the defaults elsewhere, or none when nothing is in question) succeeds, the score
  is the promised one, every listed objective ends at the promised status, and the
  practices listed as starting to deduct are exactly those that deduct after and not before.\<close>

theorem preview_tells_the_truth:
  assumes "schema_ok s" "activation_preview org_id pid aid given s = Inr pv"
    and "activate_org_product org_id pid aid None None s = Inr (found, f1)"
  shows "\<exists>res s'. activate_org_product org_id pid aid None (preview_decisions given found) s = Inr (res, s') \<and>
    pv_sprs_after pv = assessment_score aid s' \<and>
    (\<forall>po \<in> set (pv_objectives pv). \<exists>cs'. get_state (po_state_id po) s' = Some cs' \<and> cs_status cs' = po_becomes po) \<and>
    set (pv_practices_starting pv) = unmet aid s' - unmet aid s"
proof -
  obtain p v where p: "get_product pid s = Some p" and v: "activation_target p (find_org_product org_id pid s) = Inr v"
    and act1: "activated org_id pid v aid None s found f1" by (rule activate_outcome[OF assms(1,3)])
  obtain a where a: "get_assessment aid s = Some a"
    using assms(2) by (auto simp: activation_preview_def split: option.splits)
  note k1 = activate_keys[OF assms(1,3)]
  show ?thesis
  proof (cases "lr_judged found = []")
    case True
    then have pv: "pv_sprs_after pv = assessment_score aid f1" "pv_objectives pv = []" "pv_practices_starting pv = []"
      using assms(2,3) a by (auto simp: activation_preview_def Let_def)
    have "unmet aid f1 - unmet aid s = {}"
      using unasked_unmet[OF assms(1) act1 True k1(2,3,1)] by blast
    then show ?thesis using pv assms(3) True by (simp add: preview_decisions_def)
  next
    case False
    let ?ds = "map (resolve_choice given) (lr_judged found)"
    obtain r2 f2 where run2: "activate_org_product org_id pid aid None (Some ?ds) s = Inr (r2, f2)"
      using assms(2,3) a False by (auto simp: activation_preview_def Let_def split: sum.splits)
    have pv: "pv_sprs_after pv = assessment_score aid f2"
      "set (pv_objectives pv) = set (List.map_filter (\<lambda>(d, j). describe_objective s (deducting aid s) d j)
          (zip ?ds (lr_judged found)))"
      "set (pv_practices_starting pv) = set (deducting aid f2) - set (deducting aid s)"
      using assms(2,3) a False run2 by (auto simp: activation_preview_def Let_def)
    note k2 = activate_keys[OF assms(1) run2]
    obtain p2 v2 where "get_product pid s = Some p2" "activation_target p2 (find_org_product org_id pid s) = Inr v2"
      and "activated org_id pid v2 aid (Some ?ds) s r2 f2" by (rule activate_outcome[OF assms(1) run2])
    then have act2: "activated org_id pid v aid (Some ?ds) s r2 f2" using p v by simp
    let ?env = "asked org_id pid v aid (Some ?ds) s" and ?hs = "reached org_id pid v aid (Some ?ds) s"
    have d2: "distinct (map fst ?hs)"
      and g: "\<And>i. get_state i f2 = map_option (settle (regains pid aid s i)) (covered_by ?env ?hs s i)"
      using act2 unfolding activated_def Let_def by blast+
    have "\<exists>cs'. get_state (po_state_id po) f2 = Some cs' \<and> cs_status cs' = po_becomes po"
      if po: "po \<in> set (pv_objectives pv)" for po
    proof -
      obtain d j where dj: "(d, j) \<in> set (zip ?ds (lr_judged found))"
        "describe_objective s (deducting aid s) d j = Some po"
        using po unfolding pv(2) set_map_filter by auto
      have j: "j \<in> set (lr_judged found)" using dj(1) by (rule set_zip_rightD)
      have d: "d = resolve_choice given j" using dj(1) by (auto simp: set_zip)
      have po: "po_state_id po = jo_state_id j"
        "po_becomes po = contributor_added_status (jo_from j) True (Some (snd (snd d)))"
        using dj(2) unfolding d by (auto simp: describe_objective_def resolve_choice_def split: option.splits)
      obtain i bc cs where h: "(i, bc) \<in> set (reached org_id pid v aid None s)" "get_state i s = Some cs"
        "jo_state_id j = i" "jo_from j = cs_status cs" "contributors_of i s = []" "cs_status cs \<in> set JUDGED_STATUSES"
        by (rule judged_outcome_state[OF assms(1) act1 j])
      have id: "cs_id cs = i" by (rule get_state_id[OF h(2)])
      have h2: "(i, bc) \<in> set ?hs" using h(1) by (simp only: reached_decisions[of org_id pid v aid None s "Some ?ds"])
      have ans: "answer ?env cs = Some (snd (snd d))"
        using resolved_choice[OF distinct_judged[OF assms(1) act1] j, of given] h(3,5,6) d
        by (simp add: answer_asked id)
      have cov: "covered_by ?env ?hs s i = Some (covered ?env bc cs)"
        using covered_by_hit[OF d2 h2] h(2) by simp
      have st: "cs_status (covered ?env bc cs) = contributor_added_status (cs_status cs) True (Some (snd (snd d)))"
        unfolding covered_def ans using h(5) by (simp add: first_on_def id)
      have "get_state i f2 = Some (covered ?env bc cs)"
        unfolding g cov using settle_judged[OF h(6) st] by simp
      then show ?thesis using po st h(3,4) by simp
    qed
    then show ?thesis
      using run2 pv(1,3) set_deducting[OF assms(1)] set_deducting[OF k2(3)] False
      unfolding preview_decisions_def by auto
  qed
qed

lemma preview_returns:
  assumes "get_assessment aid s = Some a" "activate_org_product org_id pid aid None None s = Inr (found, f1)"
    "activate_org_product org_id pid aid None (preview_decisions given found) s = Inr (r2, f2)"
  shows "\<exists>pv. activation_preview org_id pid aid given s = Inr pv"
  using assms by (auto simp: activation_preview_def preview_decisions_def Let_def)

lemma judged_tenant_resolved:
  "map (resolve_choice (\<lambda>_. None)) (map (\<lambda>h. outcome_of (asked 1 30 40 70 None judged_tenant) (snd h)
       (state_at (fst h) judged_tenant))
     (judged_hits (asked 1 30 40 70 None judged_tenant) (reached 1 30 40 70 None judged_tenant) judged_tenant)) =
   [(80, ''met'', ''needs_review'')]"
  by code_simp

theorem preview_tells_the_truth_witness:
  "\<exists>pv res s'. activation_preview 1 30 70 (\<lambda>_. None) judged_tenant = Inr pv \<and>
     activate_org_product 1 30 70 None (Some [(80, ''met'', ''needs_review'')]) judged_tenant = Inr (res, s') \<and>
     pv_sprs_after pv = assessment_score 70 s'"
proof -
  obtain p a where p: "get_product 30 judged_tenant = Some p" and a: "get_assessment 70 judged_tenant = Some a"
    using judged_tenant_ready(1,2) by blast
  have t: "activation_target p (find_org_product 1 30 judged_tenant) = Inr 40"
    using judged_tenant_ready(6) p by simp
  obtain found f1 where run1: "activate_org_product 1 30 70 None None judged_tenant = Inr (found, f1)"
    using activate_unasked_returns[OF example_schema(3) p a t judged_tenant_ready(3,4)] by blast
  obtain p2 v2 where "get_product 30 judged_tenant = Some p2"
    "activation_target p2 (find_org_product 1 30 judged_tenant) = Inr v2"
    "activated 1 30 v2 70 None judged_tenant found f1" by (rule activate_outcome[OF example_schema(3) run1])
  then have "activated 1 30 40 70 None judged_tenant found f1" using p t by simp
  then have "map (resolve_choice (\<lambda>_. None)) (lr_judged found) = [(80, ''met'', ''needs_review'')]"
    using judged_tenant_resolved unfolding activated_def Let_def by metis
  then have ds: "preview_decisions (\<lambda>_. None) found = Some [(80, ''met'', ''needs_review'')]"
    by (auto simp: preview_decisions_def)
  have "exact (judged_ids 1 30 40 70 judged_tenant) judged_tenant [(80, ''met'', ''needs_review'')]"
    unfolding judged_tenant_ids exact_def using judged_tenant_decisions(3)
    by (simp add: activation_choices_def CHOICE_NEEDS_REVIEW_def)
  then obtain r2 f2 where "activate_org_product 1 30 70 None (preview_decisions (\<lambda>_. None) found) judged_tenant = Inr (r2, f2)"
    unfolding ds using accepted_when_exact[OF example_schema(3) p a t judged_tenant_ready(3,4)] by blast
  then obtain pv where pv: "activation_preview 1 30 70 (\<lambda>_. None) judged_tenant = Inr pv"
    using preview_returns[OF a run1] by blast
  from preview_tells_the_truth[OF example_schema(3) pv run1] pv show ?thesis unfolding ds by blast
qed

end
