(* ===== verification/Evidence_Properties.thy ===== *)
theory Evidence_Properties
  imports Activation_Properties
begin

section \<open>Properties of deactivation and of the evidence links\<close>

text \<open>
  What a deactivation does, that reactivating undoes it for the evidence, and that every
  operation of the engine moves a link along the life of \<open>Evidence_Links\<close>, by
  deactivations and reactivations only.
\<close>

subsection \<open>Deactivation\<close>

lemma in_sourced_ids:
  assumes "schema_ok s"
  shows "i \<in> set (sourced_ids pid aid s) \<longleftrightarrow>
    (\<exists>ct \<in> set (t_contrib s). ct_product_id ct = pid \<and> ct_state_id ct = i \<and> state_assessment s i = Some aid)"
proof -
  have "i \<in> set (sourced_ids pid aid s) \<longleftrightarrow>
      (\<exists>ct cs. (ct, cs) \<in> set (sourced_contributors pid aid s) \<and> cs_id cs = i)"
    unfolding sourced_ids_def by (force simp: image_iff)
  also have "\<dots> \<longleftrightarrow> (\<exists>ct \<in> set (t_contrib s). ct_product_id ct = pid \<and> ct_state_id ct = i \<and> state_assessment s i = Some aid)"
    unfolding in_sourced_contributors state_assessment_def using get_state_id by fastforce
  finally show ?thesis .
qed

text \<open>C9. Deactivating a product puts exactly the control states it contributes to, in that
  assessment, at needs review, with the responsibility of the contributors that remain (its own
  when none does), removes exactly its contributor rows there, and changes no other state.\<close>

theorem deactivation_flags_what_it_covered:
  assumes "schema_ok s" "deactivate_org_product org_id pid aid replaced_by who s = Inr (res, s')"
    and "get_state i s = Some cs"
  shows "t_contrib s' = filter (\<lambda>ct. \<not> (ct_product_id ct = pid \<and> state_assessment s (ct_state_id ct) = Some aid)) (t_contrib s) \<and>
    get_state i s' =
      (if cs_assessment_id cs = aid \<and> (\<exists>ct \<in> set (t_contrib s). ct_product_id ct = pid \<and> ct_state_id ct = i)
       then Some (cs\<lparr>cs_status := NeedsReview,
         cs_responsibility := flagged_responsibility cs (remaining_contributors i s')\<rparr>)
       else Some cs)"
proof -
  obtain u where t: "touches aid s u" and s': "s' = snd (recompute_sprs aid u)" and d: "deactivated org_id pid aid s res s'"
    by (rule deactivate_facts[OF assms(1,2)])
  have id: "cs_id cs = i" by (rule get_state_id[OF assms(3)])
  have c: "t_contrib s' = filter (\<lambda>ct. \<not> (ct_product_id ct = pid \<and> state_assessment s (ct_state_id ct) = Some aid)) (t_contrib s)"
    using d by (simp add: deactivated_def)
  have cat: "catalog_eq s s'"
    unfolding s' by (rule catalog_eq_trans[OF _ recompute_frame(19)]) (use t in \<open>simp add: touches_def\<close>)
  have rem: "remaining_after pid aid s i = remaining_contributors i s'"
    by (rule remaining_after_eq[OF assms(1) c cat])
  show ?thesis
    using d c assms(3) rem unfolding deactivated_def in_sourced_ids[OF assms(1)]
    by (auto simp: state_assessment_def flagged_def id)
qed

theorem deactivation_flags_what_it_covered_witness:
  "\<exists>res s' cs'. deactivate_org_product 1 30 70 None None active_tenant = Inr (res, s') \<and>
     get_state 80 s' = Some cs' \<and> cs_status cs' = NeedsReview \<and> t_contrib s' = []"
proof -
  obtain res s' where run: "deactivate_org_product 1 30 70 None None active_tenant = Inr (res, s')"
    using active_tenant_deactivates by blast
  have k: "map_option cs_assessment_id (get_state 80 active_tenant) = Some 70"
    "\<exists>ct \<in> set (t_contrib active_tenant). ct_product_id ct = 30 \<and> ct_state_id ct = 80"
    "filter (\<lambda>ct. \<not> (ct_product_id ct = 30 \<and> state_assessment active_tenant (ct_state_id ct) = Some 70))
       (t_contrib active_tenant) = []"
    by code_simp+
  obtain cs where cs: "get_state 80 active_tenant = Some cs" "cs_assessment_id cs = 70" using k(1) by auto
  from deactivation_flags_what_it_covered[OF example_schema(2) run cs(1)] k(2,3) cs(2) run
  show ?thesis by auto
qed

text \<open>C10. Deactivation archives, in the name of the product, exactly the live links of the states
  it flags whose artifact is not a version of a list or of a document, and changes no other link;
  it archives exactly the product's live tasks of the assessment, an open one as not applicable; and it
  reports how many of each.\<close>

theorem deactivation_archives_evidence:
  assumes "schema_ok s" "deactivate_org_product org_id pid aid replaced_by who s = Inr (res, s')"
  shows "list_all2 (\<lambda>l l'. l' = (if archivable (sourced_ids pid aid s) s l
        then archive_row DEACTIVATION (clock s) (Some pid) None l else l)) (t_link s) (t_link s') \<and>
    list_all2 (\<lambda>t t'. t' = (if product_task org_id aid pid s t
        then t\<lparr>tk_is_archived := True, tk_archived_at := Some (clock s),
               tk_status := if tk_status t = TaskOpen then TaskNA else tk_status t\<rparr> else t)) (t_task s) (t_task s') \<and>
    dr_links_archived res = length (filter (archivable (sourced_ids pid aid s) s) (t_link s)) \<and>
    dr_tasks_archived res = length (filter (product_task org_id aid pid s) (t_task s)) \<and>
    dr_controls_flagged res = card (set (sourced_ids pid aid s))"
proof -
  have d: "deactivated org_id pid aid s res s'" using deactivate_facts[OF assms] by metis
  have "distinct (sourced_ids pid aid s)"
    using sourced_states_ok(1)[OF assms(1)] by (simp add: sourced_ids_def)
  then show ?thesis
    using d unfolding deactivated_def
    by (simp add: list_all2_map2 list_all2_same archive_task_def distinct_card)
qed

theorem deactivation_archives_evidence_witness:
  "\<exists>res s'. deactivate_org_product 1 30 70 None None active_tenant = Inr (res, s') \<and>
     dr_links_archived res = 1 \<and> dr_tasks_archived res = 1 \<and> length (t_link s') = 2"
proof -
  obtain res s' where run: "deactivate_org_product 1 30 70 None None active_tenant = Inr (res, s')"
    using active_tenant_deactivates by blast
  have k: "length (filter (archivable (sourced_ids 30 70 active_tenant) active_tenant) (t_link active_tenant)) = 1"
    "length (filter (product_task 1 70 30 active_tenant) (t_task active_tenant)) = 1"
    "length (t_link active_tenant) = 2" by code_simp+
  note d = deactivation_archives_evidence[OF example_schema(2) run]
  have "length (t_link s') = length (t_link active_tenant)"
    by (rule list_all2_lengthD[symmetric, OF conjunct1[OF d]])
  then show ?thesis using run d k by (intro exI[of _ res] exI[of _ s']) simp
qed

subsection \<open>Reactivating\<close>

lemma state_assessment_keys:
  "map state_key (t_cstate u) = map state_key (t_cstate s) \<Longrightarrow> state_assessment u i = state_assessment s i"
  using tget_keys[of "t_cstate u" "t_cstate s" i]
  by (cases "get_state i s"; cases "get_state i u") (auto simp: state_assessment_def state_key_def)

lemma deactivate_keys:
  assumes "schema_ok s" "deactivate_org_product org_id pid aid replaced_by who s = Inr (res, s')"
  shows "map state_key (t_cstate s') = map state_key (t_cstate s)" "catalog_eq s s'" "schema_ok s'"
proof -
  obtain u where t: "touches aid s u" and s': "s' = snd (recompute_sprs aid u)"
    using deactivate_facts[OF assms] by metis
  have same: "same_but aid (t_cstate s) (t_cstate u)" and c: "catalog_eq s u" using t by (simp_all add: touches_def)
  show "map state_key (t_cstate s') = map state_key (t_cstate s)" unfolding s' by (simp add: same_but_keys[OF same])
  show "catalog_eq s s'" unfolding s' by (rule catalog_eq_trans[OF c recompute_frame(19)])
  show "schema_ok s'" unfolding s' by (rule schema_ok_recompute[OF touches_schema_ok[OF t assms(1)]])
qed

lemma archivable_assessment:
  assumes "schema_ok s" "archivable (sourced_ids pid aid s) s l"
  shows "state_assessment s (ln_state_id l) = Some aid" "\<not> ln_is_archived l"
  using assms(2) in_sourced_ids[OF assms(1)] unfolding archivable_def by blast+

text \<open>C11. Activating again what was deactivated brings the evidence back: every link that was
  live before the two is live after them, every link somebody took off, or another product's
  deactivation archived, is untouched, and none is lost or added.\<close>

theorem reactivation_restores_evidence:
  assumes "schema_ok s" "deactivate_org_product org_id pid aid replaced_by who s = Inr (res, s1)"
    and "activate_org_product org_id pid aid nts ds s1 = Inr (res2, s2)"
  shows "list_all2 (\<lambda>l l'. ln_id l' = ln_id l \<and>
      (\<not> ln_is_archived l \<longrightarrow> \<not> ln_is_archived l') \<and>
      (ln_is_archived l \<and> ln_archived_by_product l \<noteq> Some pid \<longrightarrow> l' = l)) (t_link s) (t_link s2)"
proof -
  note k = deactivate_keys[OF assms(1,2)]
  have d: "deactivated org_id pid aid s res s1" using deactivate_facts[OF assms(1,2)] by metis
  obtain v where a: "activated org_id pid v aid ds s1 res2 s2" using activate_outcome[OF k(3) assms(3)] by metis
  have sa: "state_assessment s1 i = state_assessment s i" for i by (rule state_assessment_keys[OF k(1)])
  have "t_link s2 = map (\<lambda>l. if comes_back pid aid s1 l then restore l else l) (t_link s1)"
    using a unfolding activated_def Let_def by blast
  also have "\<dots> = map (\<lambda>l. (\<lambda>l. if comes_back pid aid s1 l then restore l else l)
      (if archivable (sourced_ids pid aid s) s l then archive_row DEACTIVATION (clock s) (Some pid) None l else l)) (t_link s)"
    using d by (simp add: deactivated_def)
  finally show ?thesis
    using archivable_assessment[OF assms(1)]
    by (auto simp: list_all2_map2 list_all2_same comes_back_def sa)
qed

lemma deactivate_pins:
  assumes "schema_ok s" "deactivate_org_product org_id pid aid replaced_by who s = Inr (res, s')"
    and "find_org_product org_id pid s = Some op"
  shows "\<exists>op'. find_org_product org_id pid s' = Some op' \<and> op_version_id op' = op_version_id op"
proof -
  from assms(2) obtain product op' rp s1 sourced s2 s3 s4 where
    op': "find_org_product org_id pid s = Some op'" and
    s1: "s1 = decommission_db org_id product op' rp who replaced_by aid s" and
    s2: "flag_states org_id product aid s1 = (sourced, s2)" and
    s3: "s3 = foldl (archive_one_link org_id pid (deactivation_ctx product aid)) s2
            (archivable_links (map cs_id sourced) s2)" and
    s4: "s4 = foldl (archive_one_task org_id (deactivation_ctx product aid)) s3 (product_tasks org_id aid pid s3)" and
    s': "s' = snd (recompute_sprs aid s4)"
    by (rule deactivate_InrD)
  have ok1: "schema_ok s1" unfolding s1 by (rule touches_schema_ok[OF touches_decommission assms(1)])
  have "t_orgproduct s' = t_orgproduct s1"
    unfolding s' s4 s3 by (simp add: foldl_same flag_states_ok(9)[OF ok1 s2])
  also have "\<dots> = tupd op_id (op_id op) (decommission_row (clock s) who replaced_by) (t_orgproduct s)"
    using op' assms(3) unfolding s1 by (simp add: decommission_db_def decommission_def update_org_product_def)
  finally have t: "t_orgproduct s' = tupd op_id (op_id op) (decommission_row (clock s) who replaced_by) (t_orgproduct s)" .
  have "find_org_product org_id pid s' = Some (decommission_row (clock s) who replaced_by op)"
    unfolding find_org_product_def t
    by (rule find_tupd) (use assms(3) in \<open>simp_all add: find_org_product_def decommission_row_def\<close>)
  then show ?thesis by (simp add: decommission_row_def)
qed

lemma reactivation_returns:
  assumes "schema_ok s" "deactivate_org_product org_id pid aid replaced_by who s = Inr (res, s1)"
    and "find_org_product org_id pid s = Some op" "op_version_id op = Some v"
    and "contribs_fk s" "claims_once v s" "get_assessment aid s \<noteq> None" "get_product pid s = Some p"
  shows "activation_target p (find_org_product org_id pid s1) = Inr v"
    and "get_product pid s1 = Some p"
    and "\<exists>res2 s2. activate_org_product org_id pid aid nts None s1 = Inr (res2, s2)"
proof -
  note k = deactivate_keys[OF assms(1,2)]
  obtain u where t: "touches aid s u" and s1: "s1 = snd (recompute_sprs aid u)" and
    d: "deactivated org_id pid aid s res s1" by (rule deactivate_facts[OF assms(1,2)])
  obtain op' where op': "find_org_product org_id pid s1 = Some op'" "op_version_id op' = Some v"
    using deactivate_pins[OF assms(1-3)] assms(4) by auto
  then show tg: "activation_target p (find_org_product org_id pid s1) = Inr v"
    by (simp add: activation_target_def is_first_activation_def)
  show p: "get_product pid s1 = Some p" using assms(8) k(2) by (simp add: catalog_eq_def)
  have fk: "contribs_fk s1" using d k(2) assms(5) by (auto simp: deactivated_def contribs_fk_def catalog_eq_def)
  have once: "claims_once v s1" using loop_env_keys(5)[OF k(2,1)] assms(6) by simp
  have "t_assessment u = t_assessment s" using t by (simp add: touches_def)
  then obtain a where a: "get_assessment aid s1 = Some a"
    using assms(7) unfolding s1 by (auto simp: get_assessment_recompute)
  show "\<exists>res2 s2. activate_org_product org_id pid aid nts None s1 = Inr (res2, s2)"
    by (rule activate_unasked_returns[OF k(3) p a tg fk once])
qed

lemma active_tenant_ready:
  "contribs_fk active_tenant" "claims_once 40 active_tenant" "get_assessment 70 active_tenant \<noteq> None"
  "get_product 30 active_tenant \<noteq> None"
  "map_option op_version_id (find_org_product 1 30 active_tenant) = Some (Some 40)"
  by code_simp+

lemma active_tenant_round_trip:
  "\<exists>res s1 res2 s2. deactivate_org_product 1 30 70 None None active_tenant = Inr (res, s1) \<and>
     activation_target (the (get_product 30 s1)) (find_org_product 1 30 s1) = Inr 40 \<and>
     activate_org_product 1 30 70 None None s1 = Inr (res2, s2)"
proof -
  obtain res s1 where run: "deactivate_org_product 1 30 70 None None active_tenant = Inr (res, s1)"
    using active_tenant_deactivates by blast
  obtain op p where op: "find_org_product 1 30 active_tenant = Some op" "op_version_id op = Some 40"
    and p: "get_product 30 active_tenant = Some p" using active_tenant_ready(4,5) by auto
  note r = reactivation_returns[OF example_schema(2) run op active_tenant_ready(1-3) p]
  show ?thesis using run r(1,2) r(3)[of None] by auto
qed

theorem reactivation_restores_evidence_witness:
  "\<exists>res s1 res2 s2. deactivate_org_product 1 30 70 None None active_tenant = Inr (res, s1) \<and>
     activate_org_product 1 30 70 None None s1 = Inr (res2, s2) \<and> length (t_link s2) = 2"
proof -
  obtain res s1 res2 s2 where run: "deactivate_org_product 1 30 70 None None active_tenant = Inr (res, s1)"
    "activate_org_product 1 30 70 None None s1 = Inr (res2, s2)" using active_tenant_round_trip by blast
  have "length (t_link active_tenant) = 2" by code_simp
  then show ?thesis
    using list_all2_lengthD[OF reactivation_restores_evidence[OF example_schema(2) run]] run by auto
qed

text \<open>The evidence tasks, in contrast, come back only for the version the product is pinned
  at: a task a deactivation archived for another version of the product stays archived.\<close>

theorem reactivation_restores_tasks_of_pinned_version:
  assumes "schema_ok s" "deactivate_org_product org_id pid aid replaced_by who s = Inr (res, s1)"
    and "activate_org_product org_id pid aid nts ds s1 = Inr (res2, s2)"
    and "activation_target (the (get_product pid s1)) (find_org_product org_id pid s1) = Inr v"
    and "t \<in> set (t_task s)" "product_task org_id aid pid s t"
  shows "\<exists>t' \<in> set (t_task s2). tk_id t' = tk_id t \<and>
    (tk_is_archived t' \<longleftrightarrow> map_option bc_version_id (task_bcontrol s t) \<noteq> Some v)"
proof -
  note k = deactivate_keys[OF assms(1,2)]
  have d: "deactivated org_id pid aid s res s1" using deactivate_facts[OF assms(1,2)] by metis
  obtain p w where w: "get_product pid s1 = Some p" "activation_target p (find_org_product org_id pid s1) = Inr w"
    and a: "activated org_id pid w aid ds s1 res2 s2" using activate_outcome[OF k(3) assms(3)] by metis
  have wv: "w = v" using w assms(4) by simp
  have tb: "task_bcontrol s1 x = task_bcontrol s y" if "tk_spec_id x = tk_spec_id y" for x y
  proof -
    have c: "t_spec s1 = t_spec s" "t_bcontrol s1 = t_bcontrol s" using k(2) by (simp_all add: catalog_eq_def)
    show ?thesis unfolding task_bcontrol_def c that by (rule refl)
  qed
  let ?t1 = "archive_task (clock s) t"
  have t1: "?t1 \<in> set (t_task s1)" using d assms(5,6) by (force simp: deactivated_def)
  let ?t2 = "if task_comes_back org_id aid v s1 ?t1 then restore_task ?t1 else ?t1"
  have "?t2 \<in> set (t_task s2)" using a t1 unfolding activated_def Let_def wv by auto
  moreover have "task_comes_back org_id aid v s1 ?t1 \<longleftrightarrow> map_option bc_version_id (task_bcontrol s t) = Some v"
    using assms(6) tb[of ?t1 t] by (simp add: task_comes_back_def product_task_def archive_task_def)
  ultimately show ?thesis by (intro bexI[of _ ?t2]) (auto simp: restore_task_def archive_task_def)
qed

theorem reactivation_restores_tasks_of_pinned_version_witness:
  "\<exists>res s1 res2 s2. deactivate_org_product 1 30 70 None None active_tenant = Inr (res, s1) \<and>
     activate_org_product 1 30 70 None None s1 = Inr (res2, s2) \<and>
     (\<exists>t' \<in> set (t_task s2). tk_id t' = 93 \<and> \<not> tk_is_archived t')"
proof -
  obtain res s1 res2 s2 where run: "deactivate_org_product 1 30 70 None None active_tenant = Inr (res, s1)"
    "activate_org_product 1 30 70 None None s1 = Inr (res2, s2)"
    "activation_target (the (get_product 30 s1)) (find_org_product 1 30 s1) = Inr 40"
    using active_tenant_round_trip by blast
  have "\<exists>t \<in> set (t_task active_tenant). product_task 1 70 30 active_tenant t \<and> tk_id t = 93 \<and>
      map_option bc_version_id (task_bcontrol active_tenant t) = Some 40" by code_simp
  then obtain t where t: "t \<in> set (t_task active_tenant)" "product_task 1 70 30 active_tenant t" "tk_id t = 93"
    "map_option bc_version_id (task_bcontrol active_tenant t) = Some 40" by blast
  from reactivation_restores_tasks_of_pinned_version[OF example_schema(2) run t(1,2)] t(3,4) run
  show ?thesis by auto
qed

subsection \<open>The life of a link\<close>

definition engine_event :: "datetime \<times> link_event \<Rightarrow> bool" where
  "engine_event e \<longleftrightarrow> (\<exists>p. snd e = Deactivated p \<or> snd e = Reactivated p)"

definition lives :: "state_link \<Rightarrow> state_link \<Rightarrow> bool" where
  "lives l l' \<longleftrightarrow> (\<exists>es. link_run es l l' \<and> list_all engine_event es)"

lemma link_run_append: "link_run es l l' \<Longrightarrow> link_run es' l' l'' \<Longrightarrow> link_run (es @ es') l l''"
  by (induction rule: link_run.induct) (auto intro: run_cons)

lemma lives_refl [simp]: "lives l l"
  unfolding lives_def by (rule exI[of _ "[]"]) (simp add: run_nil)

lemma lives_trans: "lives a b \<Longrightarrow> lives b c \<Longrightarrow> lives a c"
  unfolding lives_def using link_run_append by (metis list_all_append)

lemma lives_deactivated: "\<not> ln_is_archived l \<Longrightarrow> lives l (archive_row DEACTIVATION now (Some p) None l)"
  unfolding lives_def
  by (rule exI[of _ "[(now, Deactivated p)]"]) (auto simp: engine_event_def intro!: run_cons run_nil deactivated)

text \<open>What one request of the engine does to a link: nothing, or what a deactivation does to a
  live one whose artifact is no version of a list or document, or what an activation does to one
  its product archived.\<close>

definition from_library :: "db \<Rightarrow> state_link \<Rightarrow> bool" where
  "from_library s l \<longleftrightarrow>
     (case get_evidence (ln_evidence_id l) s of None \<Rightarrow> True
      | Some ev \<Rightarrow> ev_source_list_version ev \<noteq> None \<or> ev_source_document_version ev \<noteq> None)"

definition engine_effect :: "db \<Rightarrow> state_link \<Rightarrow> state_link \<Rightarrow> bool" where
  "engine_effect s l l' \<longleftrightarrow> l' = l \<or>
     (\<exists>p. \<not> ln_is_archived l \<and> \<not> from_library s l \<and> l' = archive_row DEACTIVATION (clock s) (Some p) None l) \<or>
     (\<exists>p. ln_is_archived l \<and> ln_archived_by_product l = Some p \<and> l' = restore l)"

abbreviation link_effects :: "db \<Rightarrow> db \<Rightarrow> bool" where
  "link_effects s s' \<equiv> list_all2 (engine_effect s) (t_link s) (t_link s')"

lemma link_effects_same: "t_link s' = t_link s \<Longrightarrow> link_effects s s'"
  by (simp add: list_all2_same engine_effect_def)

lemma engine_effect_lives: "engine_effect s l l' \<Longrightarrow> lives l l'"
  unfolding engine_effect_def
proof (elim disjE exE conjE)
  fix p assume "ln_is_archived l" "ln_archived_by_product l = Some p" "l' = restore l"
  then show "lives l l'" unfolding lives_def
    by (intro exI[of _ "[(clock s, Reactivated p)]"]) (auto simp: engine_event_def intro!: run_cons run_nil reactivated)
qed (simp_all add: lives_deactivated)

lemma start_products_links:
  assumes "schema_ok s" "foldres (start_product org_id aid) ops s = Inr s'"
  shows "t_link s' = t_link s"
  using assms
proof (induction ops arbitrary: s)
  case (Cons op ops)
  obtain t where t: "start_product org_id aid op s = Inr t" "foldres (start_product org_id aid) ops t = Inr s'"
    using Cons.prems(2) by (cases "start_product org_id aid op s") simp_all
  have "t_link t = t_link s"
    using t(1) run_loop_outcome(1)[OF Cons.prems(1)]
    by (fastforce simp: start_product_def loop_outcome_def split: option.splits sum.splits)
  moreover have "schema_ok t" using start_product_ok[OF Cons.prems(1) t(1)] touches_schema_ok Cons.prems(1) by blast
  ultimately show ?case using Cons.IH[OF _ t(2)] by simp
qed simp

lemma backfill_links: "t_link (snd (backfill_missing_control_states reason dry s)) = t_link s"
proof -
  have one: "t_link (snd (backfill_one reason p a)) = t_link (snd p)" for p a
    by (simp add: backfill_one_def Let_def case_prod_unfold add_states_def)
  have "t_link (snd (foldl (backfill_one reason) p as)) = t_link (snd p)" for p as
    by (induction as arbitrary: p) (simp_all add: one)
  then show ?thesis by (simp add: backfill_missing_control_states_def Let_def case_prod_unfold)
qed

fun moves_links :: "request \<Rightarrow> bool" where
  "moves_links (Activate _ _ _ _ _) = True"
| "moves_links (Deactivate _ _ _ _ _) = True"
| "moves_links _ = False"

lemma serve_links_same:
  assumes ok: "engine_ok s" and run: "serve r s = Inr s'" and n: "\<not> moves_links r"
  shows "t_link s' = t_link s"
proof -
  have sok: "schema_ok s" using ok by (simp add: engine_ok_def)
  show ?thesis
  proof (cases r)
    case (StartAssessment a b c d)
    then obtain i where r: "start_assessment a b c d s = Inr (i, s')" using run by (auto dest!: map_sum_Inr)
    from start_InrD[OF r] obtain s3 ops where
      s3: "foldres (start_product a i) ops (start_seeded a b c d s) = Inr s3" and
      s': "s' = snd (recompute_sprs i s3)" by metis
    have ok1: "schema_ok (start_seeded a b c d s)"
      using engine_ok_start_seeded(1)[OF ok] by (simp add: engine_ok_but_def)
    show ?thesis unfolding s'
      by (simp add: start_products_links[OF ok1 s3] start_seeded_def seed_control_states_def add_states_def)
  next
    case (MoveVersion a b c d)
    then obtain res where r: "move_org_product_version a b c d s = Inr (res, s')" using run by (auto dest!: map_sum_Inr)
    from move_InrD[OF r] obtain op k where a: "apply_move k op d s = Inr (res, s')" by metis
    show ?thesis using apply_move_facts[OF sok a] unfolding moved_def by metis
  next
    case (Complete a b)
    then show ?thesis using run by (auto elim!: complete_InrD simp: update_assessment_def)
  next
    case (Reopen a b)
    then show ?thesis using run by (auto elim!: reopen_InrD simp: update_assessment_def)
  next
    case (CarryRaci a b c)
    then show ?thesis using run copy_forward_db by (fastforce dest!: map_sum_Inr)
  next
    case (Backfill reason dry)
    then show ?thesis using run backfill_links[of reason dry s] by simp
  qed (use n in simp_all)
qed

lemma serve_link_effects:
  assumes ok: "engine_ok s" and run: "serve r s = Inr s'"
  shows "link_effects s s'"
proof (cases "moves_links r")
  case True
  have sok: "schema_ok s" using ok by (simp add: engine_ok_def)
  show ?thesis using True
  proof (cases r)
    case (Activate a b c d e)
    then obtain res where r: "activate_org_product a b c d e s = Inr (res, s')" using run by (auto dest!: map_sum_Inr)
    obtain v where "activated a b v c e s res s'" using activate_outcome[OF sok r] by metis
    then have "t_link s' = map (\<lambda>l. if comes_back b c s l then restore l else l) (t_link s)"
      unfolding activated_def Let_def by blast
    then show ?thesis
      by (simp add: list_all2_map2 list_all2_same) (simp add: engine_effect_def comes_back_def)
  next
    case (Deactivate a b c d e)
    then obtain res where r: "deactivate_org_product a b c d e s = Inr (res, s')" using run by (auto dest!: map_sum_Inr)
    have "deactivated a b c s res s'" using deactivate_facts[OF sok r] by metis
    then have "t_link s' = map (\<lambda>l. if archivable (sourced_ids b c s) s l
        then archive_row DEACTIVATION (clock s) (Some b) None l else l) (t_link s)"
      unfolding deactivated_def by blast
    then show ?thesis
      by (simp add: list_all2_map2 list_all2_same)
        (auto simp: engine_effect_def archivable_def from_library_def split: option.splits)
  qed simp_all
qed (rule link_effects_same[OF serve_links_same[OF ok run]])

abbreviation links_live :: "db \<Rightarrow> db \<Rightarrow> bool" where
  "links_live s s' \<equiv> list_all2 lives (t_link s) (t_link s')"

lemma links_live_same: "t_link s' = t_link s \<Longrightarrow> links_live s s'"
  by (simp add: list_all2_same)

lemma serve_links: "engine_ok s \<Longrightarrow> serve r s = Inr s' \<Longrightarrow> links_live s s'"
  by (rule list_all2_mono[OF serve_link_effects engine_effect_lives])

text \<open>The engine's operations implement the life of a link: over any sequence of requests,
  every link of the database goes through a run of the step relation whose events are
  deactivations and reactivations.\<close>

theorem engine_follows_the_life_of_a_link:
  assumes "engine_ok s"
  shows "list_all2 (\<lambda>l l'. \<exists>es. link_run es l l' \<and> list_all engine_event es)
    (t_link s) (t_link (foldl serve_or_rollback s rs))"
proof -
  have "engine_ok (foldl serve_or_rollback s rs) \<and> links_live s (foldl serve_or_rollback s rs)"
  proof (rule foldl_inv[where P = "\<lambda>u. engine_ok u \<and> links_live s u"])
    show "engine_ok s \<and> links_live s s" using assms by (simp add: links_live_same)
    fix r u assume u: "engine_ok u \<and> links_live s u"
    show "engine_ok (serve_or_rollback u r) \<and> links_live s (serve_or_rollback u r)"
    proof (cases "serve r u")
      case (Inl e)
      then show ?thesis using u by (simp add: serve_or_rollback_def)
    next
      case (Inr u')
      have "links_live u u'" using serve_links Inr u by blast
      then have "links_live s u'"
        using list_all2_trans[of lives lives lives "t_link s" "t_link u" "t_link u'"] lives_trans u by meson
      then show ?thesis using serve_ok[OF _ Inr] u Inr by (simp add: serve_or_rollback_def)
    qed
  qed
  then show ?thesis unfolding lives_def by blast
qed

theorem engine_follows_the_life_of_a_link_witness:
  "length (t_link (foldl serve_or_rollback active_tenant [Deactivate 1 30 70 None None])) = 2"
proof -
  have "length (t_link active_tenant) = 2" by code_simp
  then show ?thesis
    using list_all2_lengthD[OF engine_follows_the_life_of_a_link[OF active_tenant_ok,
        of "[Deactivate 1 30 70 None None]"]] by simp
qed

text \<open>A link that was archived by a person, or because its record lost its attestation or
  moved to a newer version, has one way back: the next event of any run from it is a new
  attachment. So no deactivation or reactivation ever revives it or archives it again.\<close>

theorem taken_off_stays_off:
  assumes "link_run ((now, e) # es) l l'" "ln_is_archived l" "ln_archived_by_product l = None"
  shows "e = Reattached"
  using assms stays_detached_step by (auto simp: link_run_Cons)

definition detached_link :: state_link where
  "detached_link = \<lparr>ln_id = 97, ln_evidence_id = 95, ln_state_id = 81, ln_is_archived = True,
     ln_archived_at = Some t0, ln_archived_by_product = None, ln_archive_cause = Some DETACHED,
     ln_detached_by = Some ''n'', ln_detached_at = Some t0\<rparr>"

theorem taken_off_stays_off_witness:
  "\<exists>e. link_run [(t0, e)] detached_link (restore detached_link) \<and> e = Reattached"
proof -
  have "link_run [(t0, Reattached)] detached_link (restore detached_link)"
    by (rule run_cons[OF reattached run_nil])
  from taken_off_stays_off[OF this] show ?thesis
    using \<open>link_run _ _ _\<close> by (auto simp: detached_link_def)
qed

end
