(* ===== verification/Move_Properties.thy ===== *)
theory Move_Properties
  imports Example
begin

section \<open>Properties of a version move\<close>

text \<open>
  A move touches the objectives the two versions say different things about and nothing else, and
  its report is complete.
\<close>

definition control_name :: "uuid \<Rightarrow> db \<Rightarrow> string option" where
  "control_name i s = map_option c_control_id (get_control i s)"

definition versions_differ :: "uuid option \<Rightarrow> uuid option \<Rightarrow> db \<Rightarrow> uuid \<Rightarrow> string \<Rightarrow> bool" where
  "versions_differ v1 v2 s ctrl key \<longleftrightarrow>
     in_claim (map_of (claimed v1 s) ctrl) key \<noteq> in_claim (map_of (claimed v2 s) ctrl) key \<or>
     (\<exists>b1 b2. map_of (claimed v1 s) ctrl = Some b1 \<and> map_of (claimed v2 s) ctrl = Some b2 \<and>
        bc_classification b1 \<noteq> bc_classification b2)"

lemma claim_differs_at:
  "claim_differs (move_env_at c op target s) ctrl key = versions_differ (op_version_id op) (Some target) s ctrl key"
  by (simp add: claim_differs_def versions_differ_def move_env_at_def move_env_of_def)

lemma ctrl_uuid_to_str_Some:
  assumes "schema_ok s" "ctrl_uuid_to_str ids s i = Some name"
  shows "control_name i s = Some name"
proof -
  have "(i, name) \<in> set (map (\<lambda>c. (c_id c, c_control_id c)) (filter (\<lambda>c. c_id c \<in> set ids) (t_control s)))"
    using dict_of_SomeD assms(2) unfolding ctrl_uuid_to_str_def by fastforce
  then obtain c where c: "c \<in> set (t_control s)" "c_id c = i" "c_control_id c = name" by auto
  have "pk_ok c_id (next_id s) (t_control s)" using assms(1) by (simp add: schema_ok_def catalog_ok_def)
  from pk_ok_tget[OF this c(1)] show ?thesis using c(2,3) by (simp add: control_name_def)
qed

lemma objective_lookup_Some:
  assumes "schema_ok s" "objective_lookup ids s (name, key) = Some obj"
  obtains ob where "get_objective obj s = Some ob" "ob_key ob = key" "ob \<in> set (objectives_of ids s)"
    "ctrl_uuid_to_str ids s (ob_control_id ob) = Some name"
proof -
  have "((name, key), obj) \<in> set (map (\<lambda>(ob, name). ((name, ob_key ob), ob_id ob))
       (join_on (\<lambda>ob. ctrl_uuid_to_str ids s (ob_control_id ob)) (objectives_of ids s)))"
    using dict_of_SomeD assms(2) unfolding objective_lookup_def by fastforce
  then obtain ob where ob: "ob \<in> set (objectives_of ids s)" "ctrl_uuid_to_str ids s (ob_control_id ob) = Some name"
    "ob_key ob = key" "ob_id ob = obj"
    by (auto simp: in_join_on)
  have "ob \<in> set (t_objective s)" using ob(1) by (simp add: objectives_of_def)
  moreover have "pk_ok ob_id (next_id s) (t_objective s)" using assms(1) by (simp add: schema_ok_def catalog_ok_def)
  ultimately have "get_objective obj s = Some ob" using pk_ok_tget ob(4) by metis
  then show ?thesis using that ob by blast
qed

lemma move_env_fields:
  "me_lookup (move_env_at c op target s) = objective_lookup (move_claims op target s) s"
  "me_names (move_env_at c op target s) = ctrl_uuid_to_str (move_claims op target s) s"
  by (simp_all add: move_env_at_def move_env_of_def)

text \<open>What every accepted move leaves, in one place.\<close>

lemma move_outcome:
  assumes ok: "schema_ok s" and run: "move_org_product_version org_id pid aid target s = Inr (res, s')"
  obtains op c acc where "find_org_product org_id pid s = Some op" "mc_assessment c = aid"
    "move_inv (move_env_at c op target s) s acc" "moved aid s acc res s'"
    "set (mr_needs_review res) = set (List.map_filter (describe_reviewed (ctrl_uuid_to_str (move_claims op target s) s)
       (objectives_of (move_claims op target s) s)) (mv_reviewed acc))"
proof -
  obtain op product c where o: "find_org_product org_id pid s = Some op" "mc_assessment c = aid"
    and a: "apply_move c op target s = Inr (res, s')" by (rule move_InrD[OF run])
  let ?acc = "move_states (move_env_at c op target s) (move_claims op target s) s"
  have inv: "move_inv (move_env_at c op target s) s ?acc" by (rule move_inv_states[OF move_env_at_ok[OF ok] ok])
  obtain u where "moved (mc_assessment c) s ?acc res s'"
    "mr_needs_review res = sort_key (\<lambda>r. (nr_control_id r, nr_objective_key r))
       (List.map_filter (describe_reviewed (me_names (move_env_at c op target s))
          (objectives_of (move_claims op target s) s)) (mv_reviewed ?acc))"
    by (rule apply_move_facts[OF ok a])
  then show ?thesis using that[OF o inv] o(2) by (simp add: move_env_fields)
qed

text \<open>C13. A version move changes the status or responsibility of a control state only if the two
  versions say different things about its objective: exactly one of them claims it, or they
  classify its control differently.\<close>

theorem move_touches_only_differences:
  assumes "schema_ok s" "move_org_product_version org_id pid aid target s = Inr (res, s')"
    and "find_org_product org_id pid s = Some op"
    and "get_state i s = Some cs" "get_state i s' = Some cs'" "verdict cs' \<noteq> verdict cs"
  shows "cs_assessment_id cs = aid \<and>
    (\<exists>ctrl ob. get_objective (cs_objective_id cs) s = Some ob \<and> control_name ctrl s \<noteq> None \<and>
      control_name (ob_control_id ob) s = control_name ctrl s \<and>
      versions_differ (op_version_id op) (Some target) s ctrl (ob_key ob))"
proof -
  obtain op' c acc where o: "find_org_product org_id pid s = Some op'" "mc_assessment c = aid" and
    inv: "move_inv (move_env_at c op' target s) s acc" and m: "moved aid s acc res s'"
    by (rule move_outcome[OF assms(1,2)])
  have op: "op' = op" using o(1) assms(3) by simp
  let ?env = "move_env_at c op target s" and ?ids = "move_claims op target s"
  have inv: "move_inv ?env s acc" using inv op by simp
  have now: "get_state i (mv_db acc) = Some cs'" using assms(5) m by (simp add: moved_def)
  have "accounted s (mv_db acc) (mv_history acc)" using inv by (simp add: move_inv_def)
  then obtain e where e: "last_entry i (mv_history acc) = Some e"
    using now assms(4,6) unfolding accounted_def
    by (cases "last_entry i (mv_history acc)") (fastforce, blast)
  then have in_e: "e \<in> set (mv_history acc)" "fst e = i"
    unfolding last_entry_def by (auto simp: find_Some_iff) (metis nth_mem length_rev set_rev)
  then obtain ctrl name key obj where w: "me_names ?env ctrl = Some name" "me_lookup ?env (name, key) = Some obj"
    "me_states ?env obj = Some i" "claim_differs ?env ctrl key"
    using inv unfolding move_inv_def by blast
  obtain c0 where "get_state i s = Some c0" "cs_assessment_id c0 = aid" "cs_objective_id c0 = obj"
    using move_env_at_ok[OF assms(1), of c op target] w(3) o(2) unfolding move_env_ok_def by auto
  then have cs: "cs_assessment_id cs = aid" "cs_objective_id cs = obj" using assms(4) by simp_all
  obtain ob where ob: "get_objective obj s = Some ob" "ob_key ob = key"
    "ctrl_uuid_to_str ?ids s (ob_control_id ob) = Some name"
    using w(2) unfolding move_env_fields by (rule objective_lookup_Some[OF assms(1)])
  have "control_name (ob_control_id ob) s = Some name" "control_name ctrl s = Some name"
    using ctrl_uuid_to_str_Some[OF assms(1)] ob(3) w(1) unfolding move_env_fields by blast+
  then show ?thesis using cs ob w(4) unfolding claim_differs_at by (intro conjI exI[of _ ctrl] exI[of _ ob]) simp_all
qed

text \<open>The report of a move names every control state the move put at needs review, with its
  control and objective, and everything it names is at needs review afterwards.\<close>

theorem move_report_complete:
  assumes "schema_ok s" "move_org_product_version org_id pid aid target s = Inr (res, s')"
  shows "(\<forall>i cs cs'. get_state i s = Some cs \<longrightarrow> get_state i s' = Some cs' \<longrightarrow>
      cs_status cs \<noteq> NeedsReview \<longrightarrow> cs_status cs' = NeedsReview \<longrightarrow>
      i \<in> nr_state_id ` set (mr_needs_review res)) \<and>
    (\<forall>row \<in> set (mr_needs_review res). \<exists>cs'. get_state (nr_state_id row) s' = Some cs' \<and> cs_status cs' = NeedsReview)"
proof -
  obtain op c acc where inv: "move_inv (move_env_at c op target s) s acc" and m: "moved aid s acc res s'" and
    rep: "set (mr_needs_review res) = set (List.map_filter (describe_reviewed (ctrl_uuid_to_str (move_claims op target s) s)
       (objectives_of (move_claims op target s) s)) (mv_reviewed acc))"
    by (rule move_outcome[OF assms])
  let ?ids = "move_claims op target s"
  have db: "get_state i s' = get_state i (mv_db acc)" for i using m by (simp add: moved_def)
  have named: "rw_state_id r \<in> nr_state_id ` set (mr_needs_review res)" if r: "r \<in> set (mv_reviewed acc)" for r
  proof -
    obtain name key where "objective_lookup ?ids s (name, key) = Some (rw_objective_id r)"
      using inv r unfolding move_inv_def move_env_fields by blast
    then obtain ob where ob: "get_objective (rw_objective_id r) s = Some ob" "ob \<in> set (objectives_of ?ids s)"
      "ctrl_uuid_to_str ?ids s (ob_control_id ob) = Some name"
      by (rule objective_lookup_Some[OF assms(1)])
    have pk: "pk_ok ob_id (next_id s) (objectives_of ?ids s)"
      using assms(1) unfolding objectives_of_def schema_ok_def catalog_ok_def by (simp add: pk_ok_filter)
    have id: "ob_id ob = rw_objective_id r" using tget_SomeD[OF ob(1)] by simp
    have "tget ob_id (rw_objective_id r) (objectives_of ?ids s) = Some ob"
      using pk_ok_tget[OF pk ob(2)] by (simp add: id)
    then obtain row where "describe_reviewed (ctrl_uuid_to_str ?ids s) (objectives_of ?ids s) r = Some row"
      "nr_state_id row = rw_state_id r" using ob(3) by (simp add: describe_reviewed_def)
    then show ?thesis unfolding rep using r by (force simp: set_map_filter image_iff)
  qed
  have "rw_state_id r = nr_state_id row" if "describe_reviewed f obs r = Some row" for f obs r row
    using that by (auto simp: describe_reviewed_def split: option.splits)
  then have origin: "\<exists>r \<in> set (mv_reviewed acc). rw_state_id r = nr_state_id row" if "row \<in> set (mr_needs_review res)" for row
    using that unfolding rep set_map_filter by blast
  show ?thesis
  proof (intro conjI allI impI ballI)
    fix i cs cs' assume "get_state i s = Some cs" "get_state i s' = Some cs'" "cs_status cs \<noteq> NeedsReview" "cs_status cs' = NeedsReview"
    then have "i \<in> rw_state_id ` set (mv_reviewed acc)" using inv unfolding move_inv_def db by blast
    then show "i \<in> nr_state_id ` set (mr_needs_review res)" using named by auto
  next
    fix row assume "row \<in> set (mr_needs_review res)"
    then obtain r where "r \<in> set (mv_reviewed acc)" "rw_state_id r = nr_state_id row" using origin by blast
    then show "\<exists>cs'. get_state (nr_state_id row) s' = Some cs' \<and> cs_status cs' = NeedsReview"
      using inv unfolding move_inv_def db by metis
  qed
qed

text \<open>A move never touches evidence: the links are the same rows as before, no task is changed
  or removed, and the tasks it adds are as many as it reports.\<close>

theorem move_keeps_evidence:
  assumes "schema_ok s" "move_org_product_version org_id pid aid target s = Inr (res, s')"
  shows "t_link s' = t_link s \<and> t_evidence s' = t_evidence s \<and>
    (\<exists>tasks. t_task s' = t_task s @ tasks \<and> length tasks = mr_tasks res)"
proof -
  obtain acc where m: "moved aid s acc res s'" using move_outcome[OF assms] by metis
  obtain c op where a: "apply_move c op target s = Inr (res, s')" using move_InrD[OF assms(2)] by metis
  obtain u where u: "touches (mc_assessment c) s u" "s' = snd (recompute_sprs (mc_assessment c) u)"
    by (rule apply_move_facts[OF assms(1) a])
  have "t_evidence s' = t_evidence s" unfolding u(2) using u(1) by (simp add: touches_def catalog_eq_def)
  then show ?thesis using m unfolding moved_def by blast
qed

subsection \<open>Witnesses\<close>

lemma active_tenant_moves:
  "\<exists>res s'. move_org_product_version 1 30 70 41 active_tenant = Inr (res, s') \<and>
     map_option verdict (get_state 80 s') = Some (NeedsReview, ProviderSatisfies)"
proof -
  have "case move_org_product_version 1 30 70 41 active_tenant of Inl _ \<Rightarrow> False
      | Inr (_, s') \<Rightarrow> map_option verdict (get_state 80 s') = Some (NeedsReview, ProviderSatisfies)" by code_simp
  then show ?thesis by (auto split: sum.splits)
qed

lemma active_tenant_before:
  "map_option verdict (get_state 80 active_tenant) = Some (PendingEvidence, ProviderSatisfies)"
  "find_org_product 1 30 active_tenant \<noteq> None"
  by code_simp+

theorem move_touches_only_differences_witness:
  "\<exists>res s' cs op. move_org_product_version 1 30 70 41 active_tenant = Inr (res, s') \<and>
     get_state 80 active_tenant = Some cs \<and> find_org_product 1 30 active_tenant = Some op \<and>
     (\<exists>ctrl ob. versions_differ (op_version_id op) (Some 41) active_tenant ctrl (ob_key (ob :: objective)))"
proof -
  obtain res s' cs' where run: "move_org_product_version 1 30 70 41 active_tenant = Inr (res, s')"
    and s': "get_state 80 s' = Some cs'" "verdict cs' = (NeedsReview, ProviderSatisfies)"
    using active_tenant_moves by auto
  obtain cs where cs: "get_state 80 active_tenant = Some cs" "verdict cs = (PendingEvidence, ProviderSatisfies)"
    using active_tenant_before(1) by auto
  obtain op where op: "find_org_product 1 30 active_tenant = Some op" using active_tenant_before(2) by blast
  have "\<exists>ctrl ob. versions_differ (op_version_id op) (Some 41) active_tenant ctrl (ob_key (ob :: objective))"
    using move_touches_only_differences[OF example_schema(2) run op cs(1) s'(1)] cs(2) s'(2) by auto
  then show ?thesis using run cs(1) op by blast
qed

theorem move_report_complete_witness:
  "\<exists>res s'. move_org_product_version 1 30 70 41 active_tenant = Inr (res, s') \<and>
     80 \<in> nr_state_id ` set (mr_needs_review res)"
proof -
  obtain res s' cs' where run: "move_org_product_version 1 30 70 41 active_tenant = Inr (res, s')"
    and s': "get_state 80 s' = Some cs'" "verdict cs' = (NeedsReview, ProviderSatisfies)"
    using active_tenant_moves by auto
  obtain cs where cs: "get_state 80 active_tenant = Some cs" "verdict cs = (PendingEvidence, ProviderSatisfies)"
    using active_tenant_before(1) by auto
  have "80 \<in> nr_state_id ` set (mr_needs_review res)"
    using conjunct1[OF move_report_complete[OF example_schema(2) run]] cs s' by (simp add: verdict_def)
  then show ?thesis using run by blast
qed

theorem move_keeps_evidence_witness:
  "\<exists>res s'. move_org_product_version 1 30 70 41 active_tenant = Inr (res, s') \<and> t_link s' = t_link active_tenant"
proof -
  obtain res s' where run: "move_org_product_version 1 30 70 41 active_tenant = Inr (res, s')"
    using active_tenant_moves by auto
  then show ?thesis using move_keeps_evidence[OF example_schema(2) run] by blast
qed

end
