(* ===== verification/Lifecycle_Properties.thy ===== *)
theory Lifecycle_Properties
  imports Example
begin

section \<open>Properties of an assessment's life\<close>

text \<open>Starting, completing and reopening, backfilling, carrying RACI forward, and the evidence
  tasks the magic loop hands out.\<close>

subsection \<open>Completing and reopening\<close>

lemma tupd_twice:
  assumes "\<And>r. key (f r) = key r" "distinct (map key rows)" "tget key i rows = Some r" "g (f r) = r"
  shows "tupd key i g (tupd key i f rows) = rows"
proof -
  have "g (f x) = x" if "x \<in> set rows" "key x = i" for x
    using tget_distinct[OF assms(2) that(1)] that(2) assms(3,4) by simp
  then show ?thesis unfolding tupd_def by (auto simp: assms(1) intro: map_idI)
qed

lemma get_update_assessment:
  assumes "\<And>r. a_id (f r) = a_id r"
  shows "get_assessment i (update_assessment j f s) =
    (if i = j then map_option f (get_assessment j s) else get_assessment i s)"
proof -
  have "keyed_update a_id f" by unfold_locales (rule assms)
  then show ?thesis by (simp add: update_assessment_def keyed_update.tget_tupd)
qed

text \<open>Completing an assessment, which succeeds only for one of the organization's in
  progress, marks it submitted now and changes nothing else; it cannot be completed again, and
  reopening it restores the database as it was.\<close>

theorem complete_then_reopen:
  assumes "schema_ok s" "complete_assessment org_id aid s = Inr s1"
  shows "\<exists>a. get_assessment aid s = Some a \<and> a_org_id a = org_id \<and> a_status a = InProgress \<and>
    get_assessment aid s1 = Some (a\<lparr>a_status := Submitted, a_submitted_at := Some (clock s)\<rparr>) \<and>
    (\<forall>i. i \<noteq> aid \<longrightarrow> get_assessment i s1 = get_assessment i s) \<and>
    complete_assessment org_id aid s1 = Inl (CannotComplete Submitted) \<and>
    (a_submitted_at a = None \<longrightarrow> reopen_assessment org_id aid s1 = Inr s)"
proof -
  let ?f = "\<lambda>r. r\<lparr>a_status := Submitted, a_submitted_at := Some (clock s)\<rparr>"
  let ?g = "\<lambda>r. r\<lparr>a_status := InProgress, a_submitted_at := None\<rparr>"
  obtain a where a: "get_assessment aid s = Some a" "a_org_id a = org_id" "a_status a = InProgress"
    and s1: "s1 = update_assessment aid ?f s" by (rule complete_InrD[OF assms(2)])
  have g: "get_assessment i s1 = (if i = aid then Some (?f a) else get_assessment i s)" for i
    unfolding s1 using a(1) by (simp add: get_update_assessment)
  have "reopen_assessment org_id aid s1 = Inr s" if none: "a_submitted_at a = None"
  proof -
    have d: "distinct (map a_id (t_assessment s))" using assms(1) by (simp add: schema_ok_def pk_ok_def)
    have "?g (?f a) = a" using none a(3) by simp
    then have "tupd a_id aid ?g (tupd a_id aid ?f (t_assessment s)) = t_assessment s"
      using tupd_twice[of a_id ?f "t_assessment s" aid a ?g] d a(1) by simp
    then have "update_assessment aid ?g s1 = s" unfolding s1 update_assessment_def by simp
    then show ?thesis using a(2) by (simp add: reopen_assessment_def g)
  qed
  then show ?thesis using a g by (simp add: complete_assessment_def)
qed

theorem complete_then_reopen_witness:
  "\<exists>s1. complete_assessment 1 70 tenant = Inr s1 \<and> reopen_assessment 1 70 s1 = Inr tenant"
proof -
  have "case complete_assessment 1 70 tenant of Inl _ \<Rightarrow> False | Inr _ \<Rightarrow> True" by code_simp
  then obtain s1 where s1: "complete_assessment 1 70 tenant = Inr s1" by (auto split: sum.splits)
  have n: "map_option a_submitted_at (get_assessment 70 tenant) = Some None" by code_simp
  from complete_then_reopen[OF example_schema(1) s1] n s1 show ?thesis by auto
qed

subsection \<open>Starting\<close>

definition states_of :: "uuid \<Rightarrow> db \<Rightarrow> control_state list" where
  "states_of aid s = filter (\<lambda>cs. cs_assessment_id cs = aid) (t_cstate s)"

definition unassessed :: "uuid \<Rightarrow> db \<Rightarrow> bool" where
  "unassessed aid s \<longleftrightarrow> (\<forall>i cs. get_state i s = Some cs \<longrightarrow> cs_assessment_id cs = aid \<longrightarrow>
     cs_status cs \<in> {NotMet, PendingEvidence})"

lemma map_states_of:
  assumes "map state_key (t_cstate u) = map state_key (t_cstate s)"
  shows "map cs_objective_id (states_of aid u) = map cs_objective_id (states_of aid s)"
proof -
  have eq: "map cs_objective_id (filter (\<lambda>cs. cs_assessment_id cs = aid) rows) =
      map (\<lambda>(i, a, g, ob). ob) (filter (\<lambda>(i, a, g, ob). a = aid) (map state_key rows))" for rows
    by (induction rows) (auto simp: state_key_def)
  show ?thesis unfolding states_of_def eq assms by (rule refl)
qed

lemma start_product_unassessed:
  assumes ok: "schema_ok s" and run: "start_product org_id aid op s = Inr s'" and un: "unassessed aid s"
  shows "unassessed aid s'"
proof (cases "op_version_id op")
  case None
  then show ?thesis using run un by (simp add: start_product_def)
next
  case (Some v)
  then obtain res where r: "run_loop org_id (op_product_id op) v aid None ''start_assessment'' None s = Inr (res, s')"
    using run by (auto simp: start_product_def split: sum.splits)
  let ?env = "env_at org_id (op_product_id op) v aid None ''start_assessment'' None s"
  have out: "get_state i s' = covered_by ?env (hits_at ?env v s) s i" for i
    using run_loop_outcome(1)[OF ok r] by (simp add: loop_outcome_def)
  have ans: "answer ?env cs = None" for cs by (simp add: answer_def choice_of_def)
  show ?thesis unfolding unassessed_def
  proof (intro allI impI)
    fix i cs' assume c: "get_state i s' = Some cs'" "cs_assessment_id cs' = aid"
    show "cs_status cs' \<in> {NotMet, PendingEvidence}"
    proof (cases "map_of (hits_at ?env v s) i")
      case None
      then show ?thesis using c un out[of i] unfolding unassessed_def by (simp add: covered_by_def)
    next
      case (Some bc)
      then obtain cs where cs: "get_state i s = Some cs" "cs' = covered ?env bc cs"
        using c(1) out[of i] by (auto simp: covered_by_def)
      have "cs_status cs \<in> {NotMet, PendingEvidence}" using un cs c(2) unfolding unassessed_def by simp
      then show ?thesis unfolding cs(2) covered_def ans
        by (auto simp: contributor_added_status_def JUDGED_STATUSES_def)
    qed
  qed
qed

lemma start_products_unassessed:
  assumes "schema_ok s" "foldres (start_product org_id aid) ops s = Inr s'" "unassessed aid s"
  shows "unassessed aid s'"
  using assms
proof (induction ops arbitrary: s)
  case (Cons op ops)
  obtain t where t: "start_product org_id aid op s = Inr t" "foldres (start_product org_id aid) ops t = Inr s'"
    using Cons.prems(2) by (cases "start_product org_id aid op s") simp_all
  have "schema_ok t" using start_product_ok[OF Cons.prems(1) t(1)] touches_schema_ok Cons.prems(1) by blast
  then show ?case using Cons.IH[OF _ t(2)] start_product_unassessed[OF Cons.prems(1) t(1) Cons.prems(3)] by blast
qed simp

text \<open>Starting an assessment gives it exactly one control state for each objective of the
  framework, in the catalog's order, each not met or pending evidence (never judged), and leaves the
  states of every other assessment as they were.\<close>

theorem start_seeds_every_objective:
  assumes "engine_ok s" "start_assessment org_id fw name ty s = Inr (i, s')"
  shows "map cs_objective_id (states_of i s') = map (\<lambda>(ob, c). ob_id ob) (framework_objectives fw s) \<and>
    (\<forall>cs \<in> set (states_of i s'). cs_status cs \<in> {NotMet, PendingEvidence}) \<and>
    filter (\<lambda>cs. cs_assessment_id cs \<noteq> i) (t_cstate s') = t_cstate s"
proof -
  obtain s3 ops where i: "i = next_id s" and
    s3: "foldres (start_product org_id i) ops (start_seeded org_id fw name ty s) = Inr s3" and
    s': "s' = snd (recompute_sprs i s3)" by (rule start_InrD[OF assms(2)])
  let ?u = "start_seeded org_id fw name ty s"
  have ok1: "schema_ok ?u" using engine_ok_start_seeded(1)[OF assms(1)] by (simp add: engine_ok_but_def)
  have sok: "schema_ok s" using assms(1) by (simp add: engine_ok_def)
  have t: "touches i ?u s3" using start_products_ok[OF ok1 s3] by blast
  have same: "same_but i (t_cstate ?u) (t_cstate s3)" using t by (simp add: touches_def)
  have cst: "t_cstate s' = t_cstate s3" unfolding s' by simp
  let ?s1 = "s\<lparr>next_id := Suc (next_id s),
          t_assessment := t_assessment s @ [new_assessment (next_id s) org_id fw name ty (clock s)]\<rparr>"
  have fo: "framework_objectives fw ?s1 = framework_objectives fw s" by (simp add: framework_objectives_def)
  have seeded: "t_cstate ?u = t_cstate s @ insert_rows (mk_state org_id i) (Suc (next_id s)) (map fst (framework_objectives fw s))"
    by (simp add: start_seeded_def seed_control_states_def fo i)
  have old: "cs_assessment_id cs \<noteq> i" if "cs \<in> set (t_cstate s)" for cs
  proof -
    have "cs_assessment_id cs \<in> a_id ` set (t_assessment s)"
      using assms(1) that by (auto simp: engine_ok_def states_fk_def)
    moreover have "\<forall>a \<in> set (t_assessment s). a_id a < next_id s" using sok by (simp add: schema_ok_def pk_ok_def)
    ultimately show ?thesis using i by auto
  qed
  have new: "map cs_objective_id (insert_rows (mk_state org_id i) n obs) = map ob_id obs" for n obs
    by (rule map_insert_rows) (simp add: mk_state_def)
  have newi: "cs_assessment_id cs = i" if "cs \<in> set (insert_rows (mk_state org_id i) n obs)" for cs n obs
    using insert_states[OF that] by simp
  have st: "states_of i ?u = insert_rows (mk_state org_id i) (Suc (next_id s)) (map fst (framework_objectives fw s))"
    unfolding states_of_def seeded filter_append using old newi by simp
  have 1: "map cs_objective_id (states_of i s') = map (\<lambda>(ob, c). ob_id ob) (framework_objectives fw s)"
  proof -
    have "map cs_objective_id (states_of i s') = map cs_objective_id (states_of i ?u)"
      by (rule map_states_of) (simp add: cst same_but_keys[OF same])
    then show ?thesis unfolding st new by (simp add: case_prod_unfold)
  qed
  have un: "unassessed i ?u" unfolding unassessed_def
  proof (intro allI impI)
    fix j cs assume c: "get_state j ?u = Some cs" "cs_assessment_id cs = i"
    then have "cs \<in> set (states_of i ?u)" using tget_SomeD[OF c(1)] by (simp add: states_of_def)
    then show "cs_status cs \<in> {NotMet, PendingEvidence}" unfolding st using insert_states by (fastforce simp: verdict_def)
  qed
  have un': "unassessed i s3" by (rule start_products_unassessed[OF ok1 s3 un])
  have ok3: "schema_ok s3" by (rule touches_schema_ok[OF t ok1])
  have 2: "cs_status cs \<in> {NotMet, PendingEvidence}" if "cs \<in> set (states_of i s')" for cs
  proof -
    have m: "cs \<in> set (t_cstate s3)" "cs_assessment_id cs = i" using that by (simp_all add: states_of_def cst)
    have "pk_ok cs_id (next_id s3) (t_cstate s3)" using ok3 by (simp add: schema_ok_def states_ok_def)
    from pk_ok_tget[OF this m(1)] show ?thesis using un' m(2) unfolding unassessed_def by blast
  qed
  have "filter (\<lambda>cs. cs_assessment_id cs \<noteq> i) (t_cstate s3) = filter (\<lambda>cs. cs_assessment_id cs \<noteq> i) (t_cstate ?u)"
    using same unfolding same_but_def
    by (induction rule: list_all2_induct) (auto simp: state_key_def)
  also have "\<dots> = t_cstate s" unfolding seeded filter_append using old newi by simp
  finally show ?thesis using 1 2 unfolding cst by blast
qed

theorem start_seeds_every_objective_witness:
  "\<exists>i s'. start_assessment 1 2 ''Q2'' ''self'' tenant = Inr (i, s') \<and> map cs_objective_id (states_of i s') = [20, 21, 22]"
proof -
  have "case start_assessment 1 2 ''Q2'' ''self'' tenant of Inl _ \<Rightarrow> False | Inr _ \<Rightarrow> True" by code_simp
  then obtain i s' where run: "start_assessment 1 2 ''Q2'' ''self'' tenant = Inr (i, s')" by (auto split: sum.splits)
  have "map (\<lambda>(ob, c). ob_id ob) (framework_objectives 2 tenant) = [20, 21, 22]" by code_simp
  then show ?thesis using start_seeds_every_objective[OF tenant_ok run] run by metis
qed

subsection \<open>Backfilling\<close>

lemma missing_iff:
  "missing_objectives a s = [] \<longleftrightarrow>
     (\<lambda>(ob, c). ob_id ob) ` set (framework_objectives (a_framework_id a) s) \<subseteq> obj_at (a_id a) s"
  by (auto simp: missing_objectives_def obj_at_def filter_empty_conv)

lemma framework_objectives_cong:
  "catalog_eq s s' \<Longrightarrow> framework_objectives fw s' = framework_objectives fw s"
  by (simp add: framework_objectives_def catalog_eq_def)

lemma backfill_one_step:
  assumes run: "backfill_one reason (rs, s) a = (rs', s')"
  shows "catalog_eq s s'" "map (\<lambda>b. (a_id b, a_framework_id b)) (t_assessment s') = map (\<lambda>b. (a_id b, a_framework_id b)) (t_assessment s)"
    "missing_objectives a s' = []"
    "\<exists>new. t_cstate s' = t_cstate s @ new \<and> (\<forall>cs \<in> set new. verdict cs = (NotMet, CustomerOwns)) \<and>
       sum_list (map bf_added rs') = sum_list (map bf_added rs) + length new"
    "missing_objectives a s = [] \<Longrightarrow> rs' = rs \<and> s' = s"
proof -
  let ?m = "missing_objectives a s"
  let ?u = "add_states (a_org_id a) (a_id a) (map fst ?m) s"
  show nil: "?m = [] \<Longrightarrow> rs' = rs \<and> s' = s" using run by (simp add: backfill_one_def)
  have cons: "t_cstate s' = t_cstate ?u" "catalog_eq s s'"
    "map (\<lambda>b. (a_id b, a_framework_id b)) (t_assessment s') = map (\<lambda>b. (a_id b, a_framework_id b)) (t_assessment s)"
    "sum_list (map bf_added rs') = sum_list (map bf_added rs) + length ?m" if ne: "?m \<noteq> []"
  proof -
    have s': "t_cstate s' = t_cstate (snd (recompute_sprs (a_id a) ?u))" "t_assessment s' = t_assessment (snd (recompute_sprs (a_id a) ?u))"
      and c: "catalog_eq (snd (recompute_sprs (a_id a) ?u)) s'"
      and r: "sum_list (map bf_added rs') = sum_list (map bf_added rs) + length ?m"
      using run ne by (auto simp: backfill_one_def Let_def case_prod_unfold)
    show "t_cstate s' = t_cstate ?u" using s'(1) by simp
    show "catalog_eq s s'" using catalog_eq_trans[OF catalog_eq_trans[OF _ recompute_frame(19)] c] by simp
    have "map (\<lambda>b. (a_id b, a_framework_id b)) (tupd a_id (a_id a) (\<lambda>r. r\<lparr>a_sprs_score := Some (sprs_of (a_id a) ?u)\<rparr>) (t_assessment s)) =
        map (\<lambda>b. (a_id b, a_framework_id b)) (t_assessment s)"
      by (rule score_upd.map_tupd_other) simp
    then show "map (\<lambda>b. (a_id b, a_framework_id b)) (t_assessment s') = map (\<lambda>b. (a_id b, a_framework_id b)) (t_assessment s)"
      unfolding s'(2) recompute_assessments by simp
    show "sum_list (map bf_added rs') = sum_list (map bf_added rs) + length ?m" by (rule r)
  qed
  show "catalog_eq s s'" using cons(2) nil by (cases "?m = []") auto
  then have fw: "framework_objectives fw s' = framework_objectives fw s" for fw by (rule framework_objectives_cong)
  show "map (\<lambda>b. (a_id b, a_framework_id b)) (t_assessment s') = map (\<lambda>b. (a_id b, a_framework_id b)) (t_assessment s)"
    using cons(3) nil by (cases "?m = []") auto
  show "missing_objectives a s' = []"
  proof (cases "?m = []")
    case True
    then show ?thesis using nil by simp
  next
    case False
    have new: "map (\<lambda>cs. (cs_assessment_id cs, cs_objective_id cs)) (insert_rows (mk_state (a_org_id a) (a_id a)) n obs) =
        map (\<lambda>ob. (a_id a, ob_id ob)) obs" for n obs
      by (rule map_insert_rows) (simp add: mk_state_def)
    have "ob_id ob \<in> obj_at (a_id a) s'" if "(ob, c) \<in> set (framework_objectives (a_framework_id a) s)" for ob c
    proof (cases "ob_id ob \<in> obj_at (a_id a) s")
      case True
      then show ?thesis unfolding obj_at_def cons(1)[OF False] by auto
    next
      case no: False
      then have "ob \<in> set (map fst ?m)" using that by (force simp: missing_objectives_def obj_at_def)
      then have "(a_id a, ob_id ob) \<in> (\<lambda>cs. (cs_assessment_id cs, cs_objective_id cs)) `
          set (insert_rows (mk_state (a_org_id a) (a_id a)) (next_id s) (map fst ?m))"
        unfolding set_map[symmetric] new by force
      then show ?thesis unfolding obj_at_def cons(1)[OF False] by auto
    qed
    then show ?thesis unfolding missing_iff fw by auto
  qed
  show "\<exists>new. t_cstate s' = t_cstate s @ new \<and> (\<forall>cs \<in> set new. verdict cs = (NotMet, CustomerOwns)) \<and>
       sum_list (map bf_added rs') = sum_list (map bf_added rs) + length new"
  proof (cases "?m = []")
    case True
    then show ?thesis using nil by simp
  next
    case False
    show ?thesis
      by (rule exI[of _ "insert_rows (mk_state (a_org_id a) (a_id a)) (next_id s) (map fst ?m)"])
        (use cons(1,4)[OF False] insert_states in auto)
  qed
qed

lemma missing_mono:
  assumes "missing_objectives a s = []" "catalog_eq s s'" "t_cstate s' = t_cstate s @ new"
  shows "missing_objectives a s' = []"
  using assms(1) unfolding missing_iff framework_objectives_cong[OF assms(2)] obj_at_def assms(3) by auto

lemma backfill_all:
  assumes "foldl (backfill_one reason) (rs, s) as = (rs', s')"
  shows "catalog_eq s s' \<and>
    map (\<lambda>b. (a_id b, a_framework_id b)) (t_assessment s') = map (\<lambda>b. (a_id b, a_framework_id b)) (t_assessment s) \<and>
    (\<forall>a \<in> set as. missing_objectives a s' = []) \<and>
    (\<exists>new. t_cstate s' = t_cstate s @ new \<and> (\<forall>cs \<in> set new. verdict cs = (NotMet, CustomerOwns)) \<and>
       sum_list (map bf_added rs') = sum_list (map bf_added rs) + length new)"
  using assms
proof (induction as arbitrary: rs s)
  case (Cons a as)
  obtain rs1 s1 where b: "backfill_one reason (rs, s) a = (rs1, s1)" by (cases "backfill_one reason (rs, s) a")
  note st = backfill_one_step[OF b]
  obtain new1 where n1: "t_cstate s1 = t_cstate s @ new1" "\<forall>cs \<in> set new1. verdict cs = (NotMet, CustomerOwns)"
    "sum_list (map bf_added rs1) = sum_list (map bf_added rs) + length new1" using st(4) by blast
  have "foldl (backfill_one reason) (rs1, s1) as = (rs', s')" using Cons.prems b by simp
  note ih = Cons.IH[OF this]
  obtain new2 where n2: "t_cstate s' = t_cstate s1 @ new2" "\<forall>cs \<in> set new2. verdict cs = (NotMet, CustomerOwns)"
    "sum_list (map bf_added rs') = sum_list (map bf_added rs1) + length new2" using ih by blast
  have c: "catalog_eq s1 s'" using ih by blast
  have "missing_objectives a s' = []" by (rule missing_mono[OF st(3) c n2(1)])
  moreover have "catalog_eq s s'" by (rule catalog_eq_trans[OF st(1) c])
  moreover have "\<exists>new. t_cstate s' = t_cstate s @ new \<and> (\<forall>cs \<in> set new. verdict cs = (NotMet, CustomerOwns)) \<and>
       sum_list (map bf_added rs') = sum_list (map bf_added rs) + length new"
    by (rule exI[of _ "new1 @ new2"]) (use n1 n2 in auto)
  ultimately show ?case using ih st(2) by simp
qed simp

lemma backfill_nothing:
  assumes "\<forall>a \<in> set as. missing_objectives a s = []"
  shows "foldl (backfill_one reason) (rs, s) as = (rs, s)"
  using assms by (induction as) (simp_all add: backfill_one_def)

text \<open>C15. A backfill completes every assessment: each then has a control state for every objective
  of its framework. It changes no existing state, adds only states that are not met and the
  customer's, as many as it reports, and a second backfill finds nothing to do; a dry run reports
  the same and writes nothing.\<close>

theorem backfill_completes:
  assumes "backfill_missing_control_states reason False s = (results, s')"
  shows "(\<forall>a \<in> set (t_assessment s'). missing_objectives a s' = []) \<and>
    (\<exists>new. t_cstate s' = t_cstate s @ new \<and> (\<forall>cs \<in> set new. verdict cs = (NotMet, CustomerOwns)) \<and>
       sum_list (map bf_added results) = length new) \<and>
    backfill_missing_control_states reason2 dry s' = ([], s') \<and>
    backfill_missing_control_states reason True s = (results, s)"
proof -
  have f: "foldl (backfill_one reason) ([], s) (t_assessment s) = (results, s')"
    using assms by (auto simp: backfill_missing_control_states_def case_prod_unfold Let_def)
  note b = backfill_all[OF f]
  have missing: "missing_objectives a s' = []" if a: "a \<in> set (t_assessment s')" for a
  proof -
    have "(a_id a, a_framework_id a) \<in> set (map (\<lambda>b. (a_id b, a_framework_id b)) (t_assessment s'))" using a by force
    then obtain b' where b': "b' \<in> set (t_assessment s)" "a_id b' = a_id a" "a_framework_id b' = a_framework_id a"
      using b by auto
    have "missing_objectives b' s' = missing_objectives a s'" by (simp add: missing_objectives_def b')
    then show ?thesis using b b'(1) by simp
  qed
  moreover have "backfill_missing_control_states reason2 dry s' = ([], s')"
    using backfill_nothing[of "t_assessment s'" s'] missing by (simp add: backfill_missing_control_states_def)
  ultimately show ?thesis using b f by (simp add: backfill_missing_control_states_def)
qed

definition sparse_tenant :: db where
  "sparse_tenant = tenant\<lparr>t_cstate := []\<rparr>"

theorem backfill_completes_witness:
  "\<exists>results s'. backfill_missing_control_states ''new'' False sparse_tenant = (results, s') \<and>
     backfill_missing_control_states ''new'' False s' = ([], s')"
proof -
  obtain results s' where run: "backfill_missing_control_states ''new'' False sparse_tenant = (results, s')"
    by (cases "backfill_missing_control_states ''new'' False sparse_tenant")
  then show ?thesis using backfill_completes[OF run] by blast
qed

subsection \<open>Carrying RACI forward\<close>

lemma first_source_best:
  "first_source as = Some b \<Longrightarrow> b \<in> set as \<and> (\<forall>a \<in> set as. \<not> better_source a b)"
proof (induction as arbitrary: b)
  case (Cons a as)
  show ?case
  proof (cases "first_source as")
    case None
    then have "as = []" by (cases as) (auto split: option.splits if_splits)
    then show ?thesis using Cons.prems by (auto simp: better_source_def)
  next
    case (Some c)
    note ih = Cons.IH[OF Some]
    have "\<not> better_source x a" if "\<not> better_source c a" "x \<in> set as" for x
      using ih that unfolding better_source_def by fastforce
    then show ?thesis using Cons.prems Some ih by (auto simp: better_source_def split: if_splits)
  qed
qed simp

definition carried_from ::
  "(uuid \<Rightarrow> uuid option) \<Rightarrow> uuid list \<Rightarrow> (raci_assignment \<times> uuid) list \<Rightarrow> uuid \<times> uuid \<times> char \<Rightarrow> bool" where
  "carried_from by_objective contacts rows x \<longleftrightarrow> (\<exists>ra obj i. (ra, obj) \<in> set rows \<and>
      by_objective obj = Some i \<and> ra_contact_id ra \<in> set contacts \<and> x = (i, ra_contact_id ra, ra_letter ra))"

lemma carry_one_facts:
  "length (rc_new (carry_one f cs acc r)) + rc_no_match (carry_one f cs acc r) + rc_inactive (carry_one f cs acc r) =
     Suc (length (rc_new acc) + rc_no_match acc + rc_inactive acc)"
  "x \<in> set (rc_new (carry_one f cs acc r)) \<Longrightarrow> x \<in> set (rc_new acc) \<or> carried_from f cs [r] x"
  by (auto simp: carry_one_def carried_from_def split: prod.splits option.splits if_splits)

lemma carry_all_counts:
  "length (rc_new (foldl (carry_one f cs) acc rows)) + rc_no_match (foldl (carry_one f cs) acc rows) +
     rc_inactive (foldl (carry_one f cs) acc rows) =
   length (rc_new acc) + rc_no_match acc + rc_inactive acc + length rows"
  by (induction rows arbitrary: acc) (simp_all add: carry_one_facts(1))

lemma carry_all_from:
  "x \<in> set (rc_new (foldl (carry_one f cs) acc rows)) \<Longrightarrow> x \<in> set (rc_new acc) \<or> carried_from f cs rows x"
proof (induction rows arbitrary: acc)
  case (Cons r rows)
  then have "x \<in> set (rc_new (carry_one f cs acc r)) \<or> carried_from f cs rows x" by simp
  then have "x \<in> set (rc_new acc) \<or> carried_from f cs [r] x \<or> carried_from f cs rows x"
    using carry_one_facts(2)[of x f cs acc r] by blast
  then show ?case unfolding carried_from_def by (elim disjE exE conjE) auto
qed simp

text \<open>Carrying RACI forward copies from the organization's other assessment of the same
  framework that is first by completion and then by date; every row of the source is carried, or
  counted as having no objective here, or as its person being gone; and every new row puts a
  present contact on the state of the same objective, with the same letter.\<close>

theorem raci_carried_accounted:
  assumes "copy_forward_raci org_id fw aid s = Inr (summ, s')" "rs_source summ = Some src"
  shows "\<exists>a \<in> set (t_assessment s). a_id a = src \<and> a_org_id a = org_id \<and> a_framework_id a = fw \<and> src \<noteq> aid \<and>
      (\<forall>b \<in> set (t_assessment s). a_org_id b = org_id \<and> a_framework_id b = fw \<and> a_id b \<noteq> aid \<longrightarrow> \<not> better_source b a) \<and>
      rs_carried summ + rs_skipped_no_match summ + rs_skipped_inactive summ = length (source_rows src s) \<and>
      (\<exists>new. t_raci s' = t_raci s @ new \<and> length new = rs_carried summ \<and>
        (\<forall>r \<in> set new. \<exists>ra obj. (ra, obj) \<in> set (source_rows src s) \<and>
           new_cs_by_objective aid s obj = Some (ra_state_id r) \<and>
           ra_contact_id r = ra_contact_id ra \<and> ra_contact_id ra \<in> co_id ` set (t_contact s) \<and>
           ra_letter r = ra_letter ra))"
proof -
  let ?cand = "filter (\<lambda>a. a_org_id a = org_id \<and> a_framework_id a = fw \<and> a_id a \<noteq> aid) (t_assessment s)"
  obtain a where a: "raci_source org_id fw aid s = Some a" "a_id a = src"
    using assms by (auto simp: copy_forward_raci_def Let_def split: option.splits if_splits)
  have best: "a \<in> set ?cand" "\<forall>b \<in> set ?cand. \<not> better_source b a"
    using first_source_best a(1) unfolding raci_source_def by blast+
  let ?acc = "carry_all src aid s"
  have r: "rs_carried summ = length (rc_new ?acc)" "rs_skipped_no_match summ = rc_no_match ?acc"
    "rs_skipped_inactive summ = rc_inactive ?acc"
    "t_raci s' = t_raci s @ insert_rows mk_raci (next_id s) (rc_new ?acc)"
    using assms(1) a by (auto simp: copy_forward_raci_def Let_def split: if_splits)
  have count: "length (rc_new ?acc) + rc_no_match ?acc + rc_inactive ?acc = length (source_rows src s)"
    unfolding carry_all_def carry_all_counts by simp
  have "\<exists>ra obj. (ra, obj) \<in> set (source_rows src s) \<and> new_cs_by_objective aid s obj = Some (ra_state_id row) \<and>
           ra_contact_id row = ra_contact_id ra \<and> ra_contact_id ra \<in> co_id ` set (t_contact s) \<and>
           ra_letter row = ra_letter ra"
    if row: "row \<in> set (insert_rows mk_raci (next_id s) (rc_new ?acc))" for row
  proof -
    obtain k x where x: "x \<in> set (rc_new ?acc)" "row = mk_raci k x" using set_insert_rows[OF row] by blast
    have "carried_from (new_cs_by_objective aid s) (map co_id (t_contact s)) (source_rows src s) x"
      using carry_all_from[OF x(1)[unfolded carry_all_def]] by simp
    then obtain ra obj i where f: "(ra, obj) \<in> set (source_rows src s)" "new_cs_by_objective aid s obj = Some i"
      "ra_contact_id ra \<in> set (map co_id (t_contact s))" "x = (i, ra_contact_id ra, ra_letter ra)"
      unfolding carried_from_def by blast
    then show ?thesis using x(2) by (intro exI[of _ ra] exI[of _ obj]) (simp add: mk_raci_def)
  qed
  then show ?thesis
    using best a(2) count by (intro bexI[of _ a]) (auto simp: r intro!: exI[of _ "insert_rows mk_raci (next_id s) (rc_new ?acc)"])
qed

definition raci_tenant :: db where
  "raci_tenant = tenant\<lparr>
     t_assessment := t_assessment tenant @ [\<lparr>a_id = 71, a_org_id = 1, a_framework_id = 2, a_name = ''Q2'',
        a_type = ''self'', a_status = InProgress, a_started_at = t0, a_submitted_at = None,
        a_sprs_score = None, a_locked_at = None\<rparr>],
     t_cstate := t_cstate tenant @ [\<lparr>cs_id = 83, cs_assessment_id = 71, cs_org_id = 1, cs_objective_id = 20,
        cs_status = NotMet, cs_responsibility = CustomerOwns\<rparr>],
     t_contact := [\<lparr>co_id = 60, co_org_id = 1, co_name = ''N'', co_email = ''e''\<rparr>],
     t_raci := [\<lparr>ra_id = 61, ra_state_id = 80, ra_contact_id = 60, ra_letter = CHR ''R''\<rparr>,
                \<lparr>ra_id = 62, ra_state_id = 81, ra_contact_id = 60, ra_letter = CHR ''A''\<rparr>]\<rparr>"

theorem raci_carried_accounted_witness:
  "\<exists>summ s'. copy_forward_raci 1 2 71 raci_tenant = Inr (summ, s') \<and>
     rs_carried summ + rs_skipped_no_match summ + rs_skipped_inactive summ = 2"
proof -
  have "case copy_forward_raci 1 2 71 raci_tenant of Inl _ \<Rightarrow> False | Inr (summ, _) \<Rightarrow> rs_source summ = Some 70"
    by code_simp
  then obtain summ s' where run: "copy_forward_raci 1 2 71 raci_tenant = Inr (summ, s')" "rs_source summ = Some 70"
    by (auto split: sum.splits)
  have "length (source_rows 70 raci_tenant) = 2" by code_simp
  then show ?thesis using raci_carried_accounted[OF run] run(1) by auto
qed

subsection \<open>Evidence tasks\<close>

text \<open>The fan-out of evidence tasks never makes two open tasks for one artifact: what it adds
  has pairwise different keys (the stripped, lower-case title, and the type), none of them the key
  of a task the assessment already has, all open, for this organization and assessment; it adds as
  many tasks as it reports, and links only to states it was given.\<close>

theorem fanout_no_duplicates:
  assumes "schema_ok s" "fanout_evidence_tasks org_id aid product bcs names lookup states s = (n, s')"
  shows "\<exists>tasks links. t_task s' = t_task s @ tasks \<and> t_tasklink s' = t_tasklink s @ links \<and>
    length tasks = n \<and> distinct (map task_key tasks) \<and>
    task_key ` set tasks \<inter> task_key ` set (tasks_of org_id aid s) = {} \<and>
    (\<forall>t \<in> set tasks. tk_org_id t = org_id \<and> tk_assessment_id t = Some aid \<and> tk_status t = TaskOpen \<and> \<not> tk_is_archived t) \<and>
    (\<forall>l \<in> set links. tl_state_id l \<in> ran states)"
proof -
  obtain tasks links where f: "t_task s' = t_task s @ tasks" "t_tasklink s' = t_tasklink s @ links"
    "length tasks = n" "distinct (map task_key tasks)"
    "\<forall>t \<in> set tasks. tk_org_id t = org_id \<and> tk_assessment_id t = Some aid \<and> tk_status t = TaskOpen \<and>
       \<not> tk_is_archived t \<and> task_key t \<notin> task_key ` set (tasks_of org_id aid s)"
    "\<forall>l \<in> set links. tl_task_id l \<in> tk_id ` set (tasks_of org_id aid s') \<and> tl_state_id l \<in> ran states"
    using fanout_adds[OF assms] by blast
  have "task_key ` set tasks \<inter> task_key ` set (tasks_of org_id aid s) = {}"
  proof (rule ccontr)
    assume "task_key ` set tasks \<inter> task_key ` set (tasks_of org_id aid s) \<noteq> {}"
    then obtain t where "t \<in> set tasks" "task_key t \<in> task_key ` set (tasks_of org_id aid s)" by blast
    then show False using f(5) by blast
  qed
  then show ?thesis by (intro exI[of _ tasks] exI[of _ links]) (use f in simp)
qed

definition tenant_fanout :: "db \<Rightarrow> nat \<times> db" where
  "tenant_fanout = fanout_evidence_tasks 1 70 (the (get_product 30 tenant)) (claims_of 40 tenant)
     (ctrl_uuid_to_str [10] tenant) (objective_lookup [10] tenant) (states_by_objective 70 [20, 21, 22] tenant)"

theorem fanout_no_duplicates_witness:
  "\<exists>s'. tenant_fanout tenant = (1, s') \<and> length (t_task s') = 1"
proof -
  obtain n s' where run: "tenant_fanout tenant = (n, s')" by (cases "tenant_fanout tenant")
  have k: "fst (tenant_fanout tenant) = 1" "t_task tenant = []" by code_simp+
  from fanout_no_duplicates[OF example_schema(1) run[unfolded tenant_fanout_def]] k run
  show ?thesis by auto
qed

text \<open>Running the same fan-out again finds everything in place: it adds nothing.\<close>

theorem fanout_idempotent:
  assumes "schema_ok s" "fanout_evidence_tasks org_id aid product bcs names lookup states s = (m, s')"
  shows "fanout_evidence_tasks org_id aid product bcs names lookup states s' = (0, s')"
  by (rule fanout_again[OF assms])

theorem fanout_idempotent_witness:
  "\<exists>m s'. tenant_fanout tenant = (m, s') \<and> tenant_fanout s' = (0, s')"
proof -
  obtain m s' where run: "tenant_fanout tenant = (m, s')" by (cases "tenant_fanout tenant")
  from fanout_idempotent[OF example_schema(1) run[unfolded tenant_fanout_def]] run
  show ?thesis unfolding tenant_fanout_def by blast
qed

end
