(* ===== verification/Notifications.thy ===== *)
theory Notifications
  imports Date_Time
begin

section \<open>Notification rows\<close>

text \<open>
  Three tables record whether a person was told something: the reviewers of a review cycle
  (\<open>review_cycles.py\<close>), the recipients of the document digest
  (\<open>document_reviews.py\<close>) and of the Liongard digest (\<open>liongard_sync.py\<close>).
  Each has its own copy of \<open>record_notification_result\<close>; what the copies promise is
  the locale below, interpreted on each of them.
\<close>

text \<open>One attempt: when it was made, whether it was sent, and the error if it was not.\<close>

type_synonym attempt = "datetime \<times> bool \<times> string option"

text \<open>What the promise is: the instant of the first success, and the error of the last
  attempt.\<close>

fun first_reached :: "datetime option \<Rightarrow> attempt list \<Rightarrow> datetime option" where
  "first_reached at [] = at"
| "first_reached at ((now, sent, error) # as) =
     first_reached (if at = None \<and> sent then Some now else at) as"

fun last_error :: "string option \<Rightarrow> attempt list \<Rightarrow> string option" where
  "last_error err [] = err"
| "last_error err ((now, sent, error) # as) = last_error (if sent then None else error) as"

locale notification_row =
  fixes reached :: "'r \<Rightarrow> datetime option" and failure :: "'r \<Rightarrow> string option"
    and record_result :: "datetime \<Rightarrow> bool \<Rightarrow> string option \<Rightarrow> 'r \<Rightarrow> 'r"
  assumes reached_result:
      "reached (record_result now sent error r) =
         (if reached r = None \<and> sent then Some now else reached r)"
    and failure_result: "failure (record_result now sent error r) = (if sent then None else error)"
begin

definition attempts :: "attempt list \<Rightarrow> 'r \<Rightarrow> 'r" where
  "attempts as r = foldl (\<lambda>r (now, sent, error). record_result now sent error r) r as"

lemma attempts_simps [simp]:
  "attempts [] r = r"
  "attempts ((now, sent, error) # as) r = attempts as (record_result now sent error r)"
  by (simp_all add: attempts_def)

lemma reached_attempts: "reached (attempts as r) = first_reached (reached r) as"
  by (induction as arbitrary: r) (auto simp: reached_result)

lemma failure_attempts: "failure (attempts as r) = last_error (failure r) as"
  by (induction as arbitrary: r) (auto simp: failure_result)

lemma first_reached_Some: "first_reached (Some t) as = Some t"
  by (induction as) auto

lemma reached_stays: "reached r = Some t \<Longrightarrow> reached (attempts as r) = Some t"
  by (simp add: reached_attempts first_reached_Some)

lemma reached_iff:
  "reached (attempts as r) \<noteq> None \<longleftrightarrow> reached r \<noteq> None \<or> (\<exists>(now, sent, error) \<in> set as. sent)"
proof (induction as arbitrary: r)
  case (Cons a as)
  obtain now sent err where a: "a = (now, sent, err)" by (cases a)
  show ?case using Cons.IH[of "record_result now sent err r"] by (auto simp: a reached_result)
qed simp

end

lemma first_reached_filter:
  "first_reached None as = (case filter (\<lambda>(now, sent, error). sent) as of [] \<Rightarrow> None | a # _ \<Rightarrow> Some (fst a))"
proof (induction as)
  case (Cons a as)
  obtain now sent err where a: "a = (now, sent, err)" by (cases a)
  have "first_reached (Some t) bs = Some t" for t bs by (induction bs) auto
  then show ?case using Cons by (cases sent) (simp_all add: a)
qed simp

lemma last_error_snoc: "last_error err (as @ [(now, sent, error)]) = (if sent then None else error)"
  by (induction as arbitrary: err) auto

end
