(* ===== verification/Storage.thy ===== *)
theory Storage
  imports Text_Format "HOL-Library.Sublist"
begin

section \<open>Object storage and downloads\<close>

text \<open>
  \<open>backend/app/storage.py\<close>: the client of the object store, in its two configurations, and
  what a download is called. A filename is an upload's title, somebody else's text, and ends up in
  a header: the last part shows that a reader of the header gets it back, and nothing else.
\<close>

subsection \<open>The store\<close>

record stored_object =
  so_key :: string
  so_body :: string
  so_mime :: string

datatype storage_client = NullStorageClient | MinIOClient

fun is_configured :: "storage_client \<Rightarrow> bool" where
  "is_configured NullStorageClient = False"
| "is_configured MinIOClient = True"

text \<open>\<open>put_object\<close> replaces the object of the key.\<close>

fun upload_file ::
  "storage_client \<Rightarrow> string \<Rightarrow> string \<Rightarrow> string \<Rightarrow> stored_object list \<Rightarrow> stored_object list" where
  "upload_file NullStorageClient key data content_type objects = objects"
| "upload_file MinIOClient key data content_type objects =
     filter (\<lambda>ob. so_key ob \<noteq> key) objects @
       [\<lparr>so_key = key, so_body = data, so_mime = content_type\<rparr>]"

definition get_object :: "string \<Rightarrow> stored_object list \<Rightarrow> stored_object option" where
  "get_object key objects = find (\<lambda>ob. so_key ob = key) objects"

subsection \<open>Names\<close>

definition evidence_download_path :: "uuid \<Rightarrow> uuid \<Rightarrow> string" where
  "evidence_download_path org_id evidence_id =
     ''/orgs/'' @ uuid_text org_id @ ''/evidence/'' @ uuid_text evidence_id @ ''/download''"

definition download_filename :: "string \<Rightarrow> string \<Rightarrow> string" where
  "download_filename title ext =
     (if ext \<noteq> '''' \<and> \<not> suffix (py_lower ext) (py_lower title) then title @ ext else title)"

text \<open>\<open>str.replace\<close> of one character.\<close>

definition replace_char :: "char \<Rightarrow> string \<Rightarrow> string \<Rightarrow> string" where
  "replace_char a r s = concat (map (\<lambda>c. if c = a then r else [c]) s)"

definition utf8_char :: "char \<Rightarrow> string" where
  "utf8_char c = (let n = (of_char c :: nat)
     in if n < 128 then [c] else [char_of (192 + n div 64), char_of (128 + n mod 64)])"

definition utf8 :: "string \<Rightarrow> string" where
  "utf8 s = concat (map utf8_char s)"

text \<open>\<open>encode("ascii", "replace")\<close> and back.\<close>

definition ascii_replace :: "string \<Rightarrow> string" where
  "ascii_replace s = map (\<lambda>c. if (of_char c :: nat) < 128 then c else CHR ''?'') s"

definition unreserved :: "char \<Rightarrow> bool" where
  "unreserved c = (let n = (of_char c :: nat)
     in 65 \<le> n \<and> n \<le> 90 \<or> 97 \<le> n \<and> n \<le> 122 \<or> 48 \<le> n \<and> n \<le> 57 \<or>
        c \<in> {CHR ''_'', CHR ''.'', CHR ''-'', CHR ''~''})"

definition upper_hex :: "nat \<Rightarrow> char" where
  "upper_hex d = (if d < 10 then char_of (48 + d) else char_of (55 + d))"

definition quote_byte :: "char \<Rightarrow> string" where
  "quote_byte b = (let n = (of_char b :: nat)
     in if unreserved b then [b] else [CHR ''%'', upper_hex (n div 16), upper_hex (n mod 16)])"

definition quote :: "string \<Rightarrow> string" where
  "quote s = concat (map quote_byte (utf8 s))"

definition without_line_ends :: "string \<Rightarrow> string" where
  "without_line_ends s = replace_char (CHR 0x0A) '''' (replace_char (CHR 0x0D) '''' s)"

definition escape_quoted :: "string \<Rightarrow> string" where
  "escape_quoted s =
     replace_char (CHR 0x22) [CHR 0x5C, CHR 0x22] (replace_char (CHR 0x5C) [CHR 0x5C, CHR 0x5C] s)"

definition content_disposition :: "string \<Rightarrow> string" where
  "content_disposition filename =
     (let filename = without_line_ends filename
      in ''attachment; filename='' @ [CHR 0x22] @ escape_quoted (ascii_replace filename) @ [CHR 0x22] @
         ''; filename*=UTF-8'' @ [CHR 0x27, CHR 0x27] @ quote filename)"

subsection \<open>Reading the header\<close>

text \<open>A quoted string of RFC 6266, up to its closing quote, and what follows it.\<close>

fun read_quoted :: "string \<Rightarrow> (string \<times> string) option" where
  "read_quoted [] = None"
| "read_quoted (c # cs) =
     (if c = CHR 0x22 then Some ([], cs)
      else if c = CHR 0x5C then
        (case cs of [] \<Rightarrow> None | d # ds \<Rightarrow> map_option (\<lambda>(v, r). (d # v, r)) (read_quoted ds))
      else map_option (\<lambda>(v, r). (c # v, r)) (read_quoted cs))"

definition hex_value :: "char \<Rightarrow> nat option" where
  "hex_value c = (let n = (of_char c :: nat)
     in if 48 \<le> n \<and> n \<le> 57 then Some (n - 48) else if 65 \<le> n \<and> n \<le> 70 then Some (n - 55) else None)"

text \<open>The value of an extended parameter: percent-encoded bytes, and they as UTF-8.\<close>

fun read_percent :: "string \<Rightarrow> string option" where
  "read_percent [] = Some []"
| "read_percent (c # cs) =
     (if c = CHR ''%'' then
        (case cs of a # b # ds \<Rightarrow>
           (case (hex_value a, hex_value b) of
              (Some x, Some y) \<Rightarrow> map_option ((#) (char_of (16 * x + y))) (read_percent ds)
            | _ \<Rightarrow> None)
         | _ \<Rightarrow> None)
      else if unreserved c then map_option ((#) c) (read_percent cs)
      else None)"

fun read_utf8 :: "string \<Rightarrow> string option" where
  "read_utf8 [] = Some []"
| "read_utf8 (c # cs) = (let n = (of_char c :: nat)
     in if n < 128 then map_option ((#) c) (read_utf8 cs)
        else (case cs of [] \<Rightarrow> None | d # ds \<Rightarrow> let m = (of_char d :: nat)
          in if 194 \<le> n \<and> n < 196 \<and> 128 \<le> m \<and> m < 192
             then map_option ((#) (char_of (64 * (n - 192) + (m - 128)))) (read_utf8 ds) else None))"

definition after_prefix :: "string \<Rightarrow> string \<Rightarrow> string option" where
  "after_prefix p s = (if prefix p s then Some (drop (length p) s) else None)"

definition read_disposition :: "string \<Rightarrow> (string \<times> string) option" where
  "read_disposition h =
     (case after_prefix (''attachment; filename='' @ [CHR 0x22]) h of None \<Rightarrow> None | Some r1 \<Rightarrow>
      case read_quoted r1 of None \<Rightarrow> None | Some (fallback, r2) \<Rightarrow>
      case after_prefix (''; filename*=UTF-8'' @ [CHR 0x27, CHR 0x27]) r2 of None \<Rightarrow> None | Some r3 \<Rightarrow>
      case Option.bind (read_percent r3) read_utf8 of None \<Rightarrow> None | Some name \<Rightarrow> Some (fallback, name))"

lemma replace_char_simps [simp]:
  "replace_char a r [] = []"
  "replace_char a r (c # cs) = (if c = a then r else [c]) @ replace_char a r cs"
  by (simp_all add: replace_char_def)

lemma replace_char_append: "replace_char a r (s @ t) = replace_char a r s @ replace_char a r t"
  by (simp add: replace_char_def)

lemma after_prefix_append [simp]: "after_prefix p (p @ s) = Some s"
  by (simp add: after_prefix_def)

lemma escape_quoted_simps [simp]:
  "escape_quoted [] = []"
  "escape_quoted (c # cs) =
     (if c = CHR 0x22 \<or> c = CHR 0x5C then [CHR 0x5C, c] else [c]) @ escape_quoted cs"
  by (auto simp: escape_quoted_def)

lemma read_quoted_escaped: "read_quoted (escape_quoted s @ CHR 0x22 # r) = Some (s, r)"
  by (induction s) auto

lemma hex_value_upper: "d < 16 \<Longrightarrow> hex_value (upper_hex d) = Some d"
  by (auto simp: hex_value_def upper_hex_def Let_def of_char_of take_bit_eq_mod)

lemma read_percent_quoted: "read_percent (concat (map quote_byte bs)) = Some bs"
proof (induction bs)
  case (Cons b bs)
  have n: "(of_char b :: nat) < 256" by simp
  have "hex_value (upper_hex (of_char b div 16)) = Some (of_char b div 16)"
    "hex_value (upper_hex (of_char b mod 16)) = Some (of_char b mod 16)"
    using n less_mult_imp_div_less[of "of_char b" 16 16] by (simp_all add: hex_value_upper)
  moreover have "16 * (of_char b div 16) + of_char b mod 16 = (of_char b :: nat)" by simp
  moreover have "\<not> unreserved (CHR ''%'')" by (simp add: unreserved_def)
  ultimately show ?case using Cons by (auto simp: quote_byte_def Let_def)
qed simp

lemma read_utf8_encoded: "read_utf8 (utf8 s) = Some s"
proof (induction s)
  case (Cons c s)
  show ?case
  proof (cases "(of_char c :: nat) < 128")
    case True
    then show ?thesis using Cons by (simp add: utf8_def utf8_char_def)
  next
    case False
    let ?n = "of_char c :: nat"
    have n: "?n < 256" by simp
    have d: "?n div 64 < 4" "2 \<le> ?n div 64"
      using n less_mult_imp_div_less[of ?n 4 64] div_le_mono[of 128 ?n 64] False by simp_all
    have a: "(of_char (char_of (192 + ?n div 64) :: char) :: nat) = 192 + ?n div 64"
      using d by (simp add: of_char_of take_bit_eq_mod)
    have b: "(of_char (char_of (128 + ?n mod 64) :: char) :: nat) = 128 + ?n mod 64"
      by (simp add: of_char_of take_bit_eq_mod)
    have "64 * (?n div 64) + ?n mod 64 = ?n" by simp
    then show ?thesis using Cons False d by (simp add: utf8_def utf8_char_def Let_def a b)
  qed
qed (simp add: utf8_def)

lemma read_disposition_content: "read_disposition (content_disposition f) =
    Some (ascii_replace (without_line_ends f), without_line_ends f)"
proof -
  define g where "g = without_line_ends f"
  have h: "content_disposition f = (''attachment; filename='' @ [CHR 0x22]) @ (escape_quoted (ascii_replace g) @ CHR 0x22 #
      ((''; filename*=UTF-8'' @ [CHR 0x27, CHR 0x27]) @ quote g))"
    by (simp add: content_disposition_def g_def Let_def)
  have "Option.bind (read_percent (quote g)) read_utf8 = Some g"
    by (simp add: quote_def read_percent_quoted read_utf8_encoded)
  then show ?thesis
    unfolding h read_disposition_def by (simp only: after_prefix_append option.case read_quoted_escaped prod.case g_def)
qed

subsection \<open>No line ends\<close>

definition printable :: "char \<Rightarrow> bool" where
  "printable c \<longleftrightarrow> c \<noteq> CHR 0x0A \<and> c \<noteq> CHR 0x0D \<and> (of_char c :: nat) < 128"

lemma set_replace_char: "set (replace_char a r s) \<subseteq> (set s - {a}) \<union> set r"
  by (induction s) auto

lemma line_ends_gone: "CHR 0x0A \<notin> set (without_line_ends s)" "CHR 0x0D \<notin> set (without_line_ends s)"
  using set_replace_char[of "CHR 0x0A" "''''" "replace_char (CHR 0x0D) '''' s"] set_replace_char[of "CHR 0x0D" "''''" s]
  unfolding without_line_ends_def by auto

lemma set_escape_quoted: "set (escape_quoted s) \<subseteq> set s \<union> {CHR 0x5C}"
  by (induction s) auto

lemma quote_byte_printable: "c \<in> set (quote_byte b) \<Longrightarrow> printable c"
proof -
  have hex: "printable (upper_hex d)" if "d < 16" for d
  proof -
    have "(of_char (upper_hex d) :: nat) = (if d < 10 then 48 + d else 55 + d)"
      using that by (simp add: upper_hex_def of_char_of take_bit_eq_mod)
    then show ?thesis using that by (auto simp: printable_def split: if_splits)
  qed
  have n: "(of_char b :: nat) div 16 < 16" "(of_char b :: nat) mod 16 < 16"
    using less_mult_imp_div_less[of "of_char b" 16 16] by simp_all
  have u: "printable b" if "unreserved b" using that by (auto simp: printable_def unreserved_def Let_def)
  have p: "printable (CHR ''%'')" by (simp add: printable_def)
  show "c \<in> set (quote_byte b) \<Longrightarrow> printable c" using hex[OF n(1)] hex[OF n(2)] u p by (auto simp: quote_byte_def Let_def split: if_splits)
qed

lemma content_disposition_printable: "c \<in> set (content_disposition f) \<Longrightarrow> printable c"
proof -
  define g where "g = without_line_ends f"
  have "printable d" if "d \<in> set (ascii_replace g)" for d
    using that line_ends_gone[of f] by (auto simp: ascii_replace_def printable_def g_def)
  then have e: "printable d" if "d \<in> set (escape_quoted (ascii_replace g))" for d
    using that set_escape_quoted[of "ascii_replace g"] by (auto simp: printable_def)
  have q: "printable d" if "d \<in> set (quote g)" for d
    using that quote_byte_printable by (auto simp: quote_def)
  assume "c \<in> set (content_disposition f)"
  then have "c \<in> set (''attachment; filename='' @ [CHR 0x22]) \<or> c \<in> set (escape_quoted (ascii_replace g)) \<or>
      c \<in> set ([CHR 0x22] @ ''; filename*=UTF-8'' @ [CHR 0x27, CHR 0x27]) \<or> c \<in> set (quote g)"
    by (auto simp: content_disposition_def g_def Let_def)
  then show ?thesis using e q by (auto simp: printable_def)
qed

end
