(* ===== verification/Review_Cycles.thy ===== *)
theory Review_Cycles
  imports Evidence_Links Notifications Scope_Domain Storage
begin

section \<open>Review cycles\<close>

text \<open>
  \<open>backend/app/review_cycles.py\<close>: the periodic review of an organization's
  authorized users and devices. A cycle is opened with a snapshot of what is in scope and of who
  is asked; each reviewer attests or does not; the cycle closes when all have, or at its
  deadline, and every close writes a record, which is attached as evidence only when all
  attested. The tables of the review are next to the database of the engine in
  \<open>review_db\<close>. \<open>coll\<close> is the sort key PostgreSQL's collation gives
  a text.
\<close>

subsection \<open>Tables\<close>

datatype cycle_status = CycleOpen | CycleCompleted | ClosedUnattested | ClosedUndeliverable

fun cycle_status_value :: "cycle_status \<Rightarrow> string" where
  "cycle_status_value CycleOpen = ''open''"
| "cycle_status_value CycleCompleted = ''completed''"
| "cycle_status_value ClosedUnattested = ''closed_unattested''"
| "cycle_status_value ClosedUndeliverable = ''closed_undeliverable''"

datatype reviewer_status = Requested | Viewed | Attested | NoResponse | NotNotified

fun reviewer_status_value :: "reviewer_status \<Rightarrow> string" where
  "reviewer_status_value Requested = ''requested''"
| "reviewer_status_value Viewed = ''viewed''"
| "reviewer_status_value Attested = ''attested''"
| "reviewer_status_value NoResponse = ''no_response''"
| "reviewer_status_value NotNotified = ''not_notified''"

datatype subject_type = SubjectUser | SubjectDevice

fun subject_value :: "subject_type \<Rightarrow> string" where
  "subject_value SubjectUser = ''user''"
| "subject_value SubjectDevice = ''device''"

datatype reviewer_side = SideMsp | SideClient

fun side_value :: "reviewer_side \<Rightarrow> string" where
  "side_value SideMsp = ''msp''"
| "side_value SideClient = ''client''"

record user_account =
  us_id :: uuid
  us_email :: string
  us_display_name :: string
  us_is_active :: bool

record org_membership =
  om_user_id :: uuid
  om_org_id :: uuid
  om_role :: string

record review_cycle =
  rc_id :: uuid
  rc_org_id :: uuid
  rc_opened_at :: datetime
  rc_due_at :: datetime
  rc_closed_at :: "datetime option"
  rc_status :: cycle_status
  rc_cadence_months :: int
  rc_opened_by :: string

record review_item =
  ri_id :: uuid
  ri_cycle_id :: uuid
  ri_org_id :: uuid
  ri_subject :: subject_type
  ri_scope_entity_id :: "uuid option"
  ri_natural_key :: string
  ri_scope_category :: "string option"
  ri_attributes :: jdict

record reviewer =
  rr_id :: uuid
  rr_cycle_id :: uuid
  rr_org_id :: uuid
  rr_user_id :: "uuid option"
  rr_name :: string
  rr_email :: string
  rr_side :: reviewer_side
  rr_status :: reviewer_status
  rr_requested_at :: datetime
  rr_viewed_at :: "datetime option"
  rr_attested_at :: "datetime option"
  rr_comment :: "string option"
  rr_notified_at :: "datetime option"
  rr_notification_error :: "string option"

record reminder_log =
  rl_id :: uuid
  rl_cycle_id :: uuid
  rl_reviewer_id :: uuid
  rl_number :: nat

record review_flag =
  fl_id :: uuid
  fl_item_id :: uuid
  fl_org_id :: uuid
  fl_by_reviewer_id :: "uuid option"
  fl_by_name :: string
  fl_reason :: string
  fl_resolved_at :: "datetime option"
  fl_resolved_note :: "string option"

record review_db =
  rv_db :: db
  t_scope :: "scope_entity list"
  t_user :: "user_account list"
  t_membership :: "org_membership list"
  t_cycle :: "review_cycle list"
  t_item :: "review_item list"
  t_reviewer :: "reviewer list"
  t_reminder :: "reminder_log list"
  t_flag :: "review_flag list"
  storage :: "stored_object list"

datatype review_error =
    OrganizationNotFound | CycleAlreadyOpen | CycleNotFound | CannotAttest cycle_status
  | NotAReviewer | AlreadyAttested | ItemNotFound | FlagNotFound | FlagAlreadyResolved
  | DetachFailed link_error

definition ATTESTS :: cycle_status where "ATTESTS = CycleCompleted"
definition RESPONSE_WINDOW_DAYS :: nat where "RESPONSE_WINDOW_DAYS = 21"
definition REMINDER_DAYS :: "int list" where "REMINDER_DAYS = [7, 14]"
definition MAPPED_CONTROL_ID :: string where "MAPPED_CONTROL_ID = ''AC.L2-3.1.1''"
definition MAPPED_OBJECTIVE_KEYS :: "string list" where "MAPPED_OBJECTIVE_KEYS = [''a'', ''c'']"

text \<open>Deleting an entity or a user sets the references to it to null
  (\<open>ON DELETE SET NULL\<close>): what remains is as if the rows had not had them.\<close>

definition forget_entity :: "scope_entity list \<Rightarrow> review_item \<Rightarrow> review_item" where
  "forget_entity scope i =
     (if ri_scope_entity_id i \<in> Some ` se_id ` set scope then i else i\<lparr>ri_scope_entity_id := None\<rparr>)"

definition forget_user :: "user_account list \<Rightarrow> reviewer \<Rightarrow> reviewer" where
  "forget_user users r =
     (if rr_user_id r \<in> Some ` us_id ` set users then r else r\<lparr>rr_user_id := None\<rparr>)"

definition now_of :: "review_db \<Rightarrow> datetime" where
  "now_of s = clock (rv_db s)"

text \<open>The identifiers of \<open>n\<close> new rows are taken from the session.\<close>

definition take_ids :: "nat \<Rightarrow> review_db \<Rightarrow> review_db" where
  "take_ids n s = s\<lparr>rv_db := (rv_db s)\<lparr>next_id := next_id (rv_db s) + n\<rparr>\<rparr>"

definition new_id :: "review_db \<Rightarrow> uuid" where
  "new_id s = next_id (rv_db s)"

subsection \<open>Opening\<close>

definition in_review_scope :: "uuid \<Rightarrow> scope_entity \<Rightarrow> bool" where
  "in_review_scope org_id e \<longleftrightarrow>
     se_org_id e = org_id \<and> se_entity_type e \<in> {Person, Device} \<and>
     se_status e = EntityActive \<and> se_in_boundary e"

definition mk_item :: "uuid \<Rightarrow> uuid \<Rightarrow> uuid \<Rightarrow> scope_entity \<Rightarrow> review_item" where
  "mk_item cycle_id org_id i e =
     \<lparr>ri_id = i, ri_cycle_id = cycle_id, ri_org_id = org_id,
      ri_subject = (if se_entity_type e = Person then SubjectUser else SubjectDevice),
      ri_scope_entity_id = Some (se_id e), ri_natural_key = se_natural_key e,
      ri_scope_category = map_option scope_category_value (se_scope_category e), ri_attributes = se_attributes e\<rparr>"

definition snapshot_items :: "uuid \<Rightarrow> uuid \<Rightarrow> review_db \<Rightarrow> review_db" where
  "snapshot_items cycle_id org_id s =
     (let rows = filter (in_review_scope org_id) (t_scope s)
      in take_ids (length rows)
           (s\<lparr>t_item := t_item s @ insert_rows (mk_item cycle_id org_id) (new_id s) rows\<rparr>))"

text \<open>\<open>auth.org_reviewer_candidates\<close> (migration 0046): active users with a role in
  the organization, a customer's contact on the client's side and everyone else on the MSP's.\<close>

definition org_reviewer_candidates :: "uuid \<Rightarrow> review_db \<Rightarrow> (user_account \<times> reviewer_side) list" where
  "org_reviewer_candidates org_id s =
     map (\<lambda>(om, u). (u, if om_role om = ''customer_poc'' then SideClient else SideMsp))
       (filter (\<lambda>(om, u). us_is_active u)
         (join_on (\<lambda>om. tget us_id (om_user_id om) (t_user s))
           (filter (\<lambda>om. om_org_id om = org_id \<and>
              om_role om \<in> {''msp_admin'', ''msp_engineer'', ''consultant_admin'', ''customer_poc''})
             (t_membership s))))"

definition mk_reviewer :: "uuid \<Rightarrow> uuid \<Rightarrow> datetime \<Rightarrow> uuid \<Rightarrow> user_account \<times> reviewer_side \<Rightarrow> reviewer" where
  "mk_reviewer cycle_id org_id now i c =
     \<lparr>rr_id = i, rr_cycle_id = cycle_id, rr_org_id = org_id, rr_user_id = Some (us_id (fst c)),
      rr_name = us_display_name (fst c), rr_email = us_email (fst c), rr_side = snd c,
      rr_status = Requested, rr_requested_at = now, rr_viewed_at = None, rr_attested_at = None,
      rr_comment = None, rr_notified_at = None, rr_notification_error = None\<rparr>"

definition snapshot_reviewers :: "uuid \<Rightarrow> uuid \<Rightarrow> review_db \<Rightarrow> reviewer list \<times> review_db" where
  "snapshot_reviewers cycle_id org_id s =
     (let created = insert_rows (mk_reviewer cycle_id org_id (now_of s)) (new_id s)
                      (org_reviewer_candidates org_id s)
      in (created, take_ids (length created) (s\<lparr>t_reviewer := t_reviewer s @ created\<rparr>)))"

definition mk_cycle :: "organization \<Rightarrow> string \<Rightarrow> review_db \<Rightarrow> review_cycle" where
  "mk_cycle org opened_by s =
     \<lparr>rc_id = new_id s, rc_org_id = og_id org, rc_opened_at = now_of s,
      rc_due_at = plus_days (now_of s) RESPONSE_WINDOW_DAYS, rc_closed_at = None,
      rc_status = CycleOpen, rc_cadence_months = og_review_cadence_months org,
      rc_opened_by = opened_by\<rparr>"

definition open_cycle ::
  "uuid \<Rightarrow> string \<Rightarrow> review_db \<Rightarrow> review_error + (review_cycle \<times> reviewer list) \<times> review_db" where
  "open_cycle org_id opened_by s =
     (case tget og_id org_id (t_org (rv_db s)) of None \<Rightarrow> Inl OrganizationNotFound | Some org \<Rightarrow>
        if list_ex (\<lambda>c. rc_org_id c = org_id \<and> rc_status c = CycleOpen) (t_cycle s)
        then Inl CycleAlreadyOpen
        else
          let cycle = mk_cycle org opened_by s;
              s1 = take_ids 1 (s\<lparr>t_cycle := t_cycle s @ [cycle]\<rparr>);
              s2 = snapshot_items (rc_id cycle) org_id s1;
              (reviewers, s3) = snapshot_reviewers (rc_id cycle) org_id s2
          in Inr ((cycle, reviewers), s3))"

subsection \<open>A reviewer's answer\<close>

definition update_reviewer :: "uuid \<Rightarrow> (reviewer \<Rightarrow> reviewer) \<Rightarrow> review_db \<Rightarrow> review_db" where
  "update_reviewer i f s = s\<lparr>t_reviewer := tupd rr_id i f (t_reviewer s)\<rparr>"

text \<open>The reviewer row of a user on a cycle.\<close>

definition reviewer_of :: "uuid \<Rightarrow> uuid \<Rightarrow> uuid \<Rightarrow> review_db \<Rightarrow> reviewer option" where
  "reviewer_of org_id cycle_id user_id s =
     find (\<lambda>r. rr_cycle_id r = cycle_id \<and> rr_org_id r = org_id \<and> rr_user_id r = Some user_id) (t_reviewer s)"

definition record_view :: "uuid \<Rightarrow> uuid \<Rightarrow> uuid \<Rightarrow> review_db \<Rightarrow> review_db" where
  "record_view org_id cycle_id user_id s =
     (case reviewer_of org_id cycle_id user_id s of None \<Rightarrow> s | Some r \<Rightarrow>
        if rr_status r \<noteq> Requested then s
        else update_reviewer (rr_id r) (\<lambda>r. r\<lparr>rr_status := Viewed, rr_viewed_at := Some (now_of s)\<rparr>) s)"

definition attest_row :: "datetime \<Rightarrow> string option \<Rightarrow> reviewer \<Rightarrow> reviewer" where
  "attest_row now note r =
     r\<lparr>rr_status := Attested, rr_attested_at := Some now,
       rr_viewed_at := (if rr_viewed_at r = None then Some now else rr_viewed_at r),
       rr_comment := note\<rparr>"

subsection \<open>The record of a closed cycle\<close>

definition opt_text :: "string option \<Rightarrow> string" where
  "opt_text v = (case v of None \<Rightarrow> '''' | Some t \<Rightarrow> t)"

definition opt_time :: "datetime option \<Rightarrow> string" where
  "opt_time v = (case v of None \<Rightarrow> '''' | Some t \<Rightarrow> isoformat t)"

definition cell :: "string \<Rightarrow> string" where
  "cell t = ''<td>'' @ t @ ''</td>''"

definition item_row :: "review_item \<Rightarrow> string" where
  "item_row i =
     ''<tr>'' @ cell (html_escape (subject_value (ri_subject i))) @ cell (html_escape (ri_natural_key i)) @
     cell (html_escape (opt_text (ri_scope_category i))) @ ''</tr>''"

definition reviewer_row :: "reviewer \<Rightarrow> string" where
  "reviewer_row r =
     ''<tr>'' @ cell (html_escape (rr_name r)) @ cell (html_escape (rr_email r)) @
     cell (html_escape (side_value (rr_side r))) @
     cell (html_escape (reviewer_status_value (rr_status r))) @
     cell (isoformat (rr_requested_at r)) @ cell (opt_time (rr_notified_at r)) @
     cell (html_escape (opt_text (rr_notification_error r))) @
     cell (opt_time (rr_attested_at r)) @ cell (html_escape (opt_text (rr_comment r))) @ ''</tr>''"

fun outcome_text :: "cycle_status \<Rightarrow> string" where
  "outcome_text CycleCompleted = ''All reviewers attested.''"
| "outcome_text ClosedUnattested =
     ''Cycle closed at its due date without full attestation '' @
     ''-- see reviewer status below for who did and did not respond.''"
| "outcome_text ClosedUndeliverable =
     ''Cycle closed at its due date -- no reviewer could be '' @
     ''notified (see the Notification error column below), so no review was '' @
     ''actually attempted.''"
| "outcome_text CycleOpen = ''open''"

definition render_attestation_html :: "review_cycle \<Rightarrow> review_item list \<Rightarrow> reviewer list \<Rightarrow> string" where
  "render_attestation_html cycle items reviewers =
     ''<!DOCTYPE html><html><head><meta charset='utf-8'>'' @
     ''<style>body{font-family:sans-serif;font-size:13px}'' @
     ''table{border-collapse:collapse;width:100%;margin:1em 0}'' @
     ''th,td{border:1px solid #ccc;padding:4px 8px;text-align:left}</style>'' @
     ''</head><body>'' @
     ''<h1>Periodic Review of Authorized Users &amp; Devices</h1>'' @
     ''<p>Cycle opened '' @ isoformat (rc_opened_at cycle) @ '', due '' @ isoformat (rc_due_at cycle) @
     '', closed '' @ opt_time (rc_closed_at cycle) @ ''. '' @
     ''Review cadence: every '' @ str_int (rc_cadence_months cycle) @
     '' month(s) (organization-defined, '' @
     ''AC.L2-3.1.1[a]/[c]). Outcome: '' @ html_escape (outcome_text (rc_status cycle)) @ ''</p>'' @
     ''<h2>Items presented for review</h2>'' @
     ''<table><tr><th>Type</th><th>Identifier</th><th>Category</th></tr>'' @
     concat (map item_row items) @ ''</table>'' @
     ''<h2>Reviewers</h2>'' @
     ''<table><tr><th>Name</th><th>Email</th><th>Side</th><th>Status</th>'' @
     ''<th>Requested</th><th>Notified</th><th>Notification error</th>'' @
     ''<th>Attested</th><th>Comment</th></tr>'' @ concat (map reviewer_row reviewers) @ ''</table>'' @
     ''</body></html>''"

text \<open>The control states of the two mapped objectives in the organization's assessments in
  progress.\<close>

definition mapped_control_states :: "uuid \<Rightarrow> db \<Rightarrow> control_state list" where
  "mapped_control_states org_id s =
     (let objective_ids = map (\<lambda>(ob, c). ob_id ob)
            (filter (\<lambda>(ob, c). c_control_id c = MAPPED_CONTROL_ID \<and> ob_key ob \<in> set MAPPED_OBJECTIVE_KEYS)
              (join_on (\<lambda>ob. get_control (ob_control_id ob) s) (t_objective s)));
          assessment_ids = map a_id (filter (\<lambda>a. a_org_id a = org_id \<and> a_status a = InProgress) (t_assessment s))
      in filter (\<lambda>cs. cs_assessment_id cs \<in> set assessment_ids \<and> cs_objective_id cs \<in> set objective_ids)
           (t_cstate s))"

definition mk_link :: "uuid \<Rightarrow> uuid \<Rightarrow> control_state \<Rightarrow> state_link" where
  "mk_link evidence_id i cs = new_link i evidence_id (cs_id cs)"

definition attach_record :: "uuid \<Rightarrow> uuid \<Rightarrow> db \<Rightarrow> db" where
  "attach_record org_id evidence_id s =
     (let states = mapped_control_states org_id s
      in s\<lparr>next_id := next_id s + length states,
           t_link := t_link s @ insert_rows (mk_link evidence_id) (next_id s) states\<rparr>)"

subsection \<open>Closing\<close>

definition close_reviewer :: "reviewer \<Rightarrow> reviewer" where
  "close_reviewer r =
     (if rr_status r \<in> {Requested, Viewed}
      then r\<lparr>rr_status := (if rr_notified_at r \<noteq> None then NoResponse else NotNotified)\<rparr>
      else r)"

text \<open>\<open>ORDER BY\<close> three columns, the last the primary key: sorting by them in turn,
  the sort being stable.\<close>

definition cycle_reviewers :: "(string \<Rightarrow> nat list) \<Rightarrow> uuid \<Rightarrow> review_db \<Rightarrow> reviewer list" where
  "cycle_reviewers coll cycle_id s =
     sort_key (\<lambda>r. coll (side_value (rr_side r))) (sort_key (\<lambda>r. coll (rr_name r))
       (sort_key rr_id (filter (\<lambda>r. rr_cycle_id r = cycle_id) (t_reviewer s))))"

definition cycle_items :: "(string \<Rightarrow> nat list) \<Rightarrow> uuid \<Rightarrow> review_db \<Rightarrow> review_item list" where
  "cycle_items coll cycle_id s =
     sort_key (\<lambda>i. coll (subject_value (ri_subject i))) (sort_key (\<lambda>i. coll (ri_natural_key i))
       (sort_key ri_id (filter (\<lambda>i. ri_cycle_id i = cycle_id) (t_item s))))"

definition update_cycle :: "uuid \<Rightarrow> (review_cycle \<Rightarrow> review_cycle) \<Rightarrow> review_db \<Rightarrow> review_db" where
  "update_cycle i f s = s\<lparr>t_cycle := tupd rc_id i f (t_cycle s)\<rparr>"

definition closing_status :: "cycle_status \<Rightarrow> reviewer list \<Rightarrow> cycle_status" where
  "closing_status status reviewers =
     (if status = ClosedUnattested \<and> list_all (\<lambda>r. rr_notified_at r = None) reviewers
      then ClosedUndeliverable else status)"

definition close_row :: "cycle_status \<Rightarrow> datetime \<Rightarrow> review_cycle \<Rightarrow> review_cycle" where
  "close_row status now c = c\<lparr>rc_status := status, rc_closed_at := Some now\<rparr>"

definition cycle_record :: "review_cycle \<Rightarrow> string \<Rightarrow> uuid \<Rightarrow> datetime \<Rightarrow> evidence" where
  "cycle_record cycle body i now =
     \<lparr>ev_id = i, ev_org_id = rc_org_id cycle,
      ev_title = ''Periodic user/device review -- '' @ iso_date (rc_opened_at cycle),
      ev_description = Some (''Attestation record for the review cycle opened '' @
        iso_date (rc_opened_at cycle) @ '' ('' @ cycle_status_value (rc_status cycle) @ '').''),
      ev_kind = ''file'', ev_artifact_type = ''attestation'',
      ev_storage_key = Some (uuid_text (rc_org_id cycle) @ ''/evidence/'' @ uuid_text i @ ''/'' @ uuid_text i @ ''.html''),
      ev_mime_type = Some ''text/html'', ev_file_size = Some (encoded_length body),
      ev_collected_at = now, ev_source_document_version = None, ev_source_list_version = None,
      ev_source_review_cycle = Some (rc_id cycle)\<rparr>"

text \<open>\<open>storage.upload_file\<close>, then the row that names the key.\<close>

definition store_record :: "evidence \<Rightarrow> string \<Rightarrow> review_db \<Rightarrow> review_db" where
  "store_record ev body s =
     take_ids 1 (s\<lparr>storage := storage s @ [\<lparr>so_key = opt_text (ev_storage_key ev), so_body = body, so_mime = ''text/html''\<rparr>],
       rv_db := (rv_db s)\<lparr>t_evidence := t_evidence (rv_db s) @ [ev]\<rparr>\<rparr>)"

definition close_cycle ::
  "(string \<Rightarrow> nat list) \<Rightarrow> review_cycle \<Rightarrow> cycle_status \<Rightarrow> review_db \<Rightarrow> evidence \<times> review_db" where
  "close_cycle coll cycle status s =
     (let now = now_of s;
          reviewers = map close_reviewer (cycle_reviewers coll (rc_id cycle) s);
          s1 = s\<lparr>t_reviewer := map (\<lambda>r. if rr_cycle_id r = rc_id cycle then close_reviewer r else r) (t_reviewer s)\<rparr>;
          status1 = closing_status status reviewers;
          items = cycle_items coll (rc_id cycle) s1;
          cycle1 = close_row status1 now cycle;
          s2 = update_cycle (rc_id cycle) (close_row status1 now) s1;
          body = render_attestation_html cycle1 items reviewers;
          ev = cycle_record cycle1 body (new_id s2) now;
          s3 = store_record ev body s2
      in (ev, if status1 = ATTESTS
              then s3\<lparr>rv_db := attach_record (rc_org_id cycle) (ev_id ev) (rv_db s3)\<rparr> else s3))"

definition attest ::
  "(string \<Rightarrow> nat list) \<Rightarrow> uuid \<Rightarrow> uuid \<Rightarrow> uuid \<Rightarrow> string option \<Rightarrow> review_db
     \<Rightarrow> review_error + reviewer \<times> review_db" where
  "attest coll org_id cycle_id user_id note s =
     (case tget rc_id cycle_id (t_cycle s) of None \<Rightarrow> Inl CycleNotFound | Some cycle \<Rightarrow>
        if rc_org_id cycle \<noteq> org_id then Inl CycleNotFound
        else if rc_status cycle \<noteq> CycleOpen then Inl (CannotAttest (rc_status cycle))
        else
          (case reviewer_of org_id cycle_id user_id s of None \<Rightarrow> Inl NotAReviewer | Some r \<Rightarrow>
             if rr_status r = Attested then Inl AlreadyAttested
             else
               let r1 = attest_row (now_of s) note r;
                   s1 = update_reviewer (rr_id r) (attest_row (now_of s) note) s
               in Inr (r1,
                    if list_all (\<lambda>r. rr_cycle_id r = cycle_id \<longrightarrow> rr_status r = Attested) (t_reviewer s1)
                    then snd (close_cycle coll cycle CycleCompleted s1) else s1)))"

subsection \<open>Flags\<close>

definition flag_item ::
  "uuid \<Rightarrow> uuid \<Rightarrow> uuid option \<Rightarrow> string \<Rightarrow> string \<Rightarrow> review_db \<Rightarrow> review_error + review_flag \<times> review_db" where
  "flag_item org_id item_id reviewer_id by_name reason s =
     (case tget ri_id item_id (t_item s) of None \<Rightarrow> Inl ItemNotFound | Some item \<Rightarrow>
        if ri_org_id item \<noteq> org_id then Inl ItemNotFound
        else
          let flag = \<lparr>fl_id = new_id s, fl_item_id = item_id, fl_org_id = org_id,
                fl_by_reviewer_id = reviewer_id, fl_by_name = by_name, fl_reason = reason,
                fl_resolved_at = None, fl_resolved_note = None\<rparr>
          in Inr (flag, take_ids 1 (s\<lparr>t_flag := t_flag s @ [flag]\<rparr>)))"

definition resolve_row :: "datetime \<Rightarrow> string \<Rightarrow> review_flag \<Rightarrow> review_flag" where
  "resolve_row now note f = f\<lparr>fl_resolved_at := Some now, fl_resolved_note := Some note\<rparr>"

definition resolve_flag :: "uuid \<Rightarrow> uuid \<Rightarrow> string \<Rightarrow> review_db \<Rightarrow> review_error + review_flag \<times> review_db" where
  "resolve_flag org_id flag_id note s =
     (case tget fl_id flag_id (t_flag s) of None \<Rightarrow> Inl FlagNotFound | Some flag \<Rightarrow>
        if fl_org_id flag \<noteq> org_id then Inl FlagNotFound
        else if fl_resolved_at flag \<noteq> None then Inl FlagAlreadyResolved
        else Inr (resolve_row (now_of s) note flag,
               s\<lparr>t_flag := tupd fl_id flag_id (resolve_row (now_of s) note) (t_flag s)\<rparr>))"

subsection \<open>Records attached before only what attests was attached\<close>

definition DETACH_REASON :: string where
  "DETACH_REASON =
     ''the review cycle closed without attestation: its record says no review '' @
     ''happened, so it does not satisfy this objective (only what attests is attached)''"

text \<open>The rows of the query's joins: the link, its artifact's cycle, and where its control
  state is. The final \<open>ORDER BY\<close> only orders the report.\<close>

definition unattested_links :: "uuid \<Rightarrow> review_db \<Rightarrow> (state_link \<times> review_cycle) list" where
  "unattested_links org_id s =
     join_on (\<lambda>l. case get_evidence (ln_evidence_id l) (rv_db s) of None \<Rightarrow> None | Some ev \<Rightarrow>
         case ev_source_review_cycle ev of None \<Rightarrow> None | Some cycle_id \<Rightarrow>
         case tget rc_id cycle_id (t_cycle s) of None \<Rightarrow> None | Some c \<Rightarrow>
           if ev_org_id ev = org_id \<and> rc_status c \<noteq> ATTESTS \<and> link_where (ln_state_id l) (rv_db s) \<noteq> None
           then Some c else None)
       (filter (\<lambda>l. \<not> ln_is_archived l \<or> ln_archived_by_product l \<noteq> None) (t_link (rv_db s)))"

definition detach_one :: "uuid \<Rightarrow> string \<Rightarrow> state_link \<times> review_cycle \<Rightarrow> db \<Rightarrow> link_error + db" where
  "detach_one org_id actor f s =
     (case f of (l, c) \<Rightarrow>
        detach org_id l (Some actor) ATTESTATION_DETACH ''evidence.attestation_detach''
          [(''reason'', JStr DETACH_REASON), (''review_cycle_id'', JUuid (rc_id c)),
           (''cycle_status'', JStr (cycle_status_value (rc_status c)))]
          (Some actor) (Some ''system'') s)"

definition detach_unattested ::
  "uuid \<Rightarrow> string \<Rightarrow> review_db \<Rightarrow> review_error + (state_link \<times> review_cycle) list \<times> review_db" where
  "detach_unattested org_id actor s =
     (let found = unattested_links org_id s
      in case foldres (detach_one org_id actor) found (rv_db s) of
           Inl e \<Rightarrow> Inl (DetachFailed e)
         | Inr u \<Rightarrow> Inr (found, s\<lparr>rv_db := u\<rparr>))"

subsection \<open>Telling reviewers\<close>

definition record_notification_result :: "datetime \<Rightarrow> bool \<Rightarrow> string option \<Rightarrow> reviewer \<Rightarrow> reviewer" where
  "record_notification_result now sent error r =
     (if sent
      then (if rr_notified_at r = None then r\<lparr>rr_notified_at := Some now\<rparr> else r)
             \<lparr>rr_notification_error := None\<rparr>
      else r\<lparr>rr_notification_error := error\<rparr>)"

text \<open>The loop over \<open>enumerate(REMINDER_DAYS, start=1)\<close>.\<close>

definition due_reminder_number :: "datetime \<Rightarrow> nat list \<Rightarrow> reviewer \<Rightarrow> nat option" where
  "due_reminder_number now already_sent r =
     (case rr_notified_at r of None \<Rightarrow> None | Some notified \<Rightarrow>
        if rr_status r = Attested then None
        else map_option fst (find (\<lambda>(number, threshold).
            threshold \<le> days_between now notified \<and> number \<notin> set already_sent)
          (enumerate 1 REMINDER_DAYS)))"

definition record_reminder_sent :: "uuid \<Rightarrow> uuid \<Rightarrow> nat \<Rightarrow> review_db \<Rightarrow> review_db" where
  "record_reminder_sent cycle_id reviewer_id number s =
     take_ids 1 (s\<lparr>t_reminder := t_reminder s @
       [\<lparr>rl_id = new_id s, rl_cycle_id = cycle_id, rl_reviewer_id = reviewer_id, rl_number = number\<rparr>]\<rparr>)"

end
