(* ===== verification/Review_Jobs.thy ===== *)
theory Review_Jobs
  imports Review_Cycles
begin

section \<open>The jobs and the requests of a review\<close>

text \<open>
  The callers of \<open>review_cycles.py\<close>: the daily jobs of
  \<open>scheduler.py\<close> that open due cycles, tell reviewers, remind them and close cycles at
  their deadline, and the handlers of \<open>routers/review_cycles.py\<close>. Sending an email is
  \<open>send\<close>, the answer of the mail server to a message and the how-manyeth it is to that
  person; the deployment's public address is \<open>public_url\<close>.
\<close>

record email =
  em_to :: string
  em_subject :: string
  em_body :: string
  em_template :: string

record email_result =
  er_sent :: bool
  er_error :: "string option"

type_synonym mailer = "email \<Rightarrow> nat \<Rightarrow> email_result"

definition newline :: string where "newline = [CHR 0x0A]"

definition REVIEW_REQUEST_SUBJECT :: string where
  "REVIEW_REQUEST_SUBJECT = ''Review needed: authorized users & devices''"

definition REVIEW_REQUEST_BODY :: "string \<Rightarrow> string" where
  "REVIEW_REQUEST_BODY link =
     ''A periodic review of authorized users and devices is awaiting your '' @
     ''review in WinGRC.'' @ newline @ newline @ ''Sign in to review: '' @ link @ newline"

definition REVIEW_REMINDER_SUBJECT :: string where
  "REVIEW_REMINDER_SUBJECT = ''Reminder: review needed in WinGRC''"

definition REVIEW_REMINDER_BODY :: "string \<Rightarrow> string" where
  "REVIEW_REMINDER_BODY link =
     ''This is a reminder that a periodic review is still awaiting your '' @
     ''attention in WinGRC.'' @ newline @ newline @ ''Sign in to review: '' @ link @ newline"

subsection \<open>One notification\<close>

definition review_link_or_error :: "string option \<Rightarrow> string + string" where
  "review_link_or_error public_url =
     (let url = py_strip (opt_text public_url)
      in if url = '''' then Inl ''Email link cannot be built: WINGRC_PUBLIC_URL is not configured.''
         else Inr (rev (dropWhile (\<lambda>c. c = CHR ''/'') (rev url))))"

definition notify_reviewer ::
  "string option \<Rightarrow> mailer \<Rightarrow> nat \<Rightarrow> string \<Rightarrow> (string \<Rightarrow> string) \<Rightarrow> string \<Rightarrow> reviewer \<Rightarrow> review_db
     \<Rightarrow> bool \<times> review_db" where
  "notify_reviewer public_url send n subject body template r s =
     (case review_link_or_error public_url of
        Inl e \<Rightarrow> (False, update_reviewer (rr_id r) (record_notification_result (now_of s) False (Some e)) s)
      | Inr link \<Rightarrow>
          let result = send \<lparr>em_to = rr_email r, em_subject = subject, em_body = body link,
                             em_template = template\<rparr> n
          in (er_sent result,
              update_reviewer (rr_id r) (record_notification_result (now_of s) (er_sent result) (er_error result)) s))"

definition request_review :: "string option \<Rightarrow> mailer \<Rightarrow> reviewer \<Rightarrow> review_db \<Rightarrow> bool \<times> review_db" where
  "request_review public_url send r s =
     notify_reviewer public_url send 0 REVIEW_REQUEST_SUBJECT REVIEW_REQUEST_BODY ''review_cycle_request'' r s"

subsection \<open>\<open>_review_cycle_open\<close>\<close>

text \<open>\<open>auth.orgs_due_for_review_cycle_open\<close> (migration 0046): no open cycle, and none
  ever or the last one opened at least the organization's cadence ago.\<close>

definition last_opened :: "uuid \<Rightarrow> review_db \<Rightarrow> datetime option" where
  "last_opened org_id s =
     (case map rc_opened_at (filter (\<lambda>c. rc_org_id c = org_id) (t_cycle s)) of
        [] \<Rightarrow> None | t # ts \<Rightarrow> Some (fold max ts t))"

definition has_open_cycle :: "uuid \<Rightarrow> review_db \<Rightarrow> bool" where
  "has_open_cycle org_id s \<longleftrightarrow> list_ex (\<lambda>c. rc_org_id c = org_id \<and> rc_status c = CycleOpen) (t_cycle s)"

definition orgs_due_for_review_cycle_open :: "review_db \<Rightarrow> uuid list" where
  "orgs_due_for_review_cycle_open s =
     map og_id (filter (\<lambda>org. \<not> has_open_cycle (og_id org) s \<and>
         (case last_opened (og_id org) s of None \<Rightarrow> True
          | Some t \<Rightarrow> t \<le> add_months (now_of s) (- og_review_cadence_months org)))
       (t_org (rv_db s)))"

definition log_review ::
  "string option \<Rightarrow> string option \<Rightarrow> uuid \<Rightarrow> string \<Rightarrow> string \<Rightarrow> uuid \<Rightarrow> jdict \<Rightarrow> string \<Rightarrow> review_db \<Rightarrow> review_db" where
  "log_review actor actor_type org_id action entity_type entity_id after via s =
     s\<lparr>rv_db := log_event_as actor actor_type (Some org_id) action entity_type entity_id None (Some after)
         (Some [(''via'', JStr via)]) (rv_db s)\<rparr>"

abbreviation log_job :: "uuid \<Rightarrow> string \<Rightarrow> uuid \<Rightarrow> jdict \<Rightarrow> review_db \<Rightarrow> review_db" where
  "log_job org_id action entity_id after \<equiv>
     log_review (Some ''system'') (Some ''system'') org_id action ''review_cycle'' entity_id after ''scheduler''"

definition opened_json :: "review_cycle \<Rightarrow> reviewer list \<Rightarrow> jdict" where
  "opened_json cycle reviewers =
     [(''reviewer_count'', JInt (int (length reviewers))), (''due_at'', JStr (isoformat (rc_due_at cycle)))]"

definition open_due :: "string option \<Rightarrow> mailer \<Rightarrow> uuid \<Rightarrow> review_db \<Rightarrow> review_error + review_db" where
  "open_due public_url send org_id s =
     (case open_cycle org_id ''scheduler'' s of Inl e \<Rightarrow> Inl e | Inr ((cycle, reviewers), s1) \<Rightarrow>
        Inr (foldl (\<lambda>s r. snd (request_review public_url send r s))
               (log_job org_id ''review_cycle.open'' (rc_id cycle) (opened_json cycle reviewers) s1) reviewers))"

definition review_cycle_open :: "string option \<Rightarrow> mailer \<Rightarrow> review_db \<Rightarrow> review_error + review_db" where
  "review_cycle_open public_url send s =
     foldres (open_due public_url send) (orgs_due_for_review_cycle_open s) s"

subsection \<open>\<open>_review_cycle_sweep\<close>\<close>

definition review_cycles_due_for_sweep :: "review_db \<Rightarrow> (uuid \<times> uuid) list" where
  "review_cycles_due_for_sweep s =
     map (\<lambda>c. (rc_id c, rc_org_id c)) (filter (\<lambda>c. rc_status c = CycleOpen) (t_cycle s))"

text \<open>The \<open>while True\<close> of the reminders due to one reviewer. It ends because each
  turn that goes on has added a number of \<open>REMINDER_DAYS\<close> to those sent.\<close>

definition numbers_left :: "nat list \<Rightarrow> nat list" where
  "numbers_left already = filter (\<lambda>k. k \<notin> set already) (map fst (enumerate 1 REMINDER_DAYS))"

lemma due_reminder_number_left:
  "due_reminder_number now already r = Some k \<Longrightarrow> k \<in> set (numbers_left already)"
  by (auto simp: due_reminder_number_def numbers_left_def REMINDER_DAYS_def
      split: option.splits if_splits)

lemma numbers_left_decrease:
  assumes "k \<in> set (numbers_left already)"
  shows "length (numbers_left (k # already)) < length (numbers_left already)"
proof -
  have "numbers_left (k # already) = filter (\<lambda>j. j \<noteq> k) (numbers_left already)"
    unfolding numbers_left_def filter_filter by (rule filter_cong) auto
  moreover have "length (filter (\<lambda>j. j \<noteq> k) (numbers_left already)) < length (numbers_left already)"
    by (rule length_filter_less[OF assms]) simp
  ultimately show ?thesis by (simp only:)
qed

function remind ::
  "string option \<Rightarrow> mailer \<Rightarrow> datetime \<Rightarrow> uuid \<Rightarrow> reviewer \<Rightarrow> nat list \<Rightarrow> nat \<times> review_db \<Rightarrow> nat \<times> review_db" where
  "remind public_url send now cycle_id r already (n, s) =
     (case due_reminder_number now already r of None \<Rightarrow> (n, s) | Some number \<Rightarrow>
        let (sent, s1) = notify_reviewer public_url send number REVIEW_REMINDER_SUBJECT REVIEW_REMINDER_BODY
              ''review_cycle_reminder'' r s
        in if \<not> sent then (n, s1)
           else remind public_url send now cycle_id r (number # already)
                  (Suc n, record_reminder_sent cycle_id (rr_id r) number s1))"
  by pat_completeness auto
termination
  by (relation "measure (\<lambda>(_, _, _, _, _, already, _). length (numbers_left already))")
    (auto dest!: due_reminder_number_left intro: numbers_left_decrease)

declare remind.simps [simp del]

text \<open>What a sweep counts: reminders, first notifications, closed cycles.\<close>

type_synonym sweep_counts = "nat \<times> nat \<times> nat"

definition sweep_reviewer ::
  "string option \<Rightarrow> mailer \<Rightarrow> uuid \<Rightarrow> sweep_counts \<times> review_db \<Rightarrow> reviewer \<Rightarrow> sweep_counts \<times> review_db" where
  "sweep_reviewer public_url send cycle_id acc r =
     (case acc of ((reminders, notifications, closed), s) \<Rightarrow>
        if rr_notified_at r = None
        then let (sent, s1) = request_review public_url send r s
             in ((reminders, if sent then Suc notifications else notifications, closed), s1)
        else
          let already = map rl_number (filter (\<lambda>l. rl_reviewer_id l = rr_id r) (t_reminder s));
              (reminders1, s1) = remind public_url send (now_of s) cycle_id r already (reminders, s)
          in ((reminders1, notifications, closed), s1))"

definition closed_json :: "reviewer list \<Rightarrow> jdict" where
  "closed_json reviewers =
     [(''no_response'', JInt (int (length (filter (\<lambda>r. rr_status r = NoResponse) reviewers)))),
      (''not_notified'', JInt (int (length (filter (\<lambda>r. rr_status r = NotNotified) reviewers))))]"

definition sweep_cycle ::
  "string option \<Rightarrow> mailer \<Rightarrow> (string \<Rightarrow> nat list) \<Rightarrow> uuid \<times> uuid \<Rightarrow> sweep_counts \<times> review_db
     \<Rightarrow> review_error + sweep_counts \<times> review_db" where
  "sweep_cycle public_url send coll due acc =
     (case (due, acc) of ((cycle_id, org_id), ((reminders, notifications, closed), s)) \<Rightarrow>
      case tget rc_id cycle_id (t_cycle s) of None \<Rightarrow> Inl CycleNotFound | Some cycle \<Rightarrow>
        let reviewers = filter (\<lambda>r. rr_cycle_id r = cycle_id) (t_reviewer s)
        in if rc_due_at cycle \<le> now_of s
           then
             let s1 = snd (close_cycle coll cycle ClosedUnattested s);
                 status = closing_status ClosedUnattested reviewers
             in Inr ((reminders, notifications, Suc closed),
                  log_job org_id (''review_cycle.'' @ cycle_status_value status) cycle_id
                    (closed_json (map close_reviewer reviewers)) s1)
           else Inr (foldl (sweep_reviewer public_url send cycle_id) acc reviewers))"

definition review_cycle_sweep ::
  "string option \<Rightarrow> mailer \<Rightarrow> (string \<Rightarrow> nat list) \<Rightarrow> review_db \<Rightarrow> review_error + sweep_counts \<times> review_db" where
  "review_cycle_sweep public_url send coll s =
     foldres (sweep_cycle public_url send coll) (review_cycles_due_for_sweep s) ((0, 0, 0), s)"

subsection \<open>The handlers\<close>

text \<open>Each is one transaction, by the signed-in user \<open>user_id\<close>; that the user may act
  in the organization is checked before the handler runs.\<close>

abbreviation log_api :: "uuid \<Rightarrow> uuid \<Rightarrow> string \<Rightarrow> string \<Rightarrow> uuid \<Rightarrow> jdict \<Rightarrow> review_db \<Rightarrow> review_db" where
  "log_api user_id org_id action entity_type entity_id after \<equiv>
     log_review (Some (uuid_text user_id)) None org_id action entity_type entity_id after ''api''"

definition open_by_hand :: "uuid \<Rightarrow> uuid \<Rightarrow> review_db \<Rightarrow> review_error + review_db" where
  "open_by_hand org_id user_id s =
     (case open_cycle org_id (uuid_text user_id) s of Inl e \<Rightarrow> Inl e | Inr ((cycle, reviewers), s1) \<Rightarrow>
        Inr (log_api user_id org_id ''review_cycle.open'' ''review_cycle'' (rc_id cycle)
              (opened_json cycle reviewers) s1))"

definition get_cycle :: "uuid \<Rightarrow> uuid \<Rightarrow> uuid \<Rightarrow> review_db \<Rightarrow> review_error + review_db" where
  "get_cycle org_id cycle_id user_id s =
     (case tget rc_id cycle_id (t_cycle s) of None \<Rightarrow> Inl CycleNotFound | Some cycle \<Rightarrow>
        if rc_org_id cycle \<noteq> org_id then Inl CycleNotFound
        else Inr (record_view org_id cycle_id user_id s))"

definition attest_cycle ::
  "(string \<Rightarrow> nat list) \<Rightarrow> uuid \<Rightarrow> uuid \<Rightarrow> uuid \<Rightarrow> string option \<Rightarrow> review_db \<Rightarrow> review_error + review_db" where
  "attest_cycle coll org_id cycle_id user_id note s =
     (case attest coll org_id cycle_id user_id note s of Inl e \<Rightarrow> Inl e | Inr (r, s1) \<Rightarrow>
        Inr (log_api user_id org_id ''review_cycle.attest'' ''review_cycle'' cycle_id
              [(''reviewer_id'', JUuid (rr_id r)), (''reviewer_side'', JStr (side_value (rr_side r)))] s1))"

definition flag_request ::
  "uuid \<Rightarrow> uuid \<Rightarrow> uuid \<Rightarrow> uuid \<Rightarrow> string \<Rightarrow> string \<Rightarrow> review_db \<Rightarrow> review_error + review_db" where
  "flag_request org_id cycle_id item_id user_id display_name reason s =
     (let by = find (\<lambda>r. rr_cycle_id r = cycle_id \<and> rr_user_id r = Some user_id) (t_reviewer s)
      in case flag_item org_id item_id (map_option rr_id by) display_name reason s of
           Inl e \<Rightarrow> Inl e
         | Inr (flag, s1) \<Rightarrow>
             Inr (log_api user_id org_id ''review_cycle.flag'' ''review_cycle_item'' item_id
                   [(''reason'', JStr reason)] s1))"

definition resolve_request :: "uuid \<Rightarrow> uuid \<Rightarrow> uuid \<Rightarrow> string \<Rightarrow> review_db \<Rightarrow> review_error + review_db" where
  "resolve_request org_id flag_id user_id note s =
     (case resolve_flag org_id flag_id note s of Inl e \<Rightarrow> Inl e | Inr (flag, s1) \<Rightarrow>
        Inr (log_api user_id org_id ''review_cycle.flag_resolved'' ''review_cycle_flag'' (fl_id flag)
              [(''resolved_note'', JStr note)] s1))"

end
