(* ===== verification/Review_Facts.thy ===== *)
theory Review_Facts
  imports Review_Jobs Requests
begin

section \<open>The invariant of review cycles\<close>

text \<open>
  An organization has at most one open cycle. An open cycle's reviewers have been asked, have
  looked or have attested, and not all have attested; a closed cycle says truthfully how it ended
  and what each of its reviewers did, and has exactly one record. Every operation and job keeps
  this.
\<close>

subsection \<open>Copies of one rule\<close>

interpretation reviewer_row: notification_row rr_notified_at rr_notification_error record_notification_result
  by unfold_locales (simp_all add: record_notification_result_def)

subsection \<open>The invariant\<close>

definition reviewers_on :: "uuid \<Rightarrow> review_db \<Rightarrow> reviewer list" where
  "reviewers_on cycle_id s = filter (\<lambda>r. rr_cycle_id r = cycle_id) (t_reviewer s)"

definition truthful_answer :: "reviewer \<Rightarrow> bool" where
  "truthful_answer r \<longleftrightarrow>
     rr_status r = Attested \<or> rr_status r = NoResponse \<and> rr_notified_at r \<noteq> None \<or>
     rr_status r = NotNotified \<and> rr_notified_at r = None"

definition under_way :: "reviewer \<Rightarrow> bool" where
  "under_way r \<longleftrightarrow> rr_status r \<in> {Requested, Viewed, Attested}"

definition cycle_ok :: "review_cycle \<Rightarrow> reviewer list \<Rightarrow> bool" where
  "cycle_ok c rs \<longleftrightarrow> (rc_closed_at c = None \<longleftrightarrow> rc_status c = CycleOpen) \<and>
     (case rc_status c of
        CycleOpen \<Rightarrow> (\<forall>r \<in> set rs. under_way r) \<and> (rs = [] \<or> (\<exists>r \<in> set rs. rr_status r \<noteq> Attested))
      | CycleCompleted \<Rightarrow> \<forall>r \<in> set rs. rr_status r = Attested
      | ClosedUnattested \<Rightarrow> (\<forall>r \<in> set rs. truthful_answer r) \<and> (\<exists>r \<in> set rs. rr_notified_at r \<noteq> None)
      | ClosedUndeliverable \<Rightarrow> \<forall>r \<in> set rs. truthful_answer r \<and> rr_notified_at r = None)"

definition records_of :: "uuid \<Rightarrow> review_db \<Rightarrow> evidence list" where
  "records_of cycle_id s = filter (\<lambda>e. ev_source_review_cycle e = Some cycle_id) (t_evidence (rv_db s))"

definition record_count_ok :: "review_db \<Rightarrow> review_cycle \<Rightarrow> bool" where
  "record_count_ok s c \<longleftrightarrow> length (records_of (rc_id c) s) = (if rc_status c = CycleOpen then 0 else 1)"

definition evidence_ok :: "db \<Rightarrow> bool" where
  "evidence_ok s \<longleftrightarrow> pk_ok ev_id (next_id s) (t_evidence s) \<and>
     ln_evidence_id ` set (t_link s) \<subseteq> ev_id ` set (t_evidence s)"

definition review_keys :: "review_db \<Rightarrow> bool" where
  "review_keys s \<longleftrightarrow>
     pk_ok rc_id (new_id s) (t_cycle s) \<and> pk_ok ri_id (new_id s) (t_item s) \<and>
     pk_ok rr_id (new_id s) (t_reviewer s) \<and> pk_ok fl_id (new_id s) (t_flag s) \<and>
     rr_cycle_id ` set (t_reviewer s) \<subseteq> rc_id ` set (t_cycle s) \<and>
     (\<forall>e \<in> set (t_evidence (rv_db s)). \<forall>i. ev_source_review_cycle e = Some i \<longrightarrow> i \<in> rc_id ` set (t_cycle s))"

definition one_open :: "review_db \<Rightarrow> bool" where
  "one_open s \<longleftrightarrow> distinct (map rc_org_id (filter (\<lambda>c. rc_status c = CycleOpen) (t_cycle s)))"

definition review_ok :: "review_db \<Rightarrow> bool" where
  "review_ok s \<longleftrightarrow> evidence_ok (rv_db s) \<and> review_keys s \<and> one_open s \<and>
     (\<forall>c \<in> set (t_cycle s). cycle_ok c (reviewers_on (rc_id c) s) \<and> record_count_ok s c)"

subsection \<open>What a step leaves alone\<close>

lemma take_ids_frame [simp]:
  "t_scope (take_ids n s) = t_scope s" "t_user (take_ids n s) = t_user s"
  "t_membership (take_ids n s) = t_membership s" "t_cycle (take_ids n s) = t_cycle s"
  "t_item (take_ids n s) = t_item s" "t_reviewer (take_ids n s) = t_reviewer s"
  "t_reminder (take_ids n s) = t_reminder s" "t_flag (take_ids n s) = t_flag s"
  "storage (take_ids n s) = storage s" "now_of (take_ids n s) = now_of s"
  "new_id (take_ids n s) = new_id s + n"
  "rv_db (take_ids n s) = (rv_db s)\<lparr>next_id := next_id (rv_db s) + n\<rparr>"
  by (simp_all add: take_ids_def now_of_def new_id_def)

lemma update_reviewer_frame [simp]:
  "t_scope (update_reviewer i f s) = t_scope s" "t_cycle (update_reviewer i f s) = t_cycle s"
  "t_item (update_reviewer i f s) = t_item s" "t_reminder (update_reviewer i f s) = t_reminder s"
  "t_flag (update_reviewer i f s) = t_flag s" "storage (update_reviewer i f s) = storage s"
  "now_of (update_reviewer i f s) = now_of s" "new_id (update_reviewer i f s) = new_id s"
  "rv_db (update_reviewer i f s) = rv_db s"
  "t_reviewer (update_reviewer i f s) = tupd rr_id i f (t_reviewer s)"
  "records_of c (update_reviewer i f s) = records_of c s"
  by (simp_all add: update_reviewer_def now_of_def new_id_def records_of_def)

text \<open>\<open>same_reviews s s'\<close>: nothing of the reviews changed but flags, reminders, stored
  objects and identifiers; the artifacts are the same and the links are of the same artifacts.\<close>

definition same_reviews :: "review_db \<Rightarrow> review_db \<Rightarrow> bool" where
  "same_reviews s s' \<longleftrightarrow>
     t_cycle s' = t_cycle s \<and> t_item s' = t_item s \<and> t_reviewer s' = t_reviewer s \<and>
     t_evidence (rv_db s') = t_evidence (rv_db s) \<and> new_id s \<le> new_id s' \<and>
     map ln_evidence_id (t_link (rv_db s')) = map ln_evidence_id (t_link (rv_db s)) \<and>
     pk_ok fl_id (new_id s') (t_flag s')"

lemma reviewers_on_cong: "t_reviewer s' = t_reviewer s \<Longrightarrow> reviewers_on c s' = reviewers_on c s"
  by (simp add: reviewers_on_def)

lemma review_ok_same:
  assumes ok: "review_ok s" and same: "same_reviews s s'"
  shows "review_ok s'"
proof -
  have eqs: "t_cycle s' = t_cycle s" "t_item s' = t_item s" "t_reviewer s' = t_reviewer s"
    "t_evidence (rv_db s') = t_evidence (rv_db s)" "new_id s \<le> new_id s'" "pk_ok fl_id (new_id s') (t_flag s')"
    and ln: "map ln_evidence_id (t_link (rv_db s')) = map ln_evidence_id (t_link (rv_db s))"
    using same by (simp_all add: same_reviews_def)
  have "ln_evidence_id ` set (t_link (rv_db s')) = ln_evidence_id ` set (t_link (rv_db s))"
    using ln by (metis set_map)
  moreover have "pk_ok ev_id (next_id (rv_db s')) (t_evidence (rv_db s))"
    using ok eqs(5) pk_ok_mono[of ev_id] by (auto simp: review_ok_def evidence_ok_def new_id_def)
  ultimately have "evidence_ok (rv_db s')" using ok eqs by (simp add: review_ok_def evidence_ok_def)
  moreover have "review_keys s'"
    using ok eqs unfolding review_ok_def review_keys_def by (auto intro: pk_ok_mono[OF _ eqs(5)])
  moreover have "one_open s'" using ok eqs by (simp add: review_ok_def one_open_def)
  moreover have "records_of i s' = records_of i s" for i using eqs by (simp add: records_of_def)
  ultimately show ?thesis
    using ok eqs reviewers_on_cong[OF eqs(3)] by (simp add: review_ok_def record_count_ok_def)
qed

subsection \<open>One reviewer\<close>

lemma reviewers_on_update:
  assumes "\<And>r. rr_cycle_id (f r) = rr_cycle_id r"
  shows "reviewers_on c (update_reviewer i f s) = tupd rr_id i f (reviewers_on c s)"
  by (induction "t_reviewer s" arbitrary: s) (simp_all add: reviewers_on_def tupd_def filter_map o_def assms if_distrib cong: if_cong filter_cong)

lemma review_keys_update:
  assumes "review_keys s" "\<And>r. rr_id (f r) = rr_id r" "\<And>r. rr_cycle_id (f r) = rr_cycle_id r"
  shows "review_keys (update_reviewer i f s)"
proof -
  have ku: "keyed_update rr_id f" by unfold_locales (rule assms(2))
  have "map rr_cycle_id (tupd rr_id i f (t_reviewer s)) = map rr_cycle_id (t_reviewer s)"
    by (rule keyed_update.map_tupd_other[OF ku]) (rule assms(3))
  then have "rr_cycle_id ` set (tupd rr_id i f (t_reviewer s)) = rr_cycle_id ` set (t_reviewer s)"
    by (metis set_map)
  moreover have "pk_ok rr_id (new_id s) (tupd rr_id i f (t_reviewer s))"
    using assms(1) by (intro pk_ok_keys[OF keyed_update.keys_tupd[OF ku]]) (simp add: review_keys_def)
  ultimately show ?thesis using assms(1) by (simp add: review_keys_def)
qed

lemma review_ok_update_reviewer:
  assumes ok: "review_ok s" and f: "\<And>r. rr_id (f r) = rr_id r" "\<And>r. rr_cycle_id (f r) = rr_cycle_id r"
    and good: "\<And>r c. r \<in> set (t_reviewer s) \<Longrightarrow> rr_id r = i \<Longrightarrow> c \<in> set (t_cycle s) \<Longrightarrow> rc_id c = rr_cycle_id r \<Longrightarrow>
      rc_status c = CycleOpen \<and> (under_way r \<longrightarrow> under_way (f r)) \<and> (rr_status (f r) = Attested \<longrightarrow> rr_status r = Attested)"
  shows "review_ok (update_reviewer i f s)"
proof -
  have "cycle_ok c (reviewers_on (rc_id c) (update_reviewer i f s))" if c: "c \<in> set (t_cycle s)" for c
  proof (cases "i \<in> rr_id ` set (reviewers_on (rc_id c) s)")
    case False
    have "reviewers_on (rc_id c) (update_reviewer i f s) = tupd rr_id i f (reviewers_on (rc_id c) s)"
      by (rule reviewers_on_update[OF f(2)])
    also have "\<dots> = reviewers_on (rc_id c) s" by (rule tupd_absent[OF False])
    finally show ?thesis using ok c by (simp add: review_ok_def)
  next
    case True
    then obtain q where q: "q \<in> set (t_reviewer s)" "rr_id q = i" "rr_cycle_id q = rc_id c"
      by (auto simp: reviewers_on_def)
    have op: "rc_status c = CycleOpen" using good[OF q(1,2) c] q(3) by simp
    have old: "cycle_ok c (reviewers_on (rc_id c) s)" using ok c by (simp add: review_ok_def)
    have one: "(under_way r \<longrightarrow> under_way (f r)) \<and> (rr_status (f r) = Attested \<longrightarrow> rr_status r = Attested)"
      if "r \<in> set (reviewers_on (rc_id c) s)" "rr_id r = i" for r
      using good[of r c] that c by (simp add: reviewers_on_def)
    have "\<exists>r \<in> set (reviewers_on (rc_id c) s). rr_status r \<noteq> Attested"
    proof -
      have "q \<in> set (reviewers_on (rc_id c) s)" using q by (simp add: reviewers_on_def)
      then have "reviewers_on (rc_id c) s \<noteq> []" by (metis empty_iff list.set(1))
      then show ?thesis using old op by (simp add: cycle_ok_def)
    qed
    then obtain r where r: "r \<in> set (reviewers_on (rc_id c) s)" "rr_status r \<noteq> Attested" by blast
    have "rr_status (if rr_id r = i then f r else r) \<noteq> Attested" using one[OF r(1)] r(2) by auto
    moreover have "(if rr_id r = i then f r else r) \<in> set (tupd rr_id i f (reviewers_on (rc_id c) s))"
      unfolding set_tupd using r(1) by (rule imageI)
    ultimately have "\<exists>r \<in> set (tupd rr_id i f (reviewers_on (rc_id c) s)). rr_status r \<noteq> Attested" by blast
    moreover have "\<forall>r \<in> set (tupd rr_id i f (reviewers_on (rc_id c) s)). under_way r"
      using old op one by (auto simp: cycle_ok_def set_tupd)
    ultimately show ?thesis
      using old op by (simp add: cycle_ok_def reviewers_on_update[OF f(2)])
  qed
  then show ?thesis
    using ok review_keys_update[OF _ f] by (simp add: review_ok_def one_open_def record_count_ok_def)
qed

subsection \<open>Closing\<close>

lemma close_reviewer_frame [simp]:
  "rr_id (close_reviewer r) = rr_id r" "rr_cycle_id (close_reviewer r) = rr_cycle_id r"
  "rr_notified_at (close_reviewer r) = rr_notified_at r"
  "rr_attested_at (close_reviewer r) = rr_attested_at r" "rr_user_id (close_reviewer r) = rr_user_id r"
  by (simp_all add: close_reviewer_def)

lemma close_reviewer_truthful: "under_way r \<Longrightarrow> truthful_answer (close_reviewer r)"
  by (auto simp: under_way_def truthful_answer_def close_reviewer_def)

lemma close_reviewer_attested [simp]:
  "rr_status (close_reviewer r) = Attested \<longleftrightarrow> rr_status r = Attested"
  by (auto simp: close_reviewer_def)

lemma set_cycle_reviewers [simp]: "set (cycle_reviewers coll i s) = set (reviewers_on i s)"
  by (simp add: cycle_reviewers_def reviewers_on_def)

lemma closing_status_set:
  assumes "rr_notified_at ` set rs = rr_notified_at ` set rs'"
  shows "closing_status status rs = closing_status status rs'"
proof -
  have eq: "list_all (\<lambda>r. rr_notified_at r = None) xs \<longleftrightarrow> rr_notified_at ` set xs \<subseteq> {None}" for xs
    by (auto simp: list_all_iff)
  show ?thesis unfolding closing_status_def eq assms by (rule refl)
qed

definition closed_as :: "review_cycle \<Rightarrow> cycle_status \<Rightarrow> review_db \<Rightarrow> cycle_status" where
  "closed_as c status s = closing_status status (reviewers_on (rc_id c) s)"

lemma cycle_record_fields [simp]:
  "ev_id (cycle_record c body i now) = i" "ev_org_id (cycle_record c body i now) = rc_org_id c"
  "ev_source_review_cycle (cycle_record c body i now) = Some (rc_id c)"
  by (simp_all add: cycle_record_def)

lemma close_row_fields [simp]:
  "rc_id (close_row st now c) = rc_id c" "rc_org_id (close_row st now c) = rc_org_id c"
  "rc_status (close_row st now c) = st" "rc_closed_at (close_row st now c) = Some now"
  by (simp_all add: close_row_def)

lemma attach_record_frame [simp]:
  "clock (attach_record o_id i s) = clock s" "t_evidence (attach_record o_id i s) = t_evidence s"
  "t_cstate (attach_record o_id i s) = t_cstate s" "t_history (attach_record o_id i s) = t_history s"
  "t_assessment (attach_record o_id i s) = t_assessment s" "t_audit (attach_record o_id i s) = t_audit s"
  "t_objective (attach_record o_id i s) = t_objective s" "t_control (attach_record o_id i s) = t_control s"
  "t_snapshot (attach_record o_id i s) = t_snapshot s"
  "next_id (attach_record o_id i s) = next_id s + length (mapped_control_states o_id s)"
  "t_link (attach_record o_id i s) = t_link s @ insert_rows (mk_link i) (next_id s) (mapped_control_states o_id s)"
  by (simp_all add: attach_record_def Let_def)

text \<open>What a close does to the tables.\<close>

lemma close_cycle_effect:
  fixes c status s coll
  defines "s' \<equiv> snd (close_cycle coll c status s)" and "st \<equiv> closed_as c status s"
    and "now \<equiv> now_of s"
  shows "t_cycle s' = tupd rc_id (rc_id c) (close_row st now) (t_cycle s)"
    and "t_reviewer s' = map (\<lambda>r. if rr_cycle_id r = rc_id c then close_reviewer r else r) (t_reviewer s)"
    and "t_item s' = t_item s" "t_flag s' = t_flag s" "t_reminder s' = t_reminder s" "t_scope s' = t_scope s"
    and "now_of s' = now_of s"
    and "\<exists>body. fst (close_cycle coll c status s) = cycle_record (close_row st now c) body (new_id s) now \<and>
      body = render_attestation_html (close_row st now c) (cycle_items coll (rc_id c) s)
               (map close_reviewer (cycle_reviewers coll (rc_id c) s)) \<and>
      storage s' = storage s @ [\<lparr>so_key = opt_text (ev_storage_key (fst (close_cycle coll c status s))),
        so_body = body, so_mime = ''text/html''\<rparr>]"
    and "t_evidence (rv_db s') = t_evidence (rv_db s) @ [fst (close_cycle coll c status s)]"
    and "rv_db s' = (let u = (rv_db s)\<lparr>t_evidence := t_evidence (rv_db s) @ [fst (close_cycle coll c status s)],
          next_id := next_id (rv_db s) + 1\<rparr>
        in if st = ATTESTS then attach_record (rc_org_id c) (new_id s) u else u)"
proof -
  have "rr_notified_at ` set (map close_reviewer (cycle_reviewers coll (rc_id c) s)) =
      rr_notified_at ` set (reviewers_on (rc_id c) s)" by (simp add: image_image)
  then have st: "closing_status status (map close_reviewer (cycle_reviewers coll (rc_id c) s)) = st"
    unfolding st_def closed_as_def by (rule closing_status_set)
  have items: "cycle_items coll i (s\<lparr>t_reviewer := x\<rparr>) = cycle_items coll i s" for i x
    by (simp add: cycle_items_def)
  show "t_cycle s' = tupd rc_id (rc_id c) (close_row st now) (t_cycle s)"
    "t_reviewer s' = map (\<lambda>r. if rr_cycle_id r = rc_id c then close_reviewer r else r) (t_reviewer s)"
    "t_item s' = t_item s" "t_flag s' = t_flag s" "t_reminder s' = t_reminder s" "t_scope s' = t_scope s"
    "now_of s' = now_of s"
    "t_evidence (rv_db s') = t_evidence (rv_db s) @ [fst (close_cycle coll c status s)]"
    "rv_db s' = (let u = (rv_db s)\<lparr>t_evidence := t_evidence (rv_db s) @ [fst (close_cycle coll c status s)],
          next_id := next_id (rv_db s) + 1\<rparr>
        in if st = ATTESTS then attach_record (rc_org_id c) (new_id s) u else u)"
    unfolding s'_def close_cycle_def Let_def st now_def
    by (simp_all add: store_record_def update_cycle_def new_id_def now_of_def take_ids_def)
  show "\<exists>body. fst (close_cycle coll c status s) = cycle_record (close_row st now c) body (new_id s) now \<and>
      body = render_attestation_html (close_row st now c) (cycle_items coll (rc_id c) s)
               (map close_reviewer (cycle_reviewers coll (rc_id c) s)) \<and>
      storage s' = storage s @ [\<lparr>so_key = opt_text (ev_storage_key (fst (close_cycle coll c status s))),
        so_body = body, so_mime = ''text/html''\<rparr>]"
    unfolding s'_def close_cycle_def Let_def st now_def items
    by (simp add: store_record_def update_cycle_def new_id_def)
qed

subsection \<open>The record in the database of the engine\<close>

lemma mk_link_fields [simp]:
  "ln_id (mk_link e i cs) = i" "ln_evidence_id (mk_link e i cs) = e" "ln_state_id (mk_link e i cs) = cs_id cs"
  "\<not> ln_is_archived (mk_link e i cs)" "ln_archived_by_product (mk_link e i cs) = None" "link_ok (mk_link e i cs)"
  by (simp_all add: mk_link_def link_ok_def)

lemma mapped_distinct:
  assumes "schema_ok s"
  shows "distinct (map cs_id (mapped_control_states o_id s))"
proof -
  have "distinct (map cs_id (t_cstate s))" using assms by (simp add: schema_ok_def states_ok_def pk_ok_def)
  then show ?thesis unfolding mapped_control_states_def Let_def by (rule distinct_map_filter)
qed

definition add_evidence :: "evidence \<Rightarrow> db \<Rightarrow> db" where
  "add_evidence ev s = s\<lparr>t_evidence := t_evidence s @ [ev], next_id := next_id s + 1\<rparr>"

lemma engine_ok_add_evidence:
  assumes "engine_ok s"
  shows "engine_ok (add_evidence ev s)"
proof -
  have "schema_ok (add_evidence ev s)"
    using assms unfolding engine_ok_def schema_ok_def catalog_ok_def add_evidence_def
    by (auto intro: states_ok_mono contribs_ok_mono org_products_ok_mono links_ok_mono
        task_links_ok_mono pk_ok_mono)
  then show ?thesis by (intro engine_ok_states[OF assms]) (simp_all add: add_evidence_def)
qed

lemma evidence_ok_add_evidence:
  assumes "evidence_ok s" "ev_id ev = next_id s"
  shows "evidence_ok (add_evidence ev s)"
  using assms pk_ok_snoc[of ev_id "next_id s" "t_evidence s" ev] by (auto simp: evidence_ok_def add_evidence_def)

lemma links_ok_insert:
  assumes ok: "links_ok n rows" and d: "distinct (map cs_id css)" and fresh: "e \<notin> ln_evidence_id ` set rows"
  shows "links_ok (n + length css) (rows @ insert_rows (mk_link e) n css)"
proof -
  have pairs: "map (\<lambda>r. (ln_evidence_id r, ln_state_id r)) (insert_rows (mk_link e) n css) =
      map (\<lambda>cs. (e, cs_id cs)) css" by (rule map_insert_rows) simp
  have "distinct (map (\<lambda>cs. (e, cs_id cs)) css)" using d by (simp add: distinct_map inj_on_def)
  moreover have "set (map (\<lambda>r. (ln_evidence_id r, ln_state_id r)) rows) \<inter> set (map (\<lambda>cs. (e, cs_id cs)) css) = {}"
    using fresh by auto
  moreover have "\<forall>r \<in> set (insert_rows (mk_link e) n css). link_ok r"
    using set_insert_rows[of _ "mk_link e" n css] by fastforce
  ultimately show ?thesis
    using ok pk_ok_insert_rows[of ln_id n rows "mk_link e" css]
    unfolding links_ok_def map_append distinct_append pairs set_append ball_Un by simp
qed

lemma engine_ok_attach:
  assumes ok: "engine_ok s" and fresh: "i \<notin> ln_evidence_id ` set (t_link s)"
  shows "engine_ok (attach_record o_id i s)"
proof -
  let ?s' = "attach_record o_id i s"
  have sok: "schema_ok s" using ok by (simp add: engine_ok_def)
  have "links_ok (next_id ?s') (t_link ?s')"
    using links_ok_insert[OF _ mapped_distinct[OF sok] fresh, of "next_id s"] sok by (simp add: schema_ok_def)
  then have "schema_ok ?s'"
    using sok unfolding schema_ok_def catalog_ok_def
    by (auto simp: attach_record_def Let_def intro: states_ok_mono contribs_ok_mono org_products_ok_mono
        task_links_ok_mono pk_ok_mono)
  then show ?thesis by (intro engine_ok_states[OF ok]) simp_all
qed

lemma evidence_ok_attach:
  assumes "evidence_ok s" "i \<in> ev_id ` set (t_evidence s)"
  shows "evidence_ok (attach_record o_id i s)"
proof -
  have "map ln_evidence_id (insert_rows (mk_link i) n css) = map (\<lambda>_. i) css" for n css
    by (rule map_insert_rows) simp
  then have sub: "ln_evidence_id ` set (insert_rows (mk_link i) n css) \<subseteq> {i}" for n css
    by (metis (no_types, lifting) image_subsetI list.set_map singletonI)
  have "ln_evidence_id ` set (t_link (attach_record o_id i s)) \<subseteq> ev_id ` set (t_evidence s)"
    unfolding attach_record_frame set_append image_Un
  proof (rule Un_least)
    show "ln_evidence_id ` set (t_link s) \<subseteq> ev_id ` set (t_evidence s)"
      using assms(1) by (simp add: evidence_ok_def)
    show "ln_evidence_id ` set (insert_rows (mk_link i) (next_id s) (mapped_control_states o_id s)) \<subseteq> ev_id ` set (t_evidence s)"
      using assms(2) by (intro subset_trans[OF sub]) simp
  qed
  moreover have "pk_ok ev_id (next_id (attach_record o_id i s)) (t_evidence s)"
    using assms(1) by (auto simp: evidence_ok_def intro: pk_ok_mono)
  ultimately show ?thesis by (simp add: evidence_ok_def)
qed

lemma close_db:
  "rv_db (snd (close_cycle coll c status s)) =
     (let u = add_evidence (fst (close_cycle coll c status s)) (rv_db s)
      in if closed_as c status s = ATTESTS then attach_record (rc_org_id c) (new_id s) u else u)"
  unfolding close_cycle_effect(10) add_evidence_def ..

lemma close_record [simp]:
  "ev_id (fst (close_cycle coll c status s)) = new_id s"
  "ev_org_id (fst (close_cycle coll c status s)) = rc_org_id c"
  "ev_source_review_cycle (fst (close_cycle coll c status s)) = Some (rc_id c)"
  using close_cycle_effect(8)[of coll c status s] by auto

lemma close_engine_ok:
  assumes ok: "engine_ok (rv_db s)" and ev: "evidence_ok (rv_db s)"
  shows "engine_ok (rv_db (snd (close_cycle coll c status s))) \<and>
    evidence_ok (rv_db (snd (close_cycle coll c status s))) \<and>
    append_only (rv_db s) (rv_db (snd (close_cycle coll c status s)))"
proof -
  let ?u = "add_evidence (fst (close_cycle coll c status s)) (rv_db s)"
  have 1: "engine_ok ?u" by (rule engine_ok_add_evidence[OF ok])
  have 2: "evidence_ok ?u" by (rule evidence_ok_add_evidence[OF ev]) (simp add: new_id_def)
  have "new_id s \<notin> ev_id ` set (t_evidence (rv_db s))"
    using ev by (auto simp: evidence_ok_def pk_ok_def new_id_def)
  then have fresh: "new_id s \<notin> ln_evidence_id ` set (t_link ?u)"
    using ev by (auto simp: evidence_ok_def add_evidence_def)
  have mem: "new_id s \<in> ev_id ` set (t_evidence ?u)" by (auto simp: add_evidence_def)
  have ap: "append_only (rv_db s) ?u" by (simp add: append_only_def add_evidence_def)
  have ap2: "append_only ?u (attach_record o_id i ?u)" for o_id i by (simp add: append_only_def)
  show ?thesis unfolding close_db Let_def
    using 1 2 engine_ok_attach[OF 1 fresh] evidence_ok_attach[OF 2 mem] ap append_only_trans[OF ap ap2] by simp
qed

subsection \<open>Closing keeps the invariant\<close>

lemma reviewers_on_close:
  "reviewers_on i (snd (close_cycle coll c status s)) =
     (if i = rc_id c then map close_reviewer (reviewers_on i s) else reviewers_on i s)"
proof -
  have "filter (\<lambda>r. rr_cycle_id r = i) (map (\<lambda>r. if rr_cycle_id r = rc_id c then close_reviewer r else r) rs) =
      (if i = rc_id c then map close_reviewer (filter (\<lambda>r. rr_cycle_id r = i) rs)
       else filter (\<lambda>r. rr_cycle_id r = i) rs)" for rs
    by (induction rs) auto
  then show ?thesis by (simp add: reviewers_on_def close_cycle_effect(2))
qed

lemma closed_cycle_ok:
  assumes "\<forall>r \<in> set rs. under_way r" and "st = CycleCompleted \<longrightarrow> (\<forall>r \<in> set rs. rr_status r = Attested)"
    and "st = CycleCompleted \<or> st = ClosedUnattested"
  shows "cycle_ok (close_row (closing_status st rs) now c) (map close_reviewer rs)"
proof (cases "st = CycleCompleted")
  case True
  then show ?thesis using assms(2) by (simp add: cycle_ok_def closing_status_def)
next
  case False
  then have st: "st = ClosedUnattested" using assms(3) by simp
  have t: "\<forall>r \<in> set rs. truthful_answer (close_reviewer r)" using assms(1) close_reviewer_truthful by blast
  show ?thesis
  proof (cases "list_all (\<lambda>r. rr_notified_at r = None) rs")
    case True
    then show ?thesis using t st by (simp add: cycle_ok_def closing_status_def list_all_iff)
  next
    case False
    then show ?thesis using t st by (auto simp add: cycle_ok_def closing_status_def list_all_iff)
  qed
qed

lemma update_row_set:
  assumes "pk_ok key n rows" "r \<in> set rows" "\<And>x. key (f x) = key x" "x \<in> set (tupd key (key r) f rows)"
  shows "x = f r \<or> x \<in> set rows \<and> key x \<noteq> key r"
proof -
  obtain y where y: "y \<in> set rows" "x = (if key y = key r then f y else y)"
    using assms(4) by (auto simp: set_tupd)
  show ?thesis
  proof (cases "key y = key r")
    case True
    have "y = r" by (rule pk_ok_inj[OF assms(1) y(1) assms(2) True])
    then show ?thesis using y(2) by simp
  next
    case False
    then show ?thesis using y by simp
  qed
qed

lemma filter_close:
  "filter (\<lambda>c. rc_status c = CycleOpen) (tupd rc_id i (close_row st now) rows) =
     (if st = CycleOpen then filter (\<lambda>c. rc_status c = CycleOpen) (tupd rc_id i (close_row st now) rows)
      else filter (\<lambda>c. rc_status c = CycleOpen \<and> rc_id c \<noteq> i) rows)"
  by (induction rows) (auto simp: tupd_def)

lemma closing_status_not_open: "st \<noteq> CycleOpen \<Longrightarrow> closing_status st rs \<noteq> CycleOpen"
  by (simp add: closing_status_def)

text \<open>\<open>review_ok\<close> but for the cycle about to be closed, whose last reviewer may just
  have attested.\<close>

definition closable :: "review_cycle \<Rightarrow> cycle_status \<Rightarrow> review_db \<Rightarrow> bool" where
  "closable c st s \<longleftrightarrow>
     evidence_ok (rv_db s) \<and> review_keys s \<and> one_open s \<and>
     (\<forall>d \<in> set (t_cycle s). record_count_ok s d \<and> (rc_id d \<noteq> rc_id c \<longrightarrow> cycle_ok d (reviewers_on (rc_id d) s))) \<and>
     c \<in> set (t_cycle s) \<and> rc_status c = CycleOpen \<and> (\<forall>r \<in> set (reviewers_on (rc_id c) s). under_way r) \<and>
     (st = ClosedUnattested \<or> st = CycleCompleted \<and> (\<forall>r \<in> set (reviewers_on (rc_id c) s). rr_status r = Attested))"

lemma review_ok_close:
  assumes ok: "closable c st s" and eng: "engine_ok (rv_db s)"
  shows "review_ok (snd (close_cycle coll c st s))"
proof -
  let ?s' = "snd (close_cycle coll c st s)" and ?st = "closed_as c st s"
  note eff = close_cycle_effect[of coll c st s]
  have keys: "pk_ok rc_id (new_id s) (t_cycle s)" and c: "c \<in> set (t_cycle s)" "rc_status c = CycleOpen"
    using ok by (simp_all add: closable_def review_keys_def)
  have st: "?st \<noteq> CycleOpen" unfolding closed_as_def
    by (rule closing_status_not_open) (use ok in \<open>auto simp: closable_def\<close>)
  have le: "new_id s \<le> new_id ?s'"
    unfolding new_id_def close_db by (simp add: Let_def add_evidence_def)
  have ku: "keyed_update rc_id (close_row ?st (now_of s))" by unfold_locales simp
  have ids: "rc_id ` set (t_cycle ?s') = rc_id ` set (t_cycle s)"
    using keyed_update.keys_tupd[OF ku, of "rc_id c" "t_cycle s"] unfolding eff(1) by (metis set_map)
  have "evidence_ok (rv_db ?s')" using close_engine_ok[OF eng] ok by (simp add: closable_def)
  moreover have "review_keys ?s'"
  proof -
    have "pk_ok rc_id (new_id ?s') (t_cycle ?s')"
      unfolding eff(1) by (rule pk_ok_keys[OF keyed_update.keys_tupd[OF ku] pk_ok_mono[OF keys le]])
    moreover have "map rr_id (t_reviewer ?s') = map rr_id (t_reviewer s)"
      "map rr_cycle_id (t_reviewer ?s') = map rr_cycle_id (t_reviewer s)"
      unfolding eff(2) by simp_all
    moreover from this(1) have "pk_ok rr_id (new_id ?s') (t_reviewer ?s')"
      by (rule pk_ok_keys) (use ok le in \<open>auto simp: closable_def review_keys_def intro: pk_ok_mono\<close>)
    moreover have "rr_cycle_id ` set (t_reviewer ?s') = rr_cycle_id ` set (t_reviewer s)"
      using \<open>map rr_cycle_id (t_reviewer ?s') = _\<close> by (metis set_map)
    moreover have "rc_id c \<in> rc_id ` set (t_cycle s)" using c by simp
    ultimately show ?thesis using ok le unfolding review_keys_def ids eff(3,4,9)
      by (auto simp: closable_def review_keys_def intro: pk_ok_mono)
  qed
  moreover have "one_open ?s'"
  proof -
    have "distinct (map rc_org_id (filter (\<lambda>d. rc_id d \<noteq> rc_id c) (filter (\<lambda>d. rc_status d = CycleOpen) (t_cycle s))))"
      by (rule distinct_map_filter) (use ok in \<open>simp add: closable_def one_open_def\<close>)
    then show ?thesis using st by (simp add: one_open_def eff(1) filter_close[of "rc_id c"] conj_commute)
  qed
  moreover have "cycle_ok d (reviewers_on (rc_id d) ?s') \<and> record_count_ok ?s' d" if d: "d \<in> set (t_cycle ?s')" for d
  proof -
    have recs: "records_of i ?s' = records_of i s @ (if i = rc_id c then [fst (close_cycle coll c st s)] else [])" for i
      by (simp add: records_of_def eff(9))
    consider "d = close_row ?st (now_of s) c" | "d \<in> set (t_cycle s)" "rc_id d \<noteq> rc_id c"
      using update_row_set[OF keys c(1), of "close_row ?st (now_of s)" d] d unfolding eff(1) by auto
    then show ?thesis
    proof cases
      case 1
      have "record_count_ok s c" using ok c by (simp add: closable_def)
      then have "record_count_ok ?s' d" using 1 st c(2) by (simp add: record_count_ok_def recs)
      moreover have "cycle_ok d (map close_reviewer (reviewers_on (rc_id c) s))"
        unfolding 1 closed_as_def by (rule closed_cycle_ok) (use ok in \<open>auto simp: closable_def\<close>)
      ultimately show ?thesis by (simp add: 1 reviewers_on_close)
    next
      case 2
      then show ?thesis using ok by (simp add: reviewers_on_close closable_def record_count_ok_def recs)
    qed
  qed
  ultimately show ?thesis by (simp add: review_ok_def)
qed

lemma closableI:
  assumes "review_ok s" "c \<in> set (t_cycle s)" "rc_status c = CycleOpen" "st = ClosedUnattested"
  shows "closable c st s"
  using assms by (auto simp: closable_def review_ok_def cycle_ok_def)

end
