(* ===== verification/Review_Steps.thy ===== *)
theory Review_Steps
  imports Review_Facts
begin

section \<open>Every step of a review keeps the invariant\<close>

text \<open>
  \<open>reviewed_ok\<close>: the invariant of the engine's database and that of the review cycles.
  Each operation of \<open>review_cycles.py\<close>, each handler and each job keeps both; so does
  every request of the engine.
\<close>

definition reviewed_ok :: "review_db \<Rightarrow> bool" where
  "reviewed_ok s \<longleftrightarrow> engine_ok (rv_db s) \<and> review_ok s"

subsection \<open>Elementary steps\<close>

lemma engine_ok_take:
  assumes "engine_ok s"
  shows "engine_ok (s\<lparr>next_id := next_id s + n\<rparr>)"
proof -
  have "schema_ok (s\<lparr>next_id := next_id s + n\<rparr>)"
    using assms unfolding engine_ok_def schema_ok_def catalog_ok_def
    by (auto intro: states_ok_mono contribs_ok_mono org_products_ok_mono links_ok_mono
        task_links_ok_mono pk_ok_mono)
  then show ?thesis by (intro engine_ok_states[OF assms]) simp_all
qed

lemma same_reviews_ok:
  "reviewed_ok s \<Longrightarrow> engine_ok (rv_db s') \<Longrightarrow> same_reviews s s' \<Longrightarrow> reviewed_ok s'"
  by (simp add: reviewed_ok_def) (blast intro: review_ok_same)

lemma review_flags_ok: "review_ok s \<Longrightarrow> pk_ok fl_id (new_id s) (t_flag s)"
  by (simp add: review_ok_def review_keys_def)

lemma log_review_ok:
  assumes "reviewed_ok s"
  shows "reviewed_ok (log_review ac at og a e i af via s)"
proof (rule same_reviews_ok[OF assms])
  show "engine_ok (rv_db (log_review ac at og a e i af via s))"
    using assms by (simp add: log_review_def reviewed_ok_def engine_ok_log_event)
  have "pk_ok fl_id (Suc (new_id s)) (t_flag s)"
    using assms review_flags_ok pk_ok_mono[of fl_id "new_id s" "t_flag s" "Suc (new_id s)"]
    by (simp add: reviewed_ok_def)
  then show "same_reviews s (log_review ac at og a e i af via s)"
    by (simp add: same_reviews_def log_review_def new_id_def)
qed

lemma reminder_ok:
  assumes "reviewed_ok s"
  shows "reviewed_ok (record_reminder_sent c r n s)"
proof (rule same_reviews_ok[OF assms])
  show "engine_ok (rv_db (record_reminder_sent c r n s))"
    using assms engine_ok_take[of "rv_db s" 1] by (simp add: record_reminder_sent_def reviewed_ok_def)
  have "pk_ok fl_id (Suc (new_id s)) (t_flag s)"
    using assms review_flags_ok pk_ok_mono[of fl_id "new_id s" "t_flag s" "Suc (new_id s)"]
    by (simp add: reviewed_ok_def)
  then show "same_reviews s (record_reminder_sent c r n s)"
    by (simp add: same_reviews_def record_reminder_sent_def new_id_def)
qed

lemma flag_item_ok:
  assumes ok: "reviewed_ok s" and run: "flag_item org_id item_id by by_name reason s = Inr (flag, s')"
  shows "reviewed_ok s'"
proof (rule same_reviews_ok[OF ok])
  from run have s': "s' = take_ids 1 (s\<lparr>t_flag := t_flag s @ [flag]\<rparr>)" and f: "fl_id flag = new_id s"
    by (auto simp: flag_item_def Let_def split: option.splits if_splits)
  show "engine_ok (rv_db s')" using ok engine_ok_take[of "rv_db s" 1] by (simp add: s' reviewed_ok_def)
  have "pk_ok fl_id (Suc (new_id s)) (t_flag s @ [flag])"
    using ok review_flags_ok f by (auto simp: reviewed_ok_def intro: pk_ok_snoc)
  then show "same_reviews s s'" by (simp add: s' same_reviews_def new_id_def)
qed

lemma resolve_flag_ok:
  assumes ok: "reviewed_ok s" and run: "resolve_flag org_id i note s = Inr (flag, s')"
  shows "reviewed_ok s'"
proof (rule same_reviews_ok[OF ok])
  from run have s': "s' = s\<lparr>t_flag := tupd fl_id i (resolve_row (now_of s) note) (t_flag s)\<rparr>"
    by (auto simp: resolve_flag_def split: option.splits if_splits)
  show "engine_ok (rv_db s')" using ok by (simp add: s' reviewed_ok_def)
  have ku: "keyed_update fl_id (resolve_row (now_of s) note)" by unfold_locales (simp add: resolve_row_def)
  have "pk_ok fl_id (new_id s) (t_flag s')"
    using ok review_flags_ok by (auto simp: s' reviewed_ok_def intro: pk_ok_keys[OF keyed_update.keys_tupd[OF ku]])
  then show "same_reviews s s'" by (simp add: s' same_reviews_def new_id_def)
qed

subsection \<open>Rows of reviewers\<close>

definition open_cycle_id :: "uuid \<Rightarrow> review_db \<Rightarrow> bool" where
  "open_cycle_id i s \<longleftrightarrow> (\<forall>c \<in> set (t_cycle s). rc_id c = i \<longrightarrow> rc_status c = CycleOpen)"

lemma notify_row_fields [simp]:
  "rr_id (record_notification_result now sent e r) = rr_id r"
  "rr_cycle_id (record_notification_result now sent e r) = rr_cycle_id r"
  "rr_status (record_notification_result now sent e r) = rr_status r"
  "rr_user_id (record_notification_result now sent e r) = rr_user_id r"
  by (simp_all add: record_notification_result_def)

lemma notify_update_ok:
  assumes ok: "reviewed_ok s" and r: "r \<in> set (t_reviewer s)" "open_cycle_id (rr_cycle_id r) s"
  shows "reviewed_ok (update_reviewer (rr_id r) (record_notification_result now sent e) s)"
proof -
  have keys: "pk_ok rr_id (new_id s) (t_reviewer s)" using ok by (simp add: reviewed_ok_def review_ok_def review_keys_def)
  have "review_ok (update_reviewer (rr_id r) (record_notification_result now sent e) s)"
  proof (rule review_ok_update_reviewer)
    fix q c assume q: "q \<in> set (t_reviewer s)" "rr_id q = rr_id r" and c: "c \<in> set (t_cycle s)" "rc_id c = rr_cycle_id q"
    have "q = r" by (rule pk_ok_inj[OF keys q(1) r(1) q(2)])
    then show "rc_status c = CycleOpen \<and> (under_way q \<longrightarrow> under_way (record_notification_result now sent e q)) \<and>
        (rr_status (record_notification_result now sent e q) = Attested \<longrightarrow> rr_status q = Attested)"
      using r(2) c by (simp add: open_cycle_id_def under_way_def)
  qed (use ok in \<open>simp_all add: reviewed_ok_def\<close>)
  then show ?thesis using ok by (simp add: reviewed_ok_def)
qed

lemma notify_reviewer_db:
  "\<exists>sent e. snd (notify_reviewer url send n sub body t r s) =
     update_reviewer (rr_id r) (record_notification_result (now_of s) sent e) s \<and>
     fst (notify_reviewer url send n sub body t r s) = sent"
proof (cases "review_link_or_error url")
  case (Inl e)
  then show ?thesis by (intro exI[of _ False] exI[of _ "Some e"]) (simp add: notify_reviewer_def)
next
  case (Inr link)
  let ?m = "send \<lparr>em_to = rr_email r, em_subject = sub, em_body = body link, em_template = t\<rparr> n"
  show ?thesis using Inr
    by (intro exI[of _ "er_sent ?m"] exI[of _ "er_error ?m"]) (simp add: notify_reviewer_def Let_def)
qed

text \<open>Notifying leaves everything but the reviewers' two notification columns.\<close>

definition only_notified :: "review_db \<Rightarrow> review_db \<Rightarrow> bool" where
  "only_notified s s' \<longleftrightarrow>
     t_cycle s' = t_cycle s \<and> t_item s' = t_item s \<and> t_flag s' = t_flag s \<and> t_scope s' = t_scope s \<and>
     storage s' = storage s \<and> now_of s' = now_of s \<and> t_evidence (rv_db s') = t_evidence (rv_db s) \<and>
     t_link (rv_db s') = t_link (rv_db s) \<and> t_cstate (rv_db s') = t_cstate (rv_db s) \<and>
     list_all2 (\<lambda>r r'. rr_id r' = rr_id r \<and> rr_cycle_id r' = rr_cycle_id r \<and> rr_status r' = rr_status r \<and>
       rr_user_id r' = rr_user_id r \<and> (rr_notified_at r \<noteq> None \<longrightarrow> rr_notified_at r' = rr_notified_at r))
       (t_reviewer s) (t_reviewer s')"

lemma only_notified_refl [simp]: "only_notified s s"
  by (simp add: only_notified_def list_all2_same)

lemma only_notified_trans:
  assumes "only_notified s t" "only_notified t u"
  shows "only_notified s u"
proof -
  have "list_all2 (\<lambda>r r'. rr_id r' = rr_id r \<and> rr_cycle_id r' = rr_cycle_id r \<and> rr_status r' = rr_status r \<and>
       rr_user_id r' = rr_user_id r \<and> (rr_notified_at r \<noteq> None \<longrightarrow> rr_notified_at r' = rr_notified_at r))
       (t_reviewer s) (t_reviewer u)"
    using assms unfolding only_notified_def
    by (elim conjE) (erule list_all2_trans[rotated], assumption, auto)
  then show ?thesis using assms by (simp add: only_notified_def)
qed

lemma only_notified_update:
  "only_notified s (update_reviewer i (record_notification_result now sent e) s)"
proof -
  have "list_all2 (\<lambda>r r'. rr_id r' = rr_id r \<and> rr_cycle_id r' = rr_cycle_id r \<and> rr_status r' = rr_status r \<and>
       rr_user_id r' = rr_user_id r \<and> (rr_notified_at r \<noteq> None \<longrightarrow> rr_notified_at r' = rr_notified_at r))
       rows (tupd rr_id i (record_notification_result now sent e) rows)" for rows
    by (auto simp: tupd_def list_all2_map2 list_all2_same reviewer_row.reached_result)
  then show ?thesis by (simp add: only_notified_def)
qed

lemma only_notified_reminder: "only_notified s (record_reminder_sent c r n s)"
  by (simp add: only_notified_def record_reminder_sent_def list_all2_same now_of_def)

text \<open>What a job needs of the reviewers it goes through.\<close>

definition on_open :: "review_db \<Rightarrow> reviewer \<Rightarrow> bool" where
  "on_open s r \<longleftrightarrow> (\<exists>q \<in> set (t_reviewer s). rr_id q = rr_id r \<and> open_cycle_id (rr_cycle_id q) s)"

lemma on_open_notified:
  assumes "only_notified s s'" "on_open s r"
  shows "on_open s' r"
proof -
  obtain q where q: "q \<in> set (t_reviewer s)" "rr_id q = rr_id r" "open_cycle_id (rr_cycle_id q) s"
    using assms(2) by (auto simp: on_open_def)
  then obtain q' where "q' \<in> set (t_reviewer s')" "rr_id q' = rr_id q" "rr_cycle_id q' = rr_cycle_id q"
    using assms(1) unfolding only_notified_def list_all2_conv_all_nth by (metis in_set_conv_nth)
  moreover have "t_cycle s' = t_cycle s" using assms(1) by (simp add: only_notified_def)
  ultimately show ?thesis using q by (auto simp: on_open_def open_cycle_id_def)
qed

lemma notify_ok:
  assumes ok: "reviewed_ok s" and r: "on_open s r"
  shows "reviewed_ok (snd (notify_reviewer url send n sub body t r s)) \<and>
    only_notified s (snd (notify_reviewer url send n sub body t r s))"
proof -
  obtain sent e where eq: "snd (notify_reviewer url send n sub body t r s) =
     update_reviewer (rr_id r) (record_notification_result (now_of s) sent e) s"
    using notify_reviewer_db by blast
  obtain q where q: "q \<in> set (t_reviewer s)" "rr_id q = rr_id r" "open_cycle_id (rr_cycle_id q) s"
    using r by (auto simp: on_open_def)
  show ?thesis unfolding eq
    using notify_update_ok[OF ok q(1,3)] only_notified_update unfolding q(2) by blast
qed

subsection \<open>Looking and attesting\<close>

lemma reviewer_of_SomeD:
  "reviewer_of org_id i u s = Some r \<Longrightarrow>
     r \<in> set (t_reviewer s) \<and> rr_cycle_id r = i \<and> rr_org_id r = org_id \<and> rr_user_id r = Some u"
  by (auto simp: reviewer_of_def find_Some_iff)

text \<open>A reviewer still at requested or viewed belongs to an open cycle.\<close>

lemma pending_open:
  assumes "review_ok s" "r \<in> set (t_reviewer s)" "rr_status r \<in> {Requested, Viewed}"
  shows "open_cycle_id (rr_cycle_id r) s"
  unfolding open_cycle_id_def
proof (intro ballI impI)
  fix c assume c: "c \<in> set (t_cycle s)" "rc_id c = rr_cycle_id r"
  then have ok: "cycle_ok c (reviewers_on (rr_cycle_id r) s)" using assms(1) by (auto simp: review_ok_def)
  have r: "r \<in> set (reviewers_on (rr_cycle_id r) s)" using assms(2) by (simp add: reviewers_on_def)
  have not: "\<not> truthful_answer r" "rr_status r \<noteq> Attested" using assms(3) by (auto simp: truthful_answer_def)
  show "rc_status c = CycleOpen"
  proof (cases "rc_status c")
    case CycleCompleted
    then show ?thesis using ok r not(2) by (simp add: cycle_ok_def)
  next
    case ClosedUnattested
    then show ?thesis using ok r not(1) by (simp add: cycle_ok_def)
  next
    case ClosedUndeliverable
    then show ?thesis using ok r not(1) by (simp add: cycle_ok_def)
  qed simp
qed

lemma same_reviewer:
  assumes "review_ok s" "q \<in> set (t_reviewer s)" "r \<in> set (t_reviewer s)" "rr_id q = rr_id r"
  shows "q = r"
proof -
  have keys: "pk_ok rr_id (new_id s) (t_reviewer s)" using assms(1) by (simp add: review_ok_def review_keys_def)
  then show ?thesis by (rule pk_ok_inj[OF _ assms(2-4)])
qed

lemma record_view_ok:
  assumes ok: "reviewed_ok s"
  shows "reviewed_ok (record_view org_id i u s)"
proof -
  have rok: "review_ok s" using ok by (simp add: reviewed_ok_def)
  show ?thesis
  proof (cases "record_view org_id i u s = s")
    case True
    then show ?thesis using ok by simp
  next
    case False
    then obtain r where 2: "reviewer_of org_id i u s = Some r" "rr_status r = Requested"
      "record_view org_id i u s = update_reviewer (rr_id r) (\<lambda>r. r\<lparr>rr_status := Viewed, rr_viewed_at := Some (now_of s)\<rparr>) s"
      unfolding record_view_def by (cases "reviewer_of org_id i u s") (simp_all split: if_splits)
    have r: "r \<in> set (t_reviewer s)" using reviewer_of_SomeD[OF 2(1)] by simp
    have op: "open_cycle_id (rr_cycle_id r) s" by (rule pending_open[OF rok r]) (simp add: 2(2))
    have "review_ok (record_view org_id i u s)" unfolding 2(3)
    proof (rule review_ok_update_reviewer[OF rok])
      fix q c assume q: "q \<in> set (t_reviewer s)" "rr_id q = rr_id r" and c: "c \<in> set (t_cycle s)" "rc_id c = rr_cycle_id q"
      have "q = r" by (rule same_reviewer[OF rok q(1) r q(2)])
      then show "rc_status c = CycleOpen \<and>
          (under_way q \<longrightarrow> under_way (q\<lparr>rr_status := Viewed, rr_viewed_at := Some (now_of s)\<rparr>)) \<and>
          (rr_status (q\<lparr>rr_status := Viewed, rr_viewed_at := Some (now_of s)\<rparr>) = Attested \<longrightarrow> rr_status q = Attested)"
        using op c by (simp add: open_cycle_id_def under_way_def)
    qed simp_all
    then show ?thesis using ok by (simp add: reviewed_ok_def 2(3))
  qed
qed

lemma attest_InrD:
  assumes "attest coll org_id i u note s = Inr (r1, s')"
  obtains c r where "tget rc_id i (t_cycle s) = Some c" "rc_org_id c = org_id" "rc_status c = CycleOpen"
    "reviewer_of org_id i u s = Some r" "rr_status r \<noteq> Attested" "r1 = attest_row (now_of s) note r"
    "s' = (let s1 = update_reviewer (rr_id r) (attest_row (now_of s) note) s
           in if \<forall>q \<in> set (reviewers_on i s1). rr_status q = Attested
              then snd (close_cycle coll c CycleCompleted s1) else s1)"
proof -
  have eq: "list_all (\<lambda>r. rr_cycle_id r = i \<longrightarrow> rr_status r = Attested) (t_reviewer x) \<longleftrightarrow>
      (\<forall>q \<in> set (reviewers_on i x). rr_status q = Attested)" for x
    by (auto simp: list_all_iff reviewers_on_def)
  show ?thesis
  proof (cases "tget rc_id i (t_cycle s)")
    case None
    then show ?thesis using assms by (simp add: attest_def)
  next
    case (Some c)
    show ?thesis
    proof (cases "reviewer_of org_id i u s")
      case None
      then show ?thesis using assms Some by (simp add: attest_def split: if_splits)
    next
      case r: (Some r)
      let ?s1 = "update_reviewer (rr_id r) (attest_row (now_of s) note) s"
      have "rc_org_id c = org_id \<and> rc_status c = CycleOpen \<and> rr_status r \<noteq> Attested \<and>
          (attest_row (now_of s) note r, if \<forall>q \<in> set (reviewers_on i ?s1). rr_status q = Attested
              then snd (close_cycle coll c CycleCompleted ?s1) else ?s1) = (r1, s')"
        using assms unfolding attest_def Some r eq Let_def option.case
        by (cases "rc_org_id c = org_id"; cases "rc_status c = CycleOpen"; cases "rr_status r = Attested") simp_all
      then show ?thesis using that[OF Some _ _ r] by (simp add: Let_def)
    qed
  qed
qed

lemma attest_row_fields [simp]:
  "rr_id (attest_row now note r) = rr_id r" "rr_cycle_id (attest_row now note r) = rr_cycle_id r"
  "rr_user_id (attest_row now note r) = rr_user_id r"
  "rr_status (attest_row now note r) = Attested" "rr_attested_at (attest_row now note r) = Some now"
  by (simp_all add: attest_row_def)

lemma attest_ok:
  assumes ok: "reviewed_ok s" and run: "attest coll org_id i u note s = Inr (r1, s')"
  shows "reviewed_ok s'"
proof -
  from run obtain c r where c: "tget rc_id i (t_cycle s) = Some c" "rc_status c = CycleOpen"
    and r: "reviewer_of org_id i u s = Some r" "rr_status r \<noteq> Attested"
    and s': "s' = (let s1 = update_reviewer (rr_id r) (attest_row (now_of s) note) s
           in if \<forall>q \<in> set (reviewers_on i s1). rr_status q = Attested
              then snd (close_cycle coll c CycleCompleted s1) else s1)" by (rule attest_InrD)
  let ?f = "attest_row (now_of s) note" and ?s1 = "update_reviewer (rr_id r) (attest_row (now_of s) note) s"
  have eng: "engine_ok (rv_db s)" and rok: "review_ok s" using ok by (simp_all add: reviewed_ok_def)
  have keys: "review_keys ?s1" by (rule review_keys_update) (use rok in \<open>simp_all add: review_ok_def\<close>)
  have cc: "c \<in> set (t_cycle s)" "rc_id c = i" using tget_SomeD[OF c(1)] by simp_all
  have rr: "r \<in> set (t_reviewer s)" "rr_cycle_id r = i" using reviewer_of_SomeD[OF r(1)] by simp_all
  have askd: "reviewers_on j ?s1 = tupd rr_id (rr_id r) ?f (reviewers_on j s)" for j by (rule reviewers_on_update) simp
  have other: "reviewers_on j ?s1 = reviewers_on j s" if "j \<noteq> i" for j
    unfolding askd
  proof (rule tupd_absent, rule notI)
    assume "rr_id r \<in> rr_id ` set (reviewers_on j s)"
    then obtain q where q: "q \<in> set (t_reviewer s)" "rr_cycle_id q = j" "rr_id q = rr_id r"
      by (auto simp: reviewers_on_def)
    show False using same_reviewer[OF rok q(1) rr(1) q(3)] q(2) rr(2) that by simp
  qed
  have way: "\<forall>q \<in> set (reviewers_on i s). under_way q"
    using rok cc c(2) by (auto simp: review_ok_def cycle_ok_def)
  have way1: "\<forall>q \<in> set (reviewers_on i ?s1). under_way q"
    unfolding askd set_tupd using way by (auto simp: under_way_def)
  have base: "evidence_ok (rv_db ?s1)" "one_open ?s1"
    "\<forall>d \<in> set (t_cycle ?s1). record_count_ok ?s1 d \<and> (rc_id d \<noteq> i \<longrightarrow> cycle_ok d (reviewers_on (rc_id d) ?s1))"
    using rok other by (auto simp: review_ok_def one_open_def record_count_ok_def)
  show ?thesis
  proof (cases "\<forall>q \<in> set (reviewers_on i ?s1). rr_status q = Attested")
    case True
    have "closable c CycleCompleted ?s1"
      using base keys way1 True cc c(2) by (simp add: closable_def)
    then have "review_ok (snd (close_cycle coll c CycleCompleted ?s1))" by (rule review_ok_close) (simp add: eng)
    moreover have "engine_ok (rv_db (snd (close_cycle coll c CycleCompleted ?s1)))"
      using close_engine_ok[of ?s1] eng base(1) by simp
    ultimately show ?thesis using True by (simp add: s' reviewed_ok_def)
  next
    case False
    have unique: "d = c" if d: "d \<in> set (t_cycle s)" "rc_id d = i" for d
    proof -
      have k: "pk_ok rc_id (new_id s) (t_cycle s)" using rok by (simp add: review_ok_def review_keys_def)
      then show ?thesis by (rule pk_ok_inj[OF _ d(1) cc(1)]) (simp add: d(2) cc(2))
    qed
    have "cycle_ok c (reviewers_on (rc_id c) s)" using rok cc(1) by (simp add: review_ok_def)
    then have "cycle_ok c (reviewers_on i ?s1)" using way1 False c(2) cc(2) by (auto simp: cycle_ok_def)
    then have "\<forall>d \<in> set (t_cycle ?s1). cycle_ok d (reviewers_on (rc_id d) ?s1)"
      using base(3) unique by (metis update_reviewer_frame(2))
    then have "review_ok ?s1" using base keys by (simp add: review_ok_def)
    moreover have "s' = ?s1" unfolding s' Let_def by (rule if_not_P[OF False])
    ultimately show ?thesis using eng by (simp add: reviewed_ok_def)
  qed
qed

subsection \<open>Opening\<close>

lemma open_cycle_InrD:
  assumes "open_cycle org_id by s = Inr ((c, rs), s')"
  obtains org items where "tget og_id org_id (t_org (rv_db s)) = Some org" "\<not> has_open_cycle org_id s"
    "c = mk_cycle org by s" "og_id org = org_id"
    "items = insert_rows (mk_item (rc_id c) org_id) (Suc (new_id s)) (filter (in_review_scope org_id) (t_scope s))"
    "rs = insert_rows (mk_reviewer (rc_id c) org_id (now_of s)) (Suc (new_id s) + length items) (org_reviewer_candidates org_id s)"
    "t_cycle s' = t_cycle s @ [c]" "t_item s' = t_item s @ items" "t_reviewer s' = t_reviewer s @ rs"
    "t_flag s' = t_flag s" "t_reminder s' = t_reminder s" "t_scope s' = t_scope s" "storage s' = storage s" "now_of s' = now_of s"
    "rv_db s' = (rv_db s)\<lparr>next_id := Suc (new_id s) + length items + length rs\<rparr>"
proof -
  from assms obtain org where org: "tget og_id org_id (t_org (rv_db s)) = Some org" and no: "\<not> has_open_cycle org_id s"
    and c: "c = mk_cycle org by s"
    and eq: "(let s1 = take_ids 1 (s\<lparr>t_cycle := t_cycle s @ [c]\<rparr>);
         s2 = snapshot_items (rc_id c) org_id s1 in snapshot_reviewers (rc_id c) org_id s2) = (rs, s')"
    by (auto simp: open_cycle_def has_open_cycle_def Let_def split: option.splits if_splits prod.splits)
  have now: "now_of (x\<lparr>t_item := a\<rparr>) = now_of x" "now_of (x\<lparr>t_cycle := b\<rparr>) = now_of x"
    "new_id (x\<lparr>t_item := a\<rparr>) = new_id x" "new_id (x\<lparr>t_cycle := b\<rparr>) = new_id x"
    "new_id (x\<lparr>t_reviewer := d\<rparr>) = new_id x" "now_of (x\<lparr>t_reviewer := d\<rparr>) = now_of x" for x a b d
    by (simp_all add: now_of_def new_id_def)
  have cand: "org_reviewer_candidates org_id (take_ids n (x\<lparr>t_item := a\<rparr>)) = org_reviewer_candidates org_id x"
    "org_reviewer_candidates org_id (take_ids n (x\<lparr>t_cycle := b\<rparr>)) = org_reviewer_candidates org_id x" for n x a b
    by (simp_all add: org_reviewer_candidates_def)
  define items where "items = insert_rows (mk_item (rc_id c) org_id) (Suc (new_id s)) (filter (in_review_scope org_id) (t_scope s))"
  have "og_id org = org_id" using tget_SomeD[OF org] by simp
  moreover have "rs = insert_rows (mk_reviewer (rc_id c) org_id (now_of s)) (Suc (new_id s) + length items) (org_reviewer_candidates org_id s)
      \<and> t_cycle s' = t_cycle s @ [c] \<and> t_item s' = t_item s @ items \<and> t_reviewer s' = t_reviewer s @ rs \<and>
    t_flag s' = t_flag s \<and> t_reminder s' = t_reminder s \<and> t_scope s' = t_scope s \<and> storage s' = storage s \<and> now_of s' = now_of s \<and>
    rv_db s' = (rv_db s)\<lparr>next_id := Suc (new_id s) + length items + length rs\<rparr>"
    using eq by (auto simp: Let_def snapshot_items_def snapshot_reviewers_def items_def now cand new_id_def[of s])
  ultimately show ?thesis using that[OF org no c] items_def by blast
qed

lemma mk_cycle_fields [simp]:
  "rc_id (mk_cycle org by s) = new_id s" "rc_org_id (mk_cycle org by s) = og_id org"
  "rc_status (mk_cycle org by s) = CycleOpen" "rc_closed_at (mk_cycle org by s) = None"
  "rc_opened_at (mk_cycle org by s) = now_of s"
  by (simp_all add: mk_cycle_def)

lemma mk_reviewer_fields [simp]:
  "rr_id (mk_reviewer c o_id now i u) = i" "rr_cycle_id (mk_reviewer c o_id now i u) = c"
  "rr_status (mk_reviewer c o_id now i u) = Requested" "rr_notified_at (mk_reviewer c o_id now i u) = None"
  "rr_attested_at (mk_reviewer c o_id now i u) = None"
  by (simp_all add: mk_reviewer_def)

lemma in_new_reviewers:
  "r \<in> set (insert_rows (mk_reviewer c o_id now) n us) \<Longrightarrow> rr_cycle_id r = c \<and> rr_status r = Requested \<and> rr_notified_at r = None"
  using set_insert_rows[of r "mk_reviewer c o_id now" n us] by auto

lemma open_cycle_ok:
  assumes ok: "reviewed_ok s" and run: "open_cycle org_id by s = Inr ((c, rs), s')"
  shows "reviewed_ok s'"
proof -
  from run obtain org items where o: "\<not> has_open_cycle org_id s" "c = mk_cycle org by s" "og_id org = org_id"
    "items = insert_rows (mk_item (rc_id c) org_id) (Suc (new_id s)) (filter (in_review_scope org_id) (t_scope s))"
    "rs = insert_rows (mk_reviewer (rc_id c) org_id (now_of s)) (Suc (new_id s) + length items) (org_reviewer_candidates org_id s)"
    "t_cycle s' = t_cycle s @ [c]" "t_item s' = t_item s @ items" "t_reviewer s' = t_reviewer s @ rs"
    "t_flag s' = t_flag s" "rv_db s' = (rv_db s)\<lparr>next_id := Suc (new_id s) + length items + length rs\<rparr>"
    by (rule open_cycle_InrD)
  have eng: "engine_ok (rv_db s)" and rok: "review_ok s" using ok by (simp_all add: reviewed_ok_def)
  have k: "review_keys s" and ev: "evidence_ok (rv_db s)" using rok by (simp_all add: review_ok_def)
  have cid: "rc_id c = new_id s" by (simp add: o(2))
  have id': "new_id s' = Suc (new_id s) + length items + length rs" by (simp add: new_id_def o(10))
  have fresh: "new_id s \<notin> rc_id ` set (t_cycle s)" using k by (auto simp: review_keys_def pk_ok_def)
  have eng': "engine_ok (rv_db s')"
    unfolding o(10) using engine_ok_take[OF eng, of "Suc (length items + length rs)"] by (simp add: new_id_def add.assoc)
  have lists: "t_evidence (rv_db s') = t_evidence (rv_db s)" "t_link (rv_db s') = t_link (rv_db s)"
    by (simp_all add: o(10))
  have "evidence_ok (rv_db s')"
    using ev id' by (auto simp: evidence_ok_def lists new_id_def intro: pk_ok_mono)
  moreover have "review_keys s'"
  proof -
    have "pk_ok rc_id (Suc (new_id s)) (t_cycle s @ [c])"
      using k cid by (intro pk_ok_snoc) (simp_all add: review_keys_def)
    then have 1: "pk_ok rc_id (new_id s') (t_cycle s')" unfolding o(6) by (rule pk_ok_mono) (simp add: id')
    have "pk_ok ri_id (Suc (new_id s)) (t_item s)" using k by (auto simp: review_keys_def intro: pk_ok_mono)
    then have "pk_ok ri_id (Suc (new_id s) + length items) (t_item s @ items)"
      using pk_ok_insert_rows[of ri_id "Suc (new_id s)" "t_item s" "mk_item (rc_id c) org_id"]
      unfolding o(4) by (simp add: mk_item_def)
    then have 2: "pk_ok ri_id (new_id s') (t_item s')" unfolding o(7) by (rule pk_ok_mono) (simp add: id')
    have "pk_ok rr_id (Suc (new_id s) + length items) (t_reviewer s)"
      using k by (auto simp: review_keys_def intro: pk_ok_mono)
    then have "pk_ok rr_id (Suc (new_id s) + length items + length (org_reviewer_candidates org_id s)) (t_reviewer s @ rs)"
      unfolding o(5) by (rule pk_ok_insert_rows) simp
    then have 3: "pk_ok rr_id (new_id s') (t_reviewer s')" unfolding o(8) id' by (simp add: o(5))
    have "pk_ok fl_id (new_id s') (t_flag s')"
      using k unfolding o(9) id' by (auto simp: review_keys_def intro: pk_ok_mono)
    moreover have "rr_cycle_id ` set rs \<subseteq> {rc_id c}" using in_new_reviewers unfolding o(5) by fastforce
    ultimately show ?thesis using 1 2 3 k by (auto simp: review_keys_def lists o(6,8))
  qed
  moreover have "one_open s'"
  proof -
    have "org_id \<notin> rc_org_id ` set (filter (\<lambda>c. rc_status c = CycleOpen) (t_cycle s))"
      using o(1) by (auto simp: has_open_cycle_def list_ex_iff)
    then show ?thesis using rok o(3) by (simp add: one_open_def o(2,6) review_ok_def)
  qed
  moreover have "cycle_ok d (reviewers_on (rc_id d) s') \<and> record_count_ok s' d" if d: "d \<in> set (t_cycle s')" for d
  proof (cases "d \<in> set (t_cycle s)")
    case True
    then have ne: "rc_id d \<noteq> new_id s" using fresh by (metis imageI)
    have "filter (\<lambda>r. rr_cycle_id r = rc_id d) rs = []"
      using in_new_reviewers ne unfolding o(5) cid by (fastforce simp: filter_empty_conv)
    then have "reviewers_on (rc_id d) s' = reviewers_on (rc_id d) s" by (simp add: reviewers_on_def o(8))
    moreover have "records_of (rc_id d) s' = records_of (rc_id d) s" by (simp add: records_of_def lists)
    ultimately show ?thesis using rok True by (simp add: review_ok_def record_count_ok_def)
  next
    case False
    then have dc: "d = c" using d by (simp add: o(6))
    have "reviewers_on (rc_id d) s' = rs"
    proof -
      have "rr_cycle_id r \<noteq> new_id s" if "r \<in> set (t_reviewer s)" for r
        using fresh k that unfolding review_keys_def by (metis imageI subsetD)
      then have "filter (\<lambda>r. rr_cycle_id r = new_id s) (t_reviewer s) = []" by (simp add: filter_empty_conv)
      moreover have "filter (\<lambda>r. rr_cycle_id r = new_id s) rs = rs"
        using in_new_reviewers unfolding o(5) cid by (fastforce simp: filter_id_conv)
      ultimately show ?thesis by (simp add: reviewers_on_def o(8) dc cid)
    qed
    moreover have "\<forall>r \<in> set rs. rr_status r = Requested" using in_new_reviewers unfolding o(5) by blast
    moreover have "records_of (new_id s) s' = []"
      using k fresh by (auto simp: records_of_def lists review_keys_def filter_empty_conv)
    ultimately show ?thesis
      by (cases rs) (auto simp: dc cycle_ok_def record_count_ok_def o(2) under_way_def)
  qed
  ultimately show ?thesis using eng' by (simp add: reviewed_ok_def review_ok_def)
qed

subsection \<open>Detaching\<close>

lemma detach_InrD:
  assumes "detach org l who cause act ctx ac at s = Inr s'"
  obtains e b af c where "\<not> (ln_is_archived l \<and> ln_archived_by_product l = None)" "cause \<in> set CAUSES" "cause \<noteq> DEACTIVATION"
    "s' = update_link (ln_id l) (archive_row cause (clock s) None who)
       (log_event_as ac at (Some org) act ''evidence'' e b af c s)"
proof -
  have na: "\<not> (ln_is_archived l \<and> ln_archived_by_product l = None)"
  proof
    assume "ln_is_archived l \<and> ln_archived_by_product l = None"
    then show False using assms by (simp add: detach_def)
  qed
  obtain ev ctl key aid nm where ev: "get_evidence (ln_evidence_id l) s = Some ev"
    "link_where (ln_state_id l) s = Some (ctl, key, aid, nm)"
    using assms na by (auto simp: detach_def split: option.splits prod.splits)
  show ?thesis
  proof (cases "archive cause (clock s) None who l")
    case (Inl e)
    then show ?thesis using assms na ev by (simp add: detach_def Let_def)
  next
    case (Inr l')
    then have c: "cause \<in> set CAUSES" "cause \<noteq> DEACTIVATION" by (auto dest: archive_InrD)
    show ?thesis using assms na ev Inr that[OF na c] by (auto simp: detach_def Let_def)
  qed
qed

lemma engine_ok_archive:
  assumes ok: "engine_ok s" and c: "cause \<in> set CAUSES" "cause \<noteq> DEACTIVATION"
  shows "engine_ok (update_link i (archive_row cause now None who) s)"
proof -
  have "schema_ok (update_link i (archive_row cause now None who) s)"
    by (rule schema_ok_update_link) (use ok c in \<open>simp_all add: engine_ok_def link_ok_archive_row\<close>)
  then show ?thesis by (intro engine_ok_states[OF ok]) simp_all
qed

lemma archive_evidence_ids:
  "map ln_evidence_id (t_link (update_link i (archive_row c now p who) s)) = map ln_evidence_id (t_link s)"
  unfolding update_link_frame by (rule archive_upd.map_tupd_other) simp

lemma detach_one_ok:
  assumes "engine_ok s" "detach_one org_id actor f s = Inr s'"
  shows "engine_ok s' \<and> append_only s s' \<and> catalog_eq s s' \<and> next_id s \<le> next_id s' \<and>
    map ln_evidence_id (t_link s') = map ln_evidence_id (t_link s)"
proof -
  obtain l c where f: "f = (l, c)" by (cases f)
  have "detach org_id l (Some actor) ATTESTATION_DETACH ''evidence.attestation_detach''
          [(''reason'', JStr DETACH_REASON), (''review_cycle_id'', JUuid (rc_id c)),
           (''cycle_status'', JStr (cycle_status_value (rc_status c)))]
          (Some actor) (Some ''system'') s = Inr s'" using assms(2) by (simp add: detach_one_def f)
  then obtain e b af k where s': "s' = update_link (ln_id l) (archive_row ATTESTATION_DETACH (clock s) None (Some actor))
       (log_event_as (Some actor) (Some ''system'') (Some org_id) ''evidence.attestation_detach'' ''evidence'' e b af k s)"
    by (rule detach_InrD)
  have "engine_ok s'" unfolding s'
    by (rule engine_ok_archive[OF engine_ok_log_event[OF assms(1)]]) (simp_all add: cause_defs)
  moreover have "append_only s s'" unfolding s'
    by (rule append_only_trans[OF append_only_log_event append_only_update_link])
  moreover have "catalog_eq s s'" unfolding s'
    by (rule catalog_eq_trans[OF catalog_eq_log_event catalog_eq_update_link])
  moreover have "map ln_evidence_id (t_link s') = map ln_evidence_id (t_link s)" unfolding s' archive_evidence_ids by simp
  ultimately show ?thesis by (simp add: s')
qed

lemma detach_unattested_ok:
  assumes ok: "reviewed_ok s" and run: "detach_unattested org_id actor s = Inr (found, s')"
  shows "reviewed_ok s'"
proof -
  from run obtain u where u: "foldres (detach_one org_id actor) found (rv_db s) = Inr u" and s': "s' = s\<lparr>rv_db := u\<rparr>"
    by (auto simp: detach_unattested_def Let_def split: sum.splits)
  have inv: "engine_ok u \<and> catalog_eq (rv_db s) u \<and> next_id (rv_db s) \<le> next_id u \<and>
      map ln_evidence_id (t_link u) = map ln_evidence_id (t_link (rv_db s))"
  proof (rule foldres_inv[OF u])
    fix x v w assume v: "engine_ok v \<and> catalog_eq (rv_db s) v \<and> next_id (rv_db s) \<le> next_id v \<and>
      map ln_evidence_id (t_link v) = map ln_evidence_id (t_link (rv_db s))" and w: "detach_one org_id actor x v = Inr w"
    show "engine_ok w \<and> catalog_eq (rv_db s) w \<and> next_id (rv_db s) \<le> next_id w \<and>
      map ln_evidence_id (t_link w) = map ln_evidence_id (t_link (rv_db s))"
      using detach_one_ok[OF _ w] v catalog_eq_trans[of "rv_db s" v w] by simp
  qed (use ok in \<open>simp add: reviewed_ok_def\<close>)
  show ?thesis
  proof (rule same_reviews_ok[OF ok])
    show "engine_ok (rv_db s')" using inv by (simp add: s')
    have "pk_ok fl_id (new_id s') (t_flag s)"
      using ok review_flags_ok inv pk_ok_mono[of fl_id "new_id s" "t_flag s" "new_id s'"]
      by (simp add: reviewed_ok_def s' new_id_def)
    then show "same_reviews s s'" using inv by (simp add: same_reviews_def s' new_id_def catalog_eq_def)
  qed
qed

subsection \<open>The jobs\<close>

lemma request_review_ok:
  assumes "reviewed_ok s" "on_open s r"
  shows "reviewed_ok (snd (request_review url send r s)) \<and> only_notified s (snd (request_review url send r s))"
  unfolding request_review_def by (rule notify_ok[OF assms])

lemma notify_all_ok:
  assumes "reviewed_ok s" "\<forall>r \<in> set rs. on_open s r"
  shows "reviewed_ok (foldl (\<lambda>s r. snd (request_review url send r s)) s rs) \<and>
    only_notified s (foldl (\<lambda>s r. snd (request_review url send r s)) s rs)"
proof (rule foldl_inv[where P = "\<lambda>t. reviewed_ok t \<and> only_notified s t"])
  fix r t assume r: "r \<in> set rs" and t: "reviewed_ok t \<and> only_notified s t"
  have "on_open t r" using on_open_notified assms(2) r t by blast
  then show "reviewed_ok (snd (request_review url send r t)) \<and> only_notified s (snd (request_review url send r t))"
    using request_review_ok t only_notified_trans by blast
qed (use assms(1) in simp)

lemma new_reviewers_on_open:
  assumes ok: "reviewed_ok s" and o: "open_cycle org_id by s = Inr ((c, rs), s1)"
  shows "\<forall>r \<in> set rs. on_open (log_review ac at og a e i af via s1) r"
proof
  fix r assume r: "r \<in> set rs"
  from o obtain org where c: "c = mk_cycle org by s" and t: "t_cycle s1 = t_cycle s @ [c]" "t_reviewer s1 = t_reviewer s @ rs"
    and rs: "\<exists>n. rs = insert_rows (mk_reviewer (rc_id c) org_id (now_of s)) n (org_reviewer_candidates org_id s)"
    by (rule open_cycle_InrD) blast
  have cy: "rr_cycle_id r = rc_id c" "rr_status r = Requested" using rs r in_new_reviewers by blast+
  have "review_ok s1" using open_cycle_ok[OF ok o] by (simp add: reviewed_ok_def)
  moreover have "r \<in> set (t_reviewer s1)" using r by (simp add: t(2))
  ultimately have "open_cycle_id (rr_cycle_id r) s1" by (rule pending_open) (simp add: cy)
  then show "on_open (log_review ac at og a e i af via s1) r"
    using r by (auto simp: on_open_def log_review_def t(2) open_cycle_id_def)
qed

lemma open_due_ok:
  assumes ok: "reviewed_ok s" and run: "open_due url send org_id s = Inr s'"
  shows "reviewed_ok s'"
proof (cases "open_cycle org_id ''scheduler'' s")
  case (Inl e)
  then show ?thesis using run by (simp add: open_due_def)
next
  case (Inr p)
  obtain c rs s1 where p: "p = ((c, rs), s1)" by (metis prod.exhaust)
  let ?s2 = "log_job org_id ''review_cycle.open'' (rc_id c) (opened_json c rs) s1"
  have s': "s' = foldl (\<lambda>s r. snd (request_review url send r s)) ?s2 rs"
    using run Inr by (simp add: open_due_def p)
  have o: "open_cycle org_id ''scheduler'' s = Inr ((c, rs), s1)" using Inr p by simp
  have ok2: "reviewed_ok ?s2" by (rule log_review_ok[OF open_cycle_ok[OF ok o]])
  have "\<forall>r \<in> set rs. on_open ?s2 r" by (rule new_reviewers_on_open[OF ok o])
  then show ?thesis using notify_all_ok[OF ok2] by (simp add: s')
qed

lemma review_cycle_open_ok:
  assumes "reviewed_ok s" "review_cycle_open url send s = Inr s'"
  shows "reviewed_ok s'"
  using assms(2)[unfolded review_cycle_open_def] assms(1) by (rule foldres_inv) (rule open_due_ok)

text \<open>What each notification to \<open>r\<close> and each row of the reminder log keeps, the loop of
  its reminders keeps; what that is of every reviewer of a list, the sweep of the list keeps.\<close>

lemma remind_inv:
  assumes "P s"
    and notify: "\<And>t n sub body tpl. P t \<Longrightarrow> P (snd (notify_reviewer url send n sub body tpl r t))"
    and reminder: "\<And>t k. P t \<Longrightarrow> P (record_reminder_sent i (rr_id r) k t)"
  shows "P (snd (remind url send now i r already (n, s)))"
  using assms
proof (induction url send now i r already "(n, s)" arbitrary: n s rule: remind.induct)
  case (1 url send now i r already n s)
  show ?case
  proof (cases "due_reminder_number now already r")
    case None
    then show ?thesis using 1(2) by (simp add: remind.simps)
  next
    case (Some k)
    obtain sent s1 where p: "notify_reviewer url send k REVIEW_REMINDER_SUBJECT REVIEW_REMINDER_BODY
        ''review_cycle_reminder'' r s = (sent, s1)"
      by (cases "notify_reviewer url send k REVIEW_REMINDER_SUBJECT REVIEW_REMINDER_BODY ''review_cycle_reminder'' r s")
    have s1: "P s1" using 1(3)[OF 1(2), of k REVIEW_REMINDER_SUBJECT REVIEW_REMINDER_BODY "''review_cycle_reminder''"] p
      by simp
    show ?thesis
    proof (cases sent)
      case False
      then show ?thesis using s1 Some p by (simp add: remind.simps)
    next
      case True
      have "P (snd (remind url send now i r (k # already) (Suc n, record_reminder_sent i (rr_id r) k s1)))"
        using 1(1)[OF Some p[symmetric] _ _ 1(4)[OF s1] 1(3) 1(4)] True by simp
      then show ?thesis using True Some p by (simp add: remind.simps[of _ _ _ _ _ already])
    qed
  qed
qed

lemma sweep_reviewers_inv:
  assumes "P (snd acc)"
    and notify: "\<And>r t n sub body tpl. r \<in> set rs \<Longrightarrow> P t \<Longrightarrow> P (snd (notify_reviewer url send n sub body tpl r t))"
    and reminder: "\<And>r t k. r \<in> set rs \<Longrightarrow> P t \<Longrightarrow> P (record_reminder_sent i (rr_id r) k t)"
  shows "P (snd (foldl (sweep_reviewer url send i) acc rs))"
proof (rule foldl_inv[where P = "\<lambda>t. P (snd t)"])
  fix r and acc :: "sweep_counts \<times> review_db"
  assume r: "r \<in> set rs" and P: "P (snd acc)"
  obtain a b c s where acc: "acc = ((a, b, c), s)" by (metis prod.exhaust)
  show "P (snd (sweep_reviewer url send i acc r))"
  proof (cases "rr_notified_at r = None")
    case True
    then show ?thesis using notify[OF r] P
      by (simp add: acc sweep_reviewer_def request_review_def case_prod_unfold Let_def)
  next
    case False
    have eq: "snd (sweep_reviewer url send i acc r) = snd (remind url send (now_of s) i r
        (map rl_number (filter (\<lambda>l. rl_reviewer_id l = rr_id r) (t_reminder s))) (a, s))"
      unfolding acc sweep_reviewer_def prod.case if_not_P[OF False] by (simp add: case_prod_unfold Let_def)
    show ?thesis unfolding eq
      by (rule remind_inv[where P = P]) (use P notify[OF r] reminder[OF r] in \<open>simp_all add: acc\<close>)
  qed
qed (rule assms(1))

lemma sweep_reviewers_ok:
  assumes ok: "reviewed_ok (snd acc)" and on: "\<forall>r \<in> set rs. on_open (snd acc) r"
  shows "reviewed_ok (snd (foldl (sweep_reviewer url send i) acc rs)) \<and>
    only_notified (snd acc) (snd (foldl (sweep_reviewer url send i) acc rs))"
proof (rule sweep_reviewers_inv[where P = "\<lambda>t. reviewed_ok t \<and> only_notified (snd acc) t"])
  fix r t n sub body tpl
  assume r: "r \<in> set rs" and t: "reviewed_ok t \<and> only_notified (snd acc) t"
  have "on_open t r" using on_open_notified on r t by blast
  then show "reviewed_ok (snd (notify_reviewer url send n sub body tpl r t)) \<and>
      only_notified (snd acc) (snd (notify_reviewer url send n sub body tpl r t))"
    using notify_ok[of t r url send n sub body tpl] t only_notified_trans by blast
next
  fix r t k
  assume t: "reviewed_ok t \<and> only_notified (snd acc) t"
  then show "reviewed_ok (record_reminder_sent i (rr_id r) k t) \<and> only_notified (snd acc) (record_reminder_sent i (rr_id r) k t)"
    using reminder_ok only_notified_trans[OF _ only_notified_reminder] by blast
qed (use ok in simp)

end
