(* ===== verification/App_Requests.thy ===== *)
theory App_Requests
  imports Review_Steps Evidence_Properties Transactions
begin

section \<open>The application as a machine\<close>

text \<open>
  Every modelled request and job as a step of one machine on \<open>review_db\<close>: the engine's
  requests, the handlers and jobs of the reviews, the passing of time, and the edits of scope,
  users and memberships, which the model leaves open (any new tables). A step that raises is
  rolled back. The steps are atomic; what an interleaving can do is stated where it matters.
\<close>

record deployment =
  dp_public_url :: "string option"
  dp_send :: mailer
  dp_coll :: "string \<Rightarrow> nat list"

datatype app_request =
    EngineRequest request
  | OpenByHand uuid uuid
  | GetCycle uuid uuid uuid
  | AttestCycle uuid uuid uuid "string option"
  | FlagItem uuid uuid uuid uuid string string
  | ResolveFlag uuid uuid uuid string
  | OpenDueJob
  | SweepJob
  | DetachUnattested uuid string
  | Later datetime
  | Edit "scope_entity list" "user_account list" "org_membership list"

datatype app_error = EngineError engine_error | ReviewError review_error

definition engine_request :: "request \<Rightarrow> review_db \<Rightarrow> engine_error + review_db" where
  "engine_request r s = map_sum id (\<lambda>u. s\<lparr>rv_db := u\<rparr>) (serve r (rv_db s))"

fun serve_app :: "deployment \<Rightarrow> app_request \<Rightarrow> review_db \<Rightarrow> app_error + review_db" where
  "serve_app d (EngineRequest r) s = map_sum EngineError id (engine_request r s)"
| "serve_app d (OpenByHand org_id user_id) s = map_sum ReviewError id (open_by_hand org_id user_id s)"
| "serve_app d (GetCycle org_id cycle_id user_id) s = map_sum ReviewError id (get_cycle org_id cycle_id user_id s)"
| "serve_app d (AttestCycle org_id cycle_id user_id note) s =
     map_sum ReviewError id (attest_cycle (dp_coll d) org_id cycle_id user_id note s)"
| "serve_app d (FlagItem org_id cycle_id item_id user_id display_name reason) s =
     map_sum ReviewError id (flag_request org_id cycle_id item_id user_id display_name reason s)"
| "serve_app d (ResolveFlag org_id flag_id user_id note) s =
     map_sum ReviewError id (resolve_request org_id flag_id user_id note s)"
| "serve_app d OpenDueJob s = map_sum ReviewError id (review_cycle_open (dp_public_url d) (dp_send d) s)"
| "serve_app d SweepJob s =
     map_sum ReviewError snd (review_cycle_sweep (dp_public_url d) (dp_send d) (dp_coll d) s)"
| "serve_app d (DetachUnattested org_id actor) s = map_sum ReviewError snd (detach_unattested org_id actor s)"
| "serve_app d (Later now) s = Inr (s\<lparr>rv_db := (rv_db s)\<lparr>clock := now\<rparr>\<rparr>)"
| "serve_app d (Edit scope users memberships) s =
     Inr (s\<lparr>t_scope := scope, t_user := users, t_membership := memberships,
       t_item := map (forget_entity scope) (t_item s),
       t_reviewer := map (forget_user users) (t_reviewer s)\<rparr>)"

definition app_step :: "deployment \<Rightarrow> review_db \<Rightarrow> app_request \<Rightarrow> review_db" where
  "app_step d s r = (case serve_app d r s of Inl e \<Rightarrow> s | Inr s' \<Rightarrow> s')"

subsection \<open>The contract of a step\<close>

text \<open>What every step promises: the invariant, and that what is closed stays as it is. A
  closed cycle's row, its reviewers' rows and its snapshot are never written again, but for the
  references to an account or an entity that is deleted.\<close>

definition as_presented :: "review_item \<Rightarrow> review_item" where
  "as_presented i = i\<lparr>ri_scope_entity_id := None\<rparr>"

definition as_reviewed :: "reviewer \<Rightarrow> reviewer" where
  "as_reviewed r = r\<lparr>rr_user_id := None\<rparr>"

definition keeps_closed :: "review_db \<Rightarrow> review_db \<Rightarrow> bool" where
  "keeps_closed s s' \<longleftrightarrow> prefix (map as_presented (t_item s)) (map as_presented (t_item s')) \<and>
     (\<forall>c \<in> set (t_cycle s). rc_status c \<noteq> CycleOpen \<longrightarrow>
        c \<in> set (t_cycle s') \<and>
        map as_reviewed (reviewers_on (rc_id c) s') = map as_reviewed (reviewers_on (rc_id c) s)) \<and>
     rc_id ` set (t_cycle s) \<subseteq> rc_id ` set (t_cycle s')"

lemma keeps_closed_refl [simp]: "keeps_closed s s"
  by (simp add: keeps_closed_def)

lemma keeps_closed_trans:
  assumes "keeps_closed s t" "keeps_closed t u"
  shows "keeps_closed s u"
  unfolding keeps_closed_def
proof (intro conjI ballI impI)
  show "prefix (map as_presented (t_item s)) (map as_presented (t_item u))" using assms prefix_order.trans unfolding keeps_closed_def by blast
  show "rc_id ` set (t_cycle s) \<subseteq> rc_id ` set (t_cycle u)" using assms unfolding keeps_closed_def by blast
  fix c assume c: "c \<in> set (t_cycle s)" "rc_status c \<noteq> CycleOpen"
  have t: "c \<in> set (t_cycle t)"
    "map as_reviewed (reviewers_on (rc_id c) t) = map as_reviewed (reviewers_on (rc_id c) s)"
    using assms(1) c unfolding keeps_closed_def by simp_all
  then show "c \<in> set (t_cycle u)"
    "map as_reviewed (reviewers_on (rc_id c) u) = map as_reviewed (reviewers_on (rc_id c) s)"
    using assms(2) c(2) unfolding keeps_closed_def by simp_all
qed

lemma keeps_closed_same:
  assumes "t_cycle s' = t_cycle s" "t_reviewer s' = t_reviewer s" "t_item s' = t_item s"
  shows "keeps_closed s s'"
  using assms by (simp add: keeps_closed_def reviewers_on_def)

lemma foldres_keeps:
  assumes "foldres f xs s = Inr s'" "reviewed_ok s"
    and "\<And>x s s'. reviewed_ok s \<Longrightarrow> f x s = Inr s' \<Longrightarrow> reviewed_ok s' \<and> keeps_closed s s'"
  shows "keeps_closed s s'"
proof -
  have "reviewed_ok s' \<and> keeps_closed s s'"
    by (rule foldres_inv[OF assms(1), where P = "\<lambda>t. reviewed_ok t \<and> keeps_closed s t"])
      (use assms(2,3) keeps_closed_trans in \<open>simp, blast\<close>)
  then show ?thesis by blast
qed

subsection \<open>What is closed stays closed\<close>

lemma update_keeps_closed:
  assumes ok: "review_ok s" and f: "\<And>r. rr_cycle_id (f r) = rr_cycle_id r"
    and op: "\<And>r. r \<in> set (t_reviewer s) \<Longrightarrow> rr_id r = i \<Longrightarrow> open_cycle_id (rr_cycle_id r) s"
  shows "keeps_closed s (update_reviewer i f s)"
proof -
  have "reviewers_on (rc_id c) (update_reviewer i f s) = reviewers_on (rc_id c) s"
    if c: "c \<in> set (t_cycle s)" "rc_status c \<noteq> CycleOpen" for c
    unfolding reviewers_on_update[OF f]
  proof (rule tupd_absent, rule notI)
    assume "i \<in> rr_id ` set (reviewers_on (rc_id c) s)"
    then obtain r where r: "r \<in> set (t_reviewer s)" "rr_id r = i" "rr_cycle_id r = rc_id c" by (auto simp: reviewers_on_def)
    show False using op[OF r(1,2)] c r(3) by (simp add: open_cycle_id_def)
  qed
  then show ?thesis by (simp add: keeps_closed_def)
qed

lemma notify_keeps_closed:
  assumes ok: "reviewed_ok s" and r: "on_open s r"
  shows "keeps_closed s (snd (notify_reviewer url send n sub body t r s))"
proof -
  obtain sent e where eq: "snd (notify_reviewer url send n sub body t r s) =
     update_reviewer (rr_id r) (record_notification_result (now_of s) sent e) s"
    using notify_reviewer_db by blast
  have rok: "review_ok s" using ok by (simp add: reviewed_ok_def)
  obtain q where q: "q \<in> set (t_reviewer s)" "rr_id q = rr_id r" "open_cycle_id (rr_cycle_id q) s"
    using r by (auto simp: on_open_def)
  show ?thesis unfolding eq
  proof (rule update_keeps_closed[OF rok])
    fix x assume x: "x \<in> set (t_reviewer s)" "rr_id x = rr_id r"
    have "x = q" by (rule same_reviewer[OF rok x(1) q(1)]) (simp add: x q)
    then show "open_cycle_id (rr_cycle_id x) s" using q(3) by simp
  qed simp
qed

lemma close_keeps_closed:
  assumes ok: "review_keys s" and c: "c \<in> set (t_cycle s)" "rc_status c = CycleOpen"
  shows "keeps_closed s (snd (close_cycle coll c st s))"
proof -
  let ?f = "close_row (closed_as c st s) (now_of s)"
  have keys: "pk_ok rc_id (new_id s) (t_cycle s)" using ok by (simp add: review_keys_def)
  have ku: "keyed_update rc_id ?f" by unfold_locales simp
  have "map rc_id (tupd rc_id (rc_id c) ?f (t_cycle s)) = map rc_id (t_cycle s)" by (rule keyed_update.keys_tupd[OF ku])
  then have ids: "rc_id ` set (tupd rc_id (rc_id c) ?f (t_cycle s)) = rc_id ` set (t_cycle s)" by (metis set_map)
  have "d \<in> set (tupd rc_id (rc_id c) ?f (t_cycle s)) \<and> rc_id d \<noteq> rc_id c"
    if d: "d \<in> set (t_cycle s)" "rc_status d \<noteq> CycleOpen" for d
  proof -
    have ne: "rc_id d \<noteq> rc_id c"
    proof
      assume e: "rc_id d = rc_id c"
      have "d = c" by (rule pk_ok_inj[OF keys d(1) c(1) e])
      then show False using c(2) d(2) by simp
    qed
    have "d \<in> set (tupd rc_id (rc_id c) ?f (t_cycle s))"
      unfolding set_tupd by (rule rev_image_eqI[OF d(1)]) (simp add: ne)
    then show ?thesis using ne by blast
  qed
  then have "d \<in> set (t_cycle (snd (close_cycle coll c st s))) \<and>
      reviewers_on (rc_id d) (snd (close_cycle coll c st s)) = reviewers_on (rc_id d) s"
    if "d \<in> set (t_cycle s)" "rc_status d \<noteq> CycleOpen" for d
    using that unfolding reviewers_on_close close_cycle_effect(1) by metis
  then show ?thesis
    unfolding keeps_closed_def using ids by (simp add: close_cycle_effect(1,3))
qed

lemma open_keeps_closed:
  assumes ok: "reviewed_ok s" and run: "open_cycle org_id by s = Inr ((c, rs), s')"
  shows "keeps_closed s s'"
proof -
  from run obtain org items where o: "c = mk_cycle org by s"
    "rs = insert_rows (mk_reviewer (rc_id c) org_id (now_of s)) (Suc (new_id s) + length items) (org_reviewer_candidates org_id s)"
    "t_cycle s' = t_cycle s @ [c]" "t_item s' = t_item s @ items" "t_reviewer s' = t_reviewer s @ rs"
    by (rule open_cycle_InrD)
  have k: "review_keys s" using ok by (simp add: reviewed_ok_def review_ok_def)
  have "reviewers_on (rc_id d) s' = reviewers_on (rc_id d) s" if d: "d \<in> set (t_cycle s)" for d
  proof -
    have "rc_id d \<noteq> new_id s" using k d by (auto simp: review_keys_def pk_ok_def)
    then have "filter (\<lambda>r. rr_cycle_id r = rc_id d) rs = []"
      using in_new_reviewers unfolding o(1,2) by (fastforce simp: filter_empty_conv)
    then show ?thesis by (simp add: reviewers_on_def o(5))
  qed
  then show ?thesis by (auto simp add: keeps_closed_def o(3,4))
qed

lemma attest_keeps_closed:
  assumes ok: "reviewed_ok s" and run: "attest coll org_id i u note s = Inr (r1, s')"
  shows "keeps_closed s s'"
proof -
  from run obtain c r where c: "tget rc_id i (t_cycle s) = Some c" "rc_status c = CycleOpen"
    and r: "reviewer_of org_id i u s = Some r"
    and s': "s' = (let s1 = update_reviewer (rr_id r) (attest_row (now_of s) note) s
           in if \<forall>q \<in> set (reviewers_on i s1). rr_status q = Attested
              then snd (close_cycle coll c CycleCompleted s1) else s1)" by (rule attest_InrD)
  let ?s1 = "update_reviewer (rr_id r) (attest_row (now_of s) note) s"
  have rok: "review_ok s" using ok by (simp add: reviewed_ok_def)
  have cc: "c \<in> set (t_cycle s)" "rc_id c = i" using tget_SomeD[OF c(1)] by simp_all
  have rr: "r \<in> set (t_reviewer s)" "rr_cycle_id r = i" using reviewer_of_SomeD[OF r] by simp_all
  have keys: "pk_ok rc_id (new_id s) (t_cycle s)" using rok by (simp add: review_ok_def review_keys_def)
  have op: "open_cycle_id i s" unfolding open_cycle_id_def
  proof (intro ballI impI)
    fix d assume d: "d \<in> set (t_cycle s)" "rc_id d = i"
    have "d = c" by (rule pk_ok_inj[OF keys d(1) cc(1)]) (simp add: d(2) cc(2))
    then show "rc_status d = CycleOpen" using c(2) by simp
  qed
  have 1: "keeps_closed s ?s1"
  proof (rule update_keeps_closed[OF rok])
    fix q assume q: "q \<in> set (t_reviewer s)" "rr_id q = rr_id r"
    have "q = r" by (rule same_reviewer[OF rok q(1) rr(1) q(2)])
    then show "open_cycle_id (rr_cycle_id q) s" using op rr(2) by simp
  qed simp
  have "review_keys ?s1" by (rule review_keys_update) (use rok in \<open>simp_all add: review_ok_def\<close>)
  then have 2: "keeps_closed ?s1 (snd (close_cycle coll c CycleCompleted ?s1))"
    by (rule close_keeps_closed) (simp_all add: cc c(2))
  show ?thesis unfolding s' Let_def using 1 keeps_closed_trans[OF 1 2] by simp
qed

subsection \<open>The jobs keep what is closed\<close>

lemma notify_all_keeps:
  assumes "reviewed_ok s" "\<forall>r \<in> set rs. on_open s r"
  shows "keeps_closed s (foldl (\<lambda>s r. snd (request_review url send r s)) s rs)"
proof -
  let ?P = "\<lambda>t. reviewed_ok t \<and> only_notified s t \<and> keeps_closed s t"
  have "?P (foldl (\<lambda>s r. snd (request_review url send r s)) s rs)"
  proof (rule foldl_inv[where P = ?P])
    fix r t assume r: "r \<in> set rs" and t: "?P t"
    have "on_open t r" using on_open_notified assms(2) r t by blast
    then have "keeps_closed t (snd (request_review url send r t))" "reviewed_ok (snd (request_review url send r t))"
      "only_notified t (snd (request_review url send r t))"
      using request_review_ok t notify_keeps_closed unfolding request_review_def by blast+
    then show "?P (snd (request_review url send r t))"
      using t only_notified_trans keeps_closed_trans by blast
  qed (use assms(1) in simp)
  then show ?thesis by blast
qed

lemma log_review_keeps [simp]: "keeps_closed s (log_review ac at og a e i af via s)"
  by (rule keeps_closed_same) (simp_all add: log_review_def)

lemma open_due_both:
  assumes ok: "reviewed_ok s" and run: "open_due url send org_id s = Inr s'"
  shows "reviewed_ok s' \<and> keeps_closed s s'"
proof (cases "open_cycle org_id ''scheduler'' s")
  case (Inl e)
  then show ?thesis using run by (simp add: open_due_def)
next
  case (Inr p)
  obtain c rs s1 where p: "p = ((c, rs), s1)" by (metis prod.exhaust)
  let ?s2 = "log_job org_id ''review_cycle.open'' (rc_id c) (opened_json c rs) s1"
  have s': "s' = foldl (\<lambda>s r. snd (request_review url send r s)) ?s2 rs"
    using run Inr by (simp add: open_due_def p)
  have o: "open_cycle org_id ''scheduler'' s = Inr ((c, rs), s1)" using Inr p by simp
  have ok1: "reviewed_ok s1" by (rule open_cycle_ok[OF ok o])
  have on: "\<forall>r \<in> set rs. on_open ?s2 r" by (rule new_reviewers_on_open[OF ok o])
  have "keeps_closed s ?s2" by (rule keeps_closed_trans[OF open_keeps_closed[OF ok o] log_review_keeps])
  then have "keeps_closed s s'"
    unfolding s' by (rule keeps_closed_trans[OF _ notify_all_keeps[OF log_review_ok[OF ok1] on]])
  then show ?thesis using open_due_ok[OF ok run] by blast
qed

lemma sweep_reviewers_keeps:
  assumes ok: "reviewed_ok (snd acc)" and on: "\<forall>r \<in> set rs. on_open (snd acc) r"
  shows "keeps_closed (snd acc) (snd (foldl (sweep_reviewer url send i) acc rs))"
proof -
  let ?P = "\<lambda>t. reviewed_ok t \<and> only_notified (snd acc) t \<and> keeps_closed (snd acc) t"
  have "?P (snd (foldl (sweep_reviewer url send i) acc rs))"
  proof (rule sweep_reviewers_inv[where P = ?P])
    fix r t n sub body tpl
    assume r: "r \<in> set rs" and t: "?P t"
    have "on_open t r" using on_open_notified on r t by blast
    then show "?P (snd (notify_reviewer url send n sub body tpl r t))"
      using notify_ok[of t r url send n sub body tpl] notify_keeps_closed[of t r url send n sub body tpl] t
        only_notified_trans keeps_closed_trans by blast
  next
    fix r t k
    assume t: "?P t"
    have "keeps_closed t (record_reminder_sent i (rr_id r) k t)"
      by (rule keeps_closed_same) (simp_all add: record_reminder_sent_def)
    then show "?P (record_reminder_sent i (rr_id r) k t)"
      using t reminder_ok only_notified_trans[OF _ only_notified_reminder] keeps_closed_trans by blast
  qed (use ok in simp)
  then show ?thesis by blast
qed

subsection \<open>The sweep\<close>

lemma sweep_cycle_both:
  assumes ok: "reviewed_ok (snd acc)" and op: "open_cycle_id i (snd acc)"
    and run: "sweep_cycle url send coll (i, org_id) acc = Inr acc'"
  shows "reviewed_ok (snd acc') \<and> keeps_closed (snd acc) (snd acc') \<and>
    (\<forall>j. j \<noteq> i \<longrightarrow> open_cycle_id j (snd acc) \<longrightarrow> open_cycle_id j (snd acc'))"
proof -
  obtain a b k s where acc: "acc = ((a, b, k), s)" by (metis prod.exhaust)
  obtain c where c: "tget rc_id i (t_cycle s) = Some c"
    using run by (auto simp: acc sweep_cycle_def split: option.splits)
  have cc: "c \<in> set (t_cycle s)" "rc_id c = i" using tget_SomeD[OF c] by simp_all
  have open': "rc_status c = CycleOpen" using op cc by (simp add: open_cycle_id_def acc)
  have ok': "engine_ok (rv_db s)" "review_ok s" using ok by (simp_all add: acc reviewed_ok_def)
  let ?rs = "filter (\<lambda>r. rr_cycle_id r = i) (t_reviewer s)"
  show ?thesis
  proof (cases "rc_due_at c \<le> now_of s")
    case True
    let ?s1 = "snd (close_cycle coll c ClosedUnattested s)"
    obtain act after where acc': "snd acc' = log_job org_id act i after ?s1"
      using run True c by (auto simp: acc sweep_cycle_def Let_def)
    have 1: "reviewed_ok ?s1"
      unfolding reviewed_ok_def
      using review_ok_close[OF closableI[OF ok'(2) cc(1) open' refl] ok'(1)]
        close_engine_ok[OF ok'(1), of coll c ClosedUnattested] ok'(2) by (simp add: review_ok_def)
    have 2: "keeps_closed s ?s1"
      by (rule close_keeps_closed[OF _ cc(1) open']) (use ok'(2) in \<open>simp add: review_ok_def\<close>)
    have "open_cycle_id j ?s1" if "j \<noteq> i" "open_cycle_id j s" for j
      using that cc(2) by (auto simp: open_cycle_id_def close_cycle_effect(1) set_tupd)
    then have 3: "open_cycle_id j (log_job org_id act i after ?s1)" if "j \<noteq> i" "open_cycle_id j s" for j
      using that by (simp add: open_cycle_id_def log_review_def)
    show ?thesis unfolding acc'
      using log_review_ok[OF 1] keeps_closed_trans[OF 2 log_review_keeps] 3 by (simp add: acc)
  next
    case False
    have acc': "acc' = foldl (sweep_reviewer url send i) acc ?rs"
      using run False c by (auto simp: acc sweep_cycle_def Let_def)
    have on: "\<forall>r \<in> set ?rs. on_open (snd acc) r"
      using op by (auto simp: on_open_def acc)
    have n: "reviewed_ok (snd acc') \<and> only_notified (snd acc) (snd acc')"
      unfolding acc' by (rule sweep_reviewers_ok[OF ok on])
    have "keeps_closed (snd acc) (snd acc')" unfolding acc' by (rule sweep_reviewers_keeps[OF ok on])
    then show ?thesis using n by (simp add: only_notified_def open_cycle_id_def)
  qed
qed

text \<open>The loop over the open cycles: what holds of each turn holds of the sweep. A turn leaves
  the later ones open.\<close>

lemma sweep_induct:
  assumes "foldres (sweep_cycle url send coll) due acc = Inr acc'" "reviewed_ok (snd acc)"
    and "distinct (map fst due)" "\<forall>d \<in> set due. open_cycle_id (fst d) (snd acc)"
    and turn: "\<And>acc acc' i org_id. reviewed_ok (snd acc) \<Longrightarrow> open_cycle_id i (snd acc) \<Longrightarrow>
      sweep_cycle url send coll (i, org_id) acc = Inr acc' \<Longrightarrow> R (snd acc) (snd acc')"
    and R: "\<And>s. R s s" "\<And>s t u. R s t \<Longrightarrow> R t u \<Longrightarrow> keeps_closed t u \<Longrightarrow> R s u"
  shows "reviewed_ok (snd acc') \<and> keeps_closed (snd acc) (snd acc') \<and> R (snd acc) (snd acc')"
  using assms(1-4)
proof (induction due arbitrary: acc)
  case (Cons d due)
  obtain i org_id where d: "d = (i, org_id)" by (cases d)
  obtain acc1 where r: "sweep_cycle url send coll d acc = Inr acc1" "foldres (sweep_cycle url send coll) due acc1 = Inr acc'"
    using Cons.prems(1) by (auto split: sum.splits)
  have op: "open_cycle_id i (snd acc)" using Cons.prems(4) d by simp
  note one = sweep_cycle_both[OF Cons.prems(2) op r(1)[unfolded d]]
  have "\<forall>e \<in> set due. open_cycle_id (fst e) (snd acc1)"
  proof
    fix e assume e: "e \<in> set due"
    then have "fst e \<in> set (map fst due)" by simp
    then have "fst e \<noteq> i" using Cons.prems(3) d by auto
    then show "open_cycle_id (fst e) (snd acc1)" using one Cons.prems(4) e by simp
  qed
  then have rest: "reviewed_ok (snd acc') \<and> keeps_closed (snd acc1) (snd acc') \<and> R (snd acc1) (snd acc')"
    using Cons.IH[OF r(2)] one Cons.prems(3) by simp
  have "R (snd acc) (snd acc1)" by (rule turn[OF Cons.prems(2) op r(1)[unfolded d]])
  then show ?case using one rest R(2) keeps_closed_trans by blast
qed (use R(1) in simp)

lemma due_open:
  assumes ok: "reviewed_ok s"
  shows "distinct (map fst (review_cycles_due_for_sweep s))"
    and "\<forall>d \<in> set (review_cycles_due_for_sweep s). open_cycle_id (fst d) s \<and> fst d \<in> rc_id ` set (t_cycle s)"
proof -
  have keys: "pk_ok rc_id (new_id s) (t_cycle s)" using ok by (simp add: reviewed_ok_def review_ok_def review_keys_def)
  show "distinct (map fst (review_cycles_due_for_sweep s))"
    using pk_ok_filter[OF keys, of "\<lambda>c. rc_status c = CycleOpen"]
    by (simp add: review_cycles_due_for_sweep_def o_def pk_ok_def)
  show "\<forall>d \<in> set (review_cycles_due_for_sweep s). open_cycle_id (fst d) s \<and> fst d \<in> rc_id ` set (t_cycle s)"
  proof
    fix d assume "d \<in> set (review_cycles_due_for_sweep s)"
    then obtain c where c: "c \<in> set (t_cycle s)" "rc_status c = CycleOpen" "fst d = rc_id c"
      by (auto simp: review_cycles_due_for_sweep_def)
    have "open_cycle_id (fst d) s" unfolding open_cycle_id_def
    proof (intro ballI impI)
      fix x assume x: "x \<in> set (t_cycle s)" "rc_id x = fst d"
      have "x = c" by (rule pk_ok_inj[OF keys x(1) c(1)]) (simp add: x(2) c(3))
      then show "rc_status x = CycleOpen" using c(2) by simp
    qed
    then show "open_cycle_id (fst d) s \<and> fst d \<in> rc_id ` set (t_cycle s)" using c by simp
  qed
qed

lemma sweep_rel:
  assumes ok: "reviewed_ok s" and run: "review_cycle_sweep url send coll s = Inr (counts, s')"
    and turn: "\<And>acc acc' i org_id. reviewed_ok (snd acc) \<Longrightarrow> open_cycle_id i (snd acc) \<Longrightarrow>
      sweep_cycle url send coll (i, org_id) acc = Inr acc' \<Longrightarrow> R (snd acc) (snd acc')"
    and R: "\<And>s. R s s" "\<And>s t u. R s t \<Longrightarrow> R t u \<Longrightarrow> keeps_closed t u \<Longrightarrow> R s u"
  shows "reviewed_ok s' \<and> keeps_closed s s' \<and> R s s'"
proof -
  have "\<forall>d \<in> set (review_cycles_due_for_sweep s). open_cycle_id (fst d) (snd ((0, 0, 0), s))"
    using due_open(2)[OF ok] by simp
  from sweep_induct[where R = R, OF run[unfolded review_cycle_sweep_def] _ due_open(1)[OF ok] this turn R]
  show ?thesis using ok by simp
qed

lemma sweep_both:
  assumes "reviewed_ok s" "review_cycle_sweep url send coll s = Inr (counts, s')"
  shows "reviewed_ok s' \<and> keeps_closed s s'"
  using sweep_rel[OF assms, of "\<lambda>_ _. True"] by simp

subsection \<open>The handlers\<close>

lemma api_both:
  assumes "reviewed_ok s'" "keeps_closed s s'"
  shows "reviewed_ok (log_review ac at og a e i af via s') \<and> keeps_closed s (log_review ac at og a e i af via s')"
  using log_review_ok[OF assms(1)] keeps_closed_trans[OF assms(2) log_review_keeps] by blast

lemma open_by_hand_both:
  assumes "reviewed_ok s" "open_by_hand org_id user_id s = Inr s'"
  shows "reviewed_ok s' \<and> keeps_closed s s'"
proof -
  from assms(2) obtain c rs s1 where o: "open_cycle org_id (uuid_text user_id) s = Inr ((c, rs), s1)"
    and s': "s' = log_api user_id org_id ''review_cycle.open'' ''review_cycle'' (rc_id c) (opened_json c rs) s1"
    by (auto simp: open_by_hand_def split: sum.splits)
  show ?thesis unfolding s' by (rule api_both[OF open_cycle_ok[OF assms(1) o] open_keeps_closed[OF assms(1) o]])
qed

lemma record_view_keeps:
  assumes "reviewed_ok s"
  shows "keeps_closed s (record_view org_id i u s)"
proof (cases "record_view org_id i u s = s")
  case False
  have rok: "review_ok s" using assms by (simp add: reviewed_ok_def)
  from False obtain r where r: "reviewer_of org_id i u s = Some r" "rr_status r = Requested"
    "record_view org_id i u s = update_reviewer (rr_id r) (\<lambda>r. r\<lparr>rr_status := Viewed, rr_viewed_at := Some (now_of s)\<rparr>) s"
    unfolding record_view_def by (cases "reviewer_of org_id i u s") (simp_all split: if_splits)
  have rr: "r \<in> set (t_reviewer s)" using reviewer_of_SomeD[OF r(1)] by simp
  show ?thesis unfolding r(3)
  proof (rule update_keeps_closed[OF rok])
    fix q assume q: "q \<in> set (t_reviewer s)" "rr_id q = rr_id r"
    have "q = r" by (rule same_reviewer[OF rok q(1) rr q(2)])
    then show "open_cycle_id (rr_cycle_id q) s" using pending_open[OF rok rr] r(2) by simp
  qed simp
qed simp

lemma attest_cycle_both:
  assumes "reviewed_ok s" "attest_cycle coll org_id i u note s = Inr s'"
  shows "reviewed_ok s' \<and> keeps_closed s s'"
proof -
  from assms(2) obtain r s1 k where a: "attest coll org_id i u note s = Inr (r, s1)"
    and s': "s' = log_api u org_id ''review_cycle.attest'' ''review_cycle'' i k s1"
    by (auto simp: attest_cycle_def split: sum.splits)
  show ?thesis unfolding s' by (rule api_both[OF attest_ok[OF assms(1) a] attest_keeps_closed[OF assms(1) a]])
qed

lemma flag_request_both:
  assumes "reviewed_ok s" "flag_request org_id c i u nm reason s = Inr s'"
  shows "reviewed_ok s' \<and> keeps_closed s s'"
proof -
  from assms(2) obtain who flag s1 k where a: "flag_item org_id i who nm reason s = Inr (flag, s1)"
    and s': "s' = log_api u org_id ''review_cycle.flag'' ''review_cycle_item'' i k s1"
    by (auto simp: flag_request_def Let_def split: sum.splits)
  have "keeps_closed s s1" by (rule keeps_closed_same) (use a in \<open>auto simp: flag_item_def Let_def split: option.splits if_splits\<close>)
  then show ?thesis unfolding s' by (rule api_both[OF flag_item_ok[OF assms(1) a]])
qed

lemma resolve_request_both:
  assumes "reviewed_ok s" "resolve_request org_id i u note s = Inr s'"
  shows "reviewed_ok s' \<and> keeps_closed s s'"
proof -
  from assms(2) obtain flag s1 j k where a: "resolve_flag org_id i note s = Inr (flag, s1)"
    and s': "s' = log_api u org_id ''review_cycle.flag_resolved'' ''review_cycle_flag'' j k s1"
    by (auto simp: resolve_request_def split: sum.splits)
  have "keeps_closed s s1" by (rule keeps_closed_same) (use a in \<open>auto simp: resolve_flag_def split: option.splits if_splits\<close>)
  then show ?thesis unfolding s' by (rule api_both[OF resolve_flag_ok[OF assms(1) a]])
qed

lemma detach_unattested_keeps:
  "detach_unattested org_id actor s = Inr (found, s') \<Longrightarrow> keeps_closed s s'"
  by (rule keeps_closed_same) (auto simp: detach_unattested_def Let_def split: sum.splits)

subsection \<open>The engine's requests\<close>

lemma touches_next: "touches aid s u \<Longrightarrow> next_id s \<le> next_id (snd (recompute_sprs aid u))"
  by (rule le_trans[of _ "next_id u"]) (simp_all add: touches_def)

lemma backfill_next: "next_id s \<le> next_id (snd (backfill_missing_control_states reason dry s))"
proof -
  have one: "next_id (snd p) \<le> next_id (snd (backfill_one reason p a))" for p :: "backfill_result list \<times> db" and a
  proof -
    let ?s1 = "add_states (a_org_id a) (a_id a) (map fst (missing_objectives a (snd p))) (snd p)"
    have "next_id (snd p) \<le> next_id ?s1" by (simp add: add_states_def)
    then have "next_id (snd p) \<le> next_id (snd (recompute_sprs (a_id a) ?s1))"
      by (rule le_trans) (rule recompute_frame)
    then show ?thesis by (simp add: backfill_one_def Let_def case_prod_unfold)
  qed
  have "next_id (snd p) \<le> next_id (snd (foldl (backfill_one reason) p as))" for p as
  proof (induction as arbitrary: p)
    case (Cons a as)
    show ?case using le_trans[OF one[of p a] Cons[of "backfill_one reason p a"]] by simp
  qed simp
  from this[of "([], s)"] show ?thesis
    by (simp add: backfill_missing_control_states_def Let_def case_prod_unfold)
qed

lemma serve_next:
  assumes ok: "engine_ok s" and run: "serve r s = Inr s'"
  shows "next_id s \<le> next_id s'"
proof -
  have sok: "schema_ok s" using ok by (simp add: engine_ok_def)
  show ?thesis
  proof (cases r)
    case (StartAssessment a b c d)
    then obtain i where r: "start_assessment a b c d s = Inr (i, s')" using run by (auto dest!: map_sum_Inr)
    from r obtain s3 ops where i: "i = next_id s" and
      s3: "foldres (start_product a i) ops (start_seeded a b c d s) = Inr s3" and
      s': "s' = snd (recompute_sprs i s3)" by (rule start_InrD)
    have "touches i (start_seeded a b c d s) s3"
      using start_products_ok[OF _ s3] engine_ok_start_seeded(1)[OF ok, of a b c d] by (simp add: i engine_ok_but_def)
    moreover have "next_id s \<le> next_id (start_seeded a b c d s)"
      by (simp add: start_seeded_def seed_control_states_def add_states_def)
    ultimately show ?thesis unfolding s' using touches_next le_trans by blast
  next
    case (Activate a b c d e)
    then obtain res where r: "activate_org_product a b c d e s = Inr (res, s')" using run by (auto dest!: map_sum_Inr)
    obtain u c1 c2 i c3 where t: "touches c s u" and
      s': "s' = log_event a ''org_product.activate'' ''org_product'' i c1 c2 c3 (snd (recompute_sprs c u))"
      by (rule activate_touches[OF sok r]) blast
    show ?thesis using touches_next[OF t] by (simp add: s')
  next
    case (Deactivate a b c d e)
    then obtain res where r: "deactivate_org_product a b c d e s = Inr (res, s')" using run by (auto dest!: map_sum_Inr)
    obtain u where u: "touches c s u" "s' = snd (recompute_sprs c u)" using deactivate_facts[OF sok r] by metis
    show ?thesis unfolding u(2) by (rule touches_next[OF u(1)])
  next
    case (MoveVersion a b c d)
    then obtain res where r: "move_org_product_version a b c d s = Inr (res, s')" using run by (auto dest!: map_sum_Inr)
    from move_InrD[OF r] obtain op k where a: "apply_move k op d s = Inr (res, s')" by metis
    obtain u where u: "touches (mc_assessment k) s u" "s' = snd (recompute_sprs (mc_assessment k) u)"
      using apply_move_facts[OF sok a] by metis
    show ?thesis unfolding u(2) by (rule touches_next[OF u(1)])
  next
    case (Complete a b)
    then show ?thesis using run by (auto elim!: complete_InrD simp: update_assessment_def)
  next
    case (Reopen a b)
    then show ?thesis using run by (auto elim!: reopen_InrD simp: update_assessment_def)
  next
    case (CarryRaci a b c)
    then show ?thesis using run copy_forward_db by (fastforce dest!: map_sum_Inr)
  next
    case (Backfill reason dry)
    then show ?thesis using run backfill_next[of s reason dry] by simp
  qed
qed

lemma link_step_evidence: "link_step now e l l' \<Longrightarrow> ln_evidence_id l' = ln_evidence_id l"
  by (erule link_stepE) (auto dest!: archive_InrD)

lemma link_run_evidence: "link_run es l l' \<Longrightarrow> ln_evidence_id l' = ln_evidence_id l"
  by (induction rule: link_run.induct) (auto dest: link_step_evidence)

lemma serve_evidence_ids:
  assumes "engine_ok s" "serve r s = Inr s'"
  shows "map ln_evidence_id (t_link s') = map ln_evidence_id (t_link s)"
proof -
  have "list_all2 (\<lambda>l l'. ln_evidence_id l' = ln_evidence_id l) (t_link s) (t_link s')"
    by (rule list_all2_mono[OF serve_links[OF assms]]) (auto simp: lives_def link_run_evidence)
  then show ?thesis by (induction rule: list_all2_induct) auto
qed

lemma engine_request_both:
  assumes ok: "reviewed_ok s" and run: "engine_request r s = Inr s'"
  shows "reviewed_ok s' \<and> keeps_closed s s'"
proof -
  obtain u where u: "serve r (rv_db s) = Inr u" "s' = s\<lparr>rv_db := u\<rparr>"
    using run by (cases "serve r (rv_db s)") (simp_all add: engine_request_def)
  have eng: "engine_ok (rv_db s)" using ok by (simp add: reviewed_ok_def)
  have u': "engine_ok u" "catalog_eq (rv_db s) u" using serve_ok[OF eng u(1)] by simp_all
  have "reviewed_ok s'"
  proof (rule same_reviews_ok[OF ok])
    show "engine_ok (rv_db s')" by (simp add: u'(1) u(2))
    have le: "next_id (rv_db s) \<le> next_id u" by (rule serve_next[OF eng u(1)])
    then have "pk_ok fl_id (next_id u) (t_flag s)"
      using ok review_flags_ok pk_ok_mono[of fl_id "new_id s" "t_flag s"] by (simp add: reviewed_ok_def new_id_def)
    then show "same_reviews s s'"
      using le u'(2) serve_evidence_ids[OF eng u(1)] by (simp add: same_reviews_def u(2) new_id_def catalog_eq_def)
  qed
  moreover have "keeps_closed s s'" by (rule keeps_closed_same) (simp_all add: u(2))
  ultimately show ?thesis by blast
qed

subsection \<open>Every step\<close>

lemma later_both:
  assumes ok: "reviewed_ok s"
  shows "reviewed_ok (s\<lparr>rv_db := (rv_db s)\<lparr>clock := now\<rparr>\<rparr>) \<and> keeps_closed s (s\<lparr>rv_db := (rv_db s)\<lparr>clock := now\<rparr>\<rparr>)"
proof -
  let ?s' = "s\<lparr>rv_db := (rv_db s)\<lparr>clock := now\<rparr>\<rparr>"
  have eng: "engine_ok (rv_db s)" using ok by (simp add: reviewed_ok_def)
  have "schema_ok ((rv_db s)\<lparr>clock := now\<rparr>)"
    using eng by (simp add: engine_ok_def schema_ok_def catalog_ok_def)
  then have "engine_ok (rv_db ?s')" by (intro engine_ok_states[OF eng]) simp_all
  then have "reviewed_ok ?s'"
    by (rule same_reviews_ok[OF ok]) (use ok review_flags_ok in \<open>simp add: same_reviews_def new_id_def reviewed_ok_def\<close>)
  moreover have "keeps_closed s ?s'" by (rule keeps_closed_same) simp_all
  ultimately show ?thesis by blast
qed

text \<open>Forgetting an account changes nothing the invariant is about.\<close>

lemma forget_user_fields [simp]:
  "rr_id (forget_user us r) = rr_id r" "rr_cycle_id (forget_user us r) = rr_cycle_id r"
  "rr_status (forget_user us r) = rr_status r" "rr_notified_at (forget_user us r) = rr_notified_at r"
  "as_reviewed (forget_user us r) = as_reviewed r"
  by (simp_all add: forget_user_def as_reviewed_def)

lemma forget_entity_fields [simp]:
  "ri_id (forget_entity es i) = ri_id i" "as_presented (forget_entity es i) = as_presented i"
  by (simp_all add: forget_entity_def as_presented_def)

lemma cycle_ok_forget [simp]: "cycle_ok c (map (forget_user us) rs) = cycle_ok c rs"
  by (simp add: cycle_ok_def under_way_def truthful_answer_def split: cycle_status.split)

lemma edit_both:
  fixes a b c
  assumes ok: "reviewed_ok s"
  defines "s' \<equiv> s\<lparr>t_scope := a, t_user := b, t_membership := c, t_item := map (forget_entity a) (t_item s),
    t_reviewer := map (forget_user b) (t_reviewer s)\<rparr>"
  shows "reviewed_ok s' \<and> keeps_closed s s'"
proof -
  have on: "reviewers_on i s' = map (forget_user b) (reviewers_on i s)" for i
    by (simp add: reviewers_on_def s'_def filter_map o_def)
  have "review_keys s'"
    using ok by (simp add: reviewed_ok_def review_ok_def review_keys_def s'_def pk_ok_def new_id_def image_image o_def)
  moreover have "one_open s'" "evidence_ok (rv_db s')" "engine_ok (rv_db s')"
    using ok by (simp_all add: reviewed_ok_def review_ok_def one_open_def s'_def)
  moreover have "cycle_ok c (reviewers_on (rc_id c) s') \<and> record_count_ok s' c" if "c \<in> set (t_cycle s')" for c
    using ok that unfolding on
    by (simp add: reviewed_ok_def review_ok_def s'_def record_count_ok_def records_of_def)
  ultimately have "reviewed_ok s'" by (simp add: reviewed_ok_def review_ok_def)
  moreover have "keeps_closed s s'"
    unfolding keeps_closed_def on by (simp add: s'_def o_def)
  ultimately show ?thesis by blast
qed

lemma map_sum_InrE: "map_sum f g x = Inr y \<Longrightarrow> \<exists>z. x = Inr z \<and> y = g z"
  by (cases x) auto

lemma serve_app_both:
  assumes ok: "reviewed_ok s" and run: "serve_app d r s = Inr s'"
  shows "reviewed_ok s' \<and> keeps_closed s s'"
proof (cases r)
  case (EngineRequest q)
  then show ?thesis using run engine_request_both[OF ok] by (auto dest!: map_sum_InrE)
next
  case (OpenByHand a b)
  then show ?thesis using run open_by_hand_both[OF ok] by (auto dest!: map_sum_InrE)
next
  case (GetCycle a b c)
  then show ?thesis using run record_view_ok[OF ok] record_view_keeps[OF ok]
    by (auto dest!: map_sum_InrE simp: get_cycle_def split: option.splits if_splits)
next
  case (AttestCycle a b c e)
  then show ?thesis using run attest_cycle_both[OF ok] by (auto dest!: map_sum_InrE)
next
  case (FlagItem a b c e f g)
  then show ?thesis using run flag_request_both[OF ok] by (auto dest!: map_sum_InrE)
next
  case (ResolveFlag a b c e)
  then show ?thesis using run resolve_request_both[OF ok] by (auto dest!: map_sum_InrE)
next
  case OpenDueJob
  then have "review_cycle_open (dp_public_url d) (dp_send d) s = Inr s'" using run by (auto dest!: map_sum_InrE)
  then have f: "foldres (open_due (dp_public_url d) (dp_send d)) (orgs_due_for_review_cycle_open s) s = Inr s'"
    by (simp add: review_cycle_open_def)
  have "keeps_closed s s'" by (rule foldres_keeps[OF f ok]) (rule open_due_both)
  then show ?thesis using review_cycle_open_ok[OF ok, unfolded review_cycle_open_def, OF f] by blast
next
  case SweepJob
  then show ?thesis using run sweep_both[OF ok] by (fastforce dest!: map_sum_InrE)
next
  case (DetachUnattested a b)
  then show ?thesis using run detach_unattested_ok[OF ok] detach_unattested_keeps by (fastforce dest!: map_sum_InrE)
next
  case (Later now)
  then show ?thesis using run later_both[OF ok] by auto
next
  case (Edit a b c)
  then show ?thesis using run edit_both[OF ok] by auto
qed

interpretation app: transactions "serve_app d" "\<lambda>_. True" reviewed_ok keeps_closed for d
  using serve_app_both keeps_closed_trans by unfold_locales (blast, blast, simp, blast)

lemma app_step_eq: "app_step d = (\<lambda>s r. case serve_app d r s of Inl e \<Rightarrow> s | Inr s' \<Rightarrow> s')"
  by (simp add: app_step_def[abs_def])

lemma app_run:
  assumes "reviewed_ok s"
  shows "reviewed_ok (foldl (app_step d) s rs) \<and> keeps_closed s (foldl (app_step d) s rs)"
  unfolding app_step_eq by (rule app.run[OF assms]) (simp add: list_all_iff)

end
