(* ===== verification/Review_Records.thy ===== *)
theory Review_Records
  imports App_Requests
begin

section \<open>Which records are attached, which reminders were sent\<close>

text \<open>
  Two more invariants of the machine, each followed through every step: a record of a cycle that
  closed without attestation is no evidence of anything (no link of it is live, or would be
  restored by a product's reactivation), and no reminder is sent twice.
\<close>

subsection \<open>Links of unattested records\<close>

text \<open>A link that counts, or would count again when its product comes back.\<close>

definition standing :: "state_link \<Rightarrow> bool" where
  "standing l \<longleftrightarrow> \<not> ln_is_archived l \<or> ln_archived_by_product l \<noteq> None"

definition records :: "review_db \<Rightarrow> uuid \<Rightarrow> cycle_status \<Rightarrow> bool" where
  "records s i st \<longleftrightarrow> (\<exists>e \<in> set (t_evidence (rv_db s)). \<exists>c \<in> set (t_cycle s).
     ev_id e = i \<and> ev_source_review_cycle e = Some (rc_id c) \<and> rc_status c = st)"

definition only_attested :: "review_db \<Rightarrow> bool" where
  "only_attested s \<longleftrightarrow> (\<forall>l \<in> set (t_link (rv_db s)). standing l \<longrightarrow>
     (\<forall>st. records s (ln_evidence_id l) st \<longrightarrow> st = ATTESTS))"

text \<open>How links and artifacts flow in a step: artifacts are only added, and a link that stands
  afterwards stood before, or is one of the record of a completed cycle.\<close>

definition link_flow :: "review_db \<Rightarrow> review_db \<Rightarrow> bool" where
  "link_flow s s' \<longleftrightarrow> prefix (t_evidence (rv_db s)) (t_evidence (rv_db s')) \<and>
     (\<forall>l' \<in> set (t_link (rv_db s')). standing l' \<longrightarrow>
        (\<exists>l \<in> set (t_link (rv_db s)). standing l \<and> ln_evidence_id l = ln_evidence_id l') \<or>
        records s' (ln_evidence_id l') ATTESTS)"

lemma link_flow_same:
  "t_evidence (rv_db s') = t_evidence (rv_db s) \<Longrightarrow> t_link (rv_db s') = t_link (rv_db s) \<Longrightarrow> link_flow s s'"
  by (auto simp: link_flow_def)

lemma link_flow_refl [simp]: "link_flow s s"
  by (rule link_flow_same) simp_all

lemma records_kept:
  assumes "keeps_closed s s'" "prefix (t_evidence (rv_db s)) (t_evidence (rv_db s'))" "records s i ATTESTS"
  shows "records s' i ATTESTS"
  using assms set_mono_prefix[OF assms(2)] unfolding records_def keeps_closed_def ATTESTS_def
  by (metis cycle_status.distinct(1) subsetD)

lemma link_flow_trans:
  assumes "link_flow s t" "link_flow t u" "keeps_closed t u"
  shows "link_flow s u"
  unfolding link_flow_def
proof (intro conjI ballI impI)
  show "prefix (t_evidence (rv_db s)) (t_evidence (rv_db u))"
    using assms(1,2) prefix_order.trans unfolding link_flow_def by blast
  have pre: "prefix (t_evidence (rv_db t)) (t_evidence (rv_db u))" using assms(2) by (simp add: link_flow_def)
  fix l'' assume l: "l'' \<in> set (t_link (rv_db u))" "standing l''"
  then consider l' where "l' \<in> set (t_link (rv_db t))" "standing l'" "ln_evidence_id l' = ln_evidence_id l''"
    | "records u (ln_evidence_id l'') ATTESTS" using assms(2) unfolding link_flow_def by blast
  then show "(\<exists>l \<in> set (t_link (rv_db s)). standing l \<and> ln_evidence_id l = ln_evidence_id l'') \<or>
      records u (ln_evidence_id l'') ATTESTS"
  proof cases
    case (1 l')
    then have "(\<exists>l \<in> set (t_link (rv_db s)). standing l \<and> ln_evidence_id l = ln_evidence_id l') \<or>
        records t (ln_evidence_id l') ATTESTS" using assms(1) unfolding link_flow_def by blast
    then show ?thesis using 1(3) records_kept[OF assms(3) pre] by auto
  qed blast
qed

text \<open>A record's cycle is closed, so what it says is final.\<close>

lemma records_final:
  assumes ok: "review_ok s" and ok': "review_ok s'" and kc: "keeps_closed s s'"
    and pre: "prefix (t_evidence (rv_db s)) (t_evidence (rv_db s'))"
    and i: "i \<in> ev_id ` set (t_evidence (rv_db s))" and r: "records s' i st"
  shows "records s i st"
proof -
  obtain e c where e: "e \<in> set (t_evidence (rv_db s'))" "ev_id e = i" "ev_source_review_cycle e = Some (rc_id c)"
    and c: "c \<in> set (t_cycle s')" "rc_status c = st" using r by (auto simp: records_def)
  obtain e0 where e0: "e0 \<in> set (t_evidence (rv_db s))" "ev_id e0 = i" using i by auto
  have keys: "pk_ok ev_id (next_id (rv_db s')) (t_evidence (rv_db s'))"
    and ckeys: "pk_ok rc_id (new_id s') (t_cycle s')"
    using ok' by (simp_all add: review_ok_def evidence_ok_def review_keys_def)
  have "e0 \<in> set (t_evidence (rv_db s'))" using e0(1) set_mono_prefix[OF pre] by blast
  then have "e0 = e" by (rule pk_ok_inj[OF keys _ e(1)]) (simp add: e0(2) e(2))
  then have src: "ev_source_review_cycle e0 = Some (rc_id c)" using e(3) by simp
  have "rc_id c \<in> rc_id ` set (t_cycle s)"
    using ok e0(1) src by (auto simp: review_ok_def review_keys_def)
  then obtain d where d: "d \<in> set (t_cycle s)" "rc_id d = rc_id c" by auto
  have "e0 \<in> set (records_of (rc_id d) s)" using e0(1) src d(2) by (simp add: records_of_def)
  then have "records_of (rc_id d) s \<noteq> []" by (metis empty_iff list.set(1))
  then have "rc_status d \<noteq> CycleOpen"
    using ok d(1) by (auto simp: review_ok_def record_count_ok_def)
  then have "d \<in> set (t_cycle s')" using kc d(1) by (simp add: keeps_closed_def)
  then have "d = c" by (rule pk_ok_inj[OF ckeys _ c(1) d(2)])
  then show ?thesis using d(1) c(2) e0 src by (auto simp: records_def)
qed

lemma only_attested_flow:
  assumes ok: "review_ok s" and ok': "review_ok s'" and kc: "keeps_closed s s'" and flow: "link_flow s s'"
    and only: "only_attested s"
  shows "only_attested s'"
  unfolding only_attested_def
proof (intro ballI impI allI)
  fix l' st assume l': "l' \<in> set (t_link (rv_db s'))" "standing l'" and r: "records s' (ln_evidence_id l') st"
  have pre: "prefix (t_evidence (rv_db s)) (t_evidence (rv_db s'))" using flow by (simp add: link_flow_def)
  consider l where "l \<in> set (t_link (rv_db s))" "standing l" "ln_evidence_id l = ln_evidence_id l'"
    | "records s' (ln_evidence_id l') ATTESTS" using flow l' unfolding link_flow_def by blast
  then show "st = ATTESTS"
  proof cases
    case (1 l)
    have "ln_evidence_id l' \<in> ev_id ` set (t_evidence (rv_db s))"
      using ok 1(1,3) unfolding review_ok_def evidence_ok_def by (metis imageI subsetD)
    from records_final[OF ok ok' kc pre this r] have "records s (ln_evidence_id l) st" unfolding 1(3) .
    then show ?thesis using only 1(1,2) by (simp add: only_attested_def)
  next
    case 2
    obtain e c where e: "e \<in> set (t_evidence (rv_db s'))" "ev_id e = ln_evidence_id l'" "ev_source_review_cycle e = Some (rc_id c)"
      and c: "c \<in> set (t_cycle s')" "rc_status c = st" using r by (auto simp: records_def)
    obtain e2 c2 where e2: "e2 \<in> set (t_evidence (rv_db s'))" "ev_id e2 = ln_evidence_id l'" "ev_source_review_cycle e2 = Some (rc_id c2)"
      and c2: "c2 \<in> set (t_cycle s')" "rc_status c2 = ATTESTS" using 2 by (auto simp: records_def)
    have keys: "pk_ok ev_id (next_id (rv_db s')) (t_evidence (rv_db s'))"
      and ckeys: "pk_ok rc_id (new_id s') (t_cycle s')"
      using ok' by (simp_all add: review_ok_def evidence_ok_def review_keys_def)
    have "e = e2" by (rule pk_ok_inj[OF keys e(1) e2(1)]) (simp add: e(2) e2(2))
    then have "rc_id c = rc_id c2" using e(3) e2(3) by simp
    then have "c = c2" by (rule pk_ok_inj[OF ckeys c(1) c2(1)])
    then show ?thesis using c(2) c2(2) by simp
  qed
qed

subsection \<open>The flow of every step\<close>

lemma engine_flow:
  assumes ok: "reviewed_ok s" and run: "engine_request r s = Inr s'"
  shows "link_flow s s'"
proof -
  obtain u where u: "serve r (rv_db s) = Inr u" "s' = s\<lparr>rv_db := u\<rparr>"
    using run by (cases "serve r (rv_db s)") (simp_all add: engine_request_def)
  have eng: "engine_ok (rv_db s)" using ok by (simp add: reviewed_ok_def)
  have ev: "t_evidence u = t_evidence (rv_db s)" using serve_ok[OF eng u(1)] by (simp add: catalog_eq_def)
  have step: "link_step now e l l' \<Longrightarrow> engine_event (now, e) \<Longrightarrow> standing l" for now e l l'
    by (erule link_stepE) (auto simp: engine_event_def standing_def)
  have run: "link_run es l l' \<Longrightarrow> list_all engine_event es \<Longrightarrow> standing l' \<Longrightarrow> standing l" for es l l'
    by (induction rule: link_run.induct) (auto dest: step)
  have "list_all2 (\<lambda>l l'. ln_evidence_id l' = ln_evidence_id l \<and> (standing l' \<longrightarrow> standing l)) (t_link (rv_db s)) (t_link u)"
    by (rule list_all2_mono[OF serve_links[OF eng u(1)]]) (auto simp: lives_def link_run_evidence dest: run)
  then have "\<exists>l \<in> set (t_link (rv_db s)). standing l \<and> ln_evidence_id l = ln_evidence_id l'"
    if "l' \<in> set (t_link u)" "standing l'" for l'
    using that unfolding list_all2_conv_all_nth by (metis in_set_conv_nth)
  then show ?thesis by (simp add: link_flow_def u(2) ev)
qed

lemma close_flow:
  assumes ok: "evidence_ok (rv_db s)" and c: "c \<in> set (t_cycle s)"
  shows "link_flow s (snd (close_cycle coll c st s))"
proof -
  let ?s' = "snd (close_cycle coll c st s)" and ?ev = "fst (close_cycle coll c st s)"
  have ev: "t_evidence (rv_db ?s') = t_evidence (rv_db s) @ [?ev]" by (rule close_cycle_effect(9))
  have "(\<exists>l \<in> set (t_link (rv_db s)). standing l \<and> ln_evidence_id l = ln_evidence_id l') \<or>
      records ?s' (ln_evidence_id l') ATTESTS" if l': "l' \<in> set (t_link (rv_db ?s'))" "standing l'" for l'
  proof (cases "l' \<in> set (t_link (rv_db s))")
    case False
    then have st: "closed_as c st s = ATTESTS" and new: "\<exists>n css. l' \<in> set (insert_rows (mk_link (new_id s)) n css)"
      using l'(1) unfolding close_db Let_def add_evidence_def by (auto split: if_splits)
    then have "ln_evidence_id l' = ev_id ?ev" by (auto dest: set_insert_rows)
    moreover have "close_row (closed_as c st s) (now_of s) c \<in> set (t_cycle ?s')"
      unfolding close_cycle_effect(1) set_tupd by (rule rev_image_eqI[OF c]) simp
    moreover have "?ev \<in> set (t_evidence (rv_db ?s'))" by (simp add: ev)
    ultimately have "records ?s' (ln_evidence_id l') ATTESTS"
      unfolding records_def st by (intro bexI[of _ ?ev] bexI[of _ "close_row ATTESTS (now_of s) c"]) simp_all
    then show ?thesis ..
  qed (use l' in blast)
  then show ?thesis by (simp add: link_flow_def ev)
qed

lemma detach_one_flow:
  assumes run: "detach_one org_id actor f s = Inr s'" and ok: "schema_ok s"
  shows "t_evidence s' = t_evidence s \<and> schema_ok s' \<and>
    list_all2 (\<lambda>l l'. ln_id l' = ln_id l \<and> ln_evidence_id l' = ln_evidence_id l \<and> ln_state_id l' = ln_state_id l \<and>
      (standing l' \<longrightarrow> standing l \<and> ln_id l \<noteq> ln_id (fst f))) (t_link s) (t_link s')"
proof -
  obtain l c where f: "f = (l, c)" by (cases f)
  have "detach org_id l (Some actor) ATTESTATION_DETACH ''evidence.attestation_detach''
          [(''reason'', JStr DETACH_REASON), (''review_cycle_id'', JUuid (rc_id c)),
           (''cycle_status'', JStr (cycle_status_value (rc_status c)))]
          (Some actor) (Some ''system'') s = Inr s'" using run by (simp add: detach_one_def f)
  then obtain e b af k where s': "s' = update_link (ln_id l) (archive_row ATTESTATION_DETACH (clock s) None (Some actor))
       (log_event_as (Some actor) (Some ''system'') (Some org_id) ''evidence.attestation_detach'' ''evidence'' e b af k s)"
    by (rule detach_InrD)
  have "schema_ok s'" unfolding s'
    by (rule schema_ok_update_link) (simp_all add: schema_ok_log_event ok link_ok_archive_row cause_defs)
  moreover have "\<not> standing (archive_row ATTESTATION_DETACH (clock s) None (Some actor) x)" for x
    by (simp add: standing_def)
  ultimately show ?thesis
    by (auto simp: s' f tupd_def list_all2_map2 list_all2_same)
qed

lemma detach_all_flow:
  assumes "foldres (detach_one org_id actor) fs s = Inr s'" "schema_ok s"
  shows "t_evidence s' = t_evidence s \<and>
    list_all2 (\<lambda>l l'. ln_id l' = ln_id l \<and> ln_evidence_id l' = ln_evidence_id l \<and> ln_state_id l' = ln_state_id l \<and>
      (standing l' \<longrightarrow> standing l \<and> ln_id l \<notin> ln_id ` fst ` set fs)) (t_link s) (t_link s')"
  using assms
proof (induction fs arbitrary: s)
  case Nil
  then show ?case by (simp add: list_all2_same)
next
  case (Cons f fs)
  obtain t where t: "detach_one org_id actor f s = Inr t" "foldres (detach_one org_id actor) fs t = Inr s'"
    using Cons.prems(1) by (auto split: sum.splits)
  note one = detach_one_flow[OF t(1) Cons.prems(2)]
  note rest = Cons.IH[OF t(2)]
  have "list_all2 (\<lambda>l l'. ln_id l' = ln_id l \<and> ln_evidence_id l' = ln_evidence_id l \<and> ln_state_id l' = ln_state_id l \<and>
      (standing l' \<longrightarrow> standing l \<and> ln_id l \<notin> ln_id ` fst ` set (f # fs))) (t_link s) (t_link s')"
    by (rule list_all2_trans[OF _ conjunct2[OF conjunct2[OF one]] conjunct2[OF rest]]) (use one in auto)
  then show ?case using one rest by simp
qed

lemma list_all2_in2: "list_all2 P xs ys \<Longrightarrow> y \<in> set ys \<Longrightarrow> \<exists>x \<in> set xs. P x y"
  unfolding list_all2_conv_all_nth by (metis in_set_conv_nth)

lemma detach_unattested_flow:
  assumes ok: "reviewed_ok s" and run: "detach_unattested org_id actor s = Inr (found, s')"
  shows "link_flow s s'"
proof -
  from run obtain u where u: "foldres (detach_one org_id actor) found (rv_db s) = Inr u" and s': "s' = s\<lparr>rv_db := u\<rparr>"
    by (auto simp: detach_unattested_def Let_def split: sum.splits)
  have "schema_ok (rv_db s)" using ok by (simp add: reviewed_ok_def engine_ok_def)
  from detach_all_flow[OF u this] show ?thesis
    by (auto simp: link_flow_def s' dest!: list_all2_in2)
qed

lemma only_notified_flow: "only_notified s s' \<Longrightarrow> link_flow s s'"
  by (rule link_flow_same) (simp_all add: only_notified_def)

lemma log_review_flow: "link_flow s (log_review ac at og a e i af via s)"
  by (rule link_flow_same) (simp_all add: log_review_def)

lemma log_review_flow_after: "link_flow s t \<Longrightarrow> link_flow s (log_review ac at og a e i af via t)"
  using link_flow_trans[OF _ log_review_flow log_review_keeps] by blast

lemma open_flow: "open_cycle org_id who s = Inr ((c, rs), s') \<Longrightarrow> link_flow s s'"
  by (erule open_cycle_InrD) (rule link_flow_same, simp_all)

lemma open_due_flow:
  assumes ok: "reviewed_ok s" and run: "open_due url send org_id s = Inr s'"
  shows "link_flow s s'"
proof (cases "open_cycle org_id ''scheduler'' s")
  case (Inl e)
  then show ?thesis using run by (simp add: open_due_def)
next
  case (Inr p)
  obtain c rs s1 where p: "p = ((c, rs), s1)" by (metis prod.exhaust)
  let ?s2 = "log_job org_id ''review_cycle.open'' (rc_id c) (opened_json c rs) s1"
  have s': "s' = foldl (\<lambda>s r. snd (request_review url send r s)) ?s2 rs"
    using run Inr by (simp add: open_due_def p)
  have o: "open_cycle org_id ''scheduler'' s = Inr ((c, rs), s1)" using Inr p by simp
  have n: "reviewed_ok ?s2" by (rule log_review_ok[OF open_cycle_ok[OF ok o]])
  have on: "\<forall>r \<in> set rs. on_open ?s2 r" by (rule new_reviewers_on_open[OF ok o])
  have "link_flow ?s2 s'" "keeps_closed ?s2 s'"
    unfolding s' using notify_all_ok[OF n on] notify_all_keeps[OF n on] only_notified_flow by blast+
  then show ?thesis using link_flow_trans[OF log_review_flow_after[OF open_flow[OF o]]] by blast
qed

lemma foldres_flow:
  assumes "foldres f xs s = Inr s'" "reviewed_ok s"
    and "\<And>x s s'. reviewed_ok s \<Longrightarrow> f x s = Inr s' \<Longrightarrow> reviewed_ok s' \<and> keeps_closed s s' \<and> link_flow s s'"
  shows "link_flow s s'"
proof -
  have "reviewed_ok s' \<and> link_flow s s'"
    by (rule foldres_inv[OF assms(1), where P = "\<lambda>t. reviewed_ok t \<and> link_flow s t"])
      (use assms(2,3) link_flow_trans in \<open>simp, blast\<close>)
  then show ?thesis by blast
qed

lemma attest_flow:
  assumes ok: "reviewed_ok s" and run: "attest coll org_id i u note s = Inr (r1, s')"
  shows "link_flow s s'"
proof -
  from run obtain c r where c: "tget rc_id i (t_cycle s) = Some c" and r: "reviewer_of org_id i u s = Some r"
    and s': "s' = (let s1 = update_reviewer (rr_id r) (attest_row (now_of s) note) s
           in if \<forall>q \<in> set (reviewers_on i s1). rr_status q = Attested
              then snd (close_cycle coll c CycleCompleted s1) else s1)" by (rule attest_InrD)
  let ?s1 = "update_reviewer (rr_id r) (attest_row (now_of s) note) s"
  have ev: "evidence_ok (rv_db s)" "c \<in> set (t_cycle s)"
    using ok tget_SomeD[OF c] by (simp_all add: reviewed_ok_def review_ok_def)
  show ?thesis
  proof (cases "\<forall>q \<in> set (reviewers_on i ?s1). rr_status q = Attested")
    case True
    have "link_flow ?s1 (snd (close_cycle coll c CycleCompleted ?s1))"
      by (rule close_flow) (simp_all add: ev)
    then have "link_flow s (snd (close_cycle coll c CycleCompleted ?s1))" by (simp add: link_flow_def)
    then show ?thesis using True by (simp add: s')
  next
    case False
    then have "s' = ?s1" unfolding s' Let_def by (rule if_not_P)
    then show ?thesis by (simp add: link_flow_same)
  qed
qed

lemma sweep_cycle_flow:
  assumes ok: "reviewed_ok (snd acc)" and op: "open_cycle_id i (snd acc)"
    and run: "sweep_cycle url send coll (i, org_id) acc = Inr acc'"
  shows "link_flow (snd acc) (snd acc')"
proof -
  obtain a b k s where acc: "acc = ((a, b, k), s)" by (metis prod.exhaust)
  obtain c where c: "tget rc_id i (t_cycle s) = Some c"
    using run by (auto simp: acc sweep_cycle_def split: option.splits)
  let ?rs = "filter (\<lambda>r. rr_cycle_id r = i) (t_reviewer s)"
  show ?thesis
  proof (cases "rc_due_at c \<le> now_of s")
    case True
    obtain act after where acc': "snd acc' = log_job org_id act i after (snd (close_cycle coll c ClosedUnattested s))"
      using run True c by (auto simp: acc sweep_cycle_def Let_def)
    have "link_flow s (snd (close_cycle coll c ClosedUnattested s))"
      by (rule close_flow) (use ok tget_SomeD[OF c] in \<open>simp_all add: acc reviewed_ok_def review_ok_def\<close>)
    then show ?thesis unfolding acc' by (simp add: acc log_review_flow_after)
  next
    case False
    have acc': "acc' = foldl (sweep_reviewer url send i) acc ?rs"
      using run False c by (auto simp: acc sweep_cycle_def Let_def)
    have "\<forall>r \<in> set ?rs. on_open (snd acc) r" using op by (auto simp: on_open_def acc)
    then show ?thesis unfolding acc' using sweep_reviewers_ok[OF ok] only_notified_flow by blast
  qed
qed

lemma sweep_flow:
  assumes "reviewed_ok s" "review_cycle_sweep url send coll s = Inr (counts, s')"
  shows "link_flow s s'"
proof -
  have "reviewed_ok s' \<and> keeps_closed s s' \<and> link_flow s s'"
    by (rule sweep_rel[where R = link_flow, OF assms sweep_cycle_flow link_flow_refl link_flow_trans])
  then show ?thesis by blast
qed

lemma serve_app_flow:
  assumes ok: "reviewed_ok s" and run: "serve_app d r s = Inr s'"
  shows "link_flow s s'"
proof (cases r)
  case (EngineRequest q)
  then show ?thesis using run engine_flow[OF ok] by (auto dest!: map_sum_InrE)
next
  case (OpenByHand a b)
  then have "open_by_hand a b s = Inr s'" using run by (auto dest!: map_sum_InrE)
  then show ?thesis by (auto simp: open_by_hand_def split: sum.splits intro: log_review_flow_after open_flow)
next
  case (GetCycle a b c)
  then show ?thesis using run
    by (auto dest!: map_sum_InrE simp: get_cycle_def record_view_def split: option.splits if_splits intro: link_flow_same)
next
  case (AttestCycle a b c e)
  then have "attest_cycle (dp_coll d) a b c e s = Inr s'" using run by (auto dest!: map_sum_InrE)
  then show ?thesis by (auto simp: attest_cycle_def split: sum.splits intro: log_review_flow_after attest_flow[OF ok])
next
  case (FlagItem a b c e f g)
  then show ?thesis using run
    by (auto dest!: map_sum_InrE simp: flag_request_def flag_item_def Let_def log_review_def split: sum.splits option.splits if_splits
        intro!: link_flow_same)
next
  case (ResolveFlag a b c e)
  then show ?thesis using run
    by (auto dest!: map_sum_InrE simp: resolve_request_def resolve_flag_def log_review_def split: sum.splits option.splits if_splits
        intro!: link_flow_same)
next
  case OpenDueJob
  then have f: "foldres (open_due (dp_public_url d) (dp_send d)) (orgs_due_for_review_cycle_open s) s = Inr s'"
    using run by (auto dest!: map_sum_InrE simp: review_cycle_open_def)
  show ?thesis by (rule foldres_flow[OF f ok]) (use open_due_both open_due_flow in blast)
next
  case SweepJob
  then show ?thesis using run sweep_flow[OF ok] by (fastforce dest!: map_sum_InrE)
next
  case (DetachUnattested a b)
  then show ?thesis using run detach_unattested_flow[OF ok] by (fastforce dest!: map_sum_InrE)
next
  case (Later now)
  then show ?thesis using run by (auto intro: link_flow_same)
next
  case (Edit a b c)
  then show ?thesis using run by (auto intro: link_flow_same)
qed

lemma only_attested_step:
  assumes "reviewed_ok s" "serve_app d r s = Inr s'" "only_attested s"
  shows "only_attested s'"
  using only_attested_flow[OF _ _ _ serve_app_flow[OF assms(1,2)] assms(3)] serve_app_both[OF assms(1,2)] assms(1)
  by (simp add: reviewed_ok_def)

subsection \<open>Reminders\<close>

definition reminders_ok :: "review_db \<Rightarrow> bool" where
  "reminders_ok s \<longleftrightarrow> distinct (map (\<lambda>l. (rl_reviewer_id l, rl_number l)) (t_reminder s))"

lemma reminders_same: "t_reminder s' = t_reminder s \<Longrightarrow> reminders_ok s \<Longrightarrow> reminders_ok s'"
  by (simp add: reminders_ok_def)

lemma notify_reminder [simp]: "t_reminder (snd (notify_reviewer url send n sub body t r s)) = t_reminder s"
  using notify_reviewer_db[of url send n sub body t r s] by auto

lemma log_review_reminder [simp]: "t_reminder (log_review ac at og a e i af via s) = t_reminder s"
  by (simp add: log_review_def)

lemma notify_all_reminder: "t_reminder (foldl (\<lambda>s r. snd (request_review url send r s)) s rs) = t_reminder s"
  by (induction rs arbitrary: s) (simp_all add: request_review_def)

lemma remind_reminders:
  assumes "reminders_ok s" "\<forall>l \<in> set (t_reminder s). rl_reviewer_id l = rr_id r \<longrightarrow> rl_number l \<in> set already"
  shows "reminders_ok (snd (remind url send now i r already (n, s)))"
  using assms
proof (induction url send now i r already "(n, s)" arbitrary: n s rule: remind.induct)
  case (1 url send now i r already n s)
  show ?case
  proof (cases "due_reminder_number now already r")
    case None
    then show ?thesis using 1(2) by (simp add: remind.simps)
  next
    case (Some k)
    obtain sent s1 where p: "notify_reviewer url send k REVIEW_REMINDER_SUBJECT REVIEW_REMINDER_BODY
        ''review_cycle_reminder'' r s = (sent, s1)"
      by (cases "notify_reviewer url send k REVIEW_REMINDER_SUBJECT REVIEW_REMINDER_BODY ''review_cycle_reminder'' r s")
    have t1: "t_reminder s1 = t_reminder s"
      using notify_reminder[of url send k REVIEW_REMINDER_SUBJECT REVIEW_REMINDER_BODY "''review_cycle_reminder''" r s] p by simp
    show ?thesis
    proof (cases sent)
      case False
      then show ?thesis using 1(2) t1 Some p by (simp add: remind.simps reminders_ok_def)
    next
      case True
      let ?s2 = "record_reminder_sent i (rr_id r) k s1"
      have t2: "t_reminder ?s2 = t_reminder s @ [\<lparr>rl_id = new_id s1, rl_cycle_id = i, rl_reviewer_id = rr_id r, rl_number = k\<rparr>]"
        by (simp add: record_reminder_sent_def t1)
      have "k \<notin> set already" using due_reminder_number_left[OF Some] by (simp add: numbers_left_def)
      then have "reminders_ok ?s2" using 1(2,3) by (auto simp: reminders_ok_def t2)
      moreover have "\<forall>l \<in> set (t_reminder ?s2). rl_reviewer_id l = rr_id r \<longrightarrow> rl_number l \<in> set (k # already)"
        using 1(3) by (auto simp: t2)
      ultimately have "reminders_ok (snd (remind url send now i r (k # already) (Suc n, ?s2)))"
        using 1(1)[OF Some p[symmetric]] True by simp
      moreover have "remind url send now i r already (n, s) = remind url send now i r (k # already) (Suc n, ?s2)"
        using True Some p by (simp add: remind.simps[of _ _ _ _ _ already])
      ultimately show ?thesis by simp
    qed
  qed
qed

lemma sweep_reviewer_reminders:
  assumes "reminders_ok (snd acc)"
  shows "reminders_ok (snd (sweep_reviewer url send i acc r))"
proof -
  obtain a b c s where acc: "acc = ((a, b, c), s)" by (metis prod.exhaust)
  show ?thesis
  proof (cases "rr_notified_at r = None")
    case True
    then have "snd (sweep_reviewer url send i acc r) = snd (request_review url send r s)"
      by (simp add: acc sweep_reviewer_def case_prod_unfold Let_def)
    then show ?thesis using assms by (simp add: acc request_review_def reminders_ok_def)
  next
    case False
    have eq: "snd (sweep_reviewer url send i acc r) = snd (remind url send (now_of s) i r
        (map rl_number (filter (\<lambda>l. rl_reviewer_id l = rr_id r) (t_reminder s))) (a, s))"
      unfolding acc sweep_reviewer_def prod.case if_not_P[OF False] by (simp add: case_prod_unfold Let_def)
    show ?thesis unfolding eq by (rule remind_reminders) (use assms in \<open>auto simp: acc\<close>)
  qed
qed

lemma sweep_cycle_reminders:
  assumes run: "sweep_cycle url send coll (i, org_id) acc = Inr acc'" and ok: "reminders_ok (snd acc)"
  shows "reminders_ok (snd acc')"
proof -
  obtain a b k s where acc: "acc = ((a, b, k), s)" by (metis prod.exhaust)
  obtain c where c: "tget rc_id i (t_cycle s) = Some c"
    using run by (auto simp: acc sweep_cycle_def split: option.splits)
  let ?rs = "filter (\<lambda>r. rr_cycle_id r = i) (t_reviewer s)"
  show ?thesis
  proof (cases "rc_due_at c \<le> now_of s")
    case True
    obtain act after where "snd acc' = log_job org_id act i after (snd (close_cycle coll c ClosedUnattested s))"
      using run True c by (auto simp: acc sweep_cycle_def Let_def)
    then show ?thesis using ok close_cycle_effect(5)[of coll c ClosedUnattested s] by (simp add: acc reminders_ok_def)
  next
    case False
    have "acc' = foldl (sweep_reviewer url send i) acc ?rs"
      using run False c by (auto simp: acc sweep_cycle_def Let_def)
    moreover have "reminders_ok (snd (foldl (sweep_reviewer url send i) acc ?rs))"
      by (rule foldl_inv[where P = "\<lambda>t. reminders_ok (snd t)"]) (simp_all add: ok sweep_reviewer_reminders)
    ultimately show ?thesis by simp
  qed
qed

lemma open_due_reminder:
  assumes "open_due url send org_id s = Inr s'"
  shows "t_reminder s' = t_reminder s"
proof -
  obtain c rs s1 where o: "open_cycle org_id ''scheduler'' s = Inr ((c, rs), s1)"
    and s': "t_reminder s' = t_reminder s1"
    using assms by (auto simp: open_due_def notify_all_reminder split: sum.splits)
  from o have "t_reminder s1 = t_reminder s" by (rule open_cycle_InrD) blast
  then show ?thesis using s' by simp
qed

lemma reminders_step:
  assumes ok: "reviewed_ok s" and run: "serve_app d r s = Inr s'" and rem: "reminders_ok s"
  shows "reminders_ok s'"
proof (cases "r = SweepJob")
  case True
  then obtain counts where "review_cycle_sweep (dp_public_url d) (dp_send d) (dp_coll d) s = Inr (counts, s')"
    using run by (auto dest!: map_sum_InrE)
  from sweep_rel[where R = "\<lambda>s s'. reminders_ok s \<longrightarrow> reminders_ok s'", OF ok this]
  show ?thesis using sweep_cycle_reminders rem by blast
next
  case False
  have "t_reminder s' = t_reminder s"
  proof (cases r)
    case (EngineRequest q)
    then show ?thesis using run by (auto dest!: map_sum_InrE simp: engine_request_def)
  next
    case (OpenByHand a b)
    then obtain c rs s1 where o: "open_cycle a (uuid_text b) s = Inr ((c, rs), s1)" and s': "t_reminder s' = t_reminder s1"
      using run by (auto dest!: map_sum_InrE simp: open_by_hand_def split: sum.splits)
    from o have "t_reminder s1 = t_reminder s" by (rule open_cycle_InrD) blast
    then show ?thesis using s' by simp
  next
    case (GetCycle a b c)
    then show ?thesis using run
      by (auto dest!: map_sum_InrE simp: get_cycle_def record_view_def split: option.splits if_splits)
  next
    case (AttestCycle a b c e)
    then obtain r1 s1 where a: "attest (dp_coll d) a b c e s = Inr (r1, s1)" and s': "t_reminder s' = t_reminder s1"
      using run by (auto dest!: map_sum_InrE simp: attest_cycle_def split: sum.splits)
    from a obtain cy q where "reviewer_of a b c s = Some q"
      and s1: "s1 = (let s1 = update_reviewer (rr_id q) (attest_row (now_of s) e) s
           in if \<forall>q \<in> set (reviewers_on b s1). rr_status q = Attested
              then snd (close_cycle (dp_coll d) cy CycleCompleted s1) else s1)" by (rule attest_InrD)
    have "t_reminder s1 = t_reminder s" by (simp add: s1 Let_def close_cycle_effect(5))
    then show ?thesis using s' by simp
  next
    case (FlagItem a b c e f g)
    then show ?thesis using run
      by (auto dest!: map_sum_InrE simp: flag_request_def flag_item_def Let_def split: sum.splits option.splits if_splits)
  next
    case (ResolveFlag a b c e)
    then show ?thesis using run
      by (auto dest!: map_sum_InrE simp: resolve_request_def resolve_flag_def split: sum.splits option.splits if_splits)
  next
    case OpenDueJob
    then have f: "foldres (open_due (dp_public_url d) (dp_send d)) (orgs_due_for_review_cycle_open s) s = Inr s'"
      using run by (auto dest!: map_sum_InrE simp: review_cycle_open_def)
    show ?thesis by (rule foldres_inv[OF f, where P = "\<lambda>t. t_reminder t = t_reminder s"]) (simp_all add: open_due_reminder)
  next
    case (DetachUnattested a b)
    then show ?thesis using run
      by (auto dest!: map_sum_InrE simp: detach_unattested_def Let_def split: sum.splits)
  qed (use run False in auto)
  then show ?thesis by (rule reminders_same[OF _ rem])
qed

end
