(* ===== verification/Review_Example.thy ===== *)
theory Review_Example
  imports Review_Records Example
begin

section \<open>A tenant under review\<close>

text \<open>
  The small tenant with a practice the review maps to, one person and one device in scope, and an
  open cycle with one reviewer of each side, neither of whom was notified; and what follows when
  one or both attest, or none.
\<close>

definition mapped_tenant :: db where
  "mapped_tenant = tenant\<lparr>
     t_control := [\<lparr>c_id = 10, c_framework_id = 2, c_control_id = MAPPED_CONTROL_ID, c_sprs_weight = 5\<rparr>,
                   \<lparr>c_id = 11, c_framework_id = 2, c_control_id = ''B'', c_sprs_weight = 3\<rparr>]\<rparr>"

lemma mapped_tenant_ok: "engine_ok mapped_tenant"
  by code_simp

definition asked_of :: "uuid \<Rightarrow> uuid \<Rightarrow> reviewer_side \<Rightarrow> reviewer" where
  "asked_of i u side = \<lparr>rr_id = i, rr_cycle_id = 50, rr_org_id = 1, rr_user_id = Some u, rr_name = ''R'',
     rr_email = ''r@x'', rr_side = side, rr_status = Requested, rr_requested_at = t0, rr_viewed_at = None,
     rr_attested_at = None, rr_comment = None, rr_notified_at = None, rr_notification_error = None\<rparr>"

definition review_tenant :: review_db where
  "review_tenant = \<lparr>rv_db = mapped_tenant,
     t_scope = [\<lparr>se_id = 40, se_org_id = 1, se_entity_type = Person, se_natural_key = ''k'',
       se_scope_category = None, se_status = EntityActive, se_in_boundary = True, se_source = Manual,
       se_source_ref = None, se_last_verified_at = None, se_attributes = []\<rparr>],
     t_user = [\<lparr>us_id = 41, us_email = ''r@x'', us_display_name = ''R'', us_is_active = True\<rparr>,
       \<lparr>us_id = 42, us_email = ''r@x'', us_display_name = ''R'', us_is_active = True\<rparr>],
     t_membership = [\<lparr>om_user_id = 41, om_org_id = 1, om_role = ''msp_admin''\<rparr>],
     t_cycle = [\<lparr>rc_id = 50, rc_org_id = 1, rc_opened_at = t0, rc_due_at = DT 2026 3 22 0, rc_closed_at = None,
       rc_status = CycleOpen, rc_cadence_months = 12, rc_opened_by = ''scheduler''\<rparr>],
     t_item = [\<lparr>ri_id = 51, ri_cycle_id = 50, ri_org_id = 1, ri_subject = SubjectUser,
       ri_scope_entity_id = Some 40, ri_natural_key = ''k'', ri_scope_category = None, ri_attributes = []\<rparr>],
     t_reviewer = [asked_of 52 41 SideMsp, asked_of 53 42 SideClient],
     t_reminder = [], t_flag = [], storage = []\<rparr>"

lemma review_tenant_ok: "reviewed_ok review_tenant"
proof -
  have "engine_ok (rv_db review_tenant)" using mapped_tenant_ok by (simp add: review_tenant_def)
  moreover have "evidence_ok (rv_db review_tenant)" "one_open review_tenant" by code_simp+
  moreover have "review_keys review_tenant"
    by (simp add: review_keys_def review_tenant_def asked_of_def pk_ok_def new_id_def mapped_tenant_def tenant_def)
  moreover have "\<forall>c \<in> set (t_cycle review_tenant). cycle_ok c (reviewers_on (rc_id c) review_tenant) \<and> record_count_ok review_tenant c"
    by code_simp
  ultimately show ?thesis by (simp add: reviewed_ok_def review_ok_def)
qed

definition same_order :: "string \<Rightarrow> nat list" where "same_order s = map of_char s"

definition no_mail :: deployment where
  "no_mail = \<lparr>dp_public_url = None, dp_send = (\<lambda>m n. \<lparr>er_sent = False, er_error = Some ''down''\<rparr>), dp_coll = same_order\<rparr>"

text \<open>Past the deadline.\<close>

definition late_tenant :: review_db where
  "late_tenant = app_step no_mail review_tenant (Later (DT 2026 3 23 0))"

lemma app_step_ok: "reviewed_ok s \<Longrightarrow> reviewed_ok (app_step d s r)"
  using app_run[of s d "[r]"] by simp

lemma late_tenant_ok: "reviewed_ok late_tenant"
  unfolding late_tenant_def by (rule app_step_ok[OF review_tenant_ok])

text \<open>One reviewer has attested before the deadline.\<close>

definition half_tenant :: review_db where
  "half_tenant = app_step no_mail review_tenant (AttestCycle 1 50 41 None)"

lemma half_tenant_ok: "reviewed_ok half_tenant"
  unfolding half_tenant_def by (rule app_step_ok[OF review_tenant_ok])

text \<open>Closed at the deadline, with nobody reached.\<close>

definition closed_tenant :: review_db where
  "closed_tenant = review_tenant\<lparr>
     rv_db := mapped_tenant\<lparr>t_evidence := [\<lparr>ev_id = 60, ev_org_id = 1, ev_title = ''P'', ev_description = None,
        ev_kind = ''file'', ev_artifact_type = ''attestation'', ev_storage_key = Some ''k'', ev_mime_type = None,
        ev_file_size = None, ev_collected_at = t0, ev_source_document_version = None,
        ev_source_list_version = None, ev_source_review_cycle = Some 50\<rparr>]\<rparr>,
     t_cycle := [\<lparr>rc_id = 50, rc_org_id = 1, rc_opened_at = t0, rc_due_at = DT 2026 3 22 0,
       rc_closed_at = Some (DT 2026 3 23 0), rc_status = ClosedUndeliverable, rc_cadence_months = 12,
       rc_opened_by = ''scheduler''\<rparr>],
     t_reviewer := [asked_of 52 41 SideMsp\<lparr>rr_status := NotNotified\<rparr>,
       asked_of 53 42 SideClient\<lparr>rr_status := NotNotified\<rparr>]\<rparr>"

lemma closed_tenant_ok: "reviewed_ok closed_tenant"
proof -
  have "engine_ok (rv_db closed_tenant)" "evidence_ok (rv_db closed_tenant)" "one_open closed_tenant" by code_simp+
  moreover have "review_keys closed_tenant"
    by (simp add: review_keys_def closed_tenant_def review_tenant_def asked_of_def pk_ok_def new_id_def
        mapped_tenant_def tenant_def)
  moreover have "\<forall>c \<in> set (t_cycle closed_tenant). cycle_ok c (reviewers_on (rc_id c) closed_tenant) \<and> record_count_ok closed_tenant c"
    by code_simp
  ultimately show ?thesis by (simp add: reviewed_ok_def review_ok_def)
qed

end
