(* ===== verification/Review_Outcome.thy ===== *)
theory Review_Outcome
  imports Review_Example
begin

section \<open>How a review ends\<close>

text \<open>
  The two ways a cycle closes: the last reviewer attests, or a sweep finds it past its deadline.
  A sweep settles every cycle that was open, each on its own: the lemmas follow one cycle through
  the turns of the others.
\<close>

subsection \<open>The document\<close>

lemma sublist_in_left: "sublist x b \<Longrightarrow> sublist x (a @ b)"
  by (simp add: sublist_append)

lemma sublist_concat_map: "x \<in> set xs \<Longrightarrow> sublist (f x) (concat (map f xs))"
  by (induction xs) (auto intro: sublist_in_left)

text \<open>The document has a row for each item presented and each reviewer asked.\<close>

definition documents :: "review_item list \<Rightarrow> reviewer list \<Rightarrow> string \<Rightarrow> bool" where
  "documents items reviewers body \<longleftrightarrow>
     list_all (\<lambda>i. sublist (item_row i) body) items \<and> list_all (\<lambda>r. sublist (reviewer_row r) body) reviewers"

lemma render_documents: "documents items reviewers (render_attestation_html c items reviewers)"
proof -
  have "sublist (concat (map item_row items)) (render_attestation_html c items reviewers)"
    "sublist (concat (map reviewer_row reviewers)) (render_attestation_html c items reviewers)"
    unfolding render_attestation_html_def by (rule sublist_append_rightI | rule sublist_in_left)+
  then show ?thesis unfolding documents_def list_all_iff
    by (meson sublist_concat_map sublist_order.order_trans)
qed

subsection \<open>The last reviewer attests\<close>

text \<open>\<open>attached org_id i s s'\<close>: artifact \<open>i\<close> has exactly one new link, live,
  for every control state the review maps to, and there are no other new links.\<close>

definition attached :: "uuid \<Rightarrow> uuid \<Rightarrow> db \<Rightarrow> db \<Rightarrow> bool" where
  "attached org_id i s s' \<longleftrightarrow>
     take (length (t_link s)) (t_link s') = t_link s \<and>
     (let added = drop (length (t_link s)) (t_link s')
      in map ln_state_id added = map cs_id (mapped_control_states org_id s) \<and>
         list_all (\<lambda>l. ln_evidence_id l = i \<and> \<not> ln_is_archived l) added)"

lemma attached_record:
  assumes "mapped_control_states org_id s' = mapped_control_states org_id s" "t_link s' = t_link s"
  shows "attached org_id i s (attach_record org_id i s')"
proof -
  have "map ln_state_id (insert_rows (mk_link i) n css) = map cs_id css" for n css
    by (rule map_insert_rows) simp
  moreover have "list_all (\<lambda>l. ln_evidence_id l = i \<and> \<not> ln_is_archived l) (insert_rows (mk_link i) n css)" for n css
    using set_insert_rows[of _ "mk_link i" n css] by (fastforce simp: list_all_iff)
  ultimately show ?thesis by (simp add: attached_def assms)
qed

lemma mapped_cong:
  assumes "t_objective s' = t_objective s" "t_control s' = t_control s" "t_assessment s' = t_assessment s"
    "t_cstate s' = t_cstate s"
  shows "mapped_control_states org_id s' = mapped_control_states org_id s"
  by (simp add: mapped_control_states_def assms)

text \<open>What a completed close of \<open>c\<close> leaves, every reviewer having attested.\<close>

lemma completed_close:
  fixes c s coll
  assumes all: "\<forall>r \<in> set (reviewers_on (rc_id c) s). rr_status r = Attested"
  defines "s' \<equiv> snd (close_cycle coll c CycleCompleted s)" and "now \<equiv> now_of s"
  obtains ev doc where "t_cycle s' = tupd rc_id (rc_id c) (close_row CycleCompleted now) (t_cycle s)"
    "t_reviewer s' = t_reviewer s" "t_evidence (rv_db s') = t_evidence (rv_db s) @ [ev]"
    "ev_source_review_cycle ev = Some (rc_id c)" "attached (rc_org_id c) (ev_id ev) (rv_db s) (rv_db s')"
    "storage s' = storage s @ [doc]" "ev_storage_key ev = Some (so_key doc)"
    "documents (cycle_items coll (rc_id c) s) (cycle_reviewers coll (rc_id c) s) (so_body doc)"
proof -
  note eff = close_cycle_effect[where c = c and status = CycleCompleted and s = s and coll = coll]
  let ?ev = "fst (close_cycle coll c CycleCompleted s)"
  have st: "closed_as c CycleCompleted s = CycleCompleted" by (simp add: closed_as_def closing_status_def)
  have same: "close_reviewer r = r" if "rr_cycle_id r = rc_id c" "r \<in> set (t_reviewer s)" for r
    using all that by (auto simp: reviewers_on_def close_reviewer_def)
  then have rev: "t_reviewer s' = t_reviewer s" unfolding s'_def eff(2) by (auto intro: map_idI)
  have "set (cycle_reviewers coll (rc_id c) s) = set (reviewers_on (rc_id c) s)" by simp
  then have sorted: "map close_reviewer (cycle_reviewers coll (rc_id c) s) = cycle_reviewers coll (rc_id c) s"
    by (intro map_idI same) (auto simp: reviewers_on_def)
  obtain body where body: "?ev = cycle_record (close_row CycleCompleted now c) body (new_id s) now"
      "body = render_attestation_html (close_row CycleCompleted now c) (cycle_items coll (rc_id c) s)
         (cycle_reviewers coll (rc_id c) s)"
      "storage s' = storage s @ [\<lparr>so_key = opt_text (ev_storage_key ?ev), so_body = body, so_mime = ''text/html''\<rparr>]"
    using eff(8) unfolding st s'_def now_def sorted by blast
  have "attached (rc_org_id c) (ev_id ?ev) (rv_db s) (rv_db s')"
    unfolding s'_def eff(10) st ATTESTS_def Let_def body(1) if_P[OF refl] cycle_record_fields new_id_def
    by (rule attached_record[OF mapped_cong]) simp_all
  moreover have "ev_source_review_cycle ?ev = Some (rc_id c)" unfolding body(1) by simp
  moreover have "ev_storage_key ?ev = Some (opt_text (ev_storage_key ?ev))"
    unfolding body(1) by (simp add: cycle_record_def opt_text_def)
  ultimately show ?thesis
    using that[of ?ev "\<lparr>so_key = opt_text (ev_storage_key ?ev), so_body = body, so_mime = ''text/html''\<rparr>"]
      eff(1,9) rev body(2,3) render_documents unfolding st s'_def now_def by simp
qed

text \<open>C21. An accepted attestation is of a reviewer of an open cycle of the organization who
  had not attested, and writes their row only. If everyone else had attested, it closes the cycle
  as completed, with one record: a stored document with a row for every item presented and every
  reviewer, attached live, once, to every control state of the mapped objectives in the
  assessments in progress, and to nothing else. Otherwise the cycle stays as it is and no
  evidence, link or document is written.\<close>

theorem attest_outcome:
  assumes "attest coll org_id i u note s = Inr (r, s')"
  shows "\<exists>c q. c \<in> set (t_cycle s) \<and> rc_id c = i \<and> rc_org_id c = org_id \<and> rc_status c = CycleOpen \<and>
    q \<in> set (reviewers_on i s) \<and> rr_user_id q = Some u \<and> rr_status q \<noteq> Attested \<and>
    r = attest_row (now_of s) note q \<and>
    t_reviewer s' = tupd rr_id (rr_id q) (attest_row (now_of s) note) (t_reviewer s) \<and>
    (if \<forall>p \<in> set (reviewers_on i s). rr_id p = rr_id q \<or> rr_status p = Attested
     then t_cycle s' = tupd rc_id i (close_row CycleCompleted (now_of s)) (t_cycle s) \<and>
       (\<exists>ev doc. t_evidence (rv_db s') = t_evidence (rv_db s) @ [ev] \<and> ev_source_review_cycle ev = Some i \<and>
          attached org_id (ev_id ev) (rv_db s) (rv_db s') \<and>
          storage s' = storage s @ [doc] \<and> ev_storage_key ev = Some (so_key doc) \<and>
          documents (cycle_items coll i s) (cycle_reviewers coll i s') (so_body doc))
     else t_cycle s' = t_cycle s \<and> rv_db s' = rv_db s \<and> storage s' = storage s)"
proof -
  obtain c q where c: "tget rc_id i (t_cycle s) = Some c" "rc_org_id c = org_id" "rc_status c = CycleOpen"
    and q: "reviewer_of org_id i u s = Some q" "rr_status q \<noteq> Attested" "r = attest_row (now_of s) note q"
    and s': "s' = (let s1 = update_reviewer (rr_id q) (attest_row (now_of s) note) s
           in if \<forall>p \<in> set (reviewers_on i s1). rr_status p = Attested
              then snd (close_cycle coll c CycleCompleted s1) else s1)"
    by (rule attest_InrD[OF assms])
  let ?s1 = "update_reviewer (rr_id q) (attest_row (now_of s) note) s"
  have cc: "c \<in> set (t_cycle s)" "rc_id c = i" using tget_SomeD[OF c(1)] by simp_all
  have qq: "q \<in> set (reviewers_on i s)" "rr_user_id q = Some u"
    using reviewer_of_SomeD[OF q(1)] by (simp_all add: reviewers_on_def)
  have all: "(\<forall>p \<in> set (reviewers_on i ?s1). rr_status p = Attested) \<longleftrightarrow>
      (\<forall>p \<in> set (reviewers_on i s). rr_id p = rr_id q \<or> rr_status p = Attested)"
    by (subst reviewers_on_update) (auto simp: set_tupd)
  show ?thesis
  proof (cases "\<forall>p \<in> set (reviewers_on i ?s1). rr_status p = Attested")
    case True
    have s'': "s' = snd (close_cycle coll c CycleCompleted ?s1)"
      unfolding s'[unfolded Let_def] by (rule if_P[OF True])
    have True': "\<forall>p \<in> set (reviewers_on (rc_id c) ?s1). rr_status p = Attested" using True cc(2) by simp
    obtain ev doc where e: "t_cycle s' = tupd rc_id (rc_id c) (close_row CycleCompleted (now_of ?s1)) (t_cycle ?s1)"
        "t_reviewer s' = t_reviewer ?s1" "t_evidence (rv_db s') = t_evidence (rv_db ?s1) @ [ev]"
        "ev_source_review_cycle ev = Some (rc_id c)" "attached (rc_org_id c) (ev_id ev) (rv_db ?s1) (rv_db s')"
        "storage s' = storage ?s1 @ [doc]" "ev_storage_key ev = Some (so_key doc)"
        "documents (cycle_items coll (rc_id c) ?s1) (cycle_reviewers coll (rc_id c) ?s1) (so_body doc)"
      unfolding s'' by (rule completed_close[OF True'])
    have "cycle_items coll i ?s1 = cycle_items coll i s" "cycle_reviewers coll i ?s1 = cycle_reviewers coll i s'"
      using e(2) by (simp_all add: cycle_items_def cycle_reviewers_def update_reviewer_def)
    then show ?thesis
      using cc c(2,3) qq q(2,3) e True unfolding all by (intro exI[of _ c] exI[of _ q]) auto
  next
    case False
    have "s' = ?s1" unfolding s'[unfolded Let_def] by (rule if_not_P[OF False])
    then show ?thesis
      using cc c(2,3) qq q(2,3) False unfolding all by (intro exI[of _ c] exI[of _ q]) auto
  qed
qed

text \<open>One of the two reviewers has attested.\<close>

definition last_tenant :: review_db where
  "last_tenant = review_tenant\<lparr>t_reviewer := [attest_row t0 None (asked_of 52 41 SideMsp), asked_of 53 42 SideClient]\<rparr>"

theorem attest_outcome_witness:
  "\<exists>r s'. attest same_order 1 50 42 None last_tenant = Inr (r, s') \<and>
     t_cycle s' = tupd rc_id 50 (close_row CycleCompleted (now_of last_tenant)) (t_cycle last_tenant) \<and>
     (\<exists>ev. t_evidence (rv_db s') = t_evidence (rv_db last_tenant) @ [ev] \<and>
        attached 1 (ev_id ev) (rv_db last_tenant) (rv_db s'))"
proof -
  obtain r s' where run: "attest same_order 1 50 42 None last_tenant = Inr (r, s')"
    by (simp add: attest_def last_tenant_def review_tenant_def asked_of_def tget_def reviewer_of_def
        attest_row_def Let_def)
  have "reviewers_on 50 last_tenant = t_reviewer last_tenant" by code_simp
  moreover have "t_reviewer last_tenant = [attest_row t0 None (asked_of 52 41 SideMsp), asked_of 53 42 SideClient]"
    by (simp add: last_tenant_def)
  ultimately have "t_cycle s' = tupd rc_id 50 (close_row CycleCompleted (now_of last_tenant)) (t_cycle last_tenant) \<and>
      (\<exists>ev. t_evidence (rv_db s') = t_evidence (rv_db last_tenant) @ [ev] \<and>
        attached 1 (ev_id ev) (rv_db last_tenant) (rv_db s'))"
    using attest_outcome[OF run] by (auto simp: asked_of_def)
  then show ?thesis using run by blast
qed

end
