(* ===== verification/Review_Sweep.thy ===== *)
theory Review_Sweep
  imports Review_Outcome
begin

section \<open>What a sweep settles\<close>

text \<open>
  The sweep takes the open cycles one after the other. A turn settles its own cycle and spares
  the others, so that each cycle that was open is closed at its deadline, whatever the others are.
\<close>

definition spares :: "uuid \<Rightarrow> review_db \<Rightarrow> review_db \<Rightarrow> bool" where
  "spares j s t \<longleftrightarrow> (\<forall>c \<in> set (t_cycle s). rc_id c = j \<longrightarrow> c \<in> set (t_cycle t)) \<and>
     reviewers_on j t = reviewers_on j s \<and> records_of j t = records_of j s"

definition sweep_frame :: "review_db \<Rightarrow> review_db \<Rightarrow> bool" where
  "sweep_frame s t \<longleftrightarrow> t_item t = t_item s \<and> now_of t = now_of s \<and> set (storage s) \<subseteq> set (storage t) \<and>
     t_link (rv_db t) = t_link (rv_db s) \<and> rc_id ` set (t_cycle t) = rc_id ` set (t_cycle s)"

text \<open>Closed without full attestation: as undeliverable iff nobody was ever notified, every
  reviewer who had not attested marked by whether they were reached, and one record whose stored
  document has a row for everything presented and everyone asked.\<close>

definition closed_late :: "review_cycle \<Rightarrow> review_db \<Rightarrow> review_db \<Rightarrow> bool" where
  "closed_late c s t \<longleftrightarrow>
     close_row (if \<forall>r \<in> set (reviewers_on (rc_id c) s). rr_notified_at r = None then ClosedUndeliverable
                else ClosedUnattested) (now_of s) c \<in> set (t_cycle t) \<and>
     reviewers_on (rc_id c) t = map close_reviewer (reviewers_on (rc_id c) s) \<and>
     (\<exists>ev doc. records_of (rc_id c) t = [ev] \<and> doc \<in> set (storage t) \<and> ev_storage_key ev = Some (so_key doc) \<and>
        documents (filter (\<lambda>i. ri_cycle_id i = rc_id c) (t_item s)) (reviewers_on (rc_id c) t) (so_body doc))"

definition settled :: "review_cycle \<Rightarrow> review_db \<Rightarrow> review_db \<Rightarrow> bool" where
  "settled c s t \<longleftrightarrow> (if rc_due_at c \<le> now_of s then closed_late c s t else c \<in> set (t_cycle t))"

lemma spares_refl [simp]: "spares j s s"
  by (simp add: spares_def)

lemma spares_trans: "spares j s t \<Longrightarrow> spares j t u \<Longrightarrow> spares j s u"
  by (simp add: spares_def)

lemma sweep_frame_refl [simp]: "sweep_frame s s"
  by (simp add: sweep_frame_def)

lemma sweep_frame_trans: "sweep_frame s t \<Longrightarrow> sweep_frame t u \<Longrightarrow> sweep_frame s u"
  by (auto simp: sweep_frame_def)

text \<open>Turns of other cycles, before and after, do not matter.\<close>

lemma settled_before:
  assumes "spares (rc_id c) s t" "sweep_frame s t" "settled c t u"
  shows "settled c s u"
proof -
  have "reviewers_on (rc_id c) t = reviewers_on (rc_id c) s" "t_item t = t_item s" "now_of t = now_of s"
    using assms(1,2) by (simp_all add: spares_def sweep_frame_def)
  then show ?thesis using assms(3) by (simp only: settled_def closed_late_def)
qed

lemma closed_late_after:
  assumes "closed_late c s t" "spares (rc_id c) t u" "sweep_frame t u"
  shows "closed_late c s u"
proof -
  have eqs: "reviewers_on (rc_id c) u = reviewers_on (rc_id c) t" "records_of (rc_id c) u = records_of (rc_id c) t"
    and rows: "\<And>d. d \<in> set (t_cycle t) \<Longrightarrow> rc_id d = rc_id c \<Longrightarrow> d \<in> set (t_cycle u)"
    and docs: "set (storage t) \<subseteq> set (storage u)"
    using assms(2,3) by (simp_all add: spares_def sweep_frame_def)
  show ?thesis
    using assms(1) rows[of "close_row _ _ c"] docs unfolding closed_late_def eqs close_row_fields by blast
qed

lemma settled_after:
  assumes "settled c s t" "spares (rc_id c) t u" "sweep_frame t u"
  shows "settled c s u"
proof (cases "rc_due_at c \<le> now_of s")
  case True
  then show ?thesis using closed_late_after[OF _ assms(2,3)] assms(1) by (simp add: settled_def)
next
  case False
  then show ?thesis using assms(1,2) by (simp add: settled_def spares_def)
qed

subsection \<open>One close\<close>

lemma set_cycle_items [simp]: "set (cycle_items coll i s) = set (filter (\<lambda>x. ri_cycle_id x = i) (t_item s))"
  by (simp add: cycle_items_def)

lemma documents_cong: "set is = set is' \<Longrightarrow> set rs = set rs' \<Longrightarrow> documents is rs body = documents is' rs' body"
  by (simp add: documents_def list_all_iff)

lemma close_settles:
  fixes coll c s
  defines "t \<equiv> snd (close_cycle coll c ClosedUnattested s)"
  assumes ok: "review_ok s" and c: "c \<in> set (t_cycle s)" "rc_status c = CycleOpen"
  shows "closed_late c s t" "sweep_frame s t" "j \<noteq> rc_id c \<Longrightarrow> spares j s t"
proof -
  note eff = close_cycle_effect[of coll c ClosedUnattested s, folded t_def]
  have st: "closed_as c ClosedUnattested s = (if \<forall>r \<in> set (reviewers_on (rc_id c) s). rr_notified_at r = None
      then ClosedUndeliverable else ClosedUnattested)"
    by (simp add: closed_as_def closing_status_def list_all_iff)
  then have na: "closed_as c ClosedUnattested s \<noteq> ATTESTS" by (simp add: ATTESTS_def)
  obtain body where body: "fst (close_cycle coll c ClosedUnattested s) =
        cycle_record (close_row (closed_as c ClosedUnattested s) (now_of s) c) body (new_id s) (now_of s)"
      "body = render_attestation_html (close_row (closed_as c ClosedUnattested s) (now_of s) c)
        (cycle_items coll (rc_id c) s) (map close_reviewer (cycle_reviewers coll (rc_id c) s))"
      "storage t = storage s @ [\<lparr>so_key = opt_text (ev_storage_key (fst (close_cycle coll c ClosedUnattested s))),
        so_body = body, so_mime = ''text/html''\<rparr>]"
    using eff(8) by blast
  define ev where "ev = fst (close_cycle coll c ClosedUnattested s)"
  have ku: "keyed_update rc_id (close_row (closed_as c ClosedUnattested s) (now_of s))" by unfold_locales simp
  have recs: "records_of i t = records_of i s @ (if i = rc_id c then [ev] else [])" for i
    unfolding records_of_def eff(9) ev_def body(1) by simp
  have "record_count_ok s c" using ok c by (simp add: review_ok_def)
  then have none: "records_of (rc_id c) s = []" using c(2) by (simp add: record_count_ok_def)
  have rev: "reviewers_on (rc_id c) t = map close_reviewer (reviewers_on (rc_id c) s)"
    unfolding t_def by (simp add: reviewers_on_close)
  have key: "ev_storage_key ev = Some (opt_text (ev_storage_key ev))"
    unfolding ev_def body(1) by (simp add: cycle_record_def opt_text_def)
  have "documents (cycle_items coll (rc_id c) s) (map close_reviewer (cycle_reviewers coll (rc_id c) s)) body"
    unfolding body(2) by (rule render_documents)
  then have "documents (filter (\<lambda>i. ri_cycle_id i = rc_id c) (t_item s)) (reviewers_on (rc_id c) t) body"
    by (subst (asm) documents_cong[where is' = "filter (\<lambda>i. ri_cycle_id i = rc_id c) (t_item s)"
          and rs' = "reviewers_on (rc_id c) t"]) (simp_all add: rev)
  moreover have "close_row (closed_as c ClosedUnattested s) (now_of s) c \<in> set (t_cycle t)"
    unfolding eff(1) using c(1) by (auto simp: set_tupd)
  ultimately show "closed_late c s t"
    unfolding closed_late_def st[symmetric] recs none
    using rev key body(3) unfolding ev_def by auto
  have "rc_id ` set (t_cycle t) = rc_id ` set (t_cycle s)"
    unfolding eff(1) using keyed_update.keys_tupd[OF ku, of "rc_id c" "t_cycle s"] by (metis set_map)
  then show "sweep_frame s t"
    unfolding sweep_frame_def using eff(3,7,10) na body(3) by (auto simp: Let_def)
  show "spares j s t" if "j \<noteq> rc_id c"
    unfolding spares_def recs using that c by (auto simp: t_def reviewers_on_close eff(1)[unfolded t_def] set_tupd)
qed

subsection \<open>One turn\<close>

text \<open>Telling the reviewers of one cycle is telling no one else.\<close>

lemma notify_spares:
  assumes ok: "reviewed_ok s" and on: "only_notified s t" and r: "r \<in> set (reviewers_on i s)" and j: "j \<noteq> i"
  shows "reviewers_on j (snd (notify_reviewer url send n sub body tpl r t)) = reviewers_on j t"
proof -
  obtain sent e where eq: "snd (notify_reviewer url send n sub body tpl r t) =
     update_reviewer (rr_id r) (record_notification_result (now_of t) sent e) t"
    using notify_reviewer_db by blast
  have "rr_id r \<notin> rr_id ` set (reviewers_on j t)"
  proof
    assume "rr_id r \<in> rr_id ` set (reviewers_on j t)"
    then obtain q where q: "q \<in> set (t_reviewer t)" "rr_id q = rr_id r" "rr_cycle_id q = j"
      by (auto simp: reviewers_on_def)
    obtain p where p: "p \<in> set (t_reviewer s)" "rr_id q = rr_id p" "rr_cycle_id q = rr_cycle_id p"
      using on q(1) unfolding only_notified_def list_all2_conv_all_nth by (metis in_set_conv_nth)
    have "p = r" by (rule same_reviewer[OF _ p(1)]) (use ok r p q in \<open>simp_all add: reviewed_ok_def reviewers_on_def\<close>)
    then show False using p q r j by (simp add: reviewers_on_def)
  qed
  then show ?thesis unfolding eq by (subst reviewers_on_update) (simp_all add: tupd_absent)
qed

lemma tell_spares:
  assumes ok: "reviewed_ok (snd acc)" and on: "\<forall>r \<in> set (reviewers_on i (snd acc)). on_open (snd acc) r"
    and j: "j \<noteq> i"
  shows "reviewers_on j (snd (foldl (sweep_reviewer url send i) acc (reviewers_on i (snd acc)))) = reviewers_on j (snd acc)"
proof -
  let ?P = "\<lambda>t. reviewed_ok t \<and> only_notified (snd acc) t \<and> reviewers_on j t = reviewers_on j (snd acc)"
  have "?P (snd (foldl (sweep_reviewer url send i) acc (reviewers_on i (snd acc))))"
  proof (rule sweep_reviewers_inv[where P = ?P])
    fix r t n sub body tpl
    assume r: "r \<in> set (reviewers_on i (snd acc))" and t: "?P t"
    have "on_open t r" using on_open_notified on r t by blast
    then show "?P (snd (notify_reviewer url send n sub body tpl r t))"
      using notify_ok[of t r url send n sub body tpl] notify_spares[OF ok _ r j, of t url send n sub body tpl] t
        only_notified_trans by metis
  next
    fix r t k assume t: "?P t"
    have "reviewers_on j (record_reminder_sent i (rr_id r) k t) = reviewers_on j t"
      by (rule reviewers_on_cong) (simp add: record_reminder_sent_def)
    then show "?P (record_reminder_sent i (rr_id r) k t)"
      using t reminder_ok only_notified_trans[OF _ only_notified_reminder] by metis
  qed (use ok in simp)
  then show ?thesis by blast
qed

lemma sweep_turn:
  assumes ok: "reviewed_ok (snd acc)" and op: "open_cycle_id i (snd acc)"
    and run: "sweep_cycle url send coll (i, org_id) acc = Inr acc'"
  shows "sweep_frame (snd acc) (snd acc')" and "j \<noteq> i \<Longrightarrow> spares j (snd acc) (snd acc')"
    and "\<lbrakk>c \<in> set (t_cycle (snd acc)); rc_id c = i\<rbrakk> \<Longrightarrow> settled c (snd acc) (snd acc')"
proof -
  obtain a b k s where acc: "acc = ((a, b, k), s)" by (metis prod.exhaust)
  obtain d where d: "tget rc_id i (t_cycle s) = Some d"
    using run by (auto simp: acc sweep_cycle_def split: option.splits)
  have dd: "d \<in> set (t_cycle s)" "rc_id d = i" using tget_SomeD[OF d] by simp_all
  have open': "rc_status d = CycleOpen" using op dd by (simp add: open_cycle_id_def acc)
  have rok: "review_ok s" and keys: "pk_ok rc_id (new_id s) (t_cycle s)"
    using ok by (simp_all add: acc reviewed_ok_def review_ok_def review_keys_def)
  have "sweep_frame s (snd acc') \<and> (\<forall>j. j \<noteq> i \<longrightarrow> spares j s (snd acc')) \<and> settled d s (snd acc')"
  proof (cases "rc_due_at d \<le> now_of s")
    case True
    let ?s1 = "snd (close_cycle coll d ClosedUnattested s)"
    obtain act after where acc': "snd acc' = log_job org_id act i after ?s1"
      using run True d by (auto simp: acc sweep_cycle_def Let_def)
    note cl = close_settles[OF rok dd(1) open', where coll = coll]
    have log: "sweep_frame ?s1 (snd acc')" "spares j ?s1 (snd acc')" for j
      unfolding acc' by (simp_all add: sweep_frame_def spares_def log_review_def now_of_def reviewers_on_def records_of_def)
    show ?thesis
      using sweep_frame_trans[OF cl(2) log(1)] spares_trans[OF cl(3) log(2)] closed_late_after[OF cl(1) log(2,1)] True dd(2)
      by (simp add: settled_def)
  next
    case False
    have acc': "acc' = foldl (sweep_reviewer url send i) acc (reviewers_on i (snd acc))"
      using run False d by (auto simp: acc sweep_cycle_def Let_def reviewers_on_def)
    have on: "\<forall>r \<in> set (reviewers_on i (snd acc)). on_open (snd acc) r"
      using op by (auto simp: on_open_def reviewers_on_def)
    have n: "only_notified s (snd acc')"
      unfolding acc' using sweep_reviewers_ok[OF ok on] by (simp add: acc)
    have "reviewers_on j (snd acc') = reviewers_on j s" if "j \<noteq> i" for j
      unfolding acc' using tell_spares[OF ok on that] by (simp add: acc)
    then show ?thesis
      using n dd(1) False by (simp add: only_notified_def sweep_frame_def spares_def settled_def records_of_def)
  qed
  moreover have "c = d" if "c \<in> set (t_cycle s)" "rc_id c = i"
    by (rule pk_ok_inj[OF keys that(1) dd(1)]) (simp add: that dd)
  ultimately show "sweep_frame (snd acc) (snd acc')" "j \<noteq> i \<Longrightarrow> spares j (snd acc) (snd acc')"
    "\<lbrakk>c \<in> set (t_cycle (snd acc)); rc_id c = i\<rbrakk> \<Longrightarrow> settled c (snd acc) (snd acc')"
    by (auto simp: acc)
qed

subsection \<open>The sweep\<close>

lemma sweep_cycle_returns:
  assumes "i \<in> rc_id ` set (t_cycle (snd acc))"
  shows "\<exists>acc'. sweep_cycle url send coll (i, org_id) acc = Inr acc'"
proof -
  obtain a b k s where acc: "acc = ((a, b, k), s)" by (metis prod.exhaust)
  then obtain c where "tget rc_id i (t_cycle s) = Some c"
    using assms tget_None_iff[of rc_id i "t_cycle s"] by (cases "tget rc_id i (t_cycle s)") auto
  then show ?thesis by (simp add: acc sweep_cycle_def Let_def del: split_paired_Ex)
qed

lemma sweep_settles:
  assumes "reviewed_ok (snd acc)" "distinct (map fst due)"
    and "\<forall>d \<in> set due. open_cycle_id (fst d) (snd acc) \<and> fst d \<in> rc_id ` set (t_cycle (snd acc))"
  shows "\<exists>acc'. foldres (sweep_cycle url send coll) due acc = Inr acc' \<and> sweep_frame (snd acc) (snd acc') \<and>
    (\<forall>j. j \<notin> fst ` set due \<longrightarrow> spares j (snd acc) (snd acc')) \<and>
    (\<forall>c \<in> set (t_cycle (snd acc)). rc_id c \<in> fst ` set due \<longrightarrow> settled c (snd acc) (snd acc'))"
  using assms
proof (induction due arbitrary: acc)
  case (Cons d due)
  obtain i org_id where d: "d = (i, org_id)" by (cases d)
  have i: "open_cycle_id i (snd acc)" "i \<in> rc_id ` set (t_cycle (snd acc))" using Cons.prems(3) d by simp_all
  obtain acc1 where r: "sweep_cycle url send coll (i, org_id) acc = Inr acc1" using sweep_cycle_returns[OF i(2)] by blast
  note both = sweep_cycle_both[OF Cons.prems(1) i(1) r] and turn = sweep_turn[OF Cons.prems(1) i(1) r]
  have notin: "i \<notin> fst ` set due" using Cons.prems(2) d by simp
  have "\<forall>e \<in> set due. open_cycle_id (fst e) (snd acc1) \<and> fst e \<in> rc_id ` set (t_cycle (snd acc1))"
  proof
    fix e assume e: "e \<in> set due"
    then have "fst e \<noteq> i" using notin by auto
    then show "open_cycle_id (fst e) (snd acc1) \<and> fst e \<in> rc_id ` set (t_cycle (snd acc1))"
      using both Cons.prems(3) e turn(1) by (simp add: sweep_frame_def)
  qed
  then obtain acc' where r': "foldres (sweep_cycle url send coll) due acc1 = Inr acc'" "sweep_frame (snd acc1) (snd acc')"
    and sp: "\<And>j. j \<notin> fst ` set due \<Longrightarrow> spares j (snd acc1) (snd acc')"
    and se: "\<And>c. c \<in> set (t_cycle (snd acc1)) \<Longrightarrow> rc_id c \<in> fst ` set due \<Longrightarrow> settled c (snd acc1) (snd acc')"
    using Cons.IH[of acc1] both Cons.prems(2) by auto
  have "settled c (snd acc) (snd acc')" if c: "c \<in> set (t_cycle (snd acc))" "rc_id c \<in> fst ` set (d # due)" for c
  proof (cases "rc_id c = i")
    case True
    then show ?thesis using settled_after[OF turn(3)[OF c(1)] sp r'(2)] notin by simp
  next
    case False
    then have s1: "spares (rc_id c) (snd acc) (snd acc1)" by (rule turn(2))
    moreover from s1 c(1) have "c \<in> set (t_cycle (snd acc1))" by (simp add: spares_def)
    ultimately show ?thesis using settled_before[OF s1 turn(1)] se c(2) False d by simp
  qed
  moreover have "spares j (snd acc) (snd acc')" if "j \<notin> fst ` set (d # due)" for j
    using spares_trans[OF turn(2) sp] that d by simp
  ultimately show ?case using r r' sweep_frame_trans[OF turn(1) r'(2)] d by auto
qed simp

text \<open>C22. A sweep always returns and settles every review cycle that was open. A cycle past
  its deadline is closed then: as undeliverable if nobody was ever notified and as unattested if
  somebody was, each reviewer who had not attested marked as not answering or as never reached,
  with exactly one record, whose stored document has a row for every item presented and every
  reviewer asked. A cycle not yet due stays open. No evidence link is touched.\<close>

theorem sweep_settles_every_cycle:
  assumes "reviewed_ok s"
  shows "\<exists>counts s'. review_cycle_sweep url send coll s = Inr (counts, s') \<and>
    t_link (rv_db s') = t_link (rv_db s) \<and>
    (\<forall>c \<in> set (t_cycle s). rc_status c = CycleOpen \<longrightarrow>
       (if rc_due_at c \<le> now_of s then closed_late c s s' else c \<in> set (t_cycle s')))"
proof -
  let ?due = "review_cycles_due_for_sweep s"
  have "fst ` set ?due = rc_id ` {c \<in> set (t_cycle s). rc_status c = CycleOpen}"
    by (auto simp: review_cycles_due_for_sweep_def image_iff)
  moreover obtain acc' where "foldres (sweep_cycle url send coll) ?due ((0, 0, 0), s) = Inr acc'" "sweep_frame s (snd acc')"
      "\<forall>c \<in> set (t_cycle s). rc_id c \<in> fst ` set ?due \<longrightarrow> settled c s (snd acc')"
    using sweep_settles[of "((0, 0, 0), s)" ?due url send coll] due_open[OF assms] assms by auto
  ultimately show ?thesis
    unfolding review_cycle_sweep_def by (cases acc') (auto simp: settled_def sweep_frame_def)
qed

theorem sweep_settles_every_cycle_witness:
  "\<exists>counts s' c. review_cycle_sweep None (dp_send no_mail) same_order late_tenant = Inr (counts, s') \<and>
     c \<in> set (t_cycle s') \<and> rc_status c = ClosedUndeliverable"
proof -
  obtain counts s' where run: "review_cycle_sweep None (dp_send no_mail) same_order late_tenant = Inr (counts, s')"
    and out: "\<forall>c \<in> set (t_cycle late_tenant). rc_status c = CycleOpen \<longrightarrow>
       (if rc_due_at c \<le> now_of late_tenant then closed_late c late_tenant s' else c \<in> set (t_cycle s'))"
    using sweep_settles_every_cycle[OF late_tenant_ok] by blast
  have late: "t_cycle late_tenant = t_cycle review_tenant" "t_reviewer late_tenant = t_reviewer review_tenant"
    "now_of late_tenant = DT 2026 3 23 0" by code_simp+
  obtain c where c: "c \<in> set (t_cycle late_tenant)" "rc_status c = CycleOpen" "rc_id c = 50" "rc_due_at c = DT 2026 3 22 0"
    unfolding late by (simp add: review_tenant_def)
  have "rc_due_at c \<le> now_of late_tenant" unfolding late c(4) by code_simp
  then have "closed_late c late_tenant s'" using out c(1,2) by simp
  moreover have "\<forall>r \<in> set (reviewers_on 50 late_tenant). rr_notified_at r = None"
    unfolding reviewers_on_def late by code_simp
  ultimately have "close_row ClosedUndeliverable (now_of late_tenant) c \<in> set (t_cycle s')"
    by (simp add: closed_late_def c(3))
  then show ?thesis using run by (intro exI conjI) (auto simp: close_row_def)
qed

end
