(* ===== verification/Reconcile.thy ===== *)
theory Reconcile
  imports Scope_Domain
begin

section \<open>Reconciliation\<close>

text \<open>
  \<open>backend/app/reconcile.py\<close>: what an import would change of the scope graph.
  Entities are matched by type and stripped, lowered natural key; of a matched pair the
  attributes of the type's vocabulary are compared, the ones only a person writes only when the
  import carries them. Nothing is written here.
\<close>

subsection \<open>Comparing two values\<close>

text \<open>\<open>repr(s)\<close> and \<open>str(v)\<close> of a JSON value; a character is a code
  point below 256.\<close>

definition repr_char :: "char \<Rightarrow> char \<Rightarrow> string" where
  "repr_char quote c =
     (let n = (of_char c :: nat) in
      if c = quote \<or> n = 92 then [CHR 0x5C, c]
      else if n = 10 then [CHR 0x5C, CHR ''n''] else if n = 13 then [CHR 0x5C, CHR ''r'']
      else if n = 9 then [CHR 0x5C, CHR ''t'']
      else if n < 32 \<or> 127 \<le> n \<and> n \<le> 160 \<or> n = 173 then [CHR 0x5C, CHR ''x'', hex_digit (n div 16), hex_digit (n mod 16)]
      else [c])"

definition py_repr_str :: "string \<Rightarrow> string" where
  "py_repr_str s =
     (let quote = (if CHR 0x27 \<in> set s \<and> CHR 0x22 \<notin> set s then CHR 0x22 else CHR 0x27)
      in quote # concat (map (repr_char quote) s) @ [quote])"

fun py_repr :: "jval \<Rightarrow> string" where
  "py_repr JNull = ''None''"
| "py_repr (JBool b) = (if b then ''True'' else ''False'')"
| "py_repr (JInt n) = str_int n"
| "py_repr (JStr s) = py_repr_str s"
| "py_repr (JUuid i) = py_repr_str (uuid_text i)"
| "py_repr (JList vs) = ''['' @ py_join '', '' (map py_repr vs) @ '']''"
| "py_repr (JObj kvs) =
     ''{'' @ py_join '', '' (map (\<lambda>(k, v). py_repr_str k @ '': '' @ py_repr v) kvs) @ ''}''"

fun py_str :: "jval \<Rightarrow> string" where
  "py_str (JStr s) = s"
| "py_str (JUuid i) = uuid_text i"
| "py_str v = py_repr v"

text \<open>\<open>_comparable\<close>: a list is compared without its order, a scalar by its text.\<close>

datatype comparable_value = SortedTexts "string list" | OneText string

fun comparable :: "jval \<Rightarrow> comparable_value" where
  "comparable (JList vs) = SortedTexts (sort (map py_str vs))"
| "comparable v = OneText (py_str v)"

subsection \<open>Comparing two entities\<close>

fun COMPARABLE_ATTRIBUTES_BY_ENTITY_TYPE :: "entity_type \<Rightarrow> string list option" where
  "COMPARABLE_ATTRIBUTES_BY_ENTITY_TYPE Device = Some DEVICE_SOFTWARE_COMPARABLE_ATTRIBUTES"
| "COMPARABLE_ATTRIBUTES_BY_ENTITY_TYPE Software = Some DEVICE_SOFTWARE_COMPARABLE_ATTRIBUTES"
| "COMPARABLE_ATTRIBUTES_BY_ENTITY_TYPE Person = Some PERSON_COMPARABLE_ATTRIBUTES"
| "COMPARABLE_ATTRIBUTES_BY_ENTITY_TYPE _ = None"

definition has_key :: "string \<Rightarrow> jdict \<Rightarrow> bool" where
  "has_key k d \<longleftrightarrow> k \<in> fst ` set d"

text \<open>The keys compared, without a repetition.\<close>

definition compared_keys :: "canonical_entity \<Rightarrow> canonical_entity \<Rightarrow> string list" where
  "compared_keys current incoming =
     (let cur = ce_attributes current; inc = ce_attributes incoming;
          keys = remdups (map fst cur @ map fst inc);
          carried = filter (\<lambda>k. has_key k inc) OPERATOR_OVERLAY_ATTRIBUTES;
          keys1 = (case COMPARABLE_ATTRIBUTES_BY_ENTITY_TYPE (ce_entity_type current) of None \<Rightarrow> keys
                   | Some allowlist \<Rightarrow> remdups (filter (\<lambda>k. k \<in> set allowlist) keys @ carried))
      in filter (\<lambda>k. \<not> (k \<in> set OPERATOR_OVERLAY_ATTRIBUTES \<and> \<not> has_key k inc)) keys1)"

definition field_diffs :: "canonical_entity \<Rightarrow> canonical_entity \<Rightarrow> (string \<times> jval \<times> jval) list" where
  "field_diffs current incoming =
     (let diff = (\<lambda>k. (k, dget k (ce_attributes current), dget k (ce_attributes incoming)));
          diffs = filter (\<lambda>(k, a, b). comparable a \<noteq> comparable b)
            (map diff (compared_keys current incoming))
      in if ce_status incoming = EntityDecommissioned \<and> ce_status current \<noteq> EntityDecommissioned
         then dput ''status'' (JStr (entity_status_value (ce_status current)),
                JStr (entity_status_value (ce_status incoming))) diffs
         else diffs)"

subsection \<open>\<open>reconcile\<close>\<close>

definition by_key :: "canonical_entity list \<Rightarrow> ((entity_type \<times> string) \<times> canonical_entity) list" where
  "by_key es = dput_all ce_key id [] es"

definition incoming_change ::
  "((entity_type \<times> string) \<times> canonical_entity) list \<Rightarrow> (entity_type \<times> string) \<times> canonical_entity \<Rightarrow> entity_change" where
  "incoming_change cur_by_key ki =
     (case ki of (key, inc) \<Rightarrow>
      case map_of cur_by_key key of
        None \<Rightarrow> \<lparr>ch_change_type = New, ch_entity_type = fst key, ch_natural_key = ce_natural_key inc,
                 ch_incoming = Some inc, ch_current = None, ch_field_diffs = []\<rparr>
      | Some cur \<Rightarrow>
          let diffs = field_diffs cur inc
          in \<lparr>ch_change_type = (if diffs \<noteq> [] then Changed else Unchanged), ch_entity_type = fst key,
              ch_natural_key = ce_natural_key inc, ch_incoming = Some inc, ch_current = Some cur,
              ch_field_diffs = diffs\<rparr>)"

definition missing_change :: "(entity_type \<times> string) \<times> canonical_entity \<Rightarrow> entity_change" where
  "missing_change kc =
     \<lparr>ch_change_type = Missing, ch_entity_type = fst (fst kc), ch_natural_key = ce_natural_key (snd kc),
      ch_incoming = None, ch_current = Some (snd kc), ch_field_diffs = []\<rparr>"

definition reconcile :: "canonical_entity list \<Rightarrow> canonical_entity list \<Rightarrow> entity_change list" where
  "reconcile current incoming =
     (let cur_by_key = by_key current; inc_by_key = by_key incoming
      in map (incoming_change cur_by_key) inc_by_key @
         map missing_change (filter (\<lambda>(key, cur). map_of inc_by_key key = None) cur_by_key))"

subsection \<open>What a transcription does not overwrite\<close>

text \<open>\<open>source_precedence_conflicts\<close>: the diff of a row a connector supplied loses the
  fields the connector owns, and each that disagrees is told.\<close>

definition precedence_applies :: "entity_change \<Rightarrow> bool" where
  "precedence_applies c \<longleftrightarrow> ch_change_type c = Changed \<and>
     (case (ch_current c, ch_incoming c) of
        (Some cur, Some inc) \<Rightarrow>
          ce_source cur \<in> set CONNECTOR_SOURCES \<and> ce_source inc \<notin> set CONNECTOR_SOURCES
      | _ \<Rightarrow> False)"

definition owned_fields :: "entity_change \<Rightarrow> string list" where
  "owned_fields c =
     (case ch_current c of None \<Rightarrow> []
      | Some cur \<Rightarrow> connector_supplied_fields (ch_entity_type c) (ce_attributes cur))"

definition without_owned :: "entity_change \<Rightarrow> entity_change" where
  "without_owned c =
     (if precedence_applies c
      then c\<lparr>ch_field_diffs := filter (\<lambda>(k, _). k \<notin> set (owned_fields c)) (ch_field_diffs c)\<rparr> else c)"

definition conflict_text :: "scope_source \<Rightarrow> string \<times> jval \<times> jval \<Rightarrow> string" where
  "conflict_text src d =
     (case d of (k, current_value, incoming_value) \<Rightarrow>
        ''Conflict, not applied: '' @ source_value src @ '' supplies '' @ k @ ''='' @
        py_repr current_value @ ''; the import says '' @ py_repr incoming_value @ ''.'')"

definition conflicts_of :: "entity_change \<Rightarrow> string list" where
  "conflicts_of c =
     (case ch_current c of None \<Rightarrow> [] | Some cur \<Rightarrow>
        if precedence_applies c
        then map (conflict_text (ce_source cur))
               (filter (\<lambda>(k, a, b). \<not> silent b)
                 (sort_key fst (filter (\<lambda>(k, _). k \<in> set (owned_fields c)) (ch_field_diffs c))))
        else [])"

definition source_precedence_conflicts ::
  "entity_change list \<Rightarrow> ((entity_type \<times> string) \<times> string list) list \<times> entity_change list" where
  "source_precedence_conflicts changes =
     (foldl (\<lambda>conflicts c. case ch_current c of None \<Rightarrow> conflicts
             | Some cur \<Rightarrow> foldl (\<lambda>d t. dappend (ce_key cur) t d) conflicts (conflicts_of c)) [] changes,
      map without_owned changes)"

subsection \<open>A person under two keys\<close>

text \<open>\<open>" ".join(s.lower().split())\<close>, and a field as text: \<open>str(v or "")\<close>.\<close>

fun words_from :: "string \<Rightarrow> string \<Rightarrow> string list" where
  "words_from w [] = (if w = [] then [] else [rev w])"
| "words_from w (c # s) =
     (if py_space c then (if w = [] then words_from [] s else rev w # words_from [] s)
      else words_from (c # w) s)"

definition normal_name :: "string \<Rightarrow> string" where
  "normal_name s = py_join '' '' (words_from [] (py_lower s))"

fun falsy :: "jval \<Rightarrow> bool" where
  "falsy JNull = True"
| "falsy (JBool b) = (\<not> b)"
| "falsy (JInt n) = (n = 0)"
| "falsy (JStr s) = (s = '''')"
| "falsy (JUuid i) = False"
| "falsy (JList vs) = (vs = [])"
| "falsy (JObj kvs) = (kvs = [])"

definition text_or_blank :: "jval \<Rightarrow> string" where
  "text_or_blank v = (if falsy v then '''' else py_str v)"

definition person_names :: "canonical_entity \<Rightarrow> string list" where
  "person_names e =
     (let a = ce_attributes e
      in remdups [text_or_blank (dget ''display_name'' a),
           text_or_blank (dget ''First Name'' a) @ '' '' @ text_or_blank (dget ''Last Name'' a)])"

definition names_index :: "canonical_entity list \<Rightarrow> (string \<times> string list) list" where
  "names_index current =
     foldl (\<lambda>d e.
        foldl (\<lambda>d n. let m = normal_name n
               in if m \<noteq> '''' \<and> m \<noteq> py_lower (py_strip (ce_natural_key e)) then dappend m (ce_natural_key e) d else d)
          d (person_names e))
       [] (filter (\<lambda>e. ce_entity_type e = Person) current)"

definition match_text :: "string \<Rightarrow> string" where
  "match_text existing_key =
     ''Possible match: existing person '' @ py_repr_str existing_key @ '' has this name. '' @
     ''Not merged -- confirm by hand before applying.''"

definition possible_person_matches ::
  "entity_change list \<Rightarrow> canonical_entity list \<Rightarrow> ((entity_type \<times> string) \<times> string list) list" where
  "possible_person_matches changes current =
     foldl (\<lambda>d c. case ch_incoming c of None \<Rightarrow> d | Some inc \<Rightarrow>
         if ch_change_type c = New \<and> ch_entity_type c = Person
         then foldl (\<lambda>d k. dappend (ce_key inc) (match_text k) d) d
                (case map_of (names_index current) (normal_name (ch_natural_key c)) of None \<Rightarrow> [] | Some ks \<Rightarrow> ks)
         else d)
       [] changes"

end
