(* ===== verification/Scope_Store.thy ===== *)
theory Scope_Store
  imports Review_Cycles Reconcile
begin

section \<open>The scope graph's store\<close>

text \<open>
  \<open>backend/app/repo.py\<close>, the only writer of a scope entity, and the requests of
  \<open>routers/scope.py\<close> that use it: adding, editing and deleting one entity, the dry run
  of an import and applying what was confirmed of it. A request is one transaction; its body has
  passed the validation of its schema.
\<close>

subsection \<open>Rows and entities\<close>

definition to_canonical :: "scope_entity \<Rightarrow> canonical_entity" where
  "to_canonical row =
     \<lparr>ce_entity_type = se_entity_type row, ce_natural_key = se_natural_key row,
      ce_attributes = se_attributes row, ce_scope_category = se_scope_category row,
      ce_status = se_status row, ce_in_boundary = se_in_boundary row, ce_source = se_source row,
      ce_source_ref = se_source_ref row\<rparr>"

definition list_entities :: "(string \<Rightarrow> nat list) \<Rightarrow> uuid \<Rightarrow> review_db \<Rightarrow> canonical_entity list" where
  "list_entities coll org_id s =
     map to_canonical
       (sort_key (\<lambda>r. coll (entity_type_value (se_entity_type r))) (sort_key (\<lambda>r. coll (se_natural_key r))
         (filter (\<lambda>r. se_org_id r = org_id) (t_scope s))))"

definition scope_row :: "uuid \<Rightarrow> entity_type \<Rightarrow> string \<Rightarrow> review_db \<Rightarrow> scope_entity option" where
  "scope_row org_id t natural_key s =
     find (\<lambda>r. se_org_id r = org_id \<and> se_entity_type r = t \<and> se_natural_key r = natural_key) (t_scope s)"

datatype scope_error =
    PendingApprovalWrite | ScopeEntityNotFound | HasApprovalRecord | NoIncoming | UnknownValue string
  | InvalidAttributes string

subsection \<open>\<open>upsert\<close>\<close>

definition dpop :: "string \<Rightarrow> jdict \<Rightarrow> jdict" where
  "dpop k d = filter (\<lambda>(k', _). k' \<noteq> k) d"

text \<open>\<open>{**a, **b}\<close>.\<close>

definition dmerge :: "jdict \<Rightarrow> jdict \<Rightarrow> jdict" where
  "dmerge a b = dput_all fst snd a b"

definition keep_overlay :: "bool \<Rightarrow> jdict \<Rightarrow> jdict \<Rightarrow> string \<Rightarrow> jdict" where
  "keep_overlay from_sync existing attributes k =
     (let a = (if from_sync then dpop k attributes else attributes)
      in if \<not> has_key k a \<and> has_key k existing then dput k (dget k existing) a else a)"

definition keep_supplied :: "jdict \<Rightarrow> jdict \<Rightarrow> string \<Rightarrow> jdict" where
  "keep_supplied existing attributes k = dput k (dget k existing) attributes"

text \<open>A transcription of what a connector observed: neither the fields nor the provenance are
  taken over.\<close>

definition transcribes :: "scope_entity \<Rightarrow> canonical_entity \<Rightarrow> bool" where
  "transcribes row e \<longleftrightarrow> se_source row \<in> set CONNECTOR_SOURCES \<and> ce_source e \<notin> set CONNECTOR_SOURCES"

definition import_attributes :: "scope_entity option \<Rightarrow> canonical_entity \<Rightarrow> jdict" where
  "import_attributes row e =
     (let existing = (case row of None \<Rightarrow> [] | Some r \<Rightarrow> se_attributes r);
          a1 = foldl (keep_overlay (ce_source e = Liongard) existing) (ce_attributes e) OPERATOR_OVERLAY_ATTRIBUTES
      in case row of None \<Rightarrow> a1 | Some r \<Rightarrow>
           let a2 = (if se_source r \<noteq> ce_source e then dmerge existing a1 else a1)
           in if transcribes r e
              then foldl (keep_supplied existing) a2 (connector_supplied_fields (ce_entity_type e) existing)
              else a2)"

definition written_row ::
  "bool \<Rightarrow> uuid \<Rightarrow> uuid \<Rightarrow> datetime \<Rightarrow> scope_entity option \<Rightarrow> canonical_entity \<Rightarrow> scope_entity" where
  "written_row operator_edit i org_id now row e =
     (let kept = (if operator_edit then None else row)
      in \<lparr>se_id = (case row of None \<Rightarrow> i | Some r \<Rightarrow> se_id r), se_org_id = org_id,
          se_entity_type = ce_entity_type e, se_natural_key = ce_natural_key e,
          se_scope_category =
            (case kept of Some r \<Rightarrow> (if ce_scope_category e = None then se_scope_category r else ce_scope_category e)
             | None \<Rightarrow> ce_scope_category e),
          se_status =
            (case kept of Some r \<Rightarrow>
               if ce_source e = Liongard \<or> se_status r = EntityDecommissioned then se_status r else ce_status e
             | None \<Rightarrow> ce_status e),
          se_in_boundary = (case kept of Some r \<Rightarrow> se_in_boundary r | None \<Rightarrow> ce_in_boundary e),
          se_source = (case kept of Some r \<Rightarrow> if transcribes r e then se_source r else ce_source e | None \<Rightarrow> ce_source e),
          se_source_ref =
            (case kept of Some r \<Rightarrow> if transcribes r e then se_source_ref r else ce_source_ref e | None \<Rightarrow> ce_source_ref e),
          se_last_verified_at = Some now,
          se_attributes = (if operator_edit then ce_attributes e else import_attributes row e)\<rparr>)"

definition upsert :: "bool \<Rightarrow> uuid \<Rightarrow> canonical_entity \<Rightarrow> review_db \<Rightarrow> scope_error + scope_entity \<times> review_db" where
  "upsert operator_edit org_id e s =
     (let row = scope_row org_id (ce_entity_type e) (ce_natural_key e) s
      in if ce_status e = PendingApproval then Inl PendingApprovalWrite
         else if (case row of None \<Rightarrow> False | Some r \<Rightarrow> se_status r = PendingApproval) then Inl PendingApprovalWrite
         else
           let new = written_row operator_edit (new_id s) org_id (now_of s) row e
           in Inr (new, case row of
                None \<Rightarrow> take_ids 1 (s\<lparr>t_scope := t_scope s @ [new]\<rparr>)
              | Some r \<Rightarrow> s\<lparr>t_scope := tupd se_id (se_id r) (\<lambda>_. new) (t_scope s)\<rparr>))"

subsection \<open>Requests about one entity\<close>

definition log_scope ::
  "uuid \<Rightarrow> string \<Rightarrow> uuid \<Rightarrow> jdict option \<Rightarrow> jdict option \<Rightarrow> jdict \<Rightarrow> review_db \<Rightarrow> review_db" where
  "log_scope org_id action entity_id before after ctx s =
     s\<lparr>rv_db := log_event_as None None (Some org_id) action ''scope_entity'' entity_id before after (Some ctx) (rv_db s)\<rparr>"

definition opt_jstr :: "string option \<Rightarrow> jval" where
  "opt_jstr v = (case v of None \<Rightarrow> JNull | Some t \<Rightarrow> JStr t)"

text \<open>The body of \<open>POST /scope\<close>, as validated: an entity whose source is manual.\<close>

definition create_scope_entity :: "uuid \<Rightarrow> canonical_entity \<Rightarrow> review_db \<Rightarrow> scope_error + scope_entity \<times> review_db" where
  "create_scope_entity org_id body s =
     (let e = body\<lparr>ce_source := Manual, ce_source_ref := None\<rparr>;
          is_new = (scope_row org_id (ce_entity_type e) (ce_natural_key e) s = None)
      in case upsert True org_id e s of Inl err \<Rightarrow> Inl err | Inr (row, s1) \<Rightarrow>
        Inr (row, log_scope org_id (if is_new then ''scope_entity.create'' else ''scope_entity.update'') (se_id row) None
          (Some [(''entity_type'', JStr (entity_type_value (ce_entity_type e))),
                 (''natural_key'', JStr (ce_natural_key e)), (''attributes'', JObj (ce_attributes e))])
          [(''via'', JStr ''api'')] s1))"

text \<open>The fields a \<open>PATCH\<close> sets; a category may be set to none.\<close>

record scope_patch =
  sp_scope_category :: "scope_category option option"
  sp_status :: "entity_status option"
  sp_in_boundary :: "bool option"
  sp_attributes :: "jdict option"

definition no_patch :: "scope_patch \<Rightarrow> bool" where
  "no_patch p \<longleftrightarrow> sp_scope_category p = None \<and> sp_status p = None \<and> sp_in_boundary p = None \<and> sp_attributes p = None"

definition patched_entity :: "scope_patch \<Rightarrow> canonical_entity \<Rightarrow> canonical_entity" where
  "patched_entity p e =
     e\<lparr>ce_scope_category := (case sp_scope_category p of None \<Rightarrow> ce_scope_category e | Some c \<Rightarrow> c),
       ce_status := (case sp_status p of None \<Rightarrow> ce_status e | Some st \<Rightarrow> st),
       ce_in_boundary := (case sp_in_boundary p of None \<Rightarrow> ce_in_boundary e | Some b \<Rightarrow> b),
       ce_attributes := (case sp_attributes p of None \<Rightarrow> ce_attributes e | Some a \<Rightarrow> dmerge (ce_attributes e) a)\<rparr>"

definition category_json :: "scope_category option \<Rightarrow> jval" where
  "category_json c = opt_jstr (map_option scope_category_value c)"

definition patch_json :: "scope_patch \<Rightarrow> jdict" where
  "patch_json p =
     (case sp_scope_category p of None \<Rightarrow> [] | Some c \<Rightarrow> [(''scope_category'', category_json c)]) @
     (case sp_status p of None \<Rightarrow> [] | Some st \<Rightarrow> [(''status'', JStr (entity_status_value st))]) @
     (case sp_in_boundary p of None \<Rightarrow> [] | Some b \<Rightarrow> [(''in_boundary'', JBool b)]) @
     (case sp_attributes p of None \<Rightarrow> [] | Some a \<Rightarrow> [(''attributes'', JObj a)])"

definition row_json :: "canonical_entity \<Rightarrow> jdict" where
  "row_json e =
     [(''scope_category'', category_json (ce_scope_category e)),
      (''status'', JStr (entity_status_value (ce_status e))),
      (''in_boundary'', JBool (ce_in_boundary e)), (''attributes'', JObj (ce_attributes e))]"

definition get_scope_entity :: "uuid \<Rightarrow> uuid \<Rightarrow> review_db \<Rightarrow> scope_entity option" where
  "get_scope_entity org_id entity_id s =
     find (\<lambda>r. se_id r = entity_id \<and> se_org_id r = org_id) (t_scope s)"

text \<open>\<open>validate\<close> is the attributes' schema (pydantic): an error, or the attributes in
  their normalized form, which it leaves in the dictionary it was given.\<close>

definition patch_scope_entity ::
  "(entity_type \<Rightarrow> jdict \<Rightarrow> string + jdict) \<Rightarrow> uuid \<Rightarrow> uuid \<Rightarrow> scope_patch \<Rightarrow> review_db
     \<Rightarrow> scope_error + scope_entity \<times> review_db" where
  "patch_scope_entity validate org_id entity_id p s =
     (case get_scope_entity org_id entity_id s of None \<Rightarrow> Inl ScopeEntityNotFound | Some row \<Rightarrow>
      let current = to_canonical row; e = patched_entity p current
      in if no_patch p then Inr (row, s)
         else case validate (ce_entity_type e) (ce_attributes e) of Inl t \<Rightarrow> Inl (InvalidAttributes t) | Inr a \<Rightarrow>
           (case upsert True org_id (e\<lparr>ce_attributes := a\<rparr>) s of Inl err \<Rightarrow> Inl err | Inr (row1, s1) \<Rightarrow>
              Inr (row1, log_scope org_id ''scope_entity.update'' (se_id row1)
                (Some (row_json (if sp_attributes p = None then current\<lparr>ce_attributes := a\<rparr> else current)))
                (Some (patch_json p)) [(''via'', JStr ''api'')] s1)))"

text \<open>\<open>approved\<close>: the entities an acceptance record refers to, whose foreign key
  restricts their deletion.\<close>

definition delete_scope_entity :: "uuid list \<Rightarrow> uuid \<Rightarrow> uuid \<Rightarrow> review_db \<Rightarrow> scope_error + review_db" where
  "delete_scope_entity approved org_id entity_id s =
     (case get_scope_entity org_id entity_id s of None \<Rightarrow> Inl ScopeEntityNotFound | Some row \<Rightarrow>
        if se_id row \<in> set approved then Inl HasApprovalRecord
        else
          let s1 = log_scope org_id ''scope_entity.delete'' (se_id row)
                (Some [(''entity_type'', JStr (entity_type_value (se_entity_type row))),
                       (''natural_key'', JStr (se_natural_key row))]) None [(''via'', JStr ''api'')] s
          in Inr (s1\<lparr>t_scope := filter (\<lambda>r. se_id r \<noteq> se_id row) (t_scope s1)\<rparr>))"

subsection \<open>An import\<close>

text \<open>What the dry run returns and the browser sends back, confirmed: texts, of which only the
  change type was looked at.\<close>

record scope_change_incoming =
  ic_scope_category :: "string option"
  ic_status :: string
  ic_in_boundary :: bool
  ic_source :: string
  ic_source_ref :: "string option"
  ic_attributes :: jdict

record scope_change_in =
  cg_change_type :: string
  cg_entity_type :: string
  cg_natural_key :: string
  cg_incoming :: "scope_change_incoming option"

definition incoming_out :: "canonical_entity \<Rightarrow> scope_change_incoming" where
  "incoming_out e =
     \<lparr>ic_scope_category = map_option scope_category_value (ce_scope_category e),
      ic_status = entity_status_value (ce_status e), ic_in_boundary = ce_in_boundary e,
      ic_source = source_value (ce_source e), ic_source_ref = ce_source_ref e,
      ic_attributes = ce_attributes e\<rparr>"

definition change_out :: "entity_change \<Rightarrow> scope_change_in" where
  "change_out c =
     \<lparr>cg_change_type = change_type_value (ch_change_type c),
      cg_entity_type = entity_type_value (ch_entity_type c), cg_natural_key = ch_natural_key c,
      cg_incoming = map_option incoming_out (ch_incoming c)\<rparr>"

text \<open>The dry run of an import whose rows were parsed: the changes as they are sent, the diffs
  with what would not be written already dropped.\<close>

definition import_dry_run ::
  "(string \<Rightarrow> nat list) \<Rightarrow> uuid \<Rightarrow> canonical_entity list \<Rightarrow> review_db \<Rightarrow> (scope_change_in \<times> (string \<times> jval \<times> jval) list) list" where
  "import_dry_run coll org_id incoming s =
     (let changes = snd (source_precedence_conflicts (reconcile (list_entities coll org_id s) incoming))
      in map (\<lambda>c. (change_out c, ch_field_diffs c)) (filter (\<lambda>c. ch_change_type c \<noteq> Unchanged) changes))"

text \<open>The entity of one confirmed change; a text outside its vocabulary is refused.\<close>

definition entity_in :: "scope_change_in \<Rightarrow> scope_change_incoming \<Rightarrow> scope_error + canonical_entity" where
  "entity_in c i =
     (case entity_type_of (cg_entity_type c) of None \<Rightarrow> Inl (UnknownValue (cg_entity_type c)) | Some t \<Rightarrow>
      case (case ic_scope_category i of None \<Rightarrow> Some None | Some v \<Rightarrow>
              if v = '''' then Some None else map_option Some (scope_category_of v)) of
        None \<Rightarrow> Inl (UnknownValue (opt_text (ic_scope_category i))) | Some category \<Rightarrow>
      case entity_status_of (ic_status i) of None \<Rightarrow> Inl (UnknownValue (ic_status i)) | Some st \<Rightarrow>
      case source_of (ic_source i) of None \<Rightarrow> Inl (UnknownValue (ic_source i)) | Some src \<Rightarrow>
        Inr \<lparr>ce_entity_type = t, ce_natural_key = cg_natural_key c, ce_attributes = ic_attributes i,
             ce_scope_category = category, ce_status = st, ce_in_boundary = ic_in_boundary i,
             ce_source = src, ce_source_ref = ic_source_ref i\<rparr>)"

definition apply_change :: "uuid \<Rightarrow> scope_change_in \<Rightarrow> nat \<times> review_db \<Rightarrow> scope_error + nat \<times> review_db" where
  "apply_change org_id c acc =
     (case acc of (applied, s) \<Rightarrow>
      if cg_change_type c \<notin> {''new'', ''changed''} then Inr acc
      else case cg_incoming c of None \<Rightarrow> Inl NoIncoming | Some i \<Rightarrow>
       (case entity_in c i of Inl err \<Rightarrow> Inl err | Inr e \<Rightarrow>
        case upsert False org_id e s of Inl err \<Rightarrow> Inl err | Inr (row, s1) \<Rightarrow>
          Inr (Suc applied, log_scope org_id ''scope_entity.import_apply'' (se_id row) None
            (Some [(''entity_type'', JStr (entity_type_value (ce_entity_type e))),
                   (''natural_key'', JStr (ce_natural_key e)), (''change_type'', JStr (cg_change_type c))])
            [(''via'', JStr ''api''), (''source'', JStr (source_value (ce_source e)))] s1)))"

definition import_apply :: "uuid \<Rightarrow> scope_change_in list \<Rightarrow> review_db \<Rightarrow> scope_error + nat \<times> review_db" where
  "import_apply org_id changes s = foldres (apply_change org_id) changes (0, s)"

end
