(* ===== verification/Scope_Sync.thy ===== *)
theory Scope_Sync
  imports Scope_Store
begin

section \<open>Onboarding by approval\<close>

text \<open>
  \<open>backend/app/liongard_sync.py\<close>: a pull from Liongard is reconciled with the scope
  graph and kept as a result with its changes; a new entity enters the graph only when a person
  approves or rejects its change, which leaves an acceptance record. What the connector and its
  importer return is \<open>liongard_pull\<close>. The tables are next to those of the reviews in
  \<open>scope_db\<close>.
\<close>

datatype sync_status = PendingReview | Reviewed | Superseded | NoChanges

fun sync_status_value :: "sync_status \<Rightarrow> string" where
  "sync_status_value PendingReview = ''pending_review''"
| "sync_status_value Reviewed = ''reviewed''"
| "sync_status_value Superseded = ''superseded''"
| "sync_status_value NoChanges = ''no_changes''"

datatype resolution = ResolutionPending | Approved | Rejected

record sync_result =
  sy_id :: uuid
  sy_org_id :: uuid
  sy_job_run_id :: "uuid option"
  sy_environment_id :: int
  sy_environment_name :: "string option"
  sy_pulled_at :: datetime
  sy_status :: sync_status
  sy_summary :: jdict
  sy_warnings :: "string list"

record sync_change =
  sg_id :: uuid
  sg_sync_result_id :: uuid
  sg_org_id :: uuid
  sg_change_type :: change_type
  sg_entity_type :: entity_type
  sg_natural_key :: string
  sg_field_diffs :: "(string \<times> jval \<times> jval) list"
  sg_incoming :: "jdict option"
  sg_warnings :: "string list"
  sg_resolution :: "resolution option"
  sg_resolved_at :: "datetime option"
  sg_resolved_by :: "string option"

record asset_approval =
  aa_id :: uuid
  aa_org_id :: uuid
  aa_scope_entity_id :: uuid
  aa_change_id :: "uuid option"
  aa_decision :: resolution
  aa_decided_by :: string
  aa_decided_by_name :: string
  aa_decided_at :: datetime
  aa_rejection_reason :: "string option"

record checklist_item =
  ck_id :: uuid
  ck_approval_id :: uuid
  ck_org_id :: uuid
  ck_product_key :: string
  ck_product_name :: string
  ck_confirmed :: bool

record scope_db =
  sd :: review_db
  t_sync :: "sync_result list"
  t_change :: "sync_change list"
  t_approval :: "asset_approval list"
  t_checklist :: "checklist_item list"

datatype sync_error =
    ChangeNotFound | NotANewEntity | AlreadyResolved resolution | NoIncomingData | ReasonRequired
  | BadSnapshot | Refused scope_error

definition sd_new_id :: "scope_db \<Rightarrow> uuid" where
  "sd_new_id s = new_id (sd s)"

definition sd_take :: "nat \<Rightarrow> scope_db \<Rightarrow> scope_db" where
  "sd_take n s = s\<lparr>sd := take_ids n (sd s)\<rparr>"

subsection \<open>A snapshot of an entity\<close>

definition entity_to_jsonb :: "canonical_entity \<Rightarrow> jdict" where
  "entity_to_jsonb e =
     [(''entity_type'', JStr (entity_type_value (ce_entity_type e))),
      (''natural_key'', JStr (ce_natural_key e)), (''attributes'', JObj (ce_attributes e)),
      (''scope_category'', category_json (ce_scope_category e)),
      (''status'', JStr (entity_status_value (ce_status e))),
      (''in_boundary'', JBool (ce_in_boundary e)), (''source'', JStr (source_value (ce_source e))),
      (''source_ref'', opt_jstr (ce_source_ref e))]"

text \<open>Reading it back; a missing key or a text outside its vocabulary raises.\<close>

definition jstr :: "jval option \<Rightarrow> string option" where
  "jstr v = (case v of Some (JStr t) \<Rightarrow> Some t | _ \<Rightarrow> None)"

definition jstr_via :: "(string \<Rightarrow> 'a option) \<Rightarrow> jval option \<Rightarrow> 'a option" where
  "jstr_via f v = (case jstr v of None \<Rightarrow> None | Some t \<Rightarrow> f t)"

definition jcategory :: "jval option \<Rightarrow> scope_category option option" where
  "jcategory v =
     (case v of Some (JStr t) \<Rightarrow> if t = '''' then Some None else map_option Some (scope_category_of t)
      | _ \<Rightarrow> Some None)"

definition jattributes :: "jval option \<Rightarrow> jdict" where
  "jattributes v = (case v of Some (JObj a) \<Rightarrow> a | _ \<Rightarrow> [])"

definition entity_from_jsonb :: "jdict \<Rightarrow> canonical_entity option" where
  "entity_from_jsonb data =
     (case (jstr_via entity_type_of (map_of data ''entity_type''), jstr (map_of data ''natural_key''),
            jcategory (map_of data ''scope_category''), jstr_via entity_status_of (map_of data ''status''),
            jstr_via source_of (map_of data ''source'')) of
        (Some t, Some k, Some c, Some st, Some src) \<Rightarrow>
          Some \<lparr>ce_entity_type = t, ce_natural_key = k, ce_attributes = jattributes (map_of data ''attributes''),
            ce_scope_category = c, ce_status = st,
            ce_in_boundary = (case map_of data ''in_boundary'' of Some (JBool b) \<Rightarrow> b | _ \<Rightarrow> True),
            ce_source = src, ce_source_ref = jstr (map_of data ''source_ref'')\<rparr>
      | _ \<Rightarrow> None)"

lemma entity_jsonb_roundtrip [simp]: "entity_from_jsonb (entity_to_jsonb e) = Some e"
proof -
  have "jcategory (Some (category_json (ce_scope_category e))) = Some (ce_scope_category e)"
    by (cases "ce_scope_category e")
      (auto simp: jcategory_def category_json_def opt_jstr_def elim: scope_category_value.elims)
  moreover have "jstr (Some (opt_jstr (ce_source_ref e))) = ce_source_ref e"
    by (cases "ce_source_ref e") (simp_all add: jstr_def opt_jstr_def)
  ultimately show ?thesis
    by (simp add: entity_from_jsonb_def entity_to_jsonb_def jstr_via_def)
      (simp add: jstr_def jattributes_def)
qed

subsection \<open>A pull\<close>

record liongard_pull =
  lp_incoming :: "canonical_entity list"
  lp_row_warnings :: "((entity_type \<times> string) \<times> string list) list"
  lp_warnings :: "string list"
  lp_pulled_at :: datetime
  lp_environment_id :: int
  lp_environment_name :: "string option"

text \<open>A new entity waits for approval, and one that waits still does.\<close>

definition pending_by_default :: "entity_change \<Rightarrow> entity_change" where
  "pending_by_default c =
     (if ch_change_type c = New \<or>
         (case ch_current c of None \<Rightarrow> False | Some cur \<Rightarrow> ce_status cur = PendingApproval)
      then c\<lparr>ch_incoming := map_option (\<lambda>e. e\<lparr>ce_status := PendingApproval\<rparr>) (ch_incoming c)\<rparr> else c)"

definition pull_and_reconcile ::
  "(string \<Rightarrow> nat list) \<Rightarrow> uuid \<Rightarrow> liongard_pull \<Rightarrow> scope_db \<Rightarrow> entity_change list" where
  "pull_and_reconcile coll org_id pull s =
     map pending_by_default (reconcile (list_entities coll org_id (sd s)) (lp_incoming pull))"

definition summary_json :: "entity_change list \<Rightarrow> jdict" where
  "summary_json changes =
     map (\<lambda>t. (change_type_value t, JInt (int (summary changes t)))) [New, Changed, Missing, Unchanged]"

definition mk_change :: "uuid \<Rightarrow> uuid \<Rightarrow> liongard_pull \<Rightarrow> uuid \<Rightarrow> entity_change \<Rightarrow> sync_change" where
  "mk_change sync_result_id org_id pull i c =
     \<lparr>sg_id = i, sg_sync_result_id = sync_result_id, sg_org_id = org_id,
      sg_change_type = ch_change_type c, sg_entity_type = ch_entity_type c,
      sg_natural_key = ch_natural_key c, sg_field_diffs = ch_field_diffs c,
      sg_incoming = map_option entity_to_jsonb (ch_incoming c),
      sg_warnings = (case map_of (lp_row_warnings pull) (match_key (ch_entity_type c) (ch_natural_key c)) of
         None \<Rightarrow> [] | Some ws \<Rightarrow> ws),
      sg_resolution = (if ch_change_type c = New then Some ResolutionPending else None),
      sg_resolved_at = None, sg_resolved_by = None\<rparr>"

definition persist_sync_result ::
  "uuid \<Rightarrow> liongard_pull \<Rightarrow> entity_change list \<Rightarrow> uuid option \<Rightarrow> scope_db \<Rightarrow> sync_result \<times> scope_db" where
  "persist_sync_result org_id pull changes job_run_id s =
     (let kept = filter (\<lambda>c. ch_change_type c \<noteq> Unchanged) changes;
          result = \<lparr>sy_id = sd_new_id s, sy_org_id = org_id, sy_job_run_id = job_run_id,
            sy_environment_id = lp_environment_id pull, sy_environment_name = lp_environment_name pull,
            sy_pulled_at = lp_pulled_at pull,
            sy_status = (if list_ex (\<lambda>c. ch_change_type c = New) kept then PendingReview else NoChanges),
            sy_summary = summary_json changes, sy_warnings = lp_warnings pull\<rparr>;
          s1 = s\<lparr>t_sync := map (\<lambda>r. if sy_org_id r = org_id \<and> sy_status r = PendingReview
                                  then r\<lparr>sy_status := Superseded\<rparr> else r) (t_sync s) @ [result]\<rparr>;
          s2 = sd_take 1 s1
      in (result, sd_take (length kept)
            (s2\<lparr>t_change := t_change s2 @ insert_rows (mk_change (sy_id result) org_id pull) (sd_new_id s2) kept\<rparr>)))"

text \<open>The audit row of a handler about one row, by the user who called it.\<close>

definition log_as ::
  "uuid \<Rightarrow> string \<Rightarrow> uuid \<Rightarrow> string \<Rightarrow> string \<Rightarrow> uuid \<Rightarrow> jdict \<Rightarrow> jdict \<Rightarrow> scope_db \<Rightarrow> scope_db" where
  "log_as user_id actor_type org_id action entity_type entity_id after ctx s =
     s\<lparr>sd := (sd s)\<lparr>rv_db := log_event_as (Some (uuid_text user_id)) (Some actor_type) (Some org_id) action
        entity_type entity_id None (Some after) (Some ctx) (rv_db (sd s))\<rparr>\<rparr>"

text \<open>Sync now: nothing of the scope graph is written.\<close>

definition sync_now ::
  "(string \<Rightarrow> nat list) \<Rightarrow> uuid \<Rightarrow> liongard_pull \<Rightarrow> uuid \<Rightarrow> string \<Rightarrow> scope_db \<Rightarrow> sync_result \<times> scope_db" where
  "sync_now coll org_id pull user_id actor_type s =
     (let (result, s1) = persist_sync_result org_id pull (pull_and_reconcile coll org_id pull s) None s
      in (result, log_as user_id actor_type org_id ''liongard_sync_result.create'' ''liongard_sync_result'' (sy_id result)
            [(''status'', JStr (sync_status_value (sy_status result))), (''summary'', JObj (sy_summary result))]
            [(''via'', JStr ''api'')] s1))"

subsection \<open>A decision\<close>

definition maybe_mark_reviewed :: "uuid \<Rightarrow> scope_db \<Rightarrow> scope_db" where
  "maybe_mark_reviewed sync_result_id s =
     (if list_ex (\<lambda>c. sg_sync_result_id c = sync_result_id \<and> sg_change_type c = New \<and>
            sg_resolution c = Some ResolutionPending) (t_change s)
      then s
      else s\<lparr>t_sync := tupd sy_id sync_result_id
             (\<lambda>r. if sy_status r = PendingReview then r\<lparr>sy_status := Reviewed\<rparr> else r) (t_sync s)\<rparr>)"

text \<open>\<open>ORDER BY\<close> the name; the tools of the organization that are active.\<close>

definition activated_products_for_org :: "(string \<Rightarrow> nat list) \<Rightarrow> uuid \<Rightarrow> scope_db \<Rightarrow> product list" where
  "activated_products_for_org coll org_id s =
     (let u = rv_db (sd s)
      in sort_key (\<lambda>p. coll (p_name p))
           (map snd (join_on (\<lambda>op. tget p_id (op_product_id op) (t_product u))
             (filter (\<lambda>op. op_org_id op = org_id \<and> op_status op = Active) (t_orgproduct u)))))"

definition mk_checklist :: "uuid \<Rightarrow> uuid \<Rightarrow> (string \<Rightarrow> bool) \<Rightarrow> uuid \<Rightarrow> product \<Rightarrow> checklist_item" where
  "mk_checklist approval_id org_id confirmed i p =
     \<lparr>ck_id = i, ck_approval_id = approval_id, ck_org_id = org_id, ck_product_key = p_key p,
      ck_product_name = p_name p, ck_confirmed = confirmed (p_key p)\<rparr>"

definition decide_row :: "resolution \<Rightarrow> datetime \<Rightarrow> string \<Rightarrow> sync_change \<Rightarrow> sync_change" where
  "decide_row decision now by_user c =
     c\<lparr>sg_resolution := Some decision, sg_resolved_at := Some now, sg_resolved_by := Some by_user\<rparr>"

text \<open>What approving and rejecting share: the checks, the entity's row, the acceptance record
  and the resolution of the change.\<close>

definition decidable :: "uuid \<Rightarrow> sync_change \<Rightarrow> sync_error + jdict" where
  "decidable org_id c =
     (if sg_org_id c \<noteq> org_id then Inl ChangeNotFound
      else if sg_change_type c \<noteq> New then Inl NotANewEntity
      else if sg_resolution c \<noteq> Some ResolutionPending
      then Inl (AlreadyResolved (case sg_resolution c of None \<Rightarrow> ResolutionPending | Some r \<Rightarrow> r))
      else case sg_incoming c of None \<Rightarrow> Inl NoIncomingData | Some data \<Rightarrow> Inr data)"

definition mk_approval ::
  "resolution \<Rightarrow> uuid \<Rightarrow> uuid \<Rightarrow> uuid \<Rightarrow> string \<Rightarrow> string \<Rightarrow> string option \<Rightarrow> scope_db \<Rightarrow> asset_approval" where
  "mk_approval decision org_id entity_id change_id by_user by_name reason s =
     \<lparr>aa_id = sd_new_id s, aa_org_id = org_id, aa_scope_entity_id = entity_id, aa_change_id = Some change_id,
      aa_decision = decision, aa_decided_by = by_user, aa_decided_by_name = by_name,
      aa_decided_at = now_of (sd s), aa_rejection_reason = reason\<rparr>"

definition resolve ::
  "resolution \<Rightarrow> uuid \<Rightarrow> sync_change \<Rightarrow> canonical_entity \<Rightarrow> string \<Rightarrow> string \<Rightarrow> string option \<Rightarrow> product list \<Rightarrow>
     (string \<Rightarrow> bool) \<Rightarrow> scope_db \<Rightarrow> sync_error + asset_approval \<times> scope_db" where
  "resolve decision org_id c e by_user by_name reason products confirmed s =
     (case upsert False org_id e (sd s) of Inl err \<Rightarrow> Inl (Refused err) | Inr (row, u) \<Rightarrow>
        let s1 = s\<lparr>sd := u\<rparr>;
            approval = mk_approval decision org_id (se_id row) (sg_id c) by_user by_name reason s1;
            s2 = sd_take 1 (s1\<lparr>t_approval := t_approval s1 @ [approval]\<rparr>);
            s3 = sd_take (length products)
              (s2\<lparr>t_checklist := t_checklist s2 @
                 insert_rows (mk_checklist (aa_id approval) org_id confirmed) (sd_new_id s2) products\<rparr>);
            s4 = s3\<lparr>t_change := tupd sg_id (sg_id c) (decide_row decision (now_of (sd s3)) by_user) (t_change s3)\<rparr>
        in Inr (approval, maybe_mark_reviewed (sg_sync_result_id c) s4))"

definition approve_change ::
  "(string \<Rightarrow> nat list) \<Rightarrow> uuid \<Rightarrow> sync_change \<Rightarrow> string \<Rightarrow> string \<Rightarrow> (string \<Rightarrow> bool) \<Rightarrow> scope_db
     \<Rightarrow> sync_error + asset_approval \<times> scope_db" where
  "approve_change coll org_id c by_user by_name confirmed s =
     (case decidable org_id c of Inl err \<Rightarrow> Inl err | Inr data \<Rightarrow>
      case entity_from_jsonb data of None \<Rightarrow> Inl BadSnapshot | Some e \<Rightarrow>
        resolve Approved org_id c (e\<lparr>ce_status := EntityActive\<rparr>) by_user by_name None
          (activated_products_for_org coll org_id s) confirmed s)"

definition reject_change ::
  "uuid \<Rightarrow> sync_change \<Rightarrow> string \<Rightarrow> string \<Rightarrow> string \<Rightarrow> scope_db \<Rightarrow> sync_error + asset_approval \<times> scope_db" where
  "reject_change org_id c by_user by_name reason s =
     (case decidable org_id c of Inl err \<Rightarrow> Inl err | Inr data \<Rightarrow>
        if py_strip reason = '''' then Inl ReasonRequired
        else case entity_from_jsonb data of None \<Rightarrow> Inl BadSnapshot | Some e \<Rightarrow>
          resolve Rejected org_id c (e\<lparr>ce_status := EntityActive, ce_in_boundary := False\<rparr>) by_user by_name
               (Some (py_strip reason)) [] (\<lambda>_. False) s)"

subsection \<open>The handlers\<close>

definition find_change :: "uuid \<Rightarrow> uuid \<Rightarrow> uuid \<Rightarrow> scope_db \<Rightarrow> sync_error + sync_change" where
  "find_change org_id sync_result_id change_id s =
     (case tget sg_id change_id (t_change s) of None \<Rightarrow> Inl ChangeNotFound | Some c \<Rightarrow>
        if sg_sync_result_id c \<noteq> sync_result_id \<or> sg_org_id c \<noteq> org_id then Inl ChangeNotFound else Inr c)"

definition log_decision ::
  "uuid \<Rightarrow> uuid \<Rightarrow> string \<Rightarrow> sync_change \<Rightarrow> asset_approval \<Rightarrow> jdict \<Rightarrow> string \<Rightarrow> scope_db \<Rightarrow> scope_db" where
  "log_decision org_id user_id actor_type c approval extra action s =
     log_as user_id actor_type org_id action ''asset_approval'' (aa_id approval)
       ([(''scope_entity_id'', JUuid (aa_scope_entity_id approval)),
         (''natural_key'', JStr (sg_natural_key c)),
         (''entity_type'', JStr (entity_type_value (sg_entity_type c)))] @ extra)
       [(''via'', JStr ''api''), (''sync_result_id'', JUuid (sg_sync_result_id c))] s"

definition approve_request ::
  "(string \<Rightarrow> nat list) \<Rightarrow> uuid \<Rightarrow> uuid \<Rightarrow> uuid \<Rightarrow> uuid \<Rightarrow> string \<Rightarrow> string \<Rightarrow> (string \<Rightarrow> bool) \<Rightarrow> scope_db
     \<Rightarrow> sync_error + scope_db" where
  "approve_request coll org_id sync_result_id change_id user_id actor_type display_name confirmed s =
     (case find_change org_id sync_result_id change_id s of Inl err \<Rightarrow> Inl err | Inr c \<Rightarrow>
      case approve_change coll org_id c (uuid_text user_id) display_name confirmed s of Inl err \<Rightarrow> Inl err
      | Inr (approval, s1) \<Rightarrow> Inr (log_decision org_id user_id actor_type c approval [] ''asset_approval.approve'' s1))"

definition reject_request ::
  "uuid \<Rightarrow> uuid \<Rightarrow> uuid \<Rightarrow> uuid \<Rightarrow> string \<Rightarrow> string \<Rightarrow> string \<Rightarrow> scope_db \<Rightarrow> sync_error + scope_db" where
  "reject_request org_id sync_result_id change_id user_id actor_type display_name reason s =
     (case find_change org_id sync_result_id change_id s of Inl err \<Rightarrow> Inl err | Inr c \<Rightarrow>
      case reject_change org_id c (uuid_text user_id) display_name reason s of Inl err \<Rightarrow> Inl err
      | Inr (approval, s1) \<Rightarrow>
          Inr (log_decision org_id user_id actor_type c approval
                [(''rejection_reason'', opt_jstr (aa_rejection_reason approval))] ''asset_approval.reject'' s1))"

subsection \<open>Every request about the scope graph\<close>

record scope_deployment =
  sdp_coll :: "string \<Rightarrow> nat list"
  sdp_validate :: "entity_type \<Rightarrow> jdict \<Rightarrow> string + jdict"

datatype scope_request =
    CreateEntity uuid canonical_entity
  | PatchEntity uuid uuid scope_patch
  | DeleteEntity uuid uuid
  | ImportApply uuid "scope_change_in list"
  | SyncNow uuid liongard_pull uuid string
  | ApproveChange uuid uuid uuid uuid string string "string \<Rightarrow> bool"
  | RejectChange uuid uuid uuid uuid string string string
  | Passing datetime

definition on_sd :: "('e + review_db) \<Rightarrow> scope_db \<Rightarrow> 'e + scope_db" where
  "on_sd r s = map_sum id (\<lambda>u. s\<lparr>sd := u\<rparr>) r"

text \<open>A deleted entity is forgotten by the reviews' snapshots.\<close>

definition forget_deleted :: "review_db \<Rightarrow> review_db" where
  "forget_deleted u = u\<lparr>t_item := map (forget_entity (t_scope u)) (t_item u)\<rparr>"

fun serve_scope :: "scope_deployment \<Rightarrow> scope_request \<Rightarrow> scope_db \<Rightarrow> sync_error + scope_db" where
  "serve_scope d (CreateEntity org_id e) s =
     on_sd (map_sum Refused snd (create_scope_entity org_id e (sd s))) s"
| "serve_scope d (PatchEntity org_id i p) s =
     on_sd (map_sum Refused snd (patch_scope_entity (sdp_validate d) org_id i p (sd s))) s"
| "serve_scope d (DeleteEntity org_id i) s =
     on_sd (map_sum Refused forget_deleted
       (delete_scope_entity (map aa_scope_entity_id (t_approval s)) org_id i (sd s))) s"
| "serve_scope d (ImportApply org_id changes) s =
     on_sd (map_sum Refused snd (import_apply org_id changes (sd s))) s"
| "serve_scope d (SyncNow org_id pull user_id actor_type) s =
     Inr (snd (sync_now (sdp_coll d) org_id pull user_id actor_type s))"
| "serve_scope d (ApproveChange org_id r i user_id actor_type by_name confirmed) s =
     approve_request (sdp_coll d) org_id r i user_id actor_type by_name confirmed s"
| "serve_scope d (RejectChange org_id r i user_id actor_type by_name reason) s =
     reject_request org_id r i user_id actor_type by_name reason s"
| "serve_scope d (Passing now) s = Inr (s\<lparr>sd := (sd s)\<lparr>rv_db := (rv_db (sd s))\<lparr>clock := now\<rparr>\<rparr>\<rparr>)"

definition scope_step :: "scope_deployment \<Rightarrow> scope_db \<Rightarrow> scope_request \<Rightarrow> scope_db" where
  "scope_step d s r = (case serve_scope d r s of Inl e \<Rightarrow> s | Inr s' \<Rightarrow> s')"

end
