(* ===== verification/Reconcile_Facts.thy ===== *)
theory Reconcile_Facts
  imports Reconcile
begin

section \<open>What reconciliation finds\<close>

text \<open>
  The two indexes of \<open>reconcile\<close> as the last entity with a key, and the change each key
  gets.
\<close>

text \<open>A dictionary comprehension keeps the last entity of a key.\<close>

definition entity_with :: "entity_type \<times> string \<Rightarrow> canonical_entity list \<Rightarrow> canonical_entity option" where
  "entity_with key es = find (\<lambda>e. ce_key e = key) (rev es)"

lemma map_of_key_list: "map_of (map (\<lambda>e. (f e, e)) es) k = find (\<lambda>e. f e = k) es"
  by (induction es) auto

lemma by_key_entity [simp]: "map_of (by_key es) key = entity_with key es"
  using map_of_key_list[of ce_key "rev es" key] by (simp add: by_key_def map_of_dput_all entity_with_def rev_map)

lemma distinct_by_key: "distinct (map fst (by_key es))"
  by (simp add: by_key_def distinct_dput_all)

lemma entity_with_Some: "entity_with key es = Some e \<Longrightarrow> e \<in> set es \<and> ce_key e = key"
  by (auto simp: entity_with_def find_Some_iff) (metis nth_mem length_rev set_rev)

lemma entity_with_None: "entity_with key es = None \<longleftrightarrow> key \<notin> ce_key ` set es"
  by (auto simp: entity_with_def find_None_iff)

lemma by_key_iff: "(key, e) \<in> set (by_key es) \<longleftrightarrow> entity_with key es = Some e"
  using map_of_eq_Some_iff[OF distinct_by_key[of es], of key e] by simp

lemma by_key_keys: "fst ` set (by_key es) = ce_key ` set es"
proof -
  have "fst ` set (by_key es) = dom (map_of (by_key es))" by (simp add: dom_map_of_conv_image_fst)
  then show ?thesis using entity_with_None[of _ es] by (auto simp: dom_def)
qed

text \<open>What each key calls for.\<close>

definition change_for ::
  "canonical_entity list \<Rightarrow> canonical_entity list \<Rightarrow> entity_type \<times> string \<Rightarrow> change_type" where
  "change_for current incoming key =
     (case (entity_with key current, entity_with key incoming) of
        (None, _) \<Rightarrow> New | (_, None) \<Rightarrow> Missing
      | (Some cur, Some inc) \<Rightarrow> if field_diffs cur inc = [] then Unchanged else Changed)"

definition change_key :: "entity_change \<Rightarrow> entity_type \<times> string" where
  "change_key c = match_key (ch_entity_type c) (ch_natural_key c)"

lemma fst_ce_key [simp]: "fst (ce_key e) = ce_entity_type e"
  by (simp add: ce_key_def match_key_def)

lemma change_key_incoming:
  assumes "ce_key inc = key"
  shows "change_key (incoming_change m (key, inc)) = key"
  using assms by (auto simp: incoming_change_def change_key_def Let_def ce_key_def match_key_def split: option.split)

lemma change_key_missing: "ce_key cur = key \<Longrightarrow> change_key (missing_change (key, cur)) = key"
  by (auto simp: missing_change_def change_key_def ce_key_def match_key_def)

definition classified :: "canonical_entity list \<Rightarrow> canonical_entity list \<Rightarrow> entity_change \<Rightarrow> bool" where
  "classified current incoming c \<longleftrightarrow>
     (let key = change_key c
      in ch_change_type c = change_for current incoming key \<and>
         ch_incoming c = entity_with key incoming \<and> ch_current c = entity_with key current)"

lemma classified_incoming:
  assumes "entity_with key incoming = Some inc"
  shows "classified current incoming (incoming_change (by_key current) (key, inc))"
proof -
  have k: "change_key (incoming_change (by_key current) (key, inc)) = key"
    by (rule change_key_incoming) (use entity_with_Some[OF assms] in simp)
  show ?thesis unfolding classified_def k Let_def
    using assms by (auto simp: change_for_def incoming_change_def Let_def split: option.split)
qed

lemma classified_missing:
  assumes "entity_with key current = Some cur" "entity_with key incoming = None"
  shows "classified current incoming (missing_change (key, cur))"
proof -
  have k: "change_key (missing_change (key, cur)) = key"
    by (rule change_key_missing) (use entity_with_Some[OF assms(1)] in simp)
  show ?thesis unfolding classified_def k Let_def
    using assms by (simp add: change_for_def missing_change_def)
qed

lemma reconcile_classified: "c \<in> set (reconcile current incoming) \<Longrightarrow> classified current incoming c"
  by (auto simp: reconcile_def Let_def by_key_iff intro: classified_incoming classified_missing)

lemma reconcile_keys:
  "map change_key (reconcile current incoming) =
     map fst (by_key incoming) @
     map fst (filter (\<lambda>(key, cur). map_of (by_key incoming) key = None) (by_key current))"
proof -
  have key: "ce_key (snd x) = fst x" if "x \<in> set (by_key es)" for x es
    using that entity_with_Some[of "fst x" es "snd x"] by (simp flip: by_key_iff)
  have a: "change_key (incoming_change m x) = fst x" if "x \<in> set (by_key incoming)" for m x
    using change_key_incoming[OF key[OF that], of m] by simp
  have b: "change_key (missing_change x) = fst x" if "x \<in> set (by_key current)" for x
    using change_key_missing[OF key[OF that]] by simp
  show ?thesis by (auto simp: reconcile_def Let_def a b)
qed

lemma reconcile_keys_set: "change_key ` set (reconcile current incoming) = ce_key ` set current \<union> ce_key ` set incoming"
proof -
  have m: "map_of (by_key incoming) key = None \<longleftrightarrow> key \<notin> fst ` set (by_key incoming)" for key
    by (simp add: map_of_eq_None_iff del: by_key_entity)
  have "set (map change_key (reconcile current incoming)) =
      fst ` set (by_key incoming) \<union> {key \<in> fst ` set (by_key current). key \<notin> fst ` set (by_key incoming)}"
    unfolding reconcile_keys m by force
  then show ?thesis unfolding by_key_keys by auto
qed

lemma reconcile_keys_distinct: "distinct (map change_key (reconcile current incoming))"
  unfolding reconcile_keys distinct_append
  using distinct_by_key distinct_map_filter[OF distinct_by_key]
  by (auto simp: map_of_eq_None_iff simp del: by_key_entity) (metis imageI fst_conv)

text \<open>Which attributes are compared.\<close>

lemma compared_overlay: "k \<in> set (compared_keys current incoming) \<Longrightarrow> k \<in> set OPERATOR_OVERLAY_ATTRIBUTES
    \<Longrightarrow> has_key k (ce_attributes incoming)"
  by (auto simp: compared_keys_def Let_def split: option.splits)

lemma compared_known:
  "k \<in> set (compared_keys current incoming) \<Longrightarrow>
     has_key k (ce_attributes current) \<or> has_key k (ce_attributes incoming)"
  by (auto simp: compared_keys_def Let_def has_key_def image_iff split: option.splits)

lemma field_diffs_nil:
  assumes "\<And>k. k \<in> set (compared_keys current incoming) \<Longrightarrow>
      dget k (ce_attributes current) = dget k (ce_attributes incoming)"
    and "ce_status incoming = EntityDecommissioned \<Longrightarrow> ce_status current = EntityDecommissioned"
  shows "field_diffs current incoming = []"
  using assms by (auto simp: field_diffs_def Let_def filter_empty_conv)

end
