(* ===== verification/Scope_Facts.thy ===== *)
theory Scope_Facts
  imports Scope_Sync Review_Facts Reconcile_Facts
begin

section \<open>What an import writes\<close>

text \<open>
  The attributes an import leaves on a row, key by key, and what of the row it keeps. The rules of
  \<open>repo.upsert\<close> as one relation between the row before and after.
\<close>

lemma of_value_SomeD: "of_value value ms v = Some m \<Longrightarrow> value m = v"
  by (auto simp: of_value_def find_Some_iff)

subsection \<open>Dictionaries\<close>

lemma has_key_iff: "has_key k d \<longleftrightarrow> map_of d k \<noteq> None"
  by (simp add: has_key_def map_of_eq_None_iff)

lemma map_of_dpop: "map_of (dpop k d) = (map_of d)(k := None)"
  unfolding dpop_def by (induction d) (auto simp: fun_eq_iff)

lemma map_of_dmerge:
  assumes "distinct (map fst b)"
  shows "map_of (dmerge a b) = map_of a ++ map_of b"
proof -
  have "map_of (rev (map (\<lambda>x. (fst x, snd x)) b)) = map_of b"
    using assms by (simp add: rev_map[symmetric] map_of_inject_set distinct_map)
  then show ?thesis by (simp add: dmerge_def map_of_dput_all)
qed

lemma map_of_keep_overlay:
  "map_of (keep_overlay fs ex a k) = (map_of a)(k := if fs \<or> map_of a k = None then map_of ex k else map_of a k)"
  by (auto simp: keep_overlay_def Let_def has_key_iff map_of_dpop dget_def fun_eq_iff split: option.split)

lemma map_of_keep_overlays:
  assumes "distinct ks"
  shows "map_of (foldl (keep_overlay fs ex) a ks) k =
    (if k \<in> set ks \<and> (fs \<or> map_of a k = None) then map_of ex k else map_of a k)"
  using assms by (induction ks arbitrary: a) (auto simp: map_of_keep_overlay)

lemma map_of_keep_supplied:
  "map_of (foldl (keep_supplied ex) a ks) k = (if k \<in> set ks then Some (dget k ex) else map_of a k)"
  by (induction ks arbitrary: a) (auto simp: keep_supplied_def)


lemma distinct_overlay: "distinct OPERATOR_OVERLAY_ATTRIBUTES"
  by (simp add: OPERATOR_OVERLAY_ATTRIBUTES_def)

text \<open>Every dictionary of the program has each key once.\<close>

definition dict_ok :: "jdict \<Rightarrow> bool" where
  "dict_ok d \<longleftrightarrow> distinct (map fst d)"

lemma dict_ok_simps [simp]: "dict_ok []" "dict_ok d \<Longrightarrow> dict_ok (dput k v d)" "dict_ok d \<Longrightarrow> dict_ok (dpop k d)"
  by (simp_all add: dict_ok_def distinct_dput dpop_def distinct_map_filter)

lemma dict_ok_dmerge: "dict_ok a \<Longrightarrow> dict_ok (dmerge a b)"
  by (simp add: dict_ok_def dmerge_def distinct_dput_all)

lemma dict_ok_keep_overlays: "dict_ok a \<Longrightarrow> dict_ok (foldl (keep_overlay fs ex) a ks)"
  by (rule foldl_inv) (simp_all add: keep_overlay_def Let_def)

lemma dict_ok_keep_supplied: "dict_ok a \<Longrightarrow> dict_ok (foldl (keep_supplied ex) a ks)"
  by (rule foldl_inv) (simp_all add: keep_supplied_def)

definition existing_attributes :: "scope_entity option \<Rightarrow> jdict" where
  "existing_attributes row = (case row of None \<Rightarrow> [] | Some r \<Rightarrow> se_attributes r)"

text \<open>The value of each key after an import: what a connector supplied stands against a
  transcription; of the rest, the import's value, but a key only a person writes is kept when the
  import does not carry it or is a sync, and another source's keys are kept when not mentioned.\<close>

lemma import_attributes_value:
  assumes "dict_ok (ce_attributes e)"
  defines "written \<equiv> (\<lambda>row k. if k \<in> set OPERATOR_OVERLAY_ATTRIBUTES \<and> (ce_source e = Liongard \<or> \<not> has_key k (ce_attributes e))
      then map_of (existing_attributes row) k else map_of (ce_attributes e) k)"
  shows "map_of (import_attributes None e) k = written None k"
    and "map_of (import_attributes (Some r) e) k =
      (if transcribes r e \<and> k \<in> set (connector_supplied_fields (ce_entity_type e) (se_attributes r))
       then Some (dget k (se_attributes r))
       else if se_source r \<noteq> ce_source e \<and> written (Some r) k = None then map_of (se_attributes r) k
       else written (Some r) k)"
proof -
  note ov = map_of_keep_overlays[OF distinct_overlay]
  show "map_of (import_attributes None e) k = written None k"
    by (auto simp: import_attributes_def ov written_def has_key_iff existing_attributes_def)
  let ?a = "foldl (keep_overlay (ce_source e = Liongard) (se_attributes r)) (ce_attributes e) OPERATOR_OVERLAY_ATTRIBUTES"
  have a: "map_of ?a k = written (Some r) k" for k
    by (auto simp: ov written_def has_key_iff existing_attributes_def)
  have "distinct (map fst ?a)" using dict_ok_keep_overlays[OF assms(1)] by (simp add: dict_ok_def)
  then have m: "map_of (dmerge (se_attributes r) ?a) k = (case written (Some r) k of None \<Rightarrow> map_of (se_attributes r) k | Some v \<Rightarrow> Some v)"
    by (simp add: map_of_dmerge map_add_def a)
  show "map_of (import_attributes (Some r) e) k =
      (if transcribes r e \<and> k \<in> set (connector_supplied_fields (ce_entity_type e) (se_attributes r))
       then Some (dget k (se_attributes r))
       else if se_source r \<noteq> ce_source e \<and> written (Some r) k = None then map_of (se_attributes r) k
       else written (Some r) k)"
    unfolding import_attributes_def option.case Let_def
    by (simp add: map_of_keep_supplied m a split: option.split)
qed

lemma dict_ok_import: "dict_ok (ce_attributes e) \<Longrightarrow> dict_ok (existing_attributes row) \<Longrightarrow> dict_ok (import_attributes row e)"
  by (cases row)
    (simp_all add: import_attributes_def existing_attributes_def Let_def dict_ok_keep_overlays dict_ok_keep_supplied dict_ok_dmerge)


subsection \<open>What is kept of a row\<close>

text \<open>No import or sync decides what a person does: whether the entity is in the boundary and
  whether it is back in service. A row that waits for approval is not touched, what only a person
  writes is never lost, and a connector's row stays one.\<close>

definition kept_row :: "scope_entity \<Rightarrow> scope_entity \<Rightarrow> bool" where
  "kept_row r r' \<longleftrightarrow>
     se_id r' = se_id r \<and> se_org_id r' = se_org_id r \<and> se_entity_type r' = se_entity_type r \<and>
     se_natural_key r' = se_natural_key r \<and> se_in_boundary r' = se_in_boundary r \<and>
     (se_status r = EntityDecommissioned \<longrightarrow> se_status r' = EntityDecommissioned) \<and>
     (se_status r = PendingApproval \<longrightarrow> r' = r) \<and>
     (se_scope_category r \<noteq> None \<longrightarrow> se_scope_category r' \<noteq> None) \<and>
     (\<forall>k \<in> set OPERATOR_OVERLAY_ATTRIBUTES. has_key k (se_attributes r) \<longrightarrow> has_key k (se_attributes r')) \<and>
     (se_source r \<in> set CONNECTOR_SOURCES \<longrightarrow> se_source r' \<in> set CONNECTOR_SOURCES)"

lemma kept_row_refl [simp]: "kept_row r r"
  by (simp add: kept_row_def)

lemma kept_row_trans: "kept_row r s \<Longrightarrow> kept_row s t \<Longrightarrow> kept_row r t"
  by (auto simp: kept_row_def)

lemma overlay_kept:
  assumes "k \<in> set OPERATOR_OVERLAY_ATTRIBUTES" "has_key k (se_attributes r)"
  shows "has_key k (import_attributes (Some r) e)"
proof -
  let ?a = "foldl (keep_overlay (ce_source e = Liongard) (se_attributes r)) (ce_attributes e) OPERATOR_OVERLAY_ATTRIBUTES"
  have "map_of ?a k \<noteq> None"
    using assms by (auto simp: map_of_keep_overlays[OF distinct_overlay] has_key_iff)
  moreover have "map_of (dmerge (se_attributes r) ?a) k \<noteq> None"
    using assms(2) by (auto simp: dmerge_def map_of_dput_all has_key_iff map_add_def split: option.split)
  ultimately show ?thesis
    by (auto simp: import_attributes_def Let_def has_key_iff map_of_keep_supplied)
qed

lemma written_row_kept:
  assumes row: "se_org_id r = org_id" "se_entity_type r = ce_entity_type e" "se_natural_key r = ce_natural_key e"
    and st: "se_status r \<noteq> PendingApproval"
  shows "kept_row r (written_row False i org_id now (Some r) e)"
  using row st overlay_kept[of _ r e] by (auto simp: kept_row_def written_row_def transcribes_def)

text \<open>What \<open>upsert\<close> does to the table.\<close>

definition scope_keys :: "review_db \<Rightarrow> bool" where
  "scope_keys s \<longleftrightarrow> pk_ok se_id (new_id s) (t_scope s) \<and>
     distinct (map (\<lambda>r. (se_org_id r, se_entity_type r, se_natural_key r)) (t_scope s))"

lemma same_scope_row:
  assumes "scope_keys s" "x \<in> set (t_scope s)" "y \<in> set (t_scope s)" "se_id x = se_id y"
  shows "x = y"
proof -
  have "pk_ok se_id (new_id s) (t_scope s)" using assms(1) by (simp add: scope_keys_def)
  then show ?thesis by (rule pk_ok_inj[OF _ assms(2-4)])
qed

lemma scope_row_SomeD:
  "scope_row org_id t k s = Some r \<Longrightarrow>
     r \<in> set (t_scope s) \<and> se_org_id r = org_id \<and> se_entity_type r = t \<and> se_natural_key r = k"
  by (auto simp: scope_row_def find_Some_iff)

lemma scope_row_NoneD:
  "scope_row org_id t k s = None \<Longrightarrow>
     (org_id, t, k) \<notin> (\<lambda>r. (se_org_id r, se_entity_type r, se_natural_key r)) ` set (t_scope s)"
  by (auto simp: scope_row_def find_None_iff)

lemma written_row_fields [simp]:
  "se_id (written_row oe i org_id now row e) = (case row of None \<Rightarrow> i | Some r \<Rightarrow> se_id r)"
  "se_org_id (written_row oe i org_id now row e) = org_id"
  "se_entity_type (written_row oe i org_id now row e) = ce_entity_type e"
  "se_natural_key (written_row oe i org_id now row e) = ce_natural_key e"
  by (simp_all add: written_row_def)

lemma upsert_InrD:
  assumes "upsert oe org_id e s = Inr (new, s')"
  obtains (added) "scope_row org_id (ce_entity_type e) (ce_natural_key e) s = None" "ce_status e \<noteq> PendingApproval"
      "new = written_row oe (new_id s) org_id (now_of s) None e"
      "s' = take_ids 1 (s\<lparr>t_scope := t_scope s @ [new]\<rparr>)"
    | (updated) r where "scope_row org_id (ce_entity_type e) (ce_natural_key e) s = Some r"
      "ce_status e \<noteq> PendingApproval" "se_status r \<noteq> PendingApproval"
      "new = written_row oe (new_id s) org_id (now_of s) (Some r) e"
      "s' = s\<lparr>t_scope := tupd se_id (se_id r) (\<lambda>_. new) (t_scope s)\<rparr>"
  using assms unfolding upsert_def Let_def
  by (cases "scope_row org_id (ce_entity_type e) (ce_natural_key e) s") (auto split: if_splits)

lemma upsert_keys:
  assumes keys: "scope_keys s" and run: "upsert oe org_id e s = Inr (new, s')"
  shows "scope_keys s' \<and> new \<in> set (t_scope s') \<and> new_id s \<le> new_id s' \<and>
    se_id ` set (t_scope s) \<subseteq> se_id ` set (t_scope s')"
  using run
proof (cases rule: upsert_InrD)
  case added
  have "new_id s' = Suc (new_id s)" by (simp add: added(4) new_id_def)
  then have "pk_ok se_id (new_id s') (t_scope s')"
    using keys pk_ok_snoc[of se_id "new_id s" "t_scope s" new] by (simp add: scope_keys_def added(3,4))
  moreover have "distinct (map (\<lambda>r. (se_org_id r, se_entity_type r, se_natural_key r)) (t_scope s'))"
    using keys scope_row_NoneD[OF added(1)] by (simp add: scope_keys_def added(3,4) image_iff)
  ultimately show ?thesis using \<open>new_id s' = _\<close> by (auto simp: scope_keys_def added(4))
next
  case (updated r)
  note r = scope_row_SomeD[OF updated(1)]
  have same: "se_id new = se_id r" "se_org_id new = se_org_id r" "se_entity_type new = se_entity_type r"
    "se_natural_key new = se_natural_key r" using r by (simp_all add: updated(4))
  have ts: "t_scope s' = map (\<lambda>x. if se_id x = se_id r then new else x) (t_scope s)"
    by (simp add: updated(5) tupd_def)
  have inj: "x = r" if "x \<in> set (t_scope s)" "se_id x = se_id r" for x
    using same_scope_row[OF keys that(1) _ that(2)] r by simp
  have ids: "map se_id (t_scope s') = map se_id (t_scope s)"
    "map (\<lambda>r. (se_org_id r, se_entity_type r, se_natural_key r)) (t_scope s') =
      map (\<lambda>r. (se_org_id r, se_entity_type r, se_natural_key r)) (t_scope s)"
    unfolding ts using inj same by auto
  have "new_id s' = new_id s" by (simp add: updated(5) new_id_def)
  moreover have "pk_ok se_id (new_id s) (t_scope s')"
    by (rule pk_ok_keys[OF ids(1)]) (use keys in \<open>simp add: scope_keys_def\<close>)
  moreover have "new \<in> set (t_scope s')" unfolding ts using r by auto
  moreover have "se_id ` set (t_scope s') = se_id ` set (t_scope s)" using ids(1) by (metis set_map)
  ultimately show ?thesis using keys ids(2) by (simp add: scope_keys_def)
qed

lemma upsert_rows:
  assumes keys: "scope_keys s" and run: "upsert oe org_id e s = Inr (new, s')" and refl: "\<And>r. R r r"
    and upd: "\<And>q. se_org_id q = org_id \<Longrightarrow> se_entity_type q = ce_entity_type e \<Longrightarrow>
      se_natural_key q = ce_natural_key e \<Longrightarrow> se_status q \<noteq> PendingApproval \<Longrightarrow>
      R q (written_row oe (new_id s) org_id (now_of s) (Some q) e)"
  shows "\<forall>r \<in> set (t_scope s). \<exists>r' \<in> set (t_scope s'). R r r'"
proof
  fix r assume r: "r \<in> set (t_scope s)"
  from run show "\<exists>r' \<in> set (t_scope s'). R r r'"
  proof (cases rule: upsert_InrD)
    case added
    then show ?thesis using r refl by (auto intro: bexI[of _ r])
  next
    case (updated q)
    note q = scope_row_SomeD[OF updated(1)]
    show ?thesis
    proof (cases "se_id r = se_id q")
      case True
      have "r = q" using same_scope_row[OF keys r _ True] q by simp
      then have "R r new" unfolding updated(4) using upd[of q] q updated(3) by simp
      moreover have "new \<in> set (t_scope s')" using upsert_keys[OF keys run] by simp
      ultimately show ?thesis by blast
    next
      case False
      then have "r \<in> set (t_scope s')" using r by (auto simp: updated(5) set_tupd)
      then show ?thesis using refl by (auto intro: bexI[of _ r])
    qed
  qed
qed

lemma upsert_kept:
  assumes "scope_keys s" "upsert False org_id e s = Inr (new, s')" "r \<in> set (t_scope s)"
  shows "\<exists>r' \<in> set (t_scope s'). kept_row r r'"
  using upsert_rows[OF assms(1,2), of kept_row] written_row_kept assms(3) by simp

text \<open>A row that was new or of the same source compares equal to what was written.\<close>

lemma import_attributes_compared:
  assumes "dict_ok (ce_attributes e)" "row = None \<or> (\<exists>r. row = Some r \<and> se_source r = ce_source e)"
    and "k \<in> set OPERATOR_OVERLAY_ATTRIBUTES \<Longrightarrow> has_key k (ce_attributes e) \<and> ce_source e \<noteq> Liongard"
  shows "map_of (import_attributes row e) k = map_of (ce_attributes e) k"
  using assms(2)
proof
  assume "row = None"
  then show ?thesis using import_attributes_value(1)[OF assms(1), of k] assms(3) by auto
next
  assume "\<exists>r. row = Some r \<and> se_source r = ce_source e"
  then obtain r where "row = Some r" "se_source r = ce_source e" by blast
  then show ?thesis using import_attributes_value(2)[OF assms(1), of r k] assms(3) by (auto simp: transcribes_def)
qed

lemma upsert_compares_equal:
  assumes d: "dict_ok (ce_attributes e)" and run: "upsert False org_id e s = Inr (new, s')"
    and same: "\<And>r. scope_row org_id (ce_entity_type e) (ce_natural_key e) s = Some r \<Longrightarrow> se_source r = ce_source e"
    and sync: "ce_source e = Liongard \<Longrightarrow>
       ce_status e \<noteq> EntityDecommissioned \<and> (\<forall>k \<in> set OPERATOR_OVERLAY_ATTRIBUTES. \<not> has_key k (ce_attributes e))"
  shows "field_diffs (to_canonical new) e = []"
proof -
  let ?row = "scope_row org_id (ce_entity_type e) (ce_natural_key e) s"
  have new: "new = written_row False (new_id s) org_id (now_of s) ?row e"
    using run by (cases rule: upsert_InrD) simp_all
  have src: "?row = None \<or> (\<exists>r. ?row = Some r \<and> se_source r = ce_source e)" using same by (cases ?row) simp_all
  have at: "ce_attributes (to_canonical new) = import_attributes ?row e"
    "ce_status (to_canonical new) = se_status new" by (simp_all add: to_canonical_def new written_row_def Let_def)
  show ?thesis
  proof (rule field_diffs_nil)
    fix k assume k: "k \<in> set (compared_keys (to_canonical new) e)"
    have "map_of (import_attributes ?row e) k = map_of (ce_attributes e) k"
      by (rule import_attributes_compared[OF d src]) (use compared_overlay[OF k] sync in blast)
    then show "dget k (ce_attributes (to_canonical new)) = dget k (ce_attributes e)" by (simp add: dget_def at)
  next
    assume "ce_status e = EntityDecommissioned"
    then show "ce_status (to_canonical new) = EntityDecommissioned"
      using sync unfolding at by (auto simp: new written_row_def Let_def split: option.split)
  qed
qed

end
