(* ===== verification/Scope_Invariant.thy ===== *)
theory Scope_Invariant
  imports Scope_Facts Transactions
begin

section \<open>The invariant of the scope graph\<close>

text \<open>
  Over every request about the scope graph: an entity has one row, a decision has one acceptance
  record, whose entity cannot be deleted, and a pull is under review as long as one of its new
  entities waits.
\<close>

definition decisions_on :: "uuid \<Rightarrow> scope_db \<Rightarrow> asset_approval list" where
  "decisions_on change_id s = filter (\<lambda>a. aa_change_id a = Some change_id) (t_approval s)"

definition waiting :: "sync_change \<Rightarrow> bool" where
  "waiting c \<longleftrightarrow> sg_change_type c = New \<and> sg_resolution c = Some ResolutionPending"

definition change_ok :: "scope_db \<Rightarrow> sync_change \<Rightarrow> bool" where
  "change_ok s c \<longleftrightarrow>
     (case sg_resolution c of
        None \<Rightarrow> sg_change_type c \<noteq> New \<and> decisions_on (sg_id c) s = []
      | Some ResolutionPending \<Rightarrow> sg_change_type c = New \<and> decisions_on (sg_id c) s = []
      | Some r \<Rightarrow> sg_change_type c = New \<and> map aa_decision (decisions_on (sg_id c) s) = [r])"

definition result_ok :: "scope_db \<Rightarrow> sync_result \<Rightarrow> bool" where
  "result_ok s r \<longleftrightarrow>
     (let waits = list_ex (\<lambda>c. sg_sync_result_id c = sy_id r \<and> waiting c) (t_change s)
      in case sy_status r of PendingReview \<Rightarrow> waits | Reviewed \<Rightarrow> \<not> waits | NoChanges \<Rightarrow> \<not> waits | Superseded \<Rightarrow> True)"

definition scope_ok :: "scope_db \<Rightarrow> bool" where
  "scope_ok s \<longleftrightarrow> scope_keys (sd s) \<and>
     pk_ok sy_id (sd_new_id s) (t_sync s) \<and> pk_ok sg_id (sd_new_id s) (t_change s) \<and>
     pk_ok aa_id (sd_new_id s) (t_approval s) \<and>
     sg_sync_result_id ` set (t_change s) \<subseteq> sy_id ` set (t_sync s) \<and>
     Option.these (aa_change_id ` set (t_approval s)) \<subseteq> sg_id ` set (t_change s) \<and>
     aa_scope_entity_id ` set (t_approval s) \<subseteq> se_id ` set (t_scope (sd s)) \<and>
     (\<forall>c \<in> set (t_change s). change_ok s c) \<and> (\<forall>r \<in> set (t_sync s). result_ok s r)"

text \<open>What a step keeps: the acceptance records, and the entities they are about.\<close>

definition records_kept :: "scope_db \<Rightarrow> scope_db \<Rightarrow> bool" where
  "records_kept s s' \<longleftrightarrow> prefix (t_approval s) (t_approval s')"

subsection \<open>Steps that write only the scope graph\<close>

lemma log_scope_frame [simp]:
  "t_scope (log_scope o_id a i b af cx s) = t_scope s" "now_of (log_scope o_id a i b af cx s) = now_of s"
  "new_id (log_scope o_id a i b af cx s) = Suc (new_id s)" "t_item (log_scope o_id a i b af cx s) = t_item s"
  by (simp_all add: log_scope_def now_of_def new_id_def log_event_as_def)

lemma scope_keys_log: "scope_keys s \<Longrightarrow> scope_keys (log_scope o_id a i b af cx s)"
  by (auto simp: scope_keys_def intro: pk_ok_mono)

text \<open>\<open>grows u u'\<close>: the keys of the graph stay and no row of an accepted entity goes.\<close>

definition grows :: "uuid set \<Rightarrow> review_db \<Rightarrow> review_db \<Rightarrow> bool" where
  "grows accepted u u' \<longleftrightarrow> scope_keys u' \<and> new_id u \<le> new_id u' \<and>
     accepted \<inter> se_id ` set (t_scope u) \<subseteq> se_id ` set (t_scope u')"

lemma grows_trans: "grows A u v \<Longrightarrow> grows A v w \<Longrightarrow> grows A u w"
  by (auto simp: grows_def)

lemma grows_upsert:
  assumes "scope_keys u" "upsert oe org_id e u = Inr (new, u')"
  shows "grows A u u'"
  using upsert_keys[OF assms] unfolding grows_def by blast

text \<open>An audit row more.\<close>

definition logged :: "review_db \<Rightarrow> review_db \<Rightarrow> bool" where
  "logged u u' \<longleftrightarrow> (\<exists>o_id a i b af cx. u' = log_scope o_id a i b af cx u)"

lemma loggedI [intro!]: "logged u (log_scope o_id a i b af cx u)"
  unfolding logged_def by blast

lemma logged_frame:
  assumes "logged u u'"
  shows "t_scope u' = t_scope u" "t_item u' = t_item u" "new_id u' = Suc (new_id u)"
  using assms by (auto simp: logged_def)

lemma scope_keys_logged: "scope_keys u \<Longrightarrow> logged u u' \<Longrightarrow> scope_keys u'"
  by (auto simp: logged_def scope_keys_log)

lemma grows_logged:
  assumes "grows A u v" "logged v u'"
  shows "grows A u u'"
  using assms scope_keys_logged[OF _ assms(2)] logged_frame[OF assms(2)] by (simp add: grows_def)

lemma scope_ok_grows:
  assumes ok: "scope_ok s" and g: "grows (aa_scope_entity_id ` set (t_approval s)) (sd s) u"
  shows "scope_ok (s\<lparr>sd := u\<rparr>)"
proof -
  have n: "sd_new_id s \<le> new_id u" using g by (simp add: grows_def sd_new_id_def)
  have d: "decisions_on i (s\<lparr>sd := u\<rparr>) = decisions_on i s" for i by (simp add: decisions_on_def)
  have c: "change_ok (s\<lparr>sd := u\<rparr>) c = change_ok s c" for c unfolding change_ok_def d ..
  have r: "result_ok (s\<lparr>sd := u\<rparr>) r = result_ok s r" for r by (simp add: result_ok_def)
  have p0: "pk_ok sy_id (sd_new_id s) (t_sync s)" "pk_ok sg_id (sd_new_id s) (t_change s)"
    "pk_ok aa_id (sd_new_id s) (t_approval s)" using ok by (simp_all add: scope_ok_def)
  note p = pk_ok_mono[OF p0(1) n] pk_ok_mono[OF p0(2) n] pk_ok_mono[OF p0(3) n]
  have "aa_scope_entity_id ` set (t_approval s) \<subseteq> se_id ` set (t_scope (sd s))" using ok by (simp add: scope_ok_def)
  then have sub: "aa_scope_entity_id ` set (t_approval s) \<subseteq> se_id ` set (t_scope u)"
    using g unfolding grows_def by blast
  show ?thesis
    using ok g sub p unfolding scope_ok_def grows_def c r by (simp add: sd_new_id_def)
qed

lemma create_InrD:
  assumes "create_scope_entity org_id e u = Inr (row, u')"
  obtains v where "upsert True org_id (e\<lparr>ce_source := Manual, ce_source_ref := None\<rparr>) u = Inr (row, v)" "logged v u'"
proof (cases "upsert True org_id (e\<lparr>ce_source := Manual, ce_source_ref := None\<rparr>) u")
  case (Inl err)
  then show ?thesis using assms by (simp add: create_scope_entity_def Let_def)
next
  case (Inr rv)
  obtain r v where rv: "rv = (r, v)" by (cases rv)
  have "r = row \<and> logged v u'" using assms Inr by (auto simp: create_scope_entity_def Let_def rv)
  then show ?thesis using that[of v] Inr rv by simp
qed

lemma patch_InrD:
  assumes "patch_scope_entity validate org_id i p u = Inr (row, u')" "\<not> no_patch p"
  obtains e v where "upsert True org_id e u = Inr (row, v)" "logged v u'"
proof -
  obtain r where r: "get_scope_entity org_id i u = Some r"
    using assms(1) by (cases "get_scope_entity org_id i u") (simp_all add: patch_scope_entity_def)
  let ?e = "patched_entity p (to_canonical r)"
  obtain a where a: "validate (ce_entity_type ?e) (ce_attributes ?e) = Inr a"
    using assms r by (cases "validate (ce_entity_type ?e) (ce_attributes ?e)") (simp_all add: patch_scope_entity_def)
  obtain row1 v where v: "upsert True org_id (?e\<lparr>ce_attributes := a\<rparr>) u = Inr (row1, v)"
    using assms r a by (cases "upsert True org_id (?e\<lparr>ce_attributes := a\<rparr>) u") (auto simp: patch_scope_entity_def Let_def)
  have "row1 = row \<and> logged v u'" using assms r a v by (auto simp: patch_scope_entity_def Let_def)
  then show ?thesis using that[of "?e\<lparr>ce_attributes := a\<rparr>" v] v by simp
qed

lemma delete_InrD:
  assumes "delete_scope_entity approved org_id i u = Inr u'"
  obtains row v where "row \<in> set (t_scope u)" "se_id row \<notin> set approved" "logged u v"
    "u' = v\<lparr>t_scope := filter (\<lambda>r. se_id r \<noteq> se_id row) (t_scope v)\<rparr>"
proof (cases "get_scope_entity org_id i u")
  case None
  then show ?thesis using assms by (simp add: delete_scope_entity_def)
next
  case (Some row)
  define v where "v = log_scope org_id ''scope_entity.delete'' (se_id row)
      (Some [(''entity_type'', JStr (entity_type_value (se_entity_type row))),
             (''natural_key'', JStr (se_natural_key row))]) None [(''via'', JStr ''api'')] u"
  have "row \<in> set (t_scope u)" using Some by (auto simp: get_scope_entity_def find_Some_iff)
  moreover have "se_id row \<notin> set approved" using assms Some by (auto simp: delete_scope_entity_def)
  moreover have "u' = v\<lparr>t_scope := filter (\<lambda>r. se_id r \<noteq> se_id row) (t_scope v)\<rparr>"
    using assms Some by (simp add: delete_scope_entity_def Let_def v_def split: if_splits)
  moreover have "logged u v" unfolding v_def by (rule loggedI)
  ultimately show ?thesis using that by blast
qed

lemma apply_change_InrD:
  assumes "apply_change org_id c acc = Inr acc'"
  obtains "acc' = acc"
    | j e row v where "cg_incoming c = Some j" "entity_in c j = Inr e"
        "upsert False org_id e (snd acc) = Inr (row, v)" "logged v (snd acc')"
proof (cases "cg_change_type c \<in> {''new'', ''changed''}")
  case False
  then have "acc' = acc" using assms by (cases acc) (auto simp: apply_change_def)
  then show ?thesis by (rule that(1))
next
  case True
  obtain n s where acc: "acc = (n, s)" by (cases acc)
  obtain j where j: "cg_incoming c = Some j"
    using assms True acc by (cases "cg_incoming c") (auto simp: apply_change_def)
  obtain e where e: "entity_in c j = Inr e"
    using assms True acc j by (cases "entity_in c j") (auto simp: apply_change_def)
  obtain row v where v: "upsert False org_id e s = Inr (row, v)"
    using assms True acc j e by (cases "upsert False org_id e s") (auto simp: apply_change_def)
  have "logged v (snd acc')" using assms True acc j e v by (auto simp: apply_change_def)
  then show ?thesis using that(2)[of j e row v] j e v acc by simp
qed

lemma create_grows:
  assumes "scope_keys u" "create_scope_entity org_id e u = Inr (row, u')"
  shows "grows A u u'"
  using assms(2) by (rule create_InrD) (blast intro: grows_logged grows_upsert assms(1))

lemma grows_keys: "grows A u v \<Longrightarrow> scope_keys v"
  by (simp add: grows_def)

lemma grows_refl: "scope_keys u \<Longrightarrow> grows A u u"
  by (simp add: grows_def)

lemma patch_grows:
  assumes "scope_keys u" "patch_scope_entity validate org_id i p u = Inr (row, u')"
  shows "grows A u u'"
proof (cases "no_patch p")
  case True
  then have "u' = u" using assms(2) by (auto simp: patch_scope_entity_def Let_def split: option.splits)
  then show ?thesis using grows_refl[OF assms(1)] by simp
next
  case False
  show ?thesis by (rule patch_InrD[OF assms(2) False]) (blast intro: grows_logged grows_upsert assms(1))
qed

lemma delete_grows:
  assumes "scope_keys u" "delete_scope_entity approved org_id i u = Inr u'"
  shows "grows (set approved) u (forget_deleted u')"
  using assms(2)
proof (rule delete_InrD)
  fix row v
  assume row: "row \<in> set (t_scope u)" "se_id row \<notin> set approved" and v: "logged u v"
    and u': "u' = v\<lparr>t_scope := filter (\<lambda>r. se_id r \<noteq> se_id row) (t_scope v)\<rparr>"
  have ts: "t_scope (forget_deleted u') = filter (\<lambda>r. se_id r \<noteq> se_id row) (t_scope u)"
    by (simp add: forget_deleted_def u' logged_frame[OF v])
  have "new_id (forget_deleted u') = new_id v" by (simp add: forget_deleted_def u' new_id_def)
  then have n: "new_id (forget_deleted u') = Suc (new_id u)" using logged_frame[OF v] by simp
  have "pk_ok se_id (Suc (new_id u)) (t_scope u)" using assms(1) by (auto simp: scope_keys_def intro: pk_ok_mono)
  then have "scope_keys (forget_deleted u')"
    using assms(1) pk_ok_filter unfolding scope_keys_def ts n by (auto intro: distinct_map_filter)
  then show ?thesis using row(2) unfolding grows_def ts n by auto
qed

lemma apply_change_grows:
  assumes "scope_keys (snd acc)" "apply_change org_id c acc = Inr acc'"
  shows "grows A (snd acc) (snd acc')"
  using assms(2) by (rule apply_change_InrD) (use grows_refl[OF assms(1)] in simp,
    blast intro: grows_logged grows_upsert assms(1))

lemma import_grows:
  assumes "scope_keys u" "import_apply org_id changes u = Inr (n, u')"
  shows "grows A u u'"
proof -
  have "scope_keys (snd (n, u')) \<and> grows A u (snd (n, u'))"
    using assms(2)[unfolded import_apply_def]
  proof (rule foldres_inv[where P = "\<lambda>acc. scope_keys (snd acc) \<and> grows A u (snd acc)"])
    fix c and acc acc' :: "nat \<times> review_db"
    assume "scope_keys (snd acc) \<and> grows A u (snd acc)" "apply_change org_id c acc = Inr acc'"
    then show "scope_keys (snd acc') \<and> grows A u (snd acc')"
      using apply_change_grows[of acc org_id c acc' A] grows_trans grows_keys by blast
  qed (use assms(1) in \<open>simp add: grows_def\<close>)
  then show ?thesis by simp
qed

subsection \<open>A pull\<close>

lemma sd_take_frame [simp]:
  "t_sync (sd_take n s) = t_sync s" "t_change (sd_take n s) = t_change s" "t_approval (sd_take n s) = t_approval s"
  "t_checklist (sd_take n s) = t_checklist s" "sd (sd_take n s) = take_ids n (sd s)"
  "sd_new_id (sd_take n s) = sd_new_id s + n"
  by (simp_all add: sd_take_def sd_new_id_def)

lemma sd_new_id_frame [simp]:
  "sd_new_id (s\<lparr>t_sync := a\<rparr>) = sd_new_id s" "sd_new_id (s\<lparr>t_change := b\<rparr>) = sd_new_id s"
  "sd_new_id (s\<lparr>t_approval := c\<rparr>) = sd_new_id s" "sd_new_id (s\<lparr>t_checklist := d\<rparr>) = sd_new_id s"
  "sd_new_id (s\<lparr>sd := u\<rparr>) = new_id u"
  by (simp_all add: sd_new_id_def)

lemma scope_keys_take: "scope_keys u \<Longrightarrow> scope_keys (take_ids n u)"
  by (auto simp: scope_keys_def intro: pk_ok_mono)

lemma mk_change_fields [simp]:
  "sg_id (mk_change r o_id p i c) = i" "sg_sync_result_id (mk_change r o_id p i c) = r"
  "sg_change_type (mk_change r o_id p i c) = ch_change_type c"
  "sg_resolution (mk_change r o_id p i c) = (if ch_change_type c = New then Some ResolutionPending else None)"
  "waiting (mk_change r o_id p i c) \<longleftrightarrow> ch_change_type c = New"
  by (simp_all add: mk_change_def waiting_def)

definition supersede :: "uuid \<Rightarrow> sync_result \<Rightarrow> sync_result" where
  "supersede org_id r = (if sy_org_id r = org_id \<and> sy_status r = PendingReview then r\<lparr>sy_status := Superseded\<rparr> else r)"

lemma persist_effect:
  assumes "persist_sync_result org_id pull changes job s = (result, s')"
  defines "kept \<equiv> filter (\<lambda>c. ch_change_type c \<noteq> Unchanged) changes"
  shows "t_sync s' = map (supersede org_id) (t_sync s) @ [result]" "sy_id result = sd_new_id s" "sy_org_id result = org_id"
    "sy_status result = (if \<exists>c \<in> set changes. ch_change_type c = New then PendingReview else NoChanges)"
    "t_change s' = t_change s @ insert_rows (mk_change (sd_new_id s) org_id pull) (Suc (sd_new_id s)) kept"
    "t_approval s' = t_approval s" "t_checklist s' = t_checklist s" "sd s' = take_ids (Suc (length kept)) (sd s)"
    "sd_new_id s' = sd_new_id s + Suc (length kept)"
proof -
  have take2: "take_ids n (take_ids m u) = take_ids (m + n) u" for n m u by (simp add: take_ids_def)
  have ex: "list_ex (\<lambda>c. ch_change_type c = New) kept \<longleftrightarrow> (\<exists>c \<in> set changes. ch_change_type c = New)"
    by (auto simp: kept_def list_ex_iff)
  note d = assms(1)[unfolded persist_sync_result_def Let_def, folded kept_def, unfolded ex]
  show "t_sync s' = map (supersede org_id) (t_sync s) @ [result]" "sy_id result = sd_new_id s" "sy_org_id result = org_id"
    "sy_status result = (if \<exists>c \<in> set changes. ch_change_type c = New then PendingReview else NoChanges)"
    "t_change s' = t_change s @ insert_rows (mk_change (sd_new_id s) org_id pull) (Suc (sd_new_id s)) kept"
    "t_approval s' = t_approval s" "t_checklist s' = t_checklist s" "sd s' = take_ids (Suc (length kept)) (sd s)"
    "sd_new_id s' = sd_new_id s + Suc (length kept)"
    using d by (auto simp: supersede_def take2)
qed

lemma persist_ok:
  assumes ok: "scope_ok s" and run: "persist_sync_result org_id pull changes job s = (result, s')"
  shows "scope_ok s'"
proof -
  let ?kept = "filter (\<lambda>c. ch_change_type c \<noteq> Unchanged) changes" and ?n = "sd_new_id s"
  let ?new = "insert_rows (mk_change ?n org_id pull) (Suc ?n) ?kept"
  note eff = persist_effect[OF run]
  have p0: "pk_ok sy_id ?n (t_sync s)" "pk_ok sg_id ?n (t_change s)" "pk_ok aa_id ?n (t_approval s)"
    and sub: "sg_sync_result_id ` set (t_change s) \<subseteq> sy_id ` set (t_sync s)"
      "Option.these (aa_change_id ` set (t_approval s)) \<subseteq> sg_id ` set (t_change s)"
      "aa_scope_entity_id ` set (t_approval s) \<subseteq> se_id ` set (t_scope (sd s))"
    and co: "\<And>c. c \<in> set (t_change s) \<Longrightarrow> change_ok s c" and ro: "\<And>r. r \<in> set (t_sync s) \<Longrightarrow> result_ok s r"
    using ok by (simp_all add: scope_ok_def)
  have new: "\<exists>i c. Suc ?n \<le> i \<and> c \<in> set changes \<and> ch_change_type c \<noteq> Unchanged \<and> x = mk_change ?n org_id pull i c"
    if "x \<in> set ?new" for x
    using set_insert_rows[OF that] by auto
  have old_id: "sg_id c < ?n" "sg_sync_result_id c < ?n" if "c \<in> set (t_change s)" for c
    using that p0(1,2) sub(1) by (auto simp: pk_ok_def)
  have ids: "map sy_id (map (supersede org_id) (t_sync s)) = map sy_id (t_sync s)" by (simp add: supersede_def)
  have "pk_ok sy_id (Suc ?n) (map (supersede org_id) (t_sync s) @ [result])"
    using pk_ok_snoc[OF pk_ok_keys[OF ids p0(1)]] eff(2) by simp
  then have "pk_ok sy_id (sd_new_id s') (t_sync s')" unfolding eff(1,9) by (rule pk_ok_mono) simp
  moreover have "pk_ok sg_id (sd_new_id s') (t_change s')"
    using pk_ok_insert_rows[OF pk_ok_mono[OF p0(2)], of "Suc ?n" "mk_change ?n org_id pull" ?kept] unfolding eff(5,9) by simp
  moreover have "pk_ok aa_id (sd_new_id s') (t_approval s')" unfolding eff(6,9) by (rule pk_ok_mono[OF p0(3)]) simp
  moreover have "sg_sync_result_id ` set (t_change s') \<subseteq> sy_id ` set (t_sync s')"
  proof -
    have "sy_id (supersede org_id r) = sy_id r" for r by (simp add: supersede_def)
    then have "sy_id ` set (t_sync s') = insert ?n (sy_id ` set (t_sync s))"
      by (simp add: eff(1,2) image_image)
    moreover have "sg_sync_result_id x = ?n" if "x \<in> set ?new" for x using new[OF that] by auto
    ultimately show ?thesis using sub(1) unfolding eff(5) by auto
  qed
  moreover have d: "decisions_on i s' = decisions_on i s" for i by (simp add: decisions_on_def eff(6))
  have "change_ok s' c" if mem: "c \<in> set (t_change s')" for c
  proof (cases "c \<in> set (t_change s)")
    case True
    then show ?thesis using co unfolding change_ok_def d by blast
  next
    case False
    then have "c \<in> set ?new" using mem unfolding eff(5) by simp
    then obtain i ch where c: "Suc ?n \<le> i" "c = mk_change ?n org_id pull i ch" using new by blast
    have "decisions_on i s = []"
      using sub(2) c(1) old_id(1) by (fastforce simp: decisions_on_def filter_empty_conv Option.these_def)
    then show ?thesis by (simp add: change_ok_def d c(2))
  qed
  moreover have "result_ok s' r" if r: "r \<in> set (t_sync s')" for r
  proof (cases "r = result")
    case True
    have "list_ex (\<lambda>c. sg_sync_result_id c = ?n \<and> waiting c) (t_change s') \<longleftrightarrow> (\<exists>c \<in> set changes. ch_change_type c = New)"
    proof -
      have "\<not> list_ex (\<lambda>c. sg_sync_result_id c = ?n \<and> waiting c) (t_change s)"
        using old_id(2) by (fastforce simp: list_ex_iff)
      moreover have "list_ex (\<lambda>c. sg_sync_result_id c = ?n \<and> waiting c) (insert_rows (mk_change ?n org_id pull) k xs) \<longleftrightarrow>
          (\<exists>c \<in> set xs. ch_change_type c = New)" for k xs
        by (induction xs arbitrary: k) auto
      ultimately show ?thesis by (auto simp: eff(5))
    qed
    then show ?thesis by (simp add: True result_ok_def eff(2,4))
  next
    case False
    then obtain q where q: "q \<in> set (t_sync s)" "r = supersede org_id q" using r unfolding eff(1) by auto
    have "sy_id q < ?n" using q(1) p0(1) by (auto simp: pk_ok_def)
    moreover have "\<not> list_ex (\<lambda>c. sg_sync_result_id c = sy_id q \<and> waiting c) ?new" if "sy_id q < ?n"
      using new that by (fastforce simp: list_ex_iff)
    ultimately show ?thesis using ro[OF q(1)]
      by (auto simp: result_ok_def Let_def q(2) supersede_def eff(5) split: sync_status.splits)
  qed
  moreover have "scope_keys (sd s')" unfolding eff(8) by (rule scope_keys_take) (use ok in \<open>simp add: scope_ok_def\<close>)
  moreover have "Option.these (aa_change_id ` set (t_approval s')) \<subseteq> sg_id ` set (t_change s')"
    using sub(2) unfolding eff(5,6) by auto
  moreover have "aa_scope_entity_id ` set (t_approval s') \<subseteq> se_id ` set (t_scope (sd s'))"
    using sub(3) unfolding eff(6,8) by simp
  ultimately show ?thesis unfolding scope_ok_def by blast
qed

subsection \<open>A decision\<close>

lemma decidable_InrD:
  assumes "decidable org_id c = Inr data"
  shows "sg_org_id c = org_id" "waiting c" "sg_incoming c = Some data"
  using assms by (auto simp: decidable_def waiting_def split: if_splits option.splits)

lemma decide_row_fields [simp]:
  "sg_id (decide_row d now u c) = sg_id c" "sg_sync_result_id (decide_row d now u c) = sg_sync_result_id c"
  "sg_change_type (decide_row d now u c) = sg_change_type c" "sg_resolution (decide_row d now u c) = Some d"
  by (simp_all add: decide_row_def)

lemma decide_row_waiting: "d \<noteq> ResolutionPending \<Longrightarrow> \<not> waiting (decide_row d now u c)"
  by (simp add: waiting_def)

definition marked :: "scope_db \<Rightarrow> uuid \<Rightarrow> sync_result \<Rightarrow> sync_result" where
  "marked s i r =
     (if sy_id r = i \<and> sy_status r = PendingReview \<and> \<not> list_ex (\<lambda>c. sg_sync_result_id c = i \<and> waiting c) (t_change s)
      then r\<lparr>sy_status := Reviewed\<rparr> else r)"

lemma maybe_mark_reviewed_effect:
  "maybe_mark_reviewed i s = s\<lparr>t_sync := map (marked s i) (t_sync s)\<rparr>"
proof -
  have w: "(\<lambda>c. sg_sync_result_id c = i \<and> sg_change_type c = New \<and> sg_resolution c = Some ResolutionPending) =
      (\<lambda>c. sg_sync_result_id c = i \<and> waiting c)" by (simp add: waiting_def fun_eq_iff)
  show ?thesis
  proof (cases "list_ex (\<lambda>c. sg_sync_result_id c = i \<and> waiting c) (t_change s)")
    case True
    then have "marked s i = (\<lambda>r. r)" by (simp add: marked_def fun_eq_iff)
    then show ?thesis using True by (simp add: maybe_mark_reviewed_def w)
  next
    case False
    then show ?thesis by (simp add: maybe_mark_reviewed_def w tupd_def marked_def)
  qed
qed

lemma resolve_effect:
  assumes "resolve decision org_id c e by_user by_name reason products confirmed s = Inr (approval, s')"
  obtains row u where "upsert False org_id e (sd s) = Inr (row, u)"
    "approval = mk_approval decision org_id (se_id row) (sg_id c) by_user by_name reason (s\<lparr>sd := u\<rparr>)"
    "t_approval s' = t_approval s @ [approval]" "sd s' = take_ids (Suc (length products)) u"
    "t_change s' = tupd sg_id (sg_id c) (decide_row decision (now_of u) by_user) (t_change s)"
    "t_sync s' = map (marked s' (sg_sync_result_id c)) (t_sync s)"
proof (cases "upsert False org_id e (sd s)")
  case (Inl err)
  then show ?thesis using assms by (simp add: resolve_def)
next
  case (Inr ru)
  obtain row u where ru: "ru = (row, u)" by (cases ru)
  have take2: "take_ids n (take_ids m w) = take_ids (m + n) w" for n m w by (simp add: take_ids_def)
  have m: "marked (x\<lparr>t_sync := y\<rparr>) i = marked x i" for x y i by (simp add: marked_def fun_eq_iff)
  note d = assms[unfolded resolve_def Inr ru sum.case prod.case Let_def maybe_mark_reviewed_effect]
  show ?thesis
    by (rule that[OF Inr[unfolded ru]]) (use d in \<open>auto simp: take2 m\<close>)
qed


lemma resolve_ok:
  assumes ok: "scope_ok s" and c: "c \<in> set (t_change s)" "waiting c" and d: "decision \<noteq> ResolutionPending"
    and run: "resolve decision org_id c e by_user by_name reason products confirmed s = Inr (approval, s')"
  shows "scope_ok s' \<and> records_kept s s'"
  using run
proof (rule resolve_effect)
  fix row u
  assume up: "upsert False org_id e (sd s) = Inr (row, u)"
    and ap: "approval = mk_approval decision org_id (se_id row) (sg_id c) by_user by_name reason (s\<lparr>sd := u\<rparr>)"
    and t_ap: "t_approval s' = t_approval s @ [approval]" and sd': "sd s' = take_ids (Suc (length products)) u"
    and t_ch: "t_change s' = tupd sg_id (sg_id c) (decide_row decision (now_of u) by_user) (t_change s)"
    and t_sy: "t_sync s' = map (marked s' (sg_sync_result_id c)) (t_sync s)"
  let ?n = "sd_new_id s"
  have keys: "scope_keys (sd s)" and p0: "pk_ok sy_id ?n (t_sync s)" "pk_ok sg_id ?n (t_change s)" "pk_ok aa_id ?n (t_approval s)"
    and sub: "sg_sync_result_id ` set (t_change s) \<subseteq> sy_id ` set (t_sync s)"
      "Option.these (aa_change_id ` set (t_approval s)) \<subseteq> sg_id ` set (t_change s)"
      "aa_scope_entity_id ` set (t_approval s) \<subseteq> se_id ` set (t_scope (sd s))"
    and co: "\<And>c. c \<in> set (t_change s) \<Longrightarrow> change_ok s c" and ro: "\<And>r. r \<in> set (t_sync s) \<Longrightarrow> result_ok s r"
    using ok by (simp_all add: scope_ok_def)
  have k: "scope_keys u" "row \<in> set (t_scope u)" "?n \<le> new_id u" "se_id ` set (t_scope (sd s)) \<subseteq> se_id ` set (t_scope u)"
    using upsert_keys[OF keys up] by (simp_all add: sd_new_id_def)
  have n': "sd_new_id s' = new_id u + Suc (length products)" by (simp add: sd_new_id_def sd')
  have le: "?n \<le> sd_new_id s'" using k(3) n' by simp
  have apf: "aa_id approval = new_id u" "aa_change_id approval = Some (sg_id c)" "aa_decision approval = decision"
    "aa_scope_entity_id approval = se_id row" by (simp_all add: ap mk_approval_def)
  have m: "sy_id (marked s' i r) = sy_id r" for i r by (simp add: marked_def)
  have ch_ids: "map sg_id (t_change s') = map sg_id (t_change s)" by (simp add: t_ch tupd_def)
  have 1: "pk_ok sy_id (sd_new_id s') (t_sync s')"
    unfolding t_sy by (rule pk_ok_keys[OF _ pk_ok_mono[OF p0(1) le]]) (simp add: m)
  have 2: "pk_ok sg_id (sd_new_id s') (t_change s')" by (rule pk_ok_keys[OF ch_ids pk_ok_mono[OF p0(2) le]])
  have 3: "pk_ok aa_id (sd_new_id s') (t_approval s')"
    using pk_ok_snoc[OF pk_ok_mono[OF p0(3) k(3)], of approval] apf(1) unfolding t_ap n' by (auto intro: pk_ok_mono)
  have 4: "sg_sync_result_id ` set (t_change s') \<subseteq> sy_id ` set (t_sync s')"
    using sub(1) by (auto simp: t_ch set_tupd t_sy m image_image)
  have "sg_id ` set (t_change s') = sg_id ` set (t_change s)" using ch_ids by (metis set_map)
  then have 5: "Option.these (aa_change_id ` set (t_approval s')) \<subseteq> sg_id ` set (t_change s')"
    using sub(2) c(1) by (simp add: t_ap apf(2) these_insert_Some)
  have 6: "aa_scope_entity_id ` set (t_approval s') \<subseteq> se_id ` set (t_scope (sd s'))"
    using sub(3) k(2,4) by (auto simp: t_ap apf(4) sd')
  have same: "x = c" if "x \<in> set (t_change s)" "sg_id x = sg_id c" for x
    by (rule pk_ok_inj[OF p0(2) that(1) c(1) that(2)])
  have dec: "decisions_on i s' = decisions_on i s @ (if i = sg_id c then [approval] else [])" for i
    by (simp add: decisions_on_def t_ap apf(2))
  have cc: "sg_change_type c = New" "decisions_on (sg_id c) s = []"
    using co[OF c(1)] c(2) by (auto simp: change_ok_def waiting_def)
  have 7: "change_ok s' x" if mem: "x \<in> set (t_change s')" for x
  proof -
    obtain y where y: "y \<in> set (t_change s)" "x = (if sg_id y = sg_id c then decide_row decision (now_of u) by_user y else y)"
      using mem by (auto simp: t_ch tupd_def)
    show ?thesis
    proof (cases "sg_id y = sg_id c")
      case True
      then have "y = c" by (rule same[OF y(1)])
      then show ?thesis using cc d y(2) by (cases decision) (simp_all add: change_ok_def dec apf(3))
    next
      case False
      then have x: "x = y" "decisions_on (sg_id y) s' = decisions_on (sg_id y) s" using y(2) by (simp_all add: dec)
      show ?thesis using co[OF y(1)] unfolding change_ok_def x .
    qed
  qed
  have waits: "list_ex (\<lambda>x. sg_sync_result_id x = i \<and> waiting x) (t_change s') \<longleftrightarrow>
      (\<exists>x \<in> set (t_change s). sg_sync_result_id x = i \<and> waiting x \<and> sg_id x \<noteq> sg_id c)" for i
    using decide_row_waiting[OF d] by (auto simp: list_ex_iff t_ch set_tupd)
  have 8: "result_ok s' r" if mem: "r \<in> set (t_sync s')" for r
  proof -
    obtain q where q: "q \<in> set (t_sync s)" "r = marked s' (sg_sync_result_id c) q" using mem by (auto simp: t_sy)
    show ?thesis
    proof (cases "sy_id q = sg_sync_result_id c")
      case True
      then show ?thesis using ro[OF q(1)] unfolding result_ok_def q(2) marked_def Let_def
        using waits by (auto simp: list_ex_iff split: sync_status.splits)
    next
      case False
      then have "list_ex (\<lambda>x. sg_sync_result_id x = sy_id q \<and> waiting x) (t_change s') \<longleftrightarrow>
          list_ex (\<lambda>x. sg_sync_result_id x = sy_id q \<and> waiting x) (t_change s)"
        unfolding waits unfolding list_ex_iff using same False by metis
      then show ?thesis using ro[OF q(1)] False by (simp add: result_ok_def q(2) marked_def)
    qed
  qed
  have 9: "scope_keys (sd s')" unfolding sd' by (rule scope_keys_take[OF k(1)])
  show ?thesis using 1 2 3 4 5 6 7 8 9 unfolding scope_ok_def records_kept_def t_ap by simp
qed

subsection \<open>Every request\<close>

lemma records_kept_same: "t_approval s' = t_approval s \<Longrightarrow> records_kept s s'"
  by (simp add: records_kept_def)

lemma on_sd_both:
  assumes ok: "scope_ok s" and run: "on_sd r s = Inr s'"
    and g: "\<And>u. r = Inr u \<Longrightarrow> grows (aa_scope_entity_id ` set (t_approval s)) (sd s) u"
  shows "scope_ok s' \<and> records_kept s s'"
proof -
  obtain u where u: "r = Inr u" "s' = s\<lparr>sd := u\<rparr>" using run by (cases r) (simp_all add: on_sd_def)
  show ?thesis unfolding u(2) using scope_ok_grows[OF ok g[OF u(1)]] by (simp add: records_kept_def)
qed

lemma find_change_InrD:
  assumes "find_change org_id r i s = Inr c"
  shows "c \<in> set (t_change s)" "sg_id c = i"
  using assms tget_SomeD[of sg_id i "t_change s" c]
  by (auto simp: find_change_def split: option.splits if_splits)

lemma log_as_frame [simp]:
  "t_scope (sd (log_as u at o_id act et i af cx s)) = t_scope (sd s)"
  "t_approval (log_as u at o_id act et i af cx s) = t_approval s"
  by (simp_all add: log_as_def)

lemma log_as_ok:
  assumes "scope_ok s"
  shows "scope_ok (log_as u at o_id act et i af cx s) \<and> records_kept s (log_as u at o_id act et i af cx s)"
proof -
  let ?u = "sd (log_as u at o_id act et i af cx s)"
  have "t_scope ?u = t_scope (sd s)" "new_id ?u = Suc (new_id (sd s))"
    by (simp_all add: log_as_def new_id_def log_event_as_def)
  then have "grows A (sd s) ?u" for A
    using assms by (auto simp: grows_def scope_ok_def scope_keys_def intro: pk_ok_mono)
  from scope_ok_grows[OF assms this] show ?thesis
    by (simp add: log_as_def records_kept_def)
qed

lemma sync_now_effect:
  obtains result s1 act et af cx where
    "persist_sync_result o_id pull (pull_and_reconcile coll o_id pull s) None s = (result, s1)"
    "snd (sync_now coll o_id pull u at s) = log_as u at o_id act et (sy_id result) af cx s1"
  by (cases "persist_sync_result o_id pull (pull_and_reconcile coll o_id pull s) None s")
    (auto simp: sync_now_def Let_def)

lemma approve_change_InrD:
  assumes "approve_change coll org_id c by_user by_name confirmed s = Inr (a, s')"
  obtains e where "waiting c"
    "resolve Approved org_id c (e\<lparr>ce_status := EntityActive\<rparr>) by_user by_name None
       (activated_products_for_org coll org_id s) confirmed s = Inr (a, s')"
proof (cases "decidable org_id c")
  case (Inr data)
  obtain e where e: "entity_from_jsonb data = Some e"
    using assms Inr by (cases "entity_from_jsonb data") (simp_all add: approve_change_def)
  show ?thesis using that[OF decidable_InrD(2)[OF Inr], of e] assms Inr e by (simp add: approve_change_def)
qed (use assms in \<open>simp add: approve_change_def\<close>)

lemma reject_change_InrD:
  assumes "reject_change org_id c by_user by_name reason s = Inr (a, s')"
  obtains e where "waiting c" "py_strip reason \<noteq> ''''"
    "resolve Rejected org_id c (e\<lparr>ce_status := EntityActive, ce_in_boundary := False\<rparr>) by_user by_name
       (Some (py_strip reason)) [] (\<lambda>_. False) s = Inr (a, s')"
proof (cases "decidable org_id c")
  case (Inr data)
  have r: "py_strip reason \<noteq> ''''" using assms Inr by (auto simp: reject_change_def)
  obtain e where e: "entity_from_jsonb data = Some e"
    using assms Inr r by (cases "entity_from_jsonb data") (simp_all add: reject_change_def)
  show ?thesis using that[OF decidable_InrD(2)[OF Inr] r, of e] assms Inr e r by (simp add: reject_change_def)
qed (use assms in \<open>simp add: reject_change_def\<close>)

lemma approve_request_InrD:
  assumes run: "approve_request coll o_id res i user_id at nm cf s = Inr s'"
  obtains c e reason ps conf a s1 x act where "c \<in> set (t_change s)" "sg_id c = i" "waiting c"
    "resolve Approved o_id c e (uuid_text user_id) nm reason ps conf s = Inr (a, s1)"
    "s' = log_decision o_id user_id at c a x act s1"
proof -
  obtain c where c: "find_change o_id res i s = Inr c"
    using run by (cases "find_change o_id res i s") (simp_all add: approve_request_def)
  obtain a s1 where a: "approve_change coll o_id c (uuid_text user_id) nm cf s = Inr (a, s1)"
    using run c by (cases "approve_change coll o_id c (uuid_text user_id) nm cf s") (auto simp: approve_request_def)
  have "s' = log_decision o_id user_id at c a [] ''asset_approval.approve'' s1"
    using run c a by (simp add: approve_request_def)
  then show ?thesis using approve_change_InrD[OF a] that find_change_InrD[OF c] by metis
qed

lemma reject_request_InrD:
  assumes run: "reject_request o_id res i user_id at nm text s = Inr s'"
  obtains c e reason ps conf a s1 x act where "c \<in> set (t_change s)" "sg_id c = i" "waiting c"
    "resolve Rejected o_id c e (uuid_text user_id) nm reason ps conf s = Inr (a, s1)"
    "s' = log_decision o_id user_id at c a x act s1"
proof -
  obtain c where c: "find_change o_id res i s = Inr c"
    using run by (cases "find_change o_id res i s") (simp_all add: reject_request_def)
  obtain a s1 where a: "reject_change o_id c (uuid_text user_id) nm text s = Inr (a, s1)"
    using run c by (cases "reject_change o_id c (uuid_text user_id) nm text s") (auto simp: reject_request_def)
  have "s' = log_decision o_id user_id at c a [(''rejection_reason'', opt_jstr (aa_rejection_reason a))]
      ''asset_approval.reject'' s1"
    using run c a by (simp add: reject_request_def)
  then show ?thesis using reject_change_InrD[OF a] that find_change_InrD[OF c] by metis
qed

lemma records_kept_trans: "records_kept s t \<Longrightarrow> records_kept t u \<Longrightarrow> records_kept s u"
  unfolding records_kept_def by (rule prefix_order.trans)

lemma decision_ok:
  assumes ok: "scope_ok s" and c: "c \<in> set (t_change s)" "waiting c"
    and run: "resolve decision org_id c e by_user by_name reason ps cf s = Inr (a, s1)" and d: "decision \<noteq> ResolutionPending"
  shows "scope_ok (log_decision org_id user_id at c a x act s1) \<and>
    records_kept s (log_decision org_id user_id at c a x act s1)"
  using resolve_ok[OF ok c d run] log_as_ok[of s1] records_kept_trans unfolding log_decision_def by blast

lemma serve_scope_both:
  assumes ok: "scope_ok s" and run: "serve_scope d r s = Inr s'"
  shows "scope_ok s' \<and> records_kept s s'"
proof -
  have keys: "scope_keys (sd s)" using ok by (simp add: scope_ok_def)
  show ?thesis
  proof (cases r)
    case (CreateEntity o_id e)
    then show ?thesis using run by (intro on_sd_both[OF ok]) (auto simp: map_sum_def intro: create_grows[OF keys] split: sum.splits)
  next
    case (PatchEntity o_id i p)
    then show ?thesis using run by (intro on_sd_both[OF ok]) (auto simp: map_sum_def intro: patch_grows[OF keys] split: sum.splits)
  next
    case (DeleteEntity o_id i)
    let ?r = "delete_scope_entity (map aa_scope_entity_id (t_approval s)) o_id i (sd s)"
    have "grows (aa_scope_entity_id ` set (t_approval s)) (sd s) u" if u: "map_sum Refused forget_deleted ?r = Inr u" for u
    proof -
      obtain u' where u': "?r = Inr u'" "u = forget_deleted u'" using u by (cases ?r) simp_all
      show ?thesis using delete_grows[OF keys u'(1)] unfolding u'(2) by simp
    qed
    then show ?thesis using run DeleteEntity by (intro on_sd_both[OF ok]) simp_all
  next
    case (ImportApply o_id cs)
    then show ?thesis using run by (intro on_sd_both[OF ok]) (auto simp: map_sum_def intro: import_grows[OF keys] split: sum.splits)
  next
    case (SyncNow o_id pull user_id at)
    have s': "s' = snd (sync_now (sdp_coll d) o_id pull user_id at s)" using run SyncNow by simp
    show ?thesis
    proof (rule sync_now_effect[of o_id pull "sdp_coll d" s user_id at])
      fix result s1 act et af cx
      assume p: "persist_sync_result o_id pull (pull_and_reconcile (sdp_coll d) o_id pull s) None s = (result, s1)"
        and eq: "snd (sync_now (sdp_coll d) o_id pull user_id at s) = log_as user_id at o_id act et (sy_id result) af cx s1"
      have "records_kept s s1" by (rule records_kept_same[OF persist_effect(6)[OF p]])
      then show ?thesis unfolding s' eq using log_as_ok[OF persist_ok[OF ok p]] records_kept_trans by blast
    qed
  next
    case (ApproveChange o_id res i user_id at nm cf)
    show ?thesis
      by (rule approve_request_InrD[OF run[unfolded ApproveChange serve_scope.simps]]) (hypsubst, rule decision_ok[OF ok], assumption+, simp)
  next
    case (RejectChange o_id res i user_id at nm reason)
    show ?thesis
      by (rule reject_request_InrD[OF run[unfolded RejectChange serve_scope.simps]]) (hypsubst, rule decision_ok[OF ok], assumption+, simp)
  next
    case (Passing now)
    have "grows A (sd s) ((sd s)\<lparr>rv_db := (rv_db (sd s))\<lparr>clock := now\<rparr>\<rparr>)" for A
      using keys by (simp add: grows_def scope_keys_def new_id_def)
    from scope_ok_grows[OF ok this] show ?thesis using run Passing by (auto simp: records_kept_def)
  qed
qed

text \<open>So any run of requests keeps the invariant and only adds acceptance records.\<close>

interpretation scope: transactions "serve_scope d" "\<lambda>_. True" scope_ok records_kept for d
  by unfold_locales (use serve_scope_both records_kept_trans in \<open>auto simp: records_kept_def\<close>)

definition run_scope :: "scope_deployment \<Rightarrow> scope_request list \<Rightarrow> scope_db \<Rightarrow> scope_db" where
  "run_scope d rs s = foldl (scope_step d) s rs"

lemma run_scope_fold:
  "run_scope d rs s = foldl (\<lambda>s x. case serve_scope d x s of Inl e \<Rightarrow> s | Inr s' \<Rightarrow> s') s rs"
  by (simp add: run_scope_def scope_step_def[abs_def])

lemma run_scope_ok:
  assumes "scope_ok s"
  shows "scope_ok (run_scope d rs s)" "records_kept s (run_scope d rs s)"
  using scope.run[OF assms, of rs d] by (simp_all add: run_scope_fold list_all_iff)

subsection \<open>Requests that are no operator's edit\<close>

fun is_feed :: "scope_request \<Rightarrow> bool" where
  "is_feed (CreateEntity _ _) = False"
| "is_feed (PatchEntity _ _ _) = False"
| "is_feed (DeleteEntity _ _) = False"
| "is_feed _ = True"

definition rows_kept :: "review_db \<Rightarrow> review_db \<Rightarrow> bool" where
  "rows_kept u u' \<longleftrightarrow> (\<forall>r \<in> set (t_scope u). \<exists>r' \<in> set (t_scope u'). kept_row r r')"

lemma rows_kept_refl [simp]: "rows_kept u u"
  unfolding rows_kept_def using kept_row_refl by blast

lemma rows_kept_trans: "rows_kept u v \<Longrightarrow> rows_kept v w \<Longrightarrow> rows_kept u w"
  unfolding rows_kept_def by (meson kept_row_trans)

lemma rows_kept_same: "t_scope u' = t_scope u \<Longrightarrow> rows_kept u u'"
  unfolding rows_kept_def using kept_row_refl by metis

lemma rows_kept_upsert: "scope_keys u \<Longrightarrow> upsert False o_id e u = Inr (new, v) \<Longrightarrow> rows_kept u v"
  unfolding rows_kept_def using upsert_kept by blast

lemma apply_change_rows:
  assumes "scope_keys (snd acc)" "apply_change o_id c acc = Inr acc'"
  shows "rows_kept (snd acc) (snd acc')"
  using assms(2)
proof (rule apply_change_InrD)
  fix e row v
  assume up: "upsert False o_id e (snd acc) = Inr (row, v)" and lg: "logged v (snd acc')"
  show ?thesis
    by (rule rows_kept_trans[OF rows_kept_upsert[OF assms(1) up] rows_kept_same]) (rule logged_frame(1)[OF lg])
qed simp

lemma import_rows:
  assumes "scope_keys u" "import_apply o_id changes u = Inr (n, u')"
  shows "rows_kept u u'"
proof -
  have "scope_keys (snd (n, u')) \<and> rows_kept u (snd (n, u'))"
    using assms(2)[unfolded import_apply_def]
  proof (rule foldres_inv[where P = "\<lambda>acc. scope_keys (snd acc) \<and> rows_kept u (snd acc)"])
    fix c and acc acc' :: "nat \<times> review_db"
    assume acc: "scope_keys (snd acc) \<and> rows_kept u (snd acc)" and run: "apply_change o_id c acc = Inr acc'"
    have "scope_keys (snd acc')" by (rule grows_keys[OF apply_change_grows[OF _ run, of "{}"]]) (simp add: acc)
    moreover have "rows_kept u (snd acc')"
      by (rule rows_kept_trans[OF _ apply_change_rows[OF _ run]]) (simp_all add: acc)
    ultimately show "scope_keys (snd acc') \<and> rows_kept u (snd acc')" ..
  qed (use assms(1) in simp)
  then show ?thesis by simp
qed

lemma resolve_rows:
  assumes "scope_keys (sd s)" "resolve decision o_id c e by_user by_name reason ps cf s = Inr (a, s')"
  shows "rows_kept (sd s) (sd s')"
  using assms(2)
proof (rule resolve_effect)
  fix row u
  assume up: "upsert False o_id e (sd s) = Inr (row, u)" and s': "sd s' = take_ids (Suc (length ps)) u"
  show ?thesis unfolding s'
    by (rule rows_kept_trans[OF rows_kept_upsert[OF assms(1) up] rows_kept_same]) simp
qed

lemma decision_rows:
  assumes "scope_keys (sd s)" "resolve decision o_id c e by_user by_name reason ps cf s = Inr (a, s1)"
  shows "rows_kept (sd s) (sd (log_decision o_id user_id at c a x act s1))"
  by (rule rows_kept_trans[OF resolve_rows[OF assms] rows_kept_same]) (simp add: log_decision_def)

lemma sync_now_scope: "t_scope (sd (snd (sync_now coll o_id pull u at s))) = t_scope (sd s)"
  by (rule sync_now_effect[of o_id pull coll s u at]) (use persist_effect(8) in auto)

lemma feed_rows:
  assumes ok: "scope_ok s" and feed: "is_feed r" and run: "serve_scope d r s = Inr s'"
  shows "rows_kept (sd s) (sd s')"
proof -
  have keys: "scope_keys (sd s)" using ok by (simp add: scope_ok_def)
  show ?thesis
  proof (cases r)
    case (ImportApply o_id cs)
    obtain n u where u: "import_apply o_id cs (sd s) = Inr (n, u)" "sd s' = u"
      using run ImportApply by (cases "import_apply o_id cs (sd s)") (auto simp: on_sd_def)
    show ?thesis using import_rows[OF keys u(1)] u(2) by simp
  next
    case (SyncNow o_id pull user_id at)
    then show ?thesis using run sync_now_scope by (auto intro: rows_kept_same)
  next
    case (ApproveChange o_id res i user_id at nm cf)
    show ?thesis
      by (rule approve_request_InrD[OF run[unfolded ApproveChange serve_scope.simps]]) (auto intro: decision_rows[OF keys])
  next
    case (RejectChange o_id res i user_id at nm reason)
    show ?thesis
      by (rule reject_request_InrD[OF run[unfolded RejectChange serve_scope.simps]]) (auto intro: decision_rows[OF keys])
  next
    case (Passing now)
    then show ?thesis using run by (auto intro: rows_kept_same)
  qed (use feed in simp_all)
qed

interpretation feed: transactions "serve_scope d" is_feed scope_ok "\<lambda>s s'. rows_kept (sd s) (sd s')" for d
proof
  show "scope_ok s'" if "scope_ok s" "serve_scope d x s = Inr s'" for s x s'
    using serve_scope_both[OF that] by simp
  show "rows_kept (sd s) (sd s')" if "scope_ok s" "is_feed x" "serve_scope d x s = Inr s'" for s x s'
    by (rule feed_rows[OF that])
qed (auto intro: rows_kept_trans)

lemma run_feed_rows:
  assumes "scope_ok s" "list_all is_feed rs"
  shows "rows_kept (sd s) (sd (run_scope d rs s))"
  using feed.run[OF assms, of d] by (simp add: run_scope_fold)

subsection \<open>Transcriptions\<close>

text \<open>An import from no connector: a workbook, a spreadsheet, a manual entry.\<close>

definition transcribed_change :: "scope_change_in \<Rightarrow> bool" where
  "transcribed_change c \<longleftrightarrow>
     (\<forall>i. cg_incoming c = Some i \<longrightarrow> ic_source i \<notin> source_value ` set CONNECTOR_SOURCES)"

fun is_transcription :: "scope_request \<Rightarrow> bool" where
  "is_transcription (ImportApply _ cs) = list_all transcribed_change cs"
| "is_transcription (SyncNow _ _ _ _) = True"
| "is_transcription (Passing _) = True"
| "is_transcription _ = False"

text \<open>What a connector said of an entity stays what it said.\<close>

definition supplied :: "scope_entity \<Rightarrow> string list" where
  "supplied r = connector_supplied_fields (se_entity_type r) (se_attributes r)"

definition observed_stays :: "scope_entity \<Rightarrow> scope_entity \<Rightarrow> bool" where
  "observed_stays r r' \<longleftrightarrow> se_id r' = se_id r \<and> se_entity_type r' = se_entity_type r \<and>
     (se_source r \<in> set CONNECTOR_SOURCES \<longrightarrow>
        se_source r' = se_source r \<and> se_source_ref r' = se_source_ref r \<and>
        (\<forall>k \<in> set (supplied r). dget k (se_attributes r') = dget k (se_attributes r)))"

lemma observed_stays_refl [simp]: "observed_stays r r"
  by (simp add: observed_stays_def)

lemma observed_stays_trans:
  assumes a: "observed_stays r s" and b: "observed_stays s t"
  shows "observed_stays r t"
proof (cases "se_source r \<in> set CONNECTOR_SOURCES")
  case True
  have "k \<in> set (supplied s)" if "k \<in> set (supplied r)" for k
    using that a True by (auto simp: observed_stays_def supplied_def connector_supplied_fields_def)
  then show ?thesis using a b True by (auto simp: observed_stays_def)
qed (use a b in \<open>simp add: observed_stays_def\<close>)

definition observations_stay :: "review_db \<Rightarrow> review_db \<Rightarrow> bool" where
  "observations_stay u u' \<longleftrightarrow> (\<forall>r \<in> set (t_scope u). \<exists>r' \<in> set (t_scope u'). observed_stays r r')"

lemma observations_stay_same: "t_scope u' = t_scope u \<Longrightarrow> observations_stay u u'"
  unfolding observations_stay_def using observed_stays_refl by metis

lemma observations_stay_trans: "observations_stay u v \<Longrightarrow> observations_stay v w \<Longrightarrow> observations_stay u w"
  unfolding observations_stay_def by (meson observed_stays_trans)

lemma transcribed_row_stays:
  assumes "ce_source e \<notin> set CONNECTOR_SOURCES" "se_entity_type r = ce_entity_type e"
  shows "observed_stays r (written_row False i org_id now (Some r) e)"
proof (cases "se_source r \<in> set CONNECTOR_SOURCES")
  case True
  then have t: "transcribes r e" using assms(1) by (simp add: transcribes_def)
  have "dget k (import_attributes (Some r) e) = dget k (se_attributes r)" if "k \<in> set (supplied r)" for k
    using that t assms(2) by (simp add: import_attributes_def Let_def dget_def[of k "foldl _ _ _"] map_of_keep_supplied supplied_def)
  then show ?thesis using t assms(2) by (simp add: observed_stays_def written_row_def)
qed (use assms(2) in \<open>simp add: observed_stays_def\<close>)

lemma upsert_stays:
  assumes "scope_keys s" "upsert False org_id e s = Inr (new, s')" "ce_source e \<notin> set CONNECTOR_SOURCES"
  shows "observations_stay s s'"
  unfolding observations_stay_def
  by (rule upsert_rows[OF assms(1,2)]) (use transcribed_row_stays[OF assms(3)] in simp_all)

lemma entity_in_source:
  assumes "entity_in c j = Inr e"
  shows "ic_source j = source_value (ce_source e)"
proof -
  have "source_of (ic_source j) = Some (ce_source e)"
    using assms by (auto simp: entity_in_def split: option.splits)
  then show ?thesis unfolding source_of_def by (metis of_value_SomeD)
qed

lemma import_stays:
  assumes "scope_keys u" "list_all transcribed_change changes" "import_apply org_id changes u = Inr (n, u')"
  shows "observations_stay u u'"
proof -
  have "scope_keys (snd (n, u')) \<and> observations_stay u (snd (n, u'))"
    using assms(3)[unfolded import_apply_def]
  proof (rule foldres_inv[where P = "\<lambda>acc. scope_keys (snd acc) \<and> observations_stay u (snd acc)"])
    fix c and acc acc' :: "nat \<times> review_db"
    assume mem: "c \<in> set changes" and acc: "scope_keys (snd acc) \<and> observations_stay u (snd acc)"
      and run: "apply_change org_id c acc = Inr acc'"
    have "scope_keys (snd acc')" by (rule grows_keys[OF apply_change_grows[OF _ run, of "{}"]]) (simp add: acc)
    moreover have "observations_stay u (snd acc')"
      using run
    proof (rule apply_change_InrD)
      fix j e row v
      assume j: "cg_incoming c = Some j" "entity_in c j = Inr e"
        and up: "upsert False org_id e (snd acc) = Inr (row, v)" and lg: "logged v (snd acc')"
      have "ce_source e \<notin> set CONNECTOR_SOURCES"
        using mem assms(2) j(1) entity_in_source[OF j(2)] by (auto simp: list_all_iff transcribed_change_def)
      then have "observations_stay (snd acc) v" using upsert_stays[OF _ up] acc by simp
      then have "observations_stay u v" using acc observations_stay_trans by blast
      then show ?thesis using observations_stay_trans observations_stay_same[OF logged_frame(1)[OF lg]] by blast
    qed (use acc in simp)
    ultimately show "scope_keys (snd acc') \<and> observations_stay u (snd acc')" ..
  qed (use assms(1) observations_stay_same in simp)
  then show ?thesis by simp
qed

lemma transcription_stays:
  assumes ok: "scope_ok s" and tr: "is_transcription r" and run: "serve_scope d r s = Inr s'"
  shows "observations_stay (sd s) (sd s')"
proof (cases r)
  case (ImportApply o_id cs)
  obtain n u where u: "import_apply o_id cs (sd s) = Inr (n, u)" "sd s' = u"
    using run ImportApply by (cases "import_apply o_id cs (sd s)") (auto simp: on_sd_def)
  show ?thesis using import_stays[OF _ _ u(1)] ok tr ImportApply u(2) by (simp add: scope_ok_def)
next
  case (SyncNow o_id pull user_id at)
  then show ?thesis using run sync_now_scope by (auto intro: observations_stay_same)
next
  case (Passing now)
  then show ?thesis using run by (auto intro: observations_stay_same)
qed (use tr in simp_all)

interpretation transcription: transactions "serve_scope d" is_transcription scope_ok
    "\<lambda>s s'. observations_stay (sd s) (sd s')" for d
proof
  show "scope_ok s'" if "scope_ok s" "serve_scope d x s = Inr s'" for s x s'
    using serve_scope_both[OF that] by simp
  show "observations_stay (sd s) (sd s')" if "scope_ok s" "is_transcription x" "serve_scope d x s = Inr s'" for s x s'
    by (rule transcription_stays[OF that])
qed (auto intro: observations_stay_trans observations_stay_same)

lemma run_transcription_stays:
  assumes "scope_ok s" "list_all is_transcription rs"
  shows "observations_stay (sd s) (sd (run_scope d rs s))"
  using transcription.run[OF assms, of d] by (simp add: run_scope_fold)

subsection \<open>A decision is final\<close>

fun decides :: "scope_request \<Rightarrow> uuid option" where
  "decides (ApproveChange _ _ i _ _ _ _) = Some i"
| "decides (RejectChange _ _ i _ _ _ _) = Some i"
| "decides _ = None"

lemma decision_needs_waiting:
  assumes "scope_ok s" "decides r = Some i" "serve_scope d r s = Inr s'"
  shows "decisions_on i s = []" "decisions_on i s' \<noteq> []"
proof -
  have none: "decisions_on (sg_id c) s = []" if "c \<in> set (t_change s)" "waiting c" for c
    using assms(1) that by (auto simp: scope_ok_def change_ok_def waiting_def)
  have some: "decisions_on (sg_id c) (log_decision o_id u at c a x act s1) \<noteq> []"
    if run: "resolve dec o_id c e by_user nm reason ps conf s = Inr (a, s1)" for dec o_id c e by_user nm reason ps conf a s1 u at x act
    by (rule resolve_effect[OF run]) (simp add: decisions_on_def log_decision_def mk_approval_def)
  have "decisions_on i s = [] \<and> decisions_on i s' \<noteq> []"
  proof (cases r)
    case (ApproveChange o_id res j user_id at nm cf)
    with assms(2,3) have "approve_request (sdp_coll d) o_id res i user_id at nm cf s = Inr s'" by simp
    then show ?thesis by (rule approve_request_InrD) (use none some in blast)
  next
    case (RejectChange o_id res j user_id at nm reason)
    with assms(2,3) have "reject_request o_id res i user_id at nm reason s = Inr s'" by simp
    then show ?thesis by (rule reject_request_InrD) (use none some in blast)
  qed (use assms(2) in simp_all)
  then show "decisions_on i s = []" "decisions_on i s' \<noteq> []" by simp_all
qed

lemma decisions_kept: "records_kept s s' \<Longrightarrow> decisions_on i s \<noteq> [] \<Longrightarrow> decisions_on i s' \<noteq> []"
  by (auto simp: records_kept_def decisions_on_def prefix_def filter_empty_conv)

lemma change_records:
  assumes "scope_ok s" "c \<in> set (t_change s)"
  shows "length (decisions_on (sg_id c) s) = (if sg_resolution c \<in> {Some Approved, Some Rejected} then 1 else 0)"
proof -
  have "change_ok s c" using assms by (simp add: scope_ok_def)
  then show ?thesis
    by (auto simp: change_ok_def split: option.splits resolution.splits dest!: arg_cong[of "map _ _" _ length])
qed

end
