(* ===== verification/Scope_Example.thy ===== *)
theory Scope_Example
  imports Scope_Invariant Reconcile_Facts Review_Example
begin

section \<open>A tenant's scope graph\<close>

text \<open>
  The tenant of the reviews with a device a connector observed, and a pull under review whose one
  new device waits for a decision.
\<close>

definition observed_device :: scope_entity where
  "observed_device = \<lparr>se_id = 43, se_org_id = 1, se_entity_type = Device, se_natural_key = ''D1'',
     se_scope_category = Some CuiAsset, se_status = EntityActive, se_in_boundary = False, se_source = Liongard,
     se_source_ref = Some ''7'', se_last_verified_at = Some t0,
     se_attributes = [(''hostname'', JStr ''h''), (''location'', JStr ''l'')]\<rparr>"

definition new_device :: canonical_entity where
  "new_device = \<lparr>ce_entity_type = Device, ce_natural_key = ''D2'', ce_attributes = [(''hostname'', JStr ''g'')],
     ce_scope_category = None, ce_status = PendingApproval, ce_in_boundary = True, ce_source = Liongard,
     ce_source_ref = Some ''8''\<rparr>"

definition scope_tenant :: scope_db where
  "scope_tenant = \<lparr>sd = review_tenant\<lparr>t_scope := t_scope review_tenant @ [observed_device]\<rparr>,
     t_sync = [\<lparr>sy_id = 61, sy_org_id = 1, sy_job_run_id = None, sy_environment_id = 9, sy_environment_name = None,
       sy_pulled_at = t0, sy_status = PendingReview, sy_summary = [], sy_warnings = []\<rparr>],
     t_change = [\<lparr>sg_id = 62, sg_sync_result_id = 61, sg_org_id = 1, sg_change_type = New, sg_entity_type = Device,
       sg_natural_key = ''D2'', sg_field_diffs = [], sg_incoming = Some (entity_to_jsonb new_device),
       sg_warnings = [], sg_resolution = Some ResolutionPending, sg_resolved_at = None, sg_resolved_by = None\<rparr>],
     t_approval = [], t_checklist = []\<rparr>"

lemma scope_tenant_ok: "scope_ok scope_tenant"
proof -
  have "scope_keys (sd scope_tenant)"
    by (simp add: scope_keys_def scope_tenant_def observed_device_def review_tenant_def pk_ok_def new_id_def
        mapped_tenant_def tenant_def)
  moreover have "sd_new_id scope_tenant = 100"
    by (simp add: scope_tenant_def sd_new_id_def review_tenant_def new_id_def mapped_tenant_def tenant_def)
  ultimately show ?thesis
    by (simp add: scope_ok_def scope_tenant_def pk_ok_def change_ok_def decisions_on_def result_ok_def waiting_def)
qed

definition any_attributes :: scope_deployment where
  "any_attributes = \<lparr>sdp_coll = same_order, sdp_validate = (\<lambda>t a. Inr a)\<rparr>"

text \<open>A workbook that says otherwise of the observed device.\<close>

definition workbook_change :: scope_change_in where
  "workbook_change = \<lparr>cg_change_type = ''changed'', cg_entity_type = ''device'', cg_natural_key = ''D1'',
     cg_incoming = Some \<lparr>ic_scope_category = None, ic_status = ''active'', ic_in_boundary = True,
       ic_source = ''workbook'', ic_source_ref = None,
       ic_attributes = [(''hostname'', JStr ''x''), (''model'', JStr ''m'')]\<rparr>\<rparr>"

definition approve_new :: scope_request where
  "approve_new = ApproveChange 1 61 62 41 ''user'' ''A'' (\<lambda>_. True)"

definition reject_new :: scope_request where
  "reject_new = RejectChange 1 61 62 41 ''user'' ''A'' ''lost''"

lemma approve_new_accepted: "\<exists>s1. serve_scope d approve_new scope_tenant = Inr s1"
proof -
  let ?e = "new_device\<lparr>ce_status := EntityActive\<rparr>"
  let ?c = "hd (t_change scope_tenant)"
  have f: "find_change 1 61 62 scope_tenant = Inr ?c" by (simp add: scope_tenant_def find_change_def tget_def)
  have c: "decidable 1 ?c = Inr (entity_to_jsonb new_device)" by (simp add: scope_tenant_def decidable_def)
  have none: "scope_row 1 (ce_entity_type ?e) (ce_natural_key ?e) (sd scope_tenant) = None" by code_simp
  have "ce_status ?e = EntityActive" by simp
  then have "\<exists>row u. upsert False 1 ?e (sd scope_tenant) = Inr (row, u)" unfolding upsert_def none by (auto simp: Let_def)
  then show ?thesis
    by (auto simp: approve_new_def approve_request_def f approve_change_def c resolve_def Let_def simp del: One_nat_def)
qed

end
