(* ===== verification/Scope_Properties.thy ===== *)
theory Scope_Properties
  imports Scope_Example
begin

section \<open>Properties of the scope graph\<close>

text \<open>
  What an import, a sync and a person may write of an authorized entity, and what the acceptance
  records of new devices say.
\<close>

text \<open>C33. An import or a sync never decides what a person decides: over any sequence of applied
  imports, pulls, approvals and rejections of new entities and passing time, every entity keeps its
  row, its identity and its place in or out of the boundary, is not put back in service, does not
  lose its category or an attribute only a person writes, and a connector's record stays one.\<close>

theorem feeds_keep_human_decisions:
  assumes "scope_ok s" "list_all is_feed rs" "r \<in> set (t_scope (sd s))"
  shows "\<exists>r' \<in> set (t_scope (sd (run_scope d rs s))). kept_row r r'"
  using run_feed_rows[OF assms(1,2)] assms(3) by (simp add: rows_kept_def)

theorem feeds_keep_human_decisions_witness:
  "\<exists>r' \<in> set (t_scope (sd (run_scope any_attributes [ImportApply 1 [workbook_change], approve_new] scope_tenant))).
     se_id r' = 43 \<and> \<not> se_in_boundary r' \<and> has_key ''location'' (se_attributes r')"
proof -
  have m: "observed_device \<in> set (t_scope (sd scope_tenant))" by (simp add: scope_tenant_def)
  have f: "list_all is_feed [ImportApply 1 [workbook_change], approve_new]" by (simp add: approve_new_def)
  show ?thesis using feeds_keep_human_decisions[OF scope_tenant_ok f m, of any_attributes]
    by (simp add: kept_row_def observed_device_def has_key_def OPERATOR_OVERLAY_ATTRIBUTES_def)
      (elim bexE conjE, rule bexI, auto)
qed

text \<open>C34. A transcription never overwrites an observation: over any sequence of imports from a
  workbook, a spreadsheet or a manual entry, pulls and passing time, a record a connector supplied
  keeps its source and its reference, and every field that connector supplies keeps its value.\<close>

theorem transcriptions_keep_observations:
  assumes "scope_ok s" "list_all is_transcription rs" "r \<in> set (t_scope (sd s))"
    "se_source r \<in> set CONNECTOR_SOURCES"
  shows "\<exists>r' \<in> set (t_scope (sd (run_scope d rs s))).
    se_id r' = se_id r \<and> se_source r' = se_source r \<and> se_source_ref r' = se_source_ref r \<and>
    (\<forall>k \<in> set (connector_supplied_fields (se_entity_type r) (se_attributes r)).
       dget k (se_attributes r') = dget k (se_attributes r))"
  using run_transcription_stays[OF assms(1,2), of d] assms(3,4)
  unfolding observations_stay_def observed_stays_def supplied_def by blast

theorem transcriptions_keep_observations_witness:
  "\<exists>r' \<in> set (t_scope (sd (run_scope any_attributes [ImportApply 1 [workbook_change]] scope_tenant))).
     se_id r' = 43 \<and> se_source r' = Liongard \<and> dget ''hostname'' (se_attributes r') = JStr ''h''"
proof -
  have m: "observed_device \<in> set (t_scope (sd scope_tenant))" by (simp add: scope_tenant_def)
  have t: "list_all is_transcription [ImportApply 1 [workbook_change]]"
    by (simp add: workbook_change_def transcribed_change_def CONNECTOR_SOURCES_def)
  have c: "se_source observed_device \<in> set CONNECTOR_SOURCES" by (simp add: observed_device_def CONNECTOR_SOURCES_def)
  have h: "''hostname'' \<in> set (connector_supplied_fields (se_entity_type observed_device) (se_attributes observed_device))"
    "dget ''hostname'' (se_attributes observed_device) = JStr ''h''" by code_simp+
  show ?thesis using transcriptions_keep_observations[OF scope_tenant_ok t m c, of any_attributes] h
    by (auto simp: observed_device_def)
qed

text \<open>C35. Reconciling an import with the scope graph finds one change for every key of either
  side and no other: new when only the import has it, missing when only the graph has it, and
  otherwise unchanged exactly when no compared field differs; the change holds the last entity of
  each side with that key.\<close>

theorem reconcile_classifies:
  "distinct (map change_key (reconcile current incoming)) \<and>
   change_key ` set (reconcile current incoming) = ce_key ` set current \<union> ce_key ` set incoming \<and>
   (\<forall>c \<in> set (reconcile current incoming).
      ch_change_type c = change_for current incoming (change_key c) \<and>
      ch_incoming c = entity_with (change_key c) incoming \<and> ch_current c = entity_with (change_key c) current)"
  using reconcile_keys_distinct reconcile_keys_set reconcile_classified by (simp add: classified_def Let_def)

theorem reconcile_classifies_witness:
  "change_key ` set (reconcile [to_canonical observed_device] [new_device]) = {(Device, ''d1''), (Device, ''d2'')}"
proof -
  have k: "ce_key (to_canonical observed_device) = (Device, ''d1'')" "ce_key new_device = (Device, ''d2'')" by code_simp+
  show ?thesis using reconcile_classifies[of "[to_canonical observed_device]" "[new_device]"] k by auto
qed

text \<open>What was applied reconciles clean: once an import's entity is written, comparing the row
  with that entity finds no difference, when the row was new or of the same source. (For a
  Liongard entity, if it carries no field only a person writes and does not ask for an existing
  row to be decommissioned, which a sync never does.)\<close>

theorem applied_import_reconciles_unchanged:
  assumes "dict_ok (ce_attributes e)" "upsert False org_id e s = Inr (row, s')"
    "\<And>r. scope_row org_id (ce_entity_type e) (ce_natural_key e) s = Some r \<Longrightarrow> se_source r = ce_source e"
    "ce_source e = Liongard \<Longrightarrow>
       ce_status e \<noteq> EntityDecommissioned \<and> (\<forall>k \<in> set OPERATOR_OVERLAY_ATTRIBUTES. \<not> has_key k (ce_attributes e))"
  shows "field_diffs (to_canonical row) e = []"
  using upsert_compares_equal[OF assms] .

theorem applied_import_reconciles_unchanged_witness:
  "\<exists>row s'. upsert False 1 (new_device\<lparr>ce_status := EntityActive\<rparr>) (sd scope_tenant) = Inr (row, s') \<and>
     field_diffs (to_canonical row) (new_device\<lparr>ce_status := EntityActive\<rparr>) = []"
proof -
  let ?e = "new_device\<lparr>ce_status := EntityActive\<rparr>"
  have none: "scope_row 1 (ce_entity_type ?e) (ce_natural_key ?e) (sd scope_tenant) = None" by code_simp
  have st: "ce_status ?e = EntityActive" by simp
  obtain row s' where up: "upsert False 1 ?e (sd scope_tenant) = Inr (row, s')"
    unfolding upsert_def none st by (auto simp: Let_def)
  have d: "dict_ok (ce_attributes ?e)" by (simp add: dict_ok_def new_device_def)
  have "field_diffs (to_canonical row) ?e = []"
    by (rule applied_import_reconciles_unchanged[OF d up])
      (use none in \<open>simp_all add: new_device_def has_key_def OPERATOR_OVERLAY_ATTRIBUTES_def\<close>)
  then show ?thesis using up by blast
qed



text \<open>C38. A decision about a new entity is made once: after a request approved or rejected a
  change, no later request about that change succeeds, whatever happens in between.\<close>

theorem decision_is_final:
  assumes "scope_ok s" "serve_scope d r s = Inr s1" "decides r = Some i" "decides q = Some i"
  shows "\<exists>err. serve_scope d q (run_scope d rs s1) = Inl err"
proof (cases "serve_scope d q (run_scope d rs s1)")
  case (Inr s2)
  have ok: "scope_ok s1" using serve_scope_both[OF assms(1,2)] by simp
  have "decisions_on i (run_scope d rs s1) \<noteq> []"
    by (rule decisions_kept[OF run_scope_ok(2)[OF ok] decision_needs_waiting(2)[OF assms(1,3,2)]])
  then show ?thesis using decision_needs_waiting(1)[OF run_scope_ok(1)[OF ok] assms(4) Inr] by simp
qed simp

theorem decision_is_final_witness:
  "\<exists>s1 err. serve_scope any_attributes approve_new scope_tenant = Inr s1 \<and>
     serve_scope any_attributes reject_new (run_scope any_attributes [DeleteEntity 1 43] s1) = Inl err"
proof -
  obtain s1 where s1: "serve_scope any_attributes approve_new scope_tenant = Inr s1" using approve_new_accepted by blast
  have "decides approve_new = Some 62" "decides reject_new = Some 62" by (simp_all add: approve_new_def reject_new_def)
  from decision_is_final[OF scope_tenant_ok s1 this, of "[DeleteEntity 1 43]"] s1 show ?thesis by blast
qed

end
