(* ===== verification/Scheduler.thy ===== *)
theory Scheduler
  imports Schema Date_Time
begin

section \<open>The job scheduler\<close>

text \<open>
  \<open>backend/app/scheduler.py\<close>, from \<open>last_run_for\<close> to \<open>run_due_jobs\<close>: the
  table of job runs, the advisory locks of the database and any number of worker processes, each
  in its own call of \<open>run_due_jobs\<close>. A stage is the code between two commits or calls of
  the database; processes interleave, die and time passes between any two stages. A job's body is
  a parameter: it works on the rest of the database, and returns its summary or raises.
\<close>

subsection \<open>Runs\<close>

datatype run_status = Running | Succeeded | Failed

record job_run =
  jr_id :: uuid
  jr_job_name :: string
  jr_scheduled_for :: datetime
  jr_started_at :: datetime
  jr_finished_at :: "datetime option"
  jr_status :: run_status
  jr_result :: "jdict option"
  jr_error :: "string option"
  jr_worker_id :: string
  jr_created_at :: datetime

text \<open>A job: its name, how often it is due (in microseconds) and its body.\<close>

record 'app job_spec =
  js_name :: string
  js_interval :: int
  js_run :: "'app \<Rightarrow> string + (jdict \<times> 'app)"

text \<open>The registry, and the key of a job's lock: the first eight bytes of a digest of its name,
  a parameter.\<close>

record 'app scheduler =
  sr_registry :: "'app job_spec list"
  sr_lock_key :: "string \<Rightarrow> int"
  sr_worker_id :: "nat \<Rightarrow> string"

subsection \<open>A process\<close>

datatype outcome = NotDue | SkippedRunningElsewhere | RunFailed string | RunSucceeded jdict

text \<open>Where a process is: outside a poll; in \<open>run_due_jobs\<close> before looking whether the
  next job is due; and in \<open>_run_one\<close> before taking the lock, before failing orphans,
  before inserting the run, before the body, before recording its result, before releasing the
  lock.\<close>

datatype stage =
    Idle | Check | TryLock | Orphan | Insert | Body uuid | Record uuid "string + jdict" | Unlock outcome

record 'app worker =
  wk_stage :: stage
  wk_now :: datetime
  wk_rest :: "'app job_spec list"
  wk_outcomes :: "(string \<times> outcome) list"

record 'app sched =
  sc_clock :: datetime
  sc_next :: uuid
  sc_runs :: "job_run list"
  sc_locks :: "int \<Rightarrow> nat option"
  sc_worker :: "nat \<Rightarrow> 'app worker"
  sc_app :: 'app

definition set_worker :: "nat \<Rightarrow> 'app worker \<Rightarrow> 'app sched \<Rightarrow> 'app sched" where
  "set_worker w p s = s\<lparr>sc_worker := (sc_worker s)(w := p)\<rparr>"

subsection \<open>Due\<close>

text \<open>The newest run; of runs of one instant, the last inserted.\<close>

definition last_run_for :: "string \<Rightarrow> job_run list \<Rightarrow> job_run option" where
  "last_run_for name runs =
     (case sort_key jr_created_at (filter (\<lambda>r. jr_job_name r = name) runs) of
        [] \<Rightarrow> None | rs \<Rightarrow> Some (last rs))"

definition is_due :: "job_run list \<Rightarrow> 'app job_spec \<Rightarrow> datetime \<Rightarrow> bool" where
  "is_due runs spec now =
     (case last_run_for (js_name spec) runs of None \<Rightarrow> True
      | Some r \<Rightarrow>
          let reference = (case jr_finished_at r of None \<Rightarrow> jr_started_at r | Some f \<Rightarrow> f)
          in js_interval spec \<le> instant now - instant reference)"

subsection \<open>One run\<close>

definition ORPHANED :: string where
  "ORPHANED = ''Orphaned: worker process terminated without completing this run '' @
     ''(detected when the next run acquired the job's lock).''"

definition orphan :: "string \<Rightarrow> datetime \<Rightarrow> job_run \<Rightarrow> job_run" where
  "orphan name now r =
     (if jr_job_name r = name \<and> jr_status r = Running
      then r\<lparr>jr_status := Failed, jr_finished_at := Some now, jr_error := Some ORPHANED\<rparr> else r)"

definition reconcile_orphan :: "string \<Rightarrow> datetime \<Rightarrow> job_run list \<Rightarrow> job_run list" where
  "reconcile_orphan name now runs = map (orphan name now) runs"

definition mk_run :: "uuid \<Rightarrow> string \<Rightarrow> datetime \<Rightarrow> datetime \<Rightarrow> string \<Rightarrow> job_run" where
  "mk_run i name scheduled_for now worker =
     \<lparr>jr_id = i, jr_job_name = name, jr_scheduled_for = scheduled_for, jr_started_at = now,
      jr_finished_at = None, jr_status = Running, jr_result = None, jr_error = None,
      jr_worker_id = worker, jr_created_at = now\<rparr>"

definition record_run :: "datetime \<Rightarrow> string + jdict \<Rightarrow> job_run \<Rightarrow> job_run" where
  "record_run now res r =
     (case res of
        Inl e \<Rightarrow> r\<lparr>jr_status := Failed, jr_finished_at := Some now, jr_error := Some e\<rparr>
      | Inr v \<Rightarrow> r\<lparr>jr_status := Succeeded, jr_finished_at := Some now, jr_result := Some v\<rparr>)"

definition run_outcome :: "string + jdict \<Rightarrow> outcome" where
  "run_outcome res = (case res of Inl e \<Rightarrow> RunFailed e | Inr v \<Rightarrow> RunSucceeded v)"

text \<open>The outcome of the current job is appended and the loop goes on with the next.\<close>

definition next_job :: "string \<Rightarrow> outcome \<Rightarrow> 'app worker \<Rightarrow> 'app worker" where
  "next_job name oc p = p\<lparr>wk_stage := Check, wk_rest := tl (wk_rest p), wk_outcomes := wk_outcomes p @ [(name, oc)]\<rparr>"

text \<open>\<open>advance d w\<close>: process \<open>w\<close> goes on to its next stage.\<close>

definition advance :: "'app scheduler \<Rightarrow> nat \<Rightarrow> 'app sched \<Rightarrow> 'app sched" where
  "advance d w s =
     (let p = sc_worker s w
      in case (wk_stage p, wk_rest p) of
           (Idle, _) \<Rightarrow>
             set_worker w (p\<lparr>wk_stage := Check, wk_now := sc_clock s, wk_rest := sr_registry d, wk_outcomes := []\<rparr>) s
         | (_, []) \<Rightarrow> set_worker w (p\<lparr>wk_stage := Idle\<rparr>) s
         | (Check, spec # _) \<Rightarrow>
             if is_due (sc_runs s) spec (wk_now p) then set_worker w (p\<lparr>wk_stage := TryLock\<rparr>) s
             else set_worker w (next_job (js_name spec) NotDue p) s
         | (TryLock, spec # _) \<Rightarrow>
             let key = sr_lock_key d (js_name spec)
             in if sc_locks s key = None
                then set_worker w (p\<lparr>wk_stage := Orphan\<rparr>) (s\<lparr>sc_locks := (sc_locks s)(key := Some w)\<rparr>)
                else set_worker w (next_job (js_name spec) SkippedRunningElsewhere p) s
         | (Orphan, spec # _) \<Rightarrow>
             set_worker w (p\<lparr>wk_stage := Insert\<rparr>)
               (s\<lparr>sc_runs := reconcile_orphan (js_name spec) (sc_clock s) (sc_runs s)\<rparr>)
         | (Insert, spec # _) \<Rightarrow>
             set_worker w (p\<lparr>wk_stage := Body (sc_next s)\<rparr>)
               (s\<lparr>sc_runs := sc_runs s @ [mk_run (sc_next s) (js_name spec) (wk_now p) (sc_clock s) (sr_worker_id d w)],
                  sc_next := Suc (sc_next s)\<rparr>)
         | (Body i, spec # _) \<Rightarrow>
             (case js_run spec (sc_app s) of
                Inl e \<Rightarrow> set_worker w (p\<lparr>wk_stage := Record i (Inl e)\<rparr>) s
              | Inr (v, app) \<Rightarrow> set_worker w (p\<lparr>wk_stage := Record i (Inr v)\<rparr>) (s\<lparr>sc_app := app\<rparr>))
         | (Record i res, spec # _) \<Rightarrow>
             set_worker w (p\<lparr>wk_stage := Unlock (run_outcome res)\<rparr>)
               (s\<lparr>sc_runs := tupd jr_id i (record_run (sc_clock s) res) (sc_runs s)\<rparr>)
         | (Unlock oc, spec # _) \<Rightarrow>
             set_worker w (next_job (js_name spec) oc p)
               (s\<lparr>sc_locks := (sc_locks s)(sr_lock_key d (js_name spec) := None)\<rparr>))"

text \<open>A process that dies, or whose database fails it, releases its locks with its connection;
  what it committed stays.\<close>

definition die :: "nat \<Rightarrow> 'app sched \<Rightarrow> 'app sched" where
  "die w s =
     set_worker w ((sc_worker s w)\<lparr>wk_stage := Idle, wk_rest := []\<rparr>)
       (s\<lparr>sc_locks := (\<lambda>k. if sc_locks s k = Some w then None else sc_locks s k)\<rparr>)"

subsection \<open>All processes\<close>

text \<open>Any process goes on or dies, time passes, and the rest of the application changes the rest
  of the database.\<close>

inductive sched_step :: "'app scheduler \<Rightarrow> ('app \<Rightarrow> 'app \<Rightarrow> bool) \<Rightarrow> 'app sched \<Rightarrow> 'app sched \<Rightarrow> bool"
  for d :: "'app scheduler" and app_step :: "'app \<Rightarrow> 'app \<Rightarrow> bool" where
  goes_on: "sched_step d app_step s (advance d w s)"
| dies: "sched_step d app_step s (die w s)"
| time_passes: "sc_clock s \<le> t \<Longrightarrow> sched_step d app_step s (s\<lparr>sc_clock := t\<rparr>)"
| elsewhere: "app_step (sc_app s) a \<Longrightarrow> sched_step d app_step s (s\<lparr>sc_app := a\<rparr>)"

inductive_cases sched_stepE: "sched_step d app_step s s'"

subsection \<open>One poll\<close>

text \<open>\<open>run_due_jobs\<close> of a process that nothing interrupts: it goes on until the loop over
  the registry is over. How far it still is, is what its termination rests on.\<close>

fun stages_left :: "stage \<Rightarrow> nat" where
  "stages_left Idle = 0"
| "stages_left (Unlock _) = 1"
| "stages_left (Record _ _) = 2"
| "stages_left (Body _) = 3"
| "stages_left Insert = 4"
| "stages_left Orphan = 5"
| "stages_left TryLock = 6"
| "stages_left Check = 7"

definition poll_left :: "'app worker \<Rightarrow> nat" where
  "poll_left p = 8 * length (wk_rest p) + stages_left (wk_stage p)"

lemma worker_set [simp]: "sc_worker (set_worker w p s) w = p"
  by (simp add: set_worker_def)

lemma advance_less:
  assumes "wk_stage (sc_worker s w) \<noteq> Idle"
  shows "poll_left (sc_worker (advance d w s) w) < poll_left (sc_worker s w)"
  using assms
  by (cases "wk_stage (sc_worker s w)"; cases "wk_rest (sc_worker s w)")
    (auto simp: advance_def poll_left_def Let_def next_job_def split: sum.split)

function finish_poll :: "'app scheduler \<Rightarrow> nat \<Rightarrow> 'app sched \<Rightarrow> 'app sched" where
  "finish_poll d w s = (if wk_stage (sc_worker s w) = Idle then s else finish_poll d w (advance d w s))"
  by pat_completeness auto
termination
  by (relation "measure (\<lambda>(_, w, s). poll_left (sc_worker s w))") (auto intro: advance_less)

declare finish_poll.simps [simp del]

definition run_due_jobs :: "'app scheduler \<Rightarrow> nat \<Rightarrow> 'app sched \<Rightarrow> (string \<times> outcome) list \<times> 'app sched" where
  "run_due_jobs d w s = (let s' = finish_poll d w (advance d w s) in (wk_outcomes (sc_worker s' w), s'))"

end
