(* ===== verification/Scheduler_Facts.thy ===== *)
theory Scheduler_Facts
  imports Scheduler
begin

section \<open>The invariant of the scheduler\<close>

text \<open>
  A lock belongs to the one process that is between taking and releasing it, a run that is marked
  running is the one that process is executing or an orphan it has not reconciled yet, and the
  runs of a job follow one another.
\<close>

subsection \<open>What a process holds\<close>

definition held :: "'app worker \<Rightarrow> (string \<times> stage) option" where
  "held p =
     (case wk_rest p of [] \<Rightarrow> None
      | spec # _ \<Rightarrow> if wk_stage p \<in> {Idle, Check, TryLock} then None else Some (js_name spec, wk_stage p))"

fun stage_run :: "stage \<Rightarrow> uuid option" where
  "stage_run (Body i) = Some i"
| "stage_run (Record i _) = Some i"
| "stage_run _ = None"

definition run_ok :: "datetime \<Rightarrow> job_run \<Rightarrow> bool" where
  "run_ok now r \<longleftrightarrow> jr_started_at r \<le> now \<and>
     (case jr_finished_at r of
        None \<Rightarrow> jr_status r = Running \<and> jr_result r = None \<and> jr_error r = None
      | Some f \<Rightarrow> jr_started_at r \<le> f \<and> f \<le> now \<and>
          (if jr_status r = Succeeded then jr_result r \<noteq> None \<and> jr_error r = None
           else jr_status r = Failed \<and> jr_result r = None \<and> jr_error r \<noteq> None))"

definition follows :: "job_run list \<Rightarrow> bool" where
  "follows runs \<longleftrightarrow>
     (\<forall>r \<in> set runs. \<forall>r' \<in> set runs. jr_job_name r = jr_job_name r' \<longrightarrow> jr_id r < jr_id r' \<longrightarrow>
        (case jr_finished_at r of None \<Rightarrow> False | Some f \<Rightarrow> f \<le> jr_started_at r'))"

lemma followsD:
  assumes "follows runs" "r \<in> set runs" "r' \<in> set runs" "jr_job_name r = jr_job_name r'" "jr_id r < jr_id r'"
  shows "\<exists>f. jr_finished_at r = Some f \<and> f \<le> jr_started_at r'"
proof -
  have "case jr_finished_at r of None \<Rightarrow> False | Some f \<Rightarrow> f \<le> jr_started_at r'"
    using assms unfolding follows_def by blast
  then show ?thesis by (cases "jr_finished_at r") simp_all
qed

text \<open>What the locks say, and what the rows say of a process: the run it executes is marked
  running, and a run of the job it holds that is marked running is that one, unless it has yet
  to look for orphans.\<close>

definition locks_ok :: "'app scheduler \<Rightarrow> 'app sched \<Rightarrow> bool" where
  "locks_ok d s \<longleftrightarrow>
     (\<forall>k w. sc_locks s k = Some w \<longleftrightarrow> (\<exists>n st. held (sc_worker s w) = Some (n, st) \<and> k = sr_lock_key d n))"

definition execs_ok :: "job_run list \<Rightarrow> string \<times> stage \<Rightarrow> bool" where
  "execs_ok runs h \<longleftrightarrow>
     (case h of (n, st) \<Rightarrow>
        (\<forall>i. stage_run st = Some i \<longrightarrow>
           (\<exists>r \<in> set runs. jr_id r = i \<and> jr_job_name r = n \<and> jr_finished_at r = None)) \<and>
        (\<forall>r \<in> set runs. jr_job_name r = n \<longrightarrow> jr_finished_at r = None \<longrightarrow>
           st = Orphan \<or> stage_run st = Some (jr_id r)))"

definition sched_ok :: "'app scheduler \<Rightarrow> 'app sched \<Rightarrow> bool" where
  "sched_ok d s \<longleftrightarrow>
     pk_ok jr_id (sc_next s) (sc_runs s) \<and> list_all (run_ok (sc_clock s)) (sc_runs s) \<and>
     follows (sc_runs s) \<and> locks_ok d s \<and>
     (\<forall>w h. held (sc_worker s w) = Some h \<longrightarrow> execs_ok (sc_runs s) h)"

lemma sched_okD:
  assumes "sched_ok d s"
  shows "pk_ok jr_id (sc_next s) (sc_runs s)" "\<And>r. r \<in> set (sc_runs s) \<Longrightarrow> run_ok (sc_clock s) r"
    "follows (sc_runs s)" "locks_ok d s"
    "\<And>w h. held (sc_worker s w) = Some h \<Longrightarrow> execs_ok (sc_runs s) h"
  using assms by (auto simp: sched_ok_def list_all_iff)

text \<open>Two processes never hold locks of one job.\<close>

lemma held_once:
  assumes "sched_ok d s" "held (sc_worker s w) = Some (n, st)" "held (sc_worker s w') = Some (n, st')"
  shows "w' = w"
proof -
  have "sc_locks s (sr_lock_key d n) = Some w" "sc_locks s (sr_lock_key d n) = Some w'"
    using sched_okD(4)[OF assms(1)] assms(2,3) unfolding locks_ok_def by blast+
  then show ?thesis by simp
qed

subsection \<open>A process that changes no run\<close>

lemma set_worker_frame [simp]:
  "sc_clock (set_worker w p s) = sc_clock s" "sc_next (set_worker w p s) = sc_next s"
  "sc_runs (set_worker w p s) = sc_runs s" "sc_locks (set_worker w p s) = sc_locks s"
  "sc_app (set_worker w p s) = sc_app s"
  "sc_worker (set_worker w p s) v = (if v = w then p else sc_worker s v)"
  by (simp_all add: set_worker_def)

lemma same_held_ok:
  assumes ok: "sched_ok d s" and h: "\<And>v. held (sc_worker s' v) = held (sc_worker s v)"
    and same: "sc_runs s' = sc_runs s" "sc_next s' = sc_next s" "sc_locks s' = sc_locks s" "sc_clock s \<le> sc_clock s'"
  shows "sched_ok d s'"
proof -
  have "run_ok (sc_clock s') r" if "run_ok (sc_clock s) r" for r
    using that same(4) by (auto simp: run_ok_def split: option.splits)
  then show ?thesis using ok by (auto simp: sched_ok_def locks_ok_def h same list_all_iff)
qed

lemma execs_ok_cong:
  assumes "\<And>r. jr_job_name r = n \<Longrightarrow> r \<in> set a \<longleftrightarrow> r \<in> set b"
  shows "execs_ok a (n, st) = execs_ok b (n, st)"
proof -
  have sub: "execs_ok y (n, st)" if "execs_ok x (n, st)" "\<And>r. jr_job_name r = n \<Longrightarrow> r \<in> set x \<longleftrightarrow> r \<in> set y" for x y
    using that unfolding execs_ok_def prod.case by blast
  show ?thesis using sub[of a b] sub[of b a] assms by blast
qed

text \<open>The run a process holds is worked on: the rows change, and only what this process holds.\<close>

lemma working_ok:
  assumes ok: "sched_ok d s" and was: "held (sc_worker s w) = Some (n, st)"
    and now: "held (sc_worker s' w) = Some (n, st')"
    and others: "\<And>v. v \<noteq> w \<Longrightarrow> sc_worker s' v = sc_worker s v" and l: "sc_locks s' = sc_locks s"
    and runs: "pk_ok jr_id (sc_next s') (sc_runs s')" "list_all (run_ok (sc_clock s')) (sc_runs s')"
      "follows (sc_runs s')" "execs_ok (sc_runs s') (n, st')"
    and frame: "filter (\<lambda>r. jr_job_name r \<noteq> n) (sc_runs s') = filter (\<lambda>r. jr_job_name r \<noteq> n) (sc_runs s)"
  shows "sched_ok d s'"
proof -
  have other: "execs_ok (sc_runs s') (m, st'')" if h: "held (sc_worker s v) = Some (m, st'')" "v \<noteq> w" for v m st''
  proof -
    have "m \<noteq> n" using held_once[OF ok was] h by auto
    moreover have "r \<in> set (sc_runs s') \<longleftrightarrow> r \<in> set (sc_runs s)" if "jr_job_name r \<noteq> n" for r
      using arg_cong[OF frame, of "\<lambda>rs. r \<in> set rs"] that by simp
    ultimately have "execs_ok (sc_runs s') (m, st'') = execs_ok (sc_runs s) (m, st'')" by (intro execs_ok_cong) simp
    then show ?thesis using sched_okD(5)[OF ok h(1)] by simp
  qed
  have "locks_ok d s'"
    unfolding locks_ok_def
  proof (intro allI)
    fix k v
    show "sc_locks s' k = Some v \<longleftrightarrow> (\<exists>n st. held (sc_worker s' v) = Some (n, st) \<and> k = sr_lock_key d n)"
      using sched_okD(4)[OF ok] was now others[of v] by (cases "v = w") (auto simp: locks_ok_def l)
  qed
  moreover have "execs_ok (sc_runs s') h" if "held (sc_worker s' v) = Some h" for v h
    using that now others[of v] other runs(4) by (cases "v = w"; cases h) auto
  ultimately show ?thesis using runs(1-3) by (simp add: sched_ok_def)
qed

subsection \<open>Rows\<close>

text \<open>What a stage makes of the runs: those of the job it holds that are not finished may finish
  now, and one may be added when all are finished.\<close>

definition finishes :: "datetime \<Rightarrow> string \<Rightarrow> job_run \<Rightarrow> job_run \<Rightarrow> bool" where
  "finishes now n r r' \<longleftrightarrow> r' = r \<or>
     (jr_job_name r = n \<and> jr_finished_at r = None \<and> jr_finished_at r' = Some now \<and>
      jr_id r' = jr_id r \<and> jr_job_name r' = n \<and> jr_started_at r' = jr_started_at r)"

lemma finishes_same: "finishes now n r r' \<Longrightarrow> jr_id r' = jr_id r \<and> jr_job_name r' = jr_job_name r \<and>
    jr_started_at r' = jr_started_at r"
  by (auto simp: finishes_def)

lemma follows_map:
  assumes f: "follows runs" and g: "\<And>r. r \<in> set runs \<Longrightarrow> finishes now n r (g r)"
  shows "follows (map g runs)"
  unfolding follows_def
proof (intro ballI impI)
  fix a b assume a: "a \<in> set (map g runs)" "b \<in> set (map g runs)" "jr_job_name a = jr_job_name b" "jr_id a < jr_id b"
  obtain x y where xy: "x \<in> set runs" "a = g x" "y \<in> set runs" "b = g y" using a(1,2) by auto
  note s = finishes_same[OF g[OF xy(1)]] finishes_same[OF g[OF xy(3)]]
  have fin: "case jr_finished_at x of None \<Rightarrow> False | Some f \<Rightarrow> f \<le> jr_started_at y"
    using f a(3,4) xy s unfolding follows_def by auto
  then have "a = x" using g[OF xy(1)] xy(2) by (auto simp: finishes_def split: option.splits)
  then show "case jr_finished_at a of None \<Rightarrow> False | Some f \<Rightarrow> f \<le> jr_started_at b"
    using fin s xy by (simp split: option.splits)
qed

lemma follows_snoc:
  assumes f: "follows runs" and pk: "pk_ok jr_id (jr_id r) runs"
    and fin: "\<And>x. x \<in> set runs \<Longrightarrow> jr_job_name x = jr_job_name r \<Longrightarrow>
      \<exists>f. jr_finished_at x = Some f \<and> f \<le> jr_started_at r"
  shows "follows (runs @ [r])"
  using f pk fin unfolding follows_def pk_ok_def by (fastforce split: option.splits)

lemma filter_map_same:
  assumes "\<And>r. r \<in> set rows \<Longrightarrow> P (g r) = P r" "\<And>r. r \<in> set rows \<Longrightarrow> P r \<Longrightarrow> g r = r"
  shows "filter P (map g rows) = filter P rows"
  using assms by (induction rows) auto

text \<open>At most one run of a job is marked running.\<close>

lemma one_running:
  assumes "sched_ok d s" "r \<in> set (sc_runs s)" "r' \<in> set (sc_runs s)" "jr_job_name r' = jr_job_name r"
    "jr_finished_at r = None" "jr_finished_at r' = None"
  shows "r' = r"
proof (rule pk_ok_inj[OF sched_okD(1)[OF assms(1)] assms(3,2)])
  show "jr_id r' = jr_id r"
  proof (cases "jr_id r' = jr_id r")
    case False
    then have "jr_id r < jr_id r' \<or> jr_id r' < jr_id r" by auto
    then show ?thesis
      using sched_okD(3)[OF assms(1)] assms(2-6) unfolding follows_def by (metis option.case(1))
  qed
qed

subsection \<open>Every stage\<close>

lemma take_ok:
  assumes ok: "sched_ok d s" and none: "held (sc_worker s w) = None" and free: "sc_locks s (sr_lock_key d n) = None"
    and now: "held p = Some (n, Orphan)"
  shows "sched_ok d (set_worker w p (s\<lparr>sc_locks := (sc_locks s)(sr_lock_key d n := Some w)\<rparr>))"
    (is "sched_ok d ?s")
proof -
  have iff: "sc_locks s k = Some v \<longleftrightarrow> (\<exists>m st. held (sc_worker s v) = Some (m, st) \<and> k = sr_lock_key d m)" for k v
    using sched_okD(4)[OF ok] unfolding locks_ok_def by blast
  have "locks_ok d ?s"
    unfolding locks_ok_def
  proof (intro allI)
    fix k v
    show "sc_locks ?s k = Some v \<longleftrightarrow> (\<exists>m st. held (sc_worker ?s v) = Some (m, st) \<and> k = sr_lock_key d m)"
      using iff[of k v] iff[of k w] free none now by auto
  qed
  moreover have "execs_ok (sc_runs ?s) h" if "held (sc_worker ?s v) = Some h" for v h
    using that sched_okD(5)[OF ok, of v h] now by (cases "v = w") (auto simp: execs_ok_def)
  ultimately show ?thesis using ok by (simp add: sched_ok_def)
qed

lemma release_ok:
  assumes ok: "sched_ok d s" and none: "held p = None"
    and l: "\<And>k. sc_locks s' k = (if sc_locks s k = Some w then None else sc_locks s k)"
    and same: "sc_runs s' = sc_runs s" "sc_next s' = sc_next s" "sc_clock s' = sc_clock s"
      "sc_worker s' = (sc_worker s)(w := p)"
  shows "sched_ok d s'"
proof -
  have iff: "sc_locks s k = Some v \<longleftrightarrow> (\<exists>m st. held (sc_worker s v) = Some (m, st) \<and> k = sr_lock_key d m)" for k v
    using sched_okD(4)[OF ok] unfolding locks_ok_def by blast
  have "locks_ok d s'"
    unfolding locks_ok_def
  proof (intro allI)
    fix k v
    show "sc_locks s' k = Some v \<longleftrightarrow> (\<exists>m st. held (sc_worker s' v) = Some (m, st) \<and> k = sr_lock_key d m)"
    proof (cases "v = w")
      case True
      then show ?thesis using none by (simp add: l same)
    next
      case False
      then have "sc_locks s' k = Some v \<longleftrightarrow> sc_locks s k = Some v" by (auto simp: l)
      then show ?thesis unfolding iff using False by (simp add: same)
    qed
  qed
  then show ?thesis using ok none by (auto simp: sched_ok_def same)
qed

lemma orphan_finishes: "run_ok now r \<Longrightarrow> finishes now n r (orphan n now r)"
  by (auto simp: finishes_def orphan_def run_ok_def split: option.splits if_splits)

lemma orphan_ok: "run_ok now r \<Longrightarrow> run_ok now (orphan n now r)"
  by (auto simp: orphan_def run_ok_def split: option.splits if_splits)

lemma orphan_done: "run_ok now r \<Longrightarrow> jr_job_name r = n \<Longrightarrow> jr_finished_at (orphan n t r) \<noteq> None"
  by (auto simp: orphan_def run_ok_def split: option.splits)

lemma orphan_other [simp]: "jr_job_name r \<noteq> n \<Longrightarrow> orphan n now r = r"
  by (simp add: orphan_def)

lemma orphan_stage_ok:
  assumes ok: "sched_ok d s" and was: "held (sc_worker s w) = Some (n, Orphan)" and now: "held p = Some (n, Insert)"
  shows "sched_ok d (set_worker w p (s\<lparr>sc_runs := reconcile_orphan n (sc_clock s) (sc_runs s)\<rparr>))"
proof -
  let ?rs = "reconcile_orphan n (sc_clock s) (sc_runs s)"
  note D = sched_okD[OF ok]
  have id: "jr_id (orphan n t r) = jr_id r" "jr_job_name (orphan n t r) = jr_job_name r" for t r by (simp_all add: orphan_def)
  have "filter (\<lambda>r. jr_job_name r \<noteq> n) ?rs = filter (\<lambda>r. jr_job_name r \<noteq> n) (sc_runs s)"
    unfolding reconcile_orphan_def by (rule filter_map_same) (simp_all add: id)
  moreover have "pk_ok jr_id (sc_next s) ?rs"
    by (rule pk_ok_keys[OF _ D(1)]) (simp add: reconcile_orphan_def id)
  moreover have "list_all (run_ok (sc_clock s)) ?rs" using D(2) by (auto simp: reconcile_orphan_def list_all_iff intro: orphan_ok)
  moreover have "follows ?rs" unfolding reconcile_orphan_def by (rule follows_map[OF D(3)]) (rule orphan_finishes[OF D(2)])
  moreover have "execs_ok ?rs (n, Insert)"
  proof -
    have "jr_finished_at x \<noteq> None" if x: "x \<in> set ?rs" "jr_job_name x = n" for x
    proof -
      obtain r where r: "r \<in> set (sc_runs s)" "x = orphan n (sc_clock s) r" using x(1) by (auto simp: reconcile_orphan_def)
      show ?thesis using orphan_done[OF D(2)[OF r(1)]] x(2) by (simp add: r(2) id)
    qed
    then show ?thesis by (simp add: execs_ok_def)
  qed
  ultimately show ?thesis by (intro working_ok[OF ok was]) (simp_all add: now)
qed

lemma insert_stage_ok:
  assumes ok: "sched_ok d s" and was: "held (sc_worker s w) = Some (n, Insert)"
    and now: "held p = Some (n, Body (sc_next s))"
  shows "sched_ok d (set_worker w p (s\<lparr>sc_runs := sc_runs s @ [mk_run (sc_next s) n due (sc_clock s) worker],
      sc_next := Suc (sc_next s)\<rparr>))"
proof -
  let ?r = "mk_run (sc_next s) n due (sc_clock s) worker"
  note D = sched_okD[OF ok]
  have r: "jr_id ?r = sc_next s" "jr_job_name ?r = n" "jr_started_at ?r = sc_clock s" "jr_finished_at ?r = None"
    "run_ok (sc_clock s) ?r" by (simp_all add: mk_run_def run_ok_def)
  have fin: "\<exists>f. jr_finished_at x = Some f \<and> f \<le> jr_started_at ?r"
    if x: "x \<in> set (sc_runs s)" "jr_job_name x = jr_job_name ?r" for x
  proof (cases "jr_finished_at x")
    case None
    then show ?thesis using D(5)[OF was] x r(2) by (auto simp: execs_ok_def)
  next
    case (Some f)
    then show ?thesis using D(2)[OF x(1)] r(3) by (simp add: run_ok_def)
  qed
  have "follows (sc_runs s @ [?r])"
    by (rule follows_snoc[OF D(3)]) (use D(1) r(1) in simp, rule fin)
  moreover have "pk_ok jr_id (Suc (sc_next s)) (sc_runs s @ [?r])" by (rule pk_ok_snoc[OF D(1) r(1)])
  moreover have "execs_ok (sc_runs s @ [?r]) (n, Body (sc_next s))"
    unfolding execs_ok_def prod.case
  proof (intro conjI allI ballI impI)
    fix i assume "stage_run (Body (sc_next s)) = Some i"
    then show "\<exists>r \<in> set (sc_runs s @ [?r]). jr_id r = i \<and> jr_job_name r = n \<and> jr_finished_at r = None" using r by simp
  next
    fix x assume x: "x \<in> set (sc_runs s @ [?r])" "jr_job_name x = n" "jr_finished_at x = None"
    then have "x = ?r" using fin[of x] r(2) by auto
    then show "Body (sc_next s) = Orphan \<or> stage_run (Body (sc_next s)) = Some (jr_id x)" using r(1) by simp
  qed
  ultimately show ?thesis using D(2) r by (intro working_ok[OF ok was]) (simp_all add: now list_all_iff)
qed

lemma record_run_finishes:
  "jr_finished_at r = None \<Longrightarrow> jr_job_name r = n \<Longrightarrow> finishes now n r (record_run now res r)"
  by (auto simp: finishes_def record_run_def split: sum.split)

lemma record_stage_ok:
  assumes ok: "sched_ok d s" and was: "held (sc_worker s w) = Some (n, Record i res)"
    and now: "held p = Some (n, Unlock oc)"
  shows "sched_ok d (set_worker w p (s\<lparr>sc_runs := tupd jr_id i (record_run (sc_clock s) res) (sc_runs s)\<rparr>))"
proof -
  let ?g = "\<lambda>r. if jr_id r = i then record_run (sc_clock s) res r else r"
  let ?rs = "tupd jr_id i (record_run (sc_clock s) res) (sc_runs s)"
  note D = sched_okD[OF ok]
  have rs: "?rs = map ?g (sc_runs s)" by (simp add: tupd_def)
  have id: "jr_id (?g r) = jr_id r" "jr_job_name (?g r) = jr_job_name r" for r by (simp_all add: record_run_def split: sum.split)
  obtain q where q: "q \<in> set (sc_runs s)" "jr_id q = i" "jr_job_name q = n" "jr_finished_at q = None"
    using D(5)[OF was] by (auto simp: execs_ok_def)
  have the_one: "r = q" if "r \<in> set (sc_runs s)" "jr_id r = i" for r
    using pk_ok_inj[OF D(1) that(1) q(1)] that(2) q(2) by simp
  have g: "finishes (sc_clock s) n r (?g r)" "run_ok (sc_clock s) (?g r)" if r: "r \<in> set (sc_runs s)" for r
  proof -
    show "finishes (sc_clock s) n r (?g r)"
      using the_one[OF r] q record_run_finishes by (auto simp: finishes_def)
    show "run_ok (sc_clock s) (?g r)"
      using D(2)[OF r] the_one[OF r] q by (auto simp: run_ok_def record_run_def split: sum.split option.splits)
  qed
  have "filter (\<lambda>r. jr_job_name r \<noteq> n) ?rs = filter (\<lambda>r. jr_job_name r \<noteq> n) (sc_runs s)"
    unfolding rs
  proof (rule filter_map_same)
    fix r assume r: "r \<in> set (sc_runs s)"
    show "(jr_job_name (?g r) \<noteq> n) = (jr_job_name r \<noteq> n)" using id by simp
    assume "jr_job_name r \<noteq> n"
    then have "jr_id r \<noteq> i" using the_one[OF r] q(3) by metis
    then show "?g r = r" by simp
  qed
  moreover have "pk_ok jr_id (sc_next s) ?rs" unfolding rs by (rule pk_ok_keys[OF _ D(1)]) (simp add: id)
  moreover have "list_all (run_ok (sc_clock s)) ?rs" 
  proof -
    have "\<forall>r \<in> set (sc_runs s). run_ok (sc_clock s) (?g r)" using g(2) by (intro ballI)
    then show ?thesis unfolding rs list_all_iff by (simp only: set_map ball_simps)
  qed
  moreover have "follows ?rs" unfolding rs by (rule follows_map[OF D(3) g(1)])
  moreover have "execs_ok ?rs (n, Unlock oc)"
  proof -
    have "jr_finished_at (?g r) \<noteq> None" if r: "r \<in> set (sc_runs s)" "jr_job_name r = n" for r
      using D(5)[OF was] r by (cases res) (auto simp: execs_ok_def record_run_def)
    then show ?thesis unfolding rs using id by (auto simp: execs_ok_def simp del: if_image_distrib)
  qed
  ultimately show ?thesis by (intro working_ok[OF ok was]) (simp_all add: now)
qed

text \<open>A process that goes on.\<close>

lemma held_Cons: "wk_rest p = spec # rest \<Longrightarrow> wk_stage p \<notin> {Idle, Check, TryLock} \<Longrightarrow>
    held p = Some (js_name spec, wk_stage p)"
  by (simp add: held_def)

lemma held_set: "wk_rest p = spec # rest \<Longrightarrow>
    held (p\<lparr>wk_stage := st\<rparr>) = (if st \<in> {Idle, Check, TryLock} then None else Some (js_name spec, st))"
  by (simp add: held_def)

lemma held_stage [simp]:
  "held (p\<lparr>wk_stage := Idle\<rparr>) = None" "held (p\<lparr>wk_stage := Check, wk_now := t, wk_rest := xs, wk_outcomes := os\<rparr>) = None"
  "held (p\<lparr>wk_stage := TryLock\<rparr>) = None" "held (next_job n oc p) = None" "held (p\<lparr>wk_stage := Idle, wk_rest := []\<rparr>) = None"
  by (simp_all add: held_def next_job_def split: list.split)

lemma idle_ok:
  assumes "sched_ok d s" "held (sc_worker s w) = None" "held p = None"
  shows "sched_ok d (set_worker w p s)"
  by (rule same_held_ok[OF assms(1)]) (simp_all add: assms)

lemma advance_ok:
  assumes ok: "sched_ok d s"
  shows "sched_ok d (advance d w s)"
proof -
  let ?p = "sc_worker s w"
  show ?thesis
  proof (cases "wk_rest ?p")
    case Nil
    then have "held ?p = None" by (simp add: held_def)
    then show ?thesis using Nil idle_ok[OF ok] by (cases "wk_stage ?p") (simp_all add: advance_def Let_def)
  next
    case (Cons spec rest)
    note h = held_Cons[OF Cons]
    have none: "held ?p = None" if "wk_stage ?p \<in> {Idle, Check, TryLock}" using that Cons by (auto simp: held_def)
    show ?thesis
    proof (cases "wk_stage ?p")
      case Idle
      then show ?thesis using idle_ok[OF ok] none by (simp add: advance_def Let_def)
    next
      case Check
      then show ?thesis using idle_ok[OF ok] none Cons by (simp add: advance_def Let_def)
    next
      case TryLock
      note st = TryLock
      show ?thesis
      proof (cases "sc_locks s (sr_lock_key d (js_name spec))")
        case None
        have "held (?p\<lparr>wk_stage := Orphan\<rparr>) = Some (js_name spec, Orphan)" using held_set[OF Cons, of Orphan] by simp
        from take_ok[OF ok _ None this] none st Cons None show ?thesis by (simp add: advance_def Let_def)
      next
        case (Some v)
        then show ?thesis using idle_ok[OF ok] none st Cons by (simp add: advance_def Let_def)
      qed
    next
      case Orphan
      then show ?thesis using orphan_stage_ok[OF ok] h Cons by (simp add: advance_def Let_def held_def)
    next
      case Insert
      then show ?thesis using insert_stage_ok[OF ok] h Cons by (simp add: advance_def Let_def held_def)
    next
      case (Body i)
      have was: "held ?p = Some (js_name spec, Body i)" using h Body by simp
      have ex: "execs_ok (sc_runs s) (js_name spec, Record i res)" for res
        using sched_okD(5)[OF ok was] by (simp add: execs_ok_def)
      have app: "sched_ok d (set_worker w (?p\<lparr>wk_stage := Record i res\<rparr>) (s\<lparr>sc_app := a\<rparr>))" for res a
        using ok ex by (intro working_ok[OF ok was, where st' = "Record i res"]) (simp_all add: held_def Cons sched_ok_def)
      have "sched_ok d (set_worker w (?p\<lparr>wk_stage := Record i res\<rparr>) s)" for res
        using app[of res "sc_app s"] by simp
      then show ?thesis using Body Cons app by (auto simp: advance_def Let_def split: sum.split)
    next
      case (Record i res)
      then show ?thesis using record_stage_ok[OF ok, of w "js_name spec" i res] h Cons by (simp add: advance_def Let_def held_def)
    next
      case (Unlock oc)
      then have "held ?p = Some (js_name spec, Unlock oc)" using h by simp
      then have "sc_locks s k = Some w \<longleftrightarrow> k = sr_lock_key d (js_name spec)" for k
        using sched_okD(4)[OF ok] by (auto simp: locks_ok_def)
      then show ?thesis using Unlock Cons
        by (intro release_ok[OF ok, where w = w and p = "next_job (js_name spec) oc ?p"])
          (auto simp: advance_def Let_def set_worker_def)
    qed
  qed
qed

lemma die_ok: "sched_ok d s \<Longrightarrow> sched_ok d (die w s)"
  by (rule release_ok[where p = "(sc_worker s w)\<lparr>wk_stage := Idle, wk_rest := []\<rparr>"]) (simp_all add: die_def set_worker_def)

lemma sched_step_ok:
  assumes "sched_step d app_step s s'" "sched_ok d s"
  shows "sched_ok d s'"
  using assms
proof (cases rule: sched_step.cases)
  case (time_passes t)
  then show ?thesis by (intro same_held_ok[OF assms(2)]) simp_all
next
  case (elsewhere a)
  then show ?thesis by (intro same_held_ok[OF assms(2)]) simp_all
qed (use assms(2) advance_ok die_ok in simp_all)

lemma sched_steps_ok: "(sched_step d app_step)\<^sup>*\<^sup>* s s' \<Longrightarrow> sched_ok d s \<Longrightarrow> sched_ok d s'"
  by (induction rule: rtranclp_induct) (auto intro: sched_step_ok)

subsection \<open>The history\<close>

text \<open>What was written of a run when it was inserted is never changed, and nothing of a finished
  one is.\<close>

definition as_started :: "job_run \<Rightarrow> job_run" where
  "as_started r = r\<lparr>jr_status := Running, jr_finished_at := None, jr_result := None, jr_error := None\<rparr>"

definition kept_run :: "job_run \<Rightarrow> job_run \<Rightarrow> bool" where
  "kept_run r r' \<longleftrightarrow> as_started r' = as_started r \<and> (jr_finished_at r \<noteq> None \<longrightarrow> r' = r)"

definition history_kept :: "job_run list \<Rightarrow> job_run list \<Rightarrow> bool" where
  "history_kept runs runs' \<longleftrightarrow>
     length runs \<le> length runs' \<and> (\<forall>i < length runs. kept_run (runs ! i) (runs' ! i))"

lemma kept_run_refl [simp]: "kept_run r r"
  by (simp add: kept_run_def)

lemma history_kept_refl [simp]: "history_kept runs runs"
  by (simp add: history_kept_def)

lemma history_kept_trans: "history_kept a b \<Longrightarrow> history_kept b c \<Longrightarrow> history_kept a c"
  by (auto simp: history_kept_def kept_run_def)

lemma history_kept_map: "(\<And>r. r \<in> set runs \<Longrightarrow> kept_run r (g r)) \<Longrightarrow> history_kept runs (map g runs)"
  by (simp add: history_kept_def)

lemma history_kept_snoc: "history_kept runs (runs @ rs)"
  by (simp add: history_kept_def nth_append)

lemma kept_orphan: "run_ok now r \<Longrightarrow> kept_run r (orphan n t r)"
  by (auto simp: kept_run_def orphan_def as_started_def run_ok_def split: option.splits)

lemma kept_record: "jr_finished_at r = None \<Longrightarrow> kept_run r (record_run t res r)"
  by (auto simp: kept_run_def record_run_def as_started_def split: sum.split)

lemma advance_history:
  assumes ok: "sched_ok d s"
  shows "history_kept (sc_runs s) (sc_runs (advance d w s))"
proof (cases "wk_rest (sc_worker s w)")
  case Nil
  then show ?thesis by (cases "wk_stage (sc_worker s w)") (simp_all add: advance_def Let_def)
next
  case (Cons spec rest)
  show ?thesis
  proof (cases "wk_stage (sc_worker s w)")
    case Orphan
    then show ?thesis using Cons sched_okD(2)[OF ok]
      by (auto simp: advance_def Let_def reconcile_orphan_def intro: history_kept_map kept_orphan)
  next
    case Insert
    then show ?thesis using Cons by (simp add: advance_def Let_def history_kept_snoc)
  next
    case (Record i res)
    then have was: "held (sc_worker s w) = Some (js_name spec, Record i res)" using held_Cons[OF Cons] by simp
    obtain q where q: "q \<in> set (sc_runs s)" "jr_id q = i" "jr_finished_at q = None"
      using sched_okD(5)[OF ok was] by (auto simp: execs_ok_def)
    have "kept_run r (if jr_id r = i then record_run (sc_clock s) res r else r)" if r: "r \<in> set (sc_runs s)" for r
      using pk_ok_inj[OF sched_okD(1)[OF ok] r q(1)] q kept_record[of q] by (cases "jr_id r = i") simp_all
    then show ?thesis using Record Cons by (auto simp: advance_def Let_def tupd_def intro: history_kept_map)
  qed (use Cons in \<open>simp_all add: advance_def Let_def split: sum.split\<close>)
qed

lemma sched_step_history:
  assumes "sched_step d app_step s s'" "sched_ok d s"
  shows "history_kept (sc_runs s) (sc_runs s')"
  using assms by (cases rule: sched_step.cases) (use advance_history in \<open>auto simp: die_def\<close>)

lemma sched_steps_history:
  assumes "(sched_step d app_step)\<^sup>*\<^sup>* s s'" "sched_ok d s"
  shows "history_kept (sc_runs s) (sc_runs s')"
  using assms
proof (induction rule: rtranclp_induct)
  case (step t u)
  then show ?case using sched_step_history[OF step.hyps(2) sched_steps_ok[OF step.hyps(1)]] history_kept_trans by blast
qed simp

subsection \<open>A poll nothing interrupts\<close>

text \<open>What one due job does when its lock is free: its orphans are failed, one run is added, the
  body is run and its result recorded.\<close>

definition body_result :: "'app job_spec \<Rightarrow> 'app \<Rightarrow> (string + jdict) \<times> 'app" where
  "body_result spec a = (case js_run spec a of Inl e \<Rightarrow> (Inl e, a) | Inr (v, a') \<Rightarrow> (Inr v, a'))"

definition finished_run :: "'app scheduler \<Rightarrow> nat \<Rightarrow> datetime \<Rightarrow> 'app job_spec \<Rightarrow> 'app sched \<Rightarrow> job_run" where
  "finished_run d w now spec s =
     record_run (sc_clock s) (fst (body_result spec (sc_app s)))
       (mk_run (sc_next s) (js_name spec) now (sc_clock s) (sr_worker_id d w))"

definition after_job :: "'app scheduler \<Rightarrow> nat \<Rightarrow> 'app job_spec \<Rightarrow> 'app sched \<Rightarrow> 'app sched" where
  "after_job d w spec s =
     (let p = sc_worker s w; (res, a) = body_result spec (sc_app s)
      in set_worker w (next_job (js_name spec) (run_outcome res) p)
           (s\<lparr>sc_runs := reconcile_orphan (js_name spec) (sc_clock s) (sc_runs s) @ [finished_run d w (wk_now p) spec s],
              sc_next := Suc (sc_next s), sc_app := a\<rparr>))"

lemma finish_poll_go: "wk_stage (sc_worker s w) \<noteq> Idle \<Longrightarrow> finish_poll d w s = finish_poll d w (advance d w s)"
  by (subst finish_poll.simps) simp

lemma set_worker_set [simp]: "set_worker w q (set_worker w p s) = set_worker w q s"
  by (simp add: set_worker_def)

lemma reconcile_ids: "map jr_id (reconcile_orphan n t runs) = map jr_id runs"
  by (simp add: reconcile_orphan_def orphan_def)

lemma record_new:
  assumes "pk_ok jr_id (jr_id r) runs"
  shows "tupd jr_id (jr_id r) f (runs @ [r]) = runs @ [f r]"
proof -
  have "x \<in> set runs \<Longrightarrow> jr_id x \<noteq> jr_id r" for x using assms by (auto simp: pk_ok_def)
  then show ?thesis by (simp add: tupd_def map_idI)
qed

lemma finish_poll_not_due:
  assumes at: "wk_stage (sc_worker s w) = Check" "wk_rest (sc_worker s w) = spec # rest"
    and due: "\<not> is_due (sc_runs s) spec (wk_now (sc_worker s w))"
  shows "finish_poll d w s = finish_poll d w (set_worker w (next_job (js_name spec) NotDue (sc_worker s w)) s)"
proof -
  have "advance d w s = set_worker w (next_job (js_name spec) NotDue (sc_worker s w)) s"
    using at due by (simp add: advance_def Let_def)
  then show ?thesis using finish_poll_go[of s w d] at(1) by simp
qed

lemma finish_poll_due:
  assumes at: "wk_stage (sc_worker s w) = Check" "wk_rest (sc_worker s w) = spec # rest"
    and due: "is_due (sc_runs s) spec (wk_now (sc_worker s w))"
    and free: "sc_locks s (sr_lock_key d (js_name spec)) = None" and pk: "pk_ok jr_id (sc_next s) (sc_runs s)"
  shows "finish_poll d w s = finish_poll d w (after_job d w spec s)"
proof -
  define p n key rs r where "p = sc_worker s w" and "n = js_name spec" and "key = sr_lock_key d n"
    and "rs = reconcile_orphan n (sc_clock s) (sc_runs s)"
    and "r = mk_run (sc_next s) n (wk_now p) (sc_clock s) (sr_worker_id d w)"
  obtain res a where b: "body_result spec (sc_app s) = (res, a)" by (cases "body_result spec (sc_app s)")
  let ?at = "\<lambda>st s. set_worker w (p\<lparr>wk_stage := st\<rparr>) s"
  define l where "l = (sc_locks s)(key := Some w)"
  let ?s1 = "?at TryLock s"
  let ?s2 = "?at Orphan (s\<lparr>sc_locks := l\<rparr>)"
  let ?s3 = "?at Insert (s\<lparr>sc_locks := l, sc_runs := rs\<rparr>)"
  let ?s4 = "?at (Body (sc_next s)) (s\<lparr>sc_locks := l, sc_runs := rs @ [r], sc_next := Suc (sc_next s)\<rparr>)"
  let ?s5 = "?at (Record (sc_next s) res) (s\<lparr>sc_locks := l, sc_runs := rs @ [r], sc_next := Suc (sc_next s), sc_app := a\<rparr>)"
  let ?s6 = "?at (Unlock (run_outcome res))
      (s\<lparr>sc_locks := l, sc_runs := rs @ [record_run (sc_clock s) res r], sc_next := Suc (sc_next s), sc_app := a\<rparr>)"
  note simps = advance_def Let_def set_worker_def p_def[symmetric] n_def[symmetric] key_def[symmetric] at
  have rest: "wk_rest p = spec # rest" "wk_stage p = Check" using at by (simp_all add: p_def)
  have r: "jr_id r = sc_next s" by (simp add: r_def mk_run_def)
  have "pk_ok jr_id (sc_next s) rs" unfolding rs_def by (rule pk_ok_keys[OF reconcile_ids pk])
  then have rec: "tupd jr_id (sc_next s) f (rs @ [r]) = rs @ [f r]" for f using record_new[of r rs f] r by simp
  have 1: "advance d w s = ?s1" using due rest by (simp add: simps)
  have 2: "advance d w ?s1 = ?s2" using free rest by (simp add: simps l_def)
  have 3: "advance d w ?s2 = ?s3" using rest by (simp add: simps rs_def)
  have 4: "advance d w ?s3 = ?s4" using rest by (simp add: simps r_def)
  have 5: "advance d w ?s4 = ?s5" using rest b by (auto simp: simps body_result_def split: sum.splits)
  have 6: "advance d w ?s5 = ?s6" using rest by (simp add: simps rec)
  have "l(key := None) = sc_locks s" using free by (auto simp: l_def key_def n_def)
  then have 7: "advance d w ?s6 = after_job d w spec s"
    using rest b by (simp add: simps after_job_def finished_run_def rs_def r_def next_job_def)
  show ?thesis
    using finish_poll_go[of s w d] finish_poll_go[of ?s1 w d] finish_poll_go[of ?s2 w d] finish_poll_go[of ?s3 w d]
      finish_poll_go[of ?s4 w d] finish_poll_go[of ?s5 w d] finish_poll_go[of ?s6 w d] at(1)
    unfolding 1 2 3 4 5 6 7 by simp
qed

text \<open>Another job's runs are left alone, so whether it is due does not change.\<close>

definition runs_of :: "string \<Rightarrow> job_run list \<Rightarrow> job_run list" where
  "runs_of n runs = filter (\<lambda>r. jr_job_name r = n) runs"

lemma is_due_runs_of: "runs_of (js_name spec) a = runs_of (js_name spec) b \<Longrightarrow> is_due a spec t = is_due b spec t"
  by (simp add: is_due_def last_run_for_def runs_of_def)

lemma after_job_frame:
  "sc_clock (after_job d w spec s) = sc_clock s" "sc_next (after_job d w spec s) = Suc (sc_next s)"
  "sc_locks (after_job d w spec s) = sc_locks s"
  "sc_worker (after_job d w spec s) w =
     next_job (js_name spec) (run_outcome (fst (body_result spec (sc_app s)))) (sc_worker s w)"
  by (simp_all add: after_job_def Let_def split: prod.split)

lemma after_job_runs:
  "sc_runs (after_job d w spec s) =
     reconcile_orphan (js_name spec) (sc_clock s) (sc_runs s) @ [finished_run d w (wk_now (sc_worker s w)) spec s]"
  by (simp add: after_job_def Let_def split: prod.split)

lemma finished_run_fields:
  "jr_id (finished_run d w now spec s) = sc_next s" "jr_job_name (finished_run d w now spec s) = js_name spec"
  by (simp_all add: finished_run_def record_run_def mk_run_def split: sum.split)

lemma after_job_others: "n \<noteq> js_name spec \<Longrightarrow> runs_of n (sc_runs (after_job d w spec s)) = runs_of n (sc_runs s)"
  unfolding after_job_runs runs_of_def reconcile_orphan_def
  by (simp add: finished_run_fields) (rule filter_map_same, auto simp: orphan_def)

lemma after_job_pk:
  assumes "pk_ok jr_id (sc_next s) (sc_runs s)"
  shows "pk_ok jr_id (sc_next (after_job d w spec s)) (sc_runs (after_job d w spec s))"
  unfolding after_job_frame after_job_runs
  by (rule pk_ok_snoc[OF pk_ok_keys[OF reconcile_ids assms] finished_run_fields(1)])

text \<open>What a poll from \<open>s\<close> to \<open>t\<close> did about one job, and over some jobs.\<close>

definition job_polled ::
  "'app scheduler \<Rightarrow> nat \<Rightarrow> datetime \<Rightarrow> 'app sched \<Rightarrow> (string \<times> outcome) list \<Rightarrow> 'app sched \<Rightarrow> 'app job_spec \<Rightarrow> bool" where
  "job_polled d w now s outs t spec \<longleftrightarrow>
     (if is_due (sc_runs s) spec now
      then \<exists>res i. sc_next s \<le> i \<and> (js_name spec, run_outcome res) \<in> set outs \<and>
        record_run (sc_clock s) res (mk_run i (js_name spec) now (sc_clock s) (sr_worker_id d w)) \<in> set (sc_runs t)
      else (js_name spec, NotDue) \<in> set outs)"

definition polled ::
  "'app scheduler \<Rightarrow> nat \<Rightarrow> datetime \<Rightarrow> 'app job_spec list \<Rightarrow> 'app sched \<Rightarrow> (string \<times> outcome) list \<Rightarrow> 'app sched \<Rightarrow> bool" where
  "polled d w now specs s outs t \<longleftrightarrow>
     map fst outs = map js_name specs \<and> (\<forall>spec \<in> set specs. job_polled d w now s outs t spec) \<and>
     (\<forall>n. (\<forall>spec \<in> set specs. js_name spec = n \<longrightarrow> \<not> is_due (sc_runs s) spec now) \<longrightarrow>
        runs_of n (sc_runs t) = runs_of n (sc_runs s))"

lemma polled_set_worker: "polled d w now specs (set_worker v p s) outs t = polled d w now specs s outs t"
  by (simp only: polled_def job_polled_def set_worker_frame)

lemma job_polled_mono:
  assumes "job_polled d w now u outs t spec" "sc_next s \<le> sc_next u" "sc_clock u = sc_clock s"
    "is_due (sc_runs u) spec now = is_due (sc_runs s) spec now"
  shows "job_polled d w now s (x # outs) t spec"
proof (cases "is_due (sc_runs s) spec now")
  case True
  then obtain res i where "sc_next u \<le> i" "(js_name spec, run_outcome res) \<in> set outs"
      "record_run (sc_clock s) res (mk_run i (js_name spec) now (sc_clock s) (sr_worker_id d w)) \<in> set (sc_runs t)"
    using assms(1,3,4) by (auto simp: job_polled_def)
  then show ?thesis using assms(2) True unfolding job_polled_def by (meson le_trans list.set_intros(2))
next
  case False
  then show ?thesis using assms(1,4) by (simp add: job_polled_def)
qed

lemma poll_all:
  assumes "wk_stage (sc_worker s w) = Check" "wk_rest (sc_worker s w) = specs" "sc_locks s = (\<lambda>_. None)"
    "pk_ok jr_id (sc_next s) (sc_runs s)" "distinct (map js_name specs)"
  shows "\<exists>outs. wk_outcomes (sc_worker (finish_poll d w s) w) = wk_outcomes (sc_worker s w) @ outs \<and>
    polled d w (wk_now (sc_worker s w)) specs s outs (finish_poll d w s) \<and>
    wk_stage (sc_worker (finish_poll d w s) w) = Idle \<and> sc_locks (finish_poll d w s) = (\<lambda>_. None)"
  using assms
proof (induction specs arbitrary: s)
  case Nil
  have "finish_poll d w s = set_worker w ((sc_worker s w)\<lparr>wk_stage := Idle\<rparr>) s"
    using finish_poll_go[of s w d] Nil.prems(1,2) by (simp add: advance_def Let_def finish_poll.simps)
  then show ?case using Nil.prems(3) by (simp add: polled_def)
next
  case (Cons spec specs)
  let ?p = "sc_worker s w"
  have dist: "js_name spec \<notin> js_name ` set specs" "distinct (map js_name specs)" using Cons.prems(5) by auto
  show ?case
  proof (cases "is_due (sc_runs s) spec (wk_now ?p)")
    case False
    let ?u = "set_worker w (next_job (js_name spec) NotDue ?p) s"
    have fp: "finish_poll d w s = finish_poll d w ?u" by (rule finish_poll_not_due[OF Cons.prems(1,2) False])
    obtain outs where o: "wk_outcomes (sc_worker (finish_poll d w ?u) w) = wk_outcomes ?p @ (js_name spec, NotDue) # outs"
      "polled d w (wk_now ?p) specs ?u outs (finish_poll d w ?u)"
      "wk_stage (sc_worker (finish_poll d w ?u) w) = Idle" "sc_locks (finish_poll d w ?u) = (\<lambda>_. None)"
      using Cons.IH[of ?u] Cons.prems dist by (auto simp: next_job_def)
    have "polled d w (wk_now ?p) (spec # specs) s ((js_name spec, NotDue) # outs) (finish_poll d w ?u)"
      using o(2) False job_polled_mono[of d w _ ?u outs _ _ s] by (auto simp: polled_def job_polled_def[of _ _ _ _ _ _ spec])
    then show ?thesis unfolding fp using o by blast
  next
    case True
    let ?u = "after_job d w spec s"
    let ?res = "fst (body_result spec (sc_app s))"
    have fp: "finish_poll d w s = finish_poll d w ?u"
      by (rule finish_poll_due[OF Cons.prems(1,2) True _ Cons.prems(4)]) (use Cons.prems(3) in simp)
    obtain outs where o: "wk_outcomes (sc_worker (finish_poll d w ?u) w) = wk_outcomes ?p @ (js_name spec, run_outcome ?res) # outs"
      "polled d w (wk_now ?p) specs ?u outs (finish_poll d w ?u)"
      "wk_stage (sc_worker (finish_poll d w ?u) w) = Idle" "sc_locks (finish_poll d w ?u) = (\<lambda>_. None)"
      using Cons.IH[of ?u] Cons.prems dist after_job_pk[OF Cons.prems(4), of d w spec]
      by (auto simp: next_job_def after_job_frame)
    have due: "is_due (sc_runs ?u) x t = is_due (sc_runs s) x t" if "x \<in> set specs" for x t
      by (rule is_due_runs_of, rule after_job_others) (use that dist(1) in \<open>metis imageI\<close>)
    have "finished_run d w (wk_now ?p) spec s \<in> set (runs_of (js_name spec) (sc_runs ?u))"
      by (simp add: after_job_runs runs_of_def finished_run_fields)
    moreover have "runs_of (js_name spec) (sc_runs (finish_poll d w ?u)) = runs_of (js_name spec) (sc_runs ?u)"
    proof -
      have "\<forall>x \<in> set specs. js_name x \<noteq> js_name spec" using dist(1) by (metis imageI)
      then show ?thesis using o(2) unfolding polled_def by blast
    qed
    ultimately have "finished_run d w (wk_now ?p) spec s \<in> set (runs_of (js_name spec) (sc_runs (finish_poll d w ?u)))"
      by (simp only:)
    then have mine: "finished_run d w (wk_now ?p) spec s \<in> set (sc_runs (finish_poll d w ?u))" by (simp add: runs_of_def)
    have "polled d w (wk_now ?p) (spec # specs) s ((js_name spec, run_outcome ?res) # outs) (finish_poll d w ?u)"
      unfolding polled_def
    proof (intro conjI ballI allI impI)
      show "map fst ((js_name spec, run_outcome ?res) # outs) = map js_name (spec # specs)" using o(2) by (simp add: polled_def)
    next
      fix x assume x: "x \<in> set (spec # specs)"
      show "job_polled d w (wk_now ?p) s ((js_name spec, run_outcome ?res) # outs) (finish_poll d w ?u) x"
      proof (cases "x = spec")
        case True
        then show ?thesis using mine \<open>is_due (sc_runs s) spec (wk_now ?p)\<close> by (auto simp: job_polled_def finished_run_def)
      next
        case False
        then have "x \<in> set specs" using x by simp
        then show ?thesis using o(2) due after_job_frame[of d w spec s] unfolding polled_def
          by (intro job_polled_mono[of d w _ ?u]) auto
      qed
    next
      fix n assume n: "\<forall>x \<in> set (spec # specs). js_name x = n \<longrightarrow> \<not> is_due (sc_runs s) x (wk_now ?p)"
      then have "n \<noteq> js_name spec" using True by auto
      moreover have "runs_of n (sc_runs (finish_poll d w ?u)) = runs_of n (sc_runs ?u)"
        using o(2) n due unfolding polled_def by auto
      ultimately show "runs_of n (sc_runs (finish_poll d w ?u)) = runs_of n (sc_runs s)"
        by (simp add: after_job_others)
    qed
    then show ?thesis unfolding fp using o by blast
  qed
qed

end
