(* ===== verification/Scheduled_Reviews.thy ===== *)
theory Scheduled_Reviews
  imports Scheduler_Facts App_Requests
begin

section \<open>The jobs of the reviews under the scheduler\<close>

text \<open>
  The two jobs of the registry whose bodies are modelled, with every request of the application
  running next to them. What a failing body raises is told by its text, a parameter.
\<close>

definition open_job :: "deployment \<Rightarrow> (review_error \<Rightarrow> string) \<Rightarrow> review_db job_spec" where
  "open_job d message =
     \<lparr>js_name = ''review_cycle_open'', js_interval = micros_per_day,
      js_run = (\<lambda>s. case review_cycle_open (dp_public_url d) (dp_send d) s of
        Inl e \<Rightarrow> Inl (message e)
      | Inr s' \<Rightarrow> Inr ([(''cycles_opened'', JInt (int (length (orgs_due_for_review_cycle_open s))))], s'))\<rparr>"

definition sweep_job :: "deployment \<Rightarrow> (review_error \<Rightarrow> string) \<Rightarrow> review_db job_spec" where
  "sweep_job d message =
     \<lparr>js_name = ''review_cycle_sweep'', js_interval = micros_per_day,
      js_run = (\<lambda>s. case review_cycle_sweep (dp_public_url d) (dp_send d) (dp_coll d) s of
        Inl e \<Rightarrow> Inl (message e)
      | Inr ((reminders, notifications, closed), s') \<Rightarrow>
          Inr ([(''reminders_sent'', JInt (int reminders)), (''notifications_sent'', JInt (int notifications)),
                (''cycles_closed'', JInt (int closed))], s'))\<rparr>"

definition review_scheduler ::
  "deployment \<Rightarrow> (review_error \<Rightarrow> string) \<Rightarrow> (string \<Rightarrow> int) \<Rightarrow> (nat \<Rightarrow> string) \<Rightarrow> review_db scheduler" where
  "review_scheduler d message key worker_id =
     \<lparr>sr_registry = [open_job d message, sweep_job d message], sr_lock_key = key, sr_worker_id = worker_id\<rparr>"

text \<open>A body that returns is one step of the application.\<close>

lemma review_job_step:
  assumes "spec \<in> {open_job d message, sweep_job d message}" "js_run spec s = Inr (v, s')"
  shows "\<exists>r. s' = app_step d s r"
proof -
  consider "spec = open_job d message" | "spec = sweep_job d message" using assms(1) by blast
  then show ?thesis
  proof cases
    case 1
    then have "s' = app_step d s OpenDueJob" using assms(2) by (auto simp: open_job_def app_step_def split: sum.splits)
    then show ?thesis by blast
  next
    case 2
    then have "s' = app_step d s SweepJob" using assms(2) by (auto simp: sweep_job_def app_step_def split: sum.splits)
    then show ?thesis by blast
  qed
qed

text \<open>The jobs a process has still to do are registered.\<close>

definition registered :: "'app scheduler \<Rightarrow> 'app sched \<Rightarrow> bool" where
  "registered d s \<longleftrightarrow> (\<forall>w. set (wk_rest (sc_worker s w)) \<subseteq> set (sr_registry d))"

lemma advance_registered:
  assumes "registered d s"
  shows "registered d (advance d w s)"
proof -
  have r: "set (wk_rest (sc_worker s v)) \<subseteq> set (sr_registry d)" for v using assms by (simp add: registered_def)
  have "wk_rest (sc_worker (advance d w s) v) \<in>
      {wk_rest (sc_worker s v), tl (wk_rest (sc_worker s v)), sr_registry d}" for v
    by (cases "wk_stage (sc_worker s w)"; cases "wk_rest (sc_worker s w)")
      (auto simp: advance_def Let_def next_job_def split: sum.split)
  moreover have "set (tl (wk_rest (sc_worker s v))) \<subseteq> set (sr_registry d)" for v
    using r[of v] by (cases "wk_rest (sc_worker s v)") auto
  ultimately show ?thesis using r unfolding registered_def by (metis (no_types, lifting) empty_iff insert_iff order_refl)
qed

lemma advance_app:
  "sc_app (advance d w s) = sc_app s \<or>
   (\<exists>spec \<in> set (wk_rest (sc_worker s w)). \<exists>v. js_run spec (sc_app s) = Inr (v, sc_app (advance d w s)))"
  by (cases "wk_stage (sc_worker s w)"; cases "wk_rest (sc_worker s w)")
    (auto simp: advance_def Let_def split: sum.split)

definition any_request :: "deployment \<Rightarrow> review_db \<Rightarrow> review_db \<Rightarrow> bool" where
  "any_request d s s' \<longleftrightarrow> (\<exists>r. s' = app_step d s r)"

lemma reviews_step:
  assumes "reviewed_ok s"
  shows "reviewed_ok (app_step d s r) \<and> keeps_closed s (app_step d s r)"
  using app_run[OF assms, of d "[r]"] by simp

text \<open>Under any schedule, with any requests in between, the application's invariant holds and
  closed cycles stay closed.\<close>

lemma scheduled_reviews:
  assumes "(sched_step (review_scheduler d message key worker_id) (any_request d))\<^sup>*\<^sup>* s s'"
    "registered (review_scheduler d message key worker_id) s" "reviewed_ok (sc_app s)"
  shows "reviewed_ok (sc_app s') \<and> keeps_closed (sc_app s) (sc_app s') \<and>
    registered (review_scheduler d message key worker_id) s'"
  using assms
proof (induction rule: rtranclp_induct)
  case base
  then show ?case by simp
next
  case (step t u)
  let ?d = "review_scheduler d message key worker_id"
  have t: "reviewed_ok (sc_app t)" "keeps_closed (sc_app s) (sc_app t)" "registered ?d t" using step.IH step.prems by blast+
  have one: "reviewed_ok b \<and> keeps_closed (sc_app s) b" if "b = sc_app t \<or> (\<exists>r. b = app_step d (sc_app t) r)" for b
    using that t reviews_step[OF t(1)] keeps_closed_trans[OF t(2)] by auto
  from step.hyps(2) show ?case
  proof (cases rule: sched_step.cases)
    case (goes_on w)
    have "set (wk_rest (sc_worker t w)) \<subseteq> {open_job d message, sweep_job d message}"
      using t(3) by (auto simp: registered_def review_scheduler_def)
    then have "sc_app u = sc_app t \<or> (\<exists>r. sc_app u = app_step d (sc_app t) r)"
      using advance_app[of ?d w t] review_job_step[of _ d message "sc_app t"] unfolding goes_on by blast
    then show ?thesis using one[of "sc_app u"] advance_registered[OF t(3)] unfolding goes_on by blast
  next
    case (dies w)
    then show ?thesis using t by (simp add: die_def registered_def)
  next
    case (time_passes now)
    then show ?thesis using t by (simp add: registered_def)
  next
    case (elsewhere a)
    then show ?thesis using one[of a] t(3) by (auto simp: any_request_def registered_def)
  qed
qed

end
