(* ===== verification/Scheduler_Properties.thy ===== *)
theory Scheduler_Properties
  imports Scheduled_Reviews Review_Example
begin

section \<open>Properties of the scheduler\<close>

text \<open>
  However the processes interleave and die, the runs of a job follow one another; a poll runs what
  is due; and the jobs of the reviews keep the application's invariant under any schedule. The last
  lemma shows that a job can run twice within its interval.
\<close>

text \<open>C39. However many processes poll, in whatever order their stages interleave, and whichever of
  them die: two processes are never inside one job, a run of a job that started later started after
  the earlier one was finished, a run is marked running exactly as long as it has no end, and
  nothing of a finished run is ever changed.\<close>

theorem one_run_at_a_time:
  assumes "sched_ok d s" "(sched_step d other)\<^sup>*\<^sup>* s s'"
  shows "(\<forall>w w' n st st'. held (sc_worker s' w) = Some (n, st) \<and> held (sc_worker s' w') = Some (n, st') \<longrightarrow> w = w') \<and>
    (\<forall>r \<in> set (sc_runs s'). \<forall>r' \<in> set (sc_runs s'). jr_job_name r = jr_job_name r' \<and> jr_id r < jr_id r' \<longrightarrow>
       (\<exists>f. jr_finished_at r = Some f \<and> f \<le> jr_started_at r')) \<and>
    (\<forall>r \<in> set (sc_runs s'). jr_status r = Running \<longleftrightarrow> jr_finished_at r = None) \<and>
    history_kept (sc_runs s) (sc_runs s')"
proof -
  have ok: "sched_ok d s'" by (rule sched_steps_ok[OF assms(2,1)])
  have "w = w'" if "held (sc_worker s' w) = Some (n, st)" "held (sc_worker s' w') = Some (n, st')" for w w' n st st'
    using held_once[OF ok that] by simp
  moreover have "\<exists>f. jr_finished_at r = Some f \<and> f \<le> jr_started_at r'"
    if "r \<in> set (sc_runs s')" "r' \<in> set (sc_runs s')" "jr_job_name r = jr_job_name r'" "jr_id r < jr_id r'" for r r'
    by (rule followsD[OF sched_okD(3)[OF ok] that])
  moreover have "jr_status r = Running \<longleftrightarrow> jr_finished_at r = None" if "r \<in> set (sc_runs s')" for r
    using sched_okD(2)[OF ok that] by (auto simp: run_ok_def split: option.splits if_splits)
  ultimately show ?thesis using sched_steps_history[OF assms(2,1)] by blast
qed

text \<open>A deployment with one job, whose body counts, and two processes.\<close>

definition counting :: "nat scheduler" where
  "counting = \<lparr>sr_registry = [\<lparr>js_name = ''j'', js_interval = micros_per_day, js_run = (\<lambda>n. Inr ([], Suc n))\<rparr>],
     sr_lock_key = (\<lambda>_. 7), sr_worker_id = (\<lambda>_. ''w'')\<rparr>"

definition fresh :: "nat sched" where
  "fresh = \<lparr>sc_clock = t0, sc_next = 0, sc_runs = [], sc_locks = (\<lambda>_. None),
     sc_worker = (\<lambda>_. \<lparr>wk_stage = Idle, wk_now = t0, wk_rest = [], wk_outcomes = []\<rparr>), sc_app = 0\<rparr>"

lemma fresh_ok: "sched_ok counting fresh"
  by (simp add: sched_ok_def fresh_def follows_def locks_ok_def held_def)

text \<open>Both look before either takes the lock; the first dies in its body, the second goes on.\<close>

definition raced :: "nat sched" where
  "raced = foldl (\<lambda>s w. advance counting w s)
     (die 0 (foldl (\<lambda>s w. advance counting w s) fresh [0, 1, 0, 1, 0, 0, 0, 0])) [1, 1, 1, 1, 1, 1]"

lemma advances: "(sched_step d r)\<^sup>*\<^sup>* s (foldl (\<lambda>s w. advance d w s) s ws)"
proof (induction ws arbitrary: s)
  case (Cons w ws)
  have "sched_step d r s (advance d w s)" by (rule goes_on)
  then show ?case using Cons.IH[of "advance d w s"] by (auto intro: converse_rtranclp_into_rtranclp)
qed simp

lemma raced_reachable: "(sched_step counting (\<lambda>_ _. False))\<^sup>*\<^sup>* fresh raced"
proof -
  let ?t = "foldl (\<lambda>s w. advance counting w s) fresh [0, 1, 0, 1, 0, 0, 0, 0]"
  have "(sched_step counting (\<lambda>_ _. False))\<^sup>*\<^sup>* fresh (die 0 ?t)"
    by (rule rtranclp.rtrancl_into_rtrancl[OF advances dies])
  then show ?thesis unfolding raced_def using advances by (rule rtranclp_trans)
qed

theorem one_run_at_a_time_witness:
  "history_kept (sc_runs fresh) (sc_runs raced) \<and>
   list_all (\<lambda>r. jr_status r = Running \<longleftrightarrow> jr_finished_at r = None) (sc_runs raced) \<and>
   map jr_status (sc_runs raced) = [Failed, Succeeded]"
proof -
  have "map jr_status (sc_runs raced) = [Failed, Succeeded]" by code_simp
  then show ?thesis unfolding list_all_iff using one_run_at_a_time[OF fresh_ok raced_reachable] by blast
qed

text \<open>C40. A poll ends and runs what is due: a poll that nothing interrupts and
  whose locks are free returns one outcome for every registered job, in their order; each job that
  was due has a new run, started and finished by this poll and saying what its body returned or
  raised; a job that was not due has none, and the runs of no other job change.\<close>

theorem poll_runs_what_is_due:
  assumes "sched_ok d s" "wk_stage (sc_worker s w) = Idle" "sc_locks s = (\<lambda>_. None)"
    "distinct (map js_name (sr_registry d))" "run_due_jobs d w s = (outs, t)"
  shows "polled d w (sc_clock s) (sr_registry d) s outs t \<and> wk_stage (sc_worker t w) = Idle \<and> sc_locks t = (\<lambda>_. None)"
proof -
  let ?p = "(sc_worker s w)\<lparr>wk_stage := Check, wk_now := sc_clock s, wk_rest := sr_registry d, wk_outcomes := []\<rparr>"
  have a: "advance d w s = set_worker w ?p s" using assms(2) by (simp add: advance_def Let_def)
  have t: "t = finish_poll d w (set_worker w ?p s)" "outs = wk_outcomes (sc_worker t w)"
    using assms(5) by (auto simp: run_due_jobs_def Let_def a)
  have pk: "pk_ok jr_id (sc_next s) (sc_runs s)" by (rule sched_okD(1)[OF assms(1)])
  from poll_all[of "set_worker w ?p s" w "sr_registry d" d] assms(3,4) pk
  show ?thesis unfolding t by (simp add: polled_set_worker)
qed

theorem poll_runs_what_is_due_witness:
  "\<exists>res i. record_run t0 res (mk_run i ''j'' t0 t0 ''w'') \<in> set (sc_runs (snd (run_due_jobs counting 0 fresh)))"
proof -
  have p: "run_due_jobs counting 0 fresh =
    (fst (run_due_jobs counting 0 fresh), snd (run_due_jobs counting 0 fresh))" by simp
  have h: "wk_stage (sc_worker fresh 0) = Idle" "sc_locks fresh = (\<lambda>_. None)"
    "distinct (map js_name (sr_registry counting))" by (simp_all add: fresh_def counting_def)
  let ?j = "hd (sr_registry counting)"
  have j: "?j \<in> set (sr_registry counting)" "is_due (sc_runs fresh) ?j (sc_clock fresh)" "js_name ?j = ''j''"
    "sc_clock fresh = t0" "sr_worker_id counting 0 = ''w''"
    by (simp_all add: counting_def fresh_def is_due_def last_run_for_def)
  have "job_polled counting 0 (sc_clock fresh) fresh (fst (run_due_jobs counting 0 fresh))
      (snd (run_due_jobs counting 0 fresh)) ?j"
    using poll_runs_what_is_due[OF fresh_ok h p] j(1) unfolding polled_def by blast
  then show ?thesis unfolding job_polled_def using j by auto
qed

text \<open>The registry's own jobs: whatever the schedule, the processes that die and the requests
  served in between, the reviews' invariant holds and what is closed stays closed.\<close>

theorem scheduled_jobs_keep_reviews:
  assumes "(sched_step (review_scheduler d message key worker_id) (any_request d))\<^sup>*\<^sup>* s s'"
    "registered (review_scheduler d message key worker_id) s" "reviewed_ok (sc_app s)"
  shows "reviewed_ok (sc_app s') \<and> keeps_closed (sc_app s) (sc_app s')"
  using scheduled_reviews[OF assms] by blast

text \<open>Whether a job is due is decided before its lock is taken and not again after, so two
  processes that both found it due run it one after the other, at one instant.\<close>

lemma runs_twice:
  "let s = foldl (\<lambda>s w. advance counting w s) fresh [0, 1, 0, 1, 0, 0, 0, 0, 0, 0, 1, 1, 1, 1, 1, 1]
   in map jr_status (sc_runs s) = [Succeeded, Succeeded] \<and> map jr_started_at (sc_runs s) = [t0, t0] \<and> sc_app s = 2"
  by code_simp

end
