(* ===== verification/Documents.thy ===== *)
theory Documents
  imports Assessment_Api Reconcile
begin

section \<open>Document control\<close>

text \<open>
  \<open>backend/app/document_reviews.py\<close> and the document half of
  \<open>backend/app/routers/documents.py\<close>: policies and procedures with their versions, who
  approved them when, and when the next approval falls due. A version is written once; it is a
  draft until it is published, which names the contact that approved it, and superseded when a
  later version of the document is. \<open>document_db\<close> is the assessments' database with the
  tables of the documents; a request's body comes after the checks of its schema, which are the
  \<open>check_\<close> definitions.
\<close>

subsection \<open>Tables\<close>

datatype doc_type = Policy | Procedure | Plan | DocBaseline | DocList | Sop | Form | OtherDoc

fun doc_type_value :: "doc_type \<Rightarrow> string" where
  "doc_type_value Policy = ''policy''"
| "doc_type_value Procedure = ''procedure''"
| "doc_type_value Plan = ''plan''"
| "doc_type_value DocBaseline = ''baseline''"
| "doc_type_value DocList = ''list''"
| "doc_type_value Sop = ''sop''"
| "doc_type_value Form = ''form''"
| "doc_type_value OtherDoc = ''other''"

datatype version_status = Draft | UnderReview | Approved | Superseded

fun version_status_value :: "version_status \<Rightarrow> string" where
  "version_status_value Draft = ''draft''"
| "version_status_value UnderReview = ''under_review''"
| "version_status_value Approved = ''approved''"
| "version_status_value Superseded = ''superseded''"

record document =
  dc_id :: uuid
  dc_org_id :: uuid
  dc_doc_id :: string
  dc_type :: doc_type
  dc_title :: string
  dc_cadence :: int
  dc_current :: "uuid option"

record doc_version =
  dv_id :: uuid
  dv_document_id :: uuid
  dv_org_id :: uuid
  dv_number :: nat
  dv_status :: version_status
  dv_body :: "string option"
  dv_approved_at :: "datetime option"
  dv_approver :: "uuid option"
  dv_published :: "uuid list option"

record doc_tag =
  dg_id :: uuid
  dg_document_id :: uuid
  dg_org_id :: uuid
  dg_objective_id :: uuid

datatype approval_type = Initial | Reaffirmation

record approval =
  da_id :: uuid
  da_document_id :: uuid
  da_version_id :: uuid
  da_org_id :: uuid
  da_type :: approval_type
  da_at :: datetime
  da_contact :: "uuid option"
  da_name :: string
  da_note :: "string option"

record document_db =
  dd_api :: assessment_db
  t_document :: "document list"
  t_docversion :: "doc_version list"
  t_doctag :: "doc_tag list"
  t_approval :: "approval list"

abbreviation dd_db :: "document_db \<Rightarrow> db" where "dd_db s \<equiv> ad_db (dd_api s)"

definition with_db :: "db \<Rightarrow> document_db \<Rightarrow> document_db" where
  "with_db u s = s\<lparr>dd_api := (dd_api s)\<lparr>ad_db := u\<rparr>\<rparr>"

abbreviation new_row :: "document_db \<Rightarrow> uuid" where "new_row s \<equiv> next_id (dd_db s)"

definition take_row :: "document_db \<Rightarrow> document_db" where
  "take_row s = with_db ((dd_db s)\<lparr>next_id := Suc (next_id (dd_db s))\<rparr>) s"

abbreviation get_doc :: "uuid \<Rightarrow> document_db \<Rightarrow> document option" where
  "get_doc i s \<equiv> tget dc_id i (t_document s)"
abbreviation get_docversion :: "uuid \<Rightarrow> document_db \<Rightarrow> doc_version option" where
  "get_docversion i s \<equiv> tget dv_id i (t_docversion s)"
abbreviation get_contact :: "uuid \<Rightarrow> document_db \<Rightarrow> contact option" where
  "get_contact i s \<equiv> tget co_id i (t_contact (dd_db s))"

definition versions_of :: "uuid \<Rightarrow> document_db \<Rightarrow> doc_version list" where
  "versions_of document_id s = filter (\<lambda>v. dv_document_id v = document_id) (t_docversion s)"

definition update_version :: "uuid \<Rightarrow> (doc_version \<Rightarrow> doc_version) \<Rightarrow> document_db \<Rightarrow> document_db" where
  "update_version i f s = s\<lparr>t_docversion := tupd dv_id i f (t_docversion s)\<rparr>"

definition update_document :: "uuid \<Rightarrow> (document \<Rightarrow> document) \<Rightarrow> document_db \<Rightarrow> document_db" where
  "update_document i f s = s\<lparr>t_document := tupd dc_id i f (t_document s)\<rparr>"

definition log_doc ::
  "uuid \<Rightarrow> string \<Rightarrow> string \<Rightarrow> uuid \<Rightarrow> jdict option \<Rightarrow> jdict option \<Rightarrow> jdict \<Rightarrow> document_db \<Rightarrow> document_db" where
  "log_doc org_id action entity i before after ctx s =
     with_db (log_event_as None None (Some org_id) action entity i before after (Some ctx) (dd_db s)) s"

definition via_api :: jdict where "via_api = [(''via'', JStr ''api'')]"

subsection \<open>The review cadence\<close>

definition DUE_SOON_DAYS :: int where "DUE_SOON_DAYS = 30"

datatype verdict = NeverApproved | Current | DueSoon | Overdue

record review_state =
  rvw_status :: verdict
  rvw_last :: "datetime option"
  rvw_next :: "datetime option"
  rvw_days :: "int option"

definition needs_attention :: "review_state \<Rightarrow> bool" where
  "needs_attention r \<longleftrightarrow> rvw_status r \<in> {NeverApproved, DueSoon, Overdue}"

text \<open>A due date past the year 9999 cannot be written: \<open>datetime.replace\<close> raises, and so
  does everything that asks for the verdict.\<close>

definition review_state_at :: "datetime option \<Rightarrow> int \<Rightarrow> datetime \<Rightarrow> review_state option" where
  "review_state_at last_approved_at cadence_months now =
     (case last_approved_at of
        None \<Rightarrow> Some \<lparr>rvw_status = NeverApproved, rvw_last = None, rvw_next = None, rvw_days = None\<rparr>
      | Some approved \<Rightarrow>
          if cadence_months \<le> 0
          then Some \<lparr>rvw_status = Current, rvw_last = Some approved, rvw_next = None, rvw_days = None\<rparr>
          else
            let next_due = add_months approved cadence_months;
                remaining = instant next_due - instant now
            in if dt_year next_due > 9999 then None
               else Some \<lparr>rvw_status = (if now \<ge> next_due then Overdue
                       else if remaining \<le> DUE_SOON_DAYS * micros_per_day then DueSoon else Current),
                    rvw_last = Some approved, rvw_next = Some next_due,
                    rvw_days = Some (remaining div micros_per_day)\<rparr>)"

text \<open>\<open>ORDER BY approved_at DESC, id DESC LIMIT 1\<close>.\<close>

definition later_approval :: "approval \<Rightarrow> approval \<Rightarrow> bool" where
  "later_approval a b \<longleftrightarrow> da_at b < da_at a \<or> (da_at a = da_at b \<and> da_id b < da_id a)"

fun newest_approval :: "approval list \<Rightarrow> approval option" where
  "newest_approval [] = None"
| "newest_approval (a # as) =
     (case newest_approval as of None \<Rightarrow> Some a | Some b \<Rightarrow> Some (if later_approval a b then a else b))"

definition latest_approval :: "uuid \<Rightarrow> document_db \<Rightarrow> approval option" where
  "latest_approval document_id s =
     newest_approval (filter (\<lambda>a. da_document_id a = document_id) (t_approval s))"

definition document_verdict :: "document \<Rightarrow> datetime \<Rightarrow> document_db \<Rightarrow> review_state option" where
  "document_verdict d now s =
     review_state_at (map_option da_at (latest_approval (dc_id d) s)) (dc_cadence d) now"

fun severity :: "verdict \<Rightarrow> nat" where
  "severity Overdue = 0"
| "severity NeverApproved = 1"
| "severity DueSoon = 2"
| "severity Current = 3"

fun due_documents :: "datetime \<Rightarrow> document_db \<Rightarrow> document list \<Rightarrow> (document \<times> review_state) list option" where
  "due_documents now s [] = Some []"
| "due_documents now s (d # ds) =
     (case document_verdict d now s of None \<Rightarrow> None | Some r \<Rightarrow>
      case due_documents now s ds of None \<Rightarrow> None | Some out \<Rightarrow>
        Some (if needs_attention r then (d, r) # out else out))"

definition documents_needing_attention ::
  "uuid \<Rightarrow> datetime \<Rightarrow> document_db \<Rightarrow> (document \<times> review_state) list option" where
  "documents_needing_attention org_id now s =
     map_option (sort_key (\<lambda>(d, r). (severity (rvw_status r), dc_doc_id d)))
       (due_documents now s (sort_key dc_doc_id (filter (\<lambda>d. dc_org_id d = org_id) (t_document s))))"

subsection \<open>What a request may say\<close>

text \<open>The validators of the request schemas; a body one of them rejects is answered 422 with the
  list of its errors, of which the model keeps only that it is invalid.\<close>

definition word_char :: "char \<Rightarrow> bool" where
  "word_char c \<longleftrightarrow> CHR ''0'' \<le> c \<and> c \<le> CHR ''9'' \<or> CHR ''A'' \<le> c \<and> c \<le> CHR ''Z'' \<or> CHR ''a'' \<le> c \<and> c \<le> CHR ''z''"

fun two_dots :: "string \<Rightarrow> bool" where
  "two_dots (a # b # s) \<longleftrightarrow> (a = CHR ''.'' \<and> b = CHR ''.'') \<or> two_dots (b # s)"
| "two_dots s \<longleftrightarrow> False"

definition check_doc_id :: "string \<Rightarrow> string option" where
  "check_doc_id v =
     (let v = py_strip v in
      if 2 \<le> length v \<and> length v \<le> 60 \<and> word_char (hd v) \<and> word_char (last v) \<and>
         list_all (\<lambda>c. word_char c \<or> c \<in> set ''._-'') v \<and> \<not> two_dots v
      then Some v else None)"

definition check_doc_type :: "string \<Rightarrow> doc_type option" where
  "check_doc_type = of_value doc_type_value [Policy, Procedure, Plan, DocBaseline, Sop, Form, OtherDoc]"

definition check_cadence :: "int \<Rightarrow> int option" where
  "check_cadence v = (if v < 1 then None else Some v)"

definition check_title :: "string \<Rightarrow> string option" where
  "check_title v = (let v = py_strip v in if v = '''' then None else Some v)"

definition check_manual_status :: "string \<Rightarrow> version_status option" where
  "check_manual_status = of_value version_status_value [Draft, UnderReview]"

definition manual :: "version_status \<Rightarrow> bool" where
  "manual st \<longleftrightarrow> st \<in> {Draft, UnderReview}"

subsection \<open>Creating and editing\<close>

record resting_link =
  rl_version :: nat
  rl_objective :: string
  rl_assessment :: string

datatype doc_error =
    DocRefused nat string
  | EditConflict uuid "uuid option" "nat option"
  | TagRefused string string "resting_link list"
  | DocUncaught string

definition own_document :: "uuid \<Rightarrow> uuid \<Rightarrow> document_db \<Rightarrow> doc_error + document" where
  "own_document org_id document_id s =
     (case get_doc document_id s of
        None \<Rightarrow> Inl (DocRefused 404 ''Document not found'')
      | Some d \<Rightarrow> if dc_org_id d \<noteq> org_id then Inl (DocRefused 404 ''Document not found'') else Inr d)"

text \<open>A new version row, which becomes the document's current one.\<close>

definition new_version :: "uuid \<Rightarrow> uuid \<Rightarrow> nat \<Rightarrow> string option \<Rightarrow> document_db \<Rightarrow> uuid \<times> document_db" where
  "new_version org_id document_id number body s =
     (let i = new_row s;
          v = \<lparr>dv_id = i, dv_document_id = document_id, dv_org_id = org_id, dv_number = number,
               dv_status = Draft, dv_body = body, dv_approved_at = None, dv_approver = None,
               dv_published = None\<rparr>;
          s1 = take_row s
      in (i, update_document document_id (\<lambda>d. d\<lparr>dc_current := Some i\<rparr>)
               (s1\<lparr>t_docversion := t_docversion s1 @ [v]\<rparr>)))"

definition create_document ::
  "uuid \<Rightarrow> string \<Rightarrow> string \<Rightarrow> string \<Rightarrow> int \<Rightarrow> string option \<Rightarrow> document_db \<Rightarrow> doc_error + document_db" where
  "create_document org_id doc_id doc_type title cadence body s =
     (case (check_doc_id doc_id, check_doc_type doc_type, check_title title, check_cadence cadence) of
        (Some key, Some ty, Some name, Some months) \<Rightarrow>
          if list_ex (\<lambda>d. dc_org_id d = org_id \<and> dc_doc_id d = key) (t_document s)
          then Inl (DocRefused 409 (''doc_id '' @ py_repr_str key @ '' already exists for this org''))
          else
            let i = new_row s;
                d = \<lparr>dc_id = i, dc_org_id = org_id, dc_doc_id = key, dc_type = ty, dc_title = name,
                     dc_cadence = months, dc_current = None\<rparr>;
                s1 = take_row s;
                s2 = snd (new_version org_id i 1 body (s1\<lparr>t_document := t_document s1 @ [d]\<rparr>))
            in Inr (log_doc org_id ''document.create'' ''document'' i None
                 (Some [(''doc_id'', JStr key), (''title'', JStr name)]) via_api s2)
      | _ \<Rightarrow> Inl (DocRefused 422 ''invalid document''))"

text \<open>A field of a patch: not given, given as null, or given. Null passes the schema's checks and
  fails the column's.\<close>

type_synonym 'a patch_field = "'a option option"

definition checked :: "('a \<Rightarrow> 'b option) \<Rightarrow> 'a patch_field \<Rightarrow> 'b patch_field option" where
  "checked f x = (case x of None \<Rightarrow> Some None | Some None \<Rightarrow> Some (Some None)
     | Some (Some v) \<Rightarrow> map_option (\<lambda>w. Some (Some w)) (f v))"

definition given :: "string \<Rightarrow> ('a \<Rightarrow> jval) \<Rightarrow> 'a patch_field \<Rightarrow> jdict" where
  "given key f x = (case x of Some (Some v) \<Rightarrow> [(key, f v)] | _ \<Rightarrow> [])"

definition or_old :: "'a patch_field \<Rightarrow> 'a \<Rightarrow> 'a" where
  "or_old x old = (case x of Some (Some v) \<Rightarrow> v | _ \<Rightarrow> old)"

definition patch_document ::
  "uuid \<Rightarrow> uuid \<Rightarrow> string patch_field \<Rightarrow> string patch_field \<Rightarrow> int patch_field \<Rightarrow> document_db
     \<Rightarrow> doc_error + document_db" where
  "patch_document org_id document_id title doc_type cadence s =
     (case (checked check_title title, checked check_doc_type doc_type, checked check_cadence cadence) of
        (Some title, Some ty, Some cadence) \<Rightarrow>
          (case own_document org_id document_id s of Inl e \<Rightarrow> Inl e | Inr d \<Rightarrow>
           if title = None \<and> ty = None \<and> cadence = None then Inr s
           else if title = Some None \<or> ty = Some None \<or> cadence = Some None
           then Inl (DocUncaught ''NOT NULL'')
           else
             Inr (log_doc org_id ''document.update'' ''document'' document_id
               (Some [(''title'', JStr (dc_title d)), (''doc_type'', JStr (doc_type_value (dc_type d))),
                  (''cadence_months'', JInt (dc_cadence d))])
               (Some (given ''title'' JStr title @ given ''doc_type'' (\<lambda>t. JStr (doc_type_value t)) ty @
                  given ''cadence_months'' JInt cadence)) via_api
               (update_document document_id (\<lambda>r. r\<lparr>dc_title := or_old title (dc_title r),
                  dc_type := or_old ty (dc_type r), dc_cadence := or_old cadence (dc_cadence r)\<rparr>) s)))
      | _ \<Rightarrow> Inl (DocRefused 422 ''invalid patch''))"

text \<open>The versions, tags and approvals of a document go with it.\<close>

definition delete_document :: "uuid \<Rightarrow> uuid \<Rightarrow> document_db \<Rightarrow> doc_error + document_db" where
  "delete_document org_id document_id s =
     (case own_document org_id document_id s of Inl e \<Rightarrow> Inl e | Inr d \<Rightarrow>
      if list_ex (\<lambda>e. list_ex (\<lambda>v. ev_source_document_version e = Some (dv_id v)) (versions_of document_id s))
           (t_evidence (dd_db s))
      then Inl (DocRefused 409 (''This document has been published, and its evidence record keeps it '' @
        ''-- it cannot be deleted.''))
      else
        let s1 = log_doc org_id ''document.delete'' ''document'' document_id
              (Some [(''doc_id'', JStr (dc_doc_id d)), (''title'', JStr (dc_title d))]) None via_api s
        in Inr (s1\<lparr>t_document := filter (\<lambda>r. dc_id r \<noteq> document_id) (t_document s1),
             t_docversion := filter (\<lambda>r. dv_document_id r \<noteq> document_id) (t_docversion s1),
             t_doctag := filter (\<lambda>r. dg_document_id r \<noteq> document_id) (t_doctag s1),
             t_approval := filter (\<lambda>r. da_document_id r \<noteq> document_id) (t_approval s1)\<rparr>))"

definition max_version :: "uuid \<Rightarrow> document_db \<Rightarrow> nat" where
  "max_version document_id s = foldr max (map dv_number (versions_of document_id s)) 0"

definition create_document_version ::
  "uuid \<Rightarrow> uuid \<Rightarrow> string option \<Rightarrow> uuid option \<Rightarrow> document_db \<Rightarrow> doc_error + document_db" where
  "create_document_version org_id document_id body base s =
     (case own_document org_id document_id s of Inl e \<Rightarrow> Inl e | Inr d \<Rightarrow>
      let m = max_version document_id s in
      if m \<noteq> 0 \<and> base = None then Inl (DocRefused 422 (''base_version_id is required -- it names the version this edit started '' @
        ''from, so a concurrent save can be detected rather than silently lost.''))
      else if base \<noteq> None \<and> dc_current d \<noteq> base
      then Inl (EditConflict (the base) (dc_current d)
        (case dc_current d of None \<Rightarrow> None | Some i \<Rightarrow> map_option dv_number (get_docversion i s)))
      else
        let (i, s1) = new_version org_id document_id (Suc m) body s
        in Inr (log_doc org_id ''document.version.create'' ''document_version'' i None
             (Some [(''doc_id'', JStr (dc_doc_id d)), (''version_number'', JInt (int (Suc m)))]) via_api s1))"

definition patch_document_version_status ::
  "uuid \<Rightarrow> uuid \<Rightarrow> uuid \<Rightarrow> string \<Rightarrow> document_db \<Rightarrow> doc_error + document_db" where
  "patch_document_version_status org_id document_id version_id body_status s =
     (case check_manual_status body_status of None \<Rightarrow>
        Inl (DocRefused 422 (''status must be '' @ py_repr_str ''draft'' @ '' or '' @ py_repr_str ''under_review'' @
          '' -- '' @ py_repr_str ''approved'' @ '' is set only by POST .../publish, '' @ py_repr_str ''superseded'' @
          '' is never set manually''))
      | Some st \<Rightarrow>
      case own_document org_id document_id s of Inl e \<Rightarrow> Inl e | Inr d \<Rightarrow>
      case get_docversion version_id s of None \<Rightarrow> Inl (DocRefused 404 ''Version not found'') | Some v \<Rightarrow>
      if dv_document_id v \<noteq> document_id then Inl (DocRefused 404 ''Version not found'')
      else if dc_current d \<noteq> Some version_id
      then Inl (DocRefused 409 (''Only the current version'' @ [CHR 0x27] @ ''s status can be changed directly''))
      else if \<not> manual (dv_status v)
      then Inl (DocRefused 409 (''Cannot manually change status away from '' @ py_repr_str (version_status_value (dv_status v))))
      else Inr (log_doc org_id ''document.version.status_change'' ''document_version'' version_id
        (Some [(''status'', JStr (version_status_value (dv_status v)))])
        (Some [(''status'', JStr (version_status_value st))]) via_api
        (update_version version_id (\<lambda>r. r\<lparr>dv_status := st\<rparr>) s)))"

subsection \<open>Approval\<close>

definition record_approval ::
  "document \<Rightarrow> uuid \<Rightarrow> contact \<Rightarrow> approval_type \<Rightarrow> string option \<Rightarrow> document_db \<Rightarrow> approval \<times> document_db" where
  "record_approval d version_id c ty note s =
     (let a = \<lparr>da_id = new_row s, da_document_id = dc_id d, da_version_id = version_id,
               da_org_id = dc_org_id d, da_type = ty, da_at = clock (dd_db s), da_contact = Some (co_id c),
               da_name = co_name c, da_note = note\<rparr>;
          s1 = take_row s
      in (a, s1\<lparr>t_approval := t_approval s1 @ [a]\<rparr>))"

definition supersede_others :: "uuid \<Rightarrow> uuid \<Rightarrow> document_db \<Rightarrow> document_db" where
  "supersede_others document_id version_id s =
     s\<lparr>t_docversion := map (\<lambda>v. if dv_document_id v = document_id \<and> dv_id v \<noteq> version_id \<and> dv_status v = Approved
       then v\<lparr>dv_status := Superseded\<rparr> else v) (t_docversion s)\<rparr>"

definition document_tags :: "uuid \<Rightarrow> document_db \<Rightarrow> uuid list" where
  "document_tags document_id s =
     map dg_objective_id (filter (\<lambda>g. dg_document_id g = document_id) (t_doctag s))"

definition document_evidence_row :: "uuid \<Rightarrow> uuid \<Rightarrow> document \<Rightarrow> uuid \<Rightarrow> datetime \<Rightarrow> evidence" where
  "document_evidence_row i org_id d version_id collected =
     \<lparr>ev_id = i, ev_org_id = org_id, ev_title = dc_title d, ev_description = None, ev_kind = ''reference'',
      ev_artifact_type = ''document'', ev_storage_key = None, ev_mime_type = None, ev_file_size = None,
      ev_collected_at = collected, ev_source_document_version = Some version_id,
      ev_source_list_version = None, ev_source_review_cycle = None\<rparr>"

definition add_document_evidence ::
  "uuid \<Rightarrow> document \<Rightarrow> uuid \<Rightarrow> datetime \<Rightarrow> document_db \<Rightarrow> evidence \<times> document_db" where
  "add_document_evidence org_id d version_id collected s =
     (let e = document_evidence_row (new_row s) org_id d version_id collected;
          u = dd_db (take_row s)
      in (e, with_db (u\<lparr>t_evidence := t_evidence u @ [e]\<rparr>) s))"

definition publish_document :: "uuid \<Rightarrow> uuid \<Rightarrow> uuid \<Rightarrow> document_db \<Rightarrow> doc_error + document_db" where
  "publish_document org_id document_id contact_id s =
     (case own_document org_id document_id s of Inl e \<Rightarrow> Inl e | Inr d \<Rightarrow>
      case dc_current d of None \<Rightarrow> Inl (DocRefused 422 ''Document has no version to publish'') | Some vid \<Rightarrow>
      case get_docversion vid s of None \<Rightarrow> Inl (DocUncaught ''AttributeError'') | Some v \<Rightarrow>
      if \<not> manual (dv_status v)
      then Inl (DocRefused 409 (''Cannot publish a version with status '' @ py_repr_str (version_status_value (dv_status v))))
      else case get_contact contact_id s of
        None \<Rightarrow> Inl (DocRefused 422 ''approved_by_contact_id must be a contact in this org'')
      | Some c \<Rightarrow>
        if co_org_id c \<noteq> org_id then Inl (DocRefused 422 ''approved_by_contact_id must be a contact in this org'')
        else
          let now = clock (dd_db s);
              s1 = update_version vid (\<lambda>r. r\<lparr>dv_status := Approved, dv_approved_at := Some now,
                     dv_approver := Some contact_id\<rparr>) s;
              s2 = snd (record_approval d vid c Initial None s1);
              s3 = supersede_others document_id vid s2;
              tags = sort (document_tags document_id s3);
              s4 = update_version vid (\<lambda>r. r\<lparr>dv_published := Some tags\<rparr>) s3;
              (e, s5) = add_document_evidence org_id d vid now s4
          in Inr (log_doc org_id ''document.publish'' ''document_version'' vid None
               (Some [(''doc_id'', JStr (dc_doc_id d)), (''version_number'', JInt (int (dv_number v))),
                  (''approved_by_contact_id'', JUuid contact_id), (''evidence_id'', JUuid (ev_id e)),
                  (''tagged_objectives'', JInt (int (length tags)))]) via_api s5))"

text \<open>The approved version with the highest number.\<close>

fun highest :: "doc_version list \<Rightarrow> doc_version option" where
  "highest [] = None"
| "highest (v # vs) =
     (case highest vs of None \<Rightarrow> Some v
      | Some w \<Rightarrow> Some (if dv_number w < dv_number v \<or> (dv_number w = dv_number v \<and> dv_id w < dv_id v) then v else w))"

definition approved_version :: "uuid \<Rightarrow> document_db \<Rightarrow> doc_version option" where
  "approved_version document_id s =
     highest (filter (\<lambda>v. dv_status v = Approved) (versions_of document_id s))"

definition reaffirm ::
  "uuid \<Rightarrow> uuid \<Rightarrow> uuid \<Rightarrow> string option \<Rightarrow> document_db \<Rightarrow> doc_error + approval \<times> document_db" where
  "reaffirm org_id document_id contact_id note s =
     (case own_document org_id document_id s of Inl e \<Rightarrow> Inl e | Inr d \<Rightarrow>
      case approved_version document_id s of
        None \<Rightarrow> Inl (DocRefused 409 ''Document has no approved version to reaffirm -- publish it first'')
      | Some v \<Rightarrow>
      case get_contact contact_id s of
        None \<Rightarrow> Inl (DocRefused 422 ''approved_by_contact_id must be a contact in this org'')
      | Some c \<Rightarrow>
        if co_org_id c \<noteq> org_id then Inl (DocRefused 422 ''approved_by_contact_id must be a contact in this org'')
        else Inr (record_approval d (dv_id v) c Reaffirmation note s))"

definition reaffirm_document ::
  "uuid \<Rightarrow> uuid \<Rightarrow> uuid \<Rightarrow> string option \<Rightarrow> document_db \<Rightarrow> doc_error + document_db" where
  "reaffirm_document org_id document_id contact_id note s =
     (case reaffirm org_id document_id contact_id note s of Inl e \<Rightarrow> Inl e | Inr (a, s1) \<Rightarrow>
      case get_doc document_id s1 of None \<Rightarrow> Inl (DocRefused 404 ''Document not found'') | Some d \<Rightarrow>
        Inr (log_doc org_id ''document.reaffirm'' ''document'' document_id None None
          [(''doc_id'', JStr (dc_doc_id d)), (''document_version_id'', JUuid (da_version_id a)),
           (''approver_name'', JStr (da_name a)), (''approved_by_contact_id'', jopt_uuid (da_contact a)),
           (''cadence_months'', JInt (dc_cadence d))] s1))"

end
