(* ===== verification/Document_Evidence.thy ===== *)
theory Document_Evidence
  imports Documents
begin

section \<open>Documents as evidence\<close>

text \<open>
  \<open>backend/app/document_evidence.py\<close>, with the tag endpoints of
  \<open>routers/documents.py\<close> and the endpoints of \<open>routers/document_evidence.py\<close>: a
  published document is offered on the objectives it is tagged with, a person attaches it, moves
  it forward to the approved version, and takes it off. Then every request of the document control
  as the steps of one machine, together with those of the assessment endpoints it shares a
  database with.
\<close>

subsection \<open>Practice keys\<close>

definition FAMILIES :: "string list" where
  "FAMILIES = [''AC'', ''AT'', ''AU'', ''CM'', ''IA'', ''IR'', ''MA'', ''MP'', ''PS'', ''PE'', ''RA'', ''CA'', ''SC'', ''SI'']"

definition REQUIREMENTS :: "nat list" where
  "REQUIREMENTS = [22, 3, 9, 9, 11, 3, 6, 9, 2, 6, 3, 4, 16, 7]"

definition is_digit :: "char \<Rightarrow> bool" where
  "is_digit c \<longleftrightarrow> CHR ''0'' \<le> c \<and> c \<le> CHR ''9''"

definition is_letter :: "char \<Rightarrow> bool" where
  "is_letter c \<longleftrightarrow> word_char c \<and> \<not> is_digit c"

definition upper_char :: "char \<Rightarrow> char" where
  "upper_char c = (if CHR ''a'' \<le> c \<and> c \<le> CHR ''z'' then char_of (of_char c - 32 :: nat) else c)"

definition digits_value :: "string \<Rightarrow> nat" where
  "digits_value s = foldl (\<lambda>n c. 10 * n + (of_char c - 48)) 0 s"

text \<open>\<open>(\d{1,2})\<close> as the whole of a text.\<close>

definition small_number :: "string \<Rightarrow> nat option" where
  "small_number s = (if 1 \<le> length s \<and> length s \<le> 2 \<and> list_all is_digit s then Some (digits_value s) else None)"

text \<open>\<open>(?:([A-Za-z]{2})\.L2-)?\<close>, whatever the case: the family, if there is one, and the
  rest.\<close>

definition split_family :: "string \<Rightarrow> string \<times> string" where
  "split_family s =
     (if 6 \<le> length s \<and> list_all is_letter (take 2 s) \<and> map upper_char (take 4 (drop 2 s)) = ''.L2-''
      then (map upper_char (take 2 s), drop 6 s) else ('''', s))"

definition parse_practice :: "string \<Rightarrow> (string \<times> nat \<times> nat) option" where
  "parse_practice s =
     (case split_family s of (fam, rest) \<Rightarrow>
      if take 2 rest \<noteq> ''3.'' then None
      else
        let body = drop 2 rest; mid = takeWhile (\<lambda>c. c \<noteq> CHR ''.'') body; end = dropWhile (\<lambda>c. c \<noteq> CHR ''.'') body
        in case (small_number mid, small_number (drop 1 end)) of
             (Some m, Some l) \<Rightarrow> if end = [] then None else Some (fam, m, l)
           | _ \<Rightarrow> None)"

definition practice_name :: "nat \<Rightarrow> nat \<Rightarrow> string" where
  "practice_name m l = FAMILIES ! (m - 1) @ ''.L2-3.'' @ str_nat m @ ''.'' @ str_nat l"

definition practice_key :: "string \<Rightarrow> string option" where
  "practice_key text =
     (case parse_practice (py_strip text) of None \<Rightarrow> None | Some (fam, m, l) \<Rightarrow>
      if \<not> (1 \<le> m \<and> m \<le> 14 \<and> 1 \<le> l \<and> l \<le> REQUIREMENTS ! (m - 1)) then None
      else if fam \<noteq> '''' \<and> fam \<noteq> FAMILIES ! (m - 1) then None
      else Some (practice_name m l))"

text \<open>\<open>_OBJECTIVE_SUFFIX\<close> on a stripped text: what precedes a last \<open>[letters]\<close>,
  and the letters.\<close>

definition split_objective :: "string \<Rightarrow> (string \<times> string) option" where
  "split_objective raw =
     (if raw = '''' \<or> last raw \<noteq> CHR '']'' then None
      else
        let r = rev (butlast raw); inner = py_strip (rev (takeWhile (\<lambda>c. c \<noteq> CHR ''['') r));
            before = dropWhile (\<lambda>c. c \<noteq> CHR ''['') r
        in if before = [] \<or> \<not> (1 \<le> length inner \<and> length inner \<le> 5 \<and> list_all word_char inner) then None
           else Some (rev (tl before), inner))"

subsection \<open>Tags\<close>

type_synonym tagged = "uuid \<times> string"

definition full_key :: "string \<Rightarrow> string \<Rightarrow> string" where
  "full_key control objective = control @ ''['' @ objective @ '']''"

definition objective_named :: "objective \<Rightarrow> db \<Rightarrow> tagged" where
  "objective_named ob u =
     (ob_id ob, full_key (case get_control (ob_control_id ob) u of None \<Rightarrow> ''None'' | Some c \<Rightarrow> c_control_id c)
        (ob_key ob))"

definition practice_rows :: "uuid \<Rightarrow> string \<Rightarrow> string option \<Rightarrow> db \<Rightarrow> (objective \<times> uuid) list" where
  "practice_rows org_id practice letter u =
     (let rows = sort_key (\<lambda>(ob, fw). (ob_key ob, ob_id ob))
            (map (\<lambda>(ob, c). (ob, c_framework_id c))
              (filter (\<lambda>(ob, c). c_control_id c = practice)
                (join_on (\<lambda>ob. get_control (ob_control_id ob) u) (t_objective u))));
          assessed = map a_framework_id (filter (\<lambda>a. a_org_id a = org_id) (t_assessment u));
          rows1 = (if assessed = [] then rows else filter (\<lambda>(ob, fw). fw \<in> set assessed) rows)
      in case letter of None \<Rightarrow> rows1 | Some k \<Rightarrow> filter (\<lambda>(ob, fw). ob_key ob = k) rows1)"

definition resolve_tag_key :: "uuid \<Rightarrow> string \<Rightarrow> db \<Rightarrow> doc_error + tagged list" where
  "resolve_tag_key org_id typed u =
     (let raw = py_strip typed;
          (text, letter) = (case split_objective raw of None \<Rightarrow> (raw, None) | Some (p, k) \<Rightarrow> (p, Some (py_lower k)))
      in case practice_key text of
           None \<Rightarrow> Inl (DocRefused 422 (py_repr_str raw @ '' is not an objective or practice like AC.L2-3.1.1[a] or 3.1.1''))
         | Some practice \<Rightarrow>
             let rows = practice_rows org_id practice letter u in
             if rows = [] then Inl (DocRefused 422 (py_repr_str raw @ '': '' @
               (case letter of None \<Rightarrow> practice | Some k \<Rightarrow> full_key practice k) @ '' is not in the catalog''))
             else if list_ex (\<lambda>r. snd r \<noteq> snd (hd rows)) rows
             then Inl (DocRefused 422 (py_repr_str raw @ '' matches '' @ practice @ '' in more than one framework''))
             else Inr (map (\<lambda>(ob, fw). (ob_id ob, full_key practice (ob_key ob))) rows))"

definition wanted_tags :: "uuid \<Rightarrow> uuid option \<Rightarrow> string option \<Rightarrow> db \<Rightarrow> doc_error + tagged list" where
  "wanted_tags org_id objective_id objective_key u =
     (case (objective_id, objective_key) of
        (None, Some typed) \<Rightarrow> resolve_tag_key org_id typed u
      | (Some i, None) \<Rightarrow>
          (case get_objective i u of None \<Rightarrow> Inl (DocRefused 422 ''Unknown objective_id'') | Some ob \<Rightarrow>
           Inr [objective_named ob u])
      | _ \<Rightarrow> Inl (DocRefused 422 ''give objective_id or objective_key, not both''))"

definition add_tag :: "uuid \<Rightarrow> uuid \<Rightarrow> string option \<Rightarrow> document_db \<Rightarrow> tagged \<Rightarrow> document_db" where
  "add_tag org_id document_id typed s t =
     (let i = new_row s; s1 = take_row s;
          s2 = s1\<lparr>t_doctag := t_doctag s1 @ [\<lparr>dg_id = i, dg_document_id = document_id, dg_org_id = org_id,
             dg_objective_id = fst t\<rparr>]\<rparr>
      in log_doc org_id ''document.objective_tag.add'' ''document'' document_id None
           (Some [(''objective_id'', JUuid (fst t)), (''objective_key'', JStr (snd t))])
           (via_api @ [(''typed'', jopt_str typed)]) s2)"

definition add_objective_tag ::
  "uuid \<Rightarrow> uuid \<Rightarrow> uuid option \<Rightarrow> string option \<Rightarrow> document_db \<Rightarrow> doc_error + document_db" where
  "add_objective_tag org_id document_id objective_id objective_key s =
     (case own_document org_id document_id s of Inl e \<Rightarrow> Inl e | Inr d \<Rightarrow>
      case wanted_tags org_id objective_id objective_key (dd_db s) of Inl e \<Rightarrow> Inl e | Inr wanted \<Rightarrow>
        let have = document_tags document_id s
        in Inr (foldl (add_tag org_id document_id objective_key) s
             (filter (\<lambda>t. fst t \<notin> set have) wanted)))"

text \<open>A link with the version of a document its artifact is, for every live one.\<close>

definition live_document_links :: "document_db \<Rightarrow> (state_link \<times> doc_version) list" where
  "live_document_links s =
     join_on (\<lambda>l. case get_evidence (ln_evidence_id l) (dd_db s) of None \<Rightarrow> None | Some e \<Rightarrow>
         case ev_source_document_version e of None \<Rightarrow> None | Some i \<Rightarrow> get_docversion i s)
       (filter (\<lambda>l. \<not> ln_is_archived l) (t_link (dd_db s)))"

definition live_for :: "uuid \<Rightarrow> uuid \<Rightarrow> document_db \<Rightarrow> (state_link \<times> doc_version) list" where
  "live_for state_id document_id s =
     sort_key (\<lambda>(l, v). (dv_number v, ln_id l))
       (filter (\<lambda>(l, v). ln_state_id l = state_id \<and> dv_document_id v = document_id) (live_document_links s))"

definition tag_removal_links :: "uuid \<Rightarrow> uuid \<Rightarrow> document_db \<Rightarrow> resting_link list" where
  "tag_removal_links document_id objective_id s =
     map snd (sort_key fst (List.map_filter (\<lambda>(l, v).
       if dv_document_id v \<noteq> document_id then None
       else case get_state (ln_state_id l) (dd_db s) of None \<Rightarrow> None | Some cs \<Rightarrow>
         if cs_objective_id cs \<noteq> objective_id then None
         else case link_where (cs_id cs) (dd_db s) of None \<Rightarrow> None | Some (control, key, _, name) \<Rightarrow>
           Some ((name, dv_number v, ln_id l),
             \<lparr>rl_version = dv_number v, rl_objective = full_key control key, rl_assessment = name\<rparr>))
       (live_document_links s)))"

definition remove_objective_tag :: "uuid \<Rightarrow> uuid \<Rightarrow> uuid \<Rightarrow> document_db \<Rightarrow> doc_error + document_db" where
  "remove_objective_tag org_id document_id objective_id s =
     (case own_document org_id document_id s of Inl e \<Rightarrow> Inl e | Inr d \<Rightarrow>
      if \<not> list_ex (\<lambda>g. dg_document_id g = document_id \<and> dg_objective_id g = objective_id) (t_doctag s)
      then Inl (DocRefused 404 ''Tag not found'')
      else case get_objective objective_id (dd_db s) of None \<Rightarrow> Inl (DocUncaught ''AttributeError'') | Some ob \<Rightarrow>
        let named = objective_named ob (dd_db s); links = tag_removal_links document_id objective_id s in
        if links \<noteq> [] then Inl (TagRefused (dc_doc_id d) (snd named) links)
        else Inr (log_doc org_id ''document.objective_tag.remove'' ''document'' document_id
          (Some [(''objective_id'', JUuid objective_id), (''objective_key'', JStr (snd named))])
          None via_api
          (s\<lparr>t_doctag := filter (\<lambda>g. \<not> (dg_document_id g = document_id \<and> dg_objective_id g = objective_id))
             (t_doctag s)\<rparr>)))"

subsection \<open>Attaching\<close>

text \<open>\<open>LookupError\<close> becomes 404 and \<open>DocumentLinkRefused\<close> 409.\<close>

definition state_of ::
  "uuid \<Rightarrow> uuid \<Rightarrow> uuid \<Rightarrow> db \<Rightarrow> doc_error + control_state" where
  "state_of org_id assessment_id cs_i u =
     (case get_assessment assessment_id u of None \<Rightarrow> Inl (DocRefused 404 ''Assessment not found'') | Some a \<Rightarrow>
      if a_org_id a \<noteq> org_id then Inl (DocRefused 404 ''Assessment not found'')
      else case get_state cs_i u of None \<Rightarrow> Inl (DocRefused 404 ''Control state not found'') | Some cs \<Rightarrow>
        if cs_assessment_id cs \<noteq> assessment_id then Inl (DocRefused 404 ''Control state not found'') else Inr cs)"

definition control_key_for :: "control_state \<Rightarrow> db \<Rightarrow> (string \<times> string) option" where
  "control_key_for cs u =
     (case get_objective (cs_objective_id cs) u of None \<Rightarrow> None | Some ob \<Rightarrow>
      map_option (\<lambda>c. (c_control_id c, ob_key ob)) (get_control (ob_control_id ob) u))"

definition is_tagged :: "uuid \<Rightarrow> control_state \<Rightarrow> document_db \<Rightarrow> bool" where
  "is_tagged document_id cs s \<longleftrightarrow>
     list_ex (\<lambda>g. dg_document_id g = document_id \<and> dg_objective_id g = cs_objective_id cs) (t_doctag s)"

record offer =
  of_document :: document
  of_version :: doc_version
  of_control :: string
  of_objective :: string

definition linked_document :: "uuid \<Rightarrow> uuid \<Rightarrow> document_db \<Rightarrow> doc_error + document" where
  "linked_document org_id document_id s =
     (case get_doc document_id s of None \<Rightarrow> Inl (DocRefused 404 ''document not found'') | Some d \<Rightarrow>
      if dc_org_id d \<noteq> org_id then Inl (DocRefused 404 ''document not found'') else Inr d)"

definition offerable :: "uuid \<Rightarrow> control_state \<Rightarrow> uuid \<Rightarrow> document_db \<Rightarrow> doc_error + offer" where
  "offerable org_id cs document_id s =
     (case linked_document org_id document_id s of Inl e \<Rightarrow> Inl e | Inr d \<Rightarrow>
      case control_key_for cs (dd_db s) of None \<Rightarrow> Inl (DocUncaught ''NoResultFound'') | Some (control, key) \<Rightarrow>
      if \<not> is_tagged document_id cs s
      then Inl (DocRefused 409 (''this document is not tagged with '' @ full_key control key @
        ''; a document is evidence only for the objectives it is tagged with. Tag it first, if it serves '' @
        ''this objective''))
      else case approved_version document_id s of
        None \<Rightarrow> Inl (DocRefused 409 (''not offered as evidence: no version of it has been approved yet. '' @
          ''Publish one first''))
      | Some v \<Rightarrow> Inr \<lparr>of_document = d, of_version = v, of_control = control, of_objective = key\<rparr>)"

text \<open>The artifact of a version, written again where it is missing.\<close>

definition evidence_for :: "uuid \<Rightarrow> document \<Rightarrow> doc_version \<Rightarrow> document_db \<Rightarrow> evidence \<times> document_db" where
  "evidence_for org_id d v s =
     (case find (\<lambda>e. ev_org_id e = org_id \<and> ev_source_document_version e = Some (dv_id v)) (t_evidence (dd_db s)) of
        Some e \<Rightarrow> (e, s)
      | None \<Rightarrow> add_document_evidence org_id d (dv_id v)
          (case dv_approved_at v of None \<Rightarrow> clock (dd_db s) | Some t \<Rightarrow> t) s)"

text \<open>\<open>list_evidence.live_link_row\<close>.\<close>

definition live_link_row :: "evidence \<Rightarrow> control_state \<Rightarrow> db \<Rightarrow> db" where
  "live_link_row e cs u =
     (case find (\<lambda>l. ln_evidence_id l = ev_id e \<and> ln_state_id l = cs_id cs) (t_link u) of
        Some l \<Rightarrow> update_link (ln_id l) restore u
      | None \<Rightarrow> u\<lparr>next_id := Suc (next_id u),
          t_link := t_link u @ [new_link (next_id u) (ev_id e) (cs_id cs)]\<rparr>)"

definition audit_link ::
  "uuid \<Rightarrow> string \<Rightarrow> control_state \<Rightarrow> document \<Rightarrow> doc_version \<Rightarrow> string \<Rightarrow> string \<Rightarrow> jdict \<Rightarrow> document_db \<Rightarrow> document_db" where
  "audit_link org_id action cs d v control key extra s =
     log_doc org_id action ''document_version'' (dv_id v) None
       (Some ([(''document_id'', JUuid (dc_id d)), (''doc_id'', JStr (dc_doc_id d)),
          (''version_number'', JInt (int (dv_number v))), (''control_state_id'', JUuid (cs_id cs)),
          (''assessment_id'', JUuid (cs_assessment_id cs)),
          (''assessment_name'', JStr (case get_assessment (cs_assessment_id cs) (dd_db s) of
             None \<Rightarrow> '''' | Some a \<Rightarrow> a_name a)),
          (''control_key'', JStr control), (''objective_key'', JStr key)] @ extra))
       (via_api @ [(''assessment_id'', JUuid (cs_assessment_id cs))]) s"

definition attach_version :: "uuid \<Rightarrow> control_state \<Rightarrow> offer \<Rightarrow> document_db \<Rightarrow> document_db" where
  "attach_version org_id cs ofr s =
     (let (e, s1) = evidence_for org_id (of_document ofr) (of_version ofr) s
      in with_db (live_link_row e cs (dd_db s1)) s1)"

definition link_document :: "uuid \<Rightarrow> uuid \<Rightarrow> uuid \<Rightarrow> uuid \<Rightarrow> document_db \<Rightarrow> doc_error + document_db" where
  "link_document org_id assessment_id cs_i document_id s =
     (case state_of org_id assessment_id cs_i (dd_db s) of Inl e \<Rightarrow> Inl e | Inr cs \<Rightarrow>
      case offerable org_id cs document_id s of Inl e \<Rightarrow> Inl e | Inr ofr \<Rightarrow>
      let v = of_version ofr in
      case live_for cs_i document_id s of
        (_, lv) # _ \<Rightarrow>
          if dv_id lv = dv_id v
          then Inl (DocRefused 409 (''version '' @ str_nat (dv_number v) @ '' is already attached here''))
          else Inl (DocRefused 409 (''version '' @ str_nat (dv_number lv) @
            '' is attached here; move it forward to version '' @ str_nat (dv_number v) @ '' instead''))
      | [] \<Rightarrow> Inr (audit_link org_id ''evidence.document_link'' cs (of_document ofr) v (of_control ofr)
          (of_objective ofr) [] (attach_version org_id cs ofr s)))"

definition archive_moved :: "datetime \<Rightarrow> document_db \<Rightarrow> state_link \<times> doc_version \<Rightarrow> document_db" where
  "archive_moved now s x = with_db (update_link (ln_id (fst x)) (archive_row MOVED_FORWARD now None None) (dd_db s)) s"

definition move_document_forward :: "uuid \<Rightarrow> uuid \<Rightarrow> uuid \<Rightarrow> uuid \<Rightarrow> document_db \<Rightarrow> doc_error + document_db" where
  "move_document_forward org_id assessment_id cs_i document_id s =
     (case state_of org_id assessment_id cs_i (dd_db s) of Inl e \<Rightarrow> Inl e | Inr cs \<Rightarrow>
      case offerable org_id cs document_id s of Inl e \<Rightarrow> Inl e | Inr ofr \<Rightarrow>
      let v = of_version ofr; old = live_for cs_i document_id s in
      if old = [] then Inl (DocRefused 409 ''this document is not attached here'')
      else if list_ex (\<lambda>(_, lv). dv_id lv = dv_id v) old
      then Inl (DocRefused 409 (''already at version '' @ str_nat (dv_number v)))
      else
        let s1 = foldl (archive_moved (clock (dd_db s))) s old
        in Inr (audit_link org_id ''evidence.document_move_forward'' cs (of_document ofr) v (of_control ofr)
             (of_objective ofr)
             [(''from_version_numbers'', JList (map (\<lambda>n. JInt (int n)) (sort (map (\<lambda>(_, lv). dv_number lv) old))))]
             (attach_version org_id cs ofr s1)))"

definition unlink_one ::
  "uuid \<Rightarrow> control_state \<Rightarrow> document \<Rightarrow> string \<Rightarrow> string \<Rightarrow> string \<Rightarrow> datetime \<Rightarrow> document_db \<Rightarrow> state_link \<times> doc_version
     \<Rightarrow> document_db" where
  "unlink_one org_id cs d control key who now s x =
     audit_link org_id ''evidence.document_unlink'' cs d (snd x) control key []
       (with_db (update_link (ln_id (fst x)) (archive_row DETACHED now None (Some who)) (dd_db s)) s)"

definition unlink_document ::
  "uuid \<Rightarrow> uuid \<Rightarrow> uuid \<Rightarrow> uuid \<Rightarrow> string \<Rightarrow> document_db \<Rightarrow> doc_error + document_db" where
  "unlink_document org_id assessment_id cs_i document_id saved_by s =
     (case state_of org_id assessment_id cs_i (dd_db s) of Inl e \<Rightarrow> Inl e | Inr cs \<Rightarrow>
      case linked_document org_id document_id s of Inl e \<Rightarrow> Inl e | Inr d \<Rightarrow>
      let live = live_for cs_i document_id s in
      if live = [] then Inl (DocRefused 404 ''this document is not attached here'')
      else case control_key_for cs (dd_db s) of None \<Rightarrow> Inl (DocUncaught ''NoResultFound'') | Some (control, key) \<Rightarrow>
        Inr (foldl (unlink_one org_id cs d control key saved_by (clock (dd_db s))) s live))"

subsection \<open>The requests\<close>

datatype doc_request =
    AssessmentRequest api_request
  | CreateDocument uuid string string string int "string option"
  | PatchDocument uuid uuid "string patch_field" "string patch_field" "int patch_field"
  | DeleteDocument uuid uuid
  | SaveVersion uuid uuid "string option" "uuid option"
  | PatchVersion uuid uuid uuid string
  | AddTags uuid uuid "uuid option" "string option"
  | RemoveTag uuid uuid uuid
  | Publish uuid uuid uuid
  | Reaffirm uuid uuid uuid "string option"
  | LinkDocument uuid uuid uuid uuid
  | MoveForward uuid uuid uuid uuid
  | UnlinkDocument uuid uuid uuid uuid string
  | AtTime datetime

datatype request_error = ApiError api_error | DocError doc_error

fun serve_doc :: "doc_request \<Rightarrow> document_db \<Rightarrow> request_error + document_db" where
  "serve_doc (AssessmentRequest r) s = map_sum ApiError (\<lambda>u. s\<lparr>dd_api := u\<rparr>) (serve_api r (dd_api s))"
| "serve_doc (CreateDocument org_id key ty title cadence body) s =
     map_sum DocError id (create_document org_id key ty title cadence body s)"
| "serve_doc (PatchDocument org_id i title ty cadence) s = map_sum DocError id (patch_document org_id i title ty cadence s)"
| "serve_doc (DeleteDocument org_id i) s = map_sum DocError id (delete_document org_id i s)"
| "serve_doc (SaveVersion org_id i body base) s = map_sum DocError id (create_document_version org_id i body base s)"
| "serve_doc (PatchVersion org_id i v st) s = map_sum DocError id (patch_document_version_status org_id i v st s)"
| "serve_doc (AddTags org_id i ob key) s = map_sum DocError id (add_objective_tag org_id i ob key s)"
| "serve_doc (RemoveTag org_id i ob) s = map_sum DocError id (remove_objective_tag org_id i ob s)"
| "serve_doc (Publish org_id i c) s = map_sum DocError id (publish_document org_id i c s)"
| "serve_doc (Reaffirm org_id i c note) s = map_sum DocError id (reaffirm_document org_id i c note s)"
| "serve_doc (LinkDocument org_id aid cs i) s = map_sum DocError id (link_document org_id aid cs i s)"
| "serve_doc (MoveForward org_id aid cs i) s = map_sum DocError id (move_document_forward org_id aid cs i s)"
| "serve_doc (UnlinkDocument org_id aid cs i who) s = map_sum DocError id (unlink_document org_id aid cs i who s)"
| "serve_doc (AtTime t) s = Inr (with_db ((dd_db s)\<lparr>clock := t\<rparr>) s)"

definition run_doc :: "doc_request list \<Rightarrow> document_db \<Rightarrow> document_db" where
  "run_doc rs s = foldl (\<lambda>s r. case serve_doc r s of Inl e \<Rightarrow> s | Inr s' \<Rightarrow> s') s rs"

end
