(* ===== verification/Document_Facts.thy ===== *)
theory Document_Facts
  imports Document_Evidence Assessment_Api_Facts Evidence_Properties Review_Facts
begin

section \<open>The invariant of the documents\<close>

text \<open>
  What holds of the documents' tables between requests, and what every operation keeps of them.
  A version that is a draft has no approval and no artifact; one that is published has exactly one
  initial approval, which its own columns repeat, and an artifact; a document has at most one
  approved version, the latest it published. Only versions that were published are approved again,
  so approvals and published versions are never deleted.
\<close>

definition source_versions :: "db \<Rightarrow> uuid set" where
  "source_versions u = set (List.map_filter ev_source_document_version (t_evidence u))"

lemma source_versions_eq: "source_versions u = {i. \<exists>e \<in> set (t_evidence u). ev_source_document_version e = Some i}"
  by (force simp: source_versions_def List.map_filter_def image_iff)

definition doc_keys :: "document_db \<Rightarrow> bool" where
  "doc_keys s \<longleftrightarrow>
     pk_ok dc_id (new_row s) (t_document s) \<and> distinct (map (\<lambda>d. (dc_org_id d, dc_doc_id d)) (t_document s)) \<and>
     pk_ok dv_id (new_row s) (t_docversion s) \<and>
     distinct (map (\<lambda>v. (dv_document_id v, dv_number v)) (t_docversion s)) \<and>
     pk_ok dg_id (new_row s) (t_doctag s) \<and>
     distinct (map (\<lambda>g. (dg_document_id g, dg_objective_id g)) (t_doctag s)) \<and>
     pk_ok da_id (new_row s) (t_approval s)"

text \<open>The document's current version is its newest.\<close>

definition current_ok :: "doc_version set \<Rightarrow> document \<Rightarrow> bool" where
  "current_ok V d \<longleftrightarrow> (\<exists>v \<in> V. dc_current d = Some (dv_id v) \<and> dv_document_id v = dc_id d \<and>
     (\<forall>w \<in> V. dv_document_id w = dc_id d \<longrightarrow> dv_number w \<le> dv_number v))"

definition unpublished :: "doc_version \<Rightarrow> bool" where
  "unpublished v \<longleftrightarrow> dv_approved_at v = None \<and> dv_approver v = None \<and> dv_published v = None"

definition initial_approval :: "doc_version \<Rightarrow> approval \<Rightarrow> bool" where
  "initial_approval v a \<longleftrightarrow> da_type a = Initial \<and> da_version_id a = dv_id v \<and>
     dv_approved_at v = Some (da_at a) \<and> dv_approver v = da_contact a"

definition version_ok :: "approval set \<Rightarrow> uuid set \<Rightarrow> doc_version \<Rightarrow> bool" where
  "version_ok A P v \<longleftrightarrow>
     (if manual (dv_status v) then unpublished v
      else (\<exists>a \<in> A. initial_approval v a) \<and> dv_published v \<noteq> None \<and> dv_id v \<in> P)"

definition approval_ok :: "doc_version set \<Rightarrow> approval \<Rightarrow> bool" where
  "approval_ok V a \<longleftrightarrow> (\<exists>v \<in> V. dv_id v = da_version_id a \<and> dv_document_id v = da_document_id a \<and>
     \<not> manual (dv_status v))"

definition superseded_ok :: "doc_version set \<Rightarrow> doc_version \<Rightarrow> bool" where
  "superseded_ok V v \<longleftrightarrow> (dv_status v = Superseded \<longrightarrow>
     (\<exists>w \<in> V. dv_status w = Approved \<and> dv_document_id w = dv_document_id v \<and> dv_number v < dv_number w))"

definition store_ok :: "document_db \<Rightarrow> bool" where
  "store_ok s \<longleftrightarrow> doc_keys s \<and>
     (let D = set (t_document s); V = set (t_docversion s); A = set (t_approval s); P = source_versions (dd_db s) in
      dv_document_id ` V \<subseteq> dc_id ` D \<and> dg_document_id ` set (t_doctag s) \<subseteq> dc_id ` D \<and>
      (\<forall>d \<in> D. current_ok V d) \<and>
      (\<forall>a \<in> A. approval_ok V a) \<and>
      (\<forall>a \<in> A. \<forall>b \<in> A. da_type a = Initial \<and> da_type b = Initial \<and> da_version_id a = da_version_id b \<longrightarrow> a = b) \<and>
      (\<forall>i \<in> P. \<exists>v \<in> V. dv_id v = i \<and> \<not> manual (dv_status v)) \<and>
      (\<forall>v \<in> V. version_ok A P v) \<and>
      (\<forall>v \<in> V. \<forall>w \<in> V. dv_status v = Approved \<and> dv_status w = Approved \<and> dv_document_id v = dv_document_id w \<longrightarrow> v = w) \<and>
      (\<forall>v \<in> V. superseded_ok V v))"

text \<open>What no request takes back: published versions, what a version says, approvals and
  artifacts.\<close>

fun status_rank :: "version_status \<Rightarrow> nat" where
  "status_rank Draft = 0"
| "status_rank UnderReview = 0"
| "status_rank Approved = 1"
| "status_rank Superseded = 2"

definition same_text :: "doc_version \<Rightarrow> doc_version \<Rightarrow> bool" where
  "same_text v v' \<longleftrightarrow> dv_id v' = dv_id v \<and> dv_document_id v' = dv_document_id v \<and> dv_org_id v' = dv_org_id v \<and>
     dv_number v' = dv_number v \<and> dv_body v' = dv_body v \<and>
     status_rank (dv_status v) \<le> status_rank (dv_status v') \<and>
     (\<not> manual (dv_status v) \<longrightarrow> dv_approved_at v' = dv_approved_at v \<and> dv_approver v' = dv_approver v \<and>
        dv_published v' = dv_published v)"

definition version_lives :: "document_db \<Rightarrow> doc_version \<Rightarrow> bool" where
  "version_lives s' v \<longleftrightarrow> (\<exists>v' \<in> set (t_docversion s'). same_text v v') \<or>
     (manual (dv_status v) \<and> dv_document_id v \<notin> dc_id ` set (t_document s') \<and>
      dv_id v \<notin> dv_id ` set (t_docversion s'))"

definition history_stands :: "document_db \<Rightarrow> document_db \<Rightarrow> bool" where
  "history_stands s s' \<longleftrightarrow> (\<forall>v \<in> set (t_docversion s). version_lives s' v) \<and>
     set (t_approval s) \<subseteq> set (t_approval s') \<and>
     prefix (t_evidence (dd_db s)) (t_evidence (dd_db s')) \<and>
     prefix (t_audit (dd_db s)) (t_audit (dd_db s')) \<and> new_row s \<le> new_row s' \<and>
     (\<forall>d' \<in> set (t_document s'). dc_id d' < new_row s \<longrightarrow> dc_id d' \<in> dc_id ` set (t_document s)) \<and>
     (\<forall>v' \<in> set (t_docversion s'). dv_id v' < new_row s \<longrightarrow> dv_id v' \<in> dv_id ` set (t_docversion s))"

lemma same_text_refl [simp]: "same_text v v"
  by (simp add: same_text_def)

lemma manual_rank: "manual st \<longleftrightarrow> status_rank st = 0"
  by (cases st) (simp_all add: manual_def)

lemma same_text_trans: "same_text u v \<Longrightarrow> same_text v w \<Longrightarrow> same_text u w"
  unfolding same_text_def manual_rank by auto

lemma history_refl [simp]: "history_stands s s"
  unfolding history_stands_def version_lives_def using same_text_refl by blast

text \<open>The trans law needs the keys: identifiers are not given twice.\<close>

lemma history_trans:
  assumes ok: "store_ok s" and st: "history_stands s t" and tu: "history_stands t u"
  shows "history_stands s u"
proof -
  have below: "dv_id v < new_row s" "dv_document_id v < new_row s" if "v \<in> set (t_docversion s)" for v
  proof -
    have "pk_ok dv_id (new_row s) (t_docversion s)" "pk_ok dc_id (new_row s) (t_document s)"
      and "dv_document_id v \<in> dc_id ` set (t_document s)"
      using ok that unfolding store_ok_def doc_keys_def Let_def by blast+
    then show "dv_id v < new_row s" "dv_document_id v < new_row s" using that by (auto simp: pk_ok_def)
  qed
  have le: "new_row s \<le> new_row t" using st by (simp add: history_stands_def)
  have docs: "\<forall>d \<in> set (t_document u). dc_id d < new_row s \<longrightarrow> dc_id d \<in> dc_id ` set (t_document t)"
    and vers: "\<forall>v \<in> set (t_docversion u). dv_id v < new_row s \<longrightarrow> dv_id v \<in> dv_id ` set (t_docversion t)"
    using tu le unfolding history_stands_def by (meson order.strict_trans2)+
  have "version_lives u v" if v: "v \<in> set (t_docversion s)" for v
  proof -
    have "version_lives t v" using st v by (simp add: history_stands_def)
    then consider (kept) v' where "v' \<in> set (t_docversion t)" "same_text v v'"
      | (gone) "manual (dv_status v)" "dv_document_id v \<notin> dc_id ` set (t_document t)"
          "dv_id v \<notin> dv_id ` set (t_docversion t)"
      unfolding version_lives_def by blast
    then show ?thesis
    proof cases
      case kept
      have "version_lives u v'" using tu kept(1) by (simp add: history_stands_def)
      then show ?thesis using kept(2) same_text_trans[OF kept(2)]
        unfolding version_lives_def by (auto simp: same_text_def manual_rank)
    next
      case gone
      then have "dv_document_id v \<notin> dc_id ` set (t_document u)" "dv_id v \<notin> dv_id ` set (t_docversion u)"
        using docs vers below[OF v] by force+
      then show ?thesis using gone(1) unfolding version_lives_def by blast
    qed
  qed
  moreover have "dc_id d \<in> dc_id ` set (t_document s)" if "d \<in> set (t_document u)" "dc_id d < new_row s" for d
  proof -
    have "dc_id d \<in> dc_id ` set (t_document t)" using docs that by blast
    then obtain d2 where "d2 \<in> set (t_document t)" "dc_id d2 = dc_id d" by (metis imageE)
    then show ?thesis using st that(2) unfolding history_stands_def by metis
  qed
  moreover have "dv_id v \<in> dv_id ` set (t_docversion s)" if "v \<in> set (t_docversion u)" "dv_id v < new_row s" for v
  proof -
    have "dv_id v \<in> dv_id ` set (t_docversion t)" using vers that by blast
    then obtain v2 where "v2 \<in> set (t_docversion t)" "dv_id v2 = dv_id v" by (metis imageE)
    then show ?thesis using st that(2) unfolding history_stands_def by metis
  qed
  ultimately show ?thesis using st tu le prefix_order.trans unfolding history_stands_def by (meson order_trans)
qed

subsection \<open>The fields an operation leaves alone\<close>

lemma with_db_frame [simp]:
  "dd_db (with_db u s) = u" "t_document (with_db u s) = t_document s"
  "t_docversion (with_db u s) = t_docversion s" "t_doctag (with_db u s) = t_doctag s"
  "t_approval (with_db u s) = t_approval s" "t_statement (dd_api (with_db u s)) = t_statement (dd_api s)"
  by (simp_all add: with_db_def)

lemma take_row_frame [simp]:
  "t_document (take_row s) = t_document s" "t_docversion (take_row s) = t_docversion s"
  "t_doctag (take_row s) = t_doctag s" "t_approval (take_row s) = t_approval s"
  "dd_db (take_row s) = (dd_db s)\<lparr>next_id := Suc (next_id (dd_db s))\<rparr>"
  "t_statement (dd_api (take_row s)) = t_statement (dd_api s)"
  by (simp_all add: take_row_def)

lemma log_doc_frame [simp]:
  "t_document (log_doc og a e i b af c s) = t_document s"
  "t_docversion (log_doc og a e i b af c s) = t_docversion s"
  "t_doctag (log_doc og a e i b af c s) = t_doctag s"
  "t_approval (log_doc og a e i b af c s) = t_approval s"
  "dd_db (log_doc og a e i b af c s) = log_event_as None None (Some og) a e i b af (Some c) (dd_db s)"
  "t_statement (dd_api (log_doc og a e i b af c s)) = t_statement (dd_api s)"
  by (simp_all add: log_doc_def)

lemma update_doc_frame [simp]:
  "dd_api (update_version i f s) = dd_api s" "t_document (update_version i f s) = t_document s"
  "t_doctag (update_version i f s) = t_doctag s" "t_approval (update_version i f s) = t_approval s"
  "t_docversion (update_version i f s) = tupd dv_id i f (t_docversion s)"
  "dd_api (update_document i g s) = dd_api s" "t_docversion (update_document i g s) = t_docversion s"
  "t_doctag (update_document i g s) = t_doctag s" "t_approval (update_document i g s) = t_approval s"
  "t_document (update_document i g s) = tupd dc_id i g (t_document s)"
  "dd_api (supersede_others d v s) = dd_api s" "t_document (supersede_others d v s) = t_document s"
  "t_doctag (supersede_others d v s) = t_doctag s" "t_approval (supersede_others d v s) = t_approval s"
  by (simp_all add: update_version_def update_document_def supersede_others_def)

lemma source_versions_same: "t_evidence u = t_evidence w \<Longrightarrow> source_versions u = source_versions w"
  by (simp add: source_versions_eq)

lemma doc_keys_mono:
  assumes "doc_keys s" "new_row s \<le> new_row s'" "t_document s' = t_document s" "t_docversion s' = t_docversion s"
    "t_doctag s' = t_doctag s" "t_approval s' = t_approval s"
  shows "doc_keys s'"
  using assms by (auto simp: doc_keys_def intro: pk_ok_mono)

lemma store_ok_same:
  assumes "store_ok s" "new_row s \<le> new_row s'" "t_document s' = t_document s" "t_docversion s' = t_docversion s"
    "t_doctag s' = t_doctag s" "t_approval s' = t_approval s" "t_evidence (dd_db s') = t_evidence (dd_db s)"
  shows "store_ok s'"
  using assms doc_keys_mono[OF _ assms(2-6)] source_versions_same[OF assms(7)] by (simp add: store_ok_def Let_def)

lemma store_okD:
  assumes "store_ok s"
  shows "doc_keys s" and "v \<in> set (t_docversion s) \<Longrightarrow> dv_document_id v \<in> dc_id ` set (t_document s)"
    and "g \<in> set (t_doctag s) \<Longrightarrow> dg_document_id g \<in> dc_id ` set (t_document s)"
    and "d \<in> set (t_document s) \<Longrightarrow> current_ok (set (t_docversion s)) d"
    and "a \<in> set (t_approval s) \<Longrightarrow> approval_ok (set (t_docversion s)) a"
    and "i \<in> source_versions (dd_db s) \<Longrightarrow> \<exists>v \<in> set (t_docversion s). dv_id v = i \<and> \<not> manual (dv_status v)"
    and "v \<in> set (t_docversion s) \<Longrightarrow> version_ok (set (t_approval s)) (source_versions (dd_db s)) v"
    and "v \<in> set (t_docversion s) \<Longrightarrow> w \<in> set (t_docversion s) \<Longrightarrow> dv_status v = Approved \<Longrightarrow> dv_status w = Approved \<Longrightarrow>
      dv_document_id v = dv_document_id w \<Longrightarrow> v = w"
    and "v \<in> set (t_docversion s) \<Longrightarrow> superseded_ok (set (t_docversion s)) v"
  using assms unfolding store_ok_def Let_def by blast+

subsection \<open>The tables after an operation\<close>

definition doc_step :: "document_db \<Rightarrow> document_db \<Rightarrow> bool" where
  "doc_step s s' \<longleftrightarrow> store_ok s' \<and> history_stands s s'"

lemma doc_step_same:
  assumes "store_ok s" "new_row s \<le> new_row s'" "t_document s' = t_document s" "t_docversion s' = t_docversion s"
    "t_doctag s' = t_doctag s" "t_approval s' = t_approval s" "t_evidence (dd_db s') = t_evidence (dd_db s)"
    "prefix (t_audit (dd_db s)) (t_audit (dd_db s'))"
  shows "doc_step s s'"
  using store_ok_same[OF assms(1-7)] assms(2-8) unfolding doc_step_def history_stands_def version_lives_def
  by (auto intro: same_text_refl)

lemma doc_step_trans: "store_ok s \<Longrightarrow> doc_step s t \<Longrightarrow> doc_step t u \<Longrightarrow> doc_step s u"
  unfolding doc_step_def using history_trans by blast

lemma log_doc_step: "store_ok s \<Longrightarrow> doc_step s (log_doc og a e i b af c s)"
  by (rule doc_step_same) (simp_all add: log_event_as_def)

lemma doc_step_log: "store_ok s \<Longrightarrow> doc_step s u \<Longrightarrow> doc_step s (log_doc og a e i b af c u)"
  by (rule doc_step_trans[OF _ _ log_doc_step]) (simp_all add: doc_step_def)

lemma doc_below:
  assumes "store_ok s"
  shows "d \<in> set (t_document s) \<Longrightarrow> dc_id d < new_row s" "v \<in> set (t_docversion s) \<Longrightarrow> dv_id v < new_row s"
    "v \<in> set (t_docversion s) \<Longrightarrow> dv_document_id v < new_row s"
proof -
  have k: "pk_ok dc_id (new_row s) (t_document s)" "pk_ok dv_id (new_row s) (t_docversion s)"
    using store_okD(1)[OF assms] by (simp_all add: doc_keys_def)
  show d: "d \<in> set (t_document s) \<Longrightarrow> dc_id d < new_row s" for d using k(1) by (simp add: pk_ok_def)
  show "v \<in> set (t_docversion s) \<Longrightarrow> dv_id v < new_row s" using k(2) by (simp add: pk_ok_def)
  show "v \<in> set (t_docversion s) \<Longrightarrow> dv_document_id v < new_row s" using store_okD(2)[OF assms] d by (metis imageE)
qed

lemma tupd_snoc_fresh:
  assumes "pk_ok key n rows" "key r = n"
  shows "tupd key n f (rows @ [r]) = rows @ [f r]"
proof -
  have "n \<notin> key ` set rows" using assms(1) by (auto simp: pk_ok_def)
  then show ?thesis using tupd_absent[of n key rows f] assms(2) by (simp add: tupd_def)
qed

text \<open>Rows that are changed in place keep their keys.\<close>

lemma map_keys_ok:
  assumes "doc_keys s" "new_row s \<le> new_row s'" "t_doctag s' = t_doctag s" "pk_ok da_id (new_row s') (t_approval s')"
    and "t_docversion s' = map f (t_docversion s)" "\<And>v. dv_id (f v) = dv_id v"
    "\<And>v. dv_document_id (f v) = dv_document_id v" "\<And>v. dv_number (f v) = dv_number v"
    and "t_document s' = map g (t_document s)" "\<And>d. dc_id (g d) = dc_id d" "\<And>d. dc_org_id (g d) = dc_org_id d"
    "\<And>d. dc_doc_id (g d) = dc_doc_id d"
  shows "doc_keys s'"
proof -
  have m: "map dv_id (t_docversion s') = map dv_id (t_docversion s)"
    "map (\<lambda>v. (dv_document_id v, dv_number v)) (t_docversion s') = map (\<lambda>v. (dv_document_id v, dv_number v)) (t_docversion s)"
    "map dc_id (t_document s') = map dc_id (t_document s)"
    "map (\<lambda>d. (dc_org_id d, dc_doc_id d)) (t_document s') = map (\<lambda>d. (dc_org_id d, dc_doc_id d)) (t_document s)"
    by (simp_all add: assms)
  have "pk_ok dv_id (new_row s') (t_docversion s')"
    by (rule pk_ok_keys[OF m(1) pk_ok_mono[OF _ assms(2)]]) (use assms(1) in \<open>simp add: doc_keys_def\<close>)
  moreover have "pk_ok dc_id (new_row s') (t_document s')"
    by (rule pk_ok_keys[OF m(3) pk_ok_mono[OF _ assms(2)]]) (use assms(1) in \<open>simp add: doc_keys_def\<close>)
  moreover have "pk_ok dg_id (new_row s') (t_doctag s')"
    unfolding assms(3) by (rule pk_ok_mono[OF _ assms(2)]) (use assms(1) in \<open>simp add: doc_keys_def\<close>)
  ultimately show ?thesis using assms(1,3,4) unfolding doc_keys_def m(2,4) by simp
qed

lemma current_ok_map:
  assumes "current_ok V d" "\<And>v. dv_id (f v) = dv_id v" "\<And>v. dv_document_id (f v) = dv_document_id v"
    "\<And>v. dv_number (f v) = dv_number v" "dc_current d' = dc_current d" "dc_id d' = dc_id d"
  shows "current_ok (f ` V) d'"
proof -
  obtain v where v: "v \<in> V" "dc_current d = Some (dv_id v)" "dv_document_id v = dc_id d"
    "\<forall>w \<in> V. dv_document_id w = dc_id d \<longrightarrow> dv_number w \<le> dv_number v"
    using assms(1) unfolding current_ok_def by blast
  then show ?thesis unfolding current_ok_def
    by (intro bexI[of _ "f v"]) (simp_all add: assms(2-6))
qed

lemma current_ok_insert:
  "current_ok V d \<Longrightarrow> dv_document_id v \<noteq> dc_id d \<Longrightarrow> current_ok (insert v V) d"
  unfolding current_ok_def by auto

subsection \<open>Documents and versions\<close>

lemma own_document_InrD:
  "own_document org_id i s = Inr d \<Longrightarrow> get_doc i s = Some d \<and> dc_org_id d = org_id \<and> d \<in> set (t_document s) \<and> dc_id d = i"
  by (cases "get_doc i s") (simp_all add: own_document_def tget_SomeD split: if_splits)

lemma check_ok_simps: "case_option (Inl e) f x = Inr y \<longleftrightarrow> (\<exists>z. x = Some z \<and> f z = Inr y)"
  by (cases x) simp_all

lemma create_document_InrD:
  assumes "create_document org_id key ty title cadence body s = Inr s'"
  obtains k t nm m d v where "check_doc_id key = Some k" "list_all (\<lambda>d. dc_org_id d = org_id \<longrightarrow> dc_doc_id d \<noteq> k) (t_document s)"
    "d = \<lparr>dc_id = new_row s, dc_org_id = org_id, dc_doc_id = k, dc_type = t, dc_title = nm, dc_cadence = m,
       dc_current = None\<rparr>" "check_cadence cadence = Some m" "check_title title = Some nm" "check_doc_type ty = Some t"
    "s' = log_doc org_id ''document.create'' ''document'' (new_row s) None
       (Some [(''doc_id'', JStr k), (''title'', JStr nm)]) via_api
       (snd (new_version org_id (new_row s) 1 body ((take_row s)\<lparr>t_document := t_document s @ [d]\<rparr>)))"
  using assms unfolding create_document_def Let_def
  by (auto simp: list_ex_iff list_all_iff split: option.splits if_splits)

lemma create_document_step:
  assumes ok: "store_ok s" and run: "create_document org_id key ty title cadence body s = Inr s'"
  shows "doc_step s s'"
proof -
  from run obtain k t nm m d where free: "list_all (\<lambda>d. dc_org_id d = org_id \<longrightarrow> dc_doc_id d \<noteq> k) (t_document s)" and
    d: "d = \<lparr>dc_id = new_row s, dc_org_id = org_id, dc_doc_id = k, dc_type = t, dc_title = nm, dc_cadence = m,
       dc_current = None\<rparr>" and
    s': "s' = log_doc org_id ''document.create'' ''document'' (new_row s) None
       (Some [(''doc_id'', JStr k), (''title'', JStr nm)]) via_api
       (snd (new_version org_id (new_row s) 1 body ((take_row s)\<lparr>t_document := t_document s @ [d]\<rparr>)))"
    by (rule create_document_InrD)
  let ?n = "new_row s"
  let ?u = "snd (new_version org_id ?n 1 body ((take_row s)\<lparr>t_document := t_document s @ [d]\<rparr>))"
  let ?new = "d\<lparr>dc_current := Some (Suc ?n)\<rparr>"
  let ?ver = "\<lparr>dv_id = Suc ?n, dv_document_id = ?n, dv_org_id = org_id, dv_number = 1, dv_status = Draft,
     dv_body = body, dv_approved_at = None, dv_approver = None, dv_published = None\<rparr>"
  have pkd: "pk_ok dc_id ?n (t_document s)" using store_okD(1)[OF ok] by (simp add: doc_keys_def)
  have u: "t_document ?u = t_document s @ [?new]" "t_docversion ?u = t_docversion s @ [?ver]" "t_doctag ?u = t_doctag s"
    "t_approval ?u = t_approval s" "t_evidence (dd_db ?u) = t_evidence (dd_db s)" "new_row ?u = Suc (Suc ?n)"
    "t_audit (dd_db ?u) = t_audit (dd_db s)"
    by (simp_all add: new_version_def Let_def tupd_snoc_fresh[OF pkd] d)
  note below = doc_below[OF ok]
  have k: "doc_keys ?u"
  proof -
    have "pk_ok dv_id (Suc (Suc ?n)) (t_docversion s @ [?ver])"
      using store_okD(1)[OF ok] by (intro pk_ok_snoc) (auto simp: doc_keys_def intro: pk_ok_mono)
    moreover have "pk_ok dc_id (Suc (Suc ?n)) (t_document s @ [?new])"
      using pk_ok_mono[OF pk_ok_snoc[OF pkd, of ?new], of "Suc (Suc ?n)"] by (simp add: d)
    ultimately show ?thesis using store_okD(1)[OF ok] free below
      unfolding doc_keys_def u by (auto simp: d list_all_iff intro: pk_ok_mono dest: below)
  qed
  have "store_ok ?u"
    unfolding store_ok_def Let_def u source_versions_same[OF u(5)]
  proof (intro conjI ballI)
    show "doc_keys ?u" by (rule k)
    show "dv_document_id ` set (t_docversion s @ [?ver]) \<subseteq> dc_id ` set (t_document s @ [?new])"
      using store_okD(2)[OF ok] by (auto simp: d)
    show "dg_document_id ` set (t_doctag s) \<subseteq> dc_id ` set (t_document s @ [?new])" using store_okD(3)[OF ok] by auto
    fix x assume "x \<in> set (t_document s @ [?new])"
    then consider "x \<in> set (t_document s)" | "x = ?new" by auto
    then show "current_ok (set (t_docversion s @ [?ver])) x"
    proof cases
      case 1
      then have "dc_id x \<noteq> ?n" using below(1)[OF 1] by simp
      then show ?thesis using current_ok_insert[OF store_okD(4)[OF ok 1], of ?ver] by simp
    next
      case 2
      have "dv_document_id w \<noteq> ?n" if "w \<in> set (t_docversion s)" for w using below(3)[OF that] by simp
      then show ?thesis unfolding 2 current_ok_def by (intro bexI[of _ ?ver]) (auto simp: d)
    qed
  next
    fix a assume "a \<in> set (t_approval s)"
    then show "approval_ok (set (t_docversion s @ [?ver])) a" using store_okD(5)[OF ok, of a] unfolding approval_ok_def by auto
  next
    fix i assume "i \<in> source_versions (dd_db s)"
    then show "\<exists>v \<in> set (t_docversion s @ [?ver]). dv_id v = i \<and> \<not> manual (dv_status v)" using store_okD(6)[OF ok] by auto
  next
    fix v assume "v \<in> set (t_docversion s @ [?ver])"
    then show "version_ok (set (t_approval s)) (source_versions (dd_db s)) v"
      using store_okD(7)[OF ok, of v] by (auto simp: version_ok_def manual_def unpublished_def)
  next
    fix v assume "v \<in> set (t_docversion s @ [?ver])"
    then show "superseded_ok (set (t_docversion s @ [?ver])) v"
      using store_okD(9)[OF ok, of v] by (auto simp: superseded_ok_def)
  next
    fix v w assume "v \<in> set (t_docversion s @ [?ver])" "w \<in> set (t_docversion s @ [?ver])"
    then show "dv_status v = Approved \<and> dv_status w = Approved \<and> dv_document_id v = dv_document_id w \<longrightarrow> v = w"
      using store_okD(8)[OF ok, of v w] by auto
  next
    fix a b assume "a \<in> set (t_approval s)" "b \<in> set (t_approval s)"
    then show "da_type a = Initial \<and> da_type b = Initial \<and> da_version_id a = da_version_id b \<longrightarrow> a = b"
      using ok unfolding store_ok_def Let_def by blast
  qed
  moreover have "history_stands s ?u"
    unfolding history_stands_def version_lives_def u by (auto simp: d intro: same_text_refl)
  ultimately show ?thesis unfolding s' by (intro doc_step_log[OF ok]) (simp add: doc_step_def)
qed


text \<open>Versions that are rewritten in place.\<close>

lemma map_versions_history:
  assumes "t_docversion s' = map f (t_docversion s)" "\<And>v. v \<in> set (t_docversion s) \<Longrightarrow> same_text v (f v)"
    and "set (t_approval s) \<subseteq> set (t_approval s')" "prefix (t_evidence (dd_db s)) (t_evidence (dd_db s'))"
    and "prefix (t_audit (dd_db s)) (t_audit (dd_db s'))" "new_row s \<le> new_row s'"
    and "map dc_id (t_document s') = map dc_id (t_document s)"
  shows "history_stands s s'"
proof -
  have "version_lives s' v" if "v \<in> set (t_docversion s)" for v
    using assms(2)[OF that] that unfolding version_lives_def assms(1) by auto
  moreover have "dc_id ` set (t_document s') = dc_id ` set (t_document s)"
    using assms(7) by (metis set_map)
  moreover have "dv_id ` set (t_docversion s') = dv_id ` set (t_docversion s)"
    using assms(2) unfolding assms(1) by (force simp: same_text_def image_image)
  ultimately show ?thesis using assms(3-6) unfolding history_stands_def by (metis imageI)
qed

lemma map_versions_store:
  assumes ok: "store_ok s" and V: "t_docversion s' = map f (t_docversion s)"
    and f: "\<And>v. dv_id (f v) = dv_id v" "\<And>v. dv_document_id (f v) = dv_document_id v" "\<And>v. dv_number (f v) = dv_number v"
    and m: "\<And>v. v \<in> set (t_docversion s) \<Longrightarrow> \<not> manual (dv_status v) \<Longrightarrow> \<not> manual (dv_status (f v))"
    and D: "t_document s' = map g (t_document s)" "\<And>d. dc_id (g d) = dc_id d" "\<And>d. dc_org_id (g d) = dc_org_id d"
      "\<And>d. dc_doc_id (g d) = dc_doc_id d" "\<And>d. dc_current (g d) = dc_current d"
    and G: "t_doctag s' = t_doctag s" and n: "new_row s \<le> new_row s'" and pk: "pk_ok da_id (new_row s') (t_approval s')"
    and A: "\<And>a. a \<in> set (t_approval s') \<Longrightarrow> a \<in> set (t_approval s) \<or> approval_ok (f ` set (t_docversion s)) a"
    and one: "\<And>a b. a \<in> set (t_approval s') \<Longrightarrow> b \<in> set (t_approval s') \<Longrightarrow> da_type a = Initial \<Longrightarrow> da_type b = Initial \<Longrightarrow>
      da_version_id a = da_version_id b \<Longrightarrow> a = b"
    and P: "\<And>i. i \<in> source_versions (dd_db s') \<Longrightarrow> i \<in> source_versions (dd_db s) \<or>
      (\<exists>v \<in> set (t_docversion s). dv_id v = i \<and> \<not> manual (dv_status (f v)))"
    and vs: "\<And>v. v \<in> set (t_docversion s) \<Longrightarrow> version_ok (set (t_approval s')) (source_versions (dd_db s')) (f v)"
    and ap: "\<And>v w. v \<in> set (t_docversion s) \<Longrightarrow> w \<in> set (t_docversion s) \<Longrightarrow> dv_status (f v) = Approved \<Longrightarrow>
      dv_status (f w) = Approved \<Longrightarrow> dv_document_id v = dv_document_id w \<Longrightarrow> v = w"
    and sup: "\<And>v. v \<in> set (t_docversion s) \<Longrightarrow> superseded_ok (f ` set (t_docversion s)) (f v)"
  shows "store_ok s'"
proof -
  have ids: "dc_id ` set (t_document s') = dc_id ` set (t_document s)" unfolding D(1) by (force simp: D(2) image_image)
  have setV: "set (t_docversion s') = f ` set (t_docversion s)" unfolding V by simp
  show ?thesis
    unfolding store_ok_def Let_def setV G ids
  proof (intro conjI ballI impI)
    show "doc_keys s'" by (rule map_keys_ok[OF store_okD(1)[OF ok] n G pk V f D(1-4)])
    show "dv_document_id ` f ` set (t_docversion s) \<subseteq> dc_id ` set (t_document s)"
      using store_okD(2)[OF ok] by (auto simp: f)
    show "dg_document_id ` set (t_doctag s) \<subseteq> dc_id ` set (t_document s)" using store_okD(3)[OF ok] by blast
    fix d' assume "d' \<in> set (t_document s')"
    then obtain d where d: "d \<in> set (t_document s)" "d' = g d" unfolding D(1) by auto
    show "current_ok (f ` set (t_docversion s)) d'"
      by (rule current_ok_map[OF store_okD(4)[OF ok d(1)]]) (simp_all add: f D d(2))
  next
    fix a assume a: "a \<in> set (t_approval s')"
    show "approval_ok (f ` set (t_docversion s)) a"
    proof (cases "a \<in> set (t_approval s)")
      case True
      then show ?thesis using store_okD(5)[OF ok True] m unfolding approval_ok_def by (force simp: f)
    next
      case False
      then show ?thesis using A[OF a] by blast
    qed
  next
    fix i assume "i \<in> source_versions (dd_db s')"
    then consider v where "v \<in> set (t_docversion s)" "dv_id v = i" "\<not> manual (dv_status (f v))"
      using P store_okD(6)[OF ok] m by metis
    then show "\<exists>v \<in> f ` set (t_docversion s). dv_id v = i \<and> \<not> manual (dv_status v)" by cases (auto simp: f)
  next
    fix v assume "v \<in> f ` set (t_docversion s)"
    then show "version_ok (set (t_approval s')) (source_versions (dd_db s')) v" using vs by blast
  next
    fix v assume "v \<in> f ` set (t_docversion s)"
    then show "superseded_ok (f ` set (t_docversion s)) v" using sup by blast
  next
    fix v w assume v: "v \<in> f ` set (t_docversion s)" "w \<in> f ` set (t_docversion s)"
      and st: "dv_status v = Approved \<and> dv_status w = Approved \<and> dv_document_id v = dv_document_id w"
    then obtain x y where x: "x \<in> set (t_docversion s)" "v = f x" "y \<in> set (t_docversion s)" "w = f y" by blast
    then have "x = y" using ap[of x y] st by (simp add: f)
    then show "v = w" using x by simp
  qed (use one in blast)
qed

lemma patch_document_InrD:
  assumes "patch_document org_id i title ty cadence s = Inr s'"
  shows "s' = s \<or> (\<exists>b af t y c. s' = log_doc org_id ''document.update'' ''document'' i b af via_api
     (update_document i (\<lambda>r. r\<lparr>dc_title := or_old t (dc_title r), dc_type := or_old y (dc_type r),
        dc_cadence := or_old c (dc_cadence r)\<rparr>) s))"
  using assms unfolding patch_document_def
  by (simp split: option.splits sum.splits if_splits prod.splits) blast+

lemma patch_document_step:
  assumes ok: "store_ok s" and run: "patch_document org_id i title ty cadence s = Inr s'"
  shows "doc_step s s'"
proof -
  consider "s' = s" | b af t y c where "s' = log_doc org_id ''document.update'' ''document'' i b af via_api
     (update_document i (\<lambda>r. r\<lparr>dc_title := or_old t (dc_title r), dc_type := or_old y (dc_type r),
        dc_cadence := or_old c (dc_cadence r)\<rparr>) s)"
    using patch_document_InrD[OF run] by blast
  then show ?thesis
  proof cases
    case 1
    then show ?thesis using ok by (simp add: doc_step_def)
  next
    case (2 b af t y c)
    let ?f = "\<lambda>r. r\<lparr>dc_title := or_old t (dc_title r), dc_type := or_old y (dc_type r), dc_cadence := or_old c (dc_cadence r)\<rparr>"
    let ?g = "\<lambda>r. if dc_id r = i then ?f r else r"
    let ?u = "update_document i ?f s"
    have u: "t_document ?u = map ?g (t_document s)" "t_docversion ?u = map (\<lambda>v. v) (t_docversion s)"
      by (simp_all add: tupd_def)
    have "store_ok ?u"
      by (rule map_versions_store[OF ok u(2) _ _ _ _ u(1)])
        (use ok store_okD[OF ok] in \<open>simp_all add: doc_keys_def store_ok_def Let_def\<close>)
    moreover have "history_stands s ?u"
      by (rule map_versions_history[OF u(2)]) (simp_all add: tupd_def)
    ultimately show ?thesis unfolding 2 by (intro doc_step_log[OF ok]) (simp add: doc_step_def)
  qed
qed

lemma max_version_ge:
  assumes "v \<in> set (t_docversion s)" "dv_document_id v = i"
  shows "dv_number v \<le> max_version i s"
proof -
  have "n \<le> foldr max xs 0" if "n \<in> set xs" for n :: nat and xs
    using that by (induction xs) (auto simp: max.coboundedI1 max.coboundedI2)
  then show ?thesis using assms unfolding max_version_def versions_of_def by force
qed

text \<open>A new version of a document that is there.\<close>

lemma new_version_step:
  assumes ok: "store_ok s" and old: "old \<in> set (t_document s)" "dc_id old = i"
  shows "doc_step s (snd (new_version org_id i (Suc (max_version i s)) body s))"
proof -
  let ?n = "new_row s"
  let ?u = "snd (new_version org_id i (Suc (max_version i s)) body s)"
  let ?ver = "\<lparr>dv_id = ?n, dv_document_id = i, dv_org_id = org_id, dv_number = Suc (max_version i s), dv_status = Draft,
     dv_body = body, dv_approved_at = None, dv_approver = None, dv_published = None\<rparr>"
  let ?g = "\<lambda>r. if dc_id r = i then r\<lparr>dc_current := Some ?n\<rparr> else r"
  have u: "t_document ?u = map ?g (t_document s)" "t_docversion ?u = t_docversion s @ [?ver]" "t_doctag ?u = t_doctag s"
    "t_approval ?u = t_approval s" "t_evidence (dd_db ?u) = t_evidence (dd_db s)" "new_row ?u = Suc ?n"
    "t_audit (dd_db ?u) = t_audit (dd_db s)"
    by (simp_all add: new_version_def Let_def tupd_def)
  have ids: "map dc_id (t_document ?u) = map dc_id (t_document s)" unfolding u(1) by simp
  have keys: "map (\<lambda>d. (dc_org_id d, dc_doc_id d)) (t_document ?u) = map (\<lambda>d. (dc_org_id d, dc_doc_id d)) (t_document s)"
    unfolding u(1) by simp
  have idset: "dc_id ` set (t_document ?u) = dc_id ` set (t_document s)" using ids by (metis set_map)
  have k0: "doc_keys s" by (rule store_okD(1)[OF ok])
  have "pk_ok dv_id (Suc ?n) (t_docversion s @ [?ver])" using k0 by (intro pk_ok_snoc) (simp_all add: doc_keys_def)
  moreover have "pk_ok dc_id (Suc ?n) (t_document ?u)"
    using pk_ok_keys[OF ids] pk_ok_mono k0 unfolding doc_keys_def by (metis le_Suc_eq order_refl)
  moreover have "(i, Suc (max_version i s)) \<notin> (\<lambda>v. (dv_document_id v, dv_number v)) ` set (t_docversion s)"
    using max_version_ge[of _ s i] by fastforce
  ultimately have k: "doc_keys ?u"
    using k0 unfolding doc_keys_def keys u(2-4,6) by (auto intro: pk_ok_mono)
  have "store_ok ?u"
    unfolding store_ok_def Let_def u(2-4) idset source_versions_same[OF u(5)]
  proof (intro conjI ballI)
    show "doc_keys ?u" by (rule k)
    show "dv_document_id ` set (t_docversion s @ [?ver]) \<subseteq> dc_id ` set (t_document s)"
      using store_okD(2)[OF ok] old by auto
    show "dg_document_id ` set (t_doctag s) \<subseteq> dc_id ` set (t_document s)" using store_okD(3)[OF ok] by blast
    fix x assume "x \<in> set (t_document ?u)"
    then obtain y where y: "y \<in> set (t_document s)" "x = ?g y" unfolding u(1) by auto
    show "current_ok (set (t_docversion s @ [?ver])) x"
    proof (cases "dc_id y = i")
      case True
      then show ?thesis using max_version_ge[of _ s i] unfolding y(2) current_ok_def
        by (intro bexI[of _ ?ver]) (auto simp: le_SucI)
    next
      case False
      then show ?thesis using current_ok_insert[OF store_okD(4)[OF ok y(1)], of ?ver] unfolding y(2) by simp
    qed
  next
    fix a assume "a \<in> set (t_approval s)"
    then show "approval_ok (set (t_docversion s @ [?ver])) a" using store_okD(5)[OF ok, of a] unfolding approval_ok_def by auto
  next
    fix i assume "i \<in> source_versions (dd_db s)"
    then show "\<exists>v \<in> set (t_docversion s @ [?ver]). dv_id v = i \<and> \<not> manual (dv_status v)" using store_okD(6)[OF ok] by auto
  next
    fix v assume "v \<in> set (t_docversion s @ [?ver])"
    then show "version_ok (set (t_approval s)) (source_versions (dd_db s)) v"
      using store_okD(7)[OF ok, of v] by (auto simp: version_ok_def manual_def unpublished_def)
  next
    fix v assume "v \<in> set (t_docversion s @ [?ver])"
    then show "superseded_ok (set (t_docversion s @ [?ver])) v"
      using store_okD(9)[OF ok, of v] by (auto simp: superseded_ok_def)
  next
    fix v w assume "v \<in> set (t_docversion s @ [?ver])" "w \<in> set (t_docversion s @ [?ver])"
    then show "dv_status v = Approved \<and> dv_status w = Approved \<and> dv_document_id v = dv_document_id w \<longrightarrow> v = w"
      using store_okD(8)[OF ok, of v w] by auto
  next
    fix a b assume "a \<in> set (t_approval s)" "b \<in> set (t_approval s)"
    then show "da_type a = Initial \<and> da_type b = Initial \<and> da_version_id a = da_version_id b \<longrightarrow> a = b"
      using ok unfolding store_ok_def Let_def by blast
  qed
  moreover have "history_stands s ?u"
    unfolding history_stands_def version_lives_def idset u(2-7) using idset by (auto intro: same_text_refl)
  ultimately show ?thesis by (simp add: doc_step_def)
qed

lemma create_document_version_step:
  assumes ok: "store_ok s" and run: "create_document_version org_id i body base s = Inr s'"
  shows "doc_step s s'"
proof -
  obtain d where d: "own_document org_id i s = Inr d" "max_version i s \<noteq> 0 \<longrightarrow> base \<noteq> None"
    "base \<noteq> None \<longrightarrow> dc_current d = base" "s' = log_doc org_id ''document.version.create'' ''document_version''
       (fst (new_version org_id i (Suc (max_version i s)) body s)) None
       (Some [(''doc_id'', JStr (dc_doc_id d)), (''version_number'', JInt (int (Suc (max_version i s))))]) via_api
       (snd (new_version org_id i (Suc (max_version i s)) body s))"
    using run unfolding create_document_version_def Let_def
    by (auto simp: case_prod_unfold split: sum.splits if_splits)
  show ?thesis unfolding d(4)
    by (rule doc_step_log[OF ok new_version_step[OF ok, of d]]) (use own_document_InrD[OF d(1)] in simp_all)
qed

lemma patch_version_InrD:
  assumes "patch_document_version_status org_id i vid body_status s = Inr s'"
  obtains v st d b af where "check_manual_status body_status = Some st" "get_docversion vid s = Some v" "manual (dv_status v)"
    "own_document org_id i s = Inr d" "dc_current d = Some vid"
    "s' = log_doc org_id ''document.version.status_change'' ''document_version'' vid b af via_api
       (update_version vid (\<lambda>r. r\<lparr>dv_status := st\<rparr>) s)"
  using assms unfolding patch_document_version_status_def
  by (simp split: option.splits sum.splits if_splits) blast

lemma check_manual: "check_manual_status x = Some st \<Longrightarrow> manual st"
  by (auto simp: check_manual_status_def of_value_def manual_def split: if_splits)

lemma patch_version_step:
  assumes ok: "store_ok s" and run: "patch_document_version_status org_id i vid body_status s = Inr s'"
  shows "doc_step s s'"
proof -
  from run obtain v st b af where st: "check_manual_status body_status = Some st" and v: "get_docversion vid s = Some v" "manual (dv_status v)"
    and s': "s' = log_doc org_id ''document.version.status_change'' ''document_version'' vid b af via_api
       (update_version vid (\<lambda>r. r\<lparr>dv_status := st\<rparr>) s)"
    by (rule patch_version_InrD)
  let ?f = "\<lambda>r. if dv_id r = vid then r\<lparr>dv_status := st\<rparr> else r" and ?u = "update_version vid (\<lambda>r. r\<lparr>dv_status := st\<rparr>) s"
  have u: "t_docversion ?u = map ?f (t_docversion s)" "t_document ?u = map (\<lambda>d. d) (t_document s)" by (simp_all add: tupd_def)
  have mst: "manual st" by (rule check_manual[OF st])
  have pk: "pk_ok dv_id (new_row s) (t_docversion s)" using store_okD(1)[OF ok] by (simp add: doc_keys_def)
  have m: "manual (dv_status x)" if "x \<in> set (t_docversion s)" "dv_id x = vid" for x
    using pk_ok_tget[OF pk that(1)] that(2) v by simp
  have "store_ok ?u"
  proof (rule map_versions_store[OF ok u(1) _ _ _ _ u(2)])
    show "\<not> manual (dv_status (?f x))" if "x \<in> set (t_docversion s)" "\<not> manual (dv_status x)" for x using m that by auto
    show "pk_ok da_id (new_row ?u) (t_approval ?u)" using store_okD(1)[OF ok] by (simp add: doc_keys_def)
    show "a = b" if "a \<in> set (t_approval ?u)" "b \<in> set (t_approval ?u)" "da_type a = Initial" "da_type b = Initial"
      "da_version_id a = da_version_id b" for a b
      using ok that unfolding store_ok_def Let_def by simp
    show "version_ok (set (t_approval ?u)) (source_versions (dd_db ?u)) (?f x)" if "x \<in> set (t_docversion s)" for x
      using store_okD(7)[OF ok that] m[OF that] mst by (auto simp: version_ok_def unpublished_def)
    show "x = y" if "x \<in> set (t_docversion s)" "y \<in> set (t_docversion s)" "dv_status (?f x) = Approved"
      "dv_status (?f y) = Approved" "dv_document_id x = dv_document_id y" for x y
      using store_okD(8)[OF ok that(1,2)] that mst by (auto simp: manual_def split: if_splits)
    show "superseded_ok (?f ` set (t_docversion s)) (?f x)" if x: "x \<in> set (t_docversion s)" for x
    proof -
      have "superseded_ok (set (t_docversion s)) x" by (rule store_okD(9)[OF ok x])
      show ?thesis unfolding superseded_ok_def
      proof
        assume sup: "dv_status (?f x) = Superseded"
        then have sx: "dv_status x = Superseded" "dv_id x \<noteq> vid" using mst by (auto simp: manual_def split: if_splits)
        then obtain w where w: "w \<in> set (t_docversion s)" "dv_status w = Approved" "dv_document_id w = dv_document_id x"
          "dv_number x < dv_number w" using store_okD(9)[OF ok x] unfolding superseded_ok_def by blast
        have "dv_id w \<noteq> vid" using m[OF w(1)] w(2) by (auto simp: manual_def)
        then have "?f w = w" by simp
        then show "\<exists>w \<in> ?f ` set (t_docversion s). dv_status w = Approved \<and> dv_document_id w = dv_document_id (?f x) \<and>
            dv_number (?f x) < dv_number w"
          using w sx by (intro bexI[of _ w]) (auto intro: rev_image_eqI)
      qed
    qed
  qed (use ok in simp_all)
  moreover have "history_stands s ?u"
    by (rule map_versions_history[OF u(1)]) (use m mst in \<open>auto simp: same_text_def manual_rank\<close>)
  ultimately show ?thesis unfolding s' by (intro doc_step_log[OF ok]) (simp add: doc_step_def)
qed

subsection \<open>Approvals\<close>

definition publish_row :: "uuid \<Rightarrow> uuid \<Rightarrow> datetime \<Rightarrow> uuid \<Rightarrow> uuid list \<Rightarrow> doc_version \<Rightarrow> doc_version" where
  "publish_row i vid now contact tags v =
     (if dv_id v = vid then v\<lparr>dv_status := Approved, dv_approved_at := Some now, dv_approver := Some contact,
        dv_published := Some tags\<rparr>
      else if dv_document_id v = i \<and> dv_status v = Approved then v\<lparr>dv_status := Superseded\<rparr> else v)"

text \<open>What publishing writes.\<close>

definition published :: "uuid \<Rightarrow> uuid \<Rightarrow> contact \<Rightarrow> document_db \<Rightarrow> document_db \<Rightarrow> bool" where
  "published i vid c s u \<longleftrightarrow>
     (\<exists>d. get_doc i s = Some d \<and>
       t_docversion u = map (publish_row i vid (clock (dd_db s)) (co_id c) (sort (document_tags i s))) (t_docversion s) \<and>
       t_approval u = t_approval s @ [\<lparr>da_id = new_row s, da_document_id = i, da_version_id = vid,
         da_org_id = dc_org_id d, da_type = Initial, da_at = clock (dd_db s), da_contact = Some (co_id c),
         da_name = co_name c, da_note = None\<rparr>] \<and>
       t_document u = t_document s \<and> t_doctag u = t_doctag s \<and>
       dd_db u = (dd_db s)\<lparr>next_id := Suc (Suc (new_row s)), t_evidence := t_evidence (dd_db s) @
         [document_evidence_row (Suc (new_row s)) (dc_org_id d) d vid (clock (dd_db s))]\<rparr> \<and>
       t_statement (dd_api u) = t_statement (dd_api s))"

lemma publish_InrD:
  assumes "publish_document org_id i contact_id s = Inr s'"
  obtains d vid v c u af where "own_document org_id i s = Inr d" "dc_current d = Some vid"
    "get_docversion vid s = Some v" "manual (dv_status v)" "get_contact contact_id s = Some c" "co_org_id c = org_id"
    "published i vid c s u" "s' = log_doc org_id ''document.publish'' ''document_version'' vid None af via_api u"
proof -
  from assms obtain d vid v c where d: "own_document org_id i s = Inr d" "dc_current d = Some vid"
    "get_docversion vid s = Some v" "manual (dv_status v)" and c: "get_contact contact_id s = Some c" "co_org_id c = org_id"
    unfolding publish_document_def by (auto simp: Let_def case_prod_unfold split: sum.splits option.splits if_splits)
  let ?now = "clock (dd_db s)"
  let ?s1 = "update_version vid (\<lambda>r. r\<lparr>dv_status := Approved, dv_approved_at := Some ?now, dv_approver := Some contact_id\<rparr>) s"
  let ?s3 = "supersede_others i vid (snd (record_approval d vid c Initial None ?s1))"
  let ?tags = "sort (document_tags i ?s3)"
  let ?u = "snd (add_document_evidence org_id d vid ?now (update_version vid (\<lambda>r. r\<lparr>dv_published := Some ?tags\<rparr>) ?s3))"
  obtain af where s': "s' = log_doc org_id ''document.publish'' ''document_version'' vid None af via_api ?u"
    using assms d c unfolding publish_document_def by (simp add: Let_def case_prod_unfold) blast
  have cid: "co_id c = contact_id" using tget_SomeD[OF c(1)] by simp
  note dd = own_document_InrD[OF d(1)]
  have tags: "document_tags i ?s3 = document_tags i s"
    by (simp add: document_tags_def record_approval_def Let_def)
  have V: "t_docversion ?u = map (publish_row i vid ?now contact_id (sort (document_tags i s))) (t_docversion s)"
    unfolding tags
    by (simp add: add_document_evidence_def Let_def supersede_others_def record_approval_def update_version_def tupd_def
        publish_row_def)
  have "published i vid c s ?u"
    unfolding published_def cid using dd
    by (intro exI[of _ d] conjI V)
      (simp_all add: add_document_evidence_def Let_def record_approval_def cid)
  then show thesis by (rule that[OF d c _ s'])
qed

lemma source_versions_snoc:
  "t_evidence w = t_evidence u @ [document_evidence_row j og d vid now] \<Longrightarrow>
     source_versions w = insert vid (source_versions u)"
  by (auto simp: source_versions_eq document_evidence_row_def)

lemma publish_step:
  assumes ok: "store_ok s" and run: "publish_document org_id i contact_id s = Inr s'"
  shows "doc_step s s'"
proof -
  from run obtain d vid v c u af where d: "own_document org_id i s = Inr d" "dc_current d = Some vid"
    and v: "get_docversion vid s = Some v" "manual (dv_status v)"
    and u: "published i vid c s u"
    and s': "s' = log_doc org_id ''document.publish'' ''document_version'' vid None af via_api u"
    by (rule publish_InrD)
  let ?f = "publish_row i vid (clock (dd_db s)) (co_id c) (sort (document_tags i s))"
  let ?app = "\<lparr>da_id = new_row s, da_document_id = i, da_version_id = vid,
         da_org_id = dc_org_id d, da_type = Initial, da_at = clock (dd_db s), da_contact = Some (co_id c),
         da_name = co_name c, da_note = None\<rparr>"
  note dd = own_document_InrD[OF d(1)]
  have u1: "t_docversion u = map ?f (t_docversion s)" "t_approval u = t_approval s @ [?app]"
    "t_evidence (dd_db u) = t_evidence (dd_db s) @
         [document_evidence_row (Suc (new_row s)) (dc_org_id d) d vid (clock (dd_db s))]"
    "t_document u = map (\<lambda>d. d) (t_document s)" "t_doctag u = t_doctag s"
    and nr: "new_row u = Suc (Suc (new_row s))" "t_audit (dd_db u) = t_audit (dd_db s)"
    using u dd unfolding published_def by simp_all
  have P: "source_versions (dd_db u) = insert vid (source_versions (dd_db s))" by (rule source_versions_snoc[OF u1(3)])
  have pk: "pk_ok dv_id (new_row s) (t_docversion s)" using store_okD(1)[OF ok] by (simp add: doc_keys_def)
  have vin: "v \<in> set (t_docversion s)" "dv_id v = vid" using tget_SomeD[OF v(1)] by simp_all
  have uniq: "x = v" if "x \<in> set (t_docversion s)" "dv_id x = vid" for x
    using pk_ok_inj[OF pk that(1) vin(1)] that(2) vin(2) by simp
  obtain cur where cur: "cur \<in> set (t_docversion s)" "dc_current d = Some (dv_id cur)" "dv_document_id cur = i"
    "\<And>w. w \<in> set (t_docversion s) \<Longrightarrow> dv_document_id w = i \<Longrightarrow> dv_number w \<le> dv_number cur"
    using store_okD(4)[OF ok, of d] dd unfolding current_ok_def by auto
  have vcur: "cur = v" using uniq[OF cur(1)] cur(2) d(2) by simp
  have fv: "dv_status (?f v) = Approved" by (simp add: publish_row_def vin)
  have noapp: "da_version_id a \<noteq> vid" if mem: "a \<in> set (t_approval s)" for a
  proof
    assume e: "da_version_id a = vid"
    obtain w where "w \<in> set (t_docversion s)" "dv_id w = vid" "\<not> manual (dv_status w)"
      using store_okD(5)[OF ok mem] unfolding approval_ok_def e by blast
    then show False using uniq v(2) by blast
  qed
  have num: "dv_number x < dv_number v" if "x \<in> set (t_docversion s)" "dv_document_id x = i" "x \<noteq> v" for x
  proof -
    have "distinct (map (\<lambda>v. (dv_document_id v, dv_number v)) (t_docversion s))"
      using store_okD(1)[OF ok] by (simp add: doc_keys_def)
    then have inj: "inj_on (\<lambda>v. (dv_document_id v, dv_number v)) (set (t_docversion s))" by (simp add: distinct_map)
    have "dv_number x \<noteq> dv_number v"
    proof
      assume "dv_number x = dv_number v"
      then have "(dv_document_id x, dv_number x) = (dv_document_id v, dv_number v)" using that(2) cur(3) vcur by simp
      from inj_onD[OF inj this that(1) vin(1)] that(3) show False by simp
    qed
    then show ?thesis using cur(4)[OF that(1,2)] vcur by simp
  qed
  have "store_ok u"
  proof (rule map_versions_store[OF ok u1(1) _ _ _ _ u1(4)])
    show "pk_ok da_id (new_row u) (t_approval u)"
      using pk_ok_mono[OF pk_ok_snoc[of da_id "new_row s" "t_approval s" ?app]] store_okD(1)[OF ok]
      unfolding u1(2) nr by (simp add: doc_keys_def)
    show "\<not> manual (dv_status (?f x))" if "x \<in> set (t_docversion s)" "\<not> manual (dv_status x)" for x
      using that by (auto simp: publish_row_def manual_def)
    show "a \<in> set (t_approval s) \<or> approval_ok (?f ` set (t_docversion s)) a" if a: "a \<in> set (t_approval u)" for a
    proof (cases "a = ?app")
      case True
      have "dv_id (?f v) = vid" "dv_document_id (?f v) = i" "?f v \<in> ?f ` set (t_docversion s)"
        using vin cur(3) vcur by (simp_all add: publish_row_def)
      then have "approval_ok (?f ` set (t_docversion s)) a"
        unfolding approval_ok_def True using fv by (intro bexI[of _ "?f v"]) (simp_all add: manual_def)
      then show ?thesis ..
    next
      case False
      then show ?thesis using a unfolding u1(2) by simp
    qed
    show "a = b" if "a \<in> set (t_approval u)" "b \<in> set (t_approval u)" "da_type a = Initial" "da_type b = Initial"
      "da_version_id a = da_version_id b" for a b
    proof -
      have "a = b" if "a \<in> set (t_approval s)" "b \<in> set (t_approval s)"
        using ok that \<open>da_type a = Initial\<close> \<open>da_type b = Initial\<close> \<open>da_version_id a = da_version_id b\<close>
        unfolding store_ok_def Let_def by blast
      moreover have "a = ?app \<longleftrightarrow> b = ?app"
      proof
        assume e: "a = ?app"
        then have "da_version_id b = vid" using that(5) by simp
        then show "b = ?app" using that(2) noapp[of b] unfolding u1(2) by auto
      next
        assume e: "b = ?app"
        then have "da_version_id a = vid" using that(5) by simp
        then show "a = ?app" using that(1) noapp[of a] unfolding u1(2) by auto
      qed
      ultimately show ?thesis using that(1,2) unfolding u1(2) by (cases "a = ?app") simp_all
    qed
    show "j \<in> source_versions (dd_db s) \<or> (\<exists>v \<in> set (t_docversion s). dv_id v = j \<and> \<not> manual (dv_status (?f v)))"
      if "j \<in> source_versions (dd_db u)" for j
      using that vin fv unfolding P by (auto simp: manual_def intro!: bexI[of _ v])
    show "version_ok (set (t_approval u)) (source_versions (dd_db u)) (?f x)" if x: "x \<in> set (t_docversion s)" for x
    proof (cases "dv_id x = vid")
      case True
      then show ?thesis unfolding version_ok_def P u1(2)
        by (auto simp: publish_row_def manual_def initial_approval_def)
    next
      case False
      then have "dv_id (?f x) = dv_id x" "unpublished (?f x) = unpublished x" "manual (dv_status (?f x)) = manual (dv_status x)"
        "dv_published (?f x) = dv_published x" "initial_approval (?f x) a = initial_approval x a" for a
        by (auto simp: publish_row_def manual_def initial_approval_def unpublished_def)
      then show ?thesis using store_okD(7)[OF ok x] unfolding version_ok_def P u1(2) by auto
    qed
    show "x = y" if xy: "x \<in> set (t_docversion s)" "y \<in> set (t_docversion s)" "dv_status (?f x) = Approved"
      "dv_status (?f y) = Approved" "dv_document_id x = dv_document_id y" for x y
    proof -
      have only: "z = v \<or> (dv_document_id z \<noteq> i \<and> dv_status z = Approved)" if "z \<in> set (t_docversion s)" "dv_status (?f z) = Approved" for z
        using that uniq by (auto simp: publish_row_def split: if_splits)
      show ?thesis using only[OF xy(1,3)] only[OF xy(2,4)] store_okD(8)[OF ok xy(1,2)] xy(5) cur(3) vcur by auto
    qed
    show "superseded_ok (?f ` set (t_docversion s)) (?f x)" if x: "x \<in> set (t_docversion s)" for x
      unfolding superseded_ok_def
    proof
      assume sup: "dv_status (?f x) = Superseded"
      then have xv: "x \<noteq> v" using fv by auto
      then have xid: "dv_id x \<noteq> vid" using uniq[OF x] by blast
      have fx: "dv_document_id (?f x) = dv_document_id x" "dv_number (?f x) = dv_number x" by (simp_all add: publish_row_def)
      show "\<exists>w \<in> ?f ` set (t_docversion s). dv_status w = Approved \<and> dv_document_id w = dv_document_id (?f x) \<and>
          dv_number (?f x) < dv_number w"
      proof (cases "dv_document_id x = i")
        case True
        then show ?thesis using num[OF x True xv] fv vin cur(3) vcur unfolding fx
          by (intro bexI[of _ "?f v"]) (auto simp: publish_row_def)
      next
        case False
        then have "dv_status x = Superseded" using sup xid by (simp add: publish_row_def)
        then obtain w where w: "w \<in> set (t_docversion s)" "dv_status w = Approved" "dv_document_id w = dv_document_id x"
          "dv_number x < dv_number w" using store_okD(9)[OF ok x] unfolding superseded_ok_def by blast
        have "?f w = w" using w(3) False uniq[OF w(1)] cur(3) vcur by (auto simp: publish_row_def)
        then show ?thesis using w unfolding fx by (intro bexI[of _ w]) (auto intro: rev_image_eqI)
      qed
    qed
  qed (auto simp: publish_row_def u1(5) nr)
  moreover have "history_stands s u"
  proof (rule map_versions_history[OF u1(1)])
    show "same_text x (?f x)" if "x \<in> set (t_docversion s)" for x
      using uniq[OF that] v(2) by (auto simp: same_text_def publish_row_def manual_def)
  qed (auto simp: u1(2-5) nr)
  ultimately show ?thesis unfolding s' by (intro doc_step_log[OF ok]) (simp add: doc_step_def)
qed

end
