(* ===== verification/Api_Links.thy ===== *)
theory Api_Links
  imports Assessment_Api_Facts Evidence_Properties App_Requests
begin

section \<open>Identifiers and links\<close>

text \<open>
  What a request to the assessment endpoints does to the identifiers that are given and to the
  evidence links: identifiers only grow, and a link moves only where a product is deactivated or
  comes back.
\<close>

text \<open>What a request does to the identifiers and the links.\<close>

definition same_links :: "db \<Rightarrow> db \<Rightarrow> bool" where
  "same_links s s' \<longleftrightarrow> next_id s \<le> next_id s' \<and> t_link s' = t_link s"

lemma same_links_trans: "same_links s t \<Longrightarrow> same_links t u \<Longrightarrow> same_links s u"
  by (auto simp: same_links_def)

lemma same_links_log: "same_links s (log_event_as ac at og a e i b af c s)"
  by (simp add: same_links_def)

lemma same_links_serve: "engine_ok s \<Longrightarrow> serve r s = Inr s' \<Longrightarrow> \<not> moves_links r \<Longrightarrow> same_links s s'"
  by (simp add: same_links_def serve_next serve_links_same)

lemma create_links:
  assumes ok: "engine_ok s" and run: "create_assessment org_id fw name ty s = Inr s'"
  shows "same_links s s'"
proof -
  obtain aid s1 where s1: "start_assessment org_id fw name ty s = Inr (aid, s1)"
    using run by (auto simp: create_assessment_def split: sum.splits)
  obtain summ s2 where s2: "copy_forward_raci org_id fw aid (log_created org_id aid s1) = Inr (summ, s2)"
    and s': "s' = log_carried org_id aid summ s2"
    using run by (auto simp: create_assessment_def s1 split: sum.splits)
  have r1: "serve (StartAssessment org_id fw name ty) s = Inr s1" by (simp add: s1)
  have ok1: "engine_ok s1" using quiet_ok[OF quiet_serve[OF ok r1]] .
  have q2: "same_links s1 (log_created org_id aid s1)" "engine_ok (log_created org_id aid s1)"
    using same_links_log engine_ok_log_event ok1 by (auto simp: log_created_def same_links_def split: option.split)
  have "same_links (log_created org_id aid s1) s2"
    by (rule same_links_serve[OF q2(2), of "CarryRaci org_id fw aid"]) (simp_all add: s2)
  from same_links_trans[OF same_links_trans[OF same_links_trans[OF same_links_serve[OF ok r1] q2(1)] this] same_links_log]
  show ?thesis unfolding s' log_carried_def by simp
qed

lemma statements_links:
  assumes run: "upsert_statements org_id aid control items s = Inr s'"
  shows "same_links (ad_db s) (ad_db s')"
proof -
  from run obtain existing objectives new s1 changes where
    f: "foldl (save_statement org_id aid existing) (s, []) new = (s1, changes)" and
    s': "s' = s1\<lparr>ad_db := foldl (log_statement org_id aid objectives) (ad_db s1) changes\<rparr>"
    by (rule upsert_statements_InrD)
  have 1: "same_links (ad_db t) (ad_db (fst (foldl (save_statement org_id aid existing) (t, cs) items)))" for t cs items
  proof (induction items arbitrary: t cs)
    case (Cons x xs)
    obtain t' cs' where e: "save_statement org_id aid existing (t, cs) x = (t', cs')" by (metis surj_pair)
    have "same_links (ad_db t) (ad_db t')"
      using e by (cases x) (auto simp: save_statement_def Let_def same_links_def split: option.splits)
    then show ?case using same_links_trans[OF _ Cons[of t' cs']] by (simp add: e)
  qed (simp add: same_links_def)
  have 2: "same_links u (foldl (log_statement org_id aid objectives) u cs)" for u cs
  proof (induction cs arbitrary: u)
    case (Cons c cs)
    have "same_links u (log_statement org_id aid objectives u c)"
      using same_links_log by (simp add: log_statement_def split: prod.split)
    then show ?case using same_links_trans[OF _ Cons] by simp
  qed (simp add: same_links_def)
  show ?thesis using same_links_trans[OF 1[of s "[]" new] 2] f by (simp add: s')
qed

lemma patch_state_links:
  assumes "patch_control_state org_id aid i v s = Inr s'"
  shows "same_links s s'"
proof -
  from assms obtain status a cs where "get_assessment aid s = Some a" and s': "s' = log_assertion org_id aid cs status (a_sprs_score a) (sprs_of aid (assert_status cs status s))
       (snd (recompute_sprs aid (assert_status cs status s)))" by (rule patch_state_InrD)
  have "same_links s (assert_status cs status s)"
    by (simp add: same_links_def assert_status_def set_state_def add_history_def)
  moreover have "same_links u (snd (recompute_sprs aid u))" for u
    by (simp add: same_links_def)
  ultimately have "same_links s (snd (recompute_sprs aid (assert_status cs status s)))" by (rule same_links_trans)
  then show ?thesis unfolding s' log_assertion_def by (rule same_links_trans[OF _ same_links_log])
qed

definition moves_only :: "db \<Rightarrow> db \<Rightarrow> bool" where
  "moves_only s s' \<longleftrightarrow> next_id s \<le> next_id s' \<and> link_effects s s'"

lemma same_links_moves: "same_links s s' \<Longrightarrow> moves_only s s'"
  by (simp add: same_links_def moves_only_def link_effects_same)

lemma serve_moves: "engine_ok s \<Longrightarrow> serve r s = Inr s' \<Longrightarrow> moves_only s s'"
  by (simp add: moves_only_def serve_next serve_link_effects)

lemma activate_moves:
  assumes "engine_ok s" "activate_product org_id aid pid nts ds s = Inr s'"
  shows "moves_only s s'"
  by (rule serve_moves[OF assms(1), of "Activate org_id pid aid nts (map_option decision_dict ds)"])
    (use assms(2) in \<open>simp add: activate_product_def split: sum.splits prod.splits\<close>)

lemma deactivate_moves:
  assumes "engine_ok s" "deactivate_product org_id aid pid replaced_by dn email s = Inr s'"
  shows "moves_only s s'"
  by (rule serve_moves[OF assms(1), of "Deactivate org_id pid aid replaced_by (Some (user_label dn email))"])
    (use assms(2) in \<open>simp add: deactivate_product_def split: sum.splits prod.splits option.splits if_splits\<close>)

lemma move_version_moves:
  assumes "engine_ok s" "move_product_version org_id aid pid target s = Inr s'"
  shows "moves_only s s'"
  by (rule serve_moves[OF assms(1), of "MoveVersion org_id pid aid target"])
    (use assms(2) in \<open>simp add: move_product_version_def split: sum.splits prod.splits\<close>)

lemma complete_links:
  assumes ok: "engine_ok s" and run: "complete_assessment_endpoint org_id aid s = Inr s'"
  shows "same_links s s'"
proof -
  obtain s1 where s1: "serve (Complete org_id aid) s = Inr s1"
    using run by (auto simp: complete_assessment_endpoint_def split: sum.splits)
  show ?thesis
    using run s1 same_links_trans[OF same_links_serve[OF ok s1] same_links_log]
    by (auto simp: complete_assessment_endpoint_def split: sum.splits)
qed

lemma reopen_links:
  assumes ok: "engine_ok s" and run: "reopen_assessment_endpoint org_id aid s = Inr s'"
  shows "same_links s s'"
proof -
  obtain s1 where s1: "serve (Reopen org_id aid) s = Inr s1"
    using run by (auto simp: reopen_assessment_endpoint_def split: sum.splits)
  show ?thesis
    using run s1 same_links_trans[OF same_links_serve[OF ok s1] same_links_log]
    by (auto simp: reopen_assessment_endpoint_def split: sum.splits)
qed

lemma patch_task_links:
  assumes "patch_evidence_task org_id aid i v s = Inr s'"
  shows "same_links s s'"
proof -
  from assms obtain t status where s': "s' = update_task i (\<lambda>r. r\<lparr>tk_status := status\<rparr>)
       (if status \<noteq> tk_status t then log_task_update org_id aid t status s else s)"
    by (rule patch_task_InrD)
  show ?thesis using same_links_log unfolding s' log_task_update_def by (simp add: same_links_def update_task_def)
qed

lemma api_moves:
  assumes ok: "api_ok s" and run: "serve_api r s = Inr s'"
  shows "moves_only (ad_db s) (ad_db s')"
proof -
  have eok: "engine_ok (ad_db s)" using ok by (simp add: api_ok_def)
  show ?thesis
  proof (cases r)
    case (UpsertStatements a b c d)
    then show ?thesis using statements_links run by (auto intro: same_links_moves)
  next
    case (BackfillStates reason dry)
    then show ?thesis using serve_moves[OF eok, of "Backfill reason dry"] run by (auto dest!: on_db_InrD)
  qed (use run eok in \<open>auto dest!: on_db_InrD intro: activate_moves deactivate_moves move_version_moves
      same_links_moves[OF create_links] same_links_moves[OF complete_links] same_links_moves[OF reopen_links]
      same_links_moves[OF patch_task_links] same_links_moves[OF patch_state_links]\<close>)
qed

lemma list_all2_to: "list_all2 R xs ys \<Longrightarrow> x \<in> set xs \<Longrightarrow> \<exists>y \<in> set ys. R x y"
  by (induction rule: list_all2_induct) auto

lemma list_all2_from: "list_all2 R xs ys \<Longrightarrow> y \<in> set ys \<Longrightarrow> \<exists>x \<in> set xs. R x y"
  by (induction rule: list_all2_induct) auto

lemma engine_effect_evidence: "engine_effect u l l' \<Longrightarrow> ln_evidence_id l' = ln_evidence_id l"
  by (auto simp: engine_effect_def)

lemma api_evidence_ok:
  assumes ok: "api_ok s" "evidence_ok (ad_db s)" and run: "serve_api r s = Inr u"
  shows "evidence_ok (ad_db u)"
proof -
  have cat: "catalog_eq (ad_db s) (ad_db u)" using api_step[OF ok(1) run] by (simp add: api_grows_def)
  have m: "next_id (ad_db s) \<le> next_id (ad_db u)" "link_effects (ad_db s) (ad_db u)"
    using api_moves[OF ok(1) run] by (simp_all add: moves_only_def)
  have "\<exists>l \<in> set (t_link (ad_db s)). ln_evidence_id l' = ln_evidence_id l" if l': "l' \<in> set (t_link (ad_db u))" for l'
  proof -
    obtain l where l: "l \<in> set (t_link (ad_db s))" "engine_effect (ad_db s) l l'" using list_all2_from[OF m(2) l'] by blast
    then show ?thesis using engine_effect_evidence[OF l(2)] by blast
  qed
  then have "ln_evidence_id ` set (t_link (ad_db u)) \<subseteq> ln_evidence_id ` set (t_link (ad_db s))" by blast
  then show ?thesis using ok(2) cat m(1) by (auto simp: evidence_ok_def catalog_eq_def intro: pk_ok_mono)
qed

end
