(* ===== verification/Document_Steps.thy ===== *)
theory Document_Steps
  imports Document_Facts Api_Links
begin

section \<open>The other operations on documents\<close>

text \<open>
  What the remaining operations keep of the documents' tables: approving again, tags, deletion, and
  every request that writes only the assessments' database, among them those of the assessment
  endpoints.
\<close>

subsection \<open>Approving again\<close>

lemma highest_SomeD: "highest vs = Some v \<Longrightarrow> v \<in> set vs"
  by (induction vs arbitrary: v) (auto split: option.splits if_splits)

lemma approved_version_SomeD:
  "approved_version i s = Some v \<Longrightarrow> v \<in> set (t_docversion s) \<and> dv_document_id v = i \<and> dv_status v = Approved"
  using highest_SomeD by (fastforce simp: approved_version_def versions_of_def)

lemma reaffirm_InrD:
  assumes "reaffirm org_id i contact_id note' s = Inr (a, s')"
  obtains d v c where "own_document org_id i s = Inr d" "approved_version i s = Some v"
    "get_contact contact_id s = Some c" "co_org_id c = org_id"
    "record_approval d (dv_id v) c Reaffirmation note' s = (a, s')"
  using assms unfolding reaffirm_def by (auto split: sum.splits option.splits if_splits)

lemma reaffirm_InrD2:
  assumes "reaffirm_document org_id i contact_id note' s = Inr s'"
  obtains a u ctx where "reaffirm org_id i contact_id note' s = Inr (a, u)"
    "s' = log_doc org_id ''document.reaffirm'' ''document'' i None None ctx u"
  using assms unfolding reaffirm_document_def by (auto split: sum.splits option.splits)

lemma record_approval_frame:
  assumes "record_approval d vid c ty note' s = (a, s')"
  shows "t_document s' = t_document s" "t_docversion s' = t_docversion s" "t_doctag s' = t_doctag s"
    "t_approval s' = t_approval s @ [a]" "dd_db s' = (dd_db s)\<lparr>next_id := Suc (new_row s)\<rparr>"
    "t_statement (dd_api s') = t_statement (dd_api s)"
    and "da_id a = new_row s" "da_document_id a = dc_id d" "da_version_id a = vid" "da_type a = ty"
    "da_at a = clock (dd_db s)"
  using assms by (auto simp: record_approval_def Let_def)

lemma reaffirm_step:
  assumes ok: "store_ok s" and run: "reaffirm org_id i contact_id note' s = Inr (a, s')"
  shows "doc_step s s'"
proof -
  from run obtain d v c where d: "own_document org_id i s = Inr d" and v: "approved_version i s = Some v"
    and r: "record_approval d (dv_id v) c Reaffirmation note' s = (a, s')"
    by (rule reaffirm_InrD)
  note f = record_approval_frame[OF r]
  note vin = approved_version_SomeD[OF v]
  note dd = own_document_InrD[OF d]
  have u: "t_docversion s' = map (\<lambda>v. v) (t_docversion s)" "t_document s' = map (\<lambda>d. d) (t_document s)"
    using f(1,2) by simp_all
  have P: "source_versions (dd_db s') = source_versions (dd_db s)" by (simp add: f(5) source_versions_eq)
  have "store_ok s'"
  proof (rule map_versions_store[OF ok u(1) _ _ _ _ u(2)])
    show "pk_ok da_id (new_row s') (t_approval s')"
      unfolding f(4,5) using pk_ok_snoc[of da_id "new_row s" "t_approval s" a] store_okD(1)[OF ok] f(7)
      by (simp add: doc_keys_def)
    show "b \<in> set (t_approval s) \<or> approval_ok ((\<lambda>v. v) ` set (t_docversion s)) b" if "b \<in> set (t_approval s')" for b
      using that vin dd f(8,9) unfolding f(4) approval_ok_def by (auto simp: manual_def intro!: bexI[of _ v])
    show "b = b'" if "b \<in> set (t_approval s')" "b' \<in> set (t_approval s')" "da_type b = Initial" "da_type b' = Initial"
      "da_version_id b = da_version_id b'" for b b'
      using ok that f(10) unfolding f(4) store_ok_def Let_def by auto
    show "version_ok (set (t_approval s')) (source_versions (dd_db s')) x" if "x \<in> set (t_docversion s)" for x
      using store_okD(7)[OF ok that] unfolding version_ok_def P f(4) by auto
    show "superseded_ok ((\<lambda>v. v) ` set (t_docversion s)) x" if "x \<in> set (t_docversion s)" for x
      using store_okD(9)[OF ok that] by simp
  qed (use f(3,5) P store_okD(8)[OF ok] in auto)
  moreover have "history_stands s s'"
    by (rule map_versions_history[OF u(1)]) (auto simp: f(1,4,5))
  ultimately show ?thesis by (simp add: doc_step_def)
qed

lemma reaffirm_document_step:
  assumes ok: "store_ok s" and run: "reaffirm_document org_id i contact_id note' s = Inr s'"
  shows "doc_step s s'"
proof -
  obtain a u ctx where r: "reaffirm org_id i contact_id note' s = Inr (a, u)"
    and s': "s' = log_doc org_id ''document.reaffirm'' ''document'' i None None ctx u"
    using run by (rule reaffirm_InrD2)
  show ?thesis unfolding s' by (rule doc_step_log[OF ok reaffirm_step[OF ok r]])
qed

subsection \<open>Tags\<close>

text \<open>The tags may change as long as they stay unique and name documents that are there.\<close>

lemma tags_step:
  assumes ok: "store_ok s" and n: "new_row s \<le> new_row s'"
    and same: "t_document s' = t_document s" "t_docversion s' = t_docversion s" "t_approval s' = t_approval s"
      "t_evidence (dd_db s') = t_evidence (dd_db s)" "t_audit (dd_db s') = t_audit (dd_db s)"
    and G: "pk_ok dg_id (new_row s') (t_doctag s')"
      "distinct (map (\<lambda>g. (dg_document_id g, dg_objective_id g)) (t_doctag s'))"
      "dg_document_id ` set (t_doctag s') \<subseteq> dc_id ` set (t_document s)"
  shows "doc_step s s'"
proof -
  have "doc_keys s'" using store_okD(1)[OF ok] n G(1,2) unfolding doc_keys_def same by (auto intro: pk_ok_mono)
  then have "store_ok s'"
    using ok G(3) unfolding store_ok_def Let_def same source_versions_same[OF same(4)] by simp
  then show ?thesis using n unfolding doc_step_def history_stands_def version_lives_def same by (auto intro: same_text_refl)
qed

lemma add_tag_step:
  assumes ok: "store_ok s" and d: "i \<in> dc_id ` set (t_document s)" and new: "fst t \<notin> set (document_tags i s)"
  shows "doc_step s (add_tag org_id i typed s t)"
proof -
  let ?g = "\<lparr>dg_id = new_row s, dg_document_id = i, dg_org_id = org_id, dg_objective_id = fst t\<rparr>"
  have k: "doc_keys s" and sub: "dg_document_id ` set (t_doctag s) \<subseteq> dc_id ` set (t_document s)"
    using ok by (simp_all add: store_ok_def Let_def)
  have "(i, fst t) \<notin> (\<lambda>g. (dg_document_id g, dg_objective_id g)) ` set (t_doctag s)"
    using new by (auto simp: document_tags_def)
  then show ?thesis
    unfolding add_tag_def Let_def
    using k sub d pk_ok_snoc[of dg_id "new_row s" "t_doctag s" ?g]
    by (intro doc_step_log[OF ok] tags_step[OF ok]) (simp_all add: doc_keys_def)
qed

lemma add_tag_frame:
  "t_document (add_tag org_id i typed s t) = t_document s"
  "t_docversion (add_tag org_id i typed s t) = t_docversion s"
  "t_approval (add_tag org_id i typed s t) = t_approval s"
  "document_tags i (add_tag org_id i typed s t) = document_tags i s @ [fst t]"
  "\<exists>g. t_doctag (add_tag org_id i typed s t) = t_doctag s @ [g]"
  by (simp_all add: add_tag_def Let_def document_tags_def)

lemma add_tags_step:
  assumes "store_ok s" "i \<in> dc_id ` set (t_document s)" "distinct (map fst ts)"
    "\<forall>t \<in> set ts. fst t \<notin> set (document_tags i s)"
  shows "doc_step s (foldl (add_tag org_id i typed) s ts)"
  using assms
proof (induction ts arbitrary: s)
  case Nil
  then show ?case by (simp add: doc_step_def)
next
  case (Cons t ts)
  let ?u = "add_tag org_id i typed s t"
  have st: "doc_step s ?u" using Cons.prems by (intro add_tag_step) simp_all
  have "doc_step ?u (foldl (add_tag org_id i typed) ?u ts)"
  proof (rule Cons.IH)
    show "store_ok ?u" using st by (simp add: doc_step_def)
    show "\<forall>t' \<in> set ts. fst t' \<notin> set (document_tags i ?u)"
      using Cons.prems(3,4) unfolding add_tag_frame by (metis (no_types, lifting) Un_iff distinct.simps(2) empty_iff
        image_eqI insert_iff list.set(1,2) list.set_map list.simps(9) set_append set_subset_Cons subsetD)
  qed (use Cons.prems in \<open>simp_all add: add_tag_frame\<close>)
  then show ?case using doc_step_trans[OF Cons.prems(1) st] by simp
qed

lemma map_fst_filter_distinct: "distinct (map f xs) \<Longrightarrow> distinct (map f (filter P xs))"
  by (rule distinct_map_filter)

lemma practice_rows_distinct:
  assumes "schema_ok u"
  shows "distinct (map (\<lambda>(ob, fw). ob_id ob) (practice_rows org_id practice letter u))"
proof -
  have ob: "distinct (map ob_id (t_objective u))" using assms by (simp add: schema_ok_def catalog_ok_def pk_ok_def)
  have join: "distinct (map (ob_id \<circ> fst) (join_on get obs))" if "distinct (map ob_id obs)" for get :: "objective \<Rightarrow> control option" and obs
  proof -
    have "fst ` set (join_on get xs) \<subseteq> set xs" for xs :: "objective list" by (auto simp: in_join_on)
    then show ?thesis using that by (induction obs) (auto split: option.split simp: in_join_on)
  qed
  let ?f = "\<lambda>(ob, fw). ob_id ob"
  have 1: "distinct (map ?f (map (\<lambda>(ob, c). (ob, c_framework_id c)) (filter P (join_on get (t_objective u)))))" for P and get :: "objective \<Rightarrow> control option"
    using map_fst_filter_distinct[OF join[OF ob, of get], of P] by (simp add: case_prod_unfold comp_def)
  have 2: "distinct (map ?f (sort_key k rows))" if "distinct (map ?f rows)" for k :: "objective \<times> uuid \<Rightarrow> string \<times> uuid" and rows
    using that by (simp add: distinct_map)
  show ?thesis unfolding practice_rows_def Let_def
    by (simp split: option.split) (intro conjI impI allI map_fst_filter_distinct 2 1)
qed

lemma wanted_distinct:
  assumes "schema_ok u" "wanted_tags org_id objective_id objective_key u = Inr ts"
  shows "distinct (map fst ts)"
proof -
  have r: "distinct (map fst ts)" if run: "resolve_tag_key org_id typed u = Inr ts" for typed
  proof -
    obtain practice letter where "ts = map (\<lambda>(ob, fw). (ob_id ob, full_key practice (ob_key ob))) (practice_rows org_id practice letter u)"
    proof -
      obtain typed' letter where p: "(case split_objective (py_strip typed) of None \<Rightarrow> (py_strip typed, None)
          | Some (p, k) \<Rightarrow> (p, Some (py_lower k))) = (typed', letter)" by (metis surj_pair)
      obtain practice where "practice_key typed' = Some practice"
        using run unfolding resolve_tag_key_def Let_def p by (auto split: option.splits)
      with run show thesis unfolding resolve_tag_key_def Let_def p
        by (intro that[of practice letter]) (simp split: if_splits)
    qed
    then show ?thesis using practice_rows_distinct[OF assms(1)] by (simp add: case_prod_unfold comp_def)
  qed
  show ?thesis using assms(2) r unfolding wanted_tags_def by (auto split: option.splits simp: objective_named_def)
qed

lemma add_objective_tag_InrD:
  assumes "add_objective_tag org_id i objective_id objective_key s = Inr s'"
  obtains d wanted where "own_document org_id i s = Inr d" "wanted_tags org_id objective_id objective_key (dd_db s) = Inr wanted"
    "s' = foldl (add_tag org_id i objective_key) s (filter (\<lambda>t. fst t \<notin> set (document_tags i s)) wanted)"
  using assms unfolding add_objective_tag_def Let_def by (auto split: sum.splits)

lemma add_objective_tag_step:
  assumes ok: "store_ok s" "schema_ok (dd_db s)" and run: "add_objective_tag org_id i objective_id objective_key s = Inr s'"
  shows "doc_step s s'"
proof -
  from run obtain d wanted where d: "own_document org_id i s = Inr d"
    and w: "wanted_tags org_id objective_id objective_key (dd_db s) = Inr wanted"
    and s': "s' = foldl (add_tag org_id i objective_key) s (filter (\<lambda>t. fst t \<notin> set (document_tags i s)) wanted)"
    by (rule add_objective_tag_InrD)
  show ?thesis unfolding s'
    by (rule add_tags_step[OF ok(1)])
      (use own_document_InrD[OF d] map_fst_filter_distinct[OF wanted_distinct[OF ok(2) w]] in auto)
qed

lemma remove_tag_InrD:
  assumes "remove_objective_tag org_id i objective_id s = Inr s'"
  obtains d af where "own_document org_id i s = Inr d" "tag_removal_links i objective_id s = []"
    "s' = log_doc org_id ''document.objective_tag.remove'' ''document'' i af None via_api
       (s\<lparr>t_doctag := filter (\<lambda>g. \<not> (dg_document_id g = i \<and> dg_objective_id g = objective_id)) (t_doctag s)\<rparr>)"
  using assms unfolding remove_objective_tag_def Let_def by (auto split: sum.splits option.splits if_splits)

lemma remove_tag_step:
  assumes ok: "store_ok s" and run: "remove_objective_tag org_id i objective_id s = Inr s'"
  shows "doc_step s s'"
proof -
  obtain af where s': "s' = log_doc org_id ''document.objective_tag.remove'' ''document'' i af None via_api
       (s\<lparr>t_doctag := filter (\<lambda>g. \<not> (dg_document_id g = i \<and> dg_objective_id g = objective_id)) (t_doctag s)\<rparr>)"
    using run by (rule remove_tag_InrD)
  have k: "doc_keys s" and sub: "dg_document_id ` set (t_doctag s) \<subseteq> dc_id ` set (t_document s)"
    using ok by (simp_all add: store_ok_def Let_def)
  show ?thesis unfolding s'
    using k sub
    by (intro doc_step_log[OF ok] tags_step[OF ok]) (auto simp: doc_keys_def pk_ok_filter distinct_map_filter)
qed

subsection \<open>Deleting a document\<close>

lemma delete_document_InrD:
  assumes "delete_document org_id i s = Inr s'"
  obtains d b where "own_document org_id i s = Inr d"
    "\<forall>v \<in> set (t_docversion s). dv_document_id v = i \<longrightarrow> dv_id v \<notin> source_versions (dd_db s)"
    "s' = (log_doc org_id ''document.delete'' ''document'' i b None via_api s)\<lparr>
       t_document := filter (\<lambda>r. dc_id r \<noteq> i) (t_document s),
       t_docversion := filter (\<lambda>r. dv_document_id r \<noteq> i) (t_docversion s),
       t_doctag := filter (\<lambda>r. dg_document_id r \<noteq> i) (t_doctag s),
       t_approval := filter (\<lambda>r. da_document_id r \<noteq> i) (t_approval s)\<rparr>"
proof -
  obtain d where d: "own_document org_id i s = Inr d"
    using assms unfolding delete_document_def by (cases "own_document org_id i s") simp_all
  have no: "\<not> list_ex (\<lambda>e. list_ex (\<lambda>v. ev_source_document_version e = Some (dv_id v)) (versions_of i s)) (t_evidence (dd_db s))"
    using assms unfolding delete_document_def d by (simp split: if_splits)
  have run: "s' = (log_doc org_id ''document.delete'' ''document'' i
       (Some [(''doc_id'', JStr (dc_doc_id d)), (''title'', JStr (dc_title d))]) None via_api s)\<lparr>
       t_document := filter (\<lambda>r. dc_id r \<noteq> i) (t_document s),
       t_docversion := filter (\<lambda>r. dv_document_id r \<noteq> i) (t_docversion s),
       t_doctag := filter (\<lambda>r. dg_document_id r \<noteq> i) (t_doctag s),
       t_approval := filter (\<lambda>r. da_document_id r \<noteq> i) (t_approval s)\<rparr>"
    using assms no unfolding delete_document_def Let_def d by simp
  show thesis
    by (rule that[OF d _ run]) (use no in \<open>auto simp: list_ex_iff versions_of_def source_versions_eq\<close>)
qed

lemma delete_document_step:
  assumes ok: "store_ok s" and run: "delete_document org_id i s = Inr s'"
  shows "doc_step s s'"
proof -
  from run obtain d b where "own_document org_id i s = Inr d" and unpub: "\<forall>v \<in> set (t_docversion s). dv_document_id v = i \<longrightarrow> dv_id v \<notin> source_versions (dd_db s)"
    and s': "s' = (log_doc org_id ''document.delete'' ''document'' i b None via_api s)\<lparr>
       t_document := filter (\<lambda>r. dc_id r \<noteq> i) (t_document s),
       t_docversion := filter (\<lambda>r. dv_document_id r \<noteq> i) (t_docversion s),
       t_doctag := filter (\<lambda>r. dg_document_id r \<noteq> i) (t_doctag s),
       t_approval := filter (\<lambda>r. da_document_id r \<noteq> i) (t_approval s)\<rparr>"
    by (rule delete_document_InrD)
  have sets: "set (t_document s') = {d \<in> set (t_document s). dc_id d \<noteq> i}"
    "set (t_docversion s') = {v \<in> set (t_docversion s). dv_document_id v \<noteq> i}"
    "set (t_doctag s') = {g \<in> set (t_doctag s). dg_document_id g \<noteq> i}"
    "set (t_approval s') = {a \<in> set (t_approval s). da_document_id a \<noteq> i}"
    and ev: "t_evidence (dd_db s') = t_evidence (dd_db s)" and nr: "new_row s \<le> new_row s'"
    and au: "prefix (t_audit (dd_db s)) (t_audit (dd_db s'))"
    unfolding s' by (auto simp: log_event_as_def)
  have man: "manual (dv_status v)" if "v \<in> set (t_docversion s)" "dv_document_id v = i" for v
    using store_okD(7)[OF ok that(1)] unpub that unfolding version_ok_def by (simp split: if_splits)
  have noapp: "da_document_id a \<noteq> i" if a: "a \<in> set (t_approval s)" for a
  proof
    assume e: "da_document_id a = i"
    obtain v where "v \<in> set (t_docversion s)" "dv_document_id v = i" "\<not> manual (dv_status v)"
      using store_okD(5)[OF ok a] unfolding approval_ok_def e by blast
    then show False using man by blast
  qed
  have app: "set (t_approval s') = set (t_approval s)" unfolding sets using noapp by blast
  note P = source_versions_same[OF ev]
  have k: "doc_keys s'"
    using store_okD(1)[OF ok] nr unfolding doc_keys_def s'
    by (auto simp: distinct_map_filter intro: pk_ok_mono pk_ok_filter)
  have "store_ok s'"
    unfolding store_ok_def Let_def P app
  proof (intro conjI ballI impI)
    show "doc_keys s'" by (rule k)
    show "dv_document_id ` set (t_docversion s') \<subseteq> dc_id ` set (t_document s')"
      using store_okD(2)[OF ok] unfolding sets by force
    show "dg_document_id ` set (t_doctag s') \<subseteq> dc_id ` set (t_document s')"
      using store_okD(3)[OF ok] unfolding sets by force
    show "current_ok (set (t_docversion s')) d" if "d \<in> set (t_document s')" for d
      using store_okD(4)[OF ok, of d] that unfolding sets current_ok_def by auto
    show "approval_ok (set (t_docversion s')) a" if "a \<in> set (t_approval s)" for a
      using store_okD(5)[OF ok that] noapp[OF that] unfolding sets approval_ok_def by auto
    show "a = b" if "a \<in> set (t_approval s)" "b \<in> set (t_approval s)"
      "da_type a = Initial \<and> da_type b = Initial \<and> da_version_id a = da_version_id b" for a b
      using ok that unfolding store_ok_def Let_def by blast
    show "\<exists>v \<in> set (t_docversion s'). dv_id v = j \<and> \<not> manual (dv_status v)" if "j \<in> source_versions (dd_db s)" for j
      using store_okD(6)[OF ok that] man unfolding sets by blast
    show "version_ok (set (t_approval s)) (source_versions (dd_db s)) v" if "v \<in> set (t_docversion s')" for v
      using store_okD(7)[OF ok, of v] that unfolding sets by simp
    show "v = w" if "v \<in> set (t_docversion s')" "w \<in> set (t_docversion s')"
      "dv_status v = Approved \<and> dv_status w = Approved \<and> dv_document_id v = dv_document_id w" for v w
      using store_okD(8)[OF ok, of v w] that unfolding sets by blast
    show "superseded_ok (set (t_docversion s')) v" if "v \<in> set (t_docversion s')" for v
      using store_okD(9)[OF ok, of v] that unfolding sets superseded_ok_def by auto
  qed
  moreover have "history_stands s s'"
    unfolding history_stands_def
  proof (intro conjI ballI)
    show "version_lives s' v" if v: "v \<in> set (t_docversion s)" for v
    proof (cases "dv_document_id v = i")
      case True
      have "dv_id v \<notin> dv_id ` set (t_docversion s')"
      proof
        assume "dv_id v \<in> dv_id ` set (t_docversion s')"
        then obtain w where w: "w \<in> set (t_docversion s)" "dv_document_id w \<noteq> i" "dv_id v = dv_id w" unfolding sets by auto
        have "pk_ok dv_id (new_row s) (t_docversion s)" using store_okD(1)[OF ok] by (simp add: doc_keys_def)
        from pk_ok_inj[OF this v w(1,3)] show False using True w(2) by simp
      qed
      then show ?thesis using man[OF v True] True unfolding version_lives_def sets by auto
    next
      case False
      then show ?thesis using v unfolding version_lives_def sets by (auto intro!: bexI[of _ v])
    qed
  qed (use app ev au nr sets in auto)
  ultimately show ?thesis by (simp add: doc_step_def)
qed

subsection \<open>Requests that write only the assessments' database\<close>

lemma api_step_doc:
  assumes ok: "store_ok s" "api_ok (dd_api s)" and run: "serve_api r (dd_api s) = Inr u"
  shows "doc_step s (s\<lparr>dd_api := u\<rparr>)"
  using api_step[OF ok(2) run] api_moves[OF ok(2) run]
  by (intro doc_step_same[OF ok(1)]) (simp_all add: api_grows_def catalog_eq_def append_only_def moves_only_def)

end
