(* ===== verification/Document_Links.thy ===== *)
theory Document_Links
  imports Document_Steps Review_Steps
begin

section \<open>The links of published documents\<close>

text \<open>
  A control state's link rests on a version of a document when the artifact it names is that
  version. No operation of the engine moves such a link; while it is live the document is tagged
  with the state's objective, and a control state has at most one live link to a document.
\<close>

definition link_version :: "document_db \<Rightarrow> state_link \<Rightarrow> doc_version option" where
  "link_version s l =
     (case get_evidence (ln_evidence_id l) (dd_db s) of None \<Rightarrow> None | Some e \<Rightarrow>
      case ev_source_document_version e of None \<Rightarrow> None | Some i \<Rightarrow> get_docversion i s)"

definition link_doc :: "document_db \<Rightarrow> state_link \<Rightarrow> uuid option" where
  "link_doc s l = map_option dv_document_id (link_version s l)"

definition doc_links :: "document_db \<Rightarrow> (state_link \<times> uuid) set" where
  "doc_links s = {(l, d). l \<in> set (t_link (dd_db s)) \<and> link_doc s l = Some d}"

text \<open>What a live link of document \<open>d\<close> on a state rests on.\<close>

definition rests :: "document_db \<Rightarrow> uuid \<Rightarrow> uuid \<Rightarrow> bool" where
  "rests s d i \<longleftrightarrow> (\<exists>cs ob. get_state i (dd_db s) = Some cs \<and> get_objective (cs_objective_id cs) (dd_db s) = Some ob \<and>
     get_control (ob_control_id ob) (dd_db s) \<noteq> None \<and> is_tagged d cs s)"

definition links_rest :: "document_db \<Rightarrow> bool" where
  "links_rest s \<longleftrightarrow>
     (\<forall>(l, d) \<in> doc_links s. ln_archived_by_product l = None \<and> (\<not> ln_is_archived l \<longrightarrow> rests s d (ln_state_id l))) \<and>
     (\<forall>(l, d) \<in> doc_links s. \<forall>(m, e) \<in> doc_links s. \<not> ln_is_archived l \<and> \<not> ln_is_archived m \<and> d = e \<and>
        ln_state_id l = ln_state_id m \<longrightarrow> l = m)"

definition doc_ok :: "document_db \<Rightarrow> bool" where
  "doc_ok s \<longleftrightarrow> api_ok (dd_api s) \<and> store_ok s \<and> evidence_ok (dd_db s) \<and> links_rest s"

lemma live_document_links_eq:
  "live_document_links s = join_on (link_version s) (filter (\<lambda>l. \<not> ln_is_archived l) (t_link (dd_db s)))"
  unfolding live_document_links_def link_version_def ..

lemma in_live_document_links:
  "(l, v) \<in> set (live_document_links s) \<longleftrightarrow> l \<in> set (t_link (dd_db s)) \<and> \<not> ln_is_archived l \<and> link_version s l = Some v"
  unfolding live_document_links_eq in_join_on by auto

lemma in_live_for:
  "(l, v) \<in> set (live_for i d s) \<longleftrightarrow> l \<in> set (t_link (dd_db s)) \<and> \<not> ln_is_archived l \<and> link_version s l = Some v \<and>
     ln_state_id l = i \<and> dv_document_id v = d"
  unfolding live_for_def by (auto simp: in_live_document_links)

lemma live_for_doc_links:
  "live_for i d s = [] \<longleftrightarrow> (\<forall>(l, e) \<in> doc_links s. \<not> (e = d \<and> ln_state_id l = i \<and> \<not> ln_is_archived l))"
proof
  assume e: "live_for i d s = []"
  show "\<forall>(l, e) \<in> doc_links s. \<not> (e = d \<and> ln_state_id l = i \<and> \<not> ln_is_archived l)"
    using in_live_for[of _ _ i d s] unfolding e doc_links_def link_doc_def by auto
next
  assume a: "\<forall>(l, e) \<in> doc_links s. \<not> (e = d \<and> ln_state_id l = i \<and> \<not> ln_is_archived l)"
  have "x \<notin> set (live_for i d s)" for x
    using a in_live_for[of "fst x" "snd x" i d s] unfolding doc_links_def link_doc_def by auto
  then show "live_for i d s = []" by (metis list.set_intros(1) neq_Nil_conv)
qed

subsection \<open>The version a link rests on does not change\<close>

lemma published_version_kept:
  assumes ok: "store_ok s" "store_ok s'" and h: "history_stands s s'" and i: "i \<in> source_versions (dd_db s)"
  shows "map_option dv_document_id (get_docversion i s') = map_option dv_document_id (get_docversion i s)"
    and "get_docversion i s \<noteq> None"
proof -
  have pk: "pk_ok dv_id (new_row s) (t_docversion s)" "pk_ok dv_id (new_row s') (t_docversion s')"
    using store_okD(1)[OF ok(1)] store_okD(1)[OF ok(2)] by (simp_all add: doc_keys_def)
  obtain v where v: "v \<in> set (t_docversion s)" "dv_id v = i" "\<not> manual (dv_status v)"
    using store_okD(6)[OF ok(1) i] by blast
  have "version_lives s' v" using h v(1) by (simp add: history_stands_def)
  then obtain v' where v': "v' \<in> set (t_docversion s')" "same_text v v'" using v(3) unfolding version_lives_def by blast
  have g: "get_docversion i s = Some v" "get_docversion i s' = Some v'"
    using pk_ok_tget[OF pk(1) v(1)] pk_ok_tget[OF pk(2) v'(1)] v(2) v'(2) by (simp_all add: same_text_def)
  show "map_option dv_document_id (get_docversion i s') = map_option dv_document_id (get_docversion i s)"
    using v'(2) g by (simp add: same_text_def)
  show "get_docversion i s \<noteq> None" using g by simp
qed

lemma get_evidence_kept:
  assumes "prefix (t_evidence u) (t_evidence u')" "i \<in> ev_id ` set (t_evidence u)"
  shows "get_evidence i u' = get_evidence i u" "get_evidence i u \<noteq> None"
proof -
  obtain e where e: "get_evidence i u = Some e" using assms(2) tget_None_iff[of ev_id i "t_evidence u"] by auto
  obtain zs where "t_evidence u' = t_evidence u @ zs" using assms(1) by (auto simp: prefix_def)
  then show "get_evidence i u' = get_evidence i u" using e by (simp add: tget_append)
  show "get_evidence i u \<noteq> None" using e by simp
qed

lemma link_doc_kept:
  assumes ok: "store_ok s" and st: "doc_step s s'" and e: "ln_evidence_id l \<in> ev_id ` set (t_evidence (dd_db s))"
  shows "link_doc s' l = link_doc s l"
proof -
  have h: "store_ok s'" "history_stands s s'" using st by (simp_all add: doc_step_def)
  have "prefix (t_evidence (dd_db s)) (t_evidence (dd_db s'))" using h(2) by (simp add: history_stands_def)
  note g = get_evidence_kept[OF this e]
  then obtain ev where ev: "get_evidence (ln_evidence_id l) (dd_db s) = Some ev" by auto
  show ?thesis
  proof (cases "ev_source_document_version ev")
    case None
    then show ?thesis using g ev by (simp add: link_doc_def link_version_def)
  next
    case (Some i)
    have "ev \<in> set (t_evidence (dd_db s))" using tget_SomeD[OF ev] by simp
    then have "i \<in> source_versions (dd_db s)" using Some by (auto simp: source_versions_eq)
    from published_version_kept(1)[OF ok h this] show ?thesis
      using g ev Some by (simp add: link_doc_def link_version_def)
  qed
qed

lemma link_doc_evidence: "ln_evidence_id l' = ln_evidence_id l \<Longrightarrow> link_doc s l' = link_doc s l"
  by (simp add: link_doc_def link_version_def)

lemma link_doc_from_library: "link_doc s l = Some d \<Longrightarrow> from_library (dd_db s) l"
  by (auto simp: link_doc_def link_version_def from_library_def split: option.splits)

subsection \<open>Requests that move no link of a document\<close>

lemma doc_links_effects:
  assumes ok: "store_ok s" "evidence_ok (dd_db s)" "links_rest s" and st: "doc_step s s'"
    and eff: "link_effects (dd_db s) (dd_db s')"
  shows "doc_links s' = doc_links s"
proof -
  have ev: "ln_evidence_id l \<in> ev_id ` set (t_evidence (dd_db s))" if "l \<in> set (t_link (dd_db s))" for l
    using ok(2) that by (auto simp: evidence_ok_def)
  have same: "l' = l" if l: "l \<in> set (t_link (dd_db s))" "link_doc s l = Some d" and e: "engine_effect (dd_db s) l l'" for l l' d
  proof -
    have "ln_archived_by_product l = None" using ok(3) l unfolding links_rest_def doc_links_def by blast
    then show ?thesis using e link_doc_from_library[OF l(2)] by (simp add: engine_effect_def)
  qed
  have to: "\<exists>l' \<in> set (t_link (dd_db s')). engine_effect (dd_db s) l l'" if "l \<in> set (t_link (dd_db s))" for l
    using list_all2_to[OF eff that] .
  have came: "\<exists>l \<in> set (t_link (dd_db s)). engine_effect (dd_db s) l l'" if "l' \<in> set (t_link (dd_db s'))" for l'
    using list_all2_from[OF eff that] .
  show ?thesis
  proof (intro set_eqI iffI)
    fix x assume "x \<in> doc_links s"
    then obtain l d where x: "x = (l, d)" "l \<in> set (t_link (dd_db s))" "link_doc s l = Some d" by (auto simp: doc_links_def)
    obtain l' where l': "l' \<in> set (t_link (dd_db s'))" "engine_effect (dd_db s) l l'" using to[OF x(2)] by blast
    have "l' = l" by (rule same[OF x(2,3) l'(2)])
    then show "x \<in> doc_links s'" using l'(1) x link_doc_kept[OF ok(1) st ev[OF x(2)]] by (simp add: doc_links_def)
  next
    fix x assume "x \<in> doc_links s'"
    then obtain l' d where x: "x = (l', d)" "l' \<in> set (t_link (dd_db s'))" "link_doc s' l' = Some d" by (auto simp: doc_links_def)
    obtain l where l: "l \<in> set (t_link (dd_db s))" "engine_effect (dd_db s) l l'" using came[OF x(2)] by blast
    have "link_doc s l = Some d"
      using x(3) link_doc_evidence[OF engine_effect_evidence[OF l(2)], of s'] link_doc_kept[OF ok(1) st ev[OF l(1)]] by simp
    then show "x \<in> doc_links s" using same[OF l(1) _ l(2)] l(1) x(1) by (simp add: doc_links_def)
  qed
qed

lemma links_rest_kept:
  assumes "links_rest s" "doc_links s' = doc_links s"
    and "\<And>l d. (l, d) \<in> doc_links s \<Longrightarrow> \<not> ln_is_archived l \<Longrightarrow> rests s d (ln_state_id l) \<Longrightarrow> rests s' d (ln_state_id l)"
  shows "links_rest s'"
  using assms unfolding links_rest_def assms(2) by blast

lemma rests_kept:
  assumes "keeps_states (dd_db s) (dd_db s')" "t_objective (dd_db s') = t_objective (dd_db s)"
    and "t_control (dd_db s') = t_control (dd_db s)" and r: "rests s d i"
    and g: "\<And>ob. is_tagged d ob s \<Longrightarrow> get_state i (dd_db s) = Some ob \<Longrightarrow> is_tagged d ob s'"
  shows "rests s' d i"
proof -
  obtain cs ob where cs: "get_state i (dd_db s) = Some cs" "get_objective (cs_objective_id cs) (dd_db s) = Some ob"
    "get_control (ob_control_id ob) (dd_db s) \<noteq> None" "is_tagged d cs s" using r unfolding rests_def by blast
  obtain cs' where cs': "get_state i (dd_db s') = Some cs'" "cs_objective_id cs' = cs_objective_id cs"
    using assms(1) cs(1) unfolding keeps_states_def state_key_def by fastforce
  have "is_tagged d cs s'" by (rule g[OF cs(4,1)])
  then show ?thesis using cs cs' assms(2,3) unfolding rests_def by (simp add: is_tagged_def)
qed

text \<open>Operations on the documents change nothing of the engine's tables but the ledger, the
  identifiers and, when a document is published, the artifacts.\<close>

definition keeps_engine :: "document_db \<Rightarrow> document_db \<Rightarrow> bool" where
  "keeps_engine s s' \<longleftrightarrow>
     (engine_ok (dd_db s) \<longrightarrow> engine_ok (dd_db s')) \<and> (evidence_ok (dd_db s) \<longrightarrow> evidence_ok (dd_db s')) \<and>
     t_link (dd_db s') = t_link (dd_db s) \<and> t_cstate (dd_db s') = t_cstate (dd_db s) \<and>
     t_objective (dd_db s') = t_objective (dd_db s) \<and> t_control (dd_db s') = t_control (dd_db s) \<and>
     t_statement (dd_api s') = t_statement (dd_api s)"

lemma keeps_engine_trans: "keeps_engine s t \<Longrightarrow> keeps_engine t u \<Longrightarrow> keeps_engine s u"
  by (simp add: keeps_engine_def)

lemma keeps_engine_same: "dd_api s' = dd_api s \<Longrightarrow> keeps_engine s s'"
  by (simp add: keeps_engine_def)

lemma evidence_ok_mono: "evidence_ok u \<Longrightarrow> next_id u \<le> n \<Longrightarrow> evidence_ok (u\<lparr>next_id := n\<rparr>)"
  by (auto simp: evidence_ok_def intro: pk_ok_mono)

lemma keeps_engine_log: "keeps_engine s (log_doc og a e i b af c s)"
proof -
  have "pk_ok ev_id (Suc (new_row s)) (t_evidence (dd_db s))" if "pk_ok ev_id (new_row s) (t_evidence (dd_db s))"
    by (rule pk_ok_mono[OF that]) simp
  then show ?thesis using engine_ok_log_event[of "dd_db s"] by (simp add: keeps_engine_def evidence_ok_def)
qed

lemma keeps_engine_take: "keeps_engine s (take_row s)"
  using engine_ok_take[of "dd_db s" 1] evidence_ok_mono[of "dd_db s" "Suc (new_row s)"] by (simp add: keeps_engine_def)

lemma keeps_engine_evidence: "keeps_engine s (snd (add_document_evidence org_id d vid now s))"
proof -
  have e: "dd_db (snd (add_document_evidence org_id d vid now s)) =
      add_evidence (document_evidence_row (new_row s) org_id d vid now) (dd_db s)"
    by (simp add: add_document_evidence_def Let_def add_evidence_def)
  show ?thesis
    using engine_ok_add_evidence evidence_ok_add_evidence[of "dd_db s"]
    by (simp add: keeps_engine_def e) (simp add: add_evidence_def add_document_evidence_def Let_def document_evidence_row_def)
qed

lemma keeps_engine_new_version: "keeps_engine s (snd (new_version org_id i n body s))"
  using keeps_engine_take[of s] by (simp add: new_version_def Let_def keeps_engine_def)

lemma keeps_engine_approval: "record_approval d vid c ty note' s = (a, s') \<Longrightarrow> keeps_engine s s'"
  using keeps_engine_take[of s] record_approval_frame[of d vid c ty note' s a s'] by (simp add: keeps_engine_def)

lemma keeps_engine_tag: "keeps_engine s (add_tag org_id i typed s t)"
proof -
  have "keeps_engine s ((take_row s)\<lparr>t_doctag := g\<rparr>)" for g using keeps_engine_take[of s] by (simp add: keeps_engine_def)
  then show ?thesis unfolding add_tag_def Let_def by (rule keeps_engine_trans[OF _ keeps_engine_log])
qed

lemma keeps_engine_tags: "keeps_engine s (foldl (add_tag org_id i typed) s ts)"
proof (induction ts arbitrary: s)
  case (Cons t ts)
  show ?case unfolding foldl.simps by (rule keeps_engine_trans[OF keeps_engine_tag Cons.IH])
qed (simp add: keeps_engine_same)

lemma create_engine:
  assumes "create_document org_id key ty title cadence body s = Inr s'"
  shows "keeps_engine s s'"
proof -
  from assms obtain k t nm m d where "check_doc_id key = Some k"
    and s': "s' = log_doc org_id ''document.create'' ''document'' (new_row s) None
       (Some [(''doc_id'', JStr k), (''title'', JStr nm)]) via_api
       (snd (new_version org_id (new_row s) 1 body ((take_row s)\<lparr>t_document := t_document s @ [d]\<rparr>)))"
    by (rule create_document_InrD)
  have "keeps_engine s ((take_row s)\<lparr>t_document := t_document s @ [d]\<rparr>)"
    using keeps_engine_take[of s] by (simp add: keeps_engine_def)
  then show ?thesis unfolding s'
    by (rule keeps_engine_trans[OF keeps_engine_trans[OF _ keeps_engine_new_version] keeps_engine_log])
qed

lemma patch_engine:
  assumes "patch_document org_id i title ty cadence s = Inr s'"
  shows "keeps_engine s s'"
  using patch_document_InrD[OF assms] keeps_engine_trans[OF keeps_engine_same keeps_engine_log]
  by (auto simp: keeps_engine_same)

lemma delete_engine:
  assumes "delete_document org_id i s = Inr s'"
  shows "keeps_engine s s'"
proof -
  from assms obtain d b where "own_document org_id i s = Inr d" and
    s': "s' = (log_doc org_id ''document.delete'' ''document'' i b None via_api s)\<lparr>
       t_document := filter (\<lambda>r. dc_id r \<noteq> i) (t_document s),
       t_docversion := filter (\<lambda>r. dv_document_id r \<noteq> i) (t_docversion s),
       t_doctag := filter (\<lambda>r. dg_document_id r \<noteq> i) (t_doctag s),
       t_approval := filter (\<lambda>r. da_document_id r \<noteq> i) (t_approval s)\<rparr>"
    by (rule delete_document_InrD)
  show ?thesis unfolding s' by (rule keeps_engine_trans[OF keeps_engine_log keeps_engine_same]) simp
qed

lemma save_engine:
  assumes "create_document_version org_id i body base s = Inr s'"
  shows "keeps_engine s s'"
proof -
  obtain af j n where "s' = log_doc org_id ''document.version.create'' ''document_version'' j None af via_api
       (snd (new_version org_id i n body s))"
    using assms unfolding create_document_version_def Let_def
    by (auto simp: case_prod_unfold split: sum.splits if_splits)
  then show ?thesis using keeps_engine_trans[OF keeps_engine_new_version keeps_engine_log] by simp
qed

lemma patch_version_engine:
  assumes "patch_document_version_status org_id i vid st s = Inr s'"
  shows "keeps_engine s s'"
proof -
  from assms obtain st' v d b af where "get_docversion vid s = Some v" "own_document org_id i s = Inr d"
    and s': "s' = log_doc org_id ''document.version.status_change'' ''document_version'' vid b af via_api
       (update_version vid (\<lambda>r. r\<lparr>dv_status := st'\<rparr>) s)"
    by (rule patch_version_InrD)
  show ?thesis unfolding s' by (rule keeps_engine_trans[OF keeps_engine_same keeps_engine_log]) simp
qed

lemma publish_engine:
  assumes "publish_document org_id i contact_id s = Inr s'"
  shows "keeps_engine s s'"
proof -
  from assms obtain d vid v c u af where "own_document org_id i s = Inr d" "get_docversion vid s = Some v"
    and p: "published i vid c s u"
    and s': "s' = log_doc org_id ''document.publish'' ''document_version'' vid None af via_api u"
    by (rule publish_InrD)
  obtain dd where u: "dd_db u = (dd_db s)\<lparr>next_id := Suc (Suc (new_row s)), t_evidence := t_evidence (dd_db s) @
         [document_evidence_row (Suc (new_row s)) (dc_org_id dd) dd vid (clock (dd_db s))]\<rparr>"
    "t_statement (dd_api u) = t_statement (dd_api s)" using p unfolding published_def by blast
  let ?e = "document_evidence_row (Suc (new_row s)) (dc_org_id dd) dd vid (clock (dd_db s))"
  have e: "dd_db u = add_evidence ?e ((dd_db s)\<lparr>next_id := Suc (new_row s)\<rparr>)" by (simp add: u(1) add_evidence_def)
  have "engine_ok (dd_db s) \<Longrightarrow> engine_ok (dd_db u)"
    unfolding e using engine_ok_take[of "dd_db s" 1] by (intro engine_ok_add_evidence) simp
  moreover have "evidence_ok (dd_db s) \<Longrightarrow> evidence_ok (dd_db u)"
    unfolding e by (intro evidence_ok_add_evidence evidence_ok_mono) (simp_all add: document_evidence_row_def)
  ultimately have "keeps_engine s u" unfolding keeps_engine_def by (simp add: u)
  then show ?thesis unfolding s' by (rule keeps_engine_trans[OF _ keeps_engine_log])
qed

lemma reaffirm_engine:
  assumes "reaffirm_document org_id i contact_id note' s = Inr s'"
  shows "keeps_engine s s'"
proof -
  obtain a u ctx where r: "reaffirm org_id i contact_id note' s = Inr (a, u)"
    and s': "s' = log_doc org_id ''document.reaffirm'' ''document'' i None None ctx u"
    using assms by (rule reaffirm_InrD2)
  from r obtain d v c where "own_document org_id i s = Inr d" "approved_version i s = Some v"
    and a: "record_approval d (dv_id v) c Reaffirmation note' s = (a, u)"
    by (rule reaffirm_InrD)
  show ?thesis unfolding s' by (rule keeps_engine_trans[OF keeps_engine_approval[OF a] keeps_engine_log])
qed

lemma remove_tag_engine:
  assumes "remove_objective_tag org_id i objective_id s = Inr s'"
  shows "keeps_engine s s'"
proof -
  from assms obtain d af where "own_document org_id i s = Inr d"
    and s': "s' = log_doc org_id ''document.objective_tag.remove'' ''document'' i af None via_api
       (s\<lparr>t_doctag := filter (\<lambda>g. \<not> (dg_document_id g = i \<and> dg_objective_id g = objective_id)) (t_doctag s)\<rparr>)"
    by (rule remove_tag_InrD)
  show ?thesis unfolding s' by (rule keeps_engine_trans[OF keeps_engine_same keeps_engine_log]) simp
qed

lemma add_tags_engine:
  assumes "add_objective_tag org_id i objective_id objective_key s = Inr s'"
  shows "keeps_engine s s'"
  using assms by (rule add_objective_tag_InrD) (simp add: keeps_engine_tags)

subsection \<open>The tags a live link rests on\<close>

text \<open>What a request keeps of the documents' links, and of the tags under the live ones.\<close>

definition still :: "document_db \<Rightarrow> document_db \<Rightarrow> bool" where
  "still s s' \<longleftrightarrow> doc_ok s' \<and> doc_step s s' \<and> doc_links s' = doc_links s"

lemma doc_okD:
  assumes "doc_ok s"
  shows "store_ok s" "engine_ok (dd_db s)" "schema_ok (dd_db s)" "evidence_ok (dd_db s)" "links_rest s" "api_ok (dd_api s)"
  using assms by (simp_all add: doc_ok_def api_ok_def engine_ok_def)

lemma still_frame:
  assumes ok: "doc_ok s" and st: "doc_step s s'" and k: "keeps_engine s s'"
    and g: "\<And>l d cs. (l, d) \<in> doc_links s \<Longrightarrow> \<not> ln_is_archived l \<Longrightarrow> get_state (ln_state_id l) (dd_db s) = Some cs \<Longrightarrow>
      is_tagged d cs s \<Longrightarrow> is_tagged d cs s'"
  shows "still s s'"
proof -
  note o = doc_okD[OF ok]
  have links: "doc_links s' = doc_links s"
    by (rule doc_links_effects[OF o(1,4,5) st]) (use k in \<open>simp add: keeps_engine_def link_effects_same\<close>)
  have "rests s' d (ln_state_id l)" if "(l, d) \<in> doc_links s" "\<not> ln_is_archived l" "rests s d (ln_state_id l)" for l d
    by (rule rests_kept[OF _ _ _ that(3)]) (use k g[OF that(1,2)] in \<open>simp_all add: keeps_engine_def keeps_states_same\<close>)
  then have "links_rest s'" by (rule links_rest_kept[OF o(5) links])
  then show ?thesis using o(2,4,6) k st links
    by (simp add: still_def doc_ok_def doc_step_def keeps_engine_def api_ok_def)
qed

lemma same_tags: "t_doctag s' = t_doctag s \<Longrightarrow> is_tagged d cs s \<Longrightarrow> is_tagged d cs s'"
  by (simp add: is_tagged_def)

lemma link_version_source:
  assumes "link_version s l = Some v"
  shows "v \<in> set (t_docversion s) \<and> dv_id v \<in> source_versions (dd_db s)"
proof -
  obtain e i where e: "get_evidence (ln_evidence_id l) (dd_db s) = Some e" "ev_source_document_version e = Some i"
    "get_docversion i s = Some v" using assms by (auto simp: link_version_def split: option.splits)
  have "e \<in> set (t_evidence (dd_db s))" "v \<in> set (t_docversion s)" "dv_id v = i"
    using tget_SomeD[OF e(1)] tget_SomeD[OF e(3)] by simp_all
  then show ?thesis using e(2) unfolding source_versions_eq by blast
qed

lemma doc_links_version:
  assumes "(l, d) \<in> doc_links s"
  obtains v where "link_version s l = Some v" "dv_document_id v = d" "v \<in> set (t_docversion s)"
    "dv_id v \<in> source_versions (dd_db s)"
  using assms link_version_source unfolding doc_links_def link_doc_def by auto

lemma delete_still:
  assumes ok: "doc_ok s" and run: "delete_document org_id i s = Inr s'"
  shows "still s s'"
proof (rule still_frame[OF ok delete_document_step[OF doc_okD(1)[OF ok] run] delete_engine[OF run]])
  fix l d cs assume l: "(l, d) \<in> doc_links s" and t: "is_tagged d cs s"
  from run obtain dd b where "own_document org_id i s = Inr dd" and
    un: "\<forall>v \<in> set (t_docversion s). dv_document_id v = i \<longrightarrow> dv_id v \<notin> source_versions (dd_db s)" and
    s': "s' = (log_doc org_id ''document.delete'' ''document'' i b None via_api s)\<lparr>
       t_document := filter (\<lambda>r. dc_id r \<noteq> i) (t_document s),
       t_docversion := filter (\<lambda>r. dv_document_id r \<noteq> i) (t_docversion s),
       t_doctag := filter (\<lambda>r. dg_document_id r \<noteq> i) (t_doctag s),
       t_approval := filter (\<lambda>r. da_document_id r \<noteq> i) (t_approval s)\<rparr>"
    by (rule delete_document_InrD)
  obtain v where "dv_document_id v = d" "v \<in> set (t_docversion s)" "dv_id v \<in> source_versions (dd_db s)"
    using l by (rule doc_links_version)
  then have "d \<noteq> i" using un by blast
  then show "is_tagged d cs s'" using t unfolding s' is_tagged_def by (auto simp: list_ex_iff)
qed

lemma rests_where:
  assumes ok: "engine_ok (dd_db s)" and r: "rests s d i"
  obtains cs c k a nm where "get_state i (dd_db s) = Some cs" "link_where i (dd_db s) = Some (c, k, a, nm)"
    "is_tagged d cs s"
proof -
  obtain cs ob ct where cs: "get_state i (dd_db s) = Some cs" "get_objective (cs_objective_id cs) (dd_db s) = Some ob"
    "get_control (ob_control_id ob) (dd_db s) = Some ct" "is_tagged d cs s" using r unfolding rests_def by blast
  have "cs \<in> set (t_cstate (dd_db s))" using tget_SomeD[OF cs(1)] by simp
  then have "cs_assessment_id cs \<in> a_id ` set (t_assessment (dd_db s))"
    using ok unfolding engine_ok_def states_fk_def by blast
  then obtain a where "get_assessment (cs_assessment_id cs) (dd_db s) = Some a"
    using tget_None_iff[of a_id "cs_assessment_id cs" "t_assessment (dd_db s)"] by auto
  then show thesis using cs by (intro that) (simp_all add: link_where_def)
qed

lemma map_filter_not_Nil: "x \<in> set xs \<Longrightarrow> f x \<noteq> None \<Longrightarrow> List.map_filter f xs \<noteq> []"
  by (induction xs) (auto simp: List.map_filter_simps split: option.splits)

lemma tag_removal_links_live:
  assumes ok: "doc_ok s" and l: "(l, d) \<in> doc_links s" "\<not> ln_is_archived l"
    and cs: "get_state (ln_state_id l) (dd_db s) = Some cs"
  shows "tag_removal_links d (cs_objective_id cs) s \<noteq> []"
proof -
  note o = doc_okD[OF ok]
  have "rests s d (ln_state_id l)" using o(5) l unfolding links_rest_def by blast
  then obtain cs' c k a nm where w: "get_state (ln_state_id l) (dd_db s) = Some cs'"
    "link_where (ln_state_id l) (dd_db s) = Some (c, k, a, nm)" by (rule rests_where[OF o(2)]) blast
  obtain v where v: "link_version s l = Some v" "dv_document_id v = d" using l(1) by (rule doc_links_version)
  let ?f = "\<lambda>(l, v). if dv_document_id v \<noteq> d then None
       else case get_state (ln_state_id l) (dd_db s) of None \<Rightarrow> None | Some cs2 \<Rightarrow>
         if cs_objective_id cs2 \<noteq> cs_objective_id cs then None
         else case link_where (cs_id cs2) (dd_db s) of None \<Rightarrow> None | Some (control, key, _, name) \<Rightarrow>
           Some ((name, dv_number v, ln_id l),
             \<lparr>rl_version = dv_number v, rl_objective = full_key control key, rl_assessment = name\<rparr>)"
  have "(l, v) \<in> set (live_document_links s)"
    using l v(1) by (simp add: in_live_document_links doc_links_def)
  moreover have "cs_id cs = ln_state_id l" using tget_SomeD[OF cs] by simp
  then have "?f (l, v) \<noteq> None" using v(2) cs w(2) by simp
  ultimately have "List.map_filter ?f (live_document_links s) \<noteq> []"
    by (rule map_filter_not_Nil)
  moreover have "length (tag_removal_links d (cs_objective_id cs) s) = length (List.map_filter ?f (live_document_links s))"
    by (simp add: tag_removal_links_def)
  ultimately show ?thesis by (simp only: length_0_conv[symmetric]) simp
qed

lemma remove_tag_still:
  assumes ok: "doc_ok s" and run: "remove_objective_tag org_id i objective_id s = Inr s'"
  shows "still s s'"
proof (rule still_frame[OF ok remove_tag_step[OF doc_okD(1)[OF ok] run] remove_tag_engine[OF run]])
  fix l d cs assume l: "(l, d) \<in> doc_links s" "\<not> ln_is_archived l" "get_state (ln_state_id l) (dd_db s) = Some cs"
    and t: "is_tagged d cs s"
  from run obtain dd af where "own_document org_id i s = Inr dd" and none: "tag_removal_links i objective_id s = []"
    and s': "s' = log_doc org_id ''document.objective_tag.remove'' ''document'' i af None via_api
       (s\<lparr>t_doctag := filter (\<lambda>g. \<not> (dg_document_id g = i \<and> dg_objective_id g = objective_id)) (t_doctag s)\<rparr>)"
    by (rule remove_tag_InrD)
  have "\<not> (d = i \<and> cs_objective_id cs = objective_id)" using tag_removal_links_live[OF ok l] none by blast
  then show "is_tagged d cs s'" using t unfolding s' is_tagged_def by (auto simp: list_ex_iff)
qed

lemma add_tags_still:
  assumes ok: "doc_ok s" and run: "add_objective_tag org_id i objective_id objective_key s = Inr s'"
  shows "still s s'"
proof (rule still_frame[OF ok add_objective_tag_step[OF doc_okD(1,3)[OF ok] run] add_tags_engine[OF run]])
  fix l d cs assume t: "is_tagged d cs s"
  from run obtain dd wanted where "own_document org_id i s = Inr dd" and
    s': "s' = foldl (add_tag org_id i objective_key) s (filter (\<lambda>t. fst t \<notin> set (document_tags i s)) wanted)"
    by (rule add_objective_tag_InrD)
  have "set (t_doctag s) \<subseteq> set (t_doctag (foldl (add_tag org_id i typed) s ts))" for typed ts
  proof (induction ts arbitrary: s)
    case (Cons x ts)
    have "set (t_doctag s) \<subseteq> set (t_doctag (add_tag org_id i typed s x))" using add_tag_frame(5)[of org_id i typed s x] by auto
    then show ?case using Cons.IH[of "add_tag org_id i typed s x"] by auto
  qed simp
  then show "is_tagged d cs s'" using t unfolding s' is_tagged_def list_ex_iff by blast
qed

lemma at_time_still:
  assumes ok: "doc_ok s"
  shows "still s (with_db ((dd_db s)\<lparr>clock := t\<rparr>) s)"
proof (rule still_frame[OF ok])
  note o = doc_okD[OF ok]
  show "doc_step s (with_db ((dd_db s)\<lparr>clock := t\<rparr>) s)" by (rule doc_step_same[OF o(1)]) simp_all
  have "schema_ok ((dd_db s)\<lparr>clock := t\<rparr>)" using o(3) by (simp add: schema_ok_def catalog_ok_def)
  then have "engine_ok ((dd_db s)\<lparr>clock := t\<rparr>)" by (rule engine_ok_states[OF o(2)]) simp_all
  then show "keeps_engine s (with_db ((dd_db s)\<lparr>clock := t\<rparr>) s)" by (simp add: keeps_engine_def evidence_ok_def)
qed (simp add: is_tagged_def)

lemma api_still:
  assumes ok: "doc_ok s" and run: "serve_api r (dd_api s) = Inr u"
  shows "still s (s\<lparr>dd_api := u\<rparr>)"
proof -
  note o = doc_okD[OF ok]
  note st = api_step_doc[OF o(1,6) run]
  have a: "api_ok u" "catalog_eq (dd_db s) (ad_db u)" "keeps_states (dd_db s) (ad_db u)"
    using api_step[OF o(6) run] by (simp_all add: api_grows_def)
  have m: "next_id (dd_db s) \<le> next_id (ad_db u)" "link_effects (dd_db s) (ad_db u)"
    using api_moves[OF o(6) run] by (simp_all add: moves_only_def)
  have ev: "evidence_ok (ad_db u)" using api_evidence_ok[OF o(6,4) run] .
  have links: "doc_links (s\<lparr>dd_api := u\<rparr>) = doc_links s"
    by (rule doc_links_effects[OF o(1,4,5) st]) (simp add: m(2))
  have "rests (s\<lparr>dd_api := u\<rparr>) d i" if "rests s d i" for d i
    by (rule rests_kept[OF _ _ _ that]) (use a in \<open>simp_all add: catalog_eq_def is_tagged_def\<close>)
  then have "links_rest (s\<lparr>dd_api := u\<rparr>)" using links_rest_kept[OF o(5) links] by blast
  then show ?thesis using st a(1) ev links by (simp add: still_def doc_ok_def doc_step_def)
qed

text \<open>Every request but the three that move a document's link.\<close>

fun moves_documents :: "doc_request \<Rightarrow> bool" where
  "moves_documents (LinkDocument _ _ _ _) = True"
| "moves_documents (MoveForward _ _ _ _) = True"
| "moves_documents (UnlinkDocument _ _ _ _ _) = True"
| "moves_documents _ = False"

lemma map_sum_InrD: "map_sum f id x = Inr y \<Longrightarrow> x = Inr y"
  by (cases x) simp_all

lemma serve_doc_still:
  assumes ok: "doc_ok s" and run: "serve_doc r s = Inr s'" and n: "\<not> moves_documents r"
  shows "still s s'"
proof -
  note o = doc_okD[OF ok]
  show ?thesis
  proof (cases r)
    case (AssessmentRequest q)
    then show ?thesis using api_still[OF ok, of q] run by (cases "serve_api q (dd_api s)") simp_all
  next
    case (AtTime t)
    then show ?thesis using at_time_still[OF ok, of t] run by simp
  next
    case (CreateDocument a b c d e f)
    then have e: "create_document a b c d e f s = Inr s'" using run by (simp add: map_sum_InrD)
    show ?thesis by (rule still_frame[OF ok create_document_step[OF o(1) e] create_engine[OF e] same_tags])
        (use e in \<open>auto elim!: create_document_InrD simp: new_version_def Let_def\<close>)
  next
    case (PatchDocument a b c d e)
    then have e: "patch_document a b c d e s = Inr s'" using run by (simp add: map_sum_InrD)
    show ?thesis by (rule still_frame[OF ok patch_document_step[OF o(1) e] patch_engine[OF e] same_tags])
        (use patch_document_InrD[OF e] in auto)
  next
    case (SaveVersion a b c d)
    then have e: "create_document_version a b c d s = Inr s'" using run by (simp add: map_sum_InrD)
    have "t_doctag s' = t_doctag s" using e unfolding create_document_version_def
      by (auto simp: new_version_def Let_def split: sum.splits if_splits)
    then show ?thesis
      by (intro still_frame[OF ok create_document_version_step[OF o(1) e] save_engine[OF e]]) (simp add: is_tagged_def)
  next
    case (PatchVersion a b c d)
    then have e: "patch_document_version_status a b c d s = Inr s'" using run by (simp add: map_sum_InrD)
    show ?thesis by (rule still_frame[OF ok patch_version_step[OF o(1) e] patch_version_engine[OF e] same_tags])
        (use e in \<open>auto elim!: patch_version_InrD\<close>)
  next
    case (Publish a b c)
    then have e: "publish_document a b c s = Inr s'" using run by (simp add: map_sum_InrD)
    show ?thesis by (rule still_frame[OF ok publish_step[OF o(1) e] publish_engine[OF e] same_tags])
        (use e in \<open>auto elim!: publish_InrD simp: published_def\<close>)
  next
    case (Reaffirm a b c d)
    then have e: "reaffirm_document a b c d s = Inr s'" using run by (simp add: map_sum_InrD)
    show ?thesis by (rule still_frame[OF ok reaffirm_document_step[OF o(1) e] reaffirm_engine[OF e] same_tags])
        (use e in \<open>auto elim!: reaffirm_InrD2 reaffirm_InrD dest!: record_approval_frame(3)\<close>)
  qed (use run n delete_still[OF ok] remove_tag_still[OF ok] add_tags_still[OF ok] in \<open>auto dest: map_sum_InrD\<close>)
qed

end
