(* ===== verification/Document_Attach.thy ===== *)
theory Document_Attach
  imports Document_Links
begin

section \<open>Attaching, moving forward and taking off\<close>

text \<open>
  The three requests that move the links of documents: what each keeps, and the one place, a
  control state and a document, where each changes them.
\<close>

lemma still_log: "doc_ok s \<Longrightarrow> still s (log_doc og a e i b af c s)"
  by (rule still_frame[OF _ log_doc_step keeps_engine_log]) (simp_all add: doc_ok_def is_tagged_def)

lemma live_for_cong:
  "t_link (dd_db s') = t_link (dd_db s) \<Longrightarrow> t_evidence (dd_db s') = t_evidence (dd_db s) \<Longrightarrow>
     t_docversion s' = t_docversion s \<Longrightarrow> live_for i d s' = live_for i d s"
proof -
  assume same: "t_link (dd_db s') = t_link (dd_db s)" "t_evidence (dd_db s') = t_evidence (dd_db s)"
    "t_docversion s' = t_docversion s"
  have "link_version s' = link_version s"
    by (rule ext) (simp add: link_version_def same split: option.split)
  then show ?thesis by (simp add: live_for_def live_document_links_eq same)
qed

lemma live_for_single:
  assumes ok: "doc_ok s" and x: "(l, v) \<in> set (live_for i d s)"
  shows "live_for i d s = [(l, v)]"
proof -
  have "pk_ok ln_id (new_row s) (t_link (dd_db s))"
    using doc_okD(3)[OF ok] by (simp add: schema_ok_def links_ok_def)
  then have d: "distinct (t_link (dd_db s))" by (auto simp: pk_ok_def distinct_map)
  have join: "distinct (join_on get ls)" if "distinct ls" for get :: "state_link \<Rightarrow> doc_version option" and ls
    using that by (induction ls) (auto split: option.split simp: in_join_on)
  have dist: "distinct (live_for i d s)"
    unfolding live_for_def live_document_links_eq by (simp add: d join)
  have "y = (l, v)" if y: "y \<in> set (live_for i d s)" for y
  proof -
    obtain m w where m: "y = (m, w)" by (cases y)
    have in1: "(m, d) \<in> doc_links s" "(l, d) \<in> doc_links s" "\<not> ln_is_archived m" "\<not> ln_is_archived l"
      "ln_state_id m = ln_state_id l" "link_version s m = Some w" "link_version s l = Some v"
      using y x unfolding m in_live_for doc_links_def link_doc_def by auto
    have "m = l" using doc_okD(5)[OF ok] in1(1-5) unfolding links_rest_def by blast
    then show ?thesis using in1(6,7) by (simp add: m)
  qed
  then have "set (live_for i d s) = {(l, v)}" using x by blast
  moreover from this have "length (live_for i d s) = 1" using distinct_card[OF dist] by simp
  ultimately show ?thesis by (auto simp: length_Suc_conv)
qed

subsection \<open>The artifact of a version\<close>

lemma evidence_version_step:
  assumes ok: "store_ok s" and v: "v \<in> set (t_docversion s)" "\<not> manual (dv_status v)"
  shows "doc_step s (snd (add_document_evidence org_id d (dv_id v) now s))"
proof -
  let ?u = "snd (add_document_evidence org_id d (dv_id v) now s)"
  have u: "t_document ?u = t_document s" "t_docversion ?u = t_docversion s" "t_doctag ?u = t_doctag s"
    "t_approval ?u = t_approval s" "new_row s \<le> new_row ?u" "t_audit (dd_db ?u) = t_audit (dd_db s)"
    and ev: "t_evidence (dd_db ?u) = t_evidence (dd_db s) @ [document_evidence_row (new_row s) org_id d (dv_id v) now]"
    by (simp_all add: add_document_evidence_def Let_def)
  have P: "source_versions (dd_db ?u) = insert (dv_id v) (source_versions (dd_db s))" by (rule source_versions_snoc[OF ev])
  have "doc_keys ?u" by (rule doc_keys_mono[OF store_okD(1)[OF ok] u(5,1-4)])
  then have "store_ok ?u"
    using ok v unfolding store_ok_def Let_def u(1-4) P by (auto simp: version_ok_def)
  moreover have "history_stands s ?u"
    unfolding history_stands_def version_lives_def u(1-4,6) ev using u(5) by (auto intro: same_text_refl)
  ultimately show ?thesis by (simp add: doc_step_def)
qed

lemma evidence_for_facts:
  assumes ok: "doc_ok s" and v: "v \<in> set (t_docversion s)" "\<not> manual (dv_status v)"
    and run: "evidence_for org_id d v s = (e, s1)"
  shows "still s s1" "get_evidence (ev_id e) (dd_db s1) = Some e" "ev_source_document_version e = Some (dv_id v)"
    "t_docversion s1 = t_docversion s" "t_doctag s1 = t_doctag s" "t_document s1 = t_document s"
    "t_link (dd_db s1) = t_link (dd_db s)" "t_cstate (dd_db s1) = t_cstate (dd_db s)"
    "t_objective (dd_db s1) = t_objective (dd_db s)" "t_control (dd_db s1) = t_control (dd_db s)"
    "doc_links s1 = doc_links s"
proof -
  let ?find = "find (\<lambda>e. ev_org_id e = org_id \<and> ev_source_document_version e = Some (dv_id v)) (t_evidence (dd_db s))"
  have pk: "pk_ok ev_id (new_row s) (t_evidence (dd_db s))" using doc_okD(4)[OF ok] by (simp add: evidence_ok_def)
  have "still s s1 \<and> get_evidence (ev_id e) (dd_db s1) = Some e \<and> ev_source_document_version e = Some (dv_id v) \<and>
      t_docversion s1 = t_docversion s \<and> t_doctag s1 = t_doctag s \<and> t_document s1 = t_document s \<and>
      t_link (dd_db s1) = t_link (dd_db s) \<and> t_cstate (dd_db s1) = t_cstate (dd_db s) \<and>
      t_objective (dd_db s1) = t_objective (dd_db s) \<and> t_control (dd_db s1) = t_control (dd_db s)"
  proof (cases ?find)
    case (Some e0)
    then have e: "e = e0" "s1 = s" using run by (simp_all add: evidence_for_def)
    have m: "e \<in> set (t_evidence (dd_db s))" "ev_source_document_version e = Some (dv_id v)"
      using Some unfolding find_Some_iff e(1) by auto
    have "still s s" using ok by (simp add: still_def doc_step_def doc_ok_def)
    then show ?thesis using m pk_ok_tget[OF pk m(1)] e(2) by simp
  next
    case None
    let ?t = "case dv_approved_at v of None \<Rightarrow> clock (dd_db s) | Some t \<Rightarrow> t"
    have e: "e = document_evidence_row (new_row s) org_id d (dv_id v) ?t" "s1 = snd (add_document_evidence org_id d (dv_id v) ?t s)"
      using run None by (auto simp: evidence_for_def add_document_evidence_def Let_def)
    have frame: "t_docversion s1 = t_docversion s" "t_doctag s1 = t_doctag s" "t_document s1 = t_document s"
      "t_link (dd_db s1) = t_link (dd_db s)" "t_cstate (dd_db s1) = t_cstate (dd_db s)"
      "t_objective (dd_db s1) = t_objective (dd_db s)" "t_control (dd_db s1) = t_control (dd_db s)"
      "t_evidence (dd_db s1) = t_evidence (dd_db s) @ [e]"
      unfolding e by (simp_all add: add_document_evidence_def Let_def)
    have st: "still s s1" unfolding e(2)
      by (rule still_frame[OF ok evidence_version_step[OF doc_okD(1)[OF ok] v] keeps_engine_evidence])
        (simp add: is_tagged_def add_document_evidence_def Let_def)
    have "ev_id e = new_row s" "ev_source_document_version e = Some (dv_id v)" unfolding e(1) by (simp_all add: document_evidence_row_def)
    moreover have "get_evidence (new_row s) (dd_db s) = None" using pk by (auto simp: tget_None_iff pk_ok_def)
    ultimately show ?thesis using st frame by (simp add: tget_append)
  qed
  then show "still s s1" "get_evidence (ev_id e) (dd_db s1) = Some e" "ev_source_document_version e = Some (dv_id v)"
    "t_docversion s1 = t_docversion s" "t_doctag s1 = t_doctag s" "t_document s1 = t_document s"
    "t_link (dd_db s1) = t_link (dd_db s)" "t_cstate (dd_db s1) = t_cstate (dd_db s)"
    "t_objective (dd_db s1) = t_objective (dd_db s)" "t_control (dd_db s1) = t_control (dd_db s)"
    "doc_links s1 = doc_links s" by (simp_all add: still_def)
qed

subsection \<open>The link row\<close>

lemma link_row_outcome:
  assumes ok: "doc_ok s" and e: "get_evidence (ev_id e) (dd_db s) = Some e"
  obtains l' where "ln_id l' \<notin> ln_id ` set (t_link (dd_db s)) \<or> (\<exists>l \<in> set (t_link (dd_db s)). l' = restore l)"
    "ln_evidence_id l' = ev_id e" "ln_state_id l' = cs_id cs" "\<not> ln_is_archived l'" "ln_archived_by_product l' = None"
    "set (t_link (live_link_row e cs (dd_db s))) = {m \<in> set (t_link (dd_db s)). ln_id m \<noteq> ln_id l'} \<union> {l'}"
    "schema_ok (live_link_row e cs (dd_db s))"
proof -
  note o = doc_okD[OF ok]
  have lk: "links_ok (new_row s) (t_link (dd_db s))" using o(3) by (simp add: schema_ok_def)
  then have pk: "pk_ok ln_id (new_row s) (t_link (dd_db s))" by (simp add: links_ok_def)
  let ?P = "\<lambda>l. ln_evidence_id l = ev_id e \<and> ln_state_id l = cs_id cs"
  show thesis
  proof (cases "find ?P (t_link (dd_db s))")
    case (Some l)
    then have l: "l \<in> set (t_link (dd_db s))" "ln_evidence_id l = ev_id e" "ln_state_id l = cs_id cs"
      unfolding find_Some_iff by auto
    have row: "live_link_row e cs (dd_db s) = update_link (ln_id l) restore (dd_db s)" using Some by (simp add: live_link_row_def)
    have "set (t_link (update_link (ln_id l) restore (dd_db s))) = {m \<in> set (t_link (dd_db s)). ln_id m \<noteq> ln_id l} \<union> {restore l}"
    proof -
      have "m = l" if "m \<in> set (t_link (dd_db s))" "ln_id m = ln_id l" for m by (rule pk_ok_inj[OF pk that(1) l(1) that(2)])
      then show ?thesis using l(1) unfolding update_link_def by (auto simp: set_tupd)
    qed
    moreover have "schema_ok (update_link (ln_id l) restore (dd_db s))"
      by (rule schema_ok_update_link[OF o(3)]) (simp_all add: link_ok_restore)
    ultimately show thesis by (intro that[of "restore l"]) (use l row in \<open>auto simp: restore_def\<close>)
  next
    case None
    let ?l = "new_link (new_row s) (ev_id e) (cs_id cs)"
    let ?u = "live_link_row e cs (dd_db s)"
    have row: "?u = (dd_db s)\<lparr>next_id := Suc (new_row s), t_link := t_link (dd_db s) @ [?l]\<rparr>"
      using None by (simp add: live_link_row_def)
    have fresh: "new_row s \<notin> ln_id ` set (t_link (dd_db s))" using pk by (auto simp: pk_ok_def)
    have "\<forall>l \<in> set (t_link (dd_db s)). \<not> ?P l" using None unfolding find_None_iff by blast
    then have "(ev_id e, cs_id cs) \<notin> (\<lambda>r. (ln_evidence_id r, ln_state_id r)) ` set (t_link (dd_db s))" by auto
    then have "links_ok (Suc (new_row s)) (t_link (dd_db s) @ [?l])"
      using lk pk_ok_snoc[OF pk, of ?l] unfolding links_ok_def by (simp add: new_link_def link_ok_def)
    moreover have "schema_ok ((dd_db s)\<lparr>next_id := Suc (new_row s)\<rparr>)"
      using engine_ok_take[OF o(2), of 1] by (simp add: engine_ok_def)
    ultimately have "schema_ok ?u" unfolding row by (simp add: schema_ok_def catalog_ok_def)
    moreover have "set (t_link ?u) = {m \<in> set (t_link (dd_db s)). ln_id m \<noteq> ln_id ?l} \<union> {?l}"
      using fresh unfolding row by (auto simp: new_link_def intro: rev_image_eqI)
    ultimately show thesis using fresh by (intro that[of ?l]) (auto simp: new_link_def)
  qed
qed

lemma live_link_row_frame [simp]:
  "t_evidence (live_link_row e cs u) = t_evidence u" "t_cstate (live_link_row e cs u) = t_cstate u"
  "t_objective (live_link_row e cs u) = t_objective u" "t_control (live_link_row e cs u) = t_control u"
  "t_assessment (live_link_row e cs u) = t_assessment u" "t_history (live_link_row e cs u) = t_history u"
  "t_audit (live_link_row e cs u) = t_audit u" "next_id u \<le> next_id (live_link_row e cs u)"
  "clock (live_link_row e cs u) = clock u"
  by (simp_all add: live_link_row_def update_link_def split: option.split)

text \<open>The links of a document on a state change, and no other.\<close>

definition moves_at :: "uuid \<Rightarrow> uuid \<Rightarrow> document_db \<Rightarrow> document_db \<Rightarrow> bool" where
  "moves_at i d s s' \<longleftrightarrow> (\<forall>l x. \<not> (x = d \<and> ln_state_id l = i) \<longrightarrow> ((l, x) \<in> doc_links s' \<longleftrightarrow> (l, x) \<in> doc_links s))"

lemma moves_at_refl: "doc_links s' = doc_links s \<Longrightarrow> moves_at i d s s'"
  by (simp add: moves_at_def)

lemma moves_at_trans: "moves_at i d s t \<Longrightarrow> moves_at i d t u \<Longrightarrow> moves_at i d s u"
  by (simp add: moves_at_def)

lemma doc_links_same_rows:
  assumes "t_evidence (dd_db s') = t_evidence (dd_db s)" "t_docversion s' = t_docversion s"
  shows "link_version s' l = link_version s l" "link_doc s' l = link_doc s l"
  using assms by (auto simp: link_doc_def link_version_def split: option.split)

lemma attach_row:
  assumes ok: "doc_ok s" and e: "get_evidence (ev_id e) (dd_db s) = Some e" "ev_source_document_version e = Some (dv_id v)"
    "get_docversion (dv_id v) s = Some v" "dv_document_id v = d"
    and r: "rests s d (cs_id cs)" and none: "live_for (cs_id cs) d s = []"
  defines "s' \<equiv> with_db (live_link_row e cs (dd_db s)) s"
  shows "doc_ok s' \<and> doc_step s s' \<and> moves_at (cs_id cs) d s s' \<and> (\<exists>l. live_for (cs_id cs) d s' = [(l, v)])"
proof -
  note o = doc_okD[OF ok]
  obtain l' where old: "ln_id l' \<notin> ln_id ` set (t_link (dd_db s)) \<or> (\<exists>l \<in> set (t_link (dd_db s)). l' = restore l)" and
    l': "ln_evidence_id l' = ev_id e" "ln_state_id l' = cs_id cs" "\<not> ln_is_archived l'" "ln_archived_by_product l' = None"
    and L: "set (t_link (live_link_row e cs (dd_db s))) = {m \<in> set (t_link (dd_db s)). ln_id m \<noteq> ln_id l'} \<union> {l'}"
    and sch: "schema_ok (live_link_row e cs (dd_db s))" by (rule link_row_outcome[OF ok e(1)])
  have fr: "t_document s' = t_document s" "t_docversion s' = t_docversion s" "t_doctag s' = t_doctag s"
    "t_approval s' = t_approval s" "t_evidence (dd_db s') = t_evidence (dd_db s)"
    "dd_db s' = live_link_row e cs (dd_db s)" "t_statement (dd_api s') = t_statement (dd_api s)"
    unfolding s'_def by simp_all
  have st: "doc_step s s'" by (rule doc_step_same[OF o(1)]) (simp_all add: fr)
  note same = doc_links_same_rows[OF fr(5,2)]
  have new: "link_version s' l' = Some v" "link_doc s l' = Some d"
    unfolding same using e l'(1) by (simp_all add: link_doc_def link_version_def)
  have links: "doc_links s' = {(m, x). (m, x) \<in> doc_links s \<and> ln_id m \<noteq> ln_id l'} \<union> {(l', d)}"
    unfolding doc_links_def fr(6) L using new(2) by (auto simp: same)
  have id: "m = l" if "m \<in> set (t_link (dd_db s))" "l \<in> set (t_link (dd_db s))" "ln_id m = ln_id l" for m l
    using pk_ok_inj[OF _ that] o(3) by (auto simp: schema_ok_def links_ok_def)
  have replaced: "x = d \<and> ln_state_id m = cs_id cs" if m: "(m, x) \<in> doc_links s" "ln_id m = ln_id l'" for m x
  proof -
    have mem: "m \<in> set (t_link (dd_db s))" "link_doc s m = Some x" using m(1) by (simp_all add: doc_links_def)
    have "ln_id l' \<in> ln_id ` set (t_link (dd_db s))" using imageI[OF mem(1), of ln_id] m(2) by simp
    then obtain l where l: "l \<in> set (t_link (dd_db s))" "l' = restore l" using old by blast
    have "m = l" using id[OF mem(1) l(1)] m(2) l(2) by (simp add: restore_def)
    then have "ln_evidence_id m = ln_evidence_id l'" "ln_state_id m = ln_state_id l'" using l(2) by (simp_all add: restore_def)
    then show ?thesis using mem(2) new(2) l'(2) link_doc_evidence[of m l' s] by simp
  qed
  have eng: "engine_ok (dd_db s')" using sch unfolding fr(6) by (intro engine_ok_states[OF o(2)]) simp_all
  have ev: "evidence_ok (dd_db s')"
    unfolding evidence_ok_def fr(6) image_Un L using o(4) l'(1) tget_SomeD[OF e(1)]
    by (auto simp: evidence_ok_def intro: pk_ok_mono)
  have rest: "rests s' x i" if "rests s x i" for x i
    using that by (simp add: rests_def fr(6) is_tagged_def fr(3))
  have "links_rest s'"
    unfolding links_rest_def
  proof (rule conjI)
    show "\<forall>(l, x) \<in> doc_links s'. ln_archived_by_product l = None \<and> (\<not> ln_is_archived l \<longrightarrow> rests s' x (ln_state_id l))"
      using o(5) rest r l' unfolding links links_rest_def by auto
    have none': "\<not> (x = d \<and> ln_state_id m = cs_id cs \<and> \<not> ln_is_archived m)" if "(m, x) \<in> doc_links s" for m x
      using none that unfolding live_for_doc_links by auto
    show "\<forall>(l, x) \<in> doc_links s'. \<forall>(m, y) \<in> doc_links s'. \<not> ln_is_archived l \<and> \<not> ln_is_archived m \<and> x = y \<and>
        ln_state_id l = ln_state_id m \<longrightarrow> l = m"
      using o(5) none' l'(2) unfolding links links_rest_def by auto
  qed
  then have ok': "doc_ok s'" using eng ev st o(6) by (simp add: doc_ok_def doc_step_def api_ok_def fr(7))
  moreover have "moves_at (cs_id cs) d s s'" unfolding moves_at_def links using replaced l'(2) by auto
  moreover have "(l', v) \<in> set (live_for (cs_id cs) d s')"
    unfolding in_live_for fr(6) L using l' new(1) e(4) by simp
  ultimately show ?thesis using st live_for_single[OF ok'] by blast
qed

subsection \<open>Archiving\<close>

text \<open>The links with one of these identifiers are archived, and nothing else changes but the
  ledger.\<close>

definition archived_by :: "string \<Rightarrow> datetime \<Rightarrow> string option \<Rightarrow> uuid set \<Rightarrow> document_db \<Rightarrow> document_db \<Rightarrow> bool" where
  "archived_by cause now who ids s s' \<longleftrightarrow>
     t_link (dd_db s') = map (\<lambda>l. if ln_id l \<in> ids then archive_row cause now None who l else l) (t_link (dd_db s)) \<and>
     t_evidence (dd_db s') = t_evidence (dd_db s) \<and> t_cstate (dd_db s') = t_cstate (dd_db s) \<and>
     t_objective (dd_db s') = t_objective (dd_db s) \<and> t_control (dd_db s') = t_control (dd_db s) \<and>
     t_document s' = t_document s \<and> t_docversion s' = t_docversion s \<and> t_doctag s' = t_doctag s \<and>
     t_approval s' = t_approval s \<and> t_statement (dd_api s') = t_statement (dd_api s) \<and>
     prefix (t_audit (dd_db s)) (t_audit (dd_db s')) \<and> new_row s \<le> new_row s' \<and>
     (engine_ok (dd_db s) \<longrightarrow> engine_ok (dd_db s'))"

lemma archived_by_refl: "archived_by cause now who {} s s"
  by (simp add: archived_by_def)

lemma archive_row_twice [simp]:
  "archive_row cause now None who (archive_row cause now None who l) = archive_row cause now None who l"
  by (simp add: archive_row_def Let_def)

lemma archived_by_trans:
  assumes "archived_by cause now who A s t" "archived_by cause now who B t u"
  shows "archived_by cause now who (A \<union> B) s u"
  using assms by (auto simp: archived_by_def archive_row_def Let_def intro: prefix_order.trans)

lemma archived_by_one:
  assumes "cause \<in> set CAUSES" "cause \<noteq> DEACTIVATION"
  shows "archived_by cause now who {i} s (with_db (update_link i (archive_row cause now None who) (dd_db s)) s)"
  unfolding archived_by_def using engine_ok_archive[OF _ assms, of "dd_db s" i now who] by (simp add: tupd_def)

lemma archived_by_log: "archived_by cause now who {} s (log_doc og a e i b af c s)"
proof -
  have "prefix (t_audit (dd_db s)) (t_audit (dd_db (log_doc og a e i b af c s)))" by (simp add: log_event_as_def)
  moreover have "engine_ok (dd_db s) \<Longrightarrow> engine_ok (dd_db (log_doc og a e i b af c s))" using engine_ok_log_event by simp
  ultimately show ?thesis by (simp add: archived_by_def)
qed

lemma archived_by_fold:
  assumes "\<And>t x. archived_by cause now who {ln_id (fst x)} t (f t x)"
  shows "archived_by cause now who ((ln_id \<circ> fst) ` set xs) s (foldl f s xs)"
proof (induction xs arbitrary: s)
  case (Cons x xs)
  show ?case using archived_by_trans[OF assms[of x s] Cons.IH[of "f s x"]] by simp
qed (simp add: archived_by_refl)

lemma archived_by_links:
  assumes a: "archived_by cause now who ids s s'"
  shows "doc_links s' = (\<lambda>(l, d). (if ln_id l \<in> ids then archive_row cause now None who l else l, d)) ` doc_links s"
proof -
  have same: "link_doc s' l = link_doc s l" for l
    by (rule doc_links_same_rows(2)) (use a in \<open>simp_all add: archived_by_def\<close>)
  define g where "g = (\<lambda>l. if ln_id l \<in> ids then archive_row cause now None who l else l)"
  have ge: "link_doc s (g l) = link_doc s l" for l by (rule link_doc_evidence) (simp add: g_def)
  have L: "set (t_link (dd_db s')) = g ` set (t_link (dd_db s))" using a by (simp add: archived_by_def g_def)
  have "(l', d) \<in> doc_links s' \<longleftrightarrow> (\<exists>l. (l, d) \<in> doc_links s \<and> l' = g l)" for l' d
    unfolding doc_links_def L mem_Collect_eq case_prod_conv same using ge by auto
  then have "x \<in> doc_links s' \<longleftrightarrow> x \<in> (\<lambda>(l, d). (g l, d)) ` doc_links s" for x
    unfolding image_iff by (cases x) (simp add: Bex_def split_paired_Ex)
  then show ?thesis unfolding g_def by blast
qed

lemma archived_row: "ln_is_archived (archive_row cause now None who l)" "ln_archived_by_product (archive_row cause now None who l) = None"
  by (simp_all add: archive_row_def Let_def)

text \<open>Archiving the live links of a document on a state.\<close>

lemma archived_by_step:
  assumes ok: "doc_ok s" and a: "archived_by cause now who ((ln_id \<circ> fst) ` set (live_for i d s)) s s'"
  shows "doc_ok s' \<and> doc_step s s' \<and> moves_at i d s s' \<and> live_for i d s' = []"
proof -
  note o = doc_okD[OF ok]
  let ?ids = "(ln_id \<circ> fst) ` set (live_for i d s)"
  let ?g = "\<lambda>l. if ln_id l \<in> ?ids then archive_row cause now None who l else l"
  have fr: "t_evidence (dd_db s') = t_evidence (dd_db s)" "t_docversion s' = t_docversion s" "t_document s' = t_document s"
    "t_doctag s' = t_doctag s" "t_approval s' = t_approval s" "t_statement (dd_api s') = t_statement (dd_api s)"
    "new_row s \<le> new_row s'" "prefix (t_audit (dd_db s)) (t_audit (dd_db s'))" "engine_ok (dd_db s')"
    "t_cstate (dd_db s') = t_cstate (dd_db s)" "t_objective (dd_db s') = t_objective (dd_db s)"
    "t_control (dd_db s') = t_control (dd_db s)" "t_link (dd_db s') = map ?g (t_link (dd_db s))"
    using a o(2) by (simp_all add: archived_by_def)
  have st: "doc_step s s'" by (rule doc_step_same[OF o(1) fr(7,3,2,4,5,1,8)])
  note links = archived_by_links[OF a]
  have "ln_evidence_id (?g l) = ln_evidence_id l" for l by simp
  then have "ln_evidence_id ` set (t_link (dd_db s')) = ln_evidence_id ` set (t_link (dd_db s))"
    unfolding fr(13) set_map image_image by simp
  then have ev: "evidence_ok (dd_db s')" using o(4) fr(1,7) by (auto simp: evidence_ok_def intro: pk_ok_mono)
  have id: "m = l" if "m \<in> set (t_link (dd_db s))" "l \<in> set (t_link (dd_db s))" "ln_id m = ln_id l" for m l
    using pk_ok_inj[OF _ that] o(3) by (auto simp: schema_ok_def links_ok_def)
  have hit: "x = d \<and> ln_state_id l = i \<and> \<not> ln_is_archived l" if l: "(l, x) \<in> doc_links s" "ln_id l \<in> ?ids" for l x
  proof -
    obtain m v where m: "(m, v) \<in> set (live_for i d s)" "ln_id m = ln_id l" using l(2) by auto
    have mem: "l \<in> set (t_link (dd_db s))" "link_doc s l = Some x" using l(1) by (simp_all add: doc_links_def)
    have "m = l" using id m mem(1) unfolding in_live_for by blast
    then show ?thesis using m(1) mem(2) unfolding in_live_for link_doc_def by auto
  qed
  have rest: "rests s' x j" if "rests s x j" for x j
    using that by (simp add: rests_def is_tagged_def fr)
  have kept: "\<exists>m. (m, x) \<in> doc_links s \<and> l = m" if "(l, x) \<in> doc_links s'" "\<not> ln_is_archived l" for l x
    using that unfolding links by (auto simp: archived_row split: if_splits)
  have "links_rest s'"
    unfolding links_rest_def
  proof (rule conjI)
    show "\<forall>(l, x) \<in> doc_links s'. ln_archived_by_product l = None \<and> (\<not> ln_is_archived l \<longrightarrow> rests s' x (ln_state_id l))"
      using o(5) rest unfolding links links_rest_def by (auto simp: archived_row split: if_splits)
    show "\<forall>(l, x) \<in> doc_links s'. \<forall>(m, y) \<in> doc_links s'. \<not> ln_is_archived l \<and> \<not> ln_is_archived m \<and> x = y \<and>
        ln_state_id l = ln_state_id m \<longrightarrow> l = m"
      using o(5) kept unfolding links_rest_def by blast
  qed
  then have "doc_ok s'" using ev st o(6) fr(6,9) by (simp add: doc_ok_def doc_step_def api_ok_def)
  moreover have "moves_at i d s s'"
    unfolding moves_at_def
  proof (intro allI impI iffI)
    fix l x assume n: "\<not> (x = d \<and> ln_state_id l = i)" and "(l, x) \<in> doc_links s'"
    then obtain m where m: "(m, x) \<in> doc_links s" "l = ?g m" unfolding links by auto
    have "ln_state_id l = ln_state_id m" unfolding m(2) by simp
    then have "ln_id m \<notin> ?ids" using hit[OF m(1)] n by auto
    then show "(l, x) \<in> doc_links s" using m by simp
  next
    fix l x assume n: "\<not> (x = d \<and> ln_state_id l = i)" and l: "(l, x) \<in> doc_links s"
    have "ln_id l \<notin> ?ids" using hit[OF l] n by auto
    then show "(l, x) \<in> doc_links s'" using l unfolding links by (intro rev_image_eqI[OF l]) simp
  qed
  moreover have "live_for i d s' = []"
    unfolding live_for_doc_links
  proof (intro ballI)
    fix y assume y: "y \<in> doc_links s'"
    then obtain m x where m: "(m, x) \<in> doc_links s" "y = (?g m, x)" unfolding links by auto
    have "ln_id m \<in> ?ids" if mine: "x = d" "ln_state_id m = i" "\<not> ln_is_archived m"
    proof -
      obtain v where "link_version s m = Some v" "dv_document_id v = x" using m(1) by (rule doc_links_version)
      then have "(m, v) \<in> set (live_for i d s)" using m(1) mine unfolding in_live_for doc_links_def by simp
      then show ?thesis by (force intro: rev_image_eqI)
    qed
    then show "case y of (l, e) \<Rightarrow> \<not> (e = d \<and> ln_state_id l = i \<and> \<not> ln_is_archived l)"
      unfolding m(2) by (auto simp: archived_row)
  qed
  ultimately show ?thesis using st by blast
qed


subsection \<open>The three requests\<close>

lemma state_of_InrD:
  "state_of org_id aid i u = Inr cs \<Longrightarrow> get_state i u = Some cs \<and> cs_id cs = i \<and> cs_assessment_id cs = aid"
  by (auto simp: state_of_def tget_SomeD split: option.splits if_splits)

lemma offerable_InrD:
  assumes ok: "doc_ok s" and run: "offerable org_id cs d s = Inr ofr" and cs: "get_state i (dd_db s) = Some cs"
  obtains v where "approved_version d s = Some v" "of_version ofr = v" "get_docversion (dv_id v) s = Some v"
    "dv_document_id v = d" "v \<in> set (t_docversion s)" "dv_status v = Approved" "rests s d i"
proof -
  obtain ct key where k: "control_key_for cs (dd_db s) = Some (ct, key)"
    using run by (auto simp: offerable_def split: sum.splits option.splits)
  obtain v where v: "approved_version d s = Some v" "of_version ofr = v" and t: "is_tagged d cs s"
    using run by (auto simp: offerable_def split: sum.splits option.splits if_splits)
  note m = approved_version_SomeD[OF v(1)]
  have "pk_ok dv_id (new_row s) (t_docversion s)" using store_okD(1)[OF doc_okD(1)[OF ok]] by (simp add: doc_keys_def)
  from pk_ok_tget[OF this] m have "get_docversion (dv_id v) s = Some v" by simp
  moreover have "rests s d i"
    using k cs t unfolding rests_def control_key_for_def by (auto split: option.splits)
  ultimately show thesis using that[of v] v m by simp
qed

lemma still_stepD: "still s s' \<Longrightarrow> doc_ok s' \<and> doc_step s s' \<and> moves_at i d s s'"
  by (simp add: still_def moves_at_refl)

lemma rests_same:
  assumes "rests s d i" "t_cstate (dd_db s') = t_cstate (dd_db s)" "t_objective (dd_db s') = t_objective (dd_db s)"
    "t_control (dd_db s') = t_control (dd_db s)" "t_doctag s' = t_doctag s"
  shows "rests s' d i"
  using assms by (simp add: rests_def is_tagged_def)

lemma attach_version_step:
  assumes ok: "doc_ok s" and v: "get_docversion (dv_id v) s = Some v" "dv_document_id v = d"
    "v \<in> set (t_docversion s)" "dv_status v = Approved" "of_version ofr = v"
    and r: "rests s d (cs_id cs)" and none: "live_for (cs_id cs) d s = []"
  shows "doc_ok (attach_version org_id cs ofr s) \<and> doc_step s (attach_version org_id cs ofr s) \<and>
    moves_at (cs_id cs) d s (attach_version org_id cs ofr s) \<and>
    (\<exists>l. live_for (cs_id cs) d (attach_version org_id cs ofr s) = [(l, v)])"
proof -
  obtain e s1 where e: "evidence_for org_id (of_document ofr) v s = (e, s1)" by (metis surj_pair)
  have m: "\<not> manual (dv_status v)" by (simp add: v(4) manual_def)
  note f = evidence_for_facts[OF ok v(3) m e]
  have ok1: "doc_ok s1" and st1: "doc_step s s1" using f(1) by (simp_all add: still_def)
  have none1: "live_for (cs_id cs) d s1 = []" using none unfolding live_for_doc_links f(11) .
  have v1: "get_docversion (dv_id v) s1 = Some v" using v(1) f(4) by simp
  have r1: "rests s1 d (cs_id cs)" by (rule rests_same[OF r f(8-10,5)])
  from attach_row[OF ok1 f(2,3) v1 v(2) r1 none1]
  have a: "doc_ok (attach_version org_id cs ofr s)" "doc_step s1 (attach_version org_id cs ofr s)"
    "moves_at (cs_id cs) d s1 (attach_version org_id cs ofr s)"
    "\<exists>l. live_for (cs_id cs) d (attach_version org_id cs ofr s) = [(l, v)]"
    by (simp_all add: attach_version_def v(5) e)
  show ?thesis using a doc_step_trans[OF doc_okD(1)[OF ok] st1] moves_at_trans[OF moves_at_refl[OF f(11)]] by blast
qed

lemma audit_link_step:
  assumes "doc_ok s"
  shows "still s (audit_link org_id action cs d v control key extra s)"
    "live_for i x (audit_link org_id action cs d v control key extra s) = live_for i x s"
  unfolding audit_link_def by (rule still_log[OF assms], rule live_for_cong) simp_all

text \<open>What a request that attaches a version leaves.\<close>

definition attached :: "uuid \<Rightarrow> uuid \<Rightarrow> document_db \<Rightarrow> document_db \<Rightarrow> bool" where
  "attached i d s s' \<longleftrightarrow> doc_ok s' \<and> doc_step s s' \<and> moves_at i d s s' \<and>
     (\<exists>v l. approved_version d s = Some v \<and> live_for i d s' = [(l, v)])"

lemma link_document_step:
  assumes ok: "doc_ok s" and run: "link_document org_id aid i d s = Inr s'"
  shows "attached i d s s' \<and> live_for i d s = []"
proof -
  obtain cs where cs: "state_of org_id aid i (dd_db s) = Inr cs"
    using run by (auto simp: link_document_def split: sum.splits)
  note c = state_of_InrD[OF cs]
  obtain ofr where ofr: "offerable org_id cs d s = Inr ofr"
    using run by (auto simp: link_document_def cs split: sum.splits)
  have none: "live_for i d s = []" and
    s': "s' = audit_link org_id ''evidence.document_link'' cs (of_document ofr) (of_version ofr) (of_control ofr)
          (of_objective ofr) [] (attach_version org_id cs ofr s)"
    using run by (auto simp: link_document_def cs ofr Let_def split: list.splits if_splits)
  from ok ofr conjunct1[OF c] obtain v where v: "approved_version d s = Some v" "of_version ofr = v"
    "get_docversion (dv_id v) s = Some v" "dv_document_id v = d" "v \<in> set (t_docversion s)" "dv_status v = Approved" "rests s d i"
    by (rule offerable_InrD)
  have ci: "cs_id cs = i" using c by simp
  from attach_version_step[OF ok v(3-6,2), of cs org_id] v(7) none
  have a: "doc_ok (attach_version org_id cs ofr s)" "doc_step s (attach_version org_id cs ofr s)"
    "moves_at i d s (attach_version org_id cs ofr s)" "\<exists>l. live_for i d (attach_version org_id cs ofr s) = [(l, v)]"
    by (simp_all add: ci)
  note au = audit_link_step[OF a(1)]
  have "doc_ok s' \<and> doc_step (attach_version org_id cs ofr s) s' \<and> moves_at i d (attach_version org_id cs ofr s) s'"
    unfolding s' by (rule still_stepD[OF au(1)])
  moreover have "\<exists>l. live_for i d s' = [(l, v)]" unfolding s' au(2) by (rule a(4))
  ultimately have r: "doc_ok s'" "doc_step s s'" "moves_at i d s s'" "\<exists>l. live_for i d s' = [(l, v)]"
    using doc_step_trans[OF doc_okD(1)[OF ok] a(2)] moves_at_trans[OF a(3)] by simp_all
  then show ?thesis unfolding attached_def using v(1) none by simp
qed

lemma move_document_step:
  assumes ok: "doc_ok s" and run: "move_document_forward org_id aid i d s = Inr s'"
  shows "attached i d s s' \<and> (\<exists>l w. live_for i d s = [(l, w)] \<and> approved_version d s \<noteq> Some w)"
proof -
  obtain cs where cs: "state_of org_id aid i (dd_db s) = Inr cs"
    using run by (auto simp: move_document_forward_def split: sum.splits)
  note c = state_of_InrD[OF cs]
  obtain ofr where ofr: "offerable org_id cs d s = Inr ofr"
    using run by (auto simp: move_document_forward_def cs split: sum.splits)
  let ?old = "live_for i d s"
  let ?s1 = "foldl (archive_moved (clock (dd_db s))) s ?old"
  obtain extra where some: "?old \<noteq> []" "\<not> list_ex (\<lambda>(_, lv). dv_id lv = dv_id (of_version ofr)) ?old" and
    s': "s' = audit_link org_id ''evidence.document_move_forward'' cs (of_document ofr) (of_version ofr) (of_control ofr)
          (of_objective ofr) extra (attach_version org_id cs ofr ?s1)"
    using run by (simp add: move_document_forward_def cs ofr Let_def split: if_splits) blast
  from ok ofr conjunct1[OF c] obtain v where v: "approved_version d s = Some v" "of_version ofr = v"
    "get_docversion (dv_id v) s = Some v" "dv_document_id v = d" "v \<in> set (t_docversion s)" "dv_status v = Approved" "rests s d i"
    by (rule offerable_InrD)
  have ci: "cs_id cs = i" using c by simp
  have "archived_by MOVED_FORWARD (clock (dd_db s)) None {ln_id (fst x)} t (archive_moved (clock (dd_db s)) t x)" for t x
    unfolding archive_moved_def by (rule archived_by_one) (simp_all add: cause_defs)
  from archived_by_fold[OF this, of ?old s]
  have ar: "archived_by MOVED_FORWARD (clock (dd_db s)) None ((ln_id \<circ> fst) ` set ?old) s ?s1" .
  from archived_by_step[OF ok ar]
  have s1: "doc_ok ?s1" "doc_step s ?s1" "moves_at i d s ?s1" "live_for i d ?s1 = []" by simp_all
  have fr: "t_docversion ?s1 = t_docversion s" "t_cstate (dd_db ?s1) = t_cstate (dd_db s)"
    "t_objective (dd_db ?s1) = t_objective (dd_db s)" "t_control (dd_db ?s1) = t_control (dd_db s)" "t_doctag ?s1 = t_doctag s"
    using ar by (simp_all add: archived_by_def)
  have v1: "get_docversion (dv_id v) ?s1 = Some v" "v \<in> set (t_docversion ?s1)" using v fr(1) by simp_all
  have r1: "rests ?s1 d (cs_id cs)" unfolding ci by (rule rests_same[OF v(7) fr(2-5)])
  from attach_version_step[OF s1(1) v1(1) v(4) v1(2) v(6,2) r1, of org_id] s1(4)
  have a: "doc_ok (attach_version org_id cs ofr ?s1)" "doc_step ?s1 (attach_version org_id cs ofr ?s1)"
    "moves_at i d ?s1 (attach_version org_id cs ofr ?s1)" "\<exists>l. live_for i d (attach_version org_id cs ofr ?s1) = [(l, v)]"
    by (simp_all add: ci)
  note au = audit_link_step[OF a(1)]
  have "doc_ok s' \<and> doc_step (attach_version org_id cs ofr ?s1) s' \<and> moves_at i d (attach_version org_id cs ofr ?s1) s'"
    unfolding s' by (rule still_stepD[OF au(1)])
  moreover have "\<exists>l. live_for i d s' = [(l, v)]" unfolding s' au(2) by (rule a(4))
  moreover have "doc_step s (attach_version org_id cs ofr ?s1)" by (rule doc_step_trans[OF doc_okD(1)[OF ok] s1(2) a(2)])
  ultimately have r: "doc_ok s'" "doc_step s s'" "moves_at i d s s'" "\<exists>l. live_for i d s' = [(l, v)]"
    using doc_step_trans[OF doc_okD(1)[OF ok], of _ s'] moves_at_trans[OF moves_at_trans[OF s1(3) a(3)], of s'] by simp_all
  then have "attached i d s s'" unfolding attached_def using v(1) by simp
  moreover obtain l w where lw: "(l, w) \<in> set ?old" using some(1) by (cases ?old) auto
  then have "dv_id w \<noteq> dv_id v" using some(2) v(2) by (auto simp: list_ex_iff)
  ultimately show ?thesis using live_for_single[OF ok lw] v(1) by auto
qed

lemma unlink_document_step:
  assumes ok: "doc_ok s" and run: "unlink_document org_id aid i d who s = Inr s'"
  shows "doc_ok s' \<and> doc_step s s' \<and> moves_at i d s s' \<and> live_for i d s' = [] \<and> live_for i d s \<noteq> []"
proof -
  obtain cs where cs: "state_of org_id aid i (dd_db s) = Inr cs"
    using run by (auto simp: unlink_document_def split: sum.splits)
  obtain dd where dd: "linked_document org_id d s = Inr dd"
    using run by (auto simp: unlink_document_def cs split: sum.splits)
  let ?now = "clock (dd_db s)"
  obtain ct key where some: "live_for i d s \<noteq> []" and s': "s' = foldl (unlink_one org_id cs dd ct key who ?now) s (live_for i d s)"
    using run by (auto simp: unlink_document_def cs dd Let_def split: option.splits if_splits)
  have "archived_by DETACHED ?now (Some who) {ln_id (fst x)} t (unlink_one org_id cs dd ct key who ?now t x)" for t x
  proof -
    have "archived_by DETACHED ?now (Some who) {ln_id (fst x)} t
        (with_db (update_link (ln_id (fst x)) (archive_row DETACHED ?now None (Some who)) (dd_db t)) t)"
      by (rule archived_by_one) (simp_all add: cause_defs)
    from archived_by_trans[OF this archived_by_log] show ?thesis unfolding unlink_one_def audit_link_def by simp
  qed
  from archived_by_fold[OF this, of "live_for i d s" s]
  have "archived_by DETACHED ?now (Some who) ((ln_id \<circ> fst) ` set (live_for i d s)) s s'" unfolding s' .
  from archived_by_step[OF ok this] some show ?thesis by blast
qed

subsection \<open>The machine\<close>

text \<open>Every request keeps the invariant and the history of the documents.\<close>

lemma serve_doc_step:
  assumes ok: "doc_ok s" and run: "serve_doc r s = Inr s'"
  shows "doc_ok s' \<and> history_stands s s'"
proof (cases "moves_documents r")
  case True
  then show ?thesis
  proof (cases r)
    case (LinkDocument a b c d)
    then have "link_document a b c d s = Inr s'" using run by (simp add: map_sum_InrD)
    from link_document_step[OF ok this] show ?thesis by (simp add: attached_def doc_step_def)
  next
    case (MoveForward a b c d)
    then have "move_document_forward a b c d s = Inr s'" using run by (simp add: map_sum_InrD)
    from move_document_step[OF ok this] show ?thesis by (simp add: attached_def doc_step_def)
  next
    case (UnlinkDocument a b c d e)
    then have "unlink_document a b c d e s = Inr s'" using run by (simp add: map_sum_InrD)
    from unlink_document_step[OF ok this] show ?thesis by (simp add: doc_step_def)
  qed simp_all
next
  case False
  then show ?thesis using serve_doc_still[OF ok run] by (simp add: still_def doc_step_def)
qed

interpretation documents: transactions serve_doc "\<lambda>_. True" doc_ok
  "\<lambda>s s'. doc_ok s \<longrightarrow> doc_ok s' \<and> history_stands s s'"
proof unfold_locales
  fix s t u
  assume st: "doc_ok s \<longrightarrow> doc_ok t \<and> history_stands s t" and tu: "doc_ok t \<longrightarrow> doc_ok u \<and> history_stands t u"
  show "doc_ok s \<longrightarrow> doc_ok u \<and> history_stands s u"
  proof
    assume ok: "doc_ok s"
    then show "doc_ok u \<and> history_stands s u" using st tu history_trans[OF doc_okD(1)[OF ok]] by blast
  qed
qed (simp_all add: serve_doc_step)

lemma run_doc_ok: "doc_ok s \<Longrightarrow> doc_ok (run_doc rs s) \<and> history_stands s (run_doc rs s)"
  using documents.run[of s rs] by (simp add: run_doc_def list_all_iff)

end
