(* ===== verification/Document_Properties.thy ===== *)
theory Document_Properties
  imports Document_Attach Assessment_Api_Properties
begin

section \<open>Properties of the document control\<close>

text \<open>
  What holds of every sequence of requests to the documents, their evidence and the assessments
  they are attached to: what was published and approved stands, a stale edit is refused for good, a
  live link of a document rests on a tag and is moved only by a person, and what the verdicts of
  the review cadence are.
\<close>

subsection \<open>A tenant with documents\<close>

text \<open>The tenant of \<open>Example\<close> with an approver and no document; then a policy that is
  published, tagged and attached.\<close>

definition new_documents :: document_db where
  "new_documents = \<lparr>dd_api = \<lparr>ad_db = active_tenant\<lparr>t_contact := [\<lparr>co_id = 5, co_org_id = 1, co_name = ''C'',
       co_email = ''c''\<rparr>]\<rparr>, t_statement = []\<rparr>,
     t_document = [], t_docversion = [], t_doctag = [], t_approval = []\<rparr>"

lemma new_documents_ok: "doc_ok new_documents"
proof -
  have e: "engine_ok (dd_db new_documents)" "store_ok new_documents" "evidence_ok (dd_db new_documents)"
    "statements_unique (t_statement (dd_api new_documents))"
    "list_all (\<lambda>l. link_doc new_documents l = None) (t_link (dd_db new_documents))"
    by code_simp+
  have "doc_links new_documents = {}" using e(5) by (auto simp: doc_links_def list_all_iff)
  then show ?thesis using e by (simp add: doc_ok_def api_ok_def links_rest_def)
qed

definition policy_tenant :: document_db where
  "policy_tenant = new_documents\<lparr>
     dd_api := \<lparr>ad_db = (dd_db new_documents)\<lparr>next_id := 110,
       t_evidence := t_evidence active_tenant @ [\<lparr>ev_id = 104, ev_org_id = 1, ev_title = ''T'', ev_description = None,
         ev_kind = ''reference'', ev_artifact_type = ''document'', ev_storage_key = None, ev_mime_type = None,
         ev_file_size = None, ev_collected_at = t0, ev_source_document_version = Some 101,
         ev_source_list_version = None, ev_source_review_cycle = None\<rparr>],
       t_link := t_link active_tenant @ [new_link 108 104 80]\<rparr>, t_statement = []\<rparr>,
     t_document := [\<lparr>dc_id = 100, dc_org_id = 1, dc_doc_id = ''P1'', dc_type = Policy, dc_title = ''T'', dc_cadence = 12,
       dc_current = Some 105\<rparr>],
     t_docversion := [\<lparr>dv_id = 101, dv_document_id = 100, dv_org_id = 1, dv_number = 1, dv_status = Approved,
         dv_body = Some ''b'', dv_approved_at = Some t0, dv_approver = Some 5, dv_published = Some []\<rparr>,
       \<lparr>dv_id = 105, dv_document_id = 100, dv_org_id = 1, dv_number = 2, dv_status = Draft,
         dv_body = Some ''c'', dv_approved_at = None, dv_approver = None, dv_published = None\<rparr>],
     t_doctag := [\<lparr>dg_id = 106, dg_document_id = 100, dg_org_id = 1, dg_objective_id = 20\<rparr>],
     t_approval := [\<lparr>da_id = 103, da_document_id = 100, da_version_id = 101, da_org_id = 1, da_type = Initial, da_at = t0,
       da_contact = Some 5, da_name = ''C'', da_note = None\<rparr>]\<rparr>"

lemma policy_tenant_ok: "doc_ok policy_tenant"
proof -
  have e: "engine_ok (dd_db policy_tenant)" "store_ok policy_tenant" "evidence_ok (dd_db policy_tenant)"
    "statements_unique (t_statement (dd_api policy_tenant))"
    "List.map_filter (\<lambda>l. map_option (Pair l) (link_doc policy_tenant l)) (t_link (dd_db policy_tenant)) = [(new_link 108 104 80, 100)]"
    by code_simp+
  have "rests policy_tenant 100 80"
  proof -
    have "map_option (\<lambda>cs. cs_objective_id cs) (get_state 80 (dd_db policy_tenant)) = Some 20"
      "map_option ob_control_id (get_objective 20 (dd_db policy_tenant)) = Some 10"
      "get_control 10 (dd_db policy_tenant) \<noteq> None" "list_ex (\<lambda>g. dg_document_id g = 100 \<and> dg_objective_id g = 20) (t_doctag policy_tenant)"
      by code_simp+
    then show ?thesis by (auto simp: rests_def is_tagged_def)
  qed
  moreover have "doc_links s = set (List.map_filter (\<lambda>l. map_option (Pair l) (link_doc s l)) (t_link (dd_db s)))" for s
    by (force simp: doc_links_def List.map_filter_def image_iff)
  then have "doc_links policy_tenant = {(new_link 108 104 80, 100)}" using e(5) by simp
  ultimately show ?thesis using e by (simp add: doc_ok_def api_ok_def links_rest_def new_link_def)
qed


subsection \<open>What stands\<close>

text \<open>C24. Over any sequence of requests to the documents, their evidence and the assessments, the
  invariant of the documents holds, every version that was published keeps its text, number,
  approval and the tags it was published with, and is never a draft again nor, once superseded, approved
  again; and every approval, artifact and audit entry is still there.\<close>

theorem published_history_stands:
  assumes "doc_ok s" "v \<in> set (t_docversion s)" "dv_status v \<in> {Approved, Superseded}"
  shows "doc_ok (run_doc rs s) \<and>
    (\<exists>v'. v' \<in> set (t_docversion (run_doc rs s)) \<and> dv_id v' = dv_id v \<and> dv_document_id v' = dv_document_id v \<and>
       dv_number v' = dv_number v \<and> dv_body v' = dv_body v \<and> dv_approved_at v' = dv_approved_at v \<and>
       dv_approver v' = dv_approver v \<and> dv_published v' = dv_published v \<and>
       dv_status v' \<in> {dv_status v, Superseded}) \<and>
    set (t_approval s) \<subseteq> set (t_approval (run_doc rs s)) \<and>
    prefix (t_evidence (dd_db s)) (t_evidence (dd_db (run_doc rs s))) \<and>
    prefix (t_audit (dd_db s)) (t_audit (dd_db (run_doc rs s)))"
proof -
  have r: "doc_ok (run_doc rs s)" "history_stands s (run_doc rs s)" using run_doc_ok[OF assms(1)] by simp_all
  have m: "\<not> manual (dv_status v)" using assms(3) by (auto simp: manual_def)
  have "version_lives (run_doc rs s) v" using r(2) assms(2) by (simp add: history_stands_def)
  then obtain v' where v': "v' \<in> set (t_docversion (run_doc rs s))" "same_text v v'"
    using m unfolding version_lives_def by blast
  have "dv_status v' \<in> {dv_status v, Superseded}"
    using v'(2) assms(3) by (cases "dv_status v'") (auto simp: same_text_def)
  then show ?thesis using r v' m unfolding history_stands_def same_text_def by auto
qed

theorem published_history_stands_witness:
  "\<exists>v. v \<in> set (t_docversion (run_doc [Publish 1 100 5, DeleteDocument 1 100] policy_tenant)) \<and> dv_id v = 101 \<and>
     dv_body v = Some ''b'' \<and> dv_approver v = Some 5"
proof -
  have "map (\<lambda>v. (dv_id v, dv_status v, dv_body v, dv_approver v)) (t_docversion policy_tenant) =
      [(101, Approved, Some ''b'', Some 5), (105, Draft, Some ''c'', None)]" by code_simp
  then obtain v vs where "t_docversion policy_tenant = v # vs" "dv_id v = 101" "dv_status v = Approved"
    "dv_body v = Some ''b''" "dv_approver v = Some 5" by (auto simp: map_eq_Cons_conv)
  then have v: "v \<in> set (t_docversion policy_tenant)" "dv_id v = 101" "dv_status v \<in> {Approved, Superseded}"
    "dv_body v = Some ''b''" "dv_approver v = Some 5" by simp_all
  from published_history_stands[OF policy_tenant_ok v(1,3), of "[Publish 1 100 5, DeleteDocument 1 100]"] v(2,4,5)
  show ?thesis by auto
qed

subsection \<open>Who approves\<close>

lemma not_manual_sources:
  assumes ok: "store_ok s" and v: "v \<in> set (t_docversion s)"
  shows "dv_id v \<in> source_versions (dd_db s) \<longleftrightarrow> \<not> manual (dv_status v)"
proof
  assume "dv_id v \<in> source_versions (dd_db s)"
  then obtain w where w: "w \<in> set (t_docversion s)" "dv_id w = dv_id v" "\<not> manual (dv_status w)"
    using store_okD(6)[OF ok] by blast
  have "pk_ok dv_id (new_row s) (t_docversion s)" using store_okD(1)[OF ok] by (simp add: doc_keys_def)
  from pk_ok_inj[OF this w(1) v w(2)] show "\<not> manual (dv_status v)" using w(3) by simp
next
  assume "\<not> manual (dv_status v)"
  then show "dv_id v \<in> source_versions (dd_db s)" using store_okD(7)[OF ok v] by (simp add: version_ok_def)
qed

lemma new_version_evidence: "t_evidence (dd_db (snd (new_version org_id i n body s))) = t_evidence (dd_db s)"
  by (simp add: new_version_def Let_def)

lemma add_tags_evidence: "t_evidence (dd_db (foldl (add_tag org_id i typed) s ts)) = t_evidence (dd_db s)"
  by (induction ts arbitrary: s) (simp_all add: add_tag_def Let_def)

lemma still_evidence:
  assumes ok: "doc_ok s" and run: "serve_doc r s = Inr s'" and n: "\<not> moves_documents r" "\<And>a b c. r \<noteq> Publish a b c"
  shows "t_evidence (dd_db s') = t_evidence (dd_db s)"
proof (cases r)
  case (AssessmentRequest q)
  then obtain u where u: "serve_api q (dd_api s) = Inr u" "s' = s\<lparr>dd_api := u\<rparr>" using run by (cases "serve_api q (dd_api s)") simp_all
  show ?thesis using api_step[OF doc_okD(6)[OF ok] u(1)] by (simp add: u(2) api_grows_def catalog_eq_def)
next
  case (CreateDocument a b c d e f)
  then have e: "create_document a b c d e f s = Inr s'" using run by (simp add: map_sum_InrD)
  then show ?thesis by (rule create_document_InrD) (simp add: new_version_evidence)
next
  case (PatchDocument a b c d e)
  then have e: "patch_document a b c d e s = Inr s'" using run by (simp add: map_sum_InrD)
  from patch_document_InrD[OF e] show ?thesis by auto
next
  case (DeleteDocument a b)
  then have e: "delete_document a b s = Inr s'" using run by (simp add: map_sum_InrD)
  then show ?thesis by (rule delete_document_InrD) simp
next
  case (SaveVersion a b c d)
  then have e: "create_document_version a b c d s = Inr s'" using run by (simp add: map_sum_InrD)
  then show ?thesis unfolding create_document_version_def
    by (auto simp: new_version_evidence Let_def case_prod_unfold split: sum.splits if_splits)
next
  case (PatchVersion a b c d)
  then have e: "patch_document_version_status a b c d s = Inr s'" using run by (simp add: map_sum_InrD)
  then show ?thesis by (rule patch_version_InrD) simp
next
  case (AddTags a b c d)
  then have e: "add_objective_tag a b c d s = Inr s'" using run by (simp add: map_sum_InrD)
  then show ?thesis by (rule add_objective_tag_InrD) (simp add: add_tags_evidence)
next
  case (RemoveTag a b c)
  then have e: "remove_objective_tag a b c s = Inr s'" using run by (simp add: map_sum_InrD)
  then show ?thesis by (rule remove_tag_InrD) simp
next
  case (Reaffirm a b c d)
  then have e: "reaffirm_document a b c d s = Inr s'" using run by (simp add: map_sum_InrD)
  obtain x u ctx where r: "reaffirm a b c d s = Inr (x, u)"
    and s': "s' = log_doc a ''document.reaffirm'' ''document'' b None None ctx u" using e by (rule reaffirm_InrD2)
  from r obtain dd v k where "own_document a b s = Inr dd" "approved_version b s = Some v"
    and a: "record_approval dd (dv_id v) k Reaffirmation d s = (x, u)" by (rule reaffirm_InrD)
  show ?thesis unfolding s' using record_approval_frame(5)[OF a] by simp
qed (use run n in auto)


lemma archived_by_fold_evidence:
  assumes "\<And>t x. t_evidence (dd_db (f t x)) = t_evidence (dd_db t)"
  shows "t_evidence (dd_db (foldl f s xs)) = t_evidence (dd_db s)"
  by (induction xs arbitrary: s) (simp_all add: assms)

lemma attach_sources:
  assumes ok: "doc_ok s" and v: "of_version ofr = v" "v \<in> set (t_docversion s)" "dv_status v = Approved"
    and u: "t_evidence (dd_db u) = t_evidence (dd_db s)"
  shows "source_versions (dd_db (attach_version org_id cs ofr u)) = source_versions (dd_db s)"
proof -
  have i: "dv_id v \<in> source_versions (dd_db s)"
    using not_manual_sources[OF doc_okD(1)[OF ok] v(2)] v(3) by (simp add: manual_def)
  obtain e s1 where e: "evidence_for org_id (of_document ofr) v u = (e, s1)" by (metis surj_pair)
  have "t_evidence (dd_db s1) = t_evidence (dd_db u) \<or>
      (\<exists>j t. t_evidence (dd_db s1) = t_evidence (dd_db u) @ [document_evidence_row j org_id (of_document ofr) (dv_id v) t])"
    using e by (auto simp: evidence_for_def add_document_evidence_def Let_def split: option.splits) blast+
  then have "source_versions (dd_db s1) = source_versions (dd_db s)"
    using source_versions_snoc[of "dd_db s1" "dd_db u"] source_versions_same[OF u] source_versions_same[of "dd_db s1" "dd_db u"] i
    by auto
  then show ?thesis by (simp add: attach_version_def v(1) e source_versions_eq)
qed

lemma serve_doc_sources:
  assumes ok: "doc_ok s" and run: "serve_doc r s = Inr s'" and n: "\<And>a b c. r \<noteq> Publish a b c"
  shows "source_versions (dd_db s') = source_versions (dd_db s)"
proof (cases "moves_documents r")
  case False
  then show ?thesis using still_evidence[OF ok run _ n] by (simp add: source_versions_eq)
next
  case True
  have log: "source_versions (dd_db (audit_link o' ac cs d v ct k ex t)) = source_versions (dd_db t)" for o' ac cs d v ct k ex t
    by (simp add: audit_link_def source_versions_eq)
  show ?thesis
    using True
  proof (cases r)
    case (LinkDocument a b i d)
    then have e: "link_document a b i d s = Inr s'" using run by (simp add: map_sum_InrD)
    obtain cs ofr where cs: "state_of a b i (dd_db s) = Inr cs" and ofr: "offerable a cs d s = Inr ofr"
      using e by (auto simp: link_document_def split: sum.splits)
    obtain v where v: "of_version ofr = v" "v \<in> set (t_docversion s)" "dv_status v = Approved"
      by (rule offerable_InrD[OF ok ofr conjunct1[OF state_of_InrD[OF cs]]])
    have "s' = audit_link a ''evidence.document_link'' cs (of_document ofr) v (of_control ofr) (of_objective ofr) []
        (attach_version a cs ofr s)"
      using e v(1) by (auto simp: link_document_def cs ofr Let_def split: list.splits if_splits)
    then show ?thesis using attach_sources[OF ok v refl] by (simp add: log)
  next
    case (MoveForward a b i d)
    then have e: "move_document_forward a b i d s = Inr s'" using run by (simp add: map_sum_InrD)
    obtain cs ofr where cs: "state_of a b i (dd_db s) = Inr cs" and ofr: "offerable a cs d s = Inr ofr"
      using e by (auto simp: move_document_forward_def split: sum.splits)
    obtain v where v: "of_version ofr = v" "v \<in> set (t_docversion s)" "dv_status v = Approved"
      by (rule offerable_InrD[OF ok ofr conjunct1[OF state_of_InrD[OF cs]]])
    let ?s1 = "foldl (archive_moved (clock (dd_db s))) s (live_for i d s)"
    obtain ex where s': "s' = audit_link a ''evidence.document_move_forward'' cs (of_document ofr) v (of_control ofr) (of_objective ofr) ex
        (attach_version a cs ofr ?s1)"
      using e v(1) by (auto simp: move_document_forward_def cs ofr Let_def split: if_splits)
    have "t_evidence (dd_db ?s1) = t_evidence (dd_db s)"
      by (rule archived_by_fold_evidence) (simp add: archive_moved_def update_link_def)
    from attach_sources[OF ok v this] show ?thesis by (simp add: s' log)
  next
    case (UnlinkDocument a b i d who)
    then have e: "unlink_document a b i d who s = Inr s'" using run by (simp add: map_sum_InrD)
    obtain cs dd ct k where s': "s' = foldl (unlink_one a cs dd ct k who (clock (dd_db s))) s (live_for i d s)"
      using e by (auto simp: unlink_document_def Let_def split: sum.splits option.splits if_splits)
    have "t_evidence (dd_db s') = t_evidence (dd_db s)" unfolding s'
      by (rule archived_by_fold_evidence) (simp add: unlink_one_def audit_link_def update_link_def)
    then show ?thesis by (simp add: source_versions_eq)
  qed simp_all
qed

lemma publish_sources:
  assumes ok: "doc_ok s" and run: "publish_document org_id i c s = Inr s'"
  shows "\<exists>v. v \<in> set (t_docversion s) \<and> dv_document_id v = i \<and>
    source_versions (dd_db s') = insert (dv_id v) (source_versions (dd_db s))"
proof -
  from run obtain d vid v k u af where d: "own_document org_id i s = Inr d" "dc_current d = Some vid" "get_docversion vid s = Some v"
    and p: "published i vid k s u"
    and s': "s' = log_doc org_id ''document.publish'' ''document_version'' vid None af via_api u"
    by (rule publish_InrD)
  obtain j og dd t where "t_evidence (dd_db u) = t_evidence (dd_db s) @ [document_evidence_row j og dd vid t]"
    using p unfolding published_def by auto
  then have src: "source_versions (dd_db s') = insert vid (source_versions (dd_db s))"
    using source_versions_snoc[of "dd_db u"] by (simp add: s' source_versions_eq)
  note v = tget_SomeD[OF d(3)]
  have "current_ok (set (t_docversion s)) d" using store_okD(4)[OF doc_okD(1)[OF ok]] own_document_InrD[OF d(1)] by simp
  then obtain w where w: "w \<in> set (t_docversion s)" "dv_id w = vid" "dv_document_id w = dc_id d"
    using d(2) unfolding current_ok_def by auto
  then show ?thesis using src own_document_InrD[OF d(1)] by auto
qed

text \<open>C25. A version counts as approved only because somebody published its document: a
  request after which a version is approved or superseded that was not so before, if it was there at
  all, is the publication of its document.\<close>

theorem only_publishing_approves:
  assumes "doc_ok s" "serve_doc r s = Inr s'" "v \<in> set (t_docversion s')" "dv_status v \<in> {Approved, Superseded}"
    and "list_all (\<lambda>w. dv_id w = dv_id v \<longrightarrow> dv_status w \<in> {Draft, UnderReview}) (t_docversion s)"
  shows "\<exists>org_id contact_id. r = Publish org_id (dv_document_id v) contact_id"
proof -
  have ok': "doc_ok s'" and h: "history_stands s s'" using serve_doc_step[OF assms(1,2)] by simp_all
  have new: "dv_id v \<in> source_versions (dd_db s')"
    using not_manual_sources[OF doc_okD(1)[OF ok'] assms(3)] assms(4) by (auto simp: manual_def)
  have notold: "dv_id v \<notin> source_versions (dd_db s)"
  proof
    assume "dv_id v \<in> source_versions (dd_db s)"
    then obtain w where "w \<in> set (t_docversion s)" "dv_id w = dv_id v" "\<not> manual (dv_status w)"
      using store_okD(6)[OF doc_okD(1)[OF assms(1)]] by blast
    then show False using assms(5) by (auto simp: list_all_iff manual_def)
  qed
  then obtain a i c where r: "r = Publish a i c" using serve_doc_sources[OF assms(1,2)] new by metis
  then have "publish_document a i c s = Inr s'" using assms(2) by (simp add: map_sum_InrD)
  from publish_sources[OF assms(1) this] obtain w where w: "w \<in> set (t_docversion s)" "dv_document_id w = i" "dv_id w = dv_id v"
    using new notold by auto
  have "version_lives s' w" using h w(1) by (simp add: history_stands_def)
  then obtain w' where w': "w' \<in> set (t_docversion s')" "same_text w w'"
    using assms(3) w(3) unfolding version_lives_def by (metis imageI)
  have "pk_ok dv_id (new_row s') (t_docversion s')" using store_okD(1)[OF doc_okD(1)[OF ok']] by (simp add: doc_keys_def)
  from pk_ok_inj[OF this w'(1) assms(3)] have "w' = v" using w(3) w'(2) by (simp add: same_text_def)
  then show ?thesis using r w(2) w'(2) by (auto simp: same_text_def)
qed


theorem only_publishing_approves_witness:
  "\<exists>s' v org_id contact_id. serve_doc (Publish 1 100 5) policy_tenant = Inr s' \<and> v \<in> set (t_docversion s') \<and> dv_id v = 105 \<and>
     Publish 1 100 5 = Publish org_id (dv_document_id v) contact_id"
proof -
  have e: "(case publish_document 1 100 5 policy_tenant of Inl _ \<Rightarrow> [] | Inr s' \<Rightarrow>
      map (\<lambda>v. (dv_id v, dv_status v)) (t_docversion s')) = [(101, Superseded), (105, Approved)]" by code_simp
  then obtain s' where s': "publish_document 1 100 5 policy_tenant = Inr s'" by (cases "publish_document 1 100 5 policy_tenant") auto
  have "map (\<lambda>v. (dv_id v, dv_status v)) (t_docversion s') = [(101, Superseded), (105, Approved)]" using e s' by simp
  then obtain u v where "t_docversion s' = [u, v]" "dv_id v = 105" "dv_status v = Approved"
    by (auto simp: map_eq_Cons_conv)
  then have v: "v \<in> set (t_docversion s')" "dv_id v = 105" "dv_status v \<in> {Approved, Superseded}" by simp_all
  have "list_all (\<lambda>w. dv_id w = 105 \<longrightarrow> dv_status w \<in> {Draft, UnderReview}) (t_docversion policy_tenant)" by code_simp
  then have "list_all (\<lambda>w. dv_id w = dv_id v \<longrightarrow> dv_status w \<in> {Draft, UnderReview}) (t_docversion policy_tenant)" using v(2) by simp
  from only_publishing_approves[OF policy_tenant_ok _ v(1,3) this, of "Publish 1 100 5"] s' v(1,2) show ?thesis by auto
qed

subsection \<open>Stale edits\<close>

lemma save_InrD:
  assumes "create_document_version org_id i body (Some base) s = Inr s'"
  obtains d where "own_document org_id i s = Inr d" "dc_current d = Some base"
    "\<exists>af. s' = log_doc org_id ''document.version.create'' ''document_version''
       (fst (new_version org_id i (Suc (max_version i s)) body s)) None af via_api
       (snd (new_version org_id i (Suc (max_version i s)) body s))"
  using assms unfolding create_document_version_def Let_def
  by (auto simp: case_prod_unfold split: sum.splits if_splits)

text \<open>Once a document has a version newer than \<open>b\<close>, \<open>b\<close> is not its current one
  again.\<close>

lemma not_current_again:
  assumes ok: "doc_ok s" "doc_ok t" and h: "history_stands s t"
    and b: "b \<in> set (t_docversion s)" and v: "v \<in> set (t_docversion s)" "dv_document_id v = i" "dv_number b < dv_number v"
    and d: "get_doc i t = Some d"
  shows "dc_current d \<noteq> Some (dv_id b) \<and> (\<exists>w. dc_current d = Some (dv_id w) \<and> get_docversion (dv_id w) t = Some w)"
proof -
  have st: "store_ok t" by (rule doc_okD(1)[OF ok(2)])
  have pk: "pk_ok dv_id (new_row t) (t_docversion t)" using store_okD(1)[OF st] by (simp add: doc_keys_def)
  have din: "d \<in> set (t_document t)" "dc_id d = i" using tget_SomeD[OF d] by simp_all
  have "version_lives t v" using h v(1) by (simp add: history_stands_def)
  then obtain v' where v': "v' \<in> set (t_docversion t)" "same_text v v'"
    using din v(2) unfolding version_lives_def by auto
  obtain w where w: "w \<in> set (t_docversion t)" "dc_current d = Some (dv_id w)" "dv_number v' \<le> dv_number w"
  proof -
    obtain w where w: "w \<in> set (t_docversion t)" "dc_current d = Some (dv_id w)"
      "\<forall>x \<in> set (t_docversion t). dv_document_id x = dc_id d \<longrightarrow> dv_number x \<le> dv_number w"
      using store_okD(4)[OF st din(1)] unfolding current_ok_def by blast
    have "dv_document_id v' = dc_id d" using v'(2) v(2) din(2) by (simp add: same_text_def)
    then show thesis using that[OF w(1,2)] w(3) v'(1) by blast
  qed
  have "dv_id w \<noteq> dv_id b"
  proof
    assume e: "dv_id w = dv_id b"
    have "version_lives t b" using h b by (simp add: history_stands_def)
    then obtain b' where b': "b' \<in> set (t_docversion t)" "same_text b b'"
      using w(1) e unfolding version_lives_def by (metis imageI)
    have "w = b'" using pk_ok_inj[OF pk w(1) b'(1)] e b'(2) by (simp add: same_text_def)
    then show False using w(3) v'(2) b'(2) v(3) by (simp add: same_text_def)
  qed
  then show ?thesis using w(2) pk_ok_tget[OF pk w(1)] by auto
qed

text \<open>C26. No update is lost: once a version was saved over a base, no request to save another one
  over the same base is accepted again, whatever happens in between. The document is gone, or the
  editor is told which version is current, so of two people who edit the same text the second never
  overwrites the first.\<close>

theorem stale_save_never_accepted:
  assumes "doc_ok s" "create_document_version org_id i body (Some base) s = Inr s1"
  shows "create_document_version other_org i other_body (Some base) (run_doc rs s1) = Inl (DocRefused 404 ''Document not found'') \<or>
    (\<exists>cur n. create_document_version other_org i other_body (Some base) (run_doc rs s1) = Inl (EditConflict base (Some cur) (Some n)) \<and>
       cur \<noteq> base)"
proof -
  have sok: "store_ok s" by (rule doc_okD(1)[OF assms(1)])
  obtain d where d: "own_document org_id i s = Inr d" "dc_current d = Some base" and
    s1: "\<exists>af. s1 = log_doc org_id ''document.version.create'' ''document_version''
       (fst (new_version org_id i (Suc (max_version i s)) body s)) None af via_api
       (snd (new_version org_id i (Suc (max_version i s)) body s))"
    using assms(2) by (rule save_InrD)
  note dd = own_document_InrD[OF d(1)]
  obtain b where b: "b \<in> set (t_docversion s)" "base = dv_id b" "dv_document_id b = i"
    using store_okD(4)[OF sok, of d] dd d(2) unfolding current_ok_def by auto
  have V: "\<exists>v. t_docversion s1 = t_docversion s @ [v] \<and> dv_document_id v = i \<and> dv_number v = Suc (max_version i s)"
    using s1 by (auto simp: new_version_def Let_def)
  then obtain v where v: "t_docversion s1 = t_docversion s @ [v]" "dv_document_id v = i" "dv_number b < dv_number v"
    using max_version_ge[OF b(1,3)] by auto
  have ok1: "doc_ok s1" using serve_doc_step[OF assms(1), of "SaveVersion org_id i body (Some base)" s1] assms(2) by simp
  have r: "doc_ok (run_doc rs s1)" "history_stands s1 (run_doc rs s1)" using run_doc_ok[OF ok1] by simp_all
  let ?t = "run_doc rs s1"
  show ?thesis
  proof (cases "own_document other_org i ?t")
    case (Inl e)
    then have "e = DocRefused 404 ''Document not found''" by (auto simp: own_document_def split: option.splits if_splits)
    then show ?thesis using Inl by (simp add: create_document_version_def)
  next
    case (Inr d')
    have g: "get_doc i ?t = Some d'" using own_document_InrD[OF Inr] by simp
    have bv: "b \<in> set (t_docversion s1)" "v \<in> set (t_docversion s1)" using b(1) v(1) by simp_all
    obtain w where w: "dc_current d' \<noteq> Some base" "dc_current d' = Some (dv_id w)" "get_docversion (dv_id w) ?t = Some w"
      using not_current_again[OF ok1 r bv v(2,3) g] unfolding b(2) by blast
    then show ?thesis using Inr by (auto simp: create_document_version_def Let_def)
  qed
qed

theorem stale_save_never_accepted_witness:
  "\<exists>s1. create_document_version 1 100 (Some ''x'') (Some 105) policy_tenant = Inr s1 \<and>
     (create_document_version 1 100 (Some ''y'') (Some 105) (run_doc [Publish 1 100 5] s1) = Inl (DocRefused 404 ''Document not found'') \<or>
      (\<exists>cur n. create_document_version 1 100 (Some ''y'') (Some 105) (run_doc [Publish 1 100 5] s1) =
         Inl (EditConflict 105 (Some cur) (Some n)) \<and> cur \<noteq> 105))"
proof -
  have "(case create_document_version 1 100 (Some ''x'') (Some 105) policy_tenant of Inl _ \<Rightarrow> False | Inr _ \<Rightarrow> True)" by code_simp
  then obtain s1 where s1: "create_document_version 1 100 (Some ''x'') (Some 105) policy_tenant = Inr s1"
    by (auto split: sum.splits)
  from stale_save_never_accepted[OF policy_tenant_ok s1, of 1 "Some ''y''" "[Publish 1 100 5]"] s1 show ?thesis by blast
qed

subsection \<open>Attached documents\<close>

text \<open>The request that attaches, moves forward or takes off document \<open>d\<close> on state
  \<open>i\<close>.\<close>

fun about :: "uuid \<Rightarrow> uuid \<Rightarrow> doc_request \<Rightarrow> bool" where
  "about i d (LinkDocument _ _ j e) \<longleftrightarrow> i = j \<and> d = e"
| "about i d (MoveForward _ _ j e) \<longleftrightarrow> i = j \<and> d = e"
| "about i d (UnlinkDocument _ _ j e _) \<longleftrightarrow> i = j \<and> d = e"
| "about i d _ \<longleftrightarrow> False"

lemma serve_doc_links:
  assumes ok: "doc_ok s" and run: "serve_doc r s = Inr s'" and n: "\<not> about (ln_state_id l) d r"
  shows "(l, d) \<in> doc_links s' \<longleftrightarrow> (l, d) \<in> doc_links s"
proof (cases r)
  case (LinkDocument a b i e)
  then have "link_document a b i e s = Inr s'" using run by (simp add: map_sum_InrD)
  from link_document_step[OF ok this] n LinkDocument show ?thesis by (auto simp: attached_def moves_at_def)
next
  case (MoveForward a b i e)
  then have "move_document_forward a b i e s = Inr s'" using run by (simp add: map_sum_InrD)
  from move_document_step[OF ok this] n MoveForward show ?thesis by (auto simp: attached_def moves_at_def)
next
  case (UnlinkDocument a b i e who)
  then have "unlink_document a b i e who s = Inr s'" using run by (simp add: map_sum_InrD)
  from unlink_document_step[OF ok this] n UnlinkDocument show ?thesis by (auto simp: moves_at_def)
qed (use serve_doc_still[OF ok run] in \<open>simp_all add: still_def\<close>)

text \<open>C27. Only a person attaches a document or takes it off: over any sequence of requests with
  none that attaches, moves forward or unlinks this document on this control state (publications,
  approvals, edits, tags, and every request to the assessments, with its activations and
  deactivations of products, included) its links on the state are the same rows, live or archived.\<close>

theorem only_people_move_document_links:
  assumes "doc_ok s" "list_all (\<lambda>r. \<not> about (ln_state_id l) d r) rs"
  shows "(l, d) \<in> doc_links (run_doc rs s) \<longleftrightarrow> (l, d) \<in> doc_links s"
  using assms
proof (induction rs arbitrary: s)
  case Nil
  then show ?case by (simp add: run_doc_def)
next
  case (Cons r rs)
  show ?case
  proof (cases "serve_doc r s")
    case (Inl e)
    then show ?thesis using Cons by (simp add: run_doc_def)
  next
    case (Inr t)
    have "run_doc (r # rs) s = run_doc rs t" using Inr by (simp add: run_doc_def)
    moreover have "doc_ok t" using serve_doc_step[OF Cons.prems(1) Inr] by simp
    ultimately show ?thesis using Cons.IH[of t] Cons.prems(2) serve_doc_links[OF Cons.prems(1) Inr] by simp
  qed
qed

theorem only_people_move_document_links_witness:
  "(new_link 108 104 80, 100) \<in> doc_links (run_doc [Publish 1 100 5, AssessmentRequest (DeactivateProduct 1 70 30 None None ''e'')]
     policy_tenant)"
proof -
  have "link_doc policy_tenant (new_link 108 104 80) = Some 100" "new_link 108 104 80 = last (t_link (dd_db policy_tenant))"
    "t_link (dd_db policy_tenant) \<noteq> []" by code_simp+
  then have "(new_link 108 104 80, 100) \<in> doc_links policy_tenant" unfolding doc_links_def by (simp add: last_in_set)
  then show ?thesis
    using only_people_move_document_links[OF policy_tenant_ok, of "new_link 108 104 80" 100
        "[Publish 1 100 5, AssessmentRequest (DeactivateProduct 1 70 30 None None ''e'')]"] by simp
qed

text \<open>C28. What a document is evidence for: over any sequence of requests, a live link of a
  document on a control state is the only one, its version was published, and the document is tagged
  with the state's objective.\<close>

theorem live_links_rest_on_tags:
  assumes "doc_ok s" "(l, v) \<in> set (live_for i d (run_doc rs s))"
  shows "live_for i d (run_doc rs s) = [(l, v)] \<and> dv_status v \<in> {Approved, Superseded} \<and>
    (\<exists>cs. get_state i (dd_db (run_doc rs s)) = Some cs \<and> is_tagged d cs (run_doc rs s))"
proof -
  let ?t = "run_doc rs s"
  have ok: "doc_ok ?t" using run_doc_ok[OF assms(1)] by simp
  have m: "l \<in> set (t_link (dd_db ?t))" "\<not> ln_is_archived l" "link_version ?t l = Some v" "ln_state_id l = i" "dv_document_id v = d"
    using assms(2) by (simp_all add: in_live_for)
  then have "(l, d) \<in> doc_links ?t" by (simp add: doc_links_def link_doc_def)
  then have "rests ?t d i" using doc_okD(5)[OF ok] m(2,4) unfolding links_rest_def by blast
  moreover have "\<not> manual (dv_status v)"
    using link_version_source[OF m(3)] not_manual_sources[OF doc_okD(1)[OF ok]] by blast
  then have "dv_status v \<in> {Approved, Superseded}" by (cases "dv_status v") (auto simp: manual_def)
  ultimately show ?thesis using live_for_single[OF ok assms(2)] unfolding rests_def by blast
qed

theorem live_links_rest_on_tags_witness:
  "\<exists>l v cs. live_for 80 100 (run_doc [] policy_tenant) = [(l, v)] \<and>
     get_state 80 (dd_db (run_doc [] policy_tenant)) = Some cs \<and> is_tagged 100 cs (run_doc [] policy_tenant)"
proof -
  have "length (live_for 80 100 policy_tenant) = 1" by code_simp
  then obtain l v where "(l, v) \<in> set (live_for 80 100 (run_doc [] policy_tenant))"
    by (auto simp: length_Suc_conv run_doc_def)
  from live_links_rest_on_tags[OF policy_tenant_ok this] show ?thesis by blast
qed

end
