(* ===== verification/Document_Cadence.thy ===== *)
theory Document_Cadence
  imports Document_Properties
begin

section \<open>Properties of the review cadence and of the documents' fields\<close>

text \<open>
  That approving a document renews it, what the digest of the documents due for review lists, and
  that the fields of a document are always as the checks of its requests leave them.
\<close>

subsection \<open>The latest approval\<close>

lemma newest_snoc:
  assumes "\<forall>b \<in> set as. later_approval a b"
  shows "newest_approval (as @ [a]) = Some a"
  using assms
proof (induction as)
  case (Cons b as)
  then have "newest_approval (as @ [a]) = Some a" "later_approval a b" by simp_all
  moreover from this(2) have "\<not> later_approval b a" unfolding later_approval_def by auto
  ultimately show ?case by simp
qed simp

lemma approvals_of_request:
  assumes ok: "doc_ok s" and run: "serve_doc r s = Inr s'" and r: "r \<in> {Publish org_id i c, Reaffirm org_id i c nt}"
  obtains a where "t_approval s' = t_approval s @ [a]" "da_document_id a = i" "da_at a = clock (dd_db s)" "da_id a = new_row s"
    "t_document s' = t_document s"
proof (cases "r = Publish org_id i c")
  case True
  then have "publish_document org_id i c s = Inr s'" using run by (simp add: map_sum_InrD)
  then obtain d vid v k u af where "own_document org_id i s = Inr d" "get_docversion vid s = Some v"
    and p: "published i vid k s u"
    and s': "s' = log_doc org_id ''document.publish'' ''document_version'' vid None af via_api u"
    by (rule publish_InrD)
  obtain a where "t_approval u = t_approval s @ [a]" "da_document_id a = i" "da_at a = clock (dd_db s)" "da_id a = new_row s"
    "t_document u = t_document s" using p unfolding published_def by auto
  then show thesis by (intro that[of a]) (simp_all add: s')
next
  case False
  then have "reaffirm_document org_id i c nt s = Inr s'" using run r by (simp add: map_sum_InrD)
  then obtain a u ctx where x: "reaffirm org_id i c nt s = Inr (a, u)"
    and s': "s' = log_doc org_id ''document.reaffirm'' ''document'' i None None ctx u" by (rule reaffirm_InrD2)
  from x obtain dd v k where d: "own_document org_id i s = Inr dd" and "approved_version i s = Some v"
    and a: "record_approval dd (dv_id v) k Reaffirmation nt s = (a, u)" by (rule reaffirm_InrD)
  show thesis
    by (rule that[of a]) (use record_approval_frame[OF a] own_document_InrD[OF d] in \<open>simp_all add: s'\<close>)
qed

text \<open>C29. Approving a document renews it. After it is published or reaffirmed, as long as no
  approval is dated later than the clock, its verdict counts from that instant: the next approval is
  due one cadence later, which lies ahead, and at any instant the document is overdue exactly from the
  due date on, due soon in the thirty days before it, and current until then.\<close>

theorem approval_renews:
  assumes "doc_ok s" "serve_doc r s = Inr s'" "r \<in> {Publish org_id i c, Reaffirm org_id i c nt}"
    and "valid_datetime (clock (dd_db s))" "list_all (\<lambda>a. da_at a \<le> clock (dd_db s)) (t_approval s)"
    and "get_doc i s' = Some d" "0 < dc_cadence d" "dt_year (add_months (clock (dd_db s)) (dc_cadence d)) \<le> 9999"
  shows "(let due = add_months (clock (dd_db s)) (dc_cadence d) in
    clock (dd_db s) < due \<and>
    document_verdict d t s' = Some \<lparr>rvw_status = (if due \<le> t then Overdue
        else if instant due - instant t \<le> 30 * micros_per_day then DueSoon else Current),
      rvw_last = Some (clock (dd_db s)), rvw_next = Some due, rvw_days = Some ((instant due - instant t) div micros_per_day)\<rparr>)"
proof -
  let ?now = "clock (dd_db s)"
  obtain a where a: "t_approval s' = t_approval s @ [a]" "da_document_id a = i" "da_at a = ?now" "da_id a = new_row s"
    "t_document s' = t_document s" by (rule approvals_of_request[OF assms(1-3)])
  have i: "dc_id d = i" using tget_SomeD[OF assms(6)] by simp
  have pk: "pk_ok da_id (new_row s) (t_approval s)"
    using store_okD(1)[OF doc_okD(1)[OF assms(1)]] by (simp add: doc_keys_def)
  have "later_approval a b" if "b \<in> set (t_approval s)" for b
    using that assms(5) pk a(3,4) by (auto simp: later_approval_def list_all_iff pk_ok_def order_le_less)
  then have "newest_approval (filter (\<lambda>a. da_document_id a = i) (t_approval s) @ [a]) = Some a"
    by (intro newest_snoc) simp
  then have l: "latest_approval (dc_id d) s' = Some a" by (simp add: latest_approval_def a i)
  have "?now < add_months ?now (dc_cadence d)" by (rule add_months_later[OF assms(4,7)])
  then show ?thesis using assms(7,8)
    by (simp add: document_verdict_def l a(3) review_state_at_def Let_def DUE_SOON_DAYS_def)
qed

theorem approval_renews_witness:
  "\<exists>s' d. serve_doc (Reaffirm 1 100 5 None) policy_tenant = Inr s' \<and> get_doc 100 s' = Some d \<and>
     document_verdict d t0 s' = Some \<lparr>rvw_status = Current, rvw_last = Some t0, rvw_next = Some (DT 2027 3 1 0),
       rvw_days = Some 365\<rparr>"
proof -
  have e: "(case reaffirm_document 1 100 5 None policy_tenant of Inl _ \<Rightarrow> None | Inr s' \<Rightarrow>
      map_option dc_cadence (get_doc 100 s')) = Some 12" by code_simp
  then obtain s' d where s': "serve_doc (Reaffirm 1 100 5 None) policy_tenant = Inr s'" "get_doc 100 s' = Some d" "dc_cadence d = 12"
    by (cases "reaffirm_document 1 100 5 None policy_tenant") auto
  have k: "clock (dd_db policy_tenant) = t0" "list_all (\<lambda>a. da_at a \<le> t0) (t_approval policy_tenant)" "valid_datetime t0"
    "add_months t0 12 = DT 2027 3 1 0" "\<not> DT 2027 3 1 0 \<le> t0"
    "instant (DT 2027 3 1 0) - instant t0 = 365 * micros_per_day" by code_simp+
  have "micros_per_day > 0" by code_simp
  then have days: "\<not> 365 * micros_per_day \<le> 30 * micros_per_day" "365 * micros_per_day div micros_per_day = 365" by simp_all
  have "document_verdict d t0 s' = Some \<lparr>rvw_status = Current, rvw_last = Some t0, rvw_next = Some (DT 2027 3 1 0),
      rvw_days = Some 365\<rparr>"
    using approval_renews[OF policy_tenant_ok s'(1), where org_id = 1 and i = 100 and c = 5 and nt = None and d = d and t = t0]
      s' k(1-3) unfolding s'(3) k(1) k(4) Let_def k(6) using k(5) days by simp
  then show ?thesis using s' by blast
qed

subsection \<open>The digest\<close>

lemma due_documents_spec:
  "due_documents now s ds = None \<longleftrightarrow> (\<exists>d \<in> set ds. document_verdict d now s = None)"
  "due_documents now s ds = Some out \<Longrightarrow> set out = {(d, r). d \<in> set ds \<and> document_verdict d now s = Some r \<and> needs_attention r}"
  by (induction ds arbitrary: out) (auto split: option.splits if_splits)

text \<open>What the digest lists: it fails exactly when some document of the organization has a
  due date past the year 9999; otherwise it lists exactly the documents of the organization that are
  overdue, never approved or due soon, each with its verdict, the most severe first and then by
  document id.\<close>

theorem digest_complete:
  "case documents_needing_attention org_id now s of
     None \<Rightarrow> (\<exists>d. d \<in> set (t_document s) \<and> dc_org_id d = org_id \<and> document_verdict d now s = None)
   | Some out \<Rightarrow>
       set out = {(d, r). d \<in> set (t_document s) \<and> dc_org_id d = org_id \<and> document_verdict d now s = Some r \<and>
         rvw_status r \<in> {Overdue, NeverApproved, DueSoon}} \<and>
       sorted (map (\<lambda>(d, r). (severity (rvw_status r), dc_doc_id d)) out)"
proof -
  let ?ds = "sort_key dc_doc_id (filter (\<lambda>d. dc_org_id d = org_id) (t_document s))"
  show ?thesis
  proof (cases "due_documents now s ?ds")
    case None
    then show ?thesis using due_documents_spec(1)[of now s ?ds] by (auto simp: documents_needing_attention_def)
  next
    case (Some out)
    have "sorted (map f (sort_key f out))" for f :: "document \<times> review_state \<Rightarrow> nat \<times> string" by (rule sorted_sort_key)
    then show ?thesis using due_documents_spec(2)[OF Some]
      by (auto simp: documents_needing_attention_def Some needs_attention_def)
  qed
qed


subsection \<open>The fields of a document\<close>

definition fields_ok :: "document \<Rightarrow> bool" where
  "fields_ok d \<longleftrightarrow> 2 \<le> length (dc_doc_id d) \<and> length (dc_doc_id d) \<le> 60 \<and> dc_title d \<noteq> '''' \<and> dc_type d \<noteq> DocList \<and>
     1 \<le> dc_cadence d"

abbreviation all_fields_ok :: "document_db \<Rightarrow> bool" where
  "all_fields_ok s \<equiv> list_all fields_ok (t_document s)"

lemma check_values:
  "check_doc_id v = Some k \<Longrightarrow> 2 \<le> length k \<and> length k \<le> 60" "check_title v = Some nm \<Longrightarrow> nm \<noteq> ''''"
  "check_cadence n = Some m \<Longrightarrow> 1 \<le> m"
  by (auto simp: check_doc_id_def check_title_def check_cadence_def Let_def split: if_splits)

lemma check_doc_type_value: "check_doc_type v = Some t \<Longrightarrow> t \<noteq> DocList"
  by (auto simp: check_doc_type_def of_value_def find_Some_iff nth_Cons split: nat.splits if_splits)

lemma tupd_fields:
  "list_all fields_ok rows \<Longrightarrow> (\<And>d. fields_ok d \<Longrightarrow> fields_ok (f d)) \<Longrightarrow> list_all fields_ok (tupd dc_id i f rows)"
  by (auto simp: list_all_iff set_tupd)

lemma new_version_fields:
  "list_all fields_ok (t_document s) \<Longrightarrow> list_all fields_ok (t_document (snd (new_version org_id i n body s)))"
  by (simp add: new_version_def Let_def) (rule tupd_fields, simp_all add: fields_ok_def)

lemma create_fields:
  assumes "all_fields_ok s" "create_document org_id key ty title cadence body s = Inr s'"
  shows "all_fields_ok s'"
proof -
  from assms(2) obtain k t nm m d where c: "check_doc_id key = Some k"
    "d = \<lparr>dc_id = new_row s, dc_org_id = org_id, dc_doc_id = k, dc_type = t, dc_title = nm, dc_cadence = m, dc_current = None\<rparr>"
    "check_cadence cadence = Some m" "check_title title = Some nm" "check_doc_type ty = Some t"
    and s': "s' = log_doc org_id ''document.create'' ''document'' (new_row s) None
       (Some [(''doc_id'', JStr k), (''title'', JStr nm)]) via_api
       (snd (new_version org_id (new_row s) 1 body ((take_row s)\<lparr>t_document := t_document s @ [d]\<rparr>)))"
    by (rule create_document_InrD)
  have "fields_ok d" using c check_values check_doc_type_value by (simp add: fields_ok_def)
  then show ?thesis unfolding s' log_doc_frame by (intro new_version_fields) (use assms(1) in simp)
qed

lemma patch_fields:
  assumes ok: "all_fields_ok s" and run: "patch_document org_id i title ty cadence s = Inr s'"
  shows "all_fields_ok s'"
proof -
  obtain t y c where ch: "checked check_title title = Some t" "checked check_doc_type ty = Some y" "checked check_cadence cadence = Some c"
    using run by (auto simp: patch_document_def split: option.splits)
  have s': "t_document s' \<in> {t_document s, tupd dc_id i (\<lambda>r. r\<lparr>dc_title := or_old t (dc_title r),
      dc_type := or_old y (dc_type r), dc_cadence := or_old c (dc_cadence r)\<rparr>) (t_document s)}"
    using run ch by (auto simp: patch_document_def split: sum.splits if_splits)
  have or: "or_old x old = old \<or> (\<exists>v w. x = Some (Some w) \<and> f v = Some w \<and> or_old x old = w)"
    if "checked f y = Some x" for f y x old
    using that by (auto simp: checked_def or_old_def split: option.splits)
  have "fields_ok (r\<lparr>dc_title := or_old t (dc_title r), dc_type := or_old y (dc_type r), dc_cadence := or_old c (dc_cadence r)\<rparr>)"
    if "fields_ok r" for r
    using that or[OF ch(1), of "dc_title r"] or[OF ch(2), of "dc_type r"] or[OF ch(3), of "dc_cadence r"] check_values(2,3) check_doc_type_value
    by (auto simp: fields_ok_def)
  then show ?thesis using s' ok tupd_fields by auto
qed

lemma serve_doc_fields:
  assumes ok: "all_fields_ok s" and run: "serve_doc r s = Inr s'"
  shows "all_fields_ok s'"
proof (cases r)
  case (CreateDocument a b c d e f)
  then have "create_document a b c d e f s = Inr s'" using run by (simp add: map_sum_InrD)
  then show ?thesis by (rule create_fields[OF ok])
next
  case (PatchDocument a b c d e)
  then have "patch_document a b c d e s = Inr s'" using run by (simp add: map_sum_InrD)
  then show ?thesis by (rule patch_fields[OF ok])
next
  case (SaveVersion a b c d)
  then have e: "create_document_version a b c d s = Inr s'" using run by (simp add: map_sum_InrD)
  then show ?thesis using new_version_fields[OF ok] unfolding create_document_version_def Let_def
    by (auto simp: case_prod_unfold split: sum.splits if_splits)
next
  case (DeleteDocument a b)
  then have e: "delete_document a b s = Inr s'" using run by (simp add: map_sum_InrD)
  then show ?thesis by (rule delete_document_InrD) (use ok in \<open>auto simp: list_all_iff\<close>)
next
  case (LinkDocument a b i d)
  then have "link_document a b i d s = Inr s'" using run by (simp add: map_sum_InrD)
  then have "t_document s' = t_document s"
    by (auto simp: link_document_def audit_link_def attach_version_def evidence_for_def add_document_evidence_def Let_def
        split: sum.splits list.splits option.splits if_splits)
  then show ?thesis using ok by simp
next
  case (MoveForward a b i d)
  then have e: "move_document_forward a b i d s = Inr s'" using run by (simp add: map_sum_InrD)
  have "t_document (foldl (archive_moved now) s xs) = t_document s" for now xs
    by (induction xs arbitrary: s) (simp_all add: archive_moved_def)
  then have "t_document s' = t_document s" using e
    by (auto simp: move_document_forward_def audit_link_def attach_version_def evidence_for_def add_document_evidence_def Let_def
        split: sum.splits option.splits if_splits)
  then show ?thesis using ok by simp
next
  case (UnlinkDocument a b i d who)
  then have e: "unlink_document a b i d who s = Inr s'" using run by (simp add: map_sum_InrD)
  have "t_document (foldl (unlink_one o' cs dd ct k w now) s xs) = t_document s" for o' cs dd ct k w now xs
    by (induction xs arbitrary: s) (simp_all add: unlink_one_def audit_link_def)
  then have "t_document s' = t_document s" using e
    by (auto simp: unlink_document_def Let_def split: sum.splits option.splits if_splits)
  then show ?thesis using ok by simp
next
  case (AddTags a b c d)
  then have e: "add_objective_tag a b c d s = Inr s'" using run by (simp add: map_sum_InrD)
  have "t_document (foldl (add_tag a b d) s ts) = t_document s" for ts
    by (induction ts arbitrary: s) (simp_all add: add_tag_frame)
  then show ?thesis using add_objective_tag_InrD[OF e] ok by metis
next
  case (Publish a b c)
  then have e: "publish_document a b c s = Inr s'" using run by (simp add: map_sum_InrD)
  then show ?thesis by (rule publish_InrD) (use ok in \<open>auto simp: published_def\<close>)
next
  case (Reaffirm a b c d)
  then have e: "reaffirm_document a b c d s = Inr s'" using run by (simp add: map_sum_InrD)
  then show ?thesis using ok
    by (auto elim!: reaffirm_InrD2 reaffirm_InrD dest!: record_approval_frame(1))
next
  case (PatchVersion a b c d)
  then have e: "patch_document_version_status a b c d s = Inr s'" using run by (simp add: map_sum_InrD)
  then show ?thesis by (rule patch_version_InrD) (use ok in simp)
next
  case (RemoveTag a b c)
  then have e: "remove_objective_tag a b c s = Inr s'" using run by (simp add: map_sum_InrD)
  then show ?thesis by (rule remove_tag_InrD) (use ok in simp)
next
  case (AssessmentRequest q)
  then show ?thesis using run ok by (cases "serve_api q (dd_api s)") auto
next
  case (AtTime t)
  then show ?thesis using run ok by auto
qed

text \<open>C30. Over any sequence of requests every stored document has the fields the checks of its
  requests promise: an identifier of 2 to 60 characters, a title, a cadence of at least one month, and
  a type other than the one that only lists have.\<close>

theorem document_fields_valid:
  assumes "all_fields_ok s"
  shows "all_fields_ok (run_doc rs s)"
  unfolding run_doc_def
proof (rule foldl_inv[where P = all_fields_ok])
  show "all_fields_ok s" by (rule assms)
  show "all_fields_ok (case serve_doc r u of Inl e \<Rightarrow> u | Inr s' \<Rightarrow> s')" if "all_fields_ok u" for r u
    using that serve_doc_fields[OF that] by (cases "serve_doc r u") simp_all
qed

theorem document_fields_valid_witness:
  "all_fields_ok (run_doc [PatchDocument 1 100 (Some (Some '' '')) None None, SaveVersion 1 100 None (Some 105)] policy_tenant)"
proof (rule document_fields_valid)
  show "all_fields_ok policy_tenant" by code_simp
qed

end
