(* ===== verification/Svg_Sanitize.thy ===== *)
theory Svg_Sanitize
  imports Prelude
begin

section \<open>Sanitizing uploaded SVG\<close>

text \<open>
  \<open>backend/app/svg_sanitize.py\<close>: an upload is parsed, a new tree is built of the elements and
  attributes that are allowed, and only that tree is serialized. An element is its tag, its
  attributes in their order, its text, its children and the text after it (\<open>tail\<close>). The parser
  (\<open>defusedxml\<close>) and the serializer are parameters.
\<close>

datatype xml = Element (tag: string) (attrib: "(string \<times> string) list") (text_of: "string option")
  (children: "xml list") (tail_of: "string option")

datatype xml_error = DefusedXml string | XmlParseError string

definition SVG_NS :: string where "SVG_NS = ''http://www.w3.org/2000/svg''"

definition ALLOWED_ELEMENTS :: "string list" where
  "ALLOWED_ELEMENTS = [''svg'', ''path'', ''g'', ''rect'', ''circle'', ''ellipse'', ''line'', ''polyline'',
     ''polygon'', ''text'', ''tspan'', ''defs'', ''title'', ''desc'']"

definition ALLOWED_ATTRS :: "string list" where
  "ALLOWED_ATTRS = [''id'', ''class'',
     ''width'', ''height'', ''viewBox'', ''preserveAspectRatio'', ''version'',
     ''x'', ''y'', ''x1'', ''y1'', ''x2'', ''y2'', ''cx'', ''cy'', ''r'', ''rx'', ''ry'',
     ''points'', ''d'', ''transform'',
     ''fill'', ''stroke'', ''stroke-width'', ''stroke-dasharray'',
     ''stroke-linecap'', ''stroke-linejoin'', ''stroke-opacity'',
     ''opacity'', ''fill-opacity'',
     ''font-size'', ''font-family'', ''font-weight'', ''font-style'',
     ''text-anchor'', ''dominant-baseline'']"

definition MAX_INPUT_BYTES :: nat where "MAX_INPUT_BYTES = 5 * 1024 * 1024"

text \<open>\<open>tag.rsplit("}", 1)[-1] if "}" in tag else tag\<close>: what follows the last brace, if any.\<close>

definition local_name :: "string \<Rightarrow> string" where
  "local_name t = rev (takeWhile (\<lambda>c. c \<noteq> CHR ''}'') (rev t))"

text \<open>The attributes that pass, set one after the other under their local names.\<close>

definition clean_attrs :: "(string \<times> string) list \<Rightarrow> (string \<times> string) list" where
  "clean_attrs kvs = foldl (\<lambda>new (key, value).
     if local_name key \<in> set ALLOWED_ATTRS then dput (local_name key) value new else new) [] kvs"

definition clean_text :: "string option \<Rightarrow> string option" where
  "clean_text t = (case t of None \<Rightarrow> None | Some s \<Rightarrow> if s = '''' then None else Some s)"

definition svg_tag :: "string \<Rightarrow> string" where
  "svg_tag name = ''{'' @ SVG_NS @ ''}'' @ name"

fun clean :: "xml \<Rightarrow> xml option" and clean_all :: "xml list \<Rightarrow> xml list" where
  "clean (Element t kvs body kids rest) =
     (if local_name t \<notin> set ALLOWED_ELEMENTS then None
      else Some (Element (svg_tag (local_name t)) (clean_attrs kvs) (clean_text body) (clean_all kids) None))"
| "clean_all [] = []"
| "clean_all (k # ks) = (case clean k of None \<Rightarrow> clean_all ks | Some c \<Rightarrow> c # clean_all ks)"

definition sanitize_svg ::
  "(string \<Rightarrow> xml_error + xml) \<Rightarrow> (xml \<Rightarrow> string) \<Rightarrow> string \<Rightarrow> string + string" where
  "sanitize_svg fromstring tostring data =
     (if MAX_INPUT_BYTES < length data
      then Inl (''SVG exceeds '' @ str_nat (MAX_INPUT_BYTES div (1024 * 1024)) @ '' MB limit'')
      else case fromstring data of
        Inl (DefusedXml exc) \<Rightarrow> Inl (''SVG rejected: '' @ exc)
      | Inl (XmlParseError exc) \<Rightarrow> Inl (''SVG is not well-formed XML: '' @ exc)
      | Inr root \<Rightarrow>
          if local_name (tag root) \<noteq> ''svg'' then Inl ''Root element is not <svg>''
          else (case clean root of
                  None \<Rightarrow> Inl ''Root <svg> element was rejected during sanitization''
                | Some sanitized_root \<Rightarrow> Inr (tostring sanitized_root)))"

subsection \<open>What is left\<close>

text \<open>A tree of allowed elements of the SVG namespace with allowed attributes, each once, and
  nothing after an element. Nothing in it names a resource by an attribute of its own, holds a
  style sheet or handles an event.\<close>

fun svg_clean :: "xml \<Rightarrow> bool" where
  "svg_clean (Element t kvs body kids rest) \<longleftrightarrow>
     t \<in> set (map svg_tag ALLOWED_ELEMENTS) \<and> set (map fst kvs) \<subseteq> set ALLOWED_ATTRS \<and> distinct (map fst kvs) \<and>
     body \<noteq> Some '''' \<and> rest = None \<and> list_all svg_clean kids"

text \<open>Every element of the tree, itself included.\<close>

fun elements :: "xml \<Rightarrow> xml list" where
  "elements (Element t kvs body kids rest) = Element t kvs body kids rest # concat (map elements kids)"

lemma local_name_plain: "CHR ''}'' \<notin> set n \<Longrightarrow> local_name n = n"
  unfolding local_name_def by (subst takeWhile_eq_all_conv[THEN iffD2]) auto

lemma local_name_svg_tag: "CHR ''}'' \<notin> set n \<Longrightarrow> local_name (svg_tag n) = n"
proof -
  assume n: "CHR ''}'' \<notin> set n"
  have "takeWhile (\<lambda>c. c \<noteq> CHR ''}'') (rev n @ CHR ''}'' # ys) = rev n" for ys
    using n by (subst takeWhile_append2) auto
  then show ?thesis by (simp add: local_name_def svg_tag_def)
qed

lemma allowed_plain:
  "n \<in> set ALLOWED_ELEMENTS \<Longrightarrow> CHR ''}'' \<notin> set n"
  "n \<in> set ALLOWED_ATTRS \<Longrightarrow> CHR ''}'' \<notin> set n"
  by (auto simp: ALLOWED_ELEMENTS_def ALLOWED_ATTRS_def)

lemma clean_attrs_keys:
  "set (map fst (clean_attrs kvs)) \<subseteq> set ALLOWED_ATTRS \<and> distinct (map fst (clean_attrs kvs))"
proof -
  let ?ok = "\<lambda>new. set (map fst new) \<subseteq> set ALLOWED_ATTRS \<and> distinct (map fst new)"
  show ?thesis unfolding clean_attrs_def
  proof (rule foldl_inv[where P = ?ok])
    show "?ok (case kv of (key, value) \<Rightarrow>
        if local_name key \<in> set ALLOWED_ATTRS then dput (local_name key) value new else new)"
      if "?ok new" for new kv
      using that keys_dput[of "local_name (fst kv)" "snd kv" new] distinct_dput[of new "local_name (fst kv)" "snd kv"]
      by (cases kv) (simp del: keys_dput set_map add: image_set[symmetric])
  qed simp_all
qed

lemma clean_is_clean:
  "clean t = Some u \<Longrightarrow> svg_clean u"
  "list_all svg_clean (clean_all ts)"
proof (induction t and ts arbitrary: u and rule: clean_clean_all.induct)
  case (1 t kvs body kids rest)
  then have u: "u = Element (svg_tag (local_name t)) (clean_attrs kvs) (clean_text body) (clean_all kids) None"
    and t: "local_name t \<in> set ALLOWED_ELEMENTS" by (auto split: if_splits)
  have "clean_text body \<noteq> Some ''''" by (simp add: clean_text_def split: option.split)
  then show ?case using t clean_attrs_keys[of kvs] 1(1)[OF _] unfolding u by simp
qed (auto split: option.split)

lemma clean_attrs_allowed:
  assumes "set (map fst kvs) \<subseteq> set ALLOWED_ATTRS" "distinct (map fst kvs)"
  shows "clean_attrs kvs = kvs"
  using assms
proof (induction kvs rule: rev_induct)
  case (snoc kv kvs)
  have new: "dput k v d = d @ [(k, v)]" if "k \<notin> fst ` set d" for k and v :: string and d
    using that by (induction d) auto
  have "local_name (fst kv) = fst kv" "fst kv \<in> set ALLOWED_ATTRS"
    using snoc.prems(1) allowed_plain(2) local_name_plain by auto
  then show ?case using snoc new[of "fst kv" kvs] by (cases kv) (simp add: clean_attrs_def)
qed (simp add: clean_attrs_def)

lemma clean_of_clean:
  "svg_clean t \<Longrightarrow> clean t = Some t"
  "list_all svg_clean ts \<Longrightarrow> clean_all ts = ts"
proof (induction t and ts rule: clean_clean_all.induct)
  case (1 t kvs body kids rest)
  then obtain n where n: "n \<in> set ALLOWED_ELEMENTS" "t = svg_tag n" by auto
  then have "local_name t = n" using allowed_plain(1) local_name_svg_tag by simp
  moreover have "clean_text body = body" using 1(2) by (auto simp: clean_text_def split: option.split)
  moreover have "clean_all kids = kids" using 1(1)[OF _] 1(2) n \<open>local_name t = n\<close> by simp
  ultimately show ?case using 1(2) n clean_attrs_allowed by simp
qed auto

lemma svg_clean_elements:
  "svg_clean t \<Longrightarrow> e \<in> set (elements t) \<Longrightarrow> svg_clean e"
  by (induction t) (auto simp: list_all_iff)

lemma sanitize_svg_InrD:
  assumes "sanitize_svg fromstring tostring data = Inr out"
  obtains root u where "fromstring data = Inr root" "clean root = Some u" "out = tostring u"
    "local_name (tag root) = ''svg''" "length data \<le> MAX_INPUT_BYTES"
  using assms by (auto simp: sanitize_svg_def split: if_splits sum.splits xml_error.splits option.splits)

lemma not_allowed:
  "set ALLOWED_ELEMENTS \<inter> {''script'', ''style'', ''image'', ''foreignObject'', ''a'', ''use''} = {}"
  "set ALLOWED_ATTRS \<inter> {''href'', ''style'', ''onload'', ''onclick''} = {}"
  by (simp_all add: ALLOWED_ATTRS_def ALLOWED_ELEMENTS_def)

text \<open>The values of the attributes are not looked at: a fill that names a resource passes.\<close>

lemma fill_url_passes:
  "clean (Element ''{http://www.w3.org/2000/svg}rect'' [(''fill'', ''url(https://example.org/x.svg#p)'')] None [] None) =
     Some (Element ''{http://www.w3.org/2000/svg}rect'' [(''fill'', ''url(https://example.org/x.svg#p)'')] None [] None)"
  by code_simp

end
