(* ===== verification/Upload_Properties.thy ===== *)
theory Upload_Properties
  imports Svg_Sanitize Storage
begin

section \<open>Properties of files given by people\<close>

text \<open>
  What is left of an uploaded SVG, and what a title can do to the header of a download.
\<close>

text \<open>C31. Whatever is uploaded as SVG, what is accepted is the serialization of a tree with an svg
  element at its root that holds allowed elements of the SVG namespace only, each with allowed
  attributes only, every one once; in particular no script, style, image or foreignObject element,
  no href, no style and no event attribute anywhere in it. Exactly such trees pass the sanitizer
  unchanged, so nothing allowed is lost and sanitizing again changes nothing.\<close>

theorem sanitized_svg_is_clean:
  assumes "sanitize_svg fromstring tostring data = Inr out"
  shows "\<exists>u. out = tostring u \<and> tag u = svg_tag ''svg'' \<and> svg_clean u \<and> (\<forall>t. clean t = Some t \<longleftrightarrow> svg_clean t) \<and>
    (\<forall>e \<in> set (elements u).
       local_name (tag e) \<notin> {''script'', ''style'', ''image'', ''foreignObject'', ''a'', ''use''} \<and>
       (\<forall>k \<in> set (map fst (attrib e)). k \<in> set ALLOWED_ATTRS \<and> k \<notin> {''href'', ''style'', ''onload'', ''onclick''}))"
proof -
  obtain root u where r: "clean root = Some u" "out = tostring u" "local_name (tag root) = ''svg''"
    using assms by (rule sanitize_svg_InrD)
  have u: "svg_clean u" by (rule clean_is_clean(1)[OF r(1)])
  have t: "tag u = svg_tag ''svg''" using r(1,3) by (cases root) (auto split: if_splits)
  have e: "local_name (tag e) \<notin> {''script'', ''style'', ''image'', ''foreignObject'', ''a'', ''use''} \<and>
       (\<forall>k \<in> set (map fst (attrib e)). k \<in> set ALLOWED_ATTRS \<and> k \<notin> {''href'', ''style'', ''onload'', ''onclick''})"
    if "e \<in> set (elements u)" for e
  proof -
    have "svg_clean e" by (rule svg_clean_elements[OF u that])
    then obtain n where "n \<in> set ALLOWED_ELEMENTS" "tag e = svg_tag n" "set (map fst (attrib e)) \<subseteq> set ALLOWED_ATTRS"
      by (cases e) auto
    moreover from this have "local_name (tag e) = n" using allowed_plain(1) local_name_svg_tag by simp
    ultimately show ?thesis using not_allowed by blast
  qed
  have "clean v = Some v \<longleftrightarrow> svg_clean v" for v using clean_is_clean(1) clean_of_clean(1) by blast
  then show ?thesis using r(2) t u e by blast
qed

text \<open>An upload with a script, an event handler and a link in it; the parser knows this one text.\<close>

definition hostile_tree :: xml where
  "hostile_tree = Element ''{http://www.w3.org/2000/svg}svg'' [(''onload'', ''x()''), (''width'', ''9'')] None
     [Element ''{http://www.w3.org/2000/svg}script'' [] (Some ''x()'') [] None,
      Element ''{http://www.w3.org/2000/svg}g'' [(''{http://www.w3.org/1999/xlink}href'', ''#'')] (Some ''t'') [] (Some ''u'')] None"

definition tame_tree :: xml where
  "tame_tree = Element ''{http://www.w3.org/2000/svg}svg'' [(''width'', ''9'')] None
     [Element ''{http://www.w3.org/2000/svg}g'' [] (Some ''t'') [] None] None"

lemma hostile_tree_clean: "clean hostile_tree = Some tame_tree" "local_name (tag hostile_tree) = ''svg''"
  by code_simp+

theorem sanitized_svg_is_clean_witness:
  "sanitize_svg (\<lambda>_. Inr hostile_tree) (\<lambda>u. if svg_clean u then ''clean'' else ''hostile'') ''<svg/>'' = Inr ''clean'' \<and>
   (\<exists>u. ''clean'' = (if svg_clean u then ''clean'' else ''hostile'') \<and> svg_clean u)"
proof -
  have tame: "svg_clean tame_tree" by code_simp
  have run: "sanitize_svg (\<lambda>_. Inr hostile_tree) (\<lambda>u. if svg_clean u then ''clean'' else ''hostile'') ''<svg/>'' = Inr ''clean''"
    by (simp add: sanitize_svg_def MAX_INPUT_BYTES_def hostile_tree_clean tame)
  show ?thesis using run sanitized_svg_is_clean[OF run] by blast
qed



end
