(* ===== verification/Evidence_Artifacts.thy ===== *)
theory Evidence_Artifacts
  imports Document_Evidence Svg_Sanitize Storage
begin

section \<open>Collecting evidence\<close>

text \<open>
  The handlers of \<open>backend/app/routers/evidence.py\<close> that write: a person uploads a file, names
  a location, takes an artifact off an objective, or collects an artifact for an evidence task,
  which attaches it to every objective the task covers. \<open>evidence_db\<close> is the assessments'
  database with the object store and the two columns of an artifact only this component writes.
  Bytes are a string of characters below 256. Parameters are the type a host guesses from a name,
  the XML parser and serializer, SHA-256 and the configured store.
\<close>

record upload =
  up_filename :: "string option"
  up_content_type :: "string option"
  up_data :: string
  up_artifact_type :: string
  up_title :: "string option"

record reference_in =
  rf_title :: string
  rf_location :: string
  rf_artifact_type :: string

record file_tools =
  ft_guess_type :: "string \<Rightarrow> string option"
  ft_fromstring :: "string \<Rightarrow> xml_error + xml"
  ft_tostring :: "xml \<Rightarrow> string"
  ft_sha256 :: "string \<Rightarrow> string"
  ft_storage :: storage_client

record artifact_columns =
  ac_evidence_id :: uuid
  ac_reference_location :: "string option"
  ac_sha256 :: "string option"

record evidence_db =
  ed_api :: assessment_db
  ed_objects :: "stored_object list"
  t_artifact :: "artifact_columns list"

abbreviation ed_db :: "evidence_db \<Rightarrow> db" where "ed_db s \<equiv> ad_db (ed_api s)"

definition in_ed :: "(db \<Rightarrow> db) \<Rightarrow> evidence_db \<Rightarrow> evidence_db" where
  "in_ed f s = s\<lparr>ed_api := (ed_api s)\<lparr>ad_db := f (ed_db s)\<rparr>\<rparr>"

subsection \<open>What may be uploaded\<close>

definition ALLOWED_MIME_TYPES :: "string list" where
  "ALLOWED_MIME_TYPES = [''image/png'', ''image/jpeg'', ''image/gif'', ''image/webp'', ''image/svg+xml'',
     ''application/pdf'', ''application/msword'', ''application/vnd.ms-excel'',
     ''application/vnd.openxmlformats-officedocument.wordprocessingml.document'',
     ''application/vnd.openxmlformats-officedocument.spreadsheetml.sheet'',
     ''text/plain'', ''text/csv'', ''application/zip'']"

definition ALLOWED_EXTENSIONS :: "string list" where
  "ALLOWED_EXTENSIONS = [''.png'', ''.jpg'', ''.jpeg'', ''.gif'', ''.webp'', ''.svg'', ''.pdf'',
     ''.doc'', ''.docx'', ''.xls'', ''.xlsx'', ''.txt'', ''.csv'', ''.zip'']"

definition ARTIFACT_TYPES :: "string list" where
  "ARTIFACT_TYPES = [''screenshot'', ''export'', ''document'', ''link'', ''policy'']"

definition MAX_FILE_BYTES :: int where "MAX_FILE_BYTES = 50 * 1024 * 1024"

definition SVG_MIME :: string where "SVG_MIME = ''image/svg+xml''"

definition or_text :: "string option \<Rightarrow> string \<Rightarrow> string" where
  "or_text v d = (case v of None \<Rightarrow> d | Some s \<Rightarrow> if s = '''' then d else s)"

definition safe_filename :: "string \<Rightarrow> string" where
  "safe_filename raw =
     or_text (Some (rev (takeWhile (\<lambda>c. c \<noteq> CHR ''/'') (rev (replace_char (CHR 0x5C) ''/'' raw))))) ''upload''"

text \<open>\<open>os.path.splitext(path)[1]\<close>: dots at the start of the last component are no extension.\<close>

definition splitext :: "string \<Rightarrow> string" where
  "splitext p =
     (let base = rev (takeWhile (\<lambda>c. c \<noteq> CHR ''/'') (rev p));
          ext = rev (takeWhile (\<lambda>c. c \<noteq> CHR ''.'') (rev base));
          stem = take (length base - length ext - 1) base
      in if CHR ''.'' \<notin> set base \<or> list_all (\<lambda>c. c = CHR ''.'') stem then '''' else CHR ''.'' # ext)"

definition verify_magic_bytes :: "string \<Rightarrow> string \<Rightarrow> bool" where
  "verify_magic_bytes data mime =
     (if mime = ''image/png'' then take 4 data = CHR 0x89 # ''PNG''
      else if mime = ''image/jpeg'' then take 3 data = [CHR 0xFF, CHR 0xD8, CHR 0xFF]
      else if mime = ''image/gif'' then take 6 data \<in> {''GIF87a'', ''GIF89a''}
      else if mime = ''image/webp'' then take 4 data = ''RIFF'' \<and> take 4 (drop 8 data) = ''WEBP''
      else if mime = ''application/pdf'' then take 4 data = ''%PDF''
      else True)"

definition sanitize_if_svg :: "file_tools \<Rightarrow> string \<Rightarrow> string \<Rightarrow> api_error + string" where
  "sanitize_if_svg ft data mime =
     (if mime \<noteq> SVG_MIME then Inr data
      else map_sum (\<lambda>exc. HTTPException 422 (Text (''SVG rejected: '' @ exc))) id
        (sanitize_svg (ft_fromstring ft) (ft_tostring ft) data))"

definition sorted_repr :: "string list \<Rightarrow> string" where
  "sorted_repr names = py_repr (JList (map JStr (sort names)))"

text \<open>An accepted file: its name, extension, type and the bytes to store.\<close>

type_synonym accepted = "string \<times> string \<times> string \<times> string"

definition accept_upload :: "file_tools \<Rightarrow> upload \<Rightarrow> api_error + accepted" where
  "accept_upload ft up =
     (if up_artifact_type up \<notin> set ARTIFACT_TYPES
      then Inl (HTTPException 422 (Text ''artifact_type must be one of: document, export, link, policy, screenshot''))
      else if MAX_FILE_BYTES < int (length (up_data up))
      then Inl (HTTPException 413 (Text ''File exceeds 50 MB limit''))
      else
        let raw_name = safe_filename (or_text (up_filename up) ''upload'');
            ext = py_lower (splitext raw_name);
            mime = or_text (up_content_type up) (or_text (ft_guess_type ft raw_name) ''application/octet-stream'')
        in if ext \<notin> set ALLOWED_EXTENSIONS
           then Inl (HTTPException 415 (Text (''File extension '' @ py_repr_str ext @ '' not permitted. Allowed: '' @
             sorted_repr ALLOWED_EXTENSIONS)))
           else if mime \<notin> set ALLOWED_MIME_TYPES
           then Inl (HTTPException 415 (Text (''Content-Type '' @ py_repr_str mime @ '' not permitted. Allowed: '' @
             sorted_repr ALLOWED_MIME_TYPES)))
           else if \<not> verify_magic_bytes (up_data up) mime
           then Inl (HTTPException 415 (Text (''File bytes do not match declared Content-Type '' @ py_repr_str mime)))
           else map_sum id (\<lambda>data. (raw_name, ext, mime, data)) (sanitize_if_svg ft (up_data up) mime))"

subsection \<open>References\<close>

definition letter :: "char \<Rightarrow> bool" where
  "letter c = (let n = (of_char c :: nat) in 65 \<le> n \<and> n \<le> 90 \<or> 97 \<le> n \<and> n \<le> 122)"

definition location_ok :: "string \<Rightarrow> bool" where
  "location_ok v \<longleftrightarrow>
     list_ex (\<lambda>p. prefix p v) [''http://'', ''https://'', ''ftp://'', ''sftp://'', ''smb://'', [CHR 0x5C, CHR 0x5C], ''/''] \<or>
     (case v of a # b # c # _ \<Rightarrow> letter a \<and> b = CHR '':'' \<and> c \<in> {CHR ''/'', CHR 0x5C} | _ \<Rightarrow> False)"

definition check_location :: "string \<Rightarrow> string option" where
  "check_location v =
     (let v = py_strip v in if v = '''' \<or> 2000 < length v \<or> \<not> location_ok v then None else Some v)"

definition check_reference :: "reference_in \<Rightarrow> reference_in option" where
  "check_reference r =
     (case (check_title (rf_title r), check_location (rf_location r)) of
        (Some t, Some l) \<Rightarrow>
          if rf_artifact_type r \<in> set ARTIFACT_TYPES
          then Some \<lparr>rf_title = t, rf_location = l, rf_artifact_type = rf_artifact_type r\<rparr> else None
      | _ \<Rightarrow> None)"

definition invalid_reference :: api_error where
  "invalid_reference = HTTPException 422 (Text ''invalid reference'')"

subsection \<open>New artifacts\<close>

definition storage_key_for :: "uuid \<Rightarrow> uuid \<Rightarrow> string \<Rightarrow> string" where
  "storage_key_for org_id evidence_id ext =
     uuid_text org_id @ ''/evidence/'' @ uuid_text evidence_id @ ''/'' @ uuid_text evidence_id @ ext"

definition insert_evidence :: "evidence \<Rightarrow> string option \<Rightarrow> string option \<Rightarrow> evidence_db \<Rightarrow> evidence_db" where
  "insert_evidence ev location sha s =
     (in_ed (\<lambda>u. u\<lparr>next_id := Suc (next_id u), t_evidence := t_evidence u @ [ev]\<rparr>) s)
       \<lparr>t_artifact := t_artifact s @
          [\<lparr>ac_evidence_id = ev_id ev, ac_reference_location = location, ac_sha256 = sha\<rparr>]\<rparr>"

definition store_file :: "file_tools \<Rightarrow> uuid \<Rightarrow> upload \<Rightarrow> accepted \<Rightarrow> evidence_db \<Rightarrow> evidence \<times> string \<times> evidence_db" where
  "store_file ft org_id up acc s =
     (case acc of (raw_name, ext, mime, data) \<Rightarrow>
      let i = next_id (ed_db s); key = storage_key_for org_id i ext; sha = ft_sha256 ft data;
          ev = \<lparr>ev_id = i, ev_org_id = org_id, ev_title = or_text (up_title up) raw_name,
                ev_description = None, ev_kind = ''file'', ev_artifact_type = up_artifact_type up,
                ev_storage_key = Some key, ev_mime_type = Some mime, ev_file_size = Some (int (length data)),
                ev_collected_at = clock (ed_db s), ev_source_document_version = None,
                ev_source_list_version = None, ev_source_review_cycle = None\<rparr>
      in (ev, sha, insert_evidence ev None (Some sha)
            (s\<lparr>ed_objects := upload_file (ft_storage ft) key data mime (ed_objects s)\<rparr>)))"

definition store_reference :: "uuid \<Rightarrow> reference_in \<Rightarrow> evidence_db \<Rightarrow> evidence \<times> evidence_db" where
  "store_reference org_id r s =
     (let ev = \<lparr>ev_id = next_id (ed_db s), ev_org_id = org_id, ev_title = rf_title r,
                ev_description = None, ev_kind = ''reference'', ev_artifact_type = rf_artifact_type r,
                ev_storage_key = None, ev_mime_type = None, ev_file_size = None,
                ev_collected_at = clock (ed_db s), ev_source_document_version = None,
                ev_source_list_version = None, ev_source_review_cycle = None\<rparr>
      in (ev, insert_evidence ev (Some (rf_location r)) None s))"

definition attach_new :: "uuid \<Rightarrow> uuid \<Rightarrow> db \<Rightarrow> db" where
  "attach_new evidence_id state_id u =
     u\<lparr>next_id := Suc (next_id u), t_link := t_link u @ [new_link (next_id u) evidence_id state_id]\<rparr>"

definition audit_attached :: "uuid \<Rightarrow> uuid \<Rightarrow> control_state \<Rightarrow> evidence \<Rightarrow> string option \<Rightarrow> db \<Rightarrow> db" where
  "audit_attached org_id assessment_id cs ev sha u =
     log_event_as None None (Some org_id)
       (if ev_kind ev = ''file'' then ''evidence.upload'' else ''evidence.add_reference'') ''evidence'' (ev_id ev) None
       (Some [(''kind'', JStr (ev_kind ev)), (''title'', JStr (ev_title ev)),
          (''artifact_type'', JStr (ev_artifact_type ev)), (''sha256_hash'', jopt_str sha)])
       (Some [(''via'', JStr ''api''), (''assessment_id'', JUuid assessment_id),
          (''control_state_id'', JUuid (cs_id cs)),
          (''objective_key'', case get_objective (cs_objective_id cs) u of
             None \<Rightarrow> JNull | Some ob \<Rightarrow> JStr (ob_key ob))]) u"

definition check_cs :: "uuid \<Rightarrow> uuid \<Rightarrow> db \<Rightarrow> api_error + control_state" where
  "check_cs assessment_id cs_i u =
     (case get_state cs_i u of None \<Rightarrow> Inl (not_found ''Control state'') | Some cs \<Rightarrow>
      if cs_assessment_id cs \<noteq> assessment_id then Inl (not_found ''Control state'') else Inr cs)"

definition own_state :: "uuid \<Rightarrow> uuid \<Rightarrow> uuid \<Rightarrow> db \<Rightarrow> api_error + control_state" where
  "own_state org_id assessment_id cs_i u =
     (case own_assessment org_id assessment_id u of Inl e \<Rightarrow> Inl e | Inr _ \<Rightarrow> check_cs assessment_id cs_i u)"

definition upload_evidence ::
  "file_tools \<Rightarrow> uuid \<Rightarrow> uuid \<Rightarrow> uuid \<Rightarrow> upload \<Rightarrow> evidence_db \<Rightarrow> api_error + evidence_db" where
  "upload_evidence ft org_id assessment_id cs_i up s =
     (case own_state org_id assessment_id cs_i (ed_db s) of Inl e \<Rightarrow> Inl e | Inr cs \<Rightarrow>
      case accept_upload ft up of Inl e \<Rightarrow> Inl e | Inr acc \<Rightarrow>
      let (ev, sha, s1) = store_file ft org_id up acc s
      in Inr (in_ed (audit_attached org_id assessment_id cs ev (Some sha))
           (in_ed (attach_new (ev_id ev) cs_i) s1)))"

definition add_one_reference ::
  "uuid \<Rightarrow> uuid \<Rightarrow> control_state \<Rightarrow> evidence_db \<Rightarrow> reference_in \<Rightarrow> evidence_db" where
  "add_one_reference org_id assessment_id cs s r =
     (let (ev, s1) = store_reference org_id r s
      in in_ed (audit_attached org_id assessment_id cs ev None) (in_ed (attach_new (ev_id ev) (cs_id cs)) s1))"

definition MAX_REFS_PER_CALL :: nat where "MAX_REFS_PER_CALL = 20"

definition add_references ::
  "uuid \<Rightarrow> uuid \<Rightarrow> uuid \<Rightarrow> reference_in list \<Rightarrow> evidence_db \<Rightarrow> api_error + evidence_db" where
  "add_references org_id assessment_id cs_i refs s =
     (if list_ex (\<lambda>r. check_reference r = None) refs then Inl invalid_reference
      else case own_state org_id assessment_id cs_i (ed_db s) of Inl e \<Rightarrow> Inl e | Inr cs \<Rightarrow>
      if refs = [] then Inl (HTTPException 422 (Text ''At least one reference required''))
      else if MAX_REFS_PER_CALL < length refs
      then Inl (HTTPException 422 (Text (''At most '' @ str_nat MAX_REFS_PER_CALL @ '' references per call'')))
      else Inr (foldl (add_one_reference org_id assessment_id cs) s (List.map_filter check_reference refs)))"

subsection \<open>Taking off\<close>

datatype artifact_error = ArtifactApi api_error | ArtifactLink link_error

definition detach_evidence ::
  "uuid \<Rightarrow> uuid \<Rightarrow> uuid \<Rightarrow> uuid \<Rightarrow> string option \<Rightarrow> string \<Rightarrow> evidence_db \<Rightarrow> artifact_error + evidence_db" where
  "detach_evidence org_id assessment_id cs_i evidence_id display_name email s =
     (case own_state org_id assessment_id cs_i (ed_db s) of Inl e \<Rightarrow> Inl (ArtifactApi e) | Inr cs \<Rightarrow>
      case get_evidence evidence_id (ed_db s) of
        None \<Rightarrow> Inl (ArtifactApi (not_found ''Evidence''))
      | Some ev \<Rightarrow>
        if ev_org_id ev \<noteq> org_id then Inl (ArtifactApi (not_found ''Evidence''))
        else case find (\<lambda>l. ln_evidence_id l = evidence_id \<and> ln_state_id l = cs_i) (t_link (ed_db s)) of
          None \<Rightarrow> Inl (ArtifactApi (HTTPException 404 (Text ''Evidence not linked to this control state'')))
        | Some l \<Rightarrow>
          case detach org_id l (Some (user_label display_name email)) DETACHED ''evidence.detach'' via_api None None
                 (ed_db s) of
            Inl AlreadyDetached \<Rightarrow>
              Inl (ArtifactApi (HTTPException 409 (Text ''this evidence is already detached from this objective'')))
          | Inl e \<Rightarrow> Inl (ArtifactLink e)
          | Inr u \<Rightarrow> Inr (in_ed (\<lambda>_. u) s))"

subsection \<open>Evidence for a task\<close>

definition get_task_for_collect :: "uuid \<Rightarrow> uuid \<Rightarrow> uuid \<Rightarrow> db \<Rightarrow> api_error + evidence_task" where
  "get_task_for_collect org_id assessment_id task_id u =
     (case own_assessment org_id assessment_id u of Inl e \<Rightarrow> Inl e | Inr _ \<Rightarrow>
      case tget tk_id task_id (t_task u) of
        None \<Rightarrow> Inl (not_found ''Evidence task'')
      | Some t \<Rightarrow>
          if tk_assessment_id t \<noteq> Some assessment_id \<or> tk_org_id t \<noteq> org_id then Inl (not_found ''Evidence task'')
          else if tk_is_archived t
          then Inl (HTTPException 422 (Text ''Cannot collect evidence for an archived task''))
          else Inr t)"

definition fan_one :: "uuid \<Rightarrow> nat \<times> db \<Rightarrow> task_link \<Rightarrow> nat \<times> db" where
  "fan_one evidence_id acc lnk =
     (case acc of (created, u) \<Rightarrow>
      if list_ex (\<lambda>l. ln_evidence_id l = evidence_id \<and> ln_state_id l = tl_state_id lnk) (t_link u) then (created, u)
      else (Suc created, attach_new evidence_id (tl_state_id lnk) u))"

definition fan_out_evidence :: "evidence_task \<Rightarrow> evidence \<Rightarrow> db \<Rightarrow> nat \<times> db" where
  "fan_out_evidence task ev u =
     (let (created, u1) = foldl (fan_one (ev_id ev)) (0, u) (filter (\<lambda>l. tl_task_id l = tk_id task) (t_tasklink u))
      in (created, update_task (tk_id task)
            (\<lambda>t. t\<lparr>tk_status := TaskCollected, tk_completed_evidence_id := Some (ev_id ev)\<rparr>) u1))"

definition finish_collect :: "uuid \<Rightarrow> evidence_task \<Rightarrow> evidence \<Rightarrow> db \<Rightarrow> db" where
  "finish_collect org_id task ev u =
     (let (created, u1) = fan_out_evidence task ev u
      in log_event_as None None (Some org_id) ''evidence_task.collect'' ''evidence_task'' (tk_id task) None
           (Some [(''evidence_id'', JUuid (ev_id ev)), (''kind'', JStr (ev_kind ev)),
              (''title'', JStr (ev_title ev)), (''links_created'', JInt (int created))])
           (Some via_api) u1)"

definition collect_task_evidence_file ::
  "file_tools \<Rightarrow> uuid \<Rightarrow> uuid \<Rightarrow> uuid \<Rightarrow> upload \<Rightarrow> evidence_db \<Rightarrow> api_error + evidence_db" where
  "collect_task_evidence_file ft org_id assessment_id task_id up s =
     (case get_task_for_collect org_id assessment_id task_id (ed_db s) of Inl e \<Rightarrow> Inl e | Inr task \<Rightarrow>
      case accept_upload ft up of Inl e \<Rightarrow> Inl e | Inr acc \<Rightarrow>
      let (ev, sha, s1) = store_file ft org_id up acc s in Inr (in_ed (finish_collect org_id task ev) s1))"

definition collect_task_evidence_reference ::
  "uuid \<Rightarrow> uuid \<Rightarrow> uuid \<Rightarrow> reference_in \<Rightarrow> evidence_db \<Rightarrow> api_error + evidence_db" where
  "collect_task_evidence_reference org_id assessment_id task_id r s =
     (case check_reference r of None \<Rightarrow> Inl invalid_reference | Some r \<Rightarrow>
      case get_task_for_collect org_id assessment_id task_id (ed_db s) of Inl e \<Rightarrow> Inl e | Inr task \<Rightarrow>
      let (ev, s1) = store_reference org_id r s in Inr (in_ed (finish_collect org_id task ev) s1))"

subsection \<open>Downloads\<close>

record download =
  dl_disposition :: string
  dl_length :: "string option"
  dl_media_type :: string
  dl_object :: "stored_object option"

definition download_evidence ::
  "file_tools \<Rightarrow> uuid \<Rightarrow> uuid \<Rightarrow> evidence_db \<Rightarrow> api_error + (download \<times> evidence_db)" where
  "download_evidence ft org_id evidence_id s =
     (case get_evidence evidence_id (ed_db s) of None \<Rightarrow> Inl (not_found ''Evidence'') | Some ev \<Rightarrow>
      if ev_org_id ev \<noteq> org_id then Inl (not_found ''Evidence'')
      else case (if ev_kind ev = ''reference'' \<or> ev_storage_key ev = Some '''' then None else ev_storage_key ev) of
        None \<Rightarrow> Inl (HTTPException 404
          (Text (''No stored file for this evidence item '' @ [CHR 0xE2, CHR 0x80, CHR 0x94] @ '' it is a location reference'')))
      | Some key \<Rightarrow>
        if \<not> is_configured (ft_storage ft) then Inl (HTTPException 404 (Text ''Storage not configured''))
        else Inr
          (\<lparr>dl_disposition = content_disposition (download_filename (ev_title ev) (splitext key)),
            dl_length = map_option str_int (ev_file_size ev),
            dl_media_type = or_text (ev_mime_type ev) ''application/octet-stream'',
            dl_object = get_object key (ed_objects s)\<rparr>,
           in_ed (log_event_as None None (Some org_id) ''evidence.download'' ''evidence'' (ev_id ev) None
             (Some [(''title'', JStr (ev_title ev)), (''artifact_type'', JStr (ev_artifact_type ev))])
             (Some via_api)) s))"

subsection \<open>The requests\<close>

text \<open>With the assessments' requests, as they share a database; \<open>AtTimeBy\<close> sets the instant
  and the person of the requests that follow.\<close>

datatype evidence_request =
    Judging api_request
  | UploadEvidence uuid uuid uuid upload
  | AddReferences uuid uuid uuid "reference_in list"
  | DetachEvidence uuid uuid uuid uuid "string option" string
  | CollectFile uuid uuid uuid upload
  | CollectReference uuid uuid uuid reference_in
  | DownloadEvidence uuid uuid
  | AtTimeBy datetime "string option" "string option" "string option"

fun serve_evidence :: "file_tools \<Rightarrow> evidence_request \<Rightarrow> evidence_db \<Rightarrow> artifact_error + evidence_db" where
  "serve_evidence ft (Judging r) s = map_sum ArtifactApi (\<lambda>u. s\<lparr>ed_api := u\<rparr>) (serve_api r (ed_api s))"
| "serve_evidence ft (UploadEvidence org_id aid i up) s = map_sum ArtifactApi id (upload_evidence ft org_id aid i up s)"
| "serve_evidence ft (AddReferences org_id aid i refs) s = map_sum ArtifactApi id (add_references org_id aid i refs s)"
| "serve_evidence ft (DetachEvidence org_id aid i e display_name email) s =
     detach_evidence org_id aid i e display_name email s"
| "serve_evidence ft (CollectFile org_id aid i up) s =
     map_sum ArtifactApi id (collect_task_evidence_file ft org_id aid i up s)"
| "serve_evidence ft (CollectReference org_id aid i r) s =
     map_sum ArtifactApi id (collect_task_evidence_reference org_id aid i r s)"
| "serve_evidence ft (DownloadEvidence org_id e) s = map_sum ArtifactApi snd (download_evidence ft org_id e s)"
| "serve_evidence ft (AtTimeBy t actor actor_type ip) s =
     Inr (in_ed (\<lambda>u. u\<lparr>clock := t, cur_actor := actor, cur_actor_type := actor_type, cur_ip := ip\<rparr>) s)"

definition run_evidence :: "file_tools \<Rightarrow> evidence_request list \<Rightarrow> evidence_db \<Rightarrow> evidence_db" where
  "run_evidence ft rs s = foldl (\<lambda>s r. case serve_evidence ft r s of Inl e \<Rightarrow> s | Inr s' \<Rightarrow> s') s rs"

end
