(* ===== verification/Artifact_Facts.thy ===== *)
theory Artifact_Facts
  imports Evidence_Artifacts Api_Links Document_Links
begin

section \<open>What collecting evidence does to the database\<close>

text \<open>
  A request about artifacts writes artifacts, links, tasks and the audit log, and nothing a verdict
  or a score is made of. A link that was there goes on with its life, a new one is born live.
\<close>

subsection \<open>Links\<close>

fun kept_event :: "datetime \<times> link_event \<Rightarrow> bool" where
  "kept_event (t, Deactivated p) = True"
| "kept_event (t, Reactivated p) = True"
| "kept_event (t, DetachedBy who) = True"
| "kept_event (t, _) = False"

definition passes :: "state_link \<Rightarrow> state_link \<Rightarrow> bool" where
  "passes l l' \<longleftrightarrow> (\<exists>es. link_run es l l' \<and> list_all kept_event es)"

definition born_live :: "state_link \<Rightarrow> bool" where
  "born_live l' \<longleftrightarrow> (\<exists>l. \<not> ln_is_archived l \<and> passes l l')"

definition links_grow :: "db \<Rightarrow> db \<Rightarrow> bool" where
  "links_grow u u' \<longleftrightarrow>
     (\<exists>old new. t_link u' = old @ new \<and> list_all2 passes (t_link u) old \<and> list_all born_live new)"

lemma passes_refl [simp]: "passes l l"
  unfolding passes_def by (rule exI[of _ "[]"]) (simp add: run_nil)

lemma passes_trans: "passes a b \<Longrightarrow> passes b c \<Longrightarrow> passes a c"
  unfolding passes_def using link_run_append by (metis list_all_append)

lemma lives_passes: "lives l l' \<Longrightarrow> passes l l'"
proof -
  assume "lives l l'"
  then obtain es where "link_run es l l'" "list_all engine_event es" unfolding lives_def by blast
  moreover have "kept_event e" if "engine_event e" for e using that by (cases e) (auto simp: engine_event_def)
  ultimately show ?thesis unfolding passes_def by (metis list.pred_mono_strong)
qed

lemma born_live_new: "\<not> ln_is_archived l \<Longrightarrow> born_live l"
  unfolding born_live_def using passes_refl by blast

lemma list_all2_passes_refl [simp]: "list_all2 passes xs xs"
  by (simp add: list_all2_same)

lemma links_grow_same: "t_link u' = t_link u \<Longrightarrow> links_grow u u'"
  unfolding links_grow_def by (intro exI[of _ "t_link u"] exI[of _ "[]"]) simp

lemma links_grow_pass: "list_all2 passes (t_link u) (t_link u') \<Longrightarrow> links_grow u u'"
  unfolding links_grow_def by (intro exI[of _ "t_link u'"] exI[of _ "[]"]) simp

lemma links_grow_trans:
  assumes "links_grow s t" "links_grow t u"
  shows "links_grow s u"
proof -
  obtain old new where 1: "t_link t = old @ new" "list_all2 passes (t_link s) old" "list_all born_live new"
    using assms(1) unfolding links_grow_def by blast
  obtain old2 new2 where 2: "t_link u = old2 @ new2" "list_all2 passes (old @ new) old2" "list_all born_live new2"
    using assms(2) unfolding links_grow_def 1(1) by blast
  obtain a b where ab: "old2 = a @ b" "list_all2 passes old a" "list_all2 passes new b"
    using 2(2) by (auto simp: list_all2_append1)
  have "list_all2 passes (t_link s) a" by (rule list_all2_trans[OF passes_trans 1(2) ab(2)])
  moreover have "list_all born_live b"
    unfolding list_all_length
  proof (intro allI impI)
    fix n assume n: "n < length b"
    then have "passes (new ! n) (b ! n)" "born_live (new ! n)"
      using ab(3) 1(3) by (auto simp: list_all2_conv_all_nth list_all_length)
    then show "born_live (b ! n)" unfolding born_live_def using passes_trans by blast
  qed
  ultimately show ?thesis unfolding links_grow_def 2(1) ab(1) using 2(3) by (intro exI[of _ a] exI[of _ "b @ new2"]) simp
qed

text \<open>A link a person took off has no next event in such a run.\<close>

lemma passes_detached:
  assumes "passes l l'" "ln_is_archived l" "ln_archived_by_product l = None"
  shows "l' = l"
proof -
  obtain es where es: "link_run es l l'" "list_all kept_event es" using assms(1) unfolding passes_def by blast
  show ?thesis
  proof (cases es)
    case Nil
    then show ?thesis using es(1) by (simp add: link_run_Nil)
  next
    case (Cons x xs)
    then obtain t e k where e: "x = (t, e)" "link_step t e l k" "kept_event (t, e)"
      using es by (cases x) (auto simp: link_run_Cons)
    have "e = Reattached" using stays_detached_step[OF e(2) assms(2,3)] by blast
    then show ?thesis using e(3) by simp
  qed
qed

subsection \<open>The frame\<close>

definition collects :: "db \<Rightarrow> db \<Rightarrow> bool" where
  "collects u u' \<longleftrightarrow>
     engine_ok u' \<and> evidence_ok u' \<and> next_id u \<le> next_id u' \<and> append_only u u' \<and>
     prefix (t_evidence u) (t_evidence u') \<and> links_grow u u' \<and>
     t_cstate u' = t_cstate u \<and> t_assessment u' = t_assessment u \<and> t_history u' = t_history u"

lemma collects_refl: "engine_ok u \<Longrightarrow> evidence_ok u \<Longrightarrow> collects u u"
  by (simp add: collects_def links_grow_same)

lemma collects_trans: "collects s t \<Longrightarrow> collects t u \<Longrightarrow> collects s u"
  unfolding collects_def
  by (elim conjE, intro conjI)
    (assumption | simp | erule (1) append_only_trans links_grow_trans prefix_order.trans le_trans)+

lemma collects_ok: "collects u u' \<Longrightarrow> engine_ok u' \<and> evidence_ok u'"
  by (simp add: collects_def)

lemma collects_log:
  assumes "engine_ok u" "evidence_ok u"
  shows "collects u (log_event_as ac at og a e i b af c u)"
  using assms engine_ok_log_event[OF assms(1)]
  by (auto simp: collects_def links_grow_same evidence_ok_def intro: pk_ok_mono)

lemma collects_evidence:
  assumes "engine_ok u" "evidence_ok u" "ev_id ev = next_id u"
  shows "collects u (add_evidence ev u)"
  using engine_ok_add_evidence[OF assms(1)] evidence_ok_add_evidence[OF assms(2,3)]
  by (simp add: collects_def links_grow_same add_evidence_def append_only_def)

lemma collects_attach:
  assumes ok: "engine_ok u" "evidence_ok u" and e: "e \<in> ev_id ` set (t_evidence u)"
    and fresh: "(e, c) \<notin> (\<lambda>l. (ln_evidence_id l, ln_state_id l)) ` set (t_link u)"
  shows "collects u (attach_new e c u)"
proof -
  let ?u = "attach_new e c u"
  have links: "t_link ?u = t_link u @ [new_link (next_id u) e c]" by (simp add: attach_new_def)
  have "links_ok (Suc (next_id u)) (t_link ?u)"
    using ok(1) fresh unfolding engine_ok_def schema_ok_def links_ok_def links by (auto intro: pk_ok_snoc)
  then have "schema_ok ?u"
    using ok(1) unfolding engine_ok_def schema_ok_def catalog_ok_def
    by (auto simp: attach_new_def intro: states_ok_mono contribs_ok_mono org_products_ok_mono task_links_ok_mono pk_ok_mono)
  then have "engine_ok ?u" by (rule engine_ok_states[OF ok(1)]) (simp_all add: attach_new_def)
  moreover have "evidence_ok ?u"
    using ok(2) e unfolding evidence_ok_def links by (auto simp: attach_new_def intro: pk_ok_mono)
  moreover have "links_grow u ?u"
    unfolding links_grow_def links by (intro exI[of _ "t_link u"] exI[of _ "[new_link (next_id u) e c]"]) (simp add: born_live_new)
  ultimately show ?thesis by (simp add: collects_def attach_new_def append_only_def)
qed

lemma collects_task:
  assumes "engine_ok u" "evidence_ok u" "\<And>t. tk_id (f t) = tk_id t"
  shows "collects u (update_task i f u)"
  using quiet_update_task[OF assms(1), of f i] assms
  by (auto simp: collects_def quiet_def links_grow_same evidence_ok_def update_task_def)

lemma collects_detach:
  assumes ok: "engine_ok u" "evidence_ok u" and l: "l \<in> set (t_link u)"
    and run: "detach org l (Some who) DETACHED act ctx None None u = Inr u'"
  shows "collects u u'"
proof -
  let ?f = "archive_row DETACHED (clock u) None (Some who)"
  from run obtain e b af c where na: "\<not> (ln_is_archived l \<and> ln_archived_by_product l = None)"
    and u': "u' = update_link (ln_id l) ?f (log_event_as None None (Some org) act ''evidence'' e b af c u)"
    by (rule detach_InrD)
  have pk: "pk_ok ln_id (next_id u) (t_link u)" using ok(1) by (simp add: engine_ok_def schema_ok_def links_ok_def)
  have log: "collects u (log_event_as None None (Some org) act ''evidence'' e b af c u)" by (rule collects_log[OF ok])
  have eng: "engine_ok u'" unfolding u'
    by (rule engine_ok_archive[OF engine_ok_log_event[OF ok(1)]]) (simp_all add: cause_defs)
  have "map ln_evidence_id (t_link u') = map ln_evidence_id (t_link u)"
    unfolding u' by (simp add: tupd_def)
  then have "ln_evidence_id ` set (t_link u') = ln_evidence_id ` set (t_link u)" by (metis list.set_map)
  then have ev: "evidence_ok u'" using ok(2) unfolding evidence_ok_def by (auto simp: u' intro: pk_ok_mono)
  have "passes k (if ln_id k = ln_id l then ?f k else k)" if k: "k \<in> set (t_link u)" for k
  proof (cases "ln_id k = ln_id l")
    case True
    then have "k = l" using pk_ok_inj[OF pk k l] by simp
    moreover have "link_step (clock u) (DetachedBy (Some who)) l (?f l)"
      by (rule detached[OF na]) (simp add: archive_def cause_defs)
    ultimately show ?thesis unfolding passes_def using True
      by (intro exI[of _ "[(clock u, DetachedBy (Some who))]"]) (auto intro!: run_cons run_nil)
  qed simp
  then have "list_all2 passes (t_link u) (t_link u')"
    unfolding u' by (simp add: tupd_def list_all2_map2 list_all2_same)
  then have "links_grow u u'" by (rule links_grow_pass)
  then show ?thesis using log eng ev by (simp add: collects_def append_only_def u')
qed

lemma collects_clock:
  assumes ok: "engine_ok u" "evidence_ok u"
  shows "collects u (u\<lparr>clock := t, cur_actor := a, cur_actor_type := b, cur_ip := c\<rparr>)"
proof -
  have "schema_ok (u\<lparr>clock := t, cur_actor := a, cur_actor_type := b, cur_ip := c\<rparr>)"
    using ok(1) by (simp add: engine_ok_def schema_ok_def catalog_ok_def)
  then have "engine_ok (u\<lparr>clock := t, cur_actor := a, cur_actor_type := b, cur_ip := c\<rparr>)"
    by (rule engine_ok_states[OF ok(1)]) simp_all
  then show ?thesis using ok(2) by (simp add: collects_def links_grow_same append_only_def evidence_ok_def)
qed

subsection \<open>The requests\<close>

definition evidence_inv :: "evidence_db \<Rightarrow> bool" where
  "evidence_inv s \<longleftrightarrow> api_ok (ed_api s) \<and> evidence_ok (ed_db s)"

lemma evidence_invD: "evidence_inv s \<Longrightarrow> engine_ok (ed_db s) \<and> evidence_ok (ed_db s)"
  by (simp add: evidence_inv_def api_ok_def)

lemma in_ed_frame [simp]:
  "ed_db (in_ed f s) = f (ed_db s)" "ed_objects (in_ed f s) = ed_objects s" "t_artifact (in_ed f s) = t_artifact s"
  "t_statement (ed_api (in_ed f s)) = t_statement (ed_api s)"
  by (simp_all add: in_ed_def)

lemma insert_evidence_frame [simp]:
  "ed_db (insert_evidence ev loc sha s) = add_evidence ev (ed_db s)"
  "ed_objects (insert_evidence ev loc sha s) = ed_objects s"
  "t_artifact (insert_evidence ev loc sha s) =
     t_artifact s @ [\<lparr>ac_evidence_id = ev_id ev, ac_reference_location = loc, ac_sha256 = sha\<rparr>]"
  "t_statement (ed_api (insert_evidence ev loc sha s)) = t_statement (ed_api s)"
  by (simp_all add: insert_evidence_def add_evidence_def)

lemma collects_inv:
  assumes "evidence_inv s" "collects (ed_db s) (ed_db s')" "t_statement (ed_api s') = t_statement (ed_api s)"
  shows "evidence_inv s'"
  using assms by (simp add: evidence_inv_def api_ok_def collects_def)

text \<open>A new artifact and its first link.\<close>

lemma unlinked_new: "evidence_ok u \<Longrightarrow> (next_id u, c) \<notin> (\<lambda>l. (ln_evidence_id l, ln_state_id l)) ` set (t_link u)"
  unfolding evidence_ok_def pk_ok_def by fastforce

lemma collects_new_linked:
  assumes ok: "engine_ok u" "evidence_ok u" and ev: "ev_id ev = next_id u"
  shows "collects u (attach_new (ev_id ev) c (add_evidence ev u))"
proof -
  have 1: "collects u (add_evidence ev u)" by (rule collects_evidence[OF ok ev])
  have "collects (add_evidence ev u) (attach_new (ev_id ev) c (add_evidence ev u))"
    by (rule collects_attach) (use collects_ok[OF 1] unlinked_new[OF ok(2)] ev in \<open>auto simp: add_evidence_def\<close>)
  then show ?thesis by (rule collects_trans[OF 1])
qed

lemma own_state_InrD:
  "own_state org_id aid i u = Inr cs \<Longrightarrow>
     get_state i u = Some cs \<and> cs_assessment_id cs = aid \<and> (\<exists>a. get_assessment aid u = Some a \<and> a_org_id a = org_id)"
  by (auto simp: own_state_def check_cs_def dest!: own_assessment_InrD split: sum.splits option.splits if_splits)

lemma store_file_frame:
  assumes "store_file ft org_id up acc s = (ev, sha, s1)"
  shows "ev_id ev = next_id (ed_db s)" "ed_db s1 = add_evidence ev (ed_db s)" "ev_kind ev = ''file''"
    "t_statement (ed_api s1) = t_statement (ed_api s)"
  using assms by (auto simp: store_file_def Let_def split: prod.splits)

lemma store_reference_frame:
  assumes "store_reference org_id r s = (ev, s1)"
  shows "ev_id ev = next_id (ed_db s)" "ed_db s1 = add_evidence ev (ed_db s)" "ev_kind ev = ''reference''"
    "t_statement (ed_api s1) = t_statement (ed_api s)"
  using assms by (auto simp: store_reference_def Let_def)

lemma collects_audited:
  assumes ok: "engine_ok u" "evidence_ok u" and ev: "ev_id ev = next_id u"
  shows "collects u (audit_attached org_id aid cs ev sha (attach_new (ev_id ev) c (add_evidence ev u)))"
proof -
  have 1: "collects u (attach_new (ev_id ev) c (add_evidence ev u))" by (rule collects_new_linked[OF ok ev])
  show ?thesis unfolding audit_attached_def
    by (rule collects_trans[OF 1 collects_log]) (use collects_ok[OF 1] in auto)
qed

lemma upload_collects:
  assumes inv: "evidence_inv s" and run: "upload_evidence ft org_id aid i up s = Inr s'"
  shows "collects (ed_db s) (ed_db s') \<and> t_statement (ed_api s') = t_statement (ed_api s)"
proof -
  obtain cs acc ev sha s1 where st: "store_file ft org_id up acc s = (ev, sha, s1)"
    and s': "s' = in_ed (audit_attached org_id aid cs ev (Some sha)) (in_ed (attach_new (ev_id ev) i) s1)"
    using run by (auto simp: upload_evidence_def split: sum.splits prod.splits)
  note f = store_file_frame[OF st]
  show ?thesis unfolding s' using collects_audited[of "ed_db s" ev org_id aid cs "Some sha" i] evidence_invD[OF inv] f by simp
qed

lemma reference_collects:
  assumes inv: "evidence_inv s"
  shows "collects (ed_db s) (ed_db (add_one_reference org_id aid cs s r)) \<and>
    t_statement (ed_api (add_one_reference org_id aid cs s r)) = t_statement (ed_api s)"
proof -
  obtain ev s1 where st: "store_reference org_id r s = (ev, s1)" by (cases "store_reference org_id r s")
  note f = store_reference_frame[OF st]
  show ?thesis using collects_audited[of "ed_db s" ev org_id aid cs None "cs_id cs"] evidence_invD[OF inv] f
    by (simp add: add_one_reference_def st)
qed

lemma references_collect:
  assumes "evidence_inv s"
  shows "collects (ed_db s) (ed_db (foldl (add_one_reference org_id aid cs) s rs)) \<and>
    t_statement (ed_api (foldl (add_one_reference org_id aid cs) s rs)) = t_statement (ed_api s)"
  using assms
proof (induction rs arbitrary: s)
  case Nil
  then show ?case using evidence_invD collects_refl by simp
next
  case (Cons r rs)
  let ?s1 = "add_one_reference org_id aid cs s r"
  have 1: "collects (ed_db s) (ed_db ?s1)" "t_statement (ed_api ?s1) = t_statement (ed_api s)"
    using reference_collects[OF Cons.prems] by auto
  have "evidence_inv ?s1" by (rule collects_inv[OF Cons.prems 1])
  from Cons.IH[OF this] show ?case using 1 collects_trans[OF 1(1)] by simp
qed

lemma add_references_InrD:
  assumes "add_references org_id aid i refs s = Inr s'"
  obtains cs where "own_state org_id aid i (ed_db s) = Inr cs" "refs \<noteq> []" "length refs \<le> MAX_REFS_PER_CALL"
    "\<not> list_ex (\<lambda>r. check_reference r = None) refs"
    "s' = foldl (add_one_reference org_id aid cs) s (List.map_filter check_reference refs)"
  using assms by (auto simp: add_references_def split: if_splits sum.splits)

lemma detach_collects:
  assumes inv: "evidence_inv s" and run: "detach_evidence org_id aid i e dn email s = Inr s'"
  shows "collects (ed_db s) (ed_db s') \<and> t_statement (ed_api s') = t_statement (ed_api s)"
proof -
  obtain l u where l: "find (\<lambda>l. ln_evidence_id l = e \<and> ln_state_id l = i) (t_link (ed_db s)) = Some l"
    and u: "detach org_id l (Some (user_label dn email)) DETACHED ''evidence.detach'' via_api None None (ed_db s) = Inr u"
    and s': "s' = in_ed (\<lambda>_. u) s"
    using run by (auto simp: detach_evidence_def split: sum.splits option.splits if_splits link_error.splits)
  have "l \<in> set (t_link (ed_db s))" using l by (auto simp: find_Some_iff)
  from collects_detach[OF _ _ this u] show ?thesis unfolding s' using evidence_invD[OF inv] by simp
qed

subsection \<open>Collecting for a task\<close>

definition covered_states :: "uuid \<Rightarrow> db \<Rightarrow> uuid set" where
  "covered_states task_id u = tl_state_id ` {l \<in> set (t_tasklink u). tl_task_id l = task_id}"

lemma fan_one_pair: "fan_one e (n, u) x =
    (if list_ex (\<lambda>l. ln_evidence_id l = e \<and> ln_state_id l = tl_state_id x) (t_link u) then (n, u)
     else (Suc n, attach_new e (tl_state_id x) u))"
  by (simp add: fan_one_def)

text \<open>One artifact over the links of a task: one new live link for every state covered.\<close>

lemma fan_out_links:
  assumes "engine_ok u" "evidence_ok u" "e \<in> ev_id ` set (t_evidence u)" "foldl (fan_one e) (n, u) ls = (m, u')"
  shows "collects u u' \<and> t_tasklink u' = t_tasklink u \<and> t_task u' = t_task u \<and> t_evidence u' = t_evidence u \<and> t_audit u' = t_audit u \<and>
    (\<exists>new. t_link u' = t_link u @ new \<and> m = n + length new \<and> list_all (\<lambda>l. \<not> ln_is_archived l \<and> ln_evidence_id l = e) new \<and>
      distinct (map ln_state_id new) \<and>
      set (map ln_state_id new) = tl_state_id ` set ls - ln_state_id ` {l \<in> set (t_link u). ln_evidence_id l = e})"
  using assms
proof (induction ls arbitrary: n u)
  case Nil
  then show ?case using collects_refl by auto
next
  case (Cons x ls)
  let ?linked = "\<lambda>u. ln_state_id ` {l \<in> set (t_link u). ln_evidence_id l = e}"
  show ?case
  proof (cases "list_ex (\<lambda>l. ln_evidence_id l = e \<and> ln_state_id l = tl_state_id x) (t_link u)")
    case True
    then have "foldl (fan_one e) (n, u) ls = (m, u')" using Cons.prems(4) by (simp add: fan_one_pair)
    note ih = Cons.IH[OF Cons.prems(1-3) this]
    have "tl_state_id x \<in> ?linked u" using True unfolding list_ex_iff by force
    then have "tl_state_id ` set (x # ls) - ?linked u = tl_state_id ` set ls - ?linked u" by auto
    then show ?thesis using ih by simp
  next
    case False
    let ?u = "attach_new e (tl_state_id x) u" and ?l = "new_link (next_id u) e (tl_state_id x)"
    have fresh: "(e, tl_state_id x) \<notin> (\<lambda>l. (ln_evidence_id l, ln_state_id l)) ` set (t_link u)"
      using False by (auto simp: list_ex_iff)
    have 1: "collects u ?u" by (rule collects_attach[OF Cons.prems(1-3) fresh])
    have fr: "t_link ?u = t_link u @ [?l]" "t_evidence ?u = t_evidence u" "t_tasklink ?u = t_tasklink u"
      "t_task ?u = t_task u" "t_audit ?u = t_audit u" by (simp_all add: attach_new_def)
    have run: "foldl (fan_one e) (Suc n, ?u) ls = (m, u')" using Cons.prems(4) False by (simp add: fan_one_pair)
    have "e \<in> ev_id ` set (t_evidence ?u)" using Cons.prems(3) fr(2) by simp
    from Cons.IH[OF _ _ this run] collects_ok[OF 1] obtain new where ih: "collects ?u u'"
      "t_tasklink u' = t_tasklink ?u" "t_task u' = t_task ?u" "t_evidence u' = t_evidence ?u" "t_audit u' = t_audit ?u"
      "t_link u' = t_link ?u @ new" "m = Suc n + length new" "list_all (\<lambda>l. \<not> ln_is_archived l \<and> ln_evidence_id l = e) new"
      "distinct (map ln_state_id new)" "set (map ln_state_id new) = tl_state_id ` set ls - ?linked ?u" by blast
    have "{l \<in> set (t_link ?u). ln_evidence_id l = e} = insert ?l {l \<in> set (t_link u). ln_evidence_id l = e}"
      unfolding fr(1) by auto
    then have linked: "?linked ?u = insert (tl_state_id x) (?linked u)" by simp
    have notin: "tl_state_id x \<notin> ?linked u" using fresh by auto
    have "distinct (map ln_state_id (?l # new))" using ih(9,10) linked by auto
    moreover have "set (map ln_state_id (?l # new)) = tl_state_id ` set (x # ls) - ?linked u"
      using ih(10) linked notin by auto
    ultimately show ?thesis using ih collects_trans[OF 1 ih(1)] fr by (intro conjI exI[of _ "?l # new"]) simp_all
  qed
qed

definition task_collected :: "evidence \<Rightarrow> evidence_task \<Rightarrow> evidence_task" where
  "task_collected ev t = t\<lparr>tk_status := TaskCollected, tk_completed_evidence_id := Some (ev_id ev)\<rparr>"

text \<open>What a collected artifact leaves.\<close>

definition collected :: "uuid \<Rightarrow> evidence \<Rightarrow> db \<Rightarrow> db \<Rightarrow> bool" where
  "collected task_id ev u u' \<longleftrightarrow>
     ev_id ev \<notin> ev_id ` set (t_evidence u) \<and> t_evidence u' = t_evidence u @ [ev] \<and>
     t_task u' = tupd tk_id task_id (task_collected ev) (t_task u) \<and>
     (\<exists>new. t_link u' = t_link u @ new \<and> list_all (\<lambda>l. \<not> ln_is_archived l \<and> ln_evidence_id l = ev_id ev) new \<and>
        distinct (map ln_state_id new) \<and> set (map ln_state_id new) = covered_states task_id u \<and>
        (\<exists>a. t_audit u' = t_audit u @ [a] \<and> al_action a = ''evidence_task.collect'' \<and> al_entity_id a = task_id \<and>
           al_after a = Some [(''evidence_id'', JUuid (ev_id ev)), (''kind'', JStr (ev_kind ev)),
              (''title'', JStr (ev_title ev)), (''links_created'', JInt (int (card (covered_states task_id u))))]))"

lemma sanitise_collect: "sanitise (Some [(''evidence_id'', a), (''kind'', b), (''title'', c), (''links_created'', d)]) =
    Some [(''evidence_id'', a), (''kind'', b), (''title'', c), (''links_created'', d)]"
  by (simp add: sanitise_def sanitise_key_def TEXT_KEYS_def)

lemma finish_collect_outcome:
  assumes ok: "engine_ok u" "evidence_ok u" and ev: "ev_id ev = next_id u"
  shows "collects u (finish_collect org_id t ev (add_evidence ev u)) \<and>
    collected (tk_id t) ev u (finish_collect org_id t ev (add_evidence ev u))"
proof -
  let ?u1 = "add_evidence ev u"
  have 1: "collects u ?u1" by (rule collects_evidence[OF ok ev])
  obtain m u2 where f: "foldl (fan_one (ev_id ev)) (0, ?u1) (filter (\<lambda>l. tl_task_id l = tk_id t) (t_tasklink ?u1)) = (m, u2)"
    by (metis surj_pair)
  have "ev_id ev \<in> ev_id ` set (t_evidence ?u1)" by (simp add: add_evidence_def)
  from fan_out_links[OF _ _ this f] collects_ok[OF 1] obtain new where fan: "collects ?u1 u2" "t_task u2 = t_task ?u1"
    "t_evidence u2 = t_evidence ?u1" "t_audit u2 = t_audit ?u1" "t_link u2 = t_link ?u1 @ new" "m = length new"
    "list_all (\<lambda>l. \<not> ln_is_archived l \<and> ln_evidence_id l = ev_id ev) new" "distinct (map ln_state_id new)"
    "set (map ln_state_id new) = tl_state_id ` set (filter (\<lambda>l. tl_task_id l = tk_id t) (t_tasklink ?u1)) -
       ln_state_id ` {l \<in> set (t_link ?u1). ln_evidence_id l = ev_id ev}" by auto
  have none: "ln_state_id ` {l \<in> set (t_link ?u1). ln_evidence_id l = ev_id ev} = {}"
    using unlinked_new[OF ok(2)] ev by (force simp: add_evidence_def)
  have states: "set (map ln_state_id new) = covered_states (tk_id t) u"
    using fan(9) unfolding none by (auto simp: covered_states_def add_evidence_def)
  have m: "m = card (covered_states (tk_id t) u)"
    using distinct_card[OF fan(8)] states fan(6) by simp
  let ?u3 = "update_task (tk_id t) (task_collected ev) u2"
  have 3: "collects u2 ?u3" by (rule collects_task) (use collects_ok[OF fan(1)] in \<open>auto simp: task_collected_def\<close>)
  have c: "collects u ?u3" by (rule collects_trans[OF collects_trans[OF 1 fan(1)] 3])
  have fin: "finish_collect org_id t ev ?u1 = log_event_as None None (Some org_id) ''evidence_task.collect'' ''evidence_task'' (tk_id t) None
      (Some [(''evidence_id'', JUuid (ev_id ev)), (''kind'', JStr (ev_kind ev)), (''title'', JStr (ev_title ev)),
        (''links_created'', JInt (int m))]) (Some via_api) ?u3"
    by (simp add: finish_collect_def fan_out_evidence_def f task_collected_def[abs_def])
  let ?w = "finish_collect org_id t ev ?u1"
  have w: "t_evidence ?w = t_evidence u2" "t_task ?w = tupd tk_id (tk_id t) (task_collected ev) (t_task u2)"
    "t_link ?w = t_link u2"
    "\<exists>a. t_audit ?w = t_audit u2 @ [a] \<and> al_action a = ''evidence_task.collect'' \<and> al_entity_id a = tk_id t \<and>
       al_after a = Some [(''evidence_id'', JUuid (ev_id ev)), (''kind'', JStr (ev_kind ev)), (''title'', JStr (ev_title ev)),
         (''links_created'', JInt (int (card (covered_states (tk_id t) u))))]"
    unfolding fin by (simp_all add: update_task_def) (simp add: log_event_as_def sanitise_collect m)
  have b: "t_evidence ?u1 = t_evidence u @ [ev]" "t_task ?u1 = t_task u" "t_link ?u1 = t_link u" "t_audit ?u1 = t_audit u"
    by (simp_all add: add_evidence_def)
  have "collects u ?w"
    unfolding fin by (rule collects_trans[OF c collects_log]) (use collects_ok[OF c] in auto)
  moreover have "ev_id ev \<notin> ev_id ` set (t_evidence u)" using ok(2) ev by (auto simp: evidence_ok_def pk_ok_def)
  ultimately show ?thesis
    unfolding collected_def using w fan(2-5,7,8) b states by (intro conjI exI[of _ new]) simp_all
qed

text \<open>The same, from the state the artifact was inserted in.\<close>

lemma finish_collects:
  assumes inv: "evidence_inv s" and ev: "ev_id ev = next_id (ed_db s)" and s1: "ed_db s1 = add_evidence ev (ed_db s)"
  shows "collects (ed_db s1) (finish_collect org_id t ev (ed_db s1))"
proof -
  note ok = evidence_invD[OF inv]
  have c: "collects (ed_db s) (ed_db s1)" unfolding s1 using collects_evidence ok ev by blast
  have mem: "ev_id ev \<in> ev_id ` set (t_evidence (ed_db s1))" by (simp add: s1 add_evidence_def)
  obtain m u2 where f: "foldl (fan_one (ev_id ev)) (0, ed_db s1)
      (filter (\<lambda>l. tl_task_id l = tk_id t) (t_tasklink (ed_db s1))) = (m, u2)" by (metis surj_pair)
  have 2: "collects (ed_db s1) u2" using fan_out_links[OF _ _ mem f] collects_ok[OF c] by blast
  have 3: "collects u2 (update_task (tk_id t) (task_collected ev) u2)"
    by (rule collects_task) (use collects_ok[OF 2] in \<open>auto simp: task_collected_def\<close>)
  have 4: "collects (ed_db s1) (update_task (tk_id t) (task_collected ev) u2)" by (rule collects_trans[OF 2 3])
  show ?thesis
    unfolding finish_collect_def fan_out_evidence_def f Let_def prod.case
    by (rule collects_trans[OF 4[unfolded task_collected_def[abs_def]] collects_log])
      (use collects_ok[OF 4] in \<open>auto simp: task_collected_def[abs_def]\<close>)
qed

lemma get_task_InrD:
  "get_task_for_collect org_id aid i u = Inr t \<Longrightarrow> tget tk_id i (t_task u) = Some t \<and> tk_id t = i \<and>
     tk_assessment_id t = Some aid \<and> tk_org_id t = org_id \<and> \<not> tk_is_archived t"
  by (auto simp: get_task_for_collect_def dest: tget_SomeD split: sum.splits option.splits if_splits)

lemma collect_file_InrD:
  assumes "collect_task_evidence_file ft org_id aid i up s = Inr s'"
  obtains t acc ev sha s1 where "get_task_for_collect org_id aid i (ed_db s) = Inr t" "accept_upload ft up = Inr acc"
    "store_file ft org_id up acc s = (ev, sha, s1)" "s' = in_ed (finish_collect org_id t ev) s1"
  using assms by (auto simp: collect_task_evidence_file_def split: sum.splits prod.splits)

lemma collect_reference_InrD:
  assumes "collect_task_evidence_reference org_id aid i r s = Inr s'"
  obtains t q ev s1 where "get_task_for_collect org_id aid i (ed_db s) = Inr t" "check_reference r = Some q"
    "store_reference org_id q s = (ev, s1)" "s' = in_ed (finish_collect org_id t ev) s1"
  using assms by (auto simp: collect_task_evidence_reference_def split: sum.splits prod.splits option.splits)

fun is_collect :: "uuid \<Rightarrow> evidence_request \<Rightarrow> bool" where
  "is_collect i (CollectFile _ _ j _) \<longleftrightarrow> j = i"
| "is_collect i (CollectReference _ _ j _) \<longleftrightarrow> j = i"
| "is_collect i _ \<longleftrightarrow> False"

lemma map_sum_id_InrD: "map_sum f id x = Inr y \<Longrightarrow> x = Inr y"
  by (cases x) simp_all

lemma collect_effect:
  assumes inv: "evidence_inv s" and run: "serve_evidence ft r s = Inr s'" and r: "is_collect i r"
  shows "collects (ed_db s) (ed_db s') \<and> t_statement (ed_api s') = t_statement (ed_api s) \<and>
    (\<exists>t ev. tget tk_id i (t_task (ed_db s)) = Some t \<and> \<not> tk_is_archived t \<and> collected i ev (ed_db s) (ed_db s'))"
proof -
  note ok = evidence_invD[OF inv]
  have fin: ?thesis if st: "ev_id ev = next_id (ed_db s)" "ed_db s1 = add_evidence ev (ed_db s)"
      "t_statement (ed_api s1) = t_statement (ed_api s)" and s': "s' = in_ed (finish_collect org_id t ev) s1"
      and t: "get_task_for_collect org_id aid i (ed_db s) = Inr t" for ev s1 org_id t aid
    using finish_collect_outcome[of "ed_db s" ev org_id t] ok st get_task_InrD[OF t] unfolding s' by auto
  show ?thesis
  proof (cases r)
    case (CollectFile org_id aid j up)
    then have e: "collect_task_evidence_file ft org_id aid i up s = Inr s'" using run r by (auto dest: map_sum_id_InrD)
    obtain t acc ev sha s1 where c: "get_task_for_collect org_id aid i (ed_db s) = Inr t"
      "store_file ft org_id up acc s = (ev, sha, s1)" "s' = in_ed (finish_collect org_id t ev) s1"
      using e by (rule collect_file_InrD)
    show ?thesis by (rule fin[OF _ _ _ c(3,1)]) (use store_file_frame[OF c(2)] in simp_all)
  next
    case (CollectReference org_id aid j q)
    then have e: "collect_task_evidence_reference org_id aid i q s = Inr s'" using run r by (auto dest: map_sum_id_InrD)
    obtain t q' ev s1 where c: "get_task_for_collect org_id aid i (ed_db s) = Inr t"
      "store_reference org_id q' s = (ev, s1)" "s' = in_ed (finish_collect org_id t ev) s1"
      using e by (rule collect_reference_InrD)
    show ?thesis by (rule fin[OF _ _ _ c(3,1)]) (use store_reference_frame[OF c(2)] in simp_all)
  qed (use r in simp_all)
qed

subsection \<open>Every request about artifacts\<close>

fun judging :: "evidence_request \<Rightarrow> bool" where
  "judging (Judging _) = True"
| "judging _ = False"

lemma download_InrD:
  assumes "download_evidence ft org_id e s = Inr (d, s')"
  obtains b c where "s' = in_ed (log_event_as None None (Some org_id) ''evidence.download'' ''evidence'' e None b c) s"
  using assms by (auto simp: download_evidence_def dest!: tget_SomeD split: option.splits if_splits)

lemma artifact_request_collects:
  assumes inv: "evidence_inv s" and run: "serve_evidence ft r s = Inr s'" and n: "\<not> judging r"
  shows "collects (ed_db s) (ed_db s') \<and> t_statement (ed_api s') = t_statement (ed_api s)"
proof -
  note ok = evidence_invD[OF inv]
  show ?thesis
  proof (cases r)
    case (UploadEvidence a b c d)
    then show ?thesis using run upload_collects[OF inv] by (auto dest: map_sum_id_InrD)
  next
    case (AddReferences a b c d)
    then have "add_references a b c d s = Inr s'" using run by (auto dest: map_sum_id_InrD)
    then show ?thesis by (rule add_references_InrD) (use references_collect[OF inv] in simp)
  next
    case (DetachEvidence a b c d e f)
    then show ?thesis using run detach_collects[OF inv] by simp
  next
    case (CollectFile a b i d)
    then show ?thesis using collect_effect[OF inv run, of i] by simp
  next
    case (CollectReference a b i d)
    then show ?thesis using collect_effect[OF inv run, of i] by simp
  next
    case (DownloadEvidence a b)
    obtain d where "download_evidence ft a b s = Inr (d, s')"
      using run DownloadEvidence by (cases "download_evidence ft a b s") auto
    then show ?thesis by (rule download_InrD) (use collects_log ok in simp)
  next
    case (AtTimeBy a b c d)
    then show ?thesis using run collects_clock ok by auto
  qed (use n in simp)
qed

end
