(* ===== verification/Artifact_Files.thy ===== *)
theory Artifact_Files
  imports Artifact_Facts Transactions
begin

section \<open>What is stored of an artifact\<close>

text \<open>
  The object of every uploaded artifact is there under its key, as it was hashed, and of a type the
  upload was checked for; its key is of no other artifact. A key holds the 128 bits of two
  identifiers, so the statements are for identifiers below that.
\<close>

subsection \<open>Keys\<close>

lemma hex_digit_inj: "a < 16 \<Longrightarrow> b < 16 \<Longrightarrow> hex_digit a = hex_digit b \<Longrightarrow> a = b"
proof -
  assume h: "a < 16" "b < 16" "hex_digit a = hex_digit b"
  have v: "(of_char (hex_digit d) :: nat) = (if d < 10 then 48 + d else 87 + d)" if "d < 16" for d
    using that by (simp add: hex_digit_def of_char_of take_bit_eq_mod)
  have "(if a < 10 then 48 + a else 87 + a) = (if b < 10 then 48 + b else 87 + b)"
    by (rule trans[OF v[OF h(1), symmetric, unfolded h(3)] v[OF h(2)]])
  then show "a = b" using h(1,2) by (simp split: if_split_asm)
qed

lemma hex_digits_inj:
  "(\<forall>k<n. i div 16 ^ k mod 16 = j div 16 ^ k mod (16::nat)) \<Longrightarrow> i mod 16 ^ n = j mod 16 ^ n"
proof (induction n)
  case (Suc n)
  then have "i mod 16 ^ n = j mod 16 ^ n" "i div 16 ^ n mod 16 = j div 16 ^ n mod 16" by simp_all
  then show ?case by (metis mod_mult2_eq mult.commute power_Suc)
qed simp

lemma uuid_text_length [simp]: "length (uuid_text i) = 36"
  by (simp add: uuid_text_def Let_def)

lemma uuid_text_inj:
  assumes "uuid_text i = uuid_text j" "i < 16 ^ 32" "j < 16 ^ 32"
  shows "i = j"
proof -
  define h where "h i = map (\<lambda>k. hex_digit (i div 16 ^ (31 - k) mod 16)) [0..<32]" for i
  have len: "length (h i) = 32" for i by (simp add: h_def)
  have t: "uuid_text i = take 8 (h i) @ ''-'' @ take 4 (drop 8 (h i)) @ ''-'' @ take 4 (drop 12 (h i)) @ ''-'' @
      take 4 (drop 16 (h i)) @ ''-'' @ drop 20 (h i)" for i by (simp only: uuid_text_def h_def Let_def)
  have parts: "take 8 (h i) = take 8 (h j)" "take 4 (drop 8 (h i)) = take 4 (drop 8 (h j))"
    "take 4 (drop 12 (h i)) = take 4 (drop 12 (h j))" "take 4 (drop 16 (h i)) = take 4 (drop 16 (h j))"
    "drop 20 (h i) = drop 20 (h j)"
    using assms(1) unfolding t by (simp_all add: len)
  have cut: "x = take 8 x @ take 4 (drop 8 x) @ take 4 (drop 12 x) @ take 4 (drop 16 x) @ drop 20 x" for x :: string
    using append_take_drop_id[of 8 x] append_take_drop_id[of 4 "drop 8 x"] append_take_drop_id[of 4 "drop 12 x"]
      append_take_drop_id[of 4 "drop 16 x"] by simp
  have h: "h i = h j" using cut[of "h i"] cut[of "h j"] parts by simp
  have "i div 16 ^ k mod 16 = j div 16 ^ k mod 16" if "k < 32" for k
  proof (rule hex_digit_inj)
    have "h i ! (31 - k) = h j ! (31 - k)" by (simp add: h)
    then show "hex_digit (i div 16 ^ k mod 16) = hex_digit (j div 16 ^ k mod 16)"
      using that nth_upt[of 0 "31 - k" 32] by (simp add: h_def)
  qed simp_all
  then have "i mod 16 ^ 32 = j mod 16 ^ 32" by (intro hex_digits_inj) simp
  then show ?thesis using assms(2,3) by simp
qed

lemma storage_key_inj:
  assumes "storage_key_for o1 i e1 = storage_key_for o2 j e2" "i < 16 ^ 32" "j < 16 ^ 32"
  shows "i = j"
proof -
  have "take 36 (drop 46 (storage_key_for a k e)) = uuid_text k" for a k e
    by (simp add: storage_key_for_def)
  then have "uuid_text i = uuid_text j" using assms(1) by metis
  then show ?thesis using uuid_text_inj assms(2,3) by blast
qed

subsection \<open>The store\<close>

lemma get_upload:
  "get_object k (upload_file c key data mime objects) =
     (if c = MinIOClient \<and> k = key then Some \<lparr>so_key = key, so_body = data, so_mime = mime\<rparr> else get_object k objects)"
proof (cases c)
  case MinIOClient
  have "find (\<lambda>ob. so_key ob = k) (filter (\<lambda>ob. so_key ob \<noteq> key) objects @ [ob]) =
      (if k = key then (if so_key ob = k then Some ob else None)
       else (case find (\<lambda>ob. so_key ob = k) objects of None \<Rightarrow> if so_key ob = k then Some ob else None | Some x \<Rightarrow> Some x))" for ob
    by (induction objects) auto
  then show ?thesis using MinIOClient by (auto simp: get_object_def split: option.split)
qed simp

text \<open>The object of an artifact.\<close>

definition object_of :: "artifact_columns \<Rightarrow> evidence_db \<Rightarrow> stored_object option" where
  "object_of a s =
     (case get_evidence (ac_evidence_id a) (ed_db s) of None \<Rightarrow> None | Some e \<Rightarrow>
      case ev_storage_key e of None \<Rightarrow> None | Some k \<Rightarrow> get_object k (ed_objects s))"

definition file_ok :: "file_tools \<Rightarrow> evidence \<Rightarrow> string \<Rightarrow> stored_object \<Rightarrow> bool" where
  "file_ok ft e sha ob \<longleftrightarrow>
     ev_mime_type e = Some (so_mime ob) \<and> so_mime ob \<in> set ALLOWED_MIME_TYPES \<and>
     ev_file_size e = Some (int (length (so_body ob))) \<and> sha = ft_sha256 ft (so_body ob) \<and>
     verify_magic_bytes (so_body ob) (so_mime ob) \<and>
     (so_mime ob = SVG_MIME \<longrightarrow> (\<exists>u. svg_clean u \<and> so_body ob = ft_tostring ft u))"

definition usable :: "file_tools \<Rightarrow> evidence_db \<Rightarrow> bool" where
  "usable ft s \<longleftrightarrow> ft_storage ft = MinIOClient \<and> next_id (ed_db s) \<le> 16 ^ 32"

definition artifact_ok :: "file_tools \<Rightarrow> evidence_db \<Rightarrow> artifact_columns \<Rightarrow> bool" where
  "artifact_ok ft s a \<longleftrightarrow>
     (\<exists>e. get_evidence (ac_evidence_id a) (ed_db s) = Some e \<and>
       (case ac_sha256 a of
          None \<Rightarrow> ev_kind e = ''reference'' \<and> ev_storage_key e = None \<and>
            (\<exists>l. ac_reference_location a = Some l \<and> location_ok l \<and> length l \<le> 2000)
        | Some sha \<Rightarrow> ev_kind e = ''file'' \<and>
            (\<exists>org ext. ext \<in> set ALLOWED_EXTENSIONS \<and> ev_storage_key e = Some (storage_key_for org (ev_id e) ext)) \<and>
            (usable ft s \<longrightarrow> (\<exists>ob. object_of a s = Some ob \<and> file_ok ft e sha ob))))"

definition files_ok :: "file_tools \<Rightarrow> evidence_db \<Rightarrow> bool" where
  "files_ok ft s \<longleftrightarrow> evidence_inv s \<and> list_all (artifact_ok ft s) (t_artifact s)"

text \<open>What no request takes back.\<close>

definition evidence_grows :: "file_tools \<Rightarrow> evidence_db \<Rightarrow> evidence_db \<Rightarrow> bool" where
  "evidence_grows ft s s' \<longleftrightarrow>
     append_only (ed_db s) (ed_db s') \<and> next_id (ed_db s) \<le> next_id (ed_db s') \<and>
     prefix (t_evidence (ed_db s)) (t_evidence (ed_db s')) \<and> links_grow (ed_db s) (ed_db s') \<and>
     prefix (t_artifact s) (t_artifact s') \<and>
     (files_ok ft s \<and> usable ft s' \<longrightarrow> (\<forall>a \<in> set (t_artifact s). object_of a s' = object_of a s))"

lemma usable_back: "usable ft s' \<Longrightarrow> next_id (ed_db s) \<le> next_id (ed_db s') \<Longrightarrow> usable ft s"
  by (simp add: usable_def)

lemma artifact_evidence: "artifact_ok ft s a \<Longrightarrow> ac_evidence_id a \<in> ev_id ` set (t_evidence (ed_db s))"
  unfolding artifact_ok_def using tget_SomeD by (metis image_eqI)

text \<open>An artifact stays as it is where its row and its object do.\<close>

lemma artifact_kept:
  assumes a: "artifact_ok ft s a" and p: "prefix (t_evidence (ed_db s)) (t_evidence (ed_db s'))"
    and n: "next_id (ed_db s) \<le> next_id (ed_db s')" and o: "usable ft s' \<Longrightarrow> object_of a s' = object_of a s"
  shows "artifact_ok ft s' a"
  using a get_evidence_kept(1)[OF p artifact_evidence[OF a]] usable_back[OF _ n] o
  by (auto simp: artifact_ok_def split: option.splits)

lemma object_kept:
  assumes a: "artifact_ok ft s a" and p: "prefix (t_evidence (ed_db s)) (t_evidence (ed_db s'))"
    and o: "ed_objects s' = ed_objects s"
  shows "object_of a s' = object_of a s"
  using get_evidence_kept(1)[OF p artifact_evidence[OF a]] o by (simp add: object_of_def split: option.split)

text \<open>Requests that store nothing.\<close>

lemma files_step_same:
  assumes ok: "files_ok ft s" and inv: "evidence_inv s'"
    and db: "append_only (ed_db s) (ed_db s')" "next_id (ed_db s) \<le> next_id (ed_db s')"
      "prefix (t_evidence (ed_db s)) (t_evidence (ed_db s'))" "links_grow (ed_db s) (ed_db s')"
    and same: "ed_objects s' = ed_objects s" "t_artifact s' = t_artifact s"
  shows "files_ok ft s' \<and> evidence_grows ft s s'"
proof -
  have o: "object_of a s' = object_of a s" if "a \<in> set (t_artifact s)" for a
    using object_kept[OF _ db(3) same(1)] ok that by (auto simp: files_ok_def list_all_iff)
  have "artifact_ok ft s' a" if "a \<in> set (t_artifact s)" for a
    using artifact_kept[OF _ db(3,2)] o[OF that] ok that by (auto simp: files_ok_def list_all_iff)
  then show ?thesis using inv db o same by (simp add: files_ok_def evidence_grows_def list_all_iff)
qed

lemma collects_files:
  assumes ok: "files_ok ft s" and c: "collects (ed_db s) (ed_db s')" "t_statement (ed_api s') = t_statement (ed_api s)"
    and same: "ed_objects s' = ed_objects s" "t_artifact s' = t_artifact s"
  shows "files_ok ft s' \<and> evidence_grows ft s s'"
  by (rule files_step_same[OF ok collects_inv[OF _ c] _ _ _ _ same]) (use ok c in \<open>simp_all add: files_ok_def collects_def\<close>)

lemma evidence_grows_refl: "evidence_grows ft s s"
  by (simp add: evidence_grows_def links_grow_same)

lemma evidence_grows_trans:
  assumes ok: "files_ok ft t" and g: "evidence_grows ft s t" "evidence_grows ft t u"
  shows "evidence_grows ft s u"
proof -
  have "object_of a u = object_of a s" if "files_ok ft s" "usable ft u" "a \<in> set (t_artifact s)" for a
  proof -
    have "usable ft t" using usable_back[OF that(2)] g(2) by (simp add: evidence_grows_def)
    moreover have "a \<in> set (t_artifact t)" using that(3) g(1) by (auto simp: evidence_grows_def dest: set_mono_prefix)
    ultimately show ?thesis using g that ok unfolding evidence_grows_def by metis
  qed
  then show ?thesis using g append_only_trans links_grow_trans prefix_order.trans
    unfolding evidence_grows_def by (metis (no_types, lifting) le_trans)
qed

subsection \<open>Requests that store a file\<close>

lemma accept_upload_InrD:
  assumes "accept_upload ft up = Inr (raw_name, ext, mime, data)"
  shows "ext \<in> set ALLOWED_EXTENSIONS" "mime \<in> set ALLOWED_MIME_TYPES" "verify_magic_bytes data mime"
    "mime = SVG_MIME \<Longrightarrow> \<exists>u. svg_clean u \<and> data = ft_tostring ft u"
proof -
  obtain d where d: "sanitize_if_svg ft (up_data up) mime = Inr d" "data = d" "ext \<in> set ALLOWED_EXTENSIONS"
    "mime \<in> set ALLOWED_MIME_TYPES" "verify_magic_bytes (up_data up) mime"
    using assms unfolding accept_upload_def Let_def
    by (cases "sanitize_if_svg ft (up_data up) (or_text (up_content_type up) (or_text (ft_guess_type ft
          (safe_filename (or_text (up_filename up) ''upload''))) ''application/octet-stream''))")
      (auto split: if_splits)
  show "ext \<in> set ALLOWED_EXTENSIONS" "mime \<in> set ALLOWED_MIME_TYPES" by (rule d)+
  show "\<exists>u. svg_clean u \<and> data = ft_tostring ft u" if svg: "mime = SVG_MIME"
  proof -
    have "sanitize_svg (ft_fromstring ft) (ft_tostring ft) (up_data up) = Inr data"
      using d(1,2) svg by (cases "sanitize_svg (ft_fromstring ft) (ft_tostring ft) (up_data up)") (auto simp: sanitize_if_svg_def)
    then show ?thesis by (rule sanitize_svg_InrD) (use clean_is_clean(1) in blast)
  qed
  show "verify_magic_bytes data mime"
  proof (cases "mime = SVG_MIME")
    case True
    then show ?thesis by (simp add: verify_magic_bytes_def SVG_MIME_def)
  next
    case False
    then show ?thesis using d by (simp add: sanitize_if_svg_def)
  qed
qed

lemma store_file_files:
  assumes ok: "files_ok ft s" and acc: "accept_upload ft up = Inr acc" and st: "store_file ft org_id up acc s = (ev, sha, s1)"
    and c: "collects (ed_db s1) (ed_db s')" "t_statement (ed_api s') = t_statement (ed_api s1)"
    and same: "ed_objects s' = ed_objects s1" "t_artifact s' = t_artifact s1"
  shows "files_ok ft s' \<and> evidence_grows ft s s'"
proof -
  obtain raw_name ext mime data where x: "acc = (raw_name, ext, mime, data)" by (cases acc)
  note a = accept_upload_InrD[OF acc[unfolded x]]
  note f = store_file_frame[OF st]
  have inv: "evidence_inv s" using ok by (simp add: files_ok_def)
  note db = evidence_invD[OF inv]
  let ?key = "storage_key_for org_id (ev_id ev) ext"
  have st': "ed_objects s1 = upload_file (ft_storage ft) ?key data mime (ed_objects s)"
    "t_artifact s1 = t_artifact s @ [\<lparr>ac_evidence_id = ev_id ev, ac_reference_location = None, ac_sha256 = Some sha\<rparr>]"
    "ev_storage_key ev = Some ?key" "ev_mime_type ev = Some mime" "ev_file_size ev = Some (int (length data))"
    "sha = ft_sha256 ft data"
    using st unfolding x store_file_def by (auto simp: Let_def)
  have c1: "collects (ed_db s) (ed_db s1)" unfolding f(2) using collects_evidence db f(1) by blast
  have c2: "collects (ed_db s) (ed_db s')" by (rule collects_trans[OF c1 c(1)])
  have inv': "evidence_inv s'" by (rule collects_inv[OF inv c2]) (use c(2) f(4) in simp)
  have p: "prefix (t_evidence (ed_db s)) (t_evidence (ed_db s'))" and n: "next_id (ed_db s) \<le> next_id (ed_db s')"
    and p1: "prefix (t_evidence (ed_db s1)) (t_evidence (ed_db s'))" and n1: "next_id (ed_db s1) \<le> next_id (ed_db s')"
    using c2 c(1) by (simp_all add: collects_def)
  have mem: "ev_id ev \<in> ev_id ` set (t_evidence (ed_db s1))" by (simp add: f(2) add_evidence_def)
  have pk1: "pk_ok ev_id (next_id (ed_db s1)) (t_evidence (ed_db s1))" using c1 by (simp add: collects_def evidence_ok_def)
  have "get_evidence (ev_id ev) (ed_db s1) = Some ev"
    by (rule pk_ok_tget[OF pk1]) (simp_all add: f(2) add_evidence_def)
  then have ge: "get_evidence (ev_id ev) (ed_db s') = Some ev" using get_evidence_kept(1)[OF p1 mem] by simp
  have old: "object_of b s' = object_of b s" if b: "b \<in> set (t_artifact s)" and u: "usable ft s'" for b
  proof -
    have bo: "artifact_ok ft s b" using ok b by (simp add: files_ok_def list_all_iff)
    note g = get_evidence_kept(1)[OF p artifact_evidence[OF bo]]
    obtain e where e: "get_evidence (ac_evidence_id b) (ed_db s) = Some e" using bo by (auto simp: artifact_ok_def)
    have "pk_ok ev_id (next_id (ed_db s)) (t_evidence (ed_db s))" using db by (simp add: evidence_ok_def)
    then have less: "ev_id e < next_id (ed_db s)" using tget_SomeD[OF e] by (auto simp: pk_ok_def)
    have small: "ev_id ev < 16 ^ 32" "ev_id e < 16 ^ 32"
      using u n1 less unfolding usable_def f(1,2) by (simp_all add: add_evidence_def)
    have "k \<noteq> ?key" if k: "ev_storage_key e = Some k" for k
    proof -
      obtain o2 e2 where k2: "k = storage_key_for o2 (ev_id e) e2"
        using bo e k by (auto simp: artifact_ok_def split: option.splits)
      show ?thesis
      proof
        assume "k = ?key"
        then have "ev_id e = ev_id ev" using storage_key_inj[OF _ small(2,1)] k2 by simp
        then show False using less f(1) by simp
      qed
    qed
    then show ?thesis using g e by (auto simp: object_of_def same st'(1) get_upload split: option.split)
  qed
  have new: "artifact_ok ft s' \<lparr>ac_evidence_id = ev_id ev, ac_reference_location = None, ac_sha256 = Some sha\<rparr>"
  proof -
    let ?a = "\<lparr>ac_evidence_id = ev_id ev, ac_reference_location = None, ac_sha256 = Some sha\<rparr>"
    let ?ob = "\<lparr>so_key = ?key, so_body = data, so_mime = mime\<rparr>"
    have "object_of ?a s' = Some ?ob" if "usable ft s'"
      using that by (simp add: object_of_def ge st'(1,3) same get_upload usable_def del: upload_file.simps)
    moreover have "file_ok ft ev sha ?ob" using a st' by (simp add: file_ok_def)
    ultimately show ?thesis using ge f(3) st'(3) a(1) by (auto simp: artifact_ok_def)
  qed
  have "artifact_ok ft s' b" if "b \<in> set (t_artifact s)" for b
    using artifact_kept[OF _ p n old[OF that]] ok that by (simp add: files_ok_def list_all_iff)
  then have "files_ok ft s'" using inv' new by (auto simp: files_ok_def list_all_iff same st'(2))
  moreover have "evidence_grows ft s s'"
    using c2 old unfolding evidence_grows_def collects_def same st'(2) by simp
  ultimately show ?thesis by blast
qed

lemma check_reference_SomeD:
  assumes "check_reference r = Some q"
  shows "location_ok (rf_location q) \<and> length (rf_location q) \<le> 2000"
  using assms by (auto simp: check_reference_def check_location_def Let_def split: option.splits if_splits)

lemma store_reference_files:
  assumes ok: "files_ok ft s" and q: "check_reference r = Some q" and st: "store_reference org_id q s = (ev, s1)"
    and c: "collects (ed_db s1) (ed_db s')" "t_statement (ed_api s') = t_statement (ed_api s1)"
    and same: "ed_objects s' = ed_objects s1" "t_artifact s' = t_artifact s1"
  shows "files_ok ft s' \<and> evidence_grows ft s s'"
proof -
  note f = store_reference_frame[OF st]
  have inv: "evidence_inv s" using ok by (simp add: files_ok_def)
  note db = evidence_invD[OF inv]
  let ?a = "\<lparr>ac_evidence_id = ev_id ev, ac_reference_location = Some (rf_location q), ac_sha256 = None\<rparr>"
  have st': "ed_objects s1 = ed_objects s" "t_artifact s1 = t_artifact s @ [?a]" "ev_storage_key ev = None"
    using st unfolding store_reference_def by (auto simp: Let_def)
  have c1: "collects (ed_db s) (ed_db s1)" unfolding f(2) using collects_evidence db f(1) by blast
  have c2: "collects (ed_db s) (ed_db s')" by (rule collects_trans[OF c1 c(1)])
  have inv': "evidence_inv s'" by (rule collects_inv[OF inv c2]) (use c(2) f(4) in simp)
  have p: "prefix (t_evidence (ed_db s)) (t_evidence (ed_db s'))" and n: "next_id (ed_db s) \<le> next_id (ed_db s')"
    and p1: "prefix (t_evidence (ed_db s1)) (t_evidence (ed_db s'))"
    using c2 c(1) by (simp_all add: collects_def)
  have mem: "ev_id ev \<in> ev_id ` set (t_evidence (ed_db s1))" by (simp add: f(2) add_evidence_def)
  have pk1: "pk_ok ev_id (next_id (ed_db s1)) (t_evidence (ed_db s1))" using c1 by (simp add: collects_def evidence_ok_def)
  have "get_evidence (ev_id ev) (ed_db s1) = Some ev"
    by (rule pk_ok_tget[OF pk1]) (simp_all add: f(2) add_evidence_def)
  then have ge: "get_evidence (ev_id ev) (ed_db s') = Some ev" using get_evidence_kept(1)[OF p1 mem] by simp
  have obs: "ed_objects s' = ed_objects s" using same st' by simp
  have old: "object_of b s' = object_of b s" if "b \<in> set (t_artifact s)" for b
    using object_kept[OF _ p obs] ok that by (auto simp: files_ok_def list_all_iff)
  have "artifact_ok ft s' b" if "b \<in> set (t_artifact s)" for b
    using artifact_kept[OF _ p n old[OF that]] ok that by (simp add: files_ok_def list_all_iff)
  moreover have "artifact_ok ft s' ?a" using ge f(3) st'(3) check_reference_SomeD[OF q] by (simp add: artifact_ok_def)
  ultimately have "files_ok ft s'" using inv' by (auto simp: files_ok_def list_all_iff same st'(2))
  moreover have "evidence_grows ft s s'"
    using c2 old unfolding evidence_grows_def collects_def same st'(2) by simp
  ultimately show ?thesis by blast
qed

subsection \<open>Every request\<close>

lemma api_collects_links:
  assumes ok: "api_ok s" "evidence_ok (ad_db s)" and run: "serve_api r s = Inr u"
  shows "evidence_ok (ad_db u) \<and> next_id (ad_db s) \<le> next_id (ad_db u) \<and>
    t_evidence (ad_db u) = t_evidence (ad_db s) \<and> links_grow (ad_db s) (ad_db u)"
proof -
  have cat: "catalog_eq (ad_db s) (ad_db u)" using api_step[OF ok(1) run] by (simp add: api_grows_def)
  have m: "next_id (ad_db s) \<le> next_id (ad_db u)" "link_effects (ad_db s) (ad_db u)"
    using api_moves[OF ok(1) run] by (simp_all add: moves_only_def)
  have "evidence_ok (ad_db u)" by (rule api_evidence_ok[OF ok run])
  moreover have "list_all2 passes (t_link (ad_db s)) (t_link (ad_db u))"
    by (rule list_all2_mono[OF m(2)]) (blast intro: lives_passes engine_effect_lives)
  ultimately show ?thesis using m(1) cat links_grow_pass by (simp add: catalog_eq_def)
qed

lemma judging_files:
  assumes ok: "files_ok ft s" and run: "serve_evidence ft (Judging r) s = Inr s'"
  shows "files_ok ft s' \<and> evidence_grows ft s s'"
proof -
  obtain u where u: "serve_api r (ed_api s) = Inr u" "s' = s\<lparr>ed_api := u\<rparr>"
    using run by (cases "serve_api r (ed_api s)") auto
  have o: "api_ok (ed_api s)" "evidence_ok (ed_db s)" using ok by (simp_all add: files_ok_def evidence_inv_def)
  note c = api_collects_links[OF o u(1)]
  have a: "api_ok u" "append_only (ed_db s) (ad_db u)" using api_step[OF o(1) u(1)] by (simp_all add: api_grows_def)
  show ?thesis
    by (rule files_step_same[OF ok]) (use a c in \<open>simp_all add: u(2) evidence_inv_def\<close>)
qed

lemma audited_collects:
  assumes "engine_ok u" "evidence_ok u" "e \<in> ev_id ` set (t_evidence u)"
    "(e, c) \<notin> (\<lambda>l. (ln_evidence_id l, ln_state_id l)) ` set (t_link u)"
  shows "collects u (audit_attached org_id aid cs ev sha (attach_new e c u))"
proof -
  have 1: "collects u (attach_new e c u)" by (rule collects_attach[OF assms])
  show ?thesis unfolding audit_attached_def
    by (rule collects_trans[OF 1 collects_log]) (use collects_ok[OF 1] in auto)
qed

lemma linked_after_insert:
  assumes "evidence_inv s" "ev_id ev = next_id (ed_db s)" "ed_db s1 = add_evidence ev (ed_db s)"
  shows "engine_ok (ed_db s1) \<and> evidence_ok (ed_db s1) \<and> ev_id ev \<in> ev_id ` set (t_evidence (ed_db s1)) \<and>
    (ev_id ev, c) \<notin> (\<lambda>l. (ln_evidence_id l, ln_state_id l)) ` set (t_link (ed_db s1))"
proof -
  note ok = evidence_invD[OF assms(1)]
  have "collects (ed_db s) (ed_db s1)" unfolding assms(3) using collects_evidence ok assms(2) by blast
  then show ?thesis using unlinked_new[of "ed_db s" c] ok assms(2) by (simp add: collects_def assms(3) add_evidence_def)
qed

lemma one_reference_files:
  assumes ok: "files_ok ft s" and q: "check_reference r = Some q"
  shows "files_ok ft (add_one_reference org_id aid cs s q) \<and> evidence_grows ft s (add_one_reference org_id aid cs s q)"
proof -
  obtain ev s1 where st: "store_reference org_id q s = (ev, s1)" by (cases "store_reference org_id q s")
  note f = store_reference_frame[OF st]
  have inv: "evidence_inv s" using ok by (simp add: files_ok_def)
  show ?thesis
    by (rule store_reference_files[OF ok q st])
      (use linked_after_insert[OF inv f(1,2)] in \<open>simp_all add: add_one_reference_def st audited_collects\<close>)
qed

lemma references_files:
  assumes "files_ok ft s" "list_all (\<lambda>q. \<exists>r. check_reference r = Some q) qs"
  shows "files_ok ft (foldl (add_one_reference org_id aid cs) s qs) \<and>
    evidence_grows ft s (foldl (add_one_reference org_id aid cs) s qs)"
  using assms
proof (induction qs arbitrary: s)
  case Nil
  then show ?case using evidence_grows_refl by simp
next
  case (Cons q qs)
  then obtain r where "check_reference r = Some q" by auto
  note 1 = one_reference_files[OF Cons.prems(1) this, of org_id aid cs]
  then show ?case using Cons.IH[of "add_one_reference org_id aid cs s q"] Cons.prems(2)
      evidence_grows_trans[of ft "add_one_reference org_id aid cs s q" s] by simp
qed

lemma serve_evidence_files:
  assumes ok: "files_ok ft s" and run: "serve_evidence ft r s = Inr s'"
  shows "files_ok ft s' \<and> evidence_grows ft s s'"
proof -
  have inv: "evidence_inv s" using ok by (simp add: files_ok_def)
  have same: "files_ok ft s' \<and> evidence_grows ft s s'"
    if "\<not> judging r" "ed_objects s' = ed_objects s" "t_artifact s' = t_artifact s"
    using collects_files[OF ok _ _ that(2,3)] artifact_request_collects[OF inv run that(1)] by blast
  show ?thesis
  proof (cases r)
    case (Judging q)
    then show ?thesis using judging_files[OF ok] run by simp
  next
    case (UploadEvidence org_id aid i up)
    then have "upload_evidence ft org_id aid i up s = Inr s'" using run by (auto dest: map_sum_id_InrD)
    then obtain cs acc ev sha s1 where u: "accept_upload ft up = Inr acc" "store_file ft org_id up acc s = (ev, sha, s1)"
      "s' = in_ed (audit_attached org_id aid cs ev (Some sha)) (in_ed (attach_new (ev_id ev) i) s1)"
      by (auto simp: upload_evidence_def split: sum.splits prod.splits)
    note f = store_file_frame[OF u(2)]
    show ?thesis
      by (rule store_file_files[OF ok u(1,2)]) (use linked_after_insert[OF inv f(1,2)] in \<open>simp_all add: u(3) audited_collects\<close>)
  next
    case (AddReferences org_id aid i refs)
    then have "add_references org_id aid i refs s = Inr s'" using run by (auto dest: map_sum_id_InrD)
    then obtain cs where s': "s' = foldl (add_one_reference org_id aid cs) s (List.map_filter check_reference refs)"
      by (rule add_references_InrD)
    have "list_all (\<lambda>q. \<exists>r. check_reference r = Some q) (List.map_filter check_reference refs)"
      by (induction refs) (auto simp: List.map_filter_simps split: option.split)
    then show ?thesis unfolding s' by (rule references_files[OF ok])
  next
    case (DetachEvidence a b c d e g)
    then have "detach_evidence a b c d e g s = Inr s'" using run by simp
    then obtain u where "s' = in_ed (\<lambda>_. u) s"
      by (auto simp: detach_evidence_def split: sum.splits option.splits if_splits link_error.splits)
    then show ?thesis using same DetachEvidence by simp
  next
    case (CollectFile org_id aid i up)
    then have "collect_task_evidence_file ft org_id aid i up s = Inr s'" using run by (auto dest: map_sum_id_InrD)
    then obtain t acc ev sha s1 where c: "accept_upload ft up = Inr acc" "store_file ft org_id up acc s = (ev, sha, s1)"
      "s' = in_ed (finish_collect org_id t ev) s1" by (rule collect_file_InrD)
    note f = store_file_frame[OF c(2)]
    show ?thesis by (rule store_file_files[OF ok c(1,2)])
        (use finish_collects[OF inv f(1,2)] in \<open>simp_all add: c(3)\<close>)
  next
    case (CollectReference org_id aid i q)
    then have "collect_task_evidence_reference org_id aid i q s = Inr s'" using run by (auto dest: map_sum_id_InrD)
    then obtain t q' ev s1 where c: "check_reference q = Some q'" "store_reference org_id q' s = (ev, s1)"
      "s' = in_ed (finish_collect org_id t ev) s1" by (rule collect_reference_InrD)
    note f = store_reference_frame[OF c(2)]
    show ?thesis by (rule store_reference_files[OF ok c(1,2)])
        (use finish_collects[OF inv f(1,2)] in \<open>simp_all add: c(3)\<close>)
  next
    case (DownloadEvidence a b)
    obtain d where "download_evidence ft a b s = Inr (d, s')"
      using run DownloadEvidence by (cases "download_evidence ft a b s") auto
    then show ?thesis by (rule download_InrD) (use same DownloadEvidence in simp)
  next
    case (AtTimeBy a b c d)
    then show ?thesis using run same by auto
  qed
qed

interpretation artifacts: transactions "serve_evidence ft" "\<lambda>_. True" "files_ok ft"
  "\<lambda>s s'. files_ok ft s \<longrightarrow> files_ok ft s' \<and> evidence_grows ft s s'" for ft
proof unfold_locales
  show "files_ok ft s \<longrightarrow> files_ok ft u \<and> evidence_grows ft s u"
    if "files_ok ft s \<longrightarrow> files_ok ft t \<and> evidence_grows ft s t" "files_ok ft t \<longrightarrow> files_ok ft u \<and> evidence_grows ft t u" for s t u
    using that evidence_grows_trans by blast
qed (use serve_evidence_files evidence_grows_refl in blast)+

lemma run_evidence_ok: "files_ok ft s \<Longrightarrow> files_ok ft (run_evidence ft rs s) \<and> evidence_grows ft s (run_evidence ft rs s)"
  using artifacts.run[of ft s rs] by (simp add: run_evidence_def list_all_iff)

end
