(* ===== verification/Artifact_Properties.thy ===== *)
theory Artifact_Properties
  imports Artifact_Files Example
begin

section \<open>Properties of collected evidence\<close>

text \<open>
  What holds of every sequence of requests about artifacts and assessments: what was uploaded is
  there as it was hashed, what a person took off stays off, and collecting passes no verdict.
\<close>

definition collecting_tenant :: evidence_db where
  "collecting_tenant = \<lparr>ed_api = \<lparr>ad_db = active_tenant, t_statement = []\<rparr>, ed_objects = [], t_artifact = []\<rparr>"

text \<open>Tools to run the examples with: a host that guesses nothing and reads no XML, and a digest
  that keeps the bytes.\<close>

definition plain_tools :: file_tools where
  "plain_tools = \<lparr>ft_guess_type = (\<lambda>_. None), ft_fromstring = (\<lambda>_. Inl (XmlParseError ''no'')),
     ft_tostring = (\<lambda>_. ''''), ft_sha256 = id, ft_storage = MinIOClient\<rparr>"

lemma collecting_tenant_ok: "files_ok plain_tools collecting_tenant"
proof -
  have "evidence_ok active_tenant" by code_simp
  then show ?thesis using active_tenant_ok
    by (simp add: files_ok_def evidence_inv_def api_ok_def collecting_tenant_def statements_unique_def)
qed

text \<open>C36. After any sequence of requests about artifacts and assessments, each committed or rolled
  back: the engine's invariant holds, every link is of an artifact that exists, and every uploaded
  artifact is what it says, as long as storage is configured and identifiers fit in 128 bits: the
  object under its key has the recorded size and digest, one of the permitted types, the signature
  of its type, and is a sanitized tree if it is an SVG; every reference names a location of a
  permitted form. No artifact, no stored object, no audit entry disappears or changes, and
  identifiers are only given out.\<close>

theorem stored_artifacts_stand:
  assumes "files_ok ft s"
  shows "files_ok ft (run_evidence ft rs s) \<and>
    prefix (t_artifact s) (t_artifact (run_evidence ft rs s)) \<and>
    prefix (t_evidence (ed_db s)) (t_evidence (ed_db (run_evidence ft rs s))) \<and>
    append_only (ed_db s) (ed_db (run_evidence ft rs s)) \<and>
    (usable ft (run_evidence ft rs s) \<longrightarrow>
       (\<forall>a \<in> set (t_artifact s). object_of a (run_evidence ft rs s) = object_of a s))"
  using run_evidence_ok[OF assms, of rs] assms by (simp add: evidence_grows_def)

definition uploaded_text :: upload where
  "uploaded_text = \<lparr>up_filename = Some ''a/b.TXT'', up_content_type = Some ''text/plain'', up_data = ''hello'',
     up_artifact_type = ''export'', up_title = None\<rparr>"

theorem stored_artifacts_stand_witness:
  "files_ok plain_tools (run_evidence plain_tools
     [UploadEvidence 1 70 81 uploaded_text, Judging (DeactivateProduct 1 70 30 None None ''e'')] collecting_tenant) \<and>
   accept_upload plain_tools uploaded_text = Inr (''b.TXT'', ''.txt'', ''text/plain'', ''hello'')"
proof -
  have names: "safe_filename ''a/b.TXT'' = ''b.TXT''"
    by (simp add: safe_filename_def or_text_def)
  have "splitext ''b.TXT'' = ''.TXT''" by (simp add: splitext_def Let_def)
  moreover have "py_lower ''.TXT'' = ''.txt''" by code_simp
  ultimately have ext: "py_lower (splitext ''b.TXT'') = ''.txt''" by simp
  have "accept_upload plain_tools uploaded_text = Inr (''b.TXT'', ''.txt'', ''text/plain'', ''hello'')"
    by (simp add: accept_upload_def uploaded_text_def or_text_def names ext ARTIFACT_TYPES_def MAX_FILE_BYTES_def Let_def
        ALLOWED_EXTENSIONS_def ALLOWED_MIME_TYPES_def verify_magic_bytes_def sanitize_if_svg_def SVG_MIME_def)
  then show ?thesis using stored_artifacts_stand[OF collecting_tenant_ok] by blast
qed

text \<open>C12. Every link of an artifact goes through its life, and there is no way back from being taken
  off: over any sequence of requests about artifacts and assessments every link of the database
  goes through a run of the step relation made of deactivations, reactivations and detachments, new
  links are born live, and a link that a person took off is the same row at the end, whatever
  products were activated again in between.\<close>

theorem taken_off_never_returns:
  assumes "files_ok ft s"
  shows "links_grow (ed_db s) (ed_db (run_evidence ft rs s)) \<and>
    (\<forall>l \<in> set (t_link (ed_db s)). ln_is_archived l \<and> ln_archived_by_product l = None \<longrightarrow>
       l \<in> set (t_link (ed_db (run_evidence ft rs s))))"
proof -
  have g: "links_grow (ed_db s) (ed_db (run_evidence ft rs s))"
    using run_evidence_ok[OF assms, of rs] by (simp add: evidence_grows_def)
  then obtain old new where o: "t_link (ed_db (run_evidence ft rs s)) = old @ new" "list_all2 passes (t_link (ed_db s)) old"
    unfolding links_grow_def by blast
  have "l \<in> set (t_link (ed_db (run_evidence ft rs s)))"
    if l: "l \<in> set (t_link (ed_db s))" "ln_is_archived l" "ln_archived_by_product l = None" for l
  proof -
    obtain l' where l': "l' \<in> set old" "passes l l'" using list_all2_to[OF o(2) l(1)] by blast
    then show ?thesis using passes_detached[OF l'(2) l(2,3)] o(1) by simp
  qed
  then show ?thesis using g by blast
qed

theorem taken_off_never_returns_witness:
  "\<exists>l. l \<in> set (t_link (ed_db (run_evidence plain_tools
       [Judging (DeactivateProduct 1 70 30 None None ''e''), Judging (ActivateProduct 1 70 30 None None),
        DetachEvidence 1 70 81 95 None ''e''] collecting_tenant))) \<and> ln_id l = 97 \<and> ln_is_archived l"
proof -
  let ?rs = "[Judging (DeactivateProduct 1 70 30 None None ''e''), Judging (ActivateProduct 1 70 30 None None),
        DetachEvidence 1 70 81 95 None ''e'']"
  have l: "detached_link \<in> set (t_link (ed_db collecting_tenant))" "ln_id detached_link = 97" "ln_is_archived detached_link"
    "ln_archived_by_product detached_link = None"
    by (simp_all add: collecting_tenant_def active_tenant_def detached_link_def)
  have "detached_link \<in> set (t_link (ed_db (run_evidence plain_tools ?rs collecting_tenant)))"
    using conjunct2[OF taken_off_never_returns[OF collecting_tenant_ok, of ?rs]] l(1,3,4) by simp
  then show ?thesis using l(2,3) by (intro exI[of _ detached_link] conjI)
qed

lemma run_judged_by:
  assumes "files_ok ft s"
    and "get_state i (ed_db (run_evidence ft rs s)) = Some cs'" "cs_status cs' \<in> set JUDGED_STATUSES"
  shows "(\<exists>cs. get_state i (ed_db s) = Some cs \<and> cs_status cs = cs_status cs') \<or>
     (\<exists>org_id aid. Judging (PatchControlState org_id aid i (status_value (cs_status cs'))) \<in> set rs)"
  using assms
proof (induction rs arbitrary: s)
  case Nil
  then show ?case by (simp add: run_evidence_def)
next
  case (Cons r rs)
  show ?case
  proof (cases "serve_evidence ft r s")
    case (Inl e)
    then have "run_evidence ft (r # rs) s = run_evidence ft rs s" by (simp add: run_evidence_def)
    then show ?thesis using Cons.IH[OF Cons.prems(1)] Cons.prems(2,3) by auto
  next
    case (Inr t)
    have run: "run_evidence ft (r # rs) s = run_evidence ft rs t" using Inr by (simp add: run_evidence_def)
    have inv: "evidence_inv s" using Cons.prems(1) by (simp add: files_ok_def)
    note ih = Cons.IH[OF conjunct1[OF serve_evidence_files[OF Cons.prems(1) Inr]] Cons.prems(2)[unfolded run] Cons.prems(3)]
    have first: "(\<exists>cs. get_state i (ed_db s) = Some cs \<and> cs_status cs = cs_status cs') \<or>
        (\<exists>org_id aid. r = Judging (PatchControlState org_id aid i (status_value (cs_status cs'))))"
      if cs: "get_state i (ed_db t) = Some cs" "cs_status cs = cs_status cs'" for cs
    proof (cases "judging r")
      case True
      then obtain q where r: "r = Judging q" by (cases r) auto
      obtain u where q: "serve_api q (ed_api s) = Inr u" "t = s\<lparr>ed_api := u\<rparr>"
        using Inr by (cases "serve_api q (ed_api s)") (auto simp: r)
      have "api_ok (ed_api s)" using inv by (simp add: evidence_inv_def)
      from judged_by[OF this q(1), of i cs] cs Cons.prems(3) q(2) show ?thesis unfolding r by auto
    next
      case False
      then have "t_cstate (ed_db t) = t_cstate (ed_db s)"
        using artifact_request_collects[OF inv Inr] by (simp add: collects_def)
      then show ?thesis using cs by auto
    qed
    show ?thesis unfolding run using ih first by auto
  qed
qed

lemma run_without_judging:
  assumes "files_ok ft s" "list_all (\<lambda>r. \<not> judging r) rs"
  shows "t_cstate (ed_db (run_evidence ft rs s)) = t_cstate (ed_db s) \<and>
    t_assessment (ed_db (run_evidence ft rs s)) = t_assessment (ed_db s) \<and>
    t_history (ed_db (run_evidence ft rs s)) = t_history (ed_db s)"
  using assms
proof (induction rs arbitrary: s)
  case (Cons r rs)
  show ?case
  proof (cases "serve_evidence ft r s")
    case (Inl e)
    then have "run_evidence ft (r # rs) s = run_evidence ft rs s" by (simp add: run_evidence_def)
    then show ?thesis using Cons by simp
  next
    case (Inr t)
    have run: "run_evidence ft (r # rs) s = run_evidence ft rs t" using Inr by (simp add: run_evidence_def)
    have "evidence_inv s" using Cons.prems(1) by (simp add: files_ok_def)
    then have "collects (ed_db s) (ed_db t)" using artifact_request_collects[OF _ Inr] Cons.prems(2) by simp
    then show ?thesis
      using Cons.IH[OF conjunct1[OF serve_evidence_files[OF Cons.prems(1) Inr]]] Cons.prems(2) by (simp add: run collects_def)
  qed
qed (simp add: run_evidence_def)

text \<open>C2. Collecting evidence passes no verdict. Over any sequence of requests about artifacts and
  assessments, a control state that ends with a judged status had that status before or was given it
  by a person's patch of this very state in the sequence; and a sequence without a request to the
  assessment endpoints leaves every control state, every score and the history as they were.\<close>

theorem collecting_never_judges:
  assumes "files_ok ft s"
  shows "(\<forall>i cs'. get_state i (ed_db (run_evidence ft rs s)) = Some cs' \<and> cs_status cs' \<in> set JUDGED_STATUSES \<longrightarrow>
      (\<exists>cs. get_state i (ed_db s) = Some cs \<and> cs_status cs = cs_status cs') \<or>
      (\<exists>org_id aid. Judging (PatchControlState org_id aid i (status_value (cs_status cs'))) \<in> set rs)) \<and>
    (list_all (\<lambda>r. \<not> judging r) rs \<longrightarrow>
       t_cstate (ed_db (run_evidence ft rs s)) = t_cstate (ed_db s) \<and>
       t_assessment (ed_db (run_evidence ft rs s)) = t_assessment (ed_db s) \<and>
       t_history (ed_db (run_evidence ft rs s)) = t_history (ed_db s))"
  using run_judged_by[OF assms] run_without_judging[OF assms] by blast

theorem collecting_never_judges_witness:
  "\<exists>org_id aid. Judging (PatchControlState org_id aid 80 ''met'') \<in>
     set [AddReferences 1 70 80 [], Judging (PatchControlState 1 70 80 ''met'')] \<and>
   map_option cs_status (get_state 80 (ed_db (run_evidence plain_tools
     [AddReferences 1 70 80 [], Judging (PatchControlState 1 70 80 ''met'')] collecting_tenant))) = Some Met"
proof -
  let ?rs = "[AddReferences 1 70 80 [], Judging (PatchControlState 1 70 80 ''met'')]"
  have m: "map_option cs_status (get_state 80 (ed_db (run_evidence plain_tools ?rs collecting_tenant))) = Some Met"
    "map_option cs_status (get_state 80 (ed_db collecting_tenant)) = Some PendingEvidence" by code_simp+
  then obtain cs where cs: "get_state 80 (ed_db (run_evidence plain_tools ?rs collecting_tenant)) = Some cs" "cs_status cs = Met"
    by auto
  have "(\<exists>c. get_state 80 (ed_db collecting_tenant) = Some c \<and> cs_status c = cs_status cs) \<or>
      (\<exists>org_id aid. Judging (PatchControlState org_id aid 80 (status_value (cs_status cs))) \<in> set ?rs)"
    using conjunct1[OF collecting_never_judges[OF collecting_tenant_ok, of ?rs]] cs by (simp add: JUDGED_STATUSES_def)
  then show ?thesis using m cs(2) by auto
qed

text \<open>C14. Collecting an artifact for a task, as a file or as a reference: an accepted request is for a
  task that exists and is not archived; it adds one artifact, one live link of it to every control
  state the task covers and no other link, puts the task at collected with that artifact, changes
  no other task, and leaves one audit entry that counts the links it made.\<close>

theorem collecting_covers_the_task:
  assumes "files_ok ft s" "serve_evidence ft r s = Inr s'" "is_collect i r"
  shows "\<exists>t ev new a. tget tk_id i (t_task (ed_db s)) = Some t \<and> \<not> tk_is_archived t \<and>
    t_evidence (ed_db s') = t_evidence (ed_db s) @ [ev] \<and> ev_id ev \<notin> ev_id ` set (t_evidence (ed_db s)) \<and>
    t_link (ed_db s') = t_link (ed_db s) @ new \<and>
    list_all (\<lambda>l. \<not> ln_is_archived l \<and> ln_evidence_id l = ev_id ev) new \<and> distinct (map ln_state_id new) \<and>
    set (map ln_state_id new) = covered_states i (ed_db s) \<and>
    t_task (ed_db s') = tupd tk_id i (task_collected ev) (t_task (ed_db s)) \<and>
    t_audit (ed_db s') = t_audit (ed_db s) @ [a] \<and> al_action a = ''evidence_task.collect'' \<and>
    al_after a = Some [(''evidence_id'', JUuid (ev_id ev)), (''kind'', JStr (ev_kind ev)), (''title'', JStr (ev_title ev)),
      (''links_created'', JInt (int (length new)))]"
proof -
  have inv: "evidence_inv s" using assms(1) by (simp add: files_ok_def)
  obtain t ev where t: "tget tk_id i (t_task (ed_db s)) = Some t" "\<not> tk_is_archived t" "collected i ev (ed_db s) (ed_db s')"
    using collect_effect[OF inv assms(2,3)] by blast
  from t(3) obtain new a where n: "t_link (ed_db s') = t_link (ed_db s) @ new" "distinct (map ln_state_id new)"
    "set (map ln_state_id new) = covered_states i (ed_db s)" "t_audit (ed_db s') = t_audit (ed_db s) @ [a]"
    "al_action a = ''evidence_task.collect''"
    "list_all (\<lambda>l. \<not> ln_is_archived l \<and> ln_evidence_id l = ev_id ev) new"
    "al_after a = Some [(''evidence_id'', JUuid (ev_id ev)), (''kind'', JStr (ev_kind ev)), (''title'', JStr (ev_title ev)),
      (''links_created'', JInt (int (card (covered_states i (ed_db s)))))]"
    unfolding collected_def by blast
  have "card (covered_states i (ed_db s)) = length new" using distinct_card[OF n(2)] n(3) by simp
  then show ?thesis using t n unfolding collected_def by (intro exI[of _ t] exI[of _ ev] exI[of _ new] exI[of _ a]) simp
qed

definition named_place :: reference_in where
  "named_place = \<lparr>rf_title = '' T '', rf_location = ''C:/x'', rf_artifact_type = ''link''\<rparr>"

theorem collecting_covers_the_task_witness:
  "\<exists>s' t. serve_evidence plain_tools (CollectReference 1 70 93 named_place) collecting_tenant = Inr s' \<and>
     tget tk_id 93 (t_task (ed_db collecting_tenant)) = Some t \<and> \<not> tk_is_archived t \<and>
     map ln_state_id (t_link (ed_db s')) = [80, 81, 80]"
proof -
  let ?r = "CollectReference 1 70 93 named_place"
  have q: "check_reference named_place = Some \<lparr>rf_title = ''T'', rf_location = ''C:/x'', rf_artifact_type = ''link''\<rparr>"
    by code_simp
  have "case serve_evidence plain_tools ?r collecting_tenant of Inl _ \<Rightarrow> False
    | Inr s' \<Rightarrow> map ln_state_id (t_link (ed_db s')) = [80, 81, 80]" by code_simp
  then obtain s' where s': "serve_evidence plain_tools ?r collecting_tenant = Inr s'"
    "map ln_state_id (t_link (ed_db s')) = [80, 81, 80]" by (auto split: sum.splits)
  obtain t where "tget tk_id 93 (t_task (ed_db collecting_tenant)) = Some t" "\<not> tk_is_archived t"
    using collecting_covers_the_task[OF collecting_tenant_ok s'(1), of 93] by auto
  then show ?thesis using s' by (intro exI[of _ s'] exI[of _ t] conjI)
qed

end
