(* ===== verification/Spec2Isabelle.thy ===== *)
theory Spec2Isabelle
  imports Engine_Properties Assessment_Api_Properties Preview_Properties Evidence_Properties Move_Properties Lifecycle_Properties Review_Properties Review_Sweep Scope_Properties Scheduler_Properties Document_Cadence
    Upload_Properties Artifact_Properties
begin

text \<open>
  A verification development for WinGRC, a compliance register for CMMC level 2 (110 practices,
  320 assessment objectives) kept by a service provider for its client organizations. Modelled is
  the server's core, \<open>src/backend/app\<close>: what decides the status of an objective, the
  score that follows from it, and the evidence, reviews, scope and documents the status rests on.
\<close>

section \<open>The program and its parts\<close>

text \<open>
  An \<^emph>\<open>assessment\<close> of an organization has one \<^emph>\<open>control state\<close> per
  objective of its framework: a status, a responsibility and the evidence linked to it. A
  \<^emph>\<open>product\<close> of the library has baseline versions that claim objectives; when an
  organization activates the product, the \<^emph>\<open>magic loop\<close> lets each claimed state know
  of its contributor, hands the state back to a person when a verdict no longer rests on what it
  did, and fans out the evidence tasks. Deactivating and moving to another version undo and redo
  this. The stored \<^emph>\<open>SPRS score\<close> is recomputed by each. Next to it stand the periodic
  review of authorized users and devices, whose records become evidence; the scope graph of users,
  devices and other entities, fed by a connector, by imports and by people; the documents
  (policies and procedures) whose published versions become evidence; and the scheduler that runs
  the jobs of all of these.

  The server is a set of requests and jobs over one PostgreSQL database. The model of a component
  is a record of its tables, one function per operation from the tables (and what the caller gives)
  to a result, and, on top, the handler that checks and calls it. A request is one transaction: it
  returns the new tables or an error, and an error leaves the tables alone. The databases are
  layered as the components use each other: \<open>db\<close> (the engine's tables and the audit
  log), \<open>assessment_db\<close> (with the implementation statements), \<open>document_db\<close> (with
  the documents), \<open>evidence_db\<close> (with the object store), \<open>review_db\<close> (the engine's with the reviews) and \<open>scope_db\<close> (the
  reviews' with the pulls and acceptance records); the scheduler's machine is polymorphic in the
  database its jobs work on.
\<close>

section \<open>Theories and sources\<close>

text \<open>
  Paths are below \<open>src/backend/app\<close>.

  Shared:
  \<^item> \<open>Prelude\<close>: tables as lists of rows with a key (\<open>tget\<close>, \<open>tupd\<close>,
    \<open>insert_rows\<close>, \<open>pk_ok\<close>), Python's dictionaries in insertion order, failing
    folds, Python's \<open>str.strip\<close> and \<open>str.lower\<close>, the locale
    \<open>keyed_update\<close>.
  \<^item> \<open>Date_Time\<close>, \<open>Text_Format\<close>: what the code uses of \<open>datetime\<close>,
    \<open>calendar\<close>, \<open>html.escape\<close>, \<open>isoformat\<close> and \<open>repr\<close>.
  \<^item> \<open>Transactions\<close>: sequences of requests, each committed or rolled back (locale
    \<open>transactions\<close>).
  \<^item> \<open>Schema\<close>, \<open>Tables\<close>: \<open>models.py\<close>'s tables as records, lookups and
    updates, \<open>schema_ok\<close>; \<open>audit.log_event\<close>.
  \<^item> \<open>Example\<close>, \<open>Review_Example\<close>, \<open>Scope_Example\<close>: small tenants the
    witnesses evaluate the definitions on.

  The engine:
  \<^item> \<open>Assessment_Rules\<close>: \<open>assessment.py\<close>, the pure rules.
  \<^item> \<open>Evidence_Links\<close>: \<open>evidence_links.py\<close>, and the life of one link as a step
    relation.
  \<^item> \<open>Scoring\<close>, \<open>Magic_Loop\<close>, \<open>Fanout\<close>, \<open>Activation\<close>,
    \<open>Deactivation\<close>, \<open>Version_Move\<close>, \<open>Lifecycle\<close>: \<open>engine.py\<close>, in
    its order.
  \<^item> \<open>Effects\<close>, \<open>Loop_Facts\<close>, \<open>Run_Loop\<close>, \<open>Fanout_Facts\<close>,
    \<open>Activation_Facts\<close>, \<open>Deactivation_Facts\<close>, \<open>Move_Facts\<close>,
    \<open>Lifecycle_Facts\<close>: what each operation leaves alone (\<open>touches\<close>) and what it
    writes; \<open>Engine_Invariant\<close> is what holds between requests, \<open>Requests\<close> the
    engine's requests as one type and \<open>serve\<close>, \<open>Success\<close> when operations return,
    \<open>Api_Links\<close> what they and the endpoints do to evidence links.
  \<^item> \<open>Judgement_Facts\<close>, \<open>Score_Facts\<close>, \<open>Activation_Outcome\<close>, and the
    \<open>_Properties\<close> of the engine, the previews, the evidence, the moves and the life cycle.
  \<^item> \<open>Assessment_Api\<close>, \<open>Assessment_Api_Facts\<close>,
    \<open>Assessment_Api_Properties\<close>: the handlers of \<open>routers/assessments.py\<close>.

  The periodic review:
  \<^item> \<open>Notifications\<close>, \<open>Review_Cycles\<close>: \<open>review_cycles.py\<close> and the
    trigger of migration 0046; \<open>Review_Jobs\<close>: the jobs of \<open>scheduler.py\<close> and the
    handlers of \<open>routers/review_cycles.py\<close>; \<open>App_Requests\<close>: these with the
    engine's requests as one machine.
  \<^item> \<open>Review_Facts\<close>, \<open>Review_Steps\<close>, \<open>Review_Records\<close>,
    \<open>Review_Outcome\<close>, \<open>Review_Sweep\<close>, \<open>Review_Properties\<close>.

  The scope graph:
  \<^item> \<open>Scope_Domain\<close>: \<open>domain.py\<close>, \<open>natural_key.py\<close>;
    \<open>Reconcile\<close>: \<open>reconcile.py\<close>; \<open>Scope_Store\<close>: \<open>repo.py\<close> and the
    writing handlers of \<open>routers/scope.py\<close>; \<open>Scope_Sync\<close>:
    \<open>liongard_sync.py\<close> and \<open>routers/liongard_sync.py\<close>.
  \<^item> \<open>Reconcile_Facts\<close>, \<open>Scope_Facts\<close>, \<open>Scope_Invariant\<close>,
    \<open>Scope_Properties\<close>.

  The scheduler:
  \<^item> \<open>Scheduler\<close>: \<open>scheduler.py\<close> from \<open>last_run_for\<close> to
    \<open>run_due_jobs\<close>, any number of processes interleaved between database calls;
    \<open>Scheduled_Reviews\<close>: the review jobs as its bodies; \<open>Scheduler_Facts\<close>,
    \<open>Scheduler_Properties\<close>.

  Collected evidence:
  \<^item> \<open>Svg_Sanitize\<close>: \<open>svg_sanitize.py\<close>; \<open>Storage\<close>: the store's clients and
    the names of downloads in \<open>storage.py\<close>, with a reader of the header they end up in;
    \<open>Evidence_Artifacts\<close>: the writing handlers of \<open>routers/evidence.py\<close>, and these with
    the assessment endpoints as one machine.
  \<^item> \<open>Upload_Properties\<close>, \<open>Artifact_Facts\<close> (what a request about artifacts leaves
    alone), \<open>Artifact_Files\<close> (what is stored), \<open>Artifact_Properties\<close>.

  Documents:
  \<^item> \<open>Documents\<close>: \<open>document_reviews.py\<close>'s cadence and approvals and the
    document half of \<open>routers/documents.py\<close>; \<open>Document_Evidence\<close>:
    \<open>document_evidence.py\<close>, its handlers and the tags, and all requests about documents and
    assessments as one machine.
  \<^item> \<open>Document_Facts\<close>, \<open>Document_Steps\<close>, \<open>Document_Links\<close>,
    \<open>Document_Attach\<close>, \<open>Document_Properties\<close>, \<open>Document_Cadence\<close>.
\<close>

section \<open>What is shown\<close>

text \<open>
  Each machine has an invariant that every sequence of its requests keeps, from any state that
  satisfies it, and the properties say what else such a sequence can and cannot do.

  \<^item> Engine and assessment endpoints: the constraints of the schema hold, every stored score is
    the score of its control states, the history accounts for every status, the ledgers only grow;
    a verdict is only ever passed by a person's request, and only such a request raises a score; the
    score is 110 less the weights of the unmet practices and lies between -204 and 110; what an
    activation makes of each state on every branch, exactly which decisions it accepts, that its
    preview tells the truth; what a deactivation flags and archives, and what activating again
    brings back; the life of a link; that a move touches only differences; seeding, backfill and
    RACI.
  \<^item> Reviews: one open cycle per organization, what a closed cycle says is true and final, the
    record of a cycle nobody attested is never evidence, no reminder twice, the outcome of an
    attestation on both branches, and that a sweep returns and settles every cycle past its
    deadline.
  \<^item> Scope: no import or pull decides what a person decides, a transcription never overwrites
    what a connector observed, reconciling classifies every key exactly once and finds what was
    applied unchanged, and a decision on a new entity is final and on record.
  \<^item> Scheduler: runs of one job never overlap, however many processes poll and die, and a poll
    ends, having run exactly what is due. A job may run twice within its interval
    (\<open>runs_twice\<close>).
  \<^item> Documents: what was published and approved stands, only publishing approves, a save over
    an outdated version is refused for good, the links of documents are moved by people only and
    rest on published versions and on tags, and approving renews.
  \<^item> Collected evidence: what is kept of an uploaded SVG holds nothing that is not allowed, a title
    cannot break out of the header of its download, every stored object is what was hashed and
    stays, a link a person took off never comes back whatever is activated again, collecting for a
    task reaches exactly what the task covers, and none of it passes a verdict.

  The interfaces are locales: \<open>keyed_update\<close> (an update of a row that keeps its key),
  interpreted for states, scores and links; \<open>db_step\<close> (the contract of an operation of the
  engine), interpreted for \<open>serve\<close>; \<open>notification_row\<close>, for reviewers;
  \<open>transactions\<close>, for the endpoints, the application's machine, the scope graph (three
  times: all requests, the feeds, the transcriptions), the documents and the artifacts.
\<close>

section \<open>Modelling choices\<close>

text \<open>
  \<^item> Identifiers are naturals and a counter stands for \<open>uuid4\<close>, of which the code uses
    only that it does not repeat. A query without \<open>ORDER BY\<close> returns rows in the order of
    insertion. Python's integers are \<open>int\<close>; no column's width is reached by what the
    modelled code computes, except the years of \<open>datetime\<close>, which are bounded in the model
    as in Python (an operation that leaves them raises).
  \<^item> Errors are values: the code's exceptions, the database's \<open>IntegrityError\<close> where a
    constraint can fail, and a handler's \<open>HTTPException\<close> with status and detail.
  \<^item> All recursion is structural or has a termination proof; the reminder loop and the
    scheduler's poll have a measure, and no fuel is used anywhere.
  \<^item> Parameters, where the program calls what is not in \<open>src\<close> or is outside the model:
    \<open>coll\<close>, the sort key of PostgreSQL's collation; \<open>send\<close>, the mail server's answer;
    the deployment's public address; \<open>validate\<close>, the attribute schemas of a scope entity;
    the XML parser and serializer behind the SVG
    sanitizer, SHA-256 and the type a host guesses from a name; \<open>liongard_pull\<close>, what a pull and its importer return; \<open>lock_key\<close>, the digest
    behind a lock; \<open>message\<close>, the text of an exception; the bodies of the scheduler's other
    jobs.
  \<^item> Requests are atomic: each is one transaction and the rows two of them write are locked or
    under a unique constraint. The scheduler is the exception, where the interleaving is the point:
    there, processes interleave between any two calls of the database.
\<close>

section \<open>Not modelled\<close>

text \<open>
  The manifest lists every other part with its reason. In short: the handlers that only read; the
  library of products and lists and its editing (\<open>routers/admin_products.py\<close>,
  \<open>list_library.py\<close> and the modules around it), whose tables the engine reads as they are;
  the bundles an assessor receives and their snapshots, which only render; importers and
  connectors, which parse foreign formats or call services; users, sign-in and row security, which
  rest on cryptography and on PostgreSQL's policies; rendering, storage, encryption, the command
  line, configuration and migrations.
\<close>

end
